(* ===== verification/Prelude.thy ===== *)
theory Prelude
  imports Main "HOL-Library.Word"
begin

text \<open>
  Shared vocabulary of the riscv-pke model: the machine integers of \<^verbatim>\<open>util/types.h\<close>, the
  page geometry of \<^verbatim>\<open>kernel/riscv.h\<close>, the rounding macros of \<^verbatim>\<open>util/functions.h\<close>, and the
  computation type in which every kernel operation is written.

  A kernel operation takes the kernel state and either returns a value or stops; in both cases
  it leaves a state behind, because C has already performed its writes when it panics, kills
  the current process or switches to another one.  The reasons for stopping (\<open>kstop\<close>) are the
  calls of the source that never return to their caller.  \<open>kwp\<close> is the weakest-precondition
  reading of an operation, and the collection \<open>kwp_simps\<close> computes it along the operation's
  structure; \<open>kwhile\<close> is the source's loop with its rule \<open>kwp_while\<close>.
\<close>

unbundle bit_operations_syntax

named_theorems kwp_simps
named_theorems page_simps

section \<open>Machine integers and pages\<close>

type_synonym u8 = "8 word"
type_synonym u16 = "16 word"
type_synonym u32 = "32 word"
type_synonym i32 = "32 word"
type_synonym u64 = "64 word"

definition PGSIZE :: u64 where
  "PGSIZE = 4096"

definition ROUNDUP :: "u64 \<Rightarrow> u64 \<Rightarrow> u64" where
  "ROUNDUP a b = ((a - 1) div b + 1) * b"

definition ROUNDDOWN :: "u64 \<Rightarrow> u64 \<Rightarrow> u64" where
  "ROUNDDOWN a b = a div b * b"

abbreviation page_aligned :: "u64 \<Rightarrow> bool" where
  "page_aligned a \<equiv> a mod PGSIZE = 0"

section \<open>Computations that may stop\<close>

text \<open>
  \<open>Kill\<close> is a call of \<^verbatim>\<open>kill_current_process\<close>, \<open>Panic\<close> a failed \<^verbatim>\<open>assert\<close>/\<^verbatim>\<open>kassert\<close> or a
  \<^verbatim>\<open>panic\<close>, \<open>Shutdown\<close> the call of \<^verbatim>\<open>shutdown\<close>, \<open>Run p\<close> the entry into user mode as process
  \<open>p\<close> (\<^verbatim>\<open>switch_to\<close> ends in \<^verbatim>\<open>sret\<close>), \<open>Wfi\<close> an endless \<^verbatim>\<open>wfi\<close> loop, \<open>Spin\<close> waiting for a lock
  that nobody on this hart releases, \<open>Diverge\<close> any other endless loop and \<open>Fault\<close> a use of a
  null pointer or of an array out of its bounds, where C says nothing.
\<close>

datatype kstop = Kill string int | Panic string | Shutdown int | Run nat | Wfi | Spin
  | Diverge | Fault string

type_synonym ('s, 'a) km = "'s \<Rightarrow> (kstop + 'a) \<times> 's"

definition kreturn :: "'a \<Rightarrow> ('s, 'a) km" where
  "kreturn x = (\<lambda>s. (Inr x, s))"

definition kbind :: "('s, 'a) km \<Rightarrow> ('a \<Rightarrow> ('s, 'b) km) \<Rightarrow> ('s, 'b) km" where
  "kbind m f = (\<lambda>s. case m s of (Inl e, t) \<Rightarrow> (Inl e, t) | (Inr x, t) \<Rightarrow> f x t)"

definition kthen :: "('s, unit) km \<Rightarrow> ('s, 'b) km \<Rightarrow> ('s, 'b) km" where
  "kthen m n = kbind m (\<lambda>_. n)"

definition kraise :: "kstop \<Rightarrow> ('s, 'a) km" where
  "kraise e = (\<lambda>s. (Inl e, s))"

definition kget :: "('s \<Rightarrow> 'a) \<Rightarrow> ('s, 'a) km" where
  "kget f = (\<lambda>s. (Inr (f s), s))"

definition kput :: "('s \<Rightarrow> 's) \<Rightarrow> ('s, unit) km" where
  "kput f = (\<lambda>s. (Inr (), f s))"

definition kwhen :: "bool \<Rightarrow> ('s, unit) km \<Rightarrow> ('s, unit) km" where
  "kwhen b m = (if b then m else kreturn ())"

primrec kfor :: "'i list \<Rightarrow> ('i \<Rightarrow> ('s, unit) km) \<Rightarrow> ('s, unit) km" where
  "kfor [] b = kreturn ()"
| "kfor (i # is) b = kthen (b i) (kfor is b)"

text \<open>
  A loop of the source over a loop state \<open>x\<close>: guard \<open>g\<close>, body \<open>b\<close>, and a bound on the number
  of iterations after which the loop is taken to run forever.
\<close>

primrec kwhile :: "nat \<Rightarrow> ('a \<Rightarrow> bool) \<Rightarrow> ('a \<Rightarrow> ('s, 'a) km) \<Rightarrow> 'a \<Rightarrow> ('s, 'a) km" where
  "kwhile 0 g b x = (if g x then kraise Diverge else kreturn x)"
| "kwhile (Suc n) g b x = (if g x then kbind (b x) (kwhile n g b) else kreturn x)"

text \<open>\<open>n\<close> calls of an operation, with their results.\<close>

primrec kcollect :: "nat \<Rightarrow> ('s, 'a) km \<Rightarrow> ('s, 'a list) km" where
  "kcollect 0 m = kreturn []"
| "kcollect (Suc n) m = kbind m (\<lambda>x. kbind (kcollect n m) (\<lambda>xs. kreturn (x # xs)))"

text \<open>\<open>n\<close> runs of an operation that stops, each from the state the last one left behind.\<close>

primrec krepeat :: "nat \<Rightarrow> ('s, unit) km \<Rightarrow> 's \<Rightarrow> kstop list \<times> 's" where
  "krepeat 0 m s = ([], s)"
| "krepeat (Suc n) m s = (case m s of
     (Inl e, t) \<Rightarrow> (let (es, u) = krepeat n m t in (e # es, u))
   | (Inr _, t) \<Rightarrow> krepeat n m t)"

lemma kbind_get: "kbind (kget f) g s = g (f s) s"
  by (simp add: kbind_def kget_def)

lemma kbind_run: "m s = (Inr x, t) \<Longrightarrow> kbind m f s = f x t"
  by (simp add: kbind_def)

section \<open>Weakest preconditions\<close>

text \<open>\<open>Q\<close> is what a returned value and its state satisfy, \<open>E\<close> what a stop leaves behind.\<close>

definition kwp :: "('s, 'a) km \<Rightarrow> ('a \<Rightarrow> 's \<Rightarrow> bool) \<Rightarrow> (kstop \<Rightarrow> 's \<Rightarrow> bool) \<Rightarrow> 's \<Rightarrow> bool" where
  "kwp m Q E s = (case m s of (Inl e, t) \<Rightarrow> E e t | (Inr x, t) \<Rightarrow> Q x t)"

lemma kwp_return [kwp_simps]: "kwp (kreturn x) Q E = Q x"
  by (simp add: kwp_def kreturn_def fun_eq_iff)

lemma kwp_bind [kwp_simps]: "kwp (kbind m f) Q E = kwp m (\<lambda>x. kwp (f x) Q E) E"
  by (auto simp: kwp_def kbind_def fun_eq_iff split: prod.splits sum.splits)

lemma kwp_then [kwp_simps]: "kwp (kthen m n) Q E = kwp m (\<lambda>_. kwp n Q E) E"
  by (simp add: kthen_def kwp_bind)

lemma kwp_raise [kwp_simps]: "kwp (kraise e) Q E = E e"
  by (simp add: kwp_def kraise_def fun_eq_iff)

lemma kwp_get [kwp_simps]: "kwp (kget f) Q E = (\<lambda>s. Q (f s) s)"
  by (simp add: kwp_def kget_def fun_eq_iff)

lemma kwp_put [kwp_simps]: "kwp (kput f) Q E = (\<lambda>s. Q () (f s))"
  by (simp add: kwp_def kput_def fun_eq_iff)

lemma kwp_if [kwp_simps]:
  "kwp (if b then m else n) Q E = (\<lambda>s. if b then kwp m Q E s else kwp n Q E s)"
  by simp

lemma kwp_when [kwp_simps]:
  "kwp (kwhen b m) Q E = (\<lambda>s. if b then kwp m Q E s else Q () s)"
  by (simp add: kwhen_def kwp_return)

lemma kwp_option [kwp_simps]:
  "kwp (case x of None \<Rightarrow> m | Some y \<Rightarrow> n y) Q E =
     (\<lambda>s. case x of None \<Rightarrow> kwp m Q E s | Some y \<Rightarrow> kwp (n y) Q E s)"
  by (cases x) simp_all

lemma kwp_let [kwp_simps]: "kwp (Let x f) Q E = (\<lambda>s. let y = x in kwp (f y) Q E s)"
  by (simp add: Let_def)

lemma kwp_for_Nil [kwp_simps]: "kwp (kfor [] b) Q E = Q ()"
  by (simp add: kwp_return)

lemma kwp_for_Cons [kwp_simps]:
  "kwp (kfor (i # is) b) Q E = kwp (b i) (\<lambda>_. kwp (kfor is b) Q E) E"
  by (simp add: kwp_then)

lemma kwp_mono:
  assumes "kwp m Q E s" and "\<And>x t. Q x t \<Longrightarrow> Q' x t" and "\<And>e t. E e t \<Longrightarrow> E' e t"
  shows "kwp m Q' E' s"
  using assms by (auto simp: kwp_def split: prod.splits sum.splits)

lemma kwp_conj:
  assumes "kwp m Q E s" and "kwp m Q' E' s"
  shows "kwp m (\<lambda>x t. Q x t \<and> Q' x t) (\<lambda>e t. E e t \<and> E' e t) s"
  using assms by (auto simp: kwp_def split: prod.splits sum.splits)

lemma kwp_run:
  assumes "kwp m Q E s" and "m s = (Inr x, t)"
  shows "Q x t"
  using assms by (simp add: kwp_def)

lemma kwp_total:
  assumes "kwp m Q (\<lambda>_ _. False) s"
  shows "\<exists>x t. m s = (Inr x, t) \<and> Q x t"
  using assms by (auto simp: kwp_def split: prod.splits sum.splits)

lemma kwp_total_unit:
  assumes "kwp m Q (\<lambda>_ _. False) s"
  shows "\<exists>t. m s = (Inr (), t) \<and> Q () t"
  using kwp_total [OF assms] by simp

lemma kwp_stops:
  assumes "kwp m (\<lambda>_ _. False) E s"
  shows "\<exists>e t. m s = (Inl e, t) \<and> E e t"
  using assms by (auto simp: kwp_def split: prod.splits sum.splits)

lemma kwp_eqI:
  assumes "m s = (Inr x, t)" and "Q x t"
  shows "kwp m Q E s"
  using assms by (simp add: kwp_def)

lemma kwp_seq:
  assumes "kwp m P E s" and "\<And>x t. P x t \<Longrightarrow> kwp (f x) Q E t"
  shows "kwp (kbind m f) Q E s"
  using assms by (auto simp: kwp_bind elim: kwp_mono)

lemma kwp_call: "m s = (Inr x, t) \<Longrightarrow> kwp m Q E s = Q x t"
  by (simp add: kwp_def)

text \<open>
  The loop rule: an invariant of loop state and kernel state, and a measure on the loop state
  that every iteration decreases and that starts within the bound.
\<close>

lemma kwp_while:
  assumes "I x s" and "\<mu> x \<le> n"
    and step: "\<And>y t. I y t \<Longrightarrow> g y \<Longrightarrow> kwp (b y) (\<lambda>z u. I z u \<and> \<mu> z < \<mu> y) E t"
    and exit: "\<And>y t. I y t \<Longrightarrow> \<not> g y \<Longrightarrow> Q y t"
    and pos: "\<And>y t. I y t \<Longrightarrow> g y \<Longrightarrow> 0 < (\<mu> y :: nat)"
  shows "kwp (kwhile n g b x) Q E s"
  using assms(1,2)
proof (induction n arbitrary: x s)
  case 0
  then show ?case using pos [of x s] exit [of x s] by (auto simp: kwp_return kwp_raise)
next
  case (Suc n)
  show ?case
  proof (cases "g x")
    case True
    have "kwp (b x) (\<lambda>z u. I z u \<and> \<mu> z < \<mu> x) E s"
      using step Suc.prems(1) True by blast
    then have "kwp (b x) (\<lambda>z. kwp (kwhile n g b z) Q E) E s"
      by (rule kwp_mono) (use Suc in auto)
    with True show ?thesis by (simp add: kwp_bind)
  next
    case False
    with Suc.prems exit show ?thesis by (simp add: kwp_return)
  qed
qed

lemma kwp_while_once:
  assumes "0 < n" "g x" and "kwp (b x) (\<lambda>y t. \<not> g y \<and> Q y t) E s"
  shows "kwp (kwhile n g b x) Q E s"
proof -
  have "kwp (kwhile k g b y) Q E t" if "\<not> g y \<and> Q y t" for k y t
    using that by (cases k) (auto simp: kwp_return)
  moreover obtain k where "n = Suc k" using assms(1) by (cases n) auto
  ultimately show ?thesis using assms(2,3) by (auto simp: kwp_bind elim: kwp_mono)
qed

lemma kfor_snoc: "kfor (is @ [i]) b = kbind (kfor is b) (\<lambda>_. b i)"
  by (induction "is") (auto simp: kthen_def kbind_def kreturn_def fun_eq_iff split: sum.splits prod.splits)

lemma kbind_assoc: "kbind (kbind f g) h = kbind f (\<lambda>x. kbind (g x) h)"
  by (auto simp: kbind_def fun_eq_iff split: prod.splits sum.splits)

lemma kbind_return: "kbind (kreturn x) f = f x"
  by (simp add: kbind_def kreturn_def)

lemma kthen_put: "kthen (kput f) n s = n (f s)"
  by (simp add: kthen_def kbind_def kput_def)

lemma kthen_return: "kthen (kreturn x) f = f"
  by (simp add: kthen_def kbind_return)

lemma kthen_bind: "kbind (kthen f g) h = kthen f (kbind g h)"
  by (simp add: kthen_def kbind_assoc)

lemma kwp_for:
  assumes "I [] s"
    and step: "\<And>ds i t. I ds t \<Longrightarrow> i \<in> set is \<Longrightarrow> kwp (b i) (\<lambda>_. I (ds @ [i])) E t"
    and exit: "\<And>t. I is t \<Longrightarrow> Q () t"
  shows "kwp (kfor is b) Q E s"
proof -
  have "kwp (kfor es b) Q E t" if "is = ds @ es" "I ds t" for ds es t
    using that
  proof (induction es arbitrary: ds t)
    case Nil
    then show ?case using exit by (simp add: kwp_return)
  next
    case (Cons i es)
    have "kwp (b i) (\<lambda>_. I (ds @ [i])) E t"
      using step Cons.prems by simp
    then show ?case
      unfolding kwp_for_Cons
      by (rule kwp_mono) (use Cons.IH [of "ds @ [i]"] Cons.prems in auto)
  qed
  from this [of "[]" "is" s] assms(1) show ?thesis by simp
qed

section \<open>Word and page arithmetic\<close>

lemma unat_bound64: "unat (a :: u64) < 2 ^ 64"
  using unsigned_less [of a] by simp

lemma unat_PGSIZE [page_simps]: "unat PGSIZE = 4096"
  by (simp add: PGSIZE_def)

lemma PGSIZE_neq_0 [simp]: "PGSIZE \<noteq> 0"
  by (simp add: PGSIZE_def)

lemma unat_plus_page [page_simps]:
  "unat a + 4096 < 2 ^ 64 \<Longrightarrow> unat (a + PGSIZE) = unat a + 4096"
  by (simp add: PGSIZE_def unat_word_ariths)

lemma page_aligned_unat [page_simps]: "page_aligned a \<longleftrightarrow> unat a mod 4096 = 0"
  by (metis unat_0 unat_PGSIZE unat_mod_distrib word_unat_eq_iff)

lemma page_aligned_plus: "page_aligned a \<Longrightarrow> page_aligned (a + PGSIZE)"
proof -
  assume "page_aligned a"
  then have "(unat a + 4096) mod 2 ^ 64 mod 4096 = 0"
    by (subst mod_mod_cancel) (simp_all add: page_aligned_unat)
  then show ?thesis by (simp add: page_aligned_unat unat_word_ariths unat_PGSIZE)
qed

lemma unat_ROUNDDOWN [page_simps]: "unat (ROUNDDOWN a PGSIZE) = unat a div 4096 * 4096"
proof -
  have "unat a div 4096 * 4096 \<le> unat a" by simp
  then have "unat a div 4096 * 4096 < 2 ^ 64" by (rule le_less_trans) (rule unat_bound64)
  then show ?thesis
    by (simp add: ROUNDDOWN_def unat_word_ariths unat_div_distrib unat_PGSIZE)
qed

lemma ROUNDDOWN_aligned [simp]: "page_aligned (ROUNDDOWN a PGSIZE)"
  by (simp add: page_aligned_unat unat_ROUNDDOWN)

lemma ROUNDDOWN_le: "ROUNDDOWN a PGSIZE \<le> a"
  by (simp add: word_le_nat_alt unat_ROUNDDOWN)

lemma ROUNDDOWN_id: "page_aligned a \<Longrightarrow> ROUNDDOWN a PGSIZE = a"
proof -
  assume "page_aligned a"
  then have "unat a div 4096 * 4096 = unat a"
    unfolding page_aligned_unat by auto
  then show ?thesis by (subst word_unat_eq_iff) (simp add: unat_ROUNDDOWN)
qed

lemma ROUNDDOWN_mod: "ROUNDDOWN a PGSIZE + a mod PGSIZE = a"
  by (simp add: ROUNDDOWN_def div_mult_mod_eq [of a PGSIZE])

lemma aligned_div_inj:
  fixes x y b n :: nat
  assumes "b \<le> x" "b \<le> y" "b mod n = 0" "x mod n = 0" "y mod n = 0"
    and "(x - b) div n = (y - b) div n"
  shows "x = y"
proof -
  have "n dvd x - b" "n dvd y - b"
    using assms by (auto intro!: dvd_diff_nat simp: mod_eq_0_iff_dvd)
  then have "x - b = y - b"
    using assms(6) by (metis dvd_mult_div_cancel)
  with assms(1,2) show ?thesis by simp
qed

lemma word_le_1_cases: "(w :: 'a::len word) \<le> 1 \<Longrightarrow> w = 0 \<or> w = 1"
  by (metis le_less word_le_less_eq word_less_1)

section \<open>Runs of consecutive pages\<close>

definition page_at :: "u64 \<Rightarrow> nat \<Rightarrow> u64" where
  "page_at a n = a + of_nat n * PGSIZE"

definition page_range :: "u64 \<Rightarrow> nat \<Rightarrow> u64 list" where
  "page_range a n = map (page_at a) [0..<n]"

lemma unat_page_at:
  assumes "unat a + n * 4096 < 2 ^ 64"
  shows "unat (page_at a n) = unat a + n * 4096"
proof -
  have "unat (of_nat n * PGSIZE :: u64) = n * 4096"
  proof -
    have "n < 2 ^ 64" using assms by simp
    then have "unat (of_nat n :: u64) = n" by (simp add: unat_of_nat take_bit_nat_eq_self)
    then show ?thesis using assms by (simp add: unat_word_ariths unat_PGSIZE)
  qed
  with assms show ?thesis by (simp add: page_at_def unat_word_ariths)
qed

lemma page_at_0 [simp]: "page_at a 0 = a"
  by (simp add: page_at_def)

lemma page_at_Suc: "page_at a n + PGSIZE = page_at a (Suc n)"
  by (simp add: page_at_def algebra_simps)

lemma page_range_Suc [simp]: "page_range a (Suc n) = page_range a n @ [page_at a n]"
  by (simp add: page_range_def)

lemma page_range_0 [simp]: "page_range a 0 = []"
  by (simp add: page_range_def)

lemma length_page_range [simp]: "length (page_range a n) = n"
  by (simp add: page_range_def)

lemma set_page_range: "set (page_range a n) = page_at a ` {..<n}"
  by (auto simp: page_range_def)

lemma page_at_inj:
  assumes "unat a + k * 4096 < 2 ^ 64" "i \<le> k" "j \<le> k"
  shows "page_at a i = page_at a j \<longleftrightarrow> i = j"
proof -
  have "unat (page_at a i) = unat a + i * 4096" "unat (page_at a j) = unat a + j * 4096"
    using assms by (auto intro!: unat_page_at)
  then show ?thesis by (simp add: word_unat_eq_iff)
qed

lemma page_at_aligned:
  assumes "page_aligned a"
  shows "page_aligned (page_at a n)"
proof (induction n)
  case 0
  with assms show ?case by simp
next
  case (Suc n)
  then show ?case using page_aligned_plus [of "page_at a n"] by (simp add: page_at_Suc)
qed

end
