(* ===== verification/Sync.thy ===== *)
theory Sync
  imports Prelude
begin

text \<open>
  Synchronisation between harts: the \<^verbatim>\<open>amoswap\<close>-based spinlock of \<^verbatim>\<open>kernel/riscv.h\<close> and the
  barrier of \<^verbatim>\<open>kernel/sync_utils.h\<close>.

  The lock operations are given twice over the same atomic instruction \<open>amoswap_d\<close>: as kernel
  operations of one hart (\<open>spinlock_amo_lock\<close> and its kin, used by the page allocator and the
  scheduler, where finding the lock held means waiting), and as an interleaving of any number of
  harts (\<open>lock_step\<close>), for which mutual exclusion is an invariant of every reachable state.
  The barrier is an interleaving as well (\<open>barrier_step\<close>), and so is the other lock of the tree,
  the one of \<^verbatim>\<open>spike_interface/atomic.h\<close>, whose swap is a read followed by a write
  (\<open>spinlock_step\<close>): it does not exclude a second hart.
\<close>

section \<open>The atomic swap and the spinlock operations\<close>

definition SPIN_LOCK_FREE :: u64 where
  "SPIN_LOCK_FREE = 0"

definition SPIN_LOCK_HELD :: u64 where
  "SPIN_LOCK_HELD = 1"

text \<open>The instruction returns the old content of the cell and leaves the new one.\<close>

definition amoswap_d :: "u64 \<Rightarrow> u64 \<Rightarrow> u64 \<times> u64" where
  "amoswap_d cell value = (cell, value)"

text \<open>
  A lock lives in a field of the kernel state, given by its selector and its update function.
  The spin loop of \<open>spinlock_amo_lock\<close> ends with its first swap when the lock is free; when it is
  held, this hart alone never leaves the loop.
\<close>

definition spinlock_amo_init :: "((u64 \<Rightarrow> u64) \<Rightarrow> 's \<Rightarrow> 's) \<Rightarrow> ('s, unit) km" where
  "spinlock_amo_init upd = kput (upd (\<lambda>_. SPIN_LOCK_FREE))"

definition spinlock_amo_lock ::
  "('s \<Rightarrow> u64) \<Rightarrow> ((u64 \<Rightarrow> u64) \<Rightarrow> 's \<Rightarrow> 's) \<Rightarrow> ('s, unit) km" where
  "spinlock_amo_lock sel upd =
     kbind (kget sel) (\<lambda>cell.
       let (old, new) = amoswap_d cell SPIN_LOCK_HELD in
       kthen (kput (upd (\<lambda>_. new)))
         (if old \<noteq> SPIN_LOCK_FREE then kraise Spin else kreturn ()))"

definition spinlock_amo_unlock ::
  "('s \<Rightarrow> u64) \<Rightarrow> ((u64 \<Rightarrow> u64) \<Rightarrow> 's \<Rightarrow> 's) \<Rightarrow> ('s, unit) km" where
  "spinlock_amo_unlock sel upd =
     kbind (kget sel) (\<lambda>cell.
       let (old, new) = amoswap_d cell SPIN_LOCK_FREE in kput (upd (\<lambda>_. new)))"

definition spinlock_amo_trylock ::
  "('s \<Rightarrow> u64) \<Rightarrow> ((u64 \<Rightarrow> u64) \<Rightarrow> 's \<Rightarrow> 's) \<Rightarrow> ('s, bool) km" where
  "spinlock_amo_trylock sel upd =
     kbind (kget sel) (\<lambda>cell.
       let (old, new) = amoswap_d cell SPIN_LOCK_HELD in
       kthen (kput (upd (\<lambda>_. new))) (kreturn (old \<noteq> SPIN_LOCK_FREE)))"

lemma kwp_spinlock_lock [kwp_simps]:
  "kwp (spinlock_amo_lock sel upd) Q E =
     (\<lambda>s. if sel s = SPIN_LOCK_FREE then Q () (upd (\<lambda>_. SPIN_LOCK_HELD) s)
      else E Spin (upd (\<lambda>_. SPIN_LOCK_HELD) s))"
  by (auto simp: spinlock_amo_lock_def amoswap_d_def kwp_simps fun_eq_iff)

lemma kwp_spinlock_unlock [kwp_simps]:
  "kwp (spinlock_amo_unlock sel upd) Q E = (\<lambda>s. Q () (upd (\<lambda>_. SPIN_LOCK_FREE) s))"
  by (simp add: spinlock_amo_unlock_def amoswap_d_def kwp_simps)

lemma kwp_spinlock_init [kwp_simps]:
  "kwp (spinlock_amo_init upd) Q E = (\<lambda>s. Q () (upd (\<lambda>_. SPIN_LOCK_FREE) s))"
  by (simp add: spinlock_amo_init_def kwp_simps)

lemma lock_values_distinct [simp]: "SPIN_LOCK_HELD \<noteq> SPIN_LOCK_FREE"
  by (simp add: SPIN_LOCK_HELD_def SPIN_LOCK_FREE_def)

section \<open>Any number of harts on one lock\<close>

text \<open>
  Where a hart stands: outside, in the spin loop of \<open>spinlock_amo_lock\<close>, or holding the lock.
\<close>

datatype hart_pc = Outside | Spinning | Holding

record lock_sys =
  cell :: u64
  pcs :: "nat \<Rightarrow> hart_pc"

definition lock_init :: lock_sys where
  "lock_init = \<lparr>cell = SPIN_LOCK_FREE, pcs = (\<lambda>_. Outside)\<rparr>"

text \<open>One atomic step of hart \<open>h\<close>; a swap in the spin loop either wins the lock or stays there.\<close>

inductive lock_step :: "lock_sys \<Rightarrow> lock_sys \<Rightarrow> bool" where
  enter: "pcs s h = Outside \<Longrightarrow> lock_step s (s\<lparr>pcs := (pcs s)(h := Spinning)\<rparr>)"
| swap: "pcs s h = Spinning \<Longrightarrow> amoswap_d (cell s) SPIN_LOCK_HELD = (old, new) \<Longrightarrow>
    lock_step s (s\<lparr>cell := new,
      pcs := (pcs s)(h := if old \<noteq> SPIN_LOCK_FREE then Spinning else Holding)\<rparr>)"
| release: "pcs s h = Holding \<Longrightarrow> amoswap_d (cell s) SPIN_LOCK_FREE = (old, new) \<Longrightarrow>
    lock_step s (s\<lparr>cell := new, pcs := (pcs s)(h := Outside)\<rparr>)"

inductive lock_reachable :: "lock_sys \<Rightarrow> bool" where
  start: "lock_reachable lock_init"
| step: "lock_reachable s \<Longrightarrow> lock_step s t \<Longrightarrow> lock_reachable t"

text \<open>At most one hart holds the lock, and the cell says whether one does.\<close>

definition lock_inv :: "lock_sys \<Rightarrow> bool" where
  "lock_inv s \<longleftrightarrow>
     (\<forall>h k. pcs s h = Holding \<longrightarrow> pcs s k = Holding \<longrightarrow> h = k) \<and>
     (cell s = SPIN_LOCK_FREE \<longleftrightarrow> (\<forall>h. pcs s h \<noteq> Holding)) \<and>
     (cell s = SPIN_LOCK_FREE \<or> cell s = SPIN_LOCK_HELD)"

lemma lock_inv_step: "lock_step s t \<Longrightarrow> lock_inv s \<Longrightarrow> lock_inv t"
proof (induction rule: lock_step.induct)
  case (enter s h)
  then show ?case by (force simp: lock_inv_def)
next
  case (swap s h old new)
  then show ?case
    by (cases "cell s = SPIN_LOCK_FREE") (force simp: lock_inv_def amoswap_d_def)+
next
  case (release s h old new)
  then have "\<forall>k. k \<noteq> h \<longrightarrow> pcs s k \<noteq> Holding" by (auto simp: lock_inv_def)
  with release show ?case by (auto simp: lock_inv_def amoswap_d_def)
qed

lemma lock_reachable_inv: "lock_reachable s \<Longrightarrow> lock_inv s"
proof (induction rule: lock_reachable.induct)
  case start
  show ?case by (simp add: lock_inv_def lock_init_def)
next
  case (step s t)
  then show ?case by (blast intro: lock_inv_step)
qed

section \<open>The barrier\<close>

text \<open>
  \<^verbatim>\<open>sync_barrier\<close> on a counter of the data segment: every hart adds one (\<^verbatim>\<open>amoadd.w\<close> returns the
  old value), and unless it is the last it re-reads the counter until it has reached \<open>all\<close>.
\<close>

datatype barrier_pc = Before | Polling | Past

record barrier_sys =
  counter :: int
  bpcs :: "nat \<Rightarrow> barrier_pc"

definition barrier_init :: barrier_sys where
  "barrier_init = \<lparr>counter = 0, bpcs = (\<lambda>_. Before)\<rparr>"

definition sync_barrier_arrive :: "int \<Rightarrow> nat \<Rightarrow> barrier_sys \<Rightarrow> barrier_sys" where
  "sync_barrier_arrive all h s =
     (let local = counter s in
      s\<lparr>counter := local + 1,
        bpcs := (bpcs s)(h := if local + 1 < all then Polling else Past)\<rparr>)"

definition sync_barrier_poll :: "int \<Rightarrow> nat \<Rightarrow> barrier_sys \<Rightarrow> barrier_sys" where
  "sync_barrier_poll all h s =
     (let local = counter s in
      s\<lparr>bpcs := (bpcs s)(h := if local < all then Polling else Past)\<rparr>)"

text \<open>\<open>n\<close> harts, each calling the barrier once for \<open>n\<close> participants.\<close>

inductive barrier_step :: "nat \<Rightarrow> barrier_sys \<Rightarrow> barrier_sys \<Rightarrow> bool" for n where
  arrive: "h < n \<Longrightarrow> bpcs s h = Before \<Longrightarrow>
    barrier_step n s (sync_barrier_arrive (int n) h s)"
| poll: "h < n \<Longrightarrow> bpcs s h = Polling \<Longrightarrow>
    barrier_step n s (sync_barrier_poll (int n) h s)"

inductive barrier_reachable :: "nat \<Rightarrow> barrier_sys \<Rightarrow> bool" for n where
  start: "barrier_reachable n barrier_init"
| step: "barrier_reachable n s \<Longrightarrow> barrier_step n s t \<Longrightarrow> barrier_reachable n t"

definition arrived :: "nat \<Rightarrow> barrier_sys \<Rightarrow> nat set" where
  "arrived n s = {h. h < n \<and> bpcs s h \<noteq> Before}"

definition barrier_inv :: "nat \<Rightarrow> barrier_sys \<Rightarrow> bool" where
  "barrier_inv n s \<longleftrightarrow>
     counter s = int (card (arrived n s)) \<and>
     (\<forall>h<n. bpcs s h = Past \<longrightarrow> int n \<le> counter s)"

lemma finite_arrived [simp]: "finite (arrived n s)"
  by (simp add: arrived_def)

lemma arrived_arrive:
  assumes "h < n" and "bpcs s h = Before"
  shows "arrived n (sync_barrier_arrive a h s) = insert h (arrived n s)" "h \<notin> arrived n s"
  using assms by (auto simp: arrived_def sync_barrier_arrive_def Let_def)

lemma arrived_poll:
  assumes "bpcs s h = Polling"
  shows "arrived n (sync_barrier_poll a h s) = arrived n s"
  using assms by (auto simp: arrived_def sync_barrier_poll_def Let_def)

lemma barrier_inv_step: "barrier_step n s t \<Longrightarrow> barrier_inv n s \<Longrightarrow> barrier_inv n t"
proof (induction rule: barrier_step.induct)
  case (arrive h s)
  then have "counter (sync_barrier_arrive (int n) h s)
      = int (card (arrived n (sync_barrier_arrive (int n) h s)))"
    by (simp add: arrived_arrive barrier_inv_def) (simp add: sync_barrier_arrive_def Let_def)
  with arrive show ?case
    by (auto simp: barrier_inv_def sync_barrier_arrive_def Let_def)
next
  case (poll h s)
  then have "counter (sync_barrier_poll (int n) h s)
      = int (card (arrived n (sync_barrier_poll (int n) h s)))"
    by (simp add: arrived_poll barrier_inv_def) (simp add: sync_barrier_poll_def Let_def)
  with poll show ?case
    by (auto simp: barrier_inv_def sync_barrier_poll_def Let_def)
qed

lemma barrier_reachable_inv: "barrier_reachable n s \<Longrightarrow> barrier_inv n s"
proof (induction rule: barrier_reachable.induct)
  case start
  show ?case by (simp add: barrier_inv_def barrier_init_def arrived_def)
next
  case (step s t)
  then show ?case by (blast intro: barrier_inv_step)
qed

lemma all_arrived: "int n \<le> int (card (arrived n s)) \<Longrightarrow> h < n \<Longrightarrow> h \<in> arrived n s"
proof -
  assume "int n \<le> int (card (arrived n s))" and "h < n"
  moreover have "arrived n s \<subseteq> {..<n}" by (auto simp: arrived_def)
  ultimately have "arrived n s = {..<n}" by (intro card_subset_eq) (auto dest: card_mono [rotated])
  with \<open>h < n\<close> show ?thesis by simp
qed

section \<open>The lock of the host interface\<close>

text \<open>
  \<^verbatim>\<open>spinlock_lock\<close> of \<^verbatim>\<open>spike_interface/atomic.h\<close>: poll until the lock reads 0, then
  \<^verbatim>\<open>spinlock_trylock\<close>, whose \<^verbatim>\<open>atomic_swap\<close> expands to a read into \<^verbatim>\<open>res\<close> and a separate write of -1
  (\<^verbatim>\<open>disable_irqsave\<close> is 0); a result of 0 wins the lock.
\<close>

datatype spin_pc = Idle | Poll | TryRead | TryWrite int | Owner

record spin_sys =
  lock_word :: int
  spcs :: "nat \<Rightarrow> spin_pc"

definition spin_init :: spin_sys where
  "spin_init = \<lparr>lock_word = 0, spcs = (\<lambda>_. Idle)\<rparr>"

definition spinlock_next :: "nat \<Rightarrow> spin_sys \<Rightarrow> spin_sys" where
  "spinlock_next h s = (case spcs s h of
       Idle \<Rightarrow> s\<lparr>spcs := (spcs s)(h := Poll)\<rparr>
     | Poll \<Rightarrow> s\<lparr>spcs := (spcs s)(h := if lock_word s \<noteq> 0 then Poll else TryRead)\<rparr>
     | TryRead \<Rightarrow> s\<lparr>spcs := (spcs s)(h := TryWrite (lock_word s))\<rparr>
     | TryWrite res \<Rightarrow> s\<lparr>lock_word := -1, spcs := (spcs s)(h := if res \<noteq> 0 then Poll else Owner)\<rparr>
     | Owner \<Rightarrow> s\<lparr>lock_word := 0, spcs := (spcs s)(h := Idle)\<rparr>)"

inductive spin_reachable :: "spin_sys \<Rightarrow> bool" where
  start: "spin_reachable spin_init"
| step: "spin_reachable s \<Longrightarrow> spin_reachable (spinlock_next h s)"

lemma spin_reachable_fold: "spin_reachable s \<Longrightarrow> spin_reachable (fold spinlock_next hs s)"
  by (induction hs arbitrary: s) (auto intro: spin_reachable.step)

section \<open>Properties\<close>

text \<open>
  C28. Mutual exclusion: whatever the interleaving of any number of harts that enter, swap and
  release, at most one hart holds the \<^verbatim>\<open>amoswap\<close> spinlock, and the lock word reads free exactly
  when nobody does.
\<close>

theorem spinlock_mutual_exclusion:
  assumes "lock_reachable s"
  shows "(\<forall>h k. pcs s h = Holding \<and> pcs s k = Holding \<longrightarrow> h = k) \<and>
    (cell s = SPIN_LOCK_FREE \<longleftrightarrow> (\<forall>h. pcs s h \<noteq> Holding))"
  using lock_reachable_inv [OF assms] by (simp add: lock_inv_def)

definition lock_demo :: lock_sys where
  "lock_demo = \<lparr>cell = SPIN_LOCK_HELD, pcs = (\<lambda>_. Outside)(0 := Holding)\<rparr>"

lemma lock_demo_reachable: "lock_reachable lock_demo"
proof -
  have "lock_step lock_init (lock_init\<lparr>pcs := (pcs lock_init)(0 := Spinning)\<rparr>)" (is "lock_step _ ?t")
    by (rule lock_step.enter) (simp add: lock_init_def)
  moreover have "lock_step ?t lock_demo"
    using lock_step.swap [of ?t 0 SPIN_LOCK_FREE SPIN_LOCK_HELD]
    by (simp add: lock_init_def amoswap_d_def lock_demo_def)
  ultimately show ?thesis by (metis lock_reachable.intros)
qed

theorem spinlock_mutual_exclusion_witness:
  "pcs lock_demo 0 = Holding \<and> pcs lock_demo 1 \<noteq> Holding \<and> cell lock_demo \<noteq> SPIN_LOCK_FREE"
proof -
  have "pcs lock_demo 0 = Holding" by (simp add: lock_demo_def)
  then show ?thesis using spinlock_mutual_exclusion [OF lock_demo_reachable] by (metis zero_neq_one)
qed

text \<open>
  C29. The barrier: a hart that has passed \<^verbatim>\<open>sync_barrier\<close> for \<open>n\<close> harts did so after all \<open>n\<close> had
  arrived; and once all have arrived, the next poll of every waiting hart lets it pass.
\<close>

theorem sync_barrier_correct:
  assumes "barrier_reachable n s"
  shows "(\<forall>h<n. bpcs s h = Past \<longrightarrow> (\<forall>k<n. bpcs s k \<noteq> Before)) \<and>
    ((\<forall>k<n. bpcs s k \<noteq> Before) \<longrightarrow> (\<forall>h<n. bpcs (sync_barrier_poll (int n) h s) h = Past))"
proof -
  have inv: "barrier_inv n s" by (rule barrier_reachable_inv [OF assms])
  have "bpcs s k \<noteq> Before" if "h < n" "bpcs s h = Past" "k < n" for h k
    using inv all_arrived [of n s k] that by (auto simp: barrier_inv_def arrived_def)
  moreover have "bpcs (sync_barrier_poll (int n) h s) h = Past" if "\<forall>k<n. bpcs s k \<noteq> Before" for h
  proof -
    have "arrived n s = {..<n}" using that by (auto simp: arrived_def)
    then have "counter s = int n" using inv by (simp add: barrier_inv_def)
    then show ?thesis by (simp add: sync_barrier_poll_def Let_def)
  qed
  ultimately show ?thesis by blast
qed

definition barrier_demo :: barrier_sys where
  "barrier_demo = sync_barrier_arrive 2 1 (sync_barrier_arrive 2 0 barrier_init)"

theorem sync_barrier_correct_witness:
  "bpcs barrier_demo 1 = Past \<and> bpcs barrier_demo 0 \<noteq> Before \<and>
     bpcs (sync_barrier_poll 2 0 barrier_demo) 0 = Past"
proof -
  have "barrier_step 2 barrier_init (sync_barrier_arrive (int 2) 0 barrier_init)"
    by (rule barrier_step.arrive) (simp_all add: barrier_init_def)
  moreover have "barrier_step 2 (sync_barrier_arrive (int 2) 0 barrier_init) barrier_demo"
    unfolding barrier_demo_def
    using barrier_step.arrive [of 1 2 "sync_barrier_arrive 2 0 barrier_init"]
    by (simp add: barrier_init_def sync_barrier_arrive_def Let_def)
  ultimately have "barrier_reachable 2 barrier_demo" by (metis barrier_reachable.intros)
  note c = sync_barrier_correct [OF this]
  have p: "bpcs barrier_demo 1 = Past"
    by (simp add: barrier_demo_def sync_barrier_arrive_def barrier_init_def Let_def)
  then have "\<forall>k<2. bpcs barrier_demo k \<noteq> Before" using c by (metis one_less_numeral_iff semiring_norm(76))
  then show ?thesis using c p by simp
qed

text \<open>
  The lock of the host interface does not exclude: two harts that both read the free lock word
  before either writes it both end up as its owner.
\<close>

theorem spinlock_lock_not_exclusive:
  "\<exists>s. spin_reachable s \<and> spcs s 0 = Owner \<and> spcs s 1 = Owner"
proof -
  let ?s = "fold spinlock_next [0, 1, 0, 1, 0, 1, 0, 1] spin_init"
  have "spin_reachable ?s" by (intro spin_reachable_fold spin_reachable.start)
  moreover have "spcs ?s 0 = Owner" "spcs ?s 1 = Owner"
    by (simp_all add: spinlock_next_def spin_init_def)
  ultimately show ?thesis by blast
qed

end
