(* ===== verification/Pmm.thy ===== *)
theory Pmm
  imports Sync
begin

text \<open>
  The physical page allocator, \<^verbatim>\<open>kernel/pmm.c\<close>.

  Physical memory is kept as the 512 doublewords of each 4 KiB page: \<open>pmem s pa i\<close> is the
  doubleword at byte offset \<open>8 * i\<close> of the page with base address \<open>pa\<close>.  The free list is
  intrusive, as in the source: the \<^verbatim>\<open>next\<close> pointer of a free page is its doubleword 0.  The record
  is extended by the states of the components above, so that they call these operations on
  their own state.
\<close>

section \<open>State\<close>

record pmm_state =
  pmem :: "u64 \<Rightarrow> 9 word \<Rightarrow> u64"
  g_free_mem_list :: u64
  page_ref_count :: "u64 \<Rightarrow> u16"
  free_mem_start_addr :: u64
  free_mem_end_addr :: u64
  g_mem_size :: u64
  pmm_lock :: u64

definition PMM_MAX_PAGES :: nat where
  "PMM_MAX_PAGES = 65536"

definition DRAM_BASE :: u64 where
  "DRAM_BASE = 0x80000000"

definition KERN_BASE :: u64 where
  "KERN_BASE = 0x80000000"

definition PKE_MAX_ALLOWABLE_RAM :: u64 where
  "PKE_MAX_ALLOWABLE_RAM = 128 * 1024 * 1024"

definition PAGE_INDEX :: "'z pmm_state_scheme \<Rightarrow> u64 \<Rightarrow> u64" where
  "PAGE_INDEX s pa = (pa - free_mem_start_addr s) div PGSIZE"

definition MAX_PAGE_NUM :: "'z pmm_state_scheme \<Rightarrow> u64" where
  "MAX_PAGE_NUM s = (free_mem_end_addr s - free_mem_start_addr s) div PGSIZE"

section \<open>Operations\<close>

definition pmm_lock_acquire :: "('z pmm_state_scheme, unit) km" where
  "pmm_lock_acquire = spinlock_amo_lock pmm_lock pmm_lock_update"

definition pmm_lock_release :: "('z pmm_state_scheme, unit) km" where
  "pmm_lock_release = spinlock_amo_unlock pmm_lock pmm_lock_update"

definition set_dword :: "u64 \<Rightarrow> 9 word \<Rightarrow> u64 \<Rightarrow> 'z pmm_state_scheme \<Rightarrow> 'z pmm_state_scheme" where
  "set_dword pa i v s = s\<lparr>pmem := (pmem s)(pa := (pmem s pa)(i := v))\<rparr>"

definition set_page :: "u64 \<Rightarrow> (9 word \<Rightarrow> u64) \<Rightarrow> 'z pmm_state_scheme \<Rightarrow> 'z pmm_state_scheme" where
  "set_page pa c s = s\<lparr>pmem := (pmem s)(pa := c)\<rparr>"

definition set_ref :: "u64 \<Rightarrow> u16 \<Rightarrow> 'z pmm_state_scheme \<Rightarrow> 'z pmm_state_scheme" where
  "set_ref i r s = s\<lparr>page_ref_count := (page_ref_count s)(i := r)\<rparr>"

definition free_page :: "u64 \<Rightarrow> ('z pmm_state_scheme, unit) km" where
  "free_page pa =
     kthen pmm_lock_acquire (kbind (kget id) (\<lambda>s.
       if pa mod PGSIZE \<noteq> 0 \<or> pa < free_mem_start_addr s \<or> free_mem_end_addr s \<le> pa
       then kraise (Panic ''free_page'')
       else let idx = PAGE_INDEX s pa; max_pages = MAX_PAGE_NUM s in
         if max_pages \<le> idx then kraise (Panic ''free_page index'')
         else kthen
           (kwhen (0 < page_ref_count s idx) (kput (set_ref idx (page_ref_count s idx - 1))))
           (kbind (kget (\<lambda>s. page_ref_count s idx)) (\<lambda>ref.
             kthen (kwhen (ref = 0)
                 (kput (\<lambda>s. (set_dword pa 0 (g_free_mem_list s) s)\<lparr>g_free_mem_list := pa\<rparr>)))
               pmm_lock_release))))"

definition alloc_page :: "('z pmm_state_scheme, u64) km" where
  "alloc_page =
     kthen pmm_lock_acquire (kbind (kget g_free_mem_list) (\<lambda>n.
       kthen (kwhen (n \<noteq> 0) (kput (\<lambda>s. s\<lparr>g_free_mem_list := pmem s n 0\<rparr>)))
         (kthen
           (kwhen (n \<noteq> 0) (kput (\<lambda>s.
              if PAGE_INDEX s n < MAX_PAGE_NUM s then set_ref (PAGE_INDEX s n) 1 s else s)))
           (kthen pmm_lock_release (kreturn n)))))"

definition inc_page_ref :: "u64 \<Rightarrow> ('z pmm_state_scheme, unit) km" where
  "inc_page_ref pa = kbind (kget id) (\<lambda>s.
     if pa < free_mem_start_addr s \<or> free_mem_end_addr s \<le> pa then kreturn ()
     else kthen pmm_lock_acquire (kthen
       (kput (\<lambda>s. if PAGE_INDEX s pa < MAX_PAGE_NUM s
                  then set_ref (PAGE_INDEX s pa) (page_ref_count s (PAGE_INDEX s pa) + 1) s
                  else s))
       pmm_lock_release))"

definition dec_page_ref :: "u64 \<Rightarrow> ('z pmm_state_scheme, unit) km" where
  "dec_page_ref pa = free_page pa"

definition get_page_ref :: "u64 \<Rightarrow> ('z pmm_state_scheme, u16) km" where
  "get_page_ref pa = kbind (kget id) (\<lambda>s.
     if pa < free_mem_start_addr s \<or> free_mem_end_addr s \<le> pa then kreturn 0
     else kthen pmm_lock_acquire (kbind (kget (\<lambda>s.
         if PAGE_INDEX s pa < MAX_PAGE_NUM s then page_ref_count s (PAGE_INDEX s pa) else 0))
       (\<lambda>ref. kthen pmm_lock_release (kreturn ref))))"

text \<open>
  The loop variable of \<^verbatim>\<open>create_freepage_list\<close> is a 64-bit address that advances by a page: after
  \<open>2 ^ 52\<close> iterations it has taken every value it can take and the loop never ends.
\<close>

definition page_loop_bound :: nat where
  "page_loop_bound = 2 ^ 52"

definition create_freepage_list :: "u64 \<Rightarrow> u64 \<Rightarrow> ('z pmm_state_scheme, unit) km" where
  "create_freepage_list start end_addr =
     kthen (kput (\<lambda>s. s\<lparr>g_free_mem_list := 0\<rparr>))
       (kbind (kwhile page_loop_bound (\<lambda>p. p + PGSIZE < end_addr)
                (\<lambda>p. kthen (free_page p) (kreturn (p + PGSIZE)))
                (ROUNDUP start PGSIZE))
         (\<lambda>_. kreturn ()))"

text \<open>\<open>g_kernel_end\<close> is the address of the linker symbol \<^verbatim>\<open>_end\<close> (\<^verbatim>\<open>kernel/kernel.lds\<close>).\<close>

definition pmm_init :: "u64 \<Rightarrow> ('z pmm_state_scheme, unit) km" where
  "pmm_init g_kernel_end =
     (let pke_kernel_size = g_kernel_end - KERN_BASE in
      kthen (kput (\<lambda>s. s\<lparr>free_mem_start_addr := ROUNDUP g_kernel_end PGSIZE,
                        g_mem_size := min PKE_MAX_ALLOWABLE_RAM (g_mem_size s)\<rparr>))
        (kbind (kget g_mem_size) (\<lambda>sz.
          if sz < pke_kernel_size then kraise (Panic ''recomputing g_mem_size'')
          else kthen (kput (\<lambda>s. s\<lparr>free_mem_end_addr := sz + DRAM_BASE\<rparr>))
            (kthen (spinlock_amo_init pmm_lock_update)
              (kbind (kget id) (\<lambda>s.
                 create_freepage_list (free_mem_start_addr s) (free_mem_end_addr s)))))))"

section \<open>Invariant\<close>

text \<open>
  \<open>managed s pa\<close>: \<open>pa\<close> is a page the allocator may hand out.  \<open>free_chain\<close> reads the intrusive
  list, in the manner of a relational list abstraction; \<open>pmm_inv s xs\<close> says that the allocator is
  consistent and unlocked and that \<open>xs\<close> are the free pages in the order they will be allocated.
\<close>

definition managed :: "'z pmm_state_scheme \<Rightarrow> u64 \<Rightarrow> bool" where
  "managed s pa \<longleftrightarrow> page_aligned pa \<and> free_mem_start_addr s \<le> pa \<and> pa < free_mem_end_addr s \<and>
     PAGE_INDEX s pa < MAX_PAGE_NUM s"

primrec free_chain :: "(u64 \<Rightarrow> 9 word \<Rightarrow> u64) \<Rightarrow> u64 \<Rightarrow> u64 list \<Rightarrow> bool" where
  "free_chain m p [] \<longleftrightarrow> p = 0"
| "free_chain m p (a # as) \<longleftrightarrow> p = a \<and> a \<noteq> 0 \<and> free_chain m (m a 0) as"

abbreviation ref_of :: "'z pmm_state_scheme \<Rightarrow> u64 \<Rightarrow> u16" where
  "ref_of s pa \<equiv> page_ref_count s (PAGE_INDEX s pa)"

definition pmm_bounds :: "'z pmm_state_scheme \<Rightarrow> bool" where
  "pmm_bounds s \<longleftrightarrow> page_aligned (free_mem_start_addr s) \<and> free_mem_start_addr s \<noteq> 0 \<and>
     free_mem_start_addr s \<le> free_mem_end_addr s \<and> unat (MAX_PAGE_NUM s) \<le> PMM_MAX_PAGES"

definition pmm_inv :: "'z pmm_state_scheme \<Rightarrow> u64 list \<Rightarrow> bool" where
  "pmm_inv s xs \<longleftrightarrow> pmm_bounds s \<and> pmm_lock s = SPIN_LOCK_FREE \<and> distinct xs \<and>
     free_chain (pmem s) (g_free_mem_list s) xs \<and>
     (\<forall>pa\<in>set xs. managed s pa \<and> ref_of s pa = 0)"

lemma unat_PAGE_INDEX:
  "free_mem_start_addr s \<le> pa \<Longrightarrow>
     unat (PAGE_INDEX s pa) = (unat pa - unat (free_mem_start_addr s)) div 4096"
  by (simp add: PAGE_INDEX_def unat_div_distrib unat_PGSIZE unat_sub)

lemma PAGE_INDEX_inj:
  assumes "page_aligned (free_mem_start_addr s)" "managed s a" "managed s b"
    and "PAGE_INDEX s a = PAGE_INDEX s b"
  shows "a = b"
proof -
  let ?b = "unat (free_mem_start_addr s)"
  have le: "?b \<le> unat a" "?b \<le> unat b"
    using assms(2,3) by (auto simp: managed_def word_le_nat_alt)
  have al: "?b mod 4096 = 0" "unat a mod 4096 = 0" "unat b mod 4096 = 0"
    using assms(1-3) by (auto simp: managed_def page_aligned_unat)
  have "(unat a - ?b) div 4096 = (unat b - ?b) div 4096"
    using assms unat_PAGE_INDEX [of s a] unat_PAGE_INDEX [of s b] by (simp add: managed_def)
  with le al have "unat a = unat b" by (rule aligned_div_inj)
  then show ?thesis by (rule word_unat_eq_iff [THEN iffD2])
qed

lemma managed_nonzero: "pmm_bounds s \<Longrightarrow> managed s pa \<Longrightarrow> pa \<noteq> 0"
  by (auto simp: pmm_bounds_def managed_def)

lemma managed_index_in_array:
  assumes "pmm_bounds s" and "managed s pa"
  shows "unat (PAGE_INDEX s pa) < PMM_MAX_PAGES"
  using assms by (auto simp: pmm_bounds_def managed_def word_less_nat_alt)

lemma free_chain_unique: "free_chain m p xs \<Longrightarrow> free_chain m p ys \<Longrightarrow> xs = ys"
proof (induction xs arbitrary: p ys)
  case Nil
  then show ?case by (cases ys) auto
next
  case (Cons a xs)
  then show ?case by (cases ys) auto
qed

lemma free_chain_frame:
  "(\<And>a. a \<in> set xs \<Longrightarrow> m' a 0 = m a 0) \<Longrightarrow> free_chain m' p xs = free_chain m p xs"
  by (induction xs arbitrary: p) auto

text \<open>Changes that keep the allocator's own data keep the invariant.\<close>

lemma managed_cong:
  "free_mem_start_addr t = free_mem_start_addr s \<Longrightarrow> free_mem_end_addr t = free_mem_end_addr s \<Longrightarrow>
     managed t = managed s"
  by (simp add: managed_def fun_eq_iff PAGE_INDEX_def MAX_PAGE_NUM_def)

lemma pmm_bounds_cong:
  "free_mem_start_addr t = free_mem_start_addr s \<Longrightarrow> free_mem_end_addr t = free_mem_end_addr s \<Longrightarrow>
     pmm_bounds t = pmm_bounds s"
  by (simp add: pmm_bounds_def MAX_PAGE_NUM_def)

lemma pmm_inv_cong:
  assumes "free_mem_start_addr t = free_mem_start_addr s" "free_mem_end_addr t = free_mem_end_addr s"
    and "page_ref_count t = page_ref_count s" "pmm_lock t = pmm_lock s"
    and "g_free_mem_list t = g_free_mem_list s"
    and "\<And>a. a \<in> set xs \<Longrightarrow> pmem t a 0 = pmem s a 0"
  shows "pmm_inv t xs = pmm_inv s xs"
proof -
  have "PAGE_INDEX t = PAGE_INDEX s" by (simp add: PAGE_INDEX_def fun_eq_iff assms)
  moreover have "free_chain (pmem t) p xs = free_chain (pmem s) p xs" for p
    using assms(6) by (rule free_chain_frame)
  ultimately show ?thesis
    using pmm_bounds_cong [of t s] managed_cong [of t s] assms by (simp add: pmm_inv_def)
qed

lemma pmm_inv_set_dword:
  "pa \<notin> set xs \<Longrightarrow> pmm_inv (set_dword pa i v s) xs = pmm_inv s xs"
  by (rule pmm_inv_cong) (auto simp: set_dword_def)

lemma pmm_inv_set_page:
  "pa \<notin> set xs \<Longrightarrow> pmm_inv (set_page pa c s) xs = pmm_inv s xs"
  by (rule pmm_inv_cong) (auto simp: set_page_def)

lemma pmm_invD:
  assumes "pmm_inv s xs"
  shows "pmm_bounds s" "pmm_lock s = SPIN_LOCK_FREE" "distinct xs" "0 \<notin> set xs"
    "\<And>pa. pa \<in> set xs \<Longrightarrow> managed s pa" "\<And>pa. pa \<in> set xs \<Longrightarrow> ref_of s pa = 0"
  using assms managed_nonzero by (auto simp: pmm_inv_def)

lemmas pmm_op_defs = pmm_lock_acquire_def pmm_lock_release_def

section \<open>What the operations do\<close>

lemma set_ref_simps [simp]:
  "pmem (set_ref i r s) = pmem s" "g_free_mem_list (set_ref i r s) = g_free_mem_list s"
  "page_ref_count (set_ref i r s) = (page_ref_count s)(i := r)"
  "free_mem_start_addr (set_ref i r s) = free_mem_start_addr s"
  "free_mem_end_addr (set_ref i r s) = free_mem_end_addr s"
  "pmm_lock (set_ref i r s) = pmm_lock s"
  by (simp_all add: set_ref_def)

lemma set_dword_simps [simp]:
  "pmem (set_dword pa i v s) = (pmem s)(pa := (pmem s pa)(i := v))"
  "g_free_mem_list (set_dword pa i v s) = g_free_mem_list s"
  "page_ref_count (set_dword pa i v s) = page_ref_count s"
  "free_mem_start_addr (set_dword pa i v s) = free_mem_start_addr s"
  "free_mem_end_addr (set_dword pa i v s) = free_mem_end_addr s"
  "pmm_lock (set_dword pa i v s) = pmm_lock s"
  by (simp_all add: set_dword_def)

lemma index_simps [simp]:
  "PAGE_INDEX (set_ref i r s) = PAGE_INDEX s" "MAX_PAGE_NUM (set_ref i r s) = MAX_PAGE_NUM s"
  "PAGE_INDEX (set_dword pa j v s) = PAGE_INDEX s"
  "MAX_PAGE_NUM (set_dword pa j v s) = MAX_PAGE_NUM s"
  "PAGE_INDEX (s\<lparr>pmm_lock := l\<rparr>) = PAGE_INDEX s" "MAX_PAGE_NUM (s\<lparr>pmm_lock := l\<rparr>) = MAX_PAGE_NUM s"
  "PAGE_INDEX (s\<lparr>g_free_mem_list := g\<rparr>) = PAGE_INDEX s"
  "MAX_PAGE_NUM (s\<lparr>g_free_mem_list := g\<rparr>) = MAX_PAGE_NUM s"
  "managed (set_ref i r s) = managed s" "managed (set_dword pa j v s) = managed s"
  "managed (s\<lparr>pmm_lock := l\<rparr>) = managed s" "managed (s\<lparr>g_free_mem_list := g\<rparr>) = managed s"
  by (simp_all add: PAGE_INDEX_def MAX_PAGE_NUM_def fun_eq_iff managed_def)

lemma lock_update_id: "pmm_lock s = l \<Longrightarrow> s\<lparr>pmm_lock := k, pmm_lock := l\<rparr> = s"
  by simp

text \<open>Allocation from the list \<open>x # xs\<close>: the state afterwards, as one record update.\<close>

definition alloc_state :: "u64 \<Rightarrow> 'z pmm_state_scheme \<Rightarrow> 'z pmm_state_scheme" where
  "alloc_state x s = set_ref (PAGE_INDEX s x) 1 (s\<lparr>g_free_mem_list := pmem s x 0\<rparr>)"

lemma alloc_page_eq_empty: "pmm_inv s [] \<Longrightarrow> alloc_page s = (Inr 0, s)"
  by (simp add: alloc_page_def pmm_inv_def pmm_op_defs spinlock_amo_lock_def amoswap_d_def
      spinlock_amo_unlock_def kthen_def kbind_def kget_def kput_def kwhen_def kreturn_def)

lemma alloc_page_head:
  assumes "pmm_lock s = SPIN_LOCK_FREE" "g_free_mem_list s = x" "x \<noteq> 0"
    and "PAGE_INDEX s x < MAX_PAGE_NUM s"
  shows "alloc_page s = (Inr x, alloc_state x s)"
  using assms
  by (simp add: alloc_page_def pmm_op_defs spinlock_amo_lock_def
      amoswap_d_def spinlock_amo_unlock_def kthen_def kbind_def kget_def kput_def kwhen_def
      kreturn_def alloc_state_def set_ref_def PAGE_INDEX_def MAX_PAGE_NUM_def)

lemma alloc_page_eq:
  assumes "pmm_inv s (x # xs)"
  shows "alloc_page s = (Inr x, alloc_state x s)"
  using assms by (intro alloc_page_head) (auto simp: pmm_inv_def managed_def)

lemma alloc_state_inv:
  assumes "pmm_inv s (x # xs)"
  shows "pmm_inv (alloc_state x s) xs"
proof -
  have "PAGE_INDEX s y \<noteq> PAGE_INDEX s x" if "y \<in> set xs" for y
    using PAGE_INDEX_inj [of s y x] assms that by (auto simp: pmm_inv_def pmm_bounds_def)
  moreover have "pmm_bounds (alloc_state x s)"
    using assms pmm_bounds_cong [of "alloc_state x s" s] by (simp add: alloc_state_def pmm_inv_def)
  ultimately show ?thesis
    using assms by (simp add: pmm_inv_def alloc_state_def)
qed

lemma alloc_state_simps [simp]:
  "pmem (alloc_state x s) = pmem s" "managed (alloc_state x s) = managed s"
  "page_ref_count (alloc_state x s) = (page_ref_count s)(PAGE_INDEX s x := 1)"
  "g_free_mem_list (alloc_state x s) = pmem s x 0" "pmm_lock (alloc_state x s) = pmm_lock s"
  "free_mem_start_addr (alloc_state x s) = free_mem_start_addr s"
  "free_mem_end_addr (alloc_state x s) = free_mem_end_addr s"
  "PAGE_INDEX (alloc_state x s) = PAGE_INDEX s"
  by (simp_all add: alloc_state_def)

text \<open>The two outcomes of releasing a page the allocator manages.\<close>

definition push_state :: "u64 \<Rightarrow> 'z pmm_state_scheme \<Rightarrow> 'z pmm_state_scheme" where
  "push_state pa s =
     (set_dword pa 0 (g_free_mem_list s) (set_ref (PAGE_INDEX s pa) 0 s))\<lparr>g_free_mem_list := pa\<rparr>"

lemma free_page_eq_last:
  assumes "managed s pa" "pmm_lock s = SPIN_LOCK_FREE" "ref_of s pa \<le> 1"
  shows "free_page pa s = (Inr (), push_state pa s)"
proof -
  have "ref_of s pa = 0 \<or> ref_of s pa = 1"
    using assms(3) by (rule word_le_1_cases)
  then show ?thesis
    using assms(1,2)
    by (auto simp: free_page_def managed_def pmm_op_defs spinlock_amo_lock_def amoswap_d_def
      spinlock_amo_unlock_def kthen_def kbind_def kget_def kput_def kwhen_def kreturn_def
      push_state_def set_ref_def set_dword_def PAGE_INDEX_def MAX_PAGE_NUM_def Let_def
      fun_upd_idem)
qed

lemma free_page_eq_shared:
  assumes "managed s pa" "pmm_lock s = SPIN_LOCK_FREE" "1 < ref_of s pa"
  shows "free_page pa s = (Inr (), set_ref (PAGE_INDEX s pa) (ref_of s pa - 1) s)"
proof -
  have "0 < ref_of s pa" "ref_of s pa - 1 \<noteq> 0"
    using assms(3) by (auto simp: word_gt_0)
  then show ?thesis
    using assms(1,2)
    by (auto simp: free_page_def managed_def pmm_op_defs spinlock_amo_lock_def amoswap_d_def
      spinlock_amo_unlock_def kthen_def kbind_def kget_def kput_def kwhen_def kreturn_def
      set_ref_def PAGE_INDEX_def MAX_PAGE_NUM_def Let_def)
qed

lemma push_state_inv:
  assumes "pmm_inv s xs" "managed s pa" "pa \<notin> set xs"
  shows "pmm_inv (push_state pa s) (pa # xs)"
proof -
  have "pa \<noteq> 0" using assms managed_nonzero by (auto simp: pmm_inv_def)
  moreover have "pmm_bounds (push_state pa s)"
    using assms(1) pmm_bounds_cong [of "push_state pa s" s] by (simp add: push_state_def pmm_inv_def)
  moreover have "free_chain (pmem (push_state pa s)) (g_free_mem_list s) xs"
  proof -
    have "free_chain (pmem (push_state pa s)) p xs = free_chain (pmem s) p xs" for p
      using assms(3) by (intro free_chain_frame) (auto simp: push_state_def)
    then show ?thesis using assms(1) by (simp add: pmm_inv_def)
  qed
  ultimately show ?thesis
    using assms by (simp add: pmm_inv_def push_state_def)
qed

lemma push_state_simps [simp]:
  "pmem (push_state pa s) = (pmem s)(pa := (pmem s pa)(0 := g_free_mem_list s))"
  "managed (push_state pa s) = managed s" "PAGE_INDEX (push_state pa s) = PAGE_INDEX s"
  "g_free_mem_list (push_state pa s) = pa"
  "page_ref_count (push_state pa s) = (page_ref_count s)(PAGE_INDEX s pa := 0)"
  "pmm_lock (push_state pa s) = pmm_lock s"
  "free_mem_start_addr (push_state pa s) = free_mem_start_addr s"
  "free_mem_end_addr (push_state pa s) = free_mem_end_addr s"
  by (simp_all add: push_state_def)

section \<open>The interface of the allocator\<close>

text \<open>
  What the rest of the kernel relies on: \<open>inv s xs\<close> names the free pages in allocation order,
  \<open>owns\<close> the pages that may be released and \<open>shares\<close> their reference counts.
\<close>

locale page_allocator =
  fixes inv :: "'s \<Rightarrow> u64 list \<Rightarrow> bool"
    and alloc :: "('s, u64) km"
    and release :: "u64 \<Rightarrow> ('s, unit) km"
    and shares :: "'s \<Rightarrow> u64 \<Rightarrow> u16"
    and owns :: "'s \<Rightarrow> u64 \<Rightarrow> bool"
  assumes inv_free: "inv s xs \<Longrightarrow> distinct xs \<and> 0 \<notin> set xs \<and> (\<forall>x\<in>set xs. owns s x)"
    and alloc_none: "inv s [] \<Longrightarrow> alloc s = (Inr 0, s)"
    and alloc_some: "inv s (x # xs) \<Longrightarrow>
      \<exists>t. alloc s = (Inr x, t) \<and> inv t xs \<and> shares t x = 1 \<and> owns t = owns s"
    and release_last: "inv s xs \<Longrightarrow> owns s p \<Longrightarrow> p \<notin> set xs \<Longrightarrow> shares s p \<le> 1 \<Longrightarrow>
      \<exists>t. release p s = (Inr (), t) \<and> inv t (p # xs) \<and> owns t = owns s"
    and release_shared: "inv s xs \<Longrightarrow> owns s p \<Longrightarrow> 1 < shares s p \<Longrightarrow>
      \<exists>t. release p s = (Inr (), t) \<and> inv t xs \<and> shares t p = shares s p - 1 \<and> owns t = owns s"
begin

lemma alloc_then_release:
  assumes "inv s (x # xs)"
  shows "\<exists>t. kbind alloc release s = (Inr (), t) \<and> inv t (x # xs)"
proof -
  obtain u where u: "alloc s = (Inr x, u)" "inv u xs" "shares u x = 1" "owns u = owns s"
    using alloc_some assms by blast
  have "owns u x" "x \<notin> set xs" using inv_free assms u(4) by fastforce+
  with u release_last [of u xs x] show ?thesis by (auto simp: kbind_def)
qed

lemma alloc_many:
  assumes "inv s (ys @ zs)"
  shows "\<exists>t. kcollect (length ys) alloc s = (Inr ys, t) \<and> inv t zs \<and> owns t = owns s"
  using assms
proof (induction ys arbitrary: s)
  case Nil
  then show ?case by (simp add: kreturn_def)
next
  case (Cons y ys)
  then obtain u where u: "alloc s = (Inr y, u)" "inv u (ys @ zs)" "owns u = owns s"
    using alloc_some by fastforce
  from Cons.IH [OF u(2)] u(1,3) show ?case by (auto simp: kbind_def kreturn_def)
qed

lemma alloc_exhausts:
  assumes "inv s xs"
  shows "\<exists>t. kcollect (Suc (length xs)) alloc s = (Inr (xs @ [0]), t) \<and> inv t []"
  using assms
proof (induction xs arbitrary: s)
  case Nil
  then show ?case using alloc_none by (simp add: kbind_def kreturn_def)
next
  case (Cons x xs)
  then obtain u where u: "alloc s = (Inr x, u)" "inv u xs" using alloc_some by blast
  from Cons.IH [OF u(2)] obtain t where
    "kcollect (Suc (length xs)) alloc u = (Inr (xs @ [0]), t)" "inv t []" by blast
  then show ?case
    using u(1) kcollect.simps(2) [of "Suc (length xs)" alloc]
    by (simp add: kbind_def kreturn_def del: kcollect.simps)
qed

end

interpretation pmm: page_allocator pmm_inv alloc_page free_page ref_of managed
proof unfold_locales
  fix s :: "'z pmm_state_scheme" and xs
  assume "pmm_inv s xs"
  then show "distinct xs \<and> 0 \<notin> set xs \<and> (\<forall>x\<in>set xs. managed s x)" using pmm_invD by blast
next
  fix s :: "'z pmm_state_scheme"
  assume "pmm_inv s []"
  then show "alloc_page s = (Inr 0, s)" by (rule alloc_page_eq_empty)
next
  fix s :: "'z pmm_state_scheme" and x xs
  assume "pmm_inv s (x # xs)"
  then show "\<exists>t. alloc_page s = (Inr x, t) \<and> pmm_inv t xs \<and> ref_of t x = 1 \<and> managed t = managed s"
    using alloc_page_eq [of s x xs] alloc_state_inv [of s x xs] by simp
next
  fix s :: "'z pmm_state_scheme" and p xs
  assume "pmm_inv s xs" "managed s p" "p \<notin> set xs" "ref_of s p \<le> 1"
  then show "\<exists>t. free_page p s = (Inr (), t) \<and> pmm_inv t (p # xs) \<and> managed t = managed s"
    using free_page_eq_last [of s p] push_state_inv [of s xs p] pmm_invD(2) [of s xs] by simp
next
  fix s :: "'z pmm_state_scheme" and p xs
  assume a: "pmm_inv s xs" "managed s p" "1 < ref_of s p"
  let ?t = "set_ref (PAGE_INDEX s p) (ref_of s p - 1) s"
  have "PAGE_INDEX s y \<noteq> PAGE_INDEX s p" if "y \<in> set xs" for y
    using pmm_invD(6) [OF a(1) that] a(3) by auto
  moreover have "pmm_bounds ?t" using a(1) pmm_bounds_cong [of ?t s] by (simp add: pmm_inv_def)
  ultimately have "pmm_inv ?t xs" using a(1) by (simp add: pmm_inv_def)
  then show "\<exists>t. free_page p s = (Inr (), t) \<and> pmm_inv t xs \<and> ref_of t p = ref_of s p - 1 \<and>
      managed t = managed s"
    using free_page_eq_shared [OF a(2) pmm_invD(2) [OF a(1)] a(3)] by simp
qed

section \<open>Building the free list at boot\<close>

text \<open>
  \<open>boot_ready s\<close>: the state in which \<^verbatim>\<open>create_freepage_list\<close> starts, with the static reference
  counts all zero.  The loop pushes every page but the last one of the range, because it asks
  for \<open>p + PGSIZE < end\<close>.
\<close>

definition boot_ready :: "'z pmm_state_scheme \<Rightarrow> bool" where
  "boot_ready s \<longleftrightarrow> pmm_bounds s \<and> pmm_lock s = SPIN_LOCK_FREE \<and>
     page_aligned (free_mem_end_addr s) \<and> page_ref_count s = (\<lambda>_. 0)"

abbreviation n_pages :: "'z pmm_state_scheme \<Rightarrow> nat" where
  "n_pages s \<equiv> unat (MAX_PAGE_NUM s)"

lemma boot_geometry:
  assumes "boot_ready s"
  shows "unat (free_mem_end_addr s) = unat (free_mem_start_addr s) + n_pages s * 4096"
proof -
  let ?a = "unat (free_mem_start_addr s)" and ?b = "unat (free_mem_end_addr s)"
  have le: "?a \<le> ?b" and al: "?a mod 4096 = 0" "?b mod 4096 = 0"
    using assms by (auto simp: boot_ready_def pmm_bounds_def page_aligned_unat word_le_nat_alt)
  have "n_pages s = (?b - ?a) div 4096"
    using assms by (simp add: MAX_PAGE_NUM_def unat_div_distrib unat_PGSIZE unat_sub boot_ready_def
        pmm_bounds_def)
  moreover have "4096 dvd ?b - ?a" using al by (auto intro: dvd_diff_nat)
  ultimately show ?thesis using le by auto
qed

lemma managed_page_at:
  assumes "boot_ready s" and "i < n_pages s"
  shows "managed s (page_at (free_mem_start_addr s) i)"
proof -
  let ?a = "unat (free_mem_start_addr s)"
  have b: "?a + i * 4096 < unat (free_mem_end_addr s)"
    using assms(2) boot_geometry [OF assms(1)] by simp
  then have u: "unat (page_at (free_mem_start_addr s) i) = ?a + i * 4096"
    using unat_bound64 [of "free_mem_end_addr s"] by (intro unat_page_at) simp
  then have le: "free_mem_start_addr s \<le> page_at (free_mem_start_addr s) i"
    by (simp add: word_le_nat_alt)
  with u have "unat (PAGE_INDEX s (page_at (free_mem_start_addr s) i)) = i"
    by (simp add: unat_PAGE_INDEX)
  with assms b u le show ?thesis
    by (simp add: managed_def word_less_nat_alt page_at_aligned boot_ready_def pmm_bounds_def)
qed

lemma unat_ROUNDUP:
  assumes "a \<noteq> 0" and "unat a + 4095 < 2 ^ 64"
  shows "unat (ROUNDUP a PGSIZE) = ((unat a - 1) div 4096 + 1) * 4096"
proof -
  let ?k = "(unat a - 1) div 4096"
  have "unat (a - 1) = unat a - 1" using assms(1) by (simp add: unat_minus_one)
  then have k: "unat ((a - 1) div PGSIZE) = ?k" by (simp add: unat_div_distrib unat_PGSIZE)
  have "?k * 4096 \<le> unat a - 1" by simp
  then have "(?k + 1) * 4096 < 2 ^ 64" using assms by simp
  with k show ?thesis by (simp add: ROUNDUP_def unat_word_ariths unat_PGSIZE)
qed

lemma roundup_bounds:
  fixes x :: nat
  assumes "0 < x"
  shows "x \<le> ((x - 1) div 4096 + 1) * 4096" "((x - 1) div 4096 + 1) * 4096 \<le> x + 4095"
proof -
  have "(x - 1) div 4096 * 4096 + (x - 1) mod 4096 = x - 1" by (rule div_mult_mod_eq)
  moreover have "(x - 1) mod 4096 < 4096" by simp
  ultimately show "x \<le> ((x - 1) div 4096 + 1) * 4096" "((x - 1) div 4096 + 1) * 4096 \<le> x + 4095"
    using assms by (simp_all add: distrib_right)
qed

lemma roundup_multiple:
  fixes x :: nat
  assumes "0 < x" and "x mod 4096 = 0"
  shows "((x - 1) div 4096 + 1) * 4096 = x"
proof -
  obtain k where k: "x = k * 4096" using assms(2) by (metis dvd_def mod_eq_0_iff_dvd mult.commute)
  with roundup_bounds [OF assms(1)] have
    "k * 4096 \<le> ((x - 1) div 4096 + 1) * 4096" "((x - 1) div 4096 + 1) * 4096 < (k + 1) * 4096"
    by simp_all
  then have "k \<le> (x - 1) div 4096 + 1" "(x - 1) div 4096 + 1 < k + 1"
    by (simp_all only: mult_le_cancel2 mult_less_cancel2)
  then have "(x - 1) div 4096 + 1 = k" by simp
  with k show ?thesis by simp
qed

lemma ROUNDUP_aligned: "page_aligned a \<Longrightarrow> a \<noteq> 0 \<Longrightarrow> unat a + 4095 < 2 ^ 64 \<Longrightarrow> ROUNDUP a PGSIZE = a"
proof -
  assume al: "page_aligned a" and nz: "a \<noteq> 0" and b: "unat a + 4095 < 2 ^ 64"
  then have "0 < unat a" "unat a mod 4096 = 0" by (simp_all add: page_aligned_unat unat_gt_0)
  then have "((unat a - 1) div 4096 + 1) * 4096 = unat a" by (rule roundup_multiple)
  then have "unat (ROUNDUP a PGSIZE) = unat a" using unat_ROUNDUP [OF nz b] by simp
  then show ?thesis by (rule word_unat_eq_iff [THEN iffD2])
qed

definition boot_pages :: "'z pmm_state_scheme \<Rightarrow> nat \<Rightarrow> u64 list" where
  "boot_pages s n = rev (page_range (free_mem_start_addr s) n)"

text \<open>Loop invariant: after \<open>n\<close> iterations the first \<open>n\<close> pages are on the list, highest first.\<close>

definition boot_loop_inv :: "'z pmm_state_scheme \<Rightarrow> nat \<Rightarrow> 'z pmm_state_scheme \<Rightarrow> bool" where
  "boot_loop_inv s n t \<longleftrightarrow> pmm_inv t (boot_pages s n) \<and> n \<le> n_pages s - 1 \<and>
     free_mem_start_addr t = free_mem_start_addr s \<and> free_mem_end_addr t = free_mem_end_addr s \<and>
     page_ref_count t = (\<lambda>_. 0)"

lemma boot_guard:
  assumes "boot_ready s" and "n \<le> n_pages s - 1" and "0 < n_pages s"
  shows "page_at (free_mem_start_addr s) n + PGSIZE < free_mem_end_addr s \<longleftrightarrow> Suc n < n_pages s"
proof -
  have g: "unat (free_mem_end_addr s) = unat (free_mem_start_addr s) + n_pages s * 4096"
    by (rule boot_geometry) (rule assms)
  have "Suc n * 4096 \<le> n_pages s * 4096" using assms(2,3) by simp
  then have "unat (page_at (free_mem_start_addr s) (Suc n)) = unat (free_mem_start_addr s) + Suc n * 4096"
    using g unat_bound64 [of "free_mem_end_addr s"] by (intro unat_page_at) linarith
  with g have "page_at (free_mem_start_addr s) (Suc n) < free_mem_end_addr s \<longleftrightarrow>
      Suc n * 4096 < n_pages s * 4096"
    by (simp add: word_less_nat_alt)
  then show ?thesis by (simp only: page_at_Suc mult_less_cancel2) simp
qed

lemma boot_step:
  assumes s: "boot_ready s" and t: "boot_loop_inv s n t" and n: "Suc n < n_pages s"
  shows "\<exists>u. free_page (page_at (free_mem_start_addr s) n) t = (Inr (), u) \<and> boot_loop_inv s (Suc n) u"
proof -
  let ?p = "page_at (free_mem_start_addr s) n"
  have "managed t = managed s" using t by (intro managed_cong) (auto simp: boot_loop_inv_def)
  then have m: "managed t ?p" using managed_page_at [OF s] n by simp
  have "unat (free_mem_start_addr s) + n_pages s * 4096 < 2 ^ 64"
    using boot_geometry [OF s] unat_bound64 [of "free_mem_end_addr s"] by simp
  then have "?p \<noteq> page_at (free_mem_start_addr s) i" if "i < n" for i
    using n that page_at_inj [of "free_mem_start_addr s" "n_pages s" n i] by simp
  then have "?p \<notin> set (boot_pages s n)" by (auto simp: boot_pages_def set_page_range)
  with t m have "pmm_inv (push_state ?p t) (?p # boot_pages s n)"
    by (intro push_state_inv) (auto simp: boot_loop_inv_def)
  moreover have "?p # boot_pages s n = boot_pages s (Suc n)" by (simp add: boot_pages_def)
  ultimately have "boot_loop_inv s (Suc n) (push_state ?p t)"
    using t n by (auto simp: boot_loop_inv_def)
  moreover have "free_page ?p t = (Inr (), push_state ?p t)"
    using t m by (intro free_page_eq_last) (auto simp: boot_loop_inv_def pmm_inv_def)
  ultimately show ?thesis by blast
qed

lemma create_freepage_list_boot:
  assumes s: "boot_ready s" and pos: "0 < n_pages s"
  shows "kwp (create_freepage_list (free_mem_start_addr s) (free_mem_end_addr s))
    (\<lambda>_ t. pmm_inv t (boot_pages s (n_pages s - 1)) \<and>
      free_mem_start_addr t = free_mem_start_addr s \<and> free_mem_end_addr t = free_mem_end_addr s)
    (\<lambda>_ _. False) s"
proof -
  let ?a = "free_mem_start_addr s"
  let ?s0 = "s\<lparr>g_free_mem_list := 0\<rparr>"
  let ?I = "\<lambda>p t. \<exists>n. p = page_at ?a n \<and> boot_loop_inv s n t"
  let ?m = "\<lambda>p. unat (free_mem_end_addr s - p) div 4096"
  have a: "page_aligned ?a" "?a \<noteq> 0" using s by (auto simp: boot_ready_def pmm_bounds_def)
  have m: "?m (page_at ?a n) = n_pages s - n" if "n \<le> n_pages s" for n
  proof -
    have "n * 4096 \<le> n_pages s * 4096" using that by simp
    then have u: "unat (page_at ?a n) = unat ?a + n * 4096"
      using boot_geometry [OF s] unat_bound64 [of "free_mem_end_addr s"] by (intro unat_page_at) linarith
    then have "page_at ?a n \<le> free_mem_end_addr s"
      using boot_geometry [OF s] that by (simp add: word_le_nat_alt)
    with u boot_geometry [OF s] show ?thesis by (simp add: unat_sub diff_mult_distrib [symmetric])
  qed
  have "kwp (kwhile page_loop_bound (\<lambda>p. p + PGSIZE < free_mem_end_addr s)
      (\<lambda>p. kthen (free_page p) (kreturn (p + PGSIZE))) ?a)
    (\<lambda>_ t. pmm_inv t (boot_pages s (n_pages s - 1)) \<and>
      free_mem_start_addr t = free_mem_start_addr s \<and> free_mem_end_addr t = free_mem_end_addr s)
    (\<lambda>_ _. False) ?s0"
  proof (rule kwp_while [where I = ?I and \<mu> = ?m])
    have "pmm_bounds ?s0" using s pmm_bounds_cong [of ?s0 s] by (simp add: boot_ready_def)
    then have "boot_loop_inv s 0 ?s0"
      using s by (simp add: boot_loop_inv_def pmm_inv_def boot_pages_def boot_ready_def)
    then show "?I ?a ?s0" by (intro exI [of _ 0]) simp
  next
    have "?m (page_at ?a 0) = n_pages s" using m [of 0] by simp
    moreover have "n_pages s \<le> PMM_MAX_PAGES" using s by (simp add: boot_ready_def pmm_bounds_def)
    ultimately show "?m ?a \<le> page_loop_bound" by (simp add: page_loop_bound_def PMM_MAX_PAGES_def)
  next
    fix p :: u64 and t :: "'a pmm_state_scheme"
    assume "?I p t" and g: "p + PGSIZE < free_mem_end_addr s"
    then obtain n where p: "p = page_at ?a n" and i: "boot_loop_inv s n t" by blast
    then have n: "Suc n < n_pages s" using boot_guard [OF s _ pos] g by (auto simp: boot_loop_inv_def)
    with boot_step [OF s i] p obtain u where "free_page p t = (Inr (), u)" "boot_loop_inv s (Suc n) u"
      by blast
    moreover have "?m (page_at ?a (Suc n)) < ?m (page_at ?a n)" using n m by simp
    ultimately show "kwp (kthen (free_page p) (kreturn (p + PGSIZE)))
        (\<lambda>q u. ?I q u \<and> ?m q < ?m p) (\<lambda>_ _. False) t"
      using p by (auto simp: kwp_def kthen_def kbind_def kreturn_def page_at_Suc)
  next
    fix p :: u64 and t :: "'a pmm_state_scheme"
    assume "?I p t" and g: "\<not> p + PGSIZE < free_mem_end_addr s"
    then obtain n where p: "p = page_at ?a n" and i: "boot_loop_inv s n t" by blast
    then have "n = n_pages s - 1" using boot_guard [OF s _ pos] g by (auto simp: boot_loop_inv_def)
    with i show "pmm_inv t (boot_pages s (n_pages s - 1)) \<and>
        free_mem_start_addr t = free_mem_start_addr s \<and> free_mem_end_addr t = free_mem_end_addr s"
      by (auto simp: boot_loop_inv_def)
  next
    fix p :: u64 and t :: "'a pmm_state_scheme"
    assume "?I p t" and g: "p + PGSIZE < free_mem_end_addr s"
    then obtain n where p: "p = page_at ?a n" and i: "boot_loop_inv s n t" by blast
    then have "Suc n < n_pages s" using boot_guard [OF s _ pos] g by (auto simp: boot_loop_inv_def)
    with m p show "0 < ?m p" by simp
  qed
  moreover have "ROUNDUP ?a PGSIZE = ?a"
    using a boot_geometry [OF s] pos unat_bound64 [of "free_mem_end_addr s"]
    by (intro ROUNDUP_aligned) auto
  ultimately show ?thesis by (simp add: create_freepage_list_def kwp_simps)
qed

section \<open>Properties\<close>

lemma pmm_init_ready:
  fixes s :: "'z pmm_state_scheme"
  assumes "m = min PKE_MAX_ALLOWABLE_RAM (g_mem_size s)" "page_aligned m"
    and "KERN_BASE < e" "unat e + 8192 \<le> unat m + 2 ^ 31"
    and "page_ref_count s = (\<lambda>_. 0)"
    and t: "t = s\<lparr>free_mem_start_addr := ROUNDUP e PGSIZE, g_mem_size := m,
      free_mem_end_addr := m + DRAM_BASE, pmm_lock := SPIN_LOCK_FREE\<rparr>"
  shows "boot_ready t \<and> 0 < n_pages t \<and> n_pages t \<le> 32768"
proof -
  have m: "unat m \<le> 2 ^ 27"
    using assms(1) by (simp add: min_def PKE_MAX_ALLOWABLE_RAM_def word_le_nat_alt split: if_splits)
  then have b: "unat (free_mem_end_addr t) = unat m + 2 ^ 31"
    by (simp add: t DRAM_BASE_def unat_word_ariths)
  have e: "2 ^ 31 < unat e" using assms(3) by (simp add: KERN_BASE_def word_less_nat_alt)
  then have "e \<noteq> 0" by auto
  then have u: "unat (free_mem_start_addr t) = ((unat e - 1) div 4096 + 1) * 4096"
    using assms(4) m unat_ROUNDUP [of e] by (auto simp: t)
  then have al: "page_aligned (free_mem_start_addr t)" by (simp add: page_aligned_unat)
  have lo: "2 ^ 31 \<le> unat (free_mem_start_addr t)" and hi: "unat (free_mem_start_addr t) \<le> unat e + 4095"
    using u e roundup_bounds [of "unat e"] by simp_all
  have "unat m mod 4096 = 0" using assms(2) by (simp add: page_aligned_unat)
  then have bal: "page_aligned (free_mem_end_addr t)"
    unfolding page_aligned_unat b by (simp add: mod_add_eq [symmetric, of "unat m"])
  have le: "free_mem_start_addr t \<le> free_mem_end_addr t"
    using hi assms(4) b by (simp add: word_le_nat_alt)
  then have n: "n_pages t = (unat (free_mem_end_addr t) - unat (free_mem_start_addr t)) div 4096"
    by (simp add: MAX_PAGE_NUM_def unat_div_distrib unat_PGSIZE unat_sub)
  then have "n_pages t \<le> 32768" and "0 < n_pages t"
    using b lo hi m assms(4) by (auto simp: div_le_mono [of _ "2 ^ 27" 4096, simplified] div_greater_zero_iff)
  then show ?thesis
    using al bal le lo assms(5)
    by (auto simp: boot_ready_def pmm_bounds_def PMM_MAX_PAGES_def t)
qed

text \<open>
  C10. Allocation: with free pages \<open>x # xs\<close>, \<^verbatim>\<open>alloc_page\<close> returns \<open>x\<close>, a non-null page inside the
  managed range; afterwards \<open>xs\<close> are free, the page has reference count 1, the counts of the other
  pages and the whole memory are unchanged, and the lock is free again.  With no free page it
  returns null and changes nothing.
\<close>

theorem alloc_page_correct:
  fixes s :: "'z pmm_state_scheme"
  assumes "pmm_inv s ps"
  shows "case ps of
      [] \<Rightarrow> alloc_page s = (Inr 0, s)
    | x # xs \<Rightarrow> (\<exists>t. alloc_page s = (Inr x, t) \<and> x \<noteq> 0 \<and> managed s x \<and> pmm_inv t xs \<and>
        ref_of t x = 1 \<and> pmem t = pmem s \<and>
        (\<forall>y. managed s y \<longrightarrow> y \<noteq> x \<longrightarrow> ref_of t y = ref_of s y))"
proof (cases ps)
  case Nil
  then show ?thesis using assms pmm.alloc_none by auto
next
  case (Cons x xs)
  have "PAGE_INDEX s y \<noteq> PAGE_INDEX s x" if "managed s y" "y \<noteq> x" for y
    using that PAGE_INDEX_inj [of s y x] assms Cons by (auto simp: pmm_inv_def pmm_bounds_def)
  then show ?thesis
    using Cons assms alloc_page_eq [of s x xs] alloc_state_inv [of s x xs] pmm_invD [of s "x # xs"]
    by auto
qed

text \<open>A small allocator for the witnesses: three pages at 0x80001000, the lower two free.\<close>

definition demo_pmm :: pmm_state where
  "demo_pmm = \<lparr>pmem = (\<lambda>_ _. 0)(0x80002000 := (\<lambda>_. 0)(0 := 0x80001000)),
     g_free_mem_list = 0x80002000, page_ref_count = (\<lambda>_. 0)(2 := 2),
     free_mem_start_addr = 0x80001000, free_mem_end_addr = 0x80004000,
     g_mem_size = 0x4000, pmm_lock = 0\<rparr>"

lemma demo_pmm_inv: "pmm_inv demo_pmm [0x80002000, 0x80001000]"
  by (simp add: pmm_inv_def pmm_bounds_def demo_pmm_def managed_def PAGE_INDEX_def MAX_PAGE_NUM_def
      PGSIZE_def PMM_MAX_PAGES_def SPIN_LOCK_FREE_def)

lemma demo_pmm_shared: "managed demo_pmm 0x80003000" "ref_of demo_pmm 0x80003000 = 2"
  by (simp_all add: demo_pmm_def managed_def PAGE_INDEX_def MAX_PAGE_NUM_def PGSIZE_def)

theorem alloc_page_correct_witness:
  "\<exists>t. alloc_page demo_pmm = (Inr 0x80002000, t) \<and> pmm_inv t [0x80001000]"
  using alloc_page_correct [OF demo_pmm_inv] by auto

text \<open>
  C11. Release: freeing a managed page that is not free drops one reference; the page goes back to
  the head of the free list exactly when that was its last reference, and then only its first
  doubleword (the list link) changes in memory.  A page that is still shared keeps its content and
  stays out of the list.
\<close>

theorem free_page_correct:
  fixes s :: "'z pmm_state_scheme"
  assumes "pmm_inv s xs" and "managed s pa" and "pa \<notin> set xs"
  shows "\<exists>t. free_page pa s = (Inr (), t) \<and>
    (if 1 < ref_of s pa
     then pmm_inv t xs \<and> ref_of t pa = ref_of s pa - 1 \<and> pmem t = pmem s
     else pmm_inv t (pa # xs) \<and> ref_of t pa = 0 \<and>
       (\<forall>q i. (q, i) \<noteq> (pa, 0) \<longrightarrow> pmem t q i = pmem s q i))"
proof (cases "1 < ref_of s pa")
  case True
  have "free_page pa s = (Inr (), set_ref (PAGE_INDEX s pa) (ref_of s pa - 1) s)"
    using True assms pmm_invD(2) by (intro free_page_eq_shared) auto
  moreover obtain t where "free_page pa s = (Inr (), t)" "pmm_inv t xs" "ref_of t pa = ref_of s pa - 1"
    using pmm.release_shared [OF assms(1,2) True] by blast
  ultimately show ?thesis using True by auto
next
  case False
  then have "free_page pa s = (Inr (), push_state pa s)"
    using assms pmm_invD(2) by (intro free_page_eq_last) auto
  with False push_state_inv [OF assms] show ?thesis by auto
qed

theorem free_page_correct_witness:
  "\<exists>t. free_page 0x80003000 demo_pmm = (Inr (), t) \<and> pmm_inv t [0x80002000, 0x80001000] \<and>
     ref_of t 0x80003000 = 1"
  using free_page_correct [OF demo_pmm_inv demo_pmm_shared(1)] by (auto simp: demo_pmm_shared(2))

text \<open>
  A call of \<^verbatim>\<open>free_page\<close> on an address that is not a page of the managed range stops the machine
  and does not touch the free list, the reference counts or the memory.
\<close>

theorem free_page_rejects:
  fixes s :: "'z pmm_state_scheme"
  assumes "pmm_lock s = SPIN_LOCK_FREE"
    and "\<not> (page_aligned pa \<and> free_mem_start_addr s \<le> pa \<and> pa < free_mem_end_addr s)"
  shows "\<exists>t. free_page pa s = (Inl (Panic ''free_page''), t) \<and> pmem t = pmem s \<and>
    g_free_mem_list t = g_free_mem_list s \<and> page_ref_count t = page_ref_count s"
  using assms
  by (auto simp: free_page_def pmm_op_defs spinlock_amo_lock_def amoswap_d_def kthen_def kbind_def
      kget_def kput_def kraise_def kreturn_def not_le not_less)

theorem free_page_rejects_witness:
  "\<exists>t. free_page 0x80003008 demo_pmm = (Inl (Panic ''free_page''), t)"
  using free_page_rejects [of demo_pmm "0x80003008"]
  by (auto simp: demo_pmm_def SPIN_LOCK_FREE_def PGSIZE_def)

text \<open>
  Repeated allocation hands out pairwise distinct pages: \<open>n\<close> calls with at least \<open>n\<close> free pages
  return the first \<open>n\<close> of them, all different, all non-null and page-aligned, and the next call
  after the last free page returns null.
\<close>

theorem alloc_pages_distinct:
  fixes s :: "'z pmm_state_scheme"
  assumes "pmm_inv s (ys @ zs)"
  shows "(\<exists>t. kcollect (length ys) alloc_page s = (Inr ys, t) \<and> pmm_inv t zs) \<and> distinct ys \<and>
    (\<forall>y\<in>set ys. y \<noteq> 0 \<and> page_aligned y) \<and>
    (\<exists>t. kcollect (Suc (length (ys @ zs))) alloc_page s = (Inr (ys @ zs @ [0]), t))"
proof -
  have "\<forall>y\<in>set ys. y \<noteq> 0 \<and> page_aligned y"
    using pmm_invD(4,5) [OF assms] by (auto simp: managed_def)
  then show ?thesis
    using pmm.alloc_many [OF assms] pmm.alloc_exhausts [OF assms] pmm_invD(3) [OF assms] by auto
qed

theorem alloc_pages_distinct_witness:
  "\<exists>t. kcollect 2 alloc_page demo_pmm = (Inr [0x80002000, 0x80001000], t) \<and> pmm_inv t []"
  using alloc_pages_distinct [of demo_pmm "[0x80002000, 0x80001000]" "[]"] demo_pmm_inv
  by (auto simp: numeral_2_eq_2)

lemma pmm_init_run:
  fixes s :: "'z pmm_state_scheme"
  assumes "m = min PKE_MAX_ALLOWABLE_RAM (g_mem_size s)" "page_aligned m"
    and "KERN_BASE < e" "unat e + 8192 \<le> unat m + 2 ^ 31"
    and "page_ref_count s = (\<lambda>_. 0)"
  shows "\<exists>t. pmm_init e s = (Inr (), t) \<and>
    pmm_inv t (rev (page_range (ROUNDUP e PGSIZE) (n_pages t - 1))) \<and>
    unat (ROUNDUP e PGSIZE) + n_pages t * 4096 = unat m + 2 ^ 31 \<and> n_pages t \<le> PMM_MAX_PAGES"
proof -
  define t0 where "t0 = s\<lparr>free_mem_start_addr := ROUNDUP e PGSIZE, g_mem_size := m,
      free_mem_end_addr := m + DRAM_BASE, pmm_lock := SPIN_LOCK_FREE\<rparr>"
  have r: "boot_ready t0" "0 < n_pages t0" "n_pages t0 \<le> 32768"
    using pmm_init_ready [OF assms t0_def] by auto
  have b: "free_mem_start_addr t0 = ROUNDUP e PGSIZE" "free_mem_end_addr t0 = m + DRAM_BASE"
    by (simp_all add: t0_def)
  have m: "unat m \<le> 2 ^ 27"
    using assms(1) by (simp add: min_def PKE_MAX_ALLOWABLE_RAM_def word_le_nat_alt split: if_splits)
  then have mu: "unat (m + DRAM_BASE) = unat m + 2 ^ 31"
    by (simp add: DRAM_BASE_def unat_word_ariths)
  have "unat (e - KERN_BASE) = unat e - 2 ^ 31"
    using assms(3) by (simp add: unat_sub KERN_BASE_def)
  then have big: "\<not> m < e - KERN_BASE" using assms(4) by (simp add: word_less_nat_alt)
  have "kwp (pmm_init e) Q E s = kwp (create_freepage_list (ROUNDUP e PGSIZE) (m + DRAM_BASE)) Q E t0"
    for Q E
    using big assms(1) by (simp add: pmm_init_def kwp_simps t0_def Let_def)
  then have "kwp (pmm_init e) (\<lambda>_ t. pmm_inv t (boot_pages t0 (n_pages t0 - 1)) \<and>
      free_mem_start_addr t = free_mem_start_addr t0 \<and> free_mem_end_addr t = free_mem_end_addr t0)
      (\<lambda>_ _. False) s"
    using create_freepage_list_boot [OF r(1,2)] b by simp
  then obtain t where t: "pmm_init e s = (Inr (), t)" "pmm_inv t (boot_pages t0 (n_pages t0 - 1))"
      "free_mem_start_addr t = free_mem_start_addr t0" "free_mem_end_addr t = free_mem_end_addr t0"
    using kwp_total by fastforce
  then have "n_pages t = n_pages t0" by (simp add: MAX_PAGE_NUM_def)
  with t r(3) boot_geometry [OF r(1)] b mu show ?thesis
    by (auto simp: boot_pages_def PMM_MAX_PAGES_def)
qed

text \<open>
  C12. Boot: \<^verbatim>\<open>pmm_init\<close> returns (its loop ends), the allocator is consistent, every page of the range
  between the end of the kernel and the end of memory but the last one is free, the highest
  address first, and the reference count array has an entry for every page.
\<close>

theorem pmm_init_correct:
  fixes s :: "'z pmm_state_scheme"
  assumes "m = min PKE_MAX_ALLOWABLE_RAM (g_mem_size s)" "page_aligned m"
    and "KERN_BASE < e" "unat e + 8192 \<le> unat m + 2 ^ 31"
    and "page_ref_count s = (\<lambda>_. 0)"
  shows "\<exists>t. pmm_init e s = (Inr (), t) \<and>
    pmm_inv t (rev (page_range (ROUNDUP e PGSIZE) (n_pages t - 1))) \<and>
    unat (ROUNDUP e PGSIZE) + n_pages t * 4096 = unat m + 2 ^ 31 \<and> n_pages t \<le> PMM_MAX_PAGES"
  using assms by (rule pmm_init_run)

definition demo_boot :: pmm_state where
  "demo_boot = demo_pmm\<lparr>g_mem_size := 0x8000000, page_ref_count := (\<lambda>_. 0)\<rparr>"

theorem pmm_init_correct_witness:
  "\<exists>t. pmm_init 0x80020123 demo_boot = (Inr (), t) \<and> 0x80021000 + n_pages t * 4096 = 0x88000000 \<and>
     pmm_inv t (rev (page_range 0x80021000 (n_pages t - 1)))"
proof -
  have r: "ROUNDUP 0x80020123 PGSIZE = 0x80021000" by (simp add: ROUNDUP_def PGSIZE_def)
  have "\<exists>t. pmm_init 0x80020123 demo_boot = (Inr (), t) \<and>
      pmm_inv t (rev (page_range (ROUNDUP 0x80020123 PGSIZE) (n_pages t - 1))) \<and>
      unat (ROUNDUP 0x80020123 PGSIZE) + n_pages t * 4096 = unat (0x8000000 :: u64) + 2 ^ 31 \<and>
      n_pages t \<le> PMM_MAX_PAGES"
    by (rule pmm_init_correct)
      (simp_all add: demo_boot_def PKE_MAX_ALLOWABLE_RAM_def PGSIZE_def KERN_BASE_def)
  then show ?thesis unfolding r by auto
qed

text \<open>
  Locking discipline: entered with the lock free, every operation of the allocator gives the
  lock back before it returns, none of them waits for the lock it holds itself, and only
  \<^verbatim>\<open>free_page\<close> can stop, by a panic.
\<close>

theorem pmm_lock_released:
  fixes s :: "'z pmm_state_scheme"
  assumes "pmm_lock s = SPIN_LOCK_FREE"
  shows "kwp alloc_page (\<lambda>_ t. pmm_lock t = SPIN_LOCK_FREE) (\<lambda>_ _. False) s \<and>
    kwp (free_page pa) (\<lambda>_ t. pmm_lock t = SPIN_LOCK_FREE) (\<lambda>e _. \<exists>m. e = Panic m) s \<and>
    kwp (inc_page_ref pa) (\<lambda>_ t. pmm_lock t = SPIN_LOCK_FREE) (\<lambda>_ _. False) s \<and>
    kwp (get_page_ref pa) (\<lambda>_ t. pmm_lock t = SPIN_LOCK_FREE) (\<lambda>_ _. False) s"
  using assms
  by (auto simp: alloc_page_def free_page_def inc_page_ref_def get_page_ref_def pmm_op_defs
      kwp_simps Let_def)

theorem pmm_lock_released_witness:
  "kwp alloc_page (\<lambda>_ t. pmm_lock t = SPIN_LOCK_FREE) (\<lambda>_ _. False) demo_pmm"
  using pmm_lock_released [of demo_pmm] by (simp add: demo_pmm_def SPIN_LOCK_FREE_def)

text \<open>
  A double release is not detected: freeing the page at the head of the free list once more is
  accepted, makes the list point to itself, and from then on every allocation returns that page.
\<close>

theorem double_free_hands_page_out_twice:
  fixes s :: "'z pmm_state_scheme"
  assumes "pmm_inv s (x # xs)"
  shows "\<exists>t u. free_page x s = (Inr (), t) \<and> pmem t x 0 = x \<and>
    kcollect n alloc_page t = (Inr (replicate n x), u)"
proof -
  let ?P = "\<lambda>v :: 'z pmm_state_scheme. pmm_lock v = SPIN_LOCK_FREE \<and> g_free_mem_list v = x \<and>
    pmem v x 0 = x \<and> x \<noteq> 0 \<and> PAGE_INDEX v x < MAX_PAGE_NUM v"
  have loop: "\<exists>u. kcollect n alloc_page v = (Inr (replicate n x), u)" if "?P v" for v n
    using that
  proof (induction n arbitrary: v)
    case 0
    then show ?case by (simp add: kreturn_def)
  next
    case (Suc n)
    then have "?P (alloc_state x v)" by (simp add: alloc_state_def)
    from Suc.IH [OF this] alloc_page_head [of v x] Suc.prems show ?case
      by (auto simp: kbind_def kreturn_def)
  qed
  have "managed s x" "ref_of s x = 0" "x \<noteq> 0" "pmm_lock s = SPIN_LOCK_FREE" "g_free_mem_list s = x"
    using assms pmm_invD [OF assms] by (auto simp: pmm_inv_def)
  moreover from this have "free_page x s = (Inr (), push_state x s)"
    by (intro free_page_eq_last) auto
  moreover have "MAX_PAGE_NUM (push_state x s) = MAX_PAGE_NUM s" by (simp add: MAX_PAGE_NUM_def)
  ultimately show ?thesis using loop [of "push_state x s" n] by (auto simp: managed_def)
qed

theorem double_free_hands_page_out_twice_witness:
  "\<exists>t u. free_page 0x80002000 demo_pmm = (Inr (), t) \<and>
     kcollect 2 alloc_page t = (Inr [0x80002000, 0x80002000], u)"
  using double_free_hands_page_out_twice [OF demo_pmm_inv, of 2] by (auto simp: numeral_2_eq_2)

end
