(* ===== verification/Vmm.thy ===== *)
theory Vmm
  imports Pmm
begin

text \<open>
  Virtual memory, \<^verbatim>\<open>kernel/vmm.c\<close>, over the Sv39 macros of \<^verbatim>\<open>kernel/riscv.h\<close>.

  A page table is a page of physical memory, named by its base address; a \<^verbatim>\<open>pte_t *\<close> is a table
  and an index into it (\<open>None\<close> is the null pointer).  The operations are those of the source, with
  every call of \<^verbatim>\<open>kill_current_process\<close> as the stop \<open>Kill\<close>.  \<open>table_at\<close> and \<open>pt_entry\<close> read a page
  table tree as a map from virtual pages to entries; \<open>vm_inv\<close> says that the tables of all address
  spaces form disjoint trees that own their pages, and the lemmas below it show that walking,
  mapping and unmapping act on that map as intended and leave every other address space alone.
\<close>

section \<open>Sv39 macros\<close>

definition PTE_V :: u64 where
  "PTE_V = 1"

definition PTE_R :: u64 where
  "PTE_R = 2"

definition PTE_W :: u64 where
  "PTE_W = 4"

definition PTE_X :: u64 where
  "PTE_X = 8"

definition PTE_U :: u64 where
  "PTE_U = 16"

definition PTE_A :: u64 where
  "PTE_A = 64"

definition PTE_D :: u64 where
  "PTE_D = 128"

definition PTE_COW :: u64 where
  "PTE_COW = 256"

lemmas pte_flag_defs = PTE_V_def PTE_R_def PTE_W_def PTE_X_def PTE_U_def PTE_A_def PTE_D_def
  PTE_COW_def

definition MAXVA :: u64 where
  "MAXVA = push_bit (9 + 9 + 9 + 12 - 1) 1"

definition PA2PTE :: "u64 \<Rightarrow> u64" where
  "PA2PTE pa = push_bit 10 (drop_bit 12 pa)"

definition PTE2PA :: "u64 \<Rightarrow> u64" where
  "PTE2PA pte = push_bit 12 (drop_bit 10 pte)"

definition PTE_FLAGS :: "u64 \<Rightarrow> u64" where
  "PTE_FLAGS pte = pte AND 0x3FF"

definition PXSHIFT :: "nat \<Rightarrow> nat" where
  "PXSHIFT level = 12 + 9 * level"

definition PX :: "nat \<Rightarrow> u64 \<Rightarrow> 9 word" where
  "PX level va = ucast (drop_bit (PXSHIFT level) va AND 0x1FF)"

definition PROT_READ :: i32 where
  "PROT_READ = 1"

definition PROT_WRITE :: i32 where
  "PROT_WRITE = 2"

definition PROT_EXEC :: i32 where
  "PROT_EXEC = 4"

section \<open>Operations\<close>

type_synonym pte_ptr = "u64 \<times> 9 word"

definition prot_to_type :: "i32 \<Rightarrow> bool \<Rightarrow> u64" where
  "prot_to_type prot user =
     (let perm = 0;
          perm = (if prot AND PROT_READ \<noteq> 0 then perm OR (PTE_R OR PTE_A) else perm);
          perm = (if prot AND PROT_WRITE \<noteq> 0 then perm OR (PTE_W OR PTE_D) else perm);
          perm = (if prot AND PROT_EXEC \<noteq> 0 then perm OR (PTE_X OR PTE_A) else perm);
          perm = (if perm = 0 then PTE_R else perm)
      in if user then perm OR PTE_U else perm)"

text \<open>One iteration of the loop of \<^verbatim>\<open>page_walk\<close>: the table of the next level, or null.\<close>

definition page_walk_step ::
  "u64 \<Rightarrow> nat \<Rightarrow> u64 \<Rightarrow> bool \<Rightarrow> ('z pmm_state_scheme, u64 option) km" where
  "page_walk_step pt level va alloc =
     kbind (kget (\<lambda>s. pmem s pt (PX level va))) (\<lambda>pte.
       if pte AND PTE_V \<noteq> 0 then kreturn (Some (PTE2PA pte))
       else if alloc then kbind alloc_page (\<lambda>new.
         if new \<noteq> 0
         then kthen (kput (set_page new (\<lambda>_. 0)))
           (kthen (kput (set_dword pt (PX level va) (PA2PTE new OR PTE_V)))
             (kreturn (Some new)))
         else kreturn None)
       else kreturn None)"

primrec page_walk_down ::
  "nat \<Rightarrow> u64 \<Rightarrow> u64 \<Rightarrow> bool \<Rightarrow> ('z pmm_state_scheme, u64 option) km" where
  "page_walk_down 0 pt va alloc = kreturn (Some pt)"
| "page_walk_down (Suc l) pt va alloc =
     kbind (page_walk_step pt (Suc l) va alloc) (\<lambda>next.
       case next of None \<Rightarrow> kreturn None | Some pt' \<Rightarrow> page_walk_down l pt' va alloc)"

definition page_walk :: "u64 \<Rightarrow> u64 \<Rightarrow> bool \<Rightarrow> ('z pmm_state_scheme, pte_ptr option) km" where
  "page_walk page_dir va alloc =
     (if MAXVA \<le> va then kraise (Kill ''page_walk'' (-1))
      else kbind (page_walk_down 2 page_dir va alloc) (\<lambda>pt.
        kreturn (map_option (\<lambda>pt. (pt, PX 0 va)) pt)))"

definition get_pte :: "pte_ptr \<Rightarrow> ('z pmm_state_scheme, u64) km" where
  "get_pte p = kget (\<lambda>s. pmem s (fst p) (snd p))"

definition set_pte :: "pte_ptr \<Rightarrow> u64 \<Rightarrow> ('z pmm_state_scheme, unit) km" where
  "set_pte p v = kput (set_dword (fst p) (snd p) v)"

text \<open>
  The loop of \<^verbatim>\<open>map_pages\<close>: loop state \<open>(first, pa, ret)\<close>, where \<open>ret\<close> is the value of an early
  return.  \<^verbatim>\<open>perm\<close> is a C \<^verbatim>\<open>int\<close> and is sign-extended by the bitwise or.
\<close>

definition map_pages ::
  "u64 \<Rightarrow> u64 \<Rightarrow> u64 \<Rightarrow> u64 \<Rightarrow> i32 \<Rightarrow> ('z pmm_state_scheme, int) km" where
  "map_pages page_dir va sz pa perm =
     (let last = ROUNDDOWN (va + sz - 1) PGSIZE in
      kbind (kwhile page_loop_bound
          (\<lambda>(first, pa, ret). ret = None \<and> first \<le> last)
          (\<lambda>(first, pa, ret).
             kbind (page_walk page_dir first True) (\<lambda>pte.
               case pte of
                 None \<Rightarrow> kreturn (first, pa, Some (-1))
               | Some p \<Rightarrow> kbind (get_pte p) (\<lambda>v.
                   if v AND PTE_V \<noteq> 0
                   then kraise (Kill ''map_pages fails on mapping va to pa'' (-1))
                   else kthen (set_pte p (PA2PTE pa OR scast perm OR PTE_V))
                     (kreturn (first + PGSIZE, pa + PGSIZE, None)))))
          (ROUNDDOWN va PGSIZE, pa, None))
        (\<lambda>(first, pa, ret). kreturn (case ret of None \<Rightarrow> 0 | Some r \<Rightarrow> r)))"

definition lookup_pa :: "u64 \<Rightarrow> u64 \<Rightarrow> ('z pmm_state_scheme, u64) km" where
  "lookup_pa pagetable va =
     (if MAXVA \<le> va then kreturn 0
      else kbind (page_walk pagetable va False) (\<lambda>pte.
        case pte of
          None \<Rightarrow> kreturn 0
        | Some p \<Rightarrow> kbind (get_pte p) (\<lambda>v.
            if v AND PTE_V = 0 \<or> (v AND PTE_R = 0 \<and> v AND PTE_W = 0) then kreturn 0
            else kreturn (PTE2PA v))))"

definition user_va_to_pa :: "u64 \<Rightarrow> u64 \<Rightarrow> ('z pmm_state_scheme, u64) km" where
  "user_va_to_pa page_dir va =
     kbind (page_walk page_dir va False) (\<lambda>pte.
       case pte of
         None \<Rightarrow> kreturn 0
       | Some p \<Rightarrow> kbind (get_pte p) (\<lambda>v.
           if v AND PTE_V = 0 then kreturn 0
           else kreturn (push_bit 12 (drop_bit 10 v AND 0x3FFFFFFFFFFF)
                         + (va AND (push_bit 12 1 - 1)))))"

definition user_vm_map ::
  "u64 \<Rightarrow> u64 \<Rightarrow> u64 \<Rightarrow> u64 \<Rightarrow> i32 \<Rightarrow> ('z pmm_state_scheme, unit) km" where
  "user_vm_map page_dir va sz pa perm =
     kbind (map_pages page_dir va sz pa perm) (\<lambda>r.
       if r \<noteq> 0 then kraise (Kill ''fail to user_vm_map .'' (-1)) else kreturn ())"

definition user_vm_unmap ::
  "u64 \<Rightarrow> u64 \<Rightarrow> u64 \<Rightarrow> bool \<Rightarrow> ('z pmm_state_scheme, unit) km" where
  "user_vm_unmap page_dir va sz free =
     (if va mod PGSIZE \<noteq> 0 then kraise (Kill ''not aligned'' (-1))
      else kbind (kwhile page_loop_bound (\<lambda>a. a < va + sz)
          (\<lambda>a. kbind (page_walk page_dir a False) (\<lambda>pte.
             case pte of
               None \<Rightarrow> kraise (Kill ''not find'' (-1))
             | Some p \<Rightarrow> kbind (get_pte p) (\<lambda>v.
                 if v AND PTE_V = 0 then kraise (Kill ''not mapped'' (-1))
                 else if PTE_FLAGS v = PTE_V then kraise (Kill ''not leaf'' (-1))
                 else kthen (kwhen free (free_page (PTE2PA v)))
                   (kthen (set_pte p 0) (kreturn (a + PGSIZE))))))
          va)
        (\<lambda>_. kreturn ()))"

definition user_vm_set_cow :: "u64 \<Rightarrow> u64 \<Rightarrow> ('z pmm_state_scheme, unit) km" where
  "user_vm_set_cow page_dir va =
     kbind (page_walk page_dir va False) (\<lambda>pte.
       case pte of
         None \<Rightarrow> kreturn ()
       | Some p \<Rightarrow> kbind (get_pte p) (\<lambda>v.
           if v AND PTE_V = 0 then kreturn ()
           else set_pte p ((v AND NOT PTE_W) OR PTE_COW)))"

definition user_vm_get_pte :: "u64 \<Rightarrow> u64 \<Rightarrow> ('z pmm_state_scheme, pte_ptr option) km" where
  "user_vm_get_pte pagetable va = page_walk pagetable va False"

definition user_vm_map_cow ::
  "u64 \<Rightarrow> u64 \<Rightarrow> u64 \<Rightarrow> u64 \<Rightarrow> ('z pmm_state_scheme, unit) km" where
  "user_vm_map_cow page_dir va sz pa =
     (let perm = PTE_R OR PTE_A OR PTE_U OR PTE_COW OR PTE_V;
          last = ROUNDDOWN (va + sz - 1) PGSIZE in
      kbind (kwhile page_loop_bound
          (\<lambda>(first, pa, ret). \<not> ret \<and> first \<le> last)
          (\<lambda>(first, pa, ret).
             kbind (page_walk page_dir first True) (\<lambda>pte.
               case pte of
                 None \<Rightarrow> kreturn (first, pa, True)
               | Some p \<Rightarrow> kbind (get_pte p) (\<lambda>v.
                   if v AND PTE_V \<noteq> 0
                   then kraise (Kill ''user_vm_map_cow: va already mapped'' (sint (ucast first :: i32)))
                   else kthen (set_pte p (PA2PTE pa OR perm))
                     (kreturn (first + PGSIZE, pa + PGSIZE, False)))))
          (ROUNDDOWN va PGSIZE, pa, False))
        (\<lambda>_. kreturn ()))"

section \<open>The kernel's own page table\<close>

record vm_state = pmm_state +
  g_kernel_pagetable :: u64

definition kern_vm_map ::
  "u64 \<Rightarrow> u64 \<Rightarrow> u64 \<Rightarrow> u64 \<Rightarrow> i32 \<Rightarrow> ('z pmm_state_scheme, unit) km" where
  "kern_vm_map page_dir va pa sz perm =
     kbind (map_pages page_dir va sz pa perm) (\<lambda>r.
       if r \<noteq> 0 then kraise (Kill ''kern_vm_map'' (-1)) else kreturn ())"

definition PHYS_TOP :: u64 where
  "PHYS_TOP = DRAM_BASE + PKE_MAX_ALLOWABLE_RAM"

text \<open>\<open>etext\<close> is the address of the linker symbol \<^verbatim>\<open>_etext\<close>.\<close>

definition kern_vm_init :: "u64 \<Rightarrow> ('z vm_state_scheme, unit) km" where
  "kern_vm_init etext =
     kbind alloc_page (\<lambda>t_page_dir.
       if t_page_dir = 0 then kraise (Fault ''kern_vm_init: memset on a null page'')
       else kthen (kput (set_page t_page_dir (\<lambda>_. 0)))
         (kthen (kern_vm_map t_page_dir KERN_BASE DRAM_BASE (etext - KERN_BASE)
                  (ucast (prot_to_type (PROT_READ OR PROT_EXEC) False)))
           (kthen (kern_vm_map t_page_dir etext etext (PHYS_TOP - etext)
                    (ucast (prot_to_type (PROT_READ OR PROT_WRITE) False)))
             (kput (\<lambda>s. s\<lparr>g_kernel_pagetable := t_page_dir\<rparr>)))))"

section \<open>Bits of addresses and entries\<close>

lemma page_aligned_bits: "page_aligned a \<longleftrightarrow> (\<forall>n<12. \<not> bit a n)"
proof -
  have "PGSIZE = 2 ^ 12" by (simp add: PGSIZE_def)
  then have "page_aligned a \<longleftrightarrow> take_bit 12 a = 0" by (simp add: take_bit_eq_mod)
  also have "\<dots> \<longleftrightarrow> (\<forall>n<12. \<not> bit a n)"
    by (auto simp: bit_eq_iff bit_take_bit_iff)
  finally show ?thesis .
qed

lemma flags_bits: "f AND NOT 0x3FF = (0 :: u64) \<Longrightarrow> 10 \<le> n \<Longrightarrow> \<not> bit f n"
proof -
  assume "f AND NOT 0x3FF = (0 :: u64)" and n: "10 \<le> n"
  moreover have "(0x3FF :: u64) = mask 10" by (simp add: mask_eq_exp_minus_1)
  ultimately have "bit (f AND NOT (mask 10 :: u64)) n = False" by simp
  with n show ?thesis by (auto simp: bit_simps dest: bit_imp_le_length)
qed

lemma PTE2PA_PA2PTE:
  assumes "page_aligned pa" and "f AND NOT 0x3FF = 0"
  shows "PTE2PA (PA2PTE pa OR f) = pa"
proof (rule bit_word_eqI)
  fix n assume "n < LENGTH(64)"
  then show "bit (PTE2PA (PA2PTE pa OR f)) n = bit pa n"
    using assms(1) flags_bits [OF assms(2), of "n - 2"]
    by (cases "n < 12") (auto simp: PTE2PA_def PA2PTE_def bit_simps page_aligned_bits)
qed

lemma PTE2PA_aligned [simp]: "page_aligned (PTE2PA e)"
  by (simp add: page_aligned_bits PTE2PA_def bit_simps)

lemma PTE_V_bit: "e AND PTE_V \<noteq> 0 \<longleftrightarrow> bit e 0"
  by (simp add: PTE_V_def and_one_eq odd_iff_mod_2_eq_one bit_0)

lemma bit_PX: "bit (PX l va) n \<longleftrightarrow> n < 9 \<and> bit va (12 + 9 * l + n)"
proof -
  have m: "(0x1FF :: u64) = mask 9" by (simp add: mask_eq_exp_minus_1)
  show ?thesis
    unfolding PX_def PXSHIFT_def m by (auto simp: bit_simps ac_simps dest: bit_imp_le_length)
qed

lemma below_MAXVA_bits: "va < MAXVA \<Longrightarrow> 38 \<le> n \<Longrightarrow> \<not> bit va n"
proof -
  assume "va < MAXVA" and n: "38 \<le> n"
  then have "uint va < 2 ^ 38" by (simp add: MAXVA_def word_less_def)
  then have "take_bit 38 (uint va) = uint va" by (simp add: take_bit_int_eq_self)
  then have "\<not> bit (uint va) n" using n by (metis bit_take_bit_iff not_less)
  then show ?thesis by (metis bit_uint_iff bit_imp_le_length not_less)
qed

text \<open>The three table indices of an address, top level first.\<close>

definition vpn :: "u64 \<Rightarrow> 9 word list" where
  "vpn va = [PX 2 va, PX 1 va, PX 0 va]"

lemma vpn_inj:
  assumes "a < MAXVA" "b < MAXVA"
  shows "vpn a = vpn b \<longleftrightarrow> ROUNDDOWN a PGSIZE = ROUNDDOWN b PGSIZE"
proof -
  have rd: "ROUNDDOWN x PGSIZE = push_bit 12 (drop_bit 12 x)" for x
    by (simp add: ROUNDDOWN_def PGSIZE_def push_bit_eq_mult drop_bit_eq_div)
  have "vpn a = vpn b \<longleftrightarrow> (\<forall>l<3. PX l a = PX l b)"
    by (auto simp: vpn_def numeral_3_eq_3 numeral_2_eq_2 less_Suc_eq)
  also have "\<dots> \<longleftrightarrow> (\<forall>n. 12 \<le> n \<longrightarrow> n < 39 \<longrightarrow> bit a n = bit b n)"
  proof
    assume eq: "\<forall>l<3. PX l a = PX l b"
    show "\<forall>n. 12 \<le> n \<longrightarrow> n < 39 \<longrightarrow> bit a n = bit b n"
    proof (intro allI impI)
      fix n :: nat assume n: "12 \<le> n" "n < 39"
      have "PX ((n - 12) div 9) a = PX ((n - 12) div 9) b" using eq n by simp
      then have "bit (PX ((n - 12) div 9) a) ((n - 12) mod 9) = bit (PX ((n - 12) div 9) b) ((n - 12) mod 9)"
        by simp
      then show "bit a n = bit b n" using n by (simp add: bit_PX)
    qed
  next
    assume eq: "\<forall>n. 12 \<le> n \<longrightarrow> n < 39 \<longrightarrow> bit a n = bit b n"
    show "\<forall>l<3. PX l a = PX l b"
    proof (intro allI impI bit_word_eqI)
      fix l n :: nat assume "l < 3" "n < LENGTH(9)"
      then show "bit (PX l a) n = bit (PX l b) n" using eq by (simp add: bit_PX)
    qed
  qed
  also have "\<dots> \<longleftrightarrow> ROUNDDOWN a PGSIZE = ROUNDDOWN b PGSIZE"
  proof
    assume eq: "\<forall>n. 12 \<le> n \<longrightarrow> n < 39 \<longrightarrow> bit a n = bit b n"
    have all: "bit a n = bit b n" if "12 \<le> n" for n
      using eq that below_MAXVA_bits [OF assms(1)] below_MAXVA_bits [OF assms(2)]
      by (cases "n < 39") auto
    show "ROUNDDOWN a PGSIZE = ROUNDDOWN b PGSIZE"
      unfolding rd by (rule bit_word_eqI) (auto simp: bit_simps all)
  next
    assume "ROUNDDOWN a PGSIZE = ROUNDDOWN b PGSIZE"
    then have "bit (push_bit 12 (drop_bit 12 a)) n = bit (push_bit 12 (drop_bit 12 b)) n" for n
      unfolding rd by simp
    then have "12 \<le> n \<longrightarrow> n < 64 \<longrightarrow> bit a n = bit b n" for n
      by (simp add: bit_simps) (metis le_add_diff_inverse)
    then show "\<forall>n. 12 \<le> n \<longrightarrow> n < 39 \<longrightarrow> bit a n = bit b n" by auto
  qed
  finally show ?thesis .
qed

section \<open>Page tables as trees\<close>

text \<open>
  \<open>table_at m t is\<close> is the table reached from table \<open>t\<close> through the indices \<open>is\<close>; a leaf table of
  an address space is reached by two indices.  \<open>pt_entry m pd va\<close> is the entry of \<open>va\<close> in the
  address space \<open>pd\<close>, 0 when a table on the way is missing.
\<close>

type_synonym memory = "u64 \<Rightarrow> 9 word \<Rightarrow> u64"

definition next_table :: "memory \<Rightarrow> u64 \<Rightarrow> 9 word \<Rightarrow> u64 option" where
  "next_table m t i = (if m t i AND PTE_V \<noteq> 0 then Some (PTE2PA (m t i)) else None)"

primrec table_at :: "memory \<Rightarrow> u64 \<Rightarrow> 9 word list \<Rightarrow> u64 option" where
  "table_at m t [] = Some t"
| "table_at m t (i # is) = (case next_table m t i of None \<Rightarrow> None | Some u \<Rightarrow> table_at m u is)"

definition leaf_table :: "memory \<Rightarrow> u64 \<Rightarrow> u64 \<Rightarrow> u64 option" where
  "leaf_table m pd va = table_at m pd [PX 2 va, PX 1 va]"

definition pt_entry :: "memory \<Rightarrow> u64 \<Rightarrow> u64 \<Rightarrow> u64" where
  "pt_entry m pd va = (case leaf_table m pd va of None \<Rightarrow> 0 | Some t \<Rightarrow> m t (PX 0 va))"

text \<open>
  \<open>pt_tree R m free\<close>: the tables of the address spaces rooted in \<open>R\<close> are page-aligned, none is a
  free page, and no page serves as a table at two places.
\<close>

definition is_table :: "u64 set \<Rightarrow> memory \<Rightarrow> u64 \<Rightarrow> 9 word list \<Rightarrow> u64 \<Rightarrow> bool" where
  "is_table R m pd is t \<longleftrightarrow> pd \<in> R \<and> length is \<le> 2 \<and> table_at m pd is = Some t"

definition pt_tree :: "u64 set \<Rightarrow> memory \<Rightarrow> u64 set \<Rightarrow> bool" where
  "pt_tree R m free \<longleftrightarrow>
     (\<forall>pd is t. is_table R m pd is t \<longrightarrow> page_aligned t \<and> t \<notin> free) \<and>
     (\<forall>pd is pd' is' t. is_table R m pd is t \<longrightarrow> is_table R m pd' is' t \<longrightarrow> pd = pd' \<and> is = is')"

definition vm_inv :: "u64 set \<Rightarrow> 'z pmm_state_scheme \<Rightarrow> u64 list \<Rightarrow> bool" where
  "vm_inv R s xs \<longleftrightarrow> pmm_inv s xs \<and> pt_tree R (pmem s) (set xs)"

lemma table_at_append:
  "table_at m t (is @ js) = (case table_at m t is of None \<Rightarrow> None | Some u \<Rightarrow> table_at m u js)"
  by (induction "is" arbitrary: t) (auto split: option.splits)

lemma table_at_cong:
  assumes "\<And>ks k rest u. is = ks @ k # rest \<Longrightarrow> table_at m t ks = Some u \<Longrightarrow> m' u k = m u k"
  shows "table_at m' t is = table_at m t is"
  using assms
proof (induction "is" arbitrary: t)
  case Nil
  then show ?case by simp
next
  case (Cons i "is")
  have "m' t i = m t i" using Cons.prems [of "[]" i "is" t] by simp
  then have nt: "next_table m' t i = next_table m t i" by (simp add: next_table_def)
  show ?case
  proof (cases "next_table m t i")
    case (Some u)
    have "table_at m' u is = table_at m u is"
      by (rule Cons.IH) (use Cons.prems [of "i # _"] Some in auto)
    then show ?thesis using nt Some by simp
  qed (use nt in simp)
qed

lemma pt_treeD:
  assumes "pt_tree R m free"
  shows "is_table R m pd is t \<Longrightarrow> page_aligned t" "is_table R m pd is t \<Longrightarrow> t \<notin> free"
    "is_table R m pd is t \<Longrightarrow> is_table R m pd' is' t \<Longrightarrow> pd = pd' \<and> is = is'"
  using assms unfolding pt_tree_def by blast+

lemma is_table_prefix:
  assumes "is_table R m pd (ks @ rest) t"
  shows "\<exists>u. is_table R m pd ks u"
  using assms by (auto simp: is_table_def table_at_append split: option.splits)

text \<open>Writing an entry of a leaf table moves no table and changes one entry only.\<close>

lemma leaf_write_tables:
  assumes tree: "pt_tree R m free" and leaf: "is_table R m pd [a, b] t"
    and len: "length js \<le> 2" and pd': "pd' \<in> R"
  shows "table_at (m(t := (m t)(k := v))) pd' js = table_at m pd' js"
proof (rule table_at_cong)
  fix ks i rest u
  assume js: "js = ks @ i # rest" and u: "table_at m pd' ks = Some u"
  then have "is_table R m pd' ks u" using len pd' by (simp add: is_table_def)
  moreover have "ks \<noteq> [a, b]" using js len by auto
  ultimately have "u \<noteq> t" using pt_treeD(3) [OF tree leaf] by blast
  then show "(m(t := (m t)(k := v))) u i = m u i" by simp
qed

lemma leaf_write_is_table:
  assumes "pt_tree R m free" "is_table R m pd [a, b] t"
  shows "is_table R (m(t := (m t)(k := v))) = is_table R m"
  using leaf_write_tables [OF assms] by (auto simp: is_table_def fun_eq_iff)

lemma leaf_write_tree:
  assumes "pt_tree R m free" "is_table R m pd [a, b] t"
  shows "pt_tree R (m(t := (m t)(k := v))) free"
  using assms(1) by (simp add: pt_tree_def leaf_write_is_table [OF assms])

lemma leaf_table_vpn: "vpn a = vpn b \<Longrightarrow> leaf_table m pd a = leaf_table m pd b"
  by (simp add: leaf_table_def vpn_def)

lemma leaf_write_entry:
  assumes tree: "pt_tree R m free" and pd: "pd \<in> R" "pd' \<in> R" and leaf: "leaf_table m pd va = Some t"
    and va: "va < MAXVA" "va' < MAXVA"
  shows "pt_entry (m(t := (m t)(PX 0 va := v))) pd' va' =
    (if pd' = pd \<and> ROUNDDOWN va' PGSIZE = ROUNDDOWN va PGSIZE then v else pt_entry m pd' va')"
proof -
  let ?m = "m(t := (m t)(PX 0 va := v))"
  have l: "is_table R m pd [PX 2 va, PX 1 va] t"
    using pd leaf by (simp add: is_table_def leaf_table_def)
  have lt: "leaf_table ?m pd' va' = leaf_table m pd' va'"
    unfolding leaf_table_def using pd by (intro leaf_write_tables [OF tree l]) auto
  show ?thesis
  proof (cases "leaf_table m pd' va'")
    case None
    then have "\<not> (pd' = pd \<and> vpn va' = vpn va)" using leaf leaf_table_vpn [of va' va m pd'] by auto
    then show ?thesis using None lt va by (auto simp: pt_entry_def vpn_inj)
  next
    case (Some u)
    then have u: "is_table R m pd' [PX 2 va', PX 1 va'] u"
      using pd by (simp add: is_table_def leaf_table_def)
    have "u = t \<and> PX 0 va' = PX 0 va \<longleftrightarrow> pd' = pd \<and> vpn va' = vpn va"
    proof
      assume "u = t \<and> PX 0 va' = PX 0 va"
      then show "pd' = pd \<and> vpn va' = vpn va" using pt_treeD(3) [OF tree u] l by (auto simp: vpn_def)
    next
      assume "pd' = pd \<and> vpn va' = vpn va"
      then show "u = t \<and> PX 0 va' = PX 0 va"
        using Some leaf leaf_table_vpn [of va' va m pd] by (simp add: vpn_def)
    qed
    then show ?thesis using Some lt va by (auto simp: pt_entry_def vpn_inj)
  qed
qed

text \<open>
  Hanging a fresh zeroed table \<open>x\<close> under an invalid entry of an upper table adds one table and
  changes no entry of any address space.
\<close>

definition add_table :: "memory \<Rightarrow> u64 \<Rightarrow> 9 word \<Rightarrow> u64 \<Rightarrow> memory" where
  "add_table m pt i x = (let m0 = m(x := (\<lambda>_. 0)) in m0(pt := (m0 pt)(i := PA2PTE x OR PTE_V)))"

lemma PTE2PA_new: "page_aligned x \<Longrightarrow> PTE2PA (PA2PTE x OR PTE_V) = x"
  by (rule PTE2PA_PA2PTE) (simp_all add: PTE_V_def)

lemma PTE_V_nonzero [simp]: "PTE_V \<noteq> 0"
  by (simp add: PTE_V_def)

lemma add_table_other: "q \<noteq> x \<Longrightarrow> q \<noteq> pt \<Longrightarrow> add_table m pt i x q = m q"
  by (simp add: add_table_def Let_def)

lemma add_table_at:
  assumes tree: "pt_tree R m free" and pt: "is_table R m pd ks pt" "length ks \<le> 1"
    and inv: "m pt i AND PTE_V = 0" and x: "x \<in> free" "page_aligned x"
    and js: "length js \<le> 2" "pd' \<in> R"
  shows "table_at (add_table m pt i x) pd' js =
    (if pd' = pd \<and> js = ks @ [i] then Some x else table_at m pd' js)"
proof -
  let ?m = "add_table m pt i x"
  have xpt: "x \<noteq> pt" using pt_treeD(2) [OF tree pt(1)] x by auto
  have same: "?m u k = m u k" if "is_table R m pd' ls u" "\<not> (pd' = pd \<and> ls = ks \<and> k = i)" for pd' ls u k
  proof -
    have "u \<noteq> x" using pt_treeD(2) [OF tree that(1)] x by auto
    moreover have "u = pt \<Longrightarrow> k \<noteq> i" using pt_treeD(3) [OF tree pt(1)] that by blast
    ultimately show ?thesis by (auto simp: add_table_def Let_def)
  qed
  have ks: "table_at ?m pd ks = Some pt"
  proof -
    have "table_at ?m pd ks = table_at m pd ks"
    proof (rule table_at_cong)
      fix ls k rest u assume l: "ks = ls @ k # rest" and u: "table_at m pd ls = Some u"
      then have "is_table R m pd ls u" using pt by (simp add: is_table_def)
      then show "?m u k = m u k" by (rule same) (use l in auto)
    qed
    then show ?thesis using pt(1) by (simp add: is_table_def)
  qed
  have nx: "next_table ?m pt i = Some x"
    using xpt x(2) by (simp add: next_table_def add_table_def Let_def PTE2PA_new)
  have nt: "next_table ?m x k = None" for k
    using xpt by (simp add: next_table_def add_table_def Let_def)
  consider (new) "pd' = pd" "js = ks @ [i]" | (below) r rest where "pd' = pd" "js = ks @ i # r # rest"
    | (other) "\<not> (pd' = pd \<and> (\<exists>rest. js = ks @ i # rest))"
    by (metis neq_Nil_conv)
  then show ?thesis
  proof cases
    case new
    then show ?thesis using ks nx by (simp add: table_at_append)
  next
    case below
    have "next_table m pt i = None" using inv by (simp add: next_table_def)
    then show ?thesis using below ks nx nt pt(1) by (auto simp: table_at_append is_table_def)
  next
    case other
    have "table_at ?m pd' js = table_at m pd' js"
    proof (rule table_at_cong)
      fix ls k rest u assume l: "js = ls @ k # rest" and u: "table_at m pd' ls = Some u"
      then have "is_table R m pd' ls u" using js by (simp add: is_table_def)
      then show "?m u k = m u k" by (rule same) (use other l in auto)
    qed
    then show ?thesis using other by auto
  qed
qed

lemma add_table_is_table:
  assumes "pt_tree R m free" "is_table R m pd ks pt" "length ks \<le> 1"
    and "m pt i AND PTE_V = 0" "x \<in> free" "page_aligned x"
  shows "is_table R (add_table m pt i x) pd' js u \<longleftrightarrow>
    (if pd' = pd \<and> js = ks @ [i] then u = x else is_table R m pd' js u)"
  using add_table_at [OF assms] assms(2,3) by (auto simp: is_table_def)

lemma add_table_tree:
  assumes a: "pt_tree R m free" "is_table R m pd ks pt" "length ks \<le> 1"
    and "m pt i AND PTE_V = 0" "x \<in> free" "page_aligned x"
  shows "pt_tree R (add_table m pt i x) (free - {x})"
proof -
  have "\<And>pd is. is_table R m pd is u \<Longrightarrow> u \<noteq> x" for u using pt_treeD(2) [OF a(1)] assms(5) by blast
  then show ?thesis
    using a(1) assms(6) unfolding pt_tree_def add_table_is_table [OF assms]
    by (auto split: if_splits)
qed

lemma add_table_entry:
  assumes a: "pt_tree R m free" "is_table R m pd ks pt" "length ks \<le> 1"
    and i: "m pt i AND PTE_V = 0" "x \<in> free" "page_aligned x" and pd': "pd' \<in> R"
  shows "pt_entry (add_table m pt i x) pd' va = pt_entry m pd' va"
proof -
  let ?js = "[PX 2 va, PX 1 va]"
  have at: "leaf_table (add_table m pt i x) pd' va =
      (if pd' = pd \<and> ?js = ks @ [i] then Some x else leaf_table m pd' va)"
    unfolding leaf_table_def using pd' by (intro add_table_at [OF a i]) auto
  have xpt: "x \<noteq> pt" using pt_treeD(2) [OF a(1,2)] i by auto
  show ?thesis
  proof (cases "pd' = pd \<and> ?js = ks @ [i]")
    case True
    then have "leaf_table m pd' va = table_at m pd (ks @ [i])" by (metis leaf_table_def)
    also have "\<dots> = None" using i(1) a(2) by (simp add: table_at_append is_table_def next_table_def)
    finally have "leaf_table m pd' va = None" .
    then show ?thesis using True at xpt by (simp add: pt_entry_def add_table_def Let_def)
  next
    case False
    show ?thesis
    proof (cases "leaf_table m pd' va")
      case (Some u)
      then have u: "is_table R m pd' ?js u" using pd' by (simp add: is_table_def leaf_table_def)
      then have "u \<noteq> x" using pt_treeD(2) [OF a(1)] i(2) by blast
      moreover have "u \<noteq> pt" using pt_treeD(3) [OF a(1,2), of pd' ?js] u a(3) by auto
      ultimately show ?thesis using False at Some by (auto simp: pt_entry_def add_table_other)
    qed (use False at in \<open>auto simp: pt_entry_def\<close>)
  qed
qed

section \<open>Growing the trees\<close>

text \<open>
  \<open>vm_frame R s xs t ys\<close>: from \<open>s\<close> with free pages \<open>xs\<close> the kernel got to \<open>t\<close> with free pages \<open>ys\<close>
  by taking pages from the front of the list and using them as tables, and by writing tables.  No
  page that was neither free nor a table changed its content or its reference count.  \<open>vm_grow\<close>
  adds that no entry of any address space changed.
\<close>

definition vm_frame ::
  "u64 set \<Rightarrow> 'z pmm_state_scheme \<Rightarrow> u64 list \<Rightarrow> 'z pmm_state_scheme \<Rightarrow> u64 list \<Rightarrow> bool" where
  "vm_frame R s xs t ys \<longleftrightarrow> vm_inv R t ys \<and> (\<exists>zs. xs = zs @ ys) \<and> managed t = managed s \<and>
     (\<forall>pd is q. is_table R (pmem s) pd is q \<longrightarrow> is_table R (pmem t) pd is q) \<and>
     (\<forall>pd is q. is_table R (pmem t) pd is q \<longrightarrow> is_table R (pmem s) pd is q \<or> q \<in> set xs) \<and>
     (\<forall>q. q \<notin> set xs \<longrightarrow> (\<forall>pd is. \<not> is_table R (pmem s) pd is q) \<longrightarrow> pmem t q = pmem s q) \<and>
     (\<forall>q. managed s q \<longrightarrow> q \<notin> set xs \<longrightarrow> ref_of t q = ref_of s q)"

definition vm_grow ::
  "u64 set \<Rightarrow> 'z pmm_state_scheme \<Rightarrow> u64 list \<Rightarrow> 'z pmm_state_scheme \<Rightarrow> u64 list \<Rightarrow> bool" where
  "vm_grow R s xs t ys \<longleftrightarrow> vm_frame R s xs t ys \<and> (\<forall>pd\<in>R. pt_entry (pmem t) pd = pt_entry (pmem s) pd)"

lemma vm_frame_refl: "vm_inv R s xs \<Longrightarrow> vm_frame R s xs s xs"
  by (simp add: vm_frame_def)

lemma vm_grow_refl: "vm_inv R s xs \<Longrightarrow> vm_grow R s xs s xs"
  by (simp add: vm_grow_def vm_frame_refl)

lemma vm_frameD:
  assumes "vm_frame R s xs t ys"
  shows "vm_inv R t ys" "\<exists>zs. xs = zs @ ys" "managed t = managed s"
    "is_table R (pmem s) pd is q \<Longrightarrow> is_table R (pmem t) pd is q"
    "is_table R (pmem t) pd is q \<Longrightarrow> is_table R (pmem s) pd is q \<or> q \<in> set xs"
    "q \<notin> set xs \<Longrightarrow> (\<And>pd is. \<not> is_table R (pmem s) pd is q) \<Longrightarrow> pmem t q = pmem s q"
    "managed s q \<Longrightarrow> q \<notin> set xs \<Longrightarrow> ref_of t q = ref_of s q"
  using assms unfolding vm_frame_def by blast+

lemma vm_frame_trans:
  assumes a: "vm_frame R s xs t ys" and b: "vm_frame R t ys u zs"
  shows "vm_frame R s xs u zs"
proof -
  have sub: "set ys \<subseteq> set xs" using vm_frameD(2) [OF a] by auto
  have "pmem u q = pmem s q"
    if q: "q \<notin> set xs" "\<forall>pd is. \<not> is_table R (pmem s) pd is q" for q
  proof -
    have "\<And>pd is. \<not> is_table R (pmem t) pd is q" using vm_frameD(5) [OF a] q by blast
    then have "pmem u q = pmem t q" using vm_frameD(6) [OF b, of q] q(1) sub by blast
    then show ?thesis using vm_frameD(6) [OF a, of q] q by simp
  qed
  moreover have "ref_of u q = ref_of s q" if "managed s q" "q \<notin> set xs" for q
    using vm_frameD(7) [OF a that] vm_frameD(7) [OF b, of q] vm_frameD(3) [OF a] that sub by auto
  moreover have "\<exists>ws. xs = ws @ zs" using vm_frameD(2) [OF a] vm_frameD(2) [OF b] by auto
  moreover have "is_table R (pmem u) pd is q \<Longrightarrow> is_table R (pmem s) pd is q \<or> q \<in> set xs" for pd "is" q
    using vm_frameD(5) [OF b, of pd "is" q] vm_frameD(5) [OF a, of pd "is" q] sub by blast
  moreover have "is_table R (pmem s) pd is q \<Longrightarrow> is_table R (pmem u) pd is q" for pd "is" q
    using vm_frameD(4) [OF a] vm_frameD(4) [OF b] by simp
  moreover have "vm_inv R u zs" "managed u = managed s"
    using vm_frameD(1,3) [OF b] vm_frameD(3) [OF a] by simp_all
  ultimately show ?thesis unfolding vm_frame_def by simp
qed

lemma vm_growD:
  assumes "vm_grow R s xs t ys"
  shows "vm_frame R s xs t ys" "pd \<in> R \<Longrightarrow> pt_entry (pmem t) pd = pt_entry (pmem s) pd"
  using assms by (auto simp: vm_grow_def)

lemma vm_grow_trans: "vm_grow R s xs t ys \<Longrightarrow> vm_grow R t ys u zs \<Longrightarrow> vm_grow R s xs u zs"
  unfolding vm_grow_def by (auto intro: vm_frame_trans)

text \<open>Installing the page just allocated as a table.\<close>

lemma alloc_table_grow:
  fixes s :: "'z pmm_state_scheme"
  assumes inv: "vm_inv R s (x # xs)" and pt: "is_table R (pmem s) pd ks pt" "length ks \<le> 1"
    and i: "pmem s pt i AND PTE_V = 0"
    and t: "t = set_dword pt i (PA2PTE x OR PTE_V) (set_page x (\<lambda>_. 0) (alloc_state x s))"
  shows "vm_grow R s (x # xs) t xs" "is_table R (pmem t) pd (ks @ [i]) x"
proof -
  have p: "pmm_inv s (x # xs)" and tree: "pt_tree R (pmem s) (set (x # xs))"
    using inv by (auto simp: vm_inv_def)
  have x: "page_aligned x" "managed s x" "x \<notin> set xs"
    using pmm_invD(3,5) [OF p] by (auto simp: managed_def)
  have m: "pmem t = add_table (pmem s) pt i x"
    by (simp add: t set_page_def add_table_def Let_def)
  note add = tree pt i list.set_intros(1) [of x xs] x(1)
  have ptx: "pt \<notin> set (x # xs)" using pt_treeD(2) [OF tree pt(1)] .
  have "pmm_inv t xs"
    using alloc_state_inv [OF p] ptx x(3) by (simp add: t pmm_inv_set_dword pmm_inv_set_page)
  moreover have "pt_tree R (pmem t) (set xs)"
    using add_table_tree [OF add] x(3) m by simp
  ultimately have "vm_inv R t xs" by (simp add: vm_inv_def)
  moreover have "managed t = managed s" by (rule managed_cong) (simp_all add: t set_page_def)
  moreover have "pmem t q = pmem s q"
    if "q \<notin> set (x # xs)" "\<forall>pd is. \<not> is_table R (pmem s) pd is q" for q
    using that pt(1) by (auto simp: m intro!: add_table_other)
  moreover have "ref_of t q = ref_of s q" if "managed s q" "q \<notin> set (x # xs)" for q
  proof -
    have "PAGE_INDEX s q \<noteq> PAGE_INDEX s x"
      using that x(2) PAGE_INDEX_inj [of s q x] p by (auto simp: pmm_inv_def pmm_bounds_def)
    moreover have "PAGE_INDEX t = PAGE_INDEX s" by (simp add: t set_page_def PAGE_INDEX_def fun_eq_iff)
    ultimately show ?thesis by (simp add: t set_page_def)
  qed
  moreover have "is_table R (pmem t) pd' is q" if q: "is_table R (pmem s) pd' is q" for pd' "is" q
  proof -
    have "table_at (pmem s) pd (ks @ [i]) = None"
      using pt(1) i by (simp add: is_table_def table_at_append next_table_def)
    then have "\<not> (pd' = pd \<and> is = ks @ [i])" using q by (auto simp: is_table_def)
    then show ?thesis using q unfolding m add_table_is_table [OF add] by auto
  qed
  moreover have "is_table R (pmem t) pd' is q \<Longrightarrow> is_table R (pmem s) pd' is q \<or> q \<in> set (x # xs)" for pd' "is" q
    unfolding m add_table_is_table [OF add] by (auto split: if_splits)
  moreover have "pt_entry (pmem t) pd' = pt_entry (pmem s) pd'" if "pd' \<in> R" for pd'
    unfolding m by (rule ext) (rule add_table_entry [OF add that])
  ultimately show "vm_grow R s (x # xs) t xs" unfolding vm_grow_def vm_frame_def by auto
  show "is_table R (pmem t) pd (ks @ [i]) x"
    using add_table_is_table [OF add] m by simp
qed

lemma page_walk_step_alloc:
  fixes s :: "'z pmm_state_scheme"
  assumes inv: "vm_inv R s xs" and pt: "is_table R (pmem s) pd ks pt" "length ks \<le> 1"
  shows "kwp (page_walk_step pt l va True)
    (\<lambda>r t. \<exists>ys. vm_grow R s xs t ys \<and>
       (case r of None \<Rightarrow> xs = [] | Some u \<Rightarrow> is_table R (pmem t) pd (ks @ [PX l va]) u) \<and>
       length xs \<le> length ys + 1)
    (\<lambda>_ _. False) s"
proof (cases "pmem s pt (PX l va) AND PTE_V = 0")
  case False
  then have "is_table R (pmem s) pd (ks @ [PX l va]) (PTE2PA (pmem s pt (PX l va)))"
    using pt by (simp add: is_table_def table_at_append next_table_def)
  then show ?thesis
    using False vm_grow_refl [OF inv] by (auto simp: page_walk_step_def kwp_simps)
next
  case True
  show ?thesis
  proof (cases xs)
    case Nil
    then have "alloc_page s = (Inr 0, s)" using inv pmm.alloc_none by (auto simp: vm_inv_def)
    then show ?thesis
      using True Nil vm_grow_refl [OF inv]
      by (auto simp: page_walk_step_def kwp_simps intro!: kwp_eqI)
  next
    case (Cons x ys)
    then have p: "pmm_inv s (x # ys)" using inv by (simp add: vm_inv_def)
    have "x \<noteq> 0" using pmm_invD(4) [OF p] by auto
    moreover have "PTE2PA (PA2PTE x OR PTE_V) = x"
      using pmm_invD(5) [OF p, of x] by (intro PTE2PA_new) (simp add: managed_def)
    moreover have "kwp alloc_page Q E s = Q x (alloc_state x s)" for Q E
      by (rule kwp_call) (rule alloc_page_eq [OF p])
    ultimately show ?thesis
      using alloc_table_grow [OF inv [unfolded Cons] pt True refl] Cons True
      by (simp add: page_walk_step_def kwp_simps) blast
  qed
qed

text \<open>What \<^verbatim>\<open>page_walk\<close> returns: the cell of the entry.\<close>

definition pte_cell :: "memory \<Rightarrow> u64 \<Rightarrow> u64 \<Rightarrow> pte_ptr option" where
  "pte_cell m pd va = map_option (\<lambda>t. (t, PX 0 va)) (leaf_table m pd va)"

lemma page_walk_down_alloc:
  fixes s :: "'z pmm_state_scheme"
  assumes "vm_inv R s xs" "is_table R (pmem s) pd ks pt" "length ks + l \<le> 2"
  shows "kwp (page_walk_down l pt va True)
    (\<lambda>r t. \<exists>ys. vm_grow R s xs t ys \<and> length xs \<le> length ys + l \<and>
       (case r of None \<Rightarrow> length xs < l
        | Some u \<Rightarrow> is_table R (pmem t) pd (ks @ map (\<lambda>l. PX l va) (rev [1..<Suc l])) u))
    (\<lambda>_ _. False) s"
  using assms
proof (induction l arbitrary: ks pt s xs)
  case 0
  then show ?case using vm_grow_refl [OF 0(1)] by (auto simp: kwp_simps)
next
  case (Suc l)
  have "length ks \<le> 1" using Suc.prems(3) by simp
  note step = page_walk_step_alloc [OF Suc.prems(1,2) this, of "Suc l" va]
  show ?case unfolding page_walk_down.simps
  proof (rule kwp_seq [OF step])
    fix r t
    assume "\<exists>ys. vm_grow R s xs t ys \<and>
       (case r of None \<Rightarrow> xs = [] | Some u \<Rightarrow> is_table R (pmem t) pd (ks @ [PX (Suc l) va]) u) \<and>
       length xs \<le> length ys + 1"
    then obtain ys where g: "vm_grow R s xs t ys" "length xs \<le> length ys + 1"
      and r: "case r of None \<Rightarrow> xs = [] | Some u \<Rightarrow> is_table R (pmem t) pd (ks @ [PX (Suc l) va]) u"
      by blast
    show "kwp (case r of None \<Rightarrow> kreturn None | Some pt' \<Rightarrow> page_walk_down l pt' va True)
       (\<lambda>r t. \<exists>ys. vm_grow R s xs t ys \<and> length xs \<le> length ys + Suc l \<and>
         (case r of None \<Rightarrow> length xs < Suc l
          | Some u \<Rightarrow> is_table R (pmem t) pd (ks @ map (\<lambda>l. PX l va) (rev [1..<Suc (Suc l)])) u))
       (\<lambda>_ _. False) t"
    proof (cases r)
      case None
      then show ?thesis using g r by (auto simp: kwp_simps)
    next
      case (Some u)
      have "vm_inv R t ys" using vm_frameD(1) [OF vm_growD(1) [OF g(1)]] .
      moreover have "is_table R (pmem t) pd (ks @ [PX (Suc l) va]) u" using r Some by simp
      moreover have "length (ks @ [PX (Suc l) va]) + l \<le> 2" using Suc.prems(3) by simp
      ultimately have ih: "kwp (page_walk_down l u va True) (\<lambda>r t'. \<exists>zs. vm_grow R t ys t' zs \<and>
          length ys \<le> length zs + l \<and> (case r of None \<Rightarrow> length ys < l
          | Some v \<Rightarrow> is_table R (pmem t') pd ((ks @ [PX (Suc l) va]) @ map (\<lambda>l. PX l va) (rev [1..<Suc l])) v))
          (\<lambda>_ _. False) t" by (rule Suc.IH)
      have up: "[1..<Suc (Suc l)] = [1..<Suc l] @ [Suc l]" by simp
      show ?thesis unfolding Some option.case up
      proof (rule kwp_mono [OF ih], elim exE conjE)
        fix r' t' zs
        assume z: "vm_grow R t ys t' zs" "length ys \<le> length zs + l"
          and r': "case r' of None \<Rightarrow> length ys < l | Some v \<Rightarrow> is_table R (pmem t') pd
            ((ks @ [PX (Suc l) va]) @ map (\<lambda>l. PX l va) (rev [1..<Suc l])) v"
        show "\<exists>zs. vm_grow R s xs t' zs \<and> length xs \<le> length zs + Suc l \<and>
          (case r' of None \<Rightarrow> length xs < Suc l | Some v \<Rightarrow> is_table R (pmem t') pd
            (ks @ map (\<lambda>l. PX l va) (rev ([1..<Suc l] @ [Suc l]))) v)"
          using vm_grow_trans [OF g(1) z(1)] g(2) z(2) r'
          by (intro exI [of _ zs]) (simp del: upt_Suc split: option.splits)
      qed simp
    qed
  qed
qed

lemma page_walk_alloc:
  fixes s :: "'z pmm_state_scheme"
  assumes inv: "vm_inv R s xs" and pd: "pd \<in> R" and va: "va < MAXVA"
  shows "kwp (page_walk pd va True)
    (\<lambda>r t. \<exists>ys. vm_grow R s xs t ys \<and> length xs \<le> length ys + 2 \<and>
       (case r of None \<Rightarrow> length xs < 2 | Some p \<Rightarrow> pte_cell (pmem t) pd va = Some p))
    (\<lambda>_ _. False) s"
proof -
  have root: "is_table R (pmem s) pd [] pd" using pd by (simp add: is_table_def)
  have down: "rev [1..<Suc 2] = [2, 1]" by (simp add: numeral_2_eq_2)
  note walk = page_walk_down_alloc [OF inv root, of 2 va, unfolded down]
  show ?thesis
    unfolding page_walk_def if_not_P [OF va [folded not_le]]
    by (rule kwp_seq [OF walk])
      (auto simp: kwp_simps pte_cell_def leaf_table_def is_table_def split: option.splits)
qed

lemma page_walk_down_ro:
  "page_walk_down l pt va False s =
     (Inr (table_at (pmem s) pt (map (\<lambda>l. PX l va) (rev [1..<Suc l]))), s)"
  by (induction l arbitrary: pt)
    (auto simp: kreturn_def kbind_def kget_def page_walk_step_def next_table_def)

lemma page_walk_ro:
  assumes "va < MAXVA"
  shows "page_walk pd va False s = (Inr (pte_cell (pmem s) pd va), s)"
proof -
  have down: "rev [1..<Suc 2] = [2, 1]" by (simp add: numeral_2_eq_2)
  show ?thesis
    unfolding page_walk_def kbind_def page_walk_down_ro down
    using assms by (simp add: kreturn_def pte_cell_def leaf_table_def not_le [symmetric])
qed

lemma page_walk_down_found:
  "table_at (pmem s) pt (map (\<lambda>l. PX l va) (rev [1..<Suc l])) = Some t \<Longrightarrow>
     page_walk_down l pt va alloc s = (Inr (Some t), s)"
  by (induction l arbitrary: pt)
    (auto simp: kreturn_def kbind_def kget_def page_walk_step_def next_table_def split: if_splits)

lemma page_walk_found:
  assumes "va < MAXVA" and "pte_cell (pmem s) pd va = Some p"
  shows "page_walk pd va alloc s = (Inr (Some p), s)"
proof -
  have down: "rev [1..<Suc 2] = [2, 1]" by (simp add: numeral_2_eq_2)
  obtain t where t: "table_at (pmem s) pd (map (\<lambda>l. PX l va) [2, 1]) = Some t" "p = (t, PX 0 va)"
    using assms(2) by (auto simp: pte_cell_def leaf_table_def)
  show ?thesis
    using assms(1) t page_walk_down_found [of s pd va 2 t alloc, unfolded down]
    by (simp add: page_walk_def kbind_def kreturn_def not_le [symmetric])
qed

lemma page_walk_need:
  fixes s :: "'z pmm_state_scheme"
  assumes inv: "vm_inv R s xs" and pd: "pd \<in> R" and va: "va < MAXVA"
  defines "need \<equiv> (if pte_cell (pmem s) pd va = None then 2 else 0)"
  shows "kwp (page_walk pd va True)
    (\<lambda>r t. \<exists>ys. vm_grow R s xs t ys \<and> length xs \<le> length ys + need \<and>
       (case r of None \<Rightarrow> length xs < need | Some p \<Rightarrow> pte_cell (pmem t) pd va = Some p))
    (\<lambda>_ _. False) s"
proof (cases "pte_cell (pmem s) pd va")
  case None
  then have "need = 2" by (simp add: need_def)
  show ?thesis unfolding \<open>need = 2\<close> by (rule page_walk_alloc [OF inv pd va])
next
  case (Some p)
  then show ?thesis
    using page_walk_found [OF va Some] vm_grow_refl [OF inv] by (auto simp: kwp_def need_def)
qed

lemma pte_cell_frame:
  assumes "vm_frame R s xs t ys" "pd \<in> R" "pte_cell (pmem s) pd va = Some p"
  shows "pte_cell (pmem t) pd va = Some p"
proof -
  obtain q where q: "leaf_table (pmem s) pd va = Some q" "p = (q, PX 0 va)"
    using assms(3) by (auto simp: pte_cell_def)
  then have "is_table R (pmem s) pd [PX 2 va, PX 1 va] q"
    using assms(2) by (simp add: is_table_def leaf_table_def)
  from vm_frameD(4) [OF assms(1) this] show ?thesis
    by (simp add: is_table_def pte_cell_def leaf_table_def q(2))
qed

text \<open>Addresses in the same two megabytes share their leaf table.\<close>

lemma PX_upper:
  assumes "unat a div 2097152 = unat b div 2097152" and l: "1 \<le> l"
  shows "PX l a = PX l b"
proof -
  have "unat (drop_bit 21 a) = unat (drop_bit 21 b)"
    using assms(1) by (simp add: drop_bit_eq_div unat_div_distrib)
  then have "drop_bit 21 a = drop_bit 21 b" by (simp only: word_unat_eq_iff)
  then have "bit (drop_bit 21 a) n = bit (drop_bit 21 b) n" for n by simp
  then have eq: "bit a (21 + n) = bit b (21 + n)" for n by (simp add: bit_simps add.commute)
  have "bit a (n + PXSHIFT l) = bit b (n + PXSHIFT l)" for n
    using eq [of "n + PXSHIFT l - 21"] l by (simp add: PXSHIFT_def add.left_commute)
  then show ?thesis unfolding PX_def by (intro bit_word_eqI) (simp add: bit_simps add.commute)
qed

lemma pte_cell_group:
  "unat a div 2097152 = unat b div 2097152 \<Longrightarrow> pte_cell m pd a = None \<longleftrightarrow> pte_cell m pd b = None"
  by (simp add: pte_cell_def leaf_table_def PX_upper [of a b])

text \<open>Writing the cell of an entry.\<close>

lemma pte_write_frame:
  fixes s :: "'z pmm_state_scheme"
  assumes inv: "vm_inv R s xs" and pd: "pd \<in> R" and cell: "pte_cell (pmem s) pd va = Some p"
    and va: "va < MAXVA"
  shows "vm_frame R s xs (set_dword (fst p) (snd p) v s) xs"
    and "pd' \<in> R \<Longrightarrow> va' < MAXVA \<Longrightarrow> pt_entry (pmem (set_dword (fst p) (snd p) v s)) pd' va' =
      (if pd' = pd \<and> ROUNDDOWN va' PGSIZE = ROUNDDOWN va PGSIZE then v else pt_entry (pmem s) pd' va')"
proof -
  obtain t where p: "p = (t, PX 0 va)" and leaf: "leaf_table (pmem s) pd va = Some t"
    using cell by (auto simp: pte_cell_def)
  have l: "is_table R (pmem s) pd [PX 2 va, PX 1 va] t"
    using pd leaf by (simp add: is_table_def leaf_table_def)
  have tree: "pt_tree R (pmem s) (set xs)" and pm: "pmm_inv s xs" using inv by (auto simp: vm_inv_def)
  let ?t = "set_dword (fst p) (snd p) v s"
  have m: "pmem ?t = (pmem s)(t := (pmem s t)(PX 0 va := v))" by (simp add: p)
  have "pmm_inv ?t xs" using pm pt_treeD(2) [OF tree l] by (simp add: p pmm_inv_set_dword)
  moreover have it: "is_table R (pmem ?t) = is_table R (pmem s)"
    unfolding m by (rule leaf_write_is_table [OF tree l])
  moreover have "pt_tree R (pmem ?t) (set xs)" unfolding m by (rule leaf_write_tree [OF tree l])
  moreover have "pmem ?t q = pmem s q" if "\<forall>pd is. \<not> is_table R (pmem s) pd is q" for q
    using that l unfolding m by auto
  moreover have "managed ?t = managed s" by (rule managed_cong) (simp_all add: p)
  ultimately show "vm_frame R s xs ?t xs" by (simp add: vm_frame_def vm_inv_def p)
  show "pt_entry (pmem ?t) pd' va' =
      (if pd' = pd \<and> ROUNDDOWN va' PGSIZE = ROUNDDOWN va PGSIZE then v else pt_entry (pmem s) pd' va')"
    if "pd' \<in> R" "va' < MAXVA"
    unfolding m by (rule leaf_write_entry [OF tree pd that(1) leaf va that(2)])
qed

lemma pte_cell_entry:
  "pte_cell m pd va = Some p \<Longrightarrow> m (fst p) (snd p) = pt_entry m pd va"
  "pte_cell m pd va = None \<Longrightarrow> pt_entry m pd va = 0"
  by (auto simp: pte_cell_def pt_entry_def)

section \<open>Mapping a range\<close>

text \<open>
  The address spaces after \<open>n\<close> pages from \<open>first\<close> have been mapped to the pages from \<open>pa\<close>, with
  flags \<open>fl\<close>: the specification of \<^verbatim>\<open>map_pages\<close> and \<^verbatim>\<open>user_vm_map_cow\<close>.
\<close>

definition map_entries ::
  "(u64 \<Rightarrow> u64 \<Rightarrow> u64) \<Rightarrow> u64 \<Rightarrow> u64 \<Rightarrow> nat \<Rightarrow> u64 \<Rightarrow> u64 \<Rightarrow> u64 \<Rightarrow> u64 \<Rightarrow> u64" where
  "map_entries E pd first n pa fl pd' va =
     (if pd' = pd \<and> unat first \<le> unat va \<and> unat va < unat first + n * 4096
      then PA2PTE (page_at pa ((unat va - unat first) div 4096)) OR fl
      else E pd' va)"

lemma map_entries_0 [simp]: "map_entries E pd first 0 pa fl = E"
  by (auto simp: map_entries_def fun_eq_iff)

lemma ROUNDDOWN_page_at:
  assumes "page_aligned first" "unat first + k * 4096 < 2 ^ 64"
  shows "ROUNDDOWN va PGSIZE = page_at first k \<longleftrightarrow>
    unat first + k * 4096 \<le> unat va \<and> unat va < unat first + Suc k * 4096"
proof -
  have "unat first mod 4096 = 0" using assms(1) by (simp add: page_aligned_unat)
  then obtain c where c: "unat first = 4096 * c" by auto
  have "ROUNDDOWN va PGSIZE = page_at first k \<longleftrightarrow> unat va div 4096 * 4096 = unat first + k * 4096"
    using assms(2) by (simp add: word_unat_eq_iff unat_ROUNDDOWN unat_page_at)
  also have "\<dots> \<longleftrightarrow> unat va div 4096 = c + k" using c by auto
  also have "\<dots> \<longleftrightarrow> (c + k) * 4096 \<le> unat va \<and> unat va < Suc (c + k) * 4096"
    by (metis div_nat_eqI mult.commute div_mult_self_is_m dividend_less_times_div zero_less_numeral
        mult_Suc_right div_times_less_eq_dividend add.commute)
  finally show ?thesis using c by (simp add: algebra_simps)
qed

lemma map_entries_Suc:
  assumes "page_aligned first" "unat first + k * 4096 < 2 ^ 64"
  shows "map_entries E pd first (Suc k) pa fl pd' va =
    (if pd' = pd \<and> ROUNDDOWN va PGSIZE = page_at first k then PA2PTE (page_at pa k) OR fl
     else map_entries E pd first k pa fl pd' va)"
proof -
  have "(unat va - unat first) div 4096 = k"
    if "unat first + k * 4096 \<le> unat va" "unat va < unat first + Suc k * 4096"
    using that by (intro div_nat_eqI) auto
  then show ?thesis unfolding ROUNDDOWN_page_at [OF assms] by (auto simp: map_entries_def)
qed

definition map_prog where
  "map_prog R s xs pd first pa fl k t ys \<longleftrightarrow> vm_frame R s xs t ys \<and>
     (\<forall>pd'\<in>R. \<forall>va<MAXVA. pt_entry (pmem t) pd' va =
        map_entries (pt_entry (pmem s)) pd first k pa fl pd' va)"

lemma map_prog_step:
  fixes s t :: "'z pmm_state_scheme"
  assumes prog: "map_prog R s xs pd first pa fl k t ys" and pd: "pd \<in> R"
    and al: "page_aligned first" and bd: "unat first + Suc k * 4096 \<le> unat MAXVA"
    and free: "pt_entry (pmem s) pd (page_at first k) AND PTE_V = 0"
  defines "need \<equiv> (if pte_cell (pmem t) pd (page_at first k) = None then 2 else 0)"
  shows "kwp (page_walk pd (page_at first k) True)
    (\<lambda>r u. \<exists>zs. length ys \<le> length zs + need \<and>
       (case r of None \<Rightarrow> length ys < need \<and> map_prog R s xs pd first pa fl k u zs
        | Some p \<Rightarrow> pmem u (fst p) (snd p) AND PTE_V = 0 \<and>
            map_prog R s xs pd first pa fl (Suc k)
              (set_dword (fst p) (snd p) (PA2PTE (page_at pa k) OR fl) u) zs \<and>
            pte_cell (pmem (set_dword (fst p) (snd p) (PA2PTE (page_at pa k) OR fl) u)) pd (page_at first k) \<noteq> None))
    (\<lambda>_ _. False) t"
proof -
  let ?a = "page_at first k"
  have M: "unat MAXVA < 2 ^ 64" by (rule unat_bound64)
  have b64: "unat first + k * 4096 < 2 ^ 64" using bd M by simp
  have a: "?a < MAXVA" using bd by (simp add: word_less_nat_alt unat_page_at [OF b64])
  have ra: "ROUNDDOWN ?a PGSIZE = ?a" by (rule ROUNDDOWN_id) (rule page_at_aligned [OF al])
  have inv: "vm_inv R t ys" and fr: "vm_frame R s xs t ys"
    using prog vm_frameD(1) by (auto simp: map_prog_def)
  have "\<not> unat ?a < unat first + k * 4096" by (simp add: unat_page_at [OF b64])
  then have ent: "pt_entry (pmem t) pd ?a = pt_entry (pmem s) pd ?a"
    using prog pd a by (simp add: map_prog_def map_entries_def)
  show ?thesis
  proof (rule kwp_mono [OF page_walk_need [OF inv pd a, folded need_def]], elim exE conjE)
    fix r u zs
    assume g: "vm_grow R t ys u zs" and len: "length ys \<le> length zs + need"
      and r: "case r of None \<Rightarrow> length ys < need | Some p \<Rightarrow> pte_cell (pmem u) pd ?a = Some p"
    have fu: "vm_frame R s xs u zs" by (rule vm_frame_trans [OF fr vm_growD(1) [OF g]])
    have eu: "pt_entry (pmem u) pd' va = map_entries (pt_entry (pmem s)) pd first k pa fl pd' va"
      if "pd' \<in> R" "va < MAXVA" for pd' va
      using prog that vm_growD(2) [OF g that(1)] by (simp add: map_prog_def)
    have "case r of None \<Rightarrow> length ys < need \<and> map_prog R s xs pd first pa fl k u zs
        | Some p \<Rightarrow> pmem u (fst p) (snd p) AND PTE_V = 0 \<and>
            map_prog R s xs pd first pa fl (Suc k)
              (set_dword (fst p) (snd p) (PA2PTE (page_at pa k) OR fl) u) zs \<and>
            pte_cell (pmem (set_dword (fst p) (snd p) (PA2PTE (page_at pa k) OR fl) u)) pd ?a \<noteq> None"
    proof (cases r)
      case None
      then show ?thesis using r fu eu by (simp add: map_prog_def)
    next
      case (Some p)
      then have cell: "pte_cell (pmem u) pd ?a = Some p" using r by simp
      note w = pte_write_frame [OF vm_frameD(1) [OF fu] pd cell a]
      have "pmem u (fst p) (snd p) AND PTE_V = 0"
        using pte_cell_entry(1) [OF cell] vm_growD(2) [OF g pd] ent free by simp
      moreover have "pte_cell (pmem (set_dword (fst p) (snd p) v u)) pd ?a \<noteq> None" for v
        using pte_cell_frame [OF w(1) pd] cell by blast
      ultimately show ?thesis
        using Some vm_frame_trans [OF fu w(1)] w(2) eu
        by (simp add: map_prog_def map_entries_Suc [OF al b64] ra)
    qed
    then show "\<exists>zs. length ys \<le> length zs + need \<and>
       (case r of None \<Rightarrow> length ys < need \<and> map_prog R s xs pd first pa fl k u zs
        | Some p \<Rightarrow> pmem u (fst p) (snd p) AND PTE_V = 0 \<and>
            map_prog R s xs pd first pa fl (Suc k)
              (set_dword (fst p) (snd p) (PA2PTE (page_at pa k) OR fl) u) zs \<and>
            pte_cell (pmem (set_dword (fst p) (snd p) (PA2PTE (page_at pa k) OR fl) u)) pd ?a \<noteq> None)"
      using len by blast
  qed simp
qed

text \<open>The pages of the byte range \<open>[va, va + sz)\<close>.\<close>

definition pages_of :: "u64 \<Rightarrow> u64 \<Rightarrow> nat" where
  "pages_of va sz = (unat va + unat sz - 1) div 4096 - unat va div 4096 + 1"

lemma range_pages:
  assumes "0 < sz" "unat va + unat sz \<le> unat MAXVA"
  shows "unat (ROUNDDOWN (va + sz - 1) PGSIZE) =
      unat (ROUNDDOWN va PGSIZE) + (pages_of va sz - 1) * 4096"
    "unat (ROUNDDOWN va PGSIZE) + pages_of va sz * 4096 \<le> unat MAXVA"
proof -
  have M: "unat MAXVA = 2 ^ 38" by (simp add: MAXVA_def push_bit_eq_mult)
  have sz: "0 < unat sz" using assms(1) by (simp add: word_less_nat_alt)
  have "unat (va + sz) = unat va + unat sz" using assms M by (simp add: unat_word_ariths)
  moreover have "1 \<le> va + sz" using calculation sz by (simp add: word_le_nat_alt)
  ultimately have u: "unat (va + sz - 1) = unat va + unat sz - 1" by (simp add: unat_sub)
  let ?l = "unat va + unat sz - 1"
  have le: "unat va div 4096 \<le> ?l div 4096" using sz by (intro div_le_mono) simp
  show "unat (ROUNDDOWN (va + sz - 1) PGSIZE) =
      unat (ROUNDDOWN va PGSIZE) + (pages_of va sz - 1) * 4096"
    using le by (simp add: unat_ROUNDDOWN u pages_of_def diff_mult_distrib)
  have "?l < 2 ^ 38" using assms M sz by simp
  then have "?l div 4096 < 2 ^ 26" by (simp add: div_less_iff_less_mult)
  then have "Suc (?l div 4096) * 4096 \<le> 2 ^ 26 * 4096" by (intro mult_le_mono1) simp
  moreover have "unat va div 4096 + pages_of va sz = Suc (?l div 4096)" using le by (simp add: pages_of_def)
  then have "unat (ROUNDDOWN va PGSIZE) + pages_of va sz * 4096 = Suc (?l div 4096) * 4096"
    unfolding unat_ROUNDDOWN by (metis add_mult_distrib)
  ultimately show "unat (ROUNDDOWN va PGSIZE) + pages_of va sz * 4096 \<le> unat MAXVA" using M by simp
qed

lemma page_at_le_last:
  assumes "0 < sz" "unat va + unat sz \<le> unat MAXVA" "k \<le> pages_of va sz"
  shows "unat (page_at (ROUNDDOWN va PGSIZE) k) = unat (ROUNDDOWN va PGSIZE) + k * 4096"
    and "page_at (ROUNDDOWN va PGSIZE) k \<le> ROUNDDOWN (va + sz - 1) PGSIZE \<longleftrightarrow> k < pages_of va sz"
proof -
  note r = range_pages [OF assms(1,2)]
  have "k * 4096 \<le> pages_of va sz * 4096" using assms(3) by simp
  then have "unat (ROUNDDOWN va PGSIZE) + k * 4096 < 2 ^ 64"
    using r(2) unat_bound64 [of MAXVA] by linarith
  then show u: "unat (page_at (ROUNDDOWN va PGSIZE) k) = unat (ROUNDDOWN va PGSIZE) + k * 4096"
    by (rule unat_page_at)
  have "0 < pages_of va sz" by (simp add: pages_of_def)
  then show "page_at (ROUNDDOWN va PGSIZE) k \<le> ROUNDDOWN (va + sz - 1) PGSIZE \<longleftrightarrow> k < pages_of va sz"
    by (auto simp: word_le_nat_alt u r(1))
qed

text \<open>How many leaf tables \<open>k\<close> pages from the address \<open>first\<close> need: one for every two megabytes they touch.\<close>

definition tables_of :: "u64 \<Rightarrow> nat \<Rightarrow> nat" where
  "tables_of first k = (if k = 0 then 0 else (unat first + (k - 1) * 4096) div 2097152 - unat first div 2097152 + 1)"

lemma tables_of_0 [simp]: "tables_of first 0 = 0"
  and tables_of_1 [simp]: "tables_of first (Suc 0) = 1"
  by (simp_all add: tables_of_def)

lemma tables_of_mono: "k \<le> n \<Longrightarrow> tables_of first k \<le> tables_of first n"
  by (auto simp: tables_of_def intro!: diff_le_mono div_le_mono)

lemma tables_of_Suc:
  "0 < k \<Longrightarrow> (unat first + (k - 1) * 4096) div 2097152 \<noteq> (unat first + k * 4096) div 2097152 \<Longrightarrow>
     Suc (tables_of first k) \<le> tables_of first (Suc k)"
proof -
  assume k: "0 < k" and ne: "(unat first + (k - 1) * 4096) div 2097152 \<noteq> (unat first + k * 4096) div 2097152"
  have "unat first div 2097152 \<le> (unat first + (k - 1) * 4096) div 2097152"
    "(unat first + (k - 1) * 4096) div 2097152 \<le> (unat first + k * 4096) div 2097152"
    using k by (intro div_le_mono, simp)+
  moreover have "a \<le> b \<Longrightarrow> b \<le> c \<Longrightarrow> b \<noteq> c \<Longrightarrow> Suc (b - a) \<le> c - a" for a b c :: nat by arith
  ultimately show ?thesis using k ne by (simp add: tables_of_def)
qed

lemma tables_of_le: "tables_of first k \<le> k"
proof (induction k)
  case (Suc k)
  have "(unat first + k * 4096) div 2097152 \<le> (unat first + (k - 1) * 4096) div 2097152 + 1"
  proof -
    have "unat first + k * 4096 \<le> unat first + (k - 1) * 4096 + 2097152" by (cases k) auto
    then have "(unat first + k * 4096) div 2097152 \<le> (unat first + (k - 1) * 4096 + 2097152) div 2097152"
      by (rule div_le_mono)
    then show ?thesis by simp
  qed
  then show ?case using Suc by (cases k) (auto simp: tables_of_def)
qed simp

definition map_loop_inv where
  "map_loop_inv R s xs pd va sz pa fl f pa' failed t \<longleftrightarrow>
     (\<exists>k ys. map_prog R s xs pd (ROUNDDOWN va PGSIZE) pa fl k t ys \<and>
        f = page_at (ROUNDDOWN va PGSIZE) k \<and> pa' = page_at pa k \<and>
        (if failed then k < pages_of va sz \<and> length xs < 2 * tables_of (ROUNDDOWN va PGSIZE) (pages_of va sz)
         else k \<le> pages_of va sz \<and> length xs \<le> length ys + 2 * tables_of (ROUNDDOWN va PGSIZE) k \<and>
           (0 < k \<longrightarrow> pte_cell (pmem t) pd (page_at (ROUNDDOWN va PGSIZE) (k - 1)) \<noteq> None)))"

lemma map_loop_step:
  fixes s t :: "'z pmm_state_scheme"
  assumes inv: "map_loop_inv R s xs pd va sz pa fl f pa' False t" and pd: "pd \<in> R"
    and rng: "0 < sz" "unat va + unat sz \<le> unat MAXVA"
    and free: "\<And>k. k < pages_of va sz \<Longrightarrow>
      pt_entry (pmem s) pd (page_at (ROUNDDOWN va PGSIZE) k) AND PTE_V = 0"
    and f: "f \<le> ROUNDDOWN (va + sz - 1) PGSIZE"
  shows "kwp (page_walk pd f True)
    (\<lambda>r u. case r of None \<Rightarrow> map_loop_inv R s xs pd va sz pa fl f pa' True u
       | Some p \<Rightarrow> pmem u (fst p) (snd p) AND PTE_V = 0 \<and>
           map_loop_inv R s xs pd va sz pa fl (f + PGSIZE) (pa' + PGSIZE) False
             (set_dword (fst p) (snd p) (PA2PTE pa' OR fl) u) \<and>
           unat f < unat (f + PGSIZE)) (\<lambda>_ _. False) t"
proof -
  let ?F = "ROUNDDOWN va PGSIZE"
  obtain k ys where k: "map_prog R s xs pd ?F pa fl k t ys" "f = page_at ?F k"
      "pa' = page_at pa k" "k \<le> pages_of va sz" "length xs \<le> length ys + 2 * tables_of ?F k"
      "0 < k \<longrightarrow> pte_cell (pmem t) pd (page_at ?F (k - 1)) \<noteq> None"
    using inv by (auto simp: map_loop_inv_def)
  have kn: "k < pages_of va sz" using f page_at_le_last(2) [OF rng k(4)] k(2) by simp
  then have "Suc k * 4096 \<le> pages_of va sz * 4096" by (intro mult_le_mono1) simp
  then have b: "unat ?F + Suc k * 4096 \<le> unat MAXVA" using range_pages(2) [OF rng] by linarith
  have up: "unat f < unat (f + PGSIZE)"
    using page_at_le_last(1) [OF rng k(4)] page_at_le_last(1) [OF rng, of "Suc k"] kn
    by (simp add: k(2) page_at_Suc)
  let ?need = "if pte_cell (pmem t) pd (page_at ?F k) = None then 2 else 0 :: nat"
  have "?need + 2 * tables_of ?F k \<le> 2 * tables_of ?F (Suc k)"
  proof (cases "0 < k \<and> (unat ?F + (k - 1) * 4096) div 2097152 = (unat ?F + k * 4096) div 2097152")
    case True
    then have "unat (page_at ?F (k - 1)) div 2097152 = unat (page_at ?F k) div 2097152"
      using page_at_le_last(1) [OF rng k(4)] page_at_le_last(1) [OF rng, of "k - 1"] kn by simp
    from pte_cell_group [OF this, of "pmem t" pd] have "?need = 0" using k(6) True by simp
    then show ?thesis using tables_of_mono [of k "Suc k" ?F] by simp
  next
    case False
    then show ?thesis using tables_of_Suc [of k ?F] by (cases "k = 0") auto
  qed
  moreover have "tables_of ?F (Suc k) \<le> tables_of ?F (pages_of va sz)" using kn by (intro tables_of_mono) simp
  moreover have "x + 2 * a \<le> 2 * b \<Longrightarrow> b \<le> c \<Longrightarrow> m \<le> y + 2 * a \<Longrightarrow>
      (y \<le> z + x \<longrightarrow> m \<le> z + 2 * b) \<and> (y < x \<longrightarrow> m < 2 * c)" for x a b c m y z :: nat by arith
  ultimately have n: "length ys \<le> z + ?need \<Longrightarrow> length xs \<le> z + 2 * tables_of ?F (Suc k)"
      "length ys < ?need \<Longrightarrow> length xs < 2 * tables_of ?F (pages_of va sz)" for z
    using k(5) by blast+
  show ?thesis
    unfolding k(2)
  proof (rule kwp_mono [OF map_prog_step [OF k(1) pd ROUNDDOWN_aligned b free [OF kn]]], elim exE conjE, goal_cases)
    case (1 r u zs)
    show ?case
    proof (cases r)
      case None
      then show ?thesis using 1(2) n(2) k(3) kn by (auto simp: map_loop_inv_def simp del: if_split)
    next
      case (Some p)
      then show ?thesis
        using 1(2) n(1) [OF 1(1)] k(2,3) kn up by (auto simp: map_loop_inv_def page_at_Suc intro!: exI [of _ "Suc k"])
    qed
  qed simp
qed

lemma map_loop_start:
  assumes "vm_inv R s xs"
  shows "map_loop_inv R s xs pd va sz pa fl (ROUNDDOWN va PGSIZE) pa False s"
  unfolding map_loop_inv_def map_prog_def
  by (rule exI [of _ 0], rule exI [of _ xs]) (simp add: vm_frame_refl [OF assms])

text \<open>How the loop ends: the whole range is mapped, or a table page was missing.\<close>

definition mapped_range where
  "mapped_range R s xs pd va sz pa fl ok t \<longleftrightarrow>
     (\<exists>k ys. map_prog R s xs pd (ROUNDDOWN va PGSIZE) pa fl k t ys \<and>
       (if ok then k = pages_of va sz \<and> length xs \<le> length ys + 2 * tables_of (ROUNDDOWN va PGSIZE) k
        else k < pages_of va sz \<and> length xs < 2 * tables_of (ROUNDDOWN va PGSIZE) (pages_of va sz)))"

lemma map_loop_exit:
  shows "map_loop_inv R s xs pd va sz pa fl f pa' True t \<Longrightarrow> mapped_range R s xs pd va sz pa fl False t"
    and "map_loop_inv R s xs pd va sz pa fl f pa' False t \<Longrightarrow> \<not> f \<le> ROUNDDOWN (va + sz - 1) PGSIZE \<Longrightarrow>
      0 < sz \<Longrightarrow> unat va + unat sz \<le> unat MAXVA \<Longrightarrow> mapped_range R s xs pd va sz pa fl True t"
proof -
  show "map_loop_inv R s xs pd va sz pa fl f pa' True t \<Longrightarrow> mapped_range R s xs pd va sz pa fl False t"
    by (auto simp: map_loop_inv_def mapped_range_def)
  assume "map_loop_inv R s xs pd va sz pa fl f pa' False t" "\<not> f \<le> ROUNDDOWN (va + sz - 1) PGSIZE"
    and r: "0 < sz" "unat va + unat sz \<le> unat MAXVA"
  then obtain k ys where k: "map_prog R s xs pd (ROUNDDOWN va PGSIZE) pa fl k t ys"
      "k \<le> pages_of va sz" "\<not> page_at (ROUNDDOWN va PGSIZE) k \<le> ROUNDDOWN (va + sz - 1) PGSIZE"
      "length xs \<le> length ys + 2 * tables_of (ROUNDDOWN va PGSIZE) k"
    by (auto simp: map_loop_inv_def)
  then show "mapped_range R s xs pd va sz pa fl True t"
    using page_at_le_last(2) [OF r k(2)] k by (auto simp: mapped_range_def)
qed

lemma map_loop_exit_any:
  assumes "map_loop_inv R s xs pd va sz pa fl f pa' failed t" "\<not> f \<le> ROUNDDOWN (va + sz - 1) PGSIZE"
    "0 < sz" "unat va + unat sz \<le> unat MAXVA"
  shows "mapped_range R s xs pd va sz pa fl (\<not> failed) t"
  using assms map_loop_exit by (cases failed) auto

lemma map_fuel: "unat va + unat sz \<le> unat MAXVA \<Longrightarrow> 0 < sz \<Longrightarrow>
    Suc (unat (ROUNDDOWN (va + sz - 1) PGSIZE)) - unat (f :: u64) \<le> page_loop_bound"
proof -
  assume r: "unat va + unat sz \<le> unat MAXVA" "0 < sz"
  have "0 < pages_of va sz" by (simp add: pages_of_def)
  then have "(pages_of va sz - 1) * 4096 < pages_of va sz * 4096" by simp
  then have "unat (ROUNDDOWN (va + sz - 1) PGSIZE) < unat MAXVA"
    using range_pages [OF r(2,1)] by linarith
  also have "unat MAXVA = 2 ^ 38" by (simp add: MAXVA_def push_bit_eq_mult)
  finally show ?thesis by (simp add: page_loop_bound_def)
qed

lemma map_pages_spec:
  fixes s :: "'z pmm_state_scheme"
  assumes inv: "vm_inv R s xs" and pd: "pd \<in> R"
    and rng: "0 < sz" "unat va + unat sz \<le> unat MAXVA"
    and free: "\<And>k. k < pages_of va sz \<Longrightarrow>
      pt_entry (pmem s) pd (page_at (ROUNDDOWN va PGSIZE) k) AND PTE_V = 0"
  shows "kwp (map_pages pd va sz pa perm)
    (\<lambda>r t. (r = 0 \<or> r = -1) \<and>
       mapped_range R s xs pd va sz pa (scast perm OR PTE_V) (r = 0) t) (\<lambda>_ _. False) s"
proof -
  let ?fl = "scast perm OR PTE_V" and ?last = "ROUNDDOWN (va + sz - 1) PGSIZE"
  let ?I = "\<lambda>(f, p, r) t. (r = None \<or> r = Some (-1 :: int)) \<and>
    map_loop_inv R s xs pd va sz pa ?fl f p (r \<noteq> None) t"
  let ?\<mu> = "\<lambda>(f, p :: u64, r :: int option). if r = None then Suc (unat ?last) - unat f else 0"
  show ?thesis
    unfolding map_pages_def Let_def
  proof (rule kwp_seq [where P = "\<lambda>(f, p, r) t. (r = None \<or> r = Some (-1)) \<and>
      mapped_range R s xs pd va sz pa ?fl (r = None) t"], goal_cases)
    case 1
    show ?case
    proof (rule kwp_while [where I = ?I and \<mu> = ?\<mu>])
      fix y t
      assume I: "?I y t" and g: "case y of (first, pa, ret) \<Rightarrow> ret = None \<and> first \<le> ?last"
      obtain f p where y: "y = (f, p, None)" using g by (cases y) auto
      then have li: "map_loop_inv R s xs pd va sz pa ?fl f p False t" and f: "f \<le> ?last"
        using I g by auto
      show "0 < ?\<mu> y" using f by (simp add: y word_le_nat_alt)
      note step = map_loop_step [OF li pd rng free f]
      show "kwp (case y of (first, pa, ret) \<Rightarrow>
             kbind (page_walk pd first True) (\<lambda>pte. case pte of
                 None \<Rightarrow> kreturn (first, pa, Some (-1))
               | Some p \<Rightarrow> kbind (get_pte p) (\<lambda>v.
                   if v AND PTE_V \<noteq> 0
                   then kraise (Kill ''map_pages fails on mapping va to pa'' (-1))
                   else kthen (set_pte p (PA2PTE pa OR scast perm OR PTE_V))
                     (kreturn (first + PGSIZE, pa + PGSIZE, None)))))
        (\<lambda>z u. ?I z u \<and> ?\<mu> z < ?\<mu> y) (\<lambda>_ _. False) t"
        unfolding y prod.case
        by (rule kwp_seq [OF step])
          (use f in \<open>auto simp: kwp_simps get_pte_def set_pte_def or.assoc word_le_nat_alt
              split: option.splits\<close>)
    qed (use map_loop_start [OF inv] map_fuel [OF rng(2,1)] rng in
        \<open>auto split: prod.splits intro: map_loop_exit map_loop_exit_any\<close>)
  next
    case (2 x t)
    then show ?case by (auto simp: kwp_simps split: prod.splits option.splits)
  qed
qed

lemma user_vm_map_cow_spec:
  fixes s :: "'z pmm_state_scheme"
  assumes inv: "vm_inv R s xs" and pd: "pd \<in> R"
    and rng: "0 < sz" "unat va + unat sz \<le> unat MAXVA"
    and free: "\<And>k. k < pages_of va sz \<Longrightarrow>
      pt_entry (pmem s) pd (page_at (ROUNDDOWN va PGSIZE) k) AND PTE_V = 0"
  shows "kwp (user_vm_map_cow pd va sz pa)
    (\<lambda>_ t. \<exists>ok. (2 * pages_of va sz \<le> length xs \<longrightarrow> ok) \<and>
       mapped_range R s xs pd va sz pa (PTE_R OR PTE_A OR PTE_U OR PTE_COW OR PTE_V) ok t)
    (\<lambda>_ _. False) s"
proof -
  let ?fl = "PTE_R OR PTE_A OR PTE_U OR PTE_COW OR PTE_V" and ?last = "ROUNDDOWN (va + sz - 1) PGSIZE"
  let ?I = "\<lambda>(f, p, r) t. map_loop_inv R s xs pd va sz pa ?fl f p r t"
  let ?\<mu> = "\<lambda>(f, p :: u64, r). if r then 0 else Suc (unat ?last) - unat f"
  have no: "mapped_range R s xs pd va sz pa ?fl False t \<Longrightarrow> length xs < 2 * pages_of va sz" for t
    using tables_of_le [of "ROUNDDOWN va PGSIZE" "pages_of va sz"] by (auto simp: mapped_range_def)
  show ?thesis
    unfolding user_vm_map_cow_def Let_def
  proof (rule kwp_seq [where P = "\<lambda>(f, p, r) t. mapped_range R s xs pd va sz pa ?fl (\<not> r) t"], goal_cases)
    case 1
    show ?case
    proof (rule kwp_while [where I = ?I and \<mu> = ?\<mu>])
      fix y t
      assume I: "?I y t" and g: "case y of (first, pa, ret) \<Rightarrow> \<not> ret \<and> first \<le> ?last"
      obtain f p where y: "y = (f, p, False)" using g by (cases y) auto
      then have li: "map_loop_inv R s xs pd va sz pa ?fl f p False t" and f: "f \<le> ?last"
        using I g by auto
      show "0 < ?\<mu> y" using f by (simp add: y word_le_nat_alt)
      show "kwp (case y of (first, pa, ret) \<Rightarrow>
             kbind (page_walk pd first True) (\<lambda>pte. case pte of
                 None \<Rightarrow> kreturn (first, pa, True)
               | Some p \<Rightarrow> kbind (get_pte p) (\<lambda>v.
                   if v AND PTE_V \<noteq> 0
                   then kraise (Kill ''user_vm_map_cow: va already mapped'' (sint (ucast first :: i32)))
                   else kthen (set_pte p (PA2PTE pa OR ?fl))
                     (kreturn (first + PGSIZE, pa + PGSIZE, False)))))
        (\<lambda>z u. ?I z u \<and> ?\<mu> z < ?\<mu> y) (\<lambda>_ _. False) t"
        unfolding y prod.case
        by (rule kwp_seq [OF map_loop_step [OF li pd rng free f]])
          (use f in \<open>auto simp: kwp_simps get_pte_def set_pte_def word_le_nat_alt split: option.splits\<close>)
    qed (use map_loop_start [OF inv] map_fuel [OF rng(2,1)] rng in
        \<open>auto split: prod.splits intro: map_loop_exit map_loop_exit_any\<close>)
  next
    case (2 x t)
    then show ?case using no [of t] by (cases x; cases "snd (snd x)") (auto simp: kwp_simps)
  qed
qed

section \<open>Reading and changing single entries\<close>

lemma pte_flags_small:
  assumes "f AND NOT 0x3FF = (0 :: u64)" shows "(f OR PTE_V) AND NOT 0x3FF = 0"
  using assms by (simp add: PTE_V_def bit.conj_disj_distrib2)

text \<open>
  \<^verbatim>\<open>user_va_to_pa\<close> keeps 46 of the 54 bits of the page number, enough for the 56-bit physical
  addresses of Sv39.
\<close>

definition pte_frame :: "u64 \<Rightarrow> u64" where
  "pte_frame v = push_bit 12 (take_bit 46 (drop_bit 10 v))"

lemma pte_frame_PA2PTE:
  assumes "page_aligned pa" "f AND NOT 0x3FF = 0" "unat pa < 2 ^ 56"
  shows "pte_frame (PA2PTE pa OR f) = pa"
proof (rule bit_word_eqI)
  fix n assume n: "n < LENGTH(64)"
  have "take_bit 56 (unat pa) = unat pa" using assms(3) by (simp add: take_bit_nat_eq_self)
  then have "\<not> bit (unat pa) n" if "56 \<le> n" using that by (metis bit_take_bit_iff not_less)
  then have high: "56 \<le> n \<Longrightarrow> \<not> bit pa n" using n by (simp add: bit_unsigned_iff)
  show "bit (pte_frame (PA2PTE pa OR f)) n = bit pa n"
    using assms(1) flags_bits [OF assms(2), of "n - 2"] high n
    by (cases "n < 12"; cases "n < 56") (auto simp: pte_frame_def PA2PTE_def bit_simps page_aligned_bits)
qed

lemma page_offset: "(va :: u64) AND 4095 = va mod PGSIZE"
proof -
  have "(4095 :: u64) = mask 12" by (simp add: mask_eq_exp_minus_1)
  then show ?thesis by (simp only: take_bit_eq_mask [symmetric]) (simp add: take_bit_eq_mod PGSIZE_def)
qed

lemma frame_mask: "push_bit 12 (drop_bit 10 (v :: u64) AND 0x3FFFFFFFFFFF) = pte_frame v"
proof -
  have "(0x3FFFFFFFFFFF :: u64) = mask 46" by (simp add: mask_eq_exp_minus_1)
  then show ?thesis unfolding pte_frame_def by (simp only: take_bit_eq_mask)
qed

text \<open>The operations that only look an address up, as functions of the entry.\<close>

lemma user_va_to_pa_eq:
  assumes "va < MAXVA"
  shows "user_va_to_pa pd va s =
    (Inr (let v = pt_entry (pmem s) pd va in
          if v AND PTE_V = 0 then 0 else pte_frame v + va mod PGSIZE), s)"
proof -
  have one: "push_bit 12 1 - 1 = (4095 :: u64)" by simp
  show ?thesis
    unfolding user_va_to_pa_def one page_offset frame_mask
    using pte_cell_entry [of "pmem s" pd va]
    by (cases "pte_cell (pmem s) pd va")
      (auto simp: kbind_def page_walk_ro [OF assms] kreturn_def get_pte_def kget_def)
qed

lemma lookup_pa_eq:
  "lookup_pa pd va s =
    (Inr (let v = pt_entry (pmem s) pd va in
          if MAXVA \<le> va \<or> v AND PTE_V = 0 \<or> v AND PTE_R = 0 \<and> v AND PTE_W = 0 then 0
          else PTE2PA v), s)"
  using pte_cell_entry [of "pmem s" pd va] page_walk_ro [of va pd s]
  by (cases "pte_cell (pmem s) pd va"; cases "MAXVA \<le> va")
    (auto simp: lookup_pa_def kbind_def kreturn_def get_pte_def kget_def not_le)

lemma user_vm_set_cow_spec:
  assumes inv: "vm_inv R s xs" and pd: "pd \<in> R" and va: "va < MAXVA"
  shows "kwp (user_vm_set_cow pd va) (\<lambda>_ t. vm_frame R s xs t xs \<and>
     (\<forall>pd'\<in>R. \<forall>va'<MAXVA. pt_entry (pmem t) pd' va' =
        (let v = pt_entry (pmem s) pd' va' in
         if pd' = pd \<and> ROUNDDOWN va' PGSIZE = ROUNDDOWN va PGSIZE \<and> v AND PTE_V \<noteq> 0
         then (v AND NOT PTE_W) OR PTE_COW else v))) (\<lambda>_ _. False) s"
proof -
  have w: "kwp (page_walk pd va False) Q E s = Q (pte_cell (pmem s) pd va) s" for Q E
    by (rule kwp_call) (rule page_walk_ro [OF va])
  have same: "pt_entry (pmem s) pd va' = pt_entry (pmem s) pd va"
    if "ROUNDDOWN va' PGSIZE = ROUNDDOWN va PGSIZE" "va' < MAXVA" for va'
    using that va leaf_table_vpn [of va' va "pmem s" pd] vpn_inj [of va' va]
    by (auto simp: pt_entry_def vpn_def split: option.splits)
  show ?thesis
  proof (cases "pte_cell (pmem s) pd va")
    case None
    then show ?thesis
      using vm_frame_refl [OF inv] same pte_cell_entry(2) [OF None]
      by (auto simp: user_vm_set_cow_def kwp_simps w Let_def)
  next
    case (Some p)
    note e = pte_cell_entry(1) [OF Some] and wr = pte_write_frame [OF inv pd Some va]
    show ?thesis
      using Some wr vm_frame_refl [OF inv] same
      by (auto simp: user_vm_set_cow_def kwp_simps w Let_def get_pte_def set_pte_def e)
  qed
qed

text \<open>A page that is no table may change freely without any effect on translation.\<close>

lemma data_write_tables:
  assumes data: "\<And>pd is. \<not> is_table R m pd is pa" and same: "\<And>q. q \<noteq> pa \<Longrightarrow> m' q = m q"
  shows "is_table R m' = is_table R m" "pd \<in> R \<Longrightarrow> pt_entry m' pd = pt_entry m pd"
proof -
  have at: "table_at m' pd is = table_at m pd is" if "pd \<in> R" "length is \<le> 2" for pd "is"
  proof (rule table_at_cong)
    fix ks k rest u assume "is = ks @ k # rest" "table_at m pd ks = Some u"
    then have "is_table R m pd ks u" using that by (simp add: is_table_def)
    then show "m' u k = m u k" using data [of pd ks] same [of u] by metis
  qed
  then show "is_table R m' = is_table R m" by (auto simp: is_table_def fun_eq_iff)
  assume pd: "pd \<in> R"
  show "pt_entry m' pd = pt_entry m pd"
  proof
    fix va
    have "leaf_table m' pd va = leaf_table m pd va" unfolding leaf_table_def using pd by (intro at) auto
    moreover have "leaf_table m pd va = Some u \<Longrightarrow> u \<noteq> pa" for u
      using data [of pd "[PX 2 va, PX 1 va]"] pd by (auto simp: is_table_def leaf_table_def)
    ultimately show "pt_entry m' pd va = pt_entry m pd va"
      using same by (auto simp: pt_entry_def split: option.splits)
  qed
qed

lemma vm_set_page_data:
  assumes inv: "vm_inv R s xs" and data: "\<And>pd is. \<not> is_table R (pmem s) pd is pa" "pa \<notin> set xs"
  shows "vm_inv R (set_page pa c s) xs" "pd \<in> R \<Longrightarrow> pt_entry (pmem (set_page pa c s)) pd = pt_entry (pmem s) pd"
proof -
  have same: "\<And>q. q \<noteq> pa \<Longrightarrow> pmem (set_page pa c s) q = pmem s q" by (simp add: set_page_def)
  note d = data_write_tables [of R "pmem s" pa "pmem (set_page pa c s)", OF data(1) same]
  show "vm_inv R (set_page pa c s) xs"
    using inv by (simp add: vm_inv_def pt_tree_def d(1) pmm_inv_set_page data(2))
  show "pd \<in> R \<Longrightarrow> pt_entry (pmem (set_page pa c s)) pd = pt_entry (pmem s) pd" by (rule d(2))
qed

lemma free_data_page:
  fixes s :: "'z pmm_state_scheme"
  assumes inv: "vm_inv R s xs" and pa: "managed s pa" "pa \<notin> set xs"
    and data: "\<And>pd is. \<not> is_table R (pmem s) pd is pa"
  obtains t where "free_page pa s = (Inr (), t)"
    "vm_inv R t (if 1 < ref_of s pa then xs else pa # xs)" "is_table R (pmem t) = is_table R (pmem s)"
    "\<And>pd. pd \<in> R \<Longrightarrow> pt_entry (pmem t) pd = pt_entry (pmem s) pd"
    "\<And>q. q \<noteq> pa \<Longrightarrow> pmem t q = pmem s q" "managed t = managed s"
    "\<And>q. managed s q \<Longrightarrow> ref_of t q = (if q = pa then ref_of s pa - (if ref_of s pa = 0 then 0 else 1) else ref_of s q)"
proof -
  have p: "pmm_inv s xs" and tree: "pt_tree R (pmem s) (set xs)" using inv by (auto simp: vm_inv_def)
  have lock: "pmm_lock s = SPIN_LOCK_FREE" using pmm_invD(2) [OF p] .
  have idx: "managed s q \<Longrightarrow> q \<noteq> pa \<Longrightarrow> PAGE_INDEX s q \<noteq> PAGE_INDEX s pa" for q
    using PAGE_INDEX_inj [of s q pa] pa(1) p by (auto simp: pmm_inv_def pmm_bounds_def)
  show thesis
  proof (cases "1 < ref_of s pa")
    case True
    let ?t = "set_ref (PAGE_INDEX s pa) (ref_of s pa - 1) s"
    have "free_page pa s = (Inr (), ?t)" by (rule free_page_eq_shared [OF pa(1) lock True])
    moreover have "pmm_inv ?t xs" using pmm.release_shared [OF p pa(1) True] calculation by auto
    ultimately show thesis
      using True tree idx by (intro that [of ?t]) (auto simp: vm_inv_def)
  next
    case False
    have same: "\<And>q. q \<noteq> pa \<Longrightarrow> pmem (push_state pa s) q = pmem s q" by simp
    note d = data_write_tables [of R "pmem s" pa "pmem (push_state pa s)", OF data same]
    have it: "is_table R (pmem (push_state pa s)) = is_table R (pmem s)" by (rule d(1))
    have "pt_tree R (pmem (push_state pa s)) (set (pa # xs))"
      using tree data by (simp only: pt_tree_def it) auto
    moreover have "free_page pa s = (Inr (), push_state pa s)"
      using False by (intro free_page_eq_last [OF pa(1) lock]) simp
    moreover have "ref_of s pa = 0 \<or> ref_of s pa = 1"
      using False word_le_1_cases [of "ref_of s pa"] by (simp add: not_less)
    ultimately show thesis
      using False push_state_inv [OF p pa] d idx
      by (intro that [of "push_state pa s"]) (auto simp: vm_inv_def)
  qed
qed

text \<open>Unmapping one page, the way every caller of \<^verbatim>\<open>user_vm_unmap\<close> uses it.\<close>

lemma leaf_table_iff:
  "pd \<in> R \<Longrightarrow> leaf_table m pd va = Some t \<longleftrightarrow> is_table R m pd [PX 2 va, PX 1 va] t"
  by (simp add: is_table_def leaf_table_def del: table_at.simps)

lemma user_vm_unmap_cell:
  assumes va: "page_aligned va" "unat va + 4096 \<le> unat MAXVA" and p: "pte_cell (pmem s) pd va = Some p"
    and e: "pmem s (fst p) (snd p) = e" "e AND PTE_V \<noteq> 0" "PTE_FLAGS e \<noteq> PTE_V"
    and run: "kwp (kthen (kwhen free (free_page (PTE2PA e))) (set_pte p 0)) Q E s"
  shows "kwp (user_vm_unmap pd va PGSIZE free) Q E s"
proof -
  have m: "va < MAXVA" using va(2) by (simp add: word_less_nat_alt)
  have w: "kwp (page_walk pd va False) Q E s = Q (Some p) s" for Q E
    by (rule kwp_call) (simp add: page_walk_ro [OF m] p)
  have up: "va < va + PGSIZE"
    using va(2) unat_bound64 [of MAXVA] by (simp add: word_less_nat_alt unat_plus_page)
  show ?thesis
    unfolding user_vm_unmap_def
    using run va(1) up e by (simp add: kwp_simps page_loop_bound_def)
      (rule kwp_while_once, simp_all add: kwp_simps w get_pte_def e(1))
qed

lemma user_vm_unmap_free:
  fixes s :: "'z pmm_state_scheme"
  assumes inv: "vm_inv R s xs" and pd: "pd \<in> R" and va: "page_aligned va" "unat va + 4096 \<le> unat MAXVA"
    and e: "pt_entry (pmem s) pd va = e" "e AND PTE_V \<noteq> 0" "PTE_FLAGS e \<noteq> PTE_V"
    and pa: "managed s (PTE2PA e)" "PTE2PA e \<notin> set xs" "\<And>pd is. \<not> is_table R (pmem s) pd is (PTE2PA e)"
  shows "kwp (user_vm_unmap pd va PGSIZE True)
    (\<lambda>_ t. vm_inv R t (if 1 < ref_of s (PTE2PA e) then xs else PTE2PA e # xs) \<and>
       (\<forall>pd'\<in>R. \<forall>va'<MAXVA. pt_entry (pmem t) pd' va' =
          (if pd' = pd \<and> ROUNDDOWN va' PGSIZE = va then 0 else pt_entry (pmem s) pd' va')) \<and>
       (\<forall>q. managed s q \<longrightarrow> ref_of t q = ref_of s q - (if q = PTE2PA e \<and> ref_of s q \<noteq> 0 then 1 else 0)) \<and>
       managed t = managed s \<and>
       (\<forall>q. q \<noteq> PTE2PA e \<longrightarrow> q \<notin> set xs \<longrightarrow> (\<forall>pd is. \<not> is_table R (pmem s) pd is q) \<longrightarrow>
          pmem t q = pmem s q \<and> (\<forall>pd is. \<not> is_table R (pmem t) pd is q)))
    (\<lambda>_ _. False) s"
proof -
  have m: "va < MAXVA" using va(2) by (simp add: word_less_nat_alt)
  obtain p where p: "pte_cell (pmem s) pd va = Some p"
    using e pte_cell_entry(2) [of "pmem s" pd va] by fastforce
  have v: "pmem s (fst p) (snd p) = e" using pte_cell_entry(1) [OF p] e by simp
  let ?ys = "if 1 < ref_of s (PTE2PA e) then xs else PTE2PA e # xs"
  obtain t where t: "free_page (PTE2PA e) s = (Inr (), t)" "vm_inv R t ?ys" "is_table R (pmem t) = is_table R (pmem s)"
    "\<And>pd. pd \<in> R \<Longrightarrow> pt_entry (pmem t) pd = pt_entry (pmem s) pd" "\<And>q. q \<noteq> PTE2PA e \<Longrightarrow> pmem t q = pmem s q" "managed t = managed s"
    "\<And>q. managed s q \<Longrightarrow> ref_of t q = (if q = PTE2PA e
        then ref_of s (PTE2PA e) - (if ref_of s (PTE2PA e) = 0 then 0 else 1) else ref_of s q)"
    using free_data_page [OF inv pa] by metis
  have f: "kwp (free_page (PTE2PA e)) Q E s = Q () t" for Q E by (rule kwp_call) (rule t(1))
  have cell: "pte_cell (pmem t) pd va = Some p"
    using p t(3) by (simp add: pte_cell_def leaf_table_iff [OF pd])
  note wr = pte_write_frame [OF t(2) pd cell m, where v = 0]
  let ?u = "set_dword (fst p) (snd p) 0 t"
  have data: "pmem ?u q = pmem s q" "\<not> is_table R (pmem ?u) pd is q"
    if "q \<noteq> PTE2PA e" "q \<notin> set xs" "\<forall>pd is. \<not> is_table R (pmem s) pd is q" for q pd "is"
    using vm_frameD(5) [OF wr(1), of pd "is" q] vm_frameD(6) [OF wr(1), of q] that t(3,5) by (auto split: if_splits)
  show ?thesis
    using wr(2) vm_frameD(1,3) [OF wr(1)] data ROUNDDOWN_id [OF va(1)]
    by (intro user_vm_unmap_cell [OF va p v e(2,3)]) (simp add: kwp_simps set_pte_def f t(4,6,7))
qed

lemma user_vm_unmap_page:
  fixes s :: "'z pmm_state_scheme"
  assumes inv: "vm_inv R s xs" and pd: "pd \<in> R" and va: "page_aligned va" "unat va + 4096 \<le> unat MAXVA"
    and e: "pt_entry (pmem s) pd va = e" "e AND PTE_V \<noteq> 0" "PTE_FLAGS e \<noteq> PTE_V"
    and pa: "free \<Longrightarrow> managed s (PTE2PA e)" "free \<Longrightarrow> PTE2PA e \<notin> set xs"
      "\<And>pd is. free \<Longrightarrow> \<not> is_table R (pmem s) pd is (PTE2PA e)"
  shows "kwp (user_vm_unmap pd va PGSIZE free)
    (\<lambda>_ t. vm_inv R t (if free \<and> \<not> 1 < ref_of s (PTE2PA e) then PTE2PA e # xs else xs) \<and>
       (\<forall>pd'\<in>R. \<forall>va'<MAXVA. pt_entry (pmem t) pd' va' =
          (if pd' = pd \<and> ROUNDDOWN va' PGSIZE = va then 0 else pt_entry (pmem s) pd' va')) \<and>
       (\<forall>q. managed s q \<longrightarrow> ref_of t q = ref_of s q - (if free \<and> q = PTE2PA e \<and> ref_of s q \<noteq> 0 then 1 else 0)))
    (\<lambda>_ _. False) s"
proof (cases free)
  case True
  show ?thesis
    unfolding eqTrueI [OF True]
    by (rule kwp_mono [OF user_vm_unmap_free [OF inv pd va e pa(1) [OF True] pa(2) [OF True] pa(3) [OF True]]]) (auto split: if_splits)
next
  case False
  have m: "va < MAXVA" using va(2) by (simp add: word_less_nat_alt)
  obtain p where p: "pte_cell (pmem s) pd va = Some p"
    using e pte_cell_entry(2) [of "pmem s" pd va] by fastforce
  have v: "pmem s (fst p) (snd p) = e" using pte_cell_entry(1) [OF p] e by simp
  show ?thesis
    using False pte_write_frame [OF inv pd p m, where v = 0] vm_frameD(1) ROUNDDOWN_id [OF va(1)]
    by (intro user_vm_unmap_cell [OF va p v e(2,3)]) (auto simp: kwp_simps set_pte_def)
qed

section \<open>Example states\<close>

text \<open>
  Two pages of tables below the root \<^verbatim>\<open>0x80005000\<close>, which map the page \<^verbatim>\<open>0x10000\<close> to \<^verbatim>\<open>0x80006000\<close>,
  and two free pages.
\<close>

definition demo_vm :: pmm_state where
  "demo_vm = \<lparr>pmem = (\<lambda>_ _. 0)(0x80001000 := (\<lambda>_. 0)(0 := 0x80002000),
       0x80005000 := (\<lambda>_. 0)(0 := 0x20000c01),
       0x80003000 := (\<lambda>_. 0)(0 := 0x20001001),
       0x80004000 := (\<lambda>_. 0)(16 := 0x200018d7)),
     g_free_mem_list = 0x80001000, page_ref_count = (\<lambda>_. 1)(0 := 0, 1 := 0),
     free_mem_start_addr = 0x80001000, free_mem_end_addr = 0x80008000,
     g_mem_size = 0x8000, pmm_lock = 0\<rparr>"

abbreviation demo_root :: u64 where
  "demo_root \<equiv> 0x80005000"

lemma demo_vm_next:
  "next_table (pmem demo_vm) 0x80005000 i = (if i = 0 then Some 0x80003000 else None)"
  "next_table (pmem demo_vm) 0x80003000 i = (if i = 0 then Some 0x80004000 else None)"
  by (simp_all add: next_table_def demo_vm_def PTE2PA_def PTE_V_def)

lemma demo_vm_tables:
  "is_table {demo_root} (pmem demo_vm) pd is t \<longleftrightarrow> pd = demo_root \<and>
     (is = [] \<and> t = demo_root \<or> is = [0] \<and> t = 0x80003000 \<or> is = [0, 0] \<and> t = 0x80004000)"
proof (cases "is")
  case (Cons i js)
  then show ?thesis by (cases js) (auto simp: is_table_def demo_vm_next split: if_splits)
qed (auto simp: is_table_def)

lemma demo_vm_inv: "vm_inv {demo_root} demo_vm [0x80001000, 0x80002000]"
proof -
  have "pmm_inv demo_vm [0x80001000, 0x80002000]"
    by (simp add: pmm_inv_def pmm_bounds_def demo_vm_def managed_def PAGE_INDEX_def MAX_PAGE_NUM_def
        PGSIZE_def PMM_MAX_PAGES_def SPIN_LOCK_FREE_def)
  moreover have "pt_tree {demo_root} (pmem demo_vm) (set [0x80001000, 0x80002000])"
    unfolding pt_tree_def demo_vm_tables by (auto simp: PGSIZE_def)
  ultimately show ?thesis by (simp add: vm_inv_def)
qed

lemma demo_PX:
  "PX 0 0x10000 = 16" "PX 1 0x10000 = 0" "PX 2 0x10000 = 0"
  "PX 0 0x20000 = 32" "PX 1 0x20000 = 0" "PX 2 0x20000 = 0"
  by (simp_all add: PX_def PXSHIFT_def)

lemma demo_vm_entry:
  "pt_entry (pmem demo_vm) demo_root 0x10000 = 0x200018d7"
  "pt_entry (pmem demo_vm) demo_root 0x20000 = 0"
proof -
  have "leaf_table (pmem demo_vm) demo_root 0x10000 = Some 0x80004000"
    "leaf_table (pmem demo_vm) demo_root 0x20000 = Some 0x80004000"
    by (simp_all add: leaf_table_def demo_vm_next demo_PX [unfolded One_nat_def])
  then show "pt_entry (pmem demo_vm) demo_root 0x10000 = 0x200018d7"
    "pt_entry (pmem demo_vm) demo_root 0x20000 = 0"
    by (simp_all add: pt_entry_def demo_PX demo_vm_def)
qed

lemma demo_range:
  "unat (0x20000 :: u64) + unat (4096 :: u64) \<le> unat MAXVA" "pages_of 0x20000 4096 = 1"
  "ROUNDDOWN 0x20000 PGSIZE = 0x20000"
  by (simp_all add: MAXVA_def pages_of_def ROUNDDOWN_def PGSIZE_def)

section \<open>Properties\<close>

text \<open>
  C4. Mapping: on page tables in order, \<^verbatim>\<open>map_pages\<close> over an unmapped range below \<^verbatim>\<open>MAXVA\<close> always
  returns, with 0 or -1.  With 0 the entry of the \<open>k\<close>-th page of the range points to the \<open>k\<close>-th page
  from \<open>pa\<close> with the given permissions and is valid, and every other entry of this and of every
  other address space is as before; with -1 only a prefix of the range was mapped.  It returns 0
  whenever there are two free pages for every two megabytes that the range touches.  No page outside the
  tables and the free list changes.
\<close>

theorem map_pages_correct:
  fixes s :: "'z pmm_state_scheme"
  assumes "vm_inv R s xs" "pd \<in> R" "0 < sz" "unat va + unat sz \<le> unat MAXVA"
    and "\<forall>k<pages_of va sz. pt_entry (pmem s) pd (page_at (ROUNDDOWN va PGSIZE) k) AND PTE_V = 0"
  shows "\<exists>r t k ys. map_pages pd va sz pa perm s = (Inr r, t) \<and> vm_frame R s xs t ys \<and>
    (\<forall>pd'\<in>R. \<forall>va'<MAXVA. pt_entry (pmem t) pd' va' =
       map_entries (pt_entry (pmem s)) pd (ROUNDDOWN va PGSIZE) k pa (scast perm OR PTE_V) pd' va') \<and>
    (r = 0 \<and> k = pages_of va sz \<or>
     r = -1 \<and> k < pages_of va sz \<and> length xs < 2 * tables_of (ROUNDDOWN va PGSIZE) (pages_of va sz))"
proof -
  obtain r t where "map_pages pd va sz pa perm s = (Inr r, t)" and r: "r = 0 \<or> r = -1"
      and "mapped_range R s xs pd va sz pa (scast perm OR PTE_V) (r = 0) t"
    using kwp_total [OF map_pages_spec [OF assms(1-4), of pa perm]] assms(5) by blast
  then show ?thesis
    unfolding mapped_range_def map_prog_def by (cases "r = 0") fastforce+
qed

theorem map_pages_correct_witness:
  "\<exists>r t k ys. map_pages demo_root 0x20000 4096 0x80006000 7 demo_vm = (Inr r, t) \<and>
    vm_frame {demo_root} demo_vm [0x80001000, 0x80002000] t ys \<and>
    (r = 0 \<and> k = pages_of 0x20000 4096 \<or>
     r = -1 \<and> k < pages_of 0x20000 4096 \<and> 2 < 2 * tables_of (ROUNDDOWN 0x20000 PGSIZE) (pages_of 0x20000 4096))"
  using map_pages_correct [OF demo_vm_inv, of demo_root 4096 "0x20000" "0x80006000" 7]
    demo_range demo_vm_entry(2) by auto

text \<open>
  Round trip of mapping and translation: after \<^verbatim>\<open>map_pages\<close> succeeded on a page-aligned physical
  range below the 56-bit limit of Sv39, \<^verbatim>\<open>user_va_to_pa\<close> sends every address of the mapped pages to
  the address at the same distance in the physical range, and changes nothing.
\<close>

theorem map_then_translate:
  fixes s :: "'z pmm_state_scheme"
  assumes "vm_inv R s xs" "pd \<in> R" "0 < sz" "unat va + unat sz \<le> unat MAXVA"
    and free: "\<forall>k<pages_of va sz. pt_entry (pmem s) pd (page_at (ROUNDDOWN va PGSIZE) k) AND PTE_V = 0"
    and pa: "page_aligned pa" "unat pa + pages_of va sz * 4096 < 2 ^ 56"
    and perm: "(scast perm :: u64) AND NOT 0x3FF = 0"
    and run: "map_pages pd va sz pa perm s = (Inr 0, t)"
    and a: "unat (ROUNDDOWN va PGSIZE) \<le> unat a"
      "unat a < unat (ROUNDDOWN va PGSIZE) + pages_of va sz * 4096"
  shows "user_va_to_pa pd a t = (Inr (pa + (a - ROUNDDOWN va PGSIZE)), t)"
proof -
  let ?F = "ROUNDDOWN va PGSIZE" and ?fl = "scast perm OR PTE_V"
  define k where "k = (unat a - unat ?F) div 4096"
  have "mapped_range R s xs pd va sz pa ?fl True t"
    using kwp_run [OF map_pages_spec [OF assms(1-4), of pa perm] run] free by simp
  then obtain ys where mp: "map_prog R s xs pd ?F pa ?fl (pages_of va sz) t ys"
    by (auto simp: mapped_range_def)
  have aM: "a < MAXVA" using a(2) range_pages(2) [OF assms(3,4)] by (simp add: word_less_nat_alt)
  have ent: "pt_entry (pmem t) pd a = PA2PTE (page_at pa k) OR ?fl"
    using mp aM assms(2) a by (simp add: map_prog_def map_entries_def k_def)
  have kn: "k < pages_of va sz" unfolding k_def using a by (simp add: div_less_iff_less_mult)
  then have "k * 4096 \<le> pages_of va sz * 4096" by simp
  then have k56: "unat pa + k * 4096 < 2 ^ 56" using pa(2) by linarith
  have upa: "unat (page_at pa k) = unat pa + k * 4096" using k56 by (intro unat_page_at) simp
  have "pte_frame (PA2PTE (page_at pa k) OR ?fl) = page_at pa k"
    using page_at_aligned [OF pa(1)] pte_flags_small [OF perm] k56 upa by (intro pte_frame_PA2PTE) auto
  moreover have "(PA2PTE (page_at pa k) OR ?fl) AND PTE_V \<noteq> 0"
    unfolding PTE_V_bit by (simp add: bit_simps PTE_V_def)
  moreover have "page_at pa k + a mod PGSIZE = pa + (a - ?F)"
  proof -
    have "unat ?F mod 4096 = 0" by (simp add: unat_ROUNDDOWN)
    then obtain c where c: "unat ?F = 4096 * c" by auto
    have "unat a - unat ?F = k * 4096 + (unat a - unat ?F) mod 4096" unfolding k_def by simp
    also have "(unat a - unat ?F) mod 4096 = unat a mod 4096"
      using a(1) c by (metis mod_mult_self2 le_add_diff_inverse2)
    finally have "unat (a - ?F) = k * 4096 + unat (a mod PGSIZE)"
      using a(1) by (simp add: unat_sub word_le_nat_alt unat_mod_distrib unat_PGSIZE)
    then have "a - ?F = of_nat (k * 4096 + unat (a mod PGSIZE))" by (metis of_nat_unat ucast_id)
    then show ?thesis by (simp add: page_at_def PGSIZE_def ucast_id)
  qed
  ultimately show ?thesis by (simp add: user_va_to_pa_eq [OF aM] ent)
qed

lemma demo_map_runs:
  "\<exists>t. map_pages demo_root 0x20000 4096 0x80006000 7 demo_vm = (Inr 0, t)"
  using kwp_total [OF map_pages_spec [OF demo_vm_inv, of demo_root 4096 "0x20000" "0x80006000" 7]]
    demo_range demo_vm_entry(2) by (auto simp: mapped_range_def)

theorem map_then_translate_witness:
  "\<exists>t. map_pages demo_root 0x20000 4096 0x80006000 7 demo_vm = (Inr 0, t) \<and>
    user_va_to_pa demo_root 0x20123 t = (Inr 0x80006123, t)"
proof -
  obtain t where t: "map_pages demo_root 0x20000 4096 0x80006000 7 demo_vm = (Inr 0, t)"
    using demo_map_runs by blast
  have "user_va_to_pa demo_root 0x20123 t = (Inr (0x80006000 + (0x20123 - ROUNDDOWN 0x20000 PGSIZE)), t)"
    by (rule map_then_translate [OF demo_vm_inv _ _ demo_range(1) _ _ _ _ t])
      (simp_all add: demo_range demo_vm_entry, simp add: PGSIZE_def)
  then show ?thesis using t by (simp add: demo_range)
qed

text \<open>
  Remapping is refused: when the first page of the range already has a valid entry,
  \<^verbatim>\<open>map_pages\<close> kills the current process, and nothing has changed.
\<close>

theorem map_pages_remap_kills:
  assumes rng: "0 < sz" "unat va + unat sz \<le> unat MAXVA"
    and mapped: "pt_entry (pmem s) pd (ROUNDDOWN va PGSIZE) AND PTE_V \<noteq> 0"
  shows "map_pages pd va sz pa perm s = (Inl (Kill ''map_pages fails on mapping va to pa'' (-1)), s)"
proof -
  let ?F = "ROUNDDOWN va PGSIZE"
  have F: "?F \<le> ROUNDDOWN (va + sz - 1) PGSIZE"
    using page_at_le_last(2) [OF rng, of 0] by (simp add: pages_of_def)
  have "0 < unat sz" using rng(1) by (simp add: word_less_nat_alt)
  then have "va < MAXVA" using rng(2) by (simp add: word_less_nat_alt)
  then have M: "?F < MAXVA" using ROUNDDOWN_le [of va] by (rule le_less_trans [rotated])
  obtain p where p: "pte_cell (pmem s) pd ?F = Some p"
    using mapped pte_cell_entry(2) [of "pmem s" pd ?F] by fastforce
  have v: "pmem s (fst p) (snd p) AND PTE_V \<noteq> 0" using pte_cell_entry(1) [OF p] mapped by simp
  obtain n where n: "page_loop_bound = Suc n" by (cases page_loop_bound) (auto simp: page_loop_bound_def)
  show ?thesis
    unfolding map_pages_def Let_def n
    using F v by (simp add: kbind_def page_walk_found [OF M p] get_pte_def kget_def kraise_def)
qed

theorem map_pages_remap_kills_witness:
  "map_pages demo_root 0x10000 4096 0x80007000 7 demo_vm =
     (Inl (Kill ''map_pages fails on mapping va to pa'' (-1)), demo_vm)"
proof -
  have "ROUNDDOWN 0x10000 PGSIZE = 0x10000" by (simp add: ROUNDDOWN_def PGSIZE_def)
  then show ?thesis
    by (intro map_pages_remap_kills) (simp_all add: MAXVA_def demo_vm_entry PTE_V_def)
qed

text \<open>
  C9. Unmapping a page: \<^verbatim>\<open>user_vm_unmap\<close> of one mapped page clears exactly that entry, so that the
  address no longer translates, and leaves all other entries of all address spaces as they are.  With
  \<^verbatim>\<open>free\<close> the page loses one reference and goes back to the head of the free list when that was the
  last one; without it no page is released.
\<close>

theorem user_vm_unmap_correct:
  fixes s :: "'z pmm_state_scheme"
  assumes inv: "vm_inv R s xs" and pd: "pd \<in> R" and va: "page_aligned va" "unat va + 4096 \<le> unat MAXVA"
    and e: "pt_entry (pmem s) pd va = e" "e AND PTE_V \<noteq> 0" "PTE_FLAGS e \<noteq> PTE_V"
    and pa: "free \<longrightarrow> managed s (PTE2PA e) \<and> PTE2PA e \<notin> set xs \<and> (\<forall>pd is. \<not> is_table R (pmem s) pd is (PTE2PA e))"
  shows "\<exists>t. user_vm_unmap pd va PGSIZE free s = (Inr (), t) \<and>
    vm_inv R t (if free \<and> \<not> 1 < ref_of s (PTE2PA e) then PTE2PA e # xs else xs) \<and>
    (\<forall>pd'\<in>R. \<forall>va'<MAXVA. pt_entry (pmem t) pd' va' =
       (if pd' = pd \<and> ROUNDDOWN va' PGSIZE = va then 0 else pt_entry (pmem s) pd' va')) \<and>
    (\<forall>q. managed s q \<longrightarrow> ref_of t q =
       ref_of s q - (if free \<and> q = PTE2PA e \<and> ref_of s q \<noteq> 0 then 1 else 0)) \<and>
    user_va_to_pa pd va t = (Inr 0, t)"
proof -
  obtain t where t: "user_vm_unmap pd va PGSIZE free s = (Inr (), t)"
      "vm_inv R t (if free \<and> \<not> 1 < ref_of s (PTE2PA e) then PTE2PA e # xs else xs)"
      "\<forall>pd'\<in>R. \<forall>va'<MAXVA. pt_entry (pmem t) pd' va' =
         (if pd' = pd \<and> ROUNDDOWN va' PGSIZE = va then 0 else pt_entry (pmem s) pd' va')"
      "\<forall>q. managed s q \<longrightarrow> ref_of t q =
         ref_of s q - (if free \<and> q = PTE2PA e \<and> ref_of s q \<noteq> 0 then 1 else 0)"
    using kwp_total_unit [OF user_vm_unmap_page [OF inv pd va e, of free]] pa by blast
  have "va < MAXVA" using va(2) by (simp add: word_less_nat_alt)
  moreover from this have "pt_entry (pmem t) pd va = 0" using t(3) pd ROUNDDOWN_id [OF va(1)] by simp
  ultimately show ?thesis using t by (simp add: user_va_to_pa_eq)
qed

theorem user_vm_unmap_correct_witness:
  "\<exists>t. user_vm_unmap demo_root 0x10000 PGSIZE True demo_vm = (Inr (), t) \<and>
     vm_inv {demo_root} t [0x80006000, 0x80001000, 0x80002000] \<and>
     user_va_to_pa demo_root 0x10000 t = (Inr 0, t)"
proof -
  have pa: "PTE2PA 0x200018d7 = 0x80006000" "PTE_FLAGS 0x200018d7 \<noteq> PTE_V" "0x200018d7 AND PTE_V \<noteq> 0"
    by (simp_all add: PTE2PA_def PTE_FLAGS_def PTE_V_def)
  have m: "managed demo_vm 0x80006000" "ref_of demo_vm 0x80006000 = 1"
    by (simp_all add: demo_vm_def managed_def PAGE_INDEX_def MAX_PAGE_NUM_def PGSIZE_def)
  have "page_aligned 0x10000" "unat (0x10000 :: u64) + 4096 \<le> unat MAXVA"
    by (simp_all add: PGSIZE_def MAXVA_def)
  from user_vm_unmap_correct [OF demo_vm_inv singletonI this demo_vm_entry(1) pa(3,2), of True]
  show ?thesis using pa m by (auto simp: demo_vm_tables)
qed

text \<open>
  Copy-on-write marking: \<^verbatim>\<open>user_vm_set_cow\<close> on a mapped page takes the write permission away, sets
  the copy-on-write bit and keeps the page it points to; no other entry of any address space changes,
  and an address that is not mapped is left alone.
\<close>

theorem user_vm_set_cow_correct:
  fixes s :: "'z pmm_state_scheme"
  assumes "vm_inv R s xs" "pd \<in> R" "va < MAXVA"
  shows "\<exists>t. user_vm_set_cow pd va s = (Inr (), t) \<and> vm_frame R s xs t xs \<and>
    (let v = pt_entry (pmem s) pd va; w = pt_entry (pmem t) pd va in
       if v AND PTE_V = 0 then w = v
       else w AND PTE_W = 0 \<and> w AND PTE_COW \<noteq> 0 \<and> w AND PTE_V \<noteq> 0 \<and> PTE2PA w = PTE2PA v) \<and>
    (\<forall>pd'\<in>R. \<forall>va'<MAXVA. pd' \<noteq> pd \<or> ROUNDDOWN va' PGSIZE \<noteq> ROUNDDOWN va PGSIZE \<longrightarrow>
       pt_entry (pmem t) pd' va' = pt_entry (pmem s) pd' va')"
proof -
  have bits: "((v AND NOT PTE_W) OR PTE_COW) AND PTE_W = 0" "((v AND NOT PTE_W) OR PTE_COW) AND PTE_COW \<noteq> 0"
    "((v AND NOT PTE_W) OR PTE_COW) AND PTE_V = v AND PTE_V" "PTE2PA ((v AND NOT PTE_W) OR PTE_COW) = PTE2PA v"
    for v
  proof -
    show "((v AND NOT PTE_W) OR PTE_COW) AND PTE_W = 0" "((v AND NOT PTE_W) OR PTE_COW) AND PTE_COW \<noteq> 0"
      "((v AND NOT PTE_W) OR PTE_COW) AND PTE_V = v AND PTE_V"
      by (simp_all add: pte_flag_defs bit.conj_disj_distrib2 and.assoc)
    have "\<not> bit PTE_W n" "\<not> bit PTE_COW n" if "10 \<le> n" for n
      using that flags_bits [of PTE_W n] flags_bits [of PTE_COW n] by (simp_all add: pte_flag_defs)
    then show "PTE2PA ((v AND NOT PTE_W) OR PTE_COW) = PTE2PA v"
      by (intro bit_word_eqI) (auto simp: PTE2PA_def bit_simps)
  qed
  obtain t where t: "user_vm_set_cow pd va s = (Inr (), t)" "vm_frame R s xs t xs"
      and e: "\<And>pd' va'. pd' \<in> R \<Longrightarrow> va' < MAXVA \<Longrightarrow> pt_entry (pmem t) pd' va' =
        (let v = pt_entry (pmem s) pd' va' in
         if pd' = pd \<and> ROUNDDOWN va' PGSIZE = ROUNDDOWN va PGSIZE \<and> v AND PTE_V \<noteq> 0
         then (v AND NOT PTE_W) OR PTE_COW else v)"
    using kwp_total_unit [OF user_vm_set_cow_spec [OF assms]] by blast
  show ?thesis
    by (rule exI [of _ t]) (auto simp: t e Let_def assms(2,3) bits, simp add: PTE_COW_def)
qed

theorem user_vm_set_cow_correct_witness:
  "\<exists>t. user_vm_set_cow demo_root 0x10000 demo_vm = (Inr (), t) \<and>
     pt_entry (pmem t) demo_root 0x10000 AND PTE_W = 0 \<and>
     PTE2PA (pt_entry (pmem t) demo_root 0x10000) = 0x80006000"
proof -
  have "PTE2PA 0x200018d7 = 0x80006000" "0x200018d7 AND PTE_V \<noteq> 0" "0x10000 < MAXVA"
    by (simp_all add: PTE2PA_def PTE_V_def MAXVA_def)
  then show ?thesis
    using user_vm_set_cow_correct [OF demo_vm_inv singletonI, of "0x10000"] demo_vm_entry(1)
    by (auto simp: Let_def)
qed

text \<open>
  Sharing a range copy-on-write: with two free pages for each page of the range,
  \<^verbatim>\<open>user_vm_map_cow\<close> gives every page of an unmapped range a valid, readable, user-accessible entry
  with the copy-on-write bit and without the write permission, pointing to the matching page from
  \<open>pa\<close>, and leaves every other entry of every address space as it was.
\<close>

theorem user_vm_map_cow_correct:
  fixes s :: "'z pmm_state_scheme"
  assumes "vm_inv R s xs" "pd \<in> R" "0 < sz" "unat va + unat sz \<le> unat MAXVA"
    and "\<forall>k<pages_of va sz. pt_entry (pmem s) pd (page_at (ROUNDDOWN va PGSIZE) k) AND PTE_V = 0"
    and "2 * pages_of va sz \<le> length xs"
  shows "\<exists>t ys. user_vm_map_cow pd va sz pa s = (Inr (), t) \<and> vm_frame R s xs t ys \<and>
    (\<forall>pd'\<in>R. \<forall>va'<MAXVA. pt_entry (pmem t) pd' va' =
       map_entries (pt_entry (pmem s)) pd (ROUNDDOWN va PGSIZE) (pages_of va sz) pa
         (PTE_R OR PTE_A OR PTE_U OR PTE_COW OR PTE_V) pd' va') \<and>
    (PTE_R OR PTE_A OR PTE_U OR PTE_COW OR PTE_V) AND PTE_W = 0"
proof -
  obtain t ok where t: "user_vm_map_cow pd va sz pa s = (Inr (), t)" and ok: "ok"
      and "mapped_range R s xs pd va sz pa (PTE_R OR PTE_A OR PTE_U OR PTE_COW OR PTE_V) ok t"
    using kwp_total_unit [OF user_vm_map_cow_spec [OF assms(1-4), of pa]] assms(5,6) by blast
  moreover have "(PTE_R OR PTE_A OR PTE_U OR PTE_COW OR PTE_V) AND PTE_W = 0"
    by (simp add: pte_flag_defs)
  ultimately show ?thesis by (auto simp: mapped_range_def map_prog_def)
qed

theorem user_vm_map_cow_correct_witness:
  "\<exists>t ys. user_vm_map_cow demo_root 0x20000 4096 0x80006000 demo_vm = (Inr (), t) \<and>
     vm_frame {demo_root} demo_vm [0x80001000, 0x80002000] t ys"
  using user_vm_map_cow_correct [OF demo_vm_inv, of demo_root 4096 "0x20000" "0x80006000"]
    demo_range demo_vm_entry(2) by auto

end
