(* ===== verification/Sched.thy ===== *)
theory Sched
  imports Vmm
begin

text \<open>
  The process table, the ready queue and the scheduler (\<^verbatim>\<open>kernel/sched.c\<close>, the types of
  \<^verbatim>\<open>kernel/process.h\<close>, \<^verbatim>\<open>switch_to\<close>, \<^verbatim>\<open>free_process\<close> and the semaphores of \<^verbatim>\<open>kernel/process.c\<close>), with
  the system calls and the timer handler that do nothing but schedule (\<^verbatim>\<open>sys_user_exit\<close>,
  \<^verbatim>\<open>sys_user_yield\<close>, \<^verbatim>\<open>sys_user_wait\<close> of \<^verbatim>\<open>kernel/syscall.c\<close>, \<^verbatim>\<open>rrsched\<close> of \<^verbatim>\<open>kernel/strap.c\<close>).

  A pointer to a process is the index of its slot in \<^verbatim>\<open>procs\<close>; the ready queue and the wait queue
  of a semaphore are linked through the field \<^verbatim>\<open>queue_next\<close>.  \<open>qchain\<close> reads such a list off the
  table, and the operations are shown to act on it as a first-in first-out queue.  \<^verbatim>\<open>schedule\<close>
  never returns: it ends in user mode (\<open>Run\<close>), in a shutdown or waiting for an interrupt (\<open>Wfi\<close>).
\<close>

section \<open>State\<close>

datatype proc_status = FREE | READY | RUNNING | BLOCKED | ZOMBIE

record process =
  kstack :: u64
  pagetable :: u64
  trapframe :: u64
  stack_size :: u64
  malloc_list :: u64
  malloc_free_list :: u64
  mapped_info :: u64
  total_mapped_region :: nat
  heap_top :: u64
  heap_bottom :: u64
  free_pages_address :: "nat \<Rightarrow> u64"
  free_pages_count :: u32
  pid :: u64
  status :: proc_status
  parent :: "nat option"
  queue_next :: "nat option"
  tick_count :: int
  pfiles :: u64

record semaphore =
  ifuse :: bool
  sem_value :: i32
  wait_queue :: "nat option"

text \<open>The control registers of a hart that the kernel reads and writes, and the two arguments of
  the last call of \<^verbatim>\<open>return_to_user\<close>.\<close>

record csr_file =
  satp :: u64
  sstatus :: u64
  sepc :: u64
  scause :: u64
  stval :: u64
  stvec :: u64
  sip :: u64
  ret_trapframe :: u64
  ret_satp :: u64

text \<open>Addresses that the linker decides.\<close>

record link_symbols =
  smode_trap_vector :: u64
  smode_trap_handler_addr :: u64
  trap_sec_start :: u64

record kernel_state = vm_state +
  procs :: "nat \<Rightarrow> process"
  current :: "nat \<Rightarrow> nat option"
  ready_queue_head :: "nat option"
  rq_lock :: u64
  rq_lock_inited :: bool
  sem_table :: "nat \<Rightarrow> semaphore"
  proc_alloc_lock :: u64
  csr :: "nat \<Rightarrow> csr_file"
  syms :: link_symbols
  g_ticks :: "nat \<Rightarrow> u64"

definition NPROC :: nat where
  "NPROC = 32"

definition NSEM :: nat where
  "NSEM = 32"

definition TIME_SLICE_LEN :: int where
  "TIME_SLICE_LEN = 2"

definition upd_proc :: "nat \<Rightarrow> (process \<Rightarrow> process) \<Rightarrow> ('z kernel_state_scheme, unit) km" where
  "upd_proc p f = kput (\<lambda>s. s\<lparr>procs := (procs s)(p := f (procs s p))\<rparr>)"

definition upd_csr :: "nat \<Rightarrow> (csr_file \<Rightarrow> csr_file) \<Rightarrow> ('z kernel_state_scheme, unit) km" where
  "upd_csr tp f = kput (\<lambda>s. s\<lparr>csr := (csr s)(tp := f (csr s tp))\<rparr>)"

definition upd_sem :: "nat \<Rightarrow> (semaphore \<Rightarrow> semaphore) \<Rightarrow> ('z kernel_state_scheme, unit) km" where
  "upd_sem i f = kput (\<lambda>s. s\<lparr>sem_table := (sem_table s)(i := f (sem_table s i))\<rparr>)"

text \<open>\<^verbatim>\<open>current[tp]->\<close>: the running process of hart \<open>tp\<close>; there must be one.\<close>

definition cur :: "nat \<Rightarrow> ('z kernel_state_scheme, nat) km" where
  "cur tp = kbind (kget (\<lambda>s. current s tp)) (\<lambda>c.
     case c of None \<Rightarrow> kraise (Fault ''current is NULL'') | Some p \<Rightarrow> kreturn p)"

section \<open>Entering user mode\<close>

text \<open>Doublewords of the trapframe page: registers x1 to x31 first.\<close>

definition TF_ra :: "9 word" where "TF_ra = 0"
definition TF_sp :: "9 word" where "TF_sp = 1"
definition TF_tp :: "9 word" where "TF_tp = 3"
definition TF_s0 :: "9 word" where "TF_s0 = 7"
definition TF_a :: "nat \<Rightarrow> 9 word" where "TF_a n = 9 + of_nat n"
definition TF_kernel_sp :: "9 word" where "TF_kernel_sp = 31"
definition TF_kernel_trap :: "9 word" where "TF_kernel_trap = 32"
definition TF_epc :: "9 word" where "TF_epc = 33"
definition TF_kernel_satp :: "9 word" where "TF_kernel_satp = 34"

definition SSTATUS_SPP :: u64 where
  "SSTATUS_SPP = push_bit 8 1"

definition SSTATUS_SPIE :: u64 where
  "SSTATUS_SPIE = push_bit 5 1"

definition MAKE_SATP :: "u64 \<Rightarrow> u64" where
  "MAKE_SATP pt = push_bit 60 8 OR drop_bit 12 pt"

definition switch_to :: "nat \<Rightarrow> nat \<Rightarrow> ('z kernel_state_scheme, 'r) km" where
  "switch_to tp p =
     kthen (kput (\<lambda>s. s\<lparr>current := (current s)(tp := Some p)\<rparr>))
     (kbind (kget (\<lambda>s. (procs s p, csr s tp, syms s))) (\<lambda>(pr, cs, sy).
       let tf = trapframe pr in
       kthen (upd_csr tp (\<lambda>c. c\<lparr>stvec := smode_trap_vector sy\<rparr>))
       (kthen (kput (set_dword tf TF_kernel_sp (kstack pr)))
       (kthen (kput (set_dword tf TF_kernel_satp (satp cs)))
       (kthen (kput (set_dword tf TF_kernel_trap (smode_trap_handler_addr sy)))
       (kthen (kput (set_dword tf TF_tp (of_nat tp)))
       (let x = (sstatus cs AND NOT SSTATUS_SPP) OR SSTATUS_SPIE in
        kthen (upd_csr tp (\<lambda>c. c\<lparr>sstatus := x\<rparr>))
        (kbind (kget (\<lambda>s. pmem s tf TF_epc)) (\<lambda>epc.
          kthen (upd_csr tp (\<lambda>c. c\<lparr>sepc := epc\<rparr>))
          (kthen (upd_csr tp (\<lambda>c. c\<lparr>ret_trapframe := tf, ret_satp := MAKE_SATP (pagetable pr)\<rparr>))
            (kraise (Run p))))))))))))"

section \<open>The ready queue\<close>

definition rq_acquire :: "('z kernel_state_scheme, unit) km" where
  "rq_acquire = spinlock_amo_lock rq_lock rq_lock_update"

definition rq_release :: "('z kernel_state_scheme, unit) km" where
  "rq_release = spinlock_amo_unlock rq_lock rq_lock_update"

definition rq_init_once :: "('z kernel_state_scheme, unit) km" where
  "rq_init_once = kbind (kget rq_lock_inited) (\<lambda>b.
     kwhen (\<not> b) (kthen (spinlock_amo_init rq_lock_update) (kput (\<lambda>s. s\<lparr>rq_lock_inited := True\<rparr>))))"

definition all_process_done :: "('z kernel_state_scheme, bool) km" where
  "all_process_done = kget (\<lambda>s.
     list_all (\<lambda>i. \<not> (status (procs s i) \<noteq> FREE \<and> status (procs s i) \<noteq> ZOMBIE)) [0..<NPROC])"

text \<open>
  The search of \<^verbatim>\<open>insert_to_ready_queue\<close> from \<open>p\<close> for the tail: \<open>None\<close> when \<open>proc\<close> is met on the way.
  A chain of more than \<open>NPROC\<close> processes is a cycle, on which the source loops forever.
\<close>

primrec rq_scan :: "nat \<Rightarrow> nat \<Rightarrow> nat \<Rightarrow> ('z kernel_state_scheme, nat option) km" where
  "rq_scan 0 p proc = kraise Diverge"
| "rq_scan (Suc n) p proc = kbind (kget (\<lambda>s. queue_next (procs s p))) (\<lambda>nx.
     case nx of
       Some q \<Rightarrow> if p = proc then kreturn None else rq_scan n q proc
     | None \<Rightarrow> kreturn (if p = proc then None else Some p))"

definition insert_to_ready_queue :: "nat \<Rightarrow> ('z kernel_state_scheme, unit) km" where
  "insert_to_ready_queue proc =
     kthen rq_init_once (kthen rq_acquire
       (kbind (kget (\<lambda>s. status (procs s proc))) (\<lambda>st.
         if st = ZOMBIE \<or> st = FREE then rq_release
         else kbind (kget ready_queue_head) (\<lambda>head.
           case head of
             None \<Rightarrow>
               kthen (upd_proc proc (\<lambda>p. p\<lparr>status := READY\<rparr>))
               (kthen (upd_proc proc (\<lambda>p. p\<lparr>queue_next := None\<rparr>))
               (kthen (kput (\<lambda>s. s\<lparr>ready_queue_head := Some proc\<rparr>)) rq_release))
           | Some h \<Rightarrow> kbind (rq_scan NPROC h proc) (\<lambda>tail.
               case tail of
                 None \<Rightarrow> rq_release
               | Some p \<Rightarrow>
                   kthen (upd_proc p (\<lambda>q. q\<lparr>queue_next := Some proc\<rparr>))
                   (kthen (upd_proc proc (\<lambda>q. q\<lparr>status := READY\<rparr>))
                   (kthen (upd_proc proc (\<lambda>q. q\<lparr>queue_next := None\<rparr>)) rq_release)))))))"

definition schedule :: "nat \<Rightarrow> ('z kernel_state_scheme, 'r) km" where
  "schedule tp =
     kthen rq_init_once (kthen rq_acquire
       (kbind (kget ready_queue_head) (\<lambda>head.
         case head of
           Some p \<Rightarrow>
             kthen (kput (\<lambda>s. s\<lparr>current := (current s)(tp := Some p)\<rparr>))
             (kthen (kput (\<lambda>s. s\<lparr>ready_queue_head := queue_next (procs s p)\<rparr>))
             (kthen (upd_proc p (\<lambda>q. q\<lparr>queue_next := None\<rparr>))
             (kthen (upd_proc p (\<lambda>q. q\<lparr>status := RUNNING\<rparr>))
             (kthen rq_release (switch_to tp p)))))
         | None \<Rightarrow>
             kthen rq_release
             (kbind all_process_done (\<lambda>done.
               if done then (if tp = 0 then kraise (Shutdown 0) else kraise Wfi)
               else kraise Wfi)))))"

definition free_process :: "nat \<Rightarrow> ('z kernel_state_scheme, int) km" where
  "free_process p = kthen (upd_proc p (\<lambda>q. q\<lparr>status := ZOMBIE\<rparr>)) (kreturn 0)"

text \<open>Waking the parent of a process that ends, common to exit and kill.\<close>

definition wake_parent :: "nat option \<Rightarrow> ('z kernel_state_scheme, unit) km" where
  "wake_parent par = (case par of
       None \<Rightarrow> kreturn ()
     | Some q \<Rightarrow> kbind (kget (\<lambda>s. status (procs s q))) (\<lambda>st.
         kwhen (st = BLOCKED)
           (kthen (upd_proc q (\<lambda>r. r\<lparr>status := READY\<rparr>)) (insert_to_ready_queue q))))"

definition kill_current_process :: "nat \<Rightarrow> ('z kernel_state_scheme, 'r) km" where
  "kill_current_process tp =
     kbind (cur tp) (\<lambda>self.
     kbind (kget (\<lambda>s. parent (procs s self))) (\<lambda>par.
     kbind (free_process self) (\<lambda>_.
     kthen (wake_parent par) (schedule tp))))"

text \<open>
  An operation run by hart \<open>tp\<close>: a \<open>Kill\<close> raised anywhere below is the call of
  \<^verbatim>\<open>kill_current_process\<close>, which does not come back.
\<close>

definition run_on :: "nat \<Rightarrow> ('z kernel_state_scheme, 'a) km \<Rightarrow> ('z kernel_state_scheme, 'a) km" where
  "run_on tp m = (\<lambda>s. case m s of
       (Inl (Kill reason code), t) \<Rightarrow> kill_current_process tp t
     | r \<Rightarrow> r)"

section \<open>System calls and interrupts that schedule\<close>

definition sys_user_exit :: "nat \<Rightarrow> u64 \<Rightarrow> ('z kernel_state_scheme, u64) km" where
  "sys_user_exit tp code =
     kbind (cur tp) (\<lambda>self.
     kbind (kget (\<lambda>s. parent (procs s self))) (\<lambda>par.
     kbind (free_process self) (\<lambda>_.
     kthen (wake_parent par)
     (kthen (schedule tp) (kreturn 0)))))"

definition sys_user_yield :: "nat \<Rightarrow> ('z kernel_state_scheme, u64) km" where
  "sys_user_yield tp =
     kbind (cur tp) (\<lambda>p.
     kthen (upd_proc p (\<lambda>q. q\<lparr>status := READY\<rparr>))
     (kthen (insert_to_ready_queue p)
     (kthen (schedule tp) (kreturn 0))))"

definition rrsched :: "nat \<Rightarrow> ('z kernel_state_scheme, unit) km" where
  "rrsched tp =
     kbind (cur tp) (\<lambda>p.
     kthen (upd_proc p (\<lambda>q. q\<lparr>tick_count := tick_count q + 1\<rparr>))
     (kbind (kget (\<lambda>s. tick_count (procs s p))) (\<lambda>n.
       kwhen (TIME_SLICE_LEN \<le> n)
         (kthen (upd_proc p (\<lambda>q. q\<lparr>tick_count := 0\<rparr>))
         (kthen (upd_proc p (\<lambda>q. q\<lparr>status := READY\<rparr>))
         (kthen (insert_to_ready_queue p) (schedule tp)))))))"

text \<open>The first zombie child of the current process, in the order of the table.\<close>

definition zombie_child :: "nat \<Rightarrow> 'z kernel_state_scheme \<Rightarrow> nat option" where
  "zombie_child tp s =
     find (\<lambda>i. parent (procs s i) = current s tp \<and> status (procs s i) = ZOMBIE) [0..<NPROC]"

definition block_current :: "nat \<Rightarrow> ('z kernel_state_scheme, unit) km" where
  "block_current tp = kbind (cur tp) (\<lambda>p.
     kthen (upd_proc p (\<lambda>q. q\<lparr>status := BLOCKED\<rparr>)) (schedule tp))"

primrec wait_any :: "nat \<Rightarrow> nat \<Rightarrow> ('z kernel_state_scheme, int) km" where
  "wait_any 0 tp = kraise Diverge"
| "wait_any (Suc n) tp = kbind (kget (zombie_child tp)) (\<lambda>z.
     case z of
       Some i \<Rightarrow> kbind (kget (\<lambda>s. sint (ucast (pid (procs s i)) :: i32))) (\<lambda>r.
         kbind (free_process i) (\<lambda>_. kreturn r))
     | None \<Rightarrow> kthen (block_current tp) (wait_any n tp))"

primrec wait_for :: "nat \<Rightarrow> nat \<Rightarrow> nat \<Rightarrow> ('z kernel_state_scheme, int) km" where
  "wait_for 0 tp p = kraise Diverge"
| "wait_for (Suc n) tp p = kbind (kget (\<lambda>s. status (procs s p))) (\<lambda>st.
     if st \<noteq> ZOMBIE
     then kthen (block_current tp)
       (kbind (kget (\<lambda>s. parent (procs s p) \<noteq> current s tp \<or> status (procs s p) = FREE)) (\<lambda>gone.
         if gone then kreturn (-1) else wait_for n tp p))
     else kbind (free_process p) (\<lambda>_. kreturn (int p)))"

text \<open>
  Both loops of \<^verbatim>\<open>sys_user_wait\<close> stop in their first round, in a return or in \<^verbatim>\<open>schedule\<close>, so one
  round is enough.
\<close>

definition sys_user_wait :: "nat \<Rightarrow> int \<Rightarrow> ('z kernel_state_scheme, int) km" where
  "sys_user_wait tp p =
     (if p = -1 then wait_any 1 tp
      else kbind (kget (\<lambda>s. p < 0 \<or> int NPROC \<le> p \<or> parent (procs s (nat p)) \<noteq> current s tp)) (\<lambda>bad.
        if bad then kreturn (-1) else wait_for 1 tp (nat p)))"

section \<open>Semaphores\<close>

definition do_semNew :: "u64 \<Rightarrow> ('z kernel_state_scheme, int) km" where
  "do_semNew init_val = kbind (kget (\<lambda>s. find (\<lambda>i. \<not> ifuse (sem_table s i)) [0..<NSEM])) (\<lambda>r.
     case r of
       Some i \<Rightarrow>
         kthen (upd_sem i (\<lambda>_. \<lparr>ifuse = True, sem_value = ucast init_val, wait_queue = None\<rparr>))
           (kreturn (int i))
     | None \<Rightarrow> kreturn (-1))"

primrec queue_tail :: "nat \<Rightarrow> nat \<Rightarrow> ('z kernel_state_scheme, nat) km" where
  "queue_tail 0 p = kraise Diverge"
| "queue_tail (Suc n) p = kbind (kget (\<lambda>s. queue_next (procs s p))) (\<lambda>nx.
     case nx of Some q \<Rightarrow> queue_tail n q | None \<Rightarrow> kreturn p)"

definition do_semP :: "nat \<Rightarrow> u64 \<Rightarrow> ('z kernel_state_scheme, unit) km" where
  "do_semP tp sid =
     kbind (kget (\<lambda>s. NSEM \<le> unat sid \<or> \<not> ifuse (sem_table s (unat sid)))) (\<lambda>bad.
     if bad then kraise (Kill ''do_semP: invalid sid'' (-1))
     else let i = unat sid in
       kbind (kget (\<lambda>s. sem_value (sem_table s i))) (\<lambda>v.
       if 0 < sint v then upd_sem i (\<lambda>m. m\<lparr>sem_value := v - 1\<rparr>)
       else
         kbind (cur tp) (\<lambda>me.
         kthen (upd_proc me (\<lambda>q. q\<lparr>queue_next := None\<rparr>))
         (kthen
           (kbind (kget (\<lambda>s. wait_queue (sem_table s i))) (\<lambda>w.
              case w of
                None \<Rightarrow> upd_sem i (\<lambda>m. m\<lparr>wait_queue := Some me\<rparr>)
              | Some h \<Rightarrow> kbind (queue_tail NPROC h) (\<lambda>p.
                  upd_proc p (\<lambda>q. q\<lparr>queue_next := Some me\<rparr>))))
         (kthen (upd_proc me (\<lambda>q. q\<lparr>status := BLOCKED\<rparr>)) (schedule tp))))))"

definition do_semV :: "u64 \<Rightarrow> ('z kernel_state_scheme, unit) km" where
  "do_semV sid =
     kbind (kget (\<lambda>s. NSEM \<le> unat sid \<or> \<not> ifuse (sem_table s (unat sid)))) (\<lambda>bad.
     if bad then kraise (Kill ''do_semV: invalid sid'' (-1))
     else let i = unat sid in
       kbind (kget (\<lambda>s. sem_value (sem_table s i))) (\<lambda>v.
       if sint v = 2 ^ 31 - 1 then kraise (Fault ''signed overflow'')
       else kthen (upd_sem i (\<lambda>m. m\<lparr>sem_value := v + 1\<rparr>))
       (kbind (kget (\<lambda>s. wait_queue (sem_table s i))) (\<lambda>w.
         case w of
           None \<Rightarrow> kreturn ()
         | Some p \<Rightarrow>
             kbind (kget (\<lambda>s. queue_next (procs s p))) (\<lambda>nx.
             kthen (upd_sem i (\<lambda>m. m\<lparr>wait_queue := nx\<rparr>))
             (kthen (upd_proc p (\<lambda>q. q\<lparr>queue_next := None\<rparr>))
             (kthen (upd_sem i (\<lambda>m. m\<lparr>sem_value := sem_value m - 1\<rparr>))
               (insert_to_ready_queue p))))))))"

section \<open>Queues linked through the process table\<close>

primrec qchain :: "(nat \<Rightarrow> nat option) \<Rightarrow> nat option \<Rightarrow> nat list \<Rightarrow> bool" where
  "qchain nx p [] \<longleftrightarrow> p = None"
| "qchain nx p (a # as) \<longleftrightarrow> p = Some a \<and> qchain nx (nx a) as"

abbreviation nexts :: "'z kernel_state_scheme \<Rightarrow> nat \<Rightarrow> nat option" where
  "nexts s \<equiv> \<lambda>p. queue_next (procs s p)"

lemma qchain_cong: "(\<And>a. a \<in> set xs \<Longrightarrow> nx' a = nx a) \<Longrightarrow> qchain nx' p xs = qchain nx p xs"
  by (induction xs arbitrary: p) auto

lemma qchain_unique: "qchain nx p xs \<Longrightarrow> qchain nx p ys \<Longrightarrow> xs = ys"
  by (induction xs arbitrary: p ys) (case_tac ys; auto)+

lemma qchain_snoc:
  assumes "qchain nx p xs" "xs \<noteq> []" "distinct xs" "y \<notin> set xs"
  shows "qchain (nx(last xs := Some y, y := None)) p (xs @ [y])"
  using assms
proof (induction xs arbitrary: p)
  case (Cons a as)
  show ?case
  proof (cases "as = []")
    case False
    then have ih: "qchain (nx(last as := Some y, y := None)) (nx a) (as @ [y])"
      by (intro Cons.IH) (use Cons.prems in auto)
    have a: "a \<noteq> last as" "a \<noteq> y" using Cons.prems last_in_set [OF False] by auto
    have "(nx(last as := Some y, y := None)) a = nx a" "last (a # as) = last as" "p = Some a"
      using a False Cons.prems(1) by simp_all
    then show ?thesis by (simp only: append_Cons qchain.simps ih)
  qed (use Cons.prems in auto)
qed simp

lemma queue_length: "distinct q \<Longrightarrow> set q \<subseteq> {..<NPROC} \<Longrightarrow> length q \<le> NPROC"
  by (metis card_lessThan card_mono distinct_card finite_lessThan)

lemma rq_scan_eq:
  assumes "qchain (nexts s) (Some p) xs" "length xs \<le> n"
  shows "rq_scan n p proc s = (Inr (if proc \<in> set xs then None else Some (last xs)), s)"
  using assms
proof (induction n arbitrary: p xs)
  case 0
  then show ?case by (cases xs) auto
next
  case (Suc n)
  then obtain as where xs: "xs = p # as" and as: "qchain (nexts s) (nexts s p) as" by (cases xs) auto
  show ?case
  proof (cases "nexts s p")
    case None
    then have "as = []" using as by (cases as) auto
    then show ?thesis using None xs by (simp add: kbind_def kget_def kreturn_def)
  next
    case (Some q)
    then have "as \<noteq> []" using as by (cases as) auto
    then show ?thesis
      using Some xs as Suc.IH [of q as] Suc.prems(2) by (auto simp: kbind_def kget_def kreturn_def)
  qed
qed

lemma queue_tail_eq:
  assumes "qchain (nexts s) (Some p) xs" "length xs \<le> n"
  shows "queue_tail n p s = (Inr (last xs), s)"
  using assms
proof (induction n arbitrary: p xs)
  case 0
  then show ?case by (cases xs) auto
next
  case (Suc n)
  then obtain as where xs: "xs = p # as" and as: "qchain (nexts s) (nexts s p) as" by (cases xs) auto
  show ?case
  proof (cases "nexts s p")
    case None
    then have "as = []" using as by (cases as) auto
    then show ?thesis using None xs by (simp add: kbind_def kget_def kreturn_def)
  next
    case (Some q)
    then have "as \<noteq> []" using as by (cases as) auto
    then show ?thesis
      using Some xs as Suc.IH [of q as] Suc.prems(2) by (auto simp: kbind_def kget_def kreturn_def)
  qed
qed

text \<open>\<open>rq_inv s q\<close>: the ready queue is \<open>q\<close>, without repetitions, of ready processes, and its lock is free.\<close>

definition rq_inv :: "'z kernel_state_scheme \<Rightarrow> nat list \<Rightarrow> bool" where
  "rq_inv s q \<longleftrightarrow> qchain (nexts s) (ready_queue_head s) q \<and> distinct q \<and> set q \<subseteq> {..<NPROC} \<and>
     (\<forall>p\<in>set q. status (procs s p) = READY) \<and> rq_lock s = SPIN_LOCK_FREE"

lemma rq_invD:
  assumes "rq_inv s q"
  shows "qchain (nexts s) (ready_queue_head s) q" "distinct q" "set q \<subseteq> {..<NPROC}"
    "p \<in> set q \<Longrightarrow> status (procs s p) = READY" "rq_lock s = SPIN_LOCK_FREE"
  using assms by (auto simp: rq_inv_def)

lemmas sched_op_defs = rq_init_once_def rq_acquire_def rq_release_def upd_proc_def

text \<open>The state after a process went to the rear of the queue \<open>q\<close>.\<close>

definition enqueued :: "nat \<Rightarrow> nat list \<Rightarrow> 'z kernel_state_scheme \<Rightarrow> 'z kernel_state_scheme" where
  "enqueued p q s =
     (let ps = (if q = [] then procs s else (procs s)(last q := (procs s (last q))\<lparr>queue_next := Some p\<rparr>))
      in s\<lparr>rq_lock_inited := True, rq_lock := SPIN_LOCK_FREE,
           procs := ps(p := (ps p)\<lparr>status := READY, queue_next := None\<rparr>),
           ready_queue_head := (if q = [] then Some p else ready_queue_head s)\<rparr>)"

lemma rq_enter:
  assumes "rq_lock s = SPIN_LOCK_FREE"
  shows "kthen rq_init_once (kthen rq_acquire m) s = m (s\<lparr>rq_lock_inited := True, rq_lock := SPIN_LOCK_HELD\<rparr>)"
proof (cases "rq_lock_inited s")
  case True
  then have "s\<lparr>rq_lock_inited := True\<rparr> = s" by (cases s) simp
  moreover have "kthen rq_init_once (kthen rq_acquire m) s = m (s\<lparr>rq_lock := SPIN_LOCK_HELD\<rparr>)"
    using assms True by (simp add: sched_op_defs spinlock_amo_lock_def amoswap_d_def kthen_def kbind_def
        kget_def kput_def kwhen_def kreturn_def)
  ultimately show ?thesis by metis
qed (simp add: sched_op_defs spinlock_amo_lock_def amoswap_d_def spinlock_amo_init_def kthen_def
    kbind_def kget_def kput_def kwhen_def kreturn_def)

lemmas krun_defs = kthen_def kbind_def kget_def kput_def kwhen_def kreturn_def kraise_def

lemma insert_to_ready_queue_eq:
  fixes s :: "'z kernel_state_scheme"
  assumes inv: "rq_inv s q" and st: "status (procs s p) \<noteq> ZOMBIE" "status (procs s p) \<noteq> FREE"
    and new: "p \<notin> set q"
  shows "insert_to_ready_queue p s = (Inr (), enqueued p q s)"
proof (cases q)
  case Nil
  then have "ready_queue_head s = None" using rq_invD(1) [OF inv] by simp
  then show ?thesis
    using rq_invD(5) [OF inv] st Nil unfolding insert_to_ready_queue_def
    by (subst rq_enter) (simp_all add: upd_proc_def rq_release_def spinlock_amo_unlock_def amoswap_d_def
        krun_defs enqueued_def Let_def)
next
  case (Cons h as)
  let ?t = "s\<lparr>rq_lock_inited := True, rq_lock := SPIN_LOCK_HELD\<rparr>"
  have h: "ready_queue_head s = Some h" using rq_invD(1) [OF inv] Cons by simp
  have "qchain (nexts ?t) (Some h) q" using rq_invD(1) [OF inv] h by simp
  then have scan: "rq_scan NPROC h p ?t = (Inr (Some (last q)), ?t)"
    using rq_scan_eq [of ?t h q NPROC p] queue_length [OF rq_invD(2,3) [OF inv]] new by simp
  have "last q \<noteq> p" using new Cons by (metis last_in_set list.discI)
  then show ?thesis
    using rq_invD(5) [OF inv] st Cons h scan unfolding insert_to_ready_queue_def
    by (subst rq_enter) (simp_all add: upd_proc_def rq_release_def spinlock_amo_unlock_def amoswap_d_def
        krun_defs enqueued_def Let_def)
qed

lemma enqueued_inv:
  assumes inv: "rq_inv s q" and p: "p \<notin> set q" "p < NPROC"
  shows "rq_inv (enqueued p q s) (q @ [p])"
proof (cases "q = []")
  case True
  then show ?thesis using p by (simp add: rq_inv_def enqueued_def Let_def)
next
  case False
  have l: "last q \<in> set q" "last q \<noteq> p" using False p last_in_set by metis+
  have "nexts (enqueued p q s) = (nexts s)(last q := Some p, p := None)"
    using False l by (auto simp: enqueued_def Let_def)
  then have "qchain (nexts (enqueued p q s)) (ready_queue_head s) (q @ [p])"
    using qchain_snoc [OF rq_invD(1) [OF inv] False rq_invD(2) [OF inv] p(1)] by simp
  moreover have "status (procs (enqueued p q s) r) = READY" if "r \<in> set (q @ [p])" for r
    using that False rq_invD(4) [OF inv] l by (auto simp: enqueued_def Let_def)
  moreover have "ready_queue_head (enqueued p q s) = ready_queue_head s" "rq_lock (enqueued p q s) = SPIN_LOCK_FREE"
    using False by (simp_all add: enqueued_def Let_def)
  ultimately show ?thesis using inv p unfolding rq_inv_def by auto
qed

lemma insert_present_eq:
  fixes s :: "'z kernel_state_scheme"
  assumes inv: "rq_inv s q" and p: "p \<in> set q"
  shows "insert_to_ready_queue p s = (Inr (), s\<lparr>rq_lock_inited := True\<rparr>)"
proof -
  obtain h where h: "ready_queue_head s = Some h" using rq_invD(1) [OF inv] p by (cases q) auto
  let ?t = "s\<lparr>rq_lock_inited := True, rq_lock := SPIN_LOCK_HELD\<rparr>"
  have "qchain (nexts ?t) (Some h) q" using rq_invD(1) [OF inv] h by simp
  then have scan: "rq_scan NPROC h p ?t = (Inr None, ?t)"
    using rq_scan_eq [of ?t h q NPROC p] queue_length [OF rq_invD(2,3) [OF inv]] p by simp
  have "s\<lparr>rq_lock_inited := True, rq_lock := SPIN_LOCK_FREE\<rparr> = s\<lparr>rq_lock_inited := True\<rparr>"
    using rq_invD(5) [OF inv] by (cases s) simp
  then show ?thesis
    using rq_invD(4) [OF inv p] h scan unfolding insert_to_ready_queue_def
    by (subst rq_enter [OF rq_invD(5) [OF inv]])
      (simp add: rq_release_def spinlock_amo_unlock_def amoswap_d_def krun_defs)
qed

lemma insert_dead_eq:
  assumes "rq_lock s = SPIN_LOCK_FREE" and p: "status (procs s p) = ZOMBIE \<or> status (procs s p) = FREE"
  shows "insert_to_ready_queue p s = (Inr (), s\<lparr>rq_lock_inited := True\<rparr>)"
proof -
  have "s\<lparr>rq_lock_inited := True, rq_lock := SPIN_LOCK_FREE\<rparr> = s\<lparr>rq_lock_inited := True\<rparr>"
    using assms(1) by (cases s) simp
  then show ?thesis
    using p unfolding insert_to_ready_queue_def
    by (subst rq_enter [OF assms(1)])
      (auto simp: rq_release_def spinlock_amo_unlock_def amoswap_d_def krun_defs)
qed

lemma rq_inv_inited [simp]: "rq_inv (s\<lparr>rq_lock_inited := b\<rparr>) q = rq_inv s q"
  by (simp add: rq_inv_def)

text \<open>How a hart leaves for user mode as process \<open>p\<close>.\<close>

definition launched :: "nat \<Rightarrow> nat \<Rightarrow> 'z kernel_state_scheme \<Rightarrow> 'z kernel_state_scheme \<Rightarrow> bool" where
  "launched tp p s t \<longleftrightarrow>
     procs t = procs s \<and> current t = (current s)(tp := Some p) \<and> ready_queue_head t = ready_queue_head s \<and>
     rq_lock t = rq_lock s \<and> sem_table t = sem_table s \<and>
     (let tf = trapframe (procs s p); c = csr t tp in
        pmem t tf TF_kernel_sp = kstack (procs s p) \<and> pmem t tf TF_kernel_satp = satp (csr s tp) \<and>
        pmem t tf TF_kernel_trap = smode_trap_handler_addr (syms s) \<and> pmem t tf TF_tp = of_nat tp \<and>
        (\<forall>q i. (q, i) \<notin> {tf} \<times> {TF_kernel_sp, TF_kernel_satp, TF_kernel_trap, TF_tp} \<longrightarrow> pmem t q i = pmem s q i) \<and>
        sepc c = pmem s tf TF_epc \<and> stvec c = smode_trap_vector (syms s) \<and>
        sstatus c AND SSTATUS_SPP = 0 \<and> sstatus c AND SSTATUS_SPIE \<noteq> 0 \<and>
        ret_trapframe c = tf \<and> ret_satp c = MAKE_SATP (pagetable (procs s p)))"

lemmas TF_defs = TF_ra_def TF_sp_def TF_tp_def TF_s0_def TF_a_def TF_kernel_sp_def TF_kernel_trap_def
  TF_epc_def TF_kernel_satp_def

lemma switch_to_eq: "\<exists>t. switch_to tp p s = (Inl (Run p), t) \<and> launched tp p s t"
  by (simp add: switch_to_def launched_def krun_defs upd_csr_def Let_def set_dword_def TF_defs
      SSTATUS_SPP_def SSTATUS_SPIE_def bit.conj_disj_distrib2 and.assoc)

lemma switch_to_kwp: "kwp (switch_to tp p) Q (\<lambda>e t. e = Run p \<and> launched tp p s t) s"
proof -
  obtain t where "switch_to tp p s = (Inl (Run p) :: kstop + 'b, t)" "launched tp p s t"
    using switch_to_eq by blast
  then show ?thesis by (simp add: kwp_def)
qed

definition dequeued :: "nat \<Rightarrow> nat \<Rightarrow> 'z kernel_state_scheme \<Rightarrow> 'z kernel_state_scheme" where
  "dequeued tp p s = s\<lparr>rq_lock_inited := True, current := (current s)(tp := Some p),
     ready_queue_head := queue_next (procs s p),
     procs := (procs s)(p := (procs s p)\<lparr>queue_next := None, status := RUNNING\<rparr>),
     rq_lock := SPIN_LOCK_FREE\<rparr>"

lemma dequeued_inv:
  assumes "rq_inv s (p # q)"
  shows "rq_inv (dequeued tp p s) q"
proof -
  have "qchain (nexts (dequeued tp p s)) (queue_next (procs s p)) q = qchain (nexts s) (queue_next (procs s p)) q"
    using assms by (intro qchain_cong) (auto simp: dequeued_def rq_inv_def)
  then show ?thesis using assms by (auto simp: rq_inv_def dequeued_def)
qed

lemma schedule_head:
  assumes "rq_inv s (p # q)"
  shows "\<exists>t. schedule tp s = (Inl (Run p), t) \<and> launched tp p (dequeued tp p s) t"
proof -
  have "ready_queue_head s = Some p" using rq_invD(1) [OF assms] by simp
  then have "schedule tp s = (switch_to tp p (dequeued tp p s) :: (kstop + 'r) \<times> _)"
    unfolding schedule_def
    by (subst rq_enter [OF rq_invD(5) [OF assms]])
      (simp add: krun_defs upd_proc_def rq_release_def spinlock_amo_unlock_def amoswap_d_def dequeued_def)
  then show ?thesis using switch_to_eq by metis
qed

lemma schedule_empty:
  assumes "rq_inv s []"
  shows "schedule tp s =
    (Inl (if tp = 0 \<and> (\<forall>i<NPROC. status (procs s i) \<in> {FREE, ZOMBIE}) then Shutdown 0 else Wfi),
     s\<lparr>rq_lock_inited := True\<rparr>)"
proof -
  have h: "ready_queue_head s = None" using rq_invD(1) [OF assms] by simp
  have "s\<lparr>rq_lock_inited := True, rq_lock := SPIN_LOCK_FREE\<rparr> = s\<lparr>rq_lock_inited := True\<rparr>"
    using rq_invD(5) [OF assms] by (cases s) simp
  moreover have "list_all (\<lambda>i. \<not> (status (procs s i) \<noteq> FREE \<and> status (procs s i) \<noteq> ZOMBIE)) [0..<NPROC] \<longleftrightarrow>
      (\<forall>i<NPROC. status (procs s i) \<in> {FREE, ZOMBIE})"
    by (auto simp: list_all_iff)
  ultimately show ?thesis
    using h unfolding schedule_def
    by (subst rq_enter [OF rq_invD(5) [OF assms]])
      (simp add: krun_defs rq_release_def spinlock_amo_unlock_def amoswap_d_def all_process_done_def)
qed

lemma launched_inv: "launched tp p s t \<Longrightarrow> rq_inv t q = rq_inv s q"
  by (simp add: launched_def rq_inv_def)

text \<open>The scheduler never comes back to its caller.\<close>

lemma schedule_stops: "\<exists>e t. schedule tp s = (Inl e, t)"
proof -
  have "kwp (switch_to tp p) (\<lambda>_ _. False) (\<lambda>_ _. True) u" for p and u :: "'a kernel_state_scheme"
    by (rule kwp_mono [OF switch_to_kwp]) auto
  then have "kwp (schedule tp) (\<lambda>_ _. False) (\<lambda>_ _. True) s"
    by (auto simp: schedule_def kwp_simps rq_init_once_def rq_acquire_def rq_release_def upd_proc_def
        all_process_done_def split: option.splits)
  then show ?thesis by (auto simp: kwp_def split: prod.splits sum.splits)
qed

text \<open>Its outcome on the ready queue \<open>q\<close>.\<close>

definition sched_outcome ::
  "nat \<Rightarrow> 'z kernel_state_scheme \<Rightarrow> nat list \<Rightarrow> kstop \<Rightarrow> 'z kernel_state_scheme \<Rightarrow> bool" where
  "sched_outcome tp s q e t \<longleftrightarrow> (case q of
       [] \<Rightarrow> e = (if tp = 0 \<and> (\<forall>i<NPROC. status (procs s i) \<in> {FREE, ZOMBIE}) then Shutdown 0 else Wfi) \<and>
         t = s\<lparr>rq_lock_inited := True\<rparr>
     | p # r \<Rightarrow> e = Run p \<and> launched tp p (dequeued tp p s) t)"

lemma schedule_kwp: "rq_inv s q \<Longrightarrow> kwp (schedule tp) Q (sched_outcome tp s q) s"
proof (cases q)
  case (Cons p r)
  assume "rq_inv s q"
  then obtain t where "schedule tp s = (Inl (Run p) :: kstop + 'b, t)" "launched tp p (dequeued tp p s) t"
    using schedule_head [of s p r tp] Cons by blast
  then show ?thesis using Cons by (simp add: kwp_def sched_outcome_def)
qed (simp add: kwp_def schedule_empty sched_outcome_def)

lemma sched_outcome_inv:
  "rq_inv s q \<Longrightarrow> sched_outcome tp s q e t \<Longrightarrow> rq_inv t (tl q)"
  by (auto simp: sched_outcome_def launched_inv dequeued_inv split: list.splits)

section \<open>The interface of the scheduler\<close>

text \<open>
  What the handlers rely on: a first-in first-out queue of runnable processes.  \<open>inv s q\<close> names the
  queue, \<open>enq\<close> adds at its rear, and \<open>dispatch\<close> leaves the kernel as the process at its front.
\<close>

locale dispatch_queue =
  fixes inv :: "'s \<Rightarrow> nat list \<Rightarrow> bool"
    and runnable :: "'s \<Rightarrow> nat \<Rightarrow> bool"
    and enq :: "nat \<Rightarrow> ('s, unit) km"
    and dispatch :: "('s, unit) km"
  assumes inv_distinct: "inv s q \<Longrightarrow> distinct q"
    and enq_rear: "inv s q \<Longrightarrow> runnable s p \<Longrightarrow> p \<notin> set q \<Longrightarrow>
      \<exists>t. enq p s = (Inr (), t) \<and> inv t (q @ [p]) \<and> runnable t = runnable s"
    and enq_again: "inv s q \<Longrightarrow> p \<in> set q \<Longrightarrow> \<exists>t. enq p s = (Inr (), t) \<and> inv t q \<and> runnable t = runnable s"
    and dispatch_front: "inv s (p # q) \<Longrightarrow> \<exists>t. dispatch s = (Inl (Run p), t) \<and> inv t q"
begin

text \<open>Processes added one after the other queue up in that order.\<close>

lemma enq_all:
  "inv s q \<Longrightarrow> \<forall>p\<in>set ps. runnable s p \<Longrightarrow> distinct (q @ ps) \<Longrightarrow>
     \<exists>t. kfor ps enq s = (Inr (), t) \<and> inv t (q @ ps)"
proof (induction ps arbitrary: s q)
  case (Cons p ps)
  then obtain t where t: "enq p s = (Inr (), t)" "inv t (q @ [p])" "runnable t = runnable s"
    using enq_rear [of s q p] by auto
  then obtain u where "kfor ps enq t = (Inr (), u)" "inv u ((q @ [p]) @ ps)"
    using Cons.IH [of t "q @ [p]"] Cons.prems by auto
  then show ?case using t by (auto simp: kthen_def kbind_def)
qed (auto simp: kreturn_def)

text \<open>Successive dispatches run the queue front to rear: nobody waits for more than its position.\<close>

lemma dispatch_order:
  "inv s (q @ rest) \<Longrightarrow> \<exists>t. krepeat (length q) dispatch s = (map Run q, t) \<and> inv t rest"
proof (induction q arbitrary: s)
  case (Cons p q)
  then obtain t where t: "dispatch s = (Inl (Run p), t)" "inv t (q @ rest)"
    using dispatch_front [of s p "q @ rest"] by auto
  then show ?case using Cons.IH [of t] by auto
qed auto

end

text \<open>The ready queue provides it.\<close>

lemma enqueued_status: "status (procs (enqueued p q s) r) = (if r = p then READY else status (procs s r))"
  by (simp add: enqueued_def Let_def)

interpretation rq: dispatch_queue rq_inv
  "\<lambda>s p. p < NPROC \<and> status (procs s p) \<notin> {ZOMBIE, FREE}" insert_to_ready_queue "schedule tp" for tp
proof
  fix s :: "'a kernel_state_scheme" and q p
  show "distinct q" if "rq_inv s q" using rq_invD(2) [OF that] .
  show "\<exists>t. insert_to_ready_queue p s = (Inr (), t) \<and> rq_inv t (q @ [p]) \<and>
      (\<lambda>p. p < NPROC \<and> status (procs t p) \<notin> {ZOMBIE, FREE}) =
      (\<lambda>p. p < NPROC \<and> status (procs s p) \<notin> {ZOMBIE, FREE})"
    if "rq_inv s q" "p < NPROC \<and> status (procs s p) \<notin> {ZOMBIE, FREE}" "p \<notin> set q"
    using insert_to_ready_queue_eq [OF that(1) _ _ that(3)] enqueued_inv [OF that(1,3)] that(2)
    by (auto simp: enqueued_status fun_eq_iff)
  show "\<exists>t. insert_to_ready_queue p s = (Inr (), t) \<and> rq_inv t q \<and>
      (\<lambda>p. p < NPROC \<and> status (procs t p) \<notin> {ZOMBIE, FREE}) =
      (\<lambda>p. p < NPROC \<and> status (procs s p) \<notin> {ZOMBIE, FREE})"
    if "rq_inv s q" "p \<in> set q"
    using insert_present_eq [OF that] that(1) by auto
  show "\<exists>t. schedule tp s = (Inl (Run p), t) \<and> rq_inv t q" if "rq_inv s (p # q)"
    using schedule_head [OF that, of tp] dequeued_inv [OF that, of tp] launched_inv by blast
qed

section \<open>Semaphores and their waiters\<close>

text \<open>
  \<open>sched_inv s q ws\<close>: the ready queue is \<open>q\<close>, the processes waiting for the semaphore \<open>i\<close> are \<open>ws i\<close>
  in the order of arrival, all of them blocked, and no process waits twice.
\<close>

definition sched_inv :: "'z kernel_state_scheme \<Rightarrow> nat list \<Rightarrow> (nat \<Rightarrow> nat list) \<Rightarrow> bool" where
  "sched_inv s q ws \<longleftrightarrow> rq_inv s q \<and>
     (\<forall>i. ifuse (sem_table s i) \<longrightarrow> qchain (nexts s) (wait_queue (sem_table s i)) (ws i)) \<and>
     (\<forall>i. distinct (ws i) \<and> set (ws i) \<subseteq> {..<NPROC} \<and> (\<forall>p\<in>set (ws i). status (procs s p) = BLOCKED)) \<and>
     (\<forall>i j. i \<noteq> j \<longrightarrow> set (ws i) \<inter> set (ws j) = {})"

lemma sched_invD:
  assumes "sched_inv s q ws"
  shows "rq_inv s q" "ifuse (sem_table s i) \<Longrightarrow> qchain (nexts s) (wait_queue (sem_table s i)) (ws i)"
    "distinct (ws i)" "set (ws i) \<subseteq> {..<NPROC}" "p \<in> set (ws i) \<Longrightarrow> status (procs s p) = BLOCKED"
    "i \<noteq> j \<Longrightarrow> set (ws i) \<inter> set (ws j) = {}"
  using assms by (auto simp: sched_inv_def)

lemma sched_inv_inited [simp]: "sched_inv (s\<lparr>rq_lock_inited := b\<rparr>) q ws = sched_inv s q ws"
  by (simp add: sched_inv_def)

lemma sched_inv_value [simp]:
  "sched_inv (s\<lparr>sem_table := (sem_table s)(i := (sem_table s i)\<lparr>sem_value := v\<rparr>)\<rparr>) q ws = sched_inv s q ws"
proof -
  have "(\<forall>j. ifuse (((sem_table s)(i := (sem_table s i)\<lparr>sem_value := v\<rparr>)) j) \<longrightarrow>
        qchain (nexts s) (wait_queue (((sem_table s)(i := (sem_table s i)\<lparr>sem_value := v\<rparr>)) j)) (ws j)) =
      (\<forall>j. ifuse (sem_table s j) \<longrightarrow> qchain (nexts s) (wait_queue (sem_table s j)) (ws j))"
    by (rule all_cong1) simp
  then show ?thesis by (simp add: sched_inv_def rq_inv_def del: fun_upd_apply)
qed

text \<open>A process that is in no queue may change everything but its place in the queues.\<close>

lemma sched_inv_free_proc:
  assumes "sched_inv s q ws" "p \<notin> set q" "\<And>i. p \<notin> set (ws i)"
  shows "sched_inv (s\<lparr>procs := (procs s)(p := r)\<rparr>) q ws"
proof -
  let ?t = "s\<lparr>procs := (procs s)(p := r)\<rparr>"
  have "qchain (nexts ?t) h xs = qchain (nexts s) h xs" if "p \<notin> set xs" for h xs
    using that by (intro qchain_cong) auto
  then show ?thesis using assms by (auto simp: sched_inv_def rq_inv_def)
qed

text \<open>Moving the first waiter of a semaphore out of its queue, and then to the ready queue.\<close>

lemma sched_inv_unwait:
  assumes inv: "sched_inv s q ws" and use: "ifuse (sem_table s i)" and w: "ws i = p # w"
  shows "sched_inv (s\<lparr>procs := (procs s)(p := (procs s p)\<lparr>queue_next := None\<rparr>),
      sem_table := (sem_table s)(i := (sem_table s i)\<lparr>wait_queue := queue_next (procs s p)\<rparr>)\<rparr>) q (ws(i := w))"
proof -
  let ?t = "s\<lparr>sem_table := (sem_table s)(i := (sem_table s i)\<lparr>wait_queue := queue_next (procs s p)\<rparr>)\<rparr>"
  have "p \<notin> set w" using sched_invD(3) [OF inv, of i] w by simp
  have "set w \<subseteq> set (ws i)" using w by auto
  then have dis: "set ((ws(i := w)) j) \<inter> set ((ws(i := w)) k) = {}" if "j \<noteq> k" for j k
    using sched_invD(6) [OF inv that] w by auto
  have each: "distinct ((ws(i := w)) j) \<and> set ((ws(i := w)) j) \<subseteq> {..<NPROC} \<and>
      (\<forall>p\<in>set ((ws(i := w)) j). status (procs s p) = BLOCKED)" for j
    using sched_invD(3) [OF inv, of j] sched_invD(4) [OF inv, of j] sched_invD(5) [OF inv, of _ j] w
    by (auto split: if_splits)
  have "ifuse (sem_table ?t j) \<longrightarrow> qchain (nexts ?t) (wait_queue (sem_table ?t j)) ((ws(i := w)) j)" for j
    using sched_invD(2) [OF inv, of j] w by auto
  then have "sched_inv ?t q (ws(i := w))"
    using sched_invD(1) [OF inv] dis each unfolding sched_inv_def by (simp add: rq_inv_def del: fun_upd_apply)
  moreover have "p \<notin> set q"
    using rq_invD(4) [OF sched_invD(1) [OF inv], of p] sched_invD(5) [OF inv, of p i] w by auto
  moreover have "p \<notin> set ((ws(i := w)) j)" for j
    using \<open>p \<notin> set w\<close> sched_invD(6) [OF inv, of i j] w by auto
  ultimately have "sched_inv (?t\<lparr>procs := (procs ?t)(p := (procs s p)\<lparr>queue_next := None\<rparr>)\<rparr>) q (ws(i := w))"
    by (rule sched_inv_free_proc)
  moreover have "s\<lparr>procs := (procs s)(p := (procs s p)\<lparr>queue_next := None\<rparr>),
      sem_table := (sem_table s)(i := (sem_table s i)\<lparr>wait_queue := queue_next (procs s p)\<rparr>)\<rparr> =
      ?t\<lparr>procs := (procs ?t)(p := (procs s p)\<lparr>queue_next := None\<rparr>)\<rparr>" by simp
  ultimately show ?thesis by (simp only:)
qed

lemma sched_inv_enqueued:
  assumes inv: "sched_inv s q ws" and p: "p \<notin> set q" "\<And>i. p \<notin> set (ws i)" "p < NPROC"
  shows "sched_inv (enqueued p q s) (q @ [p]) ws"
proof -
  have keep: "queue_next (procs (enqueued p q s) r) = queue_next (procs s r)"
    "status (procs (enqueued p q s) r) = status (procs s r)" if "r \<in> set (ws i)" for r i
  proof -
    have "r \<noteq> p" using that p(2) by auto
    moreover have "r \<notin> set q"
      using rq_invD(4) [OF sched_invD(1) [OF inv], of r] sched_invD(5) [OF inv that] by auto
    then have "q \<noteq> [] \<Longrightarrow> r \<noteq> last q" by auto
    ultimately show "queue_next (procs (enqueued p q s) r) = queue_next (procs s r)"
      "status (procs (enqueued p q s) r) = status (procs s r)"
      by (auto simp: enqueued_def Let_def)
  qed
  have sem: "sem_table (enqueued p q s) = sem_table s" by (simp add: enqueued_def Let_def)
  have "qchain (nexts (enqueued p q s)) h (ws i) = qchain (nexts s) h (ws i)" for h i
    by (rule qchain_cong) (rule keep(1))
  then show ?thesis
    using inv enqueued_inv [OF sched_invD(1) [OF inv] p(1,3)] keep(2) unfolding sched_inv_def sem by auto
qed

text \<open>The value of a semaphore is a C \<open>int\<close>; one more and one less, where that is an \<open>int\<close>.\<close>

lemma sint_i32_add: "sint (v :: i32) \<noteq> 2 ^ 31 - 1 \<Longrightarrow> sint (v + 1) = sint v + 1"
  using sint_range_size [of v] by (simp add: sint_word_ariths signed_take_bit_int_eq_self word_size)

lemma sint_i32_sub: "0 < sint (v :: i32) \<Longrightarrow> sint (v - 1) = sint v - 1"
  using sint_range_size [of v] by (simp add: sint_word_ariths signed_take_bit_int_eq_self word_size)

lemma do_semV_overflow:
  assumes "unat sid = i" "i < NSEM" "ifuse (sem_table s i)" "sint (sem_value (sem_table s i)) = 2 ^ 31 - 1"
  shows "do_semV sid s = (Inl (Fault ''signed overflow''), s)"
  using assms by (simp add: do_semV_def krun_defs Let_def)

lemma do_semV_spec:
  fixes s :: "'z kernel_state_scheme"
  assumes inv: "sched_inv s q ws" and sid: "unat sid = i" "i < NSEM" "ifuse (sem_table s i)"
    and v: "sint (sem_value (sem_table s i)) \<noteq> 2 ^ 31 - 1"
  shows "kwp (do_semV sid) (\<lambda>_ t. case ws i of
      [] \<Rightarrow> sched_inv t q ws \<and> sem_value (sem_table t i) = sem_value (sem_table s i) + 1
    | p # w \<Rightarrow> sched_inv t (q @ [p]) (ws(i := w)) \<and> sem_value (sem_table t i) = sem_value (sem_table s i))
    (\<lambda>_ _. False) s"
proof (cases "ws i")
  case Nil
  then have "wait_queue (sem_table s i) = None" using sched_invD(2) [OF inv sid(3)] by simp
  then show ?thesis using Nil sid inv v by (simp add: do_semV_def kwp_simps upd_sem_def Let_def)
next
  case (Cons p w)
  then have wq: "wait_queue (sem_table s i) = Some p" using sched_invD(2) [OF inv sid(3)] by simp
  have p: "p < NPROC" "p \<notin> set w" "status (procs s p) = BLOCKED"
    using sched_invD(3,4) [OF inv, of i] sched_invD(5) [OF inv, of p i] Cons by auto
  let ?u = "s\<lparr>procs := (procs s)(p := (procs s p)\<lparr>queue_next := None\<rparr>),
      sem_table := (sem_table s)(i := (sem_table s i)\<lparr>wait_queue := queue_next (procs s p)\<rparr>)\<rparr>"
  have u: "sched_inv ?u q (ws(i := w))" by (rule sched_inv_unwait [OF inv sid(3) Cons])
  have pq: "p \<notin> set q" using rq_invD(4) [OF sched_invD(1) [OF inv], of p] p(3) by auto
  have pw: "p \<notin> set ((ws(i := w)) j)" for j
    using p(2) sched_invD(6) [OF inv, of i j] Cons by auto
  have ins: "kwp (insert_to_ready_queue p) Q E ?u = Q () (enqueued p q ?u)" for Q E
    using p by (intro kwp_call insert_to_ready_queue_eq [OF sched_invD(1) [OF u] _ _ pq]) auto
  have "sched_inv (enqueued p q ?u) (q @ [p]) (ws(i := w))" by (rule sched_inv_enqueued [OF u pq pw p(1)])
  moreover have "sem_value (sem_table (enqueued p q ?u) i) = sem_value (sem_table s i)"
    by (simp add: enqueued_def Let_def)
  ultimately have "kwp (insert_to_ready_queue p) (\<lambda>_ t. sched_inv t (q @ [p]) (ws(i := w)) \<and>
      sem_value (sem_table t i) = sem_value (sem_table s i)) (\<lambda>_ _. False) ?u"
    by (simp add: ins)
  then show ?thesis
    using Cons sid wq v by (simp add: do_semV_def kwp_simps upd_sem_def upd_proc_def Let_def)
qed

text \<open>Leaving the kernel keeps the wait queues.\<close>

lemma sched_outcome_sched_inv:
  assumes inv: "sched_inv s q ws" and out: "sched_outcome tp s q e t"
  shows "sched_inv t (tl q) ws"
proof (cases q)
  case Nil
  then show ?thesis using inv out by (simp add: sched_outcome_def)
next
  case (Cons p r)
  have t: "launched tp p (dequeued tp p s) t" using out Cons by (simp add: sched_outcome_def)
  have "status (procs s p) = READY" using rq_invD(4) [OF sched_invD(1) [OF inv]] Cons by simp
  then have p: "p \<notin> set (ws i)" for i using sched_invD(5) [OF inv, of p i] by auto
  have "qchain (nexts (dequeued tp p s)) h (ws i) = qchain (nexts s) h (ws i)" for h i
    using p [of i] by (intro qchain_cong) (auto simp: dequeued_def)
  then have "sched_inv (dequeued tp p s) r ws"
    using inv p dequeued_inv [OF sched_invD(1) [OF inv, unfolded Cons], of tp]
    unfolding sched_inv_def by (auto simp: dequeued_def)
  then show ?thesis using t Cons by (simp add: sched_inv_def launched_inv [OF t]) (simp add: launched_def)
qed

text \<open>The state after process \<open>p\<close> joined the waiters \<open>w\<close> of semaphore \<open>i\<close>.\<close>

definition sem_waiting :: "nat \<Rightarrow> nat \<Rightarrow> nat list \<Rightarrow> 'z kernel_state_scheme \<Rightarrow> 'z kernel_state_scheme" where
  "sem_waiting i p w s =
     (let ps = (if w = [] then procs s else (procs s)(last w := (procs s (last w))\<lparr>queue_next := Some p\<rparr>))
      in s\<lparr>sem_table := (if w = [] then (sem_table s)(i := (sem_table s i)\<lparr>wait_queue := Some p\<rparr>) else sem_table s),
           procs := ps(p := (procs s p)\<lparr>queue_next := None, status := BLOCKED\<rparr>)\<rparr>)"

lemma sem_waiting_inv:
  assumes inv: "sched_inv s q ws" and use: "ifuse (sem_table s i)"
    and p: "p < NPROC" "status (procs s p) = RUNNING"
  shows "sched_inv (sem_waiting i p (ws i) s) q (ws(i := ws i @ [p]))"
proof -
  let ?t = "sem_waiting i p (ws i) s" and ?ws = "ws(i := ws i @ [p])"
  have pq: "p \<notin> set q" and pw: "\<And>j. p \<notin> set (ws j)"
    using rq_invD(4) [OF sched_invD(1) [OF inv], of p] sched_invD(5) [OF inv, of p] p(2) by auto
  have l: "ws i \<noteq> [] \<Longrightarrow> last (ws i) \<in> set (ws i)" by simp
  have same: "procs ?t r = procs s r" if "r \<noteq> p" "r \<notin> set (ws i)" for r
  proof -
    have "ws i \<noteq> [] \<Longrightarrow> r \<noteq> last (ws i)" using that l by metis
    then show ?thesis using that(1) by (simp add: sem_waiting_def Let_def)
  qed
  have st: "status (procs ?t r) = (if r = p then BLOCKED else status (procs s r))" for r
    by (simp add: sem_waiting_def Let_def)
  have lq: "r \<notin> set (ws j)" if "r \<in> set q" for r j
    using rq_invD(4) [OF sched_invD(1) [OF inv] that] sched_invD(5) [OF inv, of r j] by auto
  have "qchain (nexts ?t) h q = qchain (nexts s) h q" for h
    using pq lq by (intro qchain_cong) (metis same)
  then have "rq_inv ?t q"
    using sched_invD(1) [OF inv] pq st unfolding rq_inv_def by (auto simp: sem_waiting_def Let_def)
  moreover have "qchain (nexts ?t) (wait_queue (sem_table ?t j)) (?ws j)" if u: "ifuse (sem_table ?t j)" for j
  proof (cases "j = i")
    case True
    show ?thesis
    proof (cases "ws i = []")
      case True
      then show ?thesis using \<open>j = i\<close> by (simp add: sem_waiting_def Let_def)
    next
      case False
      have "nexts ?t = (nexts s)(last (ws i) := Some p, p := None)"
        using False by (simp add: sem_waiting_def Let_def fun_eq_iff)
      moreover have "sem_table ?t = sem_table s" using False by (simp add: sem_waiting_def Let_def)
      ultimately show ?thesis
        using qchain_snoc [OF sched_invD(2) [OF inv use] False sched_invD(3) [OF inv] pw] \<open>j = i\<close>
        by (simp del: fun_upd_apply) (simp only: fun_upd_same)
    qed
  next
    case False
    then have d: "set (ws i) \<inter> set (ws j) = {}" using sched_invD(6) [OF inv] by metis
    have "qchain (nexts ?t) h (ws j) = qchain (nexts s) h (ws j)" for h
      using pw [of j] d by (intro qchain_cong) (metis same disjoint_iff)
    moreover have "sem_table ?t j = sem_table s j" using False by (simp add: sem_waiting_def Let_def)
    ultimately show ?thesis using False sched_invD(2) [OF inv, of j] u by simp
  qed
  moreover have "distinct (?ws j) \<and> set (?ws j) \<subseteq> {..<NPROC} \<and> (\<forall>r\<in>set (?ws j). status (procs ?t r) = BLOCKED)" for j
    using sched_invD(3,4) [OF inv, of j] sched_invD(5) [OF inv, of _ j] pw [of j] p(1) st by auto
  moreover have "set (?ws j) \<inter> set (?ws k) = {}" if "j \<noteq> k" for j k
    using sched_invD(6) [OF inv that] pw that by auto
  ultimately show ?thesis unfolding sched_inv_def by simp
qed

lemma do_semP_take:
  assumes "unat sid = i" "i < NSEM" "ifuse (sem_table s i)" "0 < sint (sem_value (sem_table s i))"
  shows "do_semP tp sid s =
    (Inr (), s\<lparr>sem_table := (sem_table s)(i := (sem_table s i)\<lparr>sem_value := sem_value (sem_table s i) - 1\<rparr>)\<rparr>)"
  using assms by (simp add: do_semP_def krun_defs Let_def upd_sem_def)

lemma do_semP_block:
  fixes s :: "'z kernel_state_scheme"
  assumes inv: "sched_inv s q ws" and sid: "unat sid = i" "i < NSEM" "ifuse (sem_table s i)"
    and v: "\<not> 0 < sint (sem_value (sem_table s i))"
    and me: "current s tp = Some p" "p < NPROC" "status (procs s p) = RUNNING"
  shows "kwp (do_semP tp sid) (\<lambda>_ _. False) (sched_outcome tp (sem_waiting i p (ws i) s) q) s"
proof -
  let ?w = "ws i" and ?s1 = "s\<lparr>procs := (procs s)(p := (procs s p)\<lparr>queue_next := None\<rparr>)\<rparr>"
  have pw: "p \<notin> set ?w" using sched_invD(5) [OF inv, of p i] me(3) by auto
  note ch = sched_invD(2) [OF inv sid(3)]
  have out: "kwp (schedule tp) (\<lambda>_ _. False) (sched_outcome tp (sem_waiting i p ?w s) q) (sem_waiting i p ?w s)"
    by (rule schedule_kwp) (rule sched_invD(1) [OF sem_waiting_inv [OF inv sid(3) me(2,3)]])
  show ?thesis
  proof (cases ?w)
    case Nil
    then have "wait_queue (sem_table s i) = None" using ch by simp
    then show ?thesis
      using sid v me out Nil
      by (simp add: do_semP_def kwp_simps Let_def upd_sem_def upd_proc_def cur_def sem_waiting_def)
  next
    case (Cons h r)
    then have h: "wait_queue (sem_table s i) = Some h" using ch by simp
    have "qchain (nexts ?s1) (Some h) ?w = qchain (nexts s) (Some h) ?w"
      using pw by (intro qchain_cong) auto
    then have "queue_tail NPROC h ?s1 = (Inr (last ?w), ?s1)"
      using ch h queue_length [OF sched_invD(3,4) [OF inv]] by (intro queue_tail_eq) auto
    then have qt: "kwp (queue_tail NPROC h) Q E ?s1 = Q (last ?w) ?s1" for Q E by (rule kwp_call)
    have "last ?w \<noteq> p" using pw Cons by (metis last_in_set list.discI)
    then have "sem_waiting i p ?w s = ?s1\<lparr>procs := (procs ?s1)(last ?w := (procs ?s1 (last ?w))\<lparr>queue_next := Some p\<rparr>,
        p := (procs ?s1 p)\<lparr>status := BLOCKED\<rparr>)\<rparr>"
      using Cons by (simp add: sem_waiting_def Let_def fun_upd_twist)
    then show ?thesis
      using sid v me out Cons h \<open>last ?w \<noteq> p\<close>
      by (simp add: do_semP_def kwp_simps Let_def upd_proc_def cur_def qt)
  qed
qed

section \<open>Blocking, waking and dying\<close>

lemma sched_inv_running:
  assumes "sched_inv s q ws" "status (procs s p) = RUNNING"
  shows "p \<notin> set q" "p \<notin> set (ws i)"
  using rq_invD(4) [OF sched_invD(1) [OF assms(1)], of p] sched_invD(5) [OF assms(1), of p i] assms(2) by auto

lemma wake_parent_awake:
  "(\<And>q. par = Some q \<Longrightarrow> status (procs s q) \<noteq> BLOCKED) \<Longrightarrow> wake_parent par s = (Inr (), s)"
  by (cases par) (auto simp: wake_parent_def krun_defs)

lemma wake_parent_blocked:
  assumes inv: "rq_inv s q" and p: "status (procs s p) = BLOCKED"
  shows "wake_parent (Some p) s = (Inr (), enqueued p q (s\<lparr>procs := (procs s)(p := (procs s p)\<lparr>status := READY\<rparr>)\<rparr>))"
proof -
  let ?t = "s\<lparr>procs := (procs s)(p := (procs s p)\<lparr>status := READY\<rparr>)\<rparr>"
  have pq: "p \<notin> set q" using rq_invD(4) [OF inv, of p] p by auto
  have "qchain (nexts ?t) h q = qchain (nexts s) h q" for h by (rule qchain_cong) simp
  then have t: "rq_inv ?t q" using inv by (auto simp: rq_inv_def)
  have "insert_to_ready_queue p ?t = (Inr (), enqueued p q ?t)"
    by (rule insert_to_ready_queue_eq [OF t _ _ pq]) simp_all
  then show ?thesis using p by (simp add: wake_parent_def krun_defs upd_proc_def)
qed

lemma yield_outcome:
  assumes inv: "sched_inv s q ws" and me: "p < NPROC" "status (procs s p) = RUNNING"
  shows "kwp (kthen (upd_proc p (\<lambda>r. r\<lparr>status := READY\<rparr>)) (kthen (insert_to_ready_queue p) (schedule tp)))
    Q (\<lambda>e t. sched_outcome tp (enqueued p q (s\<lparr>procs := (procs s)(p := (procs s p)\<lparr>status := READY\<rparr>)\<rparr>)) (q @ [p]) e t \<and>
         sched_inv t (tl (q @ [p])) ws) s"
proof -
  let ?s1 = "s\<lparr>procs := (procs s)(p := (procs s p)\<lparr>status := READY\<rparr>)\<rparr>"
  note r = sched_inv_running [OF inv me(2)]
  have i1: "sched_inv ?s1 q ws" by (rule sched_inv_free_proc [OF inv r])
  have ins: "kwp (insert_to_ready_queue p) Q E ?s1 = Q () (enqueued p q ?s1)" for Q E
    by (intro kwp_call insert_to_ready_queue_eq [OF sched_invD(1) [OF i1] _ _ r(1)]) simp_all
  have i2: "sched_inv (enqueued p q ?s1) (q @ [p]) ws" by (rule sched_inv_enqueued [OF i1 r me(1)])
  have "kwp (schedule tp) Q (\<lambda>e t. sched_outcome tp (enqueued p q ?s1) (q @ [p]) e t \<and>
      sched_inv t (tl (q @ [p])) ws) (enqueued p q ?s1)"
    by (rule kwp_mono [OF schedule_kwp [OF sched_invD(1) [OF i2]]]) (auto intro: sched_outcome_sched_inv [OF i2])
  then show ?thesis by (simp add: kwp_simps upd_proc_def ins)
qed

text \<open>The ready queue after process \<open>p\<close> has died and its parent, if blocked, was woken.\<close>

definition exit_queue :: "'z kernel_state_scheme \<Rightarrow> nat \<Rightarrow> nat list \<Rightarrow> nat list" where
  "exit_queue s p q = (case parent (procs s p) of
       Some r \<Rightarrow> if status (procs s r) = BLOCKED then q @ [r] else q
     | None \<Rightarrow> q)"

lemma wake_parent_outcome:
  assumes inv: "rq_inv s q" and par: "\<And>r. par = Some r \<Longrightarrow> r < NPROC"
  obtains t where "wake_parent par s = (Inr (), t)"
    "rq_inv t (case par of Some r \<Rightarrow> if status (procs s r) = BLOCKED then q @ [r] else q | None \<Rightarrow> q)"
    "\<And>i. status (procs t i) = (if par = Some i \<and> status (procs s i) = BLOCKED then READY else status (procs s i))"
    "pmem t = pmem s"
proof (cases "\<exists>r. par = Some r \<and> status (procs s r) = BLOCKED")
  case True
  then obtain r where r: "par = Some r" "status (procs s r) = BLOCKED" by blast
  let ?u = "s\<lparr>procs := (procs s)(r := (procs s r)\<lparr>status := READY\<rparr>)\<rparr>"
  have rq: "r \<notin> set q" using rq_invD(4) [OF inv, of r] r(2) by auto
  have "qchain (nexts ?u) h q = qchain (nexts s) h q" for h by (rule qchain_cong) simp
  then have "rq_inv ?u q" using inv by (auto simp: rq_inv_def)
  then have "rq_inv (enqueued r q ?u) (q @ [r])" by (rule enqueued_inv) (use rq par r in auto)
  then show thesis
    using r by (intro that [OF wake_parent_blocked [OF inv r(2), folded r(1)]]) (auto simp: enqueued_def Let_def)
next
  case False
  then show thesis using inv by (intro that [OF wake_parent_awake]) (auto split: option.splits)
qed

lemma kill_current_process_outcome:
  fixes s :: "'z kernel_state_scheme"
  assumes inv: "rq_inv s q" and me: "current s tp = Some p" "status (procs s p) = RUNNING"
    and par: "\<And>r. parent (procs s p) = Some r \<Longrightarrow> r < NPROC"
  obtains e t where "(kill_current_process tp :: ('z kernel_state_scheme, 'r) km) s = (Inl e, t)" "rq_inv t (tl (exit_queue s p q))"
    "status (procs t p) = ZOMBIE" "\<And>i. pmem t i TF_epc = pmem s i TF_epc"
    "case exit_queue s p q of
       r # w \<Rightarrow> e = Run r \<and> current t tp = Some r \<and> status (procs t r) = RUNNING
     | [] \<Rightarrow> e = (if tp = 0 \<and> (\<forall>i<NPROC. i \<noteq> p \<longrightarrow> status (procs s i) \<in> {FREE, ZOMBIE}) then Shutdown 0 else Wfi)"
proof -
  let ?s1 = "s\<lparr>procs := (procs s)(p := (procs s p)\<lparr>status := ZOMBIE\<rparr>)\<rparr>" and ?q = "exit_queue s p q"
  have pq: "p \<notin> set q" using rq_invD(4) [OF inv, of p] me(2) by auto
  have "qchain (nexts ?s1) h q = qchain (nexts s) h q" for h by (rule qchain_cong) simp
  then have i1: "rq_inv ?s1 q" using inv pq by (auto simp: rq_inv_def)
  obtain u where u: "wake_parent (parent (procs s p)) ?s1 = (Inr (), u)"
    "rq_inv u (case parent (procs s p) of Some r \<Rightarrow> if status (procs ?s1 r) = BLOCKED then q @ [r] else q | None \<Rightarrow> q)"
    "\<And>i. status (procs u i) = (if parent (procs s p) = Some i \<and> status (procs ?s1 i) = BLOCKED then READY else status (procs ?s1 i))"
    "pmem u = pmem ?s1"
    by (rule wake_parent_outcome [OF i1 par]) blast+
  have iu: "rq_inv u ?q" using u(2) me(2) by (auto simp: exit_queue_def split: option.splits if_splits)
  have zu: "status (procs u p) = ZOMBIE" using u(3) [of p] by simp
  obtain e t where t: "(schedule tp :: ('z kernel_state_scheme, 'r) km) u = (Inl e, t)" "sched_outcome tp u ?q e t"
    using kwp_stops [OF schedule_kwp [OF iu]] by blast
  have "p \<notin> set ?q" using rq_invD(4) [OF iu, of p] zu by auto
  then have zt: "status (procs t p) = ZOMBIE"
    using t(2) zu by (auto simp: sched_outcome_def launched_def dequeued_def split: list.splits)
  have "pmem t i TF_epc = pmem s i TF_epc" for i
    using t(2) u(4) by (auto simp: sched_outcome_def launched_def dequeued_def Let_def TF_defs split: list.splits)
  moreover have "case ?q of
       r # w \<Rightarrow> e = Run r \<and> current t tp = Some r \<and> status (procs t r) = RUNNING
     | [] \<Rightarrow> e = (if tp = 0 \<and> (\<forall>i<NPROC. i \<noteq> p \<longrightarrow> status (procs s i) \<in> {FREE, ZOMBIE}) then Shutdown 0 else Wfi)"
  proof (cases ?q)
    case Nil
    then have "status (procs u i) = (if i = p then ZOMBIE else status (procs s i))" for i
      using u(3) [of i] by (auto simp: exit_queue_def split: option.splits if_splits)
    then have "(\<forall>i<NPROC. status (procs u i) \<in> {FREE, ZOMBIE}) \<longleftrightarrow> (\<forall>i<NPROC. i \<noteq> p \<longrightarrow> status (procs s i) \<in> {FREE, ZOMBIE})"
      by auto
    then show ?thesis using t(2) Nil by (simp add: sched_outcome_def)
  next
    case (Cons r w)
    then show ?thesis using t(2) by (auto simp: sched_outcome_def launched_def dequeued_def)
  qed
  moreover have "(kill_current_process tp :: ('z kernel_state_scheme, 'r) km) s = (Inl e, t)"
    using me(1) u(1) t(1) by (simp add: kill_current_process_def krun_defs cur_def free_process_def upd_proc_def)
  ultimately show thesis using that sched_outcome_inv [OF iu t(2)] zt by blast
qed

section \<open>An example state\<close>

text \<open>
  Process 0 is ready, 1 and 2 wait for semaphore 0 in this order, 3 runs on hart 0 and is a child of 1,
  4 is a zombie child of 3; the other slots are free.
\<close>

definition blank_process :: process where
  "blank_process = \<lparr>kstack = 0, pagetable = 0, trapframe = 0, stack_size = 0, malloc_list = 0,
     malloc_free_list = 0, mapped_info = 0, total_mapped_region = 0, heap_top = 0, heap_bottom = 0,
     free_pages_address = (\<lambda>_. 0), free_pages_count = 0, pid = 0, status = FREE, parent = None,
     queue_next = None, tick_count = 0, pfiles = 0\<rparr>"

definition blank_csr :: csr_file where
  "blank_csr = \<lparr>satp = 0, sstatus = 0, sepc = 0, scause = 0, stval = 0, stvec = 0, sip = 0,
     ret_trapframe = 0, ret_satp = 0\<rparr>"

definition demo_procs :: "nat \<Rightarrow> process" where
  "demo_procs = (\<lambda>_. blank_process)(
     0 := blank_process\<lparr>status := READY\<rparr>,
     1 := blank_process\<lparr>status := BLOCKED, queue_next := Some 2, pid := 1\<rparr>,
     2 := blank_process\<lparr>status := BLOCKED, pid := 2\<rparr>,
     3 := blank_process\<lparr>status := RUNNING, parent := Some 1, pid := 3\<rparr>,
     4 := blank_process\<lparr>status := ZOMBIE, parent := Some 3, pid := 4\<rparr>)"

definition demo_kernel :: kernel_state where
  "demo_kernel = \<lparr>pmem = (\<lambda>_ _. 0), g_free_mem_list = 0, page_ref_count = (\<lambda>_. 0),
     free_mem_start_addr = 0x80001000, free_mem_end_addr = 0x80008000, g_mem_size = 0x8000, pmm_lock = 0,
     g_kernel_pagetable = 0, procs = demo_procs, current = (\<lambda>_. None)(0 := Some 3),
     ready_queue_head = Some 0, rq_lock = 0, rq_lock_inited = True,
     sem_table = (\<lambda>_. \<lparr>ifuse = False, sem_value = 0, wait_queue = None\<rparr>)(
       0 := \<lparr>ifuse = True, sem_value = 0, wait_queue = Some 1\<rparr>),
     proc_alloc_lock = 0, csr = (\<lambda>_. blank_csr),
     syms = \<lparr>smode_trap_vector = 0, smode_trap_handler_addr = 0, trap_sec_start = 0\<rparr>, g_ticks = (\<lambda>_. 0)\<rparr>"

definition demo_waiters :: "nat \<Rightarrow> nat list" where
  "demo_waiters = (\<lambda>_. [])(0 := [1, 2])"

lemma demo_kernel_inv: "sched_inv demo_kernel [0] demo_waiters"
  by (auto simp: sched_inv_def rq_inv_def demo_kernel_def demo_procs_def blank_process_def demo_waiters_def
      NPROC_def SPIN_LOCK_FREE_def)

lemma demo_kernel_simps:
  "current demo_kernel 0 = Some 3" "status (procs demo_kernel 3) = RUNNING"
  "parent (procs demo_kernel 3) = Some 1" "ifuse (sem_table demo_kernel 0)"
  "sem_value (sem_table demo_kernel 0) = 0" "demo_waiters 0 = [1, 2]"
  by (simp_all add: demo_kernel_def demo_procs_def blank_process_def demo_waiters_def)

section \<open>Properties\<close>

text \<open>
  C13. The ready queue is first-in first-out: processes inserted one after the other (runnable, and not
  queued yet) line up behind those already waiting, and successive calls of \<^verbatim>\<open>schedule\<close> run exactly
  the processes of the queue in that order, so that none is overtaken or lost.
\<close>

theorem ready_queue_fifo:
  fixes s :: "'z kernel_state_scheme"
  assumes "rq_inv s q" "distinct (q @ ps)"
    and "\<forall>p\<in>set ps. p < NPROC \<and> status (procs s p) \<notin> {ZOMBIE, FREE}"
  shows "\<exists>t u. kfor ps insert_to_ready_queue s = (Inr (), t) \<and> rq_inv t (q @ ps) \<and>
    krepeat (length (q @ ps)) (schedule tp) t = (map Run (q @ ps), u) \<and> rq_inv u []"
proof -
  obtain t where "kfor ps insert_to_ready_queue s = (Inr (), t)" "rq_inv t (q @ ps)"
    using rq.enq_all [OF assms(1) _ assms(2)] assms(3) by auto
  then show ?thesis using rq.dispatch_order [of t "q @ ps" "[]" tp] by auto
qed

theorem ready_queue_fifo_witness:
  "\<exists>t u. kfor [3] insert_to_ready_queue demo_kernel = (Inr (), t) \<and> rq_inv t [0, 3] \<and>
     krepeat 2 (schedule 1) t = ([Run 0, Run 3], u) \<and> rq_inv u []"
proof -
  have "\<forall>p\<in>set [3 :: nat]. p < NPROC \<and> status (procs demo_kernel p) \<notin> {ZOMBIE, FREE}"
    by (simp add: demo_kernel_simps NPROC_def)
  from ready_queue_fifo [OF sched_invD(1) [OF demo_kernel_inv] _ this, of 1] show ?thesis
    by (simp add: numeral_2_eq_2)
qed

text \<open>
  C14. The scheduler never returns to its caller.  With a non-empty ready queue it takes the first
  process, marks it running and enters user mode as that process: previous mode user with interrupts
  enabled, program counter from its trapframe, address space from its page table, and the kernel
  entries of the trapframe filled in.  With an empty queue it shuts the machine down exactly on hart 0
  when every process is free or dead, and otherwise waits for an interrupt.
\<close>

theorem schedule_correct:
  fixes s :: "'z kernel_state_scheme"
  assumes "rq_inv s q"
  shows "\<exists>e t. (schedule tp :: ('z kernel_state_scheme, unit) km) s = (Inl e, t) \<and> rq_inv t (tl q) \<and>
    (case q of
       p # r \<Rightarrow> e = Run p \<and> current t tp = Some p \<and> status (procs t p) = RUNNING \<and>
         launched tp p (dequeued tp p s) t
     | [] \<Rightarrow> e = (if tp = 0 \<and> (\<forall>i<NPROC. status (procs s i) \<in> {FREE, ZOMBIE}) then Shutdown 0 else Wfi))"
proof -
  obtain e t where t: "(schedule tp :: ('z kernel_state_scheme, unit) km) s = (Inl e, t)" "sched_outcome tp s q e t"
    using kwp_stops [OF schedule_kwp [OF assms]] by blast
  then show ?thesis
    using sched_outcome_inv [OF assms t(2)]
    by (auto simp: sched_outcome_def launched_def dequeued_def split: list.splits)
qed

theorem schedule_correct_witness:
  "\<exists>t. (schedule 1 :: (kernel_state, unit) km) demo_kernel = (Inl (Run 0), t) \<and> rq_inv t []"
  using schedule_correct [OF sched_invD(1) [OF demo_kernel_inv], of 1] by auto

text \<open>
  C20. Waiting for a semaphore: \<^verbatim>\<open>do_semP\<close> on a positive value takes one unit and returns; otherwise the
  running process becomes the last waiter of that semaphore, is blocked, and the scheduler gives the
  hart to the next ready process.  The other queues and semaphores keep their waiters.
\<close>

theorem do_semP_correct:
  fixes s :: "'z kernel_state_scheme"
  assumes inv: "sched_inv s q ws" and sid: "unat sid = i" "i < NSEM" "ifuse (sem_table s i)"
    and me: "current s tp = Some p" "p < NPROC" "status (procs s p) = RUNNING"
  shows "\<exists>r t. do_semP tp sid s = (r, t) \<and>
    (if 0 < sint (sem_value (sem_table s i))
     then r = Inr () \<and> sched_inv t q ws \<and> sint (sem_value (sem_table t i)) = sint (sem_value (sem_table s i)) - 1
     else sched_inv t (tl q) (ws(i := ws i @ [p])) \<and> status (procs t p) = BLOCKED \<and>
       r = Inl (if q = [] then Wfi else Run (hd q)))"
proof (cases "0 < sint (sem_value (sem_table s i))")
  case True
  then show ?thesis using do_semP_take [OF sid True] inv by (simp add: sint_i32_sub)
next
  case False
  let ?u = "sem_waiting i p (ws i) s"
  obtain e t where t: "do_semP tp sid s = (Inl e, t)" and out: "sched_outcome tp ?u q e t"
    using kwp_stops [OF do_semP_block [OF inv sid False me]] by blast
  have u: "sched_inv ?u q (ws(i := ws i @ [p]))" by (rule sem_waiting_inv [OF inv sid(3) me(2,3)])
  have b: "status (procs ?u p) = BLOCKED" by (simp add: sem_waiting_def Let_def)
  then have "\<not> (\<forall>i<NPROC. status (procs ?u i) \<in> {FREE, ZOMBIE})" using me(2) by fastforce
  moreover have "p \<notin> set q" by (rule sched_inv_running [OF inv me(3)])
  ultimately have "status (procs t p) = BLOCKED \<and> e = (if q = [] then Wfi else Run (hd q))"
    using out b by (auto simp: sched_outcome_def launched_def dequeued_def split: list.splits if_splits)
  then show ?thesis using t sched_outcome_sched_inv [OF u out] False by simp
qed

theorem do_semP_correct_witness:
  "\<exists>t. do_semP 0 0 demo_kernel = (Inl (Run 0), t) \<and> sched_inv t [] (demo_waiters(0 := [1, 2, 3])) \<and>
     status (procs t 3) = BLOCKED"
  using do_semP_correct [OF demo_kernel_inv, of 0 0 0 3] by (simp add: demo_kernel_simps NSEM_def NPROC_def)

text \<open>
  C21. Signalling a semaphore: with nobody waiting \<^verbatim>\<open>do_semV\<close> adds one unit; with waiters it moves the one
  that has waited longest to the rear of the ready queue, leaving the value and the order of the other
  waiters as they were.  The value is a C \<open>int\<close>: when it is the largest one, which a program reaches with
  \<^verbatim>\<open>sem_new(INT_MAX)\<close>, the increment overflows, and the model stops there with a fault.
\<close>

theorem do_semV_correct:
  fixes s :: "'z kernel_state_scheme"
  assumes "sched_inv s q ws" "unat sid = i" "i < NSEM" "ifuse (sem_table s i)"
  shows "if sint (sem_value (sem_table s i)) = 2 ^ 31 - 1 then do_semV sid s = (Inl (Fault ''signed overflow''), s)
    else \<exists>t. do_semV sid s = (Inr (), t) \<and> (case ws i of
      [] \<Rightarrow> sched_inv t q ws \<and> sint (sem_value (sem_table t i)) = sint (sem_value (sem_table s i)) + 1
    | p # w \<Rightarrow> sched_inv t (q @ [p]) (ws(i := w)) \<and> sem_value (sem_table t i) = sem_value (sem_table s i))"
proof (cases "sint (sem_value (sem_table s i)) = 2 ^ 31 - 1")
  case True
  then show ?thesis using do_semV_overflow [OF assms(2-4)] by simp
next
  case False
  from kwp_total_unit [OF do_semV_spec [OF assms False]] False show ?thesis
    by (auto simp: sint_i32_add split: list.splits)
qed

theorem do_semV_correct_witness:
  "\<exists>t. do_semV 0 demo_kernel = (Inr (), t) \<and> sched_inv t [0, 1] (demo_waiters(0 := [2]))"
  using do_semV_correct [OF demo_kernel_inv, of 0 0] by (auto simp: demo_kernel_simps NSEM_def)

text \<open>
  C23. An exiting child breaks a semaphore queue: \<^verbatim>\<open>sys_user_exit\<close> wakes its parent whenever that is
  blocked, also when it is blocked on a semaphore.  The parent is then both ready and still the first
  waiter of the semaphore, its queue link is cut, and the processes that waited behind it stay blocked
  in no queue at all.
\<close>

theorem exit_loses_semaphore_waiters:
  fixes s :: "'z kernel_state_scheme"
  assumes inv: "sched_inv s q ws" and sem: "ifuse (sem_table s i)" "ws i = p # r # w"
    and me: "current s tp = Some c" "status (procs s c) = RUNNING" "parent (procs s c) = Some p"
  shows "\<exists>e t. sys_user_exit tp code s = (Inl e, t) \<and>
    qchain (nexts t) (wait_queue (sem_table t i)) [p] \<and> status (procs t p) \<in> {READY, RUNNING} \<and>
    status (procs t r) = BLOCKED"
proof -
  have p: "p < NPROC" "p \<noteq> r" "status (procs s p) = BLOCKED" "status (procs s r) = BLOCKED"
    "wait_queue (sem_table s i) = Some p"
    using sched_invD(3,4) [OF inv, of i] sched_invD(5) [OF inv, of _ i] sched_invD(2) [OF inv sem(1)] sem(2)
    by auto
  have ne: "c \<noteq> p" "c \<noteq> r" using p me(2) by auto
  let ?s1 = "s\<lparr>procs := (procs s)(c := (procs s c)\<lparr>status := ZOMBIE\<rparr>)\<rparr>"
  let ?s2 = "?s1\<lparr>procs := (procs ?s1)(p := (procs ?s1 p)\<lparr>status := READY\<rparr>)\<rparr>"
  have i1: "rq_inv ?s1 q"
    by (rule sched_invD(1) [OF sched_inv_free_proc [OF inv sched_inv_running [OF inv me(2)]]])
  have w: "wake_parent (Some p) ?s1 = (Inr (), enqueued p q ?s2)"
    by (rule wake_parent_blocked [OF i1]) (use p ne in simp)
  have pq: "p \<notin> set q" "r \<notin> set q"
    using rq_invD(4) [OF sched_invD(1) [OF inv]] p by auto
  have "qchain (nexts ?s2) h q = qchain (nexts ?s1) h q" for h by (rule qchain_cong) simp
  then have i2: "rq_inv ?s2 q" using i1 pq by (auto simp: rq_inv_def)
  let ?s3 = "enqueued p q ?s2"
  have "kwp (schedule tp) Q (sched_outcome tp ?s3 (q @ [p])) ?s3" for Q
    by (rule schedule_kwp [OF enqueued_inv [OF i2 pq(1) p(1)]])
  moreover have "kwp (wake_parent (Some p)) Q E ?s1 = Q () ?s3" for Q E by (rule kwp_call) (rule w)
  ultimately have "kwp (sys_user_exit tp code) (\<lambda>_ _. False) (sched_outcome tp ?s3 (q @ [p])) s"
    using me ne by (simp add: sys_user_exit_def cur_def free_process_def upd_proc_def kwp_simps)
  from kwp_stops [OF this]
  obtain e t where "sys_user_exit tp code s = (Inl e, t)" and out: "sched_outcome tp ?s3 (q @ [p]) e t"
    by (elim exE conjE)
  moreover have "queue_next (procs ?s3 p) = None" "status (procs ?s3 p) = READY"
      "status (procs ?s3 r) = BLOCKED" "sem_table ?s3 = sem_table s"
    using p ne by (auto simp: enqueued_def Let_def)
  then have "queue_next (procs t p) = None" "status (procs t p) \<in> {READY, RUNNING}"
      "status (procs t r) = BLOCKED" "sem_table t = sem_table s"
    using out p pq by (cases q; auto simp: sched_outcome_def launched_def dequeued_def)+
  ultimately show ?thesis using p(5) by simp
qed

theorem exit_loses_semaphore_waiters_witness:
  "\<exists>e t. sys_user_exit 0 0 demo_kernel = (Inl e, t) \<and>
     qchain (nexts t) (wait_queue (sem_table t 0)) [1] \<and> status (procs t 2) = BLOCKED"
  using exit_loses_semaphore_waiters [OF demo_kernel_inv, of 0 1 2 "[]" 0 3 0] by (auto simp: demo_kernel_simps)

lemma block_current_outcome:
  assumes inv: "sched_inv s q ws" and me: "current s tp = Some p" "p < NPROC" "status (procs s p) = RUNNING"
  shows "kwp (block_current tp) Q (\<lambda>e t. e = (if q = [] then Wfi else Run (hd q)) \<and>
    sched_inv t (tl q) ws \<and> status (procs t p) = BLOCKED) s"
proof -
  let ?u = "s\<lparr>procs := (procs s)(p := (procs s p)\<lparr>status := BLOCKED\<rparr>)\<rparr>"
  have u: "sched_inv ?u q ws" by (rule sched_inv_free_proc [OF inv sched_inv_running [OF inv me(3)]])
  have pq: "p \<notin> set q" by (rule sched_inv_running [OF inv me(3)])
  have "\<not> (\<forall>i<NPROC. status (procs ?u i) \<in> {FREE, ZOMBIE})" using me(2) by fastforce
  then have "e = (if q = [] then Wfi else Run (hd q)) \<and> status (procs t p) = BLOCKED"
    if "sched_outcome tp ?u q e t" for e t
    using that pq by (auto simp: sched_outcome_def launched_def dequeued_def split: list.splits if_splits)
  then have "kwp (schedule tp) Q (\<lambda>e t. e = (if q = [] then Wfi else Run (hd q)) \<and>
      sched_inv t (tl q) ws \<and> status (procs t p) = BLOCKED) ?u"
    by (intro kwp_mono [OF schedule_kwp [OF sched_invD(1) [OF u]]])
      (auto dest: sched_outcome_sched_inv [OF u])
  then show ?thesis using me(1) by (simp add: block_current_def cur_def upd_proc_def kwp_simps)
qed

lemma free_zombie: "status (procs s i) = ZOMBIE \<Longrightarrow> free_process i s = (Inr 0, s)"
proof -
  assume "status (procs s i) = ZOMBIE"
  then have "(procs s i)\<lparr>status := ZOMBIE\<rparr> = procs s i" by (cases "procs s i") simp
  then have "(procs s)(i := (procs s i)\<lparr>status := ZOMBIE\<rparr>) = procs s" by (simp add: fun_upd_idem)
  then show ?thesis by (simp add: free_process_def upd_proc_def krun_defs)
qed

text \<open>
  C22. Waiting for a child: \<^verbatim>\<open>sys_user_wait\<close> with -1 returns the pid (converted to an \<open>int\<close>) of the first dead child in the
  process table, and with the index of a dead child that index, in both cases without changing
  anything; a number that is no child of the caller gives -1.  When there is no dead child to report,
  the caller is blocked and the next ready process runs; the call itself never returns.
\<close>

theorem sys_user_wait_correct:
  fixes s :: "'z kernel_state_scheme"
  assumes inv: "sched_inv s q ws" and me: "current s tp = Some p" "p < NPROC" "status (procs s p) = RUNNING"
  shows "\<exists>r t. sys_user_wait tp x s = (r, t) \<and>
    (let blocked = (r = Inl (if q = [] then Wfi else Run (hd q)) \<and> sched_inv t (tl q) ws \<and>
                    status (procs t p) = BLOCKED) in
     if x = -1
     then (case zombie_child tp s of Some i \<Rightarrow> r = Inr (sint (ucast (pid (procs s i)) :: i32)) \<and> t = s | None \<Rightarrow> blocked)
     else if x < 0 \<or> int NPROC \<le> x \<or> parent (procs s (nat x)) \<noteq> Some p then r = Inr (-1) \<and> t = s
     else if status (procs s (nat x)) = ZOMBIE then r = Inr x \<and> t = s
     else blocked)"
proof -
  have b: "\<exists>e t. (kbind (block_current tp) f) s = (Inl e, t) \<and> e = (if q = [] then Wfi else Run (hd q)) \<and>
      sched_inv t (tl q) ws \<and> status (procs t p) = BLOCKED" for f :: "unit \<Rightarrow> ('z kernel_state_scheme, int) km"
    by (rule kwp_stops) (simp only: kwp_bind, rule block_current_outcome [OF inv me])
  have z: "status (procs s i) = ZOMBIE" if "zombie_child tp s = Some i" for i
    using that by (auto simp: zombie_child_def find_Some_iff)
  show ?thesis
  proof (cases "x = -1")
    case True
    then show ?thesis
      using b z by (cases "zombie_child tp s")
        (auto simp: sys_user_wait_def kbind_get kthen_def kbind_run [OF free_zombie] kreturn_def)
  next
    case False
    then show ?thesis
      using b me(1) by (cases "x < 0 \<or> int NPROC \<le> x \<or> parent (procs s (nat x)) \<noteq> Some p";
          cases "status (procs s (nat x)) = ZOMBIE")
        (auto simp: sys_user_wait_def kbind_get kthen_def kbind_run [OF free_zombie] kreturn_def)
  qed
qed

theorem sys_user_wait_correct_witness:
  "sys_user_wait 0 (-1) demo_kernel = (Inr 4, demo_kernel)"
proof -
  have "zombie_child 0 demo_kernel = Some 4"
    by (simp add: zombie_child_def NPROC_def demo_kernel_def demo_procs_def blank_process_def upt_rec)
  moreover have "pid (procs demo_kernel 4) = 4" by (simp add: demo_kernel_def demo_procs_def blank_process_def)
  ultimately show ?thesis
    using sys_user_wait_correct [OF demo_kernel_inv, of 0 3 "-1"] by (auto simp: demo_kernel_simps NPROC_def)
qed

text \<open>
  Round robin: on a timer tick \<^verbatim>\<open>rrsched\<close> only counts the tick while the running process is within
  its time slice; at its end the process becomes the last of the ready queue and the first process of
  that queue runs, so a lone process goes on running.
\<close>

theorem rrsched_correct:
  fixes s :: "'z kernel_state_scheme"
  assumes inv: "sched_inv s q ws" and me: "current s tp = Some p" "p < NPROC" "status (procs s p) = RUNNING"
  shows "\<exists>r t. rrsched tp s = (r, t) \<and>
    (if tick_count (procs s p) + 1 < TIME_SLICE_LEN
     then r = Inr () \<and> sched_inv t q ws \<and> current t = current s \<and>
       tick_count (procs t p) = tick_count (procs s p) + 1
     else r = Inl (Run (hd (q @ [p]))) \<and> sched_inv t (tl (q @ [p])) ws \<and> tick_count (procs t p) = 0)"
proof -
  let ?n = "tick_count (procs s p) + 1"
  let ?s1 = "s\<lparr>procs := (procs s)(p := (procs s p)\<lparr>tick_count := ?n\<rparr>)\<rparr>"
  have i: "sched_inv (s\<lparr>procs := (procs s)(p := r)\<rparr>) q ws" for r
    by (rule sched_inv_free_proc [OF inv sched_inv_running [OF inv me(3)]])
  show ?thesis
  proof (cases "?n < TIME_SLICE_LEN")
    case True
    then have "rrsched tp s = (Inr (), ?s1)"
      using me(1) by (simp add: rrsched_def cur_def upd_proc_def krun_defs)
    then show ?thesis using True i by simp
  next
    case False
    let ?s2 = "s\<lparr>procs := (procs s)(p := (procs s p)\<lparr>tick_count := 0\<rparr>)\<rparr>"
    have "kwp (rrsched tp) (\<lambda>_ _. False) (\<lambda>e t. sched_outcome tp
        (enqueued p q (?s2\<lparr>procs := (procs ?s2)(p := (procs ?s2 p)\<lparr>status := READY\<rparr>)\<rparr>)) (q @ [p]) e t \<and>
        sched_inv t (tl (q @ [p])) ws) s"
      using yield_outcome [OF i [of "(procs s p)\<lparr>tick_count := 0\<rparr>"] me(2), of tp "\<lambda>_ _. False"] me False
      by (simp add: rrsched_def cur_def upd_proc_def kwp_simps)
    from kwp_stops [OF this] show ?thesis
      using False by (cases q) (auto simp: sched_outcome_def launched_def dequeued_def enqueued_def Let_def)
  qed
qed

theorem rrsched_correct_witness:
  "\<exists>t. rrsched 0 demo_kernel = (Inr (), t) \<and> tick_count (procs t 3) = 1"
proof -
  have "tick_count (procs demo_kernel 3) = 0" by (simp add: demo_kernel_def demo_procs_def blank_process_def)
  then show ?thesis
    using rrsched_correct [OF demo_kernel_inv, of 0 3]
    by (auto simp: demo_kernel_simps NPROC_def TIME_SLICE_LEN_def)
qed

end
