(* ===== verification/Strings.thy ===== *)
theory Strings
  imports Prelude
begin

text \<open>
  The string and memory functions of \<^verbatim>\<open>util/string.c\<close>, over a memory of bytes.

  Every function is written with the pointers and the loops of the source; the loops carry a bound
  that no terminating run exceeds (the length argument, or the size of the address space for the
  functions that look for a NUL byte).  The lemmas read the results off as lists: \<open>bytes m a n\<close> are
  the \<open>n\<close> bytes at \<open>a\<close>, \<open>cstring m a xs\<close> says that the NUL-terminated string at \<open>a\<close> is \<open>xs\<close>.
\<close>

section \<open>Byte memory\<close>

type_synonym bmem = "u64 \<Rightarrow> u8"

definition NULL :: u64 where
  "NULL = 0"

text \<open>A 64-bit access, little-endian.\<close>

definition ld64 :: "bmem \<Rightarrow> u64 \<Rightarrow> u64" where
  "ld64 m a = ucast (m a) OR push_bit 8 (ucast (m (a + 1))) OR push_bit 16 (ucast (m (a + 2))) OR
     push_bit 24 (ucast (m (a + 3))) OR push_bit 32 (ucast (m (a + 4))) OR
     push_bit 40 (ucast (m (a + 5))) OR push_bit 48 (ucast (m (a + 6))) OR push_bit 56 (ucast (m (a + 7)))"

definition st64 :: "u64 \<Rightarrow> u64 \<Rightarrow> bmem \<Rightarrow> bmem" where
  "st64 a w m = m(a := ucast w, a + 1 := ucast (drop_bit 8 w), a + 2 := ucast (drop_bit 16 w),
     a + 3 := ucast (drop_bit 24 w), a + 4 := ucast (drop_bit 32 w), a + 5 := ucast (drop_bit 40 w),
     a + 6 := ucast (drop_bit 48 w), a + 7 := ucast (drop_bit 56 w))"

definition string_bound :: nat where
  "string_bound = 2 ^ 64"

section \<open>Operations\<close>

definition memcpy :: "u64 \<Rightarrow> u64 \<Rightarrow> u64 \<Rightarrow> (bmem, u64) km" where
  "memcpy dest src len =
     kbind (if (dest OR src) AND 7 = 0
            then kwhile (unat len) (\<lambda>(d, s). d < dest + len - 7)
              (\<lambda>(d, s). kthen (kput (\<lambda>m. st64 d (ld64 m s) m)) (kreturn (d + 8, s + 8))) (dest, src)
            else kreturn (dest, src))
       (\<lambda>(d, s). kbind (kwhile (unat len) (\<lambda>(d, s). d < dest + len)
           (\<lambda>(d, s). kthen (kput (\<lambda>m. m(d := m s))) (kreturn (d + 1, s + 1))) (d, s))
         (\<lambda>_. kreturn dest))"

definition memset :: "u64 \<Rightarrow> i32 \<Rightarrow> u64 \<Rightarrow> (bmem, u64) km" where
  "memset dest byte len =
     (if (dest OR len) AND 7 = 0
      then let word = ucast (byte AND 0xFF);
               word = word OR push_bit 8 word;
               word = word OR push_bit 16 word;
               word = word OR push_bit 16 (push_bit 16 word) in
        kbind (kwhile (unat len) (\<lambda>d. d < dest + len)
            (\<lambda>d. kthen (kput (st64 d word)) (kreturn (d + 8))) dest) (\<lambda>_. kreturn dest)
      else kbind (kwhile (unat len) (\<lambda>d. d < dest + len)
            (\<lambda>d. kthen (kput (\<lambda>m. m(d := ucast byte))) (kreturn (d + 1))) dest) (\<lambda>_. kreturn dest))"

definition strlen :: "u64 \<Rightarrow> (bmem, u64) km" where
  "strlen s = kbind (kget id) (\<lambda>m. kbind (kwhile string_bound (\<lambda>p. m p \<noteq> 0) (\<lambda>p. kreturn (p + 1)) s)
     (\<lambda>p. kreturn (p - s)))"

text \<open>Loop state of \<^verbatim>\<open>strcmp\<close>: the two pointers and the two characters read last.\<close>

definition strcmp :: "u64 \<Rightarrow> u64 \<Rightarrow> (bmem, int) km" where
  "strcmp s1 s2 = kbind (kget id) (\<lambda>m.
     kbind (kwhile string_bound (\<lambda>(p, q, c1, c2). c1 \<noteq> 0 \<and> c1 = c2)
         (\<lambda>(p, q, c1, c2). kreturn (p + 1, q + 1, m p, m q)) (s1 + 1, s2 + 1, m s1, m s2))
       (\<lambda>(p, q, c1, c2). kreturn (uint c1 - uint c2)))"

definition strcpy :: "u64 \<Rightarrow> u64 \<Rightarrow> (bmem, u64) km" where
  "strcpy dest src =
     kbind (kwhile string_bound (\<lambda>(d, s, c). c \<noteq> 0)
         (\<lambda>(d, s, c). kbind (kget (\<lambda>m. m s)) (\<lambda>c.
           kthen (kput (\<lambda>m. m(d := c))) (kreturn (d + 1, s + 1, c)))) (dest, src, 1))
       (\<lambda>_. kreturn dest)"

text \<open>\<^verbatim>\<open>strchr\<close>: the loop stops at the character or at the NUL byte.\<close>

definition strchr :: "u64 \<Rightarrow> u8 \<Rightarrow> (bmem, u64) km" where
  "strchr p ch = kbind (kget id) (\<lambda>m.
     kbind (kwhile string_bound (\<lambda>p. \<not> (m p = ch \<or> m p = 0)) (\<lambda>p. kreturn (p + 1)) p) (\<lambda>p.
       if m p = ch then kreturn p else kreturn NULL))"

definition strcat :: "u64 \<Rightarrow> u64 \<Rightarrow> (bmem, u64) km" where
  "strcat dst src = kbind (strlen dst) (\<lambda>n. kbind (strcpy (dst + n) src) (\<lambda>_. kreturn dst))"

definition atol :: "u64 \<Rightarrow> (bmem, u64) km" where
  "atol str = kbind (kget id) (\<lambda>m.
     kbind (kwhile string_bound (\<lambda>p. m p = 32) (\<lambda>p. kreturn (p + 1)) str) (\<lambda>p.
     let signed = (m p = 45 \<or> m p = 43); neg = (m p = 45); p = (if signed then p + 1 else p) in
     kbind (kwhile string_bound (\<lambda>(p, res). m p \<noteq> 0)
         (\<lambda>(p, res). kreturn (p + 1, res * 10 + (ucast (m p) - 48))) (p, 0 :: u64)) (\<lambda>(p, res).
       kreturn (if neg then - res else res))))"

definition memmove :: "u64 \<Rightarrow> u64 \<Rightarrow> u64 \<Rightarrow> (bmem, u64) km" where
  "memmove dst src n =
     kbind (if src < dst \<and> dst < src + n
            then kwhile (unat n) (\<lambda>(d, s, n). 0 < n)
              (\<lambda>(d, s, n). kthen (kput (\<lambda>m. m(d - 1 := m (s - 1)))) (kreturn (d - 1, s - 1, n - 1)))
              (dst + n, src + n, n)
            else kwhile (unat n) (\<lambda>(d, s, n). 0 < n)
              (\<lambda>(d, s, n). kthen (kput (\<lambda>m. m(d := m s))) (kreturn (d + 1, s + 1, n - 1)))
              (dst, src, n))
       (\<lambda>_. kreturn dst)"

text \<open>\<^verbatim>\<open>safestrcpy\<close>: loop state \<open>(s, t, n, go)\<close>; \<open>go\<close> is the value of the loop condition.\<close>

definition safestrcpy :: "u64 \<Rightarrow> u64 \<Rightarrow> int \<Rightarrow> (bmem, u64) km" where
  "safestrcpy s t n =
     (if n \<le> 0 then kreturn s
      else kbind (kwhile (nat n) (\<lambda>(p, q, n, go). go \<and> 0 < n - 1)
          (\<lambda>(p, q, n, go). kbind (kget (\<lambda>m. m q)) (\<lambda>c.
             kthen (kput (\<lambda>m. m(p := c))) (kreturn (p + 1, q + 1, n - 1, c \<noteq> 0)))) (s, t, n, True))
        (\<lambda>(p, q, n, go). kthen (kput (\<lambda>m. m(p := 0))) (kreturn s)))"

text \<open>
  \<^verbatim>\<open>strtok\<close> with its static pointer \<open>current\<close> as an explicit argument and result.  Both of its scans
  ask \<^verbatim>\<open>strchr\<close> whether the character is a delimiter.
\<close>

primrec skip_while :: "nat \<Rightarrow> bool \<Rightarrow> u64 \<Rightarrow> u64 \<Rightarrow> (bmem, u64) km" where
  "skip_while 0 b delim p = kraise Diverge"
| "skip_while (Suc n) b delim p = kbind (kget (\<lambda>m. m p)) (\<lambda>c.
     if c = 0 then kreturn p
     else kbind (strchr delim c) (\<lambda>q.
       if (q \<noteq> NULL) = b then skip_while n b delim (p + 1) else kreturn p))"

definition strtok :: "u64 \<Rightarrow> u64 \<Rightarrow> u64 \<Rightarrow> (bmem, u64 \<times> u64) km" where
  "strtok current str delim =
     (let current = (if str \<noteq> NULL then str else current) in
      if current = NULL then kreturn (NULL, current)
      else kbind (skip_while string_bound True delim current) (\<lambda>start.
        kbind (kget (\<lambda>m. m start)) (\<lambda>c.
        if c = 0 then kreturn (NULL, NULL)
        else kbind (skip_while string_bound False delim start) (\<lambda>en.
          kbind (kget (\<lambda>m. m en)) (\<lambda>c.
          if c \<noteq> 0 then kthen (kput (\<lambda>m. m(en := 0))) (kreturn (start, en + 1))
          else kreturn (start, NULL))))))"

section \<open>Copying ranges\<close>

text \<open>The memory after the bytes \<open>lo\<close> to \<open>hi\<close> of the range at \<open>src\<close> have been copied to \<open>dst\<close>.\<close>

definition copied :: "bmem \<Rightarrow> u64 \<Rightarrow> u64 \<Rightarrow> nat \<Rightarrow> nat \<Rightarrow> bmem" where
  "copied m dst src lo hi = (\<lambda>x. if lo \<le> unat (x - dst) \<and> unat (x - dst) < hi then m (src + (x - dst)) else m x)"

lemma copied_none [simp]: "copied m dst src k k = m"
  by (auto simp: copied_def fun_eq_iff)

lemma unat_of_nat64: "k < 2 ^ 64 \<Longrightarrow> unat (of_nat k :: u64) = k"
  by (simp add: unat_of_nat take_bit_nat_eq_self)

lemma unat_at: "unat (a :: u64) + k < 2 ^ 64 \<Longrightarrow> unat (a + of_nat k) = unat a + k"
  by (simp add: unat_word_ariths unat_of_nat64)

lemma at_index: "k < 2 ^ 64 \<Longrightarrow> x = dst + of_nat k \<longleftrightarrow> unat (x - dst :: u64) = k"
proof
  assume "k < 2 ^ 64" "unat (x - dst) = k"
  then have "x - dst = of_nat k" by (metis of_nat_unat ucast_id)
  then show "x = dst + of_nat k" by (metis add.commute diff_add_cancel)
qed (simp add: unat_of_nat64)

lemma copied_up:
  assumes "lo \<le> k" "k < 2 ^ 64"
  shows "(copied m dst src lo k)(dst + of_nat k := m (src + of_nat k)) = copied m dst src lo (Suc k)"
proof
  fix x
  show "((copied m dst src lo k)(dst + of_nat k := m (src + of_nat k))) x = copied m dst src lo (Suc k) x"
    using at_index [OF assms(2), of x dst] assms
    by (cases "x = dst + of_nat k") (auto simp: copied_def unat_of_nat64 less_Suc_eq)
qed

lemma copied_down:
  assumes "k < hi" "k < 2 ^ 64"
  shows "(copied m dst src (Suc k) hi)(dst + of_nat k := m (src + of_nat k)) = copied m dst src k hi"
proof
  fix x
  show "((copied m dst src (Suc k) hi)(dst + of_nat k := m (src + of_nat k))) x = copied m dst src k hi x"
    using at_index [OF assms(2), of x dst] assms
    by (cases "x = dst + of_nat k") (auto simp: copied_def unat_of_nat64 Suc_le_eq le_less)
qed

text \<open>Which source bytes a copy has not overwritten yet.\<close>

lemma copied_fresh:
  assumes "unat src + k < 2 ^ 64" and "unat src + k < unat dst + lo \<or> unat dst + hi \<le> unat src + k"
    and "unat dst + hi \<le> 2 ^ 64"
  shows "copied m dst src lo hi (src + of_nat k) = m (src + of_nat k)"
proof -
  have "unat (src + of_nat k - dst) =
      (if unat dst \<le> unat src + k then unat src + k - unat dst else unat src + k + 2 ^ 64 - unat dst)"
    using unat_sub_if' [of "src + of_nat k" dst] unat_at [OF assms(1)] by simp
  then have "\<not> (lo \<le> unat (src + of_nat k - dst) \<and> unat (src + of_nat k - dst) < hi)"
    using assms unat_bound64 [of dst] by (auto split: if_splits)
  then show ?thesis by (auto simp: copied_def)
qed

lemma memmove_spec:
  assumes r: "unat src + unat n < 2 ^ 64" "unat dst + unat n < 2 ^ 64"
  shows "kwp (memmove dst src n) (\<lambda>r t. r = dst \<and> t = copied m dst src 0 (unat n)) (\<lambda>_ _. False) m"
proof -
  let ?N = "unat n"
  have ov: "src < dst \<and> dst < src + n \<longleftrightarrow> unat src < unat dst \<and> unat dst < unat src + ?N"
    using unat_at [of src ?N] r by (simp add: word_less_nat_alt of_nat_unat ucast_id)
  have dec: "w - 1 = of_nat k \<and> unat w = Suc k" if "w = of_nat (Suc k)" "Suc k < 2 ^ 64" for w :: u64 and k
    using that unat_of_nat64 [of "Suc k"] by simp
  show ?thesis
  proof (cases "src < dst \<and> dst < src + n")
    case True
    then have lt: "unat src < unat dst" using ov by simp
    let ?I = "\<lambda>(d, s, w :: u64) t. \<exists>k\<le>?N. d = dst + of_nat k \<and> s = src + of_nat k \<and> w = of_nat k \<and>
      t = copied m dst src k ?N"
    show ?thesis
      unfolding memmove_def if_P [OF True]
    proof (rule kwp_seq [where P = "\<lambda>_ t. t = copied m dst src 0 ?N"], rule kwp_while [where I = ?I and \<mu> = "\<lambda>(d, s, w :: u64). unat w"])
      show "?I (dst + n, src + n, n) m" by (auto simp: of_nat_unat ucast_id intro!: exI [of _ ?N])
    next
      fix y t assume I: "?I y t" and g: "case y of (d, s, n) \<Rightarrow> 0 < n"
      obtain k where k: "k \<le> ?N" "y = (dst + of_nat k, src + of_nat k, of_nat k)" "t = copied m dst src k ?N"
        using I by (cases y) auto
      obtain j where j: "k = Suc j" using g k(2) by (cases k) auto
      have N: "Suc j < 2 ^ 64" using k(1) j unat_bound64 [of n] by linarith
      have fresh: "t (src + of_nat j) = m (src + of_nat j)"
        unfolding k(3) j using r lt k(1) j by (intro copied_fresh) auto
      have cd: "t(dst + of_nat j := m (src + of_nat j)) = copied m dst src j ?N"
        unfolding k(3) j using k(1) j N by (intro copied_down) auto
      show "kwp (case y of (d, s, n) \<Rightarrow> kthen (kput (\<lambda>m. m(d - 1 := m (s - 1)))) (kreturn (d - 1, s - 1, n - 1)))
          (\<lambda>z u. ?I z u \<and> (case z of (d, s, w) \<Rightarrow> unat w) < (case y of (d, s, w) \<Rightarrow> unat w)) (\<lambda>_ _. False) t"
        using k(1) j fresh cd N unat_of_nat64 [of j] unat_of_nat64 [of "Suc j"]
        by (auto simp: k(2) kwp_simps intro!: exI [of _ j])
      show "0 < (case y of (d, s, w) \<Rightarrow> unat w)" using k(2) j N unat_of_nat64 [of k] by simp
    next
      fix y t assume "?I y t" "\<not> (case y of (d, s, n) \<Rightarrow> 0 < n)"
      then show "t = copied m dst src 0 ?N"
        using unat_of_nat64 unat_bound64 [of n] by (cases y) (fastforce simp: word_less_nat_alt)
    qed (auto simp: kwp_simps)
  next
    case False
    then have disj: "unat dst \<le> unat src \<or> unat src + ?N \<le> unat dst" using ov by auto
    let ?I = "\<lambda>(d, s, w :: u64) t. \<exists>k\<le>?N. d = dst + of_nat k \<and> s = src + of_nat k \<and> w = of_nat (?N - k) \<and>
      t = copied m dst src 0 k"
    show ?thesis
      unfolding memmove_def if_not_P [OF False]
    proof (rule kwp_seq [where P = "\<lambda>_ t. t = copied m dst src 0 ?N"], rule kwp_while [where I = ?I and \<mu> = "\<lambda>(d, s, w :: u64). unat w"])
      show "?I (dst, src, n) m" by (auto simp: of_nat_unat ucast_id intro!: exI [of _ 0])
    next
      fix y t assume I: "?I y t" and g: "case y of (d, s, n) \<Rightarrow> 0 < n"
      obtain k where k: "k \<le> ?N" "y = (dst + of_nat k, src + of_nat k, of_nat (?N - k))" "t = copied m dst src 0 k"
        using I by (cases y) auto
      obtain j where j: "?N - k = Suc j" using g k(2) by (cases "?N - k") auto
      have N: "Suc j < 2 ^ 64" "k < 2 ^ 64" "?N - Suc k = j" using k(1) j unat_bound64 [of n] by linarith+
      have fresh: "t (src + of_nat k) = m (src + of_nat k)"
        unfolding k(3) using r disj k(1) j by (intro copied_fresh) auto
      have cd: "t(dst + of_nat k := m (src + of_nat k)) = copied m dst src 0 (Suc k)"
        unfolding k(3) using N by (intro copied_up) auto
      show "kwp (case y of (d, s, n) \<Rightarrow> kthen (kput (\<lambda>m. m(d := m s))) (kreturn (d + 1, s + 1, n - 1)))
          (\<lambda>z u. ?I z u \<and> (case z of (d, s, w) \<Rightarrow> unat w) < (case y of (d, s, w) \<Rightarrow> unat w)) (\<lambda>_ _. False) t"
        using k(1) j fresh cd N unat_of_nat64 [of j] unat_of_nat64 [of "Suc j"]
        by (auto simp: k(2) kwp_simps algebra_simps intro!: exI [of _ "Suc k"])
      show "0 < (case y of (d, s, w) \<Rightarrow> unat w)" using k(2) j N unat_of_nat64 [of "Suc j"] by simp
    next
      fix y t assume "?I y t" "\<not> (case y of (d, s, n) \<Rightarrow> 0 < n)"
      then obtain k where k: "k \<le> ?N" "\<not> (0 :: u64) < of_nat (?N - k)" "t = copied m dst src 0 k" by (cases y) auto
      then have "?N - k = 0" using unat_of_nat64 [of "?N - k"] unat_bound64 [of n] by (simp add: word_less_nat_alt)
      then show "t = copied m dst src 0 ?N" using k by simp
    qed (auto simp: kwp_simps)
  qed
qed

section \<open>Copying by words\<close>

lemma ld64_bytes:
  "ucast (ld64 m a) = m a" "ucast (drop_bit 8 (ld64 m a)) = m (a + 1)"
  "ucast (drop_bit 16 (ld64 m a)) = m (a + 2)" "ucast (drop_bit 24 (ld64 m a)) = m (a + 3)"
  "ucast (drop_bit 32 (ld64 m a)) = m (a + 4)" "ucast (drop_bit 40 (ld64 m a)) = m (a + 5)"
  "ucast (drop_bit 48 (ld64 m a)) = m (a + 6)" "ucast (drop_bit 56 (ld64 m a)) = m (a + 7)"
  by (rule bit_word_eqI; auto simp: ld64_def bit_simps dest: bit_imp_le_length)+

lemma st64_ld64:
  "st64 d (ld64 m s) t = t(d := m s, d + 1 := m (s + 1), d + 2 := m (s + 2), d + 3 := m (s + 3),
     d + 4 := m (s + 4), d + 5 := m (s + 5), d + 6 := m (s + 6), d + 7 := m (s + 7))"
  by (simp add: st64_def ld64_bytes)

definition disjoint_ranges :: "u64 \<Rightarrow> u64 \<Rightarrow> nat \<Rightarrow> bool" where
  "disjoint_ranges dst src n \<longleftrightarrow> unat src + n < 2 ^ 64 \<and> unat dst + n < 2 ^ 64 \<and>
     (unat src + n \<le> unat dst \<or> unat dst + n \<le> unat src)"

lemma copied_fresh_disjoint:
  assumes "disjoint_ranges dst src n" "k < n" "hi \<le> n"
  shows "copied m dst src 0 hi (src + of_nat k) = m (src + of_nat k)"
  using assms by (intro copied_fresh) (auto simp: disjoint_ranges_def)

lemma copied_word:
  assumes dis: "disjoint_ranges dst src n" and k: "k + 8 \<le> n"
  shows "st64 (dst + of_nat k) (ld64 (copied m dst src 0 k) (src + of_nat k)) (copied m dst src 0 k) =
    copied m dst src 0 (k + 8)"
proof -
  let ?c = "copied m dst src 0 k"
  have n: "n < 2 ^ 64" using dis by (simp add: disjoint_ranges_def)
  have f: "?c (src + of_nat k + of_nat i) = m (src + of_nat (k + i))" if "i < 8" for i
    using copied_fresh_disjoint [OF dis, of "k + i" k m] k that by (simp add: add.assoc)
  have up: "(copied m dst src 0 (k + i))(dst + of_nat k + of_nat i := m (src + of_nat (k + i))) =
      copied m dst src 0 (k + Suc i)" if "i < 8" for i
    using copied_up [of 0 "k + i" m dst src] k n that by (simp add: add.assoc)
  show ?thesis
    unfolding st64_ld64
    using f [of 0] f [of 1] f [of 2] f [of 3] f [of 4] f [of 5] f [of 6] f [of 7]
      up [of 0] up [of 1] up [of 2] up [of 3] up [of 4] up [of 5] up [of 6] up [of 7]
    by (simp add: eval_nat_numeral)
qed

lemma memcpy_words:
  assumes dis: "disjoint_ranges dst src n" and n: "n = unat len" and d7: "7 \<le> unat dst"
  shows "kwp (kwhile n (\<lambda>(d, s). d < dst + len - 7)
      (\<lambda>(d, s). kthen (kput (\<lambda>m. st64 d (ld64 m s) m)) (kreturn (d + 8, s + 8))) (dst, src))
    (\<lambda>(d, s) t. \<exists>k\<le>n. d = dst + of_nat k \<and> s = src + of_nat k \<and> t = copied m dst src 0 k) (\<lambda>_ _. False) m"
proof -
  have N: "unat dst + n < 2 ^ 64" using dis by (simp add: disjoint_ranges_def)
  have "unat (dst + len) = unat dst + n" using unat_at [OF N] n by (simp add: of_nat_unat ucast_id)
  then have e: "unat (dst + len - 7) = unat dst + n - 7"
    using d7 by (simp add: unat_sub word_le_nat_alt)
  have g: "dst + of_nat k < dst + len - 7 \<longleftrightarrow> k + 8 \<le> n" if "k \<le> n" for k
    using unat_at [of dst k] N that d7 by (auto simp: word_less_nat_alt e)
  let ?I = "\<lambda>(d, s) t. \<exists>k\<le>n. d = dst + of_nat k \<and> s = src + of_nat k \<and> t = copied m dst src 0 k"
  show ?thesis
  proof (rule kwp_while [where I = ?I and \<mu> = "\<lambda>(d, s). unat dst + n - unat d"])
    show "?I (dst, src) m" by (auto intro!: exI [of _ 0])
  next
    fix y t assume I: "?I y t" and gy: "case y of (d, s) \<Rightarrow> d < dst + len - 7"
    obtain k where k: "k \<le> n" "y = (dst + of_nat k, src + of_nat k)" "t = copied m dst src 0 k"
      using I by (cases y) auto
    have k8: "k + 8 \<le> n" using g [OF k(1)] gy k(2) by simp
    have u: "unat (dst + of_nat k) = unat dst + k" "unat (dst + of_nat (k + 8)) = unat dst + (k + 8)"
      using N k8 by (intro unat_at; linarith)+
    have a8: "dst + of_nat k + 8 = dst + of_nat (k + 8)" "src + of_nat k + 8 = src + of_nat (k + 8)" by simp_all
    show "kwp (case y of (d, s) \<Rightarrow> kthen (kput (\<lambda>m. st64 d (ld64 m s) m)) (kreturn (d + 8, s + 8)))
        (\<lambda>z u. ?I z u \<and> (case z of (d, s) \<Rightarrow> unat dst + n - unat d) < (case y of (d, s) \<Rightarrow> unat dst + n - unat d))
        (\<lambda>_ _. False) t"
      unfolding k(2,3) prod.case kwp_simps a8 copied_word [OF dis k8]
      using k8 u by (auto intro!: exI [of _ "k + 8"])
    show "0 < (case y of (d, s) \<Rightarrow> unat dst + n - unat d)" using k(2) u(1) k8 by simp
  qed auto
qed

lemma memcpy_bytes:
  assumes dis: "disjoint_ranges dst src n" and n: "n = unat len" and k: "k \<le> n"
  shows "kwp (kwhile n (\<lambda>(d, s). d < dst + len)
      (\<lambda>(d, s). kthen (kput (\<lambda>m. m(d := m s))) (kreturn (d + 1, s + 1))) (dst + of_nat k, src + of_nat k))
    (\<lambda>_ t. t = copied m dst src 0 n) (\<lambda>_ _. False) (copied m dst src 0 k)"
proof -
  have N: "unat dst + n < 2 ^ 64" using dis by (simp add: disjoint_ranges_def)
  have e: "unat (dst + len) = unat dst + n" using unat_at [OF N] n by (simp add: of_nat_unat ucast_id)
  have g: "dst + of_nat k < dst + len \<longleftrightarrow> k < n" if "k \<le> n" for k
    using unat_at [of dst k] N that by (auto simp: word_less_nat_alt e)
  let ?I = "\<lambda>(d, s) t. \<exists>k\<le>n. d = dst + of_nat k \<and> s = src + of_nat k \<and> t = copied m dst src 0 k"
  show ?thesis
  proof (rule kwp_while [where I = ?I and \<mu> = "\<lambda>(d, s). unat dst + n - unat d"])
    show "?I (dst + of_nat k, src + of_nat k) (copied m dst src 0 k)" using k by auto
    show "(case (dst + of_nat k, src + of_nat k) of (d, s) \<Rightarrow> unat dst + n - unat d) \<le> n"
      using unat_at [of dst k] N k by auto
  next
    fix y t assume I: "?I y t" and gy: "case y of (d, s) \<Rightarrow> d < dst + len"
    obtain j where j: "j \<le> n" "y = (dst + of_nat j, src + of_nat j)" "t = copied m dst src 0 j"
      using I by (cases y) auto
    have jn: "j < n" using g [OF j(1)] gy j(2) by simp
    have u: "unat (dst + of_nat j) = unat dst + j" "unat (dst + of_nat (Suc j)) = unat dst + Suc j"
      using N jn by (intro unat_at; linarith)+
    have a1: "dst + of_nat j + 1 = dst + of_nat (Suc j)" "src + of_nat j + 1 = src + of_nat (Suc j)" by simp_all
    have step: "(copied m dst src 0 j)(dst + of_nat j := copied m dst src 0 j (src + of_nat j)) = copied m dst src 0 (Suc j)"
      using copied_up [of 0 j m dst src] copied_fresh_disjoint [OF dis jn, of j m] N jn by simp
    show "kwp (case y of (d, s) \<Rightarrow> kthen (kput (\<lambda>m. m(d := m s))) (kreturn (d + 1, s + 1)))
        (\<lambda>z u. ?I z u \<and> (case z of (d, s) \<Rightarrow> unat dst + n - unat d) < (case y of (d, s) \<Rightarrow> unat dst + n - unat d))
        (\<lambda>_ _. False) t"
      unfolding j(2,3) prod.case kwp_simps a1 step
      using jn u by (auto intro!: exI [of _ "Suc j"])
    show "0 < (case y of (d, s) \<Rightarrow> unat dst + n - unat d)" using j(2) u(1) jn by simp
  next
    fix y t assume "?I y t" "\<not> (case y of (d, s) \<Rightarrow> d < dst + len)"
    then obtain j where "j \<le> n" "\<not> dst + of_nat j < dst + len" "t = copied m dst src 0 j" by (cases y) auto
    then show "t = copied m dst src 0 n" using g [of j] by simp
  qed
qed

lemma memcpy_spec:
  assumes dis: "disjoint_ranges dst src (unat len)" and d: "dst \<noteq> 0"
  shows "kwp (memcpy dst src len) (\<lambda>r t. r = dst \<and> t = copied m dst src 0 (unat len)) (\<lambda>_ _. False) m"
proof -
  let ?n = "unat len"
  let ?P = "\<lambda>(d, s) t. \<exists>k\<le>?n. d = dst + of_nat k \<and> s = src + of_nat k \<and> t = copied m dst src 0 k"
  have first: "kwp (if (dst OR src) AND 7 = 0
            then kwhile ?n (\<lambda>(d, s). d < dst + len - 7)
              (\<lambda>(d, s). kthen (kput (\<lambda>m. st64 d (ld64 m s) m)) (kreturn (d + 8, s + 8))) (dst, src)
            else kreturn (dst, src)) ?P (\<lambda>_ _. False) m"
  proof (cases "(dst OR src) AND 7 = 0")
    case True
    have "dst AND 7 = 0"
    proof -
      have "dst AND 7 = (dst AND (dst OR src)) AND 7" by simp
      also have "\<dots> = dst AND ((dst OR src) AND 7)" by (simp only: and.assoc)
      finally show ?thesis using True by simp
    qed
    then have "take_bit 3 dst = 0" by (simp add: take_bit_eq_mask mask_eq_exp_minus_1)
    then have "unat dst mod 8 = 0" by (metis take_bit_eq_mod unsigned_0 unsigned_take_bit_eq power2_eq_square
          eval_nat_numeral(3) numeral_2_eq_2 unat_0 numeral_3_eq_3 power_Suc power_one_right mult_2 numeral_Bit0)
    moreover have "unat dst \<noteq> 0" using d by (simp add: unat_eq_0)
    ultimately have "7 \<le> unat dst" by presburger
    then show ?thesis using True memcpy_words [OF dis refl] by simp
  qed (auto simp: kwp_simps intro!: exI [of _ 0])
  show ?thesis
    unfolding memcpy_def
  proof (rule kwp_seq [OF first])
    fix x t assume "?P x t"
    then obtain k where k: "k \<le> ?n" "x = (dst + of_nat k, src + of_nat k)" "t = copied m dst src 0 k" by (cases x) auto
    show "kwp (case x of (d, s) \<Rightarrow> kbind (kwhile ?n (\<lambda>(d, s). d < dst + len)
           (\<lambda>(d, s). kthen (kput (\<lambda>m. m(d := m s))) (kreturn (d + 1, s + 1))) (d, s)) (\<lambda>_. kreturn dst))
        (\<lambda>r t. r = dst \<and> t = copied m dst src 0 ?n) (\<lambda>_ _. False) t"
      unfolding k(2,3) prod.case
      by (rule kwp_seq [OF memcpy_bytes [OF dis refl k(1)]]) (simp add: kwp_simps)
  qed
qed

section \<open>Strings and tokens\<close>

primrec cstring :: "bmem \<Rightarrow> u64 \<Rightarrow> u8 list \<Rightarrow> bool" where
  "cstring m a [] \<longleftrightarrow> m a = 0"
| "cstring m a (x # xs) \<longleftrightarrow> m a = x \<and> x \<noteq> 0 \<and> a + 1 \<noteq> 0 \<and> cstring m (a + 1) xs"

text \<open>The addresses of the string and of its NUL byte.\<close>

primrec span :: "u64 \<Rightarrow> nat \<Rightarrow> u64 set" where
  "span a 0 = {a}"
| "span a (Suc n) = insert a (span (a + 1) n)"

lemma cstring_cong: "cstring m a xs \<Longrightarrow> (\<And>x. x \<in> span a (length xs) \<Longrightarrow> m' x = m x) \<Longrightarrow> cstring m' a xs"
  by (induction xs arbitrary: a) auto

lemma cstring_drop:
  "cstring m a (xs @ ys) \<Longrightarrow> cstring m (a + of_nat (length xs)) ys"
  by (induction xs arbitrary: a) (auto simp: add.assoc [symmetric])

lemma cstring_unique: "cstring m a xs \<Longrightarrow> cstring m a ys \<Longrightarrow> xs = ys"
  by (induction xs arbitrary: a ys) (case_tac ys; auto)+

lemma strchr_single:
  assumes "cstring m delim [d]" "delim \<noteq> NULL" "c \<noteq> 0"
  shows "strchr delim c m = (Inr (if c = d then delim else NULL), m)"
proof -
  obtain n where n: "string_bound = Suc (Suc n)"
    using Suc_pred' [of string_bound] Suc_pred' [of "string_bound - 1"] by (simp add: string_bound_def)
  show ?thesis
    unfolding strchr_def n using assms by (auto simp: kbind_def kget_def kreturn_def)
qed

lemma skip_while_eq:
  assumes "cstring m p xs" "cstring m delim [d]" "delim \<noteq> NULL" "length xs < n"
  shows "skip_while n b delim p m = (Inr (p + of_nat (length (takeWhile (\<lambda>c. (c = d) = b) xs))), m)"
  using assms
proof (induction xs arbitrary: p n)
  case Nil
  then obtain k where "n = Suc k" by (cases n) auto
  then show ?case using Nil by (simp add: kbind_def kget_def kreturn_def)
next
  case (Cons x xs)
  then obtain k where k: "n = Suc k" "length xs < k" by (cases n) auto
  have "strchr delim x m = (Inr (if x = d then delim else NULL), m)"
    using Cons.prems by (intro strchr_single) auto
  then show ?case
    using k Cons.prems Cons.IH [of "p + 1" k]
    by (auto simp: kbind_def kget_def kreturn_def algebra_simps)
qed

text \<open>The pieces of a string between runs of a delimiter.\<close>

function tokens :: "u8 \<Rightarrow> u8 list \<Rightarrow> u8 list list" where
  "tokens d xs = (case dropWhile (\<lambda>c. c = d) xs of
       [] \<Rightarrow> []
     | y # ys \<Rightarrow> takeWhile (\<lambda>c. c \<noteq> d) (y # ys) # tokens d (dropWhile (\<lambda>c. c \<noteq> d) (y # ys)))"
  by pat_completeness auto
termination
proof (relation "measure (length \<circ> snd)")
  fix d :: u8 and xs y ys
  assume e: "dropWhile (\<lambda>c. c = d) xs = y # ys"
  then have y: "y \<noteq> d" using hd_dropWhile [of "\<lambda>c. c = d" xs] by auto
  then have "length (dropWhile (\<lambda>c. c \<noteq> d) (y # ys)) \<le> length ys"
    by (simp add: length_dropWhile_le)
  also have "\<dots> < length xs" using e length_dropWhile_le [of "\<lambda>c. c = d" xs] by simp
  finally show "((d, dropWhile (\<lambda>c. c \<noteq> d) (y # ys)), (d, xs)) \<in> measure (length \<circ> snd)" by simp
qed simp

declare tokens.simps [simp del]

lemma tokens_skip: "tokens d (d # xs) = tokens d xs"
  by (subst (1 2) tokens.simps) simp

lemma cstring_fits: "cstring m a xs \<Longrightarrow> unat a + length xs < 2 ^ 64"
proof (induction xs arbitrary: a)
  case Nil
  then show ?case using unat_bound64 [of a] by simp
next
  case (Cons x xs)
  have "unat a + 1 \<noteq> 2 ^ 64"
  proof
    assume "unat a + 1 = 2 ^ 64"
    then have "unat (a + 1) = 0" by (simp add: unat_word_ariths)
    then show False using Cons.prems by (simp add: unat_eq_0)
  qed
  then have "unat a + 1 < 2 ^ 64" using unat_bound64 [of a] by simp
  then have "unat (a + 1) = unat a + 1" using unat_at [of a 1] by simp
  then show ?case using Cons.IH [of "a + 1"] Cons.prems by simp
qed

lemma span_drop: "j + n \<le> k \<Longrightarrow> span (a + of_nat j) n \<subseteq> span a k"
proof (induction j arbitrary: a k)
  case 0
  have "span a n \<subseteq> span a k" if "n \<le> k" for a
    using that
  proof (induction n arbitrary: a k)
    case 0
    then show ?case by (cases k) auto
  next
    case (Suc n)
    then obtain l where "k = Suc l" by (cases k) auto
    then show ?case using Suc.IH [of l "a + 1"] Suc.prems by auto
  qed
  then show ?case using 0 by simp
next
  case (Suc j)
  then obtain l where l: "k = Suc l" by (cases k) auto
  have "span (a + of_nat (Suc j)) n = span ((a + 1) + of_nat j) n" by (simp add: algebra_simps)
  then show ?case using Suc.IH [of l "a + 1"] Suc.prems l by auto
qed

text \<open>Cutting a string at a position with a NUL byte.\<close>

lemma cstring_cut:
  assumes "cstring m a (xs @ c # ys)"
  shows "cstring (m(a + of_nat (length xs) := 0)) a xs"
    "cstring (m(a + of_nat (length xs) := 0)) (a + of_nat (length xs) + 1) ys"
    "a + of_nat (length xs) + 1 \<noteq> 0"
proof -
  let ?p = "a + of_nat (length xs)"
  have tail: "cstring m ?p (c # ys)" using cstring_drop [OF assms] .
  then show "?p + 1 \<noteq> 0" by simp
  have fit: "unat ?p + length (c # ys) < 2 ^ 64" by (rule cstring_fits [OF tail])
  have fresh: "?p \<notin> span b n" if "unat ?p < unat b" "unat b + n < 2 ^ 64" for b n
    using that
  proof (induction n arbitrary: b)
    case (Suc n)
    have "unat (b + 1) = unat b + 1" using Suc.prems(2) unat_at [of b 1] by simp
    then show ?case using Suc.IH [of "b + 1"] Suc.prems by auto
  qed auto
  have p1: "unat (?p + 1) = unat ?p + 1" using fit unat_at [of ?p 1] by simp
  show "cstring (m(?p := 0)) (?p + 1) ys"
  proof (rule cstring_cong)
    show "cstring m (?p + 1) ys" using tail by simp
    show "(m(?p := 0)) x = m x" if "x \<in> span (?p + 1) (length ys)" for x
      using that fresh [of "?p + 1" "length ys"] p1 fit by auto
  qed
  show "cstring (m(?p := 0)) a xs"
    using assms
  proof (induction xs arbitrary: a)
    case (Cons x xs)
    have "unat a + length ((x # xs) @ c # ys) < 2 ^ 64" by (rule cstring_fits [OF Cons.prems])
    then have "unat (a + of_nat (length (x # xs))) = unat a + length (x # xs)" by (intro unat_at) simp
    then have "a + of_nat (length (x # xs)) \<noteq> a" by auto
    then show ?case using Cons.IH [of "a + 1"] Cons.prems by (auto simp: add.assoc)
  qed simp
qed

lemma strtok_run:
  assumes "cur \<noteq> NULL" "skip_while string_bound True delim cur m = (Inr st, m)" "m st \<noteq> 0"
    and "skip_while string_bound False delim st m = (Inr en, m)"
  shows "strtok old cur delim m = (if m en = 0 then (Inr (st, NULL), m) else (Inr (st, en + 1), m(en := 0)))"
  using assms by (simp add: strtok_def kbind_def kthen_def kget_def kput_def kreturn_def)

lemma strtok_spec:
  assumes str: "cstring m cur xs" "cur \<noteq> NULL" and del: "cstring m delim [d]" "delim \<noteq> NULL"
    and sep: "delim \<notin> span cur (length xs)" "delim + 1 \<notin> span cur (length xs)"
  shows "case tokens d xs of
      [] \<Rightarrow> strtok old cur delim m = (Inr (NULL, NULL), m)
    | tok # toks \<Rightarrow> \<exists>start next t. strtok old cur delim m = (Inr (start, next), t) \<and> start \<noteq> NULL \<and>
        cstring t start tok \<and> cstring t delim [d] \<and>
        (if next = NULL then toks = []
         else \<exists>rest. cstring t next rest \<and> tokens d rest = toks \<and> span next (length rest) \<subseteq> span cur (length xs))"
proof -
  have fits: "length xs < string_bound" using cstring_fits [OF str(1)] by (simp add: string_bound_def)
  let ?a = "takeWhile (\<lambda>c. c = d) xs" and ?ys = "dropWhile (\<lambda>c. c = d) xs"
  let ?start = "cur + of_nat (length ?a)"
  have ys: "cstring m ?start ?ys" using str(1) cstring_drop [of m cur ?a ?ys] by simp
  have sk: "skip_while string_bound True delim cur m = (Inr ?start, m)"
    using skip_while_eq [OF str(1) del fits, of True] by simp
  show ?thesis
  proof (cases ?ys)
    case Nil
    then have "tokens d xs = []" by (subst tokens.simps) (simp only: list.case)
    then show ?thesis using ys sk str(2) Nil by (simp add: strtok_def kbind_def kget_def kreturn_def)
  next
    case (Cons y zs)
    let ?tok = "takeWhile (\<lambda>c. c \<noteq> d) ?ys" and ?r = "dropWhile (\<lambda>c. c \<noteq> d) ?ys"
    have tk: "tokens d xs = ?tok # tokens d ?r" using Cons by (subst tokens.simps) simp
    have yfit: "length ?ys < string_bound" using fits length_dropWhile_le [of "\<lambda>c. c = d" xs] by simp
    let ?fin = "?start + of_nat (length ?tok)"
    have sk2: "skip_while string_bound False delim ?start m = (Inr ?fin, m)"
      using skip_while_eq [OF ys del yfit, of False] by simp
    have c0: "m ?start \<noteq> 0" using ys Cons by simp
    have st0: "?start \<noteq> NULL"
    proof -
      have "unat ?start = unat cur + length ?a"
        using cstring_fits [OF str(1)] length_takeWhile_le [of "\<lambda>c. c = d" xs] by (intro unat_at) simp
      then show ?thesis using str(2) by (auto simp: NULL_def unat_eq_0)
    qed
    have tail: "cstring m ?fin ?r" using ys cstring_drop [of m ?start ?tok ?r] by simp
    show ?thesis
    proof (cases ?r)
      case Nil
      then have "m ?fin = 0" using tail by (metis cstring.simps(1))
      then have run: "strtok old cur delim m = (Inr (?start, NULL), m)"
        using strtok_run [OF str(2) sk c0 sk2, of old] by (metis (full_types))
      have eq: "?tok = ?ys" using Nil by (metis takeWhile_dropWhile_id append_Nil2)
      have "tokens d ?r = []" unfolding Nil by (simp add: tokens.simps [of d "[]"])
      then have tk': "tokens d xs = [?ys]" using tk eq by metis
      show ?thesis unfolding tk' list.case using run st0 ys del(1) by (intro exI conjI) (rule run, auto)
    next
      case (Cons e rest)
      have "e = d" using Cons hd_dropWhile [of "\<lambda>c. c \<noteq> d" ?ys] by auto
      have split: "cstring m ?start (?tok @ e # rest)" using ys Cons takeWhile_dropWhile_id [of "\<lambda>c. c \<noteq> d" ?ys] by simp
      have "m ?fin \<noteq> 0" using tail Cons by (metis cstring.simps(2))
      then have run: "strtok old cur delim m = (Inr (?start, ?fin + 1), m(?fin := 0))"
        using strtok_run [OF str(2) sk c0 sk2, of old] by (metis (full_types))
      have len: "length xs = length ?a + (length ?tok + Suc (length rest))"
      proof -
        have "xs = ?a @ ?tok @ e # rest" using Cons by (metis takeWhile_dropWhile_id)
        then show ?thesis by (metis length_append length_Cons)
      qed
      have sp: "span (cur + of_nat (length ?a + length ?tok)) 0 \<subseteq> span cur (length xs)"
        "span (cur + of_nat (length ?a + length ?tok + 1)) (length rest) \<subseteq> span cur (length xs)"
        using len by (intro span_drop; simp)+
      then have "?fin \<in> span cur (length xs)" by (simp add: add.assoc)
      then have "cstring (m(?fin := 0)) delim [d]" using del(1) sep by auto
      moreover have "span (?fin + 1) (length rest) \<subseteq> span cur (length xs)" using sp(2) by (simp add: ac_simps)
      ultimately have "?start \<noteq> NULL \<and> cstring (m(?fin := 0)) ?start ?tok \<and>
          cstring (m(?fin := 0)) delim [d] \<and> ?fin + 1 \<noteq> NULL \<and> cstring (m(?fin := 0)) (?fin + 1) rest \<and>
          tokens d rest = tokens d ?r \<and> span (?fin + 1) (length rest) \<subseteq> span cur (length xs)"
        using st0 cstring_cut [OF split] Cons \<open>e = d\<close> by (auto simp: tokens_skip NULL_def)
      then show ?thesis unfolding tk list.case using run by auto
    qed
  qed
qed

section \<open>Properties\<close>

text \<open>
  C27. \<^verbatim>\<open>memmove\<close> copies correctly whether or not the two ranges overlap and in whichever order they
  lie: it returns its destination, byte \<open>i\<close> of the destination range is byte \<open>i\<close> of the source range
  as it was before the call, and no other byte changes.\<close>

theorem memmove_correct:
  assumes "unat src + unat n < 2 ^ 64" "unat dst + unat n < 2 ^ 64"
  shows "memmove dst src n m =
    (Inr dst, \<lambda>x. if unat (x - dst) < unat n then m (src + (x - dst)) else m x)"
proof -
  obtain x t where "memmove dst src n m = (Inr x, t)" "x = dst \<and> t = copied m dst src 0 (unat n)"
    using kwp_total [OF memmove_spec [OF assms]] by blast
  then show ?thesis by (simp add: copied_def)
qed

theorem memmove_correct_witness:
  "memmove 101 100 3 (\<lambda>x. ucast x) =
     (Inr 101, \<lambda>x. if unat (x - 101) < 3 then ucast (100 + (x - 101)) else ucast x)"
  using memmove_correct [of 100 3 101 "\<lambda>x. ucast x"] by simp

text \<open>
  \<^verbatim>\<open>strtok\<close> with a one-character delimiter string \<open>d\<close> takes the first of the delimiter-free
  pieces of the string (runs of delimiters count once) and leaves its static pointer where the
  remaining pieces start: when the string has no piece it returns NULL and forgets the string;
  otherwise the returned pointer is the NUL-terminated first piece, the delimiter string is intact, and
  the pointer kept for the next call is NULL when no piece is left and otherwise points to a string
  inside the original one whose pieces are the remaining pieces.\<close>

theorem strtok_correct:
  assumes "cstring m cur xs" "cur \<noteq> NULL" and "cstring m delim [d]" "delim \<noteq> NULL"
    and "delim \<notin> span cur (length xs)" "delim + 1 \<notin> span cur (length xs)"
  shows "case tokens d xs of
      [] \<Rightarrow> strtok old cur delim m = (Inr (NULL, NULL), m)
    | tok # toks \<Rightarrow> \<exists>start next t. strtok old cur delim m = (Inr (start, next), t) \<and> start \<noteq> NULL \<and>
        cstring t start tok \<and> cstring t delim [d] \<and>
        (if next = NULL then toks = []
         else \<exists>rest. cstring t next rest \<and> tokens d rest = toks \<and> span next (length rest) \<subseteq> span cur (length xs))"
  using strtok_spec [OF assms] .

definition demo_path :: bmem where
  "demo_path = (\<lambda>_. 0)(100 := 47, 101 := 97, 102 := 98, 103 := 47, 104 := 99, 200 := 47)"

theorem strtok_correct_witness:
  "\<exists>start next t. strtok 0 100 200 demo_path = (Inr (start, next), t) \<and> start \<noteq> NULL \<and>
     cstring t start [97, 98] \<and> next \<noteq> NULL \<and> (\<exists>rest. cstring t next rest \<and> tokens 47 rest = [[99]])"
proof -
  have "tokens 47 [47, 97, 98, 47, 99] = [[97, 98], [99]]" by (simp add: tokens.simps)
  then show ?thesis
    using strtok_correct [of demo_path 100 "[47, 97, 98, 47, 99]" 200 47 0]
    by (auto simp: demo_path_def NULL_def split: if_splits)
qed

end
