(* ===== verification/Fs_State.thy ===== *)
theory Fs_State
  imports Sched Strings
begin

text \<open>
  The state of the file system layers (\<^verbatim>\<open>kernel/vfs.h\<close>, \<^verbatim>\<open>kernel/rfs.h\<close>, \<^verbatim>\<open>kernel/ramdev.h\<close>,
  \<^verbatim>\<open>kernel/proc_file.h\<close>, \<^verbatim>\<open>util/hash_table.h\<close>, \<^verbatim>\<open>spike_interface/spike_file.h\<close>) as an extension of the
  kernel state, and the access to bytes of physical memory that they share.

  The structures of the virtual file system are allocated one to a page with \<^verbatim>\<open>alloc_page\<close>; the model
  keeps one store per structure type, indexed by the address of its page, as a typed view of memory.
  The disk blocks, the I/O buffer, the free map, disk inodes and user buffers stay in the untyped
  physical memory \<open>pmem\<close> of the page allocator and are read and written as bytes.  An access through a
  null pointer, or outside an array, is \<open>Fault\<close>.
\<close>

section \<open>Bytes of a page\<close>

definition byte_at :: "(9 word \<Rightarrow> u64) \<Rightarrow> nat \<Rightarrow> u8" where
  "byte_at c n = ucast (drop_bit (8 * (n mod 8)) (c (of_nat (n div 8))))"

definition of_bytes :: "(nat \<Rightarrow> u8) \<Rightarrow> 9 word \<Rightarrow> u64" where
  "of_bytes f i = ld64 (\<lambda>a. f (8 * unat i + unat a)) 0"

definition page_bytes :: "'z pmm_state_scheme \<Rightarrow> u64 \<Rightarrow> nat \<Rightarrow> u8" where
  "page_bytes s p = byte_at (pmem s p)"

definition set_bytes :: "u64 \<Rightarrow> (nat \<Rightarrow> u8) \<Rightarrow> 'z pmm_state_scheme \<Rightarrow> 'z pmm_state_scheme" where
  "set_bytes p f = set_page p (of_bytes f)"

lemma byte_of_bytes:
  assumes "n < 4096"
  shows "byte_at (of_bytes f) n = f n"
proof -
  have "unat (of_nat (n div 8) :: 9 word) = n div 8"
    using assms by (simp add: unat_of_nat take_bit_nat_eq_self)
  then have eq: "of_bytes f (of_nat (n div 8)) = ld64 (\<lambda>a. f (8 * (n div 8) + unat a)) 0"
    by (simp add: of_bytes_def)
  have n: "n = 8 * (n div 8) + n mod 8" by simp
  have "n mod 8 \<in> {0, 1, 2, 3, 4, 5, 6, 7}" using mod_less_divisor [of 8 n] by (auto simp del: mod_less_divisor)
  then show ?thesis
    unfolding byte_at_def eq
    by (elim insertE emptyE; subst (3) n) (simp_all add: ld64_bytes)
qed

lemma page_bytes_set_bytes [simp]:
  "page_bytes (set_bytes p f s) q n = (if q = p \<and> n < 4096 then f n else
     if q = p then byte_at (of_bytes f) n else page_bytes s q n)"
  by (simp add: page_bytes_def set_bytes_def set_page_def byte_of_bytes)

text \<open>A little-endian \<^verbatim>\<open>int\<close> at a byte offset.\<close>

definition rd32w :: "(nat \<Rightarrow> u8) \<Rightarrow> nat \<Rightarrow> u32" where
  "rd32w f k = ucast (f k) OR push_bit 8 (ucast (f (k + 1))) OR push_bit 16 (ucast (f (k + 2))) OR
     push_bit 24 (ucast (f (k + 3)))"

definition rd32 :: "(nat \<Rightarrow> u8) \<Rightarrow> nat \<Rightarrow> int" where
  "rd32 f k = sint (rd32w f k)"

definition wr32 :: "nat \<Rightarrow> int \<Rightarrow> (nat \<Rightarrow> u8) \<Rightarrow> nat \<Rightarrow> u8" where
  "wr32 k v f = (let w = word_of_int v :: u32 in
     f(k := ucast w, k + 1 := ucast (drop_bit 8 w), k + 2 := ucast (drop_bit 16 w), k + 3 := ucast (drop_bit 24 w)))"

text \<open>\<^verbatim>\<open>memcpy\<close> of \<open>n\<close> bytes \<open>g\<close> to offset \<open>off\<close> of a page.\<close>

definition splice :: "nat \<Rightarrow> nat \<Rightarrow> (nat \<Rightarrow> u8) \<Rightarrow> (nat \<Rightarrow> u8) \<Rightarrow> nat \<Rightarrow> u8" where
  "splice off n g f = (\<lambda>i. if off \<le> i \<and> i < off + n then g (i - off) else f i)"

definition fits_int :: "int \<Rightarrow> bool" where
  "fits_int v \<longleftrightarrow> - (2 ^ 31) \<le> v \<and> v < 2 ^ 31"

lemma rd32w_wr32: "rd32w (wr32 k v f) k = word_of_int v"
proof (rule bit_word_eqI)
  fix n assume "n < LENGTH(32)"
  then have "n < 8 \<or> 8 \<le> n \<and> n < 16 \<or> 16 \<le> n \<and> n < 24 \<or> 24 \<le> n \<and> n < 32" by simp linarith
  then show "bit (rd32w (wr32 k v f) k) n \<longleftrightarrow> bit (word_of_int v :: u32) n"
    by (elim disjE) (auto simp: rd32w_def wr32_def Let_def bit_simps dest: bit_imp_le_length)
qed

lemma rd32_wr32 [simp]: "fits_int v \<Longrightarrow> rd32 (wr32 k v f) k = v"
  unfolding rd32_def rd32w_wr32 by (simp add: fits_int_def sint_sbintrunc' signed_take_bit_int_eq_self)

lemma rd32_wr32_other [simp]: "j + 4 \<le> k \<or> k + 4 \<le> j \<Longrightarrow> rd32 (wr32 k v f) j = rd32 f j"
  by (auto simp: rd32_def rd32w_def wr32_def Let_def)

lemma rd32_cong: "(\<And>i. k \<le> i \<Longrightarrow> i < k + 4 \<Longrightarrow> f i = g i) \<Longrightarrow> rd32 f k = rd32 g k"
  by (simp add: rd32_def rd32w_def)

lemma rd32_fits: "fits_int (rd32 f k)"
  using sint_range_size [of "rd32w f k"] by (simp add: fits_int_def rd32_def word_size)

section \<open>Bytes of physical memory\<close>

definition load_byte :: "'z pmm_state_scheme \<Rightarrow> u64 \<Rightarrow> u8" where
  "load_byte s a = page_bytes s (ROUNDDOWN a PGSIZE) (unat (a mod PGSIZE))"

definition store_byte :: "u64 \<Rightarrow> u8 \<Rightarrow> 'z pmm_state_scheme \<Rightarrow> 'z pmm_state_scheme" where
  "store_byte a b s = (let p = ROUNDDOWN a PGSIZE in set_bytes p ((page_bytes s p)(unat (a mod PGSIZE) := b)) s)"

definition load_bytes :: "'z pmm_state_scheme \<Rightarrow> u64 \<Rightarrow> nat \<Rightarrow> u8 list" where
  "load_bytes s a n = map (\<lambda>i. load_byte s (a + of_nat i)) [0..<n]"

primrec store_bytes :: "u64 \<Rightarrow> u8 list \<Rightarrow> 'z pmm_state_scheme \<Rightarrow> 'z pmm_state_scheme" where
  "store_bytes a [] s = s"
| "store_bytes a (b # bs) s = store_bytes (a + 1) bs (store_byte a b s)"

text \<open>
  The NUL-terminated string at an address, as its bytes without the NUL; \<open>None\<close> when no NUL byte is
  found within \<open>n\<close> bytes.
\<close>

primrec load_string :: "nat \<Rightarrow> 'z pmm_state_scheme \<Rightarrow> u64 \<Rightarrow> u8 list option" where
  "load_string 0 s a = None"
| "load_string (Suc n) s a = (if load_byte s a = 0 then Some []
     else map_option (Cons (load_byte s a)) (load_string n s (a + 1)))"

text \<open>\<^verbatim>\<open>strcpy\<close> from a buffer that has a NUL byte at an index below \<open>n\<close>: bytes copied, NUL included.\<close>

definition cstr_len :: "nat \<Rightarrow> (nat \<Rightarrow> u8) \<Rightarrow> nat" where
  "cstr_len n f = length (takeWhile (\<lambda>i. f i \<noteq> 0) [0..<n])"

section \<open>Structures\<close>

text \<open>\<^verbatim>\<open>struct vinode_ops\<close> has two instances; a pointer to one is its name.\<close>

datatype vinode_ops = rfs_i_ops | hostfs_i_ops

datatype get_superblock_fn = rfs_get_superblock_fn | hostfs_get_superblock_fn

record dentry =
  d_name :: "u8 list"
  d_ref :: int
  dentry_inode :: u64
  d_parent :: u64
  d_sb :: u64

record vfs_file =
  f_status :: int
  f_readable :: int
  f_writable :: int
  f_offset :: int
  f_dentry :: u64

record device =
  dev_name :: "u8 list"
  dev_id :: int
  dev_fs_type :: u64

record file_system_type =
  type_num :: int
  get_superblock :: get_superblock_fn

record super_block =
  sb_magic :: int
  sb_size :: int
  sb_nblocks :: int
  sb_ninodes :: int
  s_root :: u64
  s_dev :: u64
  s_fs_info :: u64

record vinode =
  vi_inum :: int
  vi_ref :: int
  vi_size :: int
  vi_type :: int
  vi_nlinks :: int
  vi_blocks :: int
  vi_addrs :: "nat \<Rightarrow> int"
  i_fs_info :: u64
  vi_sb :: u64
  i_ops :: vinode_ops

record rfs_device =
  d_address :: u64
  d_blocks :: int
  d_blocksize :: int
  iobuffer :: u64

record rfs_dir_cache =
  block_count :: int
  dir_base_addr :: u64

record proc_file_management =
  cwd :: u64
  opened_files :: "nat \<Rightarrow> vfs_file"
  nfiles :: int

record hash_node =
  hn_next :: u64
  hn_key :: u64
  hn_value :: u64

text \<open>The name in a stored dentry key is a pointer to the name of the dentry, not a copy.\<close>

record dentry_key =
  dk_parent :: u64
  dk_name :: u64

record vinode_key =
  vk_inum :: int
  vk_sb :: u64

record spike_file_t =
  kfd :: int
  refcnt :: u32

record frontend_stat =
  fs_ino :: u64
  fs_mode :: u32
  fs_nlink :: u32
  fs_size :: u64
  fs_blocks :: u64

datatype host_call =
    HTIFSYS_openat int "u8 list" i32 i32
  | HTIFSYS_close int
  | HTIFSYS_read int u64
  | HTIFSYS_pread int u64 u64
  | HTIFSYS_write int "u8 list"
  | HTIFSYS_lseek int u64 i32
  | HTIFSYS_fstat int
  | HTIFSYS_getmainvars u64 u64

text \<open>What the host answers: the return value, the bytes it put into the buffer and the file status.\<close>

record host_result =
  h_ret :: int
  h_data :: "u8 list"
  h_stat :: frontend_stat

type_synonym host = "host_call list \<Rightarrow> host_result"

record fs_state = kernel_state +
  vinodes :: "u64 \<Rightarrow> vinode"
  dentries :: "u64 \<Rightarrow> dentry"
  files :: "u64 \<Rightarrow> vfs_file"
  devices :: "u64 \<Rightarrow> device"
  fs_types :: "u64 \<Rightarrow> file_system_type"
  super_blocks :: "u64 \<Rightarrow> super_block"
  rfs_devices :: "u64 \<Rightarrow> rfs_device"
  dir_caches :: "u64 \<Rightarrow> rfs_dir_cache"
  pfile_tab :: "u64 \<Rightarrow> proc_file_management"
  hash_nodes :: "u64 \<Rightarrow> hash_node"
  dentry_keys :: "u64 \<Rightarrow> dentry_key"
  vinode_keys :: "u64 \<Rightarrow> vinode_key"
  dentry_hash_table :: "nat \<Rightarrow> u64"
  vinode_hash_table :: "nat \<Rightarrow> u64"
  vfs_root_dentry :: u64
  vfs_sb_list :: "nat \<Rightarrow> u64"
  vfs_dev_list :: "nat \<Rightarrow> u64"
  fs_list :: "nat \<Rightarrow> u64"
  rfs_device_list :: "nat \<Rightarrow> u64"
  spike_files :: "nat \<Rightarrow> spike_file_t"
  spike_fds :: "nat \<Rightarrow> u64"
  spike_files_base :: u64
  host_calls :: "host_call list"

text \<open>Constants of \<^verbatim>\<open>util/types.h\<close>, \<^verbatim>\<open>kernel/vfs.h\<close> and \<^verbatim>\<open>spike_interface/spike_file.h\<close>.\<close>

definition FILE_I :: int where "FILE_I = 0"
definition DIR_I :: int where "DIR_I = 1"
definition LSEEK_SET :: int where "LSEEK_SET = 0"
definition LSEEK_CUR :: int where "LSEEK_CUR = 1"
definition MOUNT_DEFAULT :: int where "MOUNT_DEFAULT = 0"
definition MOUNT_AS_ROOT :: int where "MOUNT_AS_ROOT = 1"
definition MASK_FILEMODE :: i32 where "MASK_FILEMODE = 3"
definition O_RDONLY :: i32 where "O_RDONLY = 0"
definition O_WRONLY :: i32 where "O_WRONLY = 1"
definition O_RDWR :: i32 where "O_RDWR = 2"
definition O_CREAT :: i32 where "O_CREAT = 64"
definition FD_NONE :: int where "FD_NONE = 0"
definition FD_OPENED :: int where "FD_OPENED = 1"
definition MAX_FILES :: nat where "MAX_FILES = 128"
definition MAX_VFS_DEV :: nat where "MAX_VFS_DEV = 10"
definition MAX_MOUNTS :: nat where "MAX_MOUNTS = 10"
definition MAX_SUPPORTED_FS :: nat where "MAX_SUPPORTED_FS = 10"
definition MAX_DENTRY_NAME_LEN :: nat where "MAX_DENTRY_NAME_LEN = 30"
definition MAX_DEVICE_NAME_LEN :: nat where "MAX_DEVICE_NAME_LEN = 30"
definition MAX_PATH_LEN :: nat where "MAX_PATH_LEN = 30"
definition DIRECT_BLKNUM :: nat where "DIRECT_BLKNUM = 10"

section \<open>Access to structures\<close>

text \<open>A page for a structure that is written right away: the null page is not writable.\<close>

definition new_page :: "('z pmm_state_scheme, u64) km" where
  "new_page = kbind alloc_page (\<lambda>p. if p = 0 then kraise (Fault ''write to NULL page'') else kreturn p)"

definition check_ptr :: "u64 \<Rightarrow> ('s, unit) km" where
  "check_ptr p = (if p = 0 then kraise (Fault ''NULL pointer'') else kreturn ())"

definition get_vinode :: "u64 \<Rightarrow> ('z fs_state_scheme, vinode) km" where
  "get_vinode p = kthen (check_ptr p) (kget (\<lambda>s. vinodes s p))"

definition upd_vinode :: "u64 \<Rightarrow> (vinode \<Rightarrow> vinode) \<Rightarrow> ('z fs_state_scheme, unit) km" where
  "upd_vinode p f = kthen (check_ptr p) (kput (\<lambda>s. s\<lparr>vinodes := (vinodes s)(p := f (vinodes s p))\<rparr>))"

definition get_dentry :: "u64 \<Rightarrow> ('z fs_state_scheme, dentry) km" where
  "get_dentry p = kthen (check_ptr p) (kget (\<lambda>s. dentries s p))"

definition upd_dentry :: "u64 \<Rightarrow> (dentry \<Rightarrow> dentry) \<Rightarrow> ('z fs_state_scheme, unit) km" where
  "upd_dentry p f = kthen (check_ptr p) (kput (\<lambda>s. s\<lparr>dentries := (dentries s)(p := f (dentries s p))\<rparr>))"

definition get_sb :: "u64 \<Rightarrow> ('z fs_state_scheme, super_block) km" where
  "get_sb p = kthen (check_ptr p) (kget (\<lambda>s. super_blocks s p))"

definition upd_sb :: "u64 \<Rightarrow> (super_block \<Rightarrow> super_block) \<Rightarrow> ('z fs_state_scheme, unit) km" where
  "upd_sb p f = kthen (check_ptr p) (kput (\<lambda>s. s\<lparr>super_blocks := (super_blocks s)(p := f (super_blocks s p))\<rparr>))"

definition get_device :: "u64 \<Rightarrow> ('z fs_state_scheme, device) km" where
  "get_device p = kthen (check_ptr p) (kget (\<lambda>s. devices s p))"

text \<open>\<^verbatim>\<open>strcpy\<close> into an array of \<open>len\<close> bytes that must hold the string and its NUL byte.\<close>

definition copy_name :: "nat \<Rightarrow> u8 list \<Rightarrow> ('s, u8 list) km" where
  "copy_name len name = (if length name < len then kreturn name else kraise (Fault ''string overflows its array''))"

text \<open>The first index below \<open>n\<close> with a property, as the search loops of the source find it.\<close>

definition first_index :: "nat \<Rightarrow> (nat \<Rightarrow> bool) \<Rightarrow> nat option" where
  "first_index n P = find P [0..<n]"

lemma first_index_Some: "first_index n P = Some i \<Longrightarrow> i < n \<and> P i \<and> (\<forall>j<i. \<not> P j)"
  unfolding first_index_def find_Some_iff by (auto simp: less_Suc_eq_le)

lemma first_index_None: "first_index n P = None \<longleftrightarrow> (\<forall>i<n. \<not> P i)"
  unfolding first_index_def find_None_iff by auto

lemmas fs_access_defs = check_ptr_def get_vinode_def upd_vinode_def get_dentry_def upd_dentry_def
  get_sb_def upd_sb_def get_device_def

section \<open>A small instance for the witnesses\<close>

definition blank_vinode :: vinode where
  "blank_vinode = \<lparr>vi_inum = 0, vi_ref = 0, vi_size = 0, vi_type = 0, vi_nlinks = 0, vi_blocks = 0,
     vi_addrs = (\<lambda>_. 0), i_fs_info = 0, vi_sb = 0, i_ops = rfs_i_ops\<rparr>"

definition blank_dentry :: dentry where
  "blank_dentry = \<lparr>d_name = [], d_ref = 0, dentry_inode = 0, d_parent = 0, d_sb = 0\<rparr>"

definition blank_file :: vfs_file where
  "blank_file = \<lparr>f_status = 0, f_readable = 0, f_writable = 0, f_offset = 0, f_dentry = 0\<rparr>"

text \<open>A file system state with nothing in it, over a kernel state.\<close>

definition blank_fs :: "kernel_state \<Rightarrow> fs_state" where
  "blank_fs k = kernel_state.extend k (fs_state.fields (\<lambda>_. blank_vinode) (\<lambda>_. blank_dentry) (\<lambda>_. blank_file)
     (\<lambda>_. \<lparr>dev_name = [], dev_id = 0, dev_fs_type = 0\<rparr>)
     (\<lambda>_. \<lparr>type_num = 0, get_superblock = rfs_get_superblock_fn\<rparr>)
     (\<lambda>_. \<lparr>sb_magic = 0, sb_size = 0, sb_nblocks = 0, sb_ninodes = 0, s_root = 0, s_dev = 0, s_fs_info = 0\<rparr>)
     (\<lambda>_. \<lparr>d_address = 0, d_blocks = 0, d_blocksize = 0, iobuffer = 0\<rparr>)
     (\<lambda>_. \<lparr>block_count = 0, dir_base_addr = 0\<rparr>)
     (\<lambda>_. \<lparr>cwd = 0, opened_files = (\<lambda>_. blank_file), nfiles = 0\<rparr>)
     (\<lambda>_. \<lparr>hn_next = 0, hn_key = 0, hn_value = 0\<rparr>) (\<lambda>_. \<lparr>dk_parent = 0, dk_name = 0\<rparr>)
     (\<lambda>_. \<lparr>vk_inum = 0, vk_sb = 0\<rparr>) (\<lambda>_. 0) (\<lambda>_. 0) 0 (\<lambda>_. 0) (\<lambda>_. 0) (\<lambda>_. 0) (\<lambda>_. 0)
     (\<lambda>_. \<lparr>kfd = -1, refcnt = 0\<rparr>) (\<lambda>_. 0) 0x1000 [])"

text \<open>Four free pages from 0x80001000 on.\<close>

definition demo_fs :: fs_state where
  "demo_fs = (blank_fs demo_kernel)\<lparr>pmem := (\<lambda>_ _. 0)(0x80001000 := (\<lambda>_. 0)(0 := 0x80002000),
       0x80002000 := (\<lambda>_. 0)(0 := 0x80003000), 0x80003000 := (\<lambda>_. 0)(0 := 0x80004000)),
     g_free_mem_list := 0x80001000\<rparr>"

text \<open>A host on which every call fails.\<close>

definition demo_host :: host where
  "demo_host _ = \<lparr>h_ret = -1, h_data = [], h_stat = \<lparr>fs_ino = 0, fs_mode = 0, fs_nlink = 0, fs_size = 0, fs_blocks = 0\<rparr>\<rparr>"

lemmas demo_fs_defs = demo_fs_def blank_fs_def demo_kernel_def kernel_state.defs fs_state.defs

lemma demo_fs_pmm: "pmm_inv demo_fs [0x80001000, 0x80002000, 0x80003000, 0x80004000]"
  by (simp add: pmm_inv_def pmm_bounds_def demo_fs_defs managed_def PAGE_INDEX_def MAX_PAGE_NUM_def
      PGSIZE_def PMM_MAX_PAGES_def SPIN_LOCK_FREE_def)

end
