(* ===== verification/Spike_File.thy ===== *)
theory Spike_File
  imports Fs_State
begin

text \<open>
  The files of the host machine, \<^verbatim>\<open>spike_interface/spike_file.c\<close>.  A file handle is a pointer into the array
  \<^verbatim>\<open>spike_files\<close>, and an error is a negative number in place of the pointer.  What the host does with a
  system call is not part of the program: it is the parameter \<open>F\<close>, a function from the calls made so
  far to the answer to the last one.
\<close>

definition MAX_FDS :: nat where "MAX_FDS = 128"
definition ENOMEM :: int where "ENOMEM = 12"
definition INIT_FILE_REF :: u32 where "INIT_FILE_REF = 3"

definition frontend_syscall :: "host \<Rightarrow> host_call \<Rightarrow> ('z fs_state_scheme, host_result) km" where
  "frontend_syscall F c = kthen (kput (\<lambda>s. s\<lparr>host_calls := host_calls s @ [c]\<rparr>)) (kget (\<lambda>s. F (host_calls s)))"

section \<open>Handles\<close>

definition file_ptr :: "'z fs_state_scheme \<Rightarrow> nat \<Rightarrow> u64" where
  "file_ptr s i = spike_files_base s + of_nat (8 * i)"

definition file_index :: "u64 \<Rightarrow> ('z fs_state_scheme, nat) km" where
  "file_index f = kbind (kget (\<lambda>s. first_index MAX_FILES (\<lambda>i. file_ptr s i = f))) (\<lambda>r.
     case r of None \<Rightarrow> kraise (Fault ''not a file handle'') | Some i \<Rightarrow> kreturn i)"

definition get_kfd :: "u64 \<Rightarrow> ('z fs_state_scheme, int) km" where
  "get_kfd f = kbind (file_index f) (\<lambda>i. kget (\<lambda>s. kfd (spike_files s i)))"

definition upd_spike :: "nat \<Rightarrow> (spike_file_t \<Rightarrow> spike_file_t) \<Rightarrow> ('z fs_state_scheme, unit) km" where
  "upd_spike i g = kput (\<lambda>s. s\<lparr>spike_files := (spike_files s)(i := g (spike_files s i))\<rparr>)"

section \<open>Operations\<close>

definition spike_file_stat :: "host \<Rightarrow> u64 \<Rightarrow> ('z fs_state_scheme, int \<times> frontend_stat) km" where
  "spike_file_stat F f = kbind (get_kfd f) (\<lambda>k. kbind (frontend_syscall F (HTIFSYS_fstat k)) (\<lambda>r.
     kreturn (h_ret r, h_stat r)))"

definition spike_file_decref :: "host \<Rightarrow> u64 \<Rightarrow> ('z fs_state_scheme, unit) km" where
  "spike_file_decref F f = kbind (file_index f) (\<lambda>i.
     kbind (kget (\<lambda>s. refcnt (spike_files s i))) (\<lambda>old.
     kthen (upd_spike i (\<lambda>g. g\<lparr>refcnt := old - 1\<rparr>))
     (kwhen (old = 2)
       (kbind (kget (\<lambda>s. kfd (spike_files s i))) (\<lambda>k.
        kthen (upd_spike i (\<lambda>g. g\<lparr>refcnt := 0\<rparr>))
        (kbind (frontend_syscall F (HTIFSYS_close k)) (\<lambda>_. kreturn ())))))))"

definition spike_file_close :: "host \<Rightarrow> u64 \<Rightarrow> ('z fs_state_scheme, int) km" where
  "spike_file_close F f =
     (if f = 0 then kreturn (-1)
      else kbind (get_kfd f) (\<lambda>k.
        if k < 0 \<or> int MAX_FDS \<le> k then kraise (Fault ''spike_fds index'')
        else kbind (kget (\<lambda>s. spike_fds s (nat k))) (\<lambda>old.
          kthen (kwhen (old = f) (kput (\<lambda>s. s\<lparr>spike_fds := (spike_fds s)(nat k := 0)\<rparr>)))
          (kthen (spike_file_decref F f)
          (if old \<noteq> f then kreturn (-1)
           else kthen (spike_file_decref F f) (kreturn 0))))))"

definition spike_file_incref :: "u64 \<Rightarrow> ('z fs_state_scheme, unit) km" where
  "spike_file_incref f = kbind (file_index f) (\<lambda>i.
     kbind (kget (\<lambda>s. refcnt (spike_files s i))) (\<lambda>prev.
     kthen (upd_spike i (\<lambda>g. g\<lparr>refcnt := prev + 1\<rparr>))
       (if prev = 0 then kraise (Panic ''prev > 0'') else kreturn ())))"

definition spike_file_write :: "host \<Rightarrow> u64 \<Rightarrow> u8 list \<Rightarrow> ('z fs_state_scheme, int) km" where
  "spike_file_write F f buf = kbind (get_kfd f) (\<lambda>k.
     kbind (frontend_syscall F (HTIFSYS_write k buf)) (\<lambda>r. kreturn (h_ret r)))"

definition spike_file_get_free :: "('z fs_state_scheme, u64) km" where
  "spike_file_get_free = kbind (kget (\<lambda>s. first_index MAX_FILES (\<lambda>i. refcnt (spike_files s i) = 0))) (\<lambda>r.
     case r of None \<Rightarrow> kreturn 0
     | Some i \<Rightarrow> kthen (upd_spike i (\<lambda>g. g\<lparr>refcnt := INIT_FILE_REF\<rparr>)) (kget (\<lambda>s. file_ptr s i)))"

definition spike_file_dup :: "u64 \<Rightarrow> ('z fs_state_scheme, int) km" where
  "spike_file_dup f = kbind (kget (\<lambda>s. first_index MAX_FDS (\<lambda>i. spike_fds s i = 0))) (\<lambda>r.
     case r of None \<Rightarrow> kreturn (-1)
     | Some i \<Rightarrow> kthen (kput (\<lambda>s. s\<lparr>spike_fds := (spike_fds s)(i := f)\<rparr>))
         (kthen (spike_file_incref f) (kreturn (int i))))"

definition spike_file_init :: "('z fs_state_scheme, unit) km" where
  "spike_file_init = kfor [0..<3] (\<lambda>i.
     kbind spike_file_get_free (\<lambda>f.
     kbind (file_index f) (\<lambda>j.
     kthen (upd_spike j (\<lambda>g. g\<lparr>kfd := int i\<rparr>))
     (kbind (spike_file_dup f) (\<lambda>_. kreturn ())))))"

definition AT_FDCWD :: int where "AT_FDCWD = -100"

definition spike_file_openat :: "host \<Rightarrow> int \<Rightarrow> u8 list \<Rightarrow> i32 \<Rightarrow> i32 \<Rightarrow> ('z fs_state_scheme, u64) km" where
  "spike_file_openat F dirfd fn flags mode =
     kbind spike_file_get_free (\<lambda>f.
     if f = 0 then kreturn (word_of_int (- ENOMEM))
     else kbind (frontend_syscall F (HTIFSYS_openat dirfd fn flags mode)) (\<lambda>r.
       if 0 \<le> h_ret r
       then kbind (file_index f) (\<lambda>i.
         kthen (upd_spike i (\<lambda>g. g\<lparr>kfd := sint (word_of_int (h_ret r) :: 32 word)\<rparr>)) (kreturn f))
       else kthen (spike_file_decref F f) (kreturn (word_of_int (h_ret r)))))"

definition spike_file_open :: "host \<Rightarrow> u8 list \<Rightarrow> i32 \<Rightarrow> i32 \<Rightarrow> ('z fs_state_scheme, u64) km" where
  "spike_file_open F fn flags mode = spike_file_openat F AT_FDCWD fn flags mode"

text \<open>The bytes the host returned, placed at the start of the buffer.\<close>

definition host_fill :: "host_result \<Rightarrow> (nat \<Rightarrow> u8) \<Rightarrow> nat \<Rightarrow> u8" where
  "host_fill r buf = splice 0 (length (h_data r)) (\<lambda>i. h_data r ! i) buf"

definition spike_file_pread :: "host \<Rightarrow> u64 \<Rightarrow> (nat \<Rightarrow> u8) \<Rightarrow> u64 \<Rightarrow> u64 \<Rightarrow> ('z fs_state_scheme, int \<times> (nat \<Rightarrow> u8)) km" where
  "spike_file_pread F f buf sz offset = kbind (get_kfd f) (\<lambda>k.
     kbind (frontend_syscall F (HTIFSYS_pread k sz offset)) (\<lambda>r. kreturn (h_ret r, host_fill r buf)))"

definition spike_file_read :: "host \<Rightarrow> u64 \<Rightarrow> (nat \<Rightarrow> u8) \<Rightarrow> u64 \<Rightarrow> ('z fs_state_scheme, int \<times> (nat \<Rightarrow> u8)) km" where
  "spike_file_read F f buf sz = kbind (get_kfd f) (\<lambda>k.
     kbind (frontend_syscall F (HTIFSYS_read k sz)) (\<lambda>r. kreturn (h_ret r, host_fill r buf)))"

definition spike_file_lseek :: "host \<Rightarrow> u64 \<Rightarrow> u64 \<Rightarrow> i32 \<Rightarrow> ('z fs_state_scheme, int) km" where
  "spike_file_lseek F f ptr dir = kbind (get_kfd f) (\<lambda>k.
     kbind (frontend_syscall F (HTIFSYS_lseek k ptr dir)) (\<lambda>r. kreturn (h_ret r)))"

text \<open>The retry loop of \<^verbatim>\<open>spike_file_get\<close> ends in its first round when nobody else changes the count.\<close>

definition spike_file_get :: "int \<Rightarrow> ('z fs_state_scheme, u64) km" where
  "spike_file_get fd =
     (if fd < 0 \<or> int MAX_FDS \<le> fd then kreturn 0
      else kbind (kget (\<lambda>s. spike_fds s (nat fd))) (\<lambda>f.
        if f = 0 then kreturn 0
        else kbind (file_index f) (\<lambda>i.
          kbind (kget (\<lambda>s. refcnt (spike_files s i))) (\<lambda>old_cnt.
          if old_cnt = 0 then kreturn 0
          else kthen (upd_spike i (\<lambda>g. g\<lparr>refcnt := old_cnt + 1\<rparr>)) (kreturn f)))))"

end
