(* ===== verification/Hash_Table.thy ===== *)
theory Hash_Table
  imports Fs_State
begin

text \<open>
  The generic chained hash table of \<^verbatim>\<open>util/hash_table.c\<close> and its two instances in \<^verbatim>\<open>kernel/vfs.c\<close>, the
  cache of dentries and the cache of vinodes.

  A table is described by where its 128 list heads live, how the value of a stored key is read (keys
  are pointers, and the name in a dentry key points into the dentry), and its hash function; two keys
  are equal when their values are.  The locale \<open>hash_layout\<close> states what the generic code relies on of
  such a description; inside it \<^verbatim>\<open>get\<close>, \<^verbatim>\<open>put\<close> and \<^verbatim>\<open>erase\<close> are shown to be lookup, insertion and removal
  of a finite dictionary, with the node pages going through the page allocator.  Both tables of
  the file system are interpretations.
\<close>

section \<open>Tables\<close>

record ('s, 'k) hash_table =
  heads :: "'s \<Rightarrow> nat \<Rightarrow> u64"
  set_heads :: "(nat \<Rightarrow> u64) \<Rightarrow> 's \<Rightarrow> 's"
  key_of :: "'s \<Rightarrow> u64 \<Rightarrow> 'k"
  virtual_hash_func :: "'k \<Rightarrow> nat"

definition HASH_TABLE_SIZE :: nat where
  "HASH_TABLE_SIZE = 128"

definition set_node :: "u64 \<Rightarrow> (hash_node \<Rightarrow> hash_node) \<Rightarrow> ('z fs_state_scheme, unit) km" where
  "set_node p f = kput (\<lambda>s. s\<lparr>hash_nodes := (hash_nodes s)(p := f (hash_nodes s p))\<rparr>)"

text \<open>A chain of more nodes than there are pages is a cycle, on which the source loops forever.\<close>

definition chain_bound :: nat where
  "chain_bound = Suc PMM_MAX_PAGES"

primrec chain_get :: "('z fs_state_scheme, 'k) hash_table \<Rightarrow> 'k \<Rightarrow> nat \<Rightarrow> u64 \<Rightarrow> ('z fs_state_scheme, u64) km" where
  "chain_get H k 0 node = kraise Diverge"
| "chain_get H k (Suc n) node =
     (if node = 0 then kreturn 0
      else kbind (kget id) (\<lambda>s. let nd = hash_nodes s node in
        if key_of H s (hn_key nd) = k then kreturn (hn_value nd) else chain_get H k n (hn_next nd)))"

definition defalut_get :: "('z fs_state_scheme, 'k) hash_table \<Rightarrow> 'k \<Rightarrow> ('z fs_state_scheme, u64) km" where
  "defalut_get H k = kbind (kget (\<lambda>s. heads H s (virtual_hash_func H k))) (chain_get H k chain_bound)"

definition default_put ::
  "('z fs_state_scheme, 'k) hash_table \<Rightarrow> u64 \<Rightarrow> u64 \<Rightarrow> ('z fs_state_scheme, int) km" where
  "default_put H key val =
     kbind alloc_page (\<lambda>node.
     kbind (kget (\<lambda>s. key_of H s key)) (\<lambda>k.
     kbind (defalut_get H k) (\<lambda>old.
       if old \<noteq> 0 then kreturn (-1)
       else kthen (check_ptr node)
         (kthen (set_node node (\<lambda>nd. nd\<lparr>hn_key := key, hn_value := val\<rparr>))
         (let index = virtual_hash_func H k in
          kbind (kget (\<lambda>s. heads H s index)) (\<lambda>first.
          kthen (set_node node (\<lambda>nd. nd\<lparr>hn_next := first\<rparr>))
          (kthen (kput (\<lambda>s. set_heads H ((heads H s)(index := node)) s))
            (kreturn 0))))))))"

text \<open>The pointer \<^verbatim>\<open>head\<close> of \<^verbatim>\<open>default_erase\<close>: first the head of the bucket, then a node.\<close>

definition next_of :: "('z fs_state_scheme, 'k) hash_table \<Rightarrow> nat \<Rightarrow> u64 option \<Rightarrow> 'z fs_state_scheme \<Rightarrow> u64" where
  "next_of H i prev s = (case prev of None \<Rightarrow> heads H s i | Some p \<Rightarrow> hn_next (hash_nodes s p))"

definition link_next ::
  "('z fs_state_scheme, 'k) hash_table \<Rightarrow> nat \<Rightarrow> u64 option \<Rightarrow> u64 \<Rightarrow> 'z fs_state_scheme \<Rightarrow> 'z fs_state_scheme" where
  "link_next H i prev v s = (case prev of
       None \<Rightarrow> set_heads H ((heads H s)(i := v)) s
     | Some p \<Rightarrow> s\<lparr>hash_nodes := (hash_nodes s)(p := (hash_nodes s p)\<lparr>hn_next := v\<rparr>)\<rparr>)"

primrec chain_erase ::
  "('z fs_state_scheme, 'k) hash_table \<Rightarrow> 'k \<Rightarrow> nat \<Rightarrow> nat \<Rightarrow> u64 option \<Rightarrow> ('z fs_state_scheme, int) km" where
  "chain_erase H k i 0 prev = kraise Diverge"
| "chain_erase H k i (Suc n) prev = kbind (kget id) (\<lambda>s.
     let node = next_of H i prev s in
     if node = 0 then kreturn (-1)
     else if key_of H s (hn_key (hash_nodes s node)) \<noteq> k then chain_erase H k i n (Some node)
     else kthen (kput (link_next H i prev (hn_next (hash_nodes s node))))
       (kthen (free_page node) (kreturn 0)))"

definition default_erase :: "('z fs_state_scheme, 'k) hash_table \<Rightarrow> 'k \<Rightarrow> ('z fs_state_scheme, int) km" where
  "default_erase H k = chain_erase H k (virtual_hash_func H k) chain_bound None"

definition hash_table_init :: "('z fs_state_scheme, 'k) hash_table \<Rightarrow> ('z fs_state_scheme, int) km" where
  "hash_table_init H =
     kthen (kput (\<lambda>s. set_heads H (\<lambda>i. if i < HASH_TABLE_SIZE then 0 else heads H s i) s)) (kreturn 0)"

section \<open>The two tables of the file system\<close>

text \<open>A dentry key is a pair of parent and name; \<open>djb2\<close> is the loop over the name.\<close>

definition djb2 :: "u8 list \<Rightarrow> u64" where
  "djb2 name = fold (\<lambda>c h. push_bit 5 h + h + ucast c) name 5381"

definition dentry_hash_func :: "u64 \<times> u8 list \<Rightarrow> nat" where
  "dentry_hash_func k = (let h = djb2 (snd k) in unat ((push_bit 5 h + h + fst k) mod 128))"

definition dentry_key_value :: "'z fs_state_scheme \<Rightarrow> u64 \<Rightarrow> u64 \<times> u8 list" where
  "dentry_key_value s kp = (let key = dentry_keys s kp in (dk_parent key, d_name (dentries s (dk_name key))))"

definition dentry_hash_equal :: "'z fs_state_scheme \<Rightarrow> u64 \<Rightarrow> u64 \<Rightarrow> bool" where
  "dentry_hash_equal s key1 key2 \<longleftrightarrow>
     d_name (dentries s (dk_name (dentry_keys s key1))) = d_name (dentries s (dk_name (dentry_keys s key2))) \<and>
     dk_parent (dentry_keys s key1) = dk_parent (dentry_keys s key2)"

definition vinode_hash_func :: "int \<times> u64 \<Rightarrow> nat" where
  "vinode_hash_func k = nat (fst k mod 128)"

definition vinode_key_value :: "'z fs_state_scheme \<Rightarrow> u64 \<Rightarrow> int \<times> u64" where
  "vinode_key_value s kp = (let key = vinode_keys s kp in (vk_inum key, vk_sb key))"

definition vinode_hash_equal :: "'z fs_state_scheme \<Rightarrow> u64 \<Rightarrow> u64 \<Rightarrow> bool" where
  "vinode_hash_equal s key1 key2 \<longleftrightarrow>
     vk_inum (vinode_keys s key1) = vk_inum (vinode_keys s key2) \<and>
     vk_sb (vinode_keys s key1) = vk_sb (vinode_keys s key2)"

definition dentry_table :: "('z fs_state_scheme, u64 \<times> u8 list) hash_table" where
  "dentry_table = \<lparr>heads = dentry_hash_table, set_heads = (\<lambda>h s. s\<lparr>dentry_hash_table := h\<rparr>),
     key_of = dentry_key_value, virtual_hash_func = dentry_hash_func\<rparr>"

definition vinode_table :: "('z fs_state_scheme, int \<times> u64) hash_table" where
  "vinode_table = \<lparr>heads = vinode_hash_table, set_heads = (\<lambda>h s. s\<lparr>vinode_hash_table := h\<rparr>),
     key_of = vinode_key_value, virtual_hash_func = vinode_hash_func\<rparr>"

text \<open>The comparison functions of the source are equality of key values.\<close>

lemma dentry_hash_equal_iff: "dentry_hash_equal s a b \<longleftrightarrow> dentry_key_value s a = dentry_key_value s b"
  by (auto simp: dentry_hash_equal_def dentry_key_value_def Let_def)

lemma vinode_hash_equal_iff: "vinode_hash_equal s a b \<longleftrightarrow> vinode_key_value s a = vinode_key_value s b"
  by (auto simp: vinode_hash_equal_def vinode_key_value_def Let_def)

definition hash_get_dentry :: "u64 \<Rightarrow> u8 list \<Rightarrow> ('z fs_state_scheme, u64) km" where
  "hash_get_dentry par name = defalut_get dentry_table (par, name)"

definition hash_put_dentry :: "u64 \<Rightarrow> ('z fs_state_scheme, int) km" where
  "hash_put_dentry d =
     kbind new_page (\<lambda>key.
     kbind (get_dentry d) (\<lambda>dn.
     kthen (kput (\<lambda>s. s\<lparr>dentry_keys := (dentry_keys s)(key := \<lparr>dk_parent = d_parent dn, dk_name = d\<rparr>)\<rparr>))
     (kbind (default_put dentry_table key d) (\<lambda>ret.
       kthen (kwhen (ret \<noteq> 0) (free_page key)) (kreturn ret)))))"

definition hash_erase_dentry :: "u64 \<Rightarrow> ('z fs_state_scheme, int) km" where
  "hash_erase_dentry d = kbind (get_dentry d) (\<lambda>dn. default_erase dentry_table (d_parent dn, d_name dn))"

definition hash_get_vinode :: "u64 \<Rightarrow> int \<Rightarrow> ('z fs_state_scheme, u64) km" where
  "hash_get_vinode sb inum = (if inum < 0 then kreturn 0 else defalut_get vinode_table (inum, sb))"

definition hash_put_vinode :: "u64 \<Rightarrow> ('z fs_state_scheme, int) km" where
  "hash_put_vinode vi = kbind (get_vinode vi) (\<lambda>v.
     if vi_inum v < 0 then kreturn (-1)
     else kbind new_page (\<lambda>key.
       kthen (kput (\<lambda>s. s\<lparr>vinode_keys := (vinode_keys s)(key := \<lparr>vk_inum = vi_inum v, vk_sb = vi_sb v\<rparr>)\<rparr>))
       (kbind (default_put vinode_table key vi) (\<lambda>ret.
         kthen (kwhen (ret \<noteq> 0) (free_page key)) (kreturn ret)))))"

definition hash_erase_vinode :: "u64 \<Rightarrow> ('z fs_state_scheme, int) km" where
  "hash_erase_vinode vi = kbind (get_vinode vi) (\<lambda>v.
     if vi_inum v < 0 then kreturn (-1) else default_erase vinode_table (vi_inum v, vi_sb v))"

section \<open>Chains\<close>

primrec node_chain :: "(u64 \<Rightarrow> hash_node) \<Rightarrow> u64 \<Rightarrow> u64 list \<Rightarrow> bool" where
  "node_chain m p [] \<longleftrightarrow> p = 0"
| "node_chain m p (n # ns) \<longleftrightarrow> p = n \<and> n \<noteq> 0 \<and> node_chain m (hn_next (m n)) ns"

lemma node_chain_cong:
  "(\<And>n. n \<in> set ns \<Longrightarrow> hn_next (m' n) = hn_next (m n)) \<Longrightarrow> node_chain m' p ns = node_chain m p ns"
  by (induction ns arbitrary: p) auto

lemma node_chain_remove:
  "node_chain m p (us @ n # vs) \<Longrightarrow> distinct (us @ n # vs) \<Longrightarrow>
   if us = [] then p = n \<and> node_chain m (hn_next (m n)) vs
   else node_chain (m(last us := (m (last us))\<lparr>hn_next := hn_next (m n)\<rparr>)) p (us @ vs)"
proof (induction us arbitrary: p)
  case (Cons u us)
  let ?m = "\<lambda>l. m(l := (m l)\<lparr>hn_next := hn_next (m n)\<rparr>)"
  show ?case
  proof (cases "us = []")
    case True
    have "node_chain (?m u) q vs = node_chain m q vs" for q
      using Cons.prems(2) by (intro node_chain_cong) auto
    then show ?thesis using Cons.prems True by simp
  next
    case False
    then have "u \<noteq> last us" using Cons.prems(2) by auto
    then show ?thesis using Cons False by simp
  qed
qed simp

lemma distinct_pages_bound:
  assumes "pmm_bounds s" "distinct ns" "\<And>n. n \<in> set ns \<Longrightarrow> managed s n"
  shows "length ns \<le> PMM_MAX_PAGES"
proof -
  have "inj_on (\<lambda>p. unat (PAGE_INDEX s p)) (set ns)"
  proof (rule inj_onI)
    fix x y assume "x \<in> set ns" "y \<in> set ns" "unat (PAGE_INDEX s x) = unat (PAGE_INDEX s y)"
    then show "x = y"
      using assms(1) assms(3) [of x] assms(3) [of y] PAGE_INDEX_inj [of s x y]
      by (simp add: pmm_bounds_def unsigned_word_eqI)
  qed
  moreover have "(\<lambda>p. unat (PAGE_INDEX s p)) ` set ns \<subseteq> {..<PMM_MAX_PAGES}"
    using assms managed_index_in_array by auto
  ultimately have "card (set ns) \<le> card {..<PMM_MAX_PAGES}"
    by (metis card_inj_on_le finite_lessThan)
  then show ?thesis using assms(2) by (simp add: distinct_card)
qed


section \<open>The dictionary of a table\<close>

abbreviation node_key :: "('z fs_state_scheme, 'k) hash_table \<Rightarrow> 'z fs_state_scheme \<Rightarrow> u64 \<Rightarrow> 'k" where
  "node_key H s n \<equiv> key_of H s (hn_key (hash_nodes s n))"

text \<open>
  \<open>table_inv H s xs B\<close>: the free pages are \<open>xs\<close>, bucket \<open>i\<close> links the nodes \<open>B i\<close>, every node is in the
  bucket of its key, no key occurs twice, and the nodes are allocated pages of their own.
\<close>

definition table_inv ::
  "('z fs_state_scheme, 'k) hash_table \<Rightarrow> 'z fs_state_scheme \<Rightarrow> u64 list \<Rightarrow> (nat \<Rightarrow> u64 list) \<Rightarrow> bool" where
  "table_inv H s xs B \<longleftrightarrow> pmm_inv s xs \<and>
     (\<forall>i<HASH_TABLE_SIZE. node_chain (hash_nodes s) (heads H s i) (B i) \<and> distinct (map (node_key H s) (B i)) \<and>
        (\<forall>n\<in>set (B i). virtual_hash_func H (node_key H s n) = i \<and> hn_value (hash_nodes s n) \<noteq> 0 \<and>
           managed s n \<and> n \<notin> set xs \<and> ref_of s n = 1)) \<and>
     (\<forall>i<HASH_TABLE_SIZE. \<forall>j<HASH_TABLE_SIZE. i \<noteq> j \<longrightarrow> set (B i) \<inter> set (B j) = {})"

primrec bucket_get ::
  "('z fs_state_scheme, 'k) hash_table \<Rightarrow> 'z fs_state_scheme \<Rightarrow> 'k \<Rightarrow> u64 list \<Rightarrow> u64" where
  "bucket_get H s k [] = 0"
| "bucket_get H s k (n # ns) = (if node_key H s n = k then hn_value (hash_nodes s n) else bucket_get H s k ns)"

definition dict ::
  "('z fs_state_scheme, 'k) hash_table \<Rightarrow> 'z fs_state_scheme \<Rightarrow> (nat \<Rightarrow> u64 list) \<Rightarrow> 'k \<Rightarrow> u64" where
  "dict H s B k = bucket_get H s k (B (virtual_hash_func H k))"

lemma bucket_get_cong:
  "(\<And>n. n \<in> set ns \<Longrightarrow> node_key H t n = node_key H s n \<and> hn_value (hash_nodes t n) = hn_value (hash_nodes s n)) \<Longrightarrow>
   bucket_get H t k ns = bucket_get H s k ns"
  by (induction ns) auto

lemma bucket_get_zero:
  "(\<And>n. n \<in> set ns \<Longrightarrow> hn_value (hash_nodes s n) \<noteq> 0) \<Longrightarrow>
   bucket_get H s k ns = 0 \<longleftrightarrow> k \<notin> node_key H s ` set ns"
  by (induction ns) auto

lemma bucket_get_append:
  "bucket_get H s k (us @ vs) = (if k \<in> node_key H s ` set us then bucket_get H s k us else bucket_get H s k vs)"
  by (induction us) auto

lemma table_invD:
  assumes "table_inv H s xs B"
  shows "pmm_inv s xs"
    and "\<And>i. i < HASH_TABLE_SIZE \<Longrightarrow> node_chain (hash_nodes s) (heads H s i) (B i)"
    and "\<And>i. i < HASH_TABLE_SIZE \<Longrightarrow> distinct (map (node_key H s) (B i))"
    and "\<And>i n. i < HASH_TABLE_SIZE \<Longrightarrow> n \<in> set (B i) \<Longrightarrow>
      virtual_hash_func H (node_key H s n) = i \<and> hn_value (hash_nodes s n) \<noteq> 0 \<and> managed s n \<and> n \<notin> set xs \<and> ref_of s n = 1"
    and "\<And>i j. i < HASH_TABLE_SIZE \<Longrightarrow> j < HASH_TABLE_SIZE \<Longrightarrow> i \<noteq> j \<Longrightarrow> set (B i) \<inter> set (B j) = {}"
  using assms unfolding table_inv_def by blast+

lemma table_invI:
  assumes "pmm_inv s xs"
    and "\<And>i. i < HASH_TABLE_SIZE \<Longrightarrow> node_chain (hash_nodes s) (heads H s i) (B i)"
    and "\<And>i. i < HASH_TABLE_SIZE \<Longrightarrow> distinct (map (node_key H s) (B i))"
    and "\<And>i n. i < HASH_TABLE_SIZE \<Longrightarrow> n \<in> set (B i) \<Longrightarrow>
      virtual_hash_func H (node_key H s n) = i \<and> hn_value (hash_nodes s n) \<noteq> 0 \<and> managed s n \<and> n \<notin> set xs \<and> ref_of s n = 1"
    and "\<And>i j. i < HASH_TABLE_SIZE \<Longrightarrow> j < HASH_TABLE_SIZE \<Longrightarrow> i \<noteq> j \<Longrightarrow> set (B i) \<inter> set (B j) = {}"
  shows "table_inv H s xs B"
  unfolding table_inv_def using assms by blast

lemma chain_get_eq:
  "node_chain (hash_nodes s) p ns \<Longrightarrow> length ns < n \<Longrightarrow>
   chain_get H k n p s = (Inr (bucket_get H s k ns), s)"
proof (induction ns arbitrary: p n)
  case Nil
  then obtain j where "n = Suc j" by (cases n) auto
  then show ?case using Nil by (simp add: kreturn_def)
next
  case (Cons m ns)
  then obtain j where "n = Suc j" "length ns < j" by (cases n) auto
  then show ?case using Cons by (simp add: kbind_def kget_def kreturn_def Let_def)
qed

text \<open>What the generic code needs of a table's description.\<close>

locale hash_layout =
  fixes H :: "('z fs_state_scheme, 'k) hash_table"
  assumes hash_bound: "virtual_hash_func H k < HASH_TABLE_SIZE"
    and heads_set: "heads H (set_heads H h s) = h"
    and key_set: "key_of H (set_heads H h s) = key_of H s"
    and nodes_set: "hash_nodes (set_heads H h s) = hash_nodes s"
    and kernel_set: "kernel_state.truncate (set_heads H h s) = kernel_state.truncate s"
    and heads_nodes: "heads H (s\<lparr>hash_nodes := m\<rparr>) = heads H s"
    and key_nodes: "key_of H (s\<lparr>hash_nodes := m\<rparr>) = key_of H s"
    and heads_fs: "kernel_state.more t = kernel_state.more s \<Longrightarrow> heads H t = heads H s"
    and key_fs: "kernel_state.more t = kernel_state.more s \<Longrightarrow> key_of H t = key_of H s"
begin

lemma set_heads_pmm:
  "pmem (set_heads H h s) = pmem s" "page_ref_count (set_heads H h s) = page_ref_count s"
  "g_free_mem_list (set_heads H h s) = g_free_mem_list s" "pmm_lock (set_heads H h s) = pmm_lock s"
  "free_mem_start_addr (set_heads H h s) = free_mem_start_addr s"
  "free_mem_end_addr (set_heads H h s) = free_mem_end_addr s"
  using arg_cong [OF kernel_set, of pmem] arg_cong [OF kernel_set, of page_ref_count]
    arg_cong [OF kernel_set, of g_free_mem_list] arg_cong [OF kernel_set, of pmm_lock]
    arg_cong [OF kernel_set, of free_mem_start_addr] arg_cong [OF kernel_set, of free_mem_end_addr]
  by (simp_all add: kernel_state.defs)

lemma get_correct:
  assumes "table_inv H s xs B"
  shows "defalut_get H k s = (Inr (dict H s B k), s)"
proof -
  let ?i = "virtual_hash_func H k"
  note D = table_invD [OF assms]
  have "distinct (B ?i)" using D(3) [OF hash_bound] by (simp add: distinct_map)
  then have "length (B ?i) \<le> PMM_MAX_PAGES"
    using D(1) D(4) [OF hash_bound] by (intro distinct_pages_bound [of s]) (auto simp: pmm_inv_def)
  then show ?thesis
    using chain_get_eq [OF D(2) [OF hash_bound], where n = chain_bound and k = k]
    by (simp add: defalut_get_def kbind_def kget_def dict_def chain_bound_def)
qed

lemma fs_alloc: "kernel_state.more (alloc_state x s) = kernel_state.more s"
  by (simp add: alloc_state_def set_ref_def)

lemma fs_push: "kernel_state.more (push_state x s) = kernel_state.more s"
  by (simp add: push_state_def set_ref_def set_dword_def)

lemma alloc_frame:
  "heads H (alloc_state x s) = heads H s" "key_of H (alloc_state x s) = key_of H s"
  "hash_nodes (alloc_state x s) = hash_nodes s"
  using heads_fs [OF fs_alloc] key_fs [OF fs_alloc] by (auto simp: alloc_state_def set_ref_def)

lemma push_frame:
  "heads H (push_state x s) = heads H s" "key_of H (push_state x s) = key_of H s"
  "hash_nodes (push_state x s) = hash_nodes s"
  using heads_fs [OF fs_push] key_fs [OF fs_push] by (auto simp: push_state_def set_ref_def set_dword_def)

lemma alloc_keeps:
  assumes "table_inv H s (x # xs) B"
  shows "table_inv H (alloc_state x s) xs B" "dict H (alloc_state x s) B = dict H s B"
    "\<And>i. i < HASH_TABLE_SIZE \<Longrightarrow> x \<notin> set (B i)"
proof -
  note D = table_invD [OF assms]
  show x: "x \<notin> set (B i)" if "i < HASH_TABLE_SIZE" for i using D(4) [OF that] by auto
  have "PAGE_INDEX s n \<noteq> PAGE_INDEX s x" if "i < HASH_TABLE_SIZE" "n \<in> set (B i)" for i n
    using D(1) D(4) [OF that] x [OF that(1)] that(2) PAGE_INDEX_inj [of s n x]
    by (auto simp: pmm_inv_def pmm_bounds_def)
  then show "table_inv H (alloc_state x s) xs B"
    using assms alloc_state_inv [OF D(1)] unfolding table_inv_def alloc_frame by auto
  show "dict H (alloc_state x s) B = dict H s B"
    unfolding dict_def fun_eq_iff by (intro allI bucket_get_cong) (simp add: alloc_frame)
qed

lemma dict_zero:
  assumes "table_inv H s xs B"
  shows "dict H s B k = 0 \<longleftrightarrow> k \<notin> node_key H s ` set (B (virtual_hash_func H k))"
  unfolding dict_def using table_invD(4) [OF assms hash_bound] by (intro bucket_get_zero) blast

lemma put_fresh:
  assumes inv: "table_inv H s (x # xs) B" and new: "dict H s B (key_of H s key) = 0" and v: "val \<noteq> 0"
  shows "\<exists>t B'. default_put H key val s = (Inr 0, t) \<and> table_inv H t xs B' \<and>
    dict H t B' = (dict H s B)(key_of H s key := val)"
proof -
  let ?k = "key_of H s key" and ?a = "alloc_state x s"
  let ?i = "virtual_hash_func H ?k"
  note D = table_invD [OF inv]
  note A = alloc_keeps [OF inv]
  let ?nd = "(hash_nodes s x)\<lparr>hn_key := key, hn_value := val, hn_next := heads H s ?i\<rparr>"
  let ?m = "(hash_nodes s)(x := ?nd)"
  define t where "t = set_heads H ((heads H s)(?i := x)) (?a\<lparr>hash_nodes := ?m\<rparr>)"
  let ?B = "B(?i := x # B ?i)"
  have x0: "x \<noteq> 0" "managed s x" "x \<notin> set xs" using pmm_invD [OF D(1)] by auto
  have run: "default_put H key val s = (Inr 0, t)"
    using x0(1) new A(2) get_correct [OF A(1), of ?k]
    by (simp add: t_def default_put_def kbind_def kthen_def alloc_page_eq [OF D(1)] kget_def kput_def kreturn_def
        check_ptr_def set_node_def alloc_frame Let_def heads_nodes)
  have tk: "key_of H t = key_of H s" by (simp add: t_def key_set key_nodes alloc_frame)
  have th: "heads H t = (heads H s)(?i := x)" by (simp add: t_def heads_set)
  have tn: "hash_nodes t = ?m" by (simp add: t_def nodes_set)
  have old: "node_key H t n = node_key H s n" if "i < HASH_TABLE_SIZE" "n \<in> set (B i)" for i n
    using A(3) [OF that(1)] that(2) by (auto simp: tk tn)
  have xk: "node_key H t x = ?k" by (simp add: tk tn)
  have pm: "pmm_inv t xs"
    using pmm_inv_cong [of t ?a xs] table_invD(1) [OF A(1)] by (simp add: t_def set_heads_pmm)
  have man: "managed t = managed s" "PAGE_INDEX t = PAGE_INDEX s" "page_ref_count t = page_ref_count ?a"
    by (simp_all add: t_def managed_def PAGE_INDEX_def MAX_PAGE_NUM_def set_heads_pmm fun_eq_iff)
  have chains: "node_chain (hash_nodes t) p (B i) = node_chain (hash_nodes s) p (B i)" if "i < HASH_TABLE_SIZE" for i p
    using A(3) [OF that] by (intro node_chain_cong) (auto simp: tn)
  have xn: "hn_next (hash_nodes t x) = heads H s ?i" by (simp add: tn)
  have nk: "?k \<notin> node_key H s ` set (B ?i)" using new dict_zero [OF inv] by simp
  have keys: "distinct (map (node_key H t) (B i))" "node_key H t ` set (B i) = node_key H s ` set (B i)"
    if i: "i < HASH_TABLE_SIZE" for i
  proof -
    have eq: "map (node_key H t) (B i) = map (node_key H s) (B i)" using old [OF i] by auto
    show "distinct (map (node_key H t) (B i))" unfolding eq by (rule D(3) [OF i])
    show "node_key H t ` set (B i) = node_key H s ` set (B i)" using arg_cong [OF eq, of set] by simp
  qed
  have bucket: "node_chain (hash_nodes t) (heads H t i) (?B i) \<and> distinct (map (node_key H t) (?B i))"
    if i: "i < HASH_TABLE_SIZE" for i
  proof (cases "i = ?i")
    case True
    have "node_chain (hash_nodes t) (heads H t ?i) (x # B ?i)"
      using D(2) [OF hash_bound] chains [OF hash_bound] x0(1) by (simp add: xn th)
    moreover have "distinct (map (node_key H t) (x # B ?i))"
      unfolding list.map distinct.simps(2) list.set_map xk keys(2) [OF hash_bound]
      using nk keys(1) [OF hash_bound] by blast
    ultimately show ?thesis using True by simp
  next
    case False
    then show ?thesis using D(2) [OF i] keys [OF i] chains [OF i] by (simp add: th)
  qed
  have nodes: "virtual_hash_func H (node_key H t n) = i \<and> hn_value (hash_nodes t n) \<noteq> 0 \<and>
      managed t n \<and> n \<notin> set xs \<and> ref_of t n = 1" if i: "i < HASH_TABLE_SIZE" and n: "n \<in> set (?B i)" for i n
  proof (cases "n = x")
    case True
    then have "i = ?i" using n A(3) [OF i] by (auto split: if_splits)
    then show ?thesis using True x0 v xk by (simp add: man tn)
  next
    case False
    then have "n \<in> set (B i)" using n by (auto split: if_splits)
    then show ?thesis
      using table_invD(4) [OF A(1) i, of n] old [OF i, of n] False
      unfolding man by (simp add: tn alloc_frame)
  qed
  have "table_inv H t xs ?B"
    unfolding table_inv_def
    using pm bucket nodes D(5) A(3) by (auto simp: Let_def)
  moreover have "dict H t ?B k = ((dict H s B)(?k := val)) k" for k
  proof -
    have "bucket_get H t k (B (virtual_hash_func H k)) = bucket_get H s k (B (virtual_hash_func H k))"
      using old [OF hash_bound] A(3) [OF hash_bound, of k] by (intro bucket_get_cong) (auto simp: tn)
    moreover have "hn_value (hash_nodes t x) = val" by (simp add: tn)
    ultimately show ?thesis using xk by (auto simp: dict_def)
  qed
  ultimately show ?thesis using run by (intro exI [of _ t] exI [of _ ?B]) (auto simp: fun_eq_iff)
qed

lemma put_present:
  assumes inv: "table_inv H s (x # xs) B" and old: "dict H s B (key_of H s key) \<noteq> 0"
  shows "\<exists>t. default_put H key val s = (Inr (-1), t) \<and> table_inv H t xs B \<and> dict H t B = dict H s B"
proof -
  note A = alloc_keeps [OF inv]
  have "default_put H key val s = (Inr (-1), alloc_state x s)"
    using old A(2) get_correct [OF A(1), of "key_of H s key"]
    by (simp add: default_put_def kbind_def alloc_page_eq [OF table_invD(1) [OF inv]] kget_def kreturn_def alloc_frame)
  then show ?thesis using A by blast
qed

lemma chain_erase_absent:
  "node_chain (hash_nodes s) (next_of H i prev s) ns \<Longrightarrow> length ns < n \<Longrightarrow> k \<notin> node_key H s ` set ns \<Longrightarrow>
   chain_erase H k i n prev s = (Inr (-1), s)"
proof (induction ns arbitrary: prev n)
  case Nil
  then obtain j where "n = Suc j" by (cases n) auto
  then show ?case using Nil by (simp add: kbind_def kget_def kreturn_def)
next
  case (Cons m ns)
  then obtain j where "n = Suc j" "length ns < j" by (cases n) auto
  then show ?case using Cons.IH [of "Some m" j] Cons.prems by (auto simp: kbind_def kget_def next_of_def Let_def)
qed

lemma chain_erase_found:
  "node_chain (hash_nodes s) (next_of H i prev s) (us @ m # vs) \<Longrightarrow> length us < n \<Longrightarrow>
   k \<notin> node_key H s ` set us \<Longrightarrow> node_key H s m = k \<Longrightarrow>
   chain_erase H k i n prev s = kthen (free_page m) (kreturn 0)
     (link_next H i (if us = [] then prev else Some (last us)) (hn_next (hash_nodes s m)) s)"
proof (induction us arbitrary: prev n)
  case Nil
  then obtain j where "n = Suc j" by (cases n) auto
  then show ?case using Nil by (simp add: kbind_def kget_def kthen_def kput_def Let_def)
next
  case (Cons u us)
  then obtain j where "n = Suc j" "length us < j" by (cases n) auto
  then show ?case using Cons.IH [of "Some u" j] Cons.prems by (auto simp: kbind_def kget_def next_of_def Let_def)
qed

lemma link_next_frame:
  "key_of H (link_next H i prev v s) = key_of H s"
    "hn_key (hash_nodes (link_next H i prev v s) n) = hn_key (hash_nodes s n)"
    "hn_value (hash_nodes (link_next H i prev v s) n) = hn_value (hash_nodes s n)"
    "j \<noteq> i \<Longrightarrow> heads H (link_next H i prev v s) j = heads H s j"
    "pmm_inv (link_next H i prev v s) xs = pmm_inv s xs"
    "managed (link_next H i prev v s) = managed s" "page_ref_count (link_next H i prev v s) = page_ref_count s"
    "PAGE_INDEX (link_next H i prev v s) = PAGE_INDEX s"
proof -
  let ?t = "link_next H i prev v s"
  show "key_of H ?t = key_of H s" "hn_key (hash_nodes ?t n) = hn_key (hash_nodes s n)"
    "hn_value (hash_nodes ?t n) = hn_value (hash_nodes s n)" "j \<noteq> i \<Longrightarrow> heads H ?t j = heads H s j"
    by (auto simp: link_next_def key_set key_nodes nodes_set heads_set heads_nodes split: option.split)
  show "pmm_inv ?t xs = pmm_inv s xs"
    by (rule pmm_inv_cong) (auto simp: link_next_def set_heads_pmm split: option.split)
  show "managed ?t = managed s" "page_ref_count ?t = page_ref_count s" "PAGE_INDEX ?t = PAGE_INDEX s"
    by (auto simp: link_next_def set_heads_pmm managed_def PAGE_INDEX_def MAX_PAGE_NUM_def fun_eq_iff split: option.split)
qed

lemma chain_distinct:
  assumes "table_inv H s xs B" "i < HASH_TABLE_SIZE"
  shows "distinct (B i)" "length (B i) < chain_bound"
proof -
  note D = table_invD [OF assms(1)]
  show d: "distinct (B i)" using D(3) [OF assms(2)] by (simp add: distinct_map)
  then have "length (B i) \<le> PMM_MAX_PAGES"
    using D(1) D(4) [OF assms(2)] by (intro distinct_pages_bound [of s]) (auto simp: pmm_inv_def)
  then show "length (B i) < chain_bound" by (simp add: chain_bound_def)
qed

lemma erase_absent:
  assumes inv: "table_inv H s xs B" and none: "dict H s B k = 0"
  shows "default_erase H k s = (Inr (-1), s)"
  unfolding default_erase_def
proof (rule chain_erase_absent)
  let ?i = "virtual_hash_func H k"
  show "node_chain (hash_nodes s) (next_of H ?i None s) (B ?i)"
    using table_invD(2) [OF inv hash_bound] by (simp add: next_of_def)
  show "length (B ?i) < chain_bound" by (rule chain_distinct(2) [OF inv hash_bound])
  show "k \<notin> node_key H s ` set (B ?i)" using none dict_zero [OF inv] by simp
qed

lemma unlink_chain:
  assumes inv: "table_inv H s xs B" and i: "i < HASH_TABLE_SIZE" and B: "B i = us @ m # vs"
    and t: "t = link_next H i (if us = [] then None else Some (last us)) (hn_next (hash_nodes s m)) s"
    and j: "j < HASH_TABLE_SIZE"
  shows "node_chain (hash_nodes t) (heads H t j) ((B(i := us @ vs)) j)"
proof (cases "j = i")
  case True
  have rem: "if us = [] then heads H s i = m \<and> node_chain (hash_nodes s) (hn_next (hash_nodes s m)) vs
      else node_chain ((hash_nodes s)(last us := (hash_nodes s (last us))\<lparr>hn_next := hn_next (hash_nodes s m)\<rparr>))
        (heads H s i) (us @ vs)"
    using node_chain_remove [of "hash_nodes s" "heads H s i" us m vs]
      table_invD(2) [OF inv i] chain_distinct(1) [OF inv i] B by auto
  then show ?thesis
    using True by (cases "us = []") (auto simp: t link_next_def heads_set nodes_set heads_nodes)
next
  case False
  have "hn_next (hash_nodes t n) = hn_next (hash_nodes s n)" if "n \<in> set (B j)" for n
  proof -
    have "n \<noteq> last us" if "us \<noteq> []"
      using table_invD(5) [OF inv i j] False B \<open>n \<in> set (B j)\<close> last_in_set [OF that] by auto
    then show ?thesis by (auto simp: t link_next_def nodes_set)
  qed
  then have "node_chain (hash_nodes t) q (B j) = node_chain (hash_nodes s) q (B j)" for q
    by (rule node_chain_cong)
  moreover have "heads H t j = heads H s j" using False by (simp add: t link_next_frame(4))
  ultimately show ?thesis using False table_invD(2) [OF inv j] by simp
qed

lemma erase_present:
  assumes inv: "table_inv H s xs B" and some: "dict H s B k \<noteq> 0"
  shows "\<exists>m t B'. default_erase H k s = (Inr 0, t) \<and> table_inv H t (m # xs) B' \<and> dict H t B' = (dict H s B)(k := 0)"
proof -
  let ?i = "virtual_hash_func H k"
  note D = table_invD [OF inv]
  have "\<exists>n\<in>set (B ?i). node_key H s n = k" using some dict_zero [OF inv] by auto
  from split_list_first_prop [OF this] obtain us m vs
    where B: "B ?i = us @ m # vs" and mk: "node_key H s m = k" and us': "\<forall>y\<in>set us. node_key H s y \<noteq> k" by blast
  have us: "k \<notin> node_key H s ` set us" using us' by auto
  have dk: "distinct (map (node_key H s) (us @ m # vs))" using D(3) [OF hash_bound, of k] B by simp
  define p where "p = (if us = [] then None else Some (last us))"
  define t where "t = link_next H ?i p (hn_next (hash_nodes s m)) s"
  let ?B = "B(?i := us @ vs)" and ?u = "push_state m t"
  note L = link_next_frame [where i = ?i and prev = p and v = "hn_next (hash_nodes s m)" and s = s, folded t_def]
  have mB: "m \<in> set (B ?i)" using B by simp
  note M = D(4) [OF hash_bound mB]
  have free: "free_page m t = (Inr (), ?u)"
    using M pmm_invD(2) [OF D(1)] L(5) [of xs] D(1) pmm_invD(2) [of t xs]
    by (intro free_page_eq_last) (auto simp: L(6-8))
  have run: "default_erase H k s = (Inr 0, ?u)"
    unfolding default_erase_def
  proof (subst chain_erase_found)
    show "node_chain (hash_nodes s) (next_of H ?i None s) (us @ m # vs)"
      using D(2) [OF hash_bound, of k] B by (simp add: next_of_def)
    show "length us < chain_bound" using chain_distinct(2) [OF inv hash_bound, of k] B by simp
    show "kthen (free_page m) (kreturn 0) (link_next H ?i (if us = [] then None else Some (last us))
        (hn_next (hash_nodes s m)) s) = (Inr 0, ?u)"
      using free by (simp add: t_def p_def kthen_def kbind_def kreturn_def)
  qed (use us mk in auto)
  have key: "node_key H ?u n = node_key H s n" "hn_value (hash_nodes ?u n) = hn_value (hash_nodes s n)" for n
    by (simp_all add: push_frame L)
  have sub: "set (?B j) \<subseteq> set (B j)" "m \<notin> set (?B j)" if j: "j < HASH_TABLE_SIZE" for j
  proof -
    show "set (?B j) \<subseteq> set (B j)" using B by auto
    show "m \<notin> set (?B j)"
      using chain_distinct(1) [OF inv hash_bound, of k] B D(5) [OF hash_bound j, of k] mB by (cases "j = ?i") auto
  qed
  have "pmm_inv ?u (m # xs)"
    using L(5) [of xs] D(1) M by (intro push_state_inv) (auto simp: L(6))
  moreover have "node_chain (hash_nodes ?u) (heads H ?u j) (?B j)" if "j < HASH_TABLE_SIZE" for j
    using unlink_chain [OF inv hash_bound B t_def [unfolded p_def] that] by (simp add: push_frame)
  moreover have "distinct (map (node_key H ?u) (?B j))" if "j < HASH_TABLE_SIZE" for j
    unfolding key using D(3) [OF that] dk B by (cases "j = ?i") auto
  moreover have "virtual_hash_func H (node_key H ?u n) = j \<and> hn_value (hash_nodes ?u n) \<noteq> 0 \<and> managed ?u n \<and>
      n \<notin> set (m # xs) \<and> ref_of ?u n = 1" if "j < HASH_TABLE_SIZE" "n \<in> set (?B j)" for j n
  proof -
    have n: "n \<in> set (B j)" "n \<noteq> m" using sub [OF that(1)] that(2) by auto
    have "PAGE_INDEX s n \<noteq> PAGE_INDEX s m"
      using PAGE_INDEX_inj [of s n m] D(1) D(4) [OF that(1) n(1)] M n(2) by (auto simp: pmm_inv_def pmm_bounds_def)
    then show ?thesis unfolding key using D(4) [OF that(1) n(1)] n(2) by (simp add: L(6-8))
  qed
  moreover have "set (?B a) \<inter> set (?B b) = {}" if "a < HASH_TABLE_SIZE" "b < HASH_TABLE_SIZE" "a \<noteq> b" for a b
    using sub(1) [OF that(1)] sub(1) [OF that(2)] D(5) [OF that] by blast
  ultimately have "table_inv H ?u (m # xs) ?B" by (rule table_invI)
  moreover have "dict H ?u ?B k' = ((dict H s B)(k := 0)) k'" for k'
  proof -
    have eq: "bucket_get H ?u k' ns = bucket_get H s k' ns" for ns by (intro bucket_get_cong) (simp add: key)
    have "hn_value (hash_nodes s n) \<noteq> 0" if "n \<in> set (us @ vs)" for n
      using D(4) [OF hash_bound, of n k] that B by simp
    moreover have "k \<notin> node_key H s ` set (us @ vs)" using dk mk us by auto
    ultimately have "bucket_get H s k (us @ vs) = 0" using bucket_get_zero [of "us @ vs" s H k] by blast
    then show ?thesis
      using B mk by (auto simp: dict_def eq bucket_get_append)
  qed
  ultimately show ?thesis using run by blast
qed

end

section \<open>The tables of the file system are such layouts\<close>

lemma dentry_hash_func_bound: "dentry_hash_func k < HASH_TABLE_SIZE"
proof -
  have "unat (h mod (128 :: u64)) < 128" for h
    using word_mod_less_divisor [of 128 h] by (simp add: word_less_nat_alt)
  then show ?thesis by (simp add: dentry_hash_func_def Let_def HASH_TABLE_SIZE_def)
qed

lemma vinode_hash_func_bound: "vinode_hash_func k < HASH_TABLE_SIZE"
  by (simp add: vinode_hash_func_def HASH_TABLE_SIZE_def nat_less_iff)

lemma fs_fields_eq:
  fixes s t :: "'z fs_state_scheme"
  assumes "kernel_state.more t = kernel_state.more s"
  shows "dentry_hash_table t = dentry_hash_table s" "vinode_hash_table t = vinode_hash_table s"
    "dentry_keys t = dentry_keys s" "vinode_keys t = vinode_keys s" "dentries t = dentries s"
  using assms by (cases t rule: fs_state.cases_scheme, cases s rule: fs_state.cases_scheme, simp)+

interpretation dh: hash_layout "dentry_table :: ('z fs_state_scheme, u64 \<times> u8 list) hash_table"
proof
  fix s t :: "'z fs_state_scheme"
  assume eq: "kernel_state.more t = kernel_state.more s"
  show "heads dentry_table t = heads dentry_table s" "key_of dentry_table t = key_of dentry_table s"
    by (simp_all add: dentry_table_def dentry_key_value_def fs_fields_eq [OF eq] fun_eq_iff)
qed (simp_all add: dentry_table_def dentry_key_value_def dentry_hash_func_bound kernel_state.defs fun_eq_iff)

interpretation vh: hash_layout "vinode_table :: ('z fs_state_scheme, int \<times> u64) hash_table"
proof
  fix s t :: "'z fs_state_scheme"
  assume eq: "kernel_state.more t = kernel_state.more s"
  show "heads vinode_table t = heads vinode_table s" "key_of vinode_table t = key_of vinode_table s"
    by (simp_all add: vinode_table_def vinode_key_value_def fs_fields_eq [OF eq] fun_eq_iff)
qed (simp_all add: vinode_table_def vinode_key_value_def vinode_hash_func_bound kernel_state.defs fun_eq_iff)

section \<open>Properties\<close>

text \<open>
  C26. The cache of directory entries is a dictionary from (parent, name) to dentries.  In a consistent
  table, a lookup returns the dentry stored under the key (or NULL) and changes nothing; inserting
  under a new key adds exactly that binding and keeps the table consistent, using up one page;
  inserting under an existing key fails with -1 and leaves the dictionary as it is; erasing an existing
  key removes exactly that binding and returns its node to the page allocator; erasing a missing key
  fails with -1 and changes nothing.\<close>

theorem dentry_cache_dictionary:
  fixes s :: "'z fs_state_scheme"
  assumes inv: "table_inv dentry_table s (x # xs) B" and val: "val \<noteq> 0"
  shows "let kv = dentry_key_value s key; D = dict dentry_table s B in
    defalut_get dentry_table k s = (Inr (D k), s) \<and>
    (if D kv = 0
     then \<exists>t C. default_put dentry_table key val s = (Inr 0, t) \<and> table_inv dentry_table t xs C \<and>
       dict dentry_table t C = D(kv := val)
     else \<exists>t. default_put dentry_table key val s = (Inr (-1), t) \<and> table_inv dentry_table t xs B \<and>
       dict dentry_table t B = D) \<and>
    (if D k = 0 then default_erase dentry_table k s = (Inr (-1), s)
     else \<exists>n t C. default_erase dentry_table k s = (Inr 0, t) \<and> table_inv dentry_table t (n # x # xs) C \<and>
       dict dentry_table t C = D(k := 0))"
proof -
  have kv: "dentry_key_value s key = key_of dentry_table s key" by (simp add: dentry_table_def)
  show ?thesis
    unfolding Let_def kv
    using dh.get_correct [OF inv] dh.put_fresh [OF inv _ val] dh.put_present [OF inv]
      dh.erase_absent [OF inv] dh.erase_present [OF inv]
    by (intro conjI) auto
qed

text \<open>An empty cache, and a key for the name \<^verbatim>\<open>a\<close> under the dentry 0x80007000.\<close>

definition demo_cache :: fs_state where
  "demo_cache = demo_fs\<lparr>dentries := (dentries demo_fs)(0x80006000 := blank_dentry\<lparr>d_name := [97]\<rparr>),
     dentry_keys := (dentry_keys demo_fs)(0x80005000 := \<lparr>dk_parent = 0x80007000, dk_name = 0x80006000\<rparr>)\<rparr>"

lemma demo_cache_inv:
  "table_inv dentry_table demo_cache [0x80001000, 0x80002000, 0x80003000, 0x80004000] (\<lambda>_. [])"
proof (rule table_invI)
  show "pmm_inv demo_cache [0x80001000, 0x80002000, 0x80003000, 0x80004000]"
    using demo_fs_pmm pmm_inv_cong [of demo_cache demo_fs] by (simp add: demo_cache_def)
qed (simp_all add: demo_cache_def demo_fs_defs dentry_table_def)

theorem dentry_cache_dictionary_witness:
  "\<exists>t C. default_put dentry_table 0x80005000 0x80006000 demo_cache = (Inr 0, t) \<and>
     dict dentry_table t C (0x80007000, [97]) = 0x80006000"
proof -
  have "dentry_key_value demo_cache 0x80005000 = (0x80007000, [97])"
    by (simp add: demo_cache_def dentry_key_value_def)
  moreover have "dict dentry_table demo_cache (\<lambda>_. []) = (\<lambda>_. 0)" by (simp add: dict_def fun_eq_iff)
  ultimately obtain t C where "default_put dentry_table 0x80005000 0x80006000 demo_cache = (Inr 0, t)"
    "dict dentry_table t C = (\<lambda>_. 0)((0x80007000, [97]) := 0x80006000)"
    using dentry_cache_dictionary [OF demo_cache_inv, of "0x80006000" "0x80005000" "(0, [])"] by (auto simp: Let_def)
  then show ?thesis by (intro exI [of _ t] exI [of _ C]) simp
qed

end
