(* ===== verification/Vfs_Objects.thy ===== *)
theory Vfs_Objects
  imports Hash_Table
begin

text \<open>
  Constructors and destructors of the structures of the virtual file system: the end of
  \<^verbatim>\<open>kernel/vfs.c\<close>, which both file systems call.
\<close>

definition alloc_vfs_file :: "u64 \<Rightarrow> int \<Rightarrow> int \<Rightarrow> int \<Rightarrow> ('z fs_state_scheme, u64) km" where
  "alloc_vfs_file file_dentry readable writable offset =
     kbind new_page (\<lambda>fl.
     kthen (kput (\<lambda>s. s\<lparr>files := (files s)(fl := (files s fl)\<lparr>f_dentry := file_dentry\<rparr>)\<rparr>))
     (kthen (upd_dentry file_dentry (\<lambda>d. d\<lparr>d_ref := d_ref d + 1\<rparr>))
     (kthen (kput (\<lambda>s. s\<lparr>files := (files s)(fl := (files s fl)\<lparr>f_readable := readable, f_writable := writable,
        f_offset := 0, f_status := FD_OPENED\<rparr>)\<rparr>))
       (kreturn fl))))"

definition alloc_vfs_dentry :: "u8 list \<Rightarrow> u64 \<Rightarrow> u64 \<Rightarrow> ('z fs_state_scheme, u64) km" where
  "alloc_vfs_dentry name inode par =
     kbind new_page (\<lambda>d.
     kbind (copy_name MAX_DENTRY_NAME_LEN name) (\<lambda>nm.
     kthen (upd_dentry d (\<lambda>e. e\<lparr>d_name := nm, dentry_inode := inode\<rparr>))
     (kthen (kwhen (inode \<noteq> 0) (upd_vinode inode (\<lambda>v. v\<lparr>vi_ref := vi_ref v + 1\<rparr>)))
     (kthen (upd_dentry d (\<lambda>e. e\<lparr>d_parent := par, d_ref := 0\<rparr>))
       (kreturn d)))))"

definition free_vfs_dentry :: "u64 \<Rightarrow> ('z fs_state_scheme, int) km" where
  "free_vfs_dentry d =
     kbind (get_dentry d) (\<lambda>e.
       if 0 < d_ref e then kreturn (-1) else kthen (free_page d) (kreturn 0))"

definition default_alloc_vinode :: "u64 \<Rightarrow> ('z fs_state_scheme, u64) km" where
  "default_alloc_vinode sb =
     kbind new_page (\<lambda>p.
     kthen (upd_vinode p (\<lambda>v. v\<lparr>vi_blocks := 0, vi_inum := 0, vi_nlinks := 0, vi_ref := 0, vi_sb := sb, vi_size := 0\<rparr>))
       (kreturn p))"

end
