(* ===== verification/Ramdev.thy ===== *)
theory Ramdev
  imports Vfs_Objects
begin

text \<open>
  The RAM disk, \<^verbatim>\<open>kernel/ramdev.c\<close>: 128 consecutive pages of physical memory and a one-page I/O
  buffer.  What the file system relies on is stated, and proved of these operations, in \<^verbatim>\<open>Rfs_Disk.thy\<close>.
\<close>

definition RAMDISK_BLOCK_COUNT :: nat where "RAMDISK_BLOCK_COUNT = 128"
definition RAMDISK_BLOCK_SIZE :: u64 where "RAMDISK_BLOCK_SIZE = PGSIZE"
definition MAX_RAMDISK_COUNT :: nat where "MAX_RAMDISK_COUNT = 10"
definition RFS_TYPE :: int where "RFS_TYPE = 0"

section \<open>Operations\<close>

definition get_rdev :: "u64 \<Rightarrow> ('z fs_state_scheme, rfs_device) km" where
  "get_rdev p = kthen (check_ptr p) (kget (\<lambda>s. rfs_devices s p))"

definition block_addr :: "rfs_device \<Rightarrow> int \<Rightarrow> u64" where
  "block_addr d blkno = d_address d + of_int blkno * RAMDISK_BLOCK_SIZE"

definition ramdisk_write :: "u64 \<Rightarrow> int \<Rightarrow> ('z fs_state_scheme, int) km" where
  "ramdisk_write rdev blkno =
     (if blkno < 0 \<or> int RAMDISK_BLOCK_COUNT \<le> blkno then kraise (Kill ''ramdisk_write: write block out of range!'' (-1))
      else kbind (get_rdev rdev) (\<lambda>d.
        kthen (check_ptr (iobuffer d))
          (kthen (kput (\<lambda>s. set_page (block_addr d blkno) (pmem s (iobuffer d)) s)) (kreturn 0))))"

definition ramdisk_read :: "u64 \<Rightarrow> int \<Rightarrow> ('z fs_state_scheme, int) km" where
  "ramdisk_read rdev blkno =
     (if blkno < 0 \<or> int RAMDISK_BLOCK_COUNT \<le> blkno then kraise (Kill ''ramdisk_read: read block No out of range!'' (-1))
      else kbind (get_rdev rdev) (\<lambda>d.
        kthen (check_ptr (iobuffer d))
          (kthen (kput (\<lambda>s. set_page (iobuffer d) (pmem s (block_addr d blkno)) s)) (kreturn 0))))"

text \<open>The pages of the disk: loop state \<open>(last_addr, curr_addr)\<close>, one round per block.\<close>

primrec alloc_ramdisk :: "nat \<Rightarrow> u64 \<Rightarrow> ('z fs_state_scheme, u64) km" where
  "alloc_ramdisk 0 curr_addr = kreturn curr_addr"
| "alloc_ramdisk (Suc n) curr_addr =
     (let last_addr = curr_addr in
      kbind alloc_page (\<lambda>curr_addr.
        if last_addr \<noteq> 0 \<and> last_addr - curr_addr \<noteq> PGSIZE
        then kraise (Kill ''RAM Disk0: address is discontinuous!'' (-1))
        else alloc_ramdisk n curr_addr))"

definition find_fs :: "int \<Rightarrow> 'z fs_state_scheme \<Rightarrow> u64" where
  "find_fs ty s = (case first_index MAX_SUPPORTED_FS (\<lambda>i. fs_list s i \<noteq> 0 \<and> type_num (fs_types s (fs_list s i)) = ty) of
     None \<Rightarrow> 0 | Some i \<Rightarrow> fs_list s i)"

text \<open>The device goes into the first free slot of \<^verbatim>\<open>vfs_dev_list\<close>, if there is one.\<close>

definition add_vfs_dev :: "u64 \<Rightarrow> ('z fs_state_scheme, unit) km" where
  "add_vfs_dev dev = kput (\<lambda>s. case first_index MAX_VFS_DEV (\<lambda>i. vfs_dev_list s i = 0) of
     None \<Rightarrow> s | Some i \<Rightarrow> s\<lparr>vfs_dev_list := (vfs_dev_list s)(i := dev)\<rparr>)"

definition new_device :: "u8 list \<Rightarrow> int \<Rightarrow> u64 \<Rightarrow> ('z fs_state_scheme, u64) km" where
  "new_device name did fs_type =
     kbind new_page (\<lambda>dev.
     kbind (copy_name MAX_DEVICE_NAME_LEN name) (\<lambda>nm.
     kthen (kput (\<lambda>s. s\<lparr>devices := (devices s)(dev := \<lparr>dev_name = nm, dev_id = did, dev_fs_type = fs_type\<rparr>)\<rparr>))
     (kthen (add_vfs_dev dev) (kreturn dev))))"

definition init_rfs_device :: "u8 list \<Rightarrow> ('z fs_state_scheme, u64) km" where
  "init_rfs_device name =
     kbind (kget (find_fs RFS_TYPE)) (\<lambda>fs_type.
     if fs_type = 0 then kraise (Kill ''No RFS file system found!'' 1)
     else kbind (alloc_ramdisk RAMDISK_BLOCK_COUNT 0) (\<lambda>ramdisk_addr.
       kbind (kget (\<lambda>s. first_index MAX_RAMDISK_COUNT (\<lambda>i. rfs_device_list s i = 0))) (\<lambda>slot.
       case slot of
         None \<Rightarrow> kraise (Kill ''RAM Disk0: no free device!'' (-1))
       | Some device_id \<Rightarrow>
           kbind alloc_page (\<lambda>rdev.
           kthen (kput (\<lambda>s. s\<lparr>rfs_device_list := (rfs_device_list s)(device_id := rdev)\<rparr>))
           (kthen (check_ptr rdev)
           (kthen (kput (\<lambda>s. s\<lparr>rfs_devices := (rfs_devices s)(rdev := (rfs_devices s rdev)\<lparr>
               d_blocks := int RAMDISK_BLOCK_COUNT, d_blocksize := uint RAMDISK_BLOCK_SIZE, d_address := ramdisk_addr\<rparr>)\<rparr>))
           (kbind alloc_page (\<lambda>io.
           kthen (kput (\<lambda>s. s\<lparr>rfs_devices := (rfs_devices s)(rdev := (rfs_devices s rdev)\<lparr>iobuffer := io\<rparr>)\<rparr>))
             (new_device name (int device_id) fs_type)))))))))"

end
