(* ===== verification/Rfs.thy ===== *)
theory Rfs
  imports Ramdev "HOL-Library.Signed_Division"
begin

text \<open>
  The RAM disk file system, \<^verbatim>\<open>kernel/rfs.c\<close>: superblock, ten blocks of disk inodes, a free map and data
  blocks on the disk of \<^verbatim>\<open>kernel/ramdev.c\<close>; files, directories and hard links above them.

  All disk accesses go through the I/O buffer, read and written as bytes.  \<^verbatim>\<open>int\<close> fields are signed
  32-bit values on disk and \<open>int\<close> in memory structures; the divisions of the source on possibly
  negative values are the truncating \<open>sdiv\<close> and \<open>smod\<close>.
\<close>

section \<open>Layout\<close>

definition RFS_MAGIC :: int where "RFS_MAGIC = 0xBEAF"
definition RFS_BLKSIZE :: int where "RFS_BLKSIZE = 4096"
definition RFS_INODESIZE :: int where "RFS_INODESIZE = 128"
definition RFS_MAX_INODE_BLKNUM :: int where "RFS_MAX_INODE_BLKNUM = 10"
definition RFS_MAX_FILE_NAME_LEN :: nat where "RFS_MAX_FILE_NAME_LEN = 28"
definition RFS_DIRECT_BLKNUM :: nat where "RFS_DIRECT_BLKNUM = DIRECT_BLKNUM"
definition RFS_BLK_OFFSET_SUPER :: int where "RFS_BLK_OFFSET_SUPER = 0"
definition RFS_BLK_OFFSET_INODE :: int where "RFS_BLK_OFFSET_INODE = 1"
definition RFS_BLK_OFFSET_BITMAP :: int where "RFS_BLK_OFFSET_BITMAP = 11"
definition RFS_BLK_OFFSET_FREE :: int where "RFS_BLK_OFFSET_FREE = 12"
definition R_FILE :: int where "R_FILE = FILE_I"
definition R_DIR :: int where "R_DIR = DIR_I"
definition R_FREE :: int where "R_FREE = 2"

text \<open>A disk inode: 14 ints, 56 bytes.\<close>

record rfs_dinode =
  di_size :: int
  di_type :: int
  di_nlinks :: int
  di_blocks :: int
  di_addrs :: "nat \<Rightarrow> int"

definition sizeof_dinode :: nat where "sizeof_dinode = 56"
definition sizeof_direntry :: nat where "sizeof_direntry = 32"

definition dinode_at :: "(nat \<Rightarrow> u8) \<Rightarrow> rfs_dinode" where
  "dinode_at f = \<lparr>di_size = rd32 f 0, di_type = rd32 f 4, di_nlinks = rd32 f 8, di_blocks = rd32 f 12,
     di_addrs = (\<lambda>i. rd32 f (16 + 4 * i))\<rparr>"

definition dinode_bytes :: "rfs_dinode \<Rightarrow> nat \<Rightarrow> u8" where
  "dinode_bytes d = fold (\<lambda>i. wr32 (16 + 4 * i) (di_addrs d i)) [0..<RFS_DIRECT_BLKNUM]
     (wr32 12 (di_blocks d) (wr32 8 (di_nlinks d) (wr32 4 (di_type d) (wr32 0 (di_size d) (\<lambda>_. 0)))))"

section \<open>Blocks and the I/O buffer\<close>

text \<open>\<^verbatim>\<open>rfs_device_list[...->dev_id]\<close>\<close>

definition rdev_of_id :: "int \<Rightarrow> ('z fs_state_scheme, u64) km" where
  "rdev_of_id i = (if 0 \<le> i \<and> i < int MAX_RAMDISK_COUNT then kget (\<lambda>s. rfs_device_list s (nat i))
     else kraise (Fault ''rfs_device_list index''))"

definition rdev_of_sb :: "u64 \<Rightarrow> ('z fs_state_scheme, u64) km" where
  "rdev_of_sb p = kbind (get_sb p) (\<lambda>sb. kbind (get_device (s_dev sb)) (\<lambda>dev. rdev_of_id (dev_id dev)))"

definition rfs_r1block :: "u64 \<Rightarrow> int \<Rightarrow> ('z fs_state_scheme, int) km" where
  "rfs_r1block rdev n_block = ramdisk_read rdev n_block"

definition rfs_w1block :: "u64 \<Rightarrow> int \<Rightarrow> ('z fs_state_scheme, int) km" where
  "rfs_w1block rdev n_block = ramdisk_write rdev n_block"

text \<open>The bytes of the I/O buffer, and a change of them.\<close>

definition io_bytes :: "u64 \<Rightarrow> ('z fs_state_scheme, nat \<Rightarrow> u8) km" where
  "io_bytes rdev = kbind (get_rdev rdev) (\<lambda>d. kthen (check_ptr (iobuffer d)) (kget (\<lambda>s. page_bytes s (iobuffer d))))"

definition io_put :: "u64 \<Rightarrow> ((nat \<Rightarrow> u8) \<Rightarrow> nat \<Rightarrow> u8) \<Rightarrow> ('z fs_state_scheme, unit) km" where
  "io_put rdev g = kbind (get_rdev rdev) (\<lambda>d. kthen (check_ptr (iobuffer d))
     (kput (\<lambda>s. set_bytes (iobuffer d) (g (page_bytes s (iobuffer d))) s)))"

text \<open>\<^verbatim>\<open>memcpy\<close> of \<open>n\<close> bytes to offset \<open>off\<close> of the buffer, which must not leave it.\<close>

definition io_memcpy :: "u64 \<Rightarrow> int \<Rightarrow> int \<Rightarrow> (nat \<Rightarrow> u8) \<Rightarrow> ('z fs_state_scheme, unit) km" where
  "io_memcpy rdev off n g = (if 0 \<le> off \<and> 0 \<le> n \<and> off + n \<le> RFS_BLKSIZE
     then io_put rdev (splice (nat off) (nat n) g) else kraise (Fault ''iobuffer overflow''))"

text \<open>\<^verbatim>\<open>addrs[i]\<close> of a vinode\<close>

definition block_of :: "vinode \<Rightarrow> int \<Rightarrow> ('s, int) km" where
  "block_of v i = (if 0 \<le> i \<and> i < int DIRECT_BLKNUM then kreturn (vi_addrs v (nat i)) else kraise (Fault ''addrs index''))"

section \<open>Disk inodes\<close>

definition rfs_read_dinode :: "u64 \<Rightarrow> int \<Rightarrow> ('z fs_state_scheme, u64) km" where
  "rfs_read_dinode rdev n_inode =
     (let n_block = n_inode sdiv (RFS_BLKSIZE div RFS_INODESIZE) + RFS_BLK_OFFSET_INODE;
          offset = n_inode smod (RFS_BLKSIZE div RFS_INODESIZE) in
      kbind (ramdisk_read rdev n_block) (\<lambda>r.
        if r \<noteq> 0 then kreturn 0
        else kbind new_page (\<lambda>dinode.
          if offset < 0 then kraise (Fault ''iobuffer offset'')
          else kbind (io_bytes rdev) (\<lambda>io.
            kthen (kput (\<lambda>s. set_bytes dinode
                (splice 0 sizeof_dinode (\<lambda>i. io (nat (offset * RFS_INODESIZE) + i)) (page_bytes s dinode)) s))
              (kreturn dinode)))))"

text \<open>The disk inode to write is given by its 56 bytes.\<close>

definition rfs_write_dinode :: "u64 \<Rightarrow> (nat \<Rightarrow> u8) \<Rightarrow> int \<Rightarrow> ('z fs_state_scheme, int) km" where
  "rfs_write_dinode rdev dinode n_inode =
     (let n_block = n_inode sdiv (RFS_BLKSIZE div RFS_INODESIZE) + RFS_BLK_OFFSET_INODE;
          offset = n_inode smod (RFS_BLKSIZE div RFS_INODESIZE) in
      kbind (ramdisk_read rdev n_block) (\<lambda>_.
      kthen (io_memcpy rdev (offset * RFS_INODESIZE) (int sizeof_dinode) dinode)
        (ramdisk_write rdev n_block)))"

definition rfs_alloc_vinode :: "u64 \<Rightarrow> ('z fs_state_scheme, u64) km" where
  "rfs_alloc_vinode sb = kbind (default_alloc_vinode sb) (\<lambda>p.
     kthen (upd_vinode p (\<lambda>v. v\<lparr>i_ops := rfs_i_ops\<rparr>)) (kreturn p))"

definition rfs_write_back_vinode :: "u64 \<Rightarrow> ('z fs_state_scheme, int) km" where
  "rfs_write_back_vinode vi =
     kbind (get_vinode vi) (\<lambda>v.
     let dinode = \<lparr>di_size = vi_size v, di_type = vi_type v, di_nlinks = vi_nlinks v, di_blocks = vi_blocks v,
           di_addrs = vi_addrs v\<rparr> in
     kbind (rdev_of_sb (vi_sb v)) (\<lambda>rdev.
     kbind (rfs_write_dinode rdev (dinode_bytes dinode) (vi_inum v)) (\<lambda>r.
       if r \<noteq> 0 then kreturn (-1) else kreturn 0)))"

definition rfs_update_vinode :: "u64 \<Rightarrow> ('z fs_state_scheme, int) km" where
  "rfs_update_vinode vi =
     kbind (get_vinode vi) (\<lambda>v.
     kbind (rdev_of_sb (vi_sb v)) (\<lambda>rdev.
     kbind (rfs_read_dinode rdev (vi_inum v)) (\<lambda>dinode.
       if dinode = 0 then kreturn (-1)
       else kbind (kget (\<lambda>s. dinode_at (page_bytes s dinode))) (\<lambda>d.
         kthen (upd_vinode vi (\<lambda>v. v\<lparr>vi_size := di_size d, vi_nlinks := di_nlinks d, vi_blocks := di_blocks d,
            vi_type := di_type d, vi_addrs := (\<lambda>i. if i < RFS_DIRECT_BLKNUM then di_addrs d i else vi_addrs v i)\<rparr>))
         (kthen (free_page dinode) (kreturn 0))))))"

section \<open>The free map\<close>

text \<open>The free map is a page of 1024 ints.\<close>

definition rfs_alloc_block :: "u64 \<Rightarrow> ('z fs_state_scheme, int) km" where
  "rfs_alloc_block p =
     kbind (get_sb p) (\<lambda>sb.
     kthen (kwhen (0 < sb_nblocks sb) (check_ptr (s_fs_info sb)))
     (kbind (kget (\<lambda>s. first_index (nat (min (sb_nblocks sb) 1024)) (\<lambda>b. rd32 (page_bytes s (s_fs_info sb)) (4 * b) = 0))) (\<lambda>r.
       case r of
         Some b \<Rightarrow>
           kthen (kput (\<lambda>s. set_bytes (s_fs_info sb) (wr32 (4 * b) 1 (page_bytes s (s_fs_info sb))) s))
             (kreturn (RFS_BLK_OFFSET_FREE + int b))
       | None \<Rightarrow>
           if 1024 < sb_nblocks sb then kraise (Fault ''freemap index'')
           else kraise (Kill ''rfs_alloc_block: no more free block!'' (-1)))))"

definition rfs_free_block :: "u64 \<Rightarrow> int \<Rightarrow> ('z fs_state_scheme, int) km" where
  "rfs_free_block p block_num =
     kbind (get_sb p) (\<lambda>sb.
     let b = block_num - RFS_BLK_OFFSET_FREE in
     if b < 0 \<or> 1024 \<le> b then kraise (Fault ''freemap index'')
     else kthen (check_ptr (s_fs_info sb))
       (kthen (kput (\<lambda>s. set_bytes (s_fs_info sb) (wr32 (4 * nat b) 0 (page_bytes s (s_fs_info sb))) s)) (kreturn 0)))"

section \<open>Formatting, mounting and registration\<close>

definition register_fs :: "int \<Rightarrow> get_superblock_fn \<Rightarrow> ('z fs_state_scheme, int) km" where
  "register_fs ty fn =
     kbind new_page (\<lambda>fs_type.
     kthen (kput (\<lambda>s. s\<lparr>fs_types := (fs_types s)(fs_type := \<lparr>type_num = ty, get_superblock = fn\<rparr>)\<rparr>))
     (kbind (kget (\<lambda>s. first_index MAX_SUPPORTED_FS (\<lambda>i. fs_list s i = 0))) (\<lambda>r.
       case r of
         Some i \<Rightarrow> kthen (kput (\<lambda>s. s\<lparr>fs_list := (fs_list s)(i := fs_type)\<rparr>)) (kreturn 0)
       | None \<Rightarrow> kreturn (-1))))"

definition register_rfs :: "('z fs_state_scheme, int) km" where
  "register_rfs = register_fs RFS_TYPE rfs_get_superblock_fn"

text \<open>
  The superblock written by \<^verbatim>\<open>rfs_format_dev\<close>, the empty inode block, and the inode of the root
  directory, whose addresses but the first are whatever the kernel stack held (\<open>junk\<close>).
\<close>

definition super_bytes :: "(nat \<Rightarrow> u8) \<Rightarrow> nat \<Rightarrow> u8" where
  "super_bytes f = wr32 12 (RFS_BLKSIZE div RFS_INODESIZE * RFS_MAX_INODE_BLKNUM)
     (wr32 8 (RFS_MAX_INODE_BLKNUM * int RFS_DIRECT_BLKNUM)
     (wr32 4 (1 + RFS_MAX_INODE_BLKNUM + 1 + RFS_MAX_INODE_BLKNUM * int RFS_DIRECT_BLKNUM)
     (wr32 0 RFS_MAGIC f)))"

definition empty_inodes :: "(nat \<Rightarrow> u8) \<Rightarrow> nat \<Rightarrow> u8" where
  "empty_inodes f = fold (\<lambda>i g. let k = i * nat RFS_INODESIZE in
     wr32 (k + 12) 0 (wr32 (k + 8) 0 (wr32 (k + 4) R_FREE (wr32 k 0 g)))) [0..<nat (RFS_BLKSIZE div RFS_INODESIZE)] f"

definition root_dinode :: "(nat \<Rightarrow> int) \<Rightarrow> rfs_dinode" where
  "root_dinode junk = \<lparr>di_size = 0, di_type = R_DIR, di_nlinks = 1, di_blocks = 1, di_addrs = junk(0 := RFS_BLK_OFFSET_FREE)\<rparr>"

definition rfs_format_dev :: "(nat \<Rightarrow> int) \<Rightarrow> u64 \<Rightarrow> ('z fs_state_scheme, int) km" where
  "rfs_format_dev junk p =
     kbind (get_device p) (\<lambda>dev.
     kbind (rdev_of_id (dev_id dev)) (\<lambda>rdev.
     kthen (io_put rdev super_bytes)
     (kbind (rfs_w1block rdev RFS_BLK_OFFSET_SUPER) (\<lambda>r.
     if r \<noteq> 0 then kraise (Kill ''RFS: failed to write superblock!'' (-1))
     else kthen (io_put rdev empty_inodes)
     (kthen (kfor [0..<nat RFS_MAX_INODE_BLKNUM] (\<lambda>b.
        kbind (rfs_w1block rdev (RFS_BLK_OFFSET_INODE + int b)) (\<lambda>r.
          kwhen (r \<noteq> 0) (kraise (Kill ''RFS: failed to initialize empty inodes!'' (-1))))))
     (kbind (rfs_write_dinode rdev (dinode_bytes (root_dinode junk)) 0) (\<lambda>r.
     if r \<noteq> 0 then kreturn (-1)
     else kthen (io_put rdev (\<lambda>_. wr32 0 1 (\<lambda>_. 0)))
     (kbind (rfs_w1block rdev RFS_BLK_OFFSET_BITMAP) (\<lambda>r.
       if r \<noteq> 0 then kreturn (-1) else kreturn 0)))))))))"

definition rfs_get_superblock :: "u64 \<Rightarrow> ('z fs_state_scheme, u64) km" where
  "rfs_get_superblock dev =
     kbind (get_device dev) (\<lambda>dv.
     kbind (rdev_of_id (dev_id dv)) (\<lambda>rdev.
     kbind (rfs_r1block rdev RFS_BLK_OFFSET_SUPER) (\<lambda>r.
     if r \<noteq> 0 then kraise (Kill ''RFS: failed to read superblock!'' (-1))
     else kbind (io_bytes rdev) (\<lambda>io.
       kbind new_page (\<lambda>sb.
       kthen (upd_sb sb (\<lambda>b. b\<lparr>sb_magic := rd32 io 0, sb_size := rd32 io 4, sb_nblocks := rd32 io 8,
          sb_ninodes := rd32 io 12, s_dev := dev\<rparr>))
       (if rd32 io 0 \<noteq> RFS_MAGIC then kraise (Kill ''rfs_get_superblock: wrong ramdisk device!'' (-1))
        else kbind (rfs_alloc_vinode sb) (\<lambda>root_inode.
          kthen (upd_vinode root_inode (\<lambda>v. v\<lparr>vi_inum := 0\<rparr>))
          (kbind (rfs_update_vinode root_inode) (\<lambda>_.
          kbind (alloc_vfs_dentry [47] root_inode 0) (\<lambda>root_dentry.
          kthen (upd_sb sb (\<lambda>b. b\<lparr>s_root := root_dentry\<rparr>))
          (kbind (rfs_r1block rdev RFS_BLK_OFFSET_BITMAP) (\<lambda>r.
          if r \<noteq> 0 then kraise (Kill ''RFS: failed to read bitmap!'' (-1))
          else kbind new_page (\<lambda>bitmap.
            kbind (io_bytes rdev) (\<lambda>io.
            kthen (kput (set_bytes bitmap io))
            (kthen (upd_sb sb (\<lambda>b. b\<lparr>s_fs_info := bitmap\<rparr>)) (kreturn sb))))))))))))))))"

end
