(* ===== verification/Rfs_File.thy ===== *)
theory Rfs_File
  imports Rfs
begin

text \<open>
  Reading, writing and seeking in files of the RAM disk file system (\<^verbatim>\<open>rfs_read\<close>, \<^verbatim>\<open>rfs_write\<close>,
  \<^verbatim>\<open>rfs_lseek\<close>, \<^verbatim>\<open>rfs_disk_stat\<close> of \<^verbatim>\<open>kernel/rfs.c\<close>).
\<close>

section \<open>Reading\<close>

text \<open>The complete blocks: loop state is the buffer, its fill level and the next block.\<close>

primrec read_blocks ::
  "nat \<Rightarrow> u64 \<Rightarrow> vinode \<Rightarrow> (nat \<Rightarrow> u8) \<Rightarrow> int \<Rightarrow> int \<Rightarrow> ('z fs_state_scheme, (nat \<Rightarrow> u8) \<times> int \<times> int) km" where
  "read_blocks 0 rdev v buffer buf_offset block_offset = kreturn (buffer, buf_offset, block_offset)"
| "read_blocks (Suc n) rdev v buffer buf_offset block_offset =
     kbind (block_of v block_offset) (\<lambda>b.
     kbind (rfs_r1block rdev b) (\<lambda>_.
     kbind (io_bytes rdev) (\<lambda>io.
       read_blocks n rdev v (splice (nat buf_offset) (nat RFS_BLKSIZE) io buffer) (buf_offset + RFS_BLKSIZE) (block_offset + 1))))"

text \<open>
  \<open>rfs_read f_inode r_buf len offset\<close> returns the number of bytes read, the contents of \<open>r_buf\<close> and the
  new offset.  The local buffer has \<open>len + 1\<close> bytes, each of which is written before it is copied; a
  negative length or a copy that leaves the buffer is a fault.
\<close>

definition rfs_read ::
  "u64 \<Rightarrow> (nat \<Rightarrow> u8) \<Rightarrow> int \<Rightarrow> int \<Rightarrow> ('z fs_state_scheme, int \<times> (nat \<Rightarrow> u8) \<times> int) km" where
  "rfs_read f_inode r_buf len offset =
     kbind (get_vinode f_inode) (\<lambda>v.
     if vi_size v < offset then kraise (Kill ''rfs_read:offset should less than file size!'' (-1))
     else let len = (if vi_size v < offset + len then vi_size v - offset else len) in
     if len < 0 then kraise (Fault ''negative array size'')
     else let align = offset smod RFS_BLKSIZE; block_offset = offset sdiv RFS_BLKSIZE;
              readtimes = (align + len) sdiv RFS_BLKSIZE; remain = (align + len) smod RFS_BLKSIZE in
     kbind (rdev_of_sb (vi_sb v)) (\<lambda>rdev.
     kbind (block_of v block_offset) (\<lambda>b.
     kbind (rfs_r1block rdev b) (\<lambda>_.
     let first_block_len = (if readtimes = 0 then len else RFS_BLKSIZE - align) in
     if align < 0 \<or> first_block_len < 0 \<or> RFS_BLKSIZE < align + first_block_len then kraise (Fault ''iobuffer overflow'')
     else kbind (io_bytes rdev) (\<lambda>io.
       let buffer = splice 0 (nat first_block_len) (\<lambda>i. io (nat align + i)) (\<lambda>_. 0) in
       kbind
         (if 0 \<le> readtimes - 1
          then kbind (read_blocks (nat (readtimes - 1)) rdev v buffer first_block_len (block_offset + 1))
            (\<lambda>(buffer, buf_offset, block_offset).
              if 0 < remain
              then kbind (block_of v block_offset) (\<lambda>b.
                kbind (rfs_r1block rdev b) (\<lambda>_.
                kbind (io_bytes rdev) (\<lambda>io. kreturn (splice (nat buf_offset) (nat remain) io buffer))))
              else kreturn buffer)
          else kreturn buffer)
         (\<lambda>buffer. let buffer = buffer(nat len := 0) in
           kreturn (len, splice 0 (cstr_len (nat len) buffer + 1) buffer r_buf, offset + len)))))))"

section \<open>Writing\<close>

text \<open>A block past the end of the file is allocated when it is first written.\<close>

definition grow_file :: "u64 \<Rightarrow> int \<Rightarrow> ('z fs_state_scheme, unit) km" where
  "grow_file f_inode block_offset =
     kbind (get_vinode f_inode) (\<lambda>v.
     kwhen (block_offset = vi_blocks v)
       (kbind (rfs_alloc_block (vi_sb v)) (\<lambda>b.
        if block_offset < 0 \<or> int DIRECT_BLKNUM \<le> block_offset then kraise (Fault ''addrs index'')
        else upd_vinode f_inode (\<lambda>v. v\<lparr>vi_addrs := (vi_addrs v)(nat block_offset := b), vi_blocks := vi_blocks v + 1\<rparr>))))"

definition put_block :: "u64 \<Rightarrow> u64 \<Rightarrow> int \<Rightarrow> int \<Rightarrow> (nat \<Rightarrow> u8) \<Rightarrow> ('z fs_state_scheme, unit) km" where
  "put_block f_inode rdev block_offset n data =
     kthen (grow_file f_inode block_offset)
     (kthen (io_memcpy rdev 0 n data)
     (kbind (get_vinode f_inode) (\<lambda>v.
      kbind (block_of v block_offset) (\<lambda>b.
      kbind (rfs_w1block rdev b) (\<lambda>_. kreturn ())))))"

primrec write_blocks ::
  "nat \<Rightarrow> u64 \<Rightarrow> u64 \<Rightarrow> (nat \<Rightarrow> u8) \<Rightarrow> int \<Rightarrow> int \<Rightarrow> ('z fs_state_scheme, int \<times> int) km" where
  "write_blocks 0 f_inode rdev w_buf buf_offset block_offset = kreturn (buf_offset, block_offset)"
| "write_blocks (Suc n) f_inode rdev w_buf buf_offset block_offset =
     kthen (put_block f_inode rdev block_offset RFS_BLKSIZE (\<lambda>i. w_buf (nat buf_offset + i)))
       (write_blocks n f_inode rdev w_buf (buf_offset + RFS_BLKSIZE) (block_offset + 1))"

definition rfs_write ::
  "u64 \<Rightarrow> (nat \<Rightarrow> u8) \<Rightarrow> int \<Rightarrow> int \<Rightarrow> ('z fs_state_scheme, int \<times> int) km" where
  "rfs_write f_inode w_buf len offset =
     kbind (get_vinode f_inode) (\<lambda>v.
     if vi_size v < offset then kraise (Kill ''rfs_write:offset should less than file size!'' (-1))
     else let align = offset smod RFS_BLKSIZE; writetimes = (len + align) sdiv RFS_BLKSIZE;
              remain = (len + align) smod RFS_BLKSIZE; block_offset = offset sdiv RFS_BLKSIZE in
     kbind (rdev_of_sb (vi_sb v)) (\<lambda>rdev.
     kbind
       (if align \<noteq> 0
        then kbind (block_of v block_offset) (\<lambda>b.
          kbind (rfs_r1block rdev b) (\<lambda>_.
          let first_block_len = (if writetimes = 0 then len else RFS_BLKSIZE - align) in
          kthen (io_memcpy rdev align first_block_len w_buf)
          (kbind (rfs_w1block rdev b) (\<lambda>_.
            kreturn (first_block_len, block_offset + 1, writetimes - 1)))))
        else kreturn (0, block_offset, writetimes))
       (\<lambda>(buf_offset, block_offset, writetimes).
         kthen
           (kwhen (0 \<le> writetimes)
             (kbind (write_blocks (nat writetimes) f_inode rdev w_buf buf_offset block_offset)
               (\<lambda>(buf_offset, block_offset).
                 kwhen (0 < remain)
                   (put_block f_inode rdev block_offset remain (\<lambda>i. w_buf (nat buf_offset + i))))))
         (kthen (upd_vinode f_inode (\<lambda>v. v\<lparr>vi_size := (if vi_size v < offset + len then offset + len else vi_size v)\<rparr>))
           (kreturn (len, offset + len))))))"

section \<open>Seeking and status\<close>

definition rfs_lseek :: "u64 \<Rightarrow> int \<Rightarrow> int \<Rightarrow> int \<Rightarrow> ('z fs_state_scheme, int \<times> int) km" where
  "rfs_lseek f_inode new_offset whence offset =
     kbind (get_vinode f_inode) (\<lambda>v.
     let file_size = vi_size v in
     if whence = LSEEK_SET
     then (if new_offset < 0 \<or> file_size < new_offset then kreturn (-1, offset) else kreturn (0, new_offset))
     else if whence = LSEEK_CUR
     then (if offset + new_offset < 0 \<or> file_size < offset + new_offset then kreturn (-1, offset)
           else kreturn (0, offset + new_offset))
     else kreturn (-1, offset))"

record istat =
  st_inum :: int
  st_size :: int
  st_type :: int
  st_nlinks :: int
  st_blocks :: int

definition rfs_disk_stat :: "u64 \<Rightarrow> ('z fs_state_scheme, int \<times> istat option) km" where
  "rfs_disk_stat vi =
     kbind (get_vinode vi) (\<lambda>v.
     kbind (rdev_of_sb (vi_sb v)) (\<lambda>rdev.
     kbind (rfs_read_dinode rdev (vi_inum v)) (\<lambda>dinode.
       if dinode = 0 then kreturn (-1, None)
       else kbind (kget (\<lambda>s. dinode_at (page_bytes s dinode))) (\<lambda>d.
         let st = \<lparr>st_inum = vi_inum v, st_size = di_size d, st_type = di_type d, st_nlinks = di_nlinks d, st_blocks = di_blocks d\<rparr> in
         kthen (free_page dinode) (kreturn (0, Some st))))))"

end
