(* ===== verification/Rfs_Dir.thy ===== *)
theory Rfs_Dir
  imports Rfs_File
begin

text \<open>
  Directories and links of the RAM disk file system: the second half of \<^verbatim>\<open>kernel/rfs.c\<close>.  A directory
  file is a sequence of 32-byte entries, an inode number and a name; entries are appended at the end,
  searched from the start, and removed by moving the later ones down.
\<close>

section \<open>Directory entries\<close>

definition one_block_direntrys :: int where
  "one_block_direntrys = 128"

text \<open>\<^verbatim>\<open>size / sizeof(struct rfs_direntry)\<close>, an unsigned division stored in an \<^verbatim>\<open>int\<close>.\<close>

definition total_direntrys :: "int \<Rightarrow> int" where
  "total_direntrys sz = sint (ucast ((word_of_int sz :: u64) div 32) :: 32 word)"

text \<open>\<^verbatim>\<open>strcmp\<close> of the bytes at \<open>k\<close> of the buffer with a name; \<open>None\<close> when it reads past the buffer.\<close>

primrec strcmp_at :: "(nat \<Rightarrow> u8) \<Rightarrow> nat \<Rightarrow> u8 list \<Rightarrow> bool option" where
  "strcmp_at f k [] = (if k < 4096 then Some (f k = 0) else None)"
| "strcmp_at f k (c # cs) = (if k < 4096 then (if f k = c then strcmp_at f (k + 1) cs else Some False) else None)"

text \<open>\<^verbatim>\<open>strcpy\<close> of a name to offset \<open>k\<close>.\<close>

definition put_name :: "nat \<Rightarrow> u8 list \<Rightarrow> (nat \<Rightarrow> u8) \<Rightarrow> nat \<Rightarrow> u8" where
  "put_name k name = splice k (length name + 1) (\<lambda>i. (name @ [0]) ! i)"

definition rfs_add_direntry :: "u64 \<Rightarrow> u8 list \<Rightarrow> int \<Rightarrow> ('z fs_state_scheme, int) km" where
  "rfs_add_direntry dir name inum =
     kbind (get_vinode dir) (\<lambda>v.
     if vi_type v \<noteq> DIR_I then kreturn (-1)
     else kbind (rdev_of_sb (vi_sb v)) (\<lambda>rdev.
       kbind (block_of v (vi_size v sdiv RFS_BLKSIZE)) (\<lambda>n_block.
       kbind (rfs_r1block rdev n_block) (\<lambda>r.
       if r \<noteq> 0 then kreturn (-1)
       else let off = vi_size v smod RFS_BLKSIZE in
         if off < 0 \<or> RFS_BLKSIZE < off + 4 + int (length name) + 1 then kraise (Fault ''iobuffer overflow'')
         else kthen (io_put rdev (\<lambda>f. put_name (nat off + 4) name (wr32 (nat off) inum f)))
           (kbind (rfs_w1block rdev n_block) (\<lambda>r.
           if r \<noteq> 0 then kreturn (-1)
           else kthen (upd_vinode dir (\<lambda>v. v\<lparr>vi_size := vi_size v + int sizeof_direntry\<rparr>))
             (kbind (rfs_write_back_vinode dir) (\<lambda>r. if r \<noteq> 0 then kreturn (-1) else kreturn 0)))))))) "

text \<open>
  The search loop of \<^verbatim>\<open>rfs_lookup\<close> and \<^verbatim>\<open>rfs_unlink\<close> from entry \<open>i\<close> on, with \<open>n\<close> entries left: the index of
  the entry and its inode number.
\<close>

primrec find_direntry ::
  "nat \<Rightarrow> u64 \<Rightarrow> vinode \<Rightarrow> u8 list \<Rightarrow> int \<Rightarrow> ('z fs_state_scheme, (int \<times> int) option) km" where
  "find_direntry 0 rdev par name i = kreturn None"
| "find_direntry (Suc n) rdev par name i =
     kthen (kwhen (i mod one_block_direntrys = 0)
        (kbind (block_of par (i div one_block_direntrys)) (\<lambda>b. kbind (rfs_r1block rdev b) (\<lambda>_. kreturn ()))))
     (kbind (io_bytes rdev) (\<lambda>io.
       let k = nat (i mod one_block_direntrys) * sizeof_direntry in
       case strcmp_at io (k + 4) name of
         None \<Rightarrow> kraise (Fault ''iobuffer overflow'')
       | Some eq \<Rightarrow> if eq then kreturn (Some (i, rd32 io k)) else find_direntry n rdev par name (i + 1)))"

definition rfs_lookup :: "u64 \<Rightarrow> u64 \<Rightarrow> ('z fs_state_scheme, u64) km" where
  "rfs_lookup par sub_dentry =
     kbind (get_vinode par) (\<lambda>v.
     kbind (rdev_of_sb (vi_sb v)) (\<lambda>rdev.
     kbind (get_dentry sub_dentry) (\<lambda>sub.
     kbind (find_direntry (nat (total_direntrys (vi_size v))) rdev v (d_name sub) 0) (\<lambda>found.
       case found of
         None \<Rightarrow> kreturn 0
       | Some (i, inum) \<Rightarrow>
           kbind (rfs_alloc_vinode (vi_sb v)) (\<lambda>child.
           kthen (upd_vinode child (\<lambda>c. c\<lparr>vi_inum := inum\<rparr>))
           (kbind (rfs_update_vinode child) (\<lambda>r.
             if r \<noteq> 0 then kraise (Kill ''rfs_lookup: read inode failed!'' (-1)) else kreturn child)))))))"

section \<open>Creating files and directories\<close>

text \<open>
  The search for a free disk inode, common to \<^verbatim>\<open>rfs_create\<close> and \<^verbatim>\<open>rfs_mkdir\<close>: the page with the inode
  and its number.  When none is free the loop ends with the page of the last inode, which has been
  freed by then, and the number 0.
\<close>

primrec find_free_dinode :: "nat \<Rightarrow> u64 \<Rightarrow> u64 \<Rightarrow> int \<Rightarrow> ('z fs_state_scheme, u64 \<times> int) km" where
  "find_free_dinode 0 rdev free_dinode i = kreturn (free_dinode, 0)"
| "find_free_dinode (Suc n) rdev free_dinode i =
     kbind (rfs_read_dinode rdev i) (\<lambda>free_dinode.
     kthen (check_ptr free_dinode)
     (kbind (kget (\<lambda>s. di_type (dinode_at (page_bytes s free_dinode)))) (\<lambda>ty.
       if ty = R_FREE then kreturn (free_dinode, i)
       else kthen (free_page free_dinode) (find_free_dinode n rdev free_dinode (i + 1)))))"

definition NINODES :: nat where
  "NINODES = nat (RFS_BLKSIZE div RFS_INODESIZE * RFS_MAX_INODE_BLKNUM)"

text \<open>Filling in the fields of the disk inode in page \<open>p\<close>.\<close>

definition init_dinode :: "u64 \<Rightarrow> int \<Rightarrow> int \<Rightarrow> ('z fs_state_scheme, unit) km" where
  "init_dinode p ty blocks = kput (\<lambda>s. set_bytes p
     (wr32 12 blocks (wr32 8 1 (wr32 4 ty (wr32 0 0 (page_bytes s p))))) s)"

definition rfs_create :: "u64 \<Rightarrow> u64 \<Rightarrow> ('z fs_state_scheme, u64) km" where
  "rfs_create par sub_dentry =
     kbind (get_vinode par) (\<lambda>v.
     kbind (rdev_of_sb (vi_sb v)) (\<lambda>rdev.
     kbind (find_free_dinode NINODES rdev 0 0) (\<lambda>(free_dinode, free_inum).
     if free_dinode = 0 then kraise (Kill ''rfs_create: no more free disk inode, we cannot create file.'' (-1))
     else kthen (init_dinode free_dinode R_FILE 0)
     (kbind (rfs_alloc_block (vi_sb v)) (\<lambda>blk.
     kthen (kput (\<lambda>s. set_bytes free_dinode (wr32 16 blk (page_bytes s free_dinode)) s))
     (kbind (kget (\<lambda>s. page_bytes s free_dinode)) (\<lambda>bytes.
     kbind (rfs_write_dinode rdev bytes free_inum) (\<lambda>_.
     kthen (free_page free_dinode)
     (kbind (rfs_alloc_vinode (vi_sb v)) (\<lambda>new_vinode.
     kthen (upd_vinode new_vinode (\<lambda>n. n\<lparr>vi_inum := free_inum\<rparr>))
     (kbind (rfs_update_vinode new_vinode) (\<lambda>_.
     kbind (get_dentry sub_dentry) (\<lambda>sub.
     kbind (rfs_add_direntry par (d_name sub) free_inum) (\<lambda>result.
       if result = -1 then kreturn 0 else kreturn new_vinode)))))))))))))) "

definition rfs_mkdir :: "u64 \<Rightarrow> u64 \<Rightarrow> ('z fs_state_scheme, u64) km" where
  "rfs_mkdir par sub_dentry =
     kbind (get_vinode par) (\<lambda>v.
     kbind (rdev_of_sb (vi_sb v)) (\<lambda>rdev.
     kbind (find_free_dinode NINODES rdev 0 0) (\<lambda>(free_dinode, free_inum).
     if free_dinode = 0 then kraise (Kill ''rfs_mkdir: no more free disk inode, we cannot create directory.'' (-1))
     else kthen (init_dinode free_dinode R_DIR 1)
     (kbind (rfs_alloc_block (vi_sb v)) (\<lambda>blk.
     kthen (kput (\<lambda>s. set_bytes free_dinode (wr32 16 blk (page_bytes s free_dinode)) s))
     (kbind (kget (\<lambda>s. page_bytes s free_dinode)) (\<lambda>bytes.
     kbind (rfs_write_dinode rdev bytes free_inum) (\<lambda>_.
     kthen (free_page free_dinode)
     (kbind (get_dentry sub_dentry) (\<lambda>sub.
     kbind (rfs_add_direntry par (d_name sub) free_inum) (\<lambda>result.
     if result = -1 then kreturn 0
     else kbind (rfs_alloc_vinode (vi_sb v)) (\<lambda>sub_vinode.
       kthen (upd_vinode sub_vinode (\<lambda>n. n\<lparr>vi_inum := free_inum\<rparr>))
       (kbind (rfs_update_vinode sub_vinode) (\<lambda>_. kreturn sub_vinode)))))))))))))) "

section \<open>Links\<close>

definition rfs_link :: "u64 \<Rightarrow> u64 \<Rightarrow> u64 \<Rightarrow> ('z fs_state_scheme, int) km" where
  "rfs_link par sub_dentry link_node =
     kthen (upd_vinode link_node (\<lambda>v. v\<lparr>vi_nlinks := vi_nlinks v + 1\<rparr>))
     (kbind (get_dentry sub_dentry) (\<lambda>sub.
     kbind (get_vinode link_node) (\<lambda>v.
     kbind (rfs_add_direntry par (d_name sub) (vi_inum v)) (\<lambda>_.
     kbind (rfs_write_back_vinode link_node) (\<lambda>_. kreturn 0)))))"

text \<open>Releasing the blocks of the disk inode in page \<open>p\<close>.\<close>

primrec free_blocks :: "nat \<Rightarrow> u64 \<Rightarrow> u64 \<Rightarrow> nat \<Rightarrow> ('z fs_state_scheme, unit) km" where
  "free_blocks 0 sb p i = kreturn ()"
| "free_blocks (Suc n) sb p i =
     (if DIRECT_BLKNUM \<le> i then kraise (Fault ''addrs index'')
      else kbind (kget (\<lambda>s. di_addrs (dinode_at (page_bytes s p)) i)) (\<lambda>b.
        kbind (rfs_free_block sb b) (\<lambda>_. free_blocks n sb p (i + 1))))"

text \<open>
  Removing an entry: the later entries of its block move down by one, and every further block gives
  its first entry to the end of the block before it.  \<open>prev\<close> is the page of the block not yet written.
\<close>

primrec shift_blocks :: "nat \<Rightarrow> u64 \<Rightarrow> vinode \<Rightarrow> u64 \<Rightarrow> int \<Rightarrow> ('z fs_state_scheme, u64) km" where
  "shift_blocks 0 rdev par prev i = kreturn prev"
| "shift_blocks (Suc n) rdev par prev i =
     kbind (block_of par i) (\<lambda>b.
     kbind (rfs_r1block rdev b) (\<lambda>_.
     kbind new_page (\<lambda>this_block.
     kbind (io_bytes rdev) (\<lambda>io.
     kthen (kput (set_bytes this_block io))
     (kthen (kput (\<lambda>s. set_bytes prev (splice (127 * sizeof_direntry) sizeof_direntry io (page_bytes s prev)) s))
     (kthen (kput (\<lambda>s. let f = page_bytes s this_block in
        set_bytes this_block (splice 0 (127 * sizeof_direntry) (\<lambda>i. f (sizeof_direntry + i)) f) s))
     (kbind (kget (\<lambda>s. page_bytes s prev)) (\<lambda>pb.
     kthen (io_put rdev (\<lambda>_. pb))
     (kbind (block_of par (i - 1)) (\<lambda>pb.
     kbind (rfs_w1block rdev pb) (\<lambda>_.
     kthen (free_page prev)
       (shift_blocks n rdev par this_block (i + 1)))))))))))))"

definition remove_direntry :: "u64 \<Rightarrow> vinode \<Rightarrow> int \<Rightarrow> ('z fs_state_scheme, unit) km" where
  "remove_direntry rdev par delete_index =
     (let dbi = delete_index div one_block_direntrys; off = nat (delete_index mod one_block_direntrys) in
      kbind (block_of par dbi) (\<lambda>b.
      kbind (rfs_r1block rdev b) (\<lambda>_.
      kthen (io_put rdev (\<lambda>f. splice (off * sizeof_direntry) ((127 - off) * sizeof_direntry)
         (\<lambda>i. f ((off + 1) * sizeof_direntry + i)) f))
      (kbind new_page (\<lambda>prev.
      kbind (io_bytes rdev) (\<lambda>io.
      kthen (kput (set_bytes prev io))
      (kbind (shift_blocks (nat (vi_blocks par - (dbi + 1))) rdev par prev (dbi + 1)) (\<lambda>prev.
      kbind (kget (\<lambda>s. page_bytes s prev)) (\<lambda>pb.
      kthen (io_put rdev (\<lambda>_. pb))
      (kbind (block_of par (vi_blocks par - 1)) (\<lambda>b.
      kbind (rfs_w1block rdev b) (\<lambda>_.
        free_page prev))))))))))))"

definition rfs_unlink :: "u64 \<Rightarrow> u64 \<Rightarrow> u64 \<Rightarrow> ('z fs_state_scheme, int) km" where
  "rfs_unlink par sub_dentry unlink_vinode =
     kbind (get_vinode par) (\<lambda>v.
     kbind (rdev_of_sb (vi_sb v)) (\<lambda>rdev.
     kbind (get_dentry sub_dentry) (\<lambda>sub.
     let total = total_direntrys (vi_size v) in
     kbind (find_direntry (nat total) rdev v (d_name sub) 0) (\<lambda>found.
     if total \<le> 0 then kraise (Fault ''NULL pointer'')
     else case found of
       None \<Rightarrow> kreturn (-1)
     | Some (delete_index, inum) \<Rightarrow>
         kbind (rfs_read_dinode rdev inum) (\<lambda>dp.
         kthen (check_ptr dp)
         (kbind (get_vinode unlink_vinode) (\<lambda>u.
         kbind (kget (\<lambda>s. dinode_at (page_bytes s dp))) (\<lambda>d.
         if vi_nlinks u \<noteq> di_nlinks d then kraise (Panic ''unlink_vinode->nlinks == unlink_dinode->nlinks'')
         else
           kthen (upd_vinode unlink_vinode (\<lambda>u. u\<lparr>vi_nlinks := vi_nlinks u - 1\<rparr>))
           (kthen (kput (\<lambda>s. set_bytes dp (wr32 8 (vi_nlinks u - 1) (page_bytes s dp)) s))
           (kthen (kwhen (vi_nlinks u - 1 = 0)
              (kthen (free_blocks (nat (di_blocks d)) (vi_sb v) dp 0)
                (kput (\<lambda>s. set_bytes dp (wr32 4 R_FREE (page_bytes s dp)) s))))
           (kbind (kget (\<lambda>s. page_bytes s dp)) (\<lambda>bytes.
           kbind (rfs_write_dinode rdev bytes inum) (\<lambda>_.
           kthen (free_page dp)
           (kbind (get_vinode par) (\<lambda>v.
           kthen (remove_direntry rdev v delete_index)
           (kthen (kwhen ((total - 1) smod one_block_direntrys = 0 \<and> 1 < vi_blocks v)
              (kbind (block_of v (vi_blocks v - 1)) (\<lambda>b.
               kbind (rfs_free_block (vi_sb v) b) (\<lambda>_.
                 upd_vinode par (\<lambda>p. p\<lparr>vi_blocks := vi_blocks p - 1\<rparr>)))))
           (kthen (upd_vinode par (\<lambda>p. p\<lparr>vi_size := vi_size p - int sizeof_direntry\<rparr>))
           (kbind (rfs_write_back_vinode par) (\<lambda>r.
             if r \<noteq> 0 then kreturn (-1) else kreturn 0)))))))))))))))))))"

section \<open>Reading directories\<close>

text \<open>The pages of the cache, from the last block of the directory to the first.\<close>

primrec load_dir :: "nat \<Rightarrow> u64 \<Rightarrow> vinode \<Rightarrow> u64 \<Rightarrow> ('z fs_state_scheme, u64) km" where
  "load_dir 0 rdev v pdire = kreturn pdire"
| "load_dir (Suc i) rdev v pdire =
     (let previous = pdire in
      kbind alloc_page (\<lambda>pdire.
      if previous \<noteq> 0 \<and> previous - pdire \<noteq> PGSIZE
      then kraise (Kill ''rfs_hook_opendir: memory discontinuity'' (-1))
      else kbind (block_of v (int i)) (\<lambda>b.
        kbind (rfs_r1block rdev b) (\<lambda>_.
        kbind (io_bytes rdev) (\<lambda>io.
        kthen (check_ptr pdire)
        (kthen (kput (set_bytes pdire io)) (load_dir i rdev v pdire)))))))"

definition rfs_hook_opendir :: "u64 \<Rightarrow> u64 \<Rightarrow> ('z fs_state_scheme, int) km" where
  "rfs_hook_opendir dir_vinode d =
     kbind (get_vinode dir_vinode) (\<lambda>v.
     kbind (rdev_of_sb (vi_sb v)) (\<lambda>rdev.
     kbind (load_dir (nat (vi_blocks v)) rdev v 0) (\<lambda>pdire.
     kbind new_page (\<lambda>dir_cache.
     kthen (kput (\<lambda>s. s\<lparr>dir_caches := (dir_caches s)(dir_cache := \<lparr>block_count = vi_blocks v, dir_base_addr = pdire\<rparr>)\<rparr>))
     (kthen (upd_vinode dir_vinode (\<lambda>v. v\<lparr>i_fs_info := dir_cache\<rparr>))
       (kreturn 0))))))"

definition rfs_hook_closedir :: "u64 \<Rightarrow> u64 \<Rightarrow> ('z fs_state_scheme, int) km" where
  "rfs_hook_closedir dir_vinode d =
     kbind (get_vinode dir_vinode) (\<lambda>v.
     kthen (check_ptr (i_fs_info v))
     (kbind (kget (\<lambda>s. dir_caches s (i_fs_info v))) (\<lambda>c.
     kthen (kfor [0..<nat (block_count c)] (\<lambda>i. free_page (dir_base_addr c + of_nat i * PGSIZE)))
       (kreturn 0))))"

record rfs_dir =
  dir_name :: "u8 list"
  dir_inum :: int

text \<open>The result, the entry read (29 bytes from the name field on) and the new offset.\<close>

definition rfs_readdir :: "u64 \<Rightarrow> int \<Rightarrow> ('z fs_state_scheme, int \<times> rfs_dir option \<times> int) km" where
  "rfs_readdir dir_vinode offset =
     kbind (get_vinode dir_vinode) (\<lambda>v.
     if total_direntrys (vi_size v) \<le> offset then kreturn (-1, None, offset)
     else kthen (check_ptr (i_fs_info v))
       (kbind (kget (\<lambda>s. dir_base_addr (dir_caches s (i_fs_info v)))) (\<lambda>base.
       let p = base + of_int offset * of_nat sizeof_direntry in
       kbind (kget (\<lambda>s. \<lparr>dir_name = load_bytes s (p + 4) (RFS_MAX_FILE_NAME_LEN + 1),
          dir_inum = rd32 (\<lambda>i. load_byte s (p + of_nat i)) 0\<rparr>)) (\<lambda>d.
         kreturn (0, Some d, offset + 1)))))"

end
