(* ===== verification/Hostfs.thy ===== *)
theory Hostfs
  imports Spike_File Rfs_Dir
begin

text \<open>
  The host file system, \<^verbatim>\<open>kernel/hostfs.c\<close>: vinodes backed by files of the host below
  \<^verbatim>\<open>./hostfs_root\<close>.  \<open>F\<close> is the host (see \<^verbatim>\<open>Spike_File\<close>).  The tests \<^verbatim>\<open>pf < 0\<close> of the source compare a
  pointer with 0 and are never true; they have no counterpart here.
\<close>

definition HOSTFS_TYPE :: int where "HOSTFS_TYPE = 1"
definition H_FILE :: int where "H_FILE = FILE_I"
definition H_DIR :: int where "H_DIR = DIR_I"

text \<open>\<^verbatim>\<open>"./hostfs_root"\<close>\<close>

definition H_ROOT_DIR :: "u8 list" where
  "H_ROOT_DIR = [46, 47, 104, 111, 115, 116, 102, 115, 95, 114, 111, 111, 116]"

definition S_IRUSR_IWUSR :: i32 where "S_IRUSR_IWUSR = 384"

section \<open>Registration and paths\<close>

definition register_hostfs :: "('z fs_state_scheme, int) km" where
  "register_hostfs = register_fs HOSTFS_TYPE hostfs_get_superblock_fn"

definition init_host_device :: "u8 list \<Rightarrow> ('z fs_state_scheme, u64) km" where
  "init_host_device name =
     kbind (kget (find_fs HOSTFS_TYPE)) (\<lambda>fs_type.
     if fs_type = 0 then kraise (Kill ''init_host_device: No HOSTFS file system found!'' (-1))
     else new_device name 0 fs_type)"

text \<open>
  The path of a dentry below the root, with the \<^verbatim>\<open>strcat\<close>s of the recursion on the way back; \<open>n\<close> bounds the
  depth, beyond which the parents form a cycle.
\<close>

primrec path_backtrack :: "nat \<Rightarrow> u8 list \<Rightarrow> u64 \<Rightarrow> ('z fs_state_scheme, u8 list) km" where
  "path_backtrack 0 path d = kraise Diverge"
| "path_backtrack (Suc n) path d =
     kbind (get_dentry d) (\<lambda>e.
     if d_parent e = 0 then kreturn path
     else kbind (path_backtrack n path (d_parent e)) (\<lambda>path.
       kbind (copy_name MAX_PATH_LEN (path @ [47])) (\<lambda>path.
       copy_name MAX_PATH_LEN (path @ d_name e))))"

definition get_path_string :: "u64 \<Rightarrow> ('z fs_state_scheme, u8 list) km" where
  "get_path_string d = path_backtrack chain_bound H_ROOT_DIR d"

section \<open>Vinodes\<close>

definition hostfs_alloc_vinode :: "u64 \<Rightarrow> ('z fs_state_scheme, u64) km" where
  "hostfs_alloc_vinode sb = kbind (default_alloc_vinode sb) (\<lambda>p.
     kthen (upd_vinode p (\<lambda>v. v\<lparr>vi_inum := -1, i_fs_info := 0, i_ops := hostfs_i_ops\<rparr>)) (kreturn p))"

definition hostfs_write_back_vinode :: "u64 \<Rightarrow> ('z fs_state_scheme, int) km" where
  "hostfs_write_back_vinode vi = kreturn 0"

text \<open>\<^verbatim>\<open>S_ISDIR\<close> and \<^verbatim>\<open>S_ISREG\<close>, and the conversion of a host value to \<^verbatim>\<open>int\<close>.\<close>

definition S_ISDIR :: "u32 \<Rightarrow> bool" where "S_ISDIR m \<longleftrightarrow> m AND 0xF000 = 0x4000"
definition S_ISREG :: "u32 \<Rightarrow> bool" where "S_ISREG m \<longleftrightarrow> m AND 0xF000 = 0x8000"
definition to_int :: "u64 \<Rightarrow> int" where "to_int w = sint (ucast w :: 32 word)"

definition hostfs_update_vinode :: "host \<Rightarrow> u64 \<Rightarrow> ('z fs_state_scheme, int) km" where
  "hostfs_update_vinode F vi =
     kbind (get_vinode vi) (\<lambda>v.
     let f = i_fs_info v in
     if sint f < 0 then kthen (upd_vinode vi (\<lambda>v. v\<lparr>vi_type := H_DIR\<rparr>)) (kreturn (-1))
     else kbind (spike_file_stat F f) (\<lambda>(_, st).
       kthen (upd_vinode vi (\<lambda>v. v\<lparr>vi_inum := to_int (fs_ino st), vi_size := to_int (fs_size st),
          vi_nlinks := sint (fs_nlink st), vi_blocks := to_int (fs_blocks st)\<rparr>))
       (if S_ISDIR (fs_mode st) then kthen (upd_vinode vi (\<lambda>v. v\<lparr>vi_type := H_DIR\<rparr>)) (kreturn 0)
        else if S_ISREG (fs_mode st) then kthen (upd_vinode vi (\<lambda>v. v\<lparr>vi_type := H_FILE\<rparr>)) (kreturn 0)
        else kreturn (-1))))"

section \<open>File operations\<close>

definition hostfs_read ::
  "host \<Rightarrow> u64 \<Rightarrow> (nat \<Rightarrow> u8) \<Rightarrow> int \<Rightarrow> int \<Rightarrow> ('z fs_state_scheme, int \<times> (nat \<Rightarrow> u8) \<times> int) km" where
  "hostfs_read F f_inode r_buf len offset =
     kbind (get_vinode f_inode) (\<lambda>v.
     kbind (spike_file_read F (i_fs_info v) r_buf (word_of_int len)) (\<lambda>(r, r_buf).
     kbind (spike_file_lseek F (i_fs_info v) 0 1) (\<lambda>off.
       kreturn (to_int (word_of_int r), r_buf, to_int (word_of_int off)))))"

definition hostfs_write ::
  "host \<Rightarrow> u64 \<Rightarrow> (nat \<Rightarrow> u8) \<Rightarrow> int \<Rightarrow> int \<Rightarrow> ('z fs_state_scheme, int \<times> int) km" where
  "hostfs_write F f_inode w_buf len offset =
     kbind (get_vinode f_inode) (\<lambda>v.
     if len < 0 then kraise (Fault ''negative length'')
     else kbind (spike_file_write F (i_fs_info v) (map w_buf [0..<nat len])) (\<lambda>r.
       kbind (spike_file_lseek F (i_fs_info v) 0 1) (\<lambda>off.
         kreturn (to_int (word_of_int r), to_int (word_of_int off)))))"

definition hostfs_lookup :: "host \<Rightarrow> u64 \<Rightarrow> u64 \<Rightarrow> ('z fs_state_scheme, u64) km" where
  "hostfs_lookup F par sub_dentry =
     kbind (get_path_string sub_dentry) (\<lambda>path.
     kbind (spike_file_open F path O_RDWR 0) (\<lambda>f.
     kbind (get_vinode par) (\<lambda>p.
     kbind (hostfs_alloc_vinode (vi_sb p)) (\<lambda>child.
     kthen (upd_vinode child (\<lambda>c. c\<lparr>i_fs_info := f\<rparr>))
     (kbind (hostfs_update_vinode F child) (\<lambda>_.
     kthen (upd_vinode child (\<lambda>c. c\<lparr>vi_ref := 0\<rparr>)) (kreturn child)))))))"

definition hostfs_create :: "host \<Rightarrow> u64 \<Rightarrow> u64 \<Rightarrow> ('z fs_state_scheme, u64) km" where
  "hostfs_create F par sub_dentry =
     kbind (get_path_string sub_dentry) (\<lambda>path.
     kbind (spike_file_open F path (O_RDWR OR O_CREAT) S_IRUSR_IWUSR) (\<lambda>f.
     if sint f < 0 then kreturn 0
     else kbind (get_vinode par) (\<lambda>p.
       kbind (hostfs_alloc_vinode (vi_sb p)) (\<lambda>new_inode.
       kthen (upd_vinode new_inode (\<lambda>c. c\<lparr>i_fs_info := f\<rparr>))
       (kbind (hostfs_update_vinode F new_inode) (\<lambda>r.
         if r \<noteq> 0 then kreturn 0
         else kthen (upd_vinode new_inode (\<lambda>c. c\<lparr>vi_ref := 0\<rparr>)) (kreturn new_inode)))))))"

definition hostfs_lseek :: "host \<Rightarrow> u64 \<Rightarrow> int \<Rightarrow> int \<Rightarrow> int \<Rightarrow> ('z fs_state_scheme, int \<times> int) km" where
  "hostfs_lseek F f_inode new_offset whence offset =
     kbind (get_vinode f_inode) (\<lambda>v.
     kbind (spike_file_lseek F (i_fs_info v) (word_of_int new_offset) (word_of_int whence)) (\<lambda>r.
       let off = to_int (word_of_int r) in
       if 0 \<le> off then kreturn (0, off) else kreturn (-1, off)))"

definition hostfs_link :: "u64 \<Rightarrow> u64 \<Rightarrow> u64 \<Rightarrow> ('z fs_state_scheme, int) km" where
  "hostfs_link par sub link_node = kraise (Kill ''hostfs_link not implemented!'' (-1))"

definition hostfs_unlink :: "u64 \<Rightarrow> u64 \<Rightarrow> u64 \<Rightarrow> ('z fs_state_scheme, int) km" where
  "hostfs_unlink par sub unlink_node = kraise (Kill ''hostfs_unlink not implemented!'' (-1))"

definition hostfs_readdir :: "u64 \<Rightarrow> int \<Rightarrow> ('z fs_state_scheme, int \<times> rfs_dir option \<times> int) km" where
  "hostfs_readdir dir_vinode offset = kraise (Kill ''hostfs_readdir not implemented!'' (-1))"

definition hostfs_mkdir :: "u64 \<Rightarrow> u64 \<Rightarrow> ('z fs_state_scheme, u64) km" where
  "hostfs_mkdir par sub = kraise (Kill ''hostfs_mkdir not implemented!'' (-1))"

section \<open>Hooks and mounting\<close>

definition hostfs_hook_open :: "host \<Rightarrow> u64 \<Rightarrow> u64 \<Rightarrow> ('z fs_state_scheme, int) km" where
  "hostfs_hook_open F f_inode f_dent =
     kbind (get_vinode f_inode) (\<lambda>v.
     if i_fs_info v \<noteq> 0 then kreturn 0
     else kbind (get_path_string f_dent) (\<lambda>path.
       kbind (spike_file_open F path O_RDWR 0) (\<lambda>f.
       if sint f < 0 then kreturn (-1)
       else kthen (upd_vinode f_inode (\<lambda>v. v\<lparr>i_fs_info := f\<rparr>)) (kreturn 0))))"

definition hostfs_hook_close :: "host \<Rightarrow> u64 \<Rightarrow> u64 \<Rightarrow> ('z fs_state_scheme, int) km" where
  "hostfs_hook_close F f_inode d =
     kbind (get_vinode f_inode) (\<lambda>v. kbind (spike_file_close F (i_fs_info v)) (\<lambda>_. kreturn 0))"

definition hostfs_get_superblock :: "u64 \<Rightarrow> ('z fs_state_scheme, u64) km" where
  "hostfs_get_superblock dev =
     kbind new_page (\<lambda>sb.
     kthen (upd_sb sb (\<lambda>b. b\<lparr>s_dev := dev\<rparr>))
     (kbind (hostfs_alloc_vinode sb) (\<lambda>root_inode.
     kthen (upd_vinode root_inode (\<lambda>v. v\<lparr>vi_type := H_DIR\<rparr>))
     (kbind (alloc_vfs_dentry [47] root_inode 0) (\<lambda>root_dentry.
     kthen (upd_sb sb (\<lambda>b. b\<lparr>s_root := root_dentry\<rparr>)) (kreturn sb))))))"

end
