(* ===== verification/Vfs.thy ===== *)
theory Vfs
  imports Hostfs
begin

text \<open>
  The virtual file system, \<^verbatim>\<open>kernel/vfs.c\<close>: path lookup through the dentry and vinode caches, and the
  file and directory operations, which end in the operations of one of the two file systems.

  A vinode carries the name of its operations table, and the macros \<^verbatim>\<open>viop_...\<close> select by it; an entry
  that a table does not define is a null function pointer (\<open>Fault\<close>) or, for the hooks, is skipped.
  \<open>F\<close> is the host, \<open>tp\<close> the hart.  Paths and names are byte strings without their NUL; the pieces
  between slashes are the \<open>tokens\<close> that \<^verbatim>\<open>strtok\<close> delivers one by one.  An open file is an entry
  of the table of a process, or the page that \<^verbatim>\<open>vfs_open\<close> allocates.
\<close>

section \<open>Operations of a vinode\<close>

definition viop_read ::
  "host \<Rightarrow> u64 \<Rightarrow> (nat \<Rightarrow> u8) \<Rightarrow> int \<Rightarrow> int \<Rightarrow> ('z fs_state_scheme, int \<times> (nat \<Rightarrow> u8) \<times> int) km" where
  "viop_read F node buf len offset = kbind (get_vinode node) (\<lambda>v. case i_ops v of
     rfs_i_ops \<Rightarrow> rfs_read node buf len offset | hostfs_i_ops \<Rightarrow> hostfs_read F node buf len offset)"

definition viop_write ::
  "host \<Rightarrow> u64 \<Rightarrow> (nat \<Rightarrow> u8) \<Rightarrow> int \<Rightarrow> int \<Rightarrow> ('z fs_state_scheme, int \<times> int) km" where
  "viop_write F node buf len offset = kbind (get_vinode node) (\<lambda>v. case i_ops v of
     rfs_i_ops \<Rightarrow> rfs_write node buf len offset | hostfs_i_ops \<Rightarrow> hostfs_write F node buf len offset)"

definition viop_create :: "host \<Rightarrow> u64 \<Rightarrow> u64 \<Rightarrow> ('z fs_state_scheme, u64) km" where
  "viop_create F node sub = kbind (get_vinode node) (\<lambda>v. case i_ops v of
     rfs_i_ops \<Rightarrow> rfs_create node sub | hostfs_i_ops \<Rightarrow> hostfs_create F node sub)"

definition viop_lseek :: "host \<Rightarrow> u64 \<Rightarrow> int \<Rightarrow> int \<Rightarrow> int \<Rightarrow> ('z fs_state_scheme, int \<times> int) km" where
  "viop_lseek F node new_off whence off = kbind (get_vinode node) (\<lambda>v. case i_ops v of
     rfs_i_ops \<Rightarrow> rfs_lseek node new_off whence off | hostfs_i_ops \<Rightarrow> hostfs_lseek F node new_off whence off)"

definition viop_disk_stat :: "u64 \<Rightarrow> ('z fs_state_scheme, int \<times> istat option) km" where
  "viop_disk_stat node = kbind (get_vinode node) (\<lambda>v. case i_ops v of
     rfs_i_ops \<Rightarrow> rfs_disk_stat node | hostfs_i_ops \<Rightarrow> kraise (Fault ''viop_disk_stat is NULL''))"

definition viop_link :: "u64 \<Rightarrow> u64 \<Rightarrow> u64 \<Rightarrow> ('z fs_state_scheme, int) km" where
  "viop_link node sub link_node = kbind (get_vinode node) (\<lambda>v. case i_ops v of
     rfs_i_ops \<Rightarrow> rfs_link node sub link_node | hostfs_i_ops \<Rightarrow> hostfs_link node sub link_node)"

definition viop_unlink :: "u64 \<Rightarrow> u64 \<Rightarrow> u64 \<Rightarrow> ('z fs_state_scheme, int) km" where
  "viop_unlink node sub unlink_node = kbind (get_vinode node) (\<lambda>v. case i_ops v of
     rfs_i_ops \<Rightarrow> rfs_unlink node sub unlink_node | hostfs_i_ops \<Rightarrow> hostfs_unlink node sub unlink_node)"

definition viop_lookup :: "host \<Rightarrow> u64 \<Rightarrow> u64 \<Rightarrow> ('z fs_state_scheme, u64) km" where
  "viop_lookup F node sub = kbind (get_vinode node) (\<lambda>v. case i_ops v of
     rfs_i_ops \<Rightarrow> rfs_lookup node sub | hostfs_i_ops \<Rightarrow> hostfs_lookup F node sub)"

definition viop_readdir :: "u64 \<Rightarrow> int \<Rightarrow> ('z fs_state_scheme, int \<times> rfs_dir option \<times> int) km" where
  "viop_readdir node offset = kbind (get_vinode node) (\<lambda>v. case i_ops v of
     rfs_i_ops \<Rightarrow> rfs_readdir node offset | hostfs_i_ops \<Rightarrow> hostfs_readdir node offset)"

definition viop_mkdir :: "u64 \<Rightarrow> u64 \<Rightarrow> ('z fs_state_scheme, u64) km" where
  "viop_mkdir node sub = kbind (get_vinode node) (\<lambda>v. case i_ops v of
     rfs_i_ops \<Rightarrow> rfs_mkdir node sub | hostfs_i_ops \<Rightarrow> hostfs_mkdir node sub)"

definition viop_write_back_vinode :: "u64 \<Rightarrow> ('z fs_state_scheme, int) km" where
  "viop_write_back_vinode node = kbind (get_vinode node) (\<lambda>v. case i_ops v of
     rfs_i_ops \<Rightarrow> rfs_write_back_vinode node | hostfs_i_ops \<Rightarrow> hostfs_write_back_vinode node)"

text \<open>The hooks; the result of a hook only decides about a message.\<close>

definition viop_hook_open :: "host \<Rightarrow> u64 \<Rightarrow> u64 \<Rightarrow> ('z fs_state_scheme, unit) km" where
  "viop_hook_open F node d = kbind (get_vinode node) (\<lambda>v. case i_ops v of
     rfs_i_ops \<Rightarrow> kreturn () | hostfs_i_ops \<Rightarrow> kbind (hostfs_hook_open F node d) (\<lambda>_. kreturn ()))"

definition viop_hook_close :: "host \<Rightarrow> u64 \<Rightarrow> u64 \<Rightarrow> ('z fs_state_scheme, unit) km" where
  "viop_hook_close F node d = kbind (get_vinode node) (\<lambda>v. case i_ops v of
     rfs_i_ops \<Rightarrow> kreturn () | hostfs_i_ops \<Rightarrow> kbind (hostfs_hook_close F node d) (\<lambda>_. kreturn ()))"

definition viop_hook_opendir :: "u64 \<Rightarrow> u64 \<Rightarrow> ('z fs_state_scheme, unit) km" where
  "viop_hook_opendir node d = kbind (get_vinode node) (\<lambda>v. case i_ops v of
     rfs_i_ops \<Rightarrow> kbind (rfs_hook_opendir node d) (\<lambda>_. kreturn ()) | hostfs_i_ops \<Rightarrow> kreturn ())"

definition viop_hook_closedir :: "u64 \<Rightarrow> u64 \<Rightarrow> ('z fs_state_scheme, unit) km" where
  "viop_hook_closedir node d = kbind (get_vinode node) (\<lambda>v. case i_ops v of
     rfs_i_ops \<Rightarrow> kbind (rfs_hook_closedir node d) (\<lambda>_. kreturn ()) | hostfs_i_ops \<Rightarrow> kreturn ())"

section \<open>Initialisation and mounting\<close>

definition vfs_init :: "('z fs_state_scheme, int) km" where
  "vfs_init = kbind (hash_table_init dentry_table) (\<lambda>ret.
     if ret \<noteq> 0 then kreturn ret
     else kbind (hash_table_init vinode_table) (\<lambda>ret.
       if ret \<noteq> 0 then kreturn ret else kreturn 0))"

text \<open>The device found by the loop: the first of that name, or else what the last slot holds.\<close>

definition mount_device :: "u8 list \<Rightarrow> 'z fs_state_scheme \<Rightarrow> u64" where
  "mount_device name s = (case first_index MAX_VFS_DEV (\<lambda>i. vfs_dev_list s i \<noteq> 0 \<and> dev_name (devices s (vfs_dev_list s i)) = name) of
     Some i \<Rightarrow> vfs_dev_list s i | None \<Rightarrow> vfs_dev_list s (MAX_VFS_DEV - 1))"

definition vfs_mount :: "u8 list \<Rightarrow> int \<Rightarrow> ('z fs_state_scheme, u64) km" where
  "vfs_mount name mnt_type =
     kbind (kget (mount_device name)) (\<lambda>p_device.
     if p_device = 0 then kraise (Kill ''vfs_mount: cannot find the device entry!'' (-1))
     else kbind (get_device p_device) (\<lambda>dev.
       kthen (check_ptr (dev_fs_type dev))
       (kbind (kget (\<lambda>s. get_superblock (fs_types s (dev_fs_type dev)))) (\<lambda>fn.
       kbind (case fn of rfs_get_superblock_fn \<Rightarrow> rfs_get_superblock p_device
              | hostfs_get_superblock_fn \<Rightarrow> hostfs_get_superblock p_device) (\<lambda>sb.
       kbind (get_sb sb) (\<lambda>b.
       kbind (get_dentry (s_root b)) (\<lambda>root.
       kbind (hash_put_vinode (dentry_inode root)) (\<lambda>_.
       kbind (kget (\<lambda>s. first_index MAX_MOUNTS (\<lambda>i. vfs_sb_list s i = 0))) (\<lambda>slot.
       case slot of
         None \<Rightarrow> kraise (Kill ''vfs_mount: too many mounts!'' (-1))
       | Some i \<Rightarrow>
           kthen (kput (\<lambda>s. s\<lparr>vfs_sb_list := (vfs_sb_list s)(i := sb)\<rparr>))
           (if mnt_type = MOUNT_AS_ROOT
            then kthen (kput (\<lambda>s. s\<lparr>vfs_root_dentry := s_root b\<rparr>))
              (kbind (hash_put_dentry (s_root b)) (\<lambda>_. kreturn sb))
            else if mnt_type = MOUNT_DEFAULT
            then kbind (kget vfs_root_dentry) (\<lambda>rootd.
              if rootd = 0 then kraise (Kill ''vfs_mount: root dentry not found, please mount the root device first!'' (-1))
              else kbind (copy_name MAX_DENTRY_NAME_LEN (dev_name dev)) (\<lambda>nm.
                kthen (upd_dentry (s_root b) (\<lambda>d. d\<lparr>d_name := nm, d_parent := rootd\<rparr>))
                (kbind (hash_put_dentry (s_root b)) (\<lambda>_. kreturn sb))))
            else kraise (Kill ''vfs_mount: unknown mount type!'' (-1))))))))))))"

section \<open>Path lookup\<close>

text \<open>Characters: slash, dot.\<close>

definition SLASH :: u8 where "SLASH = 47"
definition DOT :: u8 where "DOT = 46"

text \<open>Testing and cutting a prefix of a path.\<close>

definition has_prefix :: "u8 list \<Rightarrow> u8 list \<Rightarrow> bool" where
  "has_prefix pre path \<longleftrightarrow> take (length pre) path = pre"

definition current_cwd :: "nat \<Rightarrow> ('z fs_state_scheme, u64) km" where
  "current_cwd tp = kbind (cur tp) (\<lambda>p.
     kbind (kget (\<lambda>s. pfiles (procs s p))) (\<lambda>pf. kthen (check_ptr pf) (kget (\<lambda>s. cwd (pfile_tab s pf)))))"

text \<open>The start of \<^verbatim>\<open>vfs_open\<close>, \<^verbatim>\<open>vfs_link\<close>, \<^verbatim>\<open>vfs_unlink\<close>, \<^verbatim>\<open>vfs_opendir\<close> and \<^verbatim>\<open>vfs_mkdir\<close>: where the lookup
  starts, and the rest of the path.\<close>

definition path_start :: "nat \<Rightarrow> u8 list \<Rightarrow> ('z fs_state_scheme, u64 \<times> u8 list) km" where
  "path_start tp path =
     kbind (kget vfs_root_dentry) (\<lambda>par.
     kbind (if has_prefix [DOT, SLASH] path
            then kbind (current_cwd tp) (\<lambda>c. kreturn (c, drop 2 path)) else kreturn (par, path)) (\<lambda>(par, path).
       if has_prefix [DOT, DOT, SLASH] path
       then kbind (current_cwd tp) (\<lambda>c. kbind (get_dentry c) (\<lambda>d. kreturn (d_parent d, drop 3 path)))
       else kreturn (par, path)))"

text \<open>
  The loop of \<^verbatim>\<open>lookup_final_dentry\<close> over the remaining tokens: the dentry found (0 for none), the last
  parent and the name that was missing.
\<close>

primrec walk_tokens ::
  "host \<Rightarrow> u8 list list \<Rightarrow> u64 \<Rightarrow> u64 \<Rightarrow> ('z fs_state_scheme, u64 \<times> u64 \<times> u8 list) km" where
  "walk_tokens F [] this par = kreturn (this, par, [])"
| "walk_tokens F (token # toks) this par =
     (let par = this in
      kbind (hash_get_dentry par token) (\<lambda>this.
      if this \<noteq> 0 then walk_tokens F toks this par
      else kbind (alloc_vfs_dentry token 0 par) (\<lambda>this.
        kbind (get_dentry par) (\<lambda>pd.
        kbind (viop_lookup F (dentry_inode pd) this) (\<lambda>found_vinode.
        if found_vinode = 0
        then kthen (free_page this)
          (kbind (copy_name MAX_PATH_LEN token) (\<lambda>miss. kreturn (0, par, miss)))
        else kbind (get_vinode found_vinode) (\<lambda>fv.
          kbind (hash_get_vinode (vi_sb fv) (vi_inum fv)) (\<lambda>same_inode.
          kthen
            (if same_inode \<noteq> 0
             then kthen (upd_dentry this (\<lambda>d. d\<lparr>dentry_inode := same_inode\<rparr>))
               (kthen (upd_vinode same_inode (\<lambda>v. v\<lparr>vi_ref := vi_ref v + 1\<rparr>))
               (free_page found_vinode))
             else kthen (upd_dentry this (\<lambda>d. d\<lparr>dentry_inode := found_vinode\<rparr>))
               (kthen (upd_vinode found_vinode (\<lambda>v. v\<lparr>vi_ref := vi_ref v + 1\<rparr>))
               (kbind (hash_put_vinode found_vinode) (\<lambda>_. kreturn ()))))
          (kbind (hash_put_dentry this) (\<lambda>_. walk_tokens F toks this par)))))))))"

definition lookup_final_dentry ::
  "host \<Rightarrow> u8 list \<Rightarrow> u64 \<Rightarrow> ('z fs_state_scheme, u64 \<times> u64 \<times> u8 list) km" where
  "lookup_final_dentry F path par =
     (let path = (if has_prefix [DOT, SLASH] path then drop 2 path else path) in
      kbind (if has_prefix [DOT, DOT, SLASH] path
             then kbind (get_dentry par) (\<lambda>d. kreturn (d_parent d, drop 3 path)) else kreturn (par, path)) (\<lambda>(par, path).
      if path = [DOT] then kreturn (par, par, [])
      else if path = [DOT, DOT] then kbind (get_dentry par) (\<lambda>d. kreturn (d_parent d, d_parent d, []))
      else kbind (copy_name MAX_PATH_LEN path) (\<lambda>path_copy.
        walk_tokens F (tokens SLASH path_copy) par par)))"

text \<open>The last token; a path without one makes the source copy from a null pointer.\<close>

definition get_base_name :: "u8 list \<Rightarrow> ('z fs_state_scheme, u8 list) km" where
  "get_base_name path = kbind (copy_name MAX_PATH_LEN path) (\<lambda>path_copy.
     case tokens SLASH path_copy of
       [] \<Rightarrow> kraise (Fault ''NULL pointer'')
     | t # ts \<Rightarrow> copy_name MAX_PATH_LEN (last (t # ts)))"

section \<open>Files\<close>

text \<open>
  A pointer to an open file: an entry of the table of a process, or the page that \<^verbatim>\<open>vfs_open\<close> returns.
\<close>

datatype file_ref = Table_Entry u64 nat | File_Page u64

definition get_file :: "file_ref \<Rightarrow> ('z fs_state_scheme, vfs_file) km" where
  "get_file fr = (case fr of
     Table_Entry pf i \<Rightarrow> kget (\<lambda>s. opened_files (pfile_tab s pf) i)
   | File_Page p \<Rightarrow> kthen (check_ptr p) (kget (\<lambda>s. files s p)))"

definition upd_file :: "file_ref \<Rightarrow> (vfs_file \<Rightarrow> vfs_file) \<Rightarrow> ('z fs_state_scheme, unit) km" where
  "upd_file fr g = (case fr of
     Table_Entry pf i \<Rightarrow> kput (\<lambda>s. s\<lparr>pfile_tab := (pfile_tab s)(pf :=
       (pfile_tab s pf)\<lparr>opened_files := (opened_files (pfile_tab s pf))(i := g (opened_files (pfile_tab s pf) i))\<rparr>)\<rparr>)
   | File_Page p \<Rightarrow> kthen (check_ptr p) (kput (\<lambda>s. s\<lparr>files := (files s)(p := g (files s p))\<rparr>)))"

text \<open>\<^verbatim>\<open>file->f_dentry->dentry_inode\<close>\<close>

definition file_vinode :: "file_ref \<Rightarrow> ('z fs_state_scheme, u64) km" where
  "file_vinode fr = kbind (get_file fr) (\<lambda>f. kbind (get_dentry (f_dentry f)) (\<lambda>d. kreturn (dentry_inode d)))"

text \<open>Access rights from the open flags: \<open>(writable, readable)\<close>.\<close>

definition open_mode :: "i32 \<Rightarrow> (int \<times> int) option" where
  "open_mode flags = (let m = flags AND MASK_FILEMODE in
     if m = O_RDONLY then Some (0, 1) else if m = O_WRONLY then Some (1, 0)
     else if m = O_RDWR then Some (1, 1) else None)"

definition vfs_open :: "host \<Rightarrow> nat \<Rightarrow> u8 list \<Rightarrow> i32 \<Rightarrow> ('z fs_state_scheme, u64) km" where
  "vfs_open F tp path flags =
     kbind (path_start tp path) (\<lambda>(par, path).
     kbind (lookup_final_dentry F path par) (\<lambda>(file_dentry, par, miss_name).
     kbind
       (if file_dentry \<noteq> 0 then kreturn file_dentry
        else if flags AND O_CREAT = 0 then kreturn 0
        else kbind (get_base_name path) (\<lambda>basename.
          if miss_name \<noteq> basename then kreturn 0
          else kbind (alloc_vfs_dentry basename 0 par) (\<lambda>file_dentry.
            kbind (get_dentry par) (\<lambda>pd.
            kbind (viop_create F (dentry_inode pd) file_dentry) (\<lambda>new_inode.
            if new_inode = 0 then kraise (Kill ''vfs_open: cannot create file!'' (-1))
            else kthen (upd_dentry file_dentry (\<lambda>d. d\<lparr>dentry_inode := new_inode\<rparr>))
              (kthen (upd_vinode new_inode (\<lambda>v. v\<lparr>vi_ref := vi_ref v + 1\<rparr>))
              (kbind (hash_put_dentry file_dentry) (\<lambda>_.
              kbind (hash_put_vinode new_inode) (\<lambda>_. kreturn file_dentry)))))))))
       (\<lambda>file_dentry.
         if file_dentry = 0 then kreturn 0
         else kbind (get_dentry file_dentry) (\<lambda>fd.
           kbind (get_vinode (dentry_inode fd)) (\<lambda>v.
           if vi_type v \<noteq> FILE_I then kreturn 0
           else case open_mode flags of
             None \<Rightarrow> kraise (Kill ''fs_open: invalid open flags!'' (-1))
           | Some (writable, readable) \<Rightarrow>
               kbind (alloc_vfs_file file_dentry readable writable 0) (\<lambda>fl.
               kthen (viop_hook_open F (dentry_inode fd) file_dentry) (kreturn fl)))))))"

definition vfs_read ::
  "host \<Rightarrow> file_ref \<Rightarrow> (nat \<Rightarrow> u8) \<Rightarrow> int \<Rightarrow> ('z fs_state_scheme, int \<times> (nat \<Rightarrow> u8)) km" where
  "vfs_read F fr buf count =
     kbind (get_file fr) (\<lambda>f.
     if f_readable f = 0 then kreturn (-1, buf)
     else kbind (file_vinode fr) (\<lambda>node.
       kbind (get_vinode node) (\<lambda>v.
       if vi_type v \<noteq> FILE_I then kreturn (-1, buf)
       else kbind (viop_read F node buf count (f_offset f)) (\<lambda>(r, buf, off).
         kthen (upd_file fr (\<lambda>f. f\<lparr>f_offset := off\<rparr>)) (kreturn (r, buf))))))"

definition vfs_write :: "host \<Rightarrow> file_ref \<Rightarrow> (nat \<Rightarrow> u8) \<Rightarrow> int \<Rightarrow> ('z fs_state_scheme, int) km" where
  "vfs_write F fr buf count =
     kbind (get_file fr) (\<lambda>f.
     if f_writable f = 0 then kreturn (-1)
     else kbind (file_vinode fr) (\<lambda>node.
       kbind (get_vinode node) (\<lambda>v.
       if vi_type v \<noteq> FILE_I then kreturn (-1)
       else kbind (viop_write F node buf count (f_offset f)) (\<lambda>(r, off).
         kthen (upd_file fr (\<lambda>f. f\<lparr>f_offset := off\<rparr>)) (kreturn r)))))"

definition vfs_lseek :: "host \<Rightarrow> file_ref \<Rightarrow> int \<Rightarrow> int \<Rightarrow> ('z fs_state_scheme, int) km" where
  "vfs_lseek F fr offset whence =
     kbind (file_vinode fr) (\<lambda>node.
     kbind (get_vinode node) (\<lambda>v.
     if vi_type v \<noteq> FILE_I then kreturn (-1)
     else kbind (get_file fr) (\<lambda>f.
       kbind (viop_lseek F node offset whence (f_offset f)) (\<lambda>(r, off).
       kthen (upd_file fr (\<lambda>f. f\<lparr>f_offset := off\<rparr>))
         (if r \<noteq> 0 then kreturn (-1) else kreturn off)))))"

definition vfs_stat :: "file_ref \<Rightarrow> ('z fs_state_scheme, int \<times> istat) km" where
  "vfs_stat fr = kbind (file_vinode fr) (\<lambda>node. kbind (get_vinode node) (\<lambda>v.
     kreturn (0, \<lparr>st_inum = vi_inum v, st_size = vi_size v, st_type = vi_type v, st_nlinks = vi_nlinks v, st_blocks = vi_blocks v\<rparr>)))"

definition vfs_disk_stat :: "file_ref \<Rightarrow> ('z fs_state_scheme, int \<times> istat option) km" where
  "vfs_disk_stat fr = kbind (file_vinode fr) viop_disk_stat"

definition vfs_link :: "host \<Rightarrow> nat \<Rightarrow> u8 list \<Rightarrow> u8 list \<Rightarrow> ('z fs_state_scheme, int) km" where
  "vfs_link F tp oldpath newpath =
     kbind (path_start tp oldpath) (\<lambda>(par, oldpath).
     kbind (lookup_final_dentry F oldpath par) (\<lambda>(old_dentry, par, miss_name).
     if old_dentry = 0 then kreturn (-1)
     else kbind (get_dentry old_dentry) (\<lambda>od.
       kbind (get_vinode (dentry_inode od)) (\<lambda>v.
       if vi_type v \<noteq> FILE_I then kreturn (-1)
       else kbind (kget vfs_root_dentry) (\<lambda>par.
         kbind (lookup_final_dentry F newpath par) (\<lambda>(new_dentry, par, miss_name).
         if new_dentry \<noteq> 0 then kreturn (-1)
         else kbind (get_base_name newpath) (\<lambda>basename.
           if miss_name \<noteq> basename then kreturn (-1)
           else kbind (get_dentry old_dentry) (\<lambda>od.
             kbind (alloc_vfs_dentry basename (dentry_inode od) par) (\<lambda>new_dentry.
             kbind (get_dentry par) (\<lambda>pd.
             kbind (viop_link (dentry_inode pd) new_dentry (dentry_inode od)) (\<lambda>err.
             if err \<noteq> 0 then kreturn (-1)
             else kbind (hash_put_dentry new_dentry) (\<lambda>_. kreturn 0))))))))))))"

definition vfs_unlink :: "host \<Rightarrow> nat \<Rightarrow> u8 list \<Rightarrow> ('z fs_state_scheme, int) km" where
  "vfs_unlink F tp path =
     kbind (path_start tp path) (\<lambda>(par, path).
     kbind (lookup_final_dentry F path par) (\<lambda>(file_dentry, par, miss_name).
     if file_dentry = 0 then kreturn (-1)
     else kbind (get_dentry file_dentry) (\<lambda>fd.
       kbind (get_vinode (dentry_inode fd)) (\<lambda>v.
       if vi_type v \<noteq> FILE_I then kreturn (-1)
       else if 0 < d_ref fd then kreturn (-1)
       else let unlinked = dentry_inode fd in
         kbind (get_dentry par) (\<lambda>pd.
         kbind (viop_unlink (dentry_inode pd) file_dentry unlinked) (\<lambda>err.
         if err \<noteq> 0 then kreturn (-1)
         else kbind (hash_erase_dentry file_dentry) (\<lambda>_.
           kbind (free_vfs_dentry file_dentry) (\<lambda>_.
           kthen (upd_vinode unlinked (\<lambda>v. v\<lparr>vi_ref := vi_ref v - 1\<rparr>))
           (kbind (get_vinode unlinked) (\<lambda>v.
           if vi_nlinks v = 0
           then (if vi_ref v \<noteq> 0 then kraise (Panic ''unlinked_vinode->ref == 0'')
             else kbind (hash_erase_vinode unlinked) (\<lambda>_. kthen (free_page unlinked) (kreturn 0)))
           else kreturn 0)))))))))) "

section \<open>The working directory\<close>

text \<open>The path of a directory, collected from the directory up; \<open>n\<close> bounds the depth.\<close>

primrec rcwd_loop :: "nat \<Rightarrow> u64 \<Rightarrow> u8 list \<Rightarrow> ('z fs_state_scheme, u8 list) km" where
  "rcwd_loop 0 d temp_buf = kraise Diverge"
| "rcwd_loop (Suc n) d temp_buf = kbind (kget vfs_root_dentry) (\<lambda>rootd.
     if d = rootd then kreturn temp_buf
     else kbind (get_dentry d) (\<lambda>e.
       kbind (copy_name MAX_PATH_LEN ([SLASH] @ d_name e)) (\<lambda>new_buf.
       kbind (copy_name MAX_PATH_LEN (new_buf @ temp_buf)) (\<lambda>new_buf.
       rcwd_loop n (d_parent e) new_buf))))"

definition vfs_rcwd :: "u64 \<Rightarrow> u64 \<Rightarrow> ('z fs_state_scheme, int) km" where
  "vfs_rcwd d pathbuf =
     (if d = 0 \<or> pathbuf = 0 then kreturn (-1)
      else kbind (kget vfs_root_dentry) (\<lambda>rootd.
        if d = rootd then kthen (kput (store_bytes pathbuf [SLASH, 0])) (kreturn 0)
        else kbind (rcwd_loop chain_bound d []) (\<lambda>temp_buf.
          kthen (kput (store_bytes pathbuf (temp_buf @ [0]))) (kreturn 0))))"

text \<open>The path is the string at the address \<open>pathbuf\<close>; a string longer than the address space allows
  never ends.\<close>

definition path_at :: "u64 \<Rightarrow> ('z fs_state_scheme, u8 list) km" where
  "path_at a = kthen (check_ptr a) (kbind (kget (\<lambda>s. load_string string_bound s a)) (\<lambda>r.
     case r of None \<Rightarrow> kraise Diverge | Some p \<Rightarrow> kreturn p))"

definition vfs_ccwd :: "host \<Rightarrow> nat \<Rightarrow> u64 \<Rightarrow> u64 \<Rightarrow> ('z fs_state_scheme, int) km" where
  "vfs_ccwd F tp d pathbuf =
     (if d = 0 \<or> pathbuf = 0 then kreturn (-1)
      else kbind (path_at pathbuf) (\<lambda>path.
        kbind (kget vfs_root_dentry) (\<lambda>rootd.
        let par = (if has_prefix [SLASH] path then rootd else d) in
        kbind (lookup_final_dentry F path par) (\<lambda>(target, par, miss_name).
        if target = 0 then kreturn (-1)
        else kbind (get_dentry target) (\<lambda>t.
          kbind (get_vinode (dentry_inode t)) (\<lambda>v.
          if vi_type v \<noteq> DIR_I then kreturn (-1)
          else kbind (cur tp) (\<lambda>p.
            kbind (kget (\<lambda>s. pfiles (procs s p))) (\<lambda>pf.
            kthen (check_ptr pf)
            (kthen (kput (\<lambda>s. s\<lparr>pfile_tab := (pfile_tab s)(pf := (pfile_tab s pf)\<lparr>cwd := target\<rparr>)\<rparr>))
              (kreturn 0)))))))))) "

section \<open>Closing, directories\<close>

definition vfs_close :: "host \<Rightarrow> file_ref \<Rightarrow> ('z fs_state_scheme, int) km" where
  "vfs_close F fr =
     kbind (get_file fr) (\<lambda>f.
     kbind (get_dentry (f_dentry f)) (\<lambda>d.
     kbind (get_vinode (dentry_inode d)) (\<lambda>v.
     if vi_type v \<noteq> FILE_I then kreturn (-1)
     else let dent = f_dentry f; inode = dentry_inode d in
       kthen (viop_hook_close F inode dent)
       (kthen (upd_dentry dent (\<lambda>d. d\<lparr>d_ref := d_ref d - 1\<rparr>))
       (kbind (get_dentry dent) (\<lambda>d.
       kthen (kwhen (d_ref d = 0)
         (kbind (hash_erase_dentry dent) (\<lambda>_.
          kbind (free_vfs_dentry dent) (\<lambda>_.
          kthen (upd_vinode inode (\<lambda>v. v\<lparr>vi_ref := vi_ref v - 1\<rparr>))
          (kbind (get_vinode inode) (\<lambda>v.
          kwhen (vi_ref v = 0)
            (kbind (viop_write_back_vinode inode) (\<lambda>r.
             if r \<noteq> 0 then kraise (Kill ''vfs_close: free inode failed!'' (-1))
             else kbind (hash_erase_vinode inode) (\<lambda>_. free_page inode)))))))))
       (kthen (upd_file fr (\<lambda>f. f\<lparr>f_status := FD_NONE\<rparr>)) (kreturn 0))))))))"

definition vfs_opendir :: "host \<Rightarrow> nat \<Rightarrow> u8 list \<Rightarrow> ('z fs_state_scheme, u64) km" where
  "vfs_opendir F tp path =
     kbind (path_start tp path) (\<lambda>(par, path).
     kbind (lookup_final_dentry F path par) (\<lambda>(file_dentry, par, miss_name).
     if file_dentry = 0 then kreturn 0
     else kbind (get_dentry file_dentry) (\<lambda>fd.
       kbind (get_vinode (dentry_inode fd)) (\<lambda>v.
       if vi_type v \<noteq> DIR_I then kreturn 0
       else kbind (alloc_vfs_file file_dentry 1 0 0) (\<lambda>fl.
         kthen (viop_hook_opendir (dentry_inode fd) file_dentry) (kreturn fl))))))"

definition vfs_readdir :: "file_ref \<Rightarrow> ('z fs_state_scheme, int \<times> rfs_dir option) km" where
  "vfs_readdir fr =
     kbind (file_vinode fr) (\<lambda>node.
     kbind (get_vinode node) (\<lambda>v.
     if vi_type v \<noteq> DIR_I then kreturn (-1, None)
     else kbind (get_file fr) (\<lambda>f.
       kbind (viop_readdir node (f_offset f)) (\<lambda>(r, d, off).
       kthen (upd_file fr (\<lambda>f. f\<lparr>f_offset := off\<rparr>)) (kreturn (r, d))))))"

definition vfs_mkdir :: "host \<Rightarrow> nat \<Rightarrow> u8 list \<Rightarrow> ('z fs_state_scheme, int) km" where
  "vfs_mkdir F tp path =
     kbind (path_start tp path) (\<lambda>(par, path).
     kbind (lookup_final_dentry F path par) (\<lambda>(file_dentry, par, miss_name).
     if file_dentry \<noteq> 0 then kreturn (-1)
     else kbind (get_base_name path) (\<lambda>basename.
       if miss_name \<noteq> basename then kreturn (-1)
       else kbind (alloc_vfs_dentry basename 0 par) (\<lambda>new_dentry.
         kbind (get_dentry par) (\<lambda>pd.
         kbind (viop_mkdir (dentry_inode pd) new_dentry) (\<lambda>new_dir_inode.
         if new_dir_inode = 0 then kthen (free_page new_dentry) (kreturn (-1))
         else kthen (upd_dentry new_dentry (\<lambda>d. d\<lparr>dentry_inode := new_dir_inode\<rparr>))
           (kthen (upd_vinode new_dir_inode (\<lambda>v. v\<lparr>vi_ref := vi_ref v + 1\<rparr>))
           (kbind (hash_put_dentry new_dentry) (\<lambda>_.
           kbind (hash_put_vinode new_dir_inode) (\<lambda>_. kreturn 0))))))))))"

definition vfs_closedir :: "file_ref \<Rightarrow> ('z fs_state_scheme, int) km" where
  "vfs_closedir fr =
     kbind (get_file fr) (\<lambda>f.
     kbind (file_vinode fr) (\<lambda>node.
     kbind (get_vinode node) (\<lambda>v.
     if vi_type v \<noteq> DIR_I then kreturn (-1)
     else kthen (upd_dentry (f_dentry f) (\<lambda>d. d\<lparr>d_ref := d_ref d - 1\<rparr>))
       (kthen (upd_file fr (\<lambda>f. f\<lparr>f_status := FD_NONE\<rparr>))
       (kthen (viop_hook_closedir node (f_dentry f)) (kreturn 0))))))"

section \<open>The path of a directory\<close>

text \<open>The directories from \<open>d\<close> up to, and without, the root, and the path they spell.\<close>

primrec dir_chain :: "'z fs_state_scheme \<Rightarrow> u64 \<Rightarrow> u64 list \<Rightarrow> bool" where
  "dir_chain s d [] \<longleftrightarrow> d = vfs_root_dentry s"
| "dir_chain s d (e # ds) \<longleftrightarrow> d = e \<and> d \<noteq> 0 \<and> d \<noteq> vfs_root_dentry s \<and> dir_chain s (d_parent (dentries s d)) ds"

definition dir_path :: "'z fs_state_scheme \<Rightarrow> u64 list \<Rightarrow> u8 list" where
  "dir_path s ds = concat (map (\<lambda>d. SLASH # d_name (dentries s d)) (rev ds))"

lemma rcwd_loop_eq:
  assumes "dir_chain s d ds" "length (dir_path s ds) + length buf < MAX_PATH_LEN" "length ds < n"
  shows "rcwd_loop n d buf s = (Inr (dir_path s ds @ buf), s)"
  using assms
proof (induction ds arbitrary: d buf n)
  case Nil
  then show ?case by (cases n) (auto simp: dir_path_def krun_defs)
next
  case (Cons e ds)
  then obtain m where m: "n = Suc m" by (cases n) auto
  let ?c = "SLASH # d_name (dentries s d)"
  have len: "length ?c + length buf < MAX_PATH_LEN" "length (dir_path s ds) + length (?c @ buf) < MAX_PATH_LEN"
    using Cons.prems by (auto simp: dir_path_def)
  have "rcwd_loop m (d_parent (dentries s d)) (?c @ buf) s = (Inr (dir_path s ds @ (?c @ buf)), s)"
    using Cons.IH [of "d_parent (dentries s d)" "?c @ buf" m] Cons.prems len(2) m by auto
  then show ?case
    using Cons.prems(1) len(1) by (auto simp: m krun_defs get_dentry_def check_ptr_def copy_name_def dir_path_def)
qed

lemma length_dir_path: "length ds \<le> length (dir_path s ds)"
  by (induction ds) (auto simp: dir_path_def)

text \<open>
  C37. Reading the working directory ends: for a directory from which the parents lead to the root, with a path of fewer than 30 bytes,
  \<open>vfs_rcwd\<close> returns 0 and stores the path, one component for every directory from the root down, with its NUL byte, and
  changes nothing else.
\<close>

theorem vfs_rcwd_path:
  assumes "dir_chain s d ds" "d \<noteq> 0" "pathbuf \<noteq> 0" "length (dir_path s ds) < MAX_PATH_LEN"
  shows "vfs_rcwd d pathbuf s = (Inr 0, store_bytes pathbuf ((if d = vfs_root_dentry s then [SLASH] else dir_path s ds) @ [0]) s)"
proof -
  have "length ds < chain_bound"
    using length_dir_path [of ds s] assms(4) by (simp add: chain_bound_def PMM_MAX_PAGES_def MAX_PATH_LEN_def)
  then have "rcwd_loop chain_bound d [] s = (Inr (dir_path s ds), s)"
    using rcwd_loop_eq [OF assms(1), of "[]"] assms(4) by simp
  then show ?thesis using assms(2,3) by (simp add: vfs_rcwd_def krun_defs)
qed

theorem vfs_rcwd_path_witness:
  "vfs_rcwd 0x9000 0x80002000 (demo_fs\<lparr>vfs_root_dentry := 0x7000,
       dentries := (\<lambda>_. blank_dentry)(0x9000 := blank_dentry\<lparr>d_name := [98], d_parent := 0x8000\<rparr>,
         0x8000 := blank_dentry\<lparr>d_name := [97], d_parent := 0x7000\<rparr>)\<rparr>) =
   (Inr 0, store_bytes 0x80002000 [47, 97, 47, 98, 0] (demo_fs\<lparr>vfs_root_dentry := 0x7000,
       dentries := (\<lambda>_. blank_dentry)(0x9000 := blank_dentry\<lparr>d_name := [98], d_parent := 0x8000\<rparr>,
         0x8000 := blank_dentry\<lparr>d_name := [97], d_parent := 0x7000\<rparr>)\<rparr>))"
  (is "vfs_rcwd _ _ ?s = _")
  using vfs_rcwd_path [of ?s "0x9000" "[0x9000, 0x8000]" "0x80002000"]
  by (simp add: dir_path_def MAX_PATH_LEN_def SLASH_def)

end
