(* ===== verification/Proc_File.thy ===== *)
theory Proc_File
  imports Vfs
begin

text \<open>
  The file interface of processes, \<^verbatim>\<open>kernel/proc_file.c\<close>: the table of open files of a process and the
  operations on file descriptors.
\<close>

text \<open>The names \<^verbatim>\<open>HOSTDEV\<close> and \<^verbatim>\<open>RAMDISK0\<close>.\<close>

definition HOSTDEV :: "u8 list" where "HOSTDEV = [72, 79, 83, 84, 68, 69, 86]"
definition RAMDISK0 :: "u8 list" where "RAMDISK0 = [82, 65, 77, 68, 73, 83, 75, 48]"

definition fs_init :: "(nat \<Rightarrow> int) \<Rightarrow> ('z fs_state_scheme, unit) km" where
  "fs_init junk =
     kbind vfs_init (\<lambda>_.
     kbind register_hostfs (\<lambda>r.
     if r < 0 then kraise (Panic ''fs_init: cannot register hostfs.'')
     else kbind (init_host_device HOSTDEV) (\<lambda>_.
       kbind (vfs_mount HOSTDEV MOUNT_AS_ROOT) (\<lambda>_.
       kbind register_rfs (\<lambda>r.
       if r < 0 then kraise (Panic ''fs_init: cannot register rfs.'')
       else kbind (init_rfs_device RAMDISK0) (\<lambda>ramdisk0.
         kbind (rfs_format_dev junk ramdisk0) (\<lambda>_.
         kbind (vfs_mount RAMDISK0 MOUNT_DEFAULT) (\<lambda>_. kreturn ()))))))))"

section \<open>The table of open files\<close>

text \<open>The loop over the table clears the status of every entry and nothing else.\<close>

definition reset_files :: "proc_file_management \<Rightarrow> proc_file_management" where
  "reset_files pf = pf\<lparr>opened_files := (\<lambda>fd. if fd < MAX_FILES then (opened_files pf fd)\<lparr>f_status := FD_NONE\<rparr> else opened_files pf fd)\<rparr>"

definition init_proc_file_management :: "('z fs_state_scheme, u64) km" where
  "init_proc_file_management =
     kbind new_page (\<lambda>pf.
     kthen (kput (\<lambda>s. s\<lparr>pfile_tab := (pfile_tab s)(pf :=
        reset_files ((pfile_tab s pf)\<lparr>cwd := vfs_root_dentry s, nfiles := 0\<rparr>))\<rparr>))
       (kreturn pf))"

definition reclaim_proc_file_management :: "u64 \<Rightarrow> ('z fs_state_scheme, unit) km" where
  "reclaim_proc_file_management pf = free_page pf"

definition current_pfiles :: "nat \<Rightarrow> ('z fs_state_scheme, u64) km" where
  "current_pfiles tp = kbind (cur tp) (\<lambda>p.
     kbind (kget (\<lambda>s. pfiles (procs s p))) (\<lambda>pf. kthen (check_ptr pf) (kreturn pf)))"

text \<open>The search for \<open>fd\<close> in the table ends at the last entry when there is no such index.\<close>

definition get_opened_file :: "nat \<Rightarrow> int \<Rightarrow> ('z fs_state_scheme, file_ref) km" where
  "get_opened_file tp fd = kbind (current_pfiles tp) (\<lambda>pf.
     kreturn (Table_Entry pf (if 0 \<le> fd \<and> fd < int MAX_FILES then nat fd else MAX_FILES - 1)))"

text \<open>The first free entry: its index, and the entry the loop ends at.\<close>

definition find_entry :: "u64 \<Rightarrow> 'z fs_state_scheme \<Rightarrow> nat \<times> nat" where
  "find_entry pf s = (case first_index MAX_FILES (\<lambda>i. f_status (opened_files (pfile_tab s pf) i) = FD_NONE) of
     Some i \<Rightarrow> (i, i) | None \<Rightarrow> (MAX_FILES, MAX_FILES - 1))"

text \<open>Copying the opened file into the entry, and counting it.\<close>

definition install_file :: "u64 \<Rightarrow> nat \<Rightarrow> u64 \<Rightarrow> ('z fs_state_scheme, unit) km" where
  "install_file pf i fl =
     kthen (kput (\<lambda>s. s\<lparr>pfile_tab := (pfile_tab s)(pf := (pfile_tab s pf)\<lparr>opened_files :=
        (opened_files (pfile_tab s pf))(i := files s fl)\<rparr>)\<rparr>))
     (kput (\<lambda>s. s\<lparr>pfile_tab := (pfile_tab s)(pf := (pfile_tab s pf)\<lparr>nfiles := nfiles (pfile_tab s pf) + 1\<rparr>)\<rparr>))"

section \<open>Files\<close>

definition do_open :: "host \<Rightarrow> nat \<Rightarrow> u8 list \<Rightarrow> i32 \<Rightarrow> ('z fs_state_scheme, int) km" where
  "do_open F tp pathname flags =
     kbind (vfs_open F tp pathname flags) (\<lambda>opened_file.
     if opened_file = 0 then kreturn (-1)
     else kbind (current_pfiles tp) (\<lambda>pf.
       kbind (kget (\<lambda>s. nfiles (pfile_tab s pf))) (\<lambda>n.
       if int MAX_FILES \<le> n then kraise (Panic ''do_open: no file entry for current process!'')
       else kbind (kget (find_entry pf)) (\<lambda>(fd, i).
         kthen (install_file pf i opened_file) (kreturn (int fd))))))"

text \<open>
  \<open>junk\<close> is what the automatic buffer of \<open>count + 1\<close> bytes holds before the call.  The string in it,
  with its NUL byte, is copied to the address \<open>buf\<close>.
\<close>

definition do_read :: "host \<Rightarrow> nat \<Rightarrow> (nat \<Rightarrow> u8) \<Rightarrow> int \<Rightarrow> u64 \<Rightarrow> u64 \<Rightarrow> ('z fs_state_scheme, int) km" where
  "do_read F tp junk fd buf count =
     kbind (get_opened_file tp fd) (\<lambda>fr.
     kbind (get_file fr) (\<lambda>f.
     if f_readable f = 0 then kraise (Panic ''do_read: no readable file!'')
     else kbind (vfs_read F fr junk (sint count)) (\<lambda>(len, buffer).
       let buffer = buffer(unat count := 0) in
       kthen (check_ptr buf)
       (kthen (kput (store_bytes buf (map buffer [0..<cstr_len (unat count) buffer] @ [0])))
         (kreturn (to_int (word_of_int len)))))))"

definition do_write :: "host \<Rightarrow> nat \<Rightarrow> int \<Rightarrow> u64 \<Rightarrow> u64 \<Rightarrow> ('z fs_state_scheme, int) km" where
  "do_write F tp fd buf count =
     kbind (get_opened_file tp fd) (\<lambda>fr.
     kbind (get_file fr) (\<lambda>f.
     if f_writable f = 0 then kraise (Panic ''do_write: cannot write file!'')
     else kbind (kget (\<lambda>s i. load_byte s (buf + of_nat i))) (\<lambda>bytes.
       kbind (vfs_write F fr bytes (sint count)) (\<lambda>len. kreturn (to_int (word_of_int len))))))"

definition do_lseek :: "host \<Rightarrow> nat \<Rightarrow> int \<Rightarrow> int \<Rightarrow> int \<Rightarrow> ('z fs_state_scheme, int) km" where
  "do_lseek F tp fd offset whence = kbind (get_opened_file tp fd) (\<lambda>fr. vfs_lseek F fr offset whence)"

definition do_stat :: "nat \<Rightarrow> int \<Rightarrow> ('z fs_state_scheme, int \<times> istat) km" where
  "do_stat tp fd = kbind (get_opened_file tp fd) vfs_stat"

definition do_disk_stat :: "nat \<Rightarrow> int \<Rightarrow> ('z fs_state_scheme, int \<times> istat option) km" where
  "do_disk_stat tp fd = kbind (get_opened_file tp fd) vfs_disk_stat"

definition do_close :: "host \<Rightarrow> nat \<Rightarrow> int \<Rightarrow> ('z fs_state_scheme, int) km" where
  "do_close F tp fd = kbind (get_opened_file tp fd) (vfs_close F)"

section \<open>Directories and links\<close>

definition do_opendir :: "host \<Rightarrow> nat \<Rightarrow> u8 list \<Rightarrow> ('z fs_state_scheme, int) km" where
  "do_opendir F tp pathname =
     kbind (vfs_opendir F tp pathname) (\<lambda>opened_file.
     if opened_file = 0 then kreturn (-1)
     else kbind (current_pfiles tp) (\<lambda>pf.
       kbind (kget (find_entry pf)) (\<lambda>(fd, i).
       kbind (kget (\<lambda>s. f_status (opened_files (pfile_tab s pf) i))) (\<lambda>st.
       if st \<noteq> FD_NONE then kraise (Panic ''do_opendir: no file entry for current process!'')
       else kthen (install_file pf i opened_file) (kreturn (int fd))))))"

definition do_readdir :: "nat \<Rightarrow> int \<Rightarrow> ('z fs_state_scheme, int \<times> rfs_dir option) km" where
  "do_readdir tp fd = kbind (get_opened_file tp fd) vfs_readdir"

definition do_mkdir :: "host \<Rightarrow> nat \<Rightarrow> u8 list \<Rightarrow> ('z fs_state_scheme, int) km" where
  "do_mkdir F tp pathname = vfs_mkdir F tp pathname"

definition do_closedir :: "nat \<Rightarrow> int \<Rightarrow> ('z fs_state_scheme, int) km" where
  "do_closedir tp fd = kbind (get_opened_file tp fd) vfs_closedir"

definition do_link :: "host \<Rightarrow> nat \<Rightarrow> u8 list \<Rightarrow> u8 list \<Rightarrow> ('z fs_state_scheme, int) km" where
  "do_link F tp oldpath newpath = vfs_link F tp oldpath newpath"

definition do_unlink :: "host \<Rightarrow> nat \<Rightarrow> u8 list \<Rightarrow> ('z fs_state_scheme, int) km" where
  "do_unlink F tp path = vfs_unlink F tp path"

definition do_rcwd :: "u64 \<Rightarrow> u64 \<Rightarrow> ('z fs_state_scheme, int) km" where
  "do_rcwd d pathbuf = vfs_rcwd d pathbuf"

definition do_ccwd :: "host \<Rightarrow> nat \<Rightarrow> u64 \<Rightarrow> u64 \<Rightarrow> ('z fs_state_scheme, int) km" where
  "do_ccwd F tp d pathbuf = vfs_ccwd F tp d pathbuf"

section \<open>File descriptors\<close>

text \<open>
  C36. A file descriptor is an index of the table of open files: when \<open>vfs_open\<close> has opened a file and the table has a free entry,
  \<open>do_open\<close> returns the index of the first free entry, below 128, puts the file there and leaves all other entries
  alone, and the descriptor leads back to this file.  Whatever number is then passed as a descriptor, the entry looked up lies
  inside the table.  The first index is 0, so the first file that a process opens has the descriptor 0; the comment above
  \<open>do_open\<close> promises a non-zero descriptor on success, which the code does not keep.
\<close>

theorem do_open_descriptor:
  assumes "vfs_open F tp path flags s = (Inr f, t)" "f \<noteq> 0" "current t tp = Some p" "pfiles (procs t p) = pf" "pf \<noteq> 0"
    and "nfiles (pfile_tab t pf) < int MAX_FILES" "\<exists>i<MAX_FILES. f_status (opened_files (pfile_tab t pf) i) = FD_NONE"
  shows "\<exists>fd u. do_open F tp path flags s = (Inr (int fd), u) \<and> fd < MAX_FILES \<and>
    f_status (opened_files (pfile_tab t pf) fd) = FD_NONE \<and> (\<forall>i<fd. f_status (opened_files (pfile_tab t pf) i) \<noteq> FD_NONE) \<and>
    pfile_tab u = (pfile_tab t)(pf := (pfile_tab t pf)\<lparr>opened_files := (opened_files (pfile_tab t pf))(fd := files t f),
      nfiles := nfiles (pfile_tab t pf) + 1\<rparr>) \<and>
    kbind (get_opened_file tp (int fd)) get_file u = (Inr (files t f), u) \<and>
    (\<forall>n. \<exists>i<MAX_FILES. get_opened_file tp n u = (Inr (Table_Entry pf i), u))"
proof -
  obtain fd where fd: "first_index MAX_FILES (\<lambda>i. f_status (opened_files (pfile_tab t pf) i) = FD_NONE) = Some fd"
    using assms(7) first_index_None [of MAX_FILES] by (metis (mono_tags, lifting) not_Some_eq)
  note i = first_index_Some [OF fd]
  let ?u = "t\<lparr>pfile_tab := (pfile_tab t)(pf := (pfile_tab t pf)\<lparr>opened_files := (opened_files (pfile_tab t pf))(fd := files t f),
      nfiles := nfiles (pfile_tab t pf) + 1\<rparr>)\<rparr>"
  have pf: "current_pfiles tp v = (Inr pf, v)" if "current v = current t" "procs v = procs t" for v :: "'a fs_state_scheme"
    using assms(3-5) that by (simp add: current_pfiles_def cur_def check_ptr_def krun_defs)
  have "do_open F tp path flags s = (Inr (int fd), ?u)"
    using assms(1,2,6) pf [of t] fd by (simp add: do_open_def install_file_def find_entry_def krun_defs)
  moreover have "kbind (get_opened_file tp (int fd)) get_file ?u = (Inr (files t f), ?u)"
    using pf [of ?u] i by (simp add: get_opened_file_def get_file_def krun_defs)
  moreover have "\<exists>i<MAX_FILES. get_opened_file tp n ?u = (Inr (Table_Entry pf i), ?u)" for n
    using pf [of ?u] by (cases "0 \<le> n \<and> n < int MAX_FILES") (auto simp: get_opened_file_def krun_defs MAX_FILES_def)
  ultimately show ?thesis using i by (intro exI [of _ fd] exI [of _ ?u]) simp
qed

text \<open>\<open>demo_fs\<close> with a root entry that is a file, and a table of open files for process 3.\<close>

definition demo_open :: fs_state where
  "demo_open = demo_fs\<lparr>vfs_root_dentry := 0x8000, dentries := (\<lambda>_. blank_dentry\<lparr>dentry_inode := 0x9000\<rparr>),
     procs := (procs demo_fs)(3 := (procs demo_fs 3)\<lparr>pfiles := 0xa000\<rparr>)\<rparr>"

lemma demo_open_run:
  "\<exists>t. vfs_open F 0 [DOT] O_RDONLY demo_open = (Inr 0x80001000, t) \<and> current t = current demo_open \<and> procs t = procs demo_open \<and>
     pfile_tab t = pfile_tab demo_open \<and> f_readable (files t 0x80001000) = 1"
proof -
  have inv: "pmm_inv demo_open [0x80001000, 0x80002000, 0x80003000, 0x80004000]"
    using demo_fs_pmm by (simp add: demo_open_def pmm_inv_def pmm_bounds_def managed_def PAGE_INDEX_def MAX_PAGE_NUM_def)
  show ?thesis
    using alloc_page_eq [OF inv]
    by (simp add: vfs_open_def path_start_def has_prefix_def lookup_final_dentry_def krun_defs DOT_def SLASH_def get_dentry_def
        get_vinode_def check_ptr_def open_mode_def alloc_vfs_file_def new_page_def upd_dentry_def viop_hook_open_def FILE_I_def
        alloc_state_def set_ref_def demo_open_def demo_fs_defs blank_dentry_def blank_vinode_def O_RDONLY_def MASK_FILEMODE_def)
qed

theorem do_open_descriptor_witness:
  "\<exists>u. do_open demo_host 0 [DOT] O_RDONLY demo_open = (Inr 0, u) \<and> f_readable (opened_files (pfile_tab u 0xa000) 0) = 1"
proof -
  obtain t where t: "vfs_open demo_host 0 [DOT] O_RDONLY demo_open = (Inr 0x80001000, t)" "current t = current demo_open"
    "procs t = procs demo_open" "pfile_tab t = pfile_tab demo_open" "f_readable (files t 0x80001000) = 1"
    using demo_open_run by blast
  have d: "current demo_open 0 = Some 3" "pfiles (procs demo_open 3) = 0xa000" "nfiles (pfile_tab demo_open 0xa000) = 0"
    "\<And>i. f_status (opened_files (pfile_tab demo_open 0xa000) i) = FD_NONE"
    by (simp_all add: demo_open_def demo_fs_defs blank_file_def FD_NONE_def)
  have ex: "\<exists>i. i < (128 :: nat)" by (rule exI [of _ 0]) simp
  obtain fd u where "do_open demo_host 0 [DOT] O_RDONLY demo_open = (Inr (int fd), u)" "\<forall>i. \<not> i < fd"
    "opened_files (pfile_tab u 0xa000) fd = files t 0x80001000"
    using do_open_descriptor [OF t(1), of 3 "0xa000"] ex by (auto simp: t(2-4) d MAX_FILES_def)
  moreover from this(2) have "fd = 0" by (metis neq0_conv)
  ultimately show ?thesis using t(5) by auto
qed

end
