(* ===== verification/Vm_Lemmas.thy ===== *)
theory Vm_Lemmas
  imports Sched
begin

text \<open>
  Facts about page tables, table entries and page references that the components above the virtual
  memory share: pages for data taken from the allocator, entries and their flag bits, and the cell of an
  entry in its table.
\<close>

lemma page_mask: "a AND NOT (PGSIZE - 1) = ROUNDDOWN a PGSIZE"
proof -
  have "PGSIZE - 1 = (mask 12 :: u64)" by (simp add: PGSIZE_def mask_eq_exp_minus_1)
  moreover have "ROUNDDOWN a PGSIZE = push_bit 12 (drop_bit 12 a)"
    by (simp add: ROUNDDOWN_def PGSIZE_def push_bit_eq_mult drop_bit_eq_div)
  ultimately show ?thesis
    by (auto intro!: bit_word_eqI simp: bit_simps)
qed

lemma pt_entry_page:
  assumes "va < MAXVA" shows "pt_entry m pd (ROUNDDOWN va PGSIZE) = pt_entry m pd va"
proof -
  have "ROUNDDOWN va PGSIZE < MAXVA" using ROUNDDOWN_le [of va] assms by (rule order.strict_trans1)
  then have "vpn (ROUNDDOWN va PGSIZE) = vpn va"
    using vpn_inj [of "ROUNDDOWN va PGSIZE" va] assms by (simp add: ROUNDDOWN_id)
  then have "leaf_table m pd (ROUNDDOWN va PGSIZE) = leaf_table m pd va" "PX 0 (ROUNDDOWN va PGSIZE) = PX 0 va"
    by (auto simp: vpn_def intro!: leaf_table_vpn)
  then show ?thesis by (simp add: pt_entry_def split: option.split)
qed

lemma alloc_data_page:
  assumes "vm_inv R s (x # xs)"
  shows "vm_inv R (alloc_state x s) xs" "\<And>pd is. \<not> is_table R (pmem s) pd is x" "x \<notin> set xs"
    "managed s x" "x \<noteq> 0"
proof -
  have inv: "pmm_inv s (x # xs)" and tree: "pt_tree R (pmem s) (set (x # xs))" using assms by (auto simp: vm_inv_def)
  show "vm_inv R (alloc_state x s) xs"
    using alloc_state_inv [OF inv] tree by (auto simp: vm_inv_def pt_tree_def)
  show "\<not> is_table R (pmem s) pd is x" for pd "is" using pt_treeD(2) [OF tree, of pd "is" x] by auto
  show "x \<notin> set xs" using pmm_invD(3) [OF inv] by simp
  show "managed s x" using pmm_invD(5) [OF inv, of x] by simp
  show "x \<noteq> 0" using pmm_invD(4) [OF inv] by auto
qed

lemma get_page_ref_eq:
  assumes "managed s pa" "pmm_lock s = SPIN_LOCK_FREE"
  shows "get_page_ref pa s = (Inr (ref_of s pa), s)"
  using assms by (auto simp: get_page_ref_def managed_def krun_defs pmm_op_defs spinlock_amo_lock_def
      spinlock_amo_unlock_def amoswap_d_def lock_update_id not_le not_less)

lemma mem_op_frame [simp]:
  "procs (set_dword q i v s) = procs s" "procs (set_page q c s) = procs s" "procs (set_ref k n s) = procs s"
  "procs (alloc_state x s) = procs s"
  "current (set_dword q i v s) = current s" "current (set_page q c s) = current s" "current (set_ref k n s) = current s"
  "current (alloc_state x s) = current s"
  by (simp_all add: set_dword_def set_page_def set_ref_def alloc_state_def)

lemma set_page_simps [simp]:
  "pmem (set_page q c s) = (pmem s)(q := c)" "page_ref_count (set_page q c s) = page_ref_count s"
  "managed (set_page q c s) = managed s" "PAGE_INDEX (set_page q c s) = PAGE_INDEX s" "pmm_lock (set_page q c s) = pmm_lock s"
  by (simp_all add: set_page_def managed_def PAGE_INDEX_def MAX_PAGE_NUM_def fun_eq_iff)

lemma bit_single: "k < 64 \<Longrightarrow> bit (push_bit k 1 :: u64) n \<longleftrightarrow> n = k"
  by (auto simp: bit_exp_iff)

lemma bit_flags:
  "bit PTE_V n \<longleftrightarrow> n = 0" "bit PTE_R n \<longleftrightarrow> n = 1" "bit PTE_W n \<longleftrightarrow> n = 2" "bit PTE_U n \<longleftrightarrow> n = 4"
  "bit PTE_A n \<longleftrightarrow> n = 6" "bit PTE_D n \<longleftrightarrow> n = 7" "bit PTE_COW n \<longleftrightarrow> n = 8"
  using bit_single [of 0 n] bit_single [of 1 n] bit_single [of 2 n] bit_single [of 4 n] bit_single [of 6 n]
    bit_single [of 7 n] bit_single [of 8 n] by (simp_all add: pte_flag_defs)

lemma pte_flag_test:
  "e AND PTE_V \<noteq> 0 \<longleftrightarrow> bit e 0" "e AND PTE_W \<noteq> 0 \<longleftrightarrow> bit e 2" "e AND PTE_COW \<noteq> 0 \<longleftrightarrow> bit e 8"
  using bit_iff_and_push_bit_not_eq_0 [of e 0] bit_iff_and_push_bit_not_eq_0 [of e 2]
    bit_iff_and_push_bit_not_eq_0 [of e 8] by (simp_all add: pte_flag_defs)

lemma pte_make_writable:
  "PTE2PA ((e OR PTE_W OR PTE_D) AND NOT PTE_COW) = PTE2PA e"
  "e AND PTE_V \<noteq> 0 \<Longrightarrow> ((e OR PTE_W OR PTE_D) AND NOT PTE_COW) AND PTE_V \<noteq> 0"
  "((e OR PTE_W OR PTE_D) AND NOT PTE_COW) AND PTE_W \<noteq> 0"
  "((e OR PTE_W OR PTE_D) AND NOT PTE_COW) AND PTE_COW = 0"
proof -
  show "PTE2PA ((e OR PTE_W OR PTE_D) AND NOT PTE_COW) = PTE2PA e"
    by (rule bit_word_eqI) (auto simp: PTE2PA_def bit_simps bit_flags)
  show "e AND PTE_V \<noteq> 0 \<Longrightarrow> ((e OR PTE_W OR PTE_D) AND NOT PTE_COW) AND PTE_V \<noteq> 0"
    "((e OR PTE_W OR PTE_D) AND NOT PTE_COW) AND PTE_W \<noteq> 0"
    unfolding pte_flag_test by (simp_all add: bit_simps bit_flags)
  show "((e OR PTE_W OR PTE_D) AND NOT PTE_COW) AND PTE_COW = 0"
    using pte_flag_test(3) [of "(e OR PTE_W OR PTE_D) AND NOT PTE_COW"] by (simp add: bit_simps bit_flags)
qed

lemma user_rw_entry:
  assumes "page_aligned x"
  shows "PTE2PA (PA2PTE x OR prot_to_type (PROT_READ OR PROT_WRITE) True OR PTE_V) = x"
    "(PA2PTE x OR prot_to_type (PROT_READ OR PROT_WRITE) True OR PTE_V) AND PTE_V \<noteq> 0"
    "(PA2PTE x OR prot_to_type (PROT_READ OR PROT_WRITE) True OR PTE_V) AND PTE_W \<noteq> 0"
    "(PA2PTE x OR prot_to_type (PROT_READ OR PROT_WRITE) True OR PTE_V) AND PTE_COW = 0"
proof -
  define f where "f = prot_to_type (PROT_READ OR PROT_WRITE) True OR PTE_V"
  have f: "f = PTE_R OR PTE_A OR PTE_W OR PTE_D OR PTE_U OR PTE_V" "f AND NOT 0x3FF = 0"
    by (simp_all add: f_def prot_to_type_def PROT_READ_def PROT_WRITE_def PROT_EXEC_def pte_flag_defs)
  show "PTE2PA (PA2PTE x OR prot_to_type (PROT_READ OR PROT_WRITE) True OR PTE_V) = x"
    unfolding f_def [symmetric] by (rule PTE2PA_PA2PTE [OF assms f(2)])
  show "(PA2PTE x OR prot_to_type (PROT_READ OR PROT_WRITE) True OR PTE_V) AND PTE_V \<noteq> 0"
    "(PA2PTE x OR prot_to_type (PROT_READ OR PROT_WRITE) True OR PTE_V) AND PTE_W \<noteq> 0"
    unfolding pte_flag_test f_def [symmetric] f(1) by (simp_all add: bit_simps bit_flags)
  have "\<not> bit (PA2PTE x OR f) 8" unfolding f(1) PA2PTE_def by (simp add: bit_simps bit_flags)
  then show "(PA2PTE x OR prot_to_type (PROT_READ OR PROT_WRITE) True OR PTE_V) AND PTE_COW = 0"
    unfolding f_def [symmetric] using pte_flag_test(3) by blast
qed

lemma pte_cell_valid:
  assumes "pt_entry m pd va AND PTE_V \<noteq> 0"
  obtains c where "pte_cell m pd va = Some c" "m (fst c) (snd c) = pt_entry m pd va"
  using assms pte_cell_entry [of m pd va] by (cases "pte_cell m pd va") auto

lemma pte_cell_table:
  "pd \<in> R \<Longrightarrow> pte_cell m pd va = Some c \<Longrightarrow> is_table R m pd [PX 2 va, PX 1 va] (fst c) \<and> snd c = PX 0 va"
  by (auto simp: pte_cell_def leaf_table_iff)

lemma pte_cell_data:
  assumes "is_table R m' = is_table R m" "pd \<in> R"
  shows "pte_cell m' pd va = pte_cell m pd va"
proof -
  have "leaf_table m' pd va = leaf_table m pd va"
    using assms by (metis leaf_table_iff not_None_eq)
  then show ?thesis by (simp add: pte_cell_def)
qed

lemma cur_eq: "current s tp = Some p \<Longrightarrow> cur tp s = (Inr p, s)"
  by (simp add: cur_def krun_defs)

lemma vm_inv_set_ref:
  assumes "vm_inv R s xs" "managed s pa" "pa \<notin> set xs"
  shows "vm_inv R (set_ref (PAGE_INDEX s pa) n s) xs"
proof -
  have inv: "pmm_inv s xs" using assms(1) by (simp add: vm_inv_def)
  note D = pmm_invD [OF inv]
  have "PAGE_INDEX s q \<noteq> PAGE_INDEX s pa" if "q \<in> set xs" for q
    using PAGE_INDEX_inj [of s q pa] D(1) D(5) [OF that] assms that by (auto simp: pmm_bounds_def)
  then show ?thesis using assms(1) D(6) unfolding vm_inv_def pmm_inv_def
    by (simp add: pmm_bounds_def MAX_PAGE_NUM_def)
qed

text \<open>Mapping one page at an unmapped address: two free pages are enough for the tables.\<close>

lemma user_vm_map_page:
  fixes s :: "'z pmm_state_scheme"
  assumes inv: "vm_inv R s xs" "pd \<in> R" and va: "page_aligned va" "unat va + 4096 \<le> unat MAXVA"
    and unmapped: "pt_entry (pmem s) pd va AND PTE_V = 0" and len: "2 \<le> length xs"
  obtains t ys where "user_vm_map pd va PGSIZE pa perm s = (Inr (), t)" "vm_frame R s xs t ys" "length xs \<le> length ys + 2"
    "\<And>pd' va'. pd' \<in> R \<Longrightarrow> va' < MAXVA \<Longrightarrow> pt_entry (pmem t) pd' va' =
       (if pd' = pd \<and> ROUNDDOWN va' PGSIZE = va then PA2PTE pa OR scast perm OR PTE_V else pt_entry (pmem s) pd' va')"
proof -
  obtain k where "unat va = 4096 * k" using va(1) by (auto simp: page_aligned_unat)
  then have n: "pages_of va PGSIZE = 1" by (simp add: pages_of_def unat_PGSIZE)
  have rd: "ROUNDDOWN va PGSIZE = va" by (rule ROUNDDOWN_id [OF va(1)])
  have "kwp (map_pages pd va PGSIZE pa perm)
    (\<lambda>r t. (r = 0 \<or> r = -1) \<and> mapped_range R s xs pd va PGSIZE pa (scast perm OR PTE_V) (r = 0) t) (\<lambda>_ _. False) s"
    by (rule map_pages_spec [OF inv]) (use va unmapped in \<open>simp_all add: n rd unat_PGSIZE word_less_nat_alt\<close>)
  from kwp_total [OF this] obtain r t where t: "map_pages pd va PGSIZE pa perm s = (Inr r, t)" "r = 0 \<or> r = -1"
    "mapped_range R s xs pd va PGSIZE pa (scast perm OR PTE_V) (r = 0) t" by blast
  with len have r: "r = 0" by (auto simp: mapped_range_def n)
  then obtain ys where p: "map_prog R s xs pd va pa (scast perm OR PTE_V) 1 t ys" "length xs \<le> length ys + 2"
    using t(3) by (auto simp: mapped_range_def n rd)
  have bd: "unat va + 0 * 4096 < 2 ^ 64" using unat_bound64 [of va] by simp
  have "pt_entry (pmem t) pd' va' =
       (if pd' = pd \<and> ROUNDDOWN va' PGSIZE = va then PA2PTE pa OR scast perm OR PTE_V else pt_entry (pmem s) pd' va')"
    if "pd' \<in> R" "va' < MAXVA" for pd' va'
    using p(1) that map_entries_Suc [OF va(1) bd, of "pt_entry (pmem s)" pd pa] unfolding map_prog_def by simp
  moreover have "user_vm_map pd va PGSIZE pa perm s = (Inr (), t)"
    using t(1) r by (simp add: user_vm_map_def kbind_def kreturn_def)
  ultimately show thesis using that p by (auto simp: map_prog_def)
qed

section \<open>A new page table\<close>

text \<open>A cleared data page is the root of an empty address space.\<close>

lemma new_root_tables:
  fixes s :: "'z pmm_state_scheme"
  assumes nt: "\<And>pd is. \<not> is_table R (pmem s) pd is x"
  defines "t \<equiv> set_page x (\<lambda>_. 0) s"
  shows "is_table (insert x R) (pmem t) pd is q \<longleftrightarrow> pd = x \<and> is = [] \<and> q = x \<or> is_table R (pmem s) pd is q"
    and "x \<notin> R" "pd \<in> R \<Longrightarrow> pt_entry (pmem t) pd = pt_entry (pmem s) pd" "pt_entry (pmem t) x va = 0"
proof -
  have m: "pmem t = (pmem s)(x := \<lambda>_. 0)" by (simp add: t_def)
  show x: "x \<notin> R" using nt [of x "[]"] by (auto simp: is_table_def)
  have root: "table_at (pmem t) x is = (if is = [] then Some x else None)" for "is"
    by (cases "is") (auto simp: m next_table_def)
  have old: "table_at (pmem t) pd is = table_at (pmem s) pd is" if "pd \<in> R" "length is \<le> 2" for pd "is"
  proof (rule table_at_cong)
    fix ks k rest u assume "is = ks @ k # rest" "table_at (pmem s) pd ks = Some u"
    then have "u \<noteq> x" using nt [of pd ks] that by (auto simp: is_table_def)
    then show "pmem t u k = pmem s u k" by (simp add: m)
  qed
  show "is_table (insert x R) (pmem t) pd is q \<longleftrightarrow> pd = x \<and> is = [] \<and> q = x \<or> is_table R (pmem s) pd is q"
    using x by (auto simp: is_table_def root old split: if_splits)
  show "pt_entry (pmem t) x va = 0" unfolding pt_entry_def leaf_table_def root by simp
  show "pt_entry (pmem t) pd = pt_entry (pmem s) pd" if "pd \<in> R"
    using data_write_tables(2) [of R "pmem s" x "pmem t" pd, OF nt _ that] by (simp add: m)
qed

lemma vm_inv_new_root:
  fixes s :: "'z pmm_state_scheme"
  assumes inv: "vm_inv R s xs" and nt: "\<And>pd is. \<not> is_table R (pmem s) pd is x" and x: "x \<notin> set xs" "page_aligned x"
  shows "vm_inv (insert x R) (set_page x (\<lambda>_. 0) s) xs"
proof -
  have "pmm_inv (set_page x (\<lambda>_. 0) s) xs" using inv x(1) by (simp add: vm_inv_def pmm_inv_set_page)
  moreover have "pt_tree R (pmem s) (set xs)" using inv by (simp add: vm_inv_def)
  ultimately show ?thesis
    using x nt unfolding vm_inv_def pt_tree_def new_root_tables(1) [OF nt] by (auto simp del: set_page_simps)
qed

section \<open>What memory operations leave alone\<close>

text \<open>
  An operation of the page allocator or of the virtual memory changes only its own part of the kernel
  state; the collection \<open>keeps\<close> has one rule per way of building operations.
\<close>

named_theorems keeps

definition keeps_more :: "('z pmm_state_scheme, 'a) km \<Rightarrow> bool" where
  "keeps_more m \<longleftrightarrow> (\<forall>s. pmm_state.more (snd (m s)) = pmm_state.more s)"

lemma keeps_return [keeps]: "keeps_more (kreturn x)" "keeps_more (kraise e)" "keeps_more (kget g)"
  by (simp_all add: keeps_more_def kreturn_def kraise_def kget_def)

lemma keeps_put [keeps]: "(\<And>s. pmm_state.more (f s) = pmm_state.more s) \<Longrightarrow> keeps_more (kput f)"
  by (simp add: keeps_more_def kput_def)

lemma keeps_bind [keeps]: "keeps_more m \<Longrightarrow> (\<And>x. keeps_more (f x)) \<Longrightarrow> keeps_more (kbind m f)"
  unfolding keeps_more_def kbind_def by (auto split: prod.split sum.split) (metis snd_conv)+

lemma keeps_then [keeps]: "keeps_more m \<Longrightarrow> keeps_more n \<Longrightarrow> keeps_more (kthen m n)"
  by (simp add: kthen_def keeps_bind)

lemma keeps_when [keeps]: "keeps_more m \<Longrightarrow> keeps_more (kwhen b m)"
  by (simp add: kwhen_def keeps_return)

lemma keeps_while [keeps]: "(\<And>x. keeps_more (b x)) \<Longrightarrow> keeps_more (kwhile n g b x)"
  by (induction n arbitrary: x) (simp_all add: keeps_return keeps_bind)

lemma keeps_if [keeps]: "keeps_more m \<Longrightarrow> keeps_more n \<Longrightarrow> keeps_more (if b then m else n)"
  by simp

lemma keeps_option [keeps]: "keeps_more m \<Longrightarrow> (\<And>x. keeps_more (n x)) \<Longrightarrow> keeps_more (case y of None \<Rightarrow> m | Some x \<Rightarrow> n x)"
  by (cases y) simp_all

lemma keeps_prod [keeps]: "(\<And>x y. keeps_more (f x y)) \<Longrightarrow> keeps_more (case z of (x, y) \<Rightarrow> f x y)"
  by (cases z) simp

lemma more_simps [simp]:
  "pmm_state.more (set_dword q i v s) = pmm_state.more s" "pmm_state.more (set_page q c s) = pmm_state.more s"
  "pmm_state.more (set_ref k n s) = pmm_state.more s" "pmm_state.more (s\<lparr>pmm_lock := l\<rparr>) = pmm_state.more s"
  "pmm_state.more (s\<lparr>g_free_mem_list := g\<rparr>) = pmm_state.more s"
  by (simp_all add: set_dword_def set_page_def set_ref_def)

lemma keeps_pmm [keeps]: "keeps_more alloc_page" "keeps_more (free_page q)" "keeps_more (inc_page_ref q)"
  unfolding alloc_page_def free_page_def inc_page_ref_def pmm_op_defs spinlock_amo_lock_def spinlock_amo_unlock_def
    amoswap_d_def Let_def
  by (intro keeps; simp)+

lemma keeps_walk [keeps]: "keeps_more (page_walk pd va a)"
proof -
  have "keeps_more (page_walk_step pt l va a)" for pt l
    unfolding page_walk_step_def by (intro keeps) simp_all
  then have "keeps_more (page_walk_down l pt va a)" for l pt
    by (induction l arbitrary: pt) (auto intro!: keeps)
  then show ?thesis unfolding page_walk_def by (intro keeps)
qed

lemma keeps_vmm [keeps]: "keeps_more (get_pte c)" "keeps_more (set_pte c v)" "keeps_more (map_pages pd va sz pa perm)"
  "keeps_more (user_vm_map pd va sz pa perm)" "keeps_more (user_vm_unmap pd va sz b)" "keeps_more (lookup_pa pd va)"
  unfolding get_pte_def set_pte_def map_pages_def user_vm_map_def user_vm_unmap_def lookup_pa_def Let_def
  by (intro keeps; simp)+

lemma kernel_fields:
  fixes s t :: "'z kernel_state_scheme"
  assumes "pmm_state.more t = pmm_state.more s"
  shows "procs t = procs s" "current t = current s" "csr t = csr s" "syms t = syms s"
    "ready_queue_head t = ready_queue_head s" "rq_lock t = rq_lock s" "rq_lock_inited t = rq_lock_inited s" "sem_table t = sem_table s"
  using assms by (cases s; cases t; simp)+

lemma keeps_run: "keeps_more m \<Longrightarrow> m s = (r, t) \<Longrightarrow> pmm_state.more t = pmm_state.more s"
  by (metis keeps_more_def snd_conv)

end
