(* ===== verification/Process.thy ===== *)
theory Process
  imports Proc_File Vm_Lemmas
begin

text \<open>
  Creation of processes and their address spaces (\<^verbatim>\<open>kernel/process.c\<close>: \<^verbatim>\<open>init_proc_pool\<close>, \<^verbatim>\<open>alloc_process\<close>,
  \<^verbatim>\<open>do_fork\<close>, \<^verbatim>\<open>clr_proc\<close>) and the page-wise heap of a process (\<^verbatim>\<open>sys_user_allocate_page\<close>,
  \<^verbatim>\<open>sys_user_free_page\<close> of \<^verbatim>\<open>kernel/syscall.c\<close>).

  The page \<^verbatim>\<open>mapped_info\<close> is an array of regions of two doublewords: the address, and the number of
  pages (low half) with the type (high half).  The trapframe is the first 35 doublewords of its page.
\<close>

definition USER_STACK_TOP :: u64 where "USER_STACK_TOP = 0x7ffff000"
definition USER_FREE_ADDRESS_START :: u64 where "USER_FREE_ADDRESS_START = 0 + PGSIZE * 1024"
definition MAX_HEAP_PAGES :: nat where "MAX_HEAP_PAGES = 32"

definition STACK_SEGMENT :: nat where "STACK_SEGMENT = 0"
definition CONTEXT_SEGMENT :: nat where "CONTEXT_SEGMENT = 1"
definition SYSTEM_SEGMENT :: nat where "SYSTEM_SEGMENT = 2"
definition HEAP_SEGMENT :: nat where "HEAP_SEGMENT = 3"
definition CODE_SEGMENT :: nat where "CODE_SEGMENT = 4"
definition DATA_SEGMENT :: nat where "DATA_SEGMENT = 5"

lemmas segment_defs = STACK_SEGMENT_def CONTEXT_SEGMENT_def SYSTEM_SEGMENT_def HEAP_SEGMENT_def
  CODE_SEGMENT_def DATA_SEGMENT_def

section \<open>Regions\<close>

record mapped_region =
  reg_va :: u64
  reg_npages :: u32
  reg_seg_type :: u32

definition region_of :: "(9 word \<Rightarrow> u64) \<Rightarrow> nat \<Rightarrow> mapped_region" where
  "region_of c i = \<lparr>reg_va = c (of_nat (2 * i)), reg_npages = ucast (c (of_nat (2 * i + 1))),
     reg_seg_type = ucast (drop_bit 32 (c (of_nat (2 * i + 1))))\<rparr>"

definition region_words :: "nat \<Rightarrow> mapped_region \<Rightarrow> (9 word \<Rightarrow> u64) \<Rightarrow> 9 word \<Rightarrow> u64" where
  "region_words i r c = c(of_nat (2 * i) := reg_va r,
     of_nat (2 * i + 1) := ucast (reg_npages r) OR push_bit 32 (ucast (reg_seg_type r)))"

text \<open>Entry \<open>i\<close> of the array in page \<open>m\<close>, which holds 256 of them.\<close>

definition get_region :: "u64 \<Rightarrow> nat \<Rightarrow> ('z pmm_state_scheme, mapped_region) km" where
  "get_region m i = (if m = 0 \<or> 256 \<le> i then kraise (Fault ''mapped_info'') else kget (\<lambda>s. region_of (pmem s m) i))"

definition set_region :: "u64 \<Rightarrow> nat \<Rightarrow> mapped_region \<Rightarrow> ('z pmm_state_scheme, unit) km" where
  "set_region m i r = (if m = 0 \<or> 256 \<le> i then kraise (Fault ''mapped_info'')
     else kput (\<lambda>s. set_page m (region_words i r (pmem s m)) s))"

abbreviation user_rw :: i32 where
  "user_rw \<equiv> ucast (prot_to_type (PROT_WRITE OR PROT_READ) True)"

text \<open>A whole page copied; both addresses are the physical addresses of pages.\<close>

definition copy_page :: "u64 \<Rightarrow> u64 \<Rightarrow> ('z pmm_state_scheme, unit) km" where
  "copy_page dst src = kthen (check_ptr dst) (kthen (check_ptr src) (kput (\<lambda>s. set_page dst (pmem s src) s)))"

definition copy_trapframe :: "(9 word \<Rightarrow> u64) \<Rightarrow> (9 word \<Rightarrow> u64) \<Rightarrow> 9 word \<Rightarrow> u64" where
  "copy_trapframe src dst i = (if unat i < 35 then src i else dst i)"

text \<open>
  What \<^verbatim>\<open>print_proc_vmspace\<close> prints for the regions \<open>is\<close>: address, pages, the name of the kind of segment (none for the heap),
  and the physical address.
\<close>

definition segment_name :: "nat \<Rightarrow> string" where
  "segment_name seg =
     (if seg = CODE_SEGMENT then ''CODE SEGMENT'' else if seg = DATA_SEGMENT then ''DATA SEGMENT''
      else if seg = STACK_SEGMENT then ''STACK SEGMENT'' else if seg = CONTEXT_SEGMENT then ''TRAPFRAME SEGMENT''
      else if seg = SYSTEM_SEGMENT then ''USER KERNEL STACK SEGMENT'' else [])"

primrec region_lines :: "u64 \<Rightarrow> u64 \<Rightarrow> nat list \<Rightarrow> ('z pmm_state_scheme, (u64 \<times> u32 \<times> string \<times> u64) list) km" where
  "region_lines m pt [] = kreturn []"
| "region_lines m pt (i # is) = kbind (get_region m i) (\<lambda>r. kbind (lookup_pa pt (reg_va r)) (\<lambda>pa.
     kbind (region_lines m pt is) (\<lambda>ls.
     kreturn ((reg_va r, reg_npages r, segment_name (unat (reg_seg_type r)), pa) # ls))))"

definition print_proc_vmspace :: "nat \<Rightarrow> ('z kernel_state_scheme, (u64 \<times> u32 \<times> string \<times> u64) list) km" where
  "print_proc_vmspace p = kbind (kget (\<lambda>s. procs s p)) (\<lambda>pr.
     region_lines (mapped_info pr) (pagetable pr) [0..<total_mapped_region pr])"

section \<open>The process pool\<close>

definition zero_process :: process where
  "zero_process = \<lparr>kstack = 0, pagetable = 0, trapframe = 0, stack_size = 0, malloc_list = 0,
     malloc_free_list = 0, mapped_info = 0, total_mapped_region = 0, heap_top = 0, heap_bottom = 0,
     free_pages_address = (\<lambda>_. 0), free_pages_count = 0, pid = 0, status = FREE, parent = None,
     queue_next = None, tick_count = 0, pfiles = 0\<rparr>"

definition init_proc_pool :: "('z kernel_state_scheme, unit) km" where
  "init_proc_pool =
     kthen (kput (\<lambda>s. s\<lparr>procs := (\<lambda>i. if i < NPROC then zero_process else procs s i)\<rparr>))
     (kthen (kfor [0..<NPROC] (\<lambda>i. upd_proc i (\<lambda>q. q\<lparr>status := FREE, pid := of_nat i\<rparr>)))
     (kthen (kfor [0..<NSEM] (\<lambda>i. upd_sem i (\<lambda>_. \<lparr>ifuse = False, sem_value = 0, wait_queue = None\<rparr>)))
       (spinlock_amo_init proc_alloc_lock_update)))"

text \<open>
  The part that \<^verbatim>\<open>alloc_process\<close> and \<^verbatim>\<open>clr_proc\<close> share, from the kernel stack to the number of regions:
  stack, trapframe and trap code are mapped, and the heap is empty.
\<close>

definition map_user_space :: "nat \<Rightarrow> ('z kernel_state_scheme, unit) km" where
  "map_user_space p =
     kbind alloc_page (\<lambda>ks.
     kthen (upd_proc p (\<lambda>q. q\<lparr>kstack := ks + PGSIZE\<rparr>))
     (kbind alloc_page (\<lambda>user_stack.
     kbind (kget (\<lambda>s. procs s p)) (\<lambda>pr.
     let tf = trapframe pr; pt = pagetable pr in
     kthen (kput (set_dword tf TF_sp USER_STACK_TOP))
     (kbind new_page (\<lambda>m.
     kthen (upd_proc p (\<lambda>q. q\<lparr>mapped_info := m\<rparr>))
     (kthen (kput (set_page m (\<lambda>_. 0)))
     (kthen (user_vm_map pt (USER_STACK_TOP - PGSIZE) PGSIZE user_stack user_rw)
     (kthen (set_region m STACK_SEGMENT \<lparr>reg_va = USER_STACK_TOP - PGSIZE, reg_npages = 1, reg_seg_type = of_nat STACK_SEGMENT\<rparr>)
     (kthen (user_vm_map pt tf PGSIZE tf (ucast (prot_to_type (PROT_WRITE OR PROT_READ) False)))
     (kthen (set_region m CONTEXT_SEGMENT \<lparr>reg_va = tf, reg_npages = 1, reg_seg_type = of_nat CONTEXT_SEGMENT\<rparr>)
     (kbind (kget (\<lambda>s. trap_sec_start (syms s))) (\<lambda>ts.
     kthen (user_vm_map pt ts PGSIZE ts (ucast (prot_to_type (PROT_READ OR PROT_EXEC) False)))
     (kthen (set_region m SYSTEM_SEGMENT \<lparr>reg_va = ts, reg_npages = 1, reg_seg_type = of_nat SYSTEM_SEGMENT\<rparr>)
     (kthen (upd_proc p (\<lambda>q. q\<lparr>heap_top := USER_FREE_ADDRESS_START, heap_bottom := USER_FREE_ADDRESS_START,
        free_pages_count := 0\<rparr>))
     (kthen (set_region m HEAP_SEGMENT \<lparr>reg_va = USER_FREE_ADDRESS_START, reg_npages = 0, reg_seg_type = of_nat HEAP_SEGMENT\<rparr>)
       (upd_proc p (\<lambda>q. q\<lparr>total_mapped_region := 4\<rparr>))))))))))))))))))"

text \<open>A page for a trapframe, with the trapframe cleared.\<close>

definition clear_trapframe :: "u64 \<Rightarrow> ('z pmm_state_scheme, unit) km" where
  "clear_trapframe tf = kput (\<lambda>s. set_page tf (copy_trapframe (\<lambda>_. 0) (pmem s tf)) s)"

definition alloc_process :: "nat \<Rightarrow> ('z fs_state_scheme, nat) km" where
  "alloc_process tp =
     kbind (kget (\<lambda>s. first_index NPROC (\<lambda>i. status (procs s i) = FREE))) (\<lambda>r.
     case r of
       None \<Rightarrow> kraise (Panic ''cannot find any free process structure.'')
     | Some i \<Rightarrow>
         kthen (upd_proc i (\<lambda>q. q\<lparr>status := READY\<rparr>))
         (kbind new_page (\<lambda>tf.
         kthen (upd_proc i (\<lambda>q. q\<lparr>trapframe := tf\<rparr>))
         (kthen (clear_trapframe tf)
         (kthen (kput (set_dword tf TF_tp (of_nat tp)))
         (kbind new_page (\<lambda>pt.
         kthen (upd_proc i (\<lambda>q. q\<lparr>pagetable := pt\<rparr>))
         (kthen (clear_trapframe tf)
         (kthen (kput (set_dword tf TF_tp (of_nat tp)))
         (kthen (kput (set_page pt (\<lambda>_. 0)))
         (kthen (map_user_space i)
         (kbind init_proc_file_management (\<lambda>pf.
         kthen (upd_proc i (\<lambda>q. q\<lparr>pfiles := pf\<rparr>))
           (kreturn i))))))))))))))"

definition clr_proc :: "nat \<Rightarrow> ('z fs_state_scheme, unit) km" where
  "clr_proc p =
     kbind new_page (\<lambda>tf.
     kthen (upd_proc p (\<lambda>q. q\<lparr>trapframe := tf\<rparr>))
     (kthen (clear_trapframe tf)
     (kbind new_page (\<lambda>pt.
     kthen (upd_proc p (\<lambda>q. q\<lparr>pagetable := pt\<rparr>))
     (kthen (kput (set_page pt (\<lambda>_. 0)))
     (kthen (map_user_space p)
     (kbind init_proc_file_management (\<lambda>pf.
     kthen (upd_proc p (\<lambda>q. q\<lparr>pfiles := pf\<rparr>))
       (upd_proc p (\<lambda>q. q\<lparr>status := READY\<rparr>))))))))))"

section \<open>Fork\<close>

text \<open>
  The filter of the freed heap pages.  \<open>junk\<close> is what the automatic array holds: the \<^verbatim>\<open>memset\<close> clears
  \<^verbatim>\<open>MAX_HEAP_PAGES\<close> bytes, which are its first eight entries.
\<close>

definition heap_index :: "u64 \<Rightarrow> u64 \<Rightarrow> int" where
  "heap_index a bottom = sint (ucast ((a - bottom) div PGSIZE) :: i32)"

primrec fill_filter :: "(nat \<Rightarrow> u64) \<Rightarrow> u64 \<Rightarrow> nat list \<Rightarrow> (nat \<Rightarrow> i32) \<Rightarrow> ('s, nat \<Rightarrow> i32) km" where
  "fill_filter addr bottom [] flt = kreturn flt"
| "fill_filter addr bottom (i # is) flt =
     (let index = heap_index (addr i) bottom in
      if MAX_HEAP_PAGES \<le> i \<or> index < 0 \<or> int MAX_HEAP_PAGES \<le> index then kraise (Fault ''free_block_filter'')
      else fill_filter addr bottom is (flt(nat index := 1)))"

text \<open>The heap pages, shared copy-on-write between the two page tables.\<close>

definition fork_heap_page :: "u64 \<Rightarrow> u64 \<Rightarrow> (nat \<Rightarrow> i32) \<Rightarrow> u64 \<Rightarrow> u64 \<Rightarrow> ('z pmm_state_scheme, unit) km" where
  "fork_heap_page ppt cpt flt bottom heap_block =
     (let k = unat ((heap_block - bottom) div PGSIZE) in
      if MAX_HEAP_PAGES \<le> k then kraise (Fault ''free_block_filter'')
      else if flt k \<noteq> 0 then kreturn ()
      else kbind (lookup_pa ppt heap_block) (\<lambda>pa.
        if pa = 0 then kreturn ()
        else kthen (user_vm_map_cow cpt heap_block PGSIZE pa)
          (kthen (user_vm_set_cow ppt heap_block) (inc_page_ref pa))))"

definition fork_heap :: "nat \<Rightarrow> nat \<Rightarrow> nat \<Rightarrow> (nat \<Rightarrow> i32) \<Rightarrow> ('z kernel_state_scheme, unit) km" where
  "fork_heap tp par child junk =
     kbind (kget (\<lambda>s. procs s par)) (\<lambda>pp.
     kbind (kget (\<lambda>s. procs s child)) (\<lambda>cp.
     kbind (fill_filter (free_pages_address pp) (heap_bottom pp) [0..<unat (free_pages_count pp)]
        (\<lambda>i. if i < 8 then 0 else junk i)) (\<lambda>flt.
     kbind (cur tp) (\<lambda>me.
     kbind (kget (\<lambda>s. procs s me)) (\<lambda>mp.
     kbind (kwhile page_loop_bound (\<lambda>a. a < heap_top mp)
        (\<lambda>a. kthen (fork_heap_page (pagetable pp) (pagetable cp) flt (heap_bottom pp) a) (kreturn (a + PGSIZE)))
        (heap_bottom mp)) (\<lambda>_.
     kbind (get_region (mapped_info pp) HEAP_SEGMENT) (\<lambda>pr.
     kbind (get_region (mapped_info cp) HEAP_SEGMENT) (\<lambda>cr.
     kthen (set_region (mapped_info cp) HEAP_SEGMENT (cr\<lparr>reg_npages := reg_npages pr\<rparr>))
       (upd_proc child (\<lambda>q. q\<lparr>heap_top := heap_top pp, heap_bottom := heap_bottom pp,
          free_pages_address := free_pages_address pp, free_pages_count := free_pages_count pp\<rparr>))))))))))"

text \<open>Registering a copied region as the next one of the child.\<close>

definition add_region :: "nat \<Rightarrow> mapped_region \<Rightarrow> nat \<Rightarrow> ('z kernel_state_scheme, unit) km" where
  "add_region child r seg =
     kbind (kget (\<lambda>s. procs s child)) (\<lambda>cp.
     kthen (set_region (mapped_info cp) (total_mapped_region cp) (r\<lparr>reg_seg_type := of_nat seg\<rparr>))
       (upd_proc child (\<lambda>q. q\<lparr>total_mapped_region := total_mapped_region q + 1\<rparr>)))"

definition fork_region :: "nat \<Rightarrow> nat \<Rightarrow> nat \<Rightarrow> (nat \<Rightarrow> i32) \<Rightarrow> nat \<Rightarrow> ('z kernel_state_scheme, unit) km" where
  "fork_region tp par child junk i =
     kbind (kget (\<lambda>s. procs s par)) (\<lambda>pp.
     kbind (kget (\<lambda>s. procs s child)) (\<lambda>cp.
     kbind (get_region (mapped_info pp) i) (\<lambda>r.
     let seg = unat (reg_seg_type r) in
     if seg = CONTEXT_SEGMENT
     then kput (\<lambda>s. set_page (trapframe cp) (copy_trapframe (pmem s (trapframe pp)) (pmem s (trapframe cp))) s)
     else if seg = STACK_SEGMENT
     then kbind (get_region (mapped_info cp) STACK_SEGMENT) (\<lambda>cr.
       kbind (lookup_pa (pagetable cp) (reg_va cr)) (\<lambda>dst.
       kbind (lookup_pa (pagetable pp) (reg_va r)) (\<lambda>src. copy_page dst src)))
     else if seg = HEAP_SEGMENT then fork_heap tp par child junk
     else if seg = CODE_SEGMENT
     then kbind (lookup_pa (pagetable pp) (reg_va r)) (\<lambda>pa.
       kthen (user_vm_map (pagetable cp) (reg_va r) (ucast (reg_npages r * 4096)) pa
          (ucast (prot_to_type (PROT_READ OR PROT_EXEC) True)))
         (add_region child r CODE_SEGMENT))
     else if seg = DATA_SEGMENT
     then kthen
       (kfor [0..<unat (reg_npages r)] (\<lambda>pg.
          let page_va = reg_va r + of_nat pg * PGSIZE in
          kbind (lookup_pa (pagetable pp) page_va) (\<lambda>page_pa.
          kbind alloc_page (\<lambda>new_pa.
          kthen (copy_page new_pa page_pa)
            (user_vm_map (pagetable cp) page_va PGSIZE new_pa user_rw)))))
       (add_region child r DATA_SEGMENT)
     else kreturn ())))"

text \<open>
  The number of regions of the parent does not change during the loop, because the child is another
  slot of the table.
\<close>

definition do_fork :: "nat \<Rightarrow> (nat \<Rightarrow> i32) \<Rightarrow> nat \<Rightarrow> ('z fs_state_scheme, int) km" where
  "do_fork tp junk par =
     kbind (alloc_process tp) (\<lambda>child.
     kbind (kget (\<lambda>s. total_mapped_region (procs s par))) (\<lambda>n.
     kthen (kfor [0..<n] (fork_region tp par child junk))
     (kthen (upd_proc child (\<lambda>q. q\<lparr>status := READY\<rparr>))
     (kbind (kget (\<lambda>s. trapframe (procs s child))) (\<lambda>tf.
     kthen (kput (set_dword tf (TF_a 0) 0))
     (kthen (upd_proc child (\<lambda>q. q\<lparr>parent := Some par\<rparr>))
     (kthen (insert_to_ready_queue child)
       (kget (\<lambda>s. sint (ucast (pid (procs s child)) :: i32))))))))))"

section \<open>The heap in pages\<close>

definition sys_user_allocate_page :: "nat \<Rightarrow> ('z kernel_state_scheme, u64) km" where
  "sys_user_allocate_page tp =
     kbind alloc_page (\<lambda>pa.
     kbind (cur tp) (\<lambda>p.
     kbind (kget (\<lambda>s. procs s p)) (\<lambda>pr.
     kbind
       (if free_pages_count pr \<noteq> 0
        then let n = free_pages_count pr - 1 in
          kthen (upd_proc p (\<lambda>q. q\<lparr>free_pages_count := n\<rparr>))
          (if MAX_HEAP_PAGES \<le> unat n then kraise (Fault ''free_pages_address'')
           else let va = free_pages_address pr (unat n) in
             if va < heap_top pr then kreturn va else kraise (Panic ''va < heap_top''))
        else let va = heap_top pr in
          kthen (upd_proc p (\<lambda>q. q\<lparr>heap_top := va + PGSIZE\<rparr>))
          (kbind (get_region (mapped_info pr) HEAP_SEGMENT) (\<lambda>r.
          kthen (set_region (mapped_info pr) HEAP_SEGMENT (r\<lparr>reg_npages := reg_npages r + 1\<rparr>))
            (kreturn va)))) (\<lambda>va.
     kthen (user_vm_map (pagetable pr) va PGSIZE pa user_rw) (kreturn va)))))"

definition sys_user_free_page :: "nat \<Rightarrow> u64 \<Rightarrow> ('z kernel_state_scheme, u64) km" where
  "sys_user_free_page tp va =
     kbind (cur tp) (\<lambda>p.
     kbind (kget (\<lambda>s. procs s p)) (\<lambda>pr.
     kthen (user_vm_unmap (pagetable pr) va PGSIZE True)
     (let n = unat (free_pages_count pr) in
      if MAX_HEAP_PAGES \<le> n then kraise (Fault ''free_pages_address'')
      else kthen (upd_proc p (\<lambda>q. q\<lparr>free_pages_address := (free_pages_address q)(n := va),
         free_pages_count := free_pages_count q + 1\<rparr>)) (kreturn 0))))"

section \<open>An example state\<close>

text \<open>
  Process 3 runs on hart 0 with the page table of \<open>demo_vm\<close>: page 0x10000 is mapped by the entry \<open>e\<close> to
  0x80006000, which has \<open>n\<close> references; 0x80007000 holds the regions, 0x80008000 the trapframe, the heap starts at
  0x400000, and four pages are free.
\<close>

definition demo_task :: "u64 \<Rightarrow> u16 \<Rightarrow> fs_state" where
  "demo_task e n = (blank_fs demo_kernel)\<lparr>pmem := (pmem demo_vm)(0x80004000 := (\<lambda>_. 0)(16 := e), 0x80006000 := (\<lambda>_. 42),
       0x80002000 := (\<lambda>_. 0)(0 := 0x80009000), 0x80009000 := (\<lambda>_. 0)(0 := 0x8000a000)), free_mem_end_addr := 0x80010000,
     g_free_mem_list := 0x80001000, page_ref_count := (\<lambda>_. 1)(0 := 0, 1 := 0, 5 := n, 8 := 0, 9 := 0),
     procs := (procs demo_kernel)(3 := (procs demo_kernel 3)\<lparr>pagetable := demo_root, trapframe := 0x80008000,
       mapped_info := 0x80007000, heap_top := 0x400000, heap_bottom := 0x400000\<rparr>),
     csr := (\<lambda>_. blank_csr\<lparr>stval := 0x10008, scause := 0xf, sepc := 0x10078\<rparr>)\<rparr>"

lemma demo_task_next:
  "next_table (pmem (demo_task e n)) 0x80005000 i = (if i = 0 then Some 0x80003000 else None)"
  "next_table (pmem (demo_task e n)) 0x80003000 i = (if i = 0 then Some 0x80004000 else None)"
  by (simp_all add: next_table_def demo_task_def demo_vm_def PTE2PA_def PTE_V_def)

lemma demo_task_tables:
  "is_table {demo_root} (pmem (demo_task e n)) pd is t \<longleftrightarrow> pd = demo_root \<and>
     (is = [] \<and> t = demo_root \<or> is = [0] \<and> t = 0x80003000 \<or> is = [0, 0] \<and> t = 0x80004000)"
proof (cases "is")
  case (Cons i js)
  then show ?thesis by (cases js) (auto simp: is_table_def demo_task_next split: if_splits)
qed (auto simp: is_table_def)

lemma demo_task_inv: "vm_inv {demo_root} (demo_task e n) [0x80001000, 0x80002000, 0x80009000, 0x8000a000]"
proof -
  have "pmm_inv (demo_task e n) [0x80001000, 0x80002000, 0x80009000, 0x8000a000]"
    by (simp add: pmm_inv_def pmm_bounds_def demo_task_def demo_fs_defs demo_vm_def managed_def PAGE_INDEX_def
        MAX_PAGE_NUM_def PGSIZE_def PMM_MAX_PAGES_def SPIN_LOCK_FREE_def)
  moreover have "pt_tree {demo_root} (pmem (demo_task e n)) (set [0x80001000, 0x80002000, 0x80009000, 0x8000a000])"
    unfolding pt_tree_def demo_task_tables by (auto simp: PGSIZE_def)
  ultimately show ?thesis by (simp add: vm_inv_def)
qed

lemma demo_task_entry:
  assumes "ROUNDDOWN va PGSIZE = 0x10000"
  shows "pt_entry (pmem (demo_task e n)) demo_root va = e"
proof -
  have va: "va < MAXVA"
  proof (rule ccontr)
    assume "\<not> va < MAXVA"
    then have "unat MAXVA div 4096 * 4096 \<le> unat va div 4096 * 4096"
      by (intro mult_le_mono div_le_mono) (auto simp: not_less word_le_nat_alt)
    moreover have "unat va div 4096 * 4096 = 0x10000" using unat_ROUNDDOWN [of va] assms by simp
    ultimately show False by (simp add: MAXVA_def)
  qed
  have "leaf_table (pmem (demo_task e n)) demo_root 0x10000 = Some 0x80004000"
    by (simp add: leaf_table_def demo_task_next demo_PX [unfolded One_nat_def])
  then have "pt_entry (pmem (demo_task e n)) demo_root 0x10000 = e"
    by (simp add: pt_entry_def demo_PX demo_task_def)
  then show ?thesis using pt_entry_page [OF va] assms by metis
qed

lemma demo_task_simps:
  "current (demo_task e n) 0 = Some 3" "pagetable (procs (demo_task e n) 3) = demo_root"
  "stval (csr (demo_task e n) 0) = 0x10008" "managed (demo_task e n) 0x80006000"
  "ref_of (demo_task e n) 0x80006000 = n" "pmem (demo_task e n) 0x80006000 = (\<lambda>_. 42)"
  "trapframe (procs (demo_task e n) 3) = 0x80008000" "sstatus (csr (demo_task e n) 0) = 0"
  "scause (csr (demo_task e n) 0) = 0xf" "sepc (csr (demo_task e n) 0) = 0x10078"
  "heap_top (procs (demo_task e n) 3) = 0x400000" "stack_size (procs (demo_task e n) 3) = 0"
  "mapped_info (procs (demo_task e n) 3) = 0x80007000" "free_pages_count (procs (demo_task e n) 3) = 0"
  by (simp_all add: demo_task_def demo_fs_defs managed_def PAGE_INDEX_def MAX_PAGE_NUM_def PGSIZE_def blank_csr_def demo_procs_def
      blank_process_def)

end
