(* ===== verification/Malloc.thy ===== *)
theory Malloc
  imports Process
begin

text \<open>
  The byte-wise heap of a process: \<^verbatim>\<open>user_better_malloc\<close> and \<^verbatim>\<open>user_better_free\<close> of \<^verbatim>\<open>kernel/process.c\<close>.

  A node of the doubly linked lists \<^verbatim>\<open>malloc_list\<close> (blocks in use) and \<^verbatim>\<open>malloc_free_list\<close> (freed blocks) is
  a page whose first four doublewords are \<^verbatim>\<open>va\<close>, \<^verbatim>\<open>size\<close>, \<^verbatim>\<open>next\<close> and \<^verbatim>\<open>prev\<close>.  A list operation takes
  the field of the process that heads the list as the pair of its selector and its update.
\<close>

definition M_va :: "9 word" where "M_va = 0"
definition M_size :: "9 word" where "M_size = 1"
definition M_next :: "9 word" where "M_next = 2"
definition M_prev :: "9 word" where "M_prev = 3"

lemmas node_defs = M_va_def M_size_def M_next_def M_prev_def

definition node_get :: "u64 \<Rightarrow> 9 word \<Rightarrow> ('z pmm_state_scheme, u64) km" where
  "node_get n i = kthen (check_ptr n) (kget (\<lambda>s. pmem s n i))"

definition node_set :: "u64 \<Rightarrow> 9 word \<Rightarrow> u64 \<Rightarrow> ('z pmm_state_scheme, unit) km" where
  "node_set n i v = kthen (check_ptr n) (kput (set_dword n i v))"

section \<open>List operations\<close>

type_synonym head_upd = "(u64 \<Rightarrow> u64) \<Rightarrow> process \<Rightarrow> process"

definition list_head :: "nat \<Rightarrow> (process \<Rightarrow> u64) \<Rightarrow> ('z kernel_state_scheme, u64) km" where
  "list_head p sel = kget (\<lambda>s. sel (procs s p))"

text \<open>\<^verbatim>\<open>n->next = head; if (head) head->prev = n; head = n\<close>\<close>

definition link_front :: "nat \<Rightarrow> (process \<Rightarrow> u64) \<Rightarrow> head_upd \<Rightarrow> u64 \<Rightarrow> ('z kernel_state_scheme, unit) km" where
  "link_front p sel upd n =
     kbind (list_head p sel) (\<lambda>h.
     kthen (node_set n M_next h)
     (kthen (kwhen (h \<noteq> 0) (node_set h M_prev n))
       (upd_proc p (upd (\<lambda>_. n)))))"

text \<open>Taking a node out of its list; its own links stay.\<close>

definition unlink_node :: "nat \<Rightarrow> head_upd \<Rightarrow> u64 \<Rightarrow> ('z kernel_state_scheme, unit) km" where
  "unlink_node p upd n =
     kbind (node_get n M_prev) (\<lambda>pv.
     kbind (node_get n M_next) (\<lambda>nx.
     kthen (if pv \<noteq> 0 then node_set pv M_next nx else upd_proc p (upd (\<lambda>_. nx)))
       (kwhen (nx \<noteq> 0) (node_set nx M_prev pv))))"

text \<open>Taking the first node of the list of freed blocks, to hold another block.\<close>

definition pop_free :: "nat \<Rightarrow> u64 \<Rightarrow> ('z kernel_state_scheme, unit) km" where
  "pop_free p n =
     kbind (node_get n M_next) (\<lambda>nx.
     kthen (upd_proc p (malloc_free_list_update (\<lambda>_. nx)))
       (kwhen (nx \<noteq> 0) (node_set nx M_prev 0)))"

text \<open>A node as the block \<open>[va, va + sz)\<close> at the front of a list.\<close>

definition add_block :: "nat \<Rightarrow> (process \<Rightarrow> u64) \<Rightarrow> head_upd \<Rightarrow> u64 \<Rightarrow> u64 \<Rightarrow> u64 \<Rightarrow> ('z kernel_state_scheme, unit) km" where
  "add_block p sel upd n va sz =
     kthen (node_set n M_va va)
     (kthen (node_set n M_size sz)
     (kthen (node_set n M_prev 0) (link_front p sel upd n)))"

text \<open>The first node from \<open>n\<close> on that satisfies a test on its page, 0 for none.\<close>

primrec find_node :: "nat \<Rightarrow> ((9 word \<Rightarrow> u64) \<Rightarrow> bool) \<Rightarrow> u64 \<Rightarrow> ('z pmm_state_scheme, u64) km" where
  "find_node 0 P n = (if n = 0 then kreturn 0 else kraise Diverge)"
| "find_node (Suc k) P n =
     (if n = 0 then kreturn 0
      else kbind (kget (\<lambda>s. pmem s n)) (\<lambda>c. if P c then kreturn n else find_node k P (c M_next)))"

section \<open>Allocation\<close>

text \<open>Mapping the pages of a reused block; \<open>False\<close> when the memory is exhausted.\<close>

definition map_block :: "u64 \<Rightarrow> u64 \<Rightarrow> u64 \<Rightarrow> ('z pmm_state_scheme, bool) km" where
  "map_block pt va sz =
     kbind (kwhile page_loop_bound (\<lambda>(page_va, ok). ok \<and> page_va < va + sz)
       (\<lambda>(page_va, ok). kbind (lookup_pa pt page_va) (\<lambda>pa.
          if pa \<noteq> 0 then kreturn (page_va + PGSIZE, True)
          else kbind alloc_page (\<lambda>pa.
            if pa = 0 then kreturn (page_va, False)
            else kthen (user_vm_map pt page_va PGSIZE pa user_rw) (kreturn (page_va + PGSIZE, True)))))
       (ROUNDDOWN va PGSIZE, True)) (\<lambda>(page_va, ok). kreturn ok)"

definition reuse_block :: "nat \<Rightarrow> u64 \<Rightarrow> u64 \<Rightarrow> u64 \<Rightarrow> ('z kernel_state_scheme, u64) km" where
  "reuse_block p pt reuse sz =
     kbind (node_get reuse M_va) (\<lambda>va.
     kthen (unlink_node p malloc_free_list_update reuse)
     (kthen (node_set reuse M_next 0)
     (kthen (node_set reuse M_prev 0)
     (kbind (map_block pt va sz) (\<lambda>ok.
     if \<not> ok then kthen (link_front p malloc_free_list malloc_free_list_update reuse) (kreturn 0)
     else kbind (node_get reuse M_size) (\<lambda>rsize.
       kbind
         (if sz < rsize
          then kbind (list_head p malloc_free_list) (\<lambda>h.
            kbind (if h \<noteq> 0 then kthen (pop_free p h) (kreturn h) else alloc_page) (\<lambda>rem.
            if rem = 0 then kthen (link_front p malloc_free_list malloc_free_list_update reuse) (kreturn False)
            else kthen (add_block p malloc_free_list malloc_free_list_update rem (va + sz) (rsize - sz)) (kreturn True)))
          else kreturn True) (\<lambda>ok.
       if \<not> ok then kreturn 0
       else kthen (add_block p malloc_list malloc_list_update reuse va sz) (kreturn va))))))))"

text \<open>Giving the node back when the memory is exhausted.\<close>

definition give_back :: "nat \<Rightarrow> bool \<Rightarrow> u64 \<Rightarrow> ('z kernel_state_scheme, unit) km" where
  "give_back p from_free_list n =
     (if from_free_list then link_front p malloc_free_list malloc_free_list_update n else free_page n)"

text \<open>
  The pages behind the first one, \<open>n\<close> of them from \<open>map_va\<close> on; when the memory is exhausted, the
  pages mapped so far are unmapped.
\<close>

definition map_more :: "u64 \<Rightarrow> u64 \<Rightarrow> bool \<Rightarrow> u64 \<Rightarrow> nat \<Rightarrow> ('z pmm_state_scheme, bool) km" where
  "map_more pt page_start first_mapped map_va n =
     kbind (kwhile n (\<lambda>(i, ok). ok \<and> i < n)
       (\<lambda>(i, ok). kbind alloc_page (\<lambda>pa.
          if pa = 0
          then kthen (kwhen first_mapped (user_vm_unmap pt page_start PGSIZE True))
            (kthen (kfor [0..<i] (\<lambda>j. user_vm_unmap pt (map_va + of_nat j * PGSIZE) PGSIZE True))
              (kreturn (i, False)))
          else kthen (user_vm_map pt (map_va + of_nat i * PGSIZE) PGSIZE pa user_rw) (kreturn (i + 1, True))))
       (0, True)) (\<lambda>(i, ok). kreturn ok)"

definition extend_heap :: "nat \<Rightarrow> u64 \<Rightarrow> u64 \<Rightarrow> ('z kernel_state_scheme, u64) km" where
  "extend_heap p pt sz =
     kbind (kget (\<lambda>s. heap_top (procs s p))) (\<lambda>va.
     let page_start = ROUNDDOWN va PGSIZE in
     kbind (list_head p malloc_free_list) (\<lambda>h.
     let from_free = (h \<noteq> 0) in
     kbind (if from_free
            then kthen (pop_free p h) (kthen (node_set h M_next 0) (kthen (node_set h M_prev 0) (kreturn h)))
            else alloc_page) (\<lambda>node.
     if node = 0 then kreturn 0
     else kbind (lookup_pa pt page_start) (\<lambda>pa0.
       let first_mapped = (pa0 = 0) in
       kbind (if first_mapped
              then kbind alloc_page (\<lambda>pa.
                if pa = 0 then kreturn False
                else kthen (user_vm_map pt page_start PGSIZE pa user_rw) (kreturn True))
              else kreturn True) (\<lambda>ok.
       if \<not> ok then kthen (give_back p from_free node) (kreturn 0)
       else let remaining = page_start + PGSIZE - va in
         if sz \<le> remaining
         then kthen (upd_proc p (\<lambda>q. q\<lparr>heap_top := va + sz\<rparr>))
           (kthen (add_block p malloc_list malloc_list_update node va sz) (kreturn va))
         else let need = sz - remaining; n_pages = (need + PGSIZE - 1) div PGSIZE; map_va = page_start + PGSIZE in
           kbind (map_more pt page_start first_mapped map_va (unat n_pages)) (\<lambda>ok.
           if \<not> ok
           then kthen (kwhen from_free (node_set node M_prev 0))
             (kthen (give_back p from_free node) (kreturn 0))
           else kthen (upd_proc p (\<lambda>q. q\<lparr>heap_top := va + sz\<rparr>))
             (kthen (add_block p malloc_list malloc_list_update node va sz) (kreturn va))))))))"

definition user_better_malloc :: "nat \<Rightarrow> u64 \<Rightarrow> ('z kernel_state_scheme, u64) km" where
  "user_better_malloc tp sz =
     kbind (kget (\<lambda>s. current s tp)) (\<lambda>c.
     case c of
       None \<Rightarrow> kreturn 0
     | Some p \<Rightarrow>
         if sz = 0 then kreturn 0
         else kbind (kget (\<lambda>s. pagetable (procs s p))) (\<lambda>pt.
           kbind (list_head p malloc_free_list) (\<lambda>h.
           kbind (find_node chain_bound (\<lambda>c. sz \<le> c M_size) h) (\<lambda>reuse.
           if reuse \<noteq> 0 then reuse_block p pt reuse sz else extend_heap p pt sz))))"

section \<open>Release\<close>

definition page_has_other_allocation :: "nat \<Rightarrow> u64 \<Rightarrow> ('z kernel_state_scheme, bool) km" where
  "page_has_other_allocation p page_va =
     kbind (list_head p malloc_list) (\<lambda>h.
     kbind (find_node chain_bound (\<lambda>c. page_va < c M_va + c M_size \<and> c M_va < page_va + PGSIZE) h) (\<lambda>m.
       kreturn (m \<noteq> 0)))"

definition user_better_free :: "nat \<Rightarrow> u64 \<Rightarrow> ('z kernel_state_scheme, unit) km" where
  "user_better_free tp va =
     kbind (kget (\<lambda>s. current s tp)) (\<lambda>c.
     case c of
       None \<Rightarrow> kreturn ()
     | Some p \<Rightarrow>
         kbind (list_head p malloc_list) (\<lambda>h.
         kbind (find_node chain_bound (\<lambda>c. c M_va = va) h) (\<lambda>cr.
         if cr = 0 then kreturn ()
         else kbind (node_get cr M_size) (\<lambda>sz.
           kbind (kget (\<lambda>s. pagetable (procs s p))) (\<lambda>pt.
           kthen (unlink_node p malloc_list_update cr)
           (kthen (node_set cr M_prev 0)
           (kthen (link_front p malloc_free_list malloc_free_list_update cr)
           (kbind (kwhile page_loop_bound (\<lambda>page_va. page_va < va + sz)
             (\<lambda>page_va. kbind (page_has_other_allocation p page_va) (\<lambda>b.
                kthen (kwhen (\<not> b) (user_vm_unmap pt page_va PGSIZE True)) (kreturn (page_va + PGSIZE))))
             (ROUNDDOWN va PGSIZE)) (\<lambda>_. kreturn ())))))))))"

end
