(* ===== verification/Debug_Line.thy ===== *)
theory Debug_Line
  imports Fs_State
begin

text \<open>
  Decoding of the section \<^verbatim>\<open>.debug_line\<close> of an application (\<^verbatim>\<open>kernel/elf.c\<close>): the variable-length integers,
  the fixed-size integers that are read byte by byte, and the line number program that \<^verbatim>\<open>make_addr_line\<close>
  runs to build the tables of directories, files and lines.

  The section is a byte sequence \<open>m\<close> addressed by offset, and a reading function returns the value with the
  offset behind it.  The source keeps the tables behind the section in the same static buffer; here they are
  lists, and the two name tables have at most 64 entries, as the layout of the source has it.  A shift by
  more than the width of its operand is \<open>Fault\<close>, and so is a division by a line range of 0.
\<close>

section \<open>Integers\<close>

text \<open>The loop of both readers: value, last byte, next shift and next offset.\<close>

primrec leb128_loop :: "nat \<Rightarrow> (nat \<Rightarrow> u8) \<Rightarrow> nat \<Rightarrow> nat \<Rightarrow> u64 \<Rightarrow> ('s, u64 \<times> u8 \<times> nat \<times> nat) km" where
  "leb128_loop 0 m off shift v = kraise (Fault ''shift'')"
| "leb128_loop (Suc n) m off shift v =
     (let b = m off; v = v OR push_bit shift (ucast b AND 0x7F) in
      if b AND 0x80 = 0 then kreturn (v, b, shift + 7, off + 1)
      else leb128_loop n m (off + 1) (shift + 7) v)"

text \<open>Ten bytes cover the 64 bits; an eleventh would be shifted by 70.\<close>

definition leb128_bound :: nat where
  "leb128_bound = 10"

definition read_uleb128 :: "(nat \<Rightarrow> u8) \<Rightarrow> nat \<Rightarrow> ('s, u64 \<times> nat) km" where
  "read_uleb128 m off = kbind (leb128_loop leb128_bound m off 0 0) (\<lambda>(v, b, shift, off). kreturn (v, off))"

text \<open>\<^verbatim>\<open>-(1 << shift)\<close> is a shift of an \<^verbatim>\<open>int\<close>.\<close>

definition read_sleb128 :: "(nat \<Rightarrow> u8) \<Rightarrow> nat \<Rightarrow> ('s, u64 \<times> nat) km" where
  "read_sleb128 m off = kbind (leb128_loop leb128_bound m off 0 0) (\<lambda>(v, b, shift, off).
     if shift < 64 \<and> b AND 0x40 \<noteq> 0
     then if 31 \<le> shift then kraise (Fault ''shift'') else kreturn (v OR - push_bit shift 1, off)
     else kreturn (v, off))"

primrec read_le :: "nat \<Rightarrow> (nat \<Rightarrow> u8) \<Rightarrow> nat \<Rightarrow> nat \<Rightarrow> u64 \<Rightarrow> u64" where
  "read_le 0 m off i v = v"
| "read_le (Suc n) m off i v = read_le n m (off + 1) (i + 1) (v OR push_bit (8 * i) (ucast (m off)))"

definition read_uint64 :: "(nat \<Rightarrow> u8) \<Rightarrow> nat \<Rightarrow> u64 \<times> nat" where
  "read_uint64 m off = (read_le 8 m off 0 0, off + 8)"

definition read_uint32 :: "(nat \<Rightarrow> u8) \<Rightarrow> nat \<Rightarrow> u32 \<times> nat" where
  "read_uint32 m off = (ucast (read_le 4 m off 0 0), off + 4)"

definition read_uint16 :: "(nat \<Rightarrow> u8) \<Rightarrow> nat \<Rightarrow> u16 \<times> nat" where
  "read_uint16 m off = (ucast (read_le 2 m off 0 0), off + 2)"

section \<open>The line number program\<close>

record code_file =
  cf_dir :: u64
  cf_file :: nat

record addr_line =
  al_addr :: u64
  al_line :: u64
  al_file :: u64

record line_tables =
  lt_dirs :: "nat list"
  lt_files :: "code_file list"
  lt_lines :: "addr_line list"

text \<open>\<^verbatim>\<open>struct debug_header\<close>: the fields that are used, and its size.\<close>

record debug_header =
  min_instruction_length :: u8
  line_base :: u8
  line_range :: u8
  opcode_base :: u8

definition debug_header_size :: nat where
  "debug_header_size = 27"

definition read_debug_header :: "(nat \<Rightarrow> u8) \<Rightarrow> nat \<Rightarrow> debug_header" where
  "read_debug_header m off = \<lparr>min_instruction_length = m (off + 10), line_base = m (off + 12),
     line_range = m (off + 13), opcode_base = m (off + 14)\<rparr>"

definition NAME_TABLE_LEN :: nat where
  "NAME_TABLE_LEN = 64"

text \<open>The offset behind the next NUL byte, searched in at most \<open>n\<close> bytes.\<close>

primrec skip_string :: "nat \<Rightarrow> (nat \<Rightarrow> u8) \<Rightarrow> nat \<Rightarrow> ('s, nat) km" where
  "skip_string 0 m off = kraise (Fault ''debug_line'')"
| "skip_string (Suc n) m off = (if m off = 0 then kreturn (off + 1) else skip_string n m (off + 1))"

primrec read_dirs :: "nat \<Rightarrow> nat \<Rightarrow> (nat \<Rightarrow> u8) \<Rightarrow> nat \<Rightarrow> nat list \<Rightarrow> ('s, nat \<times> nat list) km" where
  "read_dirs 0 lim m off dirs = kraise (Fault ''debug_line'')"
| "read_dirs (Suc n) lim m off dirs =
     (if m off = 0 then kreturn (off + 1, dirs)
      else if NAME_TABLE_LEN \<le> length dirs then kraise (Fault ''p->dir'')
      else kbind (skip_string lim m off) (\<lambda>off'. read_dirs n lim m off' (dirs @ [off])))"

primrec read_files :: "nat \<Rightarrow> nat \<Rightarrow> nat \<Rightarrow> (nat \<Rightarrow> u8) \<Rightarrow> nat \<Rightarrow> code_file list \<Rightarrow> ('s, nat \<times> code_file list) km" where
  "read_files 0 lim dir_base m off fls = kraise (Fault ''debug_line'')"
| "read_files (Suc n) lim dir_base m off fls =
     (if m off = 0 then kreturn (off + 1, fls)
      else if NAME_TABLE_LEN \<le> length fls then kraise (Fault ''p->file'')
      else kbind (skip_string lim m off) (\<lambda>off1.
        kbind (read_uleb128 m off1) (\<lambda>(d, off2).
        kbind (read_uleb128 m off2) (\<lambda>(_, off3).
        kbind (read_uleb128 m off3) (\<lambda>(_, off4).
          read_files n lim dir_base m off4 (fls @ [\<lparr>cf_dir = d - 1 + of_nat dir_base, cf_file = off\<rparr>]))))))"

text \<open>A row of the table replaces the last one when both have the same address.\<close>

definition emit_line :: "nat \<Rightarrow> addr_line \<Rightarrow> addr_line list \<Rightarrow> addr_line list" where
  "emit_line file_base regs ls =
     (let ls = (if ls \<noteq> [] \<and> al_addr (last ls) = al_addr regs then butlast ls else ls) in
      ls @ [regs\<lparr>al_file := al_file regs + of_nat file_base - 1\<rparr>])"

text \<open>Division and remainder of \<^verbatim>\<open>int\<close>, which round to zero.\<close>

definition cdiv :: "int \<Rightarrow> int \<Rightarrow> int" where
  "cdiv a b = (if a < 0 then - ((- a) div b) else a div b)"

definition cmod :: "int \<Rightarrow> int \<Rightarrow> int" where
  "cmod a b = a - cdiv a b * b"

definition addr_advance :: "debug_header \<Rightarrow> int \<Rightarrow> int" where
  "addr_advance dh adjust = cdiv adjust (uint (line_range dh)) * uint (min_instruction_length dh)"

text \<open>One instruction from \<open>off\<close> on: the next offset, the registers, the rows, and whether the sequence ended.\<close>

definition line_op ::
  "debug_header \<Rightarrow> nat \<Rightarrow> (nat \<Rightarrow> u8) \<Rightarrow> nat \<times> addr_line \<times> addr_line list \<Rightarrow> ('s, bool \<times> nat \<times> addr_line \<times> addr_line list) km"
  where
  "line_op dh file_base m = (\<lambda>(off, regs, ls).
     let opc = m off; off = off + 1 in
     if opc = 0 then kbind (read_uleb128 m off) (\<lambda>(_, off).
       let ext = m off; off = off + 1 in
       if ext = 1 then kreturn (True, off, regs, emit_line file_base regs ls)
       else if ext = 2 then (let (a, off) = read_uint64 m off in kreturn (False, off, regs\<lparr>al_addr := a\<rparr>, ls))
       else if ext = 4 then kbind (read_uleb128 m off) (\<lambda>(_, off). kreturn (False, off, regs, ls))
       else kreturn (False, off, regs, ls))
     else if opc = 1 then kreturn (False, off, regs, emit_line file_base regs ls)
     else if opc = 2 then kbind (read_uleb128 m off) (\<lambda>(d, off).
       kreturn (False, off, regs\<lparr>al_addr := al_addr regs + d * ucast (min_instruction_length dh)\<rparr>, ls))
     else if opc = 3 then kbind (read_sleb128 m off) (\<lambda>(d, off).
       kreturn (False, off, regs\<lparr>al_line := al_line regs + d\<rparr>, ls))
     else if opc = 4 then kbind (read_uleb128 m off) (\<lambda>(f, off). kreturn (False, off, regs\<lparr>al_file := f\<rparr>, ls))
     else if opc = 5 then kbind (read_uleb128 m off) (\<lambda>(_, off). kreturn (False, off, regs, ls))
     else if opc = 6 \<or> opc = 7 then kreturn (False, off, regs, ls)
     else if opc = 9 then (let (d, off) = read_uint16 m off in
       kreturn (False, off, regs\<lparr>al_addr := al_addr regs + ucast d\<rparr>, ls))
     else if line_range dh = 0 then kraise (Fault ''division by zero'')
     else if opc = 8 then
       kreturn (False, off, regs\<lparr>al_addr := al_addr regs + word_of_int (addr_advance dh (255 - uint (opcode_base dh)))\<rparr>, ls)
     else
       let adjust = uint opc - uint (opcode_base dh);
           regs = regs\<lparr>al_addr := al_addr regs + word_of_int (addr_advance dh adjust),
             al_line := al_line regs + word_of_int (sint (line_base dh) + cmod adjust (uint (line_range dh)))\<rparr>
       in kreturn (False, off, regs, emit_line file_base regs ls))"

primrec line_program ::
  "nat \<Rightarrow> debug_header \<Rightarrow> nat \<Rightarrow> (nat \<Rightarrow> u8) \<Rightarrow> nat \<times> addr_line \<times> addr_line list \<Rightarrow> ('s, nat \<times> addr_line list) km" where
  "line_program 0 dh file_base m x = kraise Diverge"
| "line_program (Suc n) dh file_base m x = kbind (line_op dh file_base m x) (\<lambda>(fin, off, regs, ls).
     if fin then kreturn (off, ls) else line_program n dh file_base m (off, regs, ls))"

text \<open>One compilation unit from \<open>off\<close> on.\<close>

definition read_unit :: "nat \<Rightarrow> (nat \<Rightarrow> u8) \<Rightarrow> nat \<Rightarrow> line_tables \<Rightarrow> ('s, nat \<times> line_tables) km" where
  "read_unit lim m off t =
     (let dh = read_debug_header m off; dir_base = length (lt_dirs t); file_base = length (lt_files t) in
      kbind (read_dirs lim lim m (off + debug_header_size) (lt_dirs t)) (\<lambda>(off, dirs).
      kbind (read_files lim lim dir_base m off (lt_files t)) (\<lambda>(off, fls).
      kbind (line_program lim dh file_base m (off, \<lparr>al_addr = 0, al_line = 1, al_file = 1\<rparr>, lt_lines t)) (\<lambda>(off, ls).
        kreturn (off, \<lparr>lt_dirs = dirs, lt_files = fls, lt_lines = ls\<rparr>)))))"

primrec read_units :: "nat \<Rightarrow> nat \<Rightarrow> (nat \<Rightarrow> u8) \<Rightarrow> nat \<Rightarrow> nat \<Rightarrow> line_tables \<Rightarrow> ('s, line_tables) km" where
  "read_units 0 lim m off len t = (if off < len then kraise Diverge else kreturn t)"
| "read_units (Suc n) lim m off len t =
     (if off < len then kbind (read_unit lim m off t) (\<lambda>(off, t). read_units n lim m off len t) else kreturn t)"

text \<open>
  Every step reads at least one byte of the static buffer of 1 MB, so its size bounds every loop: a loop
  that goes on longer has left the buffer.
\<close>

definition MAX_DEBUG_LINE_SIZE :: nat where
  "MAX_DEBUG_LINE_SIZE = 1024 * 1024"

definition make_addr_line :: "(nat \<Rightarrow> u8) \<Rightarrow> nat \<Rightarrow> ('s, line_tables) km" where
  "make_addr_line m len =
     read_units len MAX_DEBUG_LINE_SIZE m 0 len \<lparr>lt_dirs = [], lt_files = [], lt_lines = []\<rparr>"

section \<open>Variable-length integers\<close>

text \<open>The unsigned encoding of DWARF: seven bits to a byte, the lowest first, the top bit set on all bytes but the last.\<close>

fun uleb128 :: "nat \<Rightarrow> u8 list" where
  "uleb128 x = (if x < 128 then [of_nat x] else of_nat (128 + x mod 128) # uleb128 (x div 128))"

declare uleb128.simps [simp del]

lemma length_uleb128: "0 < n \<Longrightarrow> x < 128 ^ n \<Longrightarrow> length (uleb128 x) \<le> n"
proof (induction x arbitrary: n rule: uleb128.induct)
  case (1 x)
  show ?case
  proof (cases "x < 128")
    case True
    then show ?thesis using 1(2) by (subst uleb128.simps) simp
  next
    case False
    with 1(3) obtain m where n: "n = Suc m" "0 < m" by (cases n; cases "n - 1") (auto simp: not_less)
    then have "x div 128 < 128 ^ m" using 1(3) by (simp add: less_mult_imp_div_less mult.commute)
    then show ?thesis using 1(1) [OF False n(2)] False n(1) by (subst uleb128.simps) simp
  qed
qed

lemma uleb128_top: "(b :: u8) AND 0x80 = 0 \<longleftrightarrow> unat b < 128"
proof -
  have "b AND 0x80 = 0 \<longleftrightarrow> \<not> bit b 7" using and_exp_eq_0_iff_not_bit [of b 7] by simp
  also have "bit b 7 \<longleftrightarrow> bit (unat b) 7" by (simp add: bit_unsigned_iff)
  also have "\<not> bit (unat b) 7 \<longleftrightarrow> \<not> odd (unat b div 128)" by (simp add: bit_iff_odd)
  also have "\<dots> \<longleftrightarrow> unat b < 128"
  proof -
    have "unat b < 256" using unsigned_less [of b] by simp
    then have "unat b div 128 = 0 \<or> unat b div 128 = 1" by linarith
    then show ?thesis by auto
  qed
  finally show ?thesis .
qed

lemma uleb128_bits: "ucast (b :: u8) AND 0x7F = (of_nat (unat b mod 128) :: u64)"
proof -
  have "(0x7F :: u64) = mask 7" by (simp add: mask_eq_exp_minus_1)
  then have "ucast b AND 0x7F = (take_bit 7 (ucast b) :: u64)" by (simp add: take_bit_eq_mask)
  moreover have "unat (ucast b :: u64) = unat b"
  proof -
    have "unat b < 2 ^ 64" using unsigned_less [of b, where 'a = nat] by simp
    then show ?thesis by (simp add: unsigned_ucast_eq take_bit_nat_eq_self)
  qed
  ultimately show ?thesis
    by (simp add: word_unat_eq_iff take_bit_eq_mod unat_mod_distrib unat_of_nat)
qed

text \<open>Bits above the value so far are added to it.\<close>

lemma or_push_bit:
  assumes "v < 2 ^ k" "v + x * 2 ^ k < 2 ^ 64"
  shows "(of_nat v :: u64) OR push_bit k (of_nat x) = of_nat (v + x * 2 ^ k)"
proof -
  have "(of_nat v :: u64) AND push_bit k (of_nat x) = 0"
  proof (rule bit_word_eqI)
    fix n
    have "\<not> bit v n" if "k \<le> n"
    proof -
      have "v < 2 ^ n" using assms(1) that by (meson less_le_trans one_le_numeral power_increasing)
      then show ?thesis by (simp add: bit_iff_odd)
    qed
    then show "bit ((of_nat v :: u64) AND push_bit k (of_nat x)) n \<longleftrightarrow> bit (0 :: u64) n"
      by (auto simp: bit_simps)
  qed
  then have "(of_nat v :: u64) OR push_bit k (of_nat x) = of_nat v + push_bit k (of_nat x)"
    by (simp add: disjunctive_add_eq_or)
  then show ?thesis by (simp add: push_bit_eq_mult)
qed

lemma leb128_loop_uleb128:
  assumes "length (uleb128 x) \<le> n" "v < 2 ^ k" "v + x * 2 ^ k < 2 ^ 64"
    and "\<And>i. i < length (uleb128 x) \<Longrightarrow> m (off + i) = uleb128 x ! i"
  shows "\<exists>b k'. leb128_loop n m off k (of_nat v) s = (Inr (of_nat (v + x * 2 ^ k), b, k', off + length (uleb128 x)), s)"
  using assms
proof (induction x arbitrary: n v k off rule: uleb128.induct)
  case (1 x)
  from 1(2) obtain n' where n: "n = Suc n'" by (cases n) (simp_all add: uleb128.simps [of x] split: if_splits)
  have m0: "m off = uleb128 x ! 0" using 1(5) [of 0] by (simp add: uleb128.simps [of x])
  show ?case
  proof (cases "x < 128")
    case True
    then have b: "unat (m off) = x" unfolding m0 by (subst uleb128.simps) (simp add: unat_of_nat take_bit_nat_eq_self)
    then show ?thesis using True or_push_bit [OF 1(3,4)] by (simp add: n Let_def uleb128_top uleb128_bits uleb128.simps [of x] kreturn_def)
  next
    case False
    let ?w = "v + x mod 128 * 2 ^ k" and ?y = "x div 128"
    have enc: "uleb128 x = of_nat (128 + x mod 128) # uleb128 ?y" using False by (subst uleb128.simps) simp
    have b: "unat (m off) = 128 + x mod 128" unfolding m0 enc by (simp add: unat_of_nat take_bit_nat_eq_self del: of_nat_add)
    have sum: "?w + ?y * 2 ^ (k + 7) = v + x * 2 ^ k"
    proof -
      have "v + p * 2 ^ k + r * 2 ^ (k + 7) = v + (128 * r + p) * 2 ^ k" for p r :: nat by (simp add: power_add algebra_simps)
      from this [of "x mod 128" "x div 128"] show ?thesis by simp
    qed
    have "?w < 2 ^ k + 127 * 2 ^ k" using 1(3) by (intro add_less_le_mono mult_right_mono) auto
    then have w: "?w < 2 ^ (k + 7)" by (simp add: power_add)
    have or: "(of_nat v :: u64) OR push_bit k (of_nat (x mod 128)) = of_nat ?w"
      by (rule or_push_bit [OF 1(3)]) (use 1(4) sum in linarith)
    have "m (off + 1 + i) = uleb128 ?y ! i" if "i < length (uleb128 ?y)" for i
      using 1(5) [of "Suc i"] that by (simp add: enc)
    then obtain b' k' where "leb128_loop n' m (off + 1) (k + 7) (of_nat ?w) s =
        (Inr (of_nat (?w + ?y * 2 ^ (k + 7)), b', k', off + 1 + length (uleb128 ?y)), s)"
      using 1(1) [OF False, of n' ?w "k + 7" "off + 1"] 1(2,4) w sum by (auto simp: n enc)
    moreover have "unat (m off) mod 128 = x mod 128" unfolding b by simp
    ultimately show ?thesis unfolding sum by (simp add: n Let_def uleb128_top uleb128_bits b or enc)
  qed
qed

text \<open>
  C38. Reading a variable-length integer gives back what was encoded: when the bytes from \<open>off\<close> on are the DWARF encoding of a 64-bit value,
  \<open>read_uleb128\<close> returns this value and the offset behind its last byte, after at most ten bytes.
\<close>

theorem read_uleb128_roundtrip:
  fixes x :: u64
  assumes "\<And>i. i < length (uleb128 (unat x)) \<Longrightarrow> m (off + i) = uleb128 (unat x) ! i"
  shows "read_uleb128 m off s = (Inr (x, off + length (uleb128 (unat x))), s) \<and> length (uleb128 (unat x)) \<le> 10"
proof -
  have lt: "unat x < 2 ^ 64" using unsigned_less [of x] by simp
  then have "unat x < 128 ^ 10" by simp
  then have len: "length (uleb128 (unat x)) \<le> 10" by (intro length_uleb128) simp_all
  obtain b k' where "leb128_loop 10 m off 0 (of_nat 0) s = (Inr (of_nat (0 + unat x * 2 ^ 0), b, k', off + length (uleb128 (unat x))), s)"
    using leb128_loop_uleb128 [OF len, of 0 0 m off s] assms lt by auto
  with len show ?thesis by (simp add: read_uleb128_def leb128_bound_def kbind_def kreturn_def)
qed

theorem read_uleb128_roundtrip_witness:
  "read_uleb128 (\<lambda>i. [0xE5, 0x8E, 0x26] ! (i - 4)) 4 demo_fs = (Inr (624485, 7), demo_fs)"
proof -
  have enc: "uleb128 624485 = [0xE5, 0x8E, 0x26]" by (simp add: uleb128.simps)
  show ?thesis using read_uleb128_roundtrip [of 624485 "\<lambda>i. [0xE5, 0x8E, 0x26] ! (i - 4)" 4 demo_fs] by (simp add: enc)
qed

end
