(* ===== verification/Elf.thy ===== *)
theory Elf
  imports Process Debug_Line
begin

text \<open>
  Loading of applications (\<^verbatim>\<open>kernel/elf.c\<close>): the headers of an ELF file, the mapping of its segments, the
  \<^verbatim>\<open>exec\<close> call and the search of a function name by address.

  Reads go through the open file that \<^verbatim>\<open>vfs_open\<close> returns.  The tables of \<^verbatim>\<open>make_addr_line\<close> serve only the
  error messages of the machine-mode trap handler and are the result of \<open>load_debug_line\<close>, not part of the
  process.  \<open>junk\<close> gives, by name, what an automatic or static buffer holds before it is read into.
\<close>

section \<open>Headers\<close>

definition rd16w :: "(nat \<Rightarrow> u8) \<Rightarrow> nat \<Rightarrow> u16" where
  "rd16w f k = ucast (f k) OR push_bit 8 (ucast (f (k + 1)))"

definition rd64w :: "(nat \<Rightarrow> u8) \<Rightarrow> nat \<Rightarrow> u64" where
  "rd64w f k = ucast (rd32w f k) OR push_bit 32 (ucast (rd32w f (k + 4)))"

definition ELF_MAGIC :: u32 where "ELF_MAGIC = 0x464C457F"
definition ELF_PROG_LOAD :: u32 where "ELF_PROG_LOAD = 1"
definition SEGMENT_READABLE :: u32 where "SEGMENT_READABLE = 4"
definition SEGMENT_EXECUTABLE :: u32 where "SEGMENT_EXECUTABLE = 1"
definition SEGMENT_WRITABLE :: u32 where "SEGMENT_WRITABLE = 2"

datatype elf_status = EL_OK | EL_EIO | EL_ENOMEM | EL_NOTELF | EL_ERR

record elf_header =
  eh_magic :: u32
  eh_entry :: u64
  eh_phoff :: u64
  eh_shoff :: u64
  eh_phnum :: u16
  eh_shnum :: u16
  eh_shstrndx :: u16

definition elf_header_size :: nat where "elf_header_size = 64"

definition elf_header_of :: "(nat \<Rightarrow> u8) \<Rightarrow> elf_header" where
  "elf_header_of b = \<lparr>eh_magic = rd32w b 0, eh_entry = rd64w b 24, eh_phoff = rd64w b 32, eh_shoff = rd64w b 40,
     eh_phnum = rd16w b 56, eh_shnum = rd16w b 60, eh_shstrndx = rd16w b 62\<rparr>"

record elf_prog_header =
  ph_type :: u32
  ph_flags :: u32
  ph_off :: u64
  ph_vaddr :: u64
  ph_filesz :: u64
  ph_memsz :: u64

definition prog_header_size :: nat where "prog_header_size = 56"

definition prog_header_of :: "(nat \<Rightarrow> u8) \<Rightarrow> elf_prog_header" where
  "prog_header_of b = \<lparr>ph_type = rd32w b 0, ph_flags = rd32w b 4, ph_off = rd64w b 8, ph_vaddr = rd64w b 16,
     ph_filesz = rd64w b 32, ph_memsz = rd64w b 40\<rparr>"

record elf_sect_header =
  sh_name :: u32
  sh_offset :: u64
  sh_size :: u64

definition sect_header_size :: nat where "sect_header_size = 64"

definition sect_header_of :: "(nat \<Rightarrow> u8) \<Rightarrow> elf_sect_header" where
  "sect_header_of b = \<lparr>sh_name = rd32w b 0, sh_offset = rd64w b 24, sh_size = rd64w b 32\<rparr>"

type_synonym elf_junk = "string \<Rightarrow> nat \<Rightarrow> u8"

section \<open>Reading and mapping\<close>

definition elf_alloc_mb :: "nat \<Rightarrow> u64 \<Rightarrow> u64 \<Rightarrow> ('z kernel_state_scheme, u64) km" where
  "elf_alloc_mb p elf_va sz =
     (if PGSIZE \<le> sz then kraise (Panic ''size < PGSIZE'')
      else kbind alloc_page (\<lambda>pa.
        if pa = 0 then kraise (Kill ''uvmalloc mem alloc falied'' (-1))
        else kthen (kput (set_page pa (\<lambda>_. 0)))
          (kbind (kget (\<lambda>s. pagetable (procs s p))) (\<lambda>pt.
          kthen (user_vm_map pt elf_va PGSIZE pa (ucast (prot_to_type (PROT_WRITE OR PROT_READ OR PROT_EXEC) True)))
            (kreturn pa)))))"

definition elf_fpread :: "host \<Rightarrow> file_ref \<Rightarrow> (nat \<Rightarrow> u8) \<Rightarrow> u64 \<Rightarrow> u64 \<Rightarrow> ('z fs_state_scheme, u64 \<times> (nat \<Rightarrow> u8)) km" where
  "elf_fpread F f dest nb offset =
     kbind (vfs_lseek F f (sint offset) LSEEK_SET) (\<lambda>_.
     kbind (vfs_read F f dest (sint nb)) (\<lambda>(r, dest). kreturn (word_of_int r, dest)))"

definition elf_init :: "host \<Rightarrow> elf_junk \<Rightarrow> file_ref \<Rightarrow> ('z fs_state_scheme, elf_status \<times> elf_header) km" where
  "elf_init F junk f =
     kbind (elf_fpread F f (junk ''ehdr'') (of_nat elf_header_size) 0) (\<lambda>(r, b).
     let h = elf_header_of b in
     if r \<noteq> of_nat elf_header_size then kreturn (EL_EIO, h)
     else if eh_magic h \<noteq> ELF_MAGIC then kreturn (EL_NOTELF, h)
     else kreturn (EL_OK, h))"

text \<open>The index behind the used regions: the first with address 0, searched in the whole page.\<close>

definition last_region :: "(9 word \<Rightarrow> u64) \<Rightarrow> nat" where
  "last_region c = (case first_index 256 (\<lambda>j. reg_va (region_of c j) = 0) of Some j \<Rightarrow> j | None \<Rightarrow> 256)"

text \<open>One program header: \<open>None\<close> to go on with the next, or the status to return.\<close>

definition elf_load_segment :: "host \<Rightarrow> elf_junk \<Rightarrow> file_ref \<Rightarrow> nat \<Rightarrow> i32 \<Rightarrow> ('z fs_state_scheme, elf_status option) km" where
  "elf_load_segment F junk f p off =
     kbind (elf_fpread F f (junk ''ph_addr'') (of_nat prog_header_size) (scast off)) (\<lambda>(r, b).
     let ph = prog_header_of b in
     if r \<noteq> of_nat prog_header_size then kreturn (Some EL_EIO)
     else if ph_type ph \<noteq> ELF_PROG_LOAD then kreturn None
     else if ph_memsz ph < ph_filesz ph then kreturn (Some EL_ERR)
     else if ph_vaddr ph + ph_memsz ph < ph_vaddr ph then kreturn (Some EL_ERR)
     else kbind (elf_alloc_mb p (ph_vaddr ph) (ph_memsz ph)) (\<lambda>dest.
       kbind (kget (\<lambda>s. page_bytes s dest)) (\<lambda>old.
       kbind (elf_fpread F f old (ph_memsz ph) (ph_off ph)) (\<lambda>(r, b).
       kthen (kput (set_bytes dest b))
       (if r \<noteq> ph_memsz ph then kreturn (Some EL_EIO)
        else kbind (kget (\<lambda>s. mapped_info (procs s p))) (\<lambda>m.
          kbind (kget (\<lambda>s. last_region (pmem s m))) (\<lambda>j.
          kbind (get_region m j) (\<lambda>reg.
          kthen (set_region m j (reg\<lparr>reg_va := ph_vaddr ph, reg_npages := 1\<rparr>))
          (kbind (get_region m j) (\<lambda>reg.
          kthen
            (if ph_flags ph = SEGMENT_READABLE OR SEGMENT_EXECUTABLE
             then set_region m j (reg\<lparr>reg_seg_type := of_nat CODE_SEGMENT\<rparr>)
             else if ph_flags ph = SEGMENT_READABLE OR SEGMENT_WRITABLE
             then set_region m j (reg\<lparr>reg_seg_type := of_nat DATA_SEGMENT\<rparr>)
             else kraise (Kill ''unknown program segment encountered'' (sint (ph_flags ph))))
            (kthen (upd_proc p (\<lambda>q. q\<lparr>total_mapped_region := total_mapped_region q + 1\<rparr>))
              (kreturn None))))))))))))"

primrec elf_load_loop :: "host \<Rightarrow> elf_junk \<Rightarrow> file_ref \<Rightarrow> nat \<Rightarrow> nat \<Rightarrow> i32 \<Rightarrow> ('z fs_state_scheme, elf_status) km" where
  "elf_load_loop F junk f p 0 off = kreturn EL_OK"
| "elf_load_loop F junk f p (Suc n) off = kbind (elf_load_segment F junk f p off) (\<lambda>r.
     case r of Some st \<Rightarrow> kreturn st | None \<Rightarrow> elf_load_loop F junk f p n (off + of_nat prog_header_size))"

definition elf_load :: "host \<Rightarrow> elf_junk \<Rightarrow> file_ref \<Rightarrow> nat \<Rightarrow> elf_header \<Rightarrow> ('z fs_state_scheme, elf_status) km" where
  "elf_load F junk f p h = elf_load_loop F junk f p (unat (eh_phnum h)) (ucast (eh_phoff h))"

section \<open>Line numbers\<close>

text \<open>The NUL-terminated string at an offset of a buffer of \<open>lim\<close> bytes.\<close>

definition buf_string :: "nat \<Rightarrow> (nat \<Rightarrow> u8) \<Rightarrow> nat \<Rightarrow> ('s, u8 list) km" where
  "buf_string lim b off =
     (if lim \<le> off \<or> (\<forall>i\<in>set [off..<lim]. b i \<noteq> 0) then kraise (Fault ''string outside its buffer'')
      else kreturn (takeWhile (\<lambda>c. c \<noteq> 0) (map b [off..<lim])))"

definition MAX_SHSTRTAB_SIZE :: nat where "MAX_SHSTRTAB_SIZE = 64 * 1024"

text \<open>\<^verbatim>\<open>.debug_line\<close>, \<^verbatim>\<open>.symtab\<close>, \<^verbatim>\<open>.strtab\<close>, \<^verbatim>\<open>main\<close> and \<^verbatim>\<open>bin/app_print_backtrace\<close>\<close>

definition debug_line_name :: "u8 list" where
  "debug_line_name = [46, 100, 101, 98, 117, 103, 95, 108, 105, 110, 101]"

definition symtab_name :: "u8 list" where "symtab_name = [46, 115, 121, 109, 116, 97, 98]"
definition strtab_name :: "u8 list" where "strtab_name = [46, 115, 116, 114, 116, 97, 98]"
definition main_name :: "u8 list" where "main_name = [109, 97, 105, 110]"

definition backtrace_app :: "u8 list" where
  "backtrace_app = [98, 105, 110, 47, 97, 112, 112, 95, 112, 114, 105, 110, 116, 95, 98, 97, 99, 107, 116, 114, 97, 99, 101]"

text \<open>The loop over \<open>n\<close> section headers from index \<open>i\<close> on; \<open>names\<close> is the section name table.\<close>

primrec find_debug_line ::
  "host \<Rightarrow> elf_junk \<Rightarrow> file_ref \<Rightarrow> u64 \<Rightarrow> (nat \<Rightarrow> u8) \<Rightarrow> nat \<Rightarrow> nat \<Rightarrow> ('z fs_state_scheme, elf_sect_header option option) km"
  where
  "find_debug_line F junk f shoff names 0 i = kreturn (Some None)"
| "find_debug_line F junk f shoff names (Suc n) i =
     kbind (elf_fpread F f (junk ''sh'') (of_nat sect_header_size) (shoff + of_nat (i * sect_header_size))) (\<lambda>(r, b).
     if r \<noteq> of_nat sect_header_size then kreturn None
     else kbind (buf_string MAX_SHSTRTAB_SIZE names (unat (sh_name (sect_header_of b)))) (\<lambda>nm.
       if nm = debug_line_name then kreturn (Some (Some (sect_header_of b)))
       else find_debug_line F junk f shoff names n (i + 1)))"

text \<open>
  When no section has the name, the source goes on with an uninitialised header, \<open>junk ''debug_hdr''\<close>.
\<close>

definition load_debug_line ::
  "host \<Rightarrow> elf_junk \<Rightarrow> file_ref \<Rightarrow> elf_header \<Rightarrow> ('z fs_state_scheme, elf_status \<times> line_tables option) km" where
  "load_debug_line F junk f h =
     kbind (elf_fpread F f (junk ''shstr_hdr'') (of_nat sect_header_size)
        (eh_shoff h + ucast (eh_shstrndx h) * of_nat sect_header_size)) (\<lambda>(r, b).
     let sh = sect_header_of b in
     if r \<noteq> of_nat sect_header_size then kreturn (EL_ERR, None)
     else if of_nat MAX_SHSTRTAB_SIZE < sh_size sh then kreturn (EL_ERR, None)
     else kbind (elf_fpread F f (junk ''shstrtab_buf'') (sh_size sh) (sh_offset sh)) (\<lambda>(r, names).
       if r \<noteq> sh_size sh then kreturn (EL_ERR, None)
       else kbind (find_debug_line F junk f (eh_shoff h) names (unat (eh_shnum h)) 0) (\<lambda>found.
         case found of
           None \<Rightarrow> kreturn (EL_ERR, None)
         | Some dh \<Rightarrow>
             let debug_hdr = (case dh of Some sh \<Rightarrow> sh | None \<Rightarrow> sect_header_of (junk ''debug_hdr'')) in
             if of_nat MAX_DEBUG_LINE_SIZE < sh_size debug_hdr then kreturn (EL_ERR, None)
             else kbind (elf_fpread F f (junk ''debug_line_buf'') (sh_size debug_hdr) (sh_offset debug_hdr)) (\<lambda>(r, m).
               if r \<noteq> sh_size debug_hdr then kreturn (EL_ERR, None)
               else kbind (make_addr_line m (unat (sh_size debug_hdr))) (\<lambda>t. kreturn (EL_OK, Some t))))))"

section \<open>Programs\<close>

definition IS_ERR_VALUE :: "u64 \<Rightarrow> bool" where
  "IS_ERR_VALUE x \<longleftrightarrow> - 4096 \<le> x"

text \<open>The part that \<^verbatim>\<open>load_bincode_from_host_elf\<close> and \<^verbatim>\<open>do_exec\<close> share, from opening the file to closing it.\<close>

definition load_program :: "host \<Rightarrow> elf_junk \<Rightarrow> nat \<Rightarrow> nat \<Rightarrow> u8 list \<Rightarrow> ('z fs_state_scheme, unit) km" where
  "load_program F junk tp p filename =
     kbind (vfs_open F tp filename O_RDONLY) (\<lambda>f.
     if IS_ERR_VALUE f then kraise (Kill ''Fail on openning the input application program.'' (-1))
     else kbind (elf_init F junk (File_Page f)) (\<lambda>(st, h).
       if st \<noteq> EL_OK then kraise (Kill ''fail to init elfloader.'' (-1))
       else kbind (elf_load F junk (File_Page f) p h) (\<lambda>st.
         if st \<noteq> EL_OK then kraise (Kill ''Fail on loading elf.'' (-1))
         else kbind (load_debug_line F junk (File_Page f) h) (\<lambda>(st, _).
           if st \<noteq> EL_OK then kraise (Kill ''Fail on loading .debug_line.'' (-1))
           else kbind (kget (\<lambda>s. trapframe (procs s p))) (\<lambda>tf.
             kthen (kput (set_dword tf TF_epc (eh_entry h)))
             (kbind (vfs_close F (File_Page f)) (\<lambda>_. kreturn ())))))))"

definition load_bincode_from_host_elf :: "host \<Rightarrow> elf_junk \<Rightarrow> nat \<Rightarrow> nat \<Rightarrow> u8 list \<Rightarrow> ('z fs_state_scheme, unit) km" where
  "load_bincode_from_host_elf F junk tp p filename = load_program F junk tp p filename"

definition MAX_ARGV_LEN :: nat where "MAX_ARGV_LEN = 256"

text \<open>The argument string copied before the old address space goes: at most 256 bytes, the last one 0.\<close>

definition copy_argv :: "elf_junk \<Rightarrow> u64 \<Rightarrow> 'z pmm_state_scheme \<Rightarrow> nat \<Rightarrow> u8" where
  "copy_argv junk argv s =
     (if argv = 0 then (junk ''argv_buf'')(0 := 0)
      else let byte = (\<lambda>i. load_byte s (argv + of_nat i)); len = cstr_len (MAX_ARGV_LEN - 1) byte + 1 in
        (splice 0 len byte (junk ''argv_buf''))(MAX_ARGV_LEN - 1 := 0))"

text \<open>The address of one more heap page; the counters of the heap grow before the page is mapped.\<close>

definition grow_heap :: "nat \<Rightarrow> ('z kernel_state_scheme, u64) km" where
  "grow_heap p =
     kbind (kget (\<lambda>s. procs s p)) (\<lambda>pr.
     let va = heap_top pr in
     kthen (upd_proc p (\<lambda>q. q\<lparr>heap_top := va + PGSIZE\<rparr>))
     (kbind (get_region (mapped_info pr) HEAP_SEGMENT) (\<lambda>r.
     kthen (set_region (mapped_info pr) HEAP_SEGMENT (r\<lparr>reg_npages := reg_npages r + 1\<rparr>))
       (kreturn va))))"

definition do_exec :: "host \<Rightarrow> elf_junk \<Rightarrow> nat \<Rightarrow> nat \<Rightarrow> u64 \<Rightarrow> u64 \<Rightarrow> ('z fs_state_scheme, int) km" where
  "do_exec F junk tp p path argv =
     kbind (kget (copy_argv junk argv)) (\<lambda>argv_buf.
     kthen (clr_proc p)
     (kbind (path_at path) (\<lambda>filename.
     kthen (load_program F junk tp p filename)
     (kbind alloc_page (\<lambda>pa.
     kbind (grow_heap p) (\<lambda>va.
     kbind (kget (\<lambda>s. procs s p)) (\<lambda>pr.
     kthen (user_vm_map (pagetable pr) va PGSIZE pa user_rw)
     (kthen (kput (set_dword (trapframe pr) (TF_a 0) 1))
     (kthen (kput (set_dword (trapframe pr) (TF_a 1) va))
     (kthen (kput (set_dword (trapframe pr) TF_tp (of_nat tp)))
     (kbind alloc_page (\<lambda>pa_str.
     kbind (grow_heap p) (\<lambda>va_str.
     kthen (check_ptr pa_str)
     (kthen (kput (set_bytes pa_str (splice 0 MAX_ARGV_LEN argv_buf (\<lambda>_. 0))))
     (kthen (user_vm_map (pagetable pr) va_str PGSIZE pa_str user_rw)
     (kthen (check_ptr pa)
     (kthen (kput (set_dword pa 0 va_str)) (kreturn 0))))))))))))))))))"

section \<open>Function names\<close>

record Elf64_Sym =
  st_name :: u32
  st_info :: u8
  st_value :: u64
  st_size :: u64

definition sym_size :: nat where "sym_size = 24"

definition sym_of :: "(nat \<Rightarrow> u8) \<Rightarrow> nat \<Rightarrow> Elf64_Sym" where
  "sym_of b i = (let k = i * sym_size in \<lparr>st_name = rd32w b k, st_info = b (k + 4),
     st_value = rd64w b (k + 8), st_size = rd64w b (k + 16)\<rparr>)"

definition STT_FUNC :: u8 where "STT_FUNC = 2"
definition MAX_SECTIONS :: nat where "MAX_SECTIONS = 256"
definition MAX_STRTAB_SIZE :: nat where "MAX_STRTAB_SIZE = 65536"
definition MAX_SYMTAB_SIZE :: nat where "MAX_SYMTAB_SIZE = 1048576"

text \<open>Whether the code of a function symbol contains the address.\<close>

definition sym_covers :: "u64 \<Rightarrow> Elf64_Sym \<Rightarrow> bool" where
  "sym_covers a y \<longleftrightarrow> st_info y AND 0xf = STT_FUNC \<and> st_value y \<noteq> 0 \<and> st_value y \<le> a \<and>
     (if st_size y = 0 then st_value y = a else a < st_value y + st_size y)"

text \<open>The loop over the symbols: the best so far is replaced by one that starts later.\<close>

primrec best_match :: "u64 \<Rightarrow> Elf64_Sym list \<Rightarrow> Elf64_Sym option \<Rightarrow> Elf64_Sym option" where
  "best_match a [] best = best"
| "best_match a (y # ys) best = best_match a ys
     (if sym_covers a y \<and> (case best of None \<Rightarrow> True | Some z \<Rightarrow> st_value z < st_value y) then Some y else best)"

text \<open>The last section of each of the two names, among the first \<open>n\<close> of the table \<open>shs\<close>.\<close>

primrec find_tables ::
  "(nat \<Rightarrow> u8) \<Rightarrow> (nat \<Rightarrow> elf_sect_header) \<Rightarrow> nat list \<Rightarrow> elf_sect_header option \<times> elf_sect_header option \<Rightarrow>
   ('s, elf_sect_header option \<times> elf_sect_header option) km" where
  "find_tables names shs [] r = kreturn r"
| "find_tables names shs (i # is) r =
     kbind (buf_string MAX_STRTAB_SIZE names (unat (sh_name (shs i)))) (\<lambda>nm.
       find_tables names shs is
         (if nm = symtab_name then (Some (shs i), snd r)
          else if nm = strtab_name then (fst r, Some (shs i)) else r))"

text \<open>A read that must deliver all its bytes.\<close>

definition read_at :: "host \<Rightarrow> file_ref \<Rightarrow> (nat \<Rightarrow> u8) \<Rightarrow> u64 \<Rightarrow> u64 \<Rightarrow> ('z fs_state_scheme, (nat \<Rightarrow> u8) option) km" where
  "read_at F f buf nb offset =
     kbind (vfs_lseek F f (sint offset) LSEEK_SET) (\<lambda>_.
     kbind (vfs_read F f buf (sint nb)) (\<lambda>(r, buf). kreturn (if r = sint nb then Some buf else None)))"

text \<open>The name of the symbol, cut to the 255 characters of the result buffer.\<close>

definition symbol_name :: "(nat \<Rightarrow> u8) \<Rightarrow> Elf64_Sym \<Rightarrow> ('s, u8 list) km" where
  "symbol_name strtab y = kbind (buf_string MAX_STRTAB_SIZE strtab (unat (st_name y))) (\<lambda>nm. kreturn (take 255 nm))"

definition lookup_symbol ::
  "host \<Rightarrow> elf_junk \<Rightarrow> file_ref \<Rightarrow> u64 \<Rightarrow> ('z fs_state_scheme, u8 list option) km" where
  "lookup_symbol F junk f return_address =
     kbind (read_at F f (junk ''ehdr'') (of_nat elf_header_size) 0) (\<lambda>r. case r of None \<Rightarrow> kreturn None | Some b \<Rightarrow>
     let h = elf_header_of b in
     if eh_magic h \<noteq> ELF_MAGIC \<or> MAX_SECTIONS < unat (eh_shnum h) then kreturn None
     else kbind (read_at F f (junk ''shdr_buf'') (ucast (eh_shnum h) * of_nat sect_header_size) (eh_shoff h)) (\<lambda>r.
       case r of None \<Rightarrow> kreturn None | Some shb \<Rightarrow>
       let shs = (\<lambda>i. sect_header_of (\<lambda>k. shb (i * sect_header_size + k))) in
       if MAX_SECTIONS \<le> unat (eh_shstrndx h) then kraise (Fault ''shdr_buf'')
       else let sn = shs (unat (eh_shstrndx h)) in
       if of_nat MAX_STRTAB_SIZE < sh_size sn then kreturn None
       else kbind (read_at F f (junk ''shstrtab_buf'') (sh_size sn) (sh_offset sn)) (\<lambda>r.
         case r of None \<Rightarrow> kreturn None | Some names \<Rightarrow>
         kbind (find_tables names shs [0..<unat (eh_shnum h)] (None, None)) (\<lambda>tabs.
         case tabs of
           (Some symtab, Some strtab) \<Rightarrow>
             if of_nat MAX_STRTAB_SIZE < sh_size strtab \<or> of_nat MAX_SYMTAB_SIZE < sh_size symtab then kreturn None
             else kbind (read_at F f (junk ''strtab_buf'') (sh_size strtab) (sh_offset strtab)) (\<lambda>r.
               case r of None \<Rightarrow> kreturn None | Some strs \<Rightarrow>
               kbind (read_at F f (junk ''symtab_buf'') (sh_size symtab) (sh_offset symtab)) (\<lambda>r.
               case r of None \<Rightarrow> kreturn None | Some syb \<Rightarrow>
               (case best_match return_address (map (sym_of syb) [0..<unat (sh_size symtab) div sym_size]) None of
                  None \<Rightarrow> kreturn None
                | Some y \<Rightarrow> kbind (symbol_name strs y) (\<lambda>nm. kreturn (Some nm)))))
         | _ \<Rightarrow> kreturn None))))"

definition find_func_name :: "host \<Rightarrow> elf_junk \<Rightarrow> nat \<Rightarrow> u8 list \<Rightarrow> u64 \<Rightarrow> ('z fs_state_scheme, u8 list option) km" where
  "find_func_name F junk tp path return_address =
     kbind (vfs_open F tp path O_RDONLY) (\<lambda>f.
     if f = 0 then kreturn None
     else kbind (lookup_symbol F junk (File_Page f) return_address) (\<lambda>r.
       kbind (vfs_close F (File_Page f)) (\<lambda>_. kreturn r)))"

section \<open>The function that contains an address\<close>

text \<open>
  The reference: the first symbol that covers the address and starts no earlier than any other symbol that covers it.
\<close>

definition innermost :: "u64 \<Rightarrow> Elf64_Sym list \<Rightarrow> Elf64_Sym option" where
  "innermost a ys = find (\<lambda>y. sym_covers a y \<and> (\<forall>z\<in>set ys. sym_covers a z \<longrightarrow> st_value z \<le> st_value y)) ys"

text \<open>The loop from a best symbol that covers the address is the loop over that symbol and the rest.\<close>

lemma best_match_Some: "sym_covers a z \<Longrightarrow> best_match a ys (Some z) = best_match a (z # ys) None"
  by simp

lemma innermost_drop:
  assumes "\<not> sym_covers a y \<or> (\<exists>z\<in>set ys. sym_covers a z \<and> st_value y < st_value z)"
  shows "innermost a (y # ys) = innermost a ys"
proof -
  have "(\<forall>z\<in>set (y # ys). sym_covers a z \<longrightarrow> st_value z \<le> st_value x) \<longleftrightarrow> (\<forall>z\<in>set ys. sym_covers a z \<longrightarrow> st_value z \<le> st_value x)"
    for x :: Elf64_Sym using assms by auto
  moreover have "\<not> (sym_covers a y \<and> (\<forall>z\<in>set ys. sym_covers a z \<longrightarrow> st_value z \<le> st_value y))" using assms by (auto simp: not_le)
  ultimately show ?thesis by (auto simp: innermost_def)
qed

lemma innermost_drop_second:
  assumes "sym_covers a z" "\<not> (sym_covers a y \<and> st_value z < st_value y)"
  shows "innermost a (z # y # ys) = innermost a (z # ys)"
proof -
  have "(\<forall>w\<in>set (z # y # ys). sym_covers a w \<longrightarrow> st_value w \<le> st_value x) \<longleftrightarrow> (\<forall>w\<in>set (z # ys). sym_covers a w \<longrightarrow> st_value w \<le> st_value x)"
    for x :: Elf64_Sym using assms by auto
  moreover have "\<not> (sym_covers a y \<and> (\<forall>w\<in>set (z # ys). sym_covers a w \<longrightarrow> st_value w \<le> st_value y) \<and>
      \<not> (\<forall>w\<in>set (z # ys). sym_covers a w \<longrightarrow> st_value w \<le> st_value z))"
    using assms by auto
  ultimately show ?thesis using assms(1) by (auto simp: innermost_def)
qed

lemma best_match_innermost: "sym_covers a z \<Longrightarrow> best_match a ys (Some z) = innermost a (z # ys)"
proof (induction ys arbitrary: z)
  case Nil
  then show ?case by (simp add: innermost_def)
next
  case (Cons y ys)
  show ?case
  proof (cases "sym_covers a y \<and> st_value z < st_value y")
    case True
    then show ?thesis using Cons.IH [of y] innermost_drop [of a z "y # ys"] by auto
  next
    case False
    then show ?thesis using Cons.IH [OF Cons.prems] innermost_drop_second [OF Cons.prems False] by (simp only: best_match.simps option.case) simp
  qed
qed

text \<open>
  The search of a function name picks the innermost function: the loop over the symbol table that keeps a best match finds exactly
  the first symbol that covers the address and starts no earlier than any other covering symbol, and none when no symbol
  covers the address.
\<close>

theorem best_match_correct: "best_match a ys None = innermost a ys"
proof (induction ys)
  case Nil
  show ?case by (simp add: innermost_def)
next
  case (Cons y ys)
  then show ?case using best_match_innermost [of a y ys] innermost_drop [of a y ys] by auto
qed

end
