(* ===== verification/Syscall.thy ===== *)
theory Syscall
  imports Malloc Elf
begin

text \<open>
  The system calls, \<^verbatim>\<open>kernel/syscall.c\<close>: one definition per call, which translates the user addresses of its
  arguments and calls the component, and the dispatcher \<^verbatim>\<open>do_syscall\<close>.

  The parameters outside the kernel state are collected in \<open>sys_env\<close>: the host, and what uninitialised
  buffers hold.  Arguments and results are 64-bit registers; an \<^verbatim>\<open>int\<close> argument is the low half of its
  register, and a result is sign-extended.  Printed text is not part of the model; a null format string or
  a null buffer is \<open>Fault\<close>.
\<close>

record sys_env =
  host_of :: host
  elf_junk_of :: elf_junk
  filter_junk :: "nat \<Rightarrow> i32"
  buffer_junk :: "nat \<Rightarrow> u8"

text \<open>An environment for the examples: a host that refuses every call, and buffers of zeros.\<close>

definition demo_env :: sys_env where
  "demo_env = \<lparr>host_of = demo_host, elf_junk_of = (\<lambda>_ _. 0), filter_junk = (\<lambda>_. 0), buffer_junk = (\<lambda>_. 0)\<rparr>"

definition as_int :: "u64 \<Rightarrow> int" where
  "as_int r = sint (ucast r :: i32)"

definition kword :: "('s, int) km \<Rightarrow> ('s, u64) km" where
  "kword m = kbind m (\<lambda>r. kreturn (word_of_int r))"

text \<open>\<^verbatim>\<open>user_va_to_pa(current[tp]->pagetable, va)\<close>\<close>

definition user_pa :: "nat \<Rightarrow> u64 \<Rightarrow> ('z kernel_state_scheme, u64) km" where
  "user_pa tp va = kbind (cur tp) (\<lambda>p. kbind (kget (\<lambda>s. pagetable (procs s p))) (\<lambda>pt. user_va_to_pa pt va))"

definition assert_current :: "nat \<Rightarrow> ('z kernel_state_scheme, unit) km" where
  "assert_current tp = kbind (kget (\<lambda>s. current s tp)) (\<lambda>c.
     if c = None then kraise (Panic ''current[tp]'') else kreturn ())"

section \<open>Console\<close>

definition sys_user_print :: "nat \<Rightarrow> u64 \<Rightarrow> ('z kernel_state_scheme, u64) km" where
  "sys_user_print tp buf = kthen (assert_current tp) (kbind (user_pa tp buf) (\<lambda>pa. kthen (check_ptr pa) (kreturn 0)))"

definition sys_user_scanf :: "host \<Rightarrow> nat \<Rightarrow> u64 \<Rightarrow> ('z fs_state_scheme, u64) km" where
  "sys_user_scanf F tp buf =
     kthen (assert_current tp)
     (kbind (user_pa tp buf) (\<lambda>pa.
     kbind (kget (\<lambda>s i. load_byte s (pa + of_nat i))) (\<lambda>old.
     kbind (kget (\<lambda>s. file_ptr s 2)) (\<lambda>stderr.
     kbind (spike_file_read F stderr old 256) (\<lambda>(_, b).
     kthen (check_ptr pa) (kthen (kput (store_bytes pa (map b [0..<256]))) (kreturn 0)))))))"

definition sys_user_printpa :: "nat \<Rightarrow> u64 \<Rightarrow> ('z kernel_state_scheme, u64) km" where
  "sys_user_printpa tp va = kbind (user_pa tp va) (\<lambda>_. kreturn 0)"

section \<open>Memory and processes\<close>

definition sys_user_better_allocate_page :: "nat \<Rightarrow> u64 \<Rightarrow> ('z kernel_state_scheme, u64) km" where
  "sys_user_better_allocate_page tp n = user_better_malloc tp n"

definition sys_user_better_free_page :: "nat \<Rightarrow> u64 \<Rightarrow> ('z kernel_state_scheme, u64) km" where
  "sys_user_better_free_page tp va = kthen (user_better_free tp va) (kreturn 0)"

definition sys_user_fork :: "sys_env \<Rightarrow> nat \<Rightarrow> ('z fs_state_scheme, u64) km" where
  "sys_user_fork E tp = kbind (cur tp) (\<lambda>p. kword (do_fork tp (filter_junk E) p))"

definition sys_user_exec :: "sys_env \<Rightarrow> nat \<Rightarrow> u64 \<Rightarrow> u64 \<Rightarrow> ('z fs_state_scheme, u64) km" where
  "sys_user_exec E tp pathva argv =
     kbind (user_pa tp pathva) (\<lambda>pathpa.
     kbind (user_pa tp argv) (\<lambda>argvpa.
     kbind (cur tp) (\<lambda>p. kword (do_exec (host_of E) (elf_junk_of E) tp p pathpa argvpa))))"

definition sys_user_semNew :: "u64 \<Rightarrow> ('z kernel_state_scheme, u64) km" where
  "sys_user_semNew v = kword (do_semNew v)"

definition sys_user_semP :: "nat \<Rightarrow> u64 \<Rightarrow> ('z kernel_state_scheme, u64) km" where
  "sys_user_semP tp sid = kthen (do_semP tp sid) (kreturn 0)"

definition sys_user_semV :: "u64 \<Rightarrow> ('z kernel_state_scheme, u64) km" where
  "sys_user_semV sid = kthen (do_semV sid) (kreturn 0)"

section \<open>Files\<close>

text \<open>A path argument: the string at the physical address.\<close>

definition user_path :: "nat \<Rightarrow> u64 \<Rightarrow> ('z fs_state_scheme, u8 list) km" where
  "user_path tp va = kbind (user_pa tp va) path_at"

definition sys_user_open :: "host \<Rightarrow> nat \<Rightarrow> u64 \<Rightarrow> u64 \<Rightarrow> ('z fs_state_scheme, u64) km" where
  "sys_user_open F tp pathva flags = kbind (user_path tp pathva) (\<lambda>path. kword (do_open F tp path (ucast flags)))"

text \<open>
  The loop of \<^verbatim>\<open>sys_user_read\<close> and \<^verbatim>\<open>sys_user_write\<close> over the pages of the buffer, with the operation on
  one piece as an argument.  The loop state is \<open>(i, ret)\<close>, where \<open>ret\<close> is an early return; \<^verbatim>\<open>i\<close> is an
  \<^verbatim>\<open>int\<close> that is compared and added as an unsigned 64-bit value.
\<close>

definition user_buffer_loop ::
  "nat \<Rightarrow> (u64 \<Rightarrow> u64 \<Rightarrow> ('z fs_state_scheme, int) km) \<Rightarrow> u64 \<Rightarrow> u64 \<Rightarrow> ('z fs_state_scheme, u64) km" where
  "user_buffer_loop tp piece bufva count =
     kbind (cur tp) (\<lambda>p.
     kbind (kget (\<lambda>s. pagetable (procs s p))) (\<lambda>pt.
     kbind (kwhile page_loop_bound
       (\<lambda>(i :: i32, ret). ret = None \<and> scast i < count)
       (\<lambda>(i, ret).
          let addr = bufva + scast i; off = addr - ROUNDDOWN addr PGSIZE in
          kbind (lookup_pa pt addr) (\<lambda>pa.
          if pa = 0 then kraise (Fault ''buffer is not mapped'')
          else let len = (if count - scast i < PGSIZE - off then count - scast i else PGSIZE - off) in
            kbind (piece (pa + off) len) (\<lambda>r.
            let i = ucast (scast i + word_of_int r :: u64) in
            kreturn (i, if word_of_int r < len then Some i else None))))
       (0, None)) (\<lambda>(i, ret). kreturn (case ret of None \<Rightarrow> count | Some i \<Rightarrow> scast i))))"

definition sys_user_read :: "sys_env \<Rightarrow> nat \<Rightarrow> u64 \<Rightarrow> u64 \<Rightarrow> u64 \<Rightarrow> ('z fs_state_scheme, u64) km" where
  "sys_user_read E tp fd bufva count =
     user_buffer_loop tp (do_read (host_of E) tp (buffer_junk E) (as_int fd)) bufva count"

definition sys_user_write :: "sys_env \<Rightarrow> nat \<Rightarrow> u64 \<Rightarrow> u64 \<Rightarrow> u64 \<Rightarrow> ('z fs_state_scheme, u64) km" where
  "sys_user_write E tp fd bufva count =
     user_buffer_loop tp (do_write (host_of E) tp (as_int fd)) bufva count"

definition sys_user_lseek :: "host \<Rightarrow> nat \<Rightarrow> u64 \<Rightarrow> u64 \<Rightarrow> u64 \<Rightarrow> ('z fs_state_scheme, u64) km" where
  "sys_user_lseek F tp fd offset whence = kword (do_lseek F tp (as_int fd) (as_int offset) (as_int whence))"

text \<open>The bytes of \<^verbatim>\<open>struct istat\<close>: five little-endian \<^verbatim>\<open>int\<close>s.\<close>

definition istat_bytes :: "istat \<Rightarrow> u8 list" where
  "istat_bytes i = map (wr32 0 (st_inum i) (wr32 4 (istat.st_size i) (wr32 8 (st_type i) (wr32 12 (st_nlinks i)
     (wr32 16 (st_blocks i) (\<lambda>_. 0)))))) [0..<20]"

definition sys_user_stat :: "nat \<Rightarrow> u64 \<Rightarrow> u64 \<Rightarrow> ('z fs_state_scheme, u64) km" where
  "sys_user_stat tp fd va =
     kbind (user_pa tp va) (\<lambda>pa.
     kbind (do_stat tp (as_int fd)) (\<lambda>(r, st).
     kthen (check_ptr pa) (kthen (kput (store_bytes pa (istat_bytes st))) (kreturn (word_of_int r)))))"

definition sys_user_disk_stat :: "nat \<Rightarrow> u64 \<Rightarrow> u64 \<Rightarrow> ('z fs_state_scheme, u64) km" where
  "sys_user_disk_stat tp fd va =
     kbind (user_pa tp va) (\<lambda>pa.
     kbind (do_disk_stat tp (as_int fd)) (\<lambda>(r, st).
     case st of
       None \<Rightarrow> kreturn (word_of_int r)
     | Some st \<Rightarrow> kthen (check_ptr pa) (kthen (kput (store_bytes pa (istat_bytes st))) (kreturn (word_of_int r)))))"

definition sys_user_close :: "host \<Rightarrow> nat \<Rightarrow> u64 \<Rightarrow> ('z fs_state_scheme, u64) km" where
  "sys_user_close F tp fd = kword (do_close F tp (as_int fd))"

definition sys_user_opendir :: "host \<Rightarrow> nat \<Rightarrow> u64 \<Rightarrow> ('z fs_state_scheme, u64) km" where
  "sys_user_opendir F tp pathva = kbind (user_path tp pathva) (\<lambda>path. kword (do_opendir F tp path))"

text \<open>\<^verbatim>\<open>struct dir\<close> is a name of 32 bytes, of which 29 are written, and the inode number.\<close>

definition sys_user_readdir :: "nat \<Rightarrow> u64 \<Rightarrow> u64 \<Rightarrow> ('z fs_state_scheme, u64) km" where
  "sys_user_readdir tp fd vdir =
     kbind (user_pa tp vdir) (\<lambda>pdir.
     kbind (do_readdir tp (as_int fd)) (\<lambda>(r, d).
     case d of
       None \<Rightarrow> kreturn (word_of_int r)
     | Some d \<Rightarrow> kthen (check_ptr pdir)
         (kthen (kput (store_bytes pdir (dir_name d)))
         (kthen (kput (store_bytes (pdir + 32) (map (wr32 0 (dir_inum d) (\<lambda>_. 0)) [0..<4])))
           (kreturn (word_of_int r))))))"

definition sys_user_mkdir :: "host \<Rightarrow> nat \<Rightarrow> u64 \<Rightarrow> ('z fs_state_scheme, u64) km" where
  "sys_user_mkdir F tp pathva = kbind (user_path tp pathva) (\<lambda>path. kword (do_mkdir F tp path))"

definition sys_user_closedir :: "nat \<Rightarrow> u64 \<Rightarrow> ('z fs_state_scheme, u64) km" where
  "sys_user_closedir tp fd = kword (do_closedir tp (as_int fd))"

definition sys_user_link :: "host \<Rightarrow> nat \<Rightarrow> u64 \<Rightarrow> u64 \<Rightarrow> ('z fs_state_scheme, u64) km" where
  "sys_user_link F tp vfn1 vfn2 =
     kbind (user_pa tp vfn1) (\<lambda>pfn1. kbind (user_pa tp vfn2) (\<lambda>pfn2.
     kbind (path_at pfn1) (\<lambda>p1. kbind (path_at pfn2) (\<lambda>p2. kword (do_link F tp p1 p2)))))"

definition sys_user_unlink :: "host \<Rightarrow> nat \<Rightarrow> u64 \<Rightarrow> ('z fs_state_scheme, u64) km" where
  "sys_user_unlink F tp vfn = kbind (user_path tp vfn) (\<lambda>path. kword (do_unlink F tp path))"

definition sys_user_read_cwd :: "nat \<Rightarrow> u64 \<Rightarrow> ('z fs_state_scheme, u64) km" where
  "sys_user_read_cwd tp pathva =
     kbind (user_pa tp pathva) (\<lambda>pathpa. kbind (current_cwd tp) (\<lambda>d. kword (do_rcwd d pathpa)))"

definition sys_user_change_cwd :: "host \<Rightarrow> nat \<Rightarrow> u64 \<Rightarrow> ('z fs_state_scheme, u64) km" where
  "sys_user_change_cwd F tp pathva =
     kbind (user_pa tp pathva) (\<lambda>pathpa. kbind (current_cwd tp) (\<lambda>d. kword (do_ccwd F tp d pathpa)))"

section \<open>Backtrace\<close>

definition load64 :: "'z pmm_state_scheme \<Rightarrow> u64 \<Rightarrow> u64" where
  "load64 s a = ld64 (load_byte s) a"

text \<open>The walk over at most \<open>n\<close> stack frames from the frame pointer \<open>fp\<close> on.\<close>

primrec walk_frames :: "sys_env \<Rightarrow> nat \<Rightarrow> u64 \<Rightarrow> nat \<Rightarrow> u64 \<Rightarrow> ('z fs_state_scheme, unit) km" where
  "walk_frames E tp pt 0 fp = kreturn ()"
| "walk_frames E tp pt (Suc n) fp =
     (if fp = 0 then kreturn ()
      else kbind (user_va_to_pa pt (fp - 8)) (\<lambda>pa.
        if pa = 0 then kreturn ()
        else kbind (kget (\<lambda>s. load64 s pa)) (\<lambda>return_address.
          kbind (find_func_name (host_of E) (elf_junk_of E) tp backtrace_app return_address) (\<lambda>name.
          case name of
            None \<Rightarrow> kraise (Fault ''name is NULL'')
          | Some nm \<Rightarrow>
              if nm = main_name then kreturn ()
              else kbind (user_va_to_pa pt (fp - 16)) (\<lambda>pa.
                if pa = 0 then kreturn ()
                else kbind (kget (\<lambda>s. load64 s pa)) (\<lambda>fp. walk_frames E tp pt n fp))))))"

definition sys_user_print_backtrace :: "sys_env \<Rightarrow> nat \<Rightarrow> u64 \<Rightarrow> ('z fs_state_scheme, u64) km" where
  "sys_user_print_backtrace E tp depth =
     kbind (cur tp) (\<lambda>p.
     kbind (kget (\<lambda>s. procs s p)) (\<lambda>pr.
     kbind (kget (\<lambda>s. pmem s (trapframe pr) TF_s0)) (\<lambda>user_fp.
     if user_fp = 0 then kreturn 0
     else kbind (user_va_to_pa (pagetable pr) (user_fp - 8)) (\<lambda>pa.
       if pa = 0 then kreturn 0
       else kbind (kget (\<lambda>s. load64 s pa)) (\<lambda>fp.
         kthen (walk_frames E tp (pagetable pr) (nat (as_int depth)) fp) (kreturn 0))))))"

section \<open>Dispatch\<close>

definition SYS_user_base :: u64 where "SYS_user_base = 64"

text \<open>\<open>a\<close> gives the registers \<^verbatim>\<open>a0\<close> to \<^verbatim>\<open>a7\<close>; \<^verbatim>\<open>a0\<close> is the number of the call.\<close>

definition do_syscall :: "sys_env \<Rightarrow> nat \<Rightarrow> (nat \<Rightarrow> u64) \<Rightarrow> ('z fs_state_scheme, u64) km" where
  "do_syscall E tp a = (let F = host_of E; n = a 0 - SYS_user_base in
     if n = 0 then sys_user_print tp (a 1)
     else if n = 1 then sys_user_exit tp (a 1)
     else if n = 2 then sys_user_allocate_page tp
     else if n = 3 then sys_user_free_page tp (a 1)
     else if n = 4 then sys_user_fork E tp
     else if n = 5 then sys_user_yield tp
     else if n = 17 then sys_user_open F tp (a 1) (a 2)
     else if n = 18 then sys_user_read E tp (a 1) (a 2) (a 3)
     else if n = 19 then sys_user_write E tp (a 1) (a 2) (a 3)
     else if n = 20 then sys_user_lseek F tp (a 1) (a 2) (a 3)
     else if n = 21 then sys_user_stat tp (a 1) (a 2)
     else if n = 22 then sys_user_disk_stat tp (a 1) (a 2)
     else if n = 23 then sys_user_close F tp (a 1)
     else if n = 24 then sys_user_opendir F tp (a 1)
     else if n = 25 then sys_user_readdir tp (a 1) (a 2)
     else if n = 26 then sys_user_mkdir F tp (a 1)
     else if n = 27 then sys_user_closedir tp (a 1)
     else if n = 28 then sys_user_link F tp (a 1) (a 2)
     else if n = 29 then sys_user_unlink F tp (a 1)
     else if n = 30 then sys_user_exec E tp (a 1) (a 2)
     else if n = 31 then kword (sys_user_wait tp (as_int (a 1)))
     else if n = 32 then sys_user_semNew (a 1)
     else if n = 33 then sys_user_semP tp (a 1)
     else if n = 34 then sys_user_semV (a 1)
     else if n = 35 then sys_user_printpa tp (a 1)
     else if n = 36 then sys_user_better_allocate_page tp (a 1)
     else if n = 37 then sys_user_better_free_page tp (a 1)
     else if n = 38 then sys_user_print_backtrace E tp (a 1)
     else if n = 39 then sys_user_scanf F tp (a 1)
     else if n = 40 then sys_user_read_cwd tp (a 1)
     else if n = 41 then sys_user_change_cwd F tp (a 1)
     else kraise (Panic ''Unknown syscall''))"

end
