(* ===== verification/Strap.thy ===== *)
theory Strap
  imports Syscall
begin

text \<open>
  Traps from user mode, \<^verbatim>\<open>kernel/strap.c\<close>: system calls, the timer, and page faults, among them the store to
  a page that is shared copy-on-write after a fork.

  The handler ends in \<^verbatim>\<open>switch_to\<close>, so a trap that is handled stops with \<open>Run\<close>.  A call of
  \<^verbatim>\<open>kill_current_process\<close> is \<open>Kill\<close>, which \<open>run_on\<close> turns into the scheduling of the next process.
  \<^verbatim>\<open>flush_tlb\<close> has no effect on the model, in which a page table is always read from memory.
\<close>

definition CAUSE_ILLEGAL_INSTRUCTION :: u64 where "CAUSE_ILLEGAL_INSTRUCTION = 0x2"
definition CAUSE_USER_ECALL :: u64 where "CAUSE_USER_ECALL = 0x8"
definition CAUSE_LOAD_PAGE_FAULT :: u64 where "CAUSE_LOAD_PAGE_FAULT = 0xd"
definition CAUSE_STORE_PAGE_FAULT :: u64 where "CAUSE_STORE_PAGE_FAULT = 0xf"
definition CAUSE_MTIMER_S_TRAP :: u64 where "CAUSE_MTIMER_S_TRAP = 0x8000000000000001"
definition SIP_SSIP :: u64 where "SIP_SSIP = push_bit 1 1"

lemmas cause_defs = CAUSE_ILLEGAL_INSTRUCTION_def CAUSE_USER_ECALL_def CAUSE_LOAD_PAGE_FAULT_def
  CAUSE_STORE_PAGE_FAULT_def CAUSE_MTIMER_S_TRAP_def

definition handle_syscall :: "sys_env \<Rightarrow> nat \<Rightarrow> u64 \<Rightarrow> ('z fs_state_scheme, unit) km" where
  "handle_syscall E tp tf =
     kthen (kput (\<lambda>s. set_dword tf TF_epc (pmem s tf TF_epc + 4) s))
     (kbind (kget (\<lambda>s i. pmem s tf (TF_a i))) (\<lambda>a.
     kbind (do_syscall E tp a) (\<lambda>r. kput (set_dword tf (TF_a 0) r))))"

definition handle_mtimer_trap :: "nat \<Rightarrow> ('z kernel_state_scheme, unit) km" where
  "handle_mtimer_trap tp =
     kthen (kput (\<lambda>s. s\<lparr>g_ticks := (g_ticks s)(tp := g_ticks s tp + 1)\<rparr>))
       (upd_csr tp (\<lambda>c. c\<lparr>sip := sip c AND NOT SIP_SSIP\<rparr>))"

text \<open>A fresh page mapped at the page of the faulting address.\<close>

definition map_fresh :: "nat \<Rightarrow> u64 \<Rightarrow> ('z kernel_state_scheme, unit) km" where
  "map_fresh tp va_page =
     kbind alloc_page (\<lambda>pa.
     kbind (cur tp) (\<lambda>p.
     kbind (kget (\<lambda>s. pagetable (procs s p))) (\<lambda>pt. user_vm_map pt va_page PGSIZE pa user_rw)))"

definition handle_user_page_fault :: "nat \<Rightarrow> u64 \<Rightarrow> u64 \<Rightarrow> u64 \<Rightarrow> ('z kernel_state_scheme, unit) km" where
  "handle_user_page_fault tp mcause sepc_val stval_val =
     (if mcause = CAUSE_STORE_PAGE_FAULT
      then if USER_STACK_TOP < stval_val then kraise (Kill ''invalid memory access at address'' 1)
        else kbind (cur tp) (\<lambda>p.
          kbind (kget (\<lambda>s. procs s p)) (\<lambda>pr.
          if USER_STACK_TOP - stack_size pr < stval_val then map_fresh tp (stval_val AND NOT (PGSIZE - 1))
          else if heap_top pr \<le> stval_val then kraise (Kill ''this address is not available!'' 1)
          else kreturn ()))
      else kreturn ())"

text \<open>The case of a store page fault in the handler.\<close>

definition store_page_fault :: "nat \<Rightarrow> ('z kernel_state_scheme, unit) km" where
  "store_page_fault tp =
     kbind (kget (\<lambda>s. stval (csr s tp))) (\<lambda>fault_va.
     let va_page = fault_va AND NOT (PGSIZE - 1) in
     kbind (cur tp) (\<lambda>p.
     kbind (kget (\<lambda>s. procs s p)) (\<lambda>pr.
     kbind (user_vm_get_pte (pagetable pr) va_page) (\<lambda>pte.
     kbind (case pte of None \<Rightarrow> kreturn 0 | Some c \<Rightarrow> get_pte c) (\<lambda>e.
     if pte \<noteq> None \<and> e AND PTE_V \<noteq> 0 \<and> e AND PTE_COW \<noteq> 0
     then let pa = PTE2PA e; c = the pte in
       kbind (get_page_ref pa) (\<lambda>n.
       if 1 < n
       then kbind alloc_page (\<lambda>new_pa.
         kthen (copy_page new_pa pa)
         (kthen (set_pte c (PA2PTE new_pa OR prot_to_type (PROT_READ OR PROT_WRITE) True OR PTE_V))
           (dec_page_ref pa)))
       else set_pte c ((e OR PTE_W OR PTE_D) AND NOT PTE_COW))
     else if USER_STACK_TOP < fault_va then kraise (Kill ''invalid memory access at address'' (as_int fault_va))
     else if USER_STACK_TOP - stack_size pr < fault_va then map_fresh tp va_page
     else if heap_top pr \<le> fault_va then kraise (Kill ''this address is not available!'' 1)
     else map_fresh tp va_page)))))"

definition handle_trap :: "sys_env \<Rightarrow> nat \<Rightarrow> ('z fs_state_scheme, unit) km" where
  "handle_trap E tp =
     kbind (kget (\<lambda>s. csr s tp)) (\<lambda>c.
     if sstatus c AND SSTATUS_SPP \<noteq> 0 then kraise (Kill ''usertrap: not from user mode'' (-1))
     else kthen (assert_current tp)
       (kbind (cur tp) (\<lambda>p.
       kbind (kget (\<lambda>s. trapframe (procs s p))) (\<lambda>tf.
       kthen (kput (set_dword tf TF_epc (sepc c)))
       (let cause = scause c in
        kthen
          (if cause = CAUSE_USER_ECALL then handle_syscall E tp tf
           else if cause = CAUSE_MTIMER_S_TRAP then kthen (handle_mtimer_trap tp) (rrsched tp)
           else if cause = CAUSE_STORE_PAGE_FAULT then store_page_fault tp
           else if cause = CAUSE_LOAD_PAGE_FAULT then handle_user_page_fault tp cause (sepc c) (stval c)
           else if cause = CAUSE_ILLEGAL_INSTRUCTION then kraise (Kill '''' (-1))
           else kraise (Kill ''unexpected exception happened.'' (-1)))
          (kbind (cur tp) (switch_to tp)))))))"

definition smode_trap_handler :: "sys_env \<Rightarrow> nat \<Rightarrow> ('z fs_state_scheme, unit) km" where
  "smode_trap_handler E tp = run_on tp (handle_trap E tp)"

section \<open>Copy on write\<close>

text \<open>The run of the handler up to the decision about a copy-on-write page.\<close>

definition cow_resolve :: "u64 \<Rightarrow> pte_ptr \<Rightarrow> ('z pmm_state_scheme, unit) km" where
  "cow_resolve e c = kbind (get_page_ref (PTE2PA e)) (\<lambda>n.
     if 1 < n
     then kbind alloc_page (\<lambda>new_pa.
       kthen (copy_page new_pa (PTE2PA e))
       (kthen (set_pte c (PA2PTE new_pa OR prot_to_type (PROT_READ OR PROT_WRITE) True OR PTE_V))
         (dec_page_ref (PTE2PA e))))
     else set_pte c ((e OR PTE_W OR PTE_D) AND NOT PTE_COW))"

lemma store_page_fault_cow:
  assumes "current s tp = Some p" "stval (csr s tp) = va" "va < MAXVA"
    and "pt_entry (pmem s) (pagetable (procs s p)) va = e" "e AND PTE_V \<noteq> 0" "e AND PTE_COW \<noteq> 0"
    and c: "pte_cell (pmem s) (pagetable (procs s p)) (ROUNDDOWN va PGSIZE) = Some c"
  shows "store_page_fault tp s = cow_resolve e c s"
proof -
  have va: "ROUNDDOWN va PGSIZE < MAXVA" using ROUNDDOWN_le [of va] assms(3) by (rule order.strict_trans1)
  have "pmem s (fst c) (snd c) = e" using pte_cell_entry(1) [OF c] assms by (simp add: pt_entry_page)
  with assms va show ?thesis
    by (simp add: store_page_fault_def cow_resolve_def page_mask kbind_def kget_def cur_eq [OF assms(1)]
        user_vm_get_pte_def page_walk_ro [OF va] get_pte_def Let_def)
qed

lemma cow_resolve_last:
  assumes "managed s (PTE2PA e)" "pmm_lock s = SPIN_LOCK_FREE" "\<not> 1 < ref_of s (PTE2PA e)"
  shows "cow_resolve e c s = (Inr (), set_dword (fst c) (snd c) ((e OR PTE_W OR PTE_D) AND NOT PTE_COW) s)"
  using assms by (simp add: cow_resolve_def kbind_def get_page_ref_eq set_pte_def kput_def)

text \<open>The new page \<open>x\<close> filled, the entry redirected to it, and one reference to the old page dropped.\<close>

definition cow_copied :: "u64 \<Rightarrow> u64 \<Rightarrow> pte_ptr \<Rightarrow> 'z pmm_state_scheme \<Rightarrow> 'z pmm_state_scheme" where
  "cow_copied x pa c s = set_ref (PAGE_INDEX s pa) (ref_of s pa - 1)
     (set_dword (fst c) (snd c) (PA2PTE x OR prot_to_type (PROT_READ OR PROT_WRITE) True OR PTE_V)
       (set_page x (pmem s pa) (alloc_state x s)))"

lemma cow_resolve_shared:
  assumes inv: "pmm_inv s (x # xs)" and pa: "managed s (PTE2PA e)" "PTE2PA e \<noteq> x" "1 < ref_of s (PTE2PA e)"
  shows "cow_resolve e c s = (Inr (), cow_copied x (PTE2PA e) c s)"
proof -
  note D = pmm_invD [OF inv]
  have x: "x \<noteq> 0" "managed s x" using D(4,5) by auto
  have nz: "PTE2PA e \<noteq> 0" using managed_nonzero [OF D(1) pa(1)] .
  have idx: "PAGE_INDEX s x \<noteq> PAGE_INDEX s (PTE2PA e)"
    using PAGE_INDEX_inj [of s x "PTE2PA e"] D(1) x(2) pa by (auto simp: pmm_bounds_def)
  let ?u = "set_dword (fst c) (snd c) (PA2PTE x OR prot_to_type (PROT_READ OR PROT_WRITE) True OR PTE_V)
       (set_page x (pmem s (PTE2PA e)) (alloc_state x s))"
  have "free_page (PTE2PA e) ?u = (Inr (), set_ref (PAGE_INDEX ?u (PTE2PA e)) (ref_of ?u (PTE2PA e) - 1) ?u)"
    using pa D(2) idx by (intro free_page_eq_shared) simp_all
  then show ?thesis
    using pa(3) x nz idx
    by (simp add: cow_resolve_def get_page_ref_eq [OF pa(1) D(2)] alloc_page_eq [OF inv]
        copy_page_def check_ptr_def set_pte_def dec_page_ref_def cow_copied_def krun_defs)
qed

lemma cow_copied_spec:
  assumes inv: "vm_inv R s (x # xs)" and pt: "pt \<in> R" and va: "va < MAXVA"
    and c: "pte_cell (pmem s) pt va = Some c"
    and pa: "managed s pa" "pa \<notin> set (x # xs)" "\<And>pd is. \<not> is_table R (pmem s) pd is pa"
    and t: "t = cow_copied x pa c s"
  shows "vm_inv R t xs"
    "pd' \<in> R \<Longrightarrow> va' < MAXVA \<Longrightarrow> pt_entry (pmem t) pd' va' =
       (if pd' = pt \<and> ROUNDDOWN va' PGSIZE = ROUNDDOWN va PGSIZE
        then PA2PTE x OR prot_to_type (PROT_READ OR PROT_WRITE) True OR PTE_V else pt_entry (pmem s) pd' va')"
    "pmem t x = pmem s pa" "(\<And>pd is. \<not> is_table R (pmem s) pd is q) \<Longrightarrow> q \<noteq> x \<Longrightarrow> pmem t q = pmem s q"
    "ref_of t x = 1" "ref_of t pa = ref_of s pa - 1" "is_table R (pmem t) = is_table R (pmem s)"
proof -
  note X = alloc_data_page [OF inv]
  define u where "u = set_page x (pmem s pa) (alloc_state x s)"
  define w where "w = set_dword (fst c) (snd c) (PA2PTE x OR prot_to_type (PROT_READ OR PROT_WRITE) True OR PTE_V) u"
  have u: "vm_inv R u xs" "\<And>pd. pd \<in> R \<Longrightarrow> pt_entry (pmem u) pd = pt_entry (pmem s) pd"
    unfolding u_def using vm_set_page_data [OF X(1) _ X(3)] X(2) by simp_all
  have tab: "is_table R (pmem u) = is_table R (pmem s)"
    by (rule data_write_tables(1) [where pa = x]) (use X(2) in \<open>auto simp: u_def\<close>)
  have cu: "pte_cell (pmem u) pt va = Some c" using pte_cell_data [OF tab pt] c by simp
  note W = pte_write_frame [OF u(1) pt cu va]
  have wi: "vm_inv R w xs" using vm_frameD(1) [OF W(1)] unfolding w_def by blast
  have tw: "t = set_ref (PAGE_INDEX w pa) (ref_of s pa - 1) w"
    by (simp add: t cow_copied_def w_def u_def)
  have mw: "managed w pa" using pa(1) by (simp add: w_def u_def)
  show "vm_inv R t xs" unfolding tw by (rule vm_inv_set_ref [OF wi mw]) (use pa(2) in simp)
  have pt_t: "pmem t = pmem w" by (simp add: tw)
  show "pt_entry (pmem t) pd' va' =
       (if pd' = pt \<and> ROUNDDOWN va' PGSIZE = ROUNDDOWN va PGSIZE
        then PA2PTE x OR prot_to_type (PROT_READ OR PROT_WRITE) True OR PTE_V else pt_entry (pmem s) pd' va')"
    if "pd' \<in> R" "va' < MAXVA"
    using W(2) [OF that, of "PA2PTE x OR prot_to_type (PROT_READ OR PROT_WRITE) True OR PTE_V"] u(2) [OF that(1)]
    by (simp add: pt_t w_def)
  have "is_table R (pmem u) pt [PX 2 va, PX 1 va] (fst c)" using pte_cell_table [OF pt cu] by blast
  then show "is_table R (pmem t) = is_table R (pmem s)"
    using leaf_write_is_table [of R "pmem u" "set xs"] u(1) tab by (simp add: pt_t w_def vm_inv_def)
  have cx: "fst c \<noteq> x" and cq: "\<And>q. (\<And>pd is. \<not> is_table R (pmem s) pd is q) \<Longrightarrow> fst c \<noteq> q"
    using pte_cell_table [OF pt c] X(2) by auto
  show "pmem t x = pmem s pa" using cx by (simp add: pt_t w_def u_def)
  show "(\<And>pd is. \<not> is_table R (pmem s) pd is q) \<Longrightarrow> q \<noteq> x \<Longrightarrow> pmem t q = pmem s q"
    using cq [of q] by (simp add: pt_t w_def u_def)
  have idx: "PAGE_INDEX s x \<noteq> PAGE_INDEX s pa"
    using PAGE_INDEX_inj [of s x pa] inv X(4) pa by (auto simp: vm_inv_def pmm_inv_def pmm_bounds_def)
  then show "ref_of t x = 1" "ref_of t pa = ref_of s pa - 1"
    by (simp_all add: t cow_copied_def)
qed

text \<open>
  What a resolved fault at \<open>va\<close> leaves behind: the address maps to \<open>x\<close>, valid, writable and not
  copy-on-write; pages outside \<open>K\<close> that are not tables and all other entries are as before.
\<close>

definition made_writable :: "u64 set \<Rightarrow> u64 \<Rightarrow> u64 \<Rightarrow> u64 \<Rightarrow> u64 set \<Rightarrow> 'z pmm_state_scheme \<Rightarrow> 'z pmm_state_scheme \<Rightarrow> bool" where
  "made_writable R pt va x K s t \<longleftrightarrow>
     (let w = pt_entry (pmem t) pt va in
        PTE2PA w = x \<and> w AND PTE_V \<noteq> 0 \<and> w AND PTE_W \<noteq> 0 \<and> w AND PTE_COW = 0) \<and>
     (\<forall>q. q \<notin> K \<longrightarrow> (\<forall>pd is. \<not> is_table R (pmem s) pd is q) \<longrightarrow> pmem t q = pmem s q) \<and>
     (\<forall>pd'\<in>R. \<forall>va'<MAXVA. pd' \<noteq> pt \<or> ROUNDDOWN va' PGSIZE \<noteq> ROUNDDOWN va PGSIZE \<longrightarrow>
        pt_entry (pmem t) pd' va' = pt_entry (pmem s) pd' va')"

lemma cow_fault_shared:
  fixes s :: "'z kernel_state_scheme"
  assumes inv: "vm_inv R s (x # xs)" and cur: "current s tp = Some p" "pagetable (procs s p) = pt" "pt \<in> R"
    and va: "stval (csr s tp) = va" "va < MAXVA"
    and e: "pt_entry (pmem s) pt va = e" "e AND PTE_V \<noteq> 0" "e AND PTE_COW \<noteq> 0" "PTE2PA e = pa"
    and pa: "managed s pa" "pa \<notin> set (x # xs)" "\<And>pd is. \<not> is_table R (pmem s) pd is pa" "1 < ref_of s pa"
  shows "\<exists>t. store_page_fault tp s = (Inr (), t) \<and> vm_inv R t xs \<and> made_writable R pt va x {x} s t \<and>
    pmem t x = pmem s pa \<and> ref_of t x = 1 \<and> ref_of t pa = ref_of s pa - 1 \<and>
    (\<forall>pd is q. is_table R (pmem t) pd is q \<longrightarrow> is_table R (pmem s) pd is q) \<and>
    procs t = procs s \<and> current t = current s"
proof -
  have rd: "ROUNDDOWN va PGSIZE < MAXVA" using ROUNDDOWN_le [of va] va(2) by (rule order.strict_trans1)
  obtain c where c: "pte_cell (pmem s) pt (ROUNDDOWN va PGSIZE) = Some c"
    by (rule pte_cell_valid [of "pmem s" pt "ROUNDDOWN va PGSIZE"]) (use e va in \<open>simp add: pt_entry_page\<close>)
  have pm: "pmm_inv s (x # xs)" using inv by (simp add: vm_inv_def)
  define t where "t = cow_copied x pa c s"
  have run: "store_page_fault tp s = (Inr (), t)"
    using store_page_fault_cow [of s tp p va e c] cow_resolve_shared [OF pm, of e c] cur va e pa c by (simp add: t_def)
  note S = cow_copied_spec [OF inv cur(3) rd c pa(1-3) t_def]
  have "page_aligned x" using pmm_invD(5) [OF pm, of x] by (simp add: managed_def)
  then have "made_writable R pt va x {x} s t"
    unfolding made_writable_def Let_def
    using S(2) [OF cur(3) va(2)] S(2) S(4) user_rw_entry [of x] by (auto simp: ROUNDDOWN_id)
  then show ?thesis
    using run S(1,3,5,6,7) by (auto simp: t_def cow_copied_def)
qed

lemma cow_fault_last:
  fixes s :: "'z kernel_state_scheme"
  assumes inv: "vm_inv R s xs" and cur: "current s tp = Some p" "pagetable (procs s p) = pt" "pt \<in> R"
    and va: "stval (csr s tp) = va" "va < MAXVA"
    and e: "pt_entry (pmem s) pt va = e" "e AND PTE_V \<noteq> 0" "e AND PTE_COW \<noteq> 0" "PTE2PA e = pa"
    and pa: "managed s pa" "ref_of s pa \<le> 1"
  shows "\<exists>t. store_page_fault tp s = (Inr (), t) \<and> vm_inv R t xs \<and> made_writable R pt va pa {} s t \<and>
    page_ref_count t = page_ref_count s \<and> PAGE_INDEX t = PAGE_INDEX s \<and>
    is_table R (pmem t) = is_table R (pmem s) \<and> procs t = procs s \<and> current t = current s"
proof -
  have rd: "ROUNDDOWN va PGSIZE < MAXVA" using ROUNDDOWN_le [of va] va(2) by (rule order.strict_trans1)
  obtain c where c: "pte_cell (pmem s) pt (ROUNDDOWN va PGSIZE) = Some c"
    by (rule pte_cell_valid [of "pmem s" pt "ROUNDDOWN va PGSIZE"]) (use e va in \<open>simp add: pt_entry_page\<close>)
  have pm: "pmm_lock s = SPIN_LOCK_FREE" using inv by (simp add: vm_inv_def pmm_inv_def)
  define w where "w = (e OR PTE_W OR PTE_D) AND NOT PTE_COW"
  define t where "t = set_dword (fst c) (snd c) w s"
  have run: "store_page_fault tp s = (Inr (), t)"
    using store_page_fault_cow [of s tp p va e c] cow_resolve_last [OF _ pm, of e c] cur va e pa c
    by (simp add: t_def w_def not_less)
  note W = pte_write_frame [OF inv cur(3) c rd, where v = w, folded t_def]
  have leaf: "is_table R (pmem s) pt [PX 2 (ROUNDDOWN va PGSIZE), PX 1 (ROUNDDOWN va PGSIZE)] (fst c)"
    using pte_cell_table [OF cur(3) c] by blast
  have "is_table R (pmem t) = is_table R (pmem s)"
    using leaf_write_is_table [OF _ leaf] inv by (auto simp: t_def vm_inv_def)
  moreover have "made_writable R pt va pa {} s t"
    unfolding made_writable_def Let_def
    using W(2) [OF cur(3) va(2)] W(2) e leaf pte_make_writable [of e, folded w_def] by (auto simp: ROUNDDOWN_id t_def)
  ultimately show ?thesis using run vm_frameD(1) [OF W(1)] by (auto simp: t_def)
qed

section \<open>The trap as a whole\<close>

lemma switch_to_refs:
  "switch_to tp p s = (Inl (Run p), t) \<Longrightarrow> page_ref_count t = page_ref_count s \<and> PAGE_INDEX t = PAGE_INDEX s"
  by (auto simp: switch_to_def krun_defs upd_csr_def Let_def set_dword_def PAGE_INDEX_def fun_eq_iff)

text \<open>A store fault that the kernel resolves leads back to the faulting instruction of the same process.\<close>

lemma store_trap_runs:
  fixes s :: "'z fs_state_scheme"
  assumes cur: "current s tp = Some p" and tf: "trapframe (procs s p) = tf"
    and mode: "sstatus (csr s tp) AND SSTATUS_SPP = 0" "scause (csr s tp) = CAUSE_STORE_PAGE_FAULT"
    and run: "store_page_fault tp (set_dword tf TF_epc (sepc (csr s tp)) s) = (Inr (), u)"
    and u: "current u tp = Some p"
  shows "\<exists>t. smode_trap_handler E tp s = (Inl (Run p), t) \<and> launched tp p u t \<and>
    page_ref_count t = page_ref_count u \<and> PAGE_INDEX t = PAGE_INDEX u"
proof -
  obtain t where t: "switch_to tp p u = (Inl (Run p) :: kstop + unit, t)" "launched tp p u t"
    using switch_to_eq by blast
  have "handle_trap E tp s = (Inl (Run p), t)"
    using mode run u t(1) cur
    by (simp add: handle_trap_def kbind_def kthen_def kget_def kput_def assert_current_def kreturn_def
        cur_eq [OF cur] cur_eq [OF u] tf cause_defs)
  then show ?thesis using t switch_to_refs [OF t(1)] by (auto simp: smode_trap_handler_def run_on_def)
qed

lemma launched_mem:
  "launched tp p u t \<Longrightarrow> q \<noteq> trapframe (procs u p) \<Longrightarrow> pmem t q = pmem u q"
  "launched tp p u t \<Longrightarrow> sepc (csr t tp) = pmem u (trapframe (procs u p)) TF_epc"
  by (auto simp: launched_def Let_def fun_eq_iff)

text \<open>What stays the same when only the trapframe page is written, before and after the fault is resolved.\<close>

lemma vm_inv_set_dword_data:
  assumes inv: "vm_inv R s xs" and data: "\<And>pd is. \<not> is_table R (pmem s) pd is q" "q \<notin> set xs"
  shows "vm_inv R (set_dword q i v s) xs" "is_table R (pmem (set_dword q i v s)) = is_table R (pmem s)"
    "pd \<in> R \<Longrightarrow> pt_entry (pmem (set_dword q i v s)) pd = pt_entry (pmem s) pd"
proof -
  have eq: "set_dword q i v s = set_page q ((pmem s q)(i := v)) s" by (simp add: set_dword_def set_page_def)
  show "vm_inv R (set_dword q i v s) xs"
    "pd \<in> R \<Longrightarrow> pt_entry (pmem (set_dword q i v s)) pd = pt_entry (pmem s) pd"
    unfolding eq using vm_set_page_data [OF inv data] by blast+
  show "is_table R (pmem (set_dword q i v s)) = is_table R (pmem s)"
    by (rule data_write_tables(1) [OF data(1)]) auto
qed

section \<open>Faults outside copy-on-write pages\<close>

lemma user_rw_flags: "scast user_rw OR PTE_V = prot_to_type (PROT_READ OR PROT_WRITE) True OR PTE_V"
  by (simp add: prot_to_type_def PROT_READ_def PROT_WRITE_def PROT_EXEC_def pte_flag_defs)

text \<open>Where the handler maps a fresh page, and where it refuses.\<close>

definition fault_growable :: "process \<Rightarrow> u64 \<Rightarrow> bool" where
  "fault_growable pr va \<longleftrightarrow> va \<le> USER_STACK_TOP \<and> (USER_STACK_TOP - stack_size pr < va \<or> va < heap_top pr)"

lemma store_page_fault_plain:
  assumes cur: "current s tp = Some p" and va: "stval (csr s tp) = va" "va < MAXVA"
    and e: "pt_entry (pmem s) (pagetable (procs s p)) va = e" "e AND PTE_V = 0 \<or> e AND PTE_COW = 0"
  shows "fault_growable (procs s p) va \<Longrightarrow> store_page_fault tp s = map_fresh tp (ROUNDDOWN va PGSIZE) s"
    "\<not> fault_growable (procs s p) va \<Longrightarrow> \<exists>msg code. store_page_fault tp s = (Inl (Kill msg code), s)"
proof -
  have rd: "ROUNDDOWN va PGSIZE < MAXVA" using ROUNDDOWN_le [of va] va(2) by (rule order.strict_trans1)
  define c where "c = pte_cell (pmem s) (pagetable (procs s p)) (ROUNDDOWN va PGSIZE)"
  define e' where "e' = (case c of None \<Rightarrow> 0 | Some c \<Rightarrow> pmem s (fst c) (snd c))"
  have g: "(case c of None \<Rightarrow> kreturn 0 | Some c \<Rightarrow> get_pte c) s = (Inr e', s)"
    by (simp add: e'_def kreturn_def get_pte_def kget_def split: option.split)
  have e': "e' = e"
    using pte_cell_entry [of "pmem s" "pagetable (procs s p)" "ROUNDDOWN va PGSIZE", folded c_def] e(1) va(2)
    by (simp add: e'_def pt_entry_page split: option.splits)
  have "store_page_fault tp s = (if USER_STACK_TOP < va then kraise (Kill ''invalid memory access at address'' (as_int va))
     else if USER_STACK_TOP - stack_size (procs s p) < va then map_fresh tp (ROUNDDOWN va PGSIZE)
     else if heap_top (procs s p) \<le> va then kraise (Kill ''this address is not available!'' 1)
     else map_fresh tp (ROUNDDOWN va PGSIZE)) s"
    using e(2) cur va
    by (auto simp: store_page_fault_def page_mask kbind_def kget_def cur_eq [OF cur] user_vm_get_pte_def page_walk_ro [OF rd] g e'
        c_def [symmetric] Let_def)
  then show "fault_growable (procs s p) va \<Longrightarrow> store_page_fault tp s = map_fresh tp (ROUNDDOWN va PGSIZE) s"
    "\<not> fault_growable (procs s p) va \<Longrightarrow> \<exists>msg code. store_page_fault tp s = (Inl (Kill msg code), s)"
    by (auto simp: fault_growable_def kraise_def not_le not_less split: if_splits)
qed

lemma fresh_fault:
  fixes s :: "'z kernel_state_scheme"
  assumes inv: "vm_inv R s (x # xs)" and cur: "current s tp = Some p" "pagetable (procs s p) = pt" "pt \<in> R"
    and va: "stval (csr s tp) = va" "fault_growable (procs s p) va"
    and e: "pt_entry (pmem s) pt va AND PTE_V = 0" and len: "2 \<le> length xs"
  shows "\<exists>t ys. store_page_fault tp s = (Inr (), t) \<and> vm_inv R t ys \<and> made_writable R pt va x (set (x # xs)) s t \<and>
    (\<forall>pd is q. is_table R (pmem t) pd is q \<longrightarrow> is_table R (pmem s) pd is q \<or> q \<in> set xs) \<and>
    procs t = procs s \<and> current t = current s"
proof -
  note X = alloc_data_page [OF inv]
  let ?v = "ROUNDDOWN va PGSIZE"
  have "unat va \<le> 0x7ffff000" using va(2) by (simp add: fault_growable_def USER_STACK_TOP_def word_le_nat_alt)
  then have va': "va < MAXVA" "unat ?v + 4096 \<le> unat MAXVA"
    using ROUNDDOWN_le [of va] by (auto simp: MAXVA_def word_less_nat_alt word_le_nat_alt)
  have "pt_entry (pmem (alloc_state x s)) pt ?v AND PTE_V = 0" using e va' by (simp add: pt_entry_page)
  from user_vm_map_page [OF X(1) cur(3) ROUNDDOWN_aligned va'(2) this len, of x user_rw]
  obtain t ys where t: "user_vm_map pt ?v PGSIZE x user_rw (alloc_state x s) = (Inr (), t)"
    "vm_frame R (alloc_state x s) xs t ys" "length xs \<le> length ys + 2"
    "\<And>pd' va'. pd' \<in> R \<Longrightarrow> va' < MAXVA \<Longrightarrow> pt_entry (pmem t) pd' va' =
       (if pd' = pt \<and> ROUNDDOWN va' PGSIZE = ?v then PA2PTE x OR scast user_rw OR PTE_V
        else pt_entry (pmem (alloc_state x s)) pd' va')" by blast
  have run: "store_page_fault tp s = (Inr (), t)"
    using store_page_fault_plain(1) [OF cur(1) va(1) va'(1) refl] e va(2) cur t(1) alloc_page_eq [of s x xs] inv
    by (simp add: map_fresh_def kbind_def cur_eq kget_def vm_inv_def)
  have "page_aligned x" using X(4) by (simp add: managed_def)
  then have "made_writable R pt va x (set (x # xs)) s t"
    unfolding made_writable_def Let_def
    using t(4) cur(3) va'(1) user_rw_entry [of x] vm_frameD(6) [OF t(2)] by (auto simp: user_rw_flags)
  then show ?thesis
    using run vm_frameD(1,5) [OF t(2)] kernel_fields [OF keeps_run [OF keeps_vmm(4) t(1)]] by auto
qed

lemma made_writable_trap:
  assumes m: "made_writable R pt va x K (set_dword tf i v s) u" and tf: "trapframe (procs u p) = tf" "pt \<in> R" "va < MAXVA"
    and l: "launched tp p u t" and data: "\<And>pd is. \<not> is_table R (pmem s) pd is tf" "\<And>pd is. \<not> is_table R (pmem u) pd is tf"
  shows "made_writable R pt va x (insert tf K) s t"
proof -
  have tu: "\<And>q. q \<noteq> tf \<Longrightarrow> pmem t q = pmem u q" using launched_mem(1) [OF l] tf by simp
  note T = data_write_tables(2) [OF data(2) tu]
  note S = data_write_tables [OF data(1), of "pmem (set_dword tf i v s)", simplified]
  show ?thesis using m T S tu tf unfolding made_writable_def Let_def by auto
qed

lemma resolved_trap_runs:
  fixes s :: "'z fs_state_scheme"
  assumes mode: "sstatus (csr s tp) AND SSTATUS_SPP = 0" "scause (csr s tp) = CAUSE_STORE_PAGE_FAULT"
    and cur: "current s tp = Some p" "trapframe (procs s p) = tf" and va: "pt \<in> R" "va < MAXVA"
    and data: "\<And>pd is. \<not> is_table R (pmem s) pd is tf" "tf \<notin> K"
    and s1: "s1 = set_dword tf TF_epc (sepc (csr s tp)) s"
    and u: "store_page_fault tp s1 = (Inr (), u)" "made_writable R pt va x K s1 u" "procs u = procs s1" "current u = current s1"
      "\<And>pd is. \<not> is_table R (pmem u) pd is tf"
  shows "\<exists>t. smode_trap_handler E tp s = (Inl (Run p), t) \<and> sepc (csr t tp) = sepc (csr s tp) \<and>
    made_writable R pt va x (insert tf K) s t \<and> page_ref_count t = page_ref_count u \<and> PAGE_INDEX t = PAGE_INDEX u \<and>
    (\<forall>q. q \<noteq> tf \<longrightarrow> pmem t q = pmem u q)"
proof -
  have utf: "trapframe (procs u p) = tf" "current u tp = Some p" using u(3,4) cur by (simp_all add: s1)
  obtain t where t: "smode_trap_handler E tp s = (Inl (Run p), t)" "launched tp p u t"
    "page_ref_count t = page_ref_count u" "PAGE_INDEX t = PAGE_INDEX u"
    using store_trap_runs [OF cur mode u(1) [unfolded s1] utf(2)] by blast
  have w: "made_writable R pt va x (insert tf K) s t"
    by (rule made_writable_trap [OF u(2) [unfolded s1] utf(1) va t(2) data(1) u(5)])
  have "is_table R (pmem s1) = is_table R (pmem s)"
    unfolding s1 by (rule data_write_tables(1) [OF data(1)]) auto
  then have "pmem u tf = pmem s1 tf" using u(2) data unfolding made_writable_def by auto
  then have "sepc (csr t tp) = sepc (csr s tp)" using launched_mem(2) [OF t(2)] utf(1) by (simp add: s1)
  then show ?thesis using t w launched_mem(1) [OF t(2)] utf(1) by (intro exI [of _ t]) auto
qed

lemma epc_saved:
  assumes "s1 = set_dword tf TF_epc v s"
  shows "csr s1 = csr s" "current s1 = current s" "procs s1 = procs s" "managed s1 = managed s"
    "page_ref_count s1 = page_ref_count s" "PAGE_INDEX s1 = PAGE_INDEX s" "\<And>q. q \<noteq> tf \<Longrightarrow> pmem s1 q = pmem s q"
  using assms by (simp_all add: set_dword_def managed_def PAGE_INDEX_def MAX_PAGE_NUM_def fun_eq_iff)

section \<open>Properties\<close>

text \<open>
  C2. A store to a shared copy-on-write page gives the process a private copy: the trap handler takes the
  first free page, fills it with the content of the shared page and maps it writable in place of the
  shared page, and the process runs again at the faulting instruction.  The shared page keeps its content
  and loses one reference, and no other page but the trapframe, no other address and no other address space
  is affected.
\<close>

theorem cow_trap_private_copy:
  fixes s :: "'z fs_state_scheme"
  assumes "sstatus (csr s tp) AND SSTATUS_SPP = 0" "scause (csr s tp) = CAUSE_STORE_PAGE_FAULT" "stval (csr s tp) = va"
    and "current s tp = Some p" "pagetable (procs s p) = pt" "trapframe (procs s p) = tf"
    and "vm_inv R s (x # xs)" "pt \<in> R" "va < MAXVA"
    and "pt_entry (pmem s) pt va = e" "e AND PTE_V \<noteq> 0" "e AND PTE_COW \<noteq> 0" "PTE2PA e = pa"
    and "managed s pa" "pa \<notin> set (x # xs)" "\<forall>pd is. \<not> is_table R (pmem s) pd is pa" "1 < ref_of s pa"
    and "tf \<noteq> pa" "tf \<notin> set (x # xs)" "\<forall>pd is. \<not> is_table R (pmem s) pd is tf"
  shows "\<exists>t w. smode_trap_handler E tp s = (Inl (Run p), t) \<and> sepc (csr t tp) = sepc (csr s tp) \<and>
    pt_entry (pmem t) pt va = w \<and> PTE2PA w = x \<and> w AND PTE_V \<noteq> 0 \<and> w AND PTE_W \<noteq> 0 \<and> w AND PTE_COW = 0 \<and>
    pmem t x = pmem s pa \<and> ref_of t x = 1 \<and> ref_of t pa = ref_of s pa - 1 \<and>
    (\<forall>q. q \<noteq> x \<longrightarrow> q \<noteq> tf \<longrightarrow> (\<forall>pd is. \<not> is_table R (pmem s) pd is q) \<longrightarrow> pmem t q = pmem s q) \<and>
    (\<forall>pd'\<in>R. \<forall>va'<MAXVA. pd' \<noteq> pt \<or> ROUNDDOWN va' PGSIZE \<noteq> ROUNDDOWN va PGSIZE \<longrightarrow>
       pt_entry (pmem t) pd' va' = pt_entry (pmem s) pd' va')"
proof -
  define s1 where "s1 = set_dword tf TF_epc (sepc (csr s tp)) s"
  have tfd: "\<And>pd is. \<not> is_table R (pmem s) pd is tf" using assms(20) by blast
  note V = vm_inv_set_dword_data [OF assms(7) tfd assms(19), where i = TF_epc and v = "sepc (csr s tp)", folded s1_def]
  note S = epc_saved [OF s1_def]
  have "\<exists>u. store_page_fault tp s1 = (Inr (), u) \<and> vm_inv R u xs \<and> made_writable R pt va x {x} s1 u \<and>
    pmem u x = pmem s1 pa \<and> ref_of u x = 1 \<and> ref_of u pa = ref_of s1 pa - 1 \<and>
    (\<forall>pd is q. is_table R (pmem u) pd is q \<longrightarrow> is_table R (pmem s1) pd is q) \<and> procs u = procs s1 \<and> current u = current s1"
    by (rule cow_fault_shared [where e = e and p = p]) (use V S assms in simp_all)
  then obtain u where u: "store_page_fault tp s1 = (Inr (), u)" "made_writable R pt va x {x} s1 u"
    "procs u = procs s1" "current u = current s1" "pmem u x = pmem s1 pa" "ref_of u x = 1" "ref_of u pa = ref_of s1 pa - 1"
    "\<And>pd is q. is_table R (pmem u) pd is q \<Longrightarrow> is_table R (pmem s1) pd is q"
    by blast
  have "\<not> is_table R (pmem u) pd is tf" for pd "is" using u(8) [of pd "is" tf] V(2) tfd by auto
  moreover have "tf \<notin> {x}" "x \<noteq> tf" using assms(19) by auto
  ultimately obtain t where t: "smode_trap_handler E tp s = (Inl (Run p), t)" "sepc (csr t tp) = sepc (csr s tp)"
    "made_writable R pt va x {tf, x} s t" "page_ref_count t = page_ref_count u" "PAGE_INDEX t = PAGE_INDEX u"
    "\<And>q. q \<noteq> tf \<Longrightarrow> pmem t q = pmem u q"
    using resolved_trap_runs [OF assms(1,2,4,6,8,9) tfd _ s1_def u(1-4)] by blast
  then show ?thesis
    using u(5-7) S(5-7) assms(18) \<open>x \<noteq> tf\<close> unfolding made_writable_def Let_def by (intro exI [of _ t]) auto
qed

theorem cow_trap_private_copy_witness:
  "\<exists>t. smode_trap_handler demo_env 0 (demo_task 0x20001953 2) = (Inl (Run 3), t) \<and> sepc (csr t 0) = 0x10078 \<and>
     PTE2PA (pt_entry (pmem t) demo_root 0x10008) = 0x80001000 \<and> pmem t 0x80001000 = (\<lambda>_. 42) \<and> ref_of t 0x80006000 = 1"
  using cow_trap_private_copy [where s = "demo_task 0x20001953 2" and pa = "0x80006000" and tp = 0 and p = 3 and R = "{demo_root}"
      and tf = "0x80008000" and E = demo_env, OF _ _ demo_task_simps(3,1,2) _ demo_task_inv _ _ demo_task_entry]
  by (auto simp: demo_task_simps demo_task_tables MAXVA_def ROUNDDOWN_def PGSIZE_def PTE2PA_def pte_flag_defs cause_defs)

text \<open>
  C3. A store to a copy-on-write page that no other process refers to any more makes the page writable in
  place, and the process runs again at the faulting instruction: the entry keeps its target, no page is
  allocated, no reference changes, and no other entry and no page but the trapframe changes.
\<close>

theorem cow_trap_last_owner:
  fixes s :: "'z fs_state_scheme"
  assumes "sstatus (csr s tp) AND SSTATUS_SPP = 0" "scause (csr s tp) = CAUSE_STORE_PAGE_FAULT" "stval (csr s tp) = va"
    and "current s tp = Some p" "pagetable (procs s p) = pt" "trapframe (procs s p) = tf"
    and "vm_inv R s xs" "pt \<in> R" "va < MAXVA"
    and "pt_entry (pmem s) pt va = e" "e AND PTE_V \<noteq> 0" "e AND PTE_COW \<noteq> 0" "PTE2PA e = pa"
    and "managed s pa" "ref_of s pa \<le> 1"
    and "tf \<notin> set xs" "\<forall>pd is. \<not> is_table R (pmem s) pd is tf"
  shows "\<exists>t w. smode_trap_handler E tp s = (Inl (Run p), t) \<and> sepc (csr t tp) = sepc (csr s tp) \<and>
    pt_entry (pmem t) pt va = w \<and> PTE2PA w = pa \<and> w AND PTE_V \<noteq> 0 \<and> w AND PTE_W \<noteq> 0 \<and> w AND PTE_COW = 0 \<and>
    page_ref_count t = page_ref_count s \<and>
    (\<forall>q. q \<noteq> tf \<longrightarrow> (\<forall>pd is. \<not> is_table R (pmem s) pd is q) \<longrightarrow> pmem t q = pmem s q) \<and>
    (\<forall>pd'\<in>R. \<forall>va'<MAXVA. pd' \<noteq> pt \<or> ROUNDDOWN va' PGSIZE \<noteq> ROUNDDOWN va PGSIZE \<longrightarrow>
       pt_entry (pmem t) pd' va' = pt_entry (pmem s) pd' va')"
proof -
  define s1 where "s1 = set_dword tf TF_epc (sepc (csr s tp)) s"
  have tfd: "\<And>pd is. \<not> is_table R (pmem s) pd is tf" using assms(17) by blast
  note V = vm_inv_set_dword_data [OF assms(7) tfd assms(16), where i = TF_epc and v = "sepc (csr s tp)", folded s1_def]
  note S = epc_saved [OF s1_def]
  have "\<exists>u. store_page_fault tp s1 = (Inr (), u) \<and> vm_inv R u xs \<and> made_writable R pt va pa {} s1 u \<and>
    page_ref_count u = page_ref_count s1 \<and> PAGE_INDEX u = PAGE_INDEX s1 \<and>
    is_table R (pmem u) = is_table R (pmem s1) \<and> procs u = procs s1 \<and> current u = current s1"
    by (rule cow_fault_last [where e = e and p = p]) (use V S assms in simp_all)
  then obtain u where u: "store_page_fault tp s1 = (Inr (), u)" "made_writable R pt va pa {} s1 u"
    "procs u = procs s1" "current u = current s1" "is_table R (pmem u) = is_table R (pmem s1)" "page_ref_count u = page_ref_count s1"
    by blast
  have "\<not> is_table R (pmem u) pd is tf" for pd "is" using u(5) V(2) tfd by simp
  then obtain t where "smode_trap_handler E tp s = (Inl (Run p), t)" "sepc (csr t tp) = sepc (csr s tp)"
    "made_writable R pt va pa {tf} s t" "page_ref_count t = page_ref_count u"
    using resolved_trap_runs [OF assms(1,2,4,6,8,9) tfd _ s1_def u(1-4)] by blast
  then show ?thesis
    using u(6) S(5) unfolding made_writable_def Let_def by (intro exI [of _ t]) auto
qed

theorem cow_trap_last_owner_witness:
  "\<exists>t. smode_trap_handler demo_env 0 (demo_task 0x20001953 1) = (Inl (Run 3), t) \<and>
     PTE2PA (pt_entry (pmem t) demo_root 0x10008) = 0x80006000"
  using cow_trap_last_owner [where s = "demo_task 0x20001953 1" and pa = "0x80006000" and tp = 0 and p = 3 and R = "{demo_root}"
      and tf = "0x80008000" and E = demo_env, OF _ _ demo_task_simps(3,1,2) _ demo_task_inv _ _ demo_task_entry]
  by (auto simp: demo_task_simps demo_task_tables MAXVA_def ROUNDDOWN_def PGSIZE_def PTE2PA_def pte_flag_defs cause_defs)

text \<open>
  C24. A store to an unmapped address within the stack range of the process, or below the top of its heap,
  is resolved: the first free page is mapped at the address, readable and writable for the user, the
  process runs again at the faulting instruction, and no other address of any address space and no page
  that was in use changes, except the trapframe and page tables.
\<close>

theorem store_trap_maps_fresh:
  fixes s :: "'z fs_state_scheme"
  assumes "sstatus (csr s tp) AND SSTATUS_SPP = 0" "scause (csr s tp) = CAUSE_STORE_PAGE_FAULT" "stval (csr s tp) = va"
    and "current s tp = Some p" "pagetable (procs s p) = pt" "trapframe (procs s p) = tf"
    and "vm_inv R s (x # xs)" "2 \<le> length xs" "pt \<in> R"
    and "va \<le> USER_STACK_TOP" "USER_STACK_TOP - stack_size (procs s p) < va \<or> va < heap_top (procs s p)"
    and "pt_entry (pmem s) pt va AND PTE_V = 0"
    and "tf \<notin> set (x # xs)" "\<forall>pd is. \<not> is_table R (pmem s) pd is tf"
  shows "\<exists>t w. smode_trap_handler E tp s = (Inl (Run p), t) \<and> sepc (csr t tp) = sepc (csr s tp) \<and>
    pt_entry (pmem t) pt va = w \<and> PTE2PA w = x \<and> w AND PTE_V \<noteq> 0 \<and> w AND PTE_W \<noteq> 0 \<and> w AND PTE_COW = 0 \<and>
    (\<forall>q. q \<notin> set (x # xs) \<longrightarrow> q \<noteq> tf \<longrightarrow> (\<forall>pd is. \<not> is_table R (pmem s) pd is q) \<longrightarrow> pmem t q = pmem s q) \<and>
    (\<forall>pd'\<in>R. \<forall>va'<MAXVA. pd' \<noteq> pt \<or> ROUNDDOWN va' PGSIZE \<noteq> ROUNDDOWN va PGSIZE \<longrightarrow>
       pt_entry (pmem t) pd' va' = pt_entry (pmem s) pd' va')"
proof -
  define s1 where "s1 = set_dword tf TF_epc (sepc (csr s tp)) s"
  have tfd: "\<And>pd is. \<not> is_table R (pmem s) pd is tf" using assms(14) by blast
  note V = vm_inv_set_dword_data [OF assms(7) tfd assms(13), where i = TF_epc and v = "sepc (csr s tp)", folded s1_def]
  note S = epc_saved [OF s1_def]
  have va: "va < MAXVA" using assms(10) by (rule order.strict_trans1) (simp add: USER_STACK_TOP_def MAXVA_def)
  have "\<exists>u ys. store_page_fault tp s1 = (Inr (), u) \<and> vm_inv R u ys \<and> made_writable R pt va x (set (x # xs)) s1 u \<and>
    (\<forall>pd is q. is_table R (pmem u) pd is q \<longrightarrow> is_table R (pmem s1) pd is q \<or> q \<in> set xs) \<and> procs u = procs s1 \<and> current u = current s1"
    by (rule fresh_fault [where p = p]) (use V S assms in \<open>simp_all add: fault_growable_def\<close>)
  then obtain u where u: "store_page_fault tp s1 = (Inr (), u)" "made_writable R pt va x (set (x # xs)) s1 u"
    "procs u = procs s1" "current u = current s1"
    "\<And>pd is q. is_table R (pmem u) pd is q \<Longrightarrow> is_table R (pmem s1) pd is q \<or> q \<in> set xs"
    by blast
  have "\<not> is_table R (pmem u) pd is tf" for pd "is" using u(5) [of pd "is" tf] V(2) tfd assms(13) by auto
  then obtain t where "smode_trap_handler E tp s = (Inl (Run p), t)" "sepc (csr t tp) = sepc (csr s tp)"
    "made_writable R pt va x (insert tf (set (x # xs))) s t"
    using resolved_trap_runs [OF assms(1,2,4,6,9) va tfd assms(13) s1_def u(1-4)] by blast
  then show ?thesis unfolding made_writable_def Let_def by (intro exI [of _ t]) auto
qed

theorem store_trap_maps_fresh_witness:
  "\<exists>t. smode_trap_handler demo_env 0 (demo_task 0 1) = (Inl (Run 3), t) \<and>
     PTE2PA (pt_entry (pmem t) demo_root 0x10008) = 0x80001000"
  using store_trap_maps_fresh [where s = "demo_task 0 1" and tp = 0 and p = 3 and R = "{demo_root}" and tf = "0x80008000"
      and E = demo_env, OF _ _ demo_task_simps(3,1,2) _ demo_task_inv]
  by (auto simp: demo_task_simps demo_task_tables demo_task_entry ROUNDDOWN_def PGSIZE_def cause_defs USER_STACK_TOP_def)

text \<open>
  C25. The trap handler kills the current process, and does nothing else to the kernel state but save the
  program counter: on a trap from supervisor mode, on an illegal instruction and every other cause it does
  not know, and on a store outside the stack and heap ranges to a page that is not copy-on-write.
\<close>

theorem trap_kills:
  fixes s :: "'z fs_state_scheme"
  assumes "current s tp = Some p"
  shows "(sstatus (csr s tp) AND SSTATUS_SPP \<noteq> 0 \<longrightarrow> smode_trap_handler E tp s = kill_current_process tp s) \<and>
    (sstatus (csr s tp) AND SSTATUS_SPP = 0 \<longrightarrow>
     (let s1 = set_dword (trapframe (procs s p)) TF_epc (sepc (csr s tp)) s;
          c = scause (csr s tp); va = stval (csr s tp); e = pt_entry (pmem s1) (pagetable (procs s p)) va in
      c \<notin> {CAUSE_USER_ECALL, CAUSE_MTIMER_S_TRAP, CAUSE_STORE_PAGE_FAULT, CAUSE_LOAD_PAGE_FAULT} \<or>
      c = CAUSE_STORE_PAGE_FAULT \<and> va < MAXVA \<and> (e AND PTE_V = 0 \<or> e AND PTE_COW = 0) \<and>
        (USER_STACK_TOP < va \<or> va \<le> USER_STACK_TOP - stack_size (procs s p) \<and> heap_top (procs s p) \<le> va) \<longrightarrow>
      smode_trap_handler E tp s = kill_current_process tp s1))"
proof (intro conjI impI)
  assume "sstatus (csr s tp) AND SSTATUS_SPP \<noteq> 0"
  then show "smode_trap_handler E tp s = kill_current_process tp s"
    by (simp add: smode_trap_handler_def run_on_def handle_trap_def kbind_def kget_def kraise_def)
next
  assume mode: "sstatus (csr s tp) AND SSTATUS_SPP = 0"
  define s1 where "s1 = set_dword (trapframe (procs s p)) TF_epc (sepc (csr s tp)) s"
  have c1: "current s1 tp = Some p" using assms by (simp add: s1_def)
  note S = epc_saved [OF s1_def]
  have other: "smode_trap_handler E tp s = kill_current_process tp s1"
    if "scause (csr s tp) \<notin> {CAUSE_USER_ECALL, CAUSE_MTIMER_S_TRAP, CAUSE_STORE_PAGE_FAULT, CAUSE_LOAD_PAGE_FAULT}"
    using that mode assms
    by (simp add: smode_trap_handler_def run_on_def handle_trap_def kbind_def kthen_def kget_def kput_def assert_current_def
        kreturn_def kraise_def cur_eq [OF assms] s1_def Let_def)
  have store: "smode_trap_handler E tp s = kill_current_process tp s1"
    if "scause (csr s tp) = CAUSE_STORE_PAGE_FAULT" "stval (csr s tp) < MAXVA"
      "pt_entry (pmem s1) (pagetable (procs s p)) (stval (csr s tp)) AND PTE_V = 0 \<or>
       pt_entry (pmem s1) (pagetable (procs s p)) (stval (csr s tp)) AND PTE_COW = 0"
      "\<not> fault_growable (procs s p) (stval (csr s tp))"
  proof -
    have "\<exists>msg code. store_page_fault tp s1 = (Inl (Kill msg code), s1)"
      by (rule store_page_fault_plain(2) [OF c1 refl _ refl]) (use that S in simp_all)
    then show ?thesis
      using that(1) mode assms
      by (auto simp: smode_trap_handler_def run_on_def handle_trap_def kbind_def kthen_def kget_def kput_def assert_current_def
          kreturn_def cur_eq [OF assms] s1_def [symmetric] cause_defs)
  qed
  show "let s1 = set_dword (trapframe (procs s p)) TF_epc (sepc (csr s tp)) s;
          c = scause (csr s tp); va = stval (csr s tp); e = pt_entry (pmem s1) (pagetable (procs s p)) va in
      c \<notin> {CAUSE_USER_ECALL, CAUSE_MTIMER_S_TRAP, CAUSE_STORE_PAGE_FAULT, CAUSE_LOAD_PAGE_FAULT} \<or>
      c = CAUSE_STORE_PAGE_FAULT \<and> va < MAXVA \<and> (e AND PTE_V = 0 \<or> e AND PTE_COW = 0) \<and>
        (USER_STACK_TOP < va \<or> va \<le> USER_STACK_TOP - stack_size (procs s p) \<and> heap_top (procs s p) \<le> va) \<longrightarrow>
      smode_trap_handler E tp s = kill_current_process tp s1"
    using other store unfolding Let_def s1_def [symmetric] fault_growable_def by (auto simp: not_le not_less)
qed

theorem trap_kills_witness:
  "smode_trap_handler demo_env 0 ((demo_task 0 1)\<lparr>csr := (\<lambda>_. blank_csr\<lparr>scause := 2\<rparr>)\<rparr>) =
     kill_current_process 0 (set_dword 0x80008000 TF_epc 0 ((demo_task 0 1)\<lparr>csr := (\<lambda>_. blank_csr\<lparr>scause := 2\<rparr>)\<rparr>))"
  using trap_kills [where s = "(demo_task 0 1)\<lparr>csr := (\<lambda>_. blank_csr\<lparr>scause := 2\<rparr>)\<rparr>" and tp = 0 and p = 3 and E = demo_env]
  by (simp add: demo_task_simps blank_csr_def cause_defs Let_def)

text \<open>
  A load page fault is never resolved: the handler changes nothing but the trapframe and the control
  registers and returns to the faulting instruction, whatever the address is.
\<close>

theorem load_fault_not_resolved:
  fixes s :: "'z fs_state_scheme"
  assumes "sstatus (csr s tp) AND SSTATUS_SPP = 0" "scause (csr s tp) = CAUSE_LOAD_PAGE_FAULT" "current s tp = Some p"
  shows "\<exists>t. smode_trap_handler E tp s = (Inl (Run p), t) \<and> sepc (csr t tp) = sepc (csr s tp) \<and> procs t = procs s \<and>
    page_ref_count t = page_ref_count s \<and> (\<forall>q. q \<noteq> trapframe (procs s p) \<longrightarrow> pmem t q = pmem s q)"
proof -
  define s1 where "s1 = set_dword (trapframe (procs s p)) TF_epc (sepc (csr s tp)) s"
  have c1: "current s1 tp = Some p" using assms by (simp add: s1_def)
  note S = epc_saved [OF s1_def]
  obtain t where t: "switch_to tp p s1 = (Inl (Run p) :: kstop + unit, t)" "launched tp p s1 t"
    using switch_to_eq by blast
  have "handle_trap E tp s = (Inl (Run p), t)"
    using assms(1,2) t(1) assms(3)
    by (simp add: handle_trap_def kbind_def kthen_def kget_def kput_def assert_current_def kreturn_def
        cur_eq [OF assms(3)] cur_eq [OF c1] s1_def [symmetric] cause_defs handle_user_page_fault_def)
  then show ?thesis
    using t(2) switch_to_refs [OF t(1)] launched_mem [OF t(2)] S
    by (auto simp: smode_trap_handler_def run_on_def launched_def s1_def)
qed

theorem load_fault_not_resolved_witness:
  "\<exists>t. smode_trap_handler demo_env 0 ((demo_task 0 1)\<lparr>csr := (\<lambda>_. blank_csr\<lparr>scause := 13\<rparr>)\<rparr>) = (Inl (Run 3), t) \<and>
     sepc (csr t 0) = 0"
  using load_fault_not_resolved [where s = "(demo_task 0 1)\<lparr>csr := (\<lambda>_. blank_csr\<lparr>scause := 13\<rparr>)\<rparr>" and tp = 0 and p = 3
      and E = demo_env]
  by (auto simp: demo_task_simps blank_csr_def cause_defs)

end
