(* ===== verification/Fork.thy ===== *)
theory Fork
  imports Process
begin

text \<open>
  What \<^verbatim>\<open>do_fork\<close> (\<^verbatim>\<open>kernel/process.c\<close>) does with the heap: the pages of the parent are mapped into the child's page table
  copy-on-write.  The loop of \<open>fork_heap\<close> is handled by a progress predicate over the number of pages done
  (\<open>fork_progress\<close>); \<open>fork_shares_heap\<close> is the effect on both page tables, the reference counts, the data pages and
  the child's process record.
\<close>

unbundle bit_operations_syntax

lemma region_of_region_words:
  assumes "i < 256"
  shows "region_of (region_words i r c) i = r"
proof -
  have ne: "(of_nat (2 * i + 1) :: 9 word) \<noteq> of_nat (2 * i)" by simp
  have hi: "\<not> bit x (32 + n)" for x :: u32 and n by (rule impossible_bit) simp
  have "ucast (ucast (reg_npages r) OR push_bit 32 (ucast (reg_seg_type r)) :: u64) = reg_npages r"
    "ucast (drop_bit 32 (ucast (reg_npages r) OR push_bit 32 (ucast (reg_seg_type r)) :: u64)) = reg_seg_type r"
    by (auto intro!: bit_word_eqI simp: bit_simps hi)
  then show ?thesis using ne by (cases r) (auto simp: region_of_def region_words_def)
qed

section \<open>Sharing one heap page\<close>

abbreviation cow_flags :: u64 where
  "cow_flags \<equiv> PTE_R OR PTE_A OR PTE_U OR PTE_COW OR PTE_V"

text \<open>The entries after the page at \<open>va\<close> is shared: the child's, the parent's, and all others.\<close>

definition share_page :: "(u64 \<Rightarrow> u64 \<Rightarrow> u64) \<Rightarrow> u64 \<Rightarrow> u64 \<Rightarrow> u64 \<Rightarrow> u64 \<Rightarrow> u64 \<Rightarrow> u64" where
  "share_page E ppt cpt va pd' va' =
     (if ROUNDDOWN va' PGSIZE \<noteq> va then E pd' va'
      else if pd' = cpt then PA2PTE (PTE2PA (E ppt va)) OR cow_flags
      else if pd' = ppt then (E ppt va AND NOT PTE_W) OR PTE_COW
      else E pd' va')"

text \<open>A page that a fork shares: mapped and readable or writable, and not in the filter of freed pages.\<close>

definition readable_entry :: "u64 \<Rightarrow> bool" where
  "readable_entry e \<longleftrightarrow> e AND PTE_V \<noteq> 0 \<and> (e AND PTE_R \<noteq> 0 \<or> e AND PTE_W \<noteq> 0)"

lemma lookup_pa_readable:
  "va < MAXVA \<Longrightarrow> lookup_pa pd va s =
     (Inr (if readable_entry (pt_entry (pmem s) pd va) then PTE2PA (pt_entry (pmem s) pd va) else 0), s)"
  by (auto simp: lookup_pa_eq readable_entry_def Let_def not_less)

lemma user_vm_map_cow_page:
  fixes s :: "'z pmm_state_scheme"
  assumes inv: "vm_inv R s xs" "pd \<in> R" and va: "page_aligned va" "unat va + 4096 \<le> unat MAXVA"
    and unmapped: "pt_entry (pmem s) pd va AND PTE_V = 0" and len: "2 \<le> length xs"
  obtains t ys where "user_vm_map_cow pd va PGSIZE pa s = (Inr (), t)" "vm_frame R s xs t ys" "length xs \<le> length ys + 2"
    "\<And>pd' va'. pd' \<in> R \<Longrightarrow> va' < MAXVA \<Longrightarrow> pt_entry (pmem t) pd' va' =
       (if pd' = pd \<and> ROUNDDOWN va' PGSIZE = va then PA2PTE pa OR cow_flags else pt_entry (pmem s) pd' va')"
proof -
  obtain k where "unat va = 4096 * k" using va(1) by (auto simp: page_aligned_unat)
  then have n: "pages_of va PGSIZE = 1" by (simp add: pages_of_def unat_PGSIZE)
  have rd: "ROUNDDOWN va PGSIZE = va" by (rule ROUNDDOWN_id [OF va(1)])
  have "kwp (user_vm_map_cow pd va PGSIZE pa) (\<lambda>_ t. \<exists>ok. (2 * pages_of va PGSIZE \<le> length xs \<longrightarrow> ok) \<and>
     mapped_range R s xs pd va PGSIZE pa cow_flags ok t) (\<lambda>_ _. False) s"
    by (rule user_vm_map_cow_spec [OF inv]) (use va unmapped in \<open>simp_all add: n rd unat_PGSIZE word_less_nat_alt\<close>)
  from kwp_total_unit [OF this] obtain t where t: "user_vm_map_cow pd va PGSIZE pa s = (Inr (), t)"
    "mapped_range R s xs pd va PGSIZE pa cow_flags True t" using len by (auto simp: n)
  then obtain ys where p: "map_prog R s xs pd va pa cow_flags 1 t ys" "length xs \<le> length ys + 2"
    by (auto simp: mapped_range_def n rd)
  have bd: "unat va + 0 * 4096 < 2 ^ 64" using unat_bound64 [of va] by simp
  have "pt_entry (pmem t) pd' va' =
       (if pd' = pd \<and> ROUNDDOWN va' PGSIZE = va then PA2PTE pa OR cow_flags else pt_entry (pmem s) pd' va')"
    if "pd' \<in> R" "va' < MAXVA" for pd' va'
    using p(1) that map_entries_Suc [OF va(1) bd, of "pt_entry (pmem s)" pd pa] unfolding map_prog_def by simp
  then show thesis using that t(1) p by (auto simp: map_prog_def)
qed

lemma user_vm_set_cow_page:
  fixes s :: "'z pmm_state_scheme"
  assumes inv: "vm_inv R s xs" "pd \<in> R" and va: "page_aligned va" "va < MAXVA"
    and e: "pt_entry (pmem s) pd va AND PTE_V \<noteq> 0"
  obtains t where "user_vm_set_cow pd va s = (Inr (), t)" "vm_frame R s xs t xs"
    "\<And>pd' va'. pd' \<in> R \<Longrightarrow> va' < MAXVA \<Longrightarrow> pt_entry (pmem t) pd' va' =
       (if pd' = pd \<and> ROUNDDOWN va' PGSIZE = va then (pt_entry (pmem s) pd va AND NOT PTE_W) OR PTE_COW
        else pt_entry (pmem s) pd' va')"
proof -
  from kwp_total_unit [OF user_vm_set_cow_spec [OF inv va(2)]] obtain t where t: "user_vm_set_cow pd va s = (Inr (), t)"
    "vm_frame R s xs t xs" and E: "\<forall>pd'\<in>R. \<forall>va'<MAXVA. pt_entry (pmem t) pd' va' =
        (let v = pt_entry (pmem s) pd' va' in
         if pd' = pd \<and> ROUNDDOWN va' PGSIZE = ROUNDDOWN va PGSIZE \<and> v AND PTE_V \<noteq> 0
         then (v AND NOT PTE_W) OR PTE_COW else v)" by blast
  have "pt_entry (pmem t) pd' va' =
       (if pd' = pd \<and> ROUNDDOWN va' PGSIZE = va then (pt_entry (pmem s) pd va AND NOT PTE_W) OR PTE_COW
        else pt_entry (pmem s) pd' va')" if "pd' \<in> R" "va' < MAXVA" for pd' va'
    using E that e pt_entry_page [OF that(2), of "pmem s" pd] by (auto simp: ROUNDDOWN_id [OF va(1)] Let_def)
  then show thesis using that t by blast
qed

lemma inc_page_ref_eq:
  assumes "managed s pa" "pmm_lock s = SPIN_LOCK_FREE"
  shows "inc_page_ref pa s = (Inr (), set_ref (PAGE_INDEX s pa) (ref_of s pa + 1) s)"
  using assms by (auto simp: inc_page_ref_def managed_def krun_defs pmm_op_defs spinlock_amo_lock_def
      spinlock_amo_unlock_def amoswap_d_def not_le not_less set_ref_def)

lemma vm_frame_set_ref:
  assumes "vm_frame R s xs t ys" "managed s pa" "pa \<notin> set xs"
  shows "vm_inv R (set_ref (PAGE_INDEX t pa) n t) ys"
proof -
  obtain zs where "xs = zs @ ys" using vm_frameD(2) [OF assms(1)] by blast
  then show ?thesis using vm_inv_set_ref [OF vm_frameD(1) [OF assms(1)]] vm_frameD(3) [OF assms(1)] assms by auto
qed

lemma fork_heap_page_shares:
  fixes s :: "'z pmm_state_scheme"
  assumes inv: "vm_inv R s xs" "ppt \<in> R" "cpt \<in> R" "ppt \<noteq> cpt" and va: "page_aligned va" "unat va + 4096 \<le> unat MAXVA"
    and flt: "unat ((va - bottom) div PGSIZE) < MAX_HEAP_PAGES" "flt (unat ((va - bottom) div PGSIZE)) = 0"
    and e: "readable_entry (pt_entry (pmem s) ppt va)" "PTE2PA (pt_entry (pmem s) ppt va) = pa"
    and pa: "managed s pa" "pa \<notin> set xs" and child: "pt_entry (pmem s) cpt va AND PTE_V = 0" and len: "2 \<le> length xs"
  obtains t ys where "fork_heap_page ppt cpt flt bottom va s = (Inr (), t)" "vm_inv R t ys" "\<exists>zs. xs = zs @ ys"
    "length xs \<le> length ys + 2" "managed t = managed s"
    "\<And>pd' va'. pd' \<in> R \<Longrightarrow> va' < MAXVA \<Longrightarrow> pt_entry (pmem t) pd' va' = share_page (pt_entry (pmem s)) ppt cpt va pd' va'"
    "\<And>q. managed s q \<Longrightarrow> q \<notin> set xs \<Longrightarrow> ref_of t q = ref_of s q + (if q = pa then 1 else 0)"
    "\<And>q. q \<notin> set xs \<Longrightarrow> (\<And>pd is. \<not> is_table R (pmem s) pd is q) \<Longrightarrow>
       pmem t q = pmem s q \<and> (\<forall>pd is. \<not> is_table R (pmem t) pd is q)"
proof -
  have vm: "va < MAXVA" using va(2) by (simp add: word_less_nat_alt)
  obtain t1 ys where t1: "user_vm_map_cow cpt va PGSIZE pa s = (Inr (), t1)" "vm_frame R s xs t1 ys" "length xs \<le> length ys + 2"
    "\<And>pd' va'. pd' \<in> R \<Longrightarrow> va' < MAXVA \<Longrightarrow> pt_entry (pmem t1) pd' va' =
       (if pd' = cpt \<and> ROUNDDOWN va' PGSIZE = va then PA2PTE pa OR cow_flags else pt_entry (pmem s) pd' va')"
    by (rule user_vm_map_cow_page [OF inv(1,3) va child len]) blast
  have e1: "pt_entry (pmem t1) ppt va AND PTE_V \<noteq> 0" using t1(4) [OF inv(2) vm] inv(4) e by (simp add: readable_entry_def)
  obtain t2 where t2: "user_vm_set_cow ppt va t1 = (Inr (), t2)" "vm_frame R t1 ys t2 ys"
    "\<And>pd' va'. pd' \<in> R \<Longrightarrow> va' < MAXVA \<Longrightarrow> pt_entry (pmem t2) pd' va' =
       (if pd' = ppt \<and> ROUNDDOWN va' PGSIZE = va then (pt_entry (pmem t1) ppt va AND NOT PTE_W) OR PTE_COW
        else pt_entry (pmem t1) pd' va')"
    by (rule user_vm_set_cow_page [OF vm_frameD(1) [OF t1(2)] inv(2) va(1) vm e1]) blast
  note F = vm_frame_trans [OF t1(2) t2(2)]
  define t where "t = set_ref (PAGE_INDEX t2 pa) (ref_of t2 pa + 1) t2"
  have m2: "managed t2 = managed s" using vm_frameD(3) [OF F] .
  have "pmm_lock t2 = SPIN_LOCK_FREE" using vm_frameD(1) [OF F] by (simp add: vm_inv_def pmm_inv_def)
  then have inc: "inc_page_ref pa t2 = (Inr (), t)" using inc_page_ref_eq [of t2 pa] pa(1) m2 by (simp add: t_def)
  have nz: "pa \<noteq> 0" using managed_nonzero pa(1) inv(1) by (auto simp: vm_inv_def pmm_inv_def)
  have run: "fork_heap_page ppt cpt flt bottom va s = (Inr (), t)"
    using flt e lookup_pa_readable [OF vm, of ppt s] nz t1(1) t2(1) inc
    by (simp add: fork_heap_page_def Let_def kbind_def kthen_def not_le)
  have ent: "pt_entry (pmem t) pd' va' = share_page (pt_entry (pmem s)) ppt cpt va pd' va'" if "pd' \<in> R" "va' < MAXVA" for pd' va'
    using t2(3) [OF that] t1(4) [OF that] t1(4) [OF inv(2) vm] inv(4) e(2)
    by (auto simp: t_def share_page_def ROUNDDOWN_id [OF va(1)])
  have ref: "ref_of t q = ref_of s q + (if q = pa then 1 else 0)" if q: "managed s q" "q \<notin> set xs" for q
  proof -
    have "PAGE_INDEX t2 q = PAGE_INDEX t2 pa \<Longrightarrow> q = pa"
      using PAGE_INDEX_inj [of t2 q pa] q pa m2 vm_frameD(1) [OF F] by (auto simp: vm_inv_def pmm_inv_def pmm_bounds_def)
    then show ?thesis using vm_frameD(7) [OF F] q pa by (auto simp: t_def)
  qed
  have mem: "pmem t q = pmem s q \<and> (\<forall>pd is. \<not> is_table R (pmem t) pd is q)"
    if "q \<notin> set xs" "\<And>pd is. \<not> is_table R (pmem s) pd is q" for q
    using vm_frameD(5,6) [OF F] that unfolding t_def set_ref_simps by metis
  have inv': "vm_inv R t ys" unfolding t_def by (rule vm_frame_set_ref [OF F pa])
  have m': "managed t = managed s" using m2 by (simp add: t_def)
  show thesis by (rule that [OF run inv' vm_frameD(2) [OF F] t1(3) m' ent ref mem])
qed

section \<open>Sharing the heap\<close>

definition heap_pages :: "u64 \<Rightarrow> u64 \<Rightarrow> nat" where
  "heap_pages bottom hi = (unat hi - unat bottom + 4095) div 4096"

text \<open>Page \<open>i\<close> of the heap is shared, for the entries \<open>E\<close> at the time of the fork.\<close>

definition fork_live :: "(u64 \<Rightarrow> u64 \<Rightarrow> u64) \<Rightarrow> u64 \<Rightarrow> (nat \<Rightarrow> i32) \<Rightarrow> u64 \<Rightarrow> nat \<Rightarrow> bool" where
  "fork_live E ppt flt bottom i \<longleftrightarrow> flt i = 0 \<and> readable_entry (E ppt (page_at bottom i))"

definition fork_entries :: "(u64 \<Rightarrow> u64 \<Rightarrow> u64) \<Rightarrow> u64 \<Rightarrow> u64 \<Rightarrow> (nat \<Rightarrow> i32) \<Rightarrow> u64 \<Rightarrow> nat \<Rightarrow> u64 \<Rightarrow> u64 \<Rightarrow> u64" where
  "fork_entries E ppt cpt flt bottom k pd' va' =
     (if \<exists>i<k. ROUNDDOWN va' PGSIZE = page_at bottom i \<and> fork_live E ppt flt bottom i
      then share_page E ppt cpt (ROUNDDOWN va' PGSIZE) pd' va' else E pd' va')"

definition fork_refs :: "(u64 \<Rightarrow> u64 \<Rightarrow> u64) \<Rightarrow> u64 \<Rightarrow> (nat \<Rightarrow> i32) \<Rightarrow> u64 \<Rightarrow> nat \<Rightarrow> u64 \<Rightarrow> nat" where
  "fork_refs E ppt flt bottom k q = card {i. i < k \<and> fork_live E ppt flt bottom i \<and> PTE2PA (E ppt (page_at bottom i)) = q}"

lemma fork_refs_Suc:
  "fork_refs E ppt flt bottom (Suc k) q = fork_refs E ppt flt bottom k q +
     (if fork_live E ppt flt bottom k \<and> PTE2PA (E ppt (page_at bottom k)) = q then 1 else 0)"
proof -
  let ?P = "\<lambda>i. fork_live E ppt flt bottom i \<and> PTE2PA (E ppt (page_at bottom i)) = q"
  have "{i. i < Suc k \<and> ?P i} = {i. i < k \<and> ?P i} \<union> (if ?P k then {k} else {})" by (auto simp: less_Suc_eq)
  then show ?thesis by (simp add: fork_refs_def)
qed

lemma fork_entries_Suc:
  assumes "unat bottom + k * 4096 < 2 ^ 64"
  shows "fork_entries E ppt cpt flt bottom (Suc k) pd' va' =
    (if ROUNDDOWN va' PGSIZE = page_at bottom k \<and> fork_live E ppt flt bottom k
     then share_page E ppt cpt (page_at bottom k) pd' va' else fork_entries E ppt cpt flt bottom k pd' va')"
  using page_at_inj [OF assms] by (auto simp: fork_entries_def less_Suc_eq)

lemma fork_entries_new:
  assumes "unat bottom + k * 4096 < 2 ^ 64" "ROUNDDOWN va' PGSIZE = page_at bottom k"
  shows "fork_entries E ppt cpt flt bottom k pd' va' = E pd' va'"
  using page_at_inj [OF assms(1)] assms(2) by (auto simp: fork_entries_def)

lemma page_at_index:
  assumes "unat bottom + k * 4096 < 2 ^ 64"
  shows "unat ((page_at bottom k - bottom) div PGSIZE) = k"
proof -
  have "unat (page_at bottom k - bottom) = k * 4096"
    using unat_page_at [OF assms] by (simp add: unat_sub word_le_nat_alt)
  then show ?thesis by (simp add: unat_div_distrib unat_PGSIZE)
qed

text \<open>The state after \<open>k\<close> pages.\<close>

definition fork_progress :: "u64 set \<Rightarrow> 'z pmm_state_scheme \<Rightarrow> u64 list \<Rightarrow> u64 \<Rightarrow> u64 \<Rightarrow> (nat \<Rightarrow> i32) \<Rightarrow> u64 \<Rightarrow> nat \<Rightarrow>
  'z pmm_state_scheme \<Rightarrow> u64 list \<Rightarrow> bool" where
  "fork_progress R s xs ppt cpt flt bottom k t ys \<longleftrightarrow> vm_inv R t ys \<and> (\<exists>zs. xs = zs @ ys) \<and> length xs \<le> length ys + 2 * k \<and>
     managed t = managed s \<and>
     (\<forall>pd'\<in>R. \<forall>va'<MAXVA. pt_entry (pmem t) pd' va' = fork_entries (pt_entry (pmem s)) ppt cpt flt bottom k pd' va') \<and>
     (\<forall>q. managed s q \<longrightarrow> q \<notin> set xs \<longrightarrow> ref_of t q = ref_of s q + of_nat (fork_refs (pt_entry (pmem s)) ppt flt bottom k q)) \<and>
     (\<forall>q. q \<notin> set xs \<longrightarrow> (\<forall>pd is. \<not> is_table R (pmem s) pd is q) \<longrightarrow>
        pmem t q = pmem s q \<and> (\<forall>pd is. \<not> is_table R (pmem t) pd is q))"

lemma fork_progress_start: "vm_inv R s xs \<Longrightarrow> fork_progress R s xs ppt cpt flt bottom 0 s xs"
  by (simp add: fork_progress_def fork_entries_def fork_refs_def)

lemma fork_progress_step:
  fixes s t :: "'z pmm_state_scheme"
  assumes pr: "fork_progress R s xs ppt cpt flt bottom k t ys" and R: "ppt \<in> R" "cpt \<in> R" "ppt \<noteq> cpt"
    and k: "page_aligned bottom" "unat bottom + Suc k * 4096 \<le> unat MAXVA" "k < MAX_HEAP_PAGES" "2 * Suc k \<le> length xs"
    and pa: "fork_live (pt_entry (pmem s)) ppt flt bottom k \<Longrightarrow>
      managed s (PTE2PA (pt_entry (pmem s) ppt (page_at bottom k))) \<and> PTE2PA (pt_entry (pmem s) ppt (page_at bottom k)) \<notin> set xs"
    and child: "pt_entry (pmem s) cpt (page_at bottom k) AND PTE_V = 0"
  obtains u zs where "fork_heap_page ppt cpt flt bottom (page_at bottom k) t = (Inr (), u)"
    "fork_progress R s xs ppt cpt flt bottom (Suc k) u zs"
proof -
  let ?E = "pt_entry (pmem s)" and ?va = "page_at bottom k"
  have MX: "unat MAXVA = 2 ^ 38" by (simp add: MAXVA_def)
  have bd: "unat bottom + k * 4096 < 2 ^ 64" using k(2) unfolding MX by simp
  have va: "page_aligned ?va" "unat ?va + 4096 \<le> unat MAXVA" "?va < MAXVA"
    using page_at_aligned [OF k(1)] unat_page_at [OF bd] k(2) by (auto simp: word_less_nat_alt)
  have idx: "unat ((?va - bottom) div PGSIZE) = k" by (rule page_at_index [OF bd])
  have P: "vm_inv R t ys" "\<exists>zs. xs = zs @ ys" "length xs \<le> length ys + 2 * k" "managed t = managed s"
    "\<And>pd' va'. pd' \<in> R \<Longrightarrow> va' < MAXVA \<Longrightarrow> pt_entry (pmem t) pd' va' = fork_entries ?E ppt cpt flt bottom k pd' va'"
    "\<And>q. managed s q \<Longrightarrow> q \<notin> set xs \<Longrightarrow> ref_of t q = ref_of s q + of_nat (fork_refs ?E ppt flt bottom k q)"
    "\<And>q. q \<notin> set xs \<Longrightarrow> (\<And>pd is. \<not> is_table R (pmem s) pd is q) \<Longrightarrow> pmem t q = pmem s q \<and> (\<forall>pd is. \<not> is_table R (pmem t) pd is q)"
    using pr by (auto simp: fork_progress_def)
  have new: "pt_entry (pmem t) pd' va' = ?E pd' va'" if "pd' \<in> R" "va' < MAXVA" "ROUNDDOWN va' PGSIZE = ?va" for pd' va'
    using P(5) [OF that(1,2)] fork_entries_new [OF bd that(3)] by simp
  have here: "pt_entry (pmem t) pd' ?va = ?E pd' ?va" if "pd' \<in> R" for pd'
    using new [OF that va(3)] ROUNDDOWN_id [OF va(1)] by simp
  show thesis
  proof (cases "fork_live ?E ppt flt bottom k")
    case False
    have "fork_heap_page ppt cpt flt bottom ?va t = (Inr (), t)"
      using False k(3) lookup_pa_readable [OF va(3), of ppt t] here [OF R(1)]
      by (auto simp: fork_heap_page_def Let_def idx fork_live_def kreturn_def kbind_def not_le)
    moreover have "fork_progress R s xs ppt cpt flt bottom (Suc k) t ys"
      using pr False unfolding fork_progress_def by (auto simp: fork_entries_Suc [OF bd] fork_refs_Suc)
    ultimately show thesis by (rule that)
  next
    case True
    note L = True [unfolded fork_live_def]
    have len: "2 \<le> length ys" using P(3) k(4) by simp
    have paY: "PTE2PA (?E ppt ?va) \<notin> set ys" using pa [OF True] P(2) by auto
    obtain u zs where u: "fork_heap_page ppt cpt flt bottom ?va t = (Inr (), u)" "vm_inv R u zs" "\<exists>ws. ys = ws @ zs"
      "length ys \<le> length zs + 2" "managed u = managed t"
      "\<And>pd' va'. pd' \<in> R \<Longrightarrow> va' < MAXVA \<Longrightarrow> pt_entry (pmem u) pd' va' = share_page (pt_entry (pmem t)) ppt cpt ?va pd' va'"
      "\<And>q. managed t q \<Longrightarrow> q \<notin> set ys \<Longrightarrow> ref_of u q = ref_of t q + (if q = PTE2PA (?E ppt ?va) then 1 else 0)"
      "\<And>q. q \<notin> set ys \<Longrightarrow> (\<And>pd is. \<not> is_table R (pmem t) pd is q) \<Longrightarrow>
         pmem u q = pmem t q \<and> (\<forall>pd is. \<not> is_table R (pmem u) pd is q)"
      by (rule fork_heap_page_shares [OF P(1) R va(1,2), of bottom flt "PTE2PA (?E ppt ?va)"])
        (use L k(3) idx here R pa [OF True] P(4) paY child len in \<open>simp_all\<close>)
    have sub: "q \<notin> set xs \<Longrightarrow> q \<notin> set ys" for q using P(2) by auto
    have "share_page (pt_entry (pmem t)) ppt cpt ?va pd' va' = fork_entries ?E ppt cpt flt bottom (Suc k) pd' va'"
      if "pd' \<in> R" "va' < MAXVA" for pd' va'
      using new [OF that] here [OF R(1)] P(5) [OF that] True by (auto simp: share_page_def fork_entries_Suc [OF bd])
    then have "fork_progress R s xs ppt cpt flt bottom (Suc k) u zs"
      unfolding fork_progress_def
      using u P sub True by (auto simp: fork_refs_Suc)
    with u(1) show thesis by (rule that)
  qed
qed

lemma heap_pages_less:
  assumes "unat bottom + heap_pages bottom hi * 4096 < 2 ^ 64"
  shows "k \<le> heap_pages bottom hi \<Longrightarrow> page_at bottom k < hi \<longleftrightarrow> k < heap_pages bottom hi"
proof -
  assume k: "k \<le> heap_pages bottom hi"
  then have "unat (page_at bottom k) = unat bottom + k * 4096" using assms by (intro unat_page_at) simp
  moreover have "unat bottom + k * 4096 < unat hi \<longleftrightarrow> k < (unat hi - unat bottom + 4095) div 4096" by linarith
  ultimately show ?thesis by (simp add: word_less_nat_alt heap_pages_def)
qed

lemma fork_loop:
  fixes s :: "'z pmm_state_scheme"
  assumes inv: "vm_inv R s xs" and R: "ppt \<in> R" "cpt \<in> R" "ppt \<noteq> cpt" and al: "page_aligned bottom"
    and n: "n = heap_pages bottom hi" "unat bottom + n * 4096 \<le> unat MAXVA" "n \<le> MAX_HEAP_PAGES" "2 * n \<le> length xs"
    and pa: "\<And>i. i < n \<Longrightarrow> fork_live (pt_entry (pmem s)) ppt flt bottom i \<Longrightarrow>
      managed s (PTE2PA (pt_entry (pmem s) ppt (page_at bottom i))) \<and> PTE2PA (pt_entry (pmem s) ppt (page_at bottom i)) \<notin> set xs"
    and child: "\<And>i. i < n \<Longrightarrow> pt_entry (pmem s) cpt (page_at bottom i) AND PTE_V = 0"
  shows "kwp (kwhile page_loop_bound (\<lambda>a. a < hi) (\<lambda>a. kthen (fork_heap_page ppt cpt flt bottom a) (kreturn (a + PGSIZE))) bottom)
    (\<lambda>_ t. \<exists>ys. fork_progress R s xs ppt cpt flt bottom n t ys) (\<lambda>_ _. False) s"
proof -
  have MX: "unat MAXVA = 2 ^ 38" by (simp add: MAXVA_def)
  have bd: "unat bottom + n * 4096 < 2 ^ 64" using n(2) unfolding MX by simp
  let ?I = "\<lambda>a t. \<exists>k\<le>n. a = page_at bottom k \<and> (\<exists>ys. fork_progress R s xs ppt cpt flt bottom k t ys)"
  let ?\<mu> = "\<lambda>a. n - unat ((a - bottom) div PGSIZE)"
  have less: "page_at bottom k < hi \<longleftrightarrow> k < n" if "k \<le> n" for k
    using heap_pages_less [of bottom hi k] bd that n(1) by simp
  have idx: "unat ((page_at bottom k - bottom) div PGSIZE) = k" if "k \<le> n" for k
    using page_at_index [of bottom k] that bd by simp
  show ?thesis
  proof (rule kwp_while [where I = ?I and \<mu> = ?\<mu>])
    show "?I bottom s" using fork_progress_start [OF inv] by (intro exI [of _ 0] conjI exI [of _ xs]) auto
    show "?\<mu> bottom \<le> page_loop_bound" using n(3) by (simp add: page_loop_bound_def MAX_HEAP_PAGES_def)
  next
    fix a t assume "?I a t" "a < hi"
    then obtain k ys where k: "k < n" "a = page_at bottom k" "fork_progress R s xs ppt cpt flt bottom k t ys" using less by auto
    obtain u zs where "fork_heap_page ppt cpt flt bottom (page_at bottom k) t = (Inr (), u)"
      "fork_progress R s xs ppt cpt flt bottom (Suc k) u zs"
      by (rule fork_progress_step [OF k(3) R al]) (use k(1) n pa child in \<open>auto\<close>)
    then show "kwp (kthen (fork_heap_page ppt cpt flt bottom a) (kreturn (a + PGSIZE)))
       (\<lambda>z u. ?I z u \<and> ?\<mu> z < ?\<mu> a) (\<lambda>_ _. False) t"
      using k(1) idx [of k] idx [of "Suc k"] unfolding k(2)
      by (auto simp: kwp_def kthen_def kbind_def kreturn_def page_at_Suc intro!: exI [of _ "Suc k"])
  next
    fix a t assume "?I a t" "\<not> a < hi"
    then show "\<exists>ys. fork_progress R s xs ppt cpt flt bottom n t ys" using less le_neq_implies_less by metis
  next
    fix a t assume "?I a t" "a < hi"
    then show "0 < ?\<mu> a" using less idx by auto
  qed
qed

lemma fill_filter_eq:
  assumes "\<forall>i\<in>set is. i < MAX_HEAP_PAGES \<and> 0 \<le> heap_index (addr i) bottom \<and> heap_index (addr i) bottom < int MAX_HEAP_PAGES"
  shows "fill_filter addr bottom is flt s =
    (Inr (\<lambda>k. if \<exists>i\<in>set is. heap_index (addr i) bottom = int k then 1 else flt k), s)"
  using assms by (induction "is" arbitrary: flt) (auto simp: kreturn_def Let_def fun_eq_iff)

lemma heap_index_page:
  assumes "unat bottom + k * 4096 < 2 ^ 64" "k < 2 ^ 31"
  shows "heap_index (page_at bottom k) bottom = int k"
proof -
  have "(page_at bottom k - bottom) div PGSIZE = of_nat k"
    using page_at_index [OF assms(1)] by (metis of_nat_unat ucast_id)
  moreover have "take_bit 64 k = k" using assms(2) by (intro take_bit_nat_eq_self) simp
  ultimately have "heap_index (page_at bottom k) bottom = sint (of_nat k :: i32)"
    by (simp add: heap_index_def unsigned_of_nat)
  then show ?thesis using assms(2) by (simp add: signed_of_nat signed_take_bit_int_eq_self)
qed

section \<open>The heap after a fork\<close>

text \<open>
  A heap page that the fork shares: it is not in the list of freed pages, it is mapped for reading or writing, and the fork's
  filter lets it through.  The filter is a local array of 32 ints of which the \<open>memset\<close> clears 32 bytes, so from its ninth
  element on it holds what was on the stack, \<open>junk\<close>, and a page from the ninth on passes only where that happens to be 0.
\<close>

definition heap_page_shared :: "process \<Rightarrow> (nat \<Rightarrow> i32) \<Rightarrow> (u64 \<Rightarrow> u64) \<Rightarrow> nat \<Rightarrow> bool" where
  "heap_page_shared pr junk e i \<longleftrightarrow> i < heap_pages (heap_bottom pr) (heap_top pr) \<and> (i < 8 \<or> junk i = 0) \<and>
     page_at (heap_bottom pr) i \<notin> free_pages_address pr ` {..<unat (free_pages_count pr)} \<and>
     readable_entry (e (page_at (heap_bottom pr) i))"

text \<open>
  The heap of a process: page aligned, below the top of the virtual addresses, of at most \<open>MAX_HEAP_PAGES\<close> = 32 pages (the
  length of the fork's filter and of the list of freed pages), its freed pages among them.
\<close>

definition heap_ok :: "process \<Rightarrow> bool" where
  "heap_ok pr \<longleftrightarrow> (let n = heap_pages (heap_bottom pr) (heap_top pr) in
     page_aligned (heap_bottom pr) \<and> n \<le> MAX_HEAP_PAGES \<and> unat (heap_bottom pr) + n * 4096 \<le> unat MAXVA \<and>
     unat (free_pages_count pr) \<le> MAX_HEAP_PAGES \<and>
     (\<forall>j<unat (free_pages_count pr). \<exists>i<n. free_pages_address pr j = page_at (heap_bottom pr) i))"

lemma fork_filter:
  assumes "heap_ok pr"
  obtains flt where "\<And>s :: 'z pmm_state_scheme. fill_filter (free_pages_address pr) (heap_bottom pr) [0..<unat (free_pages_count pr)]
       (\<lambda>i. if i < 8 then 0 else junk i) s = (Inr flt, s)"
    "\<And>E ppt i. i < heap_pages (heap_bottom pr) (heap_top pr) \<Longrightarrow>
       fork_live E ppt flt (heap_bottom pr) i \<longleftrightarrow> heap_page_shared pr junk (E ppt) i"
proof -
  let ?b = "heap_bottom pr" and ?n = "heap_pages (heap_bottom pr) (heap_top pr)" and ?c = "unat (free_pages_count pr)"
  have h: "?n \<le> MAX_HEAP_PAGES" "unat ?b + ?n * 4096 < 2 ^ 64" "?c \<le> MAX_HEAP_PAGES"
    "\<And>j. j < ?c \<Longrightarrow> \<exists>i<?n. free_pages_address pr j = page_at ?b i"
    using assms by (auto simp: heap_ok_def Let_def MAXVA_def)
  have idx: "heap_index (page_at ?b i) ?b = int i" if "i < ?n" for i
    using that h(1,2) by (intro heap_index_page) (auto simp: MAX_HEAP_PAGES_def)
  have inj: "page_at ?b i = page_at ?b j \<longleftrightarrow> i = j" if "i < ?n" "j < ?n" for i j
    using page_at_inj [OF h(2)] that by simp
  have ok: "\<forall>i\<in>set [0..<?c]. i < MAX_HEAP_PAGES \<and> 0 \<le> heap_index (free_pages_address pr i) ?b \<and>
      heap_index (free_pages_address pr i) ?b < int MAX_HEAP_PAGES"
    using h idx by (fastforce simp: MAX_HEAP_PAGES_def)
  have hit: "(\<exists>j\<in>set [0..<?c]. heap_index (free_pages_address pr j) ?b = int i) \<longleftrightarrow> page_at ?b i \<in> free_pages_address pr ` {..<?c}"
    if "i < ?n" for i
  proof -
    have "heap_index (free_pages_address pr j) ?b = int i \<longleftrightarrow> page_at ?b i = free_pages_address pr j" if "j < ?c" for j
      using h(4) [OF that] idx inj \<open>i < ?n\<close> by fastforce
    then show ?thesis by auto
  qed
  show thesis
    by (rule that [OF fill_filter_eq [OF ok]]) (use h(1) hit in \<open>auto simp: fork_live_def heap_page_shared_def\<close>)
qed

lemma keeps_fork [keeps]: "keeps_more (user_vm_map_cow pd va sz pa)" "keeps_more (user_vm_set_cow pd va)"
  "keeps_more (fork_heap_page ppt cpt flt bottom a)" "keeps_more (get_region m i)"
  unfolding user_vm_map_cow_def user_vm_set_cow_def fork_heap_page_def get_region_def Let_def
  by (intro keeps; simp)+

text \<open>The loop of \<open>fork_heap\<close>, with its effect on the page tables of the two processes.\<close>

lemma fork_heap_loop:
  fixes s :: "'z kernel_state_scheme"
  assumes inv: "vm_inv R s xs" and R: "ppt \<in> R" "cpt \<in> R" "ppt \<noteq> cpt" and ok: "heap_ok pr"
    and len: "2 * heap_pages (heap_bottom pr) (heap_top pr) \<le> length xs"
    and pa: "\<And>i. heap_page_shared pr junk (pt_entry (pmem s) ppt) i \<Longrightarrow>
      managed s (PTE2PA (pt_entry (pmem s) ppt (page_at (heap_bottom pr) i))) \<and>
      PTE2PA (pt_entry (pmem s) ppt (page_at (heap_bottom pr) i)) \<notin> set xs"
    and child: "\<And>i. i < heap_pages (heap_bottom pr) (heap_top pr) \<Longrightarrow> pt_entry (pmem s) cpt (page_at (heap_bottom pr) i) AND PTE_V = 0"
    and flt: "\<And>E ppt i. i < heap_pages (heap_bottom pr) (heap_top pr) \<Longrightarrow>
       fork_live E ppt flt (heap_bottom pr) i \<longleftrightarrow> heap_page_shared pr junk (E ppt) i"
  obtains a t ys where "kwhile page_loop_bound (\<lambda>a. a < heap_top pr)
      (\<lambda>a. kthen (fork_heap_page ppt cpt flt (heap_bottom pr) a) (kreturn (a + PGSIZE))) (heap_bottom pr) s = (Inr a, t)"
    "fork_progress R s xs ppt cpt flt (heap_bottom pr) (heap_pages (heap_bottom pr) (heap_top pr)) t ys"
    "pmm_state.more t = pmm_state.more s"
proof -
  let ?loop = "kwhile page_loop_bound (\<lambda>a. a < heap_top pr)
      (\<lambda>a. kthen (fork_heap_page ppt cpt flt (heap_bottom pr) a) (kreturn (a + PGSIZE))) (heap_bottom pr)"
  have "kwp ?loop (\<lambda>_ t. \<exists>ys. fork_progress R s xs ppt cpt flt (heap_bottom pr) (heap_pages (heap_bottom pr) (heap_top pr)) t ys)
      (\<lambda>_ _. False) s"
    by (rule fork_loop [OF inv R _ refl]) (use ok len pa child flt in \<open>auto simp: heap_ok_def Let_def MAX_HEAP_PAGES_def\<close>)
  from kwp_total [OF this] obtain a t ys where "?loop s = (Inr a, t)"
    "fork_progress R s xs ppt cpt flt (heap_bottom pr) (heap_pages (heap_bottom pr) (heap_top pr)) t ys" by blast
  moreover from this(1) have "pmm_state.more t = pmm_state.more s"
    by (rule keeps_run [rotated]) (intro keeps)
  ultimately show thesis by (rule that)
qed

lemma fork_heap_effect:
  fixes s :: "'z kernel_state_scheme" and par child :: nat
  defines "ppt \<equiv> pagetable (procs s par)" and "cpt \<equiv> pagetable (procs s child)" and "b \<equiv> heap_bottom (procs s par)"
    and "pinfo \<equiv> mapped_info (procs s par)" and "cinfo \<equiv> mapped_info (procs s child)"
  assumes inv: "vm_inv R s xs" "ppt \<in> R" "cpt \<in> R" "ppt \<noteq> cpt" and cur: "current s tp = Some par" and ok: "heap_ok (procs s par)"
    and len: "2 * heap_pages b (heap_top (procs s par)) \<le> length xs"
    and pa: "\<And>i. heap_page_shared (procs s par) junk (pt_entry (pmem s) ppt) i \<Longrightarrow>
      managed s (PTE2PA (pt_entry (pmem s) ppt (page_at b i))) \<and> PTE2PA (pt_entry (pmem s) ppt (page_at b i)) \<notin> set xs"
    and unmapped: "\<And>i. i < heap_pages b (heap_top (procs s par)) \<Longrightarrow> pt_entry (pmem s) cpt (page_at b i) AND PTE_V = 0"
    and info: "pinfo \<noteq> 0" "pinfo \<notin> set xs" "\<And>pd is. \<not> is_table R (pmem s) pd is pinfo"
      "cinfo \<noteq> 0" "cinfo \<notin> set xs" "\<And>pd is. \<not> is_table R (pmem s) pd is cinfo" "pinfo \<noteq> cinfo"
  obtains t ys flt where "fork_heap tp par child junk s = (Inr (), t)" "vm_inv R t ys" "\<exists>zs. xs = zs @ ys"
    "\<And>E ppt i. i < heap_pages b (heap_top (procs s par)) \<Longrightarrow> fork_live E ppt flt b i \<longleftrightarrow> heap_page_shared (procs s par) junk (E ppt) i"
    "\<And>pd va. pd \<in> R \<Longrightarrow> va < MAXVA \<Longrightarrow>
       pt_entry (pmem t) pd va = fork_entries (pt_entry (pmem s)) ppt cpt flt b (heap_pages b (heap_top (procs s par))) pd va"
    "\<And>q. managed s q \<Longrightarrow> q \<notin> set xs \<Longrightarrow>
       ref_of t q = ref_of s q + of_nat (fork_refs (pt_entry (pmem s)) ppt flt b (heap_pages b (heap_top (procs s par))) q)"
    "\<And>q. q \<notin> set xs \<Longrightarrow> q \<noteq> cinfo \<Longrightarrow> (\<And>pd is. \<not> is_table R (pmem s) pd is q) \<Longrightarrow> pmem t q = pmem s q"
    "reg_npages (region_of (pmem t cinfo) HEAP_SEGMENT) = reg_npages (region_of (pmem s pinfo) HEAP_SEGMENT)"
    "procs t = (procs s)(child := (procs s child)\<lparr>heap_top := heap_top (procs s par), heap_bottom := b,
      free_pages_address := free_pages_address (procs s par), free_pages_count := free_pages_count (procs s par)\<rparr>)"
proof -
  let ?pr = "procs s par" and ?E = "pt_entry (pmem s)"
  let ?n = "heap_pages (heap_bottom ?pr) (heap_top ?pr)"
  obtain flt where flt: "\<And>s :: 'z kernel_state_scheme. fill_filter (free_pages_address ?pr) (heap_bottom ?pr) [0..<unat (free_pages_count ?pr)]
       (\<lambda>i. if i < 8 then 0 else junk i) s = (Inr flt, s)"
    "\<And>E ppt i. i < ?n \<Longrightarrow> fork_live E ppt flt (heap_bottom ?pr) i \<longleftrightarrow> heap_page_shared ?pr junk (E ppt) i"
    by (rule fork_filter [OF ok, where junk = junk]) blast
  obtain a u ys where u: "kwhile page_loop_bound (\<lambda>a. a < heap_top ?pr)
      (\<lambda>a. kthen (fork_heap_page ppt cpt flt b a) (kreturn (a + PGSIZE))) b s = (Inr a, u)"
    "fork_progress R s xs ppt cpt flt b ?n u ys" "pmm_state.more u = pmm_state.more s"
    by (rule fork_heap_loop [OF inv ok]) (use len pa unmapped flt(2) in \<open>auto simp: b_def\<close>)
  have P: "vm_inv R u ys" "\<exists>zs. xs = zs @ ys" "managed u = managed s"
    "\<And>pd' va'. pd' \<in> R \<Longrightarrow> va' < MAXVA \<Longrightarrow> pt_entry (pmem u) pd' va' = fork_entries ?E ppt cpt flt b ?n pd' va'"
    "\<And>q. managed s q \<Longrightarrow> q \<notin> set xs \<Longrightarrow> ref_of u q = ref_of s q + of_nat (fork_refs ?E ppt flt b ?n q)"
    "\<And>q. q \<notin> set xs \<Longrightarrow> (\<And>pd is. \<not> is_table R (pmem s) pd is q) \<Longrightarrow> pmem u q = pmem s q \<and> (\<forall>pd is. \<not> is_table R (pmem u) pd is q)"
    using u(2) by (auto simp: fork_progress_def)
  define r where "r = (region_of (pmem u cinfo) HEAP_SEGMENT)\<lparr>reg_npages := reg_npages (region_of (pmem u pinfo) HEAP_SEGMENT)\<rparr>"
  define v where "v = set_page cinfo (region_words HEAP_SEGMENT r (pmem u cinfo)) u"
  have ciD: "\<And>pd is. \<not> is_table R (pmem u) pd is cinfo" "cinfo \<notin> set ys" using P(6) [OF info(5,6)] P(2) info(5) by auto
  note V = vm_set_page_data [OF P(1) ciD, folded v_def]
  define t where "t = v\<lparr>procs := (procs v)(child := (procs v child)\<lparr>heap_top := heap_top ?pr, heap_bottom := heap_bottom ?pr,
      free_pages_address := free_pages_address ?pr, free_pages_count := free_pages_count ?pr\<rparr>)\<rparr>"
  have run: "fork_heap tp par child junk s = (Inr (), t)"
    using flt(1) [of s] u(1) info(1,4) cur_eq [OF cur]
    by (simp add: fork_heap_def kbind_def kthen_def kget_def kput_def upd_proc_def get_region_def set_region_def HEAP_SEGMENT_def
        ppt_def cpt_def b_def pinfo_def cinfo_def r_def v_def t_def)
  have T: "pmem t = (pmem u)(cinfo := region_words HEAP_SEGMENT r (pmem u cinfo))" "page_ref_count t = page_ref_count u"
    "managed t = managed u" "PAGE_INDEX t = PAGE_INDEX u" "vm_inv R t ys" "procs u = procs s"
    using V(1) kernel_fields(1) [OF u(3)] by (auto simp: t_def v_def vm_inv_def pmm_inv_def pmm_bounds_def managed_def PAGE_INDEX_def MAX_PAGE_NUM_def set_page_def fun_eq_iff)
  have ent: "pt_entry (pmem t) pd va = fork_entries ?E ppt cpt flt b ?n pd va" if "pd \<in> R" "va < MAXVA" for pd va
    using V(2) [OF that(1)] P(4) [OF that] by (simp add: t_def v_def)
  have ref: "ref_of t q = ref_of s q + of_nat (fork_refs ?E ppt flt b ?n q)" if "managed s q" "q \<notin> set xs" for q
    using P(5) [OF that] by (simp add: T(2,4))
  have mem: "pmem t q = pmem s q" if "q \<notin> set xs" "q \<noteq> cinfo" "\<And>pd is. \<not> is_table R (pmem s) pd is q" for q
    using P(6) [OF that(1,3)] that(2) by (simp add: T(1))
  have nps: "reg_npages (region_of (pmem t cinfo) HEAP_SEGMENT) = reg_npages (region_of (pmem s pinfo) HEAP_SEGMENT)"
    using P(6) [OF info(2,3)] by (simp add: T(1) r_def region_of_region_words HEAP_SEGMENT_def)
  have prt: "procs t = (procs s)(child := (procs s child)\<lparr>heap_top := heap_top ?pr, heap_bottom := b,
      free_pages_address := free_pages_address ?pr, free_pages_count := free_pages_count ?pr\<rparr>)"
    using T(6) by (simp add: t_def v_def b_def)
  show thesis
    by (rule that [OF run T(5) P(2) _ _ _ mem nps prt]) (use flt(2) ent ref in \<open>simp_all add: b_def\<close>)
qed

text \<open>
  C1. Fork shares the heap copy-on-write: when the running process \<open>par\<close>, whose heap has at most 32 pages
  (\<open>MAX_HEAP_PAGES\<close>, \<open>heap_ok\<close>), forks \<open>child\<close>, whose heap addresses are still
  unmapped, two pages are free for every heap page, the frames of the shared pages are pages of the allocator that are not free, and
  the region tables of the two processes are pages of their own (no free page and no page table), the heap part of \<open>do_fork\<close> returns.  Afterwards every heap page
  of the parent that is mapped for reading or writing, is not in its list of freed pages and is let through by the fork's filter
  (\<open>heap_page_shared\<close>) is mapped in the child, valid, copy-on-write
  and not writable, to the frame the parent has, and the parent's own entry has lost its write permission and is copy-on-write;
  every other entry of every page table is as before.  The filter lets each of the first eight pages through; the \<open>memset\<close> of
  \<open>do_fork\<close> clears 32 bytes of the filter's 32 ints, so a page from the ninth on is shared only where the stack
  content \<open>junk\<close> is 0 and is otherwise skipped, like a freed page: it stays unmapped in the child.  The reference count of a frame grows by the number of heap pages
  that map it, no data page other than the child's region table changes, and the child has the parent's heap bounds, freed
  pages and number of heap pages.
\<close>

theorem fork_shares_heap:
  fixes s :: "'z kernel_state_scheme" and par child :: nat
  defines "ppt \<equiv> pagetable (procs s par)" and "cpt \<equiv> pagetable (procs s child)" and "b \<equiv> heap_bottom (procs s par)"
    and "pinfo \<equiv> mapped_info (procs s par)" and "cinfo \<equiv> mapped_info (procs s child)"
  assumes inv: "vm_inv R s xs" "ppt \<in> R" "cpt \<in> R" "ppt \<noteq> cpt" and cur: "current s tp = Some par" and ok: "heap_ok (procs s par)"
    and len: "2 * heap_pages b (heap_top (procs s par)) \<le> length xs"
    and pa: "\<And>i. heap_page_shared (procs s par) junk (pt_entry (pmem s) ppt) i \<Longrightarrow>
      managed s (PTE2PA (pt_entry (pmem s) ppt (page_at b i))) \<and> PTE2PA (pt_entry (pmem s) ppt (page_at b i)) \<notin> set xs"
    and unmapped: "\<And>i. i < heap_pages b (heap_top (procs s par)) \<Longrightarrow> pt_entry (pmem s) cpt (page_at b i) AND PTE_V = 0"
    and info: "pinfo \<noteq> 0" "pinfo \<notin> set xs" "\<And>pd is. \<not> is_table R (pmem s) pd is pinfo"
      "cinfo \<noteq> 0" "cinfo \<notin> set xs" "\<And>pd is. \<not> is_table R (pmem s) pd is cinfo" "pinfo \<noteq> cinfo"
  shows "\<exists>t ys. fork_heap tp par child junk s = (Inr (), t) \<and> vm_inv R t ys \<and> (\<exists>zs. xs = zs @ ys) \<and>
    (\<forall>i. heap_page_shared (procs s par) junk (pt_entry (pmem s) ppt) i \<longrightarrow>
       pt_entry (pmem t) cpt (page_at b i) =
         PA2PTE (PTE2PA (pt_entry (pmem s) ppt (page_at b i))) OR PTE_R OR PTE_A OR PTE_U OR PTE_COW OR PTE_V \<and>
       pt_entry (pmem t) ppt (page_at b i) = (pt_entry (pmem s) ppt (page_at b i) AND NOT PTE_W) OR PTE_COW) \<and>
    (\<forall>pd\<in>R. \<forall>va<MAXVA. (pd \<noteq> ppt \<and> pd \<noteq> cpt \<or>
         \<not> (\<exists>i. heap_page_shared (procs s par) junk (pt_entry (pmem s) ppt) i \<and> ROUNDDOWN va PGSIZE = page_at b i)) \<longrightarrow>
       pt_entry (pmem t) pd va = pt_entry (pmem s) pd va) \<and>
    (\<forall>q. managed s q \<and> q \<notin> set xs \<longrightarrow> ref_of t q = ref_of s q +
       of_nat (card {i. heap_page_shared (procs s par) junk (pt_entry (pmem s) ppt) i \<and> PTE2PA (pt_entry (pmem s) ppt (page_at b i)) = q})) \<and>
    (\<forall>q. q \<notin> set xs \<and> q \<noteq> cinfo \<and> (\<forall>pd is. \<not> is_table R (pmem s) pd is q) \<longrightarrow> pmem t q = pmem s q) \<and>
    reg_npages (region_of (pmem t cinfo) HEAP_SEGMENT) = reg_npages (region_of (pmem s pinfo) HEAP_SEGMENT) \<and>
    procs t = (procs s)(child := (procs s child)\<lparr>heap_top := heap_top (procs s par), heap_bottom := b,
      free_pages_address := free_pages_address (procs s par), free_pages_count := free_pages_count (procs s par)\<rparr>)"
proof -
  let ?pr = "procs s par" and ?E = "pt_entry (pmem s)"
  let ?n = "heap_pages b (heap_top ?pr)"
  obtain t ys flt where t: "fork_heap tp par child junk s = (Inr (), t)" "vm_inv R t ys" "\<exists>zs. xs = zs @ ys"
    and flt: "\<And>E ppt i. i < ?n \<Longrightarrow> fork_live E ppt flt b i \<longleftrightarrow> heap_page_shared ?pr junk (E ppt) i"
    and ent: "\<And>pd va. pd \<in> R \<Longrightarrow> va < MAXVA \<Longrightarrow> pt_entry (pmem t) pd va = fork_entries ?E ppt cpt flt b ?n pd va"
    and ref: "\<And>q. managed s q \<Longrightarrow> q \<notin> set xs \<Longrightarrow> ref_of t q = ref_of s q + of_nat (fork_refs ?E ppt flt b ?n q)"
    and mem: "\<And>q. q \<notin> set xs \<Longrightarrow> q \<noteq> cinfo \<Longrightarrow> (\<And>pd is. \<not> is_table R (pmem s) pd is q) \<Longrightarrow> pmem t q = pmem s q"
    and nps: "reg_npages (region_of (pmem t cinfo) HEAP_SEGMENT) = reg_npages (region_of (pmem s pinfo) HEAP_SEGMENT)"
    and prt: "procs t = (procs s)(child := (procs s child)\<lparr>heap_top := heap_top ?pr, heap_bottom := b,
      free_pages_address := free_pages_address ?pr, free_pages_count := free_pages_count ?pr\<rparr>)"
    by (rule fork_heap_effect [of R s xs par child tp, where junk = junk, folded ppt_def cpt_def b_def pinfo_def cinfo_def,
          OF inv cur ok len pa unmapped info]) blast+
  have live: "(\<exists>i<?n. ROUNDDOWN va PGSIZE = page_at b i \<and> fork_live ?E ppt flt b i) \<longleftrightarrow>
      (\<exists>i. heap_page_shared ?pr junk (?E ppt) i \<and> ROUNDDOWN va PGSIZE = page_at b i)" for va
    using flt by (auto simp: heap_page_shared_def b_def)
  have refs: "{i. i < ?n \<and> fork_live ?E ppt flt b i \<and> PTE2PA (?E ppt (page_at b i)) = q} =
      {i. heap_page_shared ?pr junk (?E ppt) i \<and> PTE2PA (?E ppt (page_at b i)) = q}" for q
    using flt by (auto simp: heap_page_shared_def b_def)
  have page: "ROUNDDOWN (page_at b i) PGSIZE = page_at b i" "page_at b i < MAXVA" if "i < ?n" for i
  proof -
    have "page_aligned b" "unat b + ?n * 4096 \<le> 2 ^ 38" using ok by (auto simp: heap_ok_def Let_def b_def MAXVA_def)
    then show "ROUNDDOWN (page_at b i) PGSIZE = page_at b i" "page_at b i < MAXVA"
      using that unat_page_at [of b i] by (auto intro!: ROUNDDOWN_id page_at_aligned simp: word_less_nat_alt MAXVA_def)
  qed
  have shared: "pt_entry (pmem t) cpt (page_at b i) = PA2PTE (PTE2PA (?E ppt (page_at b i))) OR cow_flags \<and>
       pt_entry (pmem t) ppt (page_at b i) = (?E ppt (page_at b i) AND NOT PTE_W) OR PTE_COW"
    if i: "heap_page_shared ?pr junk (?E ppt) i" for i
  proof -
    have n: "i < ?n" using i by (simp add: heap_page_shared_def b_def)
    show ?thesis using ent [OF inv(3) page(2) [OF n]] ent [OF inv(2) page(2) [OF n]] live [of "page_at b i"] i inv(4)
      by (auto simp: fork_entries_def page(1) [OF n] share_page_def)
  qed
  have same: "pt_entry (pmem t) pd va = ?E pd va" if "pd \<in> R" "va < MAXVA" "pd \<noteq> ppt \<and> pd \<noteq> cpt \<or>
      \<not> (\<exists>i. heap_page_shared ?pr junk (?E ppt) i \<and> ROUNDDOWN va PGSIZE = page_at b i)" for pd va
    using ent [OF that(1,2)] that(3) live [of va] by (auto simp: fork_entries_def share_page_def)
  have "ref_of t q = ref_of s q + of_nat (card {i. heap_page_shared ?pr junk (?E ppt) i \<and> PTE2PA (?E ppt (page_at b i)) = q})"
    if "managed s q" "q \<notin> set xs" for q
    using ref [OF that] by (simp add: fork_refs_def refs)
  then show ?thesis
    by (intro exI [of _ t], intro exI [of _ ys]) (use t shared same mem nps prt in \<open>intro conjI; simp\<close>)
qed

section \<open>An example of a fork\<close>

text \<open>
  \<open>demo_task\<close> with page 0x10000 as its heap, and process 5 as the child, with an empty page table at 0x8000b000 and its
  regions at 0x8000c000.
\<close>

definition demo_fork :: fs_state where
  "demo_fork = (demo_task 0x200018d7 1)\<lparr>procs := (procs (demo_task 0x200018d7 1))(
     3 := (procs (demo_task 0x200018d7 1) 3)\<lparr>heap_top := 0x11000, heap_bottom := 0x10000\<rparr>,
     5 := zero_process\<lparr>pagetable := 0x8000b000, mapped_info := 0x8000c000\<rparr>)\<rparr>"

lemma demo_fork_pmem: "pmem demo_fork = pmem (demo_task 0x200018d7 1)"
  by (simp add: demo_fork_def)

lemma demo_fork_next:
  "next_table (pmem demo_fork) 0x80005000 i = (if i = 0 then Some 0x80003000 else None)"
  "next_table (pmem demo_fork) 0x80003000 i = (if i = 0 then Some 0x80004000 else None)"
  "next_table (pmem demo_fork) 0x8000b000 i = None"
  using demo_task_next by (simp_all add: demo_fork_pmem next_table_def demo_task_def demo_vm_def PTE_V_def)

lemma demo_fork_tables:
  "is_table {demo_root, 0x8000b000} (pmem demo_fork) pd is t \<longleftrightarrow> pd = demo_root \<and>
     (is = [] \<and> t = demo_root \<or> is = [0] \<and> t = 0x80003000 \<or> is = [0, 0] \<and> t = 0x80004000) \<or>
     pd = 0x8000b000 \<and> is = [] \<and> t = 0x8000b000"
proof (cases "is")
  case (Cons i js)
  then show ?thesis by (cases js) (auto simp: is_table_def demo_fork_next split: if_splits)
qed (auto simp: is_table_def)

lemma demo_fork_inv: "vm_inv {demo_root, 0x8000b000} demo_fork [0x80001000, 0x80002000, 0x80009000, 0x8000a000]"
proof -
  have "pmm_inv demo_fork [0x80001000, 0x80002000, 0x80009000, 0x8000a000]"
    by (simp add: pmm_inv_def pmm_bounds_def demo_fork_def demo_task_def demo_fs_defs demo_vm_def managed_def PAGE_INDEX_def
        MAX_PAGE_NUM_def PGSIZE_def PMM_MAX_PAGES_def SPIN_LOCK_FREE_def)
  moreover have "pt_tree {demo_root, 0x8000b000} (pmem demo_fork) (set [0x80001000, 0x80002000, 0x80009000, 0x8000a000])"
    unfolding pt_tree_def demo_fork_tables by (auto simp: PGSIZE_def)
  ultimately show ?thesis by (simp add: vm_inv_def)
qed

lemma demo_fork_entries: "pt_entry (pmem demo_fork) demo_root 0x10000 = 0x200018d7" "pt_entry (pmem demo_fork) 0x8000b000 0x10000 = 0"
proof -
  show "pt_entry (pmem demo_fork) demo_root 0x10000 = 0x200018d7"
    unfolding demo_fork_pmem by (rule demo_task_entry) (simp add: ROUNDDOWN_def PGSIZE_def)
qed (simp add: pt_entry_def leaf_table_def demo_fork_next)

lemma demo_fork_heap: "heap_pages 0x10000 0x11000 = 1" "heap_ok (procs demo_fork 3)"
  "heap_page_shared (procs demo_fork 3) junk (pt_entry (pmem demo_fork) demo_root) i \<longleftrightarrow> i = 0"
  using demo_task_simps [of "0x200018d7" 1] demo_fork_entries
  by (auto simp: heap_ok_def heap_pages_def demo_fork_def PGSIZE_def MAXVA_def MAX_HEAP_PAGES_def heap_page_shared_def
      readable_entry_def PTE_V_def PTE_R_def)

theorem fork_shares_heap_witness:
  "\<exists>t. fork_heap 0 3 5 (\<lambda>_. 0) demo_fork = (Inr (), t) \<and>
     pt_entry (pmem t) 0x8000b000 0x10000 = PA2PTE 0x80006000 OR PTE_R OR PTE_A OR PTE_U OR PTE_COW OR PTE_V \<and>
     pt_entry (pmem t) demo_root 0x10000 = (0x200018d7 AND NOT PTE_W) OR PTE_COW \<and>
     ref_of t 0x80006000 = 2 \<and> heap_top (procs t 5) = 0x11000"
proof -
  have s: "pagetable (procs demo_fork 3) = demo_root" "pagetable (procs demo_fork 5) = 0x8000b000" "current demo_fork 0 = Some 3"
    "heap_bottom (procs demo_fork 3) = 0x10000" "heap_top (procs demo_fork 3) = 0x11000"
    "mapped_info (procs demo_fork 3) = 0x80007000" "mapped_info (procs demo_fork 5) = 0x8000c000"
    "managed demo_fork 0x80006000" "ref_of demo_fork 0x80006000 = 1"
    using demo_task_simps [of "0x200018d7" 1] by (simp_all add: demo_fork_def managed_def PAGE_INDEX_def MAX_PAGE_NUM_def)
  have pa: "PTE2PA 0x200018d7 = 0x80006000" by (simp add: PTE2PA_def)
  have one: "{i. i = (0 :: nat) \<and> (0x80006000 :: u64) = 0x80006000} = {0}" by auto
  show ?thesis
    using fork_shares_heap [of "{demo_root, 0x8000b000}" demo_fork "[0x80001000, 0x80002000, 0x80009000, 0x8000a000]" 3 5 0 "\<lambda>_. 0",
        unfolded s demo_fork_heap(3), OF demo_fork_inv _ _ _ refl demo_fork_heap(2)]
    by (simp add: s demo_fork_heap(1) demo_fork_entries demo_fork_tables pa cong: conj_cong)
      (elim exE conjE, intro exI conjI, assumption+, simp_all add: s one)
qed

end
