(* ===== verification/Heap_Pages.thy ===== *)
theory Heap_Pages
  imports Process
begin

text \<open>
  The page-wise heap of a process over time: a page freed by \<^verbatim>\<open>sys_user_free_page\<close> is the one the next
  \<^verbatim>\<open>sys_user_allocate_page\<close> (\<^verbatim>\<open>kernel/syscall.c\<close>) hands out.
\<close>

unbundle bit_operations_syntax

lemma vm_inv_procs [simp]: "vm_inv R (s\<lparr>procs := f\<rparr>) xs = vm_inv R s xs"
  by (simp add: vm_inv_def pmm_inv_def pmm_bounds_def managed_def PAGE_INDEX_def MAX_PAGE_NUM_def)

lemma procs_update_simps [simp]: "managed (s\<lparr>procs := f\<rparr>) = managed s" "PAGE_INDEX (s\<lparr>procs := f\<rparr>) = PAGE_INDEX s"
  by (simp_all add: managed_def PAGE_INDEX_def MAX_PAGE_NUM_def fun_eq_iff)

lemma heap_page_freed:
  fixes s :: "'z kernel_state_scheme" and p :: nat and va :: u64
  defines "pr \<equiv> procs s p"
  defines "pt \<equiv> pagetable pr"
  defines "e \<equiv> pt_entry (pmem s) pt va"
  assumes inv: "vm_inv R s xs" "pt \<in> R" and cur: "current s tp = Some p" and va: "page_aligned va" "unat va + 4096 \<le> unat MAXVA"
    and e: "e AND PTE_V \<noteq> 0" "PTE_FLAGS e \<noteq> PTE_V" and n: "unat (free_pages_count pr) < MAX_HEAP_PAGES"
    and pa: "managed s (PTE2PA e)" "PTE2PA e \<notin> set xs" "\<And>pd is. \<not> is_table R (pmem s) pd is (PTE2PA e)" "ref_of s (PTE2PA e) = 1"
  defines "q \<equiv> pr\<lparr>free_pages_address := (free_pages_address pr)(unat (free_pages_count pr) := va), free_pages_count := free_pages_count pr + 1\<rparr>"
  obtains t where "sys_user_free_page tp va s = (Inr 0, t)" "vm_inv R t (PTE2PA e # xs)" "procs t = (procs s)(p := q)" "current t = current s"
    "\<And>pd' va'. pd' \<in> R \<Longrightarrow> va' < MAXVA \<Longrightarrow> pt_entry (pmem t) pd' va' = (if pd' = pt \<and> ROUNDDOWN va' PGSIZE = va then 0 else pt_entry (pmem s) pd' va')"
proof -
  let ?pa = "PTE2PA e" and ?n = "unat (free_pages_count pr)"
  have "kwp (user_vm_unmap pt va PGSIZE True) (\<lambda>_ t. vm_inv R t (?pa # xs) \<and>
      (\<forall>pd'\<in>R. \<forall>va'<MAXVA. pt_entry (pmem t) pd' va' = (if pd' = pt \<and> ROUNDDOWN va' PGSIZE = va then 0 else pt_entry (pmem s) pd' va')))
      (\<lambda>_ _. False) s"
    by (rule kwp_mono [OF user_vm_unmap_page [OF inv va(1,2), of e True]]) (use e pa in \<open>auto simp: e_def\<close>)
  from kwp_total_unit [OF this] obtain t where t: "user_vm_unmap pt va PGSIZE True s = (Inr (), t)" "vm_inv R t (?pa # xs)"
    "\<And>pd' va'. pd' \<in> R \<Longrightarrow> va' < MAXVA \<Longrightarrow> pt_entry (pmem t) pd' va' = (if pd' = pt \<and> ROUNDDOWN va' PGSIZE = va then 0 else pt_entry (pmem s) pd' va')"
    by blast
  have more: "pmm_state.more t = pmm_state.more s" using keeps_run [OF keeps_vmm(5) t(1)] .
  note kf = kernel_fields [OF more]
  define t' where "t' = t\<lparr>procs := (procs s)(p := q)\<rparr>"
  have free: "sys_user_free_page tp va s = (Inr 0, t')"
    using t(1) n cur_eq [OF cur] kf(1)
    by (simp add: sys_user_free_page_def upd_proc_def krun_defs Let_def not_le t'_def q_def pr_def pt_def)
  have inv': "vm_inv R t' (?pa # xs)" using t(2) by (simp add: t'_def)
  show thesis by (rule that [OF free inv']) (use t(3) kf(2) in \<open>simp_all add: t'_def\<close>)
qed

text \<open>
  Freeing a heap page and allocating one again gives the same page back: when the running process frees a page
  that is mapped to a frame only it refers to, and fewer than 32 freed pages are outstanding, the entry of the page is cleared; the next
  allocation returns the same virtual address, mapped for reading and writing to the same frame with one reference.  All
  other entries are as at the start, and of the process only the slot of the freed address in its list has changed.
\<close>

lemma free_then_allocate_page:
  fixes s :: "'z kernel_state_scheme" and p :: nat and va :: u64
  defines "pr \<equiv> procs s p"
  defines "pt \<equiv> pagetable pr"
  defines "e \<equiv> pt_entry (pmem s) pt va"
  assumes inv: "vm_inv R s xs" "pt \<in> R" and cur: "current s tp = Some p" and va: "page_aligned va" "unat va + 4096 \<le> unat MAXVA" "va < heap_top pr"
    and e: "e AND PTE_V \<noteq> 0" "PTE_FLAGS e \<noteq> PTE_V" and n: "unat (free_pages_count pr) < MAX_HEAP_PAGES"
    and pa: "managed s (PTE2PA e)" "PTE2PA e \<notin> set xs" "\<And>pd is. \<not> is_table R (pmem s) pd is (PTE2PA e)" "ref_of s (PTE2PA e) = 1"
    and len: "2 \<le> length xs"
  shows "\<exists>t u ys. sys_user_free_page tp va s = (Inr 0, t) \<and> pt_entry (pmem t) pt va = 0 \<and>
    sys_user_allocate_page tp t = (Inr va, u) \<and> vm_inv R u ys \<and> ref_of u (PTE2PA e) = 1 \<and>
    (\<forall>pd'\<in>R. \<forall>va'<MAXVA. pt_entry (pmem u) pd' va' =
       (if pd' = pt \<and> ROUNDDOWN va' PGSIZE = va then PA2PTE (PTE2PA e) OR scast user_rw OR PTE_V else pt_entry (pmem s) pd' va')) \<and>
    procs u = (procs s)(p := pr\<lparr>free_pages_address := (free_pages_address pr)(unat (free_pages_count pr) := va)\<rparr>)"
proof -
  let ?pa = "PTE2PA e" and ?n = "unat (free_pages_count pr)"
  have vm: "va < MAXVA" using va(2) by (simp add: word_less_nat_alt)
  define q where "q = pr\<lparr>free_pages_address := (free_pages_address pr)(?n := va), free_pages_count := free_pages_count pr + 1\<rparr>"
  obtain t where free: "sys_user_free_page tp va s = (Inr 0, t)" and inv': "vm_inv R t (?pa # xs)" and T: "procs t = (procs s)(p := q)" "current t = current s"
    "\<And>pd' va'. pd' \<in> R \<Longrightarrow> va' < MAXVA \<Longrightarrow> pt_entry (pmem t) pd' va' = (if pd' = pt \<and> ROUNDDOWN va' PGSIZE = va then 0 else pt_entry (pmem s) pd' va')"
    by (rule heap_page_freed [of R s xs p tp va, folded pr_def, folded pt_def, folded e_def, OF inv cur va(1,2) e n pa, folded q_def]) blast
  note A = alloc_data_page [OF inv']
  have al: "alloc_page t = (Inr ?pa, alloc_state ?pa t)" using inv' alloc_page_eq [of t ?pa xs] by (simp add: vm_inv_def)
  define v where "v = (alloc_state ?pa t)\<lparr>procs := (procs s)(p := q\<lparr>free_pages_count := free_pages_count pr\<rparr>)\<rparr>"
  have "pt_entry (pmem v) pt va AND PTE_V = 0" using T(3) [OF inv(2) vm] by (simp add: v_def ROUNDDOWN_id [OF va(1)])
  from user_vm_map_page [OF _ inv(2) va(1,2) this len, of ?pa user_rw] A(1)
  obtain u ys where u: "user_vm_map pt va PGSIZE ?pa user_rw v = (Inr (), u)" "vm_frame R v xs u ys"
    "\<And>pd' va'. pd' \<in> R \<Longrightarrow> va' < MAXVA \<Longrightarrow> pt_entry (pmem u) pd' va' =
       (if pd' = pt \<and> ROUNDDOWN va' PGSIZE = va then PA2PTE ?pa OR scast user_rw OR PTE_V else pt_entry (pmem v) pd' va')"
    by (metis vm_inv_procs v_def)
  have c: "unat (free_pages_count pr + 1) = Suc ?n" using n by (simp add: MAX_HEAP_PAGES_def unat_word_ariths)
  have pq: "pagetable q = pt" "free_pages_count q - 1 = free_pages_count pr" "free_pages_count q \<noteq> 0" "free_pages_address q ?n = va" "heap_top q = heap_top pr"
    using c by (auto simp: q_def pt_def)
  have alloc: "sys_user_allocate_page tp t = (Inr va, u)"
    using al u(1) n va(3) cur_eq [of "alloc_state ?pa t" tp p] cur T(1,2) pq
    by (simp add: sys_user_allocate_page_def upd_proc_def krun_defs Let_def not_le v_def alloc_state_def set_ref_def)
  have u_more: "pmm_state.more u = pmm_state.more v" using keeps_run [OF keeps_vmm(4) u(1)] .
  have mng: "managed v = managed t" by (simp add: v_def)
  have "managed v ?pa" using A(4) by (simp add: mng)
  then have "ref_of u ?pa = 1" using vm_frameD(7) [OF u(2), of ?pa] A(3) by (simp add: v_def)
  moreover have "procs u = (procs s)(p := pr\<lparr>free_pages_address := (free_pages_address pr)(?n := va)\<rparr>)"
    using kernel_fields(1) [OF u_more] by (simp add: v_def q_def)
  moreover have "pt_entry (pmem u) pd' va' = (if pd' = pt \<and> ROUNDDOWN va' PGSIZE = va then PA2PTE ?pa OR scast user_rw OR PTE_V
      else pt_entry (pmem s) pd' va')" if "pd' \<in> R" "va' < MAXVA" for pd' va'
    using u(3) [OF that] T(3) [OF that] by (simp add: v_def)
  moreover have "pt_entry (pmem t) pt va = 0" using T(3) [OF inv(2) vm] by (simp add: ROUNDDOWN_id [OF va(1)])
  ultimately show ?thesis
    using free alloc vm_frameD(1) [OF u(2)] by blast
qed

end
