(* ===== verification/Rfs_Disk.thy ===== *)
theory Rfs_Disk
  imports Rfs Vm_Lemmas
begin

text \<open>
  The RAM disk as the file system sees it.  The locale \<open>block_device\<close> is the contract between \<^verbatim>\<open>kernel/rfs.c\<close> and the device below
  it, and \<open>ramdisk\<close> its interpretation on the operations of \<^verbatim>\<open>kernel/ramdev.c\<close>.  On top of it the inode blocks are a table of
  320 inodes (\<open>dinode_table_roundtrip\<close>) and the free map a set of free blocks (\<open>rfs_alloc_block_bounds\<close>).
\<close>

unbundle bit_operations_syntax

section \<open>Block devices\<close>

text \<open>
  What a file system relies on: a device with \<open>nblk\<close> blocks and one buffer, \<open>rd\<close> and \<open>wr\<close> moving a block between the two,
  \<open>cpy\<close> writing bytes into the buffer.  \<open>rest\<close> is the part of the state that none of them touches.
\<close>

locale block_device =
  fixes ready :: "'s \<Rightarrow> bool" and buf :: "'s \<Rightarrow> nat \<Rightarrow> u8" and blk :: "'s \<Rightarrow> int \<Rightarrow> nat \<Rightarrow> u8" and rest :: "'s \<Rightarrow> 'r"
    and nblk :: int and rd wr :: "int \<Rightarrow> ('s, int) km" and cpy :: "int \<Rightarrow> int \<Rightarrow> (nat \<Rightarrow> u8) \<Rightarrow> ('s, unit) km"
  assumes rd_ok: "ready s \<Longrightarrow> 0 \<le> b \<Longrightarrow> b < nblk \<Longrightarrow>
      \<exists>t. rd b s = (Inr 0, t) \<and> ready t \<and> buf t = blk s b \<and> (\<forall>b'. blk t b' = blk s b') \<and> rest t = rest s"
    and wr_ok: "ready s \<Longrightarrow> 0 \<le> b \<Longrightarrow> b < nblk \<Longrightarrow>
      \<exists>t. wr b s = (Inr 0, t) \<and> ready t \<and> buf t = buf s \<and>
        (\<forall>b'. 0 \<le> b' \<longrightarrow> b' < nblk \<longrightarrow> blk t b' = (if b' = b then buf s else blk s b')) \<and> rest t = rest s"
    and cpy_ok: "ready s \<Longrightarrow> 0 \<le> off \<Longrightarrow> 0 \<le> n \<Longrightarrow> off + n \<le> RFS_BLKSIZE \<Longrightarrow>
      \<exists>t. cpy off n g s = (Inr (), t) \<and> ready t \<and> buf t = splice (nat off) (nat n) g (buf s) \<and>
        (\<forall>b'. blk t b' = blk s b') \<and> rest t = rest s"
    and rd_out: "b < 0 \<or> nblk \<le> b \<Longrightarrow> \<exists>m. rd b s = (Inl (Kill m (-1)), s)"
    and wr_out: "b < 0 \<or> nblk \<le> b \<Longrightarrow> \<exists>m. wr b s = (Inl (Kill m (-1)), s)"
begin

text \<open>Bytes of one block changed through the buffer.\<close>

lemma modify_block:
  assumes "ready s" "0 \<le> b" "b < nblk" "0 \<le> off" "0 \<le> n" "off + n \<le> RFS_BLKSIZE"
  obtains t where "kbind (rd b) (\<lambda>_. kthen (cpy off n g) (wr b)) s = (Inr 0, t)" "ready t" "rest t = rest s"
    "\<And>b'. 0 \<le> b' \<Longrightarrow> b' < nblk \<Longrightarrow> blk t b' = (if b' = b then splice (nat off) (nat n) g (blk s b) else blk s b')"
proof -
  obtain t where t: "rd b s = (Inr 0, t)" "ready t" "buf t = blk s b" "\<forall>b'. blk t b' = blk s b'" "rest t = rest s"
    using rd_ok [OF assms(1-3)] by blast
  obtain u where u: "cpy off n g t = (Inr (), u)" "ready u" "buf u = splice (nat off) (nat n) g (buf t)"
    "\<forall>b'. blk u b' = blk t b'" "rest u = rest t"
    using cpy_ok [OF t(2) assms(4-6)] by blast
  obtain v where v: "wr b u = (Inr 0, v)" "ready v" "\<forall>b'. 0 \<le> b' \<longrightarrow> b' < nblk \<longrightarrow> blk v b' = (if b' = b then buf u else blk u b')"
    "rest v = rest u"
    using wr_ok [OF u(2) assms(2,3)] by blast
  show thesis
    by (rule that [of v]) (use t u v in \<open>simp_all add: kbind_def kthen_def\<close>)
qed

text \<open>A block written from the buffer and read again, after any other block was read.\<close>

lemma write_read:
  assumes "ready s" "0 \<le> b" "b < nblk" "0 \<le> c" "c < nblk"
  obtains t where "kbind (wr b) (\<lambda>_. rd c) s = (Inr 0, t)" "ready t" "buf t = (if c = b then buf s else blk s c)" "rest t = rest s"
proof -
  obtain t where t: "wr b s = (Inr 0, t)" "ready t" "\<forall>b'. 0 \<le> b' \<longrightarrow> b' < nblk \<longrightarrow> blk t b' = (if b' = b then buf s else blk s b')"
    "rest t = rest s"
    using wr_ok [OF assms(1-3)] by blast
  obtain u where "rd c t = (Inr 0, u)" "ready u" "buf u = blk t c" "rest u = rest t"
    using rd_ok [OF t(2) assms(4,5)] by blast
  with t assms show thesis by (intro that [of u]) (simp_all add: kbind_def)
qed

end

section \<open>The RAM disk as a block device\<close>

definition block_bytes :: "(9 word \<Rightarrow> u64) \<Rightarrow> nat \<Rightarrow> u8" where
  "block_bytes c = (\<lambda>i. if i < 4096 then byte_at c i else 0)"

definition disk_buf :: "u64 \<Rightarrow> 'z fs_state_scheme \<Rightarrow> nat \<Rightarrow> u8" where
  "disk_buf rdev s = block_bytes (pmem s (iobuffer (rfs_devices s rdev)))"

definition disk_blk :: "u64 \<Rightarrow> 'z fs_state_scheme \<Rightarrow> int \<Rightarrow> nat \<Rightarrow> u8" where
  "disk_blk rdev s b = block_bytes (pmem s (block_addr (rfs_devices s rdev) b))"

definition disk_pages :: "rfs_device \<Rightarrow> u64 set" where
  "disk_pages d = insert (iobuffer d) (block_addr d ` {0..<int RAMDISK_BLOCK_COUNT})"

definition disk_rest :: "u64 \<Rightarrow> 'z fs_state_scheme \<Rightarrow> 'z fs_state_scheme" where
  "disk_rest rdev s = s\<lparr>pmem := (\<lambda>p. if p \<in> disk_pages (rfs_devices s rdev) then (\<lambda>_. 0) else pmem s p)\<rparr>"

text \<open>
  The device is set up: the buffer is a page outside the disk, and neither is in the list of free pages.
\<close>

definition disk_ready :: "u64 \<Rightarrow> u64 list \<Rightarrow> 'z fs_state_scheme \<Rightarrow> bool" where
  "disk_ready rdev xs s \<longleftrightarrow> (let d = rfs_devices s rdev in
     rdev \<noteq> 0 \<and> iobuffer d \<noteq> 0 \<and> iobuffer d \<notin> block_addr d ` {0..<int RAMDISK_BLOCK_COUNT} \<and>
     pmm_inv s xs \<and> disk_pages d \<inter> set xs = {})"

lemma block_addr_inj:
  assumes "0 \<le> b" "b < int RAMDISK_BLOCK_COUNT" "0 \<le> c" "c < int RAMDISK_BLOCK_COUNT"
  shows "block_addr d b = block_addr d c \<longleftrightarrow> b = c"
proof -
  have u: "uint (of_int x * 4096 :: u64) = x * 4096" if "0 \<le> x" "x < 128" for x
  proof -
    have "(of_int x * 4096 :: u64) = of_int (x * 4096)" by simp
    also have "uint \<dots> = x * 4096" unfolding uint_word_of_int_eq by (rule take_bit_int_eq_self) (use that in auto)
    finally show ?thesis .
  qed
  have lt: "b < 128" "c < 128" using assms by (simp_all add: RAMDISK_BLOCK_COUNT_def)
  have "b = c" if "of_int b * 4096 = (of_int c * 4096 :: u64)"
  proof -
    have "b * 4096 = c * 4096" unfolding u [OF assms(1) lt(1), symmetric] u [OF assms(3) lt(2), symmetric] using that by (rule arg_cong)
    then show ?thesis by simp
  qed
  then show ?thesis by (metis block_addr_def RAMDISK_BLOCK_SIZE_def PGSIZE_def add_left_cancel)
qed

lemma block_bytes_of_bytes: "block_bytes (of_bytes f) = (\<lambda>i. if i < 4096 then f i else 0)"
  by (simp add: block_bytes_def byte_of_bytes fun_eq_iff)

text \<open>Changing a page of the disk.\<close>

lemma disk_set_page:
  assumes "disk_ready rdev xs s" "p \<in> disk_pages (rfs_devices s rdev)"
  shows "disk_ready rdev xs (set_page p c s)" "disk_rest rdev (set_page p c s) = disk_rest rdev s"
proof -
  have "p \<notin> set xs" using assms by (auto simp: disk_ready_def Let_def)
  then show "disk_ready rdev xs (set_page p c s)"
    using assms(1) by (simp add: disk_ready_def Let_def pmm_inv_set_page) (simp add: set_page_def)
  show "disk_rest rdev (set_page p c s) = disk_rest rdev s"
    using assms(2) by (auto simp: disk_rest_def set_page_def fun_eq_iff)
qed

lemma ramdisk_read_eq:
  assumes "disk_ready rdev xs s" "0 \<le> b" "b < int RAMDISK_BLOCK_COUNT"
  shows "ramdisk_read rdev b s = (Inr 0, let d = rfs_devices s rdev in set_page (iobuffer d) (pmem s (block_addr d b)) s)"
  using assms by (simp add: ramdisk_read_def get_rdev_def check_ptr_def disk_ready_def Let_def krun_defs)

lemma ramdisk_write_eq:
  assumes "disk_ready rdev xs s" "0 \<le> b" "b < int RAMDISK_BLOCK_COUNT"
  shows "ramdisk_write rdev b s = (Inr 0, let d = rfs_devices s rdev in set_page (block_addr d b) (pmem s (iobuffer d)) s)"
  using assms by (simp add: ramdisk_write_def get_rdev_def check_ptr_def disk_ready_def Let_def krun_defs)

lemma disk_pages_io [simp]: "iobuffer d \<in> disk_pages d"
  by (simp add: disk_pages_def)

lemma disk_pages_block: "0 \<le> b \<Longrightarrow> b < int RAMDISK_BLOCK_COUNT \<Longrightarrow> block_addr d b \<in> disk_pages d"
  by (simp add: disk_pages_def)

lemma rfs_devices_set_page [simp]: "rfs_devices (set_page p c s) = rfs_devices s"
  by (simp add: set_page_def)

lemma io_memcpy_eq:
  assumes "disk_ready rdev xs s" "0 \<le> off" "0 \<le> n" "off + n \<le> RFS_BLKSIZE"
  shows "io_memcpy rdev off n g s = (Inr (), let io = iobuffer (rfs_devices s rdev) in
    set_page io (of_bytes (splice (nat off) (nat n) g (page_bytes s io))) s)"
  using assms by (simp add: io_memcpy_def io_put_def get_rdev_def check_ptr_def disk_ready_def Let_def krun_defs set_bytes_def)

lemma disk_ready_ne:
  assumes "disk_ready rdev xs s" "0 \<le> b" "b < int RAMDISK_BLOCK_COUNT"
  shows "block_addr (rfs_devices s rdev) b \<noteq> iobuffer (rfs_devices s rdev)"
proof -
  have "block_addr (rfs_devices s rdev) b \<in> block_addr (rfs_devices s rdev) ` {0..<int RAMDISK_BLOCK_COUNT}" using assms(2,3) by simp
  then show ?thesis using assms(1) by (metis disk_ready_def)
qed

lemma disk_blk_io:
  assumes "disk_ready rdev xs s" "0 \<le> b" "b < int RAMDISK_BLOCK_COUNT"
  shows "disk_blk rdev (set_page (iobuffer (rfs_devices s rdev)) c s) b = disk_blk rdev s b"
  using disk_ready_ne [OF assms] by (simp add: disk_blk_def)

interpretation ramdisk: block_device "disk_ready rdev xs" "disk_buf rdev"
  "\<lambda>s b. if 0 \<le> b \<and> b < int RAMDISK_BLOCK_COUNT then disk_blk rdev s b else (\<lambda>_. 0)"
  "disk_rest rdev" "int RAMDISK_BLOCK_COUNT" "ramdisk_read rdev" "ramdisk_write rdev" "io_memcpy rdev" for rdev xs
proof
  fix s :: "'a fs_state_scheme" and b :: int
  assume r: "disk_ready rdev xs s" and b: "0 \<le> b" "b < int RAMDISK_BLOCK_COUNT"
  let ?d = "rfs_devices s rdev"
  let ?t = "set_page (iobuffer ?d) (pmem s (block_addr ?d b)) s" and ?u = "set_page (block_addr ?d b) (pmem s (iobuffer ?d)) s"
  have ne: "iobuffer ?d \<noteq> block_addr ?d b'" if "0 \<le> b'" "b' < int RAMDISK_BLOCK_COUNT" for b'
    using r that by (auto simp: disk_ready_def Let_def)
  show "\<exists>t. ramdisk_read rdev b s = (Inr 0, t) \<and> disk_ready rdev xs t \<and>
     disk_buf rdev t = (if 0 \<le> b \<and> b < int RAMDISK_BLOCK_COUNT then disk_blk rdev s b else (\<lambda>_. 0)) \<and>
     (\<forall>b'. (if 0 \<le> b' \<and> b' < int RAMDISK_BLOCK_COUNT then disk_blk rdev t b' else (\<lambda>_. 0)) =
       (if 0 \<le> b' \<and> b' < int RAMDISK_BLOCK_COUNT then disk_blk rdev s b' else (\<lambda>_. 0))) \<and> disk_rest rdev t = disk_rest rdev s"
    by (rule exI [of _ ?t]) (use disk_set_page [OF r] disk_blk_io [OF r] b in
      \<open>simp add: ramdisk_read_eq [OF r] Let_def disk_buf_def disk_blk_def\<close>)
  show "\<exists>t. ramdisk_write rdev b s = (Inr 0, t) \<and> disk_ready rdev xs t \<and> disk_buf rdev t = disk_buf rdev s \<and>
     (\<forall>b'. 0 \<le> b' \<longrightarrow> b' < int RAMDISK_BLOCK_COUNT \<longrightarrow>
       (if 0 \<le> b' \<and> b' < int RAMDISK_BLOCK_COUNT then disk_blk rdev t b' else (\<lambda>_. 0)) =
       (if b' = b then disk_buf rdev s else if 0 \<le> b' \<and> b' < int RAMDISK_BLOCK_COUNT then disk_blk rdev s b' else (\<lambda>_. 0))) \<and>
     disk_rest rdev t = disk_rest rdev s"
    by (rule exI [of _ ?u]) (use disk_set_page [OF r disk_pages_block] b ne in
      \<open>auto simp: ramdisk_write_eq [OF r] Let_def disk_buf_def disk_blk_def block_addr_inj\<close>)
next
  fix s :: "'a fs_state_scheme" and off n :: int and g
  assume r: "disk_ready rdev xs s" and n: "0 \<le> off" "0 \<le> n" "off + n \<le> RFS_BLKSIZE"
  let ?io = "iobuffer (rfs_devices s rdev)"
  let ?t = "set_page ?io (of_bytes (splice (nat off) (nat n) g (page_bytes s ?io))) s"
  have "disk_buf rdev ?t = splice (nat off) (nat n) g (disk_buf rdev s)"
    using n by (auto simp: disk_buf_def block_bytes_of_bytes splice_def RFS_BLKSIZE_def page_bytes_def block_bytes_def byte_of_bytes fun_eq_iff)
  then show "\<exists>t. io_memcpy rdev off n g s = (Inr (), t) \<and> disk_ready rdev xs t \<and>
     disk_buf rdev t = splice (nat off) (nat n) g (disk_buf rdev s) \<and>
     (\<forall>b'. (if 0 \<le> b' \<and> b' < int RAMDISK_BLOCK_COUNT then disk_blk rdev t b' else (\<lambda>_. 0)) =
       (if 0 \<le> b' \<and> b' < int RAMDISK_BLOCK_COUNT then disk_blk rdev s b' else (\<lambda>_. 0))) \<and> disk_rest rdev t = disk_rest rdev s"
    by (intro exI [of _ ?t]) (use disk_set_page [OF r] disk_blk_io [OF r] in \<open>simp add: io_memcpy_eq [OF r n] Let_def\<close>)
qed (auto simp: ramdisk_read_def ramdisk_write_def kraise_def)

section \<open>The inode table\<close>

text \<open>
  The disk inodes of a device as one table of 320 entries, each given by its 56 bytes.
\<close>

definition inode_count :: int where
  "inode_count = RFS_BLKSIZE div RFS_INODESIZE * RFS_MAX_INODE_BLKNUM"

definition inode_bytes :: "u64 \<Rightarrow> 'z fs_state_scheme \<Rightarrow> int \<Rightarrow> nat \<Rightarrow> u8" where
  "inode_bytes rdev s n = (\<lambda>i. if i < sizeof_dinode
     then disk_blk rdev s (n div 32 + RFS_BLK_OFFSET_INODE) (nat (n mod 32 * RFS_INODESIZE) + i) else 0)"

lemma inode_place:
  assumes "0 \<le> n" "n < inode_count"
  shows "n sdiv (RFS_BLKSIZE div RFS_INODESIZE) = n div 32" "n smod (RFS_BLKSIZE div RFS_INODESIZE) = n mod 32"
    "0 \<le> n div 32 + RFS_BLK_OFFSET_INODE" "n div 32 + RFS_BLK_OFFSET_INODE < int RAMDISK_BLOCK_COUNT"
    "0 \<le> n mod 32 * RFS_INODESIZE" "n mod 32 * RFS_INODESIZE + int sizeof_dinode \<le> RFS_BLKSIZE"
proof -
  note defs = inode_count_def RFS_BLKSIZE_def RFS_INODESIZE_def RFS_MAX_INODE_BLKNUM_def RFS_BLK_OFFSET_INODE_def
    RAMDISK_BLOCK_COUNT_def sizeof_dinode_def
  show "n sdiv (RFS_BLKSIZE div RFS_INODESIZE) = n div 32" "n smod (RFS_BLKSIZE div RFS_INODESIZE) = n mod 32"
    using assms by (simp_all add: defs signed_divide_int_def signed_modulo_int_def sgn_if)
  show "0 \<le> n div 32 + RFS_BLK_OFFSET_INODE" "n div 32 + RFS_BLK_OFFSET_INODE < int RAMDISK_BLOCK_COUNT"
    "0 \<le> n mod 32 * RFS_INODESIZE" "n mod 32 * RFS_INODESIZE + int sizeof_dinode \<le> RFS_BLKSIZE"
    using assms by (simp_all add: defs)
qed

lemma rfs_write_dinode_table:
  assumes r: "disk_ready rdev xs s" and n: "0 \<le> n" "n < inode_count"
  obtains t where "rfs_write_dinode rdev f n s = (Inr 0, t)" "disk_ready rdev xs t" "disk_rest rdev t = disk_rest rdev s"
    "\<And>m. 0 \<le> m \<Longrightarrow> m < inode_count \<Longrightarrow> inode_bytes rdev t m =
       (if m = n then (\<lambda>i. if i < sizeof_dinode then f i else 0) else inode_bytes rdev s m)"
proof -
  note p = inode_place [OF n]
  obtain t where t: "rfs_write_dinode rdev f n s = (Inr 0, t)" "disk_ready rdev xs t" "disk_rest rdev t = disk_rest rdev s"
    "\<And>b'. 0 \<le> b' \<Longrightarrow> b' < int RAMDISK_BLOCK_COUNT \<Longrightarrow> disk_blk rdev t b' =
       (if b' = n div 32 + RFS_BLK_OFFSET_INODE then splice (nat (n mod 32 * RFS_INODESIZE)) sizeof_dinode f (disk_blk rdev s b')
        else disk_blk rdev s b')"
    by (rule ramdisk.modify_block [OF r p(3,4,5) _ p(6), of f]) (use p in \<open>auto simp: rfs_write_dinode_def Let_def\<close>)
  have "inode_bytes rdev t m = (if m = n then (\<lambda>i. if i < sizeof_dinode then f i else 0) else inode_bytes rdev s m)"
    if m: "0 \<le> m" "m < inode_count" for m
  proof -
    note q = inode_place [OF m]
    have off: "nat (k mod 32 * RFS_INODESIZE) = nat (k mod 32) * 128" for k
      by (simp add: RFS_INODESIZE_def nat_mult_distrib)
    have "m = n \<longleftrightarrow> m div 32 = n div 32 \<and> nat (m mod 32) = nat (n mod 32)"
      by (metis div_mult_mod_eq eq_nat_nat_iff pos_mod_sign zero_less_numeral)
    moreover have "x \<noteq> y \<Longrightarrow> i < sizeof_dinode \<Longrightarrow> \<not> (y * 128 \<le> x * 128 + i \<and> x * 128 + i < y * 128 + sizeof_dinode)" for x y i :: nat
      unfolding sizeof_dinode_def by linarith
    ultimately show ?thesis
      unfolding inode_bytes_def t(4) [OF q(3,4)] off by (simp add: splice_def fun_eq_iff) blast
  qed
  with t(1-3) show thesis by (rule that)
qed

lemma disk_alloc:
  assumes "disk_ready rdev (x # xs) s"
  shows "new_page s = (Inr x, alloc_state x s)" "disk_ready rdev xs (alloc_state x s)" "x \<notin> disk_pages (rfs_devices s rdev)" "x \<notin> set xs"
    "rfs_devices (alloc_state x s) = rfs_devices s"
proof -
  have inv: "pmm_inv s (x # xs)" using assms by (simp add: disk_ready_def Let_def)
  have x: "x \<noteq> 0" "x \<notin> set xs" using pmm_invD(3,4) [OF inv] by auto
  show dev: "rfs_devices (alloc_state x s) = rfs_devices s" by (simp add: alloc_state_def set_ref_def)
  show "new_page s = (Inr x, alloc_state x s)" "x \<notin> set xs"
    using alloc_page_eq [OF inv] x by (auto simp: new_page_def krun_defs)
  show "disk_ready rdev xs (alloc_state x s)" "x \<notin> disk_pages (rfs_devices s rdev)"
    using assms alloc_state_inv [OF inv] dev by (auto simp: disk_ready_def Let_def)
qed

lemma disk_set_other:
  assumes "disk_ready rdev xs s" "p \<notin> disk_pages (rfs_devices s rdev)" "p \<notin> set xs"
  shows "disk_ready rdev xs (set_page p c s)" "\<And>b. 0 \<le> b \<Longrightarrow> b < int RAMDISK_BLOCK_COUNT \<Longrightarrow> disk_blk rdev (set_page p c s) b = disk_blk rdev s b"
    "disk_buf rdev (set_page p c s) = disk_buf rdev s"
proof -
  show "disk_ready rdev xs (set_page p c s)"
    using assms by (simp add: disk_ready_def Let_def pmm_inv_set_page)
  show "disk_blk rdev (set_page p c s) b = disk_blk rdev s b" if "0 \<le> b" "b < int RAMDISK_BLOCK_COUNT" for b
    using disk_pages_block [OF that, of "rfs_devices s rdev"] assms(2) by (auto simp: disk_blk_def)
  show "disk_buf rdev (set_page p c s) = disk_buf rdev s" using assms(2) by (auto simp: disk_buf_def disk_pages_def)
qed

lemma rfs_read_dinode_table:
  assumes r: "disk_ready rdev (x # xs) s" and n: "0 \<le> n" "n < inode_count"
  obtains t where "rfs_read_dinode rdev n s = (Inr x, t)" "disk_ready rdev xs t"
    "\<And>i. i < sizeof_dinode \<Longrightarrow> page_bytes t x i = inode_bytes rdev s n i"
    "\<And>m. 0 \<le> m \<Longrightarrow> m < inode_count \<Longrightarrow> inode_bytes rdev t m = inode_bytes rdev s m"
proof -
  note p = inode_place [OF n]
  let ?b = "n div 32 + RFS_BLK_OFFSET_INODE" and ?off = "nat (n mod 32 * RFS_INODESIZE)"
  obtain u where u: "ramdisk_read rdev ?b s = (Inr 0, u)" "disk_ready rdev (x # xs) u" "disk_buf rdev u = disk_blk rdev s ?b"
    "\<And>b'. 0 \<le> b' \<Longrightarrow> b' < int RAMDISK_BLOCK_COUNT \<Longrightarrow> disk_blk rdev u b' = disk_blk rdev s b'"
    using ramdisk.rd_ok [OF r p(3,4)] p(3,4) by (fastforce split: if_splits)
  note a = disk_alloc [OF u(2)]
  let ?v = "alloc_state x u"
  define io where "io = page_bytes ?v (iobuffer (rfs_devices u rdev))"
  define t where "t = set_bytes x (splice 0 sizeof_dinode (\<lambda>i. io (?off + i)) (page_bytes ?v x)) ?v"
  have "rdev \<noteq> 0" "iobuffer (rfs_devices u rdev) \<noteq> 0" using u(2) by (auto simp: disk_ready_def Let_def)
  then have io: "io_bytes rdev ?v = (Inr io, ?v)"
    by (simp add: io_bytes_def get_rdev_def check_ptr_def krun_defs a(5) io_def)
  have "\<not> n mod 32 < 0" by (simp add: not_less)
  then have run: "rfs_read_dinode rdev n s = (Inr x, t)"
    using u(1) a(1) io unfolding rfs_read_dinode_def p(1,2) Let_def t_def by (simp add: kbind_def kthen_def kput_def kreturn_def)
  have v: "disk_ready rdev xs ?v" "x \<notin> disk_pages (rfs_devices ?v rdev)" "x \<notin> set xs" using a by simp_all
  have "page_bytes t x i = inode_bytes rdev s n i" if "i < sizeof_dinode" for i
  proof -
    have "?off + i < 4096" using p(5,6) that by (simp add: RFS_BLKSIZE_def)
    then have "io (?off + i) = disk_blk rdev s ?b (?off + i)"
      using u(3) by (auto simp: io_def disk_buf_def page_bytes_def block_bytes_def fun_eq_iff dest: spec [of _ "?off + i"])
    then show ?thesis using that by (simp add: t_def splice_def inode_bytes_def sizeof_dinode_def)
  qed
  moreover have "inode_bytes rdev t m = inode_bytes rdev s m" if "0 \<le> m" "m < inode_count" for m
    using disk_set_other(2) [OF v inode_place(3,4) [OF that]] u(4) [OF inode_place(3,4) [OF that]] a(5)
    by (simp add: inode_bytes_def t_def set_bytes_def disk_blk_def fun_eq_iff)
  moreover have "disk_ready rdev xs t" unfolding t_def set_bytes_def by (rule disk_set_other(1) [OF v])
  ultimately show thesis by (intro that [OF run]) auto
qed

text \<open>The fields of a disk inode, whose addresses are an array of ten.\<close>

definition same_dinode :: "rfs_dinode \<Rightarrow> rfs_dinode \<Rightarrow> bool" where
  "same_dinode d e \<longleftrightarrow> di_size d = di_size e \<and> di_type d = di_type e \<and> di_nlinks d = di_nlinks e \<and> di_blocks d = di_blocks e \<and>
     (\<forall>i<RFS_DIRECT_BLKNUM. di_addrs d i = di_addrs e i)"

definition dinode_fits :: "rfs_dinode \<Rightarrow> bool" where
  "dinode_fits d \<longleftrightarrow> fits_int (di_size d) \<and> fits_int (di_type d) \<and> fits_int (di_nlinks d) \<and> fits_int (di_blocks d) \<and>
     (\<forall>i<RFS_DIRECT_BLKNUM. fits_int (di_addrs d i))"

lemma rd32_fold:
  assumes "\<forall>i\<in>set is. fits_int (a i)"
  shows "rd32 (fold (\<lambda>i. wr32 (16 + 4 * i) (a i)) is f) (16 + 4 * j) = (if j \<in> set is then a j else rd32 f (16 + 4 * j))"
  using assms
proof (induction "is" arbitrary: f)
  case (Cons i "is")
  then show ?case by (cases i j rule: linorder_cases) auto
qed simp

lemma rd32_fold_head: "k + 4 \<le> 16 \<Longrightarrow> rd32 (fold (\<lambda>i. wr32 (16 + 4 * i) (a i)) is f) k = rd32 f k"
  by (induction "is" arbitrary: f) auto

lemma dinode_encode: "dinode_fits d \<Longrightarrow> same_dinode (dinode_at (dinode_bytes d)) d"
  by (simp add: same_dinode_def dinode_fits_def dinode_at_def dinode_bytes_def rd32_fold rd32_fold_head)

lemma dinode_at_cong: "(\<And>i. i < sizeof_dinode \<Longrightarrow> f i = g i) \<Longrightarrow> same_dinode (dinode_at f) (dinode_at g)"
  by (auto simp: same_dinode_def dinode_at_def sizeof_dinode_def RFS_DIRECT_BLKNUM_def DIRECT_BLKNUM_def intro!: rd32_cong)

text \<open>
  The inode blocks of the RAM disk are a table of 320 inodes: on a device that is set up, writing the inode \<open>d\<close> as number
  \<open>n\<close> succeeds, and reading any number \<open>m\<close> afterwards returns a fresh page with \<open>d\<close> when \<open>m = n\<close>, and with what was
  stored as number \<open>m\<close> before otherwise.  The device stays set up, and the write touches nothing but the disk and its buffer.
\<close>

theorem dinode_table_roundtrip:
  assumes "disk_ready rdev (x # xs) s" "0 \<le> n" "n < inode_count" "0 \<le> m" "m < inode_count" "dinode_fits d"
  shows "\<exists>t u. rfs_write_dinode rdev (dinode_bytes d) n s = (Inr 0, t) \<and> disk_rest rdev t = disk_rest rdev s \<and>
    rfs_read_dinode rdev m t = (Inr x, u) \<and> disk_ready rdev xs u \<and>
    same_dinode (dinode_at (page_bytes u x)) (if m = n then d else dinode_at (inode_bytes rdev s m))"
proof -
  obtain t where t: "rfs_write_dinode rdev (dinode_bytes d) n s = (Inr 0, t)" "disk_ready rdev (x # xs) t" "disk_rest rdev t = disk_rest rdev s"
    "\<And>m. 0 \<le> m \<Longrightarrow> m < inode_count \<Longrightarrow> inode_bytes rdev t m =
       (if m = n then (\<lambda>i. if i < sizeof_dinode then dinode_bytes d i else 0) else inode_bytes rdev s m)"
    by (rule rfs_write_dinode_table [OF assms(1-3), where f = "dinode_bytes d"]) blast
  obtain u where u: "rfs_read_dinode rdev m t = (Inr x, u)" "disk_ready rdev xs u"
    "\<And>i. i < sizeof_dinode \<Longrightarrow> page_bytes u x i = inode_bytes rdev t m i"
    by (rule rfs_read_dinode_table [OF t(2) assms(4,5)]) blast
  have "same_dinode (dinode_at (page_bytes u x)) (dinode_at (if m = n then dinode_bytes d else inode_bytes rdev s m))"
    by (rule dinode_at_cong) (simp add: u(3) t(4) assms(4,5))
  with dinode_encode [OF assms(6)] have "same_dinode (dinode_at (page_bytes u x)) (if m = n then d else dinode_at (inode_bytes rdev s m))"
    by (auto simp: same_dinode_def)
  with t u show ?thesis by blast
qed

text \<open>\<open>demo_fs\<close> with a disk at 0x90000000, whose buffer is the page 0x8f000000.\<close>

definition demo_disk :: fs_state where
  "demo_disk = demo_fs\<lparr>rfs_devices := (\<lambda>_. \<lparr>d_address = 0x90000000, d_blocks = 128, d_blocksize = 4096, iobuffer = 0x8f000000\<rparr>),
     rfs_device_list := (\<lambda>_. 0)(0 := 0x8000)\<rparr>"

lemma demo_disk_low:
  assumes "p < 0x90000000"
  shows "p \<notin> block_addr (rfs_devices demo_disk r) ` {0..<int RAMDISK_BLOCK_COUNT}"
proof -
  have "0x90000000 \<le> block_addr (rfs_devices demo_disk r) b" if "0 \<le> b" "b < int RAMDISK_BLOCK_COUNT" for b
  proof -
    have "(of_int b * 4096 :: u64) = word_of_int (b * 4096)" by simp
    moreover have "uint (word_of_int (b * 4096) :: u64) = b * 4096"
      unfolding uint_word_of_int_eq by (rule take_bit_int_eq_self) (use that in \<open>auto simp: RAMDISK_BLOCK_COUNT_def\<close>)
    ultimately show ?thesis
      using that by (simp add: demo_disk_def word_le_def block_addr_def RAMDISK_BLOCK_SIZE_def PGSIZE_def RAMDISK_BLOCK_COUNT_def
          uint_plus_if' del: of_int_mult)
  qed
  then have ge: "\<forall>q\<in>block_addr (rfs_devices demo_disk r) ` {0..<int RAMDISK_BLOCK_COUNT}. 0x90000000 \<le> q" by simp
  then show ?thesis using assms bspec [OF ge, of p] by (auto simp only: not_le [symmetric])
qed

lemma demo_disk_ready: "disk_ready 0x8000 [0x80001000, 0x80002000, 0x80003000, 0x80004000] demo_disk"
proof -
  have "pmm_inv demo_disk [0x80001000, 0x80002000, 0x80003000, 0x80004000]"
    using demo_fs_pmm by (simp add: demo_disk_def pmm_inv_def pmm_bounds_def managed_def PAGE_INDEX_def MAX_PAGE_NUM_def)
  moreover have "iobuffer (rfs_devices demo_disk 0x8000) = 0x8f000000" by (simp add: demo_disk_def)
  ultimately show ?thesis
    using demo_disk_low [of _ "0x8000"] by (simp add: disk_ready_def Let_def disk_pages_def)
qed

theorem dinode_table_roundtrip_witness:
  "\<exists>t u. rfs_write_dinode 0x8000 (dinode_bytes (root_dinode (\<lambda>_. 0))) 33 demo_disk = (Inr 0, t) \<and>
     rfs_read_dinode 0x8000 33 t = (Inr 0x80001000, u) \<and>
     same_dinode (dinode_at (page_bytes u 0x80001000)) (root_dinode (\<lambda>_. 0))"
proof -
  have "dinode_fits (root_dinode (\<lambda>_. 0))"
    by (simp add: dinode_fits_def root_dinode_def fits_int_def R_DIR_def DIR_I_def RFS_BLK_OFFSET_FREE_def)
  then show ?thesis
    using dinode_table_roundtrip [OF demo_disk_ready, of 33 33 "root_dinode (\<lambda>_. 0)"]
    by (auto simp: inode_count_def RFS_BLKSIZE_def RFS_INODESIZE_def RFS_MAX_INODE_BLKNUM_def)
qed

section \<open>The free map\<close>

text \<open>Block \<open>12 + b\<close> is free when entry \<open>b\<close> of the free map is 0.\<close>

definition freemap :: "u64 \<Rightarrow> 'z fs_state_scheme \<Rightarrow> nat \<Rightarrow> int" where
  "freemap p s b = rd32 (page_bytes s (s_fs_info (super_blocks s p))) (4 * b)"

text \<open>A mounted superblock: its free map is loaded and has an entry for every block.\<close>

definition mounted :: "u64 \<Rightarrow> 'z fs_state_scheme \<Rightarrow> bool" where
  "mounted p s \<longleftrightarrow> p \<noteq> 0 \<and> s_fs_info (super_blocks s p) \<noteq> 0 \<and> sb_nblocks (super_blocks s p) \<le> 1024"

text \<open>The state after entry \<open>b\<close> of the free map was set to \<open>v\<close>.\<close>

definition set_freemap :: "u64 \<Rightarrow> nat \<Rightarrow> int \<Rightarrow> 'z fs_state_scheme \<Rightarrow> 'z fs_state_scheme" where
  "set_freemap p b v s = (let m = s_fs_info (super_blocks s p) in set_bytes m (wr32 (4 * b) v (page_bytes s m)) s)"

lemma set_freemap_simps [simp]: "super_blocks (set_freemap p b v s) = super_blocks s"
  "mounted p (set_freemap p b v s) = mounted p s"
  by (simp_all add: set_freemap_def Let_def set_bytes_def set_page_def mounted_def)

lemma freemap_set:
  assumes "b < 1024" "c < 1024" "fits_int v"
  shows "freemap p (set_freemap p b v s) c = (if c = b then v else freemap p s c)"
proof -
  let ?m = "s_fs_info (super_blocks s p)"
  have "freemap p (set_freemap p b v s) c = rd32 (page_bytes (set_freemap p b v s) ?m) (4 * c)"
    by (simp add: freemap_def)
  also have "\<dots> = rd32 (wr32 (4 * b) v (page_bytes s ?m)) (4 * c)"
    by (rule rd32_cong) (use assms(2) in \<open>auto simp: set_freemap_def Let_def\<close>)
  also have "\<dots> = (if c = b then v else freemap p s c)"
    using assms(3) by (cases c b rule: linorder_cases) (simp_all add: freemap_def)
  finally show ?thesis .
qed

lemma rfs_alloc_block_eq:
  assumes "mounted p s"
  shows "rfs_alloc_block p s = (case first_index (nat (sb_nblocks (super_blocks s p))) (\<lambda>b. freemap p s b = 0) of
     Some b \<Rightarrow> (Inr (RFS_BLK_OFFSET_FREE + int b), set_freemap p b 1 s)
   | None \<Rightarrow> (Inl (Kill ''rfs_alloc_block: no more free block!'' (-1)), s))"
  using assms by (auto simp: rfs_alloc_block_def mounted_def get_sb_def check_ptr_def krun_defs freemap_def set_freemap_def Let_def
      min_absorb1 split: option.splits)

lemma rfs_free_block_eq:
  assumes "mounted p s" "b < 1024"
  shows "rfs_free_block p (RFS_BLK_OFFSET_FREE + int b) s = (Inr 0, set_freemap p b 0 s)"
  using assms by (auto simp: rfs_free_block_def mounted_def get_sb_def check_ptr_def krun_defs set_freemap_def Let_def)

text \<open>
  C34. Block allocation: on a mounted file system \<open>rfs_alloc_block\<close> returns the first free data block, a block number from 12
  to \<open>11 + nblocks\<close>, and marks exactly this entry of the free map; nothing but the page of the free map changes, and
  \<open>rfs_free_block\<close> of the block number gives the old map back.  When no block is free, the current process is
  killed and nothing changes.
\<close>

theorem rfs_alloc_block_bounds:
  assumes "mounted p s"
  shows "if \<exists>b < nat (sb_nblocks (super_blocks s p)). freemap p s b = 0
    then \<exists>n t u. rfs_alloc_block p s = (Inr n, t) \<and> 12 \<le> n \<and> n < 12 + sb_nblocks (super_blocks s p) \<and>
      freemap p s (nat (n - 12)) = 0 \<and> (\<forall>b < nat (n - 12). freemap p s b \<noteq> 0) \<and>
      (\<forall>b < 1024. freemap p t b = (if b = nat (n - 12) then 1 else freemap p s b)) \<and>
      t = s\<lparr>pmem := (pmem s)(s_fs_info (super_blocks s p) := pmem t (s_fs_info (super_blocks s p)))\<rparr> \<and>
      rfs_free_block p n t = (Inr 0, u) \<and> (\<forall>b < 1024. freemap p u b = freemap p s b)
    else rfs_alloc_block p s = (Inl (Kill ''rfs_alloc_block: no more free block!'' (-1)), s)"
proof (cases "first_index (nat (sb_nblocks (super_blocks s p))) (\<lambda>b. freemap p s b = 0)")
  case None
  then have "rfs_alloc_block p s = (Inl (Kill ''rfs_alloc_block: no more free block!'' (-1)), s)"
    using rfs_alloc_block_eq [OF assms] by simp
  with None show ?thesis by (simp add: first_index_None)
next
  case (Some b)
  note b = first_index_Some [OF Some]
  have lt: "b < 1024" using b assms by (auto simp: mounted_def)
  let ?t = "set_freemap p b 1 s"
  have m: "freemap p ?t c = (if c = b then 1 else freemap p s c)" if "c < 1024" for c
    using freemap_set [OF lt that, of 1 p s] by (simp add: fits_int_def)
  have "freemap p (set_freemap p b 0 ?t) c = freemap p s c" if "c < 1024" for c
    using freemap_set [OF lt that, of 0 p ?t] m [OF that] b by (simp add: fits_int_def)
  moreover have "?t = s\<lparr>pmem := (pmem s)(s_fs_info (super_blocks s p) := pmem ?t (s_fs_info (super_blocks s p)))\<rparr>"
    by (simp add: set_freemap_def Let_def set_bytes_def set_page_def)
  moreover have "rfs_free_block p (12 + int b) ?t = (Inr 0, set_freemap p b 0 ?t)"
    using rfs_free_block_eq [of p ?t b] assms lt by (simp add: RFS_BLK_OFFSET_FREE_def)
  moreover have "rfs_alloc_block p s = (Inr (12 + int b), ?t)"
    using rfs_alloc_block_eq [OF assms] Some by (simp add: RFS_BLK_OFFSET_FREE_def)
  moreover have "int b < sb_nblocks (super_blocks s p)" using b by linarith
  ultimately have "\<exists>n t u. rfs_alloc_block p s = (Inr n, t) \<and> 12 \<le> n \<and> n < 12 + sb_nblocks (super_blocks s p) \<and>
      freemap p s (nat (n - 12)) = 0 \<and> (\<forall>b < nat (n - 12). freemap p s b \<noteq> 0) \<and>
      (\<forall>b < 1024. freemap p t b = (if b = nat (n - 12) then 1 else freemap p s b)) \<and>
      t = s\<lparr>pmem := (pmem s)(s_fs_info (super_blocks s p) := pmem t (s_fs_info (super_blocks s p)))\<rparr> \<and>
      rfs_free_block p n t = (Inr 0, u) \<and> (\<forall>b < 1024. freemap p u b = freemap p s b)"
    using m b by (intro exI [of _ "12 + int b"] exI [of _ ?t] exI [of _ "set_freemap p b 0 ?t"]) simp
  with b show ?thesis by auto
qed

text \<open>A file system of 100 blocks, its free map at 0x80006000 with the first block taken.\<close>

definition demo_mount :: fs_state where
  "demo_mount = demo_disk\<lparr>super_blocks := (\<lambda>_. \<lparr>sb_magic = RFS_MAGIC, sb_size = 112, sb_nblocks = 100, sb_ninodes = 320,
       s_root = 0, s_dev = 0x81000000, s_fs_info = 0x80006000\<rparr>),
     pmem := (pmem demo_disk)(0x80006000 := (\<lambda>_. 0)(0 := 1))\<rparr>"

lemma demo_mount_freemap: "mounted 0x82000000 demo_mount" "freemap 0x82000000 demo_mount 0 = 1" "freemap 0x82000000 demo_mount 1 = 0"
  by (simp_all add: mounted_def demo_mount_def freemap_def page_bytes_def byte_at_def rd32_def rd32w_def)

theorem rfs_alloc_block_bounds_witness:
  "\<exists>t u. rfs_alloc_block 0x82000000 demo_mount = (Inr 13, t) \<and> freemap 0x82000000 t 1 = 1 \<and>
     rfs_free_block 0x82000000 13 t = (Inr 0, u) \<and> freemap 0x82000000 u 1 = 0"
proof -
  have n: "sb_nblocks (super_blocks demo_mount 0x82000000) = 100" by (simp add: demo_mount_def)
  have "\<exists>b<nat (sb_nblocks (super_blocks demo_mount 0x82000000)). freemap 0x82000000 demo_mount b = 0"
    using demo_mount_freemap(3) by (intro exI [of _ 1]) (simp add: n)
  with rfs_alloc_block_bounds [OF demo_mount_freemap(1)] obtain k t u where
    r: "rfs_alloc_block 0x82000000 demo_mount = (Inr k, t)" "12 \<le> k" "freemap 0x82000000 demo_mount (nat (k - 12)) = 0"
      "\<forall>b<nat (k - 12). freemap 0x82000000 demo_mount b \<noteq> 0"
      "\<forall>b<1024. freemap 0x82000000 t b = (if b = nat (k - 12) then 1 else freemap 0x82000000 demo_mount b)"
      "rfs_free_block 0x82000000 k t = (Inr 0, u)" "\<forall>b<1024. freemap 0x82000000 u b = freemap 0x82000000 demo_mount b"
    unfolding if_P [OF \<open>\<exists>b<_. _\<close>] by auto
  have "nat (k - 12) \<noteq> 0" using r(3) demo_mount_freemap(2) by (metis zero_neq_one)
  moreover have "\<not> 1 < nat (k - 12)" using r(4) demo_mount_freemap(3) by blast
  ultimately have "nat (k - 12) = 1" by linarith
  then have "k = 13" using r(2) by linarith
  with r demo_mount_freemap(3) show ?thesis by auto
qed

end
