(* ===== verification/Rfs_Read.thy ===== *)
theory Rfs_Read
  imports Rfs_File Rfs_Disk
begin

text \<open>
  What \<^verbatim>\<open>rfs_read\<close> (\<^verbatim>\<open>kernel/rfs.c\<close>) returns: the contents of a file are the bytes of its blocks on the disk (\<open>file_byte\<close>), and
  the reading loop, over any number of blocks, copies them.
\<close>

section \<open>Files on the disk\<close>

text \<open>The file system of a superblock is on the device \<open>rdev\<close>.\<close>

definition on_device :: "u64 \<Rightarrow> u64 \<Rightarrow> 'z fs_state_scheme \<Rightarrow> bool" where
  "on_device rdev p s \<longleftrightarrow> p \<noteq> 0 \<and> s_dev (super_blocks s p) \<noteq> 0 \<and>
     (let i = dev_id (devices s (s_dev (super_blocks s p))) in 0 \<le> i \<and> i < int MAX_RAMDISK_COUNT \<and> rfs_device_list s (nat i) = rdev)"

text \<open>Byte \<open>i\<close> of a file, and a file whose blocks are all on the disk.\<close>

definition file_byte :: "u64 \<Rightarrow> 'z fs_state_scheme \<Rightarrow> vinode \<Rightarrow> nat \<Rightarrow> u8" where
  "file_byte rdev s v i = disk_blk rdev s (vi_addrs v (i div 4096)) (i mod 4096)"

definition file_blocks_ok :: "vinode \<Rightarrow> bool" where
  "file_blocks_ok v \<longleftrightarrow> vi_size v \<le> int DIRECT_BLKNUM * RFS_BLKSIZE \<and>
     (\<forall>b. int b * RFS_BLKSIZE < vi_size v \<longrightarrow> 0 \<le> vi_addrs v b \<and> vi_addrs v b < int RAMDISK_BLOCK_COUNT)"

lemma rdev_of_sb_eq: "on_device rdev p s \<Longrightarrow> rdev_of_sb p s = (Inr rdev, s)"
  by (simp add: on_device_def rdev_of_sb_def rdev_of_id_def get_sb_def get_device_def check_ptr_def krun_defs Let_def)

lemma block_of_eq: "0 \<le> i \<Longrightarrow> i < int DIRECT_BLKNUM \<Longrightarrow> block_of v i s = (Inr (vi_addrs v (nat i)), s)"
  by (simp add: block_of_def kreturn_def)

definition same_disk :: "u64 \<Rightarrow> u64 list \<Rightarrow> 'z fs_state_scheme \<Rightarrow> 'z fs_state_scheme \<Rightarrow> bool" where
  "same_disk rdev xs s t \<longleftrightarrow> disk_ready rdev xs t \<and> disk_rest rdev t = disk_rest rdev s \<and>
     (\<forall>b. 0 \<le> b \<longrightarrow> b < int RAMDISK_BLOCK_COUNT \<longrightarrow> disk_blk rdev t b = disk_blk rdev s b)"

lemma same_disk_refl: "disk_ready rdev xs s \<Longrightarrow> same_disk rdev xs s s"
  by (simp add: same_disk_def)

lemma same_disk_trans: "same_disk rdev xs s t \<Longrightarrow> same_disk rdev xs t u \<Longrightarrow> same_disk rdev xs s u"
  by (simp add: same_disk_def)

lemma read_one:
  assumes r: "disk_ready rdev xs s" and b: "0 \<le> b" "b < int RAMDISK_BLOCK_COUNT"
  obtains t io where "rfs_r1block rdev b s = (Inr 0, t)" "io_bytes rdev t = (Inr io, t)" "same_disk rdev xs s t"
    "\<And>i. i < 4096 \<Longrightarrow> io i = disk_blk rdev s b i"
proof -
  obtain t where t: "ramdisk_read rdev b s = (Inr 0, t)" "disk_ready rdev xs t" "disk_buf rdev t = disk_blk rdev s b"
    "\<And>b'. 0 \<le> b' \<Longrightarrow> b' < int RAMDISK_BLOCK_COUNT \<Longrightarrow> disk_blk rdev t b' = disk_blk rdev s b'" "disk_rest rdev t = disk_rest rdev s"
    using ramdisk.rd_ok [OF r b] b by (fastforce split: if_splits)
  let ?io = "page_bytes t (iobuffer (rfs_devices t rdev))"
  have io: "io_bytes rdev t = (Inr ?io, t)"
    using t(2) by (simp add: io_bytes_def get_rdev_def check_ptr_def krun_defs disk_ready_def Let_def)
  have bytes: "?io i = disk_blk rdev s b i" if "i < 4096" for i
    using fun_cong [OF t(3), of i] that by (simp add: disk_buf_def page_bytes_def block_bytes_def)
  show thesis by (rule that [of t ?io]) (use t io bytes in \<open>simp_all add: rfs_r1block_def same_disk_def\<close>)
qed

lemma read_blocks_eq:
  assumes "disk_ready rdev xs s" "0 \<le> buf_offset" "0 \<le> blk" "blk + int n \<le> int DIRECT_BLKNUM"
    and "\<And>i. i < n \<Longrightarrow> 0 \<le> vi_addrs v (nat blk + i) \<and> vi_addrs v (nat blk + i) < int RAMDISK_BLOCK_COUNT"
  obtains t buf' where "read_blocks n rdev v buf buf_offset blk s = (Inr (buf', buf_offset + int n * 4096, blk + int n), t)"
    "same_disk rdev xs s t" "\<And>i. i < nat buf_offset \<Longrightarrow> buf' i = buf i"
    "\<And>i. i < n * 4096 \<Longrightarrow> buf' (nat buf_offset + i) = disk_blk rdev s (vi_addrs v (nat blk + i div 4096)) (i mod 4096)"
proof -
  have "\<exists>t buf'. read_blocks n rdev v buf buf_offset blk s = (Inr (buf', buf_offset + int n * 4096, blk + int n), t) \<and>
    same_disk rdev xs s t \<and> (\<forall>i < nat buf_offset. buf' i = buf i) \<and>
    (\<forall>i < n * 4096. buf' (nat buf_offset + i) = disk_blk rdev s (vi_addrs v (nat blk + i div 4096)) (i mod 4096))"
    using assms
  proof (induction n arbitrary: s buf buf_offset blk)
    case 0
    then show ?case by (auto simp: kreturn_def same_disk_refl)
  next
    case (Suc n)
    let ?b = "vi_addrs v (nat blk)"
    have b: "0 \<le> ?b" "?b < int RAMDISK_BLOCK_COUNT" using Suc.prems(5) [of 0] by simp_all
    obtain t io where t: "rfs_r1block rdev ?b s = (Inr 0, t)" "io_bytes rdev t = (Inr io, t)" "same_disk rdev xs s t"
      "\<And>i. i < 4096 \<Longrightarrow> io i = disk_blk rdev s ?b i"
      by (rule read_one [OF Suc.prems(1) b]) blast
    let ?buf = "splice (nat buf_offset) (nat RFS_BLKSIZE) io buf"
    have ad: "0 \<le> vi_addrs v (nat (blk + 1) + i) \<and> vi_addrs v (nat (blk + 1) + i) < int RAMDISK_BLOCK_COUNT" if "i < n" for i
      using Suc.prems(5) [of "Suc i"] that Suc.prems(3) by (simp add: nat_add_distrib)
    have rt: "disk_ready rdev xs t" using t(3) by (simp add: same_disk_def)
    obtain u buf' where u: "read_blocks n rdev v ?buf (buf_offset + RFS_BLKSIZE) (blk + 1) t =
        (Inr (buf', buf_offset + RFS_BLKSIZE + int n * 4096, blk + 1 + int n), u)"
      "same_disk rdev xs t u" "\<forall>i < nat (buf_offset + RFS_BLKSIZE). buf' i = ?buf i"
      "\<forall>i < n * 4096. buf' (nat (buf_offset + RFS_BLKSIZE) + i) = disk_blk rdev t (vi_addrs v (nat (blk + 1) + i div 4096)) (i mod 4096)"
      using Suc.IH [OF rt, of "buf_offset + RFS_BLKSIZE" "blk + 1" ?buf] Suc.prems ad by (auto simp: RFS_BLKSIZE_def)
    have run: "read_blocks (Suc n) rdev v buf buf_offset blk s = (Inr (buf', buf_offset + int (Suc n) * 4096, blk + int (Suc n)), u)"
      using t(1,2) u(1) Suc.prems by (simp add: kbind_def block_of_eq RFS_BLKSIZE_def algebra_simps)
    have low: "\<forall>i < nat buf_offset. buf' i = buf i" using u(3) Suc.prems(2) by (simp add: splice_def RFS_BLKSIZE_def)
    have new: "buf' (nat buf_offset + i) = disk_blk rdev s (vi_addrs v (nat blk + i div 4096)) (i mod 4096)" if i: "i < Suc n * 4096" for i
    proof (cases "i < 4096")
      case True
      then show ?thesis using u(3) t(4) [of i] Suc.prems(2) by (simp add: splice_def RFS_BLKSIZE_def)
    next
      case False
      then obtain j where j: "i = 4096 + j" "j < n * 4096" using i by (metis le_add_diff_inverse not_less add_less_cancel_left mult_Suc)
      have "j div 4096 < n" using j(2) by (simp add: less_mult_imp_div_less)
      then have "disk_blk rdev t (vi_addrs v (nat (blk + 1) + j div 4096)) = disk_blk rdev s (vi_addrs v (nat (blk + 1) + j div 4096))"
        using t(3) ad [of "j div 4096"] by (simp add: same_disk_def)
      moreover have "(j + 4096) div 4096 = Suc (j div 4096)" by simp
      ultimately show ?thesis using u(4) j Suc.prems(2,3) by (simp add: RFS_BLKSIZE_def nat_add_distrib add.assoc add.commute add.left_commute)
    qed
    show ?case using run low new same_disk_trans [OF t(3) u(2)] by blast
  qed
  then show thesis using that by blast
qed

text \<open>The bytes of a file from position \<open>o\<close> on that lie in the block of \<open>o\<close>, and in the blocks after it.\<close>

lemma file_byte_first:
  assumes "o' = 4096 * q + a" "a + i < 4096"
  shows "file_byte rdev s v (o' + i) = disk_blk rdev s (vi_addrs v q) (a + i)"
proof -
  have "(o' + i) div 4096 = q" "(o' + i) mod 4096 = a + i" using assms by (simp_all add: add.assoc)
  then show ?thesis by (simp add: file_byte_def)
qed

lemma file_byte_later:
  assumes "o' = 4096 * q + a" "a < 4096"
  shows "file_byte rdev s v (o' + ((4096 - a) + j)) = disk_blk rdev s (vi_addrs v (Suc q + j div 4096)) (j mod 4096)"
proof -
  have eq: "o' + ((4096 - a) + j) = j + 4096 * Suc q" using assms by simp
  have "(o' + ((4096 - a) + j)) div 4096 = Suc q + j div 4096" "(o' + ((4096 - a) + j)) mod 4096 = j mod 4096"
    unfolding eq by (simp, rule mod_mult_self2)
  then show ?thesis by (simp add: file_byte_def)
qed

text \<open>The blocks after the first: complete ones and the beginning of the last.\<close>

lemma read_rest:
  assumes r: "disk_ready rdev xs s" and k: "k = Suc m" "rem < 4096" and q: "q + k < 10 \<or> q + k = 10 \<and> rem = 0"
    and ad: "\<And>i. i < m + (if rem = 0 then 0 else 1) \<Longrightarrow> 0 \<le> vi_addrs v (Suc q + i) \<and> vi_addrs v (Suc q + i) < int RAMDISK_BLOCK_COUNT"
  obtains t buf' where "kbind (read_blocks m rdev v buf (int f) (int (Suc q))) (\<lambda>(buffer, buf_offset, block_offset).
       if 0 < int rem
       then kbind (block_of v block_offset) (\<lambda>b. kbind (rfs_r1block rdev b) (\<lambda>_.
         kbind (io_bytes rdev) (\<lambda>io. kreturn (splice (nat buf_offset) (nat (int rem)) io buffer))))
       else kreturn buffer) s = (Inr buf', t)" "same_disk rdev xs s t" "\<forall>i<f. buf' i = buf i"
    "\<forall>j<m * 4096 + rem. buf' (f + j) = disk_blk rdev s (vi_addrs v (Suc q + j div 4096)) (j mod 4096)"
proof -
  obtain t buf1 where t: "read_blocks m rdev v buf (int f) (int (Suc q)) s = (Inr (buf1, int f + int m * 4096, int (Suc q) + int m), t)"
    "same_disk rdev xs s t" "\<And>i. i < f \<Longrightarrow> buf1 i = buf i"
    "\<And>i. i < m * 4096 \<Longrightarrow> buf1 (f + i) = disk_blk rdev s (vi_addrs v (Suc q + i div 4096)) (i mod 4096)"
    by (rule read_blocks_eq [OF r, of "int f" "int (Suc q)" m v buf])
      (use q k ad in \<open>auto simp: DIRECT_BLKNUM_def nat_add_distrib simp del: of_nat_Suc split: if_splits\<close>)
  show thesis
  proof (cases "rem = 0")
    case True
    with t show thesis by (intro that [of buf1 t]) (simp_all add: kbind_def kreturn_def)
  next
    case False
    let ?b = "vi_addrs v (Suc q + m)"
    have b: "0 \<le> ?b" "?b < int RAMDISK_BLOCK_COUNT" using ad [of m] False by simp_all
    have rt: "disk_ready rdev xs t" and blk: "disk_blk rdev t ?b = disk_blk rdev s ?b" using t(2) b by (simp_all add: same_disk_def)
    obtain u io where u: "rfs_r1block rdev ?b t = (Inr 0, u)" "io_bytes rdev u = (Inr io, u)" "same_disk rdev xs t u"
      "\<And>i. i < 4096 \<Longrightarrow> io i = disk_blk rdev t ?b i" by (rule read_one [OF rt b]) blast
    have bo: "block_of v (int (Suc q) + int m) t = (Inr ?b, t)"
      using block_of_eq [of "int (Suc q) + int m" v t] q k False by (simp add: DIRECT_BLKNUM_def nat_add_distrib)
    let ?buf = "splice (f + m * 4096) rem io buf1"
    have "?buf (f + j) = disk_blk rdev s (vi_addrs v (Suc q + j div 4096)) (j mod 4096)" if j: "j < m * 4096 + rem" for j
    proof (cases "j < m * 4096")
      case False
      then obtain l where l: "j = l + 4096 * m" "l < rem" using j by (metis add.commute le_Suc_ex mult.commute nat_add_left_cancel_less not_less)
      then show ?thesis using u(4) [of l] blk k(2) by (simp add: splice_def)
    qed (use t(4) in \<open>simp add: splice_def\<close>)
    moreover have "?buf i = buf i" if "i < f" for i using t(3) [OF that] that by (simp add: splice_def)
    moreover have "nat (int f + int m * 4096) = f + m * 4096" by simp
    ultimately show thesis
      by (intro that [of ?buf u] same_disk_trans [OF t(2) u(3)]) (use t(1) u(1,2) bo False in \<open>simp_all add: kbind_def kreturn_def\<close>)
  qed
qed

text \<open>
  Filling the local buffer of \<open>rfs_read\<close> with \<open>n\<close> bytes from position \<open>4096 * q + a\<close>, which lies in the file.
\<close>

lemma rfs_read_buffer:
  assumes r: "disk_ready rdev xs s" and v: "file_blocks_ok v" and n: "0 < n" "a < 4096" "int (4096 * q + a + n) \<le> vi_size v"
  obtains b0 t io u buf' where "block_of v (int q) s = (Inr b0, s)" "rfs_r1block rdev b0 s = (Inr 0, t)" "io_bytes rdev t = (Inr io, t)"
    "(if 0 \<le> int ((a + n) div 4096) - 1
      then kbind (read_blocks (nat (int ((a + n) div 4096) - 1)) rdev v
            (splice 0 (if (a + n) div 4096 = 0 then n else 4096 - a) (\<lambda>i. io (a + i)) (\<lambda>_. 0))
            (int (if (a + n) div 4096 = 0 then n else 4096 - a)) (int (Suc q)))
        (\<lambda>(buffer, buf_offset, block_offset).
          if 0 < int ((a + n) mod 4096)
          then kbind (block_of v block_offset) (\<lambda>b. kbind (rfs_r1block rdev b) (\<lambda>_.
            kbind (io_bytes rdev) (\<lambda>io. kreturn (splice (nat buf_offset) (nat (int ((a + n) mod 4096))) io buffer))))
          else kreturn buffer)
      else kreturn (splice 0 (if (a + n) div 4096 = 0 then n else 4096 - a) (\<lambda>i. io (a + i)) (\<lambda>_. 0))) t = (Inr buf', u)"
    "same_disk rdev xs s u" "\<And>i. i < n \<Longrightarrow> buf' i = file_byte rdev s v (4096 * q + a + i)"
proof -
  let ?k = "(a + n) div 4096" and ?rem = "(a + n) mod 4096"
  have ad: "b < 10 \<and> 0 \<le> vi_addrs v b \<and> vi_addrs v b < int RAMDISK_BLOCK_COUNT" if "4096 * b < 4096 * q + a + n" for b
    using v that n(3) by (auto simp: file_blocks_ok_def RFS_BLKSIZE_def DIRECT_BLKNUM_def)
  have an: "a + n = 4096 * ?k + ?rem" "?rem < 4096" by simp_all
  let ?b = "vi_addrs v q"
  have b0: "q < 10" "0 \<le> ?b" "?b < int RAMDISK_BLOCK_COUNT" using ad [of q] n(1) by auto
  obtain t io where t: "rfs_r1block rdev ?b s = (Inr 0, t)" "io_bytes rdev t = (Inr io, t)" "same_disk rdev xs s t"
    "\<And>i. i < 4096 \<Longrightarrow> io i = disk_blk rdev s ?b i" by (rule read_one [OF r b0(2,3)]) blast
  have bo: "block_of v (int q) s = (Inr ?b, s)" using block_of_eq [of "int q" v s] b0(1) by (simp add: DIRECT_BLKNUM_def)
  have first: "io (a + i) = file_byte rdev s v (4096 * q + a + i)" if "a + i < 4096" for i
    using t(4) [OF that] file_byte_first [OF refl that, of rdev s v q] by simp
  show thesis
  proof (cases ?k)
    case 0
    then have "a + n < 4096" by simp
    then show thesis
      by (intro that [OF bo t(1,2) _ t(3), of "splice 0 n (\<lambda>i. io (a + i)) (\<lambda>_. 0)"])
        (use 0 first in \<open>simp_all add: kreturn_def splice_def\<close>)
  next
    case (Suc m)
    let ?buf = "splice 0 (4096 - a) (\<lambda>i. io (a + i)) (\<lambda>_. 0)"
    have rt: "disk_ready rdev xs t" using t(3) by (simp add: same_disk_def)
    have q: "q + ?k < 10 \<or> q + ?k = 10 \<and> ?rem = 0" using ad [of "q + ?k"] ad [of "q + m"] an Suc by (cases "?rem = 0") auto
    have ad': "0 \<le> vi_addrs v (Suc q + i) \<and> vi_addrs v (Suc q + i) < int RAMDISK_BLOCK_COUNT"
      if "i < m + (if ?rem = 0 then 0 else 1)" for i
      using ad [of "Suc q + i"] that an Suc by (auto split: if_splits)
    obtain u buf' where u: "kbind (read_blocks m rdev v ?buf (int (4096 - a)) (int (Suc q))) (\<lambda>(buffer, buf_offset, block_offset).
       if 0 < int ?rem
       then kbind (block_of v block_offset) (\<lambda>b. kbind (rfs_r1block rdev b) (\<lambda>_.
         kbind (io_bytes rdev) (\<lambda>io. kreturn (splice (nat buf_offset) (nat (int ?rem)) io buffer))))
       else kreturn buffer) t = (Inr buf', u)" "same_disk rdev xs t u" "\<forall>i<4096 - a. buf' i = ?buf i"
      "\<forall>j<m * 4096 + ?rem. buf' (4096 - a + j) = disk_blk rdev t (vi_addrs v (Suc q + j div 4096)) (j mod 4096)"
      by (rule read_rest [OF rt Suc an(2) q ad', where buf = ?buf and f = "4096 - a"]) (assumption, erule (3) that)
    have bytes: "buf' i = file_byte rdev s v (4096 * q + a + i)" if i: "i < n" for i
    proof (cases "i < 4096 - a")
      case True
      then show ?thesis using u(3) True first [of i] by (simp add: splice_def)
    next
      case False
      define j where "j = i - (4096 - a)"
      have j: "i = 4096 - a + j" "j < m * 4096 + ?rem" using False i n(2) an Suc by (auto simp: j_def)
      have "j div 4096 < m + (if ?rem = 0 then 0 else 1)" using j(2) an(2) by (auto simp: less_mult_imp_div_less div_less_iff_less_mult)
      then have "disk_blk rdev t (vi_addrs v (Suc q + j div 4096)) = disk_blk rdev s (vi_addrs v (Suc q + j div 4096))"
        using ad' t(3) by (simp add: same_disk_def)
      then show ?thesis using u(4) j(2) file_byte_later [OF refl n(2), of rdev s v q j] j(1) by simp
    qed
    show thesis
      by (rule that [OF bo t(1,2) _ same_disk_trans [OF t(3) u(2)] bytes]) (use u(1) Suc in \<open>simp_all\<close>)
  qed
qed

lemma rfs_read_eq:
  fixes s :: "'a fs_state_scheme"
  assumes r: "disk_ready rdev xs s" and p: "p \<noteq> 0" and v: "file_blocks_ok (vinodes s p)" and dev: "on_device rdev (vi_sb (vinodes s p)) s"
    and off: "0 \<le> offset" "offset < vi_size (vinodes s p)" and len: "0 < len"
  shows "\<exists>t r_buf' n. rfs_read p r_buf len offset s = (Inr (n, r_buf', offset + n), t) \<and>
    n = min len (vi_size (vinodes s p) - offset) \<and> same_disk rdev xs s t \<and>
    (let L = length (takeWhile (\<lambda>i. file_byte rdev s (vinodes s p) (nat offset + i) \<noteq> 0) [0..<nat n]) in
     \<forall>i. r_buf' i = (if i < L then file_byte rdev s (vinodes s p) (nat offset + i) else if i = L then 0 else r_buf i))"
proof -
  let ?v = "vinodes s p"
  define n where "n = nat (min len (vi_size ?v - offset))"
  define q where "q = nat offset div 4096"
  define a where "a = nat offset mod 4096"
  have o: "nat offset = 4096 * q + a" "offset = int (4096 * q + a)" "a < 4096" using off(1) by (auto simp: q_def a_def)
  have n: "0 < n" "int n = min len (vi_size ?v - offset)" "int (4096 * q + a + n) \<le> vi_size ?v"
    using off len o(2) by (auto simp: n_def)
  have sd: "int x sdiv 4096 = int (x div 4096)" "int x smod 4096 = int (x mod 4096)" for x
    by (simp_all add: signed_divide_int_def signed_modulo_int_def sgn_if zdiv_int zmod_int)
  have off': "offset smod RFS_BLKSIZE = int a" "offset sdiv RFS_BLKSIZE = int q"
    using o(3) unfolding o(2) RFS_BLKSIZE_def sd by simp_all
  have cut: "(if vi_size ?v < offset + len then vi_size ?v - offset else len) = int n"
    unfolding n(2) by auto
  obtain b0 t io u buf' where b: "block_of ?v (int q) s = (Inr b0, s)" "rfs_r1block rdev b0 s = (Inr 0, t)" "io_bytes rdev t = (Inr io, t)"
    "(if 0 \<le> int ((a + n) div 4096) - 1
      then kbind (read_blocks (nat (int ((a + n) div 4096) - 1)) rdev ?v
            (splice 0 (if (a + n) div 4096 = 0 then n else 4096 - a) (\<lambda>i. io (a + i)) (\<lambda>_. 0))
            (int (if (a + n) div 4096 = 0 then n else 4096 - a)) (int (Suc q)))
        (\<lambda>(buffer, buf_offset, block_offset).
          if 0 < int ((a + n) mod 4096)
          then kbind (block_of ?v block_offset) (\<lambda>b. kbind (rfs_r1block rdev b) (\<lambda>_.
            kbind (io_bytes rdev) (\<lambda>io. kreturn (splice (nat buf_offset) (nat (int ((a + n) mod 4096))) io buffer))))
          else kreturn buffer)
      else kreturn (splice 0 (if (a + n) div 4096 = 0 then n else 4096 - a) (\<lambda>i. io (a + i)) (\<lambda>_. 0))) t = (Inr buf', u)"
    "same_disk rdev xs s u" and bytes: "\<And>i. i < n \<Longrightarrow> buf' i = file_byte rdev s ?v (4096 * q + a + i)"
    by (rule rfs_read_buffer [OF r v n(1) o(3) n(3)]) blast
  let ?f = "if (a + n) div 4096 = 0 then n else 4096 - a"
  have fb: "(if int ((a + n) div 4096) = 0 then int n else 4096 - int a) = int ?f" using o(3) by auto
  have ok: "\<not> (int a < 0 \<or> int ?f < 0 \<or> 4096 < int a + int ?f)" using o(3) by (auto simp: div_eq_0_iff)
  have dv: "(int a + int n) sdiv 4096 = int ((a + n) div 4096)" "(int a + int n) smod 4096 = int ((a + n) mod 4096)"
    using sd [of "a + n"] by simp_all
  have gv: "kbind (get_vinode p) g s = g ?v s" for g :: "vinode \<Rightarrow> ('a fs_state_scheme, 'b) km"
    using p by (simp add: get_vinode_def check_ptr_def krun_defs)
  have no: "\<not> vi_size ?v < offset" "\<not> int n < 0" using off(2) by simp_all
  have suc: "int q + 1 = int (Suc q)" by simp
  have run: "rfs_read p r_buf len offset s =
    (Inr (int n, splice 0 (cstr_len n (buf'(n := 0)) + 1) (buf'(n := 0)) r_buf, offset + int n), u)"
    unfolding rfs_read_def gv unfolding Let_def unfolding cut off' if_not_P [OF no(1)] if_not_P [OF no(2)] unfolding RFS_BLKSIZE_def dv unfolding fb suc
      kbind_run [where m = "rdev_of_sb _", OF rdev_of_sb_eq [OF dev]] kbind_run [where m = "block_of _ _", OF b(1)]
      kbind_run [where m = "rfs_r1block _ _", OF b(2)] if_not_P [OF ok] kbind_run [where m = "io_bytes _", OF b(3)] nat_int
      kbind_run [where m = "if _ then _ else _", OF b(4) [unfolded nat_int]]
    by (simp add: kreturn_def)
  let ?L = "length (takeWhile (\<lambda>i. file_byte rdev s ?v (nat offset + i) \<noteq> 0) [0..<n])"
  have L: "cstr_len n (buf'(n := 0)) = ?L"
    unfolding cstr_len_def o(1) by (rule arg_cong [where f = length], rule takeWhile_cong) (auto simp: bytes)
  have le: "?L \<le> n" using length_takeWhile_le [of _ "[0..<n]"] by simp
  have zero: "(buf'(n := 0)) ?L = 0"
  proof (cases "?L = n")
    case False
    then have "?L < length [0..<n]" using le by simp
    from nth_length_takeWhile [OF this] show ?thesis using False le bytes [of ?L] by (simp add: o(1))
  qed simp
  have "splice 0 (?L + 1) (buf'(n := 0)) r_buf i = (if i < ?L then file_byte rdev s ?v (nat offset + i) else if i = ?L then 0 else r_buf i)" for i
    using zero le bytes [of i] by (auto simp: splice_def o(1) less_Suc_eq)
  then have fin: "\<forall>i. splice 0 (?L + 1) (buf'(n := 0)) r_buf i =
      (if i < length (takeWhile (\<lambda>i. file_byte rdev s ?v (nat offset + i) \<noteq> 0) [0..<nat (int n)]) then file_byte rdev s ?v (nat offset + i)
       else if i = length (takeWhile (\<lambda>i. file_byte rdev s ?v (nat offset + i) \<noteq> 0) [0..<nat (int n)]) then 0 else r_buf i)"
    unfolding nat_int by blast
  show ?thesis
    unfolding Let_def by (intro exI conjI, rule run [unfolded L], rule n(2), rule b(5), rule fin)
qed

text \<open>
  C30. Reading a file of the RAM disk: for a file whose blocks are on the disk, a position inside it and a positive length,
  \<open>rfs_read\<close> returns the number of bytes asked for or, when that is less, of the bytes left in the file, moves the offset by this
  number, and leaves the disk and everything else as it was.  The destination gets the bytes of the file from that position up to
  the first zero byte among them, then a zero byte, and keeps the rest of its contents.
\<close>

theorem rfs_read_bytes:
  fixes s :: "'a fs_state_scheme"
  assumes r: "disk_ready rdev xs s" and p: "p \<noteq> 0" and v: "file_blocks_ok (vinodes s p)" and dev: "on_device rdev (vi_sb (vinodes s p)) s"
    and off: "0 \<le> offset" "offset < vi_size (vinodes s p)" and len: "0 < len"
  shows "\<exists>t r_buf' n. rfs_read p r_buf len offset s = (Inr (n, r_buf', offset + n), t) \<and>
    n = min len (vi_size (vinodes s p) - offset) \<and> same_disk rdev xs s t \<and>
    (let L = length (takeWhile (\<lambda>i. file_byte rdev s (vinodes s p) (nat offset + i) \<noteq> 0) [0..<nat n]) in
     \<forall>i. r_buf' i = (if i < L then file_byte rdev s (vinodes s p) (nat offset + i) else if i = L then 0 else r_buf i))"
  using assms by (rule rfs_read_eq)

text \<open>A file of 5 bytes in block 13 of \<open>demo_mount\<close>.\<close>

definition demo_file :: fs_state where
  "demo_file = demo_mount\<lparr>vinodes := (\<lambda>_. blank_vinode\<lparr>vi_size := 5, vi_blocks := 1, vi_addrs := (\<lambda>_. 13), vi_sb := 0x82000000\<rparr>),
     pmem := (pmem demo_mount)(0x9000d000 := (\<lambda>_. 0)(0 := 0x4847464544434241)),
     rfs_device_list := (\<lambda>_. 0x8000)\<rparr>"

lemma demo_file_ready: "disk_ready 0x8000 [0x80001000, 0x80002000, 0x80003000, 0x80004000] demo_file"
proof -
  have "pmm_inv demo_file [0x80001000, 0x80002000, 0x80003000, 0x80004000]"
    using demo_fs_pmm by (simp add: demo_file_def demo_mount_def demo_disk_def pmm_inv_def pmm_bounds_def managed_def PAGE_INDEX_def MAX_PAGE_NUM_def)
  moreover have "rfs_devices demo_file = rfs_devices demo_disk" by (simp add: demo_file_def demo_mount_def)
  ultimately show ?thesis using demo_disk_ready unfolding disk_ready_def Let_def by metis
qed

lemma demo_file_ok: "on_device 0x8000 (vi_sb (vinodes demo_file 0x83000000)) demo_file" "file_blocks_ok (vinodes demo_file 0x83000000)"
  by (simp_all add: on_device_def file_blocks_ok_def demo_file_def demo_mount_def demo_disk_def demo_fs_defs MAX_RAMDISK_COUNT_def
      DIRECT_BLKNUM_def RFS_BLKSIZE_def RAMDISK_BLOCK_COUNT_def)

lemma demo_file_bytes: "i \<in> {1, 2, 3} \<Longrightarrow> file_byte 0x8000 demo_file (vinodes demo_file 0x83000000) i = of_nat (0x41 + i)"
  by (auto simp: file_byte_def demo_file_def demo_mount_def demo_disk_def disk_blk_def block_bytes_def byte_at_def block_addr_def
      RAMDISK_BLOCK_SIZE_def PGSIZE_def)

theorem rfs_read_bytes_witness:
  "\<exists>t b. rfs_read 0x83000000 (\<lambda>_. 0) 3 1 demo_file = (Inr (3, b, 4), t) \<and> map b [0..<4] = [0x42, 0x43, 0x44, 0]"
proof -
  let ?L = "length (takeWhile (\<lambda>i. file_byte 0x8000 demo_file (vinodes demo_file 0x83000000) (nat 1 + i) \<noteq> 0) [0..<nat 3])"
  have sz: "vi_size (vinodes demo_file 0x83000000) = 5" by (simp add: demo_file_def)
  have up: "[0..<nat 3] = [0, 1, 2]" "[0..<4] = [0, 1, 2, 3]" by (simp_all add: upt_rec)
  have L: "?L = 3" unfolding up by (simp add: demo_file_bytes)
  obtain t b n where "rfs_read 0x83000000 (\<lambda>_. 0) 3 1 demo_file = (Inr (n, b, 1 + n), t)" "n = min 3 (5 - 1)"
    "let L = length (takeWhile (\<lambda>i. file_byte 0x8000 demo_file (vinodes demo_file 0x83000000) (nat 1 + i) \<noteq> 0) [0..<nat n]) in
     \<forall>i. b i = (if i < L then file_byte 0x8000 demo_file (vinodes demo_file 0x83000000) (nat 1 + i) else if i = L then 0 else 0)"
    using rfs_read_bytes [OF demo_file_ready _ demo_file_ok(2,1), of 1 3 "\<lambda>_. 0"] unfolding sz by auto
  then have "rfs_read 0x83000000 (\<lambda>_. 0) 3 1 demo_file = (Inr (3, b, 4), t)"
    "\<forall>i. b i = (if i < 3 then file_byte 0x8000 demo_file (vinodes demo_file 0x83000000) (nat 1 + i) else if i = 3 then 0 else 0)"
    using L by (simp_all add: Let_def)
  then show ?thesis by (auto simp: up demo_file_bytes)
qed

end
