(* ===== verification/Rfs_Write.thy ===== *)
theory Rfs_Write
  imports Rfs_Read
begin

text \<open>
  What \<^verbatim>\<open>rfs_write\<close> (\<^verbatim>\<open>kernel/rfs.c\<close>) does to a file and to the rest of the disk.  \<open>file_ok\<close> is the invariant of an open file: its blocks are
  distinct data blocks that the free map marks as used, and they cover its size.  Writing keeps it, takes the blocks it needs from
  the free map (\<open>room\<close>) and leaves the blocks of all other files alone (\<open>frame\<close>).
\<close>

section \<open>Open files\<close>

definition used :: "u64 \<Rightarrow> 'z fs_state_scheme \<Rightarrow> int \<Rightarrow> bool" where
  "used sb s b \<longleftrightarrow> 12 \<le> b \<and> b < 12 + sb_nblocks (super_blocks s sb) \<and> freemap sb s (nat (b - 12)) \<noteq> 0"

abbreviation nblocks_of :: "u64 \<Rightarrow> 'z fs_state_scheme \<Rightarrow> nat" where
  "nblocks_of p s \<equiv> nat (vi_blocks (vinodes s p))"

definition file_ok :: "u64 \<Rightarrow> u64 list \<Rightarrow> u64 \<Rightarrow> 'z fs_state_scheme \<Rightarrow> bool" where
  "file_ok rdev xs p s \<longleftrightarrow> (let v = vinodes s p; sb = super_blocks s (vi_sb v) in
     p \<noteq> 0 \<and> disk_ready rdev xs s \<and> on_device rdev (vi_sb v) s \<and> mounted (vi_sb v) s \<and>
     s_fs_info sb \<notin> disk_pages (rfs_devices s rdev) \<union> set xs \<and> 12 + sb_nblocks sb \<le> int RAMDISK_BLOCK_COUNT \<and>
     0 \<le> vi_size v \<and> vi_size v \<le> 4096 * vi_blocks v \<and> vi_blocks v \<le> int DIRECT_BLKNUM \<and>
     inj_on (vi_addrs v) {..<nblocks_of p s} \<and> (\<forall>j<nblocks_of p s. used (vi_sb v) s (vi_addrs v j)))"

lemma file_okD:
  assumes "file_ok rdev xs p s"
  shows "p \<noteq> 0" "disk_ready rdev xs s" "on_device rdev (vi_sb (vinodes s p)) s" "mounted (vi_sb (vinodes s p)) s"
    "s_fs_info (super_blocks s (vi_sb (vinodes s p))) \<notin> disk_pages (rfs_devices s rdev)"
    "s_fs_info (super_blocks s (vi_sb (vinodes s p))) \<notin> set xs"
    "12 + sb_nblocks (super_blocks s (vi_sb (vinodes s p))) \<le> int RAMDISK_BLOCK_COUNT"
    "0 \<le> vi_size (vinodes s p)" "vi_size (vinodes s p) \<le> 4096 * vi_blocks (vinodes s p)" "nblocks_of p s \<le> 10"
    "inj_on (vi_addrs (vinodes s p)) {..<nblocks_of p s}" "vi_blocks (vinodes s p) = int (nblocks_of p s)"
    "j < nblocks_of p s \<Longrightarrow> used (vi_sb (vinodes s p)) s (vi_addrs (vinodes s p) j)"
  using assms by (auto simp: file_ok_def Let_def DIRECT_BLKNUM_def)

lemma file_ok_block:
  assumes "file_ok rdev xs p s" "j < nblocks_of p s"
  shows "0 \<le> vi_addrs (vinodes s p) j" "vi_addrs (vinodes s p) j < int RAMDISK_BLOCK_COUNT"
  using file_okD(7,13) [OF assms(1)] assms(2) by (fastforce simp: used_def)+

text \<open>The blocks that belong to the file system itself or to other files.\<close>

definition others :: "u64 \<Rightarrow> 'z fs_state_scheme \<Rightarrow> int set" where
  "others p s = {b. 0 \<le> b \<and> b < int RAMDISK_BLOCK_COUNT \<and> b \<notin> vi_addrs (vinodes s p) ` {..<nblocks_of p s} \<and>
     (12 \<le> b \<and> b < 12 + sb_nblocks (super_blocks s (vi_sb (vinodes s p))) \<longrightarrow> freemap (vi_sb (vinodes s p)) s (nat (b - 12)) \<noteq> 0)}"

definition frame :: "u64 \<Rightarrow> u64 \<Rightarrow> 'z fs_state_scheme \<Rightarrow> 'z fs_state_scheme \<Rightarrow> bool" where
  "frame rdev p s t \<longleftrightarrow> others p s \<subseteq> others p t \<and> (\<forall>b\<in>others p s. disk_blk rdev t b = disk_blk rdev s b) \<and>
     (\<forall>q. q \<noteq> p \<longrightarrow> vinodes t q = vinodes s q)"

lemma frame_refl: "frame rdev p s s"
  by (simp add: frame_def)

lemma frame_trans: "frame rdev p s t \<Longrightarrow> frame rdev p t u \<Longrightarrow> frame rdev p s u"
  unfolding frame_def by (metis subsetD subset_trans)

text \<open>The number of blocks that the file has or could get.\<close>

definition room :: "u64 \<Rightarrow> 'z fs_state_scheme \<Rightarrow> nat" where
  "room p s = nblocks_of p s + card {b. b < nat (sb_nblocks (super_blocks s (vi_sb (vinodes s p)))) \<and> freemap (vi_sb (vinodes s p)) s b = 0}"

abbreviation fblk :: "u64 \<Rightarrow> u64 \<Rightarrow> 'z fs_state_scheme \<Rightarrow> nat \<Rightarrow> nat \<Rightarrow> u8" where
  "fblk rdev p s j \<equiv> disk_blk rdev s (vi_addrs (vinodes s p) j)"

section \<open>Writing one block\<close>

lemma disk_restD:
  assumes "disk_rest rdev t = disk_rest rdev s"
  shows "vinodes t = vinodes s" "super_blocks t = super_blocks s" "devices t = devices s" "rfs_device_list t = rfs_device_list s"
    "rfs_devices t = rfs_devices s" "m \<notin> disk_pages (rfs_devices s rdev) \<Longrightarrow> pmem t m = pmem s m"
proof -
  show "vinodes t = vinodes s" "super_blocks t = super_blocks s" "devices t = devices s" "rfs_device_list t = rfs_device_list s"
    and d: "rfs_devices t = rfs_devices s"
    using arg_cong [OF assms, of vinodes] arg_cong [OF assms, of super_blocks] arg_cong [OF assms, of devices]
      arg_cong [OF assms, of rfs_device_list] arg_cong [OF assms, of rfs_devices] by (simp_all add: disk_rest_def)
  show "pmem t m = pmem s m" if "m \<notin> disk_pages (rfs_devices s rdev)"
    using fun_cong [OF arg_cong [OF assms, of pmem], of m] that d by (simp add: disk_rest_def)
qed

text \<open>A change of one block of the file, on the disk.\<close>

lemma file_block_changed:
  assumes ok: "file_ok rdev xs p s" and t: "disk_ready rdev xs t" "disk_rest rdev t = disk_rest rdev s" and k: "k < nblocks_of p s"
    and blk: "\<And>b. 0 \<le> b \<Longrightarrow> b < int RAMDISK_BLOCK_COUNT \<Longrightarrow>
      disk_blk rdev t b = (if b = vi_addrs (vinodes s p) k then c else disk_blk rdev s b)"
  shows "file_ok rdev xs p t" "frame rdev p s t" "room p t = room p s" "vinodes t = vinodes s"
    "\<And>j. j < nblocks_of p s \<Longrightarrow> fblk rdev p t j = (if j = k then c else fblk rdev p s j)"
proof -
  note d = disk_restD [OF t(2)]
  show v: "vinodes t = vinodes s" by (rule d)
  have fm: "freemap (vi_sb (vinodes s p)) t = freemap (vi_sb (vinodes s p)) s"
    using d(6) [OF file_okD(5) [OF ok]] by (intro ext) (simp add: freemap_def page_bytes_def d(2))
  have u: "used (vi_sb (vinodes s p)) t = used (vi_sb (vinodes s p)) s" by (simp add: used_def fm d fun_eq_iff)
  have "on_device rdev (vi_sb (vinodes s p)) t" "mounted (vi_sb (vinodes s p)) t"
    using file_okD(3,4) [OF ok] by (simp_all add: on_device_def mounted_def d)
  with ok show "file_ok rdev xs p t" using t(1) by (simp add: file_ok_def Let_def v u d)
  have "others p t = others p s" by (simp add: others_def fm d)
  moreover have "vi_addrs (vinodes s p) k \<notin> others p s" using k by (auto simp: others_def)
  ultimately show "frame rdev p s t" using blk v by (auto simp: frame_def others_def)
  show "room p t = room p s" by (simp add: room_def fm d)
  show "fblk rdev p t j = (if j = k then c else fblk rdev p s j)" if j: "j < nblocks_of p s" for j
    using blk [OF file_ok_block [OF ok j]] inj_onD [OF file_okD(11) [OF ok], of j k] j k by (auto simp: v)
qed

lemma get_vinode_eq: "p \<noteq> 0 \<Longrightarrow> get_vinode p s = (Inr (vinodes s p), s)"
  by (simp add: get_vinode_def check_ptr_def krun_defs)

text \<open>Writing to the buffer, and from the buffer to the disk.\<close>

lemma copy_one:
  assumes r: "disk_ready rdev xs s" and n: "a + n \<le> 4096"
  obtains t where "io_memcpy rdev (int a) (int n) g s = (Inr (), t)" "disk_ready rdev xs t" "disk_buf rdev t = splice a n g (disk_buf rdev s)"
    "\<And>b. 0 \<le> b \<Longrightarrow> b < int RAMDISK_BLOCK_COUNT \<Longrightarrow> disk_blk rdev t b = disk_blk rdev s b" "disk_rest rdev t = disk_rest rdev s"
proof -
  have "int a + int n \<le> RFS_BLKSIZE" using n by (simp add: RFS_BLKSIZE_def)
  from ramdisk.cpy_ok [OF r _ _ this, of g] obtain t where t: "io_memcpy rdev (int a) (int n) g s = (Inr (), t)" "disk_ready rdev xs t"
    "disk_buf rdev t = splice a n g (disk_buf rdev s)" "disk_rest rdev t = disk_rest rdev s"
    "\<forall>b. (if 0 \<le> b \<and> b < int RAMDISK_BLOCK_COUNT then disk_blk rdev t b else (\<lambda>_. 0)) =
       (if 0 \<le> b \<and> b < int RAMDISK_BLOCK_COUNT then disk_blk rdev s b else (\<lambda>_. 0))" by auto
  have "disk_blk rdev t b = disk_blk rdev s b" if "0 \<le> b" "b < int RAMDISK_BLOCK_COUNT" for b
    using spec [OF t(5), of b] that by simp
  then show thesis by (rule that [OF t(1,2,3) _ t(4)])
qed

lemma write_one:
  assumes r: "disk_ready rdev xs s" and c: "0 \<le> c" "c < int RAMDISK_BLOCK_COUNT"
  obtains t where "rfs_w1block rdev c s = (Inr 0, t)" "disk_ready rdev xs t" "disk_rest rdev t = disk_rest rdev s"
    "\<And>b. 0 \<le> b \<Longrightarrow> b < int RAMDISK_BLOCK_COUNT \<Longrightarrow> disk_blk rdev t b = (if b = c then disk_buf rdev s else disk_blk rdev s b)"
proof -
  obtain t where t: "ramdisk_write rdev c s = (Inr 0, t)" "disk_ready rdev xs t" "disk_rest rdev t = disk_rest rdev s"
    "\<forall>b. 0 \<le> b \<longrightarrow> b < int RAMDISK_BLOCK_COUNT \<longrightarrow> (if 0 \<le> b \<and> b < int RAMDISK_BLOCK_COUNT then disk_blk rdev t b else (\<lambda>_. 0)) =
       (if b = c then disk_buf rdev s else if 0 \<le> b \<and> b < int RAMDISK_BLOCK_COUNT then disk_blk rdev s b else (\<lambda>_. 0))"
    using ramdisk.wr_ok [OF r c] by blast
  show thesis by (rule that [of t]) (use t in \<open>auto simp: rfs_w1block_def\<close>)
qed

text \<open>The file gets its next block.\<close>

lemma disk_vinodes [simp]:
  "disk_ready rdev xs (s\<lparr>vinodes := f\<rparr>) = disk_ready rdev xs s" "disk_blk rdev (s\<lparr>vinodes := f\<rparr>) = disk_blk rdev s"
  "freemap sb (s\<lparr>vinodes := f\<rparr>) = freemap sb s" "on_device rdev sb (s\<lparr>vinodes := f\<rparr>) = on_device rdev sb s"
  "mounted sb (s\<lparr>vinodes := f\<rparr>) = mounted sb s"
  by (simp_all add: disk_ready_def disk_blk_def freemap_def on_device_def mounted_def page_bytes_def pmm_inv_def pmm_bounds_def managed_def
      PAGE_INDEX_def MAX_PAGE_NUM_def fun_eq_iff)

lemma set_freemap_fields [simp]:
  "vinodes (set_freemap p b c s) = vinodes s" "rfs_devices (set_freemap p b c s) = rfs_devices s" "devices (set_freemap p b c s) = devices s"
  "rfs_device_list (set_freemap p b c s) = rfs_device_list s"
  by (simp_all add: set_freemap_def Let_def set_bytes_def set_page_def)

text \<open>A free block \<open>b\<close> becomes block \<open>k\<close>, the next one of the file.\<close>

lemma file_grown:
  assumes ok: "file_ok rdev xs p s" and k: "k = nblocks_of p s" "k < 10"
    and b: "b < nat (sb_nblocks (super_blocks s (vi_sb (vinodes s p))))" "freemap (vi_sb (vinodes s p)) s b = 0"
  defines "t \<equiv> (set_freemap (vi_sb (vinodes s p)) b 1 s)\<lparr>vinodes := (vinodes s)(p := (vinodes s p)\<lparr>vi_addrs := (vi_addrs (vinodes s p))(k := 12 + int b),
      vi_blocks := int k + 1\<rparr>)\<rparr>"
  shows "file_ok rdev xs p t" "frame rdev p s t" "room p t = room p s" "\<And>j. j < k \<Longrightarrow> fblk rdev p t j = fblk rdev p s j"
proof -
  let ?v = "vinodes s p" let ?sb = "vi_sb ?v" let ?N = "nat (sb_nblocks (super_blocks s ?sb))"
  have vt: "vinodes t p = ?v\<lparr>vi_addrs := (vi_addrs ?v)(k := 12 + int b), vi_blocks := int k + 1\<rparr>" "super_blocks t = super_blocks s"
    "rfs_devices t = rfs_devices s" "nblocks_of p t = Suc k" by (simp_all add: t_def nat_add_distrib)
  have plus: "nat (vi_blocks ?v + 1) = Suc k" using file_okD(12) [OF ok] k(1) by linarith
  have nb: "b < 1024" "?N \<le> 1024" using b file_okD(4) [OF ok] by (auto simp: mounted_def)
  have fm: "freemap ?sb t c = (if c = b then 1 else freemap ?sb s c)" if "c < ?N" for c
    using freemap_set [OF nb(1), of c 1 ?sb s] that nb by (simp add: t_def fits_int_def)
  have du: "disk_ready rdev xs t" "\<And>c. 0 \<le> c \<Longrightarrow> c < int RAMDISK_BLOCK_COUNT \<Longrightarrow> disk_blk rdev t c = disk_blk rdev s c"
    using disk_set_other [OF file_okD(2,5,6) [OF ok]] by (simp_all add: t_def set_freemap_def Let_def set_bytes_def)
  have us: "used ?sb t c" if "used ?sb s c" for c using that fm [of "nat (c - 12)"] by (auto simp: used_def vt)
  have new: "used ?sb t (12 + int b)" "12 + int b < int RAMDISK_BLOCK_COUNT"
    using fm [OF b(1)] b(1) file_okD(7) [OF ok] by (auto simp: used_def vt)
  have fresh: "vi_addrs ?v j \<noteq> 12 + int b" if "j < k" for j
    using file_okD(13) [OF ok, of j] that k(1) b(2) by (auto simp: used_def)
  have inj: "inj_on ((vi_addrs ?v)(k := 12 + int b)) {..<Suc k}"
    using file_okD(11) [OF ok] fresh k(1) by (auto simp: inj_on_def less_Suc_eq) blast
  have "on_device rdev ?sb t" "mounted ?sb t" using file_okD(3,4) [OF ok] by (simp_all add: t_def on_device_def)
  then show "file_ok rdev xs p t"
    unfolding file_ok_def Let_def vt
    using ok du(1) us new(1) inj k plus by (auto simp: file_ok_def Let_def DIRECT_BLKNUM_def less_Suc_eq)
  have "c \<in> others p t" if "c \<in> others p s" for c
  proof -
    have "int b < sb_nblocks (super_blocks s ?sb)" using b(1) by linarith
    then show ?thesis using that fm [of "nat (c - 12)"] b(2) k(1) by (auto simp: others_def vt lessThan_Suc)
  qed
  then show "frame rdev p s t" using du(2) by (auto simp: frame_def others_def t_def)
  have eq: "{c. c < ?N \<and> freemap ?sb s c = 0} = insert b {c. c < ?N \<and> freemap ?sb t c = 0}"
    using fm b by (auto split: if_splits)
  have "b \<notin> {c. c < ?N \<and> freemap ?sb t c = 0}" using fm [OF b(1)] by simp
  then show "room p t = room p s" unfolding room_def vt(2,4) using eq k(1) by (simp add: vt(1))
  show "fblk rdev p t j = fblk rdev p s j" if "j < k" for j
    using du(2) file_ok_block [OF ok, of j] that k(1) by (simp add: vt(1))
qed

lemma grow_file_ok:
  assumes ok: "file_ok rdev xs p s" and k: "k \<le> nblocks_of p s" "k < 10" "k < room p s"
  shows "\<exists>t. grow_file p (int k) s = (Inr (), t) \<and> file_ok rdev xs p t \<and> frame rdev p s t \<and> room p t = room p s \<and>
    nblocks_of p t = max (nblocks_of p s) (Suc k) \<and> vi_size (vinodes t p) = vi_size (vinodes s p) \<and>
    (\<forall>j<nblocks_of p s. fblk rdev p t j = fblk rdev p s j)"
proof (cases "k < nblocks_of p s")
  case True
  then have "int k \<noteq> vi_blocks (vinodes s p)" by simp
  then show ?thesis using ok True frame_refl [of rdev p s]
    by (intro exI [of _ s]) (simp add: grow_file_def kbind_def get_vinode_eq [OF file_okD(1) [OF ok]] kwhen_def kreturn_def)
next
  case False
  then have kb: "k = nblocks_of p s" "int k = vi_blocks (vinodes s p)" using k(1) file_okD(12) [OF ok] by simp_all
  let ?v = "vinodes s p" let ?sb = "vi_sb ?v" let ?N = "nat (sb_nblocks (super_blocks s ?sb))"
  have "0 < card {b. b < ?N \<and> freemap ?sb s b = 0}" using k(3) kb(1) by (simp add: room_def)
  then have "\<exists>b<?N. freemap ?sb s b = 0" by (auto simp: card_gt_0_iff)
  then obtain b where b: "first_index ?N (\<lambda>b. freemap ?sb s b = 0) = Some b"
    using first_index_None [of ?N "\<lambda>b. freemap ?sb s b = 0"] by (cases "first_index ?N (\<lambda>b. freemap ?sb s b = 0)") auto
  have bf: "b < ?N" "freemap ?sb s b = 0" using first_index_Some [OF b] by simp_all
  let ?t = "(set_freemap ?sb b 1 s)\<lparr>vinodes := (vinodes s)(p := ?v\<lparr>vi_addrs := (vi_addrs ?v)(k := 12 + int b), vi_blocks := int k + 1\<rparr>)\<rparr>"
  have run: "grow_file p (int k) s = (Inr (), ?t)"
    using rfs_alloc_block_eq [OF file_okD(4) [OF ok]] b kb(2) [symmetric] k(2) file_okD(1) [OF ok]
    by (simp add: grow_file_def kbind_def get_vinode_eq kwhen_def upd_vinode_def check_ptr_def krun_defs RFS_BLK_OFFSET_FREE_def DIRECT_BLKNUM_def)
  note g = file_grown [OF ok kb(1) k(2) bf]
  have "nat (int k + 1) = Suc k" by simp
  then have "nblocks_of p ?t = max (nblocks_of p s) (Suc k)" unfolding kb(1) [symmetric] by simp
  with run g kb(1) show ?thesis by (intro exI [of _ ?t]) simp
qed

text \<open>The first \<open>n\<close> bytes of block \<open>k\<close> are replaced; what follows them in the block is what the buffer held.\<close>

lemma put_block_ok:
  fixes s :: "'z fs_state_scheme"
  assumes ok: "file_ok rdev xs p s" and k: "k \<le> nblocks_of p s" "k < 10" "k < room p s" and n: "n \<le> 4096"
  shows "\<exists>t. put_block p rdev (int k) (int n) g s = (Inr (), t) \<and> file_ok rdev xs p t \<and> frame rdev p s t \<and> room p t = room p s \<and>
    nblocks_of p t = max (nblocks_of p s) (Suc k) \<and> vi_size (vinodes t p) = vi_size (vinodes s p) \<and>
    (\<forall>j<nblocks_of p s. j \<noteq> k \<longrightarrow> fblk rdev p t j = fblk rdev p s j) \<and> (\<forall>i<n. fblk rdev p t k i = g i)"
proof -
  obtain u where u: "grow_file p (int k) s = (Inr (), u)" "file_ok rdev xs p u" "frame rdev p s u" "room p u = room p s"
    "nblocks_of p u = max (nblocks_of p s) (Suc k)" "vi_size (vinodes u p) = vi_size (vinodes s p)"
    "\<forall>j<nblocks_of p s. fblk rdev p u j = fblk rdev p s j"
    using grow_file_ok [OF ok k] by blast
  have ku: "k < nblocks_of p u" using u(5) by simp
  let ?b = "vi_addrs (vinodes u p) k"
  note b = file_ok_block [OF u(2) ku]
  obtain w where w: "io_memcpy rdev (int 0) (int n) g u = (Inr (), w)" "disk_ready rdev xs w" "disk_buf rdev w = splice 0 n g (disk_buf rdev u)"
    "\<And>b. 0 \<le> b \<Longrightarrow> b < int RAMDISK_BLOCK_COUNT \<Longrightarrow> disk_blk rdev w b = disk_blk rdev u b" "disk_rest rdev w = disk_rest rdev u"
    by (rule copy_one [OF file_okD(2) [OF u(2)], where a = 0 and n = n and g = g]) (use n in simp_all)
  obtain t where t: "rfs_w1block rdev ?b w = (Inr 0, t)" "disk_ready rdev xs t" "disk_rest rdev t = disk_rest rdev w"
    "\<And>b. 0 \<le> b \<Longrightarrow> b < int RAMDISK_BLOCK_COUNT \<Longrightarrow> disk_blk rdev t b = (if b = ?b then disk_buf rdev w else disk_blk rdev w b)"
    by (rule write_one [OF w(2) b]) blast
  have rest: "disk_rest rdev t = disk_rest rdev u" using t(3) w(5) by simp
  have blk: "disk_blk rdev t b = (if b = ?b then splice 0 n g (disk_buf rdev u) else disk_blk rdev u b)" if "0 \<le> b" "b < int RAMDISK_BLOCK_COUNT" for b
    using t(4) [OF that] w(3,4) that by simp
  note c = file_block_changed [OF u(2) t(2) rest ku blk]
  have vw: "vinodes w = vinodes u" by (rule disk_restD(1) [OF w(5)])
  have "put_block p rdev (int k) (int n) g s = (Inr (), t)"
    using u(1) w(1) t(1) k(2) file_okD(1) [OF ok]
    by (simp add: put_block_def kthen_def kbind_def get_vinode_eq vw block_of_eq DIRECT_BLKNUM_def kreturn_def)
  moreover have "\<forall>j<nblocks_of p s. j \<noteq> k \<longrightarrow> fblk rdev p t j = fblk rdev p s j"
  proof (intro allI impI)
    fix j assume j: "j < nblocks_of p s" "j \<noteq> k"
    then have "j < nblocks_of p u" using u(5) by simp
    then show "fblk rdev p t j = fblk rdev p s j" using c(5) u(7) j by simp
  qed
  ultimately show ?thesis
    using c(1) frame_trans [OF u(3) c(2)] c(3,4) c(5) [of k] u(4,5,6) ku by (intro exI [of _ t]) (simp add: splice_def)
qed

section \<open>Writing a range\<close>

text \<open>
  Between two states of a write: the file has the bytes \<open>w\<close> from position \<open>o'\<close> up to \<open>e\<close>, and before \<open>o'\<close> and in the blocks from \<open>k\<close> on it is as before.
\<close>

definition written_upto :: "u64 \<Rightarrow> u64 list \<Rightarrow> u64 \<Rightarrow> (nat \<Rightarrow> u8) \<Rightarrow> nat \<Rightarrow> nat \<Rightarrow> nat \<Rightarrow> 'z fs_state_scheme \<Rightarrow> 'z fs_state_scheme \<Rightarrow> bool" where
  "written_upto rdev xs p w o' e k s t \<longleftrightarrow> file_ok rdev xs p t \<and> frame rdev p s t \<and> room p t = room p s \<and>
     nblocks_of p t = max (nblocks_of p s) k \<and> vi_size (vinodes t p) = vi_size (vinodes s p) \<and>
     (\<forall>i<o'. i div 4096 < nblocks_of p s \<longrightarrow> file_byte rdev t (vinodes t p) i = file_byte rdev s (vinodes s p) i) \<and>
     (\<forall>i. o' \<le> i \<longrightarrow> i < e \<longrightarrow> file_byte rdev t (vinodes t p) i = w (i - o')) \<and>
     (\<forall>j<nblocks_of p s. k \<le> j \<longrightarrow> fblk rdev p t j = fblk rdev p s j)"

lemma written_uptoD:
  assumes "written_upto rdev xs p w o' e k s t"
  shows "file_ok rdev xs p t" "frame rdev p s t" "room p t = room p s" "nblocks_of p t = max (nblocks_of p s) k"
    "vi_size (vinodes t p) = vi_size (vinodes s p)"
    "i < o' \<Longrightarrow> i div 4096 < nblocks_of p s \<Longrightarrow> file_byte rdev t (vinodes t p) i = file_byte rdev s (vinodes s p) i"
    "o' \<le> i \<Longrightarrow> i < e \<Longrightarrow> file_byte rdev t (vinodes t p) i = w (i - o')"
    "j < nblocks_of p s \<Longrightarrow> k \<le> j \<Longrightarrow> fblk rdev p t j = fblk rdev p s j"
  using assms by (auto simp: written_upto_def)

lemma written_upto_put:
  assumes t: "written_upto rdev xs p w o' (4096 * k) k s t" and o': "o' \<le> 4096 * k"
    and k: "k \<le> nblocks_of p t" "k < 10" "k < room p s" and n: "n \<le> 4096"
  shows "\<exists>u. put_block p rdev (int k) (int n) (\<lambda>i. w (4096 * k - o' + i)) t = (Inr (), u) \<and>
    written_upto rdev xs p w o' (4096 * k + n) (Suc k) s u"
proof -
  note T = written_uptoD [OF t]
  have "k < room p t" using T(3) k(3) by simp
  then obtain u where u: "put_block p rdev (int k) (int n) (\<lambda>i. w (4096 * k - o' + i)) t = (Inr (), u)" "file_ok rdev xs p u" "frame rdev p t u"
    "room p u = room p t" "nblocks_of p u = max (nblocks_of p t) (Suc k)" "vi_size (vinodes u p) = vi_size (vinodes t p)"
    "\<forall>j<nblocks_of p t. j \<noteq> k \<longrightarrow> fblk rdev p u j = fblk rdev p t j" "\<forall>i<n. fblk rdev p u k i = w (4096 * k - o' + i)"
    using put_block_ok [OF T(1) k(1,2) _ n] by blast
  have old: "file_byte rdev u (vinodes u p) i = file_byte rdev t (vinodes t p) i" if "i < 4096 * k" "i div 4096 < nblocks_of p t" for i
  proof -
    have "i div 4096 < k" using that(1) by (simp add: div_less_iff_less_mult mult.commute)
    then show ?thesis using u(7) that(2) by (simp add: file_byte_def)
  qed
  have nt: "nblocks_of p s \<le> nblocks_of p t" "k \<le> nblocks_of p t" using T(4) by simp_all
  have "file_byte rdev u (vinodes u p) i = w (i - o')" if i: "o' \<le> i" "i < 4096 * k + n" for i
  proof (cases "i < 4096 * k")
    case True
    then have "i div 4096 < nblocks_of p t" using nt(2) by (metis div_less_iff_less_mult less_le_trans mult.commute zero_less_numeral)
    then show ?thesis using old [OF True] T(7) [OF i(1) True] by simp
  next
    case False
    then obtain l where l: "i = l + 4096 * k" "l < n" using i(2) by (metis add.commute le_Suc_ex nat_add_left_cancel_less not_less)
    then have "i div 4096 = k" "i mod 4096 = l" using n by simp_all
    then show ?thesis using u(8) l o' by (simp add: file_byte_def add.commute)
  qed
  moreover have "file_byte rdev u (vinodes u p) i = file_byte rdev s (vinodes s p) i" if "i < o'" "i div 4096 < nblocks_of p s" for i
    using old [of i] T(6) [OF that] that o' nt(1) by simp
  moreover have mx: "max (max (nblocks_of p s) k) (Suc k) = max (nblocks_of p s) (Suc k)" by simp
  ultimately have "written_upto rdev xs p w o' (4096 * k + n) (Suc k) s u"
    using u T frame_trans [OF T(2) u(3)] mx unfolding written_upto_def by auto
  with u(1) show ?thesis by blast
qed

lemma write_blocks_ok:
  assumes "written_upto rdev xs p w o' (4096 * k) k s t" "o' \<le> 4096 * k" "k \<le> nblocks_of p t" "k + n \<le> 10" "k + n \<le> room p s"
  shows "\<exists>u. write_blocks n p rdev w (int (4096 * k - o')) (int k) t = (Inr (int (4096 * (k + n) - o'), int (k + n)), u) \<and>
    written_upto rdev xs p w o' (4096 * (k + n)) (k + n) s u"
  using assms
proof (induction n arbitrary: k t)
  case 0
  then show ?case by (simp add: kreturn_def)
next
  case (Suc n)
  obtain u where u: "put_block p rdev (int k) (int 4096) (\<lambda>i. w (4096 * k - o' + i)) t = (Inr (), u)"
    "written_upto rdev xs p w o' (4096 * k + 4096) (Suc k) s u"
    using written_upto_put [OF Suc.prems(1,2,3), of 4096] Suc.prems(4,5) by auto
  have u': "written_upto rdev xs p w o' (4096 * Suc k) (Suc k) s u" using u(2) by (simp add: add.commute)
  have "Suc k \<le> nblocks_of p u" using written_uptoD(4) [OF u'] by simp
  then obtain t' where t': "write_blocks n p rdev w (int (4096 * Suc k - o')) (int (Suc k)) u =
      (Inr (int (4096 * (Suc k + n) - o'), int (Suc k + n)), t')" "written_upto rdev xs p w o' (4096 * (Suc k + n)) (Suc k + n) s t'"
    using Suc.IH [OF u'] Suc.prems(2,4,5) by fastforce
  have e: "int (4096 * k - o') + RFS_BLKSIZE = int (4096 * Suc k - o')" "int k + 1 = int (Suc k)" "RFS_BLKSIZE = int 4096"
    using Suc.prems(2) by (simp_all add: RFS_BLKSIZE_def of_nat_diff)
  have "write_blocks (Suc n) p rdev w (int (4096 * k - o')) (int k) t = (Inr (int (4096 * (Suc k + n) - o'), int (Suc k + n)), t')"
    unfolding write_blocks.simps e(1,2) nat_int unfolding e(3) kthen_def by (simp only: kbind_run [where m = "put_block _ _ _ _ _", OF u(1)] t'(1))
  then show ?case using t'(2) by (intro exI [of _ t']) simp
qed

text \<open>The complete blocks and the beginning of the last one.\<close>

lemma write_tail:
  assumes t: "written_upto rdev xs p w o' (4096 * k) k s t" and o': "o' \<le> 4096 * k" and k: "k \<le> nblocks_of p t"
    and K: "K = k + m + (if 0 < r then 1 else 0)" "K \<le> 10" "K \<le> room p s" "r < 4096"
  shows "\<exists>u. kwhen (0 \<le> int m) (kbind (write_blocks (nat (int m)) p rdev w (int (4096 * k - o')) (int k)) (\<lambda>(buf_offset, block_offset).
       kwhen (0 < int r) (put_block p rdev block_offset (int r) (\<lambda>i. w (nat buf_offset + i))))) t = (Inr (), u) \<and>
    written_upto rdev xs p w o' (4096 * (k + m) + r) K s u"
proof -
  obtain u where u: "write_blocks m p rdev w (int (4096 * k - o')) (int k) t = (Inr (int (4096 * (k + m) - o'), int (k + m)), u)"
    "written_upto rdev xs p w o' (4096 * (k + m)) (k + m) s u"
    using write_blocks_ok [OF t o' k, of m] K(1-3) by (auto split: if_splits)
  show ?thesis
  proof (cases "r = 0")
    case True
    then show ?thesis using u K(1) by (intro exI [of _ u]) (simp add: kbind_def kwhen_def kreturn_def)
  next
    case False
    have "o' \<le> 4096 * (k + m)" "k + m \<le> nblocks_of p u" using o' written_uptoD(4) [OF u(2)] by simp_all
    then obtain v where v: "put_block p rdev (int (k + m)) (int r) (\<lambda>i. w (4096 * (k + m) - o' + i)) u = (Inr (), v)"
      "written_upto rdev xs p w o' (4096 * (k + m) + r) (Suc (k + m)) s v"
      using written_upto_put [OF u(2), of r] K False by auto
    have "kbind (write_blocks m p rdev w (int (4096 * k - o')) (int k)) f t = f (int (4096 * (k + m) - o'), int (k + m)) u" for f :: "int \<times> int \<Rightarrow> ('a fs_state_scheme, unit) km"
      using u(1) by (simp only: kbind_run)
    then show ?thesis using v False K(1) unfolding nat_int kwhen_def by (intro exI [of _ v]) (simp only: prod.case nat_int, simp)
  qed
qed

text \<open>The part of the range in a block that is not written from its start on.\<close>

lemma fetch_one:
  assumes r: "disk_ready rdev xs s" and c: "0 \<le> c" "c < int RAMDISK_BLOCK_COUNT"
  obtains t where "rfs_r1block rdev c s = (Inr 0, t)" "disk_ready rdev xs t" "disk_buf rdev t = disk_blk rdev s c"
    "\<And>b. 0 \<le> b \<Longrightarrow> b < int RAMDISK_BLOCK_COUNT \<Longrightarrow> disk_blk rdev t b = disk_blk rdev s b" "disk_rest rdev t = disk_rest rdev s"
  using ramdisk.rd_ok [OF r c] c unfolding rfs_r1block_def [symmetric] by (fastforce split: if_splits)

lemma write_first:
  fixes s :: "'z fs_state_scheme"
  assumes ok: "file_ok rdev xs p s" and q: "q < nblocks_of p s" and a: "a + f \<le> 4096"
  shows "\<exists>t. kbind (rfs_r1block rdev (vi_addrs (vinodes s p) q)) (\<lambda>_. kthen (io_memcpy rdev (int a) (int f) w)
       (kbind (rfs_w1block rdev (vi_addrs (vinodes s p) q)) (\<lambda>_. kreturn x))) s = (Inr x, t) \<and>
    written_upto rdev xs p w (4096 * q + a) (4096 * q + a + f) (Suc q) s t"
proof -
  let ?b = "vi_addrs (vinodes s p) q"
  note b = file_ok_block [OF ok q]
  obtain u where u: "rfs_r1block rdev ?b s = (Inr 0, u)" "disk_ready rdev xs u" "disk_buf rdev u = disk_blk rdev s ?b"
    "\<And>b. 0 \<le> b \<Longrightarrow> b < int RAMDISK_BLOCK_COUNT \<Longrightarrow> disk_blk rdev u b = disk_blk rdev s b" "disk_rest rdev u = disk_rest rdev s"
    by (rule fetch_one [OF file_okD(2) [OF ok] b]) blast
  obtain v where v: "io_memcpy rdev (int a) (int f) w u = (Inr (), v)" "disk_ready rdev xs v" "disk_buf rdev v = splice a f w (disk_buf rdev u)"
    "\<And>b. 0 \<le> b \<Longrightarrow> b < int RAMDISK_BLOCK_COUNT \<Longrightarrow> disk_blk rdev v b = disk_blk rdev u b" "disk_rest rdev v = disk_rest rdev u"
    by (rule copy_one [OF u(2) a, where g = w]) blast
  obtain t where t: "rfs_w1block rdev ?b v = (Inr 0, t)" "disk_ready rdev xs t" "disk_rest rdev t = disk_rest rdev v"
    "\<And>b. 0 \<le> b \<Longrightarrow> b < int RAMDISK_BLOCK_COUNT \<Longrightarrow> disk_blk rdev t b = (if b = ?b then disk_buf rdev v else disk_blk rdev v b)"
    by (rule write_one [OF v(2) b]) blast
  have rest: "disk_rest rdev t = disk_rest rdev s" using t(3) v(5) u(5) by simp
  have blk: "disk_blk rdev t b = (if b = ?b then splice a f w (disk_blk rdev s ?b) else disk_blk rdev s b)" if "0 \<le> b" "b < int RAMDISK_BLOCK_COUNT" for b
    using t(4) [OF that] v(3) v(4) [OF that] u(3) u(4) [OF that] by simp
  note c = file_block_changed [OF ok t(2) rest q blk]
  have byte: "file_byte rdev t (vinodes t p) i = (if i div 4096 = q then splice a f w (fblk rdev p s q) (i mod 4096) else file_byte rdev s (vinodes s p) i)"
    if "i div 4096 < nblocks_of p s" for i using c(5) [of "i div 4096"] that by (simp add: file_byte_def c(4))
  have "file_byte rdev t (vinodes t p) i = file_byte rdev s (vinodes s p) i" if "i < 4096 * q + a" "i div 4096 < nblocks_of p s" for i
  proof -
    have "i mod 4096 < a" if "i div 4096 = q" using \<open>i < 4096 * q + a\<close> that mult_div_mod_eq [of 4096 i] by linarith
    then show ?thesis using byte [OF that(2)] by (cases "i div 4096 = q") (simp_all add: splice_def file_byte_def)
  qed
  moreover have "file_byte rdev t (vinodes t p) i = w (i - (4096 * q + a))" if i: "4096 * q + a \<le> i" "i < 4096 * q + a + f" for i
  proof -
    define l where "l = i - 4096 * q"
    have l: "i = l + 4096 * q" "a \<le> l" "l < a + f" using i by (simp_all add: l_def)
    then have "i div 4096 = q" "i mod 4096 = l" using a by simp_all
    then show ?thesis using byte [of i] q l by (simp add: splice_def)
  qed
  ultimately have "written_upto rdev xs p w (4096 * q + a) (4096 * q + a + f) (Suc q) s t"
    using c q unfolding written_upto_def by auto
  moreover have "kbind (rfs_r1block rdev ?b) (\<lambda>_. kthen (io_memcpy rdev (int a) (int f) w) (kbind (rfs_w1block rdev ?b) (\<lambda>_. kreturn x))) s = (Inr x, t)"
    using u(1) v(1) t(1) by (simp add: kbind_def kthen_def kreturn_def)
  ultimately show ?thesis by blast
qed

lemma int_block_div: "int x sdiv RFS_BLKSIZE = int (x div 4096)" "int x smod RFS_BLKSIZE = int (x mod 4096)"
  by (simp_all add: RFS_BLKSIZE_def signed_divide_int_def signed_modulo_int_def sgn_if zdiv_int zmod_int)

lemma block_count:
  fixes r :: nat
  assumes "x = 4096 * k + r" "r < 4096" "K = k + (if 0 < r then 1 else 0)"
  shows "x \<le> 4096 * K" "4096 * K < x + 4096" "x \<le> 4096 * m \<Longrightarrow> K \<le> m"
  using assms by (simp_all split: if_splits)

text \<open>The part of \<open>rfs_write\<close> that fills the blocks.\<close>

definition fill_blocks :: "u64 \<Rightarrow> u64 \<Rightarrow> (nat \<Rightarrow> u8) \<Rightarrow> nat \<Rightarrow> int \<times> int \<times> int \<Rightarrow> ('z fs_state_scheme, unit) km" where
  "fill_blocks p rdev w r = (\<lambda>(buf_offset, block_offset, writetimes).
     kwhen (0 \<le> writetimes) (kbind (write_blocks (nat writetimes) p rdev w buf_offset block_offset) (\<lambda>(buf_offset, block_offset).
       kwhen (0 < int r) (put_block p rdev block_offset (int r) (\<lambda>i. w (nat buf_offset + i))))))"

lemma fill_blocks_ok:
  assumes "written_upto rdev xs p w o' (4096 * k) k s t" "o' \<le> 4096 * k" "k \<le> nblocks_of p t"
    and "K = k + m + (if 0 < r then 1 else 0)" "K \<le> 10" "K \<le> room p s" "r < 4096"
  shows "\<exists>u. fill_blocks p rdev w r (int (4096 * k - o'), int k, int m) t = (Inr (), u) \<and> written_upto rdev xs p w o' (4096 * (k + m) + r) K s u"
  unfolding fill_blocks_def prod.case by (rule write_tail [OF assms])

lemma rfs_write_blocks:
  fixes s :: "'z fs_state_scheme"
  assumes ok: "file_ok rdev xs p s" and o': "int o' \<le> vi_size (vinodes s p)" and n: "0 < n"
    and lim: "o' + n \<le> 4096 * 10" "o' + n \<le> 4096 * room p s"
  defines "a \<equiv> o' mod 4096" and "q \<equiv> o' div 4096"
  shows "\<exists>t K. kbind
       (if int a \<noteq> 0
        then kbind (block_of (vinodes s p) (int q)) (\<lambda>b. kbind (rfs_r1block rdev b) (\<lambda>_.
          let first_block_len = (if int ((n + a) div 4096) = 0 then int n else RFS_BLKSIZE - int a) in
          kthen (io_memcpy rdev (int a) first_block_len w)
          (kbind (rfs_w1block rdev b) (\<lambda>_. kreturn (first_block_len, int q + 1, int ((n + a) div 4096) - 1)))))
        else kreturn (0, int q, int ((n + a) div 4096)))
       (fill_blocks p rdev w ((n + a) mod 4096)) s = (Inr (), t) \<and>
     written_upto rdev xs p w o' (o' + n) K s t \<and> o' + n \<le> 4096 * K \<and> 4096 * K < o' + n + 4096"
proof -
  let ?W = "(n + a) div 4096" and ?r = "(n + a) mod 4096"
  define K where "K = q + ?W + (if 0 < ?r then 1 else 0)"
  have oq: "o' = 4096 * q + a" "a < 4096" by (simp_all add: a_def q_def)
  have na: "n + a = 4096 * ?W + ?r" "?r < 4096" by simp_all
  have e: "o' + n = 4096 * (q + ?W) + ?r" using oq(1) na(1) by (simp add: algebra_simps)
  have KK: "o' + n \<le> 4096 * K" "4096 * K < o' + n + 4096" "K \<le> 10" "K \<le> room p s"
    using block_count [OF e na(2) K_def] lim by blast+
  have sz: "4096 * q + a \<le> 4096 * nblocks_of p s"
    using o' file_okD(9,12) [OF ok] oq(1) by linarith
  show ?thesis
  proof (cases "a = 0")
    case True
    then have w0: "written_upto rdev xs p w o' (4096 * q) q s s" and q: "o' \<le> 4096 * q" "q \<le> nblocks_of p s"
      using ok sz frame_refl oq(1) by (auto simp: written_upto_def)
    obtain u where u: "fill_blocks p rdev w ?r (int (4096 * q - o'), int q, int ?W) s = (Inr (), u)" "written_upto rdev xs p w o' (o' + n) K s u"
      using fill_blocks_ok [OF w0 q K_def KK(3,4) na(2)] unfolding e by blast
    have "int (4096 * q - o') = 0" using True oq(1) by simp
    then show ?thesis using u KK(1,2) True by (intro exI [of _ u] exI [of _ K]) (simp add: kbind_def kreturn_def)
  next
    case False
    then have q: "q < nblocks_of p s" using sz by linarith
    have "q < 10" using q file_okD(10) [OF ok] by simp
    then have bo: "kbind (block_of (vinodes s p) (int q)) g s = g (vi_addrs (vinodes s p) q) s" for g :: "int \<Rightarrow> ('z fs_state_scheme, int \<times> int \<times> int) km"
      by (simp add: kbind_def block_of_eq DIRECT_BLKNUM_def)
    define f where "f = (if ?W = 0 then n else 4096 - a)"
    have fl: "(if int ?W = 0 then int n else RFS_BLKSIZE - int a) = int f" "a + f \<le> 4096"
      using oq(2) na by (auto simp: f_def RFS_BLKSIZE_def of_nat_diff)
    obtain t where t: "kbind (rfs_r1block rdev (vi_addrs (vinodes s p) q)) (\<lambda>_. kthen (io_memcpy rdev (int a) (int f) w)
       (kbind (rfs_w1block rdev (vi_addrs (vinodes s p) q)) (\<lambda>_. kreturn (int f, int q + 1, int ?W - 1)))) s = (Inr (int f, int q + 1, int ?W - 1), t)"
      "written_upto rdev xs p w o' (o' + f) (Suc q) s t"
      using write_first [OF ok q fl(2), of w "(int f, int q + 1, int ?W - 1)"] unfolding oq(1) by blast
    have go: "kbind (if int a \<noteq> 0
        then kbind (block_of (vinodes s p) (int q)) (\<lambda>b. kbind (rfs_r1block rdev b) (\<lambda>_.
          let first_block_len = (if int ?W = 0 then int n else RFS_BLKSIZE - int a) in
          kthen (io_memcpy rdev (int a) first_block_len w) (kbind (rfs_w1block rdev b) (\<lambda>_. kreturn (first_block_len, int q + 1, int ?W - 1)))))
        else kreturn (0, int q, int ?W)) g s = g (int f, int q + 1, int ?W - 1) t" for g :: "int \<times> int \<times> int \<Rightarrow> ('z fs_state_scheme, unit) km"
    proof (rule kbind_run)
      have "int a \<noteq> 0" using False by simp
      then show "(if int a \<noteq> 0
        then kbind (block_of (vinodes s p) (int q)) (\<lambda>b. kbind (rfs_r1block rdev b) (\<lambda>_.
          let first_block_len = (if int ?W = 0 then int n else RFS_BLKSIZE - int a) in
          kthen (io_memcpy rdev (int a) first_block_len w) (kbind (rfs_w1block rdev b) (\<lambda>_. kreturn (first_block_len, int q + 1, int ?W - 1)))))
        else kreturn (0, int q, int ?W)) s = (Inr (int f, int q + 1, int ?W - 1), t)"
        using t(1) unfolding Let_def fl(1) by (simp only: if_True bo simp_thms)
    qed
    show ?thesis
    proof (cases ?W)
      case 0
      then have "f = n" "K = Suc q" using na n by (auto simp: f_def K_def)
      then show ?thesis using t(2) KK(1,2) 0 unfolding go by (intro exI [of _ t] exI [of _ K]) (simp add: fill_blocks_def kwhen_def kreturn_def)
    next
      case (Suc m)
      have f: "o' + f = 4096 * Suc q" "int f = int (4096 * Suc q - o')" using Suc oq by (simp_all add: f_def)
      have w1: "written_upto rdev xs p w o' (4096 * Suc q) (Suc q) s t" using t(2) unfolding f(1) .
      have q1: "o' \<le> 4096 * Suc q" "Suc q \<le> nblocks_of p t" using f(1) written_uptoD(4) [OF w1] by simp_all
      have K1: "K = Suc q + m + (if 0 < ?r then 1 else 0)" using Suc by (simp add: K_def)
      have e1: "o' + n = 4096 * (Suc q + m) + ?r" using e Suc by simp
      obtain u where u: "fill_blocks p rdev w ?r (int (4096 * Suc q - o'), int (Suc q), int m) t = (Inr (), u)" "written_upto rdev xs p w o' (o' + n) K s u"
        using fill_blocks_ok [OF w1 q1 K1 KK(3,4) na(2)] unfolding e1 by blast
      have i: "int q + 1 = int (Suc q)" "int ?W - 1 = int m" using Suc by simp_all
      show ?thesis unfolding go unfolding i f(2) using u KK(1,2) by blast
    qed
  qed
qed

text \<open>The new size of the file.\<close>

lemma file_resized:
  assumes ok: "file_ok rdev xs p t" and z: "0 \<le> z" "z \<le> 4096 * int (nblocks_of p t)"
  defines "u \<equiv> t\<lparr>vinodes := (vinodes t)(p := (vinodes t p)\<lparr>vi_size := z\<rparr>)\<rparr>"
  shows "file_ok rdev xs p u" "frame rdev p t u" "\<And>i. file_byte rdev u (vinodes u p) i = file_byte rdev t (vinodes t p) i"
    "\<And>j. fblk rdev p u j = fblk rdev p t j" "vi_size (vinodes u p) = z"
proof -
  have v: "vinodes u p = (vinodes t p)\<lparr>vi_size := z\<rparr>" "super_blocks u = super_blocks t" "rfs_devices u = rfs_devices t" by (simp_all add: u_def)
  have us: "used sb u b = used sb t b" for sb b by (simp add: used_def u_def)
  have "disk_ready rdev xs u" "on_device rdev (vi_sb (vinodes t p)) u" "mounted (vi_sb (vinodes t p)) u"
    using file_okD(2,3,4) [OF ok] by (simp_all add: u_def)
  then show "file_ok rdev xs p u"
    using ok z file_okD(12) [OF ok] unfolding file_ok_def Let_def v us by auto
  have "others p u = others p t" by (simp add: others_def v) (simp add: u_def)
  then show "frame rdev p t u" by (simp add: frame_def u_def)
qed (simp_all add: u_def file_byte_def)

lemma kbind_case_then: "kbind A (\<lambda>(x, y, z). kthen (F x y z) R) = kthen (kbind A (\<lambda>(x, y, z). F x y z)) R"
  by (simp add: kthen_def kbind_assoc split_def)

lemma rfs_write_eq:
  fixes s :: "'z fs_state_scheme"
  assumes ok: "file_ok rdev xs p s" and o': "int o' \<le> vi_size (vinodes s p)" and n: "0 < n"
    and lim: "o' + n \<le> 4096 * 10" "o' + n \<le> 4096 * room p s"
  shows "\<exists>t. rfs_write p w (int n) (int o') s = (Inr (int n, int (o' + n)), t) \<and> file_ok rdev xs p t \<and> frame rdev p s t \<and>
    vi_size (vinodes t p) = max (vi_size (vinodes s p)) (int (o' + n)) \<and>
    (\<forall>i<o' + n. file_byte rdev t (vinodes t p) i = (if i < o' then file_byte rdev s (vinodes s p) i else w (i - o'))) \<and>
    (\<forall>j<nblocks_of p s. o' + n \<le> 4096 * j \<longrightarrow> fblk rdev p t j = fblk rdev p s j)"
proof -
  let ?a = "o' mod 4096" and ?q = "o' div 4096"
  obtain t K where t: "kbind
       (if int ?a \<noteq> 0
        then kbind (block_of (vinodes s p) (int ?q)) (\<lambda>b. kbind (rfs_r1block rdev b) (\<lambda>_.
          let first_block_len = (if int ((n + ?a) div 4096) = 0 then int n else RFS_BLKSIZE - int ?a) in
          kthen (io_memcpy rdev (int ?a) first_block_len w)
          (kbind (rfs_w1block rdev b) (\<lambda>_. kreturn (first_block_len, int ?q + 1, int ((n + ?a) div 4096) - 1)))))
        else kreturn (0, int ?q, int ((n + ?a) div 4096)))
       (fill_blocks p rdev w ((n + ?a) mod 4096)) s = (Inr (), t)"
    and W: "written_upto rdev xs p w o' (o' + n) K s t" and K: "o' + n \<le> 4096 * K" "4096 * K < o' + n + 4096"
    using rfs_write_blocks [OF ok o' n lim, of w] by blast
  note T = written_uptoD [OF W]
  let ?z = "max (vi_size (vinodes s p)) (int (o' + n))"
  let ?u = "t\<lparr>vinodes := (vinodes t)(p := (vinodes t p)\<lparr>vi_size := ?z\<rparr>)\<rparr>"
  have z: "0 \<le> ?z" "?z \<le> 4096 * int (nblocks_of p t)"
    using file_okD(8,9,12) [OF ok] K(1) T(4) by (auto simp: max_def)
  note r = file_resized [OF T(1) z]
  have sm: "int n + int ?a = int (n + ?a)" "\<not> vi_size (vinodes s p) < int o'" using o' by simp_all
  have "rfs_write p w (int n) (int o') s = (Inr (int n, int (o' + n)), ?u)"
  proof -
    have r: "kbind (rdev_of_sb (vi_sb (vinodes s p))) g s = g rdev s" for g :: "u64 \<Rightarrow> ('z fs_state_scheme, int \<times> int) km"
      by (simp add: kbind_def rdev_of_sb_eq [OF file_okD(3) [OF ok]])
    have v: "kbind (get_vinode p) g s = g (vinodes s p) s" for g :: "vinode \<Rightarrow> ('z fs_state_scheme, int \<times> int) km"
      by (simp add: kbind_def get_vinode_eq [OF file_okD(1) [OF ok]])
    have th: "kthen (kbind A F) R s = R t" if "kbind A F s = (Inr (), t)" for A :: "('z fs_state_scheme, int \<times> int \<times> int) km" and F and R :: "('z fs_state_scheme, int \<times> int) km"
      using that by (simp only: kthen_def kbind_run)
    have "rfs_write p w (int n) (int o') s = kthen (upd_vinode p (\<lambda>v. v\<lparr>vi_size := (if vi_size v < int o' + int n then int o' + int n else vi_size v)\<rparr>))
           (kreturn (int n, int o' + int n)) t"
      unfolding rfs_write_def v if_not_P [OF sm(2)] unfolding Let_def int_block_div unfolding sm(1) unfolding int_block_div r kbind_case_then
      by (rule th) (rule t [unfolded fill_blocks_def Let_def])
    then show ?thesis using T(5) file_okD(1) [OF ok] by (simp add: upd_vinode_def check_ptr_def krun_defs max_def)
  qed
  moreover have "file_byte rdev ?u (vinodes ?u p) i = (if i < o' then file_byte rdev s (vinodes s p) i else w (i - o'))" if i: "i < o' + n" for i
  proof (cases "i < o'")
    case True
    have "i < 4096 * nblocks_of p s" using True o' file_okD(9,12) [OF ok] by linarith
    then have "i div 4096 < nblocks_of p s" by (simp add: div_less_iff_less_mult mult.commute)
    then show ?thesis using r(3) T(6) [OF True] True by simp
  qed (use r(3) T(7) [of i] i in simp)
  moreover have "fblk rdev p ?u j = fblk rdev p s j" if "j < nblocks_of p s" "o' + n \<le> 4096 * j" for j
    using r(4) T(8) [OF that(1)] that(2) K(2) by simp
  ultimately show ?thesis using r(1,5) frame_trans [OF T(2) r(2)] by (intro exI [of _ ?u]) simp
qed

lemma file_ok_read: "file_ok rdev xs p s \<Longrightarrow> file_blocks_ok (vinodes s p)"
proof -
  assume ok: "file_ok rdev xs p s"
  have "b < nblocks_of p s" if "int b * RFS_BLKSIZE < vi_size (vinodes s p)" for b
    using that file_okD(9,12) [OF ok] by (simp add: RFS_BLKSIZE_def)
  then show ?thesis
    using file_ok_block [OF ok] file_okD(9,10,12) [OF ok] by (auto simp: file_blocks_ok_def DIRECT_BLKNUM_def RFS_BLKSIZE_def)
qed

section \<open>Properties\<close>

text \<open>
  C32. Writing to a file of the RAM disk, over any number of blocks: at a position in an open file or at its end, with enough blocks in the
  file and in the free map, \<open>rfs_write\<close> returns the length and moves the offset by it.  The file then has the written bytes in the range and its old
  bytes before it, has grown if the range goes past its end, and is in order again; the file system's own blocks and the blocks of all other files keep their
  contents, and so do the blocks of the file behind the one the range ends in.
\<close>

theorem rfs_write_bytes:
  assumes "file_ok rdev xs p s" "0 \<le> offset" "offset \<le> vi_size (vinodes s p)" "0 < len"
    and "offset + len \<le> int DIRECT_BLKNUM * RFS_BLKSIZE" "offset + len \<le> RFS_BLKSIZE * int (room p s)"
  shows "\<exists>t. rfs_write p w len offset s = (Inr (len, offset + len), t) \<and> file_ok rdev xs p t \<and>
    vi_size (vinodes t p) = max (vi_size (vinodes s p)) (offset + len) \<and>
    (\<forall>i. int i < offset + len \<longrightarrow> file_byte rdev t (vinodes t p) i =
       (if int i < offset then file_byte rdev s (vinodes s p) i else w (i - nat offset))) \<and>
    (\<forall>b\<in>others p s. b \<in> others p t \<and> disk_blk rdev t b = disk_blk rdev s b) \<and> (\<forall>q. q \<noteq> p \<longrightarrow> vinodes t q = vinodes s q) \<and>
    (\<forall>i. i < nat (vi_size (vinodes s p)) \<and> offset + len \<le> int (i div 4096) * RFS_BLKSIZE \<longrightarrow>
       file_byte rdev t (vinodes t p) i = file_byte rdev s (vinodes s p) i)"
proof -
  obtain o' n where on: "offset = int o'" "len = int n" using assms(2,4) by (metis nonneg_int_cases order_less_imp_le)
  then have lim: "int o' \<le> vi_size (vinodes s p)" "0 < n" "o' + n \<le> 4096 * 10" "o' + n \<le> 4096 * room p s"
    using assms(3-6) by (simp_all add: DIRECT_BLKNUM_def RFS_BLKSIZE_def)
  obtain t where t: "rfs_write p w (int n) (int o') s = (Inr (int n, int (o' + n)), t)" "file_ok rdev xs p t" "frame rdev p s t"
    "vi_size (vinodes t p) = max (vi_size (vinodes s p)) (int (o' + n))"
    "\<forall>i<o' + n. file_byte rdev t (vinodes t p) i = (if i < o' then file_byte rdev s (vinodes s p) i else w (i - o'))"
    "\<forall>j<nblocks_of p s. o' + n \<le> 4096 * j \<longrightarrow> fblk rdev p t j = fblk rdev p s j"
    using rfs_write_eq [OF assms(1) lim, of w] by blast
  have "file_byte rdev t (vinodes t p) i = file_byte rdev s (vinodes s p) i"
    if "i < nat (vi_size (vinodes s p))" "offset + len \<le> int (i div 4096) * RFS_BLKSIZE" for i
  proof -
    have "i < 4096 * nblocks_of p s" using that(1) file_okD(9,12) [OF assms(1)] by linarith
    then have "i div 4096 < nblocks_of p s" by (simp add: div_less_iff_less_mult mult.commute)
    then show ?thesis using t(6) that(2) unfolding on by (simp add: file_byte_def RFS_BLKSIZE_def)
  qed
  then show ?thesis using t unfolding on by (intro exI [of _ t]) (auto simp: frame_def)
qed

text \<open>
  C33. What was written is read: after \<open>rfs_write\<close> of \<open>len\<close> bytes, \<open>rfs_read\<close> of as many bytes at the same position returns \<open>len\<close> and the bytes that were
  written, up to the first zero byte among them, which ends the copy; reading changes no block.
\<close>

theorem rfs_write_read:
  assumes "file_ok rdev xs p s" "0 \<le> offset" "offset \<le> vi_size (vinodes s p)" "0 < len"
    and "offset + len \<le> int DIRECT_BLKNUM * RFS_BLKSIZE" "offset + len \<le> RFS_BLKSIZE * int (room p s)"
  shows "\<exists>t u r_buf'. rfs_write p w len offset s = (Inr (len, offset + len), t) \<and>
    rfs_read p r_buf len offset t = (Inr (len, r_buf', offset + len), u) \<and> same_disk rdev xs t u \<and>
    (let L = length (takeWhile (\<lambda>i. w i \<noteq> 0) [0..<nat len]) in
     \<forall>i. r_buf' i = (if i < L then w i else if i = L then 0 else r_buf i))"
proof -
  obtain o' n where on: "offset = int o'" "len = int n" using assms(2,4) by (metis nonneg_int_cases order_less_imp_le)
  then have lim: "int o' \<le> vi_size (vinodes s p)" "0 < n" "o' + n \<le> 4096 * 10" "o' + n \<le> 4096 * room p s"
    using assms(3-6) by (simp_all add: DIRECT_BLKNUM_def RFS_BLKSIZE_def)
  obtain t where t: "rfs_write p w (int n) (int o') s = (Inr (int n, int (o' + n)), t)" "file_ok rdev xs p t"
    "vi_size (vinodes t p) = max (vi_size (vinodes s p)) (int (o' + n))"
    "\<forall>i<o' + n. file_byte rdev t (vinodes t p) i = (if i < o' then file_byte rdev s (vinodes s p) i else w (i - o'))"
    using rfs_write_eq [OF assms(1) lim, of w] by blast
  have b: "file_byte rdev t (vinodes t p) (o' + i) = w i" if "i < n" for i using t(4) that by simp
  have sz: "int o' < vi_size (vinodes t p)" "min (int n) (vi_size (vinodes t p) - int o') = int n" "0 < int n" "0 \<le> int o'"
    using t(3) lim(2) by auto
  obtain u rb k where u: "rfs_read p r_buf (int n) (int o') t = (Inr (k, rb, int o' + k), u)"
    "k = min (int n) (vi_size (vinodes t p) - int o')" "same_disk rdev xs t u"
    "let L = length (takeWhile (\<lambda>i. file_byte rdev t (vinodes t p) (nat (int o') + i) \<noteq> 0) [0..<nat k]) in
     \<forall>i. rb i = (if i < L then file_byte rdev t (vinodes t p) (nat (int o') + i) else if i = L then 0 else r_buf i)"
    using rfs_read_eq [OF file_okD(2,1) [OF t(2)] file_ok_read [OF t(2)] file_okD(3) [OF t(2)] sz(4,1,3), of r_buf] by blast
  have k: "k = int n" using u(2) sz(2) by simp
  have L: "takeWhile (\<lambda>i. file_byte rdev t (vinodes t p) (o' + i) \<noteq> 0) [0..<n] = takeWhile (\<lambda>i. w i \<noteq> 0) [0..<n]"
    by (rule takeWhile_cong) (auto simp: b)
  have le: "length (takeWhile (\<lambda>i. w i \<noteq> 0) [0..<n]) \<le> n" using length_takeWhile_le [of _ "[0..<n]"] by simp
  have "rb i = (if i < length (takeWhile (\<lambda>i. w i \<noteq> 0) [0..<n]) then w i
      else if i = length (takeWhile (\<lambda>i. w i \<noteq> 0) [0..<n]) then 0 else r_buf i)" for i
    using u(4) b [of i] le unfolding k nat_int L Let_def by simp
  then show ?thesis using t(1) u(1,3) unfolding on k by (intro exI [of _ t] exI [of _ u] exI [of _ rb]) simp
qed

text \<open>The file system of \<open>demo_mount\<close> with an open file of 5 bytes in its first data block.\<close>

definition demo_writable :: fs_state where
  "demo_writable = demo_file\<lparr>vinodes := (\<lambda>_. blank_vinode\<lparr>vi_size := 5, vi_blocks := 1, vi_addrs := (\<lambda>_. 12), vi_sb := 0x82000000\<rparr>)\<rparr>"

lemma demo_writable_ok: "file_ok 0x8000 [0x80001000, 0x80002000, 0x80003000, 0x80004000] 0x83000000 demo_writable"
  "2 \<le> room 0x83000000 demo_writable"
proof -
  have v: "vinodes demo_writable 0x83000000 = blank_vinode\<lparr>vi_size := 5, vi_blocks := 1, vi_addrs := (\<lambda>_. 12), vi_sb := 0x82000000\<rparr>"
    "super_blocks demo_writable = super_blocks demo_mount" "rfs_devices demo_writable = rfs_devices demo_disk"
    by (simp_all add: demo_writable_def demo_file_def demo_mount_def)
  have sb: "sb_nblocks (super_blocks demo_mount 0x82000000) = 100" "s_fs_info (super_blocks demo_mount 0x82000000) = 0x80006000"
    by (simp_all add: demo_mount_def)
  have fm: "freemap 0x82000000 demo_writable = freemap 0x82000000 demo_mount"
    by (intro ext) (simp add: demo_writable_def demo_file_def freemap_def page_bytes_def demo_mount_def)
  have r: "disk_ready 0x8000 [0x80001000, 0x80002000, 0x80003000, 0x80004000] demo_writable"
    using demo_file_ready by (simp add: demo_writable_def)
  have dev: "on_device 0x8000 0x82000000 demo_writable" "mounted 0x82000000 demo_writable"
    using demo_file_ok(1) demo_mount_freemap(1) by (simp_all add: demo_writable_def demo_file_def mounted_def on_device_def)
  have io: "0x80006000 \<notin> disk_pages (rfs_devices demo_disk 0x8000)"
    using demo_disk_low [of "0x80006000" "0x8000"] by (simp add: disk_pages_def demo_disk_def)
  show "file_ok 0x8000 [0x80001000, 0x80002000, 0x80003000, 0x80004000] 0x83000000 demo_writable"
    using r dev io demo_mount_freemap(2)
    by (simp add: file_ok_def Let_def v sb used_def fm RAMDISK_BLOCK_COUNT_def DIRECT_BLKNUM_def inj_on_def)
  have "{1} \<subseteq> {b. b < 100 \<and> freemap 0x82000000 demo_mount b = 0}" using demo_mount_freemap(3) by simp
  from card_mono [OF _ this] show "2 \<le> room 0x83000000 demo_writable" by (simp add: room_def v sb fm)
qed

theorem rfs_write_bytes_witness:
  "\<exists>t. rfs_write 0x83000000 (\<lambda>i. of_nat (i + 1)) 5000 3 demo_writable = (Inr (5000, 5003), t) \<and>
     file_byte 0x8000 t (vinodes t 0x83000000) 4100 = 2 \<and> vi_size (vinodes t 0x83000000) = 5003"
proof -
  have sz: "vi_size (vinodes demo_writable 0x83000000) = 5" by (simp add: demo_writable_def)
  show ?thesis
    using rfs_write_bytes [OF demo_writable_ok(1), of 3 5000 "\<lambda>i. of_nat (i + 1)"] demo_writable_ok(2)
    by (fastforce simp: sz DIRECT_BLKNUM_def RFS_BLKSIZE_def)
qed

theorem rfs_write_read_witness:
  "\<exists>t u b. rfs_write 0x83000000 (\<lambda>i. 65) 2 3 demo_writable = (Inr (2, 5), t) \<and>
     rfs_read 0x83000000 (\<lambda>_. 7) 2 3 t = (Inr (2, b, 5), u) \<and> b 0 = 65 \<and> b 1 = 65 \<and> b 2 = 0 \<and> b 3 = 7"
proof -
  have sz: "vi_size (vinodes demo_writable 0x83000000) = 5" by (simp add: demo_writable_def)
  have L: "length (takeWhile (\<lambda>i. (65 :: u8) \<noteq> 0) [0..<nat 2]) = 2" by (simp add: upt_rec)
  show ?thesis
    using rfs_write_read [OF demo_writable_ok(1), of 3 2 "\<lambda>i. 65" "\<lambda>_. 7"] demo_writable_ok(2)
    unfolding Let_def L by (fastforce simp: sz DIRECT_BLKNUM_def RFS_BLKSIZE_def)
qed

end
