(* ===== verification/Sem_App.thy ===== *)
theory Sem_App
  imports Sched
begin

text \<open>
  The application \<^verbatim>\<open>user/app_semaphore.c\<close> on the kernel: three processes that print in turn, ordered by semaphores.

  The function \<^verbatim>\<open>main\<close> is the list of the calls that a process makes (\<open>app_main\<close>).  The system consists of the state of the kernel and the
  calls that each process has still to make; a step is the next call of the running process, carried out by the kernel's own handlers
  (\<open>do_semP\<close>, \<open>do_semV\<close>, \<open>sys_user_exit\<close>), or a timer interrupt (\<open>rrsched\<close>), on one hart.  The first section says what the handlers change of the
  part of the kernel's state that decides who runs; the invariant follows the turn from process to process.
\<close>

section \<open>What the handlers change of the scheduling state\<close>

text \<open>The part of the kernel's state that decides who runs, next to the queues.\<close>

record sched_view =
  v_current :: "nat option"
  v_status :: "nat \<Rightarrow> proc_status"
  v_parent :: "nat \<Rightarrow> nat option"
  v_value :: "nat \<Rightarrow> int"
  v_use :: "nat \<Rightarrow> bool"

definition view :: "'z kernel_state_scheme \<Rightarrow> sched_view" where
  "view s = \<lparr>v_current = current s 0, v_status = (\<lambda>p. status (procs s p)), v_parent = (\<lambda>p. parent (procs s p)),
     v_value = (\<lambda>i. sint (sem_value (sem_table s i))), v_use = (\<lambda>i. ifuse (sem_table s i))\<rparr>"

lemma view_sel [simp]:
  "v_current (view s) = current s 0" "v_status (view s) p = status (procs s p)" "v_parent (view s) p = parent (procs s p)"
  "v_value (view s) i = sint (sem_value (sem_table s i))" "v_use (view s) i = ifuse (sem_table s i)"
  by (simp_all add: view_def)

lemma view_launched: "launched 0 p s t \<Longrightarrow> view t = (view s)\<lparr>v_current := Some p\<rparr>"
  by (simp add: view_def launched_def)

lemma view_dequeued: "view (dequeued 0 p s) = (view s)\<lparr>v_current := Some p, v_status := (v_status (view s))(p := RUNNING)\<rparr>"
  by (auto simp: view_def dequeued_def fun_eq_iff)

lemma view_enqueued: "view (enqueued p q s) = (view s)\<lparr>v_status := (v_status (view s))(p := READY)\<rparr>"
  by (auto simp: view_def enqueued_def Let_def fun_eq_iff)

lemma view_sem_waiting: "view (sem_waiting i p w s) = (view s)\<lparr>v_status := (v_status (view s))(p := BLOCKED)\<rparr>"
  by (auto simp: view_def sem_waiting_def Let_def fun_eq_iff)

lemma view_value:
  "view (s\<lparr>sem_table := (sem_table s)(i := (sem_table s i)\<lparr>sem_value := v\<rparr>)\<rparr>) = (view s)\<lparr>v_value := (v_value (view s))(i := sint v)\<rparr>"
  by (auto simp: view_def fun_eq_iff)

text \<open>The process \<open>r\<close> takes over.\<close>

abbreviation run_next :: "nat \<Rightarrow> sched_view \<Rightarrow> sched_view" where
  "run_next r v \<equiv> v\<lparr>v_current := Some r, v_status := (v_status v)(r := RUNNING)\<rparr>"

lemma outcome_runs:
  assumes "sched_outcome 0 s (r # q) e t"
  shows "e = Run r \<and> view t = run_next r (view s)"
proof -
  have l: "e = Run r" "launched 0 r (dequeued 0 r s) t" using assms by (simp_all add: sched_outcome_def)
  show ?thesis using view_launched [OF l(2)] l(1) by (simp add: view_dequeued)
qed

lemma sched_outcome_view:
  assumes "sched_outcome 0 s (r # q) e t" "sched_inv s (r # q) ws"
  shows "e = Run r \<and> sched_inv t q ws \<and> view t = run_next r (view s)"
  using outcome_runs [OF assms(1)] sched_outcome_sched_inv [OF assms(2,1)] by simp

lemma sem_id: "i < NSEM \<Longrightarrow> unat (of_nat i :: u64) = i"
  by (simp add: NSEM_def unat_of_nat take_bit_nat_eq_self)

lemma semP_takes:
  assumes "sched_inv s q ws" "i < NSEM" "ifuse (sem_table s i)" "0 < sint (sem_value (sem_table s i))"
  shows "\<exists>t. do_semP 0 (of_nat i) s = (Inr (), t) \<and> sched_inv t q ws \<and>
    view t = (view s)\<lparr>v_value := (v_value (view s))(i := sint (sem_value (sem_table s i)) - 1)\<rparr>"
proof -
  from do_semP_take [OF sem_id [OF assms(2)] assms(2-4), of 0] show ?thesis using assms(1)
    by (simp add: view_value sint_i32_sub assms(4) del: fun_upd_apply)
qed

lemma semP_blocks:
  assumes inv: "sched_inv s (r # q) ws" and i: "i < NSEM" "ifuse (sem_table s i)" "\<not> 0 < sint (sem_value (sem_table s i))"
    and me: "current s 0 = Some p" "p < NPROC" "status (procs s p) = RUNNING"
  shows "\<exists>t. do_semP 0 (of_nat i) s = (Inl (Run r), t) \<and> sched_inv t q (ws(i := ws i @ [p])) \<and>
    view t = run_next r ((view s)\<lparr>v_status := (v_status (view s))(p := BLOCKED)\<rparr>)"
proof -
  have u: "unat (of_nat i :: u64) = i" using i(1) by (rule sem_id)
  obtain e t where t: "do_semP 0 (of_nat i) s = (Inl e, t)" "sched_outcome 0 (sem_waiting i p (ws i) s) (r # q) e t"
    using kwp_stops [OF do_semP_block [OF inv u i me]] by blast
  then show ?thesis
    using sched_outcome_view [OF t(2) sem_waiting_inv [OF inv i(2) me(2,3)]] by (simp add: view_sem_waiting)
qed

lemma semV_adds:
  assumes inv: "sched_inv s q ws" and i: "i < NSEM" "ifuse (sem_table s i)" "ws i = []"
    and v: "sint (sem_value (sem_table s i)) \<noteq> 2 ^ 31 - 1"
  shows "\<exists>t. do_semV (of_nat i) s = (Inr (), t) \<and> sched_inv t q ws \<and>
    view t = (view s)\<lparr>v_value := (v_value (view s))(i := sint (sem_value (sem_table s i)) + 1)\<rparr>"
proof -
  have u: "unat (of_nat i :: u64) = i" using i(1) by (rule sem_id)
  have "wait_queue (sem_table s i) = None" using sched_invD(2) [OF inv i(2)] i(3) by simp
  then have "do_semV (of_nat i) s =
      (Inr (), s\<lparr>sem_table := (sem_table s)(i := (sem_table s i)\<lparr>sem_value := sem_value (sem_table s i) + 1\<rparr>)\<rparr>)"
    using u i v by (simp add: do_semV_def krun_defs Let_def upd_sem_def)
  then show ?thesis using inv v by (simp add: view_value sint_i32_add del: fun_upd_apply)
qed

lemma semV_wakes:
  assumes inv: "sched_inv s q ws" and i: "i < NSEM" "ifuse (sem_table s i)" and w: "ws i = p # w"
    and v: "sint (sem_value (sem_table s i)) \<noteq> 2 ^ 31 - 1"
  shows "\<exists>t. do_semV (of_nat i) s = (Inr (), t) \<and> sched_inv t (q @ [p]) (ws(i := w)) \<and>
    view t = (view s)\<lparr>v_status := (v_status (view s))(p := READY)\<rparr>"
proof -
  have u: "unat (of_nat i :: u64) = i" using i(1) by (rule sem_id)
  have wq: "wait_queue (sem_table s i) = Some p" using sched_invD(2) [OF inv i(2)] w by simp
  have p: "p < NPROC" "p \<notin> set w" "status (procs s p) = BLOCKED"
    using sched_invD(3,4) [OF inv, of i] sched_invD(5) [OF inv, of p i] w by auto
  let ?u = "s\<lparr>procs := (procs s)(p := (procs s p)\<lparr>queue_next := None\<rparr>),
      sem_table := (sem_table s)(i := (sem_table s i)\<lparr>wait_queue := queue_next (procs s p)\<rparr>)\<rparr>"
  note inv' = sched_inv_unwait [OF inv i(2) w]
  have pq: "p \<notin> set q" using rq_invD(4) [OF sched_invD(1) [OF inv], of p] p(3) by auto
  have pw: "p \<notin> set ((ws(i := w)) j)" for j using p(2) sched_invD(6) [OF inv, of i j] w by auto
  have "insert_to_ready_queue p ?u = (Inr (), enqueued p q ?u)"
    by (rule insert_to_ready_queue_eq [OF sched_invD(1) [OF inv'] _ _ pq]) (simp_all add: p(3))
  then have "do_semV (of_nat i) s = (Inr (), enqueued p q ?u)"
    using u i wq v by (simp add: do_semV_def krun_defs Let_def upd_sem_def upd_proc_def)
  moreover have "view ?u = view s" by (auto simp: view_def fun_eq_iff)
  ultimately show ?thesis using sched_inv_enqueued [OF inv' pq pw p(1)] by (simp add: view_enqueued del: fun_upd_apply)
qed

lemma tick_view:
  fixes s :: "'z kernel_state_scheme"
  assumes inv: "sched_inv s q ws" and me: "current s 0 = Some p" "p < NPROC" "status (procs s p) = RUNNING"
  shows "\<exists>t. rrsched 0 s = (Inr (), t) \<and> sched_inv t q ws \<and> view t = view s \<or>
    rrsched 0 s = (Inl (Run (hd (q @ [p]))), t) \<and> sched_inv t (tl (q @ [p])) ws \<and>
    view t = run_next (hd (q @ [p])) ((view s)\<lparr>v_status := (v_status (view s))(p := READY)\<rparr>)"
proof -
  let ?s = "\<lambda>n. s\<lparr>procs := (procs s)(p := (procs s p)\<lparr>tick_count := n\<rparr>)\<rparr>"
  have i: "sched_inv (s\<lparr>procs := (procs s)(p := r)\<rparr>) q ws" for r
    by (rule sched_inv_free_proc [OF inv sched_inv_running [OF inv me(3)]])
  have v: "view (?s n) = view s" for n by (auto simp: view_def fun_eq_iff)
  show ?thesis
  proof (cases "tick_count (procs s p) + 1 < TIME_SLICE_LEN")
    case True
    then have "rrsched 0 s = (Inr (), ?s (tick_count (procs s p) + 1))"
      using me(1) by (simp add: rrsched_def cur_def upd_proc_def krun_defs)
    then show ?thesis using i v by blast
  next
    case False
    let ?u = "enqueued p q (?s 0\<lparr>procs := (procs (?s 0))(p := (procs (?s 0) p)\<lparr>status := READY\<rparr>)\<rparr>)"
    have "kwp (rrsched 0) (\<lambda>_ _. False) (\<lambda>e t. sched_outcome 0 ?u (q @ [p]) e t \<and> sched_inv t (tl (q @ [p])) ws) s"
      using yield_outcome [OF i [of "(procs s p)\<lparr>tick_count := 0\<rparr>"] me(2), of 0 "\<lambda>_ _. False"] me False
      by (simp add: rrsched_def cur_def upd_proc_def kwp_simps)
    from kwp_stops [OF this] obtain e t where t: "rrsched 0 s = (Inl e, t)"
      "sched_outcome 0 ?u (q @ [p]) e t" "sched_inv t (tl (q @ [p])) ws" by blast
    obtain r q' where rq: "q @ [p] = r # q'" by (cases q) auto
    have "view ?u = (view s)\<lparr>v_status := (v_status (view s))(p := READY)\<rparr>" by (auto simp: view_def enqueued_def Let_def fun_eq_iff)
    moreover have "e = Run r \<and> view t = run_next r (view ?u)"
      by (rule outcome_runs [OF t(2) [unfolded rq]])
    ultimately show ?thesis using t(1,3) unfolding rq by (intro exI [of _ t]) simp
  qed
qed

lemma exit_view:
  fixes s :: "'z kernel_state_scheme"
  assumes inv: "sched_inv s q ws" and me: "current s 0 = Some p" "p < NPROC" "status (procs s p) = RUNNING"
    and par: "\<And>r. parent (procs s p) = Some r \<Longrightarrow> status (procs s r) \<noteq> BLOCKED"
  shows "\<exists>e t. sys_user_exit 0 c s = (Inl e, t) \<and> (case q of
      [] \<Rightarrow> e = (if \<forall>i<NPROC. i \<noteq> p \<longrightarrow> status (procs s i) \<in> {FREE, ZOMBIE} then Shutdown 0 else Wfi)
    | r # q' \<Rightarrow> e = Run r \<and> sched_inv t q' ws \<and>
        view t = run_next r ((view s)\<lparr>v_status := (v_status (view s))(p := ZOMBIE)\<rparr>))"
proof -
  let ?u = "s\<lparr>procs := (procs s)(p := (procs s p)\<lparr>status := ZOMBIE\<rparr>)\<rparr>"
  have i: "sched_inv ?u q ws" by (rule sched_inv_free_proc [OF inv sched_inv_running [OF inv me(3)]])
  have "wake_parent (parent (procs s p)) ?u = (Inr (), ?u)"
    by (rule wake_parent_awake) (use par in auto)
  then have w: "kwp (wake_parent (parent (procs s p))) Q E ?u = Q () ?u" for Q E by (rule kwp_call)
  have "kwp (sys_user_exit 0 c) (\<lambda>_ _. False) (sched_outcome 0 ?u q) s"
    using me schedule_kwp [OF sched_invD(1) [OF i], of 0 "\<lambda>_. kwp (kreturn 0) (\<lambda>_ _. False) (sched_outcome 0 ?u q)"]
    by (simp add: sys_user_exit_def cur_def free_process_def upd_proc_def kwp_simps w)
  from kwp_stops [OF this] obtain e t where t: "sys_user_exit 0 c s = (Inl e, t)" "sched_outcome 0 ?u q e t" by blast
  show ?thesis
  proof (cases q)
    case Nil
    then show ?thesis using t by (auto simp: sched_outcome_def)
  next
    case (Cons r q')
    have "view ?u = (view s)\<lparr>v_status := (v_status (view s))(p := ZOMBIE)\<rparr>" by (auto simp: view_def fun_eq_iff)
    then show ?thesis using sched_outcome_view [OF t(2) [unfolded Cons] i [unfolded Cons]] t(1) Cons by auto
  qed
qed

section \<open>The application\<close>

datatype uop = SemP nat | Printu string "int list" | SemV nat | Exit

text \<open>The semaphores that all three processes know.\<close>

definition app_sems :: "('z kernel_state_scheme, int \<times> int \<times> int) km" where
  "app_sems = kbind (do_semNew 1) (\<lambda>main_sem. kbind (do_semNew 0) (\<lambda>c0. kbind (do_semNew 0) (\<lambda>c1. kreturn (main_sem, c0, c1))))"

definition child_round :: "nat \<Rightarrow> (nat \<Rightarrow> nat) \<Rightarrow> nat \<Rightarrow> nat \<Rightarrow> uop list" where
  "child_round main_sem child_sem pid2 i =
     [SemP (child_sem (of_bool (pid2 = 0))), Printu ''Child%d print %d\<newline>'' [of_bool (pid2 = 0), int i],
      if pid2 \<noteq> 0 then SemV (child_sem 1) else SemV main_sem]"

definition parent_round :: "nat \<Rightarrow> (nat \<Rightarrow> nat) \<Rightarrow> nat \<Rightarrow> uop list" where
  "parent_round main_sem child_sem i = [SemP main_sem, Printu ''Parent print %d\<newline>'' [int i], SemV (child_sem 0)]"

text \<open>The function \<^verbatim>\<open>main\<close> from the point where the last fork of the process has returned: \<open>pid1\<close> is the result of the first fork and
  \<open>pid2\<close> the result of the second, which only the child makes.\<close>

definition app_main :: "nat \<Rightarrow> (nat \<Rightarrow> nat) \<Rightarrow> nat \<Rightarrow> nat \<Rightarrow> uop list" where
  "app_main main_sem child_sem pid1 pid2 =
     (if pid1 = 0 then concat (map (child_round main_sem child_sem pid2) [0..<10])
      else concat (map (parent_round main_sem child_sem) [0..<10])) @ [Exit]"

text \<open>
  The system: the kernel's state, what each process has still to do, the output, and why the machine stopped.  A system call enters the
  kernel and comes back to the process, or to the one that the kernel runs instead; then the call of the first process has been made.
\<close>

record 'z app_system =
  kern :: "'z kernel_state_scheme"
  progs :: "nat \<Rightarrow> uop list"
  out :: "(string \<times> int list) list"
  stop :: "kstop option"

definition enter_kernel :: "('z kernel_state_scheme, 'a) km \<Rightarrow> 'z app_system \<Rightarrow> 'z app_system" where
  "enter_kernel m y = (case m (kern y) of (r, t) \<Rightarrow>
     y\<lparr>kern := t, stop := (case r of Inr _ \<Rightarrow> None | Inl (Run _) \<Rightarrow> None | Inl e \<Rightarrow> Some e)\<rparr>)"

fun exec_op :: "uop \<Rightarrow> 'z app_system \<Rightarrow> 'z app_system" where
  "exec_op (SemP i) y = enter_kernel (run_on 0 (do_semP 0 (of_nat i))) y"
| "exec_op (SemV i) y = enter_kernel (run_on 0 (do_semV (of_nat i))) y"
| "exec_op (Printu f args) y = y\<lparr>out := out y @ [(f, args)]\<rparr>"
| "exec_op Exit y = enter_kernel (sys_user_exit 0 0) y"

text \<open>A step: the running process makes its next call, or the timer interrupts it.\<close>

inductive app_step :: "'z app_system \<Rightarrow> 'z app_system \<Rightarrow> bool" where
  call: "stop y = None \<Longrightarrow> current (kern y) 0 = Some p \<Longrightarrow> progs y p = a # as \<Longrightarrow>
     app_step y (exec_op a (y\<lparr>progs := (progs y)(p := as)\<rparr>))"
| tick: "stop y = None \<Longrightarrow> app_step y (enter_kernel (rrsched 0) y)"

inductive_cases app_stepE: "app_step y z"

text \<open>The roles 0, 1 and 2 are the parent and the two children; \<open>who\<close> gives their slots in the process table.\<close>

definition sem_of :: "nat \<Rightarrow> (nat \<Rightarrow> nat) \<Rightarrow> nat \<Rightarrow> nat" where
  "sem_of main_sem child_sem r = (if r = 0 then main_sem else child_sem (r - 1))"

definition layout :: "(nat \<Rightarrow> nat) \<Rightarrow> (nat \<Rightarrow> nat) \<Rightarrow> bool" where
  "layout who sem \<longleftrightarrow> inj_on who {..<3} \<and> who ` {..<3} \<subseteq> {..<NPROC} \<and> who 1 \<noteq> 0 \<and> who 2 \<noteq> 0 \<and>
     inj_on sem {..<3} \<and> sem ` {..<3} \<subseteq> {..<NSEM}"

definition app_line :: "nat \<Rightarrow> nat \<Rightarrow> string \<times> int list" where
  "app_line r i = (if r = 0 then (''Parent print %d\<newline>'', [int i]) else (''Child%d print %d\<newline>'', [int r - 1, int i]))"

text \<open>The output in the order that the semaphores are meant to enforce.\<close>

definition app_text :: "nat \<Rightarrow> (string \<times> int list) list" where
  "app_text n = map (\<lambda>k. app_line (k mod 3) (k div 3)) [0..<n]"

definition rest_of :: "(nat \<Rightarrow> nat) \<Rightarrow> nat \<Rightarrow> nat \<Rightarrow> uop list" where
  "rest_of sem r m = concat (map (\<lambda>i. [SemP (sem r), Printu (fst (app_line r i)) (snd (app_line r i)), SemV (sem ((r + 1) mod 3))]) [m..<10]) @ [Exit]"

lemma rest_of_step:
  "m < 10 \<Longrightarrow> rest_of sem r m =
     [SemP (sem r), Printu (fst (app_line r m)) (snd (app_line r m)), SemV (sem ((r + 1) mod 3))] @ rest_of sem r (Suc m)"
  by (simp add: rest_of_def upt_conv_Cons)

lemma rest_of_end: "rest_of sem r 10 = [Exit]"
  by (simp add: rest_of_def)

lemma app_main_roles:
  "pid1 \<noteq> 0 \<Longrightarrow> app_main m c pid1 x = rest_of (sem_of m c) 0 0"
  "pid1 \<noteq> 0 \<Longrightarrow> app_main m c 0 pid1 = rest_of (sem_of m c) 1 0"
  "app_main m c 0 0 = rest_of (sem_of m c) 2 0"
  by (simp_all add: app_main_def rest_of_def parent_round_def [abs_def] child_round_def [abs_def] sem_of_def app_line_def numeral_2_eq_2)

text \<open>How many rounds role \<open>r\<close> has completed after \<open>k\<close> turns.\<close>

definition rounds :: "nat \<Rightarrow> nat \<Rightarrow> nat" where
  "rounds k r = (k + 2 - r) div 3"

lemma rounds_Suc:
  assumes "r < 3"
  shows "rounds (Suc k) r = (if k mod 3 = r then Suc (rounds k r) else rounds k r)"
proof -
  consider "r = 0" | "r = 1" | "r = 2" using assms by linarith
  then show ?thesis by cases (simp_all add: rounds_def, presburger+)
qed

lemma rounds_turn: "rounds k (k mod 3) = k div 3"
  unfolding rounds_def by presburger

lemma rounds_le: "k \<le> 30 \<Longrightarrow> r < 3 \<Longrightarrow> rounds k r \<le> 10"
  unfolding rounds_def by presburger

lemma rounds_all: "r < 3 \<Longrightarrow> rounds 30 r = 10"
  unfolding rounds_def by presburger

lemma rounds_parent: "k \<le> 30 \<Longrightarrow> Suc r < 3 \<Longrightarrow> rounds k (Suc r) = 10 \<Longrightarrow> rounds k r = 10"
  unfolding rounds_def by presburger

section \<open>The invariant of the application\<close>

text \<open>
  \<open>k\<close> turns are complete and the turn is at role \<open>k mod 3\<close>, which has not taken its semaphore (\<open>h = 0\<close>), has taken it, or has printed as
  well; the roles in \<open>W\<close> wait for their semaphores and the roles in \<open>X\<close> have ended.
\<close>

definition turn_ok :: "nat \<Rightarrow> nat \<Rightarrow> nat set \<Rightarrow> nat set \<Rightarrow> bool" where
  "turn_ok k h W X \<longleftrightarrow> k \<le> 30 \<and> h < 3 \<and> (k = 30 \<longrightarrow> h = 0) \<and> W \<subseteq> {..<3} \<and> X \<subseteq> {..<3} \<and> W \<inter> X = {} \<and>
     k mod 3 \<notin> W \<and> (\<forall>r\<in>W. rounds k r < 10) \<and> (\<forall>r\<in>X. rounds k r = 10)"

definition todo :: "(nat \<Rightarrow> nat) \<Rightarrow> nat \<Rightarrow> nat \<Rightarrow> nat set \<Rightarrow> nat set \<Rightarrow> nat \<Rightarrow> uop list" where
  "todo sem k h W X r = (if r \<in> X then [] else
     drop (if r = k mod 3 then h else of_bool (r \<in> W)) (rest_of sem r (rounds k r)))"

definition role_status :: "nat set \<Rightarrow> nat set \<Rightarrow> nat \<Rightarrow> nat \<Rightarrow> proc_status" where
  "role_status W X r0 r = (if r = r0 then RUNNING else if r \<in> W then BLOCKED else if r \<in> X then ZOMBIE else READY)"

definition view_ok :: "(nat \<Rightarrow> nat) \<Rightarrow> (nat \<Rightarrow> nat) \<Rightarrow> nat \<Rightarrow> nat \<Rightarrow> nat set \<Rightarrow> nat set \<Rightarrow> nat \<Rightarrow> sched_view \<Rightarrow> bool" where
  "view_ok who sem k h W X r0 v \<longleftrightarrow> v_current v = Some (who r0) \<and>
     (\<forall>r<3. v_status v (who r) = role_status W X r0 r) \<and>
     (\<forall>p<NPROC. p \<notin> who ` {..<3} \<longrightarrow> v_status v p \<in> {FREE, ZOMBIE}) \<and>
     (\<forall>r<3. v_use v (sem r) \<and> v_value v (sem r) = of_bool (r = k mod 3 \<and> h = 0)) \<and>
     (\<forall>r. Suc r < 3 \<longrightarrow> v_parent v (who (Suc r)) = Some (who r)) \<and>
     (\<forall>p. v_parent v (who 0) = Some p \<longrightarrow> p < NPROC \<and> p \<notin> who ` {..<3})"

definition queues_ok :: "(nat \<Rightarrow> nat) \<Rightarrow> (nat \<Rightarrow> nat) \<Rightarrow> nat set \<Rightarrow> nat set \<Rightarrow> nat \<Rightarrow> nat list \<Rightarrow> (nat \<Rightarrow> nat list) \<Rightarrow> bool" where
  "queues_ok who sem W X r0 q ws \<longleftrightarrow> set q = who ` ({..<3} - W - X - {r0}) \<and>
     (\<forall>r<3. ws (sem r) = (if r \<in> W then [who r] else []))"

definition running :: "(nat \<Rightarrow> nat) \<Rightarrow> (nat \<Rightarrow> nat) \<Rightarrow> nat \<Rightarrow> nat \<Rightarrow> nat set \<Rightarrow> nat set \<Rightarrow> nat \<Rightarrow> nat list \<Rightarrow> (nat \<Rightarrow> nat list) \<Rightarrow>
    'z kernel_state_scheme \<Rightarrow> bool" where
  "running who sem k h W X r0 q ws s \<longleftrightarrow> r0 \<in> {..<3} - W - X \<and> sched_inv s q ws \<and> view_ok who sem k h W X r0 (view s) \<and>
     queues_ok who sem W X r0 q ws"

text \<open>What the processes have printed and have still to do at turn \<open>k\<close> and phase \<open>h\<close>.\<close>

definition at_turn :: "(nat \<Rightarrow> nat) \<Rightarrow> (nat \<Rightarrow> nat) \<Rightarrow> nat \<Rightarrow> nat \<Rightarrow> nat set \<Rightarrow> nat set \<Rightarrow> 'z app_system \<Rightarrow> bool" where
  "at_turn who sem k h W X y \<longleftrightarrow> turn_ok k h W X \<and> out y = app_text (k + of_bool (h = 2)) \<and>
     (\<forall>r<3. progs y (who r) = todo sem k h W X r)"

definition app_inv :: "(nat \<Rightarrow> nat) \<Rightarrow> (nat \<Rightarrow> nat) \<Rightarrow> 'z app_system \<Rightarrow> bool" where
  "app_inv who sem y \<longleftrightarrow> (\<exists>k h W X. at_turn who sem k h W X y \<and>
     (case stop y of None \<Rightarrow> \<exists>r0 q ws. running who sem k h W X r0 q ws (kern y)
      | Some e \<Rightarrow> e = Shutdown 0 \<and> X = {..<3}))"

lemma turn_okD:
  assumes "turn_ok k h W X"
  shows "k \<le> 30" "h < 3" "k = 30 \<Longrightarrow> h = 0" "W \<subseteq> {..<3}" "X \<subseteq> {..<3}" "W \<inter> X = {}" "k mod 3 \<notin> W"
    "r \<in> W \<Longrightarrow> rounds k r < 10" "r \<in> X \<Longrightarrow> rounds k r = 10"
  using assms by (auto simp: turn_ok_def)

lemma layoutD:
  assumes "layout who sem"
  shows "inj_on who {..<3}" "r < 3 \<Longrightarrow> who r < NPROC" "inj_on sem {..<3}" "r < 3 \<Longrightarrow> sem r < NSEM"
    "r < 3 \<Longrightarrow> r' < 3 \<Longrightarrow> who r = who r' \<longleftrightarrow> r = r'" "r < 3 \<Longrightarrow> r' < 3 \<Longrightarrow> sem r = sem r' \<longleftrightarrow> r = r'"
  using assms by (auto simp: layout_def inj_on_eq_iff)

lemma view_okD:
  assumes "view_ok who sem k h W X r0 v"
  shows "v_current v = Some (who r0)" "r < 3 \<Longrightarrow> v_status v (who r) = role_status W X r0 r"
    "p < NPROC \<Longrightarrow> p \<notin> who ` {..<3} \<Longrightarrow> v_status v p = FREE \<or> v_status v p = ZOMBIE"
    "r < 3 \<Longrightarrow> v_use v (sem r)" "r < 3 \<Longrightarrow> v_value v (sem r) = of_bool (r = k mod 3 \<and> h = 0)"
    "Suc r < 3 \<Longrightarrow> v_parent v (who (Suc r)) = Some (who r)"
    "v_parent v (who 0) = Some p \<Longrightarrow> p < NPROC \<and> p \<notin> who ` {..<3}"
  using assms by (auto simp: view_ok_def)

lemma runningD:
  assumes "running who sem k h W X r0 q ws s"
  shows "r0 < 3" "r0 \<notin> W" "r0 \<notin> X" "sched_inv s q ws" "view_ok who sem k h W X r0 (view s)" "queues_ok who sem W X r0 q ws"
    "current s 0 = Some (who r0)" "status (procs s (who r0)) = RUNNING"
  using assms view_okD(1,2) [of who sem k h W X r0 "view s"] by (auto simp: running_def role_status_def)

text \<open>The first process of the ready queue is one of the roles.\<close>

lemma next_role:
  assumes lay: "layout who sem" and R: "set (p # q) = who ` R" "R \<subseteq> {..<3}" "distinct (p # q)"
  shows "\<exists>r\<in>R. p = who r \<and> set q = who ` (R - {r})"
proof -
  obtain r where r: "r \<in> R" "p = who r" using R(1) by auto
  have "set q = set (p # q) - {p}" using R(3) by auto
  also have "\<dots> = who ` (R - {r})"
    using R(1,2) r inj_on_image_set_diff [OF inj_on_subset [OF layoutD(1) [OF lay] R(2)], of R "{r}"] by simp
  finally show ?thesis using r by blast
qed

text \<open>While the turns are not over, the role whose turn it is neither waits nor has ended.\<close>

lemma turn_alive:
  assumes "turn_ok k h W X" "k < 30"
  shows "k mod 3 \<notin> W \<union> X"
proof -
  have "rounds k (k mod 3) \<noteq> 10" unfolding rounds_turn using assms(2) by presburger
  then show ?thesis using turn_okD(7,9) [OF assms(1)] by auto
qed

lemma turns_over: "turn_ok k h W X \<Longrightarrow> k = 30 \<Longrightarrow> W = {}"
  using turn_okD(4,8) rounds_all by (metis lessThan_iff less_irrefl subsetD subsetI subset_empty)

lemma app_text_Suc: "app_text (Suc k) = app_text k @ [app_line (k mod 3) (k div 3)]"
  by (simp add: app_text_def)

section \<open>The kernel under the invariant\<close>

lemma runningI:
  assumes "r0 < 3" "r0 \<notin> W" "r0 \<notin> X" "sched_inv s q ws" "view_ok who sem k h W X r0 (view s)" "queues_ok who sem W X r0 q ws"
  shows "running who sem k h W X r0 q ws s"
  using assms by (simp add: running_def)

lemma running_take:
  assumes lay: "layout who sem" and run: "running who sem k 0 W X (k mod 3) q ws s"
  shows "\<exists>t. do_semP 0 (of_nat (sem (k mod 3))) s = (Inr (), t) \<and> running who sem k 1 W X (k mod 3) q ws t"
proof -
  note r = runningD [OF run] and v = view_okD [OF runningD(5) [OF run]]
  have val: "sint (sem_value (sem_table s (sem (k mod 3)))) = 1" "ifuse (sem_table s (sem (k mod 3)))" using v(4,5) [of "k mod 3"] by simp_all
  obtain t where t: "do_semP 0 (of_nat (sem (k mod 3))) s = (Inr (), t)" "sched_inv t q ws"
    "view t = (view s)\<lparr>v_value := (v_value (view s))(sem (k mod 3) := 0)\<rparr>"
    using semP_takes [OF r(4) layoutD(4) [OF lay r(1)]] val by auto
  have "view_ok who sem k 1 W X (k mod 3) (view t)"
    using r(5) layoutD(6) [OF lay _ r(1)] unfolding t(3) view_ok_def by auto
  then show ?thesis using t(1) runningI [OF r(1-3) t(2) _ r(6)] by blast
qed

lemma running_next:
  assumes lay: "layout who sem" and r0: "r0 < 3"
    and q: "set (p # q) = who ` ({..<3} - W - X)" "distinct (p # q)"
    and ws: "\<forall>r<3. ws (sem r) = (if r \<in> W then [who r] else [])"
    and inv: "sched_inv t q ws" and v: "view t = run_next p (v\<lparr>v_status := (v_status v)(who r0 := st)\<rparr>)"
    and old: "view_ok who sem k h W' X' r0 v"
    and st: "st = role_status W X 3 r0" "\<And>r. r \<noteq> r0 \<Longrightarrow> r \<in> W \<longleftrightarrow> r \<in> W'" "\<And>r. r \<noteq> r0 \<Longrightarrow> r \<in> X \<longleftrightarrow> r \<in> X'"
  shows "\<exists>r1. p = who r1 \<and> running who sem k h W X r1 q ws t"
proof -
  obtain r1 where r1: "r1 \<in> {..<3} - W - X" "p = who r1" "set q = who ` ({..<3} - W - X - {r1})"
    using next_role [OF lay q(1) _ q(2)] by blast
  have "v_status (view t) (who r) = role_status W X r1 r" if "r < 3" for r
  proof -
    have "v_status v (who r) = role_status W' X' r0 r" by (rule view_okD(2) [OF old that])
    then show ?thesis
      using layoutD(5) [OF lay that, of r1] layoutD(5) [OF lay that r0] r1(1) st r0 that
      unfolding v r1(2) by (auto simp: role_status_def)
  qed
  moreover have "v_status (view t) x \<in> {FREE, ZOMBIE}" if "x < NPROC" "x \<notin> who ` {..<3}" for x
  proof -
    have "x \<noteq> who r1" "x \<noteq> who r0" using that(2) r1(1) r0 by auto
    then show ?thesis using view_okD(3) [OF old that] unfolding v r1(2) by auto
  qed
  ultimately have "view_ok who sem k h W X r1 (view t)" using old unfolding v r1(2) view_ok_def by simp
  moreover have "queues_ok who sem W X r1 q ws" using r1(3) ws by (simp add: queues_ok_def)
  ultimately show ?thesis using r1 inv by (auto intro: runningI)
qed

lemma ready_distinct: "sched_inv s q ws \<Longrightarrow> distinct q"
  by (rule rq_invD(2) [OF sched_invD(1)])

lemma running_block:
  assumes lay: "layout who sem" and ok: "turn_ok k h W X" and run: "running who sem k h W X r0 q ws s"
    and r0: "r0 \<noteq> k mod 3" "k < 30"
  shows "\<exists>t p r1 q' ws'. do_semP 0 (of_nat (sem r0)) s = (Inl (Run p), t) \<and> running who sem k h (insert r0 W) X r1 q' ws' t"
proof -
  note r = runningD [OF run] and v = view_okD [OF runningD(5) [OF run]]
  have q: "set q = who ` ({..<3} - insert r0 W - X)" using r(6) by (auto simp: queues_ok_def)
  have "who (k mod 3) \<in> set q" unfolding q using turn_alive [OF ok r0(2)] r0(1) by auto
  then obtain p q' where pq: "q = p # q'" by (cases q) auto
  have val: "\<not> 0 < sint (sem_value (sem_table s (sem r0)))" "ifuse (sem_table s (sem r0))" using v(4,5) [OF r(1)] r0(1) by simp_all
  obtain t where t: "do_semP 0 (of_nat (sem r0)) s = (Inl (Run p), t)" "sched_inv t q' (ws(sem r0 := ws (sem r0) @ [who r0]))"
    "view t = run_next p ((view s)\<lparr>v_status := (v_status (view s))(who r0 := BLOCKED)\<rparr>)"
    using semP_blocks [OF r(4) [unfolded pq] layoutD(4) [OF lay r(1)] val(2,1) r(7) layoutD(2) [OF lay r(1)] r(8)] by blast
  have ws: "\<forall>r<3. (ws(sem r0 := ws (sem r0) @ [who r0])) (sem r) = (if r \<in> insert r0 W then [who r] else [])"
    using r(2,6) layoutD(6) [OF lay _ r(1)] r(1) by (auto simp: queues_ok_def)
  have "\<exists>r1. p = who r1 \<and> running who sem k h (insert r0 W) X r1 q' (ws(sem r0 := ws (sem r0) @ [who r0])) t"
    by (rule running_next [OF lay r(1) _ _ ws t(2,3) r(5)])
      (use q pq ready_distinct [OF r(4)] r(1) in \<open>auto simp: role_status_def\<close>)
  then show ?thesis using t(1) by blast
qed

lemma running_give:
  assumes lay: "layout who sem" and run: "running who sem k 2 W X (k mod 3) q ws s" and c: "Suc k mod 3 \<notin> W"
  shows "\<exists>t. do_semV (of_nat (sem (Suc k mod 3))) s = (Inr (), t) \<and> running who sem (Suc k) 0 W X (k mod 3) q ws t"
proof -
  note r = runningD [OF run] and v = view_okD [OF runningD(5) [OF run]]
  let ?c = "Suc k mod 3"
  have val: "sint (sem_value (sem_table s (sem ?c))) = 0" "ifuse (sem_table s (sem ?c))" "ws (sem ?c) = []" "?c < 3"
    using v(4,5) [of ?c] r(6) c by (simp_all add: queues_ok_def)
  obtain t where t: "do_semV (of_nat (sem ?c)) s = (Inr (), t)" "sched_inv t q ws"
    "view t = (view s)\<lparr>v_value := (v_value (view s))(sem ?c := 1)\<rparr>"
    using semV_adds [OF r(4) layoutD(4) [OF lay val(4)] val(2,3)] val(1) by auto
  have "view_ok who sem (Suc k) 0 W X (k mod 3) (view t)"
    using r(5) layoutD(6) [OF lay _ val(4)] unfolding t(3) view_ok_def by auto
  then show ?thesis using t(1) runningI [OF r(1-3) t(2) _ r(6)] by blast
qed

lemma running_hand_over:
  assumes lay: "layout who sem" and run: "running who sem k 2 W X (k mod 3) q ws s" and c: "Suc k mod 3 \<in> W" "W \<inter> X = {}"
  shows "\<exists>t q' ws'. do_semV (of_nat (sem (Suc k mod 3))) s = (Inr (), t) \<and>
    running who sem (Suc k) 1 (W - {Suc k mod 3}) X (k mod 3) q' ws' t"
proof -
  note r = runningD [OF run] and v = view_okD [OF runningD(5) [OF run]]
  let ?c = "Suc k mod 3" and ?p = "who (Suc k mod 3)"
  have val: "ifuse (sem_table s (sem ?c))" "ws (sem ?c) = ?p # []" "?c < 3"
    "sint (sem_value (sem_table s (sem ?c))) \<noteq> 2 ^ 31 - 1"
    using v(4,5) [of ?c] r(6) c by (simp_all add: queues_ok_def)
  obtain t where t: "do_semV (of_nat (sem ?c)) s = (Inr (), t)" "sched_inv t (q @ [?p]) (ws(sem ?c := []))"
    "view t = (view s)\<lparr>v_status := (v_status (view s))(?p := READY)\<rparr>"
    using semV_wakes [OF r(4) layoutD(4) [OF lay val(3)] val(1,2,4)] by blast
  have ne: "?c \<noteq> k mod 3" "?c \<notin> X" using r(2) c by auto
  have "v_status (view t) (who x) = role_status (W - {?c}) X (k mod 3) x" if "x < 3" for x
    using v(2) [OF that] layoutD(5) [OF lay that val(3)] ne unfolding t(3) by (auto simp: role_status_def)
  moreover have "v_status (view t) x \<in> {FREE, ZOMBIE}" if "x < NPROC" "x \<notin> who ` {..<3}" for x
  proof -
    have "x \<noteq> ?p" using that(2) val(3) by blast
    then show ?thesis using v(3) [OF that] unfolding t(3) by auto
  qed
  ultimately have "view_ok who sem (Suc k) 1 (W - {?c}) X (k mod 3) (view t)"
    using r(5) unfolding t(3) view_ok_def by simp
  moreover have "queues_ok who sem (W - {?c}) X (k mod 3) (q @ [?p]) (ws(sem ?c := []))"
  proof -
    have "{..<3} - (W - {?c}) - X - {k mod 3} = insert ?c ({..<3} - W - X - {k mod 3})" using ne val(3) c(1) by auto
    then show ?thesis using r(6) layoutD(6) [OF lay _ val(3)] by (auto simp: queues_ok_def)
  qed
  ultimately show ?thesis using t(1,2) r(1-3) by (blast intro: runningI)
qed

lemma running_tick:
  assumes lay: "layout who sem" and run: "running who sem k h W X r0 q ws s"
  shows "\<exists>r t r1 q'. rrsched 0 s = (r, t) \<and> (r = Inr () \<or> (\<exists>p. r = Inl (Run p))) \<and> running who sem k h W X r1 q' ws t"
proof -
  note r = runningD [OF run]
  obtain p q' where pq: "q @ [who r0] = p # q'" by (cases q) auto
  from tick_view [OF r(4,7) layoutD(2) [OF lay r(1)] r(8)] obtain t where
    "rrsched 0 s = (Inr (), t) \<and> sched_inv t q ws \<and> view t = view s \<or>
     rrsched 0 s = (Inl (Run p), t) \<and> sched_inv t q' ws \<and>
     view t = run_next p ((view s)\<lparr>v_status := (v_status (view s))(who r0 := READY)\<rparr>)"
    unfolding pq by auto
  then show ?thesis
  proof
    assume t: "rrsched 0 s = (Inr (), t) \<and> sched_inv t q ws \<and> view t = view s"
    then have "running who sem k h W X r0 q ws t" using r(5) by (intro runningI r(1-3,6)) auto
    then show ?thesis using t by blast
  next
    assume t: "rrsched 0 s = (Inl (Run p), t) \<and> sched_inv t q' ws \<and>
      view t = run_next p ((view s)\<lparr>v_status := (v_status (view s))(who r0 := READY)\<rparr>)"
    have "set (p # q') = insert (who r0) (set q)" unfolding pq [symmetric] by simp
    then have set: "set (p # q') = who ` ({..<3} - W - X)" using r(1-3,6) by (auto simp: queues_ok_def)
    have dis: "distinct (p # q')"
      using ready_distinct [OF r(4)] sched_inv_running(1) [OF r(4,8)] unfolding pq [symmetric] by simp
    have "\<exists>r1. p = who r1 \<and> running who sem k h W X r1 q' ws t"
      by (rule running_next [OF lay r(1) set dis _ _ _ r(5)]) (use t r(1-3,6) in \<open>auto simp: queues_ok_def role_status_def\<close>)
    then show ?thesis using t by blast
  qed
qed

lemma running_exit:
  assumes lay: "layout who sem" and ok: "turn_ok k h W X" and run: "running who sem k h W X r0 q ws s" and r0: "rounds k r0 = 10"
  shows "\<exists>e t. sys_user_exit 0 0 s = (Inl e, t) \<and>
    (e = Shutdown 0 \<and> insert r0 X = {..<3} \<or> (\<exists>p r1 q'. e = Run p \<and> running who sem k h W (insert r0 X) r1 q' ws t))"
proof -
  note r = runningD [OF run] and v = view_okD [OF runningD(5) [OF run]]
  have q: "set q = who ` ({..<3} - W - insert r0 X)" using r(6) by (auto simp: queues_ok_def)
  have par: "status (procs s x) \<noteq> BLOCKED" if "parent (procs s (who r0)) = Some x" for x
  proof (cases r0)
    case 0
    then show ?thesis using v(3) [of x] v(7) [of x] that by auto
  next
    case (Suc r1)
    then have "x = who r1" "r1 < 3" using that r(1) v(6) [of r1] by auto
    moreover have "r1 \<notin> W" using rounds_parent [OF turn_okD(1) [OF ok], of r1] r0 r(1) Suc turn_okD(8) [OF ok, of r1] by auto
    ultimately show ?thesis using v(2) [of r1] by (auto simp: role_status_def)
  qed
  obtain e t where t: "sys_user_exit 0 0 s = (Inl e, t)" "case q of
      [] \<Rightarrow> e = (if \<forall>i<NPROC. i \<noteq> who r0 \<longrightarrow> status (procs s i) \<in> {FREE, ZOMBIE} then Shutdown 0 else Wfi)
    | p # q' \<Rightarrow> e = Run p \<and> sched_inv t q' ws \<and>
        view t = run_next p ((view s)\<lparr>v_status := (v_status (view s))(who r0 := ZOMBIE)\<rparr>)"
    using exit_view [OF r(4,7) layoutD(2) [OF lay r(1)] r(8) par, of 0] by blast
  show ?thesis
  proof (cases q)
    case Nil
    then have none: "{..<3} \<subseteq> W \<union> insert r0 X" using q by auto
    have k: "k = 30"
    proof (rule ccontr)
      assume "k \<noteq> 30"
      then have k: "k < 30" using turn_okD(1) [OF ok] by simp
      then have "rounds k (k mod 3) \<noteq> 10" unfolding rounds_turn by presburger
      then have "k mod 3 \<noteq> r0" using r0 by auto
      moreover have "k mod 3 < 3" by simp
      ultimately show False using turn_alive [OF ok k] none by blast
    qed
    then have all: "insert r0 X = {..<3}" using none turns_over [OF ok] turn_okD(5) [OF ok] r(1) by auto
    have "status (procs s i) \<in> {FREE, ZOMBIE}" if i: "i < NPROC" "i \<noteq> who r0" for i
    proof (cases "i \<in> who ` {..<3}")
      case True
      then obtain x where x: "i = who x" "x < 3" by auto
      then have "x \<noteq> r0" "x \<in> insert r0 X" using i(2) all by auto
      then have "x \<in> X" "x \<notin> W" "x \<noteq> r0" using turn_okD(6) [OF ok] by auto
      then show ?thesis using v(2) [OF x(2)] x(1) by (simp add: role_status_def)
    next
      case False
      then show ?thesis using v(3) [OF i(1)] by auto
    qed
    then show ?thesis using t Nil all by auto
  next
    case (Cons p q')
    then have t': "e = Run p" "sched_inv t q' ws" "view t = run_next p ((view s)\<lparr>v_status := (v_status (view s))(who r0 := ZOMBIE)\<rparr>)"
      using t(2) by simp_all
    have "\<exists>r1. p = who r1 \<and> running who sem k h W (insert r0 X) r1 q' ws t"
      by (rule running_next [OF lay r(1) _ _ _ t'(2,3) r(5)])
        (use q Cons ready_distinct [OF r(4)] r(1,2,6) in \<open>auto simp: role_status_def queues_ok_def\<close>)
    then show ?thesis using t(1) t'(1) by blast
  qed
qed

section \<open>The steps keep the invariant\<close>

lemma enter_kernel_eqs:
  "m (kern y) = (Inr x, t) \<Longrightarrow> enter_kernel m y = y\<lparr>kern := t, stop := None\<rparr>"
  "m (kern y) = (Inl (Run p), t) \<Longrightarrow> enter_kernel m y = y\<lparr>kern := t, stop := None\<rparr>"
  "m (kern y) = (Inl (Shutdown c), t) \<Longrightarrow> enter_kernel m y = y\<lparr>kern := t, stop := Some (Shutdown c)\<rparr>"
  "m s = (Inr x, t) \<Longrightarrow> run_on 0 m s = (Inr x, t)" "m s = (Inl (Run p), t) \<Longrightarrow> run_on 0 m s = (Inl (Run p), t)"
  by (simp_all add: enter_kernel_def run_on_def)

lemma app_invI:
  assumes "at_turn who sem k h W X y" "stop y = None" "running who sem k h W X r0 q ws (kern y)"
  shows "app_inv who sem y"
  using assms unfolding app_inv_def by (intro exI [of _ k] exI [of _ h] exI [of _ W] exI [of _ X]) auto

lemma app_inv_stopped:
  assumes "at_turn who sem k h W X y" "stop y = Some (Shutdown 0)" "X = {..<3}"
  shows "app_inv who sem y"
  using assms unfolding app_inv_def by (intro exI [of _ k] exI [of _ h] exI [of _ W] exI [of _ X]) auto

lemma app_inv_running:
  assumes "app_inv who sem y" "stop y = None"
  obtains k h W X r0 q ws where "at_turn who sem k h W X y" "running who sem k h W X r0 q ws (kern y)"
  using assms by (auto simp: app_inv_def)

lemma at_turn_cong [simp]: "at_turn who sem k h W X (y\<lparr>kern := t, stop := e\<rparr>) = at_turn who sem k h W X y"
  by (simp add: at_turn_def)

lemma at_turnD:
  assumes "at_turn who sem k h W X y"
  shows "turn_ok k h W X" "out y = app_text (k + of_bool (h = 2))" "r < 3 \<Longrightarrow> progs y (who r) = todo sem k h W X r"
  using assms by (simp_all add: at_turn_def)

text \<open>What the running process does next, and what it leaves.\<close>

lemma at_turn_upd:
  assumes lay: "layout who sem" and at: "at_turn who sem k h W X y" and r0: "r0 < 3"
    and ok: "turn_ok k' h' W' X'" and as: "as = todo sem k' h' W' X' r0"
    and same: "\<And>r. r < 3 \<Longrightarrow> r \<noteq> r0 \<Longrightarrow> todo sem k' h' W' X' r = todo sem k h W X r"
    and o': "o' = app_text (k' + of_bool (h' = 2))"
  shows "at_turn who sem k' h' W' X' (y\<lparr>progs := (progs y)(who r0 := as), out := o'\<rparr>)"
  using assms layoutD(5) [OF lay _ r0] by (auto simp: at_turn_def)

lemma at_turn_ops:
  assumes lay: "layout who sem" and at: "at_turn who sem k h W X y" and r0: "r0 < 3"
    and ok: "turn_ok k' h' W' X'" and as: "as = todo sem k' h' W' X' r0"
    and same: "\<And>r. r < 3 \<Longrightarrow> r \<noteq> r0 \<Longrightarrow> todo sem k' h' W' X' r = todo sem k h W X r"
    and o': "k' + of_bool (h' = 2) = k + of_bool (h = 2)"
  shows "at_turn who sem k' h' W' X' (y\<lparr>progs := (progs y)(who r0 := as)\<rparr>)"
  using assms layoutD(5) [OF lay _ r0] by (auto simp: at_turn_def)

lemma call_take:
  assumes lay: "layout who sem" and at: "at_turn who sem k 0 W X y" "k < 30" and st: "stop y = None"
    and run: "running who sem k 0 W X (k mod 3) q ws (kern y)"
  shows "\<exists>a as. progs y (who (k mod 3)) = a # as \<and> app_inv who sem (exec_op a (y\<lparr>progs := (progs y)(who (k mod 3) := as)\<rparr>))"
proof -
  let ?c = "k mod 3"
  have m: "rounds k ?c < 10" using at(2) by (simp add: rounds_turn)
  note r = runningD(1,3) [OF run]
  have p: "progs y (who ?c) = SemP (sem ?c) # todo sem k 1 W X ?c"
    using at_turnD(3) [OF at(1) r(1)] r(2) by (simp add: todo_def rest_of_step [OF m])
  obtain t where t: "do_semP 0 (of_nat (sem ?c)) (kern y) = (Inr (), t)" "running who sem k 1 W X ?c q ws t"
    using running_take [OF lay run] by blast
  have "at_turn who sem k 1 W X (y\<lparr>progs := (progs y)(who ?c := todo sem k 1 W X ?c)\<rparr>)"
    by (rule at_turn_ops [OF lay at(1) r(1)]) (use at_turnD(1) [OF at(1)] at(2) in \<open>auto simp: todo_def turn_ok_def\<close>)
  then have "app_inv who sem (exec_op (SemP (sem ?c)) (y\<lparr>progs := (progs y)(who ?c := todo sem k 1 W X ?c)\<rparr>))"
    using t by (intro app_invI [where q = q and ws = ws]) (simp_all add: enter_kernel_eqs)
  then show ?thesis using p by blast
qed

lemma call_print:
  assumes lay: "layout who sem" and at: "at_turn who sem k 1 W X y" "k < 30" and st: "stop y = None"
    and run: "running who sem k 1 W X (k mod 3) q ws (kern y)"
  shows "\<exists>a as. progs y (who (k mod 3)) = a # as \<and> app_inv who sem (exec_op a (y\<lparr>progs := (progs y)(who (k mod 3) := as)\<rparr>))"
proof -
  let ?c = "k mod 3" and ?l = "app_line (k mod 3) (k div 3)"
  have m: "rounds k ?c < 10" "rounds k ?c = k div 3" using at(2) by (simp_all add: rounds_turn)
  note r = runningD [OF run]
  have p: "progs y (who ?c) = Printu (fst ?l) (snd ?l) # todo sem k 2 W X ?c"
    using at_turnD(3) [OF at(1) r(1)] r(3) rest_of_step [OF m(1), of sem ?c]
    by (simp add: todo_def m(2))
  have "at_turn who sem k 2 W X (y\<lparr>progs := (progs y)(who ?c := todo sem k 2 W X ?c), out := out y @ [?l]\<rparr>)"
    by (rule at_turn_upd [OF lay at(1) r(1)])
      (use at_turnD(1,2) [OF at(1)] at(2) in \<open>auto simp: todo_def turn_ok_def app_text_Suc\<close>)
  moreover have "running who sem k 2 W X ?c q ws (kern y)" using r(5) by (intro runningI r(1-4,6)) (simp add: view_ok_def)
  ultimately have "app_inv who sem (exec_op (Printu (fst ?l) (snd ?l)) (y\<lparr>progs := (progs y)(who ?c := todo sem k 2 W X ?c)\<rparr>))"
    using st by (intro app_invI [where q = q and ws = ws]) simp_all
  then show ?thesis using p by blast
qed

lemma turn_ok_Suc:
  assumes "turn_ok k 2 W X" "k < 30"
  shows "turn_ok (Suc k) (of_bool (Suc k mod 3 \<in> W)) (W - {Suc k mod 3}) X"
proof -
  have c: "k mod 3 \<notin> W" "k mod 3 \<notin> X" using turn_alive [OF assms] by auto
  have "rounds (Suc k) r = rounds k r" if "r \<in> W \<union> X" for r
  proof -
    have "r < 3" using that turn_okD(4,5) [OF assms(1)] by auto
    then show ?thesis using rounds_Suc [of r k] c that by auto
  qed
  moreover have "Suc k mod 3 \<notin> W" if "Suc k = 30"
  proof -
    have "k = 29" using that by simp
    then have "rounds k (Suc k mod 3) = 10" by (simp add: rounds_def)
    then show ?thesis using turn_okD(8) [OF assms(1), of "Suc k mod 3"] by auto
  qed
  ultimately show ?thesis using assms by (auto simp: turn_ok_def)
qed

lemma call_give:
  assumes lay: "layout who sem" and at: "at_turn who sem k 2 W X y" "k < 30" and st: "stop y = None"
    and run: "running who sem k 2 W X (k mod 3) q ws (kern y)"
  shows "\<exists>a as. progs y (who (k mod 3)) = a # as \<and> app_inv who sem (exec_op a (y\<lparr>progs := (progs y)(who (k mod 3) := as)\<rparr>))"
proof -
  let ?c = "k mod 3" and ?c' = "Suc k mod 3"
  let ?h = "of_bool (?c' \<in> W) :: nat" and ?W = "W - {?c'}"
  have m: "rounds k ?c < 10" "(k mod 3 + 1) mod 3 = ?c'" using at(2) by (simp_all add: rounds_turn mod_Suc_eq)
  have ne: "?c' \<noteq> ?c" by presburger
  note r = runningD [OF run]
  have c: "todo sem (Suc k) ?h ?W X ?c = rest_of sem ?c (Suc (rounds k ?c))"
    using r(2,3) ne rounds_Suc [OF r(1), of k] by (simp add: todo_def)
  have p: "progs y (who ?c) = SemV (sem ?c') # todo sem (Suc k) ?h ?W X ?c"
    using at_turnD(3) [OF at(1) r(1)] r(3) rest_of_step [OF m(1), of sem ?c] m(2) unfolding c by (simp add: todo_def)
  have same: "todo sem (Suc k) ?h ?W X x = todo sem k 2 W X x" if "x < 3" "x \<noteq> ?c" for x
    using that rounds_Suc [OF that(1), of k] by (auto simp: todo_def)
  have at': "at_turn who sem (Suc k) ?h ?W X (y\<lparr>progs := (progs y)(who ?c := todo sem (Suc k) ?h ?W X ?c)\<rparr>)"
    by (rule at_turn_ops [OF lay at(1) r(1) turn_ok_Suc [OF at_turnD(1) [OF at(1)] at(2)] refl same]) simp_all
  have "\<exists>t q' ws'. do_semV (of_nat (sem ?c')) (kern y) = (Inr (), t) \<and> running who sem (Suc k) ?h ?W X ?c q' ws' t"
  proof (cases "?c' \<in> W")
    case True
    then show ?thesis using running_hand_over [OF lay run True] turn_okD(6) [OF at_turnD(1) [OF at(1)]] by simp
  next
    case False
    then have "?W = W" by auto
    then show ?thesis using running_give [OF lay run False] False by auto
  qed
  then obtain t q' ws' where t: "do_semV (of_nat (sem ?c')) (kern y) = (Inr (), t)" "running who sem (Suc k) ?h ?W X ?c q' ws' t"
    by blast
  have "app_inv who sem (exec_op (SemV (sem ?c')) (y\<lparr>progs := (progs y)(who ?c := todo sem (Suc k) ?h ?W X ?c)\<rparr>))"
    using at' t by (intro app_invI [where q = q' and ws = ws']) (simp_all add: enter_kernel_eqs)
  then show ?thesis using p by blast
qed

lemma call_block:
  assumes lay: "layout who sem" and at: "at_turn who sem k h W X y" "k < 30" and st: "stop y = None"
    and run: "running who sem k h W X r0 q ws (kern y)" and r0: "r0 \<noteq> k mod 3" "rounds k r0 < 10"
  shows "\<exists>a as. progs y (who r0) = a # as \<and> app_inv who sem (exec_op a (y\<lparr>progs := (progs y)(who r0 := as)\<rparr>))"
proof -
  note r = runningD [OF run]
  have p: "progs y (who r0) = SemP (sem r0) # todo sem k h (insert r0 W) X r0"
    using at_turnD(3) [OF at(1) r(1)] r(2,3) r0(1) rest_of_step [OF r0(2), of sem r0] by (simp add: todo_def)
  obtain t p r1 q' ws' where t: "do_semP 0 (of_nat (sem r0)) (kern y) = (Inl (Run p), t)"
    "running who sem k h (insert r0 W) X r1 q' ws' t"
    using running_block [OF lay at_turnD(1) [OF at(1)] run r0(1) at(2)] by blast
  have "turn_ok k h (insert r0 W) X" using at_turnD(1) [OF at(1)] r(1,3) r0 by (auto simp: turn_ok_def)
  then have "at_turn who sem k h (insert r0 W) X (y\<lparr>progs := (progs y)(who r0 := todo sem k h (insert r0 W) X r0)\<rparr>)"
    by (rule at_turn_ops [OF lay at(1) r(1)]) (auto simp: todo_def)
  then have "app_inv who sem (exec_op (SemP (sem r0)) (y\<lparr>progs := (progs y)(who r0 := todo sem k h (insert r0 W) X r0)\<rparr>))"
    using t by (intro app_invI [where q = q' and ws = ws']) (simp_all add: enter_kernel_eqs)
  then show ?thesis using p by blast
qed

lemma call_exit:
  assumes lay: "layout who sem" and at: "at_turn who sem k h W X y" and st: "stop y = None"
    and run: "running who sem k h W X r0 q ws (kern y)" and r0: "rounds k r0 = 10"
  shows "\<exists>a as. progs y (who r0) = a # as \<and> app_inv who sem (exec_op a (y\<lparr>progs := (progs y)(who r0 := as)\<rparr>))"
proof -
  note r = runningD [OF run] and ok = at_turnD(1) [OF at]
  have h: "r0 = k mod 3 \<Longrightarrow> h = 0"
  proof -
    assume "r0 = k mod 3"
    then have "k = 30" using r0 turn_okD(1) [OF ok] by (simp add: rounds_turn)
    then show "h = 0" by (rule turn_okD(3) [OF ok])
  qed
  have p: "progs y (who r0) = [Exit]"
    using at_turnD(3) [OF at r(1)] r(2,3) h by (auto simp: todo_def r0 rest_of_end)
  have "turn_ok k h W (insert r0 X)" using ok r(1,2) r0 by (auto simp: turn_ok_def)
  then have at': "at_turn who sem k h W (insert r0 X) (y\<lparr>progs := (progs y)(who r0 := [])\<rparr>)"
    by (rule at_turn_ops [OF lay at r(1)]) (auto simp: todo_def)
  obtain e t where t: "sys_user_exit 0 0 (kern y) = (Inl e, t)"
    "e = Shutdown 0 \<and> insert r0 X = {..<3} \<or> (\<exists>p r1 q'. e = Run p \<and> running who sem k h W (insert r0 X) r1 q' ws t)"
    using running_exit [OF lay ok run r0] by blast
  from t(2) have "app_inv who sem (exec_op Exit (y\<lparr>progs := (progs y)(who r0 := [])\<rparr>))"
  proof (elim disjE conjE exE)
    assume "e = Shutdown 0" "insert r0 X = {..<3}"
    then show ?thesis using t(1) at' by (intro app_inv_stopped [where X = "insert r0 X"]) (simp_all add: enter_kernel_eqs)
  next
    fix p r1 q' assume "e = Run p" "running who sem k h W (insert r0 X) r1 q' ws t"
    then show ?thesis using t(1) at' by (intro app_invI [where q = q' and ws = ws]) (simp_all add: enter_kernel_eqs)
  qed
  then show ?thesis using p by blast
qed

text \<open>The running process has something to do, and doing it keeps the invariant.\<close>

lemma call_ok:
  assumes lay: "layout who sem" and inv: "app_inv who sem y" and st: "stop y = None"
  shows "\<exists>r a as. r < 3 \<and> current (kern y) 0 = Some (who r) \<and> progs y (who r) = a # as \<and>
    app_inv who sem (exec_op a (y\<lparr>progs := (progs y)(who r := as)\<rparr>))"
proof -
  obtain k h W X r0 q ws where at: "at_turn who sem k h W X y" and run: "running who sem k h W X r0 q ws (kern y)"
    using app_inv_running [OF inv st] .
  note r = runningD(1,7) [OF run] and ok = at_turnD(1) [OF at]
  have le: "rounds k r0 \<le> 10" by (rule rounds_le [OF turn_okD(1) [OF ok] r(1)])
  have "\<exists>a as. progs y (who r0) = a # as \<and> app_inv who sem (exec_op a (y\<lparr>progs := (progs y)(who r0 := as)\<rparr>))"
  proof (cases "rounds k r0 = 10")
    case True
    then show ?thesis by (rule call_exit [OF lay at st run])
  next
    case False
    then have m: "rounds k r0 < 10" using le by simp
    have k: "k < 30" using False rounds_all [OF r(1)] turn_okD(1) [OF ok] by (cases "k = 30") auto
    consider "r0 \<noteq> k mod 3" | "r0 = k mod 3" "h = 0" | "r0 = k mod 3" "h = 1" | "r0 = k mod 3" "h = 2"
      using turn_okD(2) [OF ok] by linarith
    then show ?thesis
      using call_block [OF lay at k st run _ m] call_take [OF lay _ k st] call_print [OF lay _ k st] call_give [OF lay _ k st] at run
      by cases blast+
  qed
  then show ?thesis using r by blast
qed

lemma tick_ok:
  assumes lay: "layout who sem" and inv: "app_inv who sem y" and st: "stop y = None"
  shows "app_inv who sem (enter_kernel (rrsched 0) y)"
proof -
  obtain k h W X r0 q ws where at: "at_turn who sem k h W X y" and run: "running who sem k h W X r0 q ws (kern y)"
    using app_inv_running [OF inv st] .
  obtain r t r1 q' where t: "rrsched 0 (kern y) = (r, t)" "r = Inr () \<or> (\<exists>p. r = Inl (Run p))"
    "running who sem k h W X r1 q' ws t"
    using running_tick [OF lay run] by blast
  then show ?thesis using at by (intro app_invI [where q = q' and ws = ws]) (auto simp: enter_kernel_eqs)
qed

lemma app_inv_step:
  assumes "layout who sem" "app_inv who sem y" "app_step y z"
  shows "app_inv who sem z"
  using assms(3)
proof (cases rule: app_step.cases)
  case (call p a as)
  then show ?thesis using call_ok [OF assms(1,2) call(2)] by auto
next
  case tick
  then show ?thesis using tick_ok [OF assms(1,2)] by simp
qed

lemma app_inv_reach:
  assumes "layout who sem" "app_inv who sem y" "app_step\<^sup>*\<^sup>* y z"
  shows "app_inv who sem z"
  using assms(3,2) by (induction rule: rtranclp_induct) (auto intro: app_inv_step [OF assms(1)])

text \<open>The calls that are still to be made bound the way to the end.\<close>

lemma exec_op_progs [simp]: "progs (exec_op a y) = progs y"
  by (cases a) (auto simp: enter_kernel_def split: prod.splits)

lemma app_ends:
  assumes lay: "layout who sem"
  shows "app_inv who sem y \<Longrightarrow> \<exists>z. app_step\<^sup>*\<^sup>* y z \<and> app_inv who sem z \<and> stop z \<noteq> None"
proof (induction "\<Sum>r<3. length (progs y (who r))" arbitrary: y rule: less_induct)
  case less
  show ?case
  proof (cases "stop y")
    case None
    obtain r a as where c: "r < 3" "current (kern y) 0 = Some (who r)" "progs y (who r) = a # as"
      "app_inv who sem (exec_op a (y\<lparr>progs := (progs y)(who r := as)\<rparr>))"
      using call_ok [OF lay less.prems None] by blast
    let ?z = "exec_op a (y\<lparr>progs := (progs y)(who r := as)\<rparr>)"
    have step: "app_step y ?z" by (rule app_step.call [OF None c(2,3)])
    have "(\<Sum>x<3. length (progs ?z (who x))) < (\<Sum>x<3. length (progs y (who x)))"
    proof (rule sum_strict_mono_ex1)
      show "\<forall>x\<in>{..<3}. length (progs ?z (who x)) \<le> length (progs y (who x))" using c(3) by auto
      show "\<exists>x\<in>{..<3}. length (progs ?z (who x)) < length (progs y (who x))" using c(1,3) by auto
    qed simp
    then obtain z where "app_step\<^sup>*\<^sup>* ?z z" "app_inv who sem z" "stop z \<noteq> None" using less.hyps [OF _ c(4)] by blast
    then show ?thesis using step by (meson converse_rtranclp_into_rtranclp)
  qed (use less.prems in auto)
qed

section \<open>The output of the application\<close>

text \<open>
  The system when both forks have been made and the children have not begun their loops, while the parent may already have made \<open>j\<close> of its
  calls: taken its semaphore, printed, given the first child its semaphore, and waited for its own again.
\<close>

definition after_forks :: "(nat \<Rightarrow> nat) \<Rightarrow> nat \<Rightarrow> (nat \<Rightarrow> nat) \<Rightarrow> nat \<Rightarrow> 'z app_system \<Rightarrow> bool" where
  "after_forks who main_sem child_sem j y \<longleftrightarrow> layout who (sem_of main_sem child_sem) \<and> j \<le> 4 \<and> stop y = None \<and>
     out y = (if 2 \<le> j then [(''Parent print %d\<newline>'', [0])] else []) \<and>
     progs y (who 0) = drop j (app_main main_sem child_sem (who 1) 0) \<and>
     progs y (who 1) = app_main main_sem child_sem 0 (who 2) \<and> progs y (who 2) = app_main main_sem child_sem 0 0 \<and>
     (\<exists>r q ws. running who (sem_of main_sem child_sem) (of_bool (3 \<le> j)) (if j < 3 then j else 0) (if j = 4 then {0} else {}) {}
        r q ws (kern y))"

lemma todo_start:
  fixes sem :: "nat \<Rightarrow> nat"
  assumes "j = 0 \<or> j = 1 \<or> j = 2 \<or> j = 3 \<or> j = 4"
  defines "d \<equiv> todo sem (of_bool (3 \<le> j)) (if j < 3 then j else 0) (if j = 4 then {0} else {}) {}"
  shows "d 0 = drop j (rest_of sem 0 0)" "d 1 = rest_of sem 1 0" "d 2 = rest_of sem 2 0"
  using assms(1) rest_of_step [of 0 sem 0] unfolding d_def todo_def rounds_def by (elim disjE; simp)+

lemma after_forks_inv:
  assumes "after_forks who m c j y"
  shows "layout who (sem_of m c)" "app_inv who (sem_of m c) y"
proof -
  let ?k = "of_bool (3 \<le> j) :: nat" and ?h = "if j < 3 then j else 0" and ?W = "if j = 4 then {0} else {} :: nat set"
  let ?sem = "sem_of m c"
  note a = assms [unfolded after_forks_def]
  show lay: "layout who ?sem" using a by blast
  have pids: "who 1 \<noteq> 0" "who 2 \<noteq> 0" using lay by (simp_all add: layout_def)
  have j: "j = 0 \<or> j = 1 \<or> j = 2 \<or> j = 3 \<or> j = 4" using a by linarith
  have "turn_ok ?k ?h ?W {}" using j by (auto simp: turn_ok_def rounds_def)
  moreover have "out y = app_text (?k + of_bool (?h = 2))" using a j by (auto simp: app_text_def app_line_def)
  moreover have "progs y (who r) = todo ?sem ?k ?h ?W {} r" if "r < 3" for r
  proof -
    have "progs y (who 0) = drop j (rest_of ?sem 0 0)" "progs y (who 1) = rest_of ?sem 1 0" "progs y (who 2) = rest_of ?sem 2 0"
      using a app_main_roles(1) [OF pids(1), of m c 0] app_main_roles(2) [OF pids(2), of m c] app_main_roles(3) [of m c] by presburger+
    then show ?thesis using that todo_start [OF j, of ?sem] by (auto simp: numeral_3_eq_3 less_Suc_eq numeral_2_eq_2)
  qed
  ultimately have "at_turn who ?sem ?k ?h ?W {} y" by (simp add: at_turn_def)
  then show "app_inv who ?sem y" using a app_invI by blast
qed

lemma app_inv_stop:
  assumes "app_inv who sem z" "stop z = Some e"
  shows "e = Shutdown 0" "out z = app_text 30"
proof -
  obtain k h W X where at: "at_turn who sem k h W X z" and e: "e = Shutdown 0" "X = {..<3}"
    using assms by (auto simp: app_inv_def)
  note ok = at_turnD(1) [OF at]
  have "rounds k 2 = 10" using turn_okD(9) [OF ok, of 2] e(2) by simp
  then have k: "k = 30" using turn_okD(1) [OF ok] unfolding rounds_def by simp
  then show "e = Shutdown 0" "out z = app_text 30" using e at_turnD(2) [OF at] turn_okD(3) [OF ok] by simp_all
qed

text \<open>With an empty table the three semaphores are the first three slots.\<close>

lemma app_sems_fresh:
  assumes "\<And>i. \<not> ifuse (sem_table s i)"
  shows "app_sems s = (Inr (0, 1, 2), s\<lparr>sem_table := (sem_table s)
    (0 := \<lparr>ifuse = True, sem_value = 1, wait_queue = None\<rparr>, 1 := \<lparr>ifuse = True, sem_value = 0, wait_queue = None\<rparr>,
     2 := \<lparr>ifuse = True, sem_value = 0, wait_queue = None\<rparr>)\<rparr>)"
  using assms by (simp add: app_sems_def do_semNew_def krun_defs upd_sem_def NSEM_def upt_conv_Cons numeral_2_eq_2)

text \<open>
  C31. The application that orders three processes by semaphores, over the kernel's own \<open>do_semP\<close>, \<open>do_semV\<close>, \<open>sys_user_exit\<close> and \<open>schedule\<close> and with a
  timer interrupt between any two calls: whatever the interrupts, the output is a beginning of the rotation parent, first child, second child,
  ten times; the machine never waits, the running process always has a next call, and it shuts down only after all thirty lines; and from every state on
  the way the calls of the running processes lead there.
\<close>

theorem semaphores_order_output:
  assumes "after_forks who main_sem child_sem j y" "app_step\<^sup>*\<^sup>* y z"
  shows "(\<exists>n\<le>30. out z = app_text n) \<and>
    (case stop z of
       None \<Rightarrow> \<exists>p a as. current (kern z) 0 = Some p \<and> progs z p = a # as
     | Some e \<Rightarrow> e = Shutdown 0 \<and> out z = app_text 30) \<and>
    (\<exists>u. app_step\<^sup>*\<^sup>* z u \<and> stop u = Some (Shutdown 0) \<and> out u = app_text 30)"
proof -
  let ?sem = "sem_of main_sem child_sem"
  note lay = after_forks_inv(1) [OF assms(1)]
  have inv: "app_inv who ?sem z" by (rule app_inv_reach [OF lay after_forks_inv(2) [OF assms(1)] assms(2)])
  obtain k h W X where at: "at_turn who ?sem k h W X z" using inv by (auto simp: app_inv_def)
  have "k + of_bool (h = 2) \<le> 30" using turn_okD(1,3) [OF at_turnD(1) [OF at]] by (cases "k = 30") auto
  then have "\<exists>n\<le>30. out z = app_text n" using at_turnD(2) [OF at] by blast
  moreover have "case stop z of None \<Rightarrow> \<exists>p a as. current (kern z) 0 = Some p \<and> progs z p = a # as
      | Some e \<Rightarrow> e = Shutdown 0 \<and> out z = app_text 30"
    using call_ok [OF lay inv] app_inv_stop [OF inv] by (cases "stop z") auto
  moreover obtain u where "app_step\<^sup>*\<^sup>* z u" "app_inv who ?sem u" "stop u \<noteq> None" using app_ends [OF lay inv] by blast
  then have "app_step\<^sup>*\<^sup>* z u \<and> stop u = Some (Shutdown 0) \<and> out u = app_text 30" using app_inv_stop [of who ?sem u] by auto
  ultimately show ?thesis by blast
qed

text \<open>The parent in slot 0 runs, its children in slots 1 and 2 are ready, and the semaphores are 0, 1 and 2.\<close>

definition demo_app :: "unit app_system" where
  "demo_app = \<lparr>
     kern = demo_kernel\<lparr>
       procs := (\<lambda>p. blank_process\<lparr>status := (if p = 0 then RUNNING else if p < 3 then READY else FREE),
         parent := (if p = 1 then Some 0 else if p = 2 then Some 1 else None), queue_next := (if p = 1 then Some 2 else None)\<rparr>),
       current := (\<lambda>_. Some 0), ready_queue_head := Some 1, rq_lock := SPIN_LOCK_FREE,
       sem_table := (\<lambda>i. \<lparr>ifuse = i < 3, sem_value = of_bool (i = 0), wait_queue = None\<rparr>)\<rparr>,
     progs = (\<lambda>p. app_main 0 Suc (of_bool (p = 0)) (if p = 1 then 2 else 0)), out = [], stop = None\<rparr>"

lemma demo_app_ready: "after_forks (\<lambda>r. r) 0 Suc 0 demo_app"
proof -
  have sem: "sem_of 0 Suc = (\<lambda>r. r)" by (auto simp: sem_of_def fun_eq_iff)
  have "running (\<lambda>r. r) (\<lambda>r. r) 0 0 {} {} 0 [1, 2] (\<lambda>_. []) (kern demo_app)"
    by (auto simp: running_def demo_app_def sched_inv_def rq_inv_def view_ok_def view_def queues_ok_def role_status_def NPROC_def)
  moreover have "layout (\<lambda>r. r) (\<lambda>r. r)" by (auto simp: layout_def NPROC_def NSEM_def)
  ultimately show ?thesis unfolding after_forks_def sem by (auto simp: demo_app_def app_main_def)
qed

theorem semaphores_order_output_witness:
  "\<exists>u. app_step\<^sup>*\<^sup>* demo_app u \<and> stop u = Some (Shutdown 0) \<and> take 4 (out u) =
     [(''Parent print %d\<newline>'', [0]), (''Child%d print %d\<newline>'', [0, 0]), (''Child%d print %d\<newline>'', [1, 0]),
      (''Parent print %d\<newline>'', [1])]"
proof -
  obtain u where "app_step\<^sup>*\<^sup>* demo_app u" "stop u = Some (Shutdown 0)" "out u = app_text 30"
    using semaphores_order_output [OF demo_app_ready rtranclp.rtrancl_refl] by blast
  then show ?thesis by (intro exI [of _ u]) (simp add: app_text_def app_line_def upt_conv_Cons)
qed

end
