(* ===== verification/Snprintf.thy ===== *)
theory Snprintf
  imports Strings
begin

unbundle bit_operations_syntax

text \<open>
  The formatted printing of \<^verbatim>\<open>util/snprintf.c\<close>, over the byte memory of the string functions.

  The variable argument list is the list of its 64-bit slots; \<^verbatim>\<open>va_arg(vl, int)\<close> reads the low 32 bits of
  one as a signed number.  The loops over the format and over a \<^verbatim>\<open>%s\<close> argument are bounded by the size of the
  address space.  The reference rendering \<open>render\<close> gives the text of a format and its arguments as a list,
  without a buffer; the lemmas show that every piece of the function appends its text to what was printed
  before it (\<open>prints\<close>), truncated at the end of the buffer (\<open>written\<close>).
\<close>

section \<open>The function\<close>

text \<open>\<^verbatim>\<open>if (++pos < n) out[pos - 1] = c\<close>\<close>

definition emit :: "u64 \<Rightarrow> u64 \<Rightarrow> u8 \<Rightarrow> u64 \<Rightarrow> (bmem, u64) km" where
  "emit out n c pos = kthen (kwhen (pos + 1 < n) (kput (\<lambda>m. m(out + pos := c)))) (kreturn (pos + 1))"

text \<open>\<^verbatim>\<open>longarg ? va_arg(vl, long) : va_arg(vl, int)\<close>; a missing argument is a fault.\<close>

definition va_arg :: "bool \<Rightarrow> u64 list \<Rightarrow> ('s, int \<times> u64 list) km" where
  "va_arg longarg vl = (case vl of
       [] \<Rightarrow> kraise (Fault ''va_arg'')
     | a # vl' \<Rightarrow> kreturn (if longarg then sint a else sint (ucast a :: i32), vl'))"

definition hex_digit :: "int \<Rightarrow> u8" where
  "hex_digit d = (if d < 10 then of_char (CHR ''0'') + word_of_int d else of_char (CHR ''a'') + word_of_int d - 10)"

primrec print_hex :: "u64 \<Rightarrow> u64 \<Rightarrow> int \<Rightarrow> nat \<Rightarrow> u64 \<Rightarrow> (bmem, u64) km" where
  "print_hex out n num 0 pos = kreturn pos"
| "print_hex out n num (Suc i) pos =
     kbind (emit out n (hex_digit (drop_bit (4 * i) num AND 15)) pos) (print_hex out n num i)"

text \<open>\<^verbatim>\<open>long digits = 1; for (long nn = num; nn /= 10; digits++);\<close> for a number that is not negative.\<close>

function digit_count :: "nat \<Rightarrow> nat" where
  "digit_count nn = (if nn div 10 = 0 then 1 else Suc (digit_count (nn div 10)))"
  by pat_completeness auto
termination by (relation "measure id") auto

declare digit_count.simps [simp del]

text \<open>The digits are written from the last to the first.\<close>

primrec print_digits :: "u64 \<Rightarrow> u64 \<Rightarrow> u64 \<Rightarrow> nat \<Rightarrow> nat \<Rightarrow> (bmem, unit) km" where
  "print_digits out n pos num 0 = kreturn ()"
| "print_digits out n pos num (Suc i) =
     kthen (kwhen (pos + of_nat i + 1 < n)
       (kput (\<lambda>m. m(out + pos + of_nat i := of_char (CHR ''0'') + of_nat (num mod 10)))))
     (print_digits out n pos (num div 10) i)"

definition print_dec :: "u64 \<Rightarrow> u64 \<Rightarrow> int \<Rightarrow> u64 \<Rightarrow> (bmem, u64) km" where
  "print_dec out n num pos =
     kbind (if num < 0 then
              if num = - (2 ^ 63) then kraise (Fault ''signed overflow'')
              else kbind (emit out n (of_char (CHR ''-'')) pos) (\<lambda>pos. kreturn (- num, pos))
            else kreturn (num, pos)) (\<lambda>(num, pos).
     let digits = digit_count (nat num) in
     kthen (print_digits out n pos (nat num) digits) (kreturn (pos + of_nat digits)))"

definition print_str :: "u64 \<Rightarrow> u64 \<Rightarrow> u64 \<Rightarrow> u64 \<Rightarrow> (bmem, u64) km" where
  "print_str out n s2 pos = kbind (kget (\<lambda>m. m s2)) (\<lambda>c.
     kbind (kwhile string_bound (\<lambda>(s2, c, pos). c \<noteq> 0) (\<lambda>(s2, c, pos).
         kbind (emit out n c pos) (\<lambda>pos. kbind (kget (\<lambda>m. m (s2 + 1))) (\<lambda>c. kreturn (s2 + 1, c, pos))))
       (s2, c, pos)) (\<lambda>(s2, c, pos). kreturn pos))"

text \<open>
  The body of the loop over the format: the flags \<open>format\<close> and \<open>longarg\<close>, the position and the
  remaining arguments.  The argument of \<^verbatim>\<open>%c\<close> is only taken when its character is stored.
\<close>

definition vs_step :: "u64 \<Rightarrow> u64 \<Rightarrow> u8 \<Rightarrow> bool \<Rightarrow> bool \<Rightarrow> u64 \<Rightarrow> u64 list \<Rightarrow>
    (bmem, bool \<times> bool \<times> u64 \<times> u64 list) km" where
  "vs_step out n c format longarg pos vl =
    (if format then
       if c = of_char (CHR ''l'') then kreturn (True, True, pos, vl)
       else if c = of_char (CHR ''p'') then
         kbind (emit out n (of_char (CHR ''0'')) pos) (\<lambda>pos.
         kbind (emit out n (of_char (CHR ''x'')) pos) (\<lambda>pos.
         kbind (va_arg True vl) (\<lambda>(num, vl).
         kbind (print_hex out n num 16 pos) (\<lambda>pos. kreturn (False, False, pos, vl)))))
       else if c = of_char (CHR ''x'') then
         kbind (va_arg longarg vl) (\<lambda>(num, vl).
         kbind (print_hex out n num (2 * (if longarg then 8 else 4)) pos) (\<lambda>pos. kreturn (False, False, pos, vl)))
       else if c = of_char (CHR ''d'') then
         kbind (va_arg longarg vl) (\<lambda>(num, vl).
         kbind (print_dec out n num pos) (\<lambda>pos. kreturn (False, False, pos, vl)))
       else if c = of_char (CHR ''s'') then
         kbind (va_arg True vl) (\<lambda>(s2, vl).
         kbind (print_str out n (word_of_int s2) pos) (\<lambda>pos. kreturn (False, False, pos, vl)))
       else if c = of_char (CHR ''c'') then
         (if pos + 1 < n
          then kbind (va_arg False vl) (\<lambda>(num, vl).
            kbind (emit out n (word_of_int num) pos) (\<lambda>pos. kreturn (False, False, pos, vl)))
          else kreturn (False, False, pos + 1, vl))
       else kreturn (True, longarg, pos, vl)
     else if c = of_char (CHR ''%'') then kreturn (True, longarg, pos, vl)
     else kbind (emit out n c pos) (\<lambda>pos. kreturn (False, longarg, pos, vl)))"

primrec vs_loop :: "nat \<Rightarrow> u64 \<Rightarrow> u64 \<Rightarrow> u64 \<Rightarrow> bool \<times> bool \<times> u64 \<times> u64 list \<Rightarrow> (bmem, u64) km" where
  "vs_loop 0 out n s v = kraise Diverge"
| "vs_loop (Suc k) out n s v = (case v of (format, longarg, pos, vl) \<Rightarrow>
     kbind (kget (\<lambda>m. m s)) (\<lambda>c.
       if c = 0 then kreturn pos
       else kbind (vs_step out n c format longarg pos vl) (vs_loop k out n (s + 1))))"

definition vsnprintf :: "u64 \<Rightarrow> u64 \<Rightarrow> u64 \<Rightarrow> u64 list \<Rightarrow> (bmem, int) km" where
  "vsnprintf out n s vl =
     kbind (vs_loop string_bound out n s (False, False, 0, vl)) (\<lambda>pos.
     kthen (if pos < n then kput (\<lambda>m. m(out + pos := 0))
            else kwhen (n \<noteq> 0) (kput (\<lambda>m. m(out + (n - 1) := 0))))
       (kreturn (sint (ucast pos :: i32))))"

section \<open>What is printed\<close>

fun decimal :: "nat \<Rightarrow> u8 list" where
  "decimal num = (if num < 10 then [48 + of_nat num] else decimal (num div 10) @ [48 + of_nat (num mod 10)])"

declare decimal.simps [simp del]

definition hexadecimal :: "nat \<Rightarrow> int \<Rightarrow> u8 list" where
  "hexadecimal k num = map (\<lambda>i. hex_digit (num div 16 ^ i mod 16)) (rev [0..<k])"

text \<open>The text of one conversion, if it has one; \<open>str\<close> gives the strings that pointers point to.\<close>

definition conversion :: "(u64 \<rightharpoonup> u8 list) \<Rightarrow> u8 \<Rightarrow> bool \<Rightarrow> u64 \<Rightarrow> u8 list option" where
  "conversion str c longarg a =
    (let num = (if longarg then sint a else sint (ucast a :: i32)) in
     if c = of_char (CHR ''p'') then Some (48 # 120 # hexadecimal 16 (sint a))
     else if c = of_char (CHR ''x'') then Some (hexadecimal (if longarg then 16 else 8) num)
     else if c = of_char (CHR ''d'') then
       (if num = - (2 ^ 63) then None
        else Some ((if num < 0 then [45] else []) @ decimal (nat \<bar>num\<bar>)))
     else if c = of_char (CHR ''s'') then str a
     else if c = of_char (CHR ''c'') then Some [ucast a]
     else None)"

fun render :: "(u64 \<rightharpoonup> u8 list) \<Rightarrow> u8 list \<Rightarrow> bool \<Rightarrow> bool \<Rightarrow> u64 list \<Rightarrow> u8 list option" where
  "render str [] format longarg vl = Some []"
| "render str (c # cs) format longarg vl =
    (if \<not> format then
       if c = of_char (CHR ''%'') then render str cs True longarg vl
       else map_option (Cons c) (render str cs False longarg vl)
     else if c = of_char (CHR ''l'') then render str cs True True vl
     else if c \<in> {of_char (CHR ''p''), of_char (CHR ''x''), of_char (CHR ''d''), of_char (CHR ''s''), of_char (CHR ''c'')} then
       (case vl of
          [] \<Rightarrow> None
        | a # vl' \<Rightarrow> Option.bind (conversion str c longarg a) (\<lambda>bs.
            map_option ((@) bs) (render str cs False False vl')))
     else render str cs True longarg vl)"

text \<open>The memory after the characters \<open>bs\<close> have been given to \<open>emit\<close>.\<close>

definition written :: "bmem \<Rightarrow> u64 \<Rightarrow> u64 \<Rightarrow> u8 list \<Rightarrow> bmem" where
  "written m out n bs = (\<lambda>x. if unat (x - out) < length bs \<and> unat (x - out) + 1 < unat n then bs ! unat (x - out) else m x)"

lemma written_Nil [simp]: "written m out n [] = m"
  by (simp add: written_def)

lemma unat_small: "k < 2 ^ 64 \<Longrightarrow> unat (of_nat k :: u64) = k"
  by (simp add: unat_of_nat take_bit_nat_eq_self)

lemma pos_less: "k + 1 < 2 ^ 64 \<Longrightarrow> (of_nat k :: u64) + 1 < n \<longleftrightarrow> k + 1 < unat n"
  using unat_small [of "k + 1"] by (simp add: word_less_nat_alt add.commute)

lemma offset_eq: "k < 2 ^ 64 \<Longrightarrow> x = out + of_nat k \<longleftrightarrow> unat (x - out :: u64) = k"
  by (metis add_diff_cancel_left' diff_add_cancel add.commute unat_small word_unat_eq_iff)

lemma emit_eq:
  assumes "length bs + 1 < 2 ^ 64"
  shows "emit out n c (of_nat (length bs)) (written m out n bs) =
    (Inr (of_nat (length (bs @ [c]))), written m out n (bs @ [c]))"
proof -
  have "written m out n (bs @ [c]) = (if length bs + 1 < unat n
      then (written m out n bs)(out + of_nat (length bs) := c) else written m out n bs)"
    using offset_eq [of "length bs" _ out] assms
    by (auto simp: written_def fun_eq_iff nth_append less_Suc_eq)
  then show ?thesis
    using pos_less [OF assms, of n] by (simp add: emit_def kthen_def kbind_def kwhen_def kput_def kreturn_def add.commute)
qed


text \<open>\<open>f\<close> started at some position appends the characters \<open>bs\<close> to those printed before.\<close>

definition prints :: "bmem \<Rightarrow> u64 \<Rightarrow> u64 \<Rightarrow> (u64 \<Rightarrow> (bmem, u64) km) \<Rightarrow> u8 list \<Rightarrow> bool" where
  "prints m out n f bs \<longleftrightarrow> (\<forall>pre. length pre + length bs + 1 < 2 ^ 64 \<longrightarrow>
     f (of_nat (length pre)) (written m out n pre) = (Inr (of_nat (length (pre @ bs))), written m out n (pre @ bs)))"

lemma printsD:
  "prints m out n f bs \<Longrightarrow> length pre + length bs + 1 < 2 ^ 64 \<Longrightarrow>
   f (of_nat (length pre)) (written m out n pre) = (Inr (of_nat (length pre + length bs)), written m out n (pre @ bs))"
  by (simp add: prints_def)

lemma prints_emit: "prints m out n (emit out n c) [c]"
  unfolding prints_def using emit_eq by simp

lemma prints_return: "prints m out n kreturn []"
  by (simp add: prints_def kreturn_def)

lemma prints_bind:
  assumes "prints m out n f bs" "prints m out n g cs"
  shows "prints m out n (\<lambda>pos. kbind (f pos) g) (bs @ cs)"
  unfolding prints_def
proof (intro allI impI)
  fix pre :: "u8 list"
  assume len: "length pre + length (bs @ cs) + 1 < 2 ^ 64"
  have "f (of_nat (length pre)) (written m out n pre) = (Inr (of_nat (length (pre @ bs))), written m out n (pre @ bs))"
    using assms(1) len by (simp add: prints_def)
  moreover have "g (of_nat (length (pre @ bs))) (written m out n (pre @ bs)) =
      (Inr (of_nat (length ((pre @ bs) @ cs))), written m out n ((pre @ bs) @ cs))"
    using assms(2) [unfolded prints_def, rule_format, of "pre @ bs"] len by simp
  ultimately show "kbind (f (of_nat (length pre))) g (written m out n pre) =
      (Inr (of_nat (length (pre @ bs @ cs))), written m out n (pre @ bs @ cs))"
    by (simp add: kbind_def)
qed

lemma nibble: "drop_bit (4 * i) (num :: int) AND 15 = num div 16 ^ i mod 16"
proof -
  have "(15 :: int) = mask 4" by (simp add: mask_eq_exp_minus_1)
  then have "drop_bit (4 * i) num AND 15 = take_bit 4 (drop_bit (4 * i) num)" by (metis take_bit_eq_mask)
  then show ?thesis by (simp add: take_bit_eq_mod drop_bit_eq_div power_mult)
qed

lemma prints_hex: "prints m out n (print_hex out n num k) (hexadecimal k num)"
proof (induction k)
  case 0
  then show ?case by (simp add: hexadecimal_def prints_def kreturn_def)
next
  case (Suc k)
  have eq: "hexadecimal (Suc k) num = [hex_digit (num div 16 ^ k mod 16)] @ hexadecimal k num"
    by (simp add: hexadecimal_def)
  have "print_hex out n num (Suc k) =
      (\<lambda>pos. kbind (emit out n (hex_digit (num div 16 ^ k mod 16)) pos) (print_hex out n num k))"
    by (simp add: nibble fun_eq_iff)
  then show ?case unfolding eq using prints_bind [OF prints_emit Suc] by (simp only:)
qed

text \<open>The lowest \<open>k\<close> decimal digits.\<close>

primrec digits :: "nat \<Rightarrow> nat \<Rightarrow> u8 list" where
  "digits 0 num = []"
| "digits (Suc k) num = digits k (num div 10) @ [48 + of_nat (num mod 10)]"

lemma length_digits [simp]: "length (digits k num) = k"
  by (induction k arbitrary: num) simp_all

lemma digits_decimal: "digits (digit_count num) num = decimal num"
proof (induction num rule: digit_count.induct)
  case (1 num)
  then show ?case by (subst digit_count.simps, subst decimal.simps) (auto simp: div_eq_0_iff)
qed

lemma print_digits_eq:
  assumes "p + k < 2 ^ 64"
  shows "print_digits out n (of_nat p) num k m = (Inr (), \<lambda>x. let j = unat (x - out) in
    if p \<le> j \<and> j < p + k \<and> j + 1 < unat n then digits k num ! (j - p) else m x)"
  using assms
proof (induction k arbitrary: num m)
  case 0
  then show ?case by (auto simp: kreturn_def Let_def fun_eq_iff)
next
  case (Suc k)
  let ?m = "if p + k + 1 < unat n then m(out + of_nat (p + k) := 48 + of_nat (num mod 10)) else m"
  have "print_digits out n (of_nat p) num (Suc k) m = print_digits out n (of_nat p) (num div 10) k ?m"
    using pos_less [of "p + k" n] Suc.prems
    by (simp add: kthen_def kbind_def kwhen_def kput_def kreturn_def add.assoc)
  moreover have "(let j = unat (x - out) in
      if p \<le> j \<and> j < p + k \<and> j + 1 < unat n then digits k (num div 10) ! (j - p) else ?m x) =
    (let j = unat (x - out) in
      if p \<le> j \<and> j < p + Suc k \<and> j + 1 < unat n then digits (Suc k) num ! (j - p) else m x)" for x
  proof -
    have "x = out + of_nat (p + k) \<longleftrightarrow> unat (x - out) = p + k"
      using Suc.prems by (intro offset_eq) simp
    then have "?m x = (if unat (x - out) = p + k \<and> unat (x - out) + 1 < unat n then 48 + of_nat (num mod 10) else m x)"
      by (simp del: of_nat_add)
    then show ?thesis unfolding Let_def
      by (cases "unat (x - out) = p + k") (auto simp: nth_append)
  qed
  ultimately show ?case
    using Suc.IH [of "num div 10" ?m] Suc.prems by (simp add: fun_eq_iff)
qed

lemma prints_decimal:
  "prints m out n (\<lambda>pos. kthen (print_digits out n pos num (digit_count num)) (kreturn (pos + of_nat (digit_count num))))
     (decimal num)"
  unfolding prints_def
proof (intro allI impI)
  fix pre :: "u8 list"
  let ?k = "digit_count num"
  have dig: "decimal num = digits ?k num" by (simp add: digits_decimal)
  assume "length pre + length (decimal num) + 1 < 2 ^ 64"
  then have "length pre + ?k < 2 ^ 64" by (simp add: dig)
  note run = print_digits_eq [OF this, of out n num "written m out n pre"]
  have "(\<lambda>x. let j = unat (x - out) in if length pre \<le> j \<and> j < length pre + ?k \<and> j + 1 < unat n
      then digits ?k num ! (j - length pre) else written m out n pre x) = written m out n (pre @ decimal num)"
    by (auto simp: written_def Let_def fun_eq_iff nth_append dig)
  then show "kthen (print_digits out n (of_nat (length pre)) num ?k) (kreturn (of_nat (length pre) + of_nat ?k))
      (written m out n pre) = (Inr (of_nat (length (pre @ decimal num))), written m out n (pre @ decimal num))"
    using run by (simp add: kthen_def kbind_def kreturn_def dig)
qed

lemma prints_dec:
  assumes "num \<noteq> - (2 ^ 63)"
  shows "prints m out n (print_dec out n num) ((if num < 0 then [45] else []) @ decimal (nat \<bar>num\<bar>))"
proof (cases "num < 0")
  case True
  have "print_dec out n num = (\<lambda>pos. kbind (emit out n 45 pos) (\<lambda>pos.
      kthen (print_digits out n pos (nat (- num)) (digit_count (nat (- num))))
        (kreturn (pos + of_nat (digit_count (nat (- num)))))))"
    using True assms by (intro ext) (simp add: print_dec_def kbind_def kreturn_def Let_def split: prod.splits sum.splits)
  then show ?thesis using prints_bind [OF prints_emit prints_decimal] True by simp
next
  case False
  then have "print_dec out n num = (\<lambda>pos. kthen (print_digits out n pos (nat num) (digit_count (nat num)))
        (kreturn (pos + of_nat (digit_count (nat num)))))"
    by (simp add: print_dec_def fun_eq_iff kbind_def kreturn_def Let_def)
  then show ?thesis using prints_decimal False by simp
qed

text \<open>The buffer does not overlap the string of length \<open>k\<close> at \<open>a\<close>.\<close>

definition apart :: "u64 \<Rightarrow> u64 \<Rightarrow> u64 \<Rightarrow> nat \<Rightarrow> bool" where
  "apart out n a k \<longleftrightarrow> (\<forall>x\<in>span a k. unat n \<le> unat (x - out))"

lemma written_apart: "apart out n a k \<Longrightarrow> x \<in> span a k \<Longrightarrow> written m out n bs x = m x"
  by (auto simp: apart_def written_def)

lemma apart_first: "apart out n a k \<Longrightarrow> written m out n bs a = m a"
  by (cases k) (auto intro: written_apart)

lemma apart_Suc: "apart out n a (Suc k) \<Longrightarrow> apart out n (a + 1) k"
  by (simp add: apart_def)

lemma print_loop_eq:
  assumes "cstring m a xs" "apart out n a (length xs)" "length xs \<le> k" "length pre + length xs + 1 < 2 ^ 64"
  shows "\<exists>b. kwhile k (\<lambda>(s2, c, pos). c \<noteq> 0) (\<lambda>(s2, c, pos).
         kbind (emit out n c pos) (\<lambda>pos. kbind (kget (\<lambda>m. m (s2 + 1))) (\<lambda>c. kreturn (s2 + 1, c, pos))))
       (a, m a, of_nat (length pre)) (written m out n pre) =
     (Inr (b, 0, of_nat (length (pre @ xs))), written m out n (pre @ xs))"
  using assms
proof (induction xs arbitrary: a k pre)
  case Nil
  then show ?case by (cases k) (simp_all add: kreturn_def)
next
  case (Cons x xs)
  then obtain j where k: "k = Suc j" by (cases k) auto
  have e: "emit out n x (of_nat (length pre)) (written m out n pre) =
      (Inr (of_nat (length (pre @ [x]))), written m out n (pre @ [x]))"
    using Cons.prems by (intro emit_eq) simp
  have "written m out n (pre @ [x]) (a + 1) = m (a + 1)"
    using Cons.prems(2) by (intro apart_first [OF apart_Suc]) simp
  moreover have "apart out n (a + 1) (length xs)" using Cons.prems(2) by (simp add: apart_Suc)
  ultimately show ?case
    using Cons.IH [of "a + 1" j "pre @ [x]"] Cons.prems e
    by (simp add: k kbind_def kget_def kreturn_def)
qed

lemma prints_str:
  assumes "cstring m a xs" "apart out n a (length xs)"
  shows "prints m out n (print_str out n a) xs"
  unfolding prints_def
proof (intro allI impI)
  fix pre :: "u8 list"
  assume len: "length pre + length xs + 1 < 2 ^ 64"
  have "length xs \<le> string_bound" using cstring_fits [OF assms(1)] by (simp add: string_bound_def)
  from print_loop_eq [OF assms this len] show "print_str out n a (of_nat (length pre)) (written m out n pre) =
      (Inr (of_nat (length (pre @ xs))), written m out n (pre @ xs))"
    using apart_first [OF assms(2), of m pre] by (auto simp: print_str_def kbind_def kget_def kreturn_def)
qed

text \<open>The strings that \<^verbatim>\<open>%s\<close> may print.\<close>

definition strings_at :: "bmem \<Rightarrow> u64 \<Rightarrow> u64 \<Rightarrow> (u64 \<rightharpoonup> u8 list) \<Rightarrow> bool" where
  "strings_at m out n str \<longleftrightarrow> (\<forall>a xs. str a = Some xs \<longrightarrow> cstring m a xs \<and> apart out n a (length xs))"

definition is_conv :: "u8 \<Rightarrow> bool" where
  "is_conv c \<longleftrightarrow> c \<in> {of_char (CHR ''p''), of_char (CHR ''x''), of_char (CHR ''d''), of_char (CHR ''s''), of_char (CHR ''c'')}"

lemma low_byte: "scast (ucast (a :: u64) :: i32) = (ucast a :: u8)"
  by (rule bit_word_eqI) (auto simp: bit_simps)

lemma vs_step_conv:
  assumes conv: "conversion str c l a = Some bs" "is_conv c" and str: "strings_at m out n str"
    and len: "length pre + length bs + 1 < 2 ^ 64" and room: "c \<noteq> 99 \<or> length pre + 1 < unat n"
  shows "vs_step out n c True l (of_nat (length pre)) (a # vl) (written m out n pre) =
    (Inr (False, False, of_nat (length (pre @ bs)), vl), written m out n (pre @ bs))"
proof -
  let ?p = "of_nat (length pre) :: u64" and ?m = "written m out n pre"
  consider "c = 112" | "c = 120" | "c = 100" | "c = 115" | "c = 99"
    using conv(2) by (auto simp: is_conv_def)
  then show ?thesis
  proof cases
    case 1
    then have bs: "bs = [48] @ [120] @ hexadecimal 16 (sint a)" using conv(1) by (simp add: conversion_def)
    have "prints m out n (\<lambda>pos. kbind (emit out n 48 pos) (\<lambda>pos. kbind (emit out n 120 pos) (print_hex out n (sint a) 16))) bs"
      unfolding bs by (intro prints_bind prints_emit prints_hex)
    from printsD [OF this len] show ?thesis
      using 1 by (auto simp: vs_step_def va_arg_def kbind_def kreturn_def split: prod.splits sum.splits)
  next
    case 2
    then have "bs = hexadecimal (2 * (if l then 8 else 4)) (if l then sint a else sint (ucast a :: i32))"
      using conv(1) by (auto simp: conversion_def)
    with printsD [OF prints_hex, of pre] len show ?thesis
      using 2 by (simp add: vs_step_def va_arg_def kbind_def kreturn_def)
  next
    case 3
    let ?num = "if l then sint a else sint (ucast a :: i32)"
    have "?num \<noteq> - (2 ^ 63)" and bs: "bs = (if ?num < 0 then [45] else []) @ decimal (nat \<bar>?num\<bar>)"
      using conv(1) 3 by (simp_all add: conversion_def Let_def split: if_splits)
    from printsD [OF prints_dec [OF this(1)], of pre] len have
      "print_dec out n ?num ?p ?m = (Inr (of_nat (length pre + length bs)), written m out n (pre @ bs))"
      unfolding bs by blast
    then show ?thesis
      using 3 by (simp add: vs_step_def va_arg_def kbind_def kreturn_def)
  next
    case 4
    then have "str a = Some bs" using conv(1) by (simp add: conversion_def)
    with str have "prints m out n (print_str out n a) bs" by (auto simp: strings_at_def intro: prints_str)
    from printsD [OF this len] show ?thesis
      using 4 by (simp add: vs_step_def va_arg_def kbind_def kreturn_def)
  next
    case 5
    then have bs: "bs = [ucast a]" using conv(1) by (simp add: conversion_def)
    then have "of_nat (length pre) + 1 < n" using room 5 len by (subst pos_less) auto
    moreover have "emit out n (ucast a) ?p ?m = (Inr (of_nat (length (pre @ bs))), written m out n (pre @ bs))"
      unfolding bs using len bs by (intro emit_eq) simp
    ultimately show ?thesis
      using 5 by (simp add: vs_step_def va_arg_def kbind_def kreturn_def low_byte)
  qed
qed

lemma vs_loop_eq:
  assumes "cstring m s cs" "apart out n s (length cs)" "strings_at m out n str" "length cs < k"
    and "render str cs f l vl = Some bs" "length pre + length bs + 1 < 2 ^ 64"
    and "99 \<notin> set cs \<or> length pre + length bs < unat n"
  shows "vs_loop k out n s (f, l, of_nat (length pre), vl) (written m out n pre) =
    (Inr (of_nat (length pre + length bs)), written m out n (pre @ bs))"
  using assms
proof (induction cs arbitrary: s k f l vl bs pre)
  case Nil
  then obtain j where "k = Suc j" by (cases k) auto
  then show ?case
    using Nil apart_first [of out n s 0 m pre] by (simp add: kbind_def kget_def kreturn_def)
next
  case (Cons c cs)
  then obtain j where k: "k = Suc j" "length cs < j" by (cases k) auto
  have c: "written m out n pre s = c" "c \<noteq> 0" "cstring m (s + 1) cs" "apart out n (s + 1) (length cs)"
    using Cons.prems(1,2) apart_first [of out n s "length (c # cs)" m pre] by (auto intro: apart_Suc)
  note IH = Cons.IH [OF c(3,4) Cons.prems(3) k(2)]
  have step: ?case if "vs_step out n c f l (of_nat (length pre)) vl (written m out n pre) =
      (Inr (f', l', of_nat (length (pre @ b1)), vl'), written m out n (pre @ b1))"
    "render str cs f' l' vl' = Some b2" "bs = b1 @ b2" for f' l' vl' b1 b2
    using that IH [of f' l' vl' b2 "pre @ b1"] Cons.prems(6,7) c(1,2)
    by (auto simp: k(1) kbind_def kget_def add.assoc)
  consider "\<not> f" "c = 37" | "\<not> f" "c \<noteq> 37" | "f" "c = 108" | "f" "is_conv c" | "f" "\<not> is_conv c" "c \<noteq> 108"
    by blast
  then show ?case
  proof cases
    case 1
    then show ?thesis
      using Cons.prems(5) by (intro step [of True l "[]" vl bs]) (simp_all add: vs_step_def kreturn_def)
  next
    case 2
    then obtain b2 where b2: "bs = [c] @ b2" "render str cs False l vl = Some b2" using Cons.prems(5) by auto
    then show ?thesis
      using 2 emit_eq [of pre out n c m] Cons.prems(6)
      by (intro step [of False l "[c]" vl b2]) (simp_all add: vs_step_def kbind_def kreturn_def)
  next
    case 3
    then show ?thesis
      using Cons.prems(5) by (intro step [of True True "[]" vl bs]) (simp_all add: vs_step_def kreturn_def)
  next
    case 4
    then have "c \<noteq> 108" by (auto simp: is_conv_def)
    with 4 Cons.prems(5) obtain a vl' b1 b2 where b: "vl = a # vl'" "conversion str c l a = Some b1"
        "render str cs False False vl' = Some b2" "bs = b1 @ b2"
      by (auto simp: is_conv_def bind_eq_Some_conv split: list.splits)
    have "c \<noteq> 99 \<or> length pre + 1 < unat n" using Cons.prems(7) b(2,4) by (auto simp: conversion_def)
    then have "vs_step out n c True l (of_nat (length pre)) (a # vl') (written m out n pre) =
        (Inr (False, False, of_nat (length (pre @ b1)), vl'), written m out n (pre @ b1))"
      using Cons.prems(3,6) b(4) by (intro vs_step_conv [OF b(2) 4(2)]) simp_all
    with 4 b show ?thesis by (intro step [of False False b1 vl' b2]) simp_all
  next
    case 5
    then show ?thesis
      using Cons.prems(5) by (intro step [of True l "[]" vl bs]) (auto simp: vs_step_def kreturn_def is_conv_def)
  qed
qed

text \<open>The buffer of \<open>n\<close> bytes after the text \<open>bs\<close> has been printed into it.\<close>

definition printed :: "bmem \<Rightarrow> u64 \<Rightarrow> u64 \<Rightarrow> u8 list \<Rightarrow> bmem" where
  "printed m out n bs = (\<lambda>x. let j = unat (x - out); k = min (length bs) (unat n - 1) in
     if n = 0 then m x else if j < k then bs ! j else if j = k then 0 else m x)"

lemma vsnprintf_eq:
  assumes "cstring m s cs" "apart out n s (length cs)" "strings_at m out n str"
    and "render str cs False False vl = Some bs" "length bs < 2 ^ 31" "99 \<notin> set cs \<or> length bs < unat n"
  shows "vsnprintf out n s vl m = (Inr (int (length bs)), printed m out n bs)"
proof -
  have "length cs < string_bound" using cstring_fits [OF assms(1)] by (simp add: string_bound_def)
  from vs_loop_eq [OF assms(1-3) this assms(4), of "[]"] assms(5,6)
  have loop: "vs_loop string_bound out n s (False, False, 0, vl) m = (Inr (of_nat (length bs)), written m out n bs)"
    by simp
  have ret: "sint (ucast (of_nat (length bs) :: u64) :: i32) = int (length bs)"
    using assms(5) by (simp add: signed_of_nat unsigned_of_nat signed_take_bit_int_eq_self take_bit_nat_eq_self)
  have less: "of_nat (length bs) < n \<longleftrightarrow> length bs < unat n"
    using assms(5) unat_small [of "length bs"] by (simp add: word_less_nat_alt)
  show ?thesis
  proof (cases "length bs < unat n")
    case True
    then have "(written m out n bs)(out + of_nat (length bs) := 0) = printed m out n bs"
      using offset_eq [of "length bs" _ out] assms(5)
      by (auto simp: printed_def written_def fun_eq_iff Let_def)
    then show ?thesis
      using True by (simp add: vsnprintf_def kbind_def kthen_def kput_def kreturn_def loop less ret)
  next
    case False
    have "(written m out n bs)(out + (n - 1) := 0) = printed m out n bs" if "n \<noteq> 0"
    proof -
      have "unat (n - 1) = unat n - 1" "0 < unat n" using that by (simp_all add: unat_minus_one unat_gt_0)
      then have "x = out + (n - 1) \<longleftrightarrow> unat (x - out) = unat n - 1" for x
        using offset_eq [of "unat (n - 1)" x out] unat_bound64 [of "n - 1"] by simp
      then have "((written m out n bs)(out + (n - 1) := 0)) x = printed m out n bs x" for x
        using that False \<open>0 < unat n\<close>
        by (cases "unat (x - out) = unat n - 1") (simp_all add: printed_def written_def Let_def min_absorb2, linarith)
      then show ?thesis by (rule ext)
    qed
    moreover have "n = 0 \<Longrightarrow> written m out n bs = printed m out n bs"
      by (simp add: written_def printed_def)
    ultimately show ?thesis
      using False by (auto simp: vsnprintf_def kbind_def kthen_def kwhen_def kput_def kreturn_def loop less ret)
  qed
qed

section \<open>Reading a printed number back\<close>

lemma decimal_chars: "c \<in> set (decimal k) \<Longrightarrow> 48 \<le> c \<and> c \<le> 57"
proof (induction k rule: decimal.induct)
  case (1 k)
  have "48 \<le> (48 + of_nat d :: u8) \<and> (48 + of_nat d :: u8) \<le> 57" if "d < 10" for d :: nat
    using that by (simp add: word_le_nat_alt unat_word_ariths unat_of_nat take_bit_nat_eq_self)
  then show ?case using 1 by (subst (asm) (2) decimal.simps) (auto split: if_splits)
qed

lemma length_decimal: "k < 10 ^ Suc j \<Longrightarrow> length (decimal k) \<le> Suc j"
proof (induction j arbitrary: k)
  case 0
  then show ?case by (subst decimal.simps) simp
next
  case (Suc j)
  then have "k div 10 < 10 ^ Suc j" by (simp add: less_mult_imp_div_less)
  then show ?case using Suc.IH [of "k div 10"] by (subst decimal.simps) simp
qed

lemma decimal_value: "foldl (\<lambda>r c. r * 10 + (ucast c - 48)) 0 (decimal k) = (of_nat k :: u64)"
proof (induction k rule: decimal.induct)
  case (1 k)
  have digit: "ucast (48 + of_nat d :: u8) - 48 = (of_nat d :: u64)" if "d < 10" for d :: nat
  proof -
    have "unat (48 + of_nat d :: u8) = 48 + d"
      using that by (simp add: unat_word_ariths unat_of_nat take_bit_nat_eq_self)
    then have "ucast (48 + of_nat d :: u8) = (of_nat (48 + d) :: u64)" by (metis of_nat_unat)
    then show ?thesis by simp
  qed
  show ?case
  proof (cases "k < 10")
    case True
    then show ?thesis using digit [of k] by (subst decimal.simps) simp
  next
    case False
    have "of_nat (k div 10) * 10 + of_nat (k mod 10) = (of_nat k :: u64)"
      by (metis div_mult_mod_eq of_nat_add of_nat_mult of_nat_numeral)
    then show ?thesis using False 1 digit [of "k mod 10"] by (subst decimal.simps) simp
  qed
qed

lemma atol_loop_eq:
  assumes "cstring m a xs" "length xs \<le> k"
  shows "\<exists>b. kwhile k (\<lambda>(p, res). m p \<noteq> 0) (\<lambda>(p, res). kreturn (p + 1, res * 10 + (ucast (m p) - 48))) (a, res) m =
    (Inr (b, foldl (\<lambda>r c. r * 10 + (ucast c - 48)) (res :: u64) xs), m)"
  using assms
proof (induction xs arbitrary: a res k)
  case Nil
  then show ?case by (cases k) (simp_all add: kreturn_def)
next
  case (Cons x xs)
  then obtain j where "k = Suc j" "length xs \<le> j" by (cases k) auto
  then show ?case
    using Cons.IH [of "a + 1" j "res * 10 + (ucast x - 48)"] Cons.prems by (simp add: kbind_def kreturn_def)
qed

lemma atol_decimal:
  assumes "cstring m a ((if neg then [45] else []) @ decimal k)"
  shows "atol a m = (Inr (if neg then - of_nat k else of_nat k), m)"
proof -
  let ?a = "if neg then a + 1 else a"
  have digits: "cstring m ?a (decimal k)" using assms by auto
  then have "length (decimal k) \<le> string_bound" using cstring_fits [OF digits] by (simp add: string_bound_def)
  from atol_loop_eq [OF digits this, of 0] obtain b where
    run: "kwhile string_bound (\<lambda>(p, res). m p \<noteq> 0) (\<lambda>(p, res). kreturn (p + 1, res * 10 + (ucast (m p) - 48)))
      (?a, 0) m = (Inr (b, of_nat k :: u64), m)" unfolding decimal_value by blast
  obtain c cs where "decimal k = c # cs" "48 \<le> c"
    using decimal_chars [of _ k] by (cases "decimal k") (auto simp: decimal.simps [of k] split: if_splits)
  then have m: "48 \<le> m ?a" "neg \<Longrightarrow> m a = 45" using digits assms by auto
  then have "m a \<noteq> 32" "m ?a \<noteq> 45" "m ?a \<noteq> 43" by (auto split: if_splits)
  moreover have "kwhile i (\<lambda>p. m p = 32) (\<lambda>p. kreturn (p + 1)) a m = (Inr a, m)" if "m a \<noteq> 32" for i
    using that by (cases i) (simp_all add: kreturn_def)
  ultimately have skip: "kwhile string_bound (\<lambda>p. m p = 32) (\<lambda>p. kreturn (p + 1)) a m = (Inr a, m)"
    by blast
  show ?thesis
    using run skip m \<open>m ?a \<noteq> 45\<close> \<open>m ?a \<noteq> 43\<close>
    by (auto simp: atol_def kbind_def kget_def kreturn_def Let_def split: if_splits)
qed

lemma cstring_nth:
  assumes "\<And>j. j < length xs \<Longrightarrow> m (a + of_nat j) = xs ! j \<and> xs ! j \<noteq> 0" "m (a + of_nat (length xs)) = 0"
    "unat a + length xs < 2 ^ 64"
  shows "cstring m a xs"
  using assms
proof (induction xs arbitrary: a)
  case (Cons x xs)
  have "unat (a + 1) = unat a + 1" using Cons.prems(3) by (simp add: unat_word_ariths)
  moreover have "m (a + 1 + of_nat j) = xs ! j \<and> xs ! j \<noteq> 0" if "j < length xs" for j
    using Cons.prems(1) [of "Suc j"] that by (simp add: add.assoc)
  ultimately show ?case
    using Cons.IH [of "a + 1"] Cons.prems Cons.prems(1) [of 0] by (auto simp: ac_simps)
qed simp

lemma cstring_printed:
  assumes "length bs < unat n" "unat out + unat n < 2 ^ 64" "0 \<notin> set bs"
  shows "cstring (printed m out n bs) out bs"
proof (rule cstring_nth)
  have "unat (of_nat j :: u64) = j" if "j \<le> length bs" for j
    using that assms unat_small [of j] by simp
  then show "printed m out n bs (out + of_nat (length bs)) = 0"
    "j < length bs \<Longrightarrow> printed m out n bs (out + of_nat j) = bs ! j \<and> bs ! j \<noteq> 0" for j
    using assms(1,3) by (auto simp: printed_def Let_def) (metis nth_mem)
qed (use assms in simp)

section \<open>Properties\<close>

text \<open>
  C15. \<^verbatim>\<open>vsnprintf\<close> agrees with the reference rendering of its format: when the format and the strings its
  \<^verbatim>\<open>%s\<close> arguments point to do not overlap the buffer, and the rendering \<open>bs\<close> exists (every conversion has an
  argument and none prints the smallest \<^verbatim>\<open>long\<close>), then the function returns the length of the whole text,
  the buffer holds its first \<open>n - 1\<close> characters and a NUL byte behind the last of them, and no other byte
  changes, whatever \<open>n\<close> is (with \<open>n = 0\<close> nothing is written).  A format with \<^verbatim>\<open>%c\<close> is only covered when the text
  fits, because its argument is skipped past the end of the buffer.\<close>

theorem vsnprintf_render:
  assumes "cstring m s cs" "apart out n s (length cs)" "strings_at m out n str"
    and "render str cs False False vl = Some bs" "length bs < 2 ^ 31" "99 \<notin> set cs \<or> length bs < unat n"
  shows "vsnprintf out n s vl m = (Inr (int (length bs)), printed m out n bs)"
  using vsnprintf_eq [OF assms] .

text \<open>The format \<^verbatim>\<open>%s=%d\<close> at 100 and the string \<^verbatim>\<open>ab\<close> at 200.\<close>

definition demo_format :: bmem where
  "demo_format = (\<lambda>_. 0)(100 := 37, 101 := 115, 102 := 61, 103 := 37, 104 := 100, 200 := 97, 201 := 98)"

theorem vsnprintf_render_witness:
  "vsnprintf 300 5 100 [200, -42] demo_format = (Inr 6, printed demo_format 300 5 [97, 98, 61, 45, 52, 50])"
proof -
  have r: "render [200 \<mapsto> [97, 98]] [37, 115, 61, 37, 100] False False [200, -42] = Some [97, 98, 61, 45, 52, 50]"
    by (simp add: conversion_def decimal.simps)
  show ?thesis
    using vsnprintf_render [of demo_format 100 "[37, 115, 61, 37, 100]" 300 5 "[200 \<mapsto> [97, 98]]", OF _ _ _ r]
    by (simp add: demo_format_def apart_def strings_at_def)
qed

text \<open>
  C16. Printing and reading numbers are inverse: a \<^verbatim>\<open>long\<close> printed with \<^verbatim>\<open>%ld\<close> into a buffer of at least 21
  bytes is read back by \<^verbatim>\<open>atol\<close>, for every value but the smallest one, whose negation overflows.\<close>

theorem vsnprintf_atol_roundtrip:
  assumes "cstring m s [37, 108, 100]" "apart out n s 3" "21 \<le> unat n" "unat out + unat n < 2 ^ 64"
    and "sint v \<noteq> - (2 ^ 63)"
  shows "\<exists>len t. vsnprintf out n s [v] m = (Inr len, t) \<and> atol out t = (Inr v, t)"
proof -
  let ?k = "nat \<bar>sint v\<bar>" and ?neg = "sint v < 0"
  let ?bs = "(if ?neg then [45] else []) @ decimal ?k"
  have "\<bar>sint v\<bar> \<le> 2 ^ 63" using sint_greater_eq [of v] sint_less [of v] by simp
  then have "length (decimal ?k) \<le> Suc 18" by (intro length_decimal) simp
  then have len: "length ?bs < unat n" "length ?bs < 2 ^ 31" using assms(3) by auto
  have "render Map.empty [37, 108, 100] False False [v] = Some ?bs"
    using assms(5) by (simp add: conversion_def)
  then have run: "vsnprintf out n s [v] m = (Inr (int (length ?bs)), printed m out n ?bs)"
    using assms(1,2) len by (intro vsnprintf_eq [where cs = "[37, 108, 100]" and str = Map.empty])
      (simp_all add: strings_at_def numeral_3_eq_3)
  have "0 \<notin> set ?bs" using decimal_chars [of 0 ?k] by auto
  then have "cstring (printed m out n ?bs) out ?bs" using len assms(4) by (intro cstring_printed) auto
  from atol_decimal [OF this] have "atol out (printed m out n ?bs) =
      (Inr (if ?neg then - of_nat ?k else of_nat ?k), printed m out n ?bs)" .
  moreover have "(if ?neg then - of_nat ?k else of_nat ?k) = v"
  proof -
    have "of_nat (nat \<bar>sint v\<bar>) = (word_of_int \<bar>sint v\<bar> :: u64)" by (simp add: of_nat_nat)
    then show ?thesis by (auto simp: abs_if wi_hom_neg [symmetric])
  qed
  ultimately show ?thesis by - (intro exI conjI, rule run, simp only:)
qed

theorem vsnprintf_atol_roundtrip_witness:
  "\<exists>len t. vsnprintf 300 64 100 [-1234567890123] ((\<lambda>_. 0)(100 := 37, 101 := 108, 102 := 100)) = (Inr len, t) \<and>
     atol 300 t = (Inr (-1234567890123), t)"
  using vsnprintf_atol_roundtrip [of "(\<lambda>_. 0)(100 := 37, 101 := 108, 102 := 100)" 100 300 64 "-1234567890123"]
  by (simp add: apart_def numeral_3_eq_3)

end
