(* ===== verification/Fdt.thy ===== *)
theory Fdt
  imports Strings "HOL-Library.Signed_Division"
begin

unbundle bit_operations_syntax

text \<open>
  The scan of the flattened device tree at boot: \<^verbatim>\<open>spike_interface/dts_parse.c\<close>, and its two clients
  \<^verbatim>\<open>spike_interface/spike_memory.c\<close> (the size of the memory) and the discovery part of
  \<^verbatim>\<open>spike_interface/spike_htif.c\<close>.

  The scanner works on the blob as bytes and calls functions of its client; the state is the blob together
  with the data of the client.  A local structure \<^verbatim>\<open>child\<close> whose address is passed on is passed and returned by
  value.  The recursion is bounded by the size of the address space; \<open>forest_at\<close> relates a blob to the trees it
  encodes, and the locale \<open>fdt_client\<close> states what a client promises (it only reads the blob and deletes no
  node), from which the scan is the plain traversal of the trees and terminates.  \<open>mem_nodes\<close>, \<open>reg_stop\<close> and \<open>node_ranges\<close> are the
  reference for the memory scan.
\<close>

section \<open>Words of the blob\<close>

definition ld32 :: "bmem \<Rightarrow> u64 \<Rightarrow> u32" where
  "ld32 m a = ucast (m a) OR push_bit 8 (ucast (m (a + 1))) OR push_bit 16 (ucast (m (a + 2))) OR
     push_bit 24 (ucast (m (a + 3)))"

definition st32 :: "u64 \<Rightarrow> u32 \<Rightarrow> bmem \<Rightarrow> bmem" where
  "st32 a w m = m(a := ucast w, a + 1 := ucast (drop_bit 8 w), a + 2 := ucast (drop_bit 16 w),
     a + 3 := ucast (drop_bit 24 w))"

definition bswap :: "u32 \<Rightarrow> u32" where
  "bswap x = (let y = push_bit 8 (x AND 0x00FF00FF) OR drop_bit 8 (x AND 0xFF00FF00) in
     push_bit 16 (y AND 0x0000FFFF) OR drop_bit 16 (y AND 0xFFFF0000))"

definition FDT_MAGIC :: u32 where "FDT_MAGIC = 0xd00dfeed"
definition FDT_VERSION :: u32 where "FDT_VERSION = 17"
definition FDT_BEGIN_NODE :: u32 where "FDT_BEGIN_NODE = 1"
definition FDT_END_NODE :: u32 where "FDT_END_NODE = 2"
definition FDT_PROP :: u32 where "FDT_PROP = 3"
definition FDT_NOP :: u32 where "FDT_NOP = 4"
definition FDT_END :: u32 where "FDT_END = 9"

lemmas FDT_defs = FDT_BEGIN_NODE_def FDT_END_NODE_def FDT_PROP_def FDT_NOP_def

section \<open>Scanning\<close>

text \<open>A node; the pointer to its parent is the parent itself.\<close>

datatype fdt_scan_node = Fdt_Scan_Node
  (nd_parent: "fdt_scan_node option") (nd_name: u64) (address_cells: int) (size_cells: int)

record fdt_scan_prop =
  pr_node :: "fdt_scan_node option"
  pr_name :: u64
  pr_value :: u64
  pr_len :: int

text \<open>The callbacks work on the blob and on the data of the client.\<close>

record 'e fdt_cb =
  cb_open :: "(fdt_scan_node \<Rightarrow> (bmem \<times> 'e, unit) km) option"
  cb_prop :: "fdt_scan_prop \<Rightarrow> (bmem \<times> 'e, unit) km"
  cb_done :: "(fdt_scan_node \<Rightarrow> (bmem \<times> 'e, unit) km) option"
  cb_close :: "(fdt_scan_node \<Rightarrow> (bmem \<times> 'e, int) km) option"

definition on_blob :: "(bmem, 'a) km \<Rightarrow> (bmem \<times> 'e, 'a) km" where
  "on_blob f = (\<lambda>(m, e). case f m of (r, m') \<Rightarrow> (r, (m', e)))"

text \<open>\<^verbatim>\<open>!strcmp(a, lit)\<close> for a string literal.\<close>

definition str_is :: "bmem \<Rightarrow> u64 \<Rightarrow> string \<Rightarrow> bool" where
  "str_is m a lit = cstring m a (map of_char lit)"

definition call_done :: "'e fdt_cb \<Rightarrow> bool \<Rightarrow> fdt_scan_node option \<Rightarrow> (bmem \<times> 'e, unit) km" where
  "call_done cb seen node = (case (node, cb_done cb) of
     (Some n, Some f) \<Rightarrow> kwhen (\<not> seen) (f n) | _ \<Rightarrow> kreturn ())"

definition call_open :: "'e fdt_cb \<Rightarrow> fdt_scan_node \<Rightarrow> (bmem \<times> 'e, unit) km" where
  "call_open cb child = (case cb_open cb of None \<Rightarrow> kreturn () | Some f \<Rightarrow> f child)"

text \<open>The two assignments to the cell counts of the node that the property belongs to.\<close>

definition set_cells :: "bmem \<Rightarrow> u64 \<Rightarrow> u64 \<Rightarrow> fdt_scan_node option \<Rightarrow> fdt_scan_node option" where
  "set_cells m name value node = (case node of None \<Rightarrow> None | Some n \<Rightarrow>
     Some (Fdt_Scan_Node (nd_parent n) (nd_name n)
       (if str_is m name ''#address-cells'' then sint (bswap (ld32 m value)) else address_cells n)
       (if str_is m name ''#size-cells'' then sint (bswap (ld32 m value)) else size_cells n)))"

text \<open>A local \<^verbatim>\<open>child\<close> with the default cell counts; its name is set before it is used.\<close>

definition new_child :: fdt_scan_node where
  "new_child = Fdt_Scan_Node None 0 2 1"

definition name_child :: "fdt_scan_node option \<Rightarrow> u64 \<Rightarrow> fdt_scan_node \<Rightarrow> fdt_scan_node" where
  "name_child node nm child = Fdt_Scan_Node node nm (address_cells child) (size_cells child)"

text \<open>\<^verbatim>\<open>while (lex != lex_next) *lex++ = bswap(FDT_NOP);\<close>\<close>

definition erase_node :: "u64 \<Rightarrow> u64 \<Rightarrow> (bmem \<times> 'e, unit) km" where
  "erase_node lexp lex_next = kbind (kwhile string_bound (\<lambda>l. l \<noteq> lex_next)
     (\<lambda>l. kthen (kput (\<lambda>(m, e). (st32 l (bswap FDT_NOP) m, e))) (kreturn (l + 4))) lexp) (\<lambda>_. kreturn ())"

text \<open>
  \<^verbatim>\<open>fdt_scan_helper\<close>: one round of its loop per recursive call, with the position \<open>lexp\<close>, the node that is
  being scanned, the local \<^verbatim>\<open>child\<close> and the flag \<^verbatim>\<open>last\<close> (here \<open>seen\<close>).  It returns the new position and the node, whose cell
  counts the caller sees.
\<close>

primrec fdt_scan_helper :: "nat \<Rightarrow> 'e fdt_cb \<Rightarrow> u64 \<Rightarrow> u64 \<Rightarrow> fdt_scan_node option \<Rightarrow> fdt_scan_node \<Rightarrow> bool \<Rightarrow>
    (bmem \<times> 'e, u64 \<times> fdt_scan_node option) km" where
  "fdt_scan_helper 0 cb strings lexp node child seen = kraise Diverge"
| "fdt_scan_helper (Suc k) cb strings lexp node child seen =
     kbind (kget fst) (\<lambda>m.
     let tag = bswap (ld32 m lexp) in
     if tag = FDT_NOP then fdt_scan_helper k cb strings (lexp + 4) node child seen
     else if tag = FDT_PROP then
       if seen then kraise (Panic ''!last'')
       else let name = strings + ucast (bswap (ld32 m (lexp + 8)));
                len = sint (bswap (ld32 m (lexp + 4)));
                node = set_cells m name (lexp + 12) node in
         if 2 ^ 31 \<le> len + 3 then kraise (Fault ''signed overflow'')
         else kthen (cb_prop cb \<lparr>pr_node = node, pr_name = name, pr_value = lexp + 12, pr_len = len\<rparr>)
           (fdt_scan_helper k cb strings (lexp + 4 * (3 + word_of_int ((len + 3) sdiv 4))) node child seen)
     else if tag = FDT_BEGIN_NODE then
       kthen (call_done cb seen node)
       (let child = name_child node (lexp + 4) child in
        kthen (call_open cb child)
        (kbind (on_blob (strlen (nd_name child))) (\<lambda>n.
         kbind (fdt_scan_helper k cb strings (lexp + 4 * (2 + n div 4)) (Some child) new_child False)
           (\<lambda>(lex_next, child').
         let child = (case child' of None \<Rightarrow> child | Some c \<Rightarrow> c) in
         kthen (case cb_close cb of
             None \<Rightarrow> kreturn ()
           | Some f \<Rightarrow> kbind (f child) (\<lambda>r. kwhen (r = -1) (erase_node lexp lex_next)))
           (fdt_scan_helper k cb strings lex_next node child True)))))
     else if tag = FDT_END_NODE then kthen (call_done cb seen node) (kreturn (lexp + 4, node))
     else kthen (call_done cb seen node) (kreturn (lexp, node)))"

text \<open>\<^verbatim>\<open>fdt_get_address\<close> and \<^verbatim>\<open>fdt_get_size\<close>: a number of big-endian cells.\<close>

primrec get_cells :: "bmem \<Rightarrow> nat \<Rightarrow> u64 \<Rightarrow> u64 \<Rightarrow> u64 \<times> u64" where
  "get_cells m 0 value result = (value, result)"
| "get_cells m (Suc c) value result = get_cells m c (value + 4) (push_bit 32 result + ucast (bswap (ld32 m value)))"

definition fdt_get_address :: "fdt_scan_node \<Rightarrow> u64 \<Rightarrow> (bmem \<times> 'e, u64 \<times> u64) km" where
  "fdt_get_address node value = kget (\<lambda>(m, e). get_cells m (nat (address_cells node)) value 0)"

definition fdt_get_size :: "fdt_scan_node \<Rightarrow> u64 \<Rightarrow> (bmem \<times> 'e, u64 \<times> u64) km" where
  "fdt_get_size node value = kget (\<lambda>(m, e). get_cells m (nat (size_cells node)) value 0)"

definition fdt_scan :: "u64 \<Rightarrow> 'e fdt_cb \<Rightarrow> (bmem \<times> 'e, unit) km" where
  "fdt_scan fdt cb = kbind (kget fst) (\<lambda>m.
     if bswap (ld32 m fdt) \<noteq> FDT_MAGIC \<or> FDT_VERSION < bswap (ld32 m (fdt + 24)) then kreturn ()
     else let strings = fdt + ucast (bswap (ld32 m (fdt + 12))); lexp = fdt + ucast (bswap (ld32 m (fdt + 8))) in
       kbind (fdt_scan_helper string_bound cb strings lexp None new_child False) (\<lambda>_. kreturn ()))"

section \<open>The memory and the host interface\<close>

record mem_scan =
  ms_memory :: bool
  reg_value :: u64
  reg_len :: int
  g_mem_size :: u64

definition kupd :: "('e \<Rightarrow> 'e) \<Rightarrow> (bmem \<times> 'e, unit) km" where
  "kupd f = kput (\<lambda>(m, e). (m, f e))"

definition mem_open :: "fdt_scan_node \<Rightarrow> (bmem \<times> mem_scan, unit) km" where
  "mem_open node = kupd (\<lambda>e. e\<lparr>ms_memory := False, reg_value := 0, reg_len := 0\<rparr>)"

definition mem_prop :: "fdt_scan_prop \<Rightarrow> (bmem \<times> mem_scan, unit) km" where
  "mem_prop p = kbind (kget fst) (\<lambda>m.
     if str_is m (pr_name p) ''device_type'' \<and> str_is m (pr_value p) ''memory'' then kupd (\<lambda>e. e\<lparr>ms_memory := True\<rparr>)
     else kwhen (str_is m (pr_name p) ''reg'') (kupd (\<lambda>e. e\<lparr>reg_value := pr_value p, reg_len := pr_len p\<rparr>)))"

text \<open>
  One round of the loop of \<^verbatim>\<open>mem_done\<close>: a range of the \<^verbatim>\<open>reg\<close> property, with the cell counts of the node's parent.
  \<open>self\<close> is the address of the function itself, an address inside the kernel.
\<close>

definition mem_range :: "u64 \<Rightarrow> fdt_scan_node \<Rightarrow> u64 \<Rightarrow> (bmem \<times> mem_scan, u64) km" where
  "mem_range self node value = (case nd_parent node of
     None \<Rightarrow> kraise (Fault ''node->parent is NULL'')
   | Some parent \<Rightarrow>
       kbind (fdt_get_address parent value) (\<lambda>(value, base).
       kbind (fdt_get_size parent value) (\<lambda>(value, sz).
       kthen (kwhen (base \<le> self \<and> self \<le> base + sz) (kupd (\<lambda>e. e\<lparr>g_mem_size := sz\<rparr>)))
         (kreturn value))))"

definition mem_done :: "u64 \<Rightarrow> fdt_scan_node \<Rightarrow> (bmem \<times> mem_scan, unit) km" where
  "mem_done self node = kbind (kget snd) (\<lambda>e.
     let value = reg_value e; en = value + 4 * word_of_int (reg_len e sdiv 4) in
     if \<not> ms_memory e then kreturn ()
     else if value = 0 \<or> reg_len e smod 4 \<noteq> 0 then kraise (Panic ''scan->reg_value && scan->reg_len % 4 == 0'')
     else kbind (kwhile string_bound (\<lambda>value. 0 < sint (en - value)) (mem_range self node) value) (\<lambda>value.
       if en = value then kreturn () else kraise (Panic ''end == value'')))"

definition mem_cb :: "u64 \<Rightarrow> mem_scan fdt_cb" where
  "mem_cb self = \<lparr>cb_open = Some mem_open, cb_prop = mem_prop, cb_done = Some (mem_done self), cb_close = None\<rparr>"

definition query_mem :: "u64 \<Rightarrow> u64 \<Rightarrow> (bmem \<times> mem_scan, unit) km" where
  "query_mem self fdt = kthen (kupd (\<lambda>e. e\<lparr>g_mem_size := 0\<rparr>)) (kthen (fdt_scan fdt (mem_cb self))
     (kbind (kget (\<lambda>(m, e). g_mem_size e)) (\<lambda>g. if 0 < g then kreturn () else kraise (Panic ''g_mem_size > 0''))))"

record htif_scan =
  compat :: bool
  htif :: bool

definition htif_open :: "fdt_scan_node \<Rightarrow> (bmem \<times> htif_scan, unit) km" where
  "htif_open node = kupd (\<lambda>e. e\<lparr>compat := False\<rparr>)"

definition htif_prop :: "fdt_scan_prop \<Rightarrow> (bmem \<times> htif_scan, unit) km" where
  "htif_prop p = kbind (kget fst) (\<lambda>m.
     kwhen (str_is m (pr_name p) ''compatible'' \<and> str_is m (pr_value p) ''ucb,htif0'') (kupd (\<lambda>e. e\<lparr>compat := True\<rparr>)))"

definition htif_done :: "fdt_scan_node \<Rightarrow> (bmem \<times> htif_scan, unit) km" where
  "htif_done node = kbind (kget (\<lambda>(m, e). compat e)) (\<lambda>c. kwhen c (kupd (\<lambda>e. e\<lparr>htif := True\<rparr>)))"

definition htif_cb :: "htif_scan fdt_cb" where
  "htif_cb = \<lparr>cb_open = Some htif_open, cb_prop = htif_prop, cb_done = Some htif_done, cb_close = None\<rparr>"

definition query_htif :: "u64 \<Rightarrow> (bmem \<times> htif_scan, unit) km" where
  "query_htif fdt = fdt_scan fdt htif_cb"

section \<open>Trees and their encoding\<close>

text \<open>
  What the blob describes: a node with its properties, each given by the addresses of its name and value
  and its length, and its subtrees.
\<close>

datatype fdt_tree = Fdt_Tree (t_name: u64) (t_props: "(u64 \<times> u64 \<times> int) list") (t_kids: "fdt_tree list")

definition tag_at :: "bmem \<Rightarrow> u64 \<Rightarrow> u32" where
  "tag_at m a = bswap (ld32 m a)"

text \<open>\<open>n\<close> tags from \<open>a\<close> to \<open>b\<close> give the properties \<open>ps\<close>; the block does not wrap around.\<close>

inductive props_at :: "bmem \<Rightarrow> u64 \<Rightarrow> nat \<Rightarrow> u64 \<Rightarrow> (u64 \<times> u64 \<times> int) list \<Rightarrow> u64 \<Rightarrow> bool" for m strings where
  props_nil: "props_at m strings 0 a [] a"
| props_nop: "tag_at m a = FDT_NOP \<Longrightarrow> unat a + 4 < 2 ^ 64 \<Longrightarrow> props_at m strings n (a + 4) ps b \<Longrightarrow>
    props_at m strings (Suc n) a ps b"
| props_cons: "tag_at m a = FDT_PROP \<Longrightarrow> nm = strings + ucast (bswap (ld32 m (a + 8))) \<Longrightarrow>
    len = sint (bswap (ld32 m (a + 4))) \<Longrightarrow> 0 \<le> len \<Longrightarrow> len + 3 < 2 ^ 31 \<Longrightarrow>
    unat a + 4 * (3 + nat ((len + 3) div 4)) < 2 ^ 64 \<Longrightarrow>
    props_at m strings n (a + 4 * (3 + word_of_int ((len + 3) div 4))) ps b \<Longrightarrow>
    props_at m strings (Suc n) a ((nm, a + 12, len) # ps) b"

text \<open>A sequence of encoded trees.\<close>

inductive forest_at :: "bmem \<Rightarrow> u64 \<Rightarrow> nat \<Rightarrow> u64 \<Rightarrow> fdt_tree list \<Rightarrow> u64 \<Rightarrow> bool" for m strings where
  forest_nil: "forest_at m strings 0 a [] a"
| forest_nop: "tag_at m a = FDT_NOP \<Longrightarrow> unat a + 4 < 2 ^ 64 \<Longrightarrow> forest_at m strings n (a + 4) ts b \<Longrightarrow>
    forest_at m strings (Suc n) a ts b"
| forest_cons: "tag_at m a = FDT_BEGIN_NODE \<Longrightarrow> cstring m (a + 4) nm \<Longrightarrow>
    unat a + 4 * (2 + length nm div 4) < 2 ^ 64 \<Longrightarrow>
    props_at m strings np (a + 4 * (2 + of_nat (length nm div 4))) ps b \<Longrightarrow>
    forest_at m strings nk b ks c \<Longrightarrow> tag_at m c = FDT_END_NODE \<Longrightarrow> unat c + 4 < 2 ^ 64 \<Longrightarrow>
    forest_at m strings nt (c + 4) ts d \<Longrightarrow>
    forest_at m strings (Suc (np + (nk + Suc nt))) a (Fdt_Tree (a + 4) ps ks # ts) d"

lemma unat_plus4: "unat (a :: u64) + 4 < 2 ^ 64 \<Longrightarrow> unat (a + 4) = unat a + 4"
  by (simp add: unat_word_ariths)

lemma unat_plus_words:
  assumes "unat (a :: u64) + 4 * k < 2 ^ 64"
  shows "unat (a + 4 * of_nat k) = unat a + 4 * k"
  using unat_at [of a "4 * k"] assms by simp

lemma props_at_le: "props_at m strings n a ps b \<Longrightarrow> unat a + 4 * n \<le> unat b"
proof (induction rule: props_at.induct)
  case (props_cons a nm len n ps b)
  have "(a + 4 * (3 + word_of_int ((len + 3) div 4))) = a + 4 * of_nat (3 + nat ((len + 3) div 4))"
    using props_cons.hyps(4) by (simp add: of_nat_nat)
  then have "unat (a + 4 * (3 + word_of_int ((len + 3) div 4))) = unat a + 4 * (3 + nat ((len + 3) div 4))"
    using unat_plus_words [OF props_cons.hyps(6)] by metis
  with props_cons.IH show ?case by simp
qed (simp_all add: unat_plus4)

lemma forest_at_le: "forest_at m strings n a ts b \<Longrightarrow> unat a + 4 * n \<le> unat b"
proof (induction rule: forest_at.induct)
  case (forest_cons a nm np ps b nk ks c nt ts d)
  have "a + 4 * (2 + of_nat (length nm div 4)) = a + 4 * of_nat (2 + length nm div 4)" by simp
  then have "unat (a + 4 * (2 + of_nat (length nm div 4))) = unat a + 4 * (2 + length nm div 4)"
    using unat_plus_words [OF forest_cons.hyps(3)] by metis
  with forest_cons.IH props_at_le [OF forest_cons.hyps(4)] unat_plus4 [OF forest_cons.hyps(7)] show ?case by simp
qed (simp_all add: unat_plus4)

section \<open>The reference traversal\<close>

primrec visit_props :: "'e fdt_cb \<Rightarrow> bmem \<Rightarrow> (u64 \<times> u64 \<times> int) list \<Rightarrow> fdt_scan_node \<Rightarrow>
    (bmem \<times> 'e, fdt_scan_node) km" where
  "visit_props cb m [] node = kreturn node"
| "visit_props cb m (p # ps) node = (case p of (nm, v, len) \<Rightarrow>
     let node = the (set_cells m nm v (Some node)) in
     kthen (cb_prop cb \<lparr>pr_node = Some node, pr_name = nm, pr_value = v, pr_len = len\<rparr>) (visit_props cb m ps node))"

text \<open>
  A node is opened, its properties are reported, then it is done, then its subtrees follow.  The result is
  the node with its cell counts, which the next node at the same level starts from.
\<close>

fun visit_forest :: "'e fdt_cb \<Rightarrow> bmem \<Rightarrow> fdt_scan_node option \<Rightarrow> fdt_scan_node \<Rightarrow> fdt_tree list \<Rightarrow>
    (bmem \<times> 'e, fdt_scan_node) km" where
  "visit_forest cb m node child [] = kreturn child"
| "visit_forest cb m node child (Fdt_Tree nm ps ks # ts) =
     (let child = name_child node nm child in
      kthen (call_open cb child)
      (kbind (visit_props cb m ps child) (\<lambda>child.
       kthen (call_done cb False (Some child))
       (kbind (visit_forest cb m (Some child) new_child ks) (\<lambda>_.
        visit_forest cb m node child ts)))))"

section \<open>Clients that only read the blob\<close>

definition ro :: "(bmem \<times> 'e, 'a) km \<Rightarrow> bool" where
  "ro f \<longleftrightarrow> (\<forall>m e. fst (snd (f (m, e))) = m)"

definition same_on :: "bmem \<Rightarrow> (bmem \<times> 'e, 'a) km \<Rightarrow> (bmem \<times> 'e, 'a) km \<Rightarrow> bool" where
  "same_on m f g \<longleftrightarrow> (\<forall>e. f (m, e) = g (m, e))"

lemma ro_return: "ro (kreturn x)"
  by (simp add: ro_def kreturn_def)

lemma ro_bind: "ro f \<Longrightarrow> (\<And>x. ro (g x)) \<Longrightarrow> ro (kbind f g)"
  unfolding ro_def kbind_def by (auto split: prod.splits sum.splits) (metis fst_conv snd_conv)+

lemma ro_then: "ro f \<Longrightarrow> ro g \<Longrightarrow> ro (kthen f g)"
  by (simp add: kthen_def ro_bind)

lemma ro_get: "ro (kget f)"
  by (simp add: ro_def kget_def)

lemma ro_upd: "ro (kupd f)"
  by (simp add: ro_def kupd_def kput_def)

lemma ro_when: "ro f \<Longrightarrow> ro (kwhen b f)"
  by (simp add: kwhen_def ro_return)

lemma ro_raise: "ro (kraise x)"
  by (simp add: ro_def kraise_def)

lemma ro_while: "(\<And>x. ro (b x)) \<Longrightarrow> ro (kwhile n g b x)"
  by (induction n arbitrary: x) (auto intro: ro_bind ro_return ro_raise)

lemmas ro_intros = ro_return ro_bind ro_then ro_get ro_upd ro_when ro_raise ro_while

lemma same_on_refl: "same_on m f f"
  by (simp add: same_on_def)

lemma same_on_trans: "same_on m f g \<Longrightarrow> same_on m g h \<Longrightarrow> same_on m f h"
  by (simp add: same_on_def)

lemma same_on_sym: "same_on m f g \<Longrightarrow> same_on m g f"
  by (simp add: same_on_def)

lemma same_on_bind:
  assumes "same_on m f f'" "ro f'" "\<And>x. same_on m (g x) (g' x)"
  shows "same_on m (kbind f g) (kbind f' g')"
  using assms unfolding same_on_def ro_def kbind_def
  by (auto split: prod.splits sum.splits) (metis fst_conv snd_conv)+

lemma same_on_then:
  "same_on m f f' \<Longrightarrow> ro f' \<Longrightarrow> same_on m g g' \<Longrightarrow> same_on m (kthen f g) (kthen f' g')"
  by (simp add: kthen_def same_on_bind)

lemma nd_name_child [simp]: "nd_name (name_child node nm child) = nm"
  by (simp add: name_child_def)

lemma strlen_eq:
  assumes "cstring m a xs"
  shows "strlen a m = (Inr (of_nat (length xs)), m)"
proof -
  have loop: "kwhile k (\<lambda>p. m p \<noteq> 0) (\<lambda>p. kreturn (p + 1)) a m = (Inr (a + of_nat (length xs)), m)"
    if "cstring m a xs" "length xs \<le> k" for a k
    using that
  proof (induction xs arbitrary: a k)
    case Nil
    then show ?case by (cases k) (simp_all add: kreturn_def)
  next
    case (Cons x xs)
    then obtain j where "k = Suc j" "length xs \<le> j" by (cases k) auto
    then show ?case using Cons.IH [of "a + 1" j] Cons.prems by (simp add: kbind_def kreturn_def add.assoc)
  qed
  have "length xs \<le> string_bound" using cstring_fits [OF assms] by (simp add: string_bound_def)
  from loop [OF assms this] show ?thesis by (simp add: strlen_def kbind_def kget_def kreturn_def)
qed

text \<open>A blob with a header the scanner understands, whose structure block is the trees and the end tag.\<close>

definition blob_at :: "bmem \<Rightarrow> u64 \<Rightarrow> fdt_tree list \<Rightarrow> bool" where
  "blob_at m fdt ts \<longleftrightarrow> bswap (ld32 m fdt) = FDT_MAGIC \<and> bswap (ld32 m (fdt + 24)) \<le> FDT_VERSION \<and>
     (\<exists>n b. forest_at m (fdt + ucast (bswap (ld32 m (fdt + 12)))) n (fdt + ucast (bswap (ld32 m (fdt + 8)))) ts b \<and>
        tag_at m b = FDT_END)"

locale fdt_client =
  fixes cb :: "'e fdt_cb"
  assumes no_close: "cb_close cb = None"
    and open_ro: "cb_open cb = Some f \<Longrightarrow> ro (f n)"
    and prop_ro: "ro (cb_prop cb p)"
    and done_ro: "cb_done cb = Some f \<Longrightarrow> ro (f n)"
begin

lemma ro_call_open: "ro (call_open cb child)"
  using open_ro by (auto simp: call_open_def ro_return split: option.splits)

lemma ro_call_done: "ro (call_done cb seen node)"
  using done_ro by (auto simp: call_done_def ro_return ro_when split: option.splits)

lemma ro_visit_props: "ro (visit_props cb m ps node)"
  by (induction ps arbitrary: node) (auto simp: Let_def intro: ro_return ro_then prop_ro)

lemma ro_visit_forest: "ro (visit_forest cb m node child ts)"
proof -
  have "c = cb \<longrightarrow> ro (visit_forest c m node child ts)" for c
    by (induction c m node child ts rule: visit_forest.induct)
      (auto simp: Let_def intro!: ro_return ro_then ro_bind ro_call_open ro_call_done ro_visit_props)
  then show ?thesis by simp
qed

lemma helper_nop:
  "tag_at m a = FDT_NOP \<Longrightarrow>
   same_on m (fdt_scan_helper (Suc k) cb st a nd ch seen) (fdt_scan_helper k cb st (a + 4) nd ch seen)"
  by (simp add: same_on_def tag_at_def FDT_defs kbind_get)

lemma helper_prop:
  "tag_at m a = FDT_PROP \<Longrightarrow> nm = st + ucast (bswap (ld32 m (a + 8))) \<Longrightarrow>
   len = sint (bswap (ld32 m (a + 4))) \<Longrightarrow> 0 \<le> len \<Longrightarrow> len + 3 < 2 ^ 31 \<Longrightarrow>
   same_on m (fdt_scan_helper (Suc k) cb st a nd ch False)
     (kthen (cb_prop cb \<lparr>pr_node = set_cells m nm (a + 12) nd, pr_name = nm, pr_value = a + 12, pr_len = len\<rparr>)
       (fdt_scan_helper k cb st (a + 4 * (3 + word_of_int ((len + 3) div 4))) (set_cells m nm (a + 12) nd) ch False))"
  by (simp add: same_on_def tag_at_def FDT_defs kbind_get Let_def signed_divide_int_def sgn_if)

lemma helper_end:
  "tag_at m a = FDT_END_NODE \<Longrightarrow>
   same_on m (fdt_scan_helper (Suc k) cb st a nd ch seen) (kthen (call_done cb seen nd) (kreturn (a + 4, nd)))"
  by (simp add: same_on_def tag_at_def FDT_defs kbind_get)

lemma helper_stop:
  "tag_at m a \<notin> {FDT_NOP, FDT_PROP, FDT_BEGIN_NODE} \<Longrightarrow>
   same_on m (fdt_scan_helper (Suc k) cb st a nd ch seen)
     (kthen (call_done cb seen nd) (kreturn (if tag_at m a = FDT_END_NODE then a + 4 else a, nd)))"
  by (simp add: same_on_def tag_at_def kbind_get)

lemma helper_begin:
  assumes "tag_at m a = FDT_BEGIN_NODE" "cstring m (a + 4) nm"
  shows "same_on m (fdt_scan_helper (Suc k) cb st a nd ch seen)
     (kthen (call_done cb seen nd)
     (kthen (call_open cb (name_child nd (a + 4) ch))
     (kbind (fdt_scan_helper k cb st (a + 4 * (2 + of_nat (length nm div 4))) (Some (name_child nd (a + 4) ch)) new_child False)
       (\<lambda>(lex_next, child'). fdt_scan_helper k cb st lex_next nd
         (case child' of None \<Rightarrow> name_child nd (a + 4) ch | Some c \<Rightarrow> c) True))))"
proof -
  have len: "strlen (a + 4) m = (Inr (of_nat (length nm)), m)" by (rule strlen_eq [OF assms(2)])
  have "length nm < 2 ^ 64" using cstring_fits [OF assms(2)] by simp
  then have div: "(of_nat (length nm) :: u64) div 4 = of_nat (length nm div 4)"
    by (simp add: word_unat_eq_iff unat_div_distrib unat_of_nat take_bit_nat_eq_self div_le_dividend
      order.strict_trans1 [OF div_le_dividend])
  have "same_on m (on_blob (strlen (a + 4))) (kreturn (of_nat (length nm)))"
    by (simp add: same_on_def on_blob_def len kreturn_def)
  then have "same_on m (kbind (on_blob (strlen (a + 4))) F) (kbind (kreturn (of_nat (length nm))) F)" for F
    by (rule same_on_bind) (auto simp: ro_return same_on_refl)
  note inner = this [unfolded kbind_return]
  let ?c = "name_child nd (a + 4) ch"
  let ?F = "\<lambda>n. kbind (fdt_scan_helper k cb st (a + 4 * (2 + n div 4)) (Some ?c) new_child False)
    (\<lambda>(lex_next, child'). fdt_scan_helper k cb st lex_next nd (case child' of None \<Rightarrow> ?c | Some c \<Rightarrow> c) True)"
  have "same_on m (fdt_scan_helper (Suc k) cb st a nd ch seen) (kthen (call_done cb seen nd) (kthen (call_open cb ?c)
      (kbind (on_blob (strlen (a + 4))) ?F)))"
    using assms(1) no_close
    by (simp add: same_on_def tag_at_def FDT_defs kbind_get Let_def kthen_return)
  moreover have "same_on m (kbind (on_blob (strlen (a + 4))) ?F) (?F (of_nat (length nm)))" by (rule inner)
  ultimately show ?thesis
    unfolding div by (blast intro: same_on_trans same_on_then same_on_refl ro_call_done ro_call_open)
qed

lemma scan_props:
  assumes "props_at m st n a ps b"
  shows "same_on m (fdt_scan_helper (n + k) cb st a (Some nd) ch False)
    (kbind (visit_props cb m ps nd) (\<lambda>nd'. fdt_scan_helper k cb st b (Some nd') ch False))"
  using assms
proof (induction arbitrary: nd rule: props_at.induct)
  case (props_nil a)
  then show ?case by (simp add: kbind_return same_on_refl)
next
  case (props_nop a n ps b)
  then show ?case using same_on_trans [OF helper_nop [OF props_nop.hyps(1)] props_nop.IH] by simp
next
  case (props_cons a nm len n ps b)
  obtain nd' where nd': "set_cells m nm (a + 12) (Some nd) = Some nd'" by (simp add: set_cells_def)
  show ?case
    unfolding add_Suc
    by (rule same_on_trans [OF helper_prop [OF props_cons.hyps(1-5)]])
      (use props_cons.IH [of nd'] in \<open>simp add: nd' kthen_bind same_on_then same_on_refl prop_ro\<close>)
qed

text \<open>The node is reported as done before its first subtree, or at its end.\<close>

lemma call_done_seen: "call_done cb True nd = kreturn ()"
  by (auto simp: call_done_def kwhen_def split: option.splits)

lemma done_first:
  assumes "same_on m f (kthen (call_done cb False nd) h)" "same_on m g (kthen (call_done cb True nd) h)"
  shows "same_on m f (kthen (call_done cb False nd) g)"
  by (rule same_on_trans [OF assms(1)])
    (intro same_on_then same_on_refl ro_call_done same_on_sym [OF assms(2) [unfolded call_done_seen kthen_return]])

lemma scan_done:
  assumes "forest_at m st n b ks c" "tag_at m c \<notin> {FDT_NOP, FDT_PROP, FDT_BEGIN_NODE}" "0 < k"
  shows "same_on m (fdt_scan_helper (n + k) cb st b nd ch False)
    (kthen (call_done cb False nd) (fdt_scan_helper (n + k) cb st b nd ch True))"
  using assms
proof (induction rule: forest_at.induct)
  case (forest_nil a)
  then obtain j where "k = Suc j" by (cases k) auto
  then show ?case using done_first [OF helper_stop [OF forest_nil(1)] helper_stop [OF forest_nil(1)]] by simp
next
  case (forest_nop a n ts b)
  have "same_on m (fdt_scan_helper (n + k) cb st (a + 4) nd ch True) (fdt_scan_helper (Suc n + k) cb st a nd ch True)"
    using same_on_sym [OF helper_nop [OF forest_nop.hyps(1)]] by simp
  then have "same_on m (kthen (call_done cb False nd) (fdt_scan_helper (n + k) cb st (a + 4) nd ch True))
      (kthen (call_done cb False nd) (fdt_scan_helper (Suc n + k) cb st a nd ch True))"
    by (intro same_on_then same_on_refl ro_call_done)
  then show ?case
    using same_on_trans [OF same_on_trans [OF helper_nop [OF forest_nop.hyps(1)] forest_nop.IH [OF forest_nop.prems]]]
    by simp
next
  case (forest_cons a nm np ps b nk ks c nt ts d)
  note B = helper_begin [OF forest_cons.hyps(1,2)]
  show ?case unfolding add_Suc by (rule done_first [OF B B])
qed

lemma scan_forest:
  assumes "forest_at m st n a ts b"
  shows "\<exists>k'\<ge>k. \<forall>ch. same_on m (fdt_scan_helper (n + k) cb st a nd ch True)
    (kbind (visit_forest cb m nd ch ts) (\<lambda>ch'. fdt_scan_helper k' cb st b nd ch' True))"
  using assms
proof (induction arbitrary: k nd rule: forest_at.induct)
  case (forest_nil a)
  then show ?case by (intro exI [of _ k]) (simp add: kbind_return same_on_refl)
next
  case (forest_nop a n ts b)
  then obtain k' where "k \<le> k'" "\<And>ch. same_on m (fdt_scan_helper (n + k) cb st (a + 4) nd ch True)
      (kbind (visit_forest cb m nd ch ts) (\<lambda>ch'. fdt_scan_helper k' cb st b nd ch' True))" by blast
  then show ?case using same_on_trans [OF helper_nop [OF forest_nop.hyps(1)]] by (intro exI [of _ k']) simp
next
  case (forest_cons a nm np ps b nk ks c nt ts d)
  let ?K = "nk + Suc (nt + k)"
  have body: "same_on m (fdt_scan_helper (np + ?K) cb st (a + 4 * (2 + of_nat (length nm div 4))) (Some c0) new_child False)
      (kbind (visit_props cb m ps c0) (\<lambda>c1. kthen (call_done cb False (Some c1))
        (kbind (visit_forest cb m (Some c1) new_child ks) (\<lambda>_. kreturn (c + 4, Some c1)))))" for c0
  proof (rule same_on_trans [OF scan_props [OF forest_cons.hyps(4)]], rule same_on_bind [OF same_on_refl ro_visit_props])
    fix c1
    obtain j where j: "Suc (nt + k) \<le> j" "\<And>ch. same_on m (fdt_scan_helper ?K cb st b (Some c1) ch True)
        (kbind (visit_forest cb m (Some c1) ch ks) (\<lambda>ch'. fdt_scan_helper j cb st c (Some c1) ch' True))"
      using forest_cons.IH(1) by blast
    then obtain i where "j = Suc i" by (cases j) auto
    then have "same_on m (fdt_scan_helper j cb st c (Some c1) ch' True) (kreturn (c + 4, Some c1))" for ch'
      using helper_end [OF forest_cons.hyps(6), of i st "Some c1" ch' True] by (simp add: call_done_seen kthen_return)
    then have "same_on m (fdt_scan_helper ?K cb st b (Some c1) new_child True)
        (kbind (visit_forest cb m (Some c1) new_child ks) (\<lambda>_. kreturn (c + 4, Some c1)))"
      by (blast intro: same_on_trans [OF j(2)] same_on_bind same_on_refl ro_visit_forest)
    then show "same_on m (fdt_scan_helper ?K cb st b (Some c1) new_child False) (kthen (call_done cb False (Some c1))
        (kbind (visit_forest cb m (Some c1) new_child ks) (\<lambda>_. kreturn (c + 4, Some c1))))"
      using scan_done [OF forest_cons.hyps(5), of "Suc (nt + k)" "Some c1" new_child] forest_cons.hyps(6)
      by (auto simp: FDT_defs intro: same_on_trans same_on_then same_on_refl ro_call_done)
  qed
  obtain k' where k': "np + nk + Suc k \<le> k'" "\<And>ch. same_on m (fdt_scan_helper (np + ?K) cb st (c + 4) nd ch True)
      (kbind (visit_forest cb m nd ch ts) (\<lambda>ch'. fdt_scan_helper k' cb st d nd ch' True))"
    using forest_cons.IH(2) [of "np + nk + Suc k" nd] by (auto simp: ac_simps)
  show ?case
  proof (intro exI [of _ k'] conjI allI)
    show "k \<le> k'" using k'(1) by simp
    fix ch
    let ?c = "name_child nd (a + 4) ch"
    let ?R = "\<lambda>(lex_next, child'). fdt_scan_helper (np + ?K) cb st lex_next nd (case child' of None \<Rightarrow> ?c | Some x \<Rightarrow> x) True"
    let ?V = "\<lambda>ch'. fdt_scan_helper k' cb st d nd ch' True"
    have tail: "same_on m (kbind (fdt_scan_helper (np + ?K) cb st (a + 4 * (2 + of_nat (length nm div 4))) (Some ?c) new_child False) ?R)
        (kbind (visit_props cb m ps ?c) (\<lambda>c1. kthen (call_done cb False (Some c1))
          (kbind (visit_forest cb m (Some c1) new_child ks) (\<lambda>_. kbind (visit_forest cb m nd c1 ts) ?V))))"
    proof (rule same_on_trans)
      show "same_on m (kbind (fdt_scan_helper (np + ?K) cb st (a + 4 * (2 + of_nat (length nm div 4))) (Some ?c) new_child False) ?R)
        (kbind (kbind (visit_props cb m ps ?c) (\<lambda>c1. kthen (call_done cb False (Some c1))
          (kbind (visit_forest cb m (Some c1) new_child ks) (\<lambda>_. kreturn (c + 4, Some c1))))) ?R)"
        by (intro same_on_bind [OF body] same_on_refl ro_bind ro_then ro_visit_props ro_visit_forest ro_call_done ro_return)
      show "same_on m \<dots> (kbind (visit_props cb m ps ?c) (\<lambda>c1. kthen (call_done cb False (Some c1))
          (kbind (visit_forest cb m (Some c1) new_child ks) (\<lambda>_. kbind (visit_forest cb m nd c1 ts) ?V))))"
        unfolding kbind_assoc kthen_bind kbind_return prod.case option.case
        by (intro same_on_bind same_on_then same_on_refl ro_visit_props ro_visit_forest ro_call_done k'(2))
    qed
    show "same_on m (fdt_scan_helper (Suc (np + (nk + Suc nt)) + k) cb st a nd ch True)
        (kbind (visit_forest cb m nd ch (Fdt_Tree (a + 4) ps ks # ts)) ?V)"
      using same_on_trans [OF helper_begin [OF forest_cons.hyps(1,2), of "np + ?K" st nd ch True, unfolded call_done_seen kthen_return]
        same_on_then [OF same_on_refl ro_call_open tail]]
      by (simp add: Let_def kbind_assoc kthen_bind ac_simps)
  qed
qed

text \<open>
  The whole scan: on a blob with a known header whose structure block encodes the trees \<open>ts\<close>, it is the
  reference traversal.
\<close>

lemma fdt_scan_visit:
  assumes "blob_at m fdt ts"
  shows "same_on m (fdt_scan fdt cb) (kbind (visit_forest cb m None new_child ts) (\<lambda>_. kreturn ()))"
proof -
  obtain n b where hd: "bswap (ld32 m fdt) = FDT_MAGIC" "\<not> FDT_VERSION < bswap (ld32 m (fdt + 24))"
    and F: "forest_at m (fdt + ucast (bswap (ld32 m (fdt + 12)))) n (fdt + ucast (bswap (ld32 m (fdt + 8)))) ts b"
    and b: "tag_at m b = FDT_END"
    using assms by (auto simp: blob_at_def)
  let ?st = "fdt + ucast (bswap (ld32 m (fdt + 12)))" and ?a = "fdt + ucast (bswap (ld32 m (fdt + 8)))"
  have stop: "tag_at m b \<notin> {FDT_NOP, FDT_PROP, FDT_BEGIN_NODE}" by (simp add: b FDT_END_def FDT_defs)
  have "unat ?a + 4 * n \<le> unat b" by (rule forest_at_le [OF F])
  then have "n < string_bound" using unat_bound64 [of b] by (simp add: string_bound_def)
  then obtain k where k: "string_bound = n + Suc k" using less_iff_Suc_add by auto
  have none: "call_done cb seen None = kreturn ()" for seen by (simp add: call_done_def)
  obtain k' where k': "Suc k \<le> k'" "\<And>ch. same_on m (fdt_scan_helper (n + Suc k) cb ?st ?a None ch True)
      (kbind (visit_forest cb m None ch ts) (\<lambda>ch'. fdt_scan_helper k' cb ?st b None ch' True))"
    using scan_forest [OF F] by blast
  then obtain j where "k' = Suc j" by (cases k') auto
  then have "same_on m (fdt_scan_helper k' cb ?st b None ch True) (kreturn (b, None))" for ch
    using helper_stop [OF stop, of j ?st None ch True] by (simp add: none kthen_return b FDT_END_def FDT_END_NODE_def)
  then have all: "same_on m (fdt_scan_helper (n + Suc k) cb ?st ?a None new_child True)
      (kbind (visit_forest cb m None new_child ts) (\<lambda>_. kreturn (b, None)))"
    by (blast intro: same_on_trans [OF k'(2)] same_on_bind same_on_refl ro_visit_forest)
  have first: "same_on m (fdt_scan_helper (n + Suc k) cb ?st ?a None new_child False)
      (fdt_scan_helper (n + Suc k) cb ?st ?a None new_child True)"
    using scan_done [OF F stop, of "Suc k" None new_child] by (simp add: none kthen_return)
  have "same_on m (kbind (fdt_scan_helper string_bound cb ?st ?a None new_child False) (\<lambda>_. kreturn ()))
      (kbind (kbind (visit_forest cb m None new_child ts) (\<lambda>_. kreturn (b, None :: fdt_scan_node option))) (\<lambda>_. kreturn ()))"
    unfolding k by (intro same_on_bind [OF same_on_trans [OF first all]] same_on_refl ro_bind ro_return ro_visit_forest)
  then show ?thesis using hd by (simp add: same_on_def fdt_scan_def kbind_get kbind_assoc kbind_return Let_def)
qed

end

interpretation mem: fdt_client "mem_cb self" for self
  by unfold_locales (auto simp: mem_cb_def mem_open_def mem_prop_def mem_done_def mem_range_def Let_def fdt_get_address_def
    fdt_get_size_def intro!: ro_intros split: option.splits)

interpretation htif: fdt_client htif_cb
  by unfold_locales (auto simp: htif_cb_def htif_open_def htif_prop_def htif_done_def intro!: ro_intros)

section \<open>An example blob\<close>

text \<open>
  A tree of three nodes at address 0x1000: the root, a memory node of 256 MB at 0x80000000, and the host
  interface.  The list gives its big-endian words.
\<close>

definition demo_words :: "u32 list" where
  "demo_words = [
    0xd00dfeed, 0xb0, 40, 0x94, 0, 17, 16, 0, 0, 0, 1, 0, 1, 0x6d000000, 3, 7, 11, 0x6d656d6f, 0x72790000, 3,
    12, 23, 0, 0x80000000, 0x10000000, 2, 1, 0x68000000, 3, 10, 0, 0x7563622c, 0x68746966, 0x30000000, 2, 2,
    9, 0x636f6d70, 0x61746962, 0x6c650064, 0x65766963, 0x655f7479, 0x70650072, 0x65670000]"

definition demo_blob :: bmem where
  "demo_blob a = (let k = unat (a - 0x1000) in
     if k < 4 * length demo_words then ucast (drop_bit (8 * (3 - k mod 4)) (demo_words ! (k div 4))) else 0)"

definition demo_trees :: "fdt_tree list" where
  "demo_trees = [Fdt_Tree 0x102c [] [Fdt_Tree 0x1034 [(0x109f, 0x1044, 7), (0x10ab, 0x1058, 12)] [],
     Fdt_Tree 0x106c [(0x1094, 0x107c, 10)] []]]"


lemmas demo_eval = bswap_def ld32_def demo_blob_def demo_words_def

text \<open>The words that the scanner reads.\<close>

lemma demo_reads:
  "tag_at demo_blob 0x1028 = FDT_BEGIN_NODE" "tag_at demo_blob 0x1030 = FDT_BEGIN_NODE"
  "tag_at demo_blob 0x1038 = FDT_PROP" "bswap (ld32 demo_blob 0x103c) = 7" "bswap (ld32 demo_blob 0x1040) = 11"
  "tag_at demo_blob 0x104c = FDT_PROP" "bswap (ld32 demo_blob 0x1050) = 12" "bswap (ld32 demo_blob 0x1054) = 23"
  "tag_at demo_blob 0x1064 = FDT_END_NODE" "tag_at demo_blob 0x1068 = FDT_BEGIN_NODE"
  "tag_at demo_blob 0x1070 = FDT_PROP" "bswap (ld32 demo_blob 0x1074) = 10" "bswap (ld32 demo_blob 0x1078) = 0"
  "tag_at demo_blob 0x1088 = FDT_END_NODE" "tag_at demo_blob 0x108c = FDT_END_NODE" "tag_at demo_blob 0x1090 = FDT_END"
  "bswap (ld32 demo_blob 0x1000) = FDT_MAGIC" "bswap (ld32 demo_blob 0x1018) = 16"
  "bswap (ld32 demo_blob 0x100c) = 0x94" "bswap (ld32 demo_blob 0x1008) = 40"
  by (simp_all add: tag_at_def demo_eval FDT_defs FDT_END_def FDT_MAGIC_def)

lemma demo_names: "cstring demo_blob 0x102c []" "cstring demo_blob 0x1034 [109]" "cstring demo_blob 0x106c [104]"
  by (simp_all add: demo_blob_def demo_words_def)

lemma demo_memory_props: "props_at demo_blob 0x1094 (Suc (Suc 0)) 0x1038 [(0x109f, 0x1044, 7), (0x10ab, 0x1058, 12)] 0x1064"
proof -
  have "props_at demo_blob 0x1094 (Suc 0) 0x104c [(0x10ab, 0x1058, 12)] 0x1064"
    using props_cons [of demo_blob "0x104c" "0x10ab" "0x1094" 12 0 "[]" "0x1064"] props_nil [of demo_blob "0x1094" "0x1064"]
    by (simp add: demo_reads)
  then show ?thesis
    using props_cons [of demo_blob "0x1038" "0x109f" "0x1094" 7 "Suc 0" "[(0x10ab, 0x1058, 12)]" "0x1064"]
    by (simp add: demo_reads)
qed

lemma demo_htif_props: "props_at demo_blob 0x1094 (Suc 0) 0x1070 [(0x1094, 0x107c, 10)] 0x1088"
  using props_cons [of demo_blob "0x1070" "0x1094" "0x1094" 10 0 "[]" "0x1088"] props_nil [of demo_blob "0x1094" "0x1088"]
  by (simp add: demo_reads)

lemma demo_forest: "\<exists>n. forest_at demo_blob 0x1094 n 0x1028 demo_trees 0x1090"
proof -
  let ?F = "forest_at demo_blob 0x1094" and ?h = "Fdt_Tree 0x106c [(0x1094, 0x107c, 10)] []"
  let ?m = "Fdt_Tree 0x1034 [(0x109f, 0x1044, 7), (0x10ab, 0x1058, 12)] []"
  have nil: "?F 0 a [] a" for a by (rule forest_nil)
  obtain n where n: "?F n 0x1068 [?h] 0x108c"
    using forest_cons [of demo_blob "0x1068" "[104]" "0x1094", OF _ _ _ _ nil, of "Suc 0" "[(0x1094, 0x107c, 10)]" "0x1088" 0 "[]" "0x108c"]
      demo_htif_props nil [of "0x108c"] demo_names(3) by (simp add: demo_reads)
  obtain k where k: "?F k 0x1030 [?m, ?h] 0x108c"
    using forest_cons [of demo_blob "0x1030" "[109]" "0x1094", OF _ _ _ _ nil, of "Suc (Suc 0)" "[(0x109f, 0x1044, 7), (0x10ab, 0x1058, 12)]" "0x1064" n "[?h]" "0x108c"]
      demo_memory_props n demo_names(2) by (simp add: demo_reads)
  show ?thesis
    using forest_cons [of demo_blob "0x1028" "[]" "0x1094", OF _ _ _ _ k, of 0 "[]" 0 "[]" "0x1090"]
      props_nil [of demo_blob "0x1094" "0x1030"] nil [of "0x1090"] demo_names(1)
    by (auto simp: demo_reads demo_trees_def)
qed

lemma demo_blob_at: "blob_at demo_blob 0x1000 demo_trees"
proof -
  obtain n where "forest_at demo_blob 0x1094 n 0x1028 demo_trees 0x1090" using demo_forest by blast
  then show ?thesis
    unfolding blob_at_def
    by (intro conjI exI [of _ n] exI [of _ "0x1090"]) (simp_all add: demo_reads FDT_VERSION_def)
qed

lemma demo_strings:
  "str_is demo_blob 0x1094 ''compatible''" "str_is demo_blob 0x107c ''ucb,htif0''" "str_is demo_blob 0x109f ''device_type''"
  "str_is demo_blob 0x1044 ''memory''" "str_is demo_blob 0x10ab ''reg''" "\<not> str_is demo_blob 0x10ab ''device_type''"
  "\<not> str_is demo_blob 0x1094 ''reg''" "\<not> str_is demo_blob 0x1094 ''device_type''"
  "\<not> str_is demo_blob 0x1094 ''#address-cells''" "\<not> str_is demo_blob 0x1094 ''#size-cells''"
  "\<not> str_is demo_blob 0x109f ''#address-cells''" "\<not> str_is demo_blob 0x109f ''#size-cells''"
  "\<not> str_is demo_blob 0x10ab ''#address-cells''" "\<not> str_is demo_blob 0x10ab ''#size-cells''"
  by (simp_all add: str_is_def demo_blob_def demo_words_def)

lemma demo_reg:
  "bswap (ld32 demo_blob 0x1058) = 0" "bswap (ld32 demo_blob 0x105c) = 0x80000000" "bswap (ld32 demo_blob 0x1060) = 0x10000000"
  by (simp_all add: demo_eval)

lemma demo_address: "get_cells demo_blob 2 0x1058 0 = (0x1060, 0x80000000)"
proof -
  have "get_cells demo_blob (Suc (Suc 0)) 0x1058 0 = (0x1060, 0x80000000)" by (simp add: demo_reg)
  then show ?thesis unfolding numeral_2_eq_2 .
qed

section \<open>What the clients find\<close>

fun all_nodes :: "fdt_tree list \<Rightarrow> fdt_tree list" where
  "all_nodes [] = []"
| "all_nodes (Fdt_Tree nm ps ks # ts) = Fdt_Tree nm ps ks # all_nodes ks @ all_nodes ts"

definition has_prop :: "bmem \<Rightarrow> string \<Rightarrow> string \<Rightarrow> fdt_tree \<Rightarrow> bool" where
  "has_prop m name value t \<longleftrightarrow> (\<exists>(nm, v, len)\<in>set (t_props t). str_is m nm name \<and> str_is m v value)"

lemma visit_htif_props:
  "\<exists>nd'. visit_props htif_cb m ps nd (m, e) =
     (Inr nd', (m, e\<lparr>compat := compat e \<or> (\<exists>(nm, v, len)\<in>set ps. str_is m nm ''compatible'' \<and> str_is m v ''ucb,htif0'')\<rparr>))"
proof (induction ps arbitrary: nd e)
  case Nil
  then show ?case by (simp add: kreturn_def)
next
  case (Cons p ps)
  obtain nm v len where p: "p = (nm, v, len)" by (cases p)
  let ?e = "if str_is m nm ''compatible'' \<and> str_is m v ''ucb,htif0'' then e\<lparr>compat := True\<rparr> else e"
  have "visit_props htif_cb m (p # ps) nd (m, e) = visit_props htif_cb m ps (the (set_cells m nm v (Some nd))) (m, ?e)"
    by (simp add: p htif_cb_def htif_prop_def Let_def kthen_def kbind_def kget_def kwhen_def kupd_def kput_def kreturn_def)
  then show ?case using Cons.IH [of "the (set_cells m nm v (Some nd))" ?e] by (auto simp: p)
qed

lemma visit_htif_forest:
  "\<exists>nd' e'. visit_forest htif_cb m node ch ts (m, e) = (Inr nd', (m, e')) \<and>
     htif e' = (htif e \<or> (\<exists>t\<in>set (all_nodes ts). has_prop m ''compatible'' ''ucb,htif0'' t))"
proof -
  have "cb = htif_cb \<longrightarrow> (\<forall>e. \<exists>nd' e'. visit_forest cb m node ch ts (m, e) = (Inr nd', (m, e')) \<and>
     htif e' = (htif e \<or> (\<exists>t\<in>set (all_nodes ts). has_prop m ''compatible'' ''ucb,htif0'' t)))" for cb
  proof (induction cb m node ch ts rule: visit_forest.induct)
    case (1 cb m node child)
    then show ?case by (simp add: kreturn_def)
  next
    case (2 cb m node child nm ps ks ts)
    show ?case
    proof (intro impI allI)
      fix e
      assume cb: "cb = htif_cb"
      let ?c = "name_child node nm child" and ?b = "has_prop m ''compatible'' ''ucb,htif0'' (Fdt_Tree nm ps ks)"
      obtain c1 where c1: "visit_props htif_cb m ps ?c (m, e\<lparr>compat := False\<rparr>) = (Inr c1, (m, e\<lparr>compat := ?b\<rparr>))"
        using visit_htif_props [of m ps ?c "e\<lparr>compat := False\<rparr>"] by (auto simp: has_prop_def)
      let ?e1 = "e\<lparr>compat := ?b, htif := ?b \<or> htif e\<rparr>"
      obtain c2 e2 where k: "visit_forest htif_cb m (Some c1) new_child ks (m, ?e1) = (Inr c2, (m, e2))"
          "htif e2 = (htif ?e1 \<or> (\<exists>t\<in>set (all_nodes ks). has_prop m ''compatible'' ''ucb,htif0'' t))"
        using "2.IH"(1) [OF refl, of c1] cb by blast
      obtain c3 e3 where t: "visit_forest htif_cb m node c1 ts (m, e2) = (Inr c3, (m, e3))"
          "htif e3 = (htif e2 \<or> (\<exists>t\<in>set (all_nodes ts). has_prop m ''compatible'' ''ucb,htif0'' t))"
        using "2.IH"(2) [OF refl, of c1] cb by blast
      have "call_open htif_cb ?c (m, e) = (Inr (), (m, e\<lparr>compat := False\<rparr>))"
        by (simp add: call_open_def htif_cb_def htif_open_def kupd_def kput_def)
      moreover have "call_done htif_cb False (Some c1) (m, e\<lparr>compat := ?b\<rparr>) = (Inr (), (m, ?e1))"
        by (simp add: call_done_def htif_cb_def htif_done_def kbind_def kget_def kwhen_def kupd_def kput_def kreturn_def)
      ultimately show "\<exists>nd' e'. visit_forest cb m node child (Fdt_Tree nm ps ks # ts) (m, e) = (Inr nd', (m, e')) \<and>
          htif e' = (htif e \<or> (\<exists>t\<in>set (all_nodes (Fdt_Tree nm ps ks # ts)). has_prop m ''compatible'' ''ucb,htif0'' t))"
        using c1 k t by (auto simp: cb Let_def kthen_def kbind_def)
    qed
  qed
  then show ?thesis by blast
qed

section \<open>The memory that a device tree describes\<close>

text \<open>
  The reference for \<^verbatim>\<open>query_mem\<close>, over the trees.  The cell counts of a node after its properties \<open>ps\<close>, whether
  \<open>ps\<close> has the device type memory, and the last \<^verbatim>\<open>reg\<close> property of \<open>ps\<close>.
\<close>

definition cells_of :: "fdt_scan_node \<Rightarrow> int \<times> int" where
  "cells_of n = (address_cells n, size_cells n)"

definition node_cells :: "bmem \<Rightarrow> (u64 \<times> u64 \<times> int) list \<Rightarrow> int \<times> int \<Rightarrow> int \<times> int" where
  "node_cells m ps c = foldl (\<lambda>(ac, sc) (nm, v, len).
     (if str_is m nm ''#address-cells'' then sint (bswap (ld32 m v)) else ac,
      if str_is m nm ''#size-cells'' then sint (bswap (ld32 m v)) else sc)) c ps"

definition is_memory :: "bmem \<Rightarrow> (u64 \<times> u64 \<times> int) list \<Rightarrow> bool" where
  "is_memory m ps \<longleftrightarrow> (\<exists>(nm, v, len)\<in>set ps. str_is m nm ''device_type'' \<and> str_is m v ''memory'')"

definition last_reg :: "bmem \<Rightarrow> (u64 \<times> u64 \<times> int) list \<Rightarrow> (u64 \<times> int) option" where
  "last_reg m ps = map_option snd (find (\<lambda>(nm, v, len). str_is m nm ''reg'') (rev ps))"

text \<open>
  The memory nodes of the trees, in the order of the blob: for each the cell counts of its parent, if it has one, and
  its \<^verbatim>\<open>reg\<close> property, if it has one.  \<open>pc\<close> are the counts of the node that the trees are below, \<open>c\<close> those that the next
  node starts from: (2, 1) for the first one below a node, and those of its predecessor for every other.
\<close>

fun mem_nodes :: "bmem \<Rightarrow> (int \<times> int) option \<Rightarrow> int \<times> int \<Rightarrow> fdt_tree list \<Rightarrow> ((int \<times> int) option \<times> (u64 \<times> int) option) list" where
  "mem_nodes m pc c [] = []"
| "mem_nodes m pc c (Fdt_Tree nm ps ks # ts) =
     (if is_memory m ps then [(pc, last_reg m ps)] else []) @ mem_nodes m (Some (node_cells m ps c)) (2, 1) ks @
     mem_nodes m pc (node_cells m ps c) ts"

text \<open>What is wrong with a memory node, if anything: how the scan stops there.\<close>

definition reg_stop :: "(int \<times> int) option \<times> (u64 \<times> int) option \<Rightarrow> kstop option" where
  "reg_stop n = (case n of
     (pc, None) \<Rightarrow> Some (Panic ''scan->reg_value && scan->reg_len % 4 == 0'')
   | (pc, Some (v, len)) \<Rightarrow>
       if len mod 4 \<noteq> 0 then Some (Panic ''scan->reg_value && scan->reg_len % 4 == 0'')
       else if len = 0 then None
       else (case pc of
         None \<Rightarrow> Some (Fault ''node->parent is NULL'')
       | Some (ac, sc) \<Rightarrow>
           if nat ac + nat sc = 0 then Some Diverge
           else if len mod (4 * int (nat ac + nat sc)) \<noteq> 0 then Some (Panic ''end == value'')
           else None))"

text \<open>The ranges (base and size) of a memory node: as many as its \<^verbatim>\<open>reg\<close> property has room for.\<close>

definition reg_range :: "bmem \<Rightarrow> nat \<Rightarrow> nat \<Rightarrow> u64 \<Rightarrow> nat \<Rightarrow> u64 \<times> u64" where
  "reg_range m ac sc v i = (case get_cells m ac (v + of_nat (4 * (i * (ac + sc)))) 0 of
     (w, base) \<Rightarrow> (base, snd (get_cells m sc w 0)))"

definition node_ranges :: "bmem \<Rightarrow> (int \<times> int) option \<times> (u64 \<times> int) option \<Rightarrow> (u64 \<times> u64) list" where
  "node_ranges m n = (case n of
     (Some (ac, sc), Some (v, len)) \<Rightarrow>
       map (reg_range m (nat ac) (nat sc) v) [0..<nat (len div (4 * int (nat ac + nat sc)))]
   | _ \<Rightarrow> [])"

text \<open>The size of the last range that contains the address \<open>self\<close>, and \<open>g\<close> if there is none.\<close>

definition pick_range :: "u64 \<Rightarrow> u64 \<Rightarrow> u64 \<times> u64 \<Rightarrow> u64" where
  "pick_range self g r = (case r of (base, sz) \<Rightarrow> if base \<le> self \<and> self \<le> base + sz then sz else g)"

lemma str_is_unique: "str_is m a x \<Longrightarrow> str_is m a y \<Longrightarrow> map of_char x = (map of_char y :: u8 list)"
  unfolding str_is_def by (rule cstring_unique)

lemma find_append: "find P (xs @ ys) = (case find P xs of None \<Rightarrow> find P ys | Some x \<Rightarrow> Some x)"
  by (induction xs) auto

lemma last_reg_Cons:
  "last_reg m ((nm, v, len) # ps) =
     (case last_reg m ps of Some r \<Rightarrow> Some r | None \<Rightarrow> if str_is m nm ''reg'' then Some (v, len) else None)"
  by (auto simp: last_reg_def find_append split: option.splits)

lemma last_reg_in: "last_reg m ps = Some (v, len) \<Longrightarrow> \<exists>nm. (nm, v, len) \<in> set ps"
  unfolding last_reg_def by (auto simp: find_Some_iff) (metis nth_mem set_rev length_rev)

lemma get_cells_fst: "fst (get_cells m c v r) = v + 4 * of_nat c"
  by (induction c arbitrary: v r) (simp_all add: algebra_simps)

text \<open>Cell counts are \<open>int\<close>s, so a step over a range cannot wrap around the address space.\<close>

definition small_cells :: "fdt_scan_node \<Rightarrow> bool" where
  "small_cells n \<longleftrightarrow> address_cells n < 2 ^ 31 \<and> size_cells n < 2 ^ 31"

lemma small_cells_simps [simp]: "small_cells new_child" "small_cells (name_child nd nm ch) = small_cells ch"
    "nd_parent (name_child nd nm ch) = nd" "cells_of (name_child nd nm ch) = cells_of ch" "cells_of new_child = (2, 1)"
  by (simp_all add: small_cells_def new_child_def name_child_def cells_of_def)

lemma small_set_cells: "small_cells nd \<Longrightarrow> small_cells (the (set_cells m nm v (Some nd)))"
    "nd_parent (the (set_cells m nm v (Some nd))) = nd_parent nd"
    "node_cells m ps (cells_of (the (set_cells m nm v (Some nd)))) = node_cells m ((nm, v, len) # ps) (cells_of nd)"
  using sint_less [of "bswap (ld32 m v)"] by (auto simp: small_cells_def set_cells_def cells_of_def node_cells_def)

lemma visit_mem_props:
  assumes "small_cells nd"
  shows "\<exists>nd'. visit_props (mem_cb self) m ps nd (m, e) = (Inr nd', (m, e\<lparr>ms_memory := ms_memory e \<or> is_memory m ps,
       reg_value := (case last_reg m ps of None \<Rightarrow> reg_value e | Some (v, len) \<Rightarrow> v),
       reg_len := (case last_reg m ps of None \<Rightarrow> reg_len e | Some (v, len) \<Rightarrow> len)\<rparr>)) \<and>
     small_cells nd' \<and> nd_parent nd' = nd_parent nd \<and> cells_of nd' = node_cells m ps (cells_of nd)"
  using assms
proof (induction ps arbitrary: nd e)
  case Nil
  then show ?case by (simp add: kreturn_def is_memory_def last_reg_def node_cells_def)
next
  case (Cons p ps)
  obtain nm v len where p: "p = (nm, v, len)" by (cases p)
  let ?e = "if str_is m nm ''device_type'' \<and> str_is m v ''memory'' then e\<lparr>ms_memory := True\<rparr>
    else if str_is m nm ''reg'' then e\<lparr>reg_value := v, reg_len := len\<rparr> else e"
  let ?n = "the (set_cells m nm v (Some nd))"
  have run: "visit_props (mem_cb self) m (p # ps) nd (m, e) = visit_props (mem_cb self) m ps ?n (m, ?e)"
    by (simp add: p mem_cb_def mem_prop_def Let_def kthen_def kbind_def kget_def kwhen_def kupd_def kput_def kreturn_def)
  have one: "\<not> (str_is m nm ''device_type'' \<and> str_is m nm ''reg'')"
    using str_is_unique [of m nm "''device_type''" "''reg''"] by auto
  show ?case
    unfolding run using Cons.IH [OF small_set_cells(1) [OF Cons.prems], of m nm v ?e] one
    unfolding small_set_cells(2) small_set_cells(3) [of m ps nm v nd len] p
    by (cases e; cases "last_reg m ps") (auto simp: is_memory_def last_reg_Cons)
qed

text \<open>One round of the loop, the loop while it makes progress, and the loop when it makes none.\<close>

lemma mem_range_eq:
  assumes "nd_parent node = Some pn" and c: "ac = nat (address_cells pn)" "sc = nat (size_cells pn)"
  shows "mem_range self node (v + of_nat (4 * (i * (ac + sc)))) (m, e) =
    (Inr (v + of_nat (4 * (Suc i * (ac + sc)))), (m, e\<lparr>g_mem_size := pick_range self (g_mem_size e) (reg_range m ac sc v i)\<rparr>))"
proof -
  obtain w base where wb: "get_cells m ac (v + of_nat (4 * (i * (ac + sc)))) 0 = (w, base)" by fastforce
  obtain w' sz where ws: "get_cells m sc w 0 = (w', sz)" by fastforce
  have "w' = v + of_nat (4 * (Suc i * (ac + sc)))"
    using get_cells_fst [of m ac "v + of_nat (4 * (i * (ac + sc)))" 0] get_cells_fst [of m sc w 0] wb ws
    by (simp add: algebra_simps)
  then show ?thesis
    using assms(1) wb ws unfolding c
    by (simp add: mem_range_def fdt_get_address_def fdt_get_size_def reg_range_def pick_range_def kbind_def kthen_def kget_def
        kwhen_def kupd_def kput_def kreturn_def)
qed

lemma sint_small: "- (2 ^ 63) \<le> k \<Longrightarrow> k < 2 ^ 63 \<Longrightarrow> sint (word_of_int k :: u64) = k"
  by (simp add: signed_of_int signed_take_bit_int_eq_self)

lemma reg_guard:
  assumes "0 \<le> len" "len < 2 ^ 31" "int x < len + 2 ^ 35"
  shows "0 < sint (v + word_of_int len - (v + of_nat x) :: u64) \<longleftrightarrow> int x < len"
proof -
  have "v + word_of_int len - (v + of_nat x) = (word_of_int (len - int x) :: u64)" by simp
  moreover have "sint (word_of_int (len - int x) :: u64) = len - int x"
    by (rule sint_small) (use assms in simp_all)
  ultimately show ?thesis by simp
qed

lemma reg_end_iff:
  assumes "0 \<le> len" "len < 2 ^ 31" "int x < len + 2 ^ 35"
  shows "v + word_of_int len = (v + of_nat x :: u64) \<longleftrightarrow> int x = len"
proof -
  have "sint (word_of_int len :: u64) = len" "sint (word_of_int (int x) :: u64) = int x"
    by (rule sint_small; use assms in simp)+
  then have "(word_of_int len :: u64) = word_of_int (int x) \<longleftrightarrow> int x = len" by metis
  then show ?thesis by simp
qed

lemma mem_step_bound:
  assumes "ac < 2 ^ 31" "sc < 2 ^ 31" "\<forall>i<N. int (4 * (i * (ac + sc))) < len" "0 \<le> len"
  shows "int (4 * (N * (ac + sc))) < len + 2 ^ 35"
proof (cases N)
  case (Suc j)
  then show ?thesis using assms(1,2) assms(3) [rule_format, of j] by (simp add: algebra_simps)
qed (use assms in simp)

lemma mem_loop:
  assumes par: "nd_parent node = Some pn" "ac = nat (address_cells pn)" "sc = nat (size_cells pn)"
    and len: "0 \<le> len" "len < 2 ^ 31" and small: "ac < 2 ^ 31" "sc < 2 ^ 31"
    and N: "\<forall>i<N. int (4 * (i * (ac + sc))) < len" "len \<le> int (4 * (N * (ac + sc)))"
  shows "i \<le> N \<Longrightarrow> N - i \<le> k \<Longrightarrow>
    kwhile k (\<lambda>x. 0 < sint (v + word_of_int len - x)) (mem_range self node) (v + of_nat (4 * (i * (ac + sc)))) (m, e) =
      (Inr (v + of_nat (4 * (N * (ac + sc)))),
       (m, e\<lparr>g_mem_size := foldl (pick_range self) (g_mem_size e) (map (reg_range m ac sc v) [i..<N])\<rparr>))"
proof (induction k arbitrary: i e)
  case 0
  then have "i = N" by simp
  then show ?case using reg_guard [OF len, of "4 * (N * (ac + sc))" v] mem_step_bound [OF small N(1) len(1)] N(2)
    by (simp add: kreturn_def del: of_nat_mult)
next
  case (Suc k)
  show ?case
  proof (cases "i = N")
    case True
    then show ?thesis using reg_guard [OF len, of "4 * (N * (ac + sc))" v] mem_step_bound [OF small N(1) len(1)] N(2)
      by (simp add: kreturn_def del: of_nat_mult)
  next
    case False
    then have i: "i < N" using Suc.prems by simp
    have x: "int (4 * (i * (ac + sc))) < len" using N(1) i by blast
    have g: "0 < sint (v + word_of_int len - (v + of_nat (4 * (i * (ac + sc)))))"
      using reg_guard [OF len, of "4 * (i * (ac + sc))" v] x by simp
    have "Suc i \<le> N" "N - Suc i \<le> k" using i Suc.prems by simp_all
    from Suc.IH [OF this] show ?thesis
      using g i by (simp add: kbind_def mem_range_eq [OF par] upt_conv_Cons del: of_nat_mult mult_Suc)
  qed
qed

lemma mem_loop_diverges:
  assumes par: "nd_parent node = Some pn" "nat (address_cells pn) + nat (size_cells pn) = 0" and len: "0 < len" "len < 2 ^ 31"
  shows "\<exists>e'. kwhile k (\<lambda>x. 0 < sint (v + word_of_int len - x)) (mem_range self node) v (m, e) = (Inl Diverge, (m, e'))"
proof (induction k arbitrary: e)
  case 0
  then show ?case using reg_guard [of len 0 v] len by (simp add: kraise_def)
next
  case (Suc k)
  have "mem_range self node v (m, e) =
      (Inr v, (m, e\<lparr>g_mem_size := pick_range self (g_mem_size e) (reg_range m 0 0 v 0)\<rparr>))"
    using mem_range_eq [OF par(1) refl refl, of self v 0 m e] par(2) by simp
  then show ?case using Suc.IH reg_guard [of len 0 v] len by (simp add: kbind_def)
qed

lemma mem_rounds:
  fixes len :: int
  assumes "0 \<le> len" "c \<noteq> (0 :: nat)"
  defines "N \<equiv> nat (len div (4 * int c)) + (if len mod (4 * int c) = 0 then 0 else 1)"
  shows "\<forall>i<N. int (4 * (i * c)) < len" "len \<le> int (4 * (N * c))" "int N \<le> len + 1"
    "int (4 * (N * c)) = len \<longleftrightarrow> len mod (4 * int c) = 0"
proof -
  let ?d = "4 * int c" and ?q = "len div (4 * int c)" and ?r = "len mod (4 * int c)"
  have d: "0 < ?d" using assms(2) by simp
  have eq: "len = ?q * ?d + ?r" by (rule div_mult_mod_eq [symmetric])
  have qr: "0 \<le> ?r" "?r < ?d" "0 \<le> ?q" using d assms(1) by (simp_all add: pos_imp_zdiv_nonneg_iff)
  have N: "int N = ?q + (if ?r = 0 then 0 else 1)" using qr(3) by (simp add: N_def)
  have x: "int (4 * (i * c)) = int i * ?d" for i by simp
  have "int (4 * (i * c)) < len" if "i < N" for i
  proof (cases "?r = 0")
    case True
    then have "int i + 1 \<le> ?q" using that N by simp
    then have "(int i + 1) * ?d \<le> ?q * ?d" using d by (intro mult_right_mono) auto
    then show ?thesis unfolding x using True eq d by (simp add: distrib_right)
  next
    case False
    then have "int i \<le> ?q" using that N by simp
    then have "int i * ?d \<le> ?q * ?d" using d by (intro mult_right_mono) auto
    then show ?thesis unfolding x using False eq qr(1) by linarith
  qed
  then show "\<forall>i<N. int (4 * (i * c)) < len" by blast
  have x': "int (4 * (N * c)) = ?q * ?d + (if ?r = 0 then 0 else ?d)" unfolding x N by (simp add: distrib_right)
  show "len \<le> int (4 * (N * c))" using x' eq qr(2) by (auto split: if_splits)
  show "int (4 * (N * c)) = len \<longleftrightarrow> ?r = 0" using x' eq qr(2) by (auto split: if_splits)
  have "?q \<le> len" using d assms(1) by (metis div_by_1 zdiv_mono2 int_one_le_iff_zero_less zero_less_one)
  then show "int N \<le> len + 1" using N by simp
qed

text \<open>The loop of \<^verbatim>\<open>mem_done\<close> and the assertion behind it, on a \<^verbatim>\<open>reg\<close> property of some words.\<close>

definition mem_scan_reg :: "u64 \<Rightarrow> fdt_scan_node \<Rightarrow> u64 \<Rightarrow> int \<Rightarrow> (bmem \<times> mem_scan, unit) km" where
  "mem_scan_reg self node v len =
     kbind (kwhile string_bound (\<lambda>x. 0 < sint (v + word_of_int len - x)) (mem_range self node) v) (\<lambda>x.
       if v + word_of_int len = x then kreturn () else kraise (Panic ''end == value''))"

lemma mem_done_reg:
  assumes "ms_memory e" "reg_value e = v" "reg_len e = len" "v \<noteq> 0" "0 \<le> len"
  shows "mem_done self node (m, e) =
    (if len mod 4 = 0 then mem_scan_reg self node v len (m, e)
     else (Inl (Panic ''scan->reg_value && scan->reg_len % 4 == 0''), (m, e)))"
proof -
  have m4: "len smod 4 = len mod 4" using assms(5) by (simp add: signed_modulo_int_def sgn_if)
  have "v + 4 * word_of_int (len sdiv 4) = v + (word_of_int len :: u64)" if "len mod 4 = 0"
  proof -
    have "4 * (len sdiv 4) = len" using that assms(5) by (auto simp: signed_divide_int_def sgn_if)
    then show ?thesis by (metis of_int_mult of_int_numeral)
  qed
  then show ?thesis using assms m4 by (simp add: mem_done_def mem_scan_reg_def kbind_def kget_def kraise_def Let_def)
qed

lemma mem_scan_reg_ranges:
  assumes par: "nd_parent node = Some pn" and c: "ac = nat (address_cells pn)" "sc = nat (size_cells pn)" "ac + sc \<noteq> 0"
    and small: "small_cells pn" and len: "0 \<le> len" "len < 2 ^ 31"
  shows "\<exists>e'. mem_scan_reg self node v len (m, e) =
      (if len mod (4 * int (ac + sc)) = 0 then Inr () else Inl (Panic ''end == value''), (m, e')) \<and>
    (len mod (4 * int (ac + sc)) = 0 \<longrightarrow> g_mem_size e' =
      foldl (pick_range self) (g_mem_size e) (map (reg_range m ac sc v) [0..<nat (len div (4 * int (ac + sc)))]))"
proof -
  have sm: "ac < 2 ^ 31" "sc < 2 ^ 31" using small by (auto simp: small_cells_def c)
  define N where "N = nat (len div (4 * int (ac + sc))) + (if len mod (4 * int (ac + sc)) = 0 then 0 else 1)"
  note N = mem_rounds [OF len(1) c(3), folded N_def]
  have "N - 0 \<le> string_bound" using N(3) len(2) by (simp add: string_bound_def)
  note L = mem_loop [OF par c(1,2) len sm N(1,2) le0 this, of v self m e, unfolded mult_0 mult_0_right semiring_1_class.of_nat_0 add_0_right]
  have "v + word_of_int len = v + of_nat (4 * (N * (ac + sc))) \<longleftrightarrow> len mod (4 * int (ac + sc)) = 0"
    unfolding reg_end_iff [OF len mem_step_bound [OF sm N(1) len(1)]] by (rule N(4))
  then have "mem_scan_reg self node v len (m, e) = (if len mod (4 * int (ac + sc)) = 0 then Inr () else Inl (Panic ''end == value''),
      (m, e\<lparr>g_mem_size := foldl (pick_range self) (g_mem_size e) (map (reg_range m ac sc v) [0..<N])\<rparr>))"
    unfolding mem_scan_reg_def kbind_def L prod.case sum.case by (simp only: kreturn_def kraise_def if_distribR split: if_split) simp
  then show ?thesis by (cases "len mod (4 * int (ac + sc)) = 0") (simp_all add: N_def)
qed

text \<open>A memory node stops the scan as \<open>reg_stop\<close> says, and otherwise its ranges decide.\<close>

lemma mem_scan_reg_eq:
  fixes v :: u64
  assumes len: "0 \<le> len" "len < 2 ^ 31" "len mod 4 = 0" and small: "\<And>pn. nd_parent node = Some pn \<Longrightarrow> small_cells pn"
  defines "n \<equiv> (map_option cells_of (nd_parent node), Some (v, len))"
  shows "\<exists>e'. mem_scan_reg self node v len (m, e) = (case reg_stop n of None \<Rightarrow> Inr () | Some x \<Rightarrow> Inl x, (m, e')) \<and>
    (reg_stop n = None \<longrightarrow> g_mem_size e' = foldl (pick_range self) (g_mem_size e) (node_ranges m n))"
proof -
  obtain b where b: "string_bound = Suc b" using Suc_pred' [of string_bound] by (simp add: string_bound_def)
  consider "len = 0" | "len \<noteq> 0" "nd_parent node = None" | pn where "len \<noteq> 0" "nd_parent node = Some pn" by blast
  then show ?thesis
  proof cases
    case 1
    then have "node_ranges m n = []" "reg_stop n = None" by (auto simp: n_def node_ranges_def reg_stop_def split: option.splits)
    then show ?thesis using 1 by (simp add: mem_scan_reg_def b kbind_def kreturn_def)
  next
    case 2
    then show ?thesis using len reg_guard [of len 0 v]
      by (simp add: n_def reg_stop_def mem_scan_reg_def b kbind_def mem_range_def kraise_def)
  next
    case 3
    obtain ac sc where c: "ac = nat (address_cells pn)" "sc = nat (size_cells pn)" by blast
    have stop: "reg_stop n = (if ac + sc = 0 then Some Diverge
        else if len mod (4 * int (ac + sc)) \<noteq> 0 then Some (Panic ''end == value'') else None)"
      unfolding c n_def reg_stop_def using 3 len(3) by (simp add: cells_of_def)
    have rs: "node_ranges m n = map (reg_range m ac sc v) [0..<nat (len div (4 * int (ac + sc)))]"
      unfolding n_def c by (simp add: 3 cells_of_def node_ranges_def)
    show ?thesis
    proof (cases "ac + sc = 0")
      case True
      then show ?thesis using mem_loop_diverges [OF 3(2) True [unfolded c], of len string_bound v self m e] 3(1) len stop
        by (auto simp: mem_scan_reg_def kbind_def)
    next
      case False
      from mem_scan_reg_ranges [OF 3(2) c False small [OF 3(2)] len(1,2), of self v m e] show ?thesis
        unfolding stop rs if_not_P [OF False] by (cases "len mod (4 * int (ac + sc)) = 0") simp_all
    qed
  qed
qed

lemma mem_done_eq:
  assumes mem: "ms_memory e" and small: "\<And>pn. nd_parent node = Some pn \<Longrightarrow> small_cells pn"
    and reg: "case reg of None \<Rightarrow> reg_value e = 0 | Some (v, len) \<Rightarrow> reg_value e = v \<and> reg_len e = len \<and> v \<noteq> 0 \<and> 0 \<le> len \<and> len < 2 ^ 31"
  defines "n \<equiv> (map_option cells_of (nd_parent node), reg)"
  shows "\<exists>e'. mem_done self node (m, e) = (case reg_stop n of None \<Rightarrow> Inr () | Some x \<Rightarrow> Inl x, (m, e')) \<and>
    (reg_stop n = None \<longrightarrow> g_mem_size e' = foldl (pick_range self) (g_mem_size e) (node_ranges m n))"
proof (cases reg)
  case None
  then show ?thesis using mem reg by (simp add: mem_done_def n_def reg_stop_def kbind_def kget_def kraise_def Let_def)
next
  case (Some r)
  then obtain v len where r: "reg = Some (v, len)" by (cases r) auto
  then have e: "reg_value e = v" "reg_len e = len" "v \<noteq> 0" "0 \<le> len" "len < 2 ^ 31" using reg by auto
  note run = mem_done_reg [OF mem e(1-4), of self node m]
  show ?thesis
  proof (cases "len mod 4 = 0")
    case True
    from mem_scan_reg_eq [OF e(4,5) True small, where v = v and self = self and m = m and e = e] show ?thesis unfolding run n_def r by (simp add: True)
  next
    case False
    then show ?thesis unfolding run by (simp add: n_def r reg_stop_def)
  qed
qed

text \<open>The properties of a blob have a length and an address that is not null.\<close>

definition props_fit :: "(u64 \<times> u64 \<times> int) list \<Rightarrow> bool" where
  "props_fit ps \<longleftrightarrow> (\<forall>(nm, v, len)\<in>set ps. v \<noteq> 0 \<and> 0 \<le> len \<and> len < 2 ^ 31)"

lemma props_at_fit: "props_at m st n a ps b \<Longrightarrow> props_fit ps"
proof (induction rule: props_at.induct)
  case (props_cons a nm len n ps b)
  have "unat (a + 12) = unat a + 12" using props_cons.hyps(4,6) by (simp add: unat_word_ariths)
  then have "a + 12 \<noteq> 0" using unat_eq_zero [of "a + 12"] by linarith
  then show ?case using props_cons by (simp add: props_fit_def)
qed (simp_all add: props_fit_def)

lemma forest_at_fit: "forest_at m st n a ts b \<Longrightarrow> \<forall>t\<in>set (all_nodes ts). props_fit (t_props t)"
  by (induction rule: forest_at.induct) (auto dest: props_at_fit)

text \<open>The first thing that is wrong with the memory nodes, and the size that they give.\<close>

definition first_stop :: "((int \<times> int) option \<times> (u64 \<times> int) option) list \<Rightarrow> kstop option" where
  "first_stop ns = (case List.map_filter reg_stop ns of [] \<Rightarrow> None | x # _ \<Rightarrow> Some x)"

lemma first_stop_simps [simp]: "first_stop [] = None"
  "first_stop (n # ns) = (case reg_stop n of None \<Rightarrow> first_stop ns | Some x \<Rightarrow> Some x)"
  "first_stop (ns @ ns') = (case first_stop ns of None \<Rightarrow> first_stop ns' | Some x \<Rightarrow> Some x)"
  by (auto simp: first_stop_def List.map_filter_def split: option.splits list.splits) 

definition memory_size :: "bmem \<Rightarrow> u64 \<Rightarrow> u64 \<Rightarrow> ((int \<times> int) option \<times> (u64 \<times> int) option) list \<Rightarrow> u64" where
  "memory_size m self g ns = foldl (pick_range self) g (concat (map (node_ranges m) ns))"

lemma memory_size_simps [simp]: "memory_size m self g [] = g"
  "memory_size m self g (n # ns) = memory_size m self (foldl (pick_range self) g (node_ranges m n)) ns"
  "memory_size m self g (ns @ ns') = memory_size m self (memory_size m self g ns) ns'"
  by (simp_all add: memory_size_def)

text \<open>What a part of the scan does to \<^verbatim>\<open>g_mem_size\<close> when the memory nodes it meets are \<open>ns\<close>.\<close>

definition mem_outcome :: "bmem \<Rightarrow> u64 \<Rightarrow> mem_scan \<Rightarrow> ((int \<times> int) option \<times> (u64 \<times> int) option) list \<Rightarrow>
    kstop + 'a \<Rightarrow> bmem \<times> mem_scan \<Rightarrow> bool" where
  "mem_outcome m self e ns r t \<longleftrightarrow> fst t = m \<and> (case first_stop ns of
       Some x \<Rightarrow> r = Inl x
     | None \<Rightarrow> (\<exists>y. r = Inr y) \<and> g_mem_size (snd t) = memory_size m self (g_mem_size e) ns)"

lemma mem_outcome_bind:
  assumes f: "\<exists>r t. f (m, e) = (r, t) \<and> mem_outcome m self e0 ns r t"
    and g: "\<And>x e'. \<exists>r t. g x (m, e') = (r, t) \<and> mem_outcome m self e' ns' r t"
  shows "\<exists>r t. kbind f g (m, e) = (r, t) \<and> mem_outcome m self e0 (ns @ ns') r t"
proof -
  obtain r t where r: "f (m, e) = (r, t)" "mem_outcome m self e0 ns r t" using f by blast
  show ?thesis
  proof (cases "first_stop ns")
    case None
    then obtain x e' where x: "r = Inr x" "t = (m, e')" "g_mem_size e' = memory_size m self (g_mem_size e0) ns"
      using r(2) by (cases t) (auto simp: mem_outcome_def)
    obtain r' t' where "g x (m, e') = (r', t')" "mem_outcome m self e' ns' r' t'" using g by blast
    then show ?thesis using r(1) x None by (auto simp: kbind_def mem_outcome_def split: option.splits)
  next
    case (Some x)
    then show ?thesis using r by (auto simp: kbind_def mem_outcome_def)
  qed
qed

lemma mem_node_outcome:
  fixes m :: bmem
  assumes fit: "props_fit ps" and small: "\<And>n. node = Some n \<Longrightarrow> small_cells n" "small_cells child"
  defines "ns \<equiv> if is_memory m ps then [(map_option cells_of node, last_reg m ps)] else []"
  obtains nd' e' where "visit_props (mem_cb self) m ps (name_child node nm child) (m, e\<lparr>ms_memory := False, reg_value := 0, reg_len := 0\<rparr>) =
      (Inr nd', (m, e'))" "small_cells nd'" "nd_parent nd' = node" "cells_of nd' = node_cells m ps (cells_of child)"
    "\<exists>r t. mem_done self nd' (m, e') = (r, t) \<and> mem_outcome m self e ns r t"
proof -
  let ?e = "e\<lparr>ms_memory := False, reg_value := 0, reg_len := 0\<rparr>"
  let ?e' = "?e\<lparr>ms_memory := is_memory m ps, reg_value := (case last_reg m ps of None \<Rightarrow> 0 | Some (v, len) \<Rightarrow> v),
     reg_len := (case last_reg m ps of None \<Rightarrow> 0 | Some (v, len) \<Rightarrow> len)\<rparr>"
  obtain nd' where nd: "visit_props (mem_cb self) m ps (name_child node nm child) (m, ?e) = (Inr nd', (m, ?e'))"
    "small_cells nd'" "nd_parent nd' = node" "cells_of nd' = node_cells m ps (cells_of child)"
    using visit_mem_props [of "name_child node nm child" self m ps ?e] small(2) by (auto cong: option.case_cong)
  have reg: "case last_reg m ps of None \<Rightarrow> reg_value ?e' = 0
    | Some (v, len) \<Rightarrow> reg_value ?e' = v \<and> reg_len ?e' = len \<and> v \<noteq> 0 \<and> 0 \<le> len \<and> len < 2 ^ 31"
    using fit last_reg_in [of m ps] by (fastforce simp: props_fit_def split: option.splits)
  have "\<exists>r t. mem_done self nd' (m, ?e') = (r, t) \<and> mem_outcome m self e ns r t"
  proof (cases "is_memory m ps")
    case True
    then have "ms_memory ?e'" by simp
    from mem_done_eq [OF this _ reg, of nd' self m] small(1) nd(3) True show ?thesis
      by (auto simp: mem_outcome_def ns_def split: option.splits)
  next
    case False
    then show ?thesis by (simp add: mem_done_def kbind_def kget_def kreturn_def Let_def mem_outcome_def ns_def)
  qed
  from that [OF nd this] show thesis .
qed

lemma visit_mem_forest:
  assumes "\<forall>t\<in>set (all_nodes ts). props_fit (t_props t)" "\<And>n. node = Some n \<Longrightarrow> small_cells n" "small_cells ch"
  shows "\<exists>r t. visit_forest (mem_cb self) m node ch ts (m, e) = (r, t) \<and>
    mem_outcome m self e (mem_nodes m (map_option cells_of node) (cells_of ch) ts) r t"
proof -
  have "cb = mem_cb self \<and> m0 = m \<and> (\<forall>t\<in>set (all_nodes ts). props_fit (t_props t)) \<and>
      (\<forall>n. node = Some n \<longrightarrow> small_cells n) \<and> small_cells ch \<longrightarrow>
      (\<forall>e. \<exists>r t. visit_forest cb m0 node ch ts (m, e) = (r, t) \<and>
        mem_outcome m self e (mem_nodes m (map_option cells_of node) (cells_of ch) ts) r t)" for cb m0
  proof (induction cb m0 node ch ts rule: visit_forest.induct)
    case (1 cb m0 node child)
    then show ?case by (simp add: kreturn_def mem_outcome_def)
  next
    case (2 cb m0 node child nm ps ks ts)
    show ?case
    proof (intro impI allI, elim conjE)
      fix e :: mem_scan
      assume cb: "cb = mem_cb self" and m0: "m0 = m" and fit: "\<forall>t\<in>set (all_nodes (Fdt_Tree nm ps ks # ts)). props_fit (t_props t)"
        and sm: "\<forall>n. node = Some n \<longrightarrow> small_cells n" "small_cells child"
      let ?c = "name_child node nm child" and ?e = "e\<lparr>ms_memory := False, reg_value := 0, reg_len := 0\<rparr>"
      have ps: "props_fit ps" using fit by simp
      obtain c1 e1 where c1: "visit_props (mem_cb self) m ps ?c (m, ?e) = (Inr c1, (m, e1))" "small_cells c1" "nd_parent c1 = node"
          "cells_of c1 = node_cells m ps (cells_of child)"
        and dn: "\<exists>r t. mem_done self c1 (m, e1) = (r, t) \<and>
          mem_outcome m self e (if is_memory m ps then [(map_option cells_of node, last_reg m ps)] else []) r t"
        by (rule mem_node_outcome [OF ps _ sm(2), where node = node and m = m and self = self and nm = nm and e = e]) (use sm(1) in blast)+
      have o: "call_open cb ?c (m, e) = (Inr (), (m, ?e))"
        by (simp add: cb call_open_def mem_cb_def mem_open_def kupd_def kput_def)
      have run: "visit_forest cb m0 node child (Fdt_Tree nm ps ks # ts) (m, e) =
          kthen (mem_done self c1) (kbind (visit_forest cb m (Some c1) new_child ks) (\<lambda>_. visit_forest cb m node c1 ts)) (m, e1)"
        using o c1(1) by (simp add: cb m0 Let_def kthen_def kbind_def call_done_def mem_cb_def kwhen_def)
      have kids: "\<exists>r t. visit_forest cb m (Some c1) new_child ks (m, e2) = (r, t) \<and>
          mem_outcome m self e2 (mem_nodes m (Some (node_cells m ps (cells_of child))) (2, 1) ks) r t" for e2
        using "2.IH"(1) [OF refl, of c1] c1 fit cb m0 by simp
      have rest: "\<exists>r t. visit_forest cb m node c1 ts (m, e2) = (r, t) \<and>
          mem_outcome m self e2 (mem_nodes m (map_option cells_of node) (node_cells m ps (cells_of child)) ts) r t" for e2
        using "2.IH"(2) [OF refl, of c1] c1 fit sm cb m0 by simp
      show "\<exists>r t. visit_forest cb m0 node child (Fdt_Tree nm ps ks # ts) (m, e) = (r, t) \<and>
          mem_outcome m self e (mem_nodes m (map_option cells_of node) (cells_of child) (Fdt_Tree nm ps ks # ts)) r t"
        unfolding run mem_nodes.simps kthen_def by (intro mem_outcome_bind dn kids rest)
    qed
  qed
  with assms show ?thesis by blast
qed

section \<open>Properties\<close>

text \<open>
  Discovering the host interface: on a device tree blob that encodes the trees \<open>ts\<close>, \<^verbatim>\<open>query_htif\<close> returns,
  leaves the blob as it is, and sets \<^verbatim>\<open>htif\<close> exactly when some node of the trees, at any depth, has the
  property \<^verbatim>\<open>compatible\<close> with the value \<^verbatim>\<open>ucb,htif0\<close> (or it was set before).\<close>

theorem query_htif_correct:
  assumes "blob_at m fdt ts"
  shows "\<exists>e'. query_htif fdt (m, e) = (Inr (), (m, e')) \<and>
    htif e' = (htif e \<or> (\<exists>t\<in>set (all_nodes ts). has_prop m ''compatible'' ''ucb,htif0'' t))"
proof -
  obtain nd' e' where "visit_forest htif_cb m None new_child ts (m, e) = (Inr nd', (m, e'))"
      "htif e' = (htif e \<or> (\<exists>t\<in>set (all_nodes ts). has_prop m ''compatible'' ''ucb,htif0'' t))"
    using visit_htif_forest by blast
  then show ?thesis
    using htif.fdt_scan_visit [OF assms] by (auto simp: query_htif_def same_on_def kbind_def kreturn_def)
qed

text \<open>
  C17. The size of the memory: on a blob that encodes the trees \<open>ts\<close>, \<^verbatim>\<open>query_mem\<close> computes the memory that they describe, and
  leaves the blob as it is.  \<open>mem_nodes\<close> lists the nodes with \<^verbatim>\<open>device_type\<close> \<^verbatim>\<open>memory\<close>, each with the cell counts of its parent
  and its last \<^verbatim>\<open>reg\<close> property.  If one of them is malformed, the scan stops at the first such node, in the way that
  \<open>reg_stop\<close> says: at the first assertion (no \<^verbatim>\<open>reg\<close>, or a length that is no number of words), at the null parent of a top-level node, forever when
  the parent's counts give an empty range, or at the last assertion (a length that is no number of ranges).  Otherwise it returns with
  \<^verbatim>\<open>g_mem_size\<close> the size of the last range, read with the counts of the node's parent, that contains the kernel, and stops at the assertion
  \<^verbatim>\<open>g_mem_size > 0\<close> when no range does or that size is zero.\<close>

theorem query_mem_finds_kernel:
  assumes "blob_at m fdt ts"
  defines "ns \<equiv> mem_nodes m None (2, 1) ts"
  shows "\<exists>r e'. query_mem self fdt (m, e) = (r, (m, e')) \<and>
    (case List.map_filter reg_stop ns of
       x # _ \<Rightarrow> r = Inl x
     | [] \<Rightarrow> g_mem_size e' = foldl (pick_range self) 0 (concat (map (node_ranges m) ns)) \<and>
         r = (if g_mem_size e' = 0 then Inl (Panic ''g_mem_size > 0'') else Inr ()))"
proof -
  let ?e = "e\<lparr>g_mem_size := 0\<rparr>"
  have "\<forall>t\<in>set (all_nodes ts). props_fit (t_props t)"
    using assms(1) unfolding blob_at_def by (elim conjE exE) (erule forest_at_fit)
  then obtain r t where rt: "visit_forest (mem_cb self) m None new_child ts (m, ?e) = (r, t)" "mem_outcome m self ?e ns r t"
    using visit_mem_forest [of ts None new_child self m ?e] by (auto simp: ns_def)
  have scan: "fdt_scan fdt (mem_cb self) (m, ?e) = kbind (visit_forest (mem_cb self) m None new_child ts) (\<lambda>_. kreturn ()) (m, ?e)"
    using mem.fdt_scan_visit [OF assms(1)] by (simp add: same_on_def)
  have t: "t = (m, snd t)" using rt(2) by (cases t) (simp add: mem_outcome_def)
  let ?g = "g_mem_size (snd t)"
  have run: "query_mem self fdt (m, e) = (case r of Inl x \<Rightarrow> Inl x
      | Inr _ \<Rightarrow> if ?g = 0 then Inl (Panic ''g_mem_size > 0'') else Inr (), (m, snd t))"
    using rt(1) scan t
    by (cases t) (auto simp: query_mem_def kbind_def kthen_def kupd_def kput_def kget_def kreturn_def kraise_def word_gt_0 split: sum.splits)
  show ?thesis
    unfolding run
    by (rule exI, rule exI [of _ "snd t"], rule conjI [OF refl])
      (use rt(2) in \<open>auto simp: mem_outcome_def first_stop_def memory_size_def split: list.splits\<close>)
qed

theorem query_htif_correct_witness:
  "\<exists>e'. query_htif 0x1000 (demo_blob, \<lparr>compat = False, htif = False\<rparr>) = (Inr (), (demo_blob, e')) \<and> htif e'"
  using query_htif_correct [OF demo_blob_at, of "\<lparr>compat = False, htif = False\<rparr>"]
  by (simp add: demo_trees_def has_prop_def demo_strings)

lemma demo_mem_nodes: "mem_nodes demo_blob None (2, 1) demo_trees = [(Some (2, 1), Some (0x1058, 12))]"
  by (simp add: demo_trees_def is_memory_def last_reg_def node_cells_def demo_strings)

lemma demo_ranges: "node_ranges demo_blob (Some (2, 1), Some (0x1058, 12)) = [(0x80000000, 0x10000000)]"
  by (simp add: node_ranges_def reg_range_def demo_address demo_reg)

theorem query_mem_finds_kernel_witness:
  "\<exists>e'. query_mem 0x80000100 0x1000 (demo_blob, \<lparr>ms_memory = False, reg_value = 0, reg_len = 0, g_mem_size = 0\<rparr>) =
       (Inr (), (demo_blob, e')) \<and> g_mem_size e' = 0x10000000"
  using query_mem_finds_kernel [OF demo_blob_at, of "0x80000100" "\<lparr>ms_memory = False, reg_value = 0, reg_len = 0, g_mem_size = 0\<rparr>"]
  by (auto simp: demo_mem_nodes demo_ranges List.map_filter_def reg_stop_def pick_range_def)

end
