(* ===== verification/Htif.thy ===== *)
theory Htif
  imports Snprintf
begin

unbundle bit_operations_syntax

text \<open>
  The host-target interface, \<^verbatim>\<open>spike_interface/spike_htif.c\<close>, and what \<^verbatim>\<open>spike_interface/spike_utils.c\<close> builds on it:
  calls of the host and printing.

  The kernel writes a command to the register \<^verbatim>\<open>tohost\<close> and polls \<^verbatim>\<open>fromhost\<close> for the answer.  The host is not part
  of the program: it is the parameter \<open>D\<close>, a function that is applied to the registers (and to the block of
  the call) between two readings of a polling loop.  The loops have a bound \<open>n\<close> on the number of readings;
  \<open>answers D k R\<close> is the promise of the host under which every loop ends within it.  The lock of the
  interface is the one of \<open>spinlock_next\<close>; here one hart uses it, so a lock that is taken is \<open>Spin\<close>.
\<close>

section \<open>The transport\<close>

definition TOHOST_CMD :: "u64 \<Rightarrow> u64 \<Rightarrow> u64 \<Rightarrow> u64" where
  "TOHOST_CMD dev cmd payload = push_bit 56 dev OR push_bit 48 cmd OR payload"

definition FROMHOST_DEV :: "u64 \<Rightarrow> u64" where "FROMHOST_DEV fh = drop_bit 56 fh"
definition FROMHOST_CMD :: "u64 \<Rightarrow> u64" where "FROMHOST_CMD fh = drop_bit 56 (push_bit 8 fh)"
definition FROMHOST_DATA :: "u64 \<Rightarrow> u64" where "FROMHOST_DATA fh = drop_bit 16 (push_bit 16 fh)"

record htif_state =
  tohost :: u64
  fromhost :: u64
  htif_console_buf :: int
  htif_lock :: int
  magic_mem :: "nat \<Rightarrow> u64"
  call_lock :: int

text \<open>The host as seen from one polling of the registers to the next.\<close>

type_synonym htif_host = "htif_state \<Rightarrow> htif_state"

definition check_fromhost :: "(htif_state, unit) km" where
  "check_fromhost = kbind (kget fromhost) (\<lambda>fh.
     if fh = 0 then kreturn ()
     else kthen (kput (\<lambda>s. s\<lparr>fromhost := 0\<rparr>))
       (if FROMHOST_DEV fh \<noteq> 1 then kraise (Panic ''FROMHOST_DEV(fh) == 1'')
        else if FROMHOST_CMD fh = 0 then
          kput (\<lambda>s. s\<lparr>htif_console_buf := 1 + uint (ucast (FROMHOST_DATA fh) :: u8)\<rparr>)
        else if FROMHOST_CMD fh = 1 then kreturn ()
        else kraise (Panic ''0'')))"

text \<open>\<^verbatim>\<open>while (tohost) __check_fromhost();\<close> with at most \<open>n\<close> readings of the register.\<close>

primrec await_tohost :: "htif_host \<Rightarrow> nat \<Rightarrow> (htif_state, unit) km" where
  "await_tohost D 0 = kraise Diverge"
| "await_tohost D (Suc n) = kbind (kget tohost) (\<lambda>th.
     if th = 0 then kreturn () else kthen check_fromhost (kthen (kput D) (await_tohost D n)))"

definition set_tohost :: "htif_host \<Rightarrow> nat \<Rightarrow> u64 \<Rightarrow> u64 \<Rightarrow> u64 \<Rightarrow> (htif_state, unit) km" where
  "set_tohost D n dev cmd data = kthen (await_tohost D n) (kput (\<lambda>s. s\<lparr>tohost := TOHOST_CMD dev cmd data\<rparr>))"

primrec await_fromhost :: "htif_host \<Rightarrow> nat \<Rightarrow> u64 \<Rightarrow> u64 \<Rightarrow> (htif_state, unit) km" where
  "await_fromhost D 0 dev cmd = kraise Diverge"
| "await_fromhost D (Suc n) dev cmd = kbind (kget fromhost) (\<lambda>fh.
     if fh \<noteq> 0 \<and> FROMHOST_DEV fh = dev \<and> FROMHOST_CMD fh = cmd then kput (\<lambda>s. s\<lparr>fromhost := 0\<rparr>)
     else kthen (kwhen (fh \<noteq> 0) check_fromhost) (kthen (kput D) (await_fromhost D n dev cmd)))"

text \<open>\<^verbatim>\<open>spinlock_lock\<close> on one hart: a held lock is never released while it spins.\<close>

definition lock_htif :: "(htif_state, unit) km" where
  "lock_htif = kbind (kget htif_lock) (\<lambda>l. if l \<noteq> 0 then kraise Spin else kput (\<lambda>s. s\<lparr>htif_lock := -1\<rparr>))"

definition unlock_htif :: "(htif_state, unit) km" where
  "unlock_htif = kput (\<lambda>s. s\<lparr>htif_lock := 0\<rparr>)"

definition do_tohost_fromhost :: "htif_host \<Rightarrow> nat \<Rightarrow> u64 \<Rightarrow> u64 \<Rightarrow> u64 \<Rightarrow> (htif_state, unit) km" where
  "do_tohost_fromhost D n dev cmd data =
     kthen lock_htif (kthen (set_tohost D n dev cmd data) (kthen (await_fromhost D n dev cmd) unlock_htif))"

definition htif_syscall :: "htif_host \<Rightarrow> nat \<Rightarrow> u64 \<Rightarrow> (htif_state, unit) km" where
  "htif_syscall D n arg = do_tohost_fromhost D n 0 0 arg"

definition htif_console_putchar :: "htif_host \<Rightarrow> nat \<Rightarrow> u8 \<Rightarrow> (htif_state, unit) km" where
  "htif_console_putchar D n ch = kthen lock_htif (kthen (set_tohost D n 1 1 (ucast ch)) unlock_htif)"

definition htif_console_getchar :: "htif_host \<Rightarrow> nat \<Rightarrow> (htif_state, int) km" where
  "htif_console_getchar D n =
     kthen lock_htif (kthen check_fromhost (kbind (kget htif_console_buf) (\<lambda>ch.
     kthen (kwhen (0 \<le> ch) (kthen (kput (\<lambda>s. s\<lparr>htif_console_buf := -1\<rparr>)) (set_tohost D n 1 0 0)))
     (kthen unlock_htif (kreturn (ch - 1))))))"

definition htif_poweroff :: "(htif_state, 'a) km" where
  "htif_poweroff = kthen (kput (\<lambda>s. s\<lparr>fromhost := 0, tohost := 1\<rparr>)) (kraise Diverge)"

section \<open>Calls of the host and printing\<close>

text \<open>\<open>magic\<close> is the address of the static array \<^verbatim>\<open>magic_mem\<close>.\<close>

definition frontend_call :: "htif_host \<Rightarrow> nat \<Rightarrow> u64 \<Rightarrow> u64 \<Rightarrow> (nat \<Rightarrow> u64) \<Rightarrow> (htif_state, u64) km" where
  "frontend_call D n magic num a =
     kbind (kget call_lock) (\<lambda>l. if l \<noteq> 0 then kraise Spin else
     kthen (kput (\<lambda>s. s\<lparr>call_lock := -1, magic_mem := (\<lambda>i. if i = 0 then num else a (i - 1))\<rparr>))
     (kthen (htif_syscall D n magic)
     (kbind (kget (\<lambda>s. magic_mem s 0)) (\<lambda>ret.
      kthen (kput (\<lambda>s. s\<lparr>call_lock := 0\<rparr>)) (kreturn ret)))))"

definition mcall_console_putchar :: "htif_host \<Rightarrow> nat \<Rightarrow> bool \<Rightarrow> u8 \<Rightarrow> (htif_state, u64) km" where
  "mcall_console_putchar D n htif ch = kthen (kwhen htif (htif_console_putchar D n ch)) (kreturn 0)"

text \<open>\<^verbatim>\<open>putstring\<close> of the string \<open>cs\<close>.\<close>

definition putstring :: "htif_host \<Rightarrow> nat \<Rightarrow> bool \<Rightarrow> u8 list \<Rightarrow> (htif_state, unit) km" where
  "putstring D n htif cs = kfor cs (\<lambda>c. kbind (mcall_console_putchar D n htif c) (\<lambda>_. kreturn ()))"

text \<open>
  The bytes that \<^verbatim>\<open>vprintk\<close> hands to \<^verbatim>\<open>spike_file_write\<close>: its local buffer of 256 bytes at \<open>out\<close>, as far as the
  length, which is compared as an unsigned number.
\<close>

definition vprintk :: "u64 \<Rightarrow> u64 \<Rightarrow> u64 list \<Rightarrow> (bmem, u8 list) km" where
  "vprintk out s vl = kbind (vsnprintf out 256 s vl) (\<lambda>res.
     kget (\<lambda>m. map (\<lambda>i. m (out + of_nat i)) [0..<unat (if word_of_int res < (256 :: u64) then word_of_int res else (256 :: u64))]))"

definition sprint :: "u64 \<Rightarrow> u64 \<Rightarrow> u64 list \<Rightarrow> (bmem, u8 list) km" where
  "sprint out s vl = vprintk out s vl"

section \<open>A host that answers\<close>

text \<open>
  What the kernel relies on: a call that is posted to device 0 while no answer is pending is answered after
  at most \<open>k\<close> further readings; the host then has taken the call, has posted an answer of device 0 and
  command 0, and has put the result \<open>R\<close> of the call into the first word of its block.
\<close>

definition answers :: "htif_host \<Rightarrow> nat \<Rightarrow> ((nat \<Rightarrow> u64) \<Rightarrow> u64) \<Rightarrow> bool" where
  "answers D k R \<longleftrightarrow> (\<forall>s. tohost s \<noteq> 0 \<and> FROMHOST_DEV (tohost s) = 0 \<and> fromhost s = 0 \<longrightarrow>
     (\<exists>j\<le>k. (\<forall>i<j. fromhost ((D ^^ i) s) = 0) \<and>
       (\<exists>r. r \<noteq> 0 \<and> FROMHOST_DEV r = 0 \<and> FROMHOST_CMD r = 0 \<and>
         (D ^^ j) s = s\<lparr>tohost := 0, fromhost := r, magic_mem := (magic_mem s)(0 := R (magic_mem s))\<rparr>)))"

lemma await_fromhost_eq:
  assumes "\<forall>i<j. fromhost ((D ^^ i) s) = 0" "fromhost ((D ^^ j) s) = r" "r \<noteq> 0" "FROMHOST_DEV r = dev"
    "FROMHOST_CMD r = cmd" "j < n"
  shows "await_fromhost D n dev cmd s = (Inr (), ((D ^^ j) s)\<lparr>fromhost := 0\<rparr>)"
  using assms
proof (induction j arbitrary: s n)
  case 0
  then obtain k where "n = Suc k" by (cases n) auto
  with 0 show ?case by (simp add: kbind_def kget_def kput_def)
next
  case (Suc j)
  then obtain k where n: "n = Suc k" "j < k" by (cases n) auto
  have "fromhost s = 0" using Suc.prems(1) by (metis funpow_0 zero_less_Suc)
  then have "await_fromhost D n dev cmd s = await_fromhost D k dev cmd (D s)"
    by (simp add: n kbind_def kthen_def kget_def kput_def kwhen_def kreturn_def)
  moreover have "\<forall>i<j. fromhost ((D ^^ i) (D s)) = 0" 
  proof (intro allI impI)
    fix i assume "i < j"
    then have "fromhost ((D ^^ Suc i) s) = 0" using Suc.prems(1) by blast
    then show "fromhost ((D ^^ i) (D s)) = 0" by (simp add: funpow_swap1)
  qed
  moreover have "(D ^^ Suc j) s = (D ^^ j) (D s)" by (simp add: funpow_swap1)
  ultimately show ?case using Suc.IH [of "D s" k] Suc.prems(2-5) n(2) by simp
qed

lemma htif_syscall_eq:
  assumes "answers D k R" "k < n" "magic \<noteq> 0" "FROMHOST_DEV magic = 0"
    and "tohost s = 0" "fromhost s = 0" "htif_lock s = 0"
  shows "htif_syscall D n magic s = (Inr (), s\<lparr>magic_mem := (magic_mem s)(0 := R (magic_mem s))\<rparr>)"
proof -
  let ?s = "s\<lparr>htif_lock := -1, tohost := magic\<rparr>"
  obtain i where n: "n = Suc i" using assms(2) by (cases n) auto
  have cmd: "TOHOST_CMD 0 0 magic = magic" by (simp add: TOHOST_CMD_def)
  have "tohost ?s \<noteq> 0 \<and> FROMHOST_DEV (tohost ?s) = 0 \<and> fromhost ?s = 0" using assms by simp
  then obtain j r where j: "j \<le> k" "\<forall>i<j. fromhost ((D ^^ i) ?s) = 0" "r \<noteq> 0" "FROMHOST_DEV r = 0" "FROMHOST_CMD r = 0"
      "(D ^^ j) ?s = ?s\<lparr>tohost := 0, fromhost := r, magic_mem := (magic_mem ?s)(0 := R (magic_mem ?s))\<rparr>"
    using assms(1) unfolding answers_def by blast
  have "await_fromhost D n 0 0 ?s = (Inr (), ((D ^^ j) ?s)\<lparr>fromhost := 0\<rparr>)"
    using j assms(2) by (intro await_fromhost_eq [where r = r]) auto
  then have wait: "await_fromhost D n 0 0 ?s =
      (Inr (), ?s\<lparr>tohost := 0, fromhost := 0, magic_mem := (magic_mem s)(0 := R (magic_mem s))\<rparr>)"
    by (simp add: j(6))
  have set: "set_tohost D n 0 0 magic (s\<lparr>htif_lock := -1\<rparr>) = (Inr (), ?s)"
    using assms(5) by (simp add: set_tohost_def n cmd kbind_def kthen_def kget_def kput_def kreturn_def)
  show ?thesis
    unfolding htif_syscall_def do_tohost_fromhost_def
    using assms(5-7) set wait by (simp add: lock_htif_def unlock_htif_def kbind_def kthen_def kget_def kput_def)
qed

lemma frontend_call_eq:
  fixes num :: u64 and a :: "nat \<Rightarrow> u64"
  assumes "answers D k R" "k < n" "magic \<noteq> 0" "FROMHOST_DEV magic = 0"
    and "tohost s = 0" "fromhost s = 0" "htif_lock s = 0" "call_lock s = 0"
  defines "block \<equiv> \<lambda>i. if i = 0 then num else a (i - 1)"
  shows "frontend_call D n magic num a s = (Inr (R block), s\<lparr>magic_mem := block(0 := R block), call_lock := 0\<rparr>)"
proof -
  let ?s = "s\<lparr>call_lock := -1, magic_mem := block\<rparr>"
  have "htif_syscall D n magic ?s = (Inr (), ?s\<lparr>magic_mem := block(0 := R block)\<rparr>)"
    using htif_syscall_eq [OF assms(1-4), of ?s] assms(5-7) by simp
  then show ?thesis
    using assms(5-8) by (simp add: frontend_call_def block_def kbind_def kthen_def kget_def kput_def kreturn_def)
qed

section \<open>Properties\<close>

text \<open>
  C19. A call of the host returns: when the host answers within \<open>k\<close> readings of the registers, then a system
  call with the number \<open>num\<close> and the arguments \<open>a\<close>, made while the interface is idle, ends, returns the
  result that the host computed from the block it was given, and leaves the interface idle again, with no
  answer pending and both locks released, so that the next call returns as well.\<close>

theorem frontend_call_returns:
  assumes "answers D k R" "k < n" "magic \<noteq> 0" "FROMHOST_DEV magic = 0"
    and "tohost s = 0" "fromhost s = 0" "htif_lock s = 0" "call_lock s = 0"
  shows "\<exists>t. frontend_call D n magic num a s = (Inr (R (\<lambda>i. if i = 0 then num else a (i - 1))), t) \<and>
    tohost t = 0 \<and> fromhost t = 0 \<and> htif_lock t = 0 \<and> call_lock t = 0 \<and> htif_console_buf t = htif_console_buf s"
  using frontend_call_eq [OF assms, of num a] assms(5-8) by simp

text \<open>A host that takes a call at the first reading after it was posted, and returns the call's number plus one.\<close>

definition demo_htif :: htif_host where
  "demo_htif s = (if tohost s \<noteq> 0 \<and> fromhost s = 0
     then s\<lparr>tohost := 0, fromhost := 1, magic_mem := (magic_mem s)(0 := magic_mem s 0 + 1)\<rparr> else s)"

lemma demo_htif_answers: "answers demo_htif 1 (\<lambda>m. m 0 + 1)"
proof -
  have "FROMHOST_DEV 1 = 0" "FROMHOST_CMD 1 = 0" by (simp_all add: FROMHOST_DEV_def FROMHOST_CMD_def)
  then show ?thesis
    unfolding answers_def by (intro allI impI exI [of _ "1 :: nat"] conjI) (auto simp: demo_htif_def intro!: exI [of _ "1 :: u64"])
qed

theorem frontend_call_returns_witness:
  "\<exists>t. frontend_call demo_htif 2 0x80000000 93 (\<lambda>_. 7)
     \<lparr>tohost = 0, fromhost = 0, htif_console_buf = 0, htif_lock = 0, magic_mem = (\<lambda>_. 0), call_lock = 0\<rparr> = (Inr 94, t) \<and>
     tohost t = 0 \<and> fromhost t = 0 \<and> htif_lock t = 0 \<and> call_lock t = 0"
  using frontend_call_returns [OF demo_htif_answers, of 2 "0x80000000"
    "\<lparr>tohost = 0, fromhost = 0, htif_console_buf = 0, htif_lock = 0, magic_mem = (\<lambda>_. 0), call_lock = 0\<rparr>" 93 "\<lambda>_. 7"]
  by (auto simp: FROMHOST_DEV_def)

text \<open>
  What \<^verbatim>\<open>sprint\<close> hands to the console: the rendering of its format when that has less than 256 characters;
  a longer one is cut to 255 characters, and the NUL byte of the buffer is written as well.\<close>

theorem sprint_text:
  assumes "cstring m s cs" "apart out 256 s (length cs)" "strings_at m out 256 str"
    and "render str cs False False vl = Some bs" "length bs < 2 ^ 31" "99 \<notin> set cs \<or> length bs < 256"
  shows "sprint out s vl m = (Inr (if length bs < 256 then bs else take 255 bs @ [0]), printed m out 256 bs)"
proof -
  have run: "vsnprintf out 256 s vl m = (Inr (int (length bs)), printed m out 256 bs)"
    using assms by (intro vsnprintf_eq) auto
  have pos: "unat (out + of_nat i - out :: u64) = i" if "i < 256" for i
    using that unat_small [of i] by simp
  have byte: "printed m out 256 bs (out + of_nat i) =
      (if i < min (length bs) 255 then bs ! i else 0)" if "i \<le> min (length bs) 255" for i
    using that pos [of i] by (auto simp: printed_def Let_def)
  have len: "unat (if word_of_int (int (length bs)) < (256 :: u64) then word_of_int (int (length bs)) else (256 :: u64)) =
      (if length bs < 256 then length bs else 256)"
    using assms(5) unat_small [of "length bs"] by (simp add: word_less_nat_alt)
  have "map (\<lambda>i. printed m out 256 bs (out + of_nat i)) [0..<(if length bs < 256 then length bs else 256)] =
      (if length bs < 256 then bs else take 255 bs @ [0])"
  proof (cases "length bs < 256")
    case True
    then show ?thesis using byte by (intro nth_equalityI) auto
  next
    case False
    then show ?thesis using byte by (intro nth_equalityI) (auto simp: nth_append less_Suc_eq)
  qed
  then show ?thesis
    unfolding sprint_def vprintk_def kbind_run [where m = "vsnprintf out 256 s vl", OF run] kget_def len by (simp only:)
qed

theorem sprint_text_witness:
  "sprint 300 100 [200, -42] demo_format = (Inr [97, 98, 61, 45, 52, 50], printed demo_format 300 256 [97, 98, 61, 45, 52, 50])"
proof -
  have r: "render [200 \<mapsto> [97, 98]] [37, 115, 61, 37, 100] False False [200, -42] = Some [97, 98, 61, 45, 52, 50]"
    by (simp add: conversion_def decimal.simps)
  show ?thesis
    using sprint_text [of demo_format 100 "[37, 115, 61, 37, 100]" 300 "[200 \<mapsto> [97, 98]]", OF _ _ _ r]
    by (simp add: demo_format_def apart_def strings_at_def)
qed

section \<open>Stopping the machine\<close>

text \<open>
  The functions that print and stop, over the byte memory, the text handed to the console so far, and the registers of the interface.
  \<open>out\<close> is the address of the local buffer of \<^verbatim>\<open>vprintk\<close> and \<open>lit\<close> gives the addresses of the literals.
\<close>

type_synonym console_state = "bmem \<times> u8 list \<times> htif_state"

definition printk :: "u64 \<Rightarrow> u64 \<Rightarrow> u64 list \<Rightarrow> (bmem, u8 list) km" where
  "printk out s vl = vprintk out s vl"

text \<open>\<^verbatim>\<open>vprintm\<close> up to its call of \<^verbatim>\<open>putstring\<close>, which takes the string in the buffer.\<close>

definition vprintm :: "u64 \<Rightarrow> u64 \<Rightarrow> u64 list \<Rightarrow> (bmem, u8 list) km" where
  "vprintm buf s vl = kbind (vsnprintf buf 256 s vl) (\<lambda>_. kbind (strlen buf) (\<lambda>n.
     kget (\<lambda>m. map (\<lambda>i. m (buf + of_nat i)) [0..<unat n])))"

definition to_console :: "(bmem, u8 list) km \<Rightarrow> (console_state, unit) km" where
  "to_console f = (\<lambda>(m, con, h). case f m of
     (Inr bs, m') \<Rightarrow> (Inr (), (m', con @ bs, h)) | (Inl e, m') \<Rightarrow> (Inl e, (m', con, h)))"

definition on_htif :: "(htif_state, 'a) km \<Rightarrow> (console_state, 'a) km" where
  "on_htif f = (\<lambda>(m, con, h). case f h of (r, h') \<Rightarrow> (r, (m, con, h')))"

definition HTIFSYS_exit :: u64 where
  "HTIFSYS_exit = 93"

text \<open>After the call of the host the source loops forever.\<close>

definition shutdown :: "htif_host \<Rightarrow> nat \<Rightarrow> u64 \<Rightarrow> u64 \<Rightarrow> (string \<Rightarrow> u64) \<Rightarrow> int \<Rightarrow> (console_state, 'r) km" where
  "shutdown D n magic out lit code =
     kthen (to_console (sprint out (lit ''System is shutting down with exit code %d.\<newline>'') [word_of_int code]))
     (kbind (on_htif (frontend_call D n magic HTIFSYS_exit (\<lambda>i. if i = 0 then word_of_int code else 0))) (\<lambda>_. kraise Diverge))"

text \<open>\<^verbatim>\<open>do_panic\<close> passes its \<^verbatim>\<open>va_list\<close>, a pointer \<open>vl\<close>, as the first argument of \<^verbatim>\<open>sprint\<close>.\<close>

definition do_panic :: "htif_host \<Rightarrow> nat \<Rightarrow> u64 \<Rightarrow> u64 \<Rightarrow> (string \<Rightarrow> u64) \<Rightarrow> u64 \<Rightarrow> u64 \<Rightarrow> (console_state, 'r) km" where
  "do_panic D n magic out lit s vl = kthen (to_console (sprint out s [vl])) (shutdown D n magic out lit (-1))"

definition kassert_fail :: "htif_host \<Rightarrow> nat \<Rightarrow> u64 \<Rightarrow> u64 \<Rightarrow> (string \<Rightarrow> u64) \<Rightarrow> u64 \<Rightarrow> (console_state, 'r) km" where
  "kassert_fail D n magic out lit vl =
     kthen (do_panic D n magic out lit (lit ''assertion failed @ %p: %s\<newline>'') vl) (shutdown D n magic out lit (-1))"

definition poweroff :: "htif_host \<Rightarrow> nat \<Rightarrow> u64 \<Rightarrow> u64 \<Rightarrow> (string \<Rightarrow> u64) \<Rightarrow> u64 \<Rightarrow> bool \<Rightarrow> (console_state, 'r) km" where
  "poweroff D n magic out lit vl htif =
     kthen (kwhen (\<not> htif) (kassert_fail D n magic out lit vl))
     (kthen (to_console (sprint out (lit (''Power off'' @ [CHR 0x0D, CHR 0x0A])) []))
     (if htif then on_htif htif_poweroff else kraise Wfi))"

definition shutdown_text :: "int \<Rightarrow> u8 list" where
  "shutdown_text code = map of_char ''System is shutting down with exit code '' @
     ((if code < 0 then [45] else []) @ decimal (nat \<bar>code\<bar>)) @ map of_char ''.\<newline>''"

lemma render_shutdown:
  assumes "- (2 ^ 31) \<le> code" "code < 2 ^ 31"
  shows "render Map.empty (map of_char ''System is shutting down with exit code %d.\<newline>'') False False [word_of_int code] = Some (shutdown_text code)"
proof -
  have "sint (ucast (word_of_int code :: u64) :: i32) = code"
    using assms by (simp add: unsigned_of_int signed_of_int signed_take_bit_take_bit signed_take_bit_int_eq_self)
  then show ?thesis using assms by (simp add: shutdown_text_def conversion_def)
qed

text \<open>
  \<^verbatim>\<open>shutdown\<close> prints the exit code, gives the host the exit call with the code, and does not return, with a host that answers.\<close>

theorem shutdown_reports:
  assumes host: "answers D k R" "k < n" "magic \<noteq> 0" "FROMHOST_DEV magic = 0"
    and idle: "tohost h = 0" "fromhost h = 0" "htif_lock h = 0" "call_lock h = 0"
    and code: "- (2 ^ 31) \<le> code" "code < 2 ^ 31"
    and fmt: "f = ''System is shutting down with exit code %d.\<newline>''" "cstring m (lit f) (map of_char f)" "apart out 256 (lit f) (length f)"
  defines "block \<equiv> \<lambda>i. if i = 0 then HTIFSYS_exit else if i = 1 then word_of_int code else 0"
  shows "shutdown D n magic out lit code (m, con, h) = (Inl Diverge, (printed m out 256 (shutdown_text code), con @ shutdown_text code,
    h\<lparr>magic_mem := block(0 := R block), call_lock := 0\<rparr>))"
proof -
  have "\<bar>code\<bar> \<le> 2 ^ 31" using code by simp
  then have "length (decimal (nat \<bar>code\<bar>)) \<le> Suc 9" by (intro length_decimal) simp
  then have len: "length (shutdown_text code) < 256" by (cases "code < 0") (simp_all add: shutdown_text_def)
  have "sprint out (lit f) [word_of_int code] m = (Inr (shutdown_text code), printed m out 256 (shutdown_text code))"
    using sprint_text [OF fmt(2) _ _ render_shutdown [OF code, folded fmt(1)], of out] fmt(3) len by (simp add: strings_at_def)
  moreover have b: "(\<lambda>i. if i = 0 then HTIFSYS_exit else if i - 1 = 0 then word_of_int code else 0) = block"
    by (auto simp: block_def fun_eq_iff)
  have "frontend_call D n magic HTIFSYS_exit (\<lambda>i. if i = 0 then word_of_int code else 0) h =
      (Inr (R block), h\<lparr>magic_mem := block(0 := R block), call_lock := 0\<rparr>)"
    using frontend_call_eq [OF host idle, of HTIFSYS_exit "\<lambda>i. if i = 0 then word_of_int code else 0"] unfolding b .
  ultimately show ?thesis
    unfolding shutdown_def fmt(1) [symmetric] by (simp add: to_console_def on_htif_def kbind_def kthen_def kraise_def)
qed

end
