(* ===== verification/Machine.thy ===== *)
theory Machine
  imports Strap Fdt
begin

unbundle bit_operations_syntax

text \<open>
  Machine mode: the trap handler of \<^verbatim>\<open>kernel/machine/mtrap.c\<close> with its entry \<^verbatim>\<open>mtrap_vector.S\<close>, and the start of a hart in
  \<^verbatim>\<open>kernel/machine/minit.c\<close>.

  The state of the kernel is extended with the machine-mode registers, the timer and the globals of the two
  files.  A delegation register keeps only the bits that the machine implements.  Printed text is what
  \<^verbatim>\<open>print_errorline\<close> returns; a null pointer or an index out of an array in it is \<open>Fault\<close>.
\<close>

section \<open>State\<close>

text \<open>The machine-mode registers of a hart, and those of supervisor mode that only machine mode sets.\<close>

record mcsr_file =
  misa :: u64
  mstatus :: u64
  mepc :: u64
  mcause :: u64
  mtval :: u64
  mie :: u64
  mideleg :: u64
  medeleg :: u64
  mscratch :: u64
  mtvec :: u64
  sie :: u64
  sscratch :: u64
  tp_reg :: u64

text \<open>
  The timer, the globals of \<^verbatim>\<open>mtrap.c\<close>, the addresses the linker decides, which delegation bits the machine
  implements, and the line tables of every process with the bytes their names point into.
\<close>

record machine_state = fs_state +
  mcsr :: "nat \<Rightarrow> mcsr_file"
  mtimecmp :: "nat \<Rightarrow> u64"
  mtime :: u64
  m_forward_to_s :: bool
  m_forward_sepc :: u64
  m_forward_scause :: u64
  m_forward_stval :: u64
  m_forward_sscratch :: u64
  m_forward_sstatus :: u64
  g_itrframe :: "nat \<Rightarrow> u64"
  s_start_addr :: u64
  mtrapvec_addr :: u64
  mideleg_bits :: u64
  medeleg_bits :: u64
  htif_found :: bool
  line_of :: "nat \<Rightarrow> line_tables"
  debugline_of :: "nat \<Rightarrow> nat \<Rightarrow> u8"

definition MSTATUS_MPP_MASK :: u64 where "MSTATUS_MPP_MASK = push_bit 11 3"
definition MSTATUS_MPP_S :: u64 where "MSTATUS_MPP_S = push_bit 11 1"
definition MSTATUS_MPP_U :: u64 where "MSTATUS_MPP_U = push_bit 11 0"
definition MSTATUS_MIE :: u64 where "MSTATUS_MIE = push_bit 3 1"
definition CAUSE_FETCH_ACCESS :: u64 where "CAUSE_FETCH_ACCESS = 0x1"
definition CAUSE_MISALIGNED_LOAD :: u64 where "CAUSE_MISALIGNED_LOAD = 0x4"
definition CAUSE_LOAD_ACCESS :: u64 where "CAUSE_LOAD_ACCESS = 0x5"
definition CAUSE_MISALIGNED_STORE :: u64 where "CAUSE_MISALIGNED_STORE = 0x6"
definition CAUSE_STORE_ACCESS :: u64 where "CAUSE_STORE_ACCESS = 0x7"
definition CAUSE_MTIMER :: u64 where "CAUSE_MTIMER = 0x8000000000000007"
definition TIMER_INTERVAL :: u64 where "TIMER_INTERVAL = 1000000"
definition MIP_SSIP :: u64 where "MIP_SSIP = push_bit 1 1"
definition MIP_STIP :: u64 where "MIP_STIP = push_bit 5 1"
definition MIP_SEIP :: u64 where "MIP_SEIP = push_bit 9 1"
definition MIE_MTIE :: u64 where "MIE_MTIE = push_bit 7 1"
definition SIE_SEIE :: u64 where "SIE_SEIE = push_bit 9 1"
definition SIE_STIE :: u64 where "SIE_STIE = push_bit 5 1"
definition SIE_SSIE :: u64 where "SIE_SSIE = push_bit 1 1"

lemmas mcause_defs = CAUSE_FETCH_ACCESS_def CAUSE_MISALIGNED_LOAD_def CAUSE_LOAD_ACCESS_def CAUSE_MISALIGNED_STORE_def
  CAUSE_STORE_ACCESS_def CAUSE_MTIMER_def

definition upd_mcsr :: "nat \<Rightarrow> (mcsr_file \<Rightarrow> mcsr_file) \<Rightarrow> ('z machine_state_scheme, unit) km" where
  "upd_mcsr tp f = kput (\<lambda>s. s\<lparr>mcsr := (mcsr s)(tp := f (mcsr s tp))\<rparr>)"

section \<open>Traps in machine mode\<close>

definition handle_instruction_access_fault :: "('s, unit) km" where
  "handle_instruction_access_fault = kraise (Panic ''Instruction access fault!'')"

definition handle_load_access_fault :: "('s, unit) km" where
  "handle_load_access_fault = kraise (Panic ''Load access fault!'')"

definition handle_store_access_fault :: "('s, unit) km" where
  "handle_store_access_fault = kraise (Panic ''Store/AMO access fault!'')"

definition handle_misaligned_load :: "('s, unit) km" where
  "handle_misaligned_load = kraise (Panic ''Misaligned Load!'')"

definition handle_misaligned_store :: "('s, unit) km" where
  "handle_misaligned_store = kraise (Panic ''Misaligned AMO!'')"

text \<open>The line that the error message names: the first one at or behind the address.\<close>

definition error_line :: "u64 \<Rightarrow> addr_line list \<Rightarrow> addr_line option" where
  "error_line epc ls = find (\<lambda>l. epc \<le> al_addr l \<and> al_addr l < 0xffffffffffffffff) ls"

text \<open>A name of the line table: the NUL-terminated string at an offset of the debug section.\<close>

definition table_name :: "(nat \<Rightarrow> u8) \<Rightarrow> nat \<Rightarrow> u8 list" where
  "table_name m off = map (\<lambda>i. m (off + i)) [0..<cstr_len 100 (\<lambda>i. m (off + i))]"

text \<open>Skipping lines of the source text, \<^verbatim>\<open>file_content\<close> having \<open>size\<close> bytes.\<close>

primrec skip_line :: "nat \<Rightarrow> nat \<Rightarrow> (nat \<Rightarrow> u8) \<Rightarrow> nat \<Rightarrow> ('s, nat) km" where
  "skip_line 0 sz b i = kraise (Fault ''file_content'')"
| "skip_line (Suc n) sz b i = (if sz \<le> i then kraise (Fault ''file_content'')
     else if b i = 10 then kreturn (i + 1) else skip_line n sz b (i + 1))"

primrec skip_lines :: "nat \<Rightarrow> nat \<Rightarrow> (nat \<Rightarrow> u8) \<Rightarrow> nat \<Rightarrow> ('s, nat) km" where
  "skip_lines 0 sz b i = kreturn i"
| "skip_lines (Suc n) sz b i = kbind (skip_line (Suc sz) sz b i) (skip_lines n sz b)"

definition max_content :: nat where "max_content = 1024 * 1024"
definition max_code :: nat where "max_code = 1024"

text \<open>
  \<^verbatim>\<open>print_errorline\<close> for hart \<open>tp\<close>: the path, the line number and the source line that it prints.  \<open>junk\<close> is
  what the local buffer for the source text holds before.
\<close>

definition print_errorline :: "host \<Rightarrow> (nat \<Rightarrow> u8) \<Rightarrow> nat \<Rightarrow> ('z machine_state_scheme, u8 list \<times> u64 \<times> u8 list) km" where
  "print_errorline F junk tp =
     kbind (kget (\<lambda>s. mepc (mcsr s tp))) (\<lambda>epc.
     kbind (cur tp) (\<lambda>p.
     kbind (kget (\<lambda>s. (line_of s p, debugline_of s p))) (\<lambda>(t, m).
     case error_line epc (lt_lines t) of
       None \<Rightarrow> kraise (Fault ''errorline is NULL'')
     | Some l \<Rightarrow>
       if length (lt_files t) \<le> unat (al_file l) then kraise (Fault ''proc->file'')
       else let f = lt_files t ! unat (al_file l) in
         if length (lt_dirs t) \<le> unat (cf_dir f) then kraise (Fault ''proc->dir'')
         else let dir = table_name m (lt_dirs t ! unat (cf_dir f)); fl = table_name m (cf_file f) in
           if 100 \<le> length dir + 1 + length fl then kraise (Fault ''errorpath'')
           else let path = dir @ [47] @ fl in
             kbind (spike_file_open F path O_RDONLY 0) (\<lambda>h.
             kbind (spike_file_pread F h junk (of_nat max_content) 0) (\<lambda>(_, b).
             kbind (skip_lines (unat (al_line l - 1)) max_content b 0) (\<lambda>code_start.
             let text = takeWhile (\<lambda>c. c \<noteq> 10) (map (\<lambda>i. b (code_start + i)) [0..<max_code]) in
             if max_content \<le> code_start + min (length text) (max_code - 1) then kraise (Fault ''file_content'')
             else kbind (spike_file_close F h) (\<lambda>_. kreturn (path, al_line l, text))))))))"

definition handle_illegal_instruction :: "host \<Rightarrow> (nat \<Rightarrow> u8) \<Rightarrow> nat \<Rightarrow> ('z machine_state_scheme, unit) km" where
  "handle_illegal_instruction F junk tp =
     kbind (kget (\<lambda>s. mstatus (mcsr s tp) AND MSTATUS_MPP_MASK)) (\<lambda>mpp.
     if mpp \<noteq> MSTATUS_MPP_U \<and> mpp \<noteq> MSTATUS_MPP_S
     then kbind (print_errorline F junk tp) (\<lambda>_. kraise (Panic ''Illegal instruction (from M-mode)!''))
     else kbind (kget (\<lambda>s. current s tp)) (\<lambda>c.
       if c = None then kraise (Panic ''Illegal instruction: no current process'')
       else kbind (print_errorline F junk tp) (\<lambda>_.
         kbind (cur tp) (\<lambda>p.
         kput (\<lambda>s. s\<lparr>m_forward_to_s := True, m_forward_sepc := mepc (mcsr s tp), m_forward_scause := mcause (mcsr s tp),
           m_forward_stval := mtval (mcsr s tp), m_forward_sscratch := trapframe (procs s p),
           m_forward_sstatus := (sstatus (csr s tp) AND NOT SSTATUS_SPP) OR SSTATUS_SPIE\<rparr>)))))"

definition handle_timer :: "nat \<Rightarrow> ('z machine_state_scheme, unit) km" where
  "handle_timer cpuid =
     kthen (kput (\<lambda>s. s\<lparr>mtimecmp := (mtimecmp s)(cpuid := mtimecmp s cpuid + TIMER_INTERVAL)\<rparr>))
       (upd_csr cpuid (\<lambda>c. c\<lparr>sip := SIP_SSIP\<rparr>))"

definition handle_mtrap :: "host \<Rightarrow> (nat \<Rightarrow> u8) \<Rightarrow> nat \<Rightarrow> ('z machine_state_scheme, unit) km" where
  "handle_mtrap F junk tp =
     kthen (kput (\<lambda>s. s\<lparr>m_forward_to_s := False\<rparr>))
     (kbind (kget (\<lambda>s. mcause (mcsr s tp))) (\<lambda>cause.
      if cause = CAUSE_MTIMER then handle_timer tp
      else if cause = CAUSE_FETCH_ACCESS then handle_instruction_access_fault
      else if cause = CAUSE_LOAD_ACCESS then kthen handle_load_access_fault handle_store_access_fault
      else if cause = CAUSE_STORE_ACCESS then handle_store_access_fault
      else if cause = CAUSE_ILLEGAL_INSTRUCTION then handle_illegal_instruction F junk tp
      else if cause = CAUSE_MISALIGNED_LOAD then handle_misaligned_load
      else if cause = CAUSE_MISALIGNED_STORE then handle_misaligned_store
      else kraise (Panic ''unexpected exception happened in M-mode.'')))"

text \<open>
  \<^verbatim>\<open>mtrapvec\<close>: the handler between saving and restoring the registers, and the forwarding of the trap to
  supervisor mode when the handler asked for it.  It ends in \<^verbatim>\<open>mret\<close>, to the interrupted program or to
  \<^verbatim>\<open>smode_trap_vector\<close>.
\<close>

definition mtrapvec :: "host \<Rightarrow> (nat \<Rightarrow> u8) \<Rightarrow> nat \<Rightarrow> ('z machine_state_scheme, unit) km" where
  "mtrapvec F junk tp =
     kthen (handle_mtrap F junk tp)
     (kbind (kget m_forward_to_s) (\<lambda>fwd.
      kwhen fwd
        (kthen (kput (\<lambda>s. s\<lparr>csr := (csr s)(tp := (csr s tp)\<lparr>sepc := m_forward_sepc s, scause := m_forward_scause s,
            stval := m_forward_stval s, sstatus := m_forward_sstatus s\<rparr>)\<rparr>))
        (kput (\<lambda>s. s\<lparr>mcsr := (mcsr s)(tp := (mcsr s tp)\<lparr>sscratch := m_forward_sscratch s,
            mepc := smode_trap_vector (syms s), mstatus := (mstatus (mcsr s tp) AND NOT 0x1800) OR 0x800\<rparr>)\<rparr>)))))"

section \<open>Start in machine mode\<close>

definition supports_extension :: "nat \<Rightarrow> u8 \<Rightarrow> ('z machine_state_scheme, bool) km" where
  "supports_extension tp ext = kget (\<lambda>s. bit (misa (mcsr s tp)) (unat (ext - 65)))"

definition delegate_traps :: "nat \<Rightarrow> ('z machine_state_scheme, unit) km" where
  "delegate_traps tp = kbind (supports_extension tp 83) (\<lambda>ok.
     if \<not> ok then kreturn ()
     else let interrupts = MIP_SSIP OR MIP_STIP OR MIP_SEIP;
              exceptions = push_bit 0 1 OR push_bit 0xc 1 OR push_bit 3 1 OR push_bit 0xd 1 OR push_bit 0xf 1 OR push_bit 8 1 in
       kthen (kput (\<lambda>s. s\<lparr>mcsr := (mcsr s)(tp := (mcsr s tp)\<lparr>mideleg := interrupts AND mideleg_bits s,
         medeleg := exceptions AND medeleg_bits s\<rparr>)\<rparr>))
       (kbind (kget (\<lambda>s. mcsr s tp)) (\<lambda>c.
        if mideleg c \<noteq> interrupts then kraise (Panic ''read_csr(mideleg) == interrupts'')
        else if medeleg c \<noteq> exceptions then kraise (Panic ''read_csr(medeleg) == exceptions'')
        else kreturn ())))"

definition timerinit :: "nat \<Rightarrow> ('z machine_state_scheme, unit) km" where
  "timerinit tp =
     kthen (kput (\<lambda>s. s\<lparr>mtimecmp := (mtimecmp s)(tp := mtime s + TIMER_INTERVAL)\<rparr>))
       (upd_mcsr tp (\<lambda>c. c\<lparr>mie := mie c OR MIE_MTIE\<rparr>))"

text \<open>
  \<^verbatim>\<open>init_dtb\<close>: the two scans of the blob in physical memory, which they only read.  \<open>self\<close> is the address of
  \<^verbatim>\<open>mem_done\<close>.
\<close>

definition init_dtb :: "u64 \<Rightarrow> u64 \<Rightarrow> ('z machine_state_scheme, unit) km" where
  "init_dtb self dtb = kbind (kget load_byte) (\<lambda>m.
     case query_htif dtb (m, \<lparr>compat = False, htif = False\<rparr>) of
       (Inl e, _) \<Rightarrow> kraise e
     | (Inr _, (_, h)) \<Rightarrow> kthen (kput (\<lambda>s. s\<lparr>htif_found := htif h\<rparr>))
         (case query_mem self dtb (m, \<lparr>ms_memory = False, reg_value = 0, reg_len = 0, mem_scan.g_mem_size = 0\<rparr>) of
            (Inl e, _) \<Rightarrow> kraise e
          | (Inr _, (_, g)) \<Rightarrow> kput (\<lambda>s. s\<lparr>pmm_state.g_mem_size := mem_scan.g_mem_size g\<rparr>)))"

text \<open>
  \<^verbatim>\<open>m_start\<close> on one hart, up to its \<^verbatim>\<open>mret\<close> into \<^verbatim>\<open>s_start\<close>.  The barrier in it orders the harts (see \<open>barrier_step\<close>)
  and does not change the state of this one.
\<close>

definition m_start :: "u64 \<Rightarrow> nat \<Rightarrow> u64 \<Rightarrow> ('z machine_state_scheme, unit) km" where
  "m_start self hartid dtb =
     kthen (kwhen (hartid = 0) (kthen spike_file_init (init_dtb self dtb)))
     (kthen (upd_mcsr hartid (\<lambda>c. c\<lparr>tp_reg := of_nat hartid\<rparr>))
     (kthen (kput (\<lambda>s. s\<lparr>mcsr := (mcsr s)(hartid := (mcsr s hartid)\<lparr>mscratch := g_itrframe s hartid\<rparr>)\<rparr>))
     (kthen (upd_mcsr hartid (\<lambda>c. c\<lparr>mstatus := (mstatus c AND NOT MSTATUS_MPP_MASK) OR MSTATUS_MPP_S\<rparr>))
     (kthen (kput (\<lambda>s. s\<lparr>mcsr := (mcsr s)(hartid := (mcsr s hartid)\<lparr>mepc := s_start_addr s, mtvec := mtrapvec_addr s\<rparr>)\<rparr>))
     (kthen (upd_mcsr hartid (\<lambda>c. c\<lparr>mstatus := mstatus c OR MSTATUS_MIE\<rparr>))
     (kthen (delegate_traps hartid)
     (kthen (upd_mcsr hartid (\<lambda>c. c\<lparr>sie := sie c OR SIE_SEIE OR SIE_STIE OR SIE_SSIE\<rparr>))
       (timerinit hartid))))))))"

section \<open>What the error message leaves alone\<close>

definition host_frame :: "'z machine_state_scheme \<Rightarrow> 'z machine_state_scheme \<Rightarrow> bool" where
  "host_frame s t \<longleftrightarrow> (\<exists>a b c. t = s\<lparr>spike_files := a, spike_fds := b, host_calls := c\<rparr>)"

definition framed :: "('z machine_state_scheme, 'a) km \<Rightarrow> bool" where
  "framed m \<longleftrightarrow> (\<forall>s. host_frame s (snd (m s)))"

lemma host_frame_refl: "host_frame s s"
  unfolding host_frame_def by (intro exI [of _ "spike_files s"] exI [of _ "spike_fds s"] exI [of _ "host_calls s"]) simp

lemma host_frame_trans: "host_frame s t \<Longrightarrow> host_frame t u \<Longrightarrow> host_frame s u"
  by (auto simp: host_frame_def) blast

lemma framed_bind: "framed m \<Longrightarrow> (\<And>x. framed (f x)) \<Longrightarrow> framed (kbind m f)"
  unfolding framed_def kbind_def by (auto split: prod.splits sum.splits) (metis host_frame_trans snd_conv)+

lemma framed_then: "framed m \<Longrightarrow> framed n \<Longrightarrow> framed (kthen m n)"
  by (simp add: kthen_def framed_bind)

lemma framed_basic: "framed (kreturn x)" "framed (kget f)" "framed (kraise e)"
  by (simp_all add: framed_def kreturn_def kget_def kraise_def host_frame_refl)

lemma framed_when: "framed m \<Longrightarrow> framed (kwhen b m)"
  by (simp add: kwhen_def framed_basic)

lemma host_frame_upd:
  "host_frame s (s\<lparr>spike_files := a\<rparr>)" "host_frame s (s\<lparr>spike_fds := b\<rparr>)" "host_frame s (s\<lparr>host_calls := c\<rparr>)"
  unfolding host_frame_def
  by (intro exI [of _ a] exI [of _ "spike_fds s"] exI [of _ "host_calls s"], simp)
    (intro exI [of _ "spike_files s"] exI [of _ b] exI [of _ "host_calls s"], simp,
     intro exI [of _ "spike_files s"] exI [of _ "spike_fds s"] exI [of _ c], simp)

lemma framed_upd: "framed (upd_spike i g)" "framed (frontend_syscall F c)"
    "framed (kput (\<lambda>s. s\<lparr>spike_fds := f s\<rparr>))"
  by (simp_all add: framed_def upd_spike_def frontend_syscall_def kput_def kget_def kthen_def kbind_def host_frame_upd)

lemma framed_index: "framed (file_index f)" "framed (get_kfd f)" "framed (cur tp)"
  unfolding file_index_def get_kfd_def cur_def
  by (auto intro!: framed_bind framed_basic split: option.splits)

lemmas framed_intros = framed_bind framed_then framed_basic framed_when framed_upd framed_index

lemma framed_skip: "framed (skip_line n sz b i)" "framed (skip_lines k sz b i)"
proof -
  show line: "framed (skip_line n sz b i)" for n sz b i
    by (induction n arbitrary: i) (auto intro: framed_basic)
  show "framed (skip_lines k sz b i)"
    by (induction k arbitrary: i) (auto intro!: framed_bind framed_basic line)
qed

lemma framed_decref: "framed (spike_file_decref F f)"
  unfolding spike_file_decref_def by (intro framed_intros)

lemma framed_open: "framed (spike_file_open F path fl md)"
  unfolding spike_file_open_def spike_file_openat_def spike_file_get_free_def
  by (auto intro!: framed_intros framed_decref split: option.splits)

lemma framed_pread: "framed (spike_file_pread F f b sz off)"
  unfolding spike_file_pread_def by (intro framed_intros)

lemma framed_close: "framed (spike_file_close F f)"
  unfolding spike_file_close_def by (auto intro!: framed_intros framed_decref)

lemma framed_print_errorline: "framed (print_errorline F junk tp)"
  unfolding print_errorline_def Let_def
  by (auto intro!: framed_intros framed_open framed_pread framed_close framed_skip split: option.splits prod.splits)

lemma print_errorline_frame:
  assumes "print_errorline F junk tp s = (Inr x, t)"
  shows "mcsr t = mcsr s" "csr t = csr s" "procs t = procs s" "current t = current s" "syms t = syms s"
    "ready_queue_head t = ready_queue_head s" "rq_lock t = rq_lock s"
proof -
  have "host_frame s t" using framed_print_errorline [of F junk tp] assms unfolding framed_def by (metis snd_conv)
  then show "mcsr t = mcsr s" "csr t = csr s" "procs t = procs s" "current t = current s" "syms t = syms s"
    "ready_queue_head t = ready_queue_head s" "rq_lock t = rq_lock s"
    by (auto simp: host_frame_def)
qed

lemma mpp_supervisor: "((w :: u64) AND NOT 0x1800 OR 0x800) AND MSTATUS_MPP_MASK = MSTATUS_MPP_S"
  by (simp add: MSTATUS_MPP_MASK_def MSTATUS_MPP_S_def bit.conj_disj_distrib2 and.assoc)

lemma spp_cleared: "((w :: u64) AND NOT SSTATUS_SPP OR SSTATUS_SPIE) AND SSTATUS_SPP = 0"
  by (simp add: SSTATUS_SPP_def SSTATUS_SPIE_def bit.conj_disj_distrib2 and.assoc)

text \<open>The state in which a printed illegal instruction is handed to supervisor mode.\<close>

lemma mtrapvec_forwards:
  assumes "current s tp = Some p" "mcause (mcsr s tp) = CAUSE_ILLEGAL_INSTRUCTION"
    and "mstatus (mcsr s tp) AND MSTATUS_MPP_MASK = MSTATUS_MPP_U"
    and u: "print_errorline F junk tp (s\<lparr>m_forward_to_s := False\<rparr>) = (Inr x, u)"
  obtains t where "mtrapvec F junk tp s = (Inr (), t)" "mcsr t = (mcsr s)(tp := (mcsr s tp)\<lparr>sscratch := trapframe (procs s p),
        mepc := smode_trap_vector (syms s), mstatus := (mstatus (mcsr s tp) AND NOT 0x1800) OR 0x800\<rparr>)"
      "csr t = (csr s)(tp := (csr s tp)\<lparr>sepc := mepc (mcsr s tp), scause := mcause (mcsr s tp), stval := mtval (mcsr s tp),
        sstatus := (sstatus (csr s tp) AND NOT SSTATUS_SPP) OR SSTATUS_SPIE\<rparr>)"
      "procs t = procs s" "current t = current s" "ready_queue_head t = ready_queue_head s" "rq_lock t = rq_lock s"
proof -
  note fr = print_errorline_frame [OF u]
  let ?v = "u\<lparr>m_forward_to_s := True, m_forward_sepc := mepc (mcsr s tp), m_forward_scause := mcause (mcsr s tp),
    m_forward_stval := mtval (mcsr s tp), m_forward_sscratch := trapframe (procs s p),
    m_forward_sstatus := (sstatus (csr s tp) AND NOT SSTATUS_SPP) OR SSTATUS_SPIE\<rparr>"
  have run: "handle_mtrap F junk tp s = (Inr (), ?v)"
    using assms fr by (simp add: handle_mtrap_def handle_illegal_instruction_def krun_defs cur_def cause_defs mcause_defs)
  obtain t where t: "mtrapvec F junk tp s = (Inr (), t)"
    "t = ?v\<lparr>csr := (csr s)(tp := (csr s tp)\<lparr>sepc := mepc (mcsr s tp), scause := mcause (mcsr s tp), stval := mtval (mcsr s tp),
        sstatus := (sstatus (csr s tp) AND NOT SSTATUS_SPP) OR SSTATUS_SPIE\<rparr>),
      mcsr := (mcsr s)(tp := (mcsr s tp)\<lparr>sscratch := trapframe (procs s p),
        mepc := smode_trap_vector (syms s), mstatus := (mstatus (mcsr s tp) AND NOT 0x1800) OR 0x800\<rparr>)\<rparr>"
    using fr by (simp add: mtrapvec_def krun_defs run)
  show thesis by (rule that [OF t(1)]) (use fr t(2) in simp_all)
qed

section \<open>Properties\<close>

text \<open>
  C18. An illegal instruction of a user program ends that program and not the machine, if the error message can be
  printed.  The ready queue is in order (\<open>rq_inv\<close>), the process is running and its parent is a process of the table.  The first case is
  the other one: where \<^verbatim>\<open>print_errorline\<close> stops, the machine-mode handler stops with it, in particular
  with a null-pointer fault when the line table has no line at or behind the faulting instruction.  In the second case the
  handler returns; it has handed the trap to supervisor mode, with the
  program counter, the cause and the value of the trap in the supervisor's registers, \<^verbatim>\<open>sscratch\<close> at the trapframe
  of the process and the privilege to return to set to supervisor.  The supervisor's handler, entered in that state, saves the
  faulting program counter in the trapframe, makes the process a zombie, puts its parent at the rear of the ready queue when that
  is blocked (\<open>exit_queue\<close>), and leaves the kernel as the first process of that queue; if there is none it shuts the machine down exactly on
  hart 0 when every other process is free or dead, and otherwise waits for an interrupt.\<close>

theorem illegal_instruction_kills:
  fixes s :: "'z machine_state_scheme"
  assumes inv: "rq_inv s q" and me: "current s tp = Some p" "status (procs s p) = RUNNING"
    and par: "\<And>r. parent (procs s p) = Some r \<Longrightarrow> r < NPROC"
    and trap: "mcause (mcsr s tp) = CAUSE_ILLEGAL_INSTRUCTION" "mstatus (mcsr s tp) AND MSTATUS_MPP_MASK = MSTATUS_MPP_U"
  shows "(error_line (mepc (mcsr s tp)) (lt_lines (line_of s p)) = None \<longrightarrow>
      mtrapvec F junk tp s = (Inl (Fault ''errorline is NULL''), s\<lparr>m_forward_to_s := False\<rparr>)) \<and>
    (case print_errorline F junk tp (s\<lparr>m_forward_to_s := False\<rparr>) of
       (Inl e, u) \<Rightarrow> mtrapvec F junk tp s = (Inl e, u)
     | (Inr x, u) \<Rightarrow> \<exists>t e v. mtrapvec F junk tp s = (Inr (), t) \<and> mepc (mcsr t tp) = smode_trap_vector (syms s) \<and>
         mstatus (mcsr t tp) AND MSTATUS_MPP_MASK = MSTATUS_MPP_S \<and> sscratch (mcsr t tp) = trapframe (procs s p) \<and>
         sepc (csr t tp) = mepc (mcsr s tp) \<and> scause (csr t tp) = CAUSE_ILLEGAL_INSTRUCTION \<and> stval (csr t tp) = mtval (mcsr s tp) \<and>
         smode_trap_handler E tp t = (Inl e, v) \<and> pmem v (trapframe (procs s p)) TF_epc = mepc (mcsr s tp) \<and>
         status (procs v p) = ZOMBIE \<and> rq_inv v (tl (exit_queue s p q)) \<and>
         (case exit_queue s p q of
            r # w \<Rightarrow> e = Run r \<and> current v tp = Some r \<and> status (procs v r) = RUNNING
          | [] \<Rightarrow> e = (if tp = 0 \<and> (\<forall>i<NPROC. i \<noteq> p \<longrightarrow> status (procs s i) \<in> {FREE, ZOMBIE}) then Shutdown 0 else Wfi)))"
proof -
  let ?s = "s\<lparr>m_forward_to_s := False\<rparr>"
  have null: "mtrapvec F junk tp s = (Inl (Fault ''errorline is NULL''), ?s)"
    if "error_line (mepc (mcsr s tp)) (lt_lines (line_of s p)) = None"
    using that me trap
    by (simp add: mtrapvec_def handle_mtrap_def handle_illegal_instruction_def print_errorline_def krun_defs cur_def cause_defs mcause_defs)
  obtain r u where pe: "print_errorline F junk tp ?s = (r, u)" by (cases "print_errorline F junk tp ?s")
  show ?thesis
  proof (cases r)
    case (Inl e)
    have "mtrapvec F junk tp s = (Inl e, u)" using pe Inl me trap
      by (simp add: mtrapvec_def handle_mtrap_def handle_illegal_instruction_def krun_defs cur_def cause_defs mcause_defs)
    then show ?thesis using pe Inl null by simp
  next
    case (Inr x)
    obtain t where t: "mtrapvec F junk tp s = (Inr (), t)" "mcsr t = (mcsr s)(tp := (mcsr s tp)\<lparr>sscratch := trapframe (procs s p),
          mepc := smode_trap_vector (syms s), mstatus := (mstatus (mcsr s tp) AND NOT 0x1800) OR 0x800\<rparr>)"
        "csr t = (csr s)(tp := (csr s tp)\<lparr>sepc := mepc (mcsr s tp), scause := mcause (mcsr s tp), stval := mtval (mcsr s tp),
          sstatus := (sstatus (csr s tp) AND NOT SSTATUS_SPP) OR SSTATUS_SPIE\<rparr>)"
        "procs t = procs s" "current t = current s" "ready_queue_head t = ready_queue_head s" "rq_lock t = rq_lock s"
      by (rule mtrapvec_forwards [OF me(1) trap pe [unfolded Inr]])
    let ?v = "set_dword (trapframe (procs s p)) TF_epc (mepc (mcsr s tp)) t"
    have h: "smode_trap_handler E tp t = kill_current_process tp ?v"
      using t(3-5) me(1) trap(1) spp_cleared
      by (simp add: smode_trap_handler_def run_on_def handle_trap_def krun_defs cur_def assert_current_def cause_defs)
    have iv: "rq_inv ?v q" using inv t(4-7) by (simp add: rq_inv_def set_dword_def)
    have fv: "procs ?v = procs s" "current ?v = current s" using t(4,5) by (simp_all add: set_dword_def)
    then have eq: "exit_queue ?v p q = exit_queue s p q" by (simp add: exit_queue_def cong: option.case_cong)
    obtain e v where v: "kill_current_process tp ?v = (Inl e :: kstop + unit, v)" "rq_inv v (tl (exit_queue ?v p q))"
      "status (procs v p) = ZOMBIE" "\<And>i. pmem v i TF_epc = pmem ?v i TF_epc"
      "case exit_queue ?v p q of
         r # w \<Rightarrow> e = Run r \<and> current v tp = Some r \<and> status (procs v r) = RUNNING
       | [] \<Rightarrow> e = (if tp = 0 \<and> (\<forall>i<NPROC. i \<noteq> p \<longrightarrow> status (procs ?v i) \<in> {FREE, ZOMBIE}) then Shutdown 0 else Wfi)"
      by (rule kill_current_process_outcome [OF iv]) (use me par fv in auto)
    show ?thesis unfolding pe Inr prod.case sum.case
      by (rule conjI [OF impI [OF null]], assumption, rule exI [of _ t], rule exI [of _ e], rule exI [of _ v])
        (use t(1-3) h v [unfolded eq fv] trap(1) mpp_supervisor in \<open>simp add: set_dword_def\<close>)
  qed
qed

text \<open>
  A machine for the examples: the process of \<open>demo_task\<close> has executed an illegal instruction at 0x10078, whose line
  is the first one of the file \<^verbatim>\<open>d/f\<close>; the host opens every file and reads a newline.
\<close>

definition demo_reader :: host where
  "demo_reader _ = \<lparr>h_ret = 5, h_data = [10], h_stat = \<lparr>fs_ino = 0, fs_mode = 0, fs_nlink = 0, fs_size = 0, fs_blocks = 0\<rparr>\<rparr>"

definition demo_mcsr :: mcsr_file where
  "demo_mcsr = \<lparr>misa = 0x40000, mstatus = 0, mepc = 0x10078, mcause = 2, mtval = 0, mie = 0, mideleg = 0, medeleg = 0,
     mscratch = 0, mtvec = 0, sie = 0, sscratch = 0, tp_reg = 0\<rparr>"

definition demo_machine :: machine_state where
  "demo_machine = fs_state.extend (demo_task 0x20001953 2) (machine_state.fields (\<lambda>_. demo_mcsr) (\<lambda>_. 0) 5000 False 0 0 0 0 0
     (\<lambda>_. 0x80000400) 0x80000500 0x80000600 0xffff 0xffff False
     (\<lambda>_. \<lparr>lt_dirs = [0], lt_files = [\<lparr>cf_dir = 0, cf_file = 2\<rparr>], lt_lines = [\<lparr>al_addr = 0x10078, al_line = 1, al_file = 0\<rparr>]\<rparr>)
     (\<lambda>_. (\<lambda>_. 0)(0 := 100, 2 := 102)))"

lemma demo_machine_simps:
  "current demo_machine 0 = Some 3" "mcsr demo_machine = (\<lambda>_. demo_mcsr)" "csr demo_machine = csr (demo_task 0x20001953 2)"
  "procs demo_machine = procs (demo_task 0x20001953 2)" "spike_files demo_machine = (\<lambda>_. \<lparr>kfd = -1, refcnt = 0\<rparr>)"
  "spike_files_base demo_machine = 0x1000" "spike_fds demo_machine = (\<lambda>_. 0)" "mtime demo_machine = 5000"
  "mideleg_bits demo_machine = 0xffff" "medeleg_bits demo_machine = 0xffff" "mtimecmp demo_machine = (\<lambda>_. 0)"
  "g_ticks demo_machine = (\<lambda>_. 0)" "s_start_addr demo_machine = 0x80000500" "mtrapvec_addr demo_machine = 0x80000600"
  by (simp_all add: demo_machine_def fs_state.defs machine_state.defs demo_task_def demo_fs_defs)

lemma first_index_0: "0 < n \<Longrightarrow> P 0 \<Longrightarrow> first_index n P = Some 0"
  by (cases n) (simp_all add: first_index_def upt_conv_Cons del: upt_Suc)

lemma cstr_len_1: "1 < n \<Longrightarrow> f 0 \<noteq> 0 \<Longrightarrow> f 1 = 0 \<Longrightarrow> cstr_len n f = 1"
  by (simp add: cstr_len_def upt_conv_Cons)

lemma takeWhile_newline: "0 < n \<Longrightarrow> f 0 = 10 \<Longrightarrow> takeWhile (\<lambda>c. c \<noteq> 10) (map f [0..<n]) = []"
  by (simp add: upt_conv_Cons)

lemma demo_errorline:
  "\<exists>x u. print_errorline demo_reader (\<lambda>_. 0) 0 (demo_machine\<lparr>m_forward_to_s := False\<rparr>) = (Inr x, u)"
proof -
  have tab: "line_of demo_machine 3 = \<lparr>lt_dirs = [0], lt_files = [\<lparr>cf_dir = 0, cf_file = 2\<rparr>], lt_lines = [\<lparr>al_addr = 0x10078, al_line = 1, al_file = 0\<rparr>]\<rparr>"
      "debugline_of demo_machine 3 = (\<lambda>_. 0)(0 := 100, 2 := 102)"
    by (simp_all add: demo_machine_def fs_state.defs machine_state.defs)
  have names: "table_name ((\<lambda>_. 0)(0 := 100, 2 := 102)) 0 = [100]" "table_name ((\<lambda>_. 0)(0 := 100, 2 := 102)) 2 = [102]"
    by (simp_all add: table_name_def cstr_len_1)
  show ?thesis
    by (simp add: print_errorline_def Let_def krun_defs cur_def demo_machine_simps demo_mcsr_def tab names error_line_def
        spike_file_open_def spike_file_openat_def spike_file_get_free_def spike_file_pread_def spike_file_close_def
        spike_file_decref_def first_index_0 MAX_FILES_def upd_spike_def file_index_def get_kfd_def file_ptr_def
        frontend_syscall_def demo_reader_def host_fill_def splice_def takeWhile_newline max_code_def max_content_def
        INIT_FILE_REF_def MAX_FDS_def)
qed

lemma demo_machine_queue: "rq_inv demo_machine [0]" "status (procs demo_machine 3) = RUNNING"
  "parent (procs demo_machine 3) = Some 1" "exit_queue demo_machine 3 [0] = [0, 1]" "trapframe (procs demo_machine 3) = 0x80008000"
proof -
  have "status (procs demo_machine 0) = READY" "status (procs demo_machine 1) = BLOCKED" "queue_next (procs demo_machine 0) = None"
    "ready_queue_head demo_machine = Some 0" "rq_lock demo_machine = SPIN_LOCK_FREE"
    "status (procs demo_machine 3) = RUNNING" "parent (procs demo_machine 3) = Some 1" "trapframe (procs demo_machine 3) = 0x80008000"
    by (simp_all add: demo_machine_def fs_state.defs machine_state.defs demo_task_def demo_fs_defs demo_procs_def
        blank_process_def SPIN_LOCK_FREE_def)
  then show "rq_inv demo_machine [0]" "status (procs demo_machine 3) = RUNNING" "parent (procs demo_machine 3) = Some 1"
    "exit_queue demo_machine 3 [0] = [0, 1]" "trapframe (procs demo_machine 3) = 0x80008000"
    by (simp_all add: rq_inv_def exit_queue_def NPROC_def)
qed

theorem illegal_instruction_kills_witness:
  "\<exists>t v. mtrapvec demo_reader (\<lambda>_. 0) 0 demo_machine = (Inr (), t) \<and> sepc (csr t 0) = 0x10078 \<and>
     smode_trap_handler demo_env 0 t = (Inl (Run 0), v) \<and> pmem v 0x80008000 TF_epc = 0x10078 \<and>
     status (procs v 3) = ZOMBIE \<and> rq_inv v [1] \<and> current v 0 = Some 0"
proof -
  obtain x u where "print_errorline demo_reader (\<lambda>_. 0) 0 (demo_machine\<lparr>m_forward_to_s := False\<rparr>) = (Inr x, u)"
    using demo_errorline by blast
  then show ?thesis
    using illegal_instruction_kills [OF demo_machine_queue(1) demo_machine_simps(1) demo_machine_queue(2), of demo_reader "\<lambda>_. 0" demo_env]
    by (auto simp: demo_machine_queue demo_machine_simps(2) demo_mcsr_def NPROC_def CAUSE_ILLEGAL_INSTRUCTION_def MSTATUS_MPP_U_def)
qed

text \<open>
  The timer reaches the scheduler exactly once per interrupt: the machine-mode handler moves the next
  interrupt by one interval, sets the software interrupt of the supervisor and forwards nothing; the
  supervisor's handler of that interrupt counts one tick and clears it.\<close>

theorem timer_tick:
  assumes "mcause (mcsr s tp) = CAUSE_MTIMER"
  shows "\<exists>t u. mtrapvec F junk tp s = (Inr (), t) \<and> sip (csr t tp) AND SIP_SSIP \<noteq> 0 \<and>
    mtimecmp t = (mtimecmp s)(tp := mtimecmp s tp + TIMER_INTERVAL) \<and> mcsr t = mcsr s \<and>
    handle_mtimer_trap tp t = (Inr (), u) \<and> sip (csr u tp) AND SIP_SSIP = 0 \<and>
    g_ticks u = (g_ticks s)(tp := g_ticks s tp + 1) \<and> mtimecmp u = mtimecmp t"
  using assms
  by (simp add: mtrapvec_def handle_mtrap_def handle_timer_def handle_mtimer_trap_def krun_defs upd_csr_def SIP_SSIP_def)

theorem timer_tick_witness:
  "\<exists>t u. mtrapvec demo_reader (\<lambda>_. 0) 0 (demo_machine\<lparr>mcsr := (\<lambda>_. demo_mcsr\<lparr>mcause := CAUSE_MTIMER\<rparr>)\<rparr>) = (Inr (), t) \<and>
     mtimecmp t 0 = 1000000 \<and> handle_mtimer_trap 0 t = (Inr (), u) \<and> g_ticks u 0 = 1"
  using timer_tick [of "demo_machine\<lparr>mcsr := (\<lambda>_. demo_mcsr\<lparr>mcause := CAUSE_MTIMER\<rparr>)\<rparr>" 0 demo_reader "\<lambda>_. 0"]
  by (auto simp: demo_machine_simps TIMER_INTERVAL_def)

lemma delegated_bits: "bit (0xb109 :: u64) c \<longleftrightarrow> c \<in> {0, 3, 8, 12, 13, 15}" "bit (0x222 :: u64) c \<longleftrightarrow> c \<in> {1, 5, 9}"
proof -
  have "(0xb109 :: u64) = push_bit 0 1 OR push_bit 3 1 OR push_bit 8 1 OR push_bit 12 1 OR push_bit 13 1 OR push_bit 15 1" by simp
  then have "bit (0xb109 :: u64) c \<longleftrightarrow> bit (push_bit 0 1 OR push_bit 3 1 OR push_bit 8 1 OR push_bit 12 1 OR push_bit 13 1 OR push_bit 15 1 :: u64) c"
    by (simp only:)
  then show "bit (0xb109 :: u64) c \<longleftrightarrow> c \<in> {0, 3, 8, 12, 13, 15}"
    by (simp only: bit_or_iff bit_single insert_iff empty_iff) auto
  have "(0x222 :: u64) = push_bit 1 1 OR push_bit 5 1 OR push_bit 9 1" by simp
  then have "bit (0x222 :: u64) c \<longleftrightarrow> bit (push_bit 1 1 OR push_bit 5 1 OR push_bit 9 1 :: u64) c" by (simp only:)
  then show "bit (0x222 :: u64) c \<longleftrightarrow> c \<in> {1, 5, 9}"
    by (simp only: bit_or_iff bit_single insert_iff empty_iff) auto
qed

lemma delegate_traps_eq:
  assumes "bit (misa (mcsr s h)) 18" "mideleg_bits s AND 0x222 = 0x222" "medeleg_bits s AND 0xb109 = 0xb109"
  shows "delegate_traps h s = (Inr (), s\<lparr>mcsr := (mcsr s)(h := (mcsr s h)\<lparr>mideleg := 0x222, medeleg := 0xb109\<rparr>)\<rparr>)"
proof -
  have "push_bit 0 1 OR push_bit 0xc 1 OR push_bit 3 1 OR push_bit 0xd 1 OR push_bit 0xf 1 OR push_bit 8 1 = (0xb109 :: u64)"
    "MIP_SSIP OR MIP_STIP OR MIP_SEIP = 0x222" by (simp_all add: MIP_SSIP_def MIP_STIP_def MIP_SEIP_def)
  then show ?thesis
    using assms by (simp add: delegate_traps_def supports_extension_def krun_defs Let_def and.commute)
qed

text \<open>
  What a hart is set up for when it leaves machine mode: if the discovery of the devices (on hart 0) is done and
  the machine implements the delegation bits, \<^verbatim>\<open>m_start\<close> reaches its \<^verbatim>\<open>mret\<close>; this enters \<^verbatim>\<open>s_start\<close> in supervisor
  mode; exactly the exceptions 0, 3, 8, 12, 13 and 15 (system calls and page faults among them, illegal
  instructions not) and the supervisor's own interrupts are delegated; and the timer is armed.\<close>

theorem m_start_delegates:
  assumes "kwhen (h = 0) (kthen spike_file_init (init_dtb self dtb)) s = (Inr (), u)"
    and "bit (misa (mcsr u h)) 18" "mideleg_bits u AND 0x222 = 0x222" "medeleg_bits u AND 0xb109 = 0xb109"
  shows "\<exists>t. m_start self h dtb s = (Inr (), t) \<and>
    mepc (mcsr t h) = s_start_addr u \<and> mstatus (mcsr t h) AND MSTATUS_MPP_MASK = MSTATUS_MPP_S \<and>
    (\<forall>c. bit (medeleg (mcsr t h)) c \<longleftrightarrow> c \<in> {0, 3, 8, 12, 13, 15}) \<and>
    (\<forall>c. bit (mideleg (mcsr t h)) c \<longleftrightarrow> c \<in> {1, 5, 9}) \<and>
    mtvec (mcsr t h) = mtrapvec_addr u \<and> bit (mie (mcsr t h)) 7 \<and> mtimecmp t h = mtime u + TIMER_INTERVAL"
proof -
  have mpp: "((w AND NOT MSTATUS_MPP_MASK OR MSTATUS_MPP_S) OR MSTATUS_MIE) AND MSTATUS_MPP_MASK = MSTATUS_MPP_S" for w :: u64
    by (simp add: MSTATUS_MPP_MASK_def MSTATUS_MPP_S_def MSTATUS_MIE_def bit.conj_disj_distrib2 and.assoc)
  have mtie: "bit (w OR MIE_MTIE) 7" for w :: u64
    by (simp add: MIE_MTIE_def bit_or_iff)
  have "\<exists>t. m_start self h dtb s = (Inr (), t) \<and>
      mepc (mcsr t h) = s_start_addr u \<and> mstatus (mcsr t h) AND MSTATUS_MPP_MASK = MSTATUS_MPP_S \<and>
      medeleg (mcsr t h) = 0xb109 \<and> mideleg (mcsr t h) = 0x222 \<and>
      mtvec (mcsr t h) = mtrapvec_addr u \<and> bit (mie (mcsr t h)) 7 \<and> mtimecmp t h = mtime u + TIMER_INTERVAL"
    unfolding m_start_def kthen_def kbind_run [where m = "kwhen (h = 0) (kthen spike_file_init (init_dtb self dtb))",
        unfolded kthen_def, OF assms(1) [unfolded kthen_def]]
    using assms(2-4) by (simp add: upd_mcsr_def timerinit_def krun_defs delegate_traps_eq mpp mtie)
  then show ?thesis using delegated_bits by metis
qed

theorem m_start_delegates_witness:
  "\<exists>t. m_start 0 1 0 demo_machine = (Inr (), t) \<and> mepc (mcsr t 1) = 0x80000500 \<and>
     \<not> bit (medeleg (mcsr t 1)) 2 \<and> bit (medeleg (mcsr t 1)) 15 \<and> mtimecmp t 1 = 1005000"
  using m_start_delegates [of 1 0 0 demo_machine demo_machine]
  by (auto simp: kwhen_def kreturn_def demo_machine_simps demo_mcsr_def TIMER_INTERVAL_def)

end
