(* ===== verification/Boot.thy ===== *)
theory Boot
  imports Strap
begin

text \<open>
  The start of the kernel in supervisor mode, \<^verbatim>\<open>kernel/kernel.c\<close>: building the kernel's page table and turning
  paging on, reading the command line, loading the application and scheduling it.  The kernel's address space is
  proved to be the identity on the whole memory with code and data kept apart.
\<close>

unbundle bit_operations_syntax

section \<open>Start in supervisor mode\<close>

definition enable_paging :: "nat \<Rightarrow> ('z kernel_state_scheme, unit) km" where
  "enable_paging tp = kbind (kget g_kernel_pagetable) (\<lambda>pt. upd_csr tp (\<lambda>c. c\<lparr>satp := MAKE_SATP pt\<rparr>))"

text \<open>The memory part of \<^verbatim>\<open>s_start\<close>, from clearing \<^verbatim>\<open>satp\<close> to \<^verbatim>\<open>enable_paging\<close>; \<open>etext\<close> is the end of the kernel's code.\<close>

definition start_paging :: "u64 \<Rightarrow> u64 \<Rightarrow> nat \<Rightarrow> ('z kernel_state_scheme, unit) km" where
  "start_paging g_kernel_end etext tp =
     kthen (upd_csr tp (\<lambda>c. c\<lparr>satp := 0\<rparr>))
     (kthen (kwhen (tp = 0) (kthen (pmm_init g_kernel_end) (kern_vm_init etext)))
       (enable_paging tp))"

definition store64 :: "u64 \<Rightarrow> u64 \<Rightarrow> 'z pmm_state_scheme \<Rightarrow> 'z pmm_state_scheme" where
  "store64 a v s = store_bytes a (map (\<lambda>i. ucast (drop_bit (8 * i) v)) [0..<8]) s"

definition MAX_CMDLINE_ARGS :: nat where "MAX_CMDLINE_ARGS = 64"

text \<open>
  \<^verbatim>\<open>arg_buf\<close> is a union of two views of the same 64 doublewords, here the memory from the address \<open>buf\<close> on, into which
  the host puts the number of arguments, the pointers to them and the strings.
\<close>

definition parse_args :: "host \<Rightarrow> u64 \<Rightarrow> ('z fs_state_scheme, u64) km" where
  "parse_args F buf =
     kbind (frontend_syscall F (HTIFSYS_getmainvars buf (of_nat (8 * MAX_CMDLINE_ARGS)))) (\<lambda>r.
     kthen (kput (store_bytes buf (h_data r)))
     (if h_ret r \<noteq> 0 then kraise (Panic ''r == 0'')
      else kbind (kget (\<lambda>s. load64 s buf)) (\<lambda>pk_argc.
        kthen (kfor [0..<unat pk_argc - 1] (\<lambda>i. if MAX_CMDLINE_ARGS \<le> i + 2 then kraise (Fault ''arg_bug_msg'')
            else kput (\<lambda>s. store64 (buf + of_nat (8 * i)) (load64 s (buf + of_nat (8 * (i + 2)))) s)))
          (kreturn (pk_argc - 1)))))"

definition load_user_program :: "sys_env \<Rightarrow> nat \<Rightarrow> u64 \<Rightarrow> ('z fs_state_scheme, nat) km" where
  "load_user_program E tp buf =
     kbind (alloc_process tp) (\<lambda>proc.
     kbind (parse_args (host_of E) buf) (\<lambda>argc.
     if argc = 0 then kraise (Kill ''You need to specify the application program!'' (-1))
     else kbind (kget (\<lambda>s. load64 s (if of_nat tp < argc then buf + of_nat (8 * tp) else buf))) (\<lambda>app_path.
       kbind (path_at app_path) (\<lambda>filename.
       kthen (load_bincode_from_host_elf (host_of E) (elf_junk_of E) tp proc filename)
       (kthen (upd_proc proc (\<lambda>q. q\<lparr>stack_size := 20 * PGSIZE\<rparr>)) (kreturn proc))))))"

text \<open>
  \<^verbatim>\<open>s_start\<close> on hart \<open>tp\<close>.  \<open>buf\<close> and \<open>buf2\<close> are the argument buffers of \<^verbatim>\<open>s_start\<close> and of \<^verbatim>\<open>load_user_program\<close>, and
  \<open>junk\<close> is what the free map of the RAM disk holds before.  The barriers order the harts (see \<open>sync_barrier_poll\<close>) and
  do not change the state of this one.
\<close>

definition s_start :: "sys_env \<Rightarrow> (nat \<Rightarrow> int) \<Rightarrow> u64 \<Rightarrow> u64 \<Rightarrow> u64 \<Rightarrow> u64 \<Rightarrow> nat \<Rightarrow> ('z fs_state_scheme, int) km" where
  "s_start E junk g_kernel_end etext buf buf2 tp = run_on tp
     (kthen (start_paging g_kernel_end etext tp)
     (kthen (kwhen (tp = 0) (kthen init_proc_pool (fs_init junk)))
     (kbind (parse_args (host_of E) buf) (\<lambda>argc.
      if argc = 0 then kraise (Kill ''You need to specify the application program!'' (-1))
      else kthen (kwhen (of_nat tp < argc) (kbind (load_user_program E tp buf2) insert_to_ready_queue))
        (kthen (schedule tp) (kreturn 0))))))"

section \<open>The kernel's own address space\<close>

lemma kern_vm_map_run:
  fixes s :: "'z pmm_state_scheme"
  assumes inv: "vm_inv R s xs" and pd: "pd \<in> R"
    and rng: "0 < sz" "unat va + unat sz \<le> unat MAXVA" and al: "page_aligned va"
    and free: "\<And>k. k < pages_of va sz \<Longrightarrow> pt_entry (pmem s) pd (page_at va k) AND PTE_V = 0"
    and len: "2 * tables_of va (pages_of va sz) \<le> length xs"
  obtains t ys where "kern_vm_map pd va pa sz perm s = (Inr (), t)" "vm_frame R s xs t ys"
    "length xs \<le> length ys + 2 * tables_of va (pages_of va sz)"
    "\<And>a. a < MAXVA \<Longrightarrow> pt_entry (pmem t) pd a =
       map_entries (pt_entry (pmem s)) pd va (pages_of va sz) pa (scast perm OR PTE_V) pd a"
proof -
  have rd: "ROUNDDOWN va PGSIZE = va" by (rule ROUNDDOWN_id [OF al])
  obtain r t where t: "map_pages pd va sz pa perm s = (Inr r, t)" "r = 0 \<or> r = -1"
      "mapped_range R s xs pd va sz pa (scast perm OR PTE_V) (r = 0) t"
    using kwp_total [OF map_pages_spec [OF inv pd rng, of pa perm]] free by (auto simp: rd)
  then have r: "r = 0" using len by (auto simp: mapped_range_def rd)
  then have "kern_vm_map pd va pa sz perm s = (Inr (), t)"
    using t(1) by (simp add: kern_vm_map_def kbind_def kreturn_def)
  with t(3) r pd show thesis using that by (auto simp: mapped_range_def map_prog_def rd)
qed

lemma kernel_tables:
  assumes "2147483648 \<le> unat va" "unat va + k * 4096 \<le> 2281701376"
  shows "tables_of va k \<le> 64"
proof (cases "k = 0")
  case False
  have "(unat va + (k - 1) * 4096) div 2097152 \<le> 2281701375 div 2097152"
    using assms(2) False by (intro div_le_mono) (cases k, auto)
  moreover have "2147483648 div 2097152 \<le> unat va div 2097152" by (rule div_le_mono [OF assms(1)])
  moreover have "a \<le> 1087 \<Longrightarrow> 1024 \<le> b \<Longrightarrow> a - b + 1 \<le> 64" for a b :: nat by arith
  ultimately show ?thesis using False by (simp add: tables_of_def)
qed simp

text \<open>The entry of an address in the kernel's page table: the address itself, with code not writable and the rest not executable.\<close>

definition kernel_entry :: "u64 \<Rightarrow> u64 \<Rightarrow> u64" where
  "kernel_entry etext a =
     (if KERN_BASE \<le> a \<and> a < etext then PA2PTE (ROUNDDOWN a PGSIZE) OR (PTE_R OR PTE_X OR PTE_A OR PTE_V)
      else if etext \<le> a \<and> a < PHYS_TOP then PA2PTE (ROUNDDOWN a PGSIZE) OR (PTE_R OR PTE_W OR PTE_A OR PTE_D OR PTE_V)
      else 0)"

lemma page_at_ROUNDDOWN:
  assumes "page_aligned f" "unat f \<le> unat a"
  shows "page_at f ((unat a - unat f) div 4096) = ROUNDDOWN a PGSIZE"
proof -
  obtain c where c: "unat f = 4096 * c" using assms(1) by (auto simp: page_aligned_unat)
  obtain r where "unat a = 4096 * c + r" using assms(2) c by (auto simp: le_iff_add)
  then have "unat f + (unat a - unat f) div 4096 * 4096 = unat a div 4096 * 4096"
    by (simp add: c add_mult_distrib)
  moreover have "unat a div 4096 * 4096 < 2 ^ 64" using unat_bound64 [of a] by (simp add: le_less_trans [OF div_times_less_eq_dividend])
  ultimately show ?thesis
    by (simp add: word_unat_eq_iff unat_page_at unat_ROUNDDOWN)
qed

lemma aligned_pages:
  assumes "page_aligned f" "page_aligned e" "f < e"
  shows "unat f + pages_of f (e - f) * 4096 = unat e" "0 < e - f" "unat f + unat (e - f) = unat e"
proof -
  have lt: "unat f < unat e" using assms(3) by (simp add: word_less_nat_alt)
  then show sum: "unat f + unat (e - f) = unat e" using assms(3) by (simp add: unat_sub)
  then show "0 < e - f" using lt by (simp add: word_less_nat_alt)
  obtain c where c: "unat f = 4096 * c" using assms(1) by (auto simp: page_aligned_unat)
  obtain d where d: "unat e = 4096 * d" using assms(2) by (auto simp: page_aligned_unat)
  have "0 < d" "c < d" using lt c d by auto
  then have "(4096 * d - 1) div 4096 = d - 1" by (intro div_nat_eqI) auto
  then show "unat f + pages_of f (e - f) * 4096 = unat e"
    using \<open>c < d\<close> unfolding pages_of_def sum by (simp add: c d algebra_simps)
qed

lemma map_kernel_range:
  fixes s :: "'z pmm_state_scheme"
  assumes inv: "vm_inv R s xs" and pd: "pd \<in> R"
    and al: "page_aligned f" "page_aligned e" and bd: "KERN_BASE \<le> f" "f < e" "e \<le> PHYS_TOP"
    and free: "\<And>a. f \<le> a \<Longrightarrow> a < e \<Longrightarrow> pt_entry (pmem s) pd a AND PTE_V = 0" and len: "128 \<le> length xs"
  obtains t ys where "kern_vm_map pd f f (e - f) perm s = (Inr (), t)" "vm_inv R t ys" "length xs \<le> length ys + 128"
    "\<And>a. a < MAXVA \<Longrightarrow> pt_entry (pmem t) pd a =
       (if f \<le> a \<and> a < e then PA2PTE (ROUNDDOWN a PGSIZE) OR (scast perm OR PTE_V) else pt_entry (pmem s) pd a)"
proof -
  note p = aligned_pages [OF al bd(2)]
  have u: "2147483648 \<le> unat f" "unat e \<le> 2281701376"
    using bd by (simp_all add: word_le_nat_alt KERN_BASE_def PHYS_TOP_def DRAM_BASE_def PKE_MAX_ALLOWABLE_RAM_def)
  have tb: "tables_of f (pages_of f (e - f)) \<le> 64" using u p(1) by (intro kernel_tables) simp_all
  have M: "unat f + unat (e - f) \<le> unat MAXVA" using p(3) u by (simp add: MAXVA_def push_bit_eq_mult)
  have fr: "pt_entry (pmem s) pd (page_at f k) AND PTE_V = 0" if k: "k < pages_of f (e - f)" for k
  proof (rule free)
    have "k * 4096 < pages_of f (e - f) * 4096" using k by simp
    then have b: "unat f + k * 4096 < unat e" using p(1) by linarith
    then have "unat (page_at f k) = unat f + k * 4096" using unat_bound64 [of e] by (intro unat_page_at) simp
    with b show "f \<le> page_at f k" "page_at f k < e" by (simp_all add: word_le_nat_alt word_less_nat_alt)
  qed
  have tl: "2 * tables_of f (pages_of f (e - f)) \<le> length xs" using tb len by simp
  obtain t ys where t: "kern_vm_map pd f f (e - f) perm s = (Inr (), t)" "vm_frame R s xs t ys"
    "length xs \<le> length ys + 2 * tables_of f (pages_of f (e - f))"
    "\<And>a. a < MAXVA \<Longrightarrow> pt_entry (pmem t) pd a =
       map_entries (pt_entry (pmem s)) pd f (pages_of f (e - f)) f (scast perm OR PTE_V) pd a"
    by (rule kern_vm_map_run [OF inv pd p(2) M al(1) fr tl, where pa = f and perm = perm]) simp_all
  have "map_entries (pt_entry (pmem s)) pd f (pages_of f (e - f)) f fl pd a =
      (if f \<le> a \<and> a < e then PA2PTE (ROUNDDOWN a PGSIZE) OR fl else pt_entry (pmem s) pd a)" for a fl
    unfolding map_entries_def p(1) by (simp add: page_at_ROUNDDOWN [OF al(1)] word_le_nat_alt word_less_nat_alt)
  with t tb show thesis using that [OF t(1) vm_frameD(1) [OF t(2)]] by simp
qed

lemma kern_vm_init_run:
  fixes s :: "'z vm_state_scheme"
  assumes inv: "pmm_inv s xs" and len: "257 \<le> length xs"
    and e: "page_aligned etext" "KERN_BASE < etext" "etext < PHYS_TOP"
  obtains t ys where "kern_vm_init etext s = (Inr (), t)" "vm_inv {g_kernel_pagetable t} t ys"
    "\<And>a. a < MAXVA \<Longrightarrow> pt_entry (pmem t) (g_kernel_pagetable t) a = kernel_entry etext a"
proof -
  obtain x zs where xs: "xs = x # zs" using len by (cases xs) auto
  have "vm_inv {} s (x # zs)" using inv by (simp add: xs vm_inv_def pt_tree_def is_table_def)
  note d = alloc_data_page [OF this]
  have nt: "\<not> is_table {} (pmem (alloc_state x s)) pd is x" for pd "is" using d(2) by simp
  have "page_aligned x" using d(4) by (simp add: managed_def)
  note root = vm_inv_new_root [OF d(1) nt d(3) this] new_root_tables(4) [OF nt] d(5)
  let ?s = "set_page x (\<lambda>_. 0) (alloc_state x s)"
  have al: "page_aligned KERN_BASE" "page_aligned PHYS_TOP"
    by (simp_all add: KERN_BASE_def PHYS_TOP_def DRAM_BASE_def PKE_MAX_ALLOWABLE_RAM_def PGSIZE_def)
  have l: "256 \<le> length zs" using len by (simp add: xs)
  let ?rx = "ucast (prot_to_type (PROT_READ OR PROT_EXEC) False) :: i32"
    and ?rw = "ucast (prot_to_type (PROT_READ OR PROT_WRITE) False) :: i32"
  have fr0: "pt_entry (pmem ?s) x a AND PTE_V = 0" for a by (subst root(2)) simp
  have l0: "128 \<le> length zs" using l by simp
  obtain t ys where t: "kern_vm_map x KERN_BASE KERN_BASE (etext - KERN_BASE) ?rx ?s = (Inr (), t)" "vm_inv {x} t ys"
      "length zs \<le> length ys + 128" "\<And>a. a < MAXVA \<Longrightarrow> pt_entry (pmem t) x a =
       (if KERN_BASE \<le> a \<and> a < etext then PA2PTE (ROUNDDOWN a PGSIZE) OR (scast ?rx OR PTE_V) else pt_entry (pmem ?s) x a)"
    by (rule map_kernel_range [OF root(1) _ al(1) e(1) order_refl e(2) less_imp_le [OF e(3)] fr0 l0, where perm = ?rx])
      simp_all
  have fr: "pt_entry (pmem t) x a AND PTE_V = 0" if "etext \<le> a" "a < PHYS_TOP" for a
  proof -
    have "a < MAXVA" using that(2) by (simp add: word_less_nat_alt MAXVA_def PHYS_TOP_def DRAM_BASE_def PKE_MAX_ALLOWABLE_RAM_def)
    then have "pt_entry (pmem t) x a = pt_entry (pmem ?s) x a" using t(4) [of a] that(1) by (simp add: not_less [symmetric] del: set_page_simps)
    then show ?thesis using fr0 by simp
  qed
  obtain u vs where u: "kern_vm_map x etext etext (PHYS_TOP - etext) ?rw t = (Inr (), u)" "vm_inv {x} u vs"
      "length ys \<le> length vs + 128" "\<And>a. a < MAXVA \<Longrightarrow> pt_entry (pmem u) x a =
       (if etext \<le> a \<and> a < PHYS_TOP then PA2PTE (ROUNDDOWN a PGSIZE) OR (scast ?rw OR PTE_V) else pt_entry (pmem t) x a)"
    by (rule map_kernel_range [OF t(2) _ e(1) al(2) less_imp_le [OF e(2)] e(3) order_refl fr, where perm = ?rw])
      (use l t(3) in simp_all)
  let ?u = "u\<lparr>g_kernel_pagetable := x\<rparr>"
  have perms: "scast ?rx OR PTE_V = PTE_R OR PTE_X OR PTE_A OR PTE_V" "scast ?rw OR PTE_V = PTE_R OR PTE_W OR PTE_A OR PTE_D OR PTE_V"
    by (simp_all add: prot_to_type_def PROT_READ_def PROT_WRITE_def PROT_EXEC_def pte_flag_defs)
  have "kern_vm_init etext s = (Inr (), ?u)"
    using alloc_page_eq [OF inv [unfolded xs]] root(3) t(1) u(1)
    by (simp add: kern_vm_init_def kbind_def kthen_def kput_def DRAM_BASE_def KERN_BASE_def)
  moreover have "vm_inv {x} ?u vs"
    using u(2) pmm_inv_cong [of ?u u vs] by (simp add: vm_inv_def)
  moreover have "pt_entry (pmem u) x a = kernel_entry etext a" if "a < MAXVA" for a
    using u(4) [OF that] t(4) [OF that] root(2) [of a] unfolding perms kernel_entry_def by (auto simp del: set_page_simps)
  ultimately show thesis using that [of ?u vs] by simp
qed

section \<open>Paging is on\<close>

lemma kernel_entry_valid:
  assumes "KERN_BASE \<le> a" "a < PHYS_TOP"
  shows "kernel_entry etext a AND PTE_V \<noteq> 0" "pte_frame (kernel_entry etext a) = ROUNDDOWN a PGSIZE"
    "kernel_entry etext a AND (PTE_R OR PTE_W OR PTE_X OR PTE_U) = (if a < etext then PTE_R OR PTE_X else PTE_R OR PTE_W)"
proof -
  define fl where "fl = (if a < etext then PTE_R OR PTE_X OR PTE_A OR PTE_V else PTE_R OR PTE_W OR PTE_A OR PTE_D OR PTE_V)"
  have e: "kernel_entry etext a = PA2PTE (ROUNDDOWN a PGSIZE) OR fl"
    using assms by (auto simp: kernel_entry_def fl_def not_less)
  have small: "fl AND NOT 0x3FF = 0" by (simp add: fl_def pte_flag_defs)
  have "unat a < 2281701376"
    using assms(2) by (simp add: word_less_nat_alt PHYS_TOP_def DRAM_BASE_def PKE_MAX_ALLOWABLE_RAM_def)
  then have "unat (ROUNDDOWN a PGSIZE) < 2 ^ 56"
    unfolding unat_ROUNDDOWN using div_times_less_eq_dividend [of "unat a" 4096] by simp
  then show "pte_frame (kernel_entry etext a) = ROUNDDOWN a PGSIZE"
    unfolding e using small by (intro pte_frame_PA2PTE ROUNDDOWN_aligned)
  have low: "PA2PTE x AND m = 0" if "m AND NOT 0x3FF = 0" for x m
  proof (rule bit_word_eqI)
    fix n show "bit (PA2PTE x AND m) n = bit 0 n"
      using flags_bits [OF that, of n] by (cases "10 \<le> n") (auto simp: PA2PTE_def bit_simps)
  qed
  have mask: "(PTE_R OR PTE_W OR PTE_X OR PTE_U) AND NOT 0x3FF = 0" "PTE_V AND NOT 0x3FF = 0"
    by (simp_all add: pte_flag_defs)
  show "kernel_entry etext a AND PTE_V \<noteq> 0"
    unfolding e bit.conj_disj_distrib2 low [OF mask(2)] by (simp add: fl_def pte_flag_defs)
  show "kernel_entry etext a AND (PTE_R OR PTE_W OR PTE_X OR PTE_U) = (if a < etext then PTE_R OR PTE_X else PTE_R OR PTE_W)"
    unfolding e bit.conj_disj_distrib2 low [OF mask(1)] by (simp add: fl_def pte_flag_defs)
qed

lemma kernel_entry_none: "\<not> (KERN_BASE \<le> a \<and> a < PHYS_TOP) \<Longrightarrow> KERN_BASE < etext \<Longrightarrow> etext < PHYS_TOP \<Longrightarrow> kernel_entry etext a = 0"
  by (auto simp: kernel_entry_def)

lemma start_paging_run:
  fixes s :: "'z kernel_state_scheme"
  assumes m: "m = min PKE_MAX_ALLOWABLE_RAM (g_mem_size s)" "page_aligned m"
    and e: "KERN_BASE < g_kernel_end" "unat g_kernel_end + 260 * 4096 \<le> unat m + 2 ^ 31"
    and z: "page_ref_count s = (\<lambda>_. 0)"
    and t: "page_aligned etext" "KERN_BASE < etext" "etext < PHYS_TOP"
  obtains u ys where "start_paging g_kernel_end etext 0 s = (Inr (), u)" "vm_inv {g_kernel_pagetable u} u ys"
    "satp (csr u 0) = MAKE_SATP (g_kernel_pagetable u)"
    "\<And>a. a < MAXVA \<Longrightarrow> pt_entry (pmem u) (g_kernel_pagetable u) a = kernel_entry etext a"
proof -
  let ?s = "s\<lparr>csr := (csr s)(0 := (csr s 0)\<lparr>satp := 0\<rparr>)\<rparr>"
  have "\<exists>t. pmm_init g_kernel_end ?s = (Inr (), t) \<and>
      pmm_inv t (rev (page_range (ROUNDUP g_kernel_end PGSIZE) (n_pages t - 1))) \<and>
      unat (ROUNDUP g_kernel_end PGSIZE) + n_pages t * 4096 = unat m + 2 ^ 31 \<and> n_pages t \<le> PMM_MAX_PAGES"
    using m e z by (intro pmm_init_run) simp_all
  then obtain p where p: "pmm_init g_kernel_end ?s = (Inr (), p)"
    "pmm_inv p (rev (page_range (ROUNDUP g_kernel_end PGSIZE) (n_pages p - 1)))"
    "unat (ROUNDUP g_kernel_end PGSIZE) + n_pages p * 4096 = unat m + 2 ^ 31" by blast
  have "unat (ROUNDUP g_kernel_end PGSIZE) \<le> unat g_kernel_end + 4095"
  proof -
    have "g_kernel_end \<noteq> 0" "unat g_kernel_end + 4095 < 2 ^ 64"
      using e m(1) by (auto simp: KERN_BASE_def word_less_nat_alt PKE_MAX_ALLOWABLE_RAM_def min_def word_le_nat_alt split: if_splits)
    moreover from this(1) have "0 < unat g_kernel_end" by (simp add: unat_gt_0)
    moreover have "(unat g_kernel_end - 1) div 4096 * 4096 \<le> unat g_kernel_end - 1" by (rule div_times_less_eq_dividend)
    ultimately show ?thesis by (simp add: unat_ROUNDUP)
  qed
  then have l: "257 \<le> length (rev (page_range (ROUNDUP g_kernel_end PGSIZE) (n_pages p - 1)))"
    using p(3) e(2) by (simp add: page_range_def)
  obtain v ys where v: "kern_vm_init etext p = (Inr (), v)" "vm_inv {g_kernel_pagetable v} v ys"
    "\<And>a. a < MAXVA \<Longrightarrow> pt_entry (pmem v) (g_kernel_pagetable v) a = kernel_entry etext a"
    using kern_vm_init_run [OF p(2) l t] by blast
  let ?v = "v\<lparr>csr := (csr v)(0 := (csr v 0)\<lparr>satp := MAKE_SATP (g_kernel_pagetable v)\<rparr>)\<rparr>"
  have "start_paging g_kernel_end etext 0 s = (Inr (), ?v)"
    using p(1) v(1) by (simp add: start_paging_def enable_paging_def upd_csr_def krun_defs)
  moreover have "vm_inv {g_kernel_pagetable ?v} ?v ys"
    using v(2) pmm_inv_cong [of ?v v ys] by (simp add: vm_inv_def)
  ultimately show thesis using that [of ?v ys] v(3) by simp
qed

text \<open>
  C5. The kernel's address space: \<^verbatim>\<open>s_start\<close> on hart 0 turns paging on with a page table that maps every address
  from \<^verbatim>\<open>KERN_BASE\<close> to \<^verbatim>\<open>PHYS_TOP\<close> to itself; the kernel's code is readable and executable and not writable, the
  rest readable and writable and not executable, nothing is accessible from user mode, and no other address is
  mapped.  It never runs out of table pages when at least 260 pages lie between the end of the kernel and the end of memory.
\<close>

theorem boot_identity_map:
  fixes s :: "'z kernel_state_scheme"
  assumes "m = min PKE_MAX_ALLOWABLE_RAM (g_mem_size s)" "page_aligned m"
    and "KERN_BASE < g_kernel_end" "unat g_kernel_end + 260 * 4096 \<le> unat m + 2 ^ 31"
    and "page_ref_count s = (\<lambda>_. 0)" "page_aligned etext" "KERN_BASE < etext" "etext < PHYS_TOP"
  shows "\<exists>t root ys. start_paging g_kernel_end etext 0 s = (Inr (), t) \<and> vm_inv {root} t ys \<and>
    satp (csr t 0) = MAKE_SATP root \<and>
    (\<forall>a<MAXVA. if KERN_BASE \<le> a \<and> a < PHYS_TOP
       then user_va_to_pa root a t = (Inr a, t) \<and> pt_entry (pmem t) root a AND (PTE_R OR PTE_W OR PTE_X OR PTE_U) =
         (if a < etext then PTE_R OR PTE_X else PTE_R OR PTE_W)
       else pt_entry (pmem t) root a = 0)"
proof -
  obtain u ys where u: "start_paging g_kernel_end etext 0 s = (Inr (), u)" "vm_inv {g_kernel_pagetable u} u ys"
    "satp (csr u 0) = MAKE_SATP (g_kernel_pagetable u)"
    "\<And>a. a < MAXVA \<Longrightarrow> pt_entry (pmem u) (g_kernel_pagetable u) a = kernel_entry etext a"
    by (rule start_paging_run [OF assms]) simp_all
  have "user_va_to_pa (g_kernel_pagetable u) a u = (Inr a, u)" if "a < MAXVA" "KERN_BASE \<le> a" "a < PHYS_TOP" for a
    using kernel_entry_valid(1,2) [OF that(2,3), of etext] by (simp add: user_va_to_pa_eq [OF that(1)] u(4) [OF that(1)] ROUNDDOWN_mod)
  then show ?thesis
    using u kernel_entry_valid(3) kernel_entry_none [OF _ assms(7,8)]
    by (intro exI [of _ u] exI [of _ "g_kernel_pagetable u"] exI [of _ ys]) auto
qed

definition demo_power_on :: fs_state where
  "demo_power_on = demo_fs\<lparr>g_mem_size := 0x10000000, page_ref_count := (\<lambda>_. 0)\<rparr>"

theorem boot_identity_map_witness:
  "\<exists>t root ys. start_paging 0x80420123 0x80010000 0 demo_power_on = (Inr (), t) \<and> vm_inv {root} t ys \<and>
     user_va_to_pa root 0x80001234 t = (Inr 0x80001234, t) \<and> user_va_to_pa root 0x87654321 t = (Inr 0x87654321, t)"
proof -
  have "\<exists>t root ys. start_paging 0x80420123 0x80010000 0 demo_power_on = (Inr (), t) \<and> vm_inv {root} t ys \<and>
    satp (csr t 0) = MAKE_SATP root \<and>
    (\<forall>a<MAXVA. if KERN_BASE \<le> a \<and> a < PHYS_TOP
       then user_va_to_pa root a t = (Inr a, t) \<and> pt_entry (pmem t) root a AND (PTE_R OR PTE_W OR PTE_X OR PTE_U) =
         (if a < 0x80010000 then PTE_R OR PTE_X else PTE_R OR PTE_W)
       else pt_entry (pmem t) root a = 0)"
    by (rule boot_identity_map [of PKE_MAX_ALLOWABLE_RAM])
      (simp_all add: demo_power_on_def PKE_MAX_ALLOWABLE_RAM_def PGSIZE_def KERN_BASE_def PHYS_TOP_def DRAM_BASE_def)
  then obtain t root ys where t: "start_paging 0x80420123 0x80010000 0 demo_power_on = (Inr (), t)" "vm_inv {root} t ys"
    and id: "\<And>a. a < MAXVA \<Longrightarrow> KERN_BASE \<le> a \<Longrightarrow> a < PHYS_TOP \<Longrightarrow> user_va_to_pa root a t = (Inr a, t)"
    by (auto split: if_splits)
  have "user_va_to_pa root 0x80001234 t = (Inr 0x80001234, t)" "user_va_to_pa root 0x87654321 t = (Inr 0x87654321, t)"
    by (rule id; simp add: MAXVA_def KERN_BASE_def PHYS_TOP_def DRAM_BASE_def PKE_MAX_ALLOWABLE_RAM_def)+
  with t show ?thesis by blast
qed

section \<open>The command line\<close>

lemma load_byte_store_byte [simp]: "load_byte (store_byte a b s) c = (if c = a then b else load_byte s c)"
proof -
  have "ROUNDDOWN c PGSIZE = ROUNDDOWN a PGSIZE \<and> c mod PGSIZE = a mod PGSIZE \<longleftrightarrow> c = a"
    using ROUNDDOWN_mod by metis
  moreover have "unat (c mod PGSIZE) < 4096"
    by (simp add: unat_mod_distrib unat_PGSIZE)
  ultimately show ?thesis by (auto simp: load_byte_def store_byte_def Let_def simp flip: word_unat_eq_iff)
qed

lemma load_store64: "load_byte (store64 a v s) = st64 a v (load_byte s)"
proof -
  have "[0..<8] = [0, 1, 2, 3, 4, 5, 6, 7 :: nat]" by (simp add: upt_rec)
  then show ?thesis by (simp add: store64_def st64_def fun_eq_iff add.assoc)
qed

lemma st64_ld64_apply: "st64 d (ld64 m s) t a = (if unat (a - d) < 8 then m (s + (a - d)) else t a)"
proof -
  define x where "x = a - d"
  then have a: "a = d + x" by simp
  have "x \<in> {0, 1, 2, 3, 4, 5, 6, 7}" if "unat x < 8"
  proof -
    have "unat x \<in> {0, 1, 2, 3, 4, 5, 6, 7}" using that by (simp add: less_Suc_eq numeral_eq_Suc)
    then show ?thesis by (auto simp: word_unat_eq_iff)
  qed
  moreover have "x \<notin> {0, 1, 2, 3, 4, 5, 6, 7}" if "\<not> unat x < 8" using that by auto
  ultimately show ?thesis unfolding a st64_ld64 by (cases "unat x < 8") (simp_all, elim disjE, simp_all)
qed

lemma copy_args:
  fixes s :: "'z pmm_state_scheme"
  assumes "n + 2 \<le> MAX_CMDLINE_ARGS"
  shows "\<exists>t. kfor [0..<n] (\<lambda>i. if MAX_CMDLINE_ARGS \<le> i + 2 then kraise (Fault ''arg_bug_msg'')
      else kput (\<lambda>s. store64 (buf + of_nat (8 * i)) (load64 s (buf + of_nat (8 * (i + 2)))) s)) s = (Inr (), t) \<and>
    (\<forall>a. load_byte t a = (if unat (a - buf) < 8 * n then load_byte s (a + 16) else load_byte s a))"
  using assms
proof (induction n)
  case 0
  then show ?case by (simp add: kreturn_def)
next
  case (Suc n)
  then obtain t where t: "kfor [0..<n] (\<lambda>i. if MAX_CMDLINE_ARGS \<le> i + 2 then kraise (Fault ''arg_bug_msg'')
      else kput (\<lambda>s. store64 (buf + of_nat (8 * i)) (load64 s (buf + of_nat (8 * (i + 2)))) s)) s = (Inr (), t)"
    and b: "\<And>a. load_byte t a = (if unat (a - buf) < 8 * n then load_byte s (a + 16) else load_byte s a)"
    by auto
  let ?d = "buf + of_nat (8 * n)" and ?e = "buf + of_nat (8 * (n + 2))"
  have n: "n + 2 < 64" using Suc.prems by (simp add: MAX_CMDLINE_ARGS_def)
  have off: "unat (a - ?d) < 8 \<longleftrightarrow> 8 * n \<le> unat (a - buf) \<and> unat (a - buf) < 8 * Suc n" for a
  proof -
    have d: "a - ?d = (a - buf) - of_nat (8 * n)" by simp
    have u: "unat (of_nat (8 * n) :: u64) = 8 * n" by (subst unat_of_nat) (use n in simp)
    show ?thesis
      unfolding d unat_sub_if' u using n unat_bound64 [of "a - buf"] by (simp, linarith)
  qed
  have src: "load_byte t (?e + (a - ?d)) = load_byte s (a + 16)" if "unat (a - ?d) < 8" for a
  proof -
    have eq: "?e + (a - ?d) = a + 16" by (simp add: algebra_simps)
    have d: "a + 16 - buf = (a - buf) + 16" by simp
    have "unat (a + 16 - buf) = unat (a - buf) + 16"
      unfolding d by (subst unat_word_ariths(1)) (use that off [of a] n in simp)
    then show ?thesis unfolding eq b using that off [of a] by simp
  qed
  let ?t = "store64 ?d (load64 t ?e) t"
  have "load_byte ?t a = (if unat (a - buf) < 8 * Suc n then load_byte s (a + 16) else load_byte s a)" for a
    unfolding load_store64 load64_def st64_ld64_apply using off [of a] src [of a] b [of a] by auto
  moreover have "kfor [0..<Suc n] (\<lambda>i. if MAX_CMDLINE_ARGS \<le> i + 2 then kraise (Fault ''arg_bug_msg'')
      else kput (\<lambda>s. store64 (buf + of_nat (8 * i)) (load64 s (buf + of_nat (8 * (i + 2)))) s)) s = (Inr (), ?t)"
    using t Suc.prems by (simp add: kfor_snoc kbind_def kthen_def kput_def)
  ultimately show ?case by blast
qed

text \<open>
  The command line: when the host has put the number of arguments and the pointers to them into the buffer,
  \<^verbatim>\<open>parse_args\<close> returns the number without the kernel itself, the buffer starts with the pointers to the application
  arguments, and no byte behind them changes, so that the strings, which the host puts behind the pointers,
  are still there.
\<close>

theorem parse_args_correct:
  fixes s :: "'z fs_state_scheme"
  assumes ans: "r = F (host_calls s @ [HTIFSYS_getmainvars buf 512])" "h_ret r = 0"
    and s0: "s0 = store_bytes buf (h_data r) (s\<lparr>host_calls := host_calls s @ [HTIFSYS_getmainvars buf 512]\<rparr>)"
    and argc: "load64 s0 buf = argc" "0 < argc" "argc < 64"
  shows "\<exists>t. parse_args F buf s = (Inr (argc - 1), t) \<and>
    (\<forall>i < unat argc - 1. load64 t (buf + of_nat (8 * i)) = load64 s0 (buf + of_nat (8 * (i + 2)))) \<and>
    (\<forall>a. 8 * (unat argc - 1) \<le> unat (a - buf) \<longrightarrow> load_byte t a = load_byte s0 a)"
proof -
  let ?n = "unat argc - 1"
  have n: "?n + 2 \<le> MAX_CMDLINE_ARGS" using argc(2,3) by (simp add: word_less_nat_alt MAX_CMDLINE_ARGS_def)
  obtain t where t: "kfor [0..<?n] (\<lambda>i. if MAX_CMDLINE_ARGS \<le> i + 2 then kraise (Fault ''arg_bug_msg'')
      else kput (\<lambda>s. store64 (buf + of_nat (8 * i)) (load64 s (buf + of_nat (8 * (i + 2)))) s)) s0 = (Inr (), t)"
    and b: "\<And>a. load_byte t a = (if unat (a - buf) < 8 * ?n then load_byte s0 (a + 16) else load_byte s0 a)"
    using copy_args [OF n, of buf s0] by blast
  have "parse_args F buf s = (Inr (argc - 1), t)"
    using ans t argc(1) unfolding s0 by (simp add: parse_args_def frontend_syscall_def krun_defs MAX_CMDLINE_ARGS_def)
  moreover have "load64 t (buf + of_nat (8 * i)) = load64 s0 (buf + of_nat (8 * (i + 2)))" if "i < ?n" for i
  proof -
    have "load_byte t (buf + of_nat (8 * i) + of_nat j) = load_byte s0 (buf + of_nat (8 * (i + 2)) + of_nat j)" if "j < 8" for j
    proof -
      have "unat (of_nat (8 * i + j) :: u64) = 8 * i + j"
        by (subst unat_of_nat) (use \<open>i < ?n\<close> that n in \<open>simp add: MAX_CMDLINE_ARGS_def\<close>)
      moreover have "8 * i + j < 8 * ?n" using \<open>i < ?n\<close> that by simp
      ultimately have "unat (buf + of_nat (8 * i) + of_nat j - buf) < 8 * ?n" by simp
      then show ?thesis unfolding b by (simp add: algebra_simps)
    qed
    from this [of 0] this [of 1] this [of 2] this [of 3] this [of 4] this [of 5] this [of 6] this [of 7]
    show ?thesis by (simp add: load64_def ld64_def)
  qed
  ultimately show ?thesis using b by auto
qed

text \<open>A host that was started with the kernel and one application, whose name is the string \<^verbatim>\<open>/a\<close> behind the pointers.\<close>

definition demo_args :: host where
  "demo_args _ = \<lparr>h_ret = 0, h_data = [2, 0, 0, 0, 0, 0, 0, 0] @ replicate 8 0 @ [0x18, 0x60, 0, 0x80, 0, 0, 0, 0] @ [47, 97, 0],
     h_stat = \<lparr>fs_ino = 0, fs_mode = 0, fs_nlink = 0, fs_size = 0, fs_blocks = 0\<rparr>\<rparr>"

theorem parse_args_correct_witness:
  "\<exists>t. parse_args demo_args 0x80006000 demo_fs = (Inr 1, t) \<and> load64 t 0x80006000 = 0x80006018 \<and>
     load_byte t 0x80006018 = 47 \<and> load_byte t 0x80006019 = 97 \<and> load_byte t 0x8000601a = 0"
proof -
  let ?s0 = "store_bytes 0x80006000 (h_data (demo_args [])) (demo_fs\<lparr>host_calls := host_calls demo_fs @ [HTIFSYS_getmainvars 0x80006000 512]\<rparr>)"
  have d: "h_data (demo_args []) = [2, 0, 0, 0, 0, 0, 0, 0, 0, 0, 0, 0, 0, 0, 0, 0, 0x18, 0x60, 0, 0x80, 0, 0, 0, 0, 47, 97, 0]"
    by (simp add: demo_args_def numeral_eq_Suc)
  have b: "load_byte ?s0 0x80006018 = 47" "load_byte ?s0 0x80006019 = 97" "load_byte ?s0 0x8000601a = 0"
    "load64 ?s0 0x80006000 = 2" "load64 ?s0 0x80006010 = 0x80006018"
    unfolding d by (simp_all add: load64_def ld64_def)
  have "\<exists>t. parse_args demo_args 0x80006000 demo_fs = (Inr (2 - 1), t) \<and>
    (\<forall>i < unat (2 :: u64) - 1. load64 t (0x80006000 + of_nat (8 * i)) = load64 ?s0 (0x80006000 + of_nat (8 * (i + 2)))) \<and>
    (\<forall>a. 8 * (unat (2 :: u64) - 1) \<le> unat (a - 0x80006000) \<longrightarrow> load_byte t a = load_byte ?s0 a)"
    by (rule parse_args_correct [of "demo_args []"]) (use b(4) in \<open>simp_all add: demo_args_def\<close>)
  then obtain t where t: "parse_args demo_args 0x80006000 demo_fs = (Inr 1, t)"
    "load64 t 0x80006000 = load64 ?s0 0x80006010" "\<And>a. 8 \<le> unat (a - 0x80006000) \<Longrightarrow> load_byte t a = load_byte ?s0 a"
    by auto
  then show ?thesis using b by auto
qed

end
