(* ===== verification/Proc_Space.thy ===== *)
theory Proc_Space
  imports Heap_Pages Fork Strap
begin

text \<open>
  The address space of a new process: what \<^verbatim>\<open>alloc_process\<close> of \<^verbatim>\<open>kernel/process.c\<close> builds.  \<open>space\<close> describes a memory with page
  tables, the data pages that are in use, the free pages and the entries of all address spaces; there is one
  rule for each way in which \<^verbatim>\<open>alloc_process\<close> changes memory.
\<close>

unbundle bit_operations_syntax

section \<open>Memory with its data pages\<close>

definition space :: "u64 set \<Rightarrow> u64 set \<Rightarrow> u64 list \<Rightarrow> (u64 \<Rightarrow> u64 \<Rightarrow> u64) \<Rightarrow> (u64 \<Rightarrow> 9 word \<Rightarrow> u64) \<Rightarrow> 'z pmm_state_scheme \<Rightarrow> bool" where
  "space R D xs E C s \<longleftrightarrow> vm_inv R s xs \<and> (\<forall>d\<in>D. d \<notin> set xs \<and> pmem s d = C d \<and> (\<forall>pd is. \<not> is_table R (pmem s) pd is d)) \<and>
     (\<forall>pd\<in>R. \<forall>va<MAXVA. pt_entry (pmem s) pd va = E pd va)"

lemma spaceD:
  assumes "space R D xs E C s"
  shows "vm_inv R s xs" "d \<in> D \<Longrightarrow> d \<notin> set xs" "d \<in> D \<Longrightarrow> \<not> is_table R (pmem s) pd is d"
    "pd \<in> R \<Longrightarrow> va < MAXVA \<Longrightarrow> pt_entry (pmem s) pd va = E pd va" "d \<in> D \<Longrightarrow> pmem s d = C d"
  using assms unfolding space_def by blast+

lemma space_more [simp]:
  "space R D xs E C (s\<lparr>procs := f\<rparr>) = space R D xs E C s" "space R D xs E C (u\<lparr>pfile_tab := g\<rparr>) = space R D xs E C u"
  by (simp_all add: space_def vm_inv_def pmm_inv_def pmm_bounds_def managed_def PAGE_INDEX_def MAX_PAGE_NUM_def)

lemma space_alloc:
  assumes "space R D (x # xs) E C s"
  shows "space R (insert x D) xs E (C(x := pmem s x)) (alloc_state x s)" "alloc_page s = (Inr x, alloc_state x s)"
    "new_page s = (Inr x, alloc_state x s)" "x \<noteq> 0" "x \<notin> D" "managed s x"
proof -
  note d = alloc_data_page [OF spaceD(1) [OF assms]]
  show "space R (insert x D) xs E (C(x := pmem s x)) (alloc_state x s)"
    using assms d(1-3) by (auto simp: space_def)
  show a: "alloc_page s = (Inr x, alloc_state x s)"
    using spaceD(1) [OF assms] alloc_page_eq by (auto simp: vm_inv_def)
  show "x \<noteq> 0" "managed s x" by (rule d)+
  then show "new_page s = (Inr x, alloc_state x s)" using a by (simp add: new_page_def kbind_def kreturn_def)
  show "x \<notin> D" using spaceD(2) [OF assms, of x] by auto
qed

lemma space_write:
  assumes "space R D xs E C s" "d \<in> D"
  shows "space R D xs E (C(d := c)) (set_page d c s)" "space R D xs E (C(d := (C d)(i := v))) (set_dword d i v s)"
proof -
  have p: "space R D xs E (C(d := c)) (set_page d c s)" for c
  proof -
    have "is_table R (pmem (set_page d c s)) = is_table R (pmem s)"
      by (rule data_write_tables(1) [OF spaceD(3) [OF assms]]) (simp add: set_page_def)
    then show ?thesis
      using assms vm_set_page_data [OF spaceD(1) [OF assms(1)] spaceD(3,2) [OF assms]] by (auto simp: space_def)
  qed
  then show "space R D xs E (C(d := c)) (set_page d c s)" .
  have "set_dword d i v s = set_page d ((C d)(i := v)) s"
    using spaceD(5) [OF assms] by (simp add: set_dword_def set_page_def)
  then show "space R D xs E (C(d := (C d)(i := v))) (set_dword d i v s)" using p by simp
qed

lemma space_root:
  assumes sp: "space R (insert x D) xs E C s" and x: "x \<notin> D" "page_aligned x"
  shows "space (insert x R) D xs (E(x := \<lambda>_. 0)) C (set_page x (\<lambda>_. 0) s)" "x \<notin> R"
proof -
  have nt: "\<not> is_table R (pmem s) pd is x" for pd "is" using spaceD(3) [OF sp, of x] by simp
  show xR: "x \<notin> R" by (rule new_root_tables(2) [OF nt])
  have e: "pt_entry (pmem (set_page x (\<lambda>_. 0) s)) pd va = (E(x := \<lambda>_. 0)) pd va" if "pd \<in> insert x R" "va < MAXVA" for pd va
  proof (cases "pd = x")
    case True
    show ?thesis unfolding True by (subst new_root_tables(4) [OF nt]) simp
  next
    case False
    then show ?thesis using that new_root_tables(3) [OF nt, of pd] spaceD(4) [OF sp] by (simp del: set_page_simps)
  qed
  have "pmem (set_page x (\<lambda>_. 0) s) d = C d" if "d \<in> D" for d using spaceD(5) [OF sp, of d] that x(1) by auto
  then show "space (insert x R) D xs (E(x := \<lambda>_. 0)) C (set_page x (\<lambda>_. 0) s)"
    unfolding space_def new_root_tables(1) [OF nt]
    using vm_inv_new_root [OF spaceD(1) [OF sp] nt spaceD(2) [OF sp, of x, simplified] x(2)] e spaceD(2,3) [OF sp] x(1) by auto
qed

section \<open>Mapping a region\<close>

text \<open>The entries after the page \<open>va\<close> of \<open>pt\<close> got the entry \<open>e\<close>.\<close>

definition with_page :: "(u64 \<Rightarrow> u64 \<Rightarrow> u64) \<Rightarrow> u64 \<Rightarrow> u64 \<Rightarrow> u64 \<Rightarrow> u64 \<Rightarrow> u64 \<Rightarrow> u64" where
  "with_page E pt va e = E(pt := \<lambda>a. if ROUNDDOWN a PGSIZE = va then e else E pt a)"

lemma space_map:
  fixes s :: "'z kernel_state_scheme"
  assumes sp: "space R D xs E C s" and pt: "pt \<in> R" and va: "page_aligned va" "unat va + 4096 \<le> unat MAXVA"
    and none: "E pt va = 0" and len: "2 \<le> length xs"
  shows "\<exists>t ys. user_vm_map pt va PGSIZE pa perm s = (Inr (), t) \<and> length xs \<le> length ys + 2 \<and> set ys \<subseteq> set xs \<and>
    space R D ys (with_page E pt va (PA2PTE pa OR scast perm OR PTE_V)) C t \<and> pmm_state.more t = pmm_state.more s"
proof -
  note inv = spaceD(1) [OF sp]
  have "va < MAXVA" using va(2) by (simp add: word_less_nat_alt)
  then have un: "pt_entry (pmem s) pt va AND PTE_V = 0" using spaceD(4) [OF sp pt] none by simp
  obtain t ys where t: "user_vm_map pt va PGSIZE pa perm s = (Inr (), t)" "vm_frame R s xs t ys" "length xs \<le> length ys + 2"
    "\<And>pd' va'. pd' \<in> R \<Longrightarrow> va' < MAXVA \<Longrightarrow> pt_entry (pmem t) pd' va' =
       (if pd' = pt \<and> ROUNDDOWN va' PGSIZE = va then PA2PTE pa OR scast perm OR PTE_V else pt_entry (pmem s) pd' va')"
    by (rule user_vm_map_page [OF inv pt va un len, where pa = pa and perm = perm]) simp_all
  have sub: "set ys \<subseteq> set xs" using vm_frameD(2) [OF t(2)] by auto
  have "\<not> is_table R (pmem t) pd is d \<and> pmem t d = C d" if "d \<in> D" for d pd "is"
    using vm_frameD(5) [OF t(2), of pd "is" d] vm_frameD(6) [OF t(2), of d] spaceD(2,3,5) [OF sp that] by auto
  then have "space R D ys (with_page E pt va (PA2PTE pa OR scast perm OR PTE_V)) C t"
    using vm_frameD(1) [OF t(2)] t(4) sub spaceD(2,4) [OF sp] unfolding space_def with_page_def by auto
  then show ?thesis using t(1,3) sub keeps_run [OF keeps_vmm(4) t(1)] by blast
qed

abbreviation one_page :: "u64 \<Rightarrow> nat \<Rightarrow> mapped_region" where
  "one_page va i \<equiv> \<lparr>reg_va = va, reg_npages = 1, reg_seg_type = of_nat i\<rparr>"

lemma space_region:
  fixes s :: "'z pmm_state_scheme"
  assumes "space R D xs E C s" "m \<in> D" "m \<noteq> 0" "i < 256"
  shows "set_region m i r s = (Inr (), set_page m (region_words i r (C m)) s)"
    "space R D xs E (C(m := region_words i r (C m))) (set_page m (region_words i r (C m)) s)"
  using assms spaceD(5) [OF assms(1,2)] space_write(1) [OF assms(1,2)] by (simp_all add: set_region_def kput_def)

lemma map_region:
  fixes s :: "'z kernel_state_scheme"
  assumes sp: "space R D xs E C s" and pt: "pt \<in> R" and va: "page_aligned va" "unat va + 4096 \<le> unat MAXVA"
    and none: "E pt va = 0" and len: "2 \<le> length xs" and m: "m \<in> D" "m \<noteq> 0" "i < 256"
  shows "\<exists>t ys. (\<forall>rest :: ('z kernel_state_scheme, unit) km.
       kthen (user_vm_map pt va PGSIZE pa perm) (kthen (set_region m i (one_page va i)) rest) s = rest t) \<and>
    length xs \<le> length ys + 2 \<and> set ys \<subseteq> set xs \<and>
    space R D ys (with_page E pt va (PA2PTE pa OR scast perm OR PTE_V)) (C(m := region_words i (one_page va i) (C m))) t \<and>
    pmm_state.more t = pmm_state.more s"
proof -
  obtain t ys where t: "user_vm_map pt va PGSIZE pa perm s = (Inr (), t)" "length xs \<le> length ys + 2" "set ys \<subseteq> set xs"
    "space R D ys (with_page E pt va (PA2PTE pa OR scast perm OR PTE_V)) C t" "pmm_state.more t = pmm_state.more s"
    using space_map [OF sp pt va none len] by blast
  let ?t = "set_page m (region_words i (one_page va i) (C m)) t"
  note r = space_region [OF t(4) m, of "one_page va i"]
  have "kthen (user_vm_map pt va PGSIZE pa perm) (kthen (set_region m i (one_page va i)) rest) s = rest ?t"
    for rest :: "('z kernel_state_scheme, unit) km"
    using t(1) r(1) by (simp add: kthen_def kbind_def)
  moreover have "pmm_state.more ?t = pmm_state.more s" using t(5) by (simp add: set_page_def)
  ultimately show ?thesis using t(2,3) r(2) by blast
qed

text \<open>The entries of a new process: its stack, its trapframe and the trap code.\<close>

definition process_entry :: "u64 \<Rightarrow> u64 \<Rightarrow> u64 \<Rightarrow> u64 \<Rightarrow> u64" where
  "process_entry stk tf ts a = (let p = ROUNDDOWN a PGSIZE in
     if p = USER_STACK_TOP - PGSIZE then PA2PTE stk OR (PTE_R OR PTE_W OR PTE_A OR PTE_D OR PTE_U OR PTE_V)
     else if p = tf then PA2PTE tf OR (PTE_R OR PTE_W OR PTE_A OR PTE_D OR PTE_V)
     else if p = ts then PA2PTE ts OR (PTE_R OR PTE_X OR PTE_A OR PTE_V)
     else 0)"

definition new_regions :: "u64 \<Rightarrow> u64 \<Rightarrow> 9 word \<Rightarrow> u64" where
  "new_regions tf ts =
     region_words HEAP_SEGMENT \<lparr>reg_va = USER_FREE_ADDRESS_START, reg_npages = 0, reg_seg_type = of_nat HEAP_SEGMENT\<rparr>
     (region_words SYSTEM_SEGMENT (one_page ts SYSTEM_SEGMENT)
     (region_words CONTEXT_SEGMENT (one_page tf CONTEXT_SEGMENT)
     (region_words STACK_SEGMENT (one_page (USER_STACK_TOP - PGSIZE) STACK_SEGMENT) (\<lambda>_. 0))))"

lemma user_perms:
  "scast user_rw OR PTE_V = PTE_R OR PTE_W OR PTE_A OR PTE_D OR PTE_U OR PTE_V"
  "scast (ucast (prot_to_type (PROT_WRITE OR PROT_READ) False) :: i32) OR PTE_V = PTE_R OR PTE_W OR PTE_A OR PTE_D OR PTE_V"
  "scast (ucast (prot_to_type (PROT_READ OR PROT_EXEC) False) :: i32) OR PTE_V = PTE_R OR PTE_X OR PTE_A OR PTE_V"
  by (simp_all add: prot_to_type_def PROT_READ_def PROT_WRITE_def PROT_EXEC_def pte_flag_defs)

text \<open>The two parts of \<^verbatim>\<open>alloc_process\<close> after its stack pages and region table are there: the mappings, and the record of the empty heap.\<close>

abbreviation heap_region :: mapped_region where
  "heap_region \<equiv> \<lparr>reg_va = USER_FREE_ADDRESS_START, reg_npages = 0, reg_seg_type = of_nat HEAP_SEGMENT\<rparr>"

definition heap_part :: "nat \<Rightarrow> u64 \<Rightarrow> ('z kernel_state_scheme, unit) km" where
  "heap_part p m =
     kthen (upd_proc p (\<lambda>q. q\<lparr>heap_top := USER_FREE_ADDRESS_START, heap_bottom := USER_FREE_ADDRESS_START, free_pages_count := 0\<rparr>))
     (kthen (set_region m HEAP_SEGMENT heap_region) (upd_proc p (\<lambda>q. q\<lparr>total_mapped_region := 4\<rparr>)))"

definition mapping_part :: "nat \<Rightarrow> u64 \<Rightarrow> u64 \<Rightarrow> u64 \<Rightarrow> u64 \<Rightarrow> ('z kernel_state_scheme, unit) km" where
  "mapping_part p pt tf stk m =
     kthen (user_vm_map pt (USER_STACK_TOP - PGSIZE) PGSIZE stk user_rw)
     (kthen (set_region m STACK_SEGMENT (one_page (USER_STACK_TOP - PGSIZE) STACK_SEGMENT))
     (kthen (user_vm_map pt tf PGSIZE tf (ucast (prot_to_type (PROT_WRITE OR PROT_READ) False)))
     (kthen (set_region m CONTEXT_SEGMENT (one_page tf CONTEXT_SEGMENT))
     (kbind (kget (\<lambda>s. trap_sec_start (syms s))) (\<lambda>ts.
     kthen (user_vm_map pt ts PGSIZE ts (ucast (prot_to_type (PROT_READ OR PROT_EXEC) False)))
     (kthen (set_region m SYSTEM_SEGMENT (one_page ts SYSTEM_SEGMENT)) (heap_part p m)))))))"

lemma segments_small: "STACK_SEGMENT < 256" "CONTEXT_SEGMENT < 256" "SYSTEM_SEGMENT < 256" "HEAP_SEGMENT < 256"
  by (simp_all add: segment_defs)

lemma heap_part_run:
  fixes s :: "'z kernel_state_scheme"
  assumes sp: "space R D xs E C s" and m: "m \<in> D" "m \<noteq> 0"
  shows "\<exists>t. heap_part p m s = (Inr (), t) \<and> space R D xs E (C(m := region_words HEAP_SEGMENT heap_region (C m))) t \<and>
    procs t = (procs s)(p := (procs s p)\<lparr>heap_top := USER_FREE_ADDRESS_START, heap_bottom := USER_FREE_ADDRESS_START,
      free_pages_count := 0, total_mapped_region := 4\<rparr>)"
proof -
  let ?s = "s\<lparr>procs := (procs s)(p := (procs s p)\<lparr>heap_top := USER_FREE_ADDRESS_START, heap_bottom := USER_FREE_ADDRESS_START,
      free_pages_count := 0\<rparr>)\<rparr>"
  have "space R D xs E C ?s" using sp by simp
  note r = space_region [OF this m segments_small(4), of heap_region]
  let ?u = "set_page m (region_words HEAP_SEGMENT heap_region (C m)) ?s"
  let ?t = "?u\<lparr>procs := (procs ?u)(p := (procs ?u p)\<lparr>total_mapped_region := 4\<rparr>)\<rparr>"
  have "heap_part p m s = (Inr (), ?t)" using r(1) by (simp add: heap_part_def upd_proc_def krun_defs)
  moreover have "space R D xs E (C(m := region_words HEAP_SEGMENT heap_region (C m))) ?t" using r(2) by (simp only: space_more)
  ultimately show ?thesis by (intro exI [of _ ?t]) simp
qed

lemma mapping_part_run:
  fixes s :: "'z kernel_state_scheme"
  defines "ts \<equiv> trap_sec_start (syms s)"
  assumes sp: "space R D xs E C s" and pt: "pt \<in> R" "E pt = (\<lambda>_. 0)" and len: "6 \<le> length xs" and m: "m \<in> D" "m \<noteq> 0" "C m = (\<lambda>_. 0)"
    and tf: "page_aligned tf" "unat tf + 4096 \<le> unat MAXVA" and ts: "page_aligned ts" "unat ts + 4096 \<le> unat MAXVA"
    and ne: "tf \<noteq> ts" "tf \<noteq> USER_STACK_TOP - PGSIZE" "ts \<noteq> USER_STACK_TOP - PGSIZE"
  shows "\<exists>t ys. mapping_part p pt tf stk m s = (Inr (), t) \<and> length xs \<le> length ys + 6 \<and> set ys \<subseteq> set xs \<and>
    space R D ys (E(pt := process_entry stk tf ts)) (C(m := new_regions tf ts)) t \<and>
    procs t = (procs s)(p := (procs s p)\<lparr>heap_top := USER_FREE_ADDRESS_START, heap_bottom := USER_FREE_ADDRESS_START,
      free_pages_count := 0, total_mapped_region := 4\<rparr>)"
proof -
  let ?st = "USER_STACK_TOP - PGSIZE"
  let ?rw = "ucast (prot_to_type (PROT_WRITE OR PROT_READ) False) :: i32" and ?rx = "ucast (prot_to_type (PROT_READ OR PROT_EXEC) False) :: i32"
  have st: "page_aligned ?st" "unat ?st + 4096 \<le> unat MAXVA" by (simp_all add: USER_STACK_TOP_def PGSIZE_def MAXVA_def)
  have rd: "ROUNDDOWN tf PGSIZE = tf" "ROUNDDOWN ts PGSIZE = ts" using tf(1) ts(1) by (simp_all add: ROUNDDOWN_id)
  have n7: "E pt ?st = 0" "2 \<le> length xs" using pt(2) len by simp_all
  obtain s8 y1 where s8: "\<And>rest :: ('z kernel_state_scheme, unit) km. kthen (user_vm_map pt ?st PGSIZE stk user_rw)
       (kthen (set_region m STACK_SEGMENT (one_page ?st STACK_SEGMENT)) rest) s = rest s8"
    and l1: "length xs \<le> length y1 + 2" "set y1 \<subseteq> set xs" and m8: "pmm_state.more s8 = pmm_state.more s"
    and sp8: "space R D y1 (with_page E pt ?st (PA2PTE stk OR scast user_rw OR PTE_V)) (C(m := region_words STACK_SEGMENT (one_page ?st STACK_SEGMENT) (C m))) s8"
    using map_region [OF sp pt(1) st n7 m(1,2) segments_small(1), of stk user_rw] by blast
  have n8: "with_page E pt ?st (PA2PTE stk OR scast user_rw OR PTE_V) pt tf = 0" "2 \<le> length y1"
    using pt(2) rd ne(2) l1 len by (simp_all add: with_page_def)
  obtain s10 y2 where s10: "\<And>rest :: ('z kernel_state_scheme, unit) km. kthen (user_vm_map pt tf PGSIZE tf ?rw)
       (kthen (set_region m CONTEXT_SEGMENT (one_page tf CONTEXT_SEGMENT)) rest) s8 = rest s10"
    and l2: "length y1 \<le> length y2 + 2" "set y2 \<subseteq> set y1" and m10: "pmm_state.more s10 = pmm_state.more s8"
    and sp10: "space R D y2 (with_page (with_page E pt ?st (PA2PTE stk OR scast user_rw OR PTE_V)) pt tf (PA2PTE tf OR scast ?rw OR PTE_V))
      (C(m := region_words CONTEXT_SEGMENT (one_page tf CONTEXT_SEGMENT) (region_words STACK_SEGMENT (one_page ?st STACK_SEGMENT) (C m)))) s10"
    using map_region [OF sp8 pt(1) tf n8 m(1,2) segments_small(2), of tf ?rw] by auto
  have n10: "with_page (with_page E pt ?st (PA2PTE stk OR scast user_rw OR PTE_V)) pt tf (PA2PTE tf OR scast ?rw OR PTE_V) pt ts = 0" "2 \<le> length y2"
    using pt(2) rd ne(1,3) l1 l2 len by (simp_all add: with_page_def)
  obtain s12 y3 where s12: "\<And>rest :: ('z kernel_state_scheme, unit) km. kthen (user_vm_map pt ts PGSIZE ts ?rx)
       (kthen (set_region m SYSTEM_SEGMENT (one_page ts SYSTEM_SEGMENT)) rest) s10 = rest s12"
    and l3: "length y2 \<le> length y3 + 2" "set y3 \<subseteq> set y2" and m12: "pmm_state.more s12 = pmm_state.more s10"
    and sp12: "space R D y3 (with_page (with_page (with_page E pt ?st (PA2PTE stk OR scast user_rw OR PTE_V)) pt tf (PA2PTE tf OR scast ?rw OR PTE_V))
        pt ts (PA2PTE ts OR scast ?rx OR PTE_V))
      (C(m := region_words SYSTEM_SEGMENT (one_page ts SYSTEM_SEGMENT) (region_words CONTEXT_SEGMENT (one_page tf CONTEXT_SEGMENT)
        (region_words STACK_SEGMENT (one_page ?st STACK_SEGMENT) (C m))))) s12"
    using map_region [OF sp10 pt(1) ts n10 m(1,2) segments_small(3), of ts ?rx] by auto
  have ent: "with_page (with_page (with_page E pt ?st (PA2PTE stk OR scast user_rw OR PTE_V)) pt tf (PA2PTE tf OR scast ?rw OR PTE_V))
        pt ts (PA2PTE ts OR scast ?rx OR PTE_V) = E(pt := process_entry stk tf ts)"
    unfolding user_perms with_page_def process_entry_def using ne pt(2) by (auto simp: fun_eq_iff Let_def)
  have "procs s12 = procs s" "syms s10 = syms s" using m8 m10 m12 kernel_fields(1) [of s12 s] kernel_fields(4) [of s10 s] by simp_all
  note fld = this(1) this(2) [THEN arg_cong, of trap_sec_start, folded ts_def]
  obtain t where "heap_part p m s12 = (Inr (), t)" "space R D y3 (E(pt := process_entry stk tf ts)) (C(m := new_regions tf ts)) t"
    "procs t = (procs s)(p := (procs s p)\<lparr>heap_top := USER_FREE_ADDRESS_START, heap_bottom := USER_FREE_ADDRESS_START,
      free_pages_count := 0, total_mapped_region := 4\<rparr>)"
    using heap_part_run [OF sp12 [unfolded ent] m(1,2), of p] unfolding fld(1) by (auto simp: new_regions_def m(3))
  moreover from this(1) have "mapping_part p pt tf stk m s = (Inr (), t)"
    unfolding mapping_part_def s8 s10 kbind_get fld(2) s12 .
  moreover have "length xs \<le> length y3 + 6" "set y3 \<subseteq> set xs" using l1 l2 l3 by auto
  ultimately show ?thesis by (intro exI [of _ t] exI [of _ y3]) simp
qed

lemma map_user_space_run:
  fixes s :: "'z kernel_state_scheme" and p :: nat
  defines "ts \<equiv> trap_sec_start (syms s)" and "tf \<equiv> trapframe (procs s p)" and "pt \<equiv> pagetable (procs s p)"
  assumes sp: "space R D (ks # stk # m # xs) E C s" and pt: "pt \<in> R" "E pt = (\<lambda>_. 0)" and len: "6 \<le> length xs"
    and tf: "tf \<in> D" "page_aligned tf" "unat tf + 4096 \<le> unat MAXVA" and ts: "page_aligned ts" "unat ts + 4096 \<le> unat MAXVA"
    and ne: "tf \<noteq> ts" "tf \<noteq> USER_STACK_TOP - PGSIZE" "ts \<noteq> USER_STACK_TOP - PGSIZE"
  shows "\<exists>t ys C'. map_user_space p s = (Inr (), t) \<and> length xs \<le> length ys + 6 \<and> set ys \<subseteq> set xs \<and>
    space R (insert m (insert stk (insert ks D))) ys (E(pt := process_entry stk tf ts)) C' t \<and>
    (\<forall>d\<in>D. C' d = (if d = tf then (C tf)(TF_sp := USER_STACK_TOP) else C d)) \<and> C' m = new_regions tf ts \<and>
    procs t = (procs s)(p := (procs s p)\<lparr>kstack := ks + PGSIZE, mapped_info := m, heap_top := USER_FREE_ADDRESS_START,
       heap_bottom := USER_FREE_ADDRESS_START, free_pages_count := 0, total_mapped_region := 4\<rparr>)"
proof -
  let ?D = "insert m (insert stk (insert ks D))"
  define s2 where "s2 = (alloc_state ks s)\<lparr>procs := (procs s)(p := (procs s p)\<lparr>kstack := ks + PGSIZE\<rparr>)\<rparr>"
  define s4 where "s4 = set_dword tf TF_sp USER_STACK_TOP (alloc_state stk s2)"
  define s7 where "s7 = set_page m (\<lambda>_. 0) ((alloc_state m s4)\<lparr>procs := (procs s4)(p := (procs s4 p)\<lparr>mapped_info := m\<rparr>)\<rparr>)"
  note a1 = space_alloc [OF sp]
  have "space R (insert ks D) (stk # m # xs) E (C(ks := pmem s ks)) s2" using a1(1) by (simp add: s2_def)
  note a3 = space_alloc [OF this]
  have tfD: "tf \<in> insert stk (insert ks D)" using tf(1) by simp
  note a4 = space_write(2) [OF a3(1) tfD, of TF_sp USER_STACK_TOP, folded s4_def]
  note a5 = space_alloc [OF a4]
  have m: "m \<in> ?D" "m \<noteq> 0" using a5(4) by auto
  define C4 where "C4 = C(ks := pmem s ks, stk := pmem s2 stk)"
  define C7 where "C7 = C4(tf := (C4 tf)(TF_sp := USER_STACK_TOP), m := pmem s4 m, m := \<lambda>_. 0)"
  have "space R ?D xs E (C4(tf := (C4 tf)(TF_sp := USER_STACK_TOP), m := pmem s4 m))
      ((alloc_state m s4)\<lparr>procs := (procs s4)(p := (procs s4 p)\<lparr>mapped_info := m\<rparr>)\<rparr>)"
    unfolding space_more(1) C4_def by (rule a5(1))
  from space_write(1) [OF this m(1), of "\<lambda>_. 0"] have sp7: "space R ?D xs E C7 s7" unfolding C7_def s7_def .
  have p7: "procs s7 = (procs s)(p := (procs s p)\<lparr>kstack := ks + PGSIZE, mapped_info := m\<rparr>)" "syms s7 = syms s"
    by (simp_all add: s7_def s4_def s2_def set_page_def set_dword_def alloc_state_def set_ref_def)
  have "kthen (upd_proc p (\<lambda>q. q\<lparr>kstack := ks + PGSIZE\<rparr>)) n (alloc_state ks s) = n s2"
    "kthen (upd_proc p (\<lambda>q. q\<lparr>mapped_info := m\<rparr>)) n (alloc_state m s4) =
       n ((alloc_state m s4)\<lparr>procs := (procs s4)(p := (procs s4 p)\<lparr>mapped_info := m\<rparr>)\<rparr>)"
    for n :: "('z kernel_state_scheme, unit) km" by (simp_all add: upd_proc_def kthen_put s2_def)
  moreover have "kbind alloc_page f s = f ks (alloc_state ks s)" "kbind alloc_page f s2 = f stk (alloc_state stk s2)"
    "kbind new_page f s4 = f m (alloc_state m s4)" for f :: "u64 \<Rightarrow> ('z kernel_state_scheme, unit) km"
    by (simp_all add: kbind_def a1(2) a3(2) a5(3))
  moreover note b = calculation
  have g: "procs (alloc_state stk s2) p = (procs s p)\<lparr>kstack := ks + PGSIZE\<rparr>" "trapframe ((procs s p)\<lparr>kstack := ks + PGSIZE\<rparr>) = tf"
    "pagetable ((procs s p)\<lparr>kstack := ks + PGSIZE\<rparr>) = pt" by (simp_all add: s2_def tf_def pt_def)
  have run: "map_user_space p s = mapping_part p pt tf stk m s7"
    unfolding map_user_space_def mapping_part_def heap_part_def b kbind_get g Let_def kthen_put s4_def [symmetric] s7_def [symmetric] by (rule refl)
  have cm: "C7 m = (\<lambda>_. 0)" by (simp add: C7_def)
  have "(C7(m := new_regions tf ts)) d = (if d = tf then (C tf)(TF_sp := USER_STACK_TOP) else C d)" if "d \<in> D" for d
    using that a1(5) a3(5) a5(5) tf(1) by (auto simp: C7_def C4_def)
  then show ?thesis
    using mapping_part_run [OF sp7 pt len m cm tf(2,3), unfolded p7(2), folded ts_def, OF ts ne, of p stk] unfolding run p7(1)
    by (elim exE) (intro exI [of _ "C7(m := new_regions tf ts)"] exI conjI, (elim conjE, assumption)+, simp_all)
qed

section \<open>A new process\<close>

text \<open>The content of a trapframe page after it was cleared and got the number of the hart.\<close>

definition fresh_frame :: "u64 \<Rightarrow> (9 word \<Rightarrow> u64) \<Rightarrow> 9 word \<Rightarrow> u64" where
  "fresh_frame v c = (copy_trapframe (\<lambda>_. 0) c)(TF_tp := v)"

lemma fresh_frame_regs:
  "unat k < 35 \<Longrightarrow> fresh_frame v (fresh_frame v c) k = (if k = TF_tp then v else 0)"
  by (simp add: fresh_frame_def copy_trapframe_def)

definition reset_frame :: "u64 \<Rightarrow> u64 \<Rightarrow> 'z pmm_state_scheme \<Rightarrow> 'z pmm_state_scheme" where
  "reset_frame tf v s = set_page tf (fresh_frame v (pmem s tf)) s"

lemma reset_frame_run: "kthen (clear_trapframe tf) (kthen (kput (set_dword tf TF_tp v)) n) s = n (reset_frame tf v s)"
  by (simp add: clear_trapframe_def kthen_put reset_frame_def fresh_frame_def set_dword_def set_page_def)

lemma space_reset_frame:
  assumes "space R D xs E C s" "tf \<in> D"
  shows "space R D xs E (C(tf := fresh_frame v (C tf))) (reset_frame tf v s)"
  unfolding reset_frame_def using space_write(1) [OF assms] spaceD(5) [OF assms] by simp

lemma reset_frame_fields: "procs (reset_frame tf v s) = procs s" "syms (reset_frame tf v s) = syms s"
  by (simp_all add: reset_frame_def set_page_def)

lemma alloc_process_start:
  fixes s :: "'z fs_state_scheme" and i :: nat
  assumes sp: "space R D (tf # pt # xs) E C s" and al: "page_aligned pt"
    and slot: "first_index NPROC (\<lambda>i. status (procs s i) = FREE) = Some i"
  shows "\<exists>t. alloc_process tp s = kthen (map_user_space i) (kbind init_proc_file_management
      (\<lambda>pf. kthen (upd_proc i (\<lambda>q. q\<lparr>pfiles := pf\<rparr>)) (kreturn i))) t \<and>
    space (insert pt R) (insert tf D) xs (E(pt := \<lambda>_. 0)) (C(tf := fresh_frame (of_nat tp) (fresh_frame (of_nat tp) (pmem s tf)))) t \<and>
    pt \<notin> R \<and> procs t = (procs s)(i := (procs s i)\<lparr>status := READY, trapframe := tf, pagetable := pt\<rparr>) \<and> syms t = syms s"
proof -
  define u1 where "u1 = s\<lparr>procs := (procs s)(i := (procs s i)\<lparr>status := READY\<rparr>)\<rparr>"
  define u3 where "u3 = (alloc_state tf u1)\<lparr>procs := (procs u1)(i := (procs u1 i)\<lparr>trapframe := tf\<rparr>)\<rparr>"
  define u5 where "u5 = reset_frame tf (of_nat tp) u3"
  define u7 where "u7 = (alloc_state pt u5)\<lparr>procs := (procs u5)(i := (procs u5 i)\<lparr>pagetable := pt\<rparr>)\<rparr>"
  define u9 where "u9 = reset_frame tf (of_nat tp) u7"
  have "space R D (tf # pt # xs) E C u1" using sp by (simp add: u1_def)
  note a1 = space_alloc [OF this]
  have "space R (insert tf D) (pt # xs) E (C(tf := pmem u1 tf)) u3" using a1(1) by (simp add: u3_def)
  from space_reset_frame [OF this, of tf "of_nat tp"]
  have "space R (insert tf D) (pt # xs) E (C(tf := fresh_frame (of_nat tp) (pmem u1 tf))) u5" by (simp add: u5_def)
  note a5 = space_alloc [OF this]
  have sp7: "space R (insert pt (insert tf D)) xs E (C(tf := fresh_frame (of_nat tp) (pmem u1 tf), pt := pmem u5 pt)) u7"
    using a5(1) by (simp add: u7_def)
  have tp: "tf \<noteq> pt" using a5(5) by auto
  from space_reset_frame [OF sp7, of tf "of_nat tp"] tp
  have "space R (insert pt (insert tf D)) xs E (C(pt := pmem u5 pt, tf := fresh_frame (of_nat tp) (fresh_frame (of_nat tp) (pmem u1 tf)))) u9"
    by (simp add: u9_def fun_upd_twist)
  note r = space_root [OF this a5(5) al]
  have sp10: "space (insert pt R) (insert tf D) xs (E(pt := \<lambda>_. 0)) (C(tf := fresh_frame (of_nat tp) (fresh_frame (of_nat tp) (pmem s tf)))) (set_page pt (\<lambda>_. 0) u9)"
    using r(1) a5(5) unfolding space_def by (auto simp: u1_def simp del: set_page_simps)
  have f: "procs (set_page pt (\<lambda>_. 0) u9) = (procs s)(i := (procs s i)\<lparr>status := READY, trapframe := tf, pagetable := pt\<rparr>)"
    "syms (set_page pt (\<lambda>_. 0) u9) = syms s"
    by (simp_all add: u9_def u7_def u5_def u3_def u1_def reset_frame_fields set_page_def alloc_state_def set_ref_def)
  have b: "kbind new_page f u1 = f tf (alloc_state tf u1)" "kbind new_page f u5 = f pt (alloc_state pt u5)" for f :: "u64 \<Rightarrow> ('z fs_state_scheme, nat) km"
    by (simp_all add: kbind_def a1(3) a5(3))
  have u: "kthen (upd_proc i (\<lambda>q. q\<lparr>status := READY\<rparr>)) n s = n u1" "kthen (upd_proc i (\<lambda>q. q\<lparr>trapframe := tf\<rparr>)) n (alloc_state tf u1) = n u3"
    "kthen (upd_proc i (\<lambda>q. q\<lparr>pagetable := pt\<rparr>)) n (alloc_state pt u5) = n u7" for n :: "('z fs_state_scheme, nat) km"
    by (simp_all add: upd_proc_def kthen_put u1_def u3_def u7_def)
  have "alloc_process tp s = kthen (map_user_space i) (kbind init_proc_file_management
      (\<lambda>pf. kthen (upd_proc i (\<lambda>q. q\<lparr>pfiles := pf\<rparr>)) (kreturn i))) (set_page pt (\<lambda>_. 0) u9)"
    unfolding alloc_process_def kbind_get slot option.case u b reset_frame_run u5_def [symmetric] u9_def [symmetric] kthen_put by (rule refl)
  then show ?thesis using sp10 f r(2) by blast
qed

text \<open>
  C6. A new process has an address space of its own: on page tables in order and with at least twelve free pages, \<^verbatim>\<open>alloc_process\<close> takes the
  first free slot and the first free pages as trapframe, page table, kernel stack, user stack and region table.  The new page table maps
  exactly three pages: the user stack below \<^verbatim>\<open>USER_STACK_TOP\<close> for the user, and the trapframe and the trap code for the kernel
  only; the trapframe has the stack pointer and the number of the hart and is zero otherwise, the regions describe these mappings and an empty heap.  No
  entry of another address space and no page that was in use changes.
\<close>

theorem alloc_process_space:
  fixes s :: "'z fs_state_scheme" and i :: nat
  defines "ts \<equiv> trap_sec_start (syms s)"
  assumes inv: "vm_inv R s (tf # pt # ks # stk # m # xs)" and len: "7 \<le> length xs"
    and slot: "first_index NPROC (\<lambda>i. status (procs s i) = FREE) = Some i"
    and mem: "DRAM_BASE \<le> free_mem_start_addr s" "free_mem_end_addr s \<le> PHYS_TOP"
    and ts: "page_aligned ts" "USER_STACK_TOP \<le> ts" "ts < free_mem_start_addr s"
  shows "\<exists>t pf ys. alloc_process tp s = (Inr i, t) \<and> vm_inv (insert pt R) t ys \<and> pt \<notin> R \<and>
    procs t = (procs s)(i := (procs s i)\<lparr>status := READY, trapframe := tf, pagetable := pt, kstack := ks + PGSIZE, mapped_info := m,
       heap_top := USER_FREE_ADDRESS_START, heap_bottom := USER_FREE_ADDRESS_START, free_pages_count := 0, total_mapped_region := 4, pfiles := pf\<rparr>) \<and>
    (\<forall>va<MAXVA. pt_entry (pmem t) pt va = process_entry stk tf ts va) \<and>
    (\<forall>pd\<in>R. \<forall>va<MAXVA. pt_entry (pmem t) pd va = pt_entry (pmem s) pd va) \<and>
    (\<forall>k. unat k < 35 \<longrightarrow> pmem t tf k = (if k = TF_sp then USER_STACK_TOP else if k = TF_tp then of_nat tp else 0)) \<and>
    pmem t m = new_regions tf ts \<and>
    (\<forall>d. d \<notin> {tf, pt, ks, stk, m} \<union> set xs \<longrightarrow> (\<forall>pd is. \<not> is_table R (pmem s) pd is d) \<longrightarrow> pmem t d = pmem s d)"
proof -
  let ?fs = "tf # pt # ks # stk # m # xs"
  define D where "D = {d. d \<notin> set ?fs \<and> (\<forall>pd is. \<not> is_table R (pmem s) pd is d)}"
  have sp: "space R D ?fs (pt_entry (pmem s)) (pmem s) s" using inv by (simp add: space_def D_def)
  have pm: "pmm_inv s ?fs" using inv by (simp add: vm_inv_def)
  have mg: "managed s tf" "managed s pt" using pmm_invD(5) [OF pm] by auto
  have al: "page_aligned tf" "page_aligned pt" using mg by (simp_all add: managed_def)
  have top: "unat PHYS_TOP + 4096 \<le> unat MAXVA" by (simp add: PHYS_TOP_def DRAM_BASE_def PKE_MAX_ALLOWABLE_RAM_def MAXVA_def)
  have tfb: "free_mem_start_addr s \<le> tf" "tf < PHYS_TOP" using mg(1) mem(2) by (auto simp: managed_def)
  have tsb: "ts < PHYS_TOP" using ts(3) tfb by simp
  have ne: "tf \<noteq> ts" "tf \<noteq> USER_STACK_TOP - PGSIZE" "ts \<noteq> USER_STACK_TOP - PGSIZE"
    using ts(2,3) tfb(1) mem(1) by (auto simp: word_le_nat_alt word_less_nat_alt DRAM_BASE_def USER_STACK_TOP_def PGSIZE_def)
  obtain t where t: "alloc_process tp s = kthen (map_user_space i) (kbind init_proc_file_management
      (\<lambda>pf. kthen (upd_proc i (\<lambda>q. q\<lparr>pfiles := pf\<rparr>)) (kreturn i))) t"
    and spt: "space (insert pt R) (insert tf D) (ks # stk # m # xs) ((pt_entry (pmem s))(pt := \<lambda>_. 0))
      ((pmem s)(tf := fresh_frame (of_nat tp) (fresh_frame (of_nat tp) (pmem s tf)))) t"
    and f: "pt \<notin> R" "procs t = (procs s)(i := (procs s i)\<lparr>status := READY, trapframe := tf, pagetable := pt\<rparr>)" "syms t = syms s"
    using alloc_process_start [OF sp al(2) slot] by blast
  have pr: "trap_sec_start (syms t) = ts" "trapframe (procs t i) = tf" "pagetable (procs t i) = pt" by (simp_all add: f ts_def)
  have b: "unat tf + 4096 \<le> unat MAXVA" "unat ts + 4096 \<le> unat MAXVA" using top tfb(2) tsb by (simp_all add: word_less_nat_alt)
  have "6 \<le> length xs" using len by simp
  from map_user_space_run [where s = t and p = i, unfolded pr, OF spt _ _ this _ al(1) b(1) ts(1) b(2) ne]
  obtain u ys C where u: "map_user_space i t = (Inr (), u)" "length xs \<le> length ys + 6"
    and spu: "space (insert pt R) (insert m (insert stk (insert ks (insert tf D)))) ys ((pt_entry (pmem s))(pt := process_entry stk tf ts)) C u"
    and C: "\<forall>d\<in>insert tf D. C d = (if d = tf then (((pmem s)(tf := fresh_frame (of_nat tp) (fresh_frame (of_nat tp) (pmem s tf)))) tf)(TF_sp := USER_STACK_TOP)
        else ((pmem s)(tf := fresh_frame (of_nat tp) (fresh_frame (of_nat tp) (pmem s tf)))) d)" "C m = new_regions tf ts"
    and pu: "procs u = (procs t)(i := (procs t i)\<lparr>kstack := ks + PGSIZE, mapped_info := m, heap_top := USER_FREE_ADDRESS_START,
       heap_bottom := USER_FREE_ADDRESS_START, free_pages_count := 0, total_mapped_region := 4\<rparr>)"
    by auto
  obtain pf zs where ys: "ys = pf # zs" using u(2) len by (cases ys) auto
  note a = space_alloc [OF spu [unfolded ys]]
  define v where "v = (alloc_state pf u)\<lparr>pfile_tab := (pfile_tab (alloc_state pf u))(pf :=
      reset_files ((pfile_tab (alloc_state pf u) pf)\<lparr>cwd := vfs_root_dentry (alloc_state pf u), nfiles := 0\<rparr>))\<rparr>"
  let ?v = "v\<lparr>procs := (procs v)(i := (procs v i)\<lparr>pfiles := pf\<rparr>)\<rparr>"
  have spv: "space (insert pt R) (insert pf (insert m (insert stk (insert ks (insert tf D))))) zs ((pt_entry (pmem s))(pt := process_entry stk tf ts)) (C(pf := pmem u pf)) ?v"
    using a(1) by (simp add: v_def)
  have "init_proc_file_management u = (Inr pf, v)"
    using a(3) by (simp add: init_proc_file_management_def v_def krun_defs)
  then have run: "alloc_process tp s = (Inr i, ?v)" using t u(1) by (simp add: kthen_def kbind_def kreturn_def upd_proc_def kput_def)
  have D: "C tf = (fresh_frame (of_nat tp) (fresh_frame (of_nat tp) (pmem s tf)))(TF_sp := USER_STACK_TOP)" "\<And>d. d \<in> D \<Longrightarrow> C d = pmem s d"
    using C(1) by (auto simp: D_def)
  have pg: "pmem ?v tf = C tf" "pmem ?v m = C m" "\<And>d. d \<in> D \<Longrightarrow> pmem ?v d = C d"
    using spaceD(5) [OF spv] a(5) by auto
  have "procs ?v = (procs s)(i := (procs s i)\<lparr>status := READY, trapframe := tf, pagetable := pt, kstack := ks + PGSIZE, mapped_info := m,
       heap_top := USER_FREE_ADDRESS_START, heap_bottom := USER_FREE_ADDRESS_START, free_pages_count := 0, total_mapped_region := 4, pfiles := pf\<rparr>)"
    by (simp add: v_def pu f)
  moreover have "pmem ?v tf k = (if k = TF_sp then USER_STACK_TOP else if k = TF_tp then of_nat tp else 0)" if "unat k < 35" for k
    using fresh_frame_regs [OF that] unfolding pg(1) D(1) by simp
  moreover have "pt_entry (pmem ?v) pd va = pt_entry (pmem s) pd va" if "pd \<in> R" "va < MAXVA" for pd va
    using spaceD(4) [OF spv, of pd va] that f(1) by auto
  moreover have "pmem ?v d = pmem s d" if "d \<notin> {tf, pt, ks, stk, m} \<union> set xs" "\<forall>pd is. \<not> is_table R (pmem s) pd is d" for d
    using pg(3) [of d] D(2) [of d] that by (simp add: D_def)
  ultimately show ?thesis
    using run spaceD(1) [OF spv] f(1) spaceD(4) [OF spv, of pt] pg(2) C(2) by (intro exI [of _ ?v] exI [of _ pf] exI [of _ zs]) simp
qed

text \<open>Twelve free pages behind the trap code at 0x80000000.\<close>

definition demo_new :: fs_state where
  "demo_new = demo_fs\<lparr>pmem := (\<lambda>a. (\<lambda>_. 0)(0 := if a < 0x8000c000 then a + 0x1000 else 0)), free_mem_end_addr := 0x8000e000,
     syms := \<lparr>smode_trap_vector = 0, smode_trap_handler_addr = 0, trap_sec_start = 0x80000000\<rparr>\<rparr>"

abbreviation demo_pool :: "u64 list" where
  "demo_pool \<equiv> [0x80006000, 0x80007000, 0x80008000, 0x80009000, 0x8000a000, 0x8000b000, 0x8000c000]"

lemma demo_new_inv: "vm_inv {} demo_new (0x80001000 # 0x80002000 # 0x80003000 # 0x80004000 # 0x80005000 # demo_pool)"
proof -
  have "pmm_inv demo_new (0x80001000 # 0x80002000 # 0x80003000 # 0x80004000 # 0x80005000 # demo_pool)"
    by (simp add: pmm_inv_def pmm_bounds_def demo_new_def demo_fs_defs managed_def PAGE_INDEX_def MAX_PAGE_NUM_def
        PGSIZE_def PMM_MAX_PAGES_def SPIN_LOCK_FREE_def)
  then show ?thesis by (simp add: vm_inv_def pt_tree_def is_table_def)
qed

lemma demo_new_slot: "first_index NPROC (\<lambda>i. status (procs demo_new i) = FREE) = Some 5"
  by (simp add: demo_new_def demo_fs_defs demo_procs_def blank_process_def first_index_def NPROC_def upt_rec)

theorem alloc_process_space_witness:
  "\<exists>t. alloc_process 1 demo_new = (Inr 5, t) \<and> status (procs t 5) = READY \<and> pagetable (procs t 5) = 0x80002000 \<and>
     pt_entry (pmem t) 0x80002000 0x7fffe000 = 0x200010d7 \<and> pmem t 0x80001000 TF_sp = 0x7ffff000"
proof -
  have ts: "trap_sec_start (syms demo_new) = 0x80000000" by (simp add: demo_new_def)
  have m: "DRAM_BASE \<le> free_mem_start_addr demo_new" "free_mem_end_addr demo_new \<le> PHYS_TOP"
    "page_aligned (0x80000000 :: u64)" "USER_STACK_TOP \<le> 0x80000000" "0x80000000 < free_mem_start_addr demo_new"
    by (simp_all add: demo_new_def demo_fs_defs DRAM_BASE_def PHYS_TOP_def PKE_MAX_ALLOWABLE_RAM_def USER_STACK_TOP_def PGSIZE_def)
  have len: "7 \<le> length demo_pool" by simp
  obtain t pf where t: "alloc_process 1 demo_new = (Inr 5, t)" and
    p: "procs t = (procs demo_new)(5 := (procs demo_new 5)\<lparr>status := READY, trapframe := 0x80001000, pagetable := 0x80002000,
       kstack := 0x80003000 + PGSIZE, mapped_info := 0x80005000, heap_top := USER_FREE_ADDRESS_START,
       heap_bottom := USER_FREE_ADDRESS_START, free_pages_count := 0, total_mapped_region := 4, pfiles := pf\<rparr>)" and
    e: "\<forall>va<MAXVA. pt_entry (pmem t) 0x80002000 va = process_entry 0x80004000 0x80001000 0x80000000 va" and
    f: "\<forall>k. unat k < 35 \<longrightarrow> pmem t 0x80001000 k = (if k = TF_sp then USER_STACK_TOP else if k = TF_tp then of_nat 1 else 0)"
    using alloc_process_space [OF demo_new_inv len demo_new_slot, unfolded ts, OF m, of 1] by blast
  have "pt_entry (pmem t) 0x80002000 0x7fffe000 = 0x200010d7"
    using e by (simp add: MAXVA_def process_entry_def USER_STACK_TOP_def ROUNDDOWN_def PGSIZE_def PA2PTE_def pte_flag_defs)
  moreover have "pmem t 0x80001000 TF_sp = 0x7ffff000" using f by (simp add: TF_sp_def USER_STACK_TOP_def)
  ultimately show ?thesis using t p by simp
qed

end
