(* ===== verification/Malloc_Lists.thy ===== *)
theory Malloc_Lists
  imports Malloc Proc_Space
begin

text \<open>
  The linked lists of the byte-wise heap (\<^verbatim>\<open>malloc_list\<close> and \<^verbatim>\<open>malloc_free_list\<close> of \<^verbatim>\<open>kernel/process.c\<close>), as the list operations of \<^verbatim>\<open>user_better_malloc\<close> change them.

  \<open>dseg\<close> reads a doubly linked list off the contents of the node pages; \<open>heap_state\<close> describes the memory, the page tables and the process between two
  steps of the code.  \<open>heap_lists\<close> says that a process has two lists without a common node, and \<open>kept\<close> what a step keeps.
\<close>

unbundle bit_operations_syntax

section \<open>Doubly linked lists of pages\<close>

type_synonym contents = "u64 \<Rightarrow> 9 word \<Rightarrow> u64"

text \<open>The segment \<open>ns\<close> from \<open>p\<close>, whose first node points back to \<open>pv\<close> and whose last node points to \<open>q\<close>.\<close>

primrec dseg :: "contents \<Rightarrow> u64 \<Rightarrow> u64 \<Rightarrow> u64 list \<Rightarrow> u64 \<Rightarrow> bool" where
  "dseg C pv p [] q \<longleftrightarrow> p = q"
| "dseg C pv p (n # ns) q \<longleftrightarrow> p = n \<and> n \<noteq> 0 \<and> C n M_prev = pv \<and> dseg C n (C n M_next) ns q"

abbreviation dlist :: "contents \<Rightarrow> u64 \<Rightarrow> u64 list \<Rightarrow> bool" where
  "dlist C h ns \<equiv> dseg C 0 h ns 0"

lemma node_fields [simp]:
  "M_va \<noteq> M_next" "M_va \<noteq> M_prev" "M_size \<noteq> M_next" "M_size \<noteq> M_prev" "M_next \<noteq> M_prev" "M_va \<noteq> M_size"
  "M_next \<noteq> M_va" "M_prev \<noteq> M_va" "M_next \<noteq> M_size" "M_prev \<noteq> M_size" "M_prev \<noteq> M_next" "M_size \<noteq> M_va"
  by (simp_all add: node_defs)

lemma dseg_cong:
  assumes "\<And>n. n \<in> set ns \<Longrightarrow> C' n M_next = C n M_next \<and> C' n M_prev = C n M_prev"
  shows "dseg C' pv p ns q = dseg C pv p ns q"
  using assms by (induction ns arbitrary: pv p) auto

lemma dseg_append:
  "dseg C pv p (as @ bs) q \<longleftrightarrow> (\<exists>r. dseg C pv p as r \<and> dseg C (if as = [] then pv else last as) r bs q)"
  by (induction as arbitrary: pv p) auto

lemma dseg_nonzero: "dseg C pv p ns q \<Longrightarrow> 0 \<notin> set ns"
  by (induction ns arbitrary: pv p) auto

lemma dseg_next:
  assumes "dseg C pv p (cs @ [x]) q" "x \<notin> set cs"
  shows "dseg (C(x := (C x)(M_next := q'))) pv p (cs @ [x]) q'"
proof -
  have "dseg (C(x := (C x)(M_next := q'))) pv p cs r = dseg C pv p cs r" for r
    using assms(2) by (intro dseg_cong) auto
  then show ?thesis using assms(1) by (auto simp: dseg_append)
qed

lemma dseg_prev:
  assumes "dseg C pv p (b # bs) q" "b \<notin> set bs"
  shows "dseg (C(b := (C b)(M_prev := pv'))) pv' p (b # bs) q"
proof -
  have "dseg (C(b := (C b)(M_prev := pv'))) b (C b M_next) bs q = dseg C b (C b M_next) bs q"
    using assms(2) by (intro dseg_cong) auto
  then show ?thesis using assms(1) by simp
qed

text \<open>The contents after a node went to the front of a list, and after it was taken out of one.\<close>

definition linked :: "u64 \<Rightarrow> u64 \<Rightarrow> contents \<Rightarrow> contents" where
  "linked n h C = (let C1 = C(n := (C n)(M_next := h)) in if h = 0 then C1 else C1(h := (C1 h)(M_prev := n)))"

definition unlinked :: "u64 \<Rightarrow> contents \<Rightarrow> contents" where
  "unlinked n C = (let pv = C n M_prev; nx = C n M_next;
      C1 = (if pv = 0 then C else C(pv := (C pv)(M_next := nx)))
    in if nx = 0 then C1 else C1(nx := (C1 nx)(M_prev := pv)))"

lemma linked_dlist:
  assumes "dlist C h ns" "n \<notin> set ns" "n \<noteq> 0" "C n M_prev = 0" "distinct ns"
  shows "dlist (linked n h C) n (n # ns)"
proof (cases ns)
  case Nil
  then show ?thesis using assms by (simp add: linked_def)
next
  case (Cons b bs)
  let ?C1 = "C(n := (C n)(M_next := h))"
  have "dlist ?C1 h ns = dlist C h ns" using assms(2) by (intro dseg_cong) auto
  then have "dseg (?C1(b := (?C1 b)(M_prev := n))) n h ns 0" using dseg_prev [of ?C1 0 h b bs 0 n] assms(1,5) Cons by auto
  moreover have "h = b" "b \<noteq> 0" "b \<noteq> n" using assms(1,2) Cons by auto
  ultimately show ?thesis using assms(3,4) by (simp add: linked_def Let_def)
qed

lemma unlinked_dlist:
  assumes "dlist C h (as @ n # bs)" "distinct (as @ n # bs)"
  shows "dlist (unlinked n C) (if as = [] then C n M_next else h) (as @ bs)"
    "C n M_prev = (if as = [] then 0 else last as)" "C n M_next = (if bs = [] then 0 else hd bs)"
proof -
  obtain r where r: "dseg C 0 h as r" "dseg C (if as = [] then 0 else last as) r (n # bs) 0"
    using assms(1) by (auto simp: dseg_append)
  show pv: "C n M_prev = (if as = [] then 0 else last as)" using r(2) by simp
  have seg: "dseg C n (C n M_next) bs 0" using r(2) by simp
  then show nx: "C n M_next = (if bs = [] then 0 else hd bs)" by (cases bs) auto
  let ?pv = "C n M_prev" and ?nx = "C n M_next"
  define C1 where "C1 = (if ?pv = 0 then C else C(?pv := (C ?pv)(M_next := ?nx)))"
  have nz: "0 \<notin> set as" "0 \<notin> set bs" using dseg_nonzero [OF assms(1)] by auto
  have "set as \<inter> set bs = {}" using assms(2) by auto
  then have apart: "as \<noteq> [] \<Longrightarrow> last as \<notin> set bs" "bs \<noteq> [] \<Longrightarrow> hd bs \<notin> set as"
    using last_in_set [of as] hd_in_set [of bs] by blast+
  have C1: "dseg C1 0 (if as = [] then ?nx else h) as ?nx"
  proof (cases as rule: rev_exhaust)
    case Nil
    then show ?thesis by simp
  next
    case (snoc cs x)
    then have "?pv = x" "x \<noteq> 0" using pv nz by auto
    then show ?thesis using dseg_next [of C 0 h cs x r ?nx] r(1) snoc assms(2) by (auto simp: C1_def)
  qed
  have bs1: "dseg C1 n ?nx bs 0"
  proof -
    have "dseg C1 n ?nx bs 0 = dseg C n ?nx bs 0"
      using assms(2) pv nz apart by (intro dseg_cong) (auto simp: C1_def split: if_splits)
    then show ?thesis using seg by simp
  qed
  define C2 where "C2 = (if ?nx = 0 then C1 else C1(?nx := (C1 ?nx)(M_prev := ?pv)))"
  have u: "unlinked n C = C2" by (simp add: unlinked_def C2_def C1_def Let_def)
  have "dseg C2 ?pv ?nx bs 0"
  proof (cases bs)
    case Nil
    then show ?thesis using bs1 by simp
  next
    case (Cons b bs')
    then have "?nx = b" "b \<noteq> 0" using nx nz by auto
    then show ?thesis using dseg_prev [of C1 n ?nx b bs' 0 ?pv] bs1 Cons assms(2) by (auto simp: C2_def)
  qed
  moreover have "dseg C2 0 (if as = [] then ?nx else h) as ?nx"
  proof -
    have "dseg C2 pv' p as q = dseg C1 pv' p as q" for pv' p q
      using assms(2) nx nz apart by (intro dseg_cong) (auto simp: C2_def split: if_splits)
    then show ?thesis using C1 by simp
  qed
  ultimately show "dlist (unlinked n C) (if as = [] then C n M_next else h) (as @ bs)"
    unfolding u using pv by (auto simp: dseg_append)
qed

section \<open>The state of the heap code\<close>

text \<open>
  Memory with the data pages \<open>D\<close>, which come from the allocator, and their contents \<open>C\<close>, the entries \<open>E\<close> and the free pages \<open>xs\<close>; of the rest of the state \<open>s0\<close> only the process \<open>p\<close>
  may have changed, to \<open>P\<close>.
\<close>

definition heap_state :: "u64 set \<Rightarrow> u64 set \<Rightarrow> u64 list \<Rightarrow> (u64 \<Rightarrow> u64 \<Rightarrow> u64) \<Rightarrow> contents \<Rightarrow> 'z kernel_state_scheme \<Rightarrow> nat \<Rightarrow> process \<Rightarrow>
    'z kernel_state_scheme \<Rightarrow> bool" where
  "heap_state R D xs E C s0 p P s \<longleftrightarrow> space R D xs E C s \<and> procs s = (procs s0)(p := P) \<and> current s = current s0 \<and> managed s = managed s0 \<and>
     D \<subseteq> Collect (managed s0)"

lemma heap_stateD:
  assumes "heap_state R D xs E C s0 p P s"
  shows "space R D xs E C s" "procs s = (procs s0)(p := P)" "current s = current s0" "managed s = managed s0"
    "d \<in> D \<Longrightarrow> managed s0 d"
  using assms by (auto simp: heap_state_def)

text \<open>\<open>m\<close> returns, with a result and a state that satisfy \<open>Q\<close>.\<close>

abbreviation runs :: "('s, 'a) km \<Rightarrow> 's \<Rightarrow> ('a \<Rightarrow> 's \<Rightarrow> bool) \<Rightarrow> bool" where
  "runs m s Q \<equiv> kwp m Q (\<lambda>_ _. False) s"

lemma runs_bind: "runs m s P \<Longrightarrow> (\<And>x t. P x t \<Longrightarrow> runs (f x) t Q) \<Longrightarrow> runs (kbind m f) s Q"
  by (rule kwp_seq)

lemma runs_then: "runs m s P \<Longrightarrow> (\<And>x t. P x t \<Longrightarrow> runs n t Q) \<Longrightarrow> runs (kthen m n) s Q"
  unfolding kthen_def by (rule kwp_seq)

lemma node_get_runs:
  assumes "heap_state R D xs E C s0 p P s" "n \<in> D" "n \<noteq> 0"
  shows "kwp (node_get n i) Q F s = Q (C n i) s"
  using spaceD(5) [OF heap_stateD(1) [OF assms(1)] assms(2)] assms(3) by (simp add: node_get_def check_ptr_def kwp_simps)

lemma node_set_runs:
  assumes "heap_state R D xs E C s0 p P s" "n \<in> D" "n \<noteq> 0"
  shows "runs (node_set n i v) s (\<lambda>_. heap_state R D xs E (C(n := (C n)(i := v))) s0 p P)"
  using assms space_write(2) [OF heap_stateD(1) [OF assms(1)] assms(2)]
  by (simp add: node_set_def check_ptr_def kwp_simps heap_state_def)

lemma list_head_runs:
  assumes "heap_state R D xs E C s0 p P s"
  shows "kwp (list_head p sel) Q F s = Q (sel P) s"
  using heap_stateD(2) [OF assms] by (simp add: list_head_def kwp_simps)

lemma upd_proc_runs:
  assumes "heap_state R D xs E C s0 p P s"
  shows "runs (upd_proc p f) s (\<lambda>_. heap_state R D xs E C s0 p (f P))"
  using assms by (auto simp: upd_proc_def kwp_simps heap_state_def)

lemma alloc_page_runs:
  assumes "heap_state R D (x # xs) E C s0 p P s"
  shows "kwp alloc_page Q F s = Q x (alloc_state x s)" "\<exists>c. heap_state R (insert x D) xs E (C(x := c)) s0 p P (alloc_state x s)"
    "x \<noteq> 0" "x \<notin> D" "managed s0 x"
proof -
  note a = space_alloc [OF heap_stateD(1) [OF assms]]
  show "kwp alloc_page Q F s = Q x (alloc_state x s)" using a(2) by (simp add: kwp_def)
  show "\<exists>c. heap_state R (insert x D) xs E (C(x := c)) s0 p P (alloc_state x s)"
    using a(1,6) assms by (auto simp: heap_state_def)
  show "x \<noteq> 0" "x \<notin> D" "managed s0 x" using a(4-6) heap_stateD(4) [OF assms] by simp_all
qed

lemma user_vm_map_runs:
  fixes s :: "'z kernel_state_scheme"
  assumes hs: "heap_state R D xs E C s0 p P s" and pt: "pt \<in> R" and va: "page_aligned va" "unat va + 4096 \<le> unat MAXVA"
    and none: "E pt va = 0" and len: "2 \<le> length xs"
  shows "runs (user_vm_map pt va PGSIZE pa perm) s (\<lambda>_ t. \<exists>ys. length xs \<le> length ys + 2 \<and> set ys \<subseteq> set xs \<and>
    heap_state R D ys (with_page E pt va (PA2PTE pa OR scast perm OR PTE_V)) C s0 p P t)"
proof -
  note sp = heap_stateD(1) [OF hs]
  obtain t ys where t: "user_vm_map pt va PGSIZE pa perm s = (Inr (), t)" "length xs \<le> length ys + 2" "set ys \<subseteq> set xs"
    "space R D ys (with_page E pt va (PA2PTE pa OR scast perm OR PTE_V)) C t" "pmm_state.more t = pmm_state.more s"
    using space_map [OF sp pt va none len] by blast
  have "va < MAXVA" using va(2) by (simp add: word_less_nat_alt)
  then have un: "pt_entry (pmem s) pt va AND PTE_V = 0" using spaceD(4) [OF sp pt] none by simp
  obtain t' ys' where "user_vm_map pt va PGSIZE pa perm s = (Inr (), t')" "vm_frame R s xs t' ys'"
    by (rule user_vm_map_page [OF spaceD(1) [OF sp] pt va un len, where pa = pa and perm = perm]) simp_all
  then have "managed t = managed s" using t(1) vm_frameD(3) by simp
  then have "heap_state R D ys (with_page E pt va (PA2PTE pa OR scast perm OR PTE_V)) C s0 p P t"
    using t(4) hs kernel_fields(1,2) [OF t(5)] by (simp add: heap_state_def)
  then show ?thesis using t(1-3) by (auto simp: kwp_def)
qed

section \<open>The list operations\<close>

lemma link_front_runs:
  assumes hs: "heap_state R D xs E C s0 p P s" and n: "n \<in> D" "n \<noteq> 0" and h: "h = sel P" "h = 0 \<or> h \<in> D"
  shows "runs (link_front p sel upd n) s (\<lambda>_. heap_state R D xs E (linked n h C) s0 p (upd (\<lambda>_. n) P))"
proof -
  let ?C1 = "C(n := (C n)(M_next := h))"
  have "runs (kwhen (h \<noteq> 0) (node_set h M_prev n)) t (\<lambda>_. heap_state R D xs E (linked n h C) s0 p P)"
    if "heap_state R D xs E ?C1 s0 p P t" for t
    using node_set_runs [OF that, of h M_prev n] that h(2) by (auto simp: kwp_simps linked_def Let_def)
  then show ?thesis
    unfolding link_front_def kwp_bind list_head_runs [OF hs] h(1) [symmetric]
    by (intro runs_then [OF node_set_runs [OF hs n]] runs_then upd_proc_runs) assumption+
qed

lemma unlink_node_runs:
  assumes hs: "heap_state R D xs E C s0 p P s" and n: "n \<in> D" "n \<noteq> 0"
    and nb: "C n M_prev = 0 \<or> C n M_prev \<in> D" "C n M_next = 0 \<or> C n M_next \<in> D"
  shows "runs (unlink_node p upd n) s (\<lambda>_. heap_state R D xs E (unlinked n C) s0 p
    (if C n M_prev = 0 then upd (\<lambda>_. C n M_next) P else P))"
proof -
  let ?pv = "C n M_prev" and ?nx = "C n M_next"
  let ?C1 = "if ?pv = 0 then C else C(?pv := (C ?pv)(M_next := ?nx))" and ?P = "if ?pv = 0 then upd (\<lambda>_. ?nx) P else P"
  have 1: "runs (if ?pv \<noteq> 0 then node_set ?pv M_next ?nx else upd_proc p (upd (\<lambda>_. ?nx))) s (\<lambda>_. heap_state R D xs E ?C1 s0 p ?P)"
    using node_set_runs [OF hs, of ?pv M_next ?nx] upd_proc_runs [OF hs, of "upd (\<lambda>_. ?nx)"] nb(1) by auto
  have 2: "runs (kwhen (?nx \<noteq> 0) (node_set ?nx M_prev ?pv)) t (\<lambda>_. heap_state R D xs E (unlinked n C) s0 p ?P)"
    if "heap_state R D xs E ?C1 s0 p ?P t" for t
    using node_set_runs [OF that, of ?nx M_prev ?pv] that nb(2) by (auto simp: kwp_simps unlinked_def Let_def)
  show ?thesis
    unfolding unlink_node_def kwp_bind node_get_runs [OF hs n] by (rule runs_then [OF 1 2])
qed

text \<open>A node as the block of \<open>sz\<close> bytes at \<open>va\<close>, at the front of the list with head \<open>h\<close>.\<close>

definition with_block :: "u64 \<Rightarrow> u64 \<Rightarrow> u64 \<Rightarrow> u64 \<Rightarrow> contents \<Rightarrow> contents" where
  "with_block n va sz h C = linked n h (C(n := (C n)(M_va := va, M_size := sz, M_prev := 0)))"

lemma add_block_runs:
  assumes hs: "heap_state R D xs E C s0 p P s" and n: "n \<in> D" "n \<noteq> 0" and h: "h = sel P" "h = 0 \<or> h \<in> D"
  shows "runs (add_block p sel upd n va sz) s (\<lambda>_. heap_state R D xs E (with_block n va sz h C) s0 p (upd (\<lambda>_. n) P))"
proof -
  have e: "C(n := (C n)(M_va := va), n := ((C(n := (C n)(M_va := va))) n)(M_size := sz),
      n := ((C(n := (C n)(M_va := va), n := ((C(n := (C n)(M_va := va))) n)(M_size := sz))) n)(M_prev := 0)) =
      C(n := (C n)(M_va := va, M_size := sz, M_prev := 0))" by simp
  show ?thesis
    unfolding add_block_def with_block_def e [symmetric]
    by (intro runs_then [OF node_set_runs [OF hs n]] runs_then [OF node_set_runs] link_front_runs h n) (assumption | rule n)+
qed

lemma pop_free_runs:
  assumes hs: "heap_state R D xs E C s0 p P s" and n: "n \<in> D" "n \<noteq> 0" and nx: "C n M_next = 0 \<or> C n M_next \<in> D"
    and pv: "C n M_prev = 0"
  shows "runs (pop_free p n) s (\<lambda>_. heap_state R D xs E (unlinked n C) s0 p (P\<lparr>malloc_free_list := C n M_next\<rparr>))"
proof -
  let ?nx = "C n M_next"
  have 2: "runs (kwhen (?nx \<noteq> 0) (node_set ?nx M_prev 0)) t (\<lambda>_. heap_state R D xs E (unlinked n C) s0 p (P\<lparr>malloc_free_list := ?nx\<rparr>))"
    if "heap_state R D xs E C s0 p (P\<lparr>malloc_free_list := ?nx\<rparr>) t" for t
    using node_set_runs [OF that, of ?nx M_prev 0] that nx pv by (auto simp: kwp_simps unlinked_def Let_def)
  show ?thesis
    unfolding pop_free_def kwp_bind node_get_runs [OF hs n]
    by (rule runs_then [OF _ 2]) (use upd_proc_runs [OF hs, of "malloc_free_list_update (\<lambda>_. ?nx)"] in simp)
qed

lemma find_node_runs:
  assumes hs: "heap_state R D xs E C s0 p P s" and l: "dseg C pv h ns 0" "set ns \<subseteq> D" "length ns \<le> k"
  shows "kwp (find_node k T h) Q F s = Q (case find (\<lambda>n. T (C n)) ns of None \<Rightarrow> 0 | Some n \<Rightarrow> n) s"
  using l
proof (induction ns arbitrary: k pv h)
  case Nil
  then show ?case by (cases k) (simp_all add: kwp_simps)
next
  case (Cons n ns)
  then obtain j where k: "k = Suc j" by (cases k) auto
  have "pmem s n = C n" using spaceD(5) [OF heap_stateD(1) [OF hs]] Cons.prems(2) by simp
  then show ?case using Cons.IH [of n "C n M_next" j] Cons.prems by (simp add: k kwp_simps)
qed

lemma linked_fields:
  "i \<noteq> M_next \<Longrightarrow> i \<noteq> M_prev \<Longrightarrow> linked n h C m i = C m i" "m \<noteq> n \<Longrightarrow> m \<noteq> h \<Longrightarrow> linked n h C m = C m"
  "m \<noteq> h \<Longrightarrow> h \<noteq> 0 \<Longrightarrow> linked n h C m M_prev = C m M_prev" "h = 0 \<Longrightarrow> linked n h C m M_prev = C m M_prev"
  by (auto simp: linked_def Let_def)

lemma unlinked_fields:
  "i \<noteq> M_next \<Longrightarrow> i \<noteq> M_prev \<Longrightarrow> unlinked n C m i = C m i"
  "m \<noteq> C n M_prev \<Longrightarrow> m \<noteq> C n M_next \<Longrightarrow> unlinked n C m = C m"
  "m = 0 \<Longrightarrow> unlinked n C m = C m"
  by (auto simp: unlinked_def Let_def)

lemma with_block_fields:
  "i = M_va \<or> i = M_size \<Longrightarrow> m \<noteq> n \<Longrightarrow> with_block n va sz h C m i = C m i"
  "with_block n va sz h C n M_va = va" "with_block n va sz h C n M_size = sz" "m \<noteq> n \<Longrightarrow> m \<noteq> h \<Longrightarrow> with_block n va sz h C m = C m"
  by (auto simp: with_block_def linked_fields)

lemma with_block_dlist:
  assumes "dlist C h ns" "n \<notin> set ns" "n \<noteq> 0" "distinct ns"
  shows "dlist (with_block n va sz h C) n (n # ns)"
proof -
  let ?C = "C(n := (C n)(M_va := va, M_size := sz, M_prev := 0))"
  have "dlist ?C h ns = dlist C h ns" using assms(2) by (intro dseg_cong) auto
  then show ?thesis unfolding with_block_def using assms by (intro linked_dlist) auto
qed

text \<open>A list is not touched by what happens to other nodes.\<close>

lemma dlist_head: "dlist C h ns \<Longrightarrow> h = (if ns = [] then 0 else hd ns)"
  by (cases ns) auto

lemma with_block_other:
  assumes "dlist C h' ms" "n \<notin> set ms" "h = 0 \<or> h \<notin> set ms"
  shows "dlist (with_block n va sz h C) h' ms"
proof -
  have "0 \<notin> set ms" by (rule dseg_nonzero [OF assms(1)])
  then have "dlist (with_block n va sz h C) h' ms = dlist C h' ms"
    using assms(2,3) by (intro dseg_cong) (metis with_block_fields(4))
  then show ?thesis using assms(1) by simp
qed

lemma unlinked_other:
  assumes "dlist C h' ms" "C n M_prev = 0 \<or> C n M_prev \<notin> set ms" "C n M_next = 0 \<or> C n M_next \<notin> set ms"
  shows "dlist (unlinked n C) h' ms"
proof -
  have "0 \<notin> set ms" by (rule dseg_nonzero [OF assms(1)])
  then have "dlist (unlinked n C) h' ms = dlist C h' ms"
    using assms(2,3) by (intro dseg_cong) (metis unlinked_fields(2))
  then show ?thesis using assms(1) by simp
qed

section \<open>The two lists of a heap\<close>

text \<open>\<open>us\<close> and \<open>fs\<close> are the lists with the heads \<open>a\<close> and \<open>b\<close>; their nodes are data pages in the pool of pages \<open>m\<close>.\<close>

definition heap_lists :: "(u64 \<Rightarrow> bool) \<Rightarrow> u64 set \<Rightarrow> contents \<Rightarrow> u64 \<Rightarrow> u64 list \<Rightarrow> u64 \<Rightarrow> u64 list \<Rightarrow> bool" where
  "heap_lists m D C a us b fs \<longleftrightarrow> dlist C a us \<and> dlist C b fs \<and> distinct us \<and> distinct fs \<and> set us \<inter> set fs = {} \<and>
     set us \<union> set fs \<subseteq> D \<and> (\<forall>n\<in>set us \<union> set fs. m n)"

lemma heap_lists_swap: "heap_lists m D C a us b fs = heap_lists m D C b fs a us"
  by (auto simp: heap_lists_def)

lemma heap_listsD:
  assumes "heap_lists m D C a us b fs"
  shows "dlist C a us" "dlist C b fs" "distinct us" "distinct fs" "set us \<inter> set fs = {}" "set us \<subseteq> D" "set fs \<subseteq> D"
    "n \<in> set us \<or> n \<in> set fs \<Longrightarrow> m n" "0 \<notin> set us" "0 \<notin> set fs"
    "a = 0 \<or> a \<in> set us" "b = 0 \<or> b \<in> set fs"
proof -
  show l: "dlist C a us" "dlist C b fs" "distinct us" "distinct fs" "set us \<inter> set fs = {}" "set us \<subseteq> D" "set fs \<subseteq> D"
    "n \<in> set us \<or> n \<in> set fs \<Longrightarrow> m n"
    using assms unfolding heap_lists_def by auto
  show "0 \<notin> set us" "0 \<notin> set fs" using dseg_nonzero [OF l(1)] dseg_nonzero [OF l(2)] by simp_all
  show "a = 0 \<or> a \<in> set us" "b = 0 \<or> b \<in> set fs" using dlist_head [OF l(1)] dlist_head [OF l(2)] by auto
qed

lemma heap_lists_cong:
  assumes "heap_lists m D C a us b fs" "D \<subseteq> D'" "\<And>n. n \<in> set us \<or> n \<in> set fs \<Longrightarrow> C' n = C n"
  shows "heap_lists m D' C' a us b fs"
proof -
  have "dlist C' h ns = dlist C h ns" if "set ns \<subseteq> set us \<union> set fs" for h ns
    using that assms(3) by (intro dseg_cong) auto
  then show ?thesis using assms(1,2) unfolding heap_lists_def by (simp add: subset_iff)
qed

lemma heap_lists_add:
  assumes hl: "heap_lists m D C a us b fs" and n: "n \<in> D" "n \<noteq> 0" "m n" "n \<notin> set us" "n \<notin> set fs"
  shows "heap_lists m D (with_block n va sz a C) n (n # us) b fs"
proof -
  note h = heap_listsD [OF hl]
  have "a = 0 \<or> a \<notin> set fs" using h(5,11) by auto
  then have "dlist (with_block n va sz a C) b fs" by (rule with_block_other [OF h(2) n(5)])
  moreover have "dlist (with_block n va sz a C) n (n # us)" by (rule with_block_dlist [OF h(1) n(4,2) h(3)])
  ultimately show ?thesis using hl n unfolding heap_lists_def by auto
qed

lemma heap_lists_take:
  assumes hl: "heap_lists m D C a us b (xs @ n # ys)"
  shows "heap_lists m D (unlinked n C) a us (if xs = [] then C n M_next else b) (xs @ ys)"
    "C n M_prev = 0 \<or> C n M_prev \<in> set (xs @ n # ys)" "C n M_next = 0 \<or> C n M_next \<in> set (xs @ n # ys)" "C n M_prev = 0 \<longleftrightarrow> xs = []"
proof -
  note h = heap_listsD [OF hl]
  note u = unlinked_dlist [OF h(2,4)]
  show pv: "C n M_prev = 0 \<or> C n M_prev \<in> set (xs @ n # ys)" and nx: "C n M_next = 0 \<or> C n M_next \<in> set (xs @ n # ys)"
    using u(2,3) last_in_set [of xs] hd_in_set [of ys] by auto
  show "C n M_prev = 0 \<longleftrightarrow> xs = []" using u(2) h(10) by (cases xs rule: rev_cases) auto
  have "dlist (unlinked n C) a us" using pv nx h(5) by (intro unlinked_other [OF h(1)]) auto
  then show "heap_lists m D (unlinked n C) a us (if xs = [] then C n M_next else b) (xs @ ys)"
    using hl u(1) unfolding heap_lists_def by auto
qed

text \<open>What stays of the contents: pages outside \<open>N\<close> as a whole, and the blocks of the nodes outside \<open>X\<close>.\<close>

definition kept :: "u64 set \<Rightarrow> u64 set \<Rightarrow> u64 set \<Rightarrow> contents \<Rightarrow> u64 set \<Rightarrow> contents \<Rightarrow> bool" where
  "kept N X D C D' C' \<longleftrightarrow> D \<subseteq> D' \<and> (\<forall>d\<in>D. d \<notin> N \<longrightarrow> C' d = C d) \<and>
     (\<forall>d\<in>D. d \<notin> X \<longrightarrow> C' d M_va = C d M_va \<and> C' d M_size = C d M_size)"

lemma keptD:
  assumes "kept N X D C D' C'"
  shows "D \<subseteq> D'" "d \<in> D \<Longrightarrow> d \<notin> N \<Longrightarrow> C' d = C d" "d \<in> D \<Longrightarrow> d \<notin> X \<Longrightarrow> C' d M_va = C d M_va"
    "d \<in> D \<Longrightarrow> d \<notin> X \<Longrightarrow> C' d M_size = C d M_size"
  using assms unfolding kept_def by blast+

lemma kept_trans:
  assumes "kept N X D C D1 C1" "kept N' X' D1 C1 D2 C2" "N' \<inter> D \<subseteq> N" "X' \<inter> D \<subseteq> X"
  shows "kept N X D C D2 C2"
  unfolding kept_def
proof (intro conjI ballI impI)
  note f = keptD [OF assms(1)] and g = keptD [OF assms(2)]
  show "D \<subseteq> D2" using f(1) g(1) by blast
  fix d assume d: "d \<in> D"
  then have d1: "d \<in> D1" using f(1) by blast
  show "C2 d = C d" if "d \<notin> N" using f(2) [OF d that] g(2) [OF d1] that d assms(3) by auto
  show "C2 d M_va = C d M_va" "C2 d M_size = C d M_size" if "d \<notin> X"
    using f(3,4) [OF d that] g(3,4) [OF d1] that d assms(4) by auto
qed

lemma kept_add:
  assumes "h = 0 \<or> h \<in> N" "n \<in> N"
  shows "kept N {n} D C D (with_block n va sz h C)"
proof -
  have "with_block n va sz h C d = C d" if "d \<notin> N" for d
    using assms that by (auto simp: with_block_def linked_def Let_def)
  then show ?thesis unfolding kept_def by (simp add: with_block_fields(1))
qed

lemma kept_take:
  assumes "heap_lists m D C a us b (xs @ n # ys)"
  shows "kept (set (xs @ n # ys)) {} D C D (unlinked n C)"
proof -
  have "unlinked n C d = C d" if "d \<notin> set (xs @ n # ys)" for d
    using heap_lists_take(2,3) [OF assms] that unlinked_fields(2,3) by metis
  then show ?thesis unfolding kept_def by (simp add: unlinked_fields(1))
qed

end
