(* ===== verification/Malloc_Heap.thy ===== *)
theory Malloc_Heap
  imports Malloc_Lists
begin

text \<open>
  The byte-wise heap does what an allocator promises: \<^verbatim>\<open>user_better_malloc\<close> (\<^verbatim>\<open>kernel/process.c\<close>) returns a block of the wanted size that overlaps no block in
  use, all of whose pages are mapped.

  \<open>malloc_ok\<close> is the invariant of the heap: its two lists, their blocks inside the heap and disjoint, the pages of the blocks in use mapped; \<open>heap_inv\<close> adds the memory around
  it and that mapped pages have frames of their own.  \<open>ext\<close> is
  what the page loops of the code do to memory; there is one lemma for each of the two ways to a block, a freed block (\<open>reuse_block_runs\<close>) and more
  memory behind the heap (\<open>extend_heap_runs\<close>).
\<close>

unbundle bit_operations_syntax

section \<open>Pages of the heap\<close>

text \<open>The page with number \<open>j\<close>, and the entries that \<^verbatim>\<open>lookup_pa\<close> finds.\<close>

definition pg :: "nat \<Rightarrow> u64" where
  "pg j = of_nat (4096 * j)"

definition live :: "u64 \<Rightarrow> bool" where
  "live e \<longleftrightarrow> e AND PTE_V \<noteq> 0 \<and> (e AND PTE_R \<noteq> 0 \<or> e AND PTE_W \<noteq> 0) \<and> PTE2PA e \<noteq> 0"

lemma unat_MAXVA: "unat MAXVA = 2 ^ 38"
  by (simp add: MAXVA_def)

lemma unat_pg: "4096 * j < 2 ^ 64 \<Longrightarrow> unat (pg j) = 4096 * j"
  unfolding pg_def by (rule unat_of_nat64)

lemma pg_aligned: "page_aligned (pg j)"
proof -
  have "unat (pg j) = (4096 * j) mod 2 ^ 64" unfolding pg_def by (subst unat_of_nat) simp
  also have "(4096 * j) mod 2 ^ 64 mod 4096 = (4096 * j) mod 4096" by (rule mod_mod_cancel) simp
  finally show ?thesis by (simp add: page_aligned_unat)
qed

lemma ROUNDDOWN_pg: "ROUNDDOWN a PGSIZE = pg (unat a div 4096)"
proof -
  have "4096 * (unat a div 4096) < 2 ^ 64" using unat_bound64 [of a] by linarith
  then show ?thesis by (simp add: word_unat_eq_iff unat_ROUNDDOWN unat_pg)
qed

lemma pg_eq: "4096 * i < 2 ^ 64 \<Longrightarrow> 4096 * j < 2 ^ 64 \<Longrightarrow> pg i = pg j \<longleftrightarrow> i = j"
  by (metis unat_pg mult_cancel1 zero_neq_numeral)

lemma pg_Suc: "pg j + PGSIZE = pg (Suc j)"
  by (simp add: pg_def PGSIZE_def)

lemma ROUNDDOWN_is_pg: "4096 * j < 2 ^ 64 \<Longrightarrow> ROUNDDOWN a PGSIZE = pg j \<longleftrightarrow> unat a div 4096 = j"
  unfolding ROUNDDOWN_pg using unat_bound64 [of a] by (intro pg_eq) linarith+

lemma live_zero [simp]: "\<not> live 0"
  by (simp add: live_def)

lemma user_rw_prot: "scast user_rw = prot_to_type (PROT_READ OR PROT_WRITE) True"
  by (simp add: prot_to_type_def PROT_READ_def PROT_WRITE_def PROT_EXEC_def pte_flag_defs)

lemma live_user_rw: "page_aligned x \<Longrightarrow> x \<noteq> 0 \<Longrightarrow> live (PA2PTE x OR scast user_rw OR PTE_V)"
  using user_rw_entry(1-3) [of x] by (simp add: live_def user_rw_prot)

lemma lookup_pa_runs:
  assumes hs: "heap_state R D xs E C s0 p P s" and pt: "pt \<in> R" and va: "va < MAXVA" and e: "E pt va = 0 \<or> live (E pt va)"
  shows "kwp (lookup_pa pt va) Q F s = Q (if live (E pt va) then PTE2PA (E pt va) else 0) s"
proof -
  have "pt_entry (pmem s) pt va = E pt va" by (rule spaceD(4) [OF heap_stateD(1) [OF hs] pt va])
  then have "lookup_pa pt va s = (Inr (if live (E pt va) then PTE2PA (E pt va) else 0), s)"
    using lookup_pa_eq [of pt va s] va e by (auto simp: live_def Let_def not_le)
  then show ?thesis by (simp add: kwp_def)
qed

text \<open>The pages of \<open>pt\<close> that became live got frames of their own, which were no data pages before.\<close>

definition newly :: "u64 \<Rightarrow> (u64 \<Rightarrow> u64 \<Rightarrow> u64) \<Rightarrow> (u64 \<Rightarrow> u64 \<Rightarrow> u64) \<Rightarrow> u64 set" where
  "newly pt E E' = {a. page_aligned a \<and> \<not> live (E pt a) \<and> live (E' pt a)}"

definition fresh_frames :: "u64 \<Rightarrow> u64 set \<Rightarrow> (u64 \<Rightarrow> u64 \<Rightarrow> u64) \<Rightarrow> u64 set \<Rightarrow> (u64 \<Rightarrow> u64 \<Rightarrow> u64) \<Rightarrow> bool" where
  "fresh_frames pt D E D' E' \<longleftrightarrow> (\<forall>a\<in>newly pt E E'. PTE2PA (E' pt a) \<in> D' - D) \<and> inj_on (\<lambda>a. PTE2PA (E' pt a)) (newly pt E E')"

text \<open>
  What mapping the pages \<open>J\<close> of \<open>pt\<close> changes, with at most \<open>3 k\<close> free pages: the data pages keep their contents, other entries stay, and so do live ones.
\<close>

definition ext :: "u64 \<Rightarrow> nat set \<Rightarrow> nat \<Rightarrow> u64 set \<Rightarrow> u64 list \<Rightarrow> (u64 \<Rightarrow> u64 \<Rightarrow> u64) \<Rightarrow> contents \<Rightarrow>
    u64 set \<Rightarrow> u64 list \<Rightarrow> (u64 \<Rightarrow> u64 \<Rightarrow> u64) \<Rightarrow> contents \<Rightarrow> bool" where
  "ext pt J k D xs E C D' ys E' C' \<longleftrightarrow> D \<subseteq> D' \<and> (\<forall>d\<in>D. C' d = C d) \<and> length xs \<le> length ys + 3 * k \<and>
     (\<forall>pd. pd \<noteq> pt \<longrightarrow> E' pd = E pd) \<and> (\<forall>a. unat a div 4096 \<notin> J \<longrightarrow> E' pt a = E pt a) \<and>
     (\<forall>j\<in>J. live (E' pt (pg j))) \<and> (\<forall>a. page_aligned a \<longrightarrow> live (E pt a) \<longrightarrow> E' pt a = E pt a) \<and> fresh_frames pt D E D' E'"

lemma extD:
  assumes "ext pt J k D xs E C D' ys E' C'"
  shows "D \<subseteq> D'" "d \<in> D \<Longrightarrow> C' d = C d" "length xs \<le> length ys + 3 * k" "pd \<noteq> pt \<Longrightarrow> E' pd = E pd"
    "unat a div 4096 \<notin> J \<Longrightarrow> E' pt a = E pt a" "j \<in> J \<Longrightarrow> live (E' pt (pg j))" "page_aligned a \<Longrightarrow> live (E pt a) \<Longrightarrow> E' pt a = E pt a"
    "fresh_frames pt D E D' E'"
  using assms unfolding ext_def by simp_all

lemma ext_refl: "(\<And>j. j \<in> J \<Longrightarrow> live (E pt (pg j))) \<Longrightarrow> ext pt J k D xs E C D xs E C"
  by (simp add: ext_def fresh_frames_def newly_def)

lemma fresh_frames_trans:
  assumes f: "fresh_frames pt D E D1 E1" "fresh_frames pt D1 E1 D2 E2" and D: "D \<subseteq> D1" "D1 \<subseteq> D2"
    and keep: "\<And>a. page_aligned a \<Longrightarrow> live (E1 pt a) \<Longrightarrow> E2 pt a = E1 pt a"
  shows "fresh_frames pt D E D2 E2"
proof -
  let ?pa = "\<lambda>a. PTE2PA (E2 pt a)"
  have two: "a \<in> newly pt E E1 \<and> E2 pt a = E1 pt a \<or> a \<in> newly pt E1 E2" if "a \<in> newly pt E E2" for a
    using that keep [of a] by (auto simp: newly_def)
  have 1: "?pa a \<in> D1 - D" if "a \<in> newly pt E E1" "E2 pt a = E1 pt a" for a using that f(1) by (simp add: fresh_frames_def)
  have 2: "?pa a \<in> D2 - D1" if "a \<in> newly pt E1 E2" for a using that f(2) by (simp add: fresh_frames_def)
  have "?pa a \<in> D2 - D" if "a \<in> newly pt E E2" for a using two [OF that] 1 [of a] 2 [of a] D by auto
  moreover have "inj_on ?pa (newly pt E E2)"
  proof (rule inj_onI)
    fix a b assume a: "a \<in> newly pt E E2" and b: "b \<in> newly pt E E2" and eq: "?pa a = ?pa b"
    have inj: "inj_on (\<lambda>a. PTE2PA (E1 pt a)) (newly pt E E1)" "inj_on ?pa (newly pt E1 E2)" using f by (simp_all add: fresh_frames_def)
    show "a = b" using two [OF a] two [OF b]
    proof (elim disjE conjE)
      assume "a \<in> newly pt E E1" "E2 pt a = E1 pt a" "b \<in> newly pt E E1" "E2 pt b = E1 pt b"
      then show ?thesis using inj_onD [OF inj(1), of a b] eq by simp
    next
      assume "a \<in> newly pt E1 E2" "b \<in> newly pt E1 E2"
      then show ?thesis using inj_onD [OF inj(2), of a b] eq by simp
    qed (use 1 2 eq in \<open>metis DiffD1 DiffD2\<close>)+
  qed
  ultimately show ?thesis by (simp add: fresh_frames_def)
qed

lemma ext_trans:
  assumes x: "ext pt J k D xs E C D1 ys E1 C1" and y: "ext pt J' k' D1 ys E1 C1 D2 zs E2 C2"
  shows "ext pt (J \<union> J') (k + k') D xs E C D2 zs E2 C2"
proof -
  have "fresh_frames pt D E D2 E2" by (rule fresh_frames_trans [OF extD(8) [OF x] extD(8) [OF y] extD(1) [OF x] extD(1) [OF y] extD(7) [OF y]])
  moreover have "live (E2 pt (pg j))" if "j \<in> J \<union> J'" for j
    using that extD(6) [OF x, of j] extD(6) [OF y, of j] extD(7) [OF y pg_aligned, of j] by auto
  moreover have "E2 pt a = E pt a" if "page_aligned a" "live (E pt a)" for a using that extD(7) [OF x that] extD(7) [OF y, of a] by simp
  moreover have "length xs \<le> length zs + 3 * (k + k')" using extD(3) [OF x] extD(3) [OF y] by simp
  moreover have "D \<subseteq> D2" "\<forall>d\<in>D. C2 d = C d" using extD(1,2) [OF x] extD(1,2) [OF y] by auto
  moreover have "pd \<noteq> pt \<Longrightarrow> E2 pd = E pd" "unat a div 4096 \<notin> J \<union> J' \<Longrightarrow> E2 pt a = E pt a" for pd a
    using extD(4,5) [OF x] extD(4,5) [OF y] by auto
  ultimately show ?thesis unfolding ext_def by blast
qed

lemma map_fresh_runs:
  assumes hs: "heap_state R D xs E C s0 p P s" and pt: "pt \<in> R" and j: "4096 * Suc j \<le> unat MAXVA"
    and none: "E pt (pg j) = 0" and len: "3 \<le> length xs"
  shows "runs (kbind alloc_page (\<lambda>pa. if pa = 0 then f else kthen (user_vm_map pt (pg j) PGSIZE pa user_rw) (kreturn r))) s
    (\<lambda>v t. v = r \<and> (\<exists>D' ys E' C'. ext pt {j} 1 D xs E C D' ys E' C' \<and> heap_state R D' ys E' C' s0 p P t))"
proof -
  obtain x xs' where xs: "xs = x # xs'" "2 \<le> length xs'" using len by (cases xs) auto
  note a = alloc_page_runs [OF hs [unfolded xs(1)]]
  obtain c where hs': "heap_state R (insert x D) xs' E (C(x := c)) s0 p P (alloc_state x s)" using a(2) by blast
  have j64: "4096 * j < 2 ^ 64" using j by (simp add: unat_MAXVA)
  have va: "page_aligned (pg j)" "unat (pg j) + 4096 \<le> unat MAXVA" using pg_aligned [of j] unat_pg [OF j64] j by simp_all
  let ?e = "PA2PTE x OR scast user_rw OR PTE_V"
  have al: "page_aligned x" using a(5) by (simp add: managed_def)
  then have lv: "live ?e" using a(3) by (rule live_user_rw)
  have up: "with_page E pt (pg j) ?e pt b = (if unat b div 4096 = j then ?e else E pt b)" for b
    using ROUNDDOWN_is_pg [OF j64, of b] by (simp add: with_page_def)
  have "runs (user_vm_map pt (pg j) PGSIZE x user_rw) (alloc_state x s) (\<lambda>_ t. \<exists>D' ys E' C'.
      ext pt {j} 1 D xs E C D' ys E' C' \<and> heap_state R D' ys E' C' s0 p P t)"
  proof (rule kwp_mono [OF user_vm_map_runs [OF hs' pt va none xs(2)]])
    fix r t assume "\<exists>ys. length xs' \<le> length ys + 2 \<and> set ys \<subseteq> set xs' \<and>
      heap_state R (insert x D) ys (with_page E pt (pg j) ?e) (C(x := c)) s0 p P t"
    then obtain ys where ys: "length xs' \<le> length ys + 2" "heap_state R (insert x D) ys (with_page E pt (pg j) ?e) (C(x := c)) s0 p P t"
      by blast
    have same: "with_page E pt (pg j) ?e pt a = E pt a" if "page_aligned a" "a \<noteq> pg j" for a
      using that by (simp add: with_page_def ROUNDDOWN_id)
    have "b = pg j" if "b \<in> newly pt E (with_page E pt (pg j) ?e)" for b using that same [of b] by (cases "b = pg j") (simp_all add: newly_def)
    then have "newly pt E (with_page E pt (pg j) ?e) \<subseteq> {pg j}" by blast
    moreover have "PTE2PA (with_page E pt (pg j) ?e pt (pg j)) = x" using user_rw_entry(1) [OF al] unat_pg [OF j64] by (simp add: with_page_def ROUNDDOWN_id [OF pg_aligned] user_rw_prot)
    ultimately have "fresh_frames pt D E (insert x D) (with_page E pt (pg j) ?e)"
      using a(4) unfolding fresh_frames_def by (auto intro: inj_on_subset)
    moreover have "page_aligned a \<longrightarrow> live (E pt a) \<longrightarrow> with_page E pt (pg j) ?e pt a = E pt a" for a
      using same [of a] none by (cases "a = pg j") auto
    moreover have "with_page E pt (pg j) ?e pd = E pd" if "pd \<noteq> pt" for pd using that by (simp add: with_page_def)
    ultimately have "ext pt {j} 1 D xs E C (insert x D) ys (with_page E pt (pg j) ?e) (C(x := c))"
      using ys(1) xs(1) a(4) lv unat_pg [OF j64] unfolding ext_def by (auto simp: up)
    then show "\<exists>D' ys E' C'. ext pt {j} 1 D xs E C D' ys E' C' \<and> heap_state R D' ys E' C' s0 p P t" using ys(2) by blast
  qed simp
  then show ?thesis using a(1,3) by (simp add: kwp_simps)
qed

text \<open>The mapped pages among \<open>J\<close> have frames of their own, which are data pages outside \<open>N\<close>.\<close>

definition frame_of :: "(u64 \<Rightarrow> u64 \<Rightarrow> u64) \<Rightarrow> u64 \<Rightarrow> nat \<Rightarrow> u64" where
  "frame_of E pt j = PTE2PA (E pt (pg j))"

definition heap_frames :: "u64 set \<Rightarrow> (u64 \<Rightarrow> u64 \<Rightarrow> u64) \<Rightarrow> u64 \<Rightarrow> nat set \<Rightarrow> u64 set \<Rightarrow> bool" where
  "heap_frames D E pt J N \<longleftrightarrow> (\<forall>j\<in>J. live (E pt (pg j)) \<longrightarrow> frame_of E pt j \<in> D - N) \<and> inj_on (frame_of E pt) {j \<in> J. live (E pt (pg j))}"

lemma heap_framesD:
  assumes "heap_frames D E pt J N" "j \<in> J" "live (E pt (pg j))"
  shows "frame_of E pt j \<in> D" "frame_of E pt j \<notin> N" "i \<in> J \<Longrightarrow> live (E pt (pg i)) \<Longrightarrow> i \<noteq> j \<Longrightarrow> frame_of E pt i \<noteq> frame_of E pt j"
  using assms unfolding heap_frames_def inj_on_def by auto

lemma heap_frames_fresh:
  assumes fr: "heap_frames D E pt J N" and ff: "fresh_frames pt D E D' E'" and keep: "\<And>a. page_aligned a \<Longrightarrow> live (E pt a) \<Longrightarrow> E' pt a = E pt a"
    and D: "D \<subseteq> D'" and N: "\<And>q. q \<in> N' \<Longrightarrow> q \<in> D \<Longrightarrow> q \<in> N" "\<And>a. a \<in> newly pt E E' \<Longrightarrow> PTE2PA (E' pt a) \<notin> N'"
    and J: "\<And>j. j \<in> J \<Longrightarrow> 4096 * j < 2 ^ 64"
  shows "heap_frames D' E' pt J N'"
proof -
  have old: "frame_of E' pt j = frame_of E pt j" "frame_of E' pt j \<in> D - N'" if "j \<in> J" "live (E pt (pg j))" for j
    using keep [OF pg_aligned that(2)] heap_framesD(1,2) [OF fr that] N(1) by (auto simp: frame_of_def)
  have new: "pg j \<in> newly pt E E'" "frame_of E' pt j \<in> D' - D" "frame_of E' pt j \<notin> N'" if "\<not> live (E pt (pg j))" "live (E' pt (pg j))" for j
  proof -
    show n: "pg j \<in> newly pt E E'" using that by (simp add: newly_def pg_aligned)
    then show "frame_of E' pt j \<in> D' - D" using ff by (simp add: fresh_frames_def frame_of_def)
    show "frame_of E' pt j \<notin> N'" using N(2) [OF n] by (simp add: frame_of_def)
  qed
  have inj: "i = j" if "i \<in> J" "j \<in> J" "live (E' pt (pg i))" "live (E' pt (pg j))" "frame_of E' pt i = frame_of E' pt j" for i j
  proof (cases "live (E pt (pg i))"; cases "live (E pt (pg j))")
    assume l: "live (E pt (pg i))" "live (E pt (pg j))"
    then show ?thesis using heap_framesD(3) [OF fr that(2) l(2) that(1) l(1)] old(1) that by auto
  next
    assume l: "\<not> live (E pt (pg i))" "\<not> live (E pt (pg j))"
    have "inj_on (\<lambda>a. PTE2PA (E' pt a)) (newly pt E E')" using ff by (simp add: fresh_frames_def)
    then have "pg i = pg j" using inj_onD new(1) l that by (metis frame_of_def)
    then show ?thesis using pg_eq [OF J J] that by simp
  qed (use old(2) new(2) that in fastforce)+
  have "frame_of E' pt j \<in> D' - N'" if "j \<in> J" "live (E' pt (pg j))" for j
    using old(2) [OF that(1)] new(2,3) [OF _ that(2)] D by (cases "live (E pt (pg j))") auto
  then show ?thesis using inj unfolding heap_frames_def by (auto intro: inj_onI)
qed

text \<open>The state after the pages \<open>J\<close> were mapped.\<close>

definition mapped_to :: "u64 set \<Rightarrow> u64 \<Rightarrow> nat set \<Rightarrow> nat \<Rightarrow> u64 set \<Rightarrow> u64 list \<Rightarrow> (u64 \<Rightarrow> u64 \<Rightarrow> u64) \<Rightarrow> contents \<Rightarrow>
    'z kernel_state_scheme \<Rightarrow> nat \<Rightarrow> process \<Rightarrow> 'z kernel_state_scheme \<Rightarrow> bool" where
  "mapped_to R pt J k D xs E C s0 p P t \<longleftrightarrow> (\<exists>D' ys E' C'. ext pt J k D xs E C D' ys E' C' \<and> heap_state R D' ys E' C' s0 p P t)"

lemma mapped_toE:
  assumes "mapped_to R pt J k D xs E C s0 p P t"
  obtains D' ys E' C' where "ext pt J k D xs E C D' ys E' C'" "heap_state R D' ys E' C' s0 p P t"
  using assms unfolding mapped_to_def by blast

lemma mapped_to_refl:
  "heap_state R D xs E C s0 p P t \<Longrightarrow> (\<And>j. j \<in> J \<Longrightarrow> live (E pt (pg j))) \<Longrightarrow> mapped_to R pt J k D xs E C s0 p P t"
  unfolding mapped_to_def using ext_refl by blast

lemma mapped_to_trans:
  "ext pt J k D xs E C D1 ys E1 C1 \<Longrightarrow> mapped_to R pt J' k' D1 ys E1 C1 s0 p P t \<Longrightarrow> mapped_to R pt (J \<union> J') (k + k') D xs E C s0 p P t"
  unfolding mapped_to_def by (elim exE conjE, intro exI conjI, rule ext_trans) assumption+

lemma ext_entry:
  assumes "ext pt J k D xs E C D' ys E' C'" "j \<notin> J" "4096 * j < 2 ^ 64"
  shows "E' pt (pg j) = E pt (pg j)"
  using extD(5) [OF assms(1), of "pg j"] assms(2) by (simp add: unat_pg [OF assms(3)])

lemma upt_Suc_set: "a \<le> j \<Longrightarrow> {a..<Suc j} = {a..<j} \<union> {j}"
  by auto

text \<open>One more page of a run of pages.\<close>

lemma map_next_runs:
  assumes mt: "mapped_to R pt {a..<j} (j - a) D xs E C s0 p P t" and j: "a \<le> j" "4096 * Suc j \<le> unat MAXVA" and pt: "pt \<in> R"
    and e: "E pt (pg j) = 0" and len: "3 * Suc (j - a) \<le> length xs"
  shows "runs (kbind alloc_page (\<lambda>pa. if pa = 0 then f else kthen (user_vm_map pt (pg j) PGSIZE pa user_rw) (kreturn r))) t
    (\<lambda>v u. v = r \<and> mapped_to R pt {a..<Suc j} (Suc j - a) D xs E C s0 p P u)"
proof -
  obtain D' ys E' C' where x: "ext pt {a..<j} (j - a) D xs E C D' ys E' C'" "heap_state R D' ys E' C' s0 p P t"
    by (rule mapped_toE [OF mt])
  have "4096 * j < 2 ^ 64" using j(2) by (simp add: unat_MAXVA)
  then have "E' pt (pg j) = 0" using ext_entry [OF x(1), of j] e by simp
  moreover have "3 \<le> length ys" using extD(3) [OF x(1)] len by simp
  moreover have "Suc j - a = (j - a) + 1" using j(1) by simp
  ultimately show ?thesis
    using mapped_to_trans [OF x(1), of R "{j}" 1 s0 p P] unfolding upt_Suc_set [OF j(1)]
    by (intro kwp_mono [OF map_fresh_runs [OF x(2) pt j(2), of f r]]) (auto simp: mapped_to_def)
qed

lemma map_block_runs:
  fixes va sz :: u64
  defines "a \<equiv> unat va div 4096" and "b \<equiv> (unat va + unat sz + 4095) div 4096"
  assumes hs: "heap_state R D xs E C s0 p P s" and pt: "pt \<in> R" and fits: "4096 * b \<le> unat MAXVA"
    and e: "\<And>j. a \<le> j \<Longrightarrow> j < b \<Longrightarrow> E pt (pg j) = 0 \<or> live (E pt (pg j))" and len: "3 * (b - a) \<le> length xs"
  shows "runs (map_block pt va sz) s (\<lambda>ok t. ok \<and> mapped_to R pt {a..<b} (b - a) D xs E C s0 p P t)"
proof -
  let ?body = "\<lambda>(page_va, ok). kbind (lookup_pa pt page_va) (\<lambda>pa. if pa \<noteq> 0 then kreturn (page_va + PGSIZE, True)
    else kbind alloc_page (\<lambda>pa. if pa = 0 then kreturn (page_va, False)
      else kthen (user_vm_map pt page_va PGSIZE pa user_rw) (kreturn (page_va + PGSIZE, True))))"
  let ?J = "\<lambda>j t. mapped_to R pt {a..<j} (j - a) D xs E C s0 p P t"
  let ?I = "\<lambda>(page_va, ok) t. ok \<and> (\<exists>j. page_va = pg j \<and> a \<le> j \<and> j \<le> b \<and> ?J j t)"
  let ?m = "\<lambda>(page_va :: u64, ok :: bool). b - unat page_va div 4096"
  have b64: "4096 * b < 2 ^ 64" using fits by (simp add: unat_MAXVA)
  have end_va: "unat (va + sz) = unat va + unat sz" using b64 unfolding b_def by (intro unat_add_lem [THEN iffD1]) simp
  have ab: "a \<le> b" unfolding a_def b_def by (intro div_le_mono) simp
  have less: "pg j < va + sz \<longleftrightarrow> j < b" if "j \<le> b" for j
  proof -
    have "unat (pg j) = 4096 * j" using that b64 by (intro unat_pg) simp
    then show ?thesis unfolding word_less_nat_alt end_va b_def by linarith
  qed
  have at: "unat (pg j) div 4096 = j" if "j \<le> b" for j using that b64 by (subst unat_pg) simp_all
  have step: "runs (?body (pg j, True)) t (\<lambda>z u. ?I z u \<and> ?m z < ?m (pg j, True))" if J: "?J j t" and j: "a \<le> j" "j < b" for j t
  proof -
    obtain D' ys E' C' where x: "ext pt {a..<j} (j - a) D xs E C D' ys E' C'" "heap_state R D' ys E' C' s0 p P t"
      by (rule mapped_toE [OF J])
    have e': "E' pt (pg j) = E pt (pg j)" using j b64 by (intro ext_entry [OF x(1)]) simp_all
    have va: "pg j < MAXVA" using j fits b64 by (simp add: word_less_nat_alt unat_pg)
    have nxt: "?I (pg j + PGSIZE, True) u \<and> ?m (pg j + PGSIZE, True) < ?m (pg j, True)" if "?J (Suc j) u" for u
      using that j at [of j] at [of "Suc j"] unfolding pg_Suc by (auto intro!: exI [of _ "Suc j"])
    note lk = lookup_pa_runs [OF x(2) pt va e [OF j, folded e']]
    show ?thesis
    proof (cases "live (E pt (pg j))")
      case True
      then have nz: "PTE2PA (E pt (pg j)) \<noteq> 0" by (simp add: live_def)
      have "mapped_to R pt {j} 1 D' ys E' C' s0 p P t" using True e' by (intro mapped_to_refl [OF x(2)]) simp
      from mapped_to_trans [OF x(1) this] have "?J (Suc j) t" using j(1) by (simp add: upt_Suc_set Suc_diff_le)
      then show ?thesis using nxt True nz by (simp add: kwp_bind lk e' kwp_return)
    next
      case False
      then have "E pt (pg j) = 0" using e [OF j] by simp
      then have r: "runs (kbind alloc_page (\<lambda>pa. if pa = 0 then kreturn (pg j, False)
          else kthen (user_vm_map pt (pg j) PGSIZE pa user_rw) (kreturn (pg j + PGSIZE, True)))) t
        (\<lambda>v u. v = (pg j + PGSIZE, True) \<and> ?J (Suc j) u)"
        using fits len j by (intro map_next_runs [OF J j(1) _ pt]) simp_all
      have "runs (kbind alloc_page (\<lambda>pa. if pa = 0 then kreturn (pg j, False)
          else kthen (user_vm_map pt (pg j) PGSIZE pa user_rw) (kreturn (pg j + PGSIZE, True)))) t
        (\<lambda>z u. ?I z u \<and> ?m z < ?m (pg j, True))"
        by (rule kwp_mono [OF r]) (use nxt in auto)
      then show ?thesis unfolding prod.case kwp_bind [of "lookup_pa pt (pg j)"] lk using False e' by simp
    qed
  qed
  have "runs (kwhile page_loop_bound (\<lambda>(page_va, ok). ok \<and> page_va < va + sz) ?body (pg a, True)) s (\<lambda>(page_va, ok) t. ok \<and> ?J b t)"
  proof (rule kwp_while [where I = ?I and \<mu> = ?m])
    show "?I (pg a, True) s" using ab mapped_to_refl [OF hs, of "{a..<a}" pt "a - a"] by auto
    have "b \<le> page_loop_bound" using b64 by (simp add: page_loop_bound_def)
    then show "?m (pg a, True) \<le> page_loop_bound" by simp
  next
    fix y t assume "?I y t" "case y of (page_va, ok) \<Rightarrow> ok \<and> page_va < va + sz"
    then show "runs (?body y) t (\<lambda>z u. ?I z u \<and> ?m z < ?m y)" "0 < ?m y" using step less at by (auto simp del: split_paired_All)
  next
    fix y t assume "?I y t" "\<not> (case y of (page_va, ok) \<Rightarrow> ok \<and> page_va < va + sz)"
    then obtain j where j: "y = (pg j, True)" "j \<le> b" "\<not> pg j < va + sz" "?J j t" by auto
    then have "j = b" using less [of j] by simp
    then show "(\<lambda>(page_va, ok) t. ok \<and> ?J b t) y t" using j by simp
  qed
  then show ?thesis unfolding map_block_def ROUNDDOWN_pg a_def [symmetric] kwp_bind
    by (rule kwp_mono) (auto simp: kwp_return)
qed

lemma map_more_runs:
  assumes hs: "heap_state R D xs E C s0 p P s" and pt: "pt \<in> R" and fits: "4096 * (a + n) \<le> unat MAXVA"
    and e: "\<And>j. a \<le> j \<Longrightarrow> j < a + n \<Longrightarrow> E pt (pg j) = 0" and len: "3 * n \<le> length xs"
  shows "runs (map_more pt ps fm (pg a) n) s (\<lambda>ok t. ok \<and> mapped_to R pt {a..<a + n} n D xs E C s0 p P t)"
proof -
  let ?J = "\<lambda>i t. mapped_to R pt {a..<a + i} i D xs E C s0 p P t"
  let ?I = "\<lambda>(i, ok) t. ok \<and> i \<le> n \<and> ?J i t"
  let ?m = "\<lambda>(i :: nat, ok :: bool). n - i"
  have at: "pg a + of_nat i * PGSIZE = pg (a + i)" for i
    by (simp add: pg_def PGSIZE_def algebra_simps)
  show ?thesis
    unfolding map_more_def kwp_bind
  proof (rule kwp_mono [OF kwp_while [where I = ?I and \<mu> = ?m and Q = "\<lambda>(i, ok) t. ok \<and> ?J n t"]])
    show "?I (0, True) s" using mapped_to_refl [OF hs, of "{a..<a + 0}" pt 0] by simp
    show "?m (0, True) \<le> n" by simp
  next
    fix y t assume y: "?I y t" "case y of (i, ok) \<Rightarrow> ok \<and> i < n"
    then obtain i where i: "y = (i, True)" "i < n" "?J i t" by auto
    show "0 < ?m y" using i by simp
    have "mapped_to R pt {a..<a + i} (a + i - a) D xs E C s0 p P t" using i(3) by simp
    from map_next_runs [OF this _ _ pt, where r = "(i + 1, True)"]
    have "runs (kbind alloc_page (\<lambda>pa. if pa = 0 then f else kthen (user_vm_map pt (pg (a + i)) PGSIZE pa user_rw) (kreturn (i + 1, True)))) t
      (\<lambda>v u. v = (i + 1, True) \<and> ?J (Suc i) u)" for f
      using i(2) fits e len by (simp add: Suc_diff_le)
    then show "runs (case y of (i, ok) \<Rightarrow> kbind alloc_page (\<lambda>pa. if pa = 0
          then kthen (kwhen fm (user_vm_unmap pt ps PGSIZE True))
            (kthen (kfor [0..<i] (\<lambda>j. user_vm_unmap pt (pg a + of_nat j * PGSIZE) PGSIZE True)) (kreturn (i, False)))
          else kthen (user_vm_map pt (pg a + of_nat i * PGSIZE) PGSIZE pa user_rw) (kreturn (i + 1, True)))) t
        (\<lambda>z u. ?I z u \<and> ?m z < ?m y)"
      unfolding i(1) at prod.case by (rule kwp_mono) (use i(2) in auto)
  next
    fix y t assume "?I y t" "\<not> (case y of (i, ok) \<Rightarrow> ok \<and> i < n)"
    then show "(\<lambda>(i, ok) t. ok \<and> ?J n t) y t" by (cases "fst y = n") auto
  qed (auto simp: kwp_return)
qed

lemma kept_ext: "ext pt J k D xs E C D' ys E' C' \<Longrightarrow> kept {} {} D C D' C'"
  using extD(1,2) [of pt J k D xs E C D' ys E' C'] by (auto simp: kept_def)

section \<open>The invariant\<close>

text \<open>The blocks of the nodes \<open>N\<close> lie between \<open>lo\<close> and \<open>hi\<close> and do not overlap.\<close>

definition apart :: "nat \<times> nat \<Rightarrow> nat \<times> nat \<Rightarrow> bool" where
  "apart x y \<longleftrightarrow> fst x + snd x \<le> fst y \<or> fst y + snd y \<le> fst x"

definition block :: "contents \<Rightarrow> u64 \<Rightarrow> nat \<times> nat" where
  "block C n = (unat (C n M_va), unat (C n M_size))"

definition inside :: "nat \<Rightarrow> nat \<Rightarrow> nat \<times> nat \<Rightarrow> bool" where
  "inside lo hi x \<longleftrightarrow> 0 < snd x \<and> lo \<le> fst x \<and> fst x + snd x \<le> hi"

definition blocks_ok :: "nat \<Rightarrow> nat \<Rightarrow> contents \<Rightarrow> u64 set \<Rightarrow> bool" where
  "blocks_ok lo hi C N \<longleftrightarrow> (\<forall>n\<in>N. inside lo hi (block C n)) \<and> (\<forall>n\<in>N. \<forall>n'\<in>N. n \<noteq> n' \<longrightarrow> apart (block C n) (block C n'))"

text \<open>The pages of a block.\<close>

definition pages :: "nat \<times> nat \<Rightarrow> nat set" where
  "pages x = {fst x div 4096..<(fst x + snd x + 4095) div 4096}"

text \<open>The blocks in use are mapped; a page of the heap is mapped or has no entry, and none has one between the top of the heap and its limit \<open>L\<close>.\<close>

definition pages_ok :: "nat \<Rightarrow> nat \<Rightarrow> nat \<Rightarrow> (u64 \<Rightarrow> u64) \<Rightarrow> contents \<Rightarrow> u64 set \<Rightarrow> bool" where
  "pages_ok L lo hi e C N \<longleftrightarrow> (\<forall>n\<in>N. \<forall>j\<in>pages (block C n). live (e (pg j))) \<and>
     (\<forall>j. lo div 4096 \<le> j \<longrightarrow> 4096 * j < L \<longrightarrow> e (pg j) = 0 \<or> live (e (pg j))) \<and>
     (\<forall>j. hi \<le> 4096 * j \<longrightarrow> 4096 * j < L \<longrightarrow> e (pg j) = 0)"

definition malloc_ok :: "nat \<Rightarrow> (u64 \<Rightarrow> bool) \<Rightarrow> u64 set \<Rightarrow> (u64 \<Rightarrow> u64 \<Rightarrow> u64) \<Rightarrow> contents \<Rightarrow> process \<Rightarrow> u64 list \<Rightarrow> u64 list \<Rightarrow> bool" where
  "malloc_ok L m D E C P us fs \<longleftrightarrow> heap_lists m D C (malloc_list P) us (malloc_free_list P) fs \<and>
     blocks_ok (unat (heap_bottom P)) (unat (heap_top P)) C (set us \<union> set fs) \<and>
     pages_ok L (unat (heap_bottom P)) (unat (heap_top P)) (E (pagetable P)) C (set us) \<and>
     0 < unat (heap_bottom P) \<and> heap_bottom P \<le> heap_top P \<and> unat (heap_top P) \<le> L \<and> 4096 dvd L \<and> L \<le> 2 ^ 38"

lemma block_with_block:
  "block (with_block n va sz h C) n = (unat va, unat sz)" "m \<noteq> n \<Longrightarrow> block (with_block n va sz h C) m = block C m"
  by (simp_all add: block_def with_block_fields)

lemma apart_commute: "apart x y = apart y x"
  by (auto simp: apart_def)

lemma apart_part: "apart x y \<Longrightarrow> fst x \<le> fst z \<Longrightarrow> fst z + snd z \<le> fst x + snd x \<Longrightarrow> apart z y"
  by (auto simp: apart_def)

lemma blocks_okD:
  assumes "blocks_ok lo hi C N" "n \<in> N"
  shows "inside lo hi (block C n)" "n' \<in> N \<Longrightarrow> n \<noteq> n' \<Longrightarrow> apart (block C n) (block C n')"
  using assms unfolding blocks_ok_def by blast+

lemma block_kept: "kept N X D C D' C' \<Longrightarrow> n \<in> D \<Longrightarrow> n \<notin> X \<Longrightarrow> block C' n = block C n"
  by (simp add: kept_def block_def)

lemma blocks_ok_subset:
  assumes "blocks_ok lo hi C N" "N' \<subseteq> N" "\<And>n. n \<in> N' \<Longrightarrow> block C' n = block C n" "hi \<le> hi'"
  shows "blocks_ok lo hi' C' N'"
  using assms unfolding blocks_ok_def inside_def by (smt (verit, best) order_trans subset_eq)

lemma blocks_ok_insert:
  assumes ok: "blocks_ok lo hi C N" and C': "\<And>n. n \<in> N \<Longrightarrow> block C' n = block C n" and hi: "hi \<le> hi'"
    and x: "block C' x = B" "inside lo hi' B" "\<And>n. n \<in> N \<Longrightarrow> apart (block C n) B" "x \<notin> N"
  shows "blocks_ok lo hi' C' (insert x N)"
proof -
  have "inside lo hi' (block C' n)" if "n \<in> N" for n
    using blocks_okD(1) [OF ok that] C' [OF that] hi by (auto simp: inside_def)
  moreover have "apart (block C' n) (block C' n')" if "n \<in> N" "n' \<in> N" "n \<noteq> n'" for n n'
    using blocks_okD(2) [OF ok that(1)] C' that by simp
  moreover have "apart (block C' n) (block C' x)" "apart (block C' x) (block C' n)" if "n \<in> N" for n
    using C' [OF that] x(1) x(3) [OF that] apart_commute by simp_all
  ultimately show ?thesis using x(1,2) unfolding blocks_ok_def by auto
qed

lemma malloc_okD:
  assumes "malloc_ok L m D E C P us fs"
  shows "heap_lists m D C (malloc_list P) us (malloc_free_list P) fs"
    "blocks_ok (unat (heap_bottom P)) (unat (heap_top P)) C (set us \<union> set fs)"
    "pages_ok L (unat (heap_bottom P)) (unat (heap_top P)) (E (pagetable P)) C (set us)"
    "0 < unat (heap_bottom P)" "unat (heap_bottom P) \<le> unat (heap_top P)" "unat (heap_top P) \<le> L" "4096 dvd L" "L \<le> 2 ^ 38"
  using assms unfolding malloc_ok_def by (simp_all add: word_le_nat_alt)

lemma pages_okD:
  assumes "pages_ok L lo hi e C N"
  shows "n \<in> N \<Longrightarrow> j \<in> pages (block C n) \<Longrightarrow> live (e (pg j))"
    "lo div 4096 \<le> j \<Longrightarrow> 4096 * j < L \<Longrightarrow> e (pg j) = 0 \<or> live (e (pg j))" "hi \<le> 4096 * j \<Longrightarrow> 4096 * j < L \<Longrightarrow> e (pg j) = 0"
  using assms unfolding pages_ok_def by blast+

text \<open>The pages after a new block was mapped.\<close>

lemma pages_ok_ext:
  assumes ok: "pages_ok L lo hi (E pt) C N" and x: "ext pt (pages B) k D xs E C0 D' ys E' C1" and C': "\<And>n. n \<in> N \<Longrightarrow> block C' n = block C n"
    and n: "block C' n = B" and hi: "hi \<le> hi'" "inside lo hi' B" "L \<le> 2 ^ 38"
  shows "pages_ok L lo hi' (E' pt) C' (insert n N)"
proof -
  have same: "E' pt (pg j) = E pt (pg j)" if "j \<notin> pages B" "4096 * j < L" for j
    using that hi(3) by (intro ext_entry [OF x]) simp_all
  have live: "live (E' pt (pg j))" if "live (E pt (pg j))" for j
    using extD(7) [OF x pg_aligned that] that by simp
  have "E' pt (pg j) = 0 \<or> live (E' pt (pg j))" if "lo div 4096 \<le> j" "4096 * j < L" for j
    using pages_okD(2) [OF ok that] same [of j] extD(6) [OF x, of j] that by (cases "j \<in> pages B") auto
  moreover have "E' pt (pg j) = 0" if "hi' \<le> 4096 * j" "4096 * j < L" for j
  proof -
    have "j \<notin> pages B" using that(1) hi(2) unfolding pages_def inside_def by auto
    then show ?thesis using same that pages_okD(3) [OF ok, of j] hi(1) by simp
  qed
  moreover have "live (E' pt (pg j))" if "n' \<in> insert n N" "j \<in> pages (block C' n')" for n' j
  proof (cases "n' = n")
    case True
    then show ?thesis using that extD(6) [OF x] n by simp
  next
    case False
    then show ?thesis using that C' pages_okD(1) [OF ok, of n' j] live by simp
  qed
  ultimately show ?thesis unfolding pages_ok_def by blast
qed

section \<open>Taking nodes\<close>

text \<open>A node outside both lists, taken from the list of freed blocks or from the free pages.\<close>

definition taken :: "u64 set \<Rightarrow> (u64 \<Rightarrow> u64 \<Rightarrow> u64) \<Rightarrow> 'z kernel_state_scheme \<Rightarrow> nat \<Rightarrow> process \<Rightarrow> u64 set \<Rightarrow> u64 list \<Rightarrow> contents \<Rightarrow> u64 list \<Rightarrow>
    u64 list \<Rightarrow> u64 \<Rightarrow> 'z kernel_state_scheme \<Rightarrow> bool" where
  "taken R E s0 p P D xs C us fs n t \<longleftrightarrow> (\<exists>D' ys C' fs' b. heap_state R D' ys E C' s0 p (P\<lparr>malloc_free_list := b\<rparr>) t \<and>
     heap_lists (managed s0) D' C' (malloc_list P) us b fs' \<and> set fs' \<subseteq> set fs \<and> n \<in> D' \<and> n \<noteq> 0 \<and> managed s0 n \<and> n \<notin> set us \<and> n \<notin> set fs' \<and>
     (n \<in> D \<longrightarrow> n \<in> set fs) \<and> kept (set fs) {} D C D' C' \<and> length xs \<le> length ys + 1)"

lemma takenI:
  assumes "heap_state R D' ys E C' s0 p (P\<lparr>malloc_free_list := b\<rparr>) t" "heap_lists (managed s0) D' C' (malloc_list P) us b fs'" "set fs' \<subseteq> set fs"
    "n \<in> D'" "n \<noteq> 0" "managed s0 n" "n \<notin> set us" "n \<notin> set fs'" "n \<in> D \<Longrightarrow> n \<in> set fs" "kept (set fs) {} D C D' C'" "length xs \<le> length ys + 1"
  shows "taken R E s0 p P D xs C us fs n t"
  unfolding taken_def by (intro exI conjI) (assumption | rule assms impI)+

lemma takenE:
  assumes "taken R E s0 p P D xs C us fs n t"
  obtains D' ys C' fs' b where "heap_state R D' ys E C' s0 p (P\<lparr>malloc_free_list := b\<rparr>) t"
    "heap_lists (managed s0) D' C' (malloc_list P) us b fs'" "set fs' \<subseteq> set fs" "n \<in> D'" "n \<noteq> 0" "managed s0 n" "n \<notin> set us" "n \<notin> set fs'"
    "n \<in> D \<Longrightarrow> n \<in> set fs" "kept (set fs) {} D C D' C'" "length xs \<le> length ys + 1"
  using assms unfolding taken_def by blast

lemma upd_head [simp]: "P\<lparr>malloc_free_list := malloc_free_list P\<rparr> = P" "P\<lparr>malloc_list := malloc_list P\<rparr> = P"
  by simp_all

lemma pop_taken:
  assumes hs: "heap_state R D xs E C s0 p P s" and hl: "heap_lists (managed s0) D C (malloc_list P) us (malloc_free_list P) fs"
    and h: "malloc_free_list P = h" "h \<noteq> 0"
  shows "runs (pop_free p h) s (\<lambda>_. taken R E s0 p P D xs C us fs h)"
proof -
  note l = heap_listsD [OF hl]
  obtain gs where fs: "fs = h # gs" using l(2) h by (cases fs) auto
  note t = heap_lists_take [of "managed s0" D C "malloc_list P" us "malloc_free_list P" "[]" h gs]
  have hl': "heap_lists (managed s0) D (unlinked h C) (malloc_list P) us (C h M_next) gs" using t(1) hl fs by simp
  have pv: "C h M_prev = 0" and nx: "C h M_next = 0 \<or> C h M_next \<in> D" using t(3,4) hl fs l(7) by auto
  have hD: "h \<in> D" using l(7) fs by simp
  have f: "kept (set fs) {} D C D (unlinked h C)"
    using kept_take [of "managed s0" D C "malloc_list P" us "malloc_free_list P" "[]" h gs] hl fs by simp
  show ?thesis
  proof (rule kwp_mono [OF pop_free_runs [OF hs hD h(2) nx pv]])
    fix x t assume "heap_state R D xs E (unlinked h C) s0 p (P\<lparr>malloc_free_list := C h M_next\<rparr>) t"
    then show "taken R E s0 p P D xs C us fs h t"
      unfolding taken_def using hl' hD h(2) l(4,5,8) fs f by (intro exI conjI) auto
  qed simp
qed

lemma alloc_taken:
  assumes hs: "heap_state R D xs E C s0 p P s" and hl: "heap_lists (managed s0) D C (malloc_list P) us (malloc_free_list P) fs" and len: "1 \<le> length xs"
  shows "runs alloc_page s (taken R E s0 p P D xs C us fs)"
proof -
  obtain x ys where xs: "xs = x # ys" using len by (cases xs) auto
  note a = alloc_page_runs [OF hs [unfolded xs]]
  note l = heap_listsD [OF hl]
  obtain c where c: "heap_state R (insert x D) ys E (C(x := c)) s0 p P (alloc_state x s)" using a(2) by blast
  have x: "x \<notin> set us" "x \<notin> set fs" using a(4) l(6,7) by auto
  have "heap_lists (managed s0) (insert x D) (C(x := c)) (malloc_list P) us (malloc_free_list P) fs"
    using x by (intro heap_lists_cong [OF hl]) auto
  moreover have "kept (set fs) {} D C (insert x D) (C(x := c))" using a(4) by (auto simp: kept_def)
  ultimately have "taken R E s0 p P D xs C us fs x (alloc_state x s)"
    unfolding taken_def using c a(3-5) x xs
    by (intro exI [of _ "insert x D"] exI [of _ ys] exI [of _ "C(x := c)"] exI [of _ fs] exI [of _ "malloc_free_list P"]) simp
  then show ?thesis using a(1) by simp
qed

lemma taken_set:
  assumes t: "taken R E s0 p P D xs C us fs n t" and i: "i = M_next \<or> i = M_prev"
  shows "runs (node_set n i v) t (\<lambda>_. taken R E s0 p P D xs C us fs n)"
proof -
  obtain D' ys C' fs' b where x: "heap_state R D' ys E C' s0 p (P\<lparr>malloc_free_list := b\<rparr>) t"
    "heap_lists (managed s0) D' C' (malloc_list P) us b fs'" "set fs' \<subseteq> set fs" "n \<in> D'" "n \<noteq> 0" "managed s0 n" "n \<notin> set us" "n \<notin> set fs'"
    "n \<in> D \<Longrightarrow> n \<in> set fs" "kept (set fs) {} D C D' C'" "length xs \<le> length ys + 1"
    using takenE [OF t] by metis
  let ?C = "C'(n := (C' n)(i := v))"
  have hl: "heap_lists (managed s0) D' ?C (malloc_list P) us b fs'" using x(7,8) by (intro heap_lists_cong [OF x(2)]) auto
  have "kept {n} {} D' C' D' ?C" using i by (auto simp: kept_def)
  then have f: "kept (set fs) {} D C D' ?C" using x(9) by (intro kept_trans [OF x(10)]) auto
  show ?thesis
    by (rule kwp_mono [OF node_set_runs [OF x(1,4,5)]]) (auto intro: takenI [OF _ hl x(3-9) f x(11)])
qed

lemma find_free_runs:
  assumes hs: "heap_state R D xs E C s0 p P s" and hl: "heap_lists (managed s0) D C a us b fs"
  shows "kwp (find_node chain_bound T b) Q F s = Q (case find (\<lambda>n. T (C n)) fs of None \<Rightarrow> 0 | Some n \<Rightarrow> n) s"
proof -
  note l = heap_listsD [OF hl]
  have "pmm_bounds s" using spaceD(1) [OF heap_stateD(1) [OF hs]] by (auto simp: vm_inv_def pmm_inv_def)
  moreover have "\<forall>n\<in>set fs. managed s n" using l(8) heap_stateD(4) [OF hs] by simp
  ultimately have "length fs \<le> PMM_MAX_PAGES" using l(4) by (intro distinct_pages_bound [of s]) auto
  then show ?thesis using find_node_runs [OF hs l(2,7), of chain_bound T Q F] by (simp add: chain_bound_def)
qed

section \<open>Reusing a freed block\<close>

text \<open>After the rest of the block of \<open>n\<close> behind its first \<open>sz\<close> bytes has become a freed block of its own.\<close>

definition split_off :: "u64 set \<Rightarrow> (u64 \<Rightarrow> u64 \<Rightarrow> u64) \<Rightarrow> 'z kernel_state_scheme \<Rightarrow> nat \<Rightarrow> process \<Rightarrow> u64 set \<Rightarrow> contents \<Rightarrow> u64 list \<Rightarrow>
    u64 list \<Rightarrow> nat \<Rightarrow> nat \<Rightarrow> u64 \<Rightarrow> nat \<Rightarrow> 'z kernel_state_scheme \<Rightarrow> bool" where
  "split_off R E s0 p P D C us fs lo hi n sz t \<longleftrightarrow> (\<exists>D' ys C' b fs'. heap_state R D' ys E C' s0 p (P\<lparr>malloc_free_list := b\<rparr>) t \<and>
     heap_lists (managed s0) D' C' (malloc_list P) us b fs' \<and> n \<notin> set fs' \<and> blocks_ok lo hi C' (set us \<union> set fs') \<and>
     (\<forall>m\<in>set us \<union> set fs'. apart (block C' m) (fst (block C n), sz)) \<and> kept (set fs) (set fs) D C D' C' \<and> n \<in> D' \<and>
     (\<forall>q\<in>set fs'. q \<in> D \<longrightarrow> q \<in> set fs))"

lemma taken_split:
  assumes t: "taken R E s0 p P D xs C us fs n' t" and bk: "blocks_ok lo hi C (insert n (set us \<union> set fs))" "hi < 2 ^ 64"
    and hl: "heap_lists (managed s0) D C (malloc_list P) us (malloc_free_list P) fs"
    and n: "n \<in> D" "n \<notin> set us" "n \<notin> set fs" and sz: "0 < unat sz" "sz < C n M_size"
  shows "runs (add_block p malloc_free_list malloc_free_list_update n' (C n M_va + sz) (C n M_size - sz)) t
    (\<lambda>_. split_off R E s0 p P D C us fs lo hi n (unat sz))"
proof -
  obtain D' ys C' fs' b where x: "heap_state R D' ys E C' s0 p (P\<lparr>malloc_free_list := b\<rparr>) t"
    "heap_lists (managed s0) D' C' (malloc_list P) us b fs'" "set fs' \<subseteq> set fs" "n' \<in> D'" "n' \<noteq> 0" "managed s0 n'" "n' \<notin> set us" "n' \<notin> set fs'"
    "n' \<in> D \<Longrightarrow> n' \<in> set fs" "kept (set fs) {} D C D' C'" "length xs \<le> length ys + 1"
    using takenE [OF t] by metis
  note l = heap_listsD [OF hl] and l' = heap_listsD [OF x(2)]
  let ?v = "unat (C n M_va)" and ?r = "unat (C n M_size)" and ?N = "set us \<union> set fs'"
  let ?C = "with_block n' (C n M_va + sz) (C n M_size - sz) b C'" and ?B = "(?v + unat sz, ?r - unat sz)"
  have bn: "block C n = (?v, ?r)" by (simp add: block_def)
  have ins: "inside lo hi (?v, ?r)" using blocks_okD(1) [OF bk(1), of n] bn by simp
  have lt: "unat sz < ?r" using sz(2) by (simp add: word_less_nat_alt)
  have "unat (C n M_va + sz) = ?v + unat sz" using ins lt bk(2) by (intro unat_add_lem [THEN iffD1]) (simp add: inside_def)
  moreover have "unat (C n M_size - sz) = ?r - unat sz" using sz(2) by (simp add: unat_sub order_less_imp_le)
  ultimately have B: "block ?C n' = ?B" by (simp add: block_with_block)
  have mem: "m \<in> D" "m \<noteq> n" "block C' m = block C m" "m \<in> insert n (set us \<union> set fs)" if "m \<in> ?N" for m
    using that x(3) l(6,7) n block_kept [OF x(10), of m] by auto
  have keep: "block ?C m = block C m" if "m \<in> ?N" for m
    using mem(3) [OF that] that x(7,8) block_with_block(2) by (metis Un_iff)
  have ap: "apart (block C m) (?v, ?r)" if "m \<in> ?N" for m
    using blocks_okD(2) [OF bk(1) mem(4) [OF that], of n] mem(2) [OF that] bn by simp
  have parts: "apart (block C m) ?B" "apart (block C m) (?v, unat sz)" if "m \<in> ?N" for m
    using ap [OF that] lt by (auto simp: apart_def)
  have ok: "blocks_ok lo hi ?C (insert n' ?N)"
  proof (rule blocks_ok_insert)
    show "blocks_ok lo hi C ?N" by (rule blocks_ok_subset [OF bk(1)]) (use x(3) in auto)
    show "inside lo hi ?B" using ins lt by (simp add: inside_def)
  qed (use keep B parts(1) x(7,8) in auto)
  have nn: "n \<noteq> n'" using x(9) n by auto
  have "kept (insert n' (set fs')) {n'} D' C' D' ?C" using l'(12) by (intro kept_add) auto
  then have "kept (set fs) (set fs) D C D' ?C"
    by (rule kept_trans [rotated]) (use x(3,9,10) in \<open>auto simp: kept_def\<close>)
  moreover have "heap_lists (managed s0) D' ?C (malloc_list P) us n' (n' # fs')"
    using heap_lists_add [OF x(2) [THEN heap_lists_swap [THEN iffD1]] x(4-6,8,7)] heap_lists_swap by blast
  moreover have "apart (block ?C n') (?v, unat sz)" unfolding B by (simp add: apart_def)
  ultimately have "split_off R E s0 p P D C us fs lo hi n (unat sz) u"
    if "heap_state R D' ys E ?C s0 p (P\<lparr>malloc_free_list := n'\<rparr>) u" for u
    unfolding split_off_def using that ok keep parts(2) bn nn n keptD(1) [OF x(10)] x(3,9)
    by (intro exI [of _ D'] exI [of _ ys] exI [of _ ?C] exI [of _ n'] exI [of _ "n' # fs'"]) (auto simp: Un_insert_right)
  then show ?thesis
    using l'(7,12) x(4,5) by (intro kwp_mono [OF add_block_runs [OF x(1)]]) (auto)
qed

lemma remainder_runs:
  assumes hs: "heap_state R D xs E C s0 p P s" and bk: "blocks_ok lo hi C (insert n (set us \<union> set fs))" "hi < 2 ^ 64"
    and hl: "heap_lists (managed s0) D C (malloc_list P) us (malloc_free_list P) fs"
    and n: "n \<in> D" "n \<notin> set us" "n \<notin> set fs" and sz: "0 < unat sz" "sz \<le> C n M_size" and len: "1 \<le> length xs"
  shows "runs (if sz < C n M_size
      then kbind (list_head p malloc_free_list) (\<lambda>h.
        kbind (if h \<noteq> 0 then kthen (pop_free p h) (kreturn h) else alloc_page) (\<lambda>rem.
        if rem = 0 then kthen (link_front p malloc_free_list malloc_free_list_update n) (kreturn False)
        else kthen (add_block p malloc_free_list malloc_free_list_update rem (C n M_va + sz) (C n M_size - sz)) (kreturn True)))
      else kreturn True) s (\<lambda>ok t. ok \<and> split_off R E s0 p P D C us fs lo hi n (unat sz) t)"
proof (cases "sz < C n M_size")
  case True
  let ?h = "malloc_free_list P"
  have take: "runs (if ?h \<noteq> 0 then kthen (pop_free p ?h) (kreturn ?h) else alloc_page) s (taken R E s0 p P D xs C us fs)"
    using pop_taken [OF hs hl refl] alloc_taken [OF hs hl len] by (simp add: kwp_then kwp_return)
  have rest: "runs (if m = 0 then f else kthen (add_block p malloc_free_list malloc_free_list_update m (C n M_va + sz) (C n M_size - sz))
      (kreturn True)) t (\<lambda>ok t. ok \<and> split_off R E s0 p P D C us fs lo hi n (unat sz) t)"
    if "taken R E s0 p P D xs C us fs m t" for m t f
    using taken_split [OF that bk hl n sz(1) True] that by (auto simp: kwp_then kwp_return elim!: takenE)
  show ?thesis using True by (simp only: if_True kwp_bind list_head_runs [OF hs]) (rule kwp_mono [OF take], erule rest)
next
  case False
  then have r: "unat (C n M_size) = unat sz" using sz(2) by (simp add: not_less)
  have "apart (block C m) (fst (block C n), unat sz)" if "m \<in> set us \<union> set fs" for m
    using blocks_okD(2) [OF bk(1), of m n] that n(2,3) r by (auto simp: block_def)
  moreover have "blocks_ok lo hi C (set us \<union> set fs)" by (rule blocks_ok_subset [OF bk(1)]) auto
  moreover have "kept (set fs) (set fs) D C D C" by (simp add: kept_def)
  ultimately have "split_off R E s0 p P D C us fs lo hi n (unat sz) s"
    unfolding split_off_def using hs hl n
    by (intro exI [of _ D] exI [of _ xs] exI [of _ C] exI [of _ "malloc_free_list P"] exI [of _ fs]) simp
  then show ?thesis using False by (simp add: kwp_return)
qed

text \<open>
  The state in which an allocation of \<open>sz\<close> bytes at \<open>r\<close> leaves the heap that had the blocks \<open>us\<close> in use.
\<close>

definition malloc_done :: "u64 set \<Rightarrow> nat \<Rightarrow> u64 set \<Rightarrow> (u64 \<Rightarrow> u64 \<Rightarrow> u64) \<Rightarrow> contents \<Rightarrow> 'z kernel_state_scheme \<Rightarrow> nat \<Rightarrow> process \<Rightarrow> u64 list \<Rightarrow> u64 list \<Rightarrow>
    u64 \<Rightarrow> u64 \<Rightarrow> 'z kernel_state_scheme \<Rightarrow> bool" where
  "malloc_done R L D E C s0 p P us fs sz r t \<longleftrightarrow> (\<exists>D' ys E' C' a b tp n fs'.
     heap_state R D' ys E' C' s0 p (P\<lparr>malloc_free_list := b, heap_top := tp, malloc_list := a\<rparr>) t \<and>
     malloc_ok L (managed s0) D' E' C' (P\<lparr>malloc_free_list := b, heap_top := tp, malloc_list := a\<rparr>) (n # us) fs' \<and> block C' n = (unat r, unat sz) \<and>
     (\<forall>m\<in>set us. block C' m = block C m) \<and> D \<subseteq> D' \<and> (\<forall>d\<in>D. d \<notin> set us \<longrightarrow> d \<notin> set fs \<longrightarrow> C' d = C d) \<and>
     (\<forall>pd. pd \<noteq> pagetable P \<longrightarrow> E' pd = E pd) \<and>
     (\<forall>a. page_aligned a \<longrightarrow> live (E (pagetable P) a) \<longrightarrow> E' (pagetable P) a = E (pagetable P) a) \<and>
     fresh_frames (pagetable P) D E D' E' \<and> (\<forall>a\<in>newly (pagetable P) E E'. PTE2PA (E' (pagetable P) a) \<notin> set (n # us) \<union> set fs') \<and>
     (\<forall>q\<in>set (n # us) \<union> set fs'. q \<in> D \<longrightarrow> q \<in> set us \<union> set fs))"

text \<open>The node taken out becomes the first block in use.\<close>

lemma use_block_runs:
  assumes hs: "heap_state R D' ys E' C' s0 p (P\<lparr>malloc_free_list := b, heap_top := tp\<rparr>) t"
    and hl: "heap_lists (managed s0) D' C' (malloc_list P) us b fs'"
    and n: "n \<in> D'" "n \<noteq> 0" "managed s0 n" "n \<notin> set us" "n \<notin> set fs'" "n \<in> D \<Longrightarrow> n \<in> set fs"
    and ok: "malloc_ok L m0 D E C P us fs" and bk: "blocks_ok (unat (heap_bottom P)) (unat tp) C' (set us \<union> set fs')"
    and B: "inside (unat (heap_bottom P)) (unat tp) (unat va, unat sz)" "\<And>m. m \<in> set us \<union> set fs' \<Longrightarrow> apart (block C' m) (unat va, unat sz)"
    and fr: "kept (set us \<union> set fs) (set fs) D C D' C'"
    and x: "ext (pagetable P) (pages (unat va, unat sz)) k D1 xs E C1 D2 zs E' C2" "D \<subseteq> D1" "D2 \<subseteq> D'"
    and new: "\<And>a. a \<in> newly (pagetable P) E E' \<Longrightarrow> PTE2PA (E' (pagetable P) a) \<notin> insert n (set us \<union> set fs')" "\<And>q. q \<in> set fs' \<Longrightarrow> q \<in> D \<Longrightarrow> q \<in> set fs"
    and tp: "heap_top P \<le> tp" "unat tp \<le> L"
  shows "runs (kthen (add_block p malloc_list malloc_list_update n va sz) (kreturn va)) t (malloc_done R L D E C s0 p P us fs sz)"
proof -
  let ?C = "with_block n va sz (malloc_list P) C'" and ?P = "P\<lparr>malloc_free_list := b, heap_top := tp, malloc_list := n\<rparr>"
  note l = heap_listsD [OF hl] and o = malloc_okD [OF ok]
  note l0 = heap_listsD [OF o(1)]
  have keep: "block ?C m = block C' m" if "m \<in> set us \<union> set fs'" for m using that n(4,5) block_with_block(2) by (metis Un_iff)
  have us: "block C' m = block C m" if "m \<in> set us" for m using that l0(5,6) by (intro block_kept [OF fr]) auto
  have hl': "heap_lists (managed s0) D' ?C n (n # us) b fs'" by (rule heap_lists_add [OF hl n(1-5)])
  have bk': "blocks_ok (unat (heap_bottom P)) (unat tp) ?C (insert n (set us \<union> set fs'))"
    by (rule blocks_ok_insert [OF bk]) (use keep B n(4,5) in \<open>auto simp: block_with_block\<close>)
  have pk: "pages_ok L (unat (heap_bottom P)) (unat tp) (E' (pagetable P)) ?C (insert n (set us))"
    by (rule pages_ok_ext [OF o(3) x(1)]) (use keep us B(1) tp(1) o(8) in \<open>auto simp: block_with_block word_le_nat_alt\<close>)
  have hk: "malloc_ok L (managed s0) D' E' ?C ?P (n # us) fs'"
    unfolding malloc_ok_def using hl' bk' pk o tp by (auto simp: word_le_nat_alt)
  have "kept (insert n (set us)) {n} D' C' D' ?C" using l(11) by (intro kept_add) auto
  then have "kept (set us \<union> set fs) (set fs) D C D' ?C" by (rule kept_trans [OF fr]) (use n(6) in auto)
  note f = keptD(1,2) [OF this]
  have ff: "fresh_frames (pagetable P) D E D' E'" using extD(8) [OF x(1)] x(2,3) by (auto simp: fresh_frames_def)
  have "malloc_done R L D E C s0 p P us fs sz va u" if "heap_state R D' ys E' ?C s0 p ?P u" for u
    unfolding malloc_done_def using that hk keep us f extD(4,7) [OF x(1)] ff new n(6)
    by (intro exI [of _ D'] exI [of _ ys] exI [of _ E'] exI [of _ ?C] exI [of _ n] exI [of _ b] exI [of _ tp] exI [of _ n] exI [of _ fs'])
      (auto simp: block_with_block)
  then show ?thesis
    unfolding kwp_then kwp_return using l(6,11) n(1,2)
    by (intro kwp_mono [OF add_block_runs [OF hs, where h = "malloc_list P"]]) auto
qed

text \<open>The block found is taken out of the list of freed blocks, and its links are cleared.\<close>

lemma detach_runs:
  assumes hs: "heap_state R D xs E C s0 p P s" and hl: "heap_lists (managed s0) D C (malloc_list P) us (malloc_free_list P) (as @ n # bs)"
    and rest: "\<And>t C' b. heap_state R D xs E C' s0 p (P\<lparr>malloc_free_list := b\<rparr>) t \<Longrightarrow>
      heap_lists (managed s0) D C' (malloc_list P) us b (as @ bs) \<Longrightarrow> kept (set (as @ n # bs)) {} D C D C' \<Longrightarrow> runs m t Q"
  shows "runs (kthen (unlink_node p malloc_free_list_update n) (kthen (node_set n M_next 0) (kthen (node_set n M_prev 0) m))) s Q"
proof -
  note l = heap_listsD [OF hl] and t = heap_lists_take [OF hl]
  have n: "n \<in> D" "n \<noteq> 0" "n \<notin> set us" "n \<notin> set (as @ bs)" using l(4,5,7,10) by auto
  let ?b = "if as = [] then C n M_next else malloc_free_list P" and ?C1 = "unlinked n C"
  have nb: "C n M_prev = 0 \<or> C n M_prev \<in> D" "C n M_next = 0 \<or> C n M_next \<in> D" using t(2,3) l(7) by auto
  have "(if C n M_prev = 0 then P\<lparr>malloc_free_list := C n M_next\<rparr> else P) = P\<lparr>malloc_free_list := ?b\<rparr>" using t(4) by simp
  note u = unlink_node_runs [OF hs n(1,2) nb, of malloc_free_list_update, unfolded this]
  let ?C2 = "?C1(n := (?C1 n)(M_next := 0))"
  let ?C3 = "?C2(n := (?C2 n)(M_prev := 0))"
  have "heap_lists (managed s0) D ?C3 (malloc_list P) us ?b (as @ bs)" using n(3,4) by (intro heap_lists_cong [OF t(1)]) auto
  moreover have "kept {n} {} D ?C1 D ?C3" by (auto simp: kept_def)
  then have "kept (set (as @ n # bs)) {} D C D ?C3" by (rule kept_trans [OF kept_take [OF hl]]) auto
  ultimately show ?thesis
    by (intro runs_then [OF u] runs_then [OF node_set_runs [OF _ n(1,2)]] rest) (assumption | simp)+
qed

lemma block_pages_fit:
  assumes "inside lo hi B" "hi \<le> L" "4096 dvd L" "j \<in> pages B"
  shows "lo div 4096 \<le> j" "4096 * j < L" "4096 * ((fst B + snd B + 4095) div 4096) \<le> L"
proof -
  obtain q where L: "L = 4096 * q" using assms(3) by blast
  have B: "0 < snd B" "lo \<le> fst B" "fst B + snd B \<le> 4096 * q" using assms(1,2) L by (simp_all add: inside_def)
  show "lo div 4096 \<le> j" using assms(4) div_le_mono [OF B(2), of 4096] by (simp add: pages_def)
  have "(fst B + snd B + 4095) div 4096 \<le> (4096 * q + 4095) div 4096" using B(3) by (intro div_le_mono) simp
  then show e: "4096 * ((fst B + snd B + 4095) div 4096) \<le> L" unfolding L by simp
  show "4096 * j < L" using assms(4) e by (simp add: pages_def)
qed

lemma block_pages_card: "(v + s + 4095) div 4096 - v div 4096 \<le> s div 4096 + 2" for v s :: nat
  by linarith

lemma reuse_tail_runs:
  assumes hs: "heap_state R D1 ys E1 C1 s0 p (P\<lparr>malloc_free_list := b\<rparr>) t" and ok: "malloc_ok L (managed s0) D E C P us (as @ n # bs)"
    and hl: "heap_lists (managed s0) D1 C1 (malloc_list P) us b (as @ bs)" and fr: "kept (set (as @ n # bs)) {} D C D1 C1"
    and x: "ext (pagetable P) (pages (unat (C n M_va), unat sz)) k D xs E C0 D1 ys E1 C1"
    and sz: "0 < unat sz" "sz \<le> C n M_size" and len: "1 \<le> length ys"
  shows "runs (kbind (node_get n M_size) (\<lambda>rsize. kbind (if sz < rsize
          then kbind (list_head p malloc_free_list) (\<lambda>h.
            kbind (if h \<noteq> 0 then kthen (pop_free p h) (kreturn h) else alloc_page) (\<lambda>rem.
            if rem = 0 then kthen (link_front p malloc_free_list malloc_free_list_update n) (kreturn False)
            else kthen (add_block p malloc_free_list malloc_free_list_update rem (C n M_va + sz) (rsize - sz)) (kreturn True)))
          else kreturn True) (\<lambda>ok. if \<not> ok then kreturn 0
            else kthen (add_block p malloc_list malloc_list_update n (C n M_va) sz) (kreturn (C n M_va))))) t
    (malloc_done R L D E C s0 p P us (as @ n # bs) sz)"
proof -
  let ?fs = "as @ n # bs" and ?lo = "unat (heap_bottom P)" and ?hi = "unat (heap_top P)" and ?P = "P\<lparr>malloc_free_list := b\<rparr>"
  note o = malloc_okD [OF ok]
  note l = heap_listsD [OF o(1)]
  have n: "n \<in> D" "n \<noteq> 0" "n \<notin> set us" "n \<notin> set (as @ bs)" using l(4,5,7,10) by auto
  have n1: "n \<in> D1" "C1 n M_va = C n M_va" "C1 n M_size = C n M_size" using keptD [OF fr] n(1) by auto
  have bl: "block C1 m = block C m" if "m \<in> D" for m using block_kept [OF fr that] by simp
  have "inside ?lo ?hi (block C n)" using blocks_okD(1) [OF o(2), of n] by simp
  then have ins: "inside ?lo ?hi (unat (C n M_va), unat sz)" using sz by (auto simp: inside_def block_def word_le_nat_alt)
  have bk: "blocks_ok ?lo ?hi C1 (insert n (set us \<union> set (as @ bs)))" using l(6,7) bl by (intro blocks_ok_subset [OF o(2)]) auto
  note rem = remainder_runs [OF hs bk _ _ n1(1) n(3,4) sz(1), unfolded n1(2,3)]
  show ?thesis
    unfolding kwp_bind [of "node_get n M_size"] node_get_runs [OF hs n1(1) n(2)] n1(3)
  proof (rule runs_bind [OF rem], goal_cases)
    case (5 ok1 u)
    then obtain D2 zs C2 b2 fs2 where u: "ok1" "heap_state R D2 zs E1 C2 s0 p (P\<lparr>malloc_free_list := b2, heap_top := heap_top P\<rparr>) u"
      "heap_lists (managed s0) D2 C2 (malloc_list P) us b2 fs2" "n \<notin> set fs2" "blocks_ok ?lo ?hi C2 (set us \<union> set fs2)"
      "\<And>m. m \<in> set us \<union> set fs2 \<Longrightarrow> apart (block C2 m) (unat (C n M_va), unat sz)" "kept (set (as @ bs)) (set (as @ bs)) D1 C1 D2 C2" "n \<in> D2"
      "\<And>q. q \<in> set fs2 \<Longrightarrow> q \<in> D1 \<Longrightarrow> q \<in> set (as @ bs)"
      using n1(2) unfolding split_off_def by (auto simp: block_def)
    have fr2: "kept (set us \<union> set ?fs) (set ?fs) D C D2 C2" by (rule kept_trans [OF _ u(7)]) (use fr in \<open>auto simp: kept_def\<close>)
    have "PTE2PA (E1 (pagetable P) d) \<notin> insert n (set us \<union> set fs2)" if "d \<in> newly (pagetable P) E E1" for d
    proof -
      have "PTE2PA (E1 (pagetable P) d) \<in> D1 - D" using extD(8) [OF x] that by (simp add: fresh_frames_def)
      then show ?thesis using n(1) l(6,7) u(9) by auto
    qed
    moreover have "q \<in> set ?fs" if "q \<in> set fs2" "q \<in> D" for q using u(9) [OF that(1)] that(2) keptD(1) [OF fr] by auto
    moreover have "managed s0 n" using l(8) by simp
    ultimately show ?case
      using use_block_runs [OF u(2,3,8) n(2) _ n(3) u(4) _ ok u(5) ins u(6) fr2 x order_refl keptD(1) [OF u(7)]] u(1) o(6) by simp
  qed (use hl sz(2) len unat_bound64 [of "heap_top P"] in simp_all)
qed

lemma reuse_block_runs:
  assumes hs: "heap_state R D xs E C s0 p P s" and ok: "malloc_ok L (managed s0) D E C P us (as @ n # bs)" and pt: "pagetable P \<in> R"
    and sz: "0 < unat sz" "sz \<le> C n M_size" and len: "3 * (unat sz div 4096 + 2) + 1 \<le> length xs"
  shows "runs (reuse_block p (pagetable P) n sz) s (malloc_done R L D E C s0 p P us (as @ n # bs) sz)"
proof -
  let ?fs = "as @ n # bs" and ?pt = "pagetable P" and ?lo = "unat (heap_bottom P)" and ?hi = "unat (heap_top P)" and ?va = "C n M_va"
  note o = malloc_okD [OF ok]
  note l = heap_listsD [OF o(1)]
  have n: "n \<in> D" "n \<noteq> 0" using l(7,10) by auto
  let ?B = "(unat ?va, unat sz)" and ?a = "unat ?va div 4096" and ?b = "(unat ?va + unat sz + 4095) div 4096"
  have "inside ?lo ?hi (block C n)" using blocks_okD(1) [OF o(2), of n] by simp
  then have ins: "inside ?lo ?hi ?B" using sz by (auto simp: inside_def block_def word_le_nat_alt)
  have pB: "pages ?B = {?a..<?b}" by (simp add: pages_def)
  have "?a < ?b" using sz(1) by linarith
  then have fits: "4096 * ?b \<le> unat MAXVA" using block_pages_fit(3) [OF ins o(6,7), of ?a] o(8) pB by (simp add: unat_MAXVA)
  have e: "E ?pt (pg j) = 0 \<or> live (E ?pt (pg j))" if "?a \<le> j" "j < ?b" for j
    using block_pages_fit(1,2) [OF ins o(6,7), of j] pages_okD(2) [OF o(3)] that pB by simp
  have len': "3 * (?b - ?a) < length xs" using block_pages_card [of "unat ?va" "unat sz"] len by simp
  show ?thesis
    unfolding reuse_block_def kwp_bind [of "node_get n M_va"] node_get_runs [OF hs n]
  proof (rule detach_runs [OF hs o(1)], goal_cases)
    case (1 t C' b)
    have map: "runs (map_block ?pt ?va sz) t (\<lambda>ok t. ok \<and> mapped_to R ?pt (pages ?B) (?b - ?a) D xs E C' s0 p (P\<lparr>malloc_free_list := b\<rparr>) t)"
      unfolding pB by (rule map_block_runs [OF 1(1) pt fits]) (use e len' in auto)
    show ?case
    proof (rule runs_bind [OF map], goal_cases)
      case (1 ok1 t1)
      then obtain D1 ys E1 C1 where x: "ext ?pt (pages ?B) (?b - ?a) D xs E C' D1 ys E1 C1"
        "heap_state R D1 ys E1 C1 s0 p (P\<lparr>malloc_free_list := b\<rparr>) t1" and "ok1"
        by (auto elim: mapped_toE)
      have f1: "kept (set ?fs) {} D C D1 C1" by (rule kept_trans [OF \<open>kept (set ?fs) {} D C D C'\<close> kept_ext [OF x(1)]]) auto
      have hl1: "heap_lists (managed s0) D1 C1 (malloc_list P) us b (as @ bs)"
        using l(6,7) extD(2) [OF x(1)]
        by (intro heap_lists_cong [OF \<open>heap_lists (managed s0) D C' (malloc_list P) us b (as @ bs)\<close> extD(1) [OF x(1)]]) auto
      have "1 \<le> length ys" using extD(3) [OF x(1)] len' by linarith
      then show ?case using reuse_tail_runs [OF x(2) ok hl1 f1 x(1) sz] \<open>ok1\<close> by simp
    qed
  qed
qed

section \<open>Extending the heap\<close>

lemma extend_use_runs:
  assumes hs: "heap_state R D2 zs E2 C2 s0 p (P\<lparr>malloc_free_list := b\<rparr>) t" and ok: "malloc_ok L (managed s0) D E C P us fs"
    and hl: "heap_lists (managed s0) D2 C2 (malloc_list P) us b fs'" "set fs' \<subseteq> set fs" and fr: "kept (set fs) {} D C D2 C2"
    and n: "n \<in> D2" "n \<noteq> 0" "managed s0 n" "n \<notin> set us" "n \<notin> set fs'" "n \<in> D \<Longrightarrow> n \<in> set fs"
    and x: "ext (pagetable P) (pages (unat (heap_top P), unat sz)) k D0 xs E C0 D2 zs E2 C2" "D \<subseteq> D0" "insert n (set us \<union> set fs') \<subseteq> D0"
    and sz: "0 < unat sz" "unat (heap_top P) + unat sz \<le> L"
  shows "runs (kthen (upd_proc p (\<lambda>q. q\<lparr>heap_top := heap_top P + sz\<rparr>)) (kthen (add_block p malloc_list malloc_list_update n (heap_top P) sz) (kreturn (heap_top P)))) t
    (malloc_done R L D E C s0 p P us fs sz)"
proof (rule runs_then [OF upd_proc_runs [OF hs]])
  fix x' u assume u: "heap_state R D2 zs E2 C2 s0 p (P\<lparr>malloc_free_list := b, heap_top := heap_top P + sz\<rparr>) u"
  note o = malloc_okD [OF ok]
  note l = heap_listsD [OF o(1)]
  have tp: "unat (heap_top P + sz) = unat (heap_top P) + unat sz" using sz(2) o(8) by (intro unat_add_lem [THEN iffD1]) simp
  have bl: "block C2 m = block C m" "m \<in> set us \<union> set fs" if "m \<in> set us \<union> set fs'" for m
    using that hl(2) l(6,7) block_kept [OF fr, of m] by auto
  show "runs (kthen (add_block p malloc_list malloc_list_update n (heap_top P) sz) (kreturn (heap_top P))) u (malloc_done R L D E C s0 p P us fs sz)"
  proof (rule use_block_runs [OF u hl(1) n(1-5) _ ok _ _ _ _ x(1,2) order_refl])
    show "blocks_ok (unat (heap_bottom P)) (unat (heap_top P + sz)) C2 (set us \<union> set fs')"
      by (rule blocks_ok_subset [OF o(2)]) (use bl hl(2) tp in auto)
    show "inside (unat (heap_bottom P)) (unat (heap_top P + sz)) (unat (heap_top P), unat sz)"
      using sz(1) o(5) tp by (simp add: inside_def)
    show "apart (block C2 m) (unat (heap_top P), unat sz)" if "m \<in> set us \<union> set fs'" for m
      using blocks_okD(1) [OF o(2) bl(2) [OF that]] bl(1) [OF that] by (simp add: inside_def apart_def)
    show "kept (set us \<union> set fs) (set fs) D C D2 C2" using fr by (auto simp: kept_def)
    show "heap_top P \<le> heap_top P + sz" using tp by (simp add: word_le_nat_alt)
    show "unat (heap_top P + sz) \<le> L" using tp sz(2) by simp
    show "n \<in> set fs" if "n \<in> D" by (rule n(6) [OF that])
    show "PTE2PA (E2 (pagetable P) d) \<notin> insert n (set us \<union> set fs')" if "d \<in> newly (pagetable P) E E2" for d
      using extD(8) [OF x(1)] that x(3) by (auto simp: fresh_frames_def)
    show "q \<in> set fs" if "q \<in> set fs'" for q using hl(2) that by blast
  qed
qed

text \<open>What is left of the first page, and how many pages follow it.\<close>

lemma pages_needed:
  fixes va sz :: u64
  defines "a \<equiv> unat va div 4096" and "b \<equiv> (unat va + unat sz + 4095) div 4096" and "r \<equiv> pg (unat va div 4096) + PGSIZE - va"
  assumes fits: "unat va + unat sz \<le> 2 ^ 38" "0 < unat sz"
  shows "sz \<le> r \<Longrightarrow> b = Suc a" "\<not> sz \<le> r \<Longrightarrow> Suc a + unat ((sz - r + PGSIZE - 1) div PGSIZE) = b"
proof -
  have a: "4096 * a \<le> unat va" "unat va < 4096 * Suc a" unfolding a_def mult_Suc_right by linarith+
  have "4096 * Suc a < 2 ^ 64" using a fits by simp
  then have pa: "unat (pg (Suc a)) = 4096 * Suc a" by (rule unat_pg)
  have r: "unat r = 4096 * Suc a - unat va"
    unfolding r_def a_def [symmetric] pg_Suc by (subst unat_sub) (use pa a in \<open>simp_all add: word_le_nat_alt\<close>)
  show "b = Suc a" if "sz \<le> r"
  proof -
    have "unat va + unat sz \<le> 4096 * Suc a" using that r a by (simp add: word_le_nat_alt)
    then show ?thesis unfolding b_def using a fits(2) unfolding mult_Suc_right by linarith
  qed
  show "Suc a + unat ((sz - r + PGSIZE - 1) div PGSIZE) = b" if "\<not> sz \<le> r"
  proof -
    have le: "unat r \<le> unat sz" using that by (simp add: word_le_nat_alt)
    then have need: "unat (sz - r) = unat sz - unat r" by (intro unat_sub) (simp add: word_le_nat_alt)
    have "unat (sz - r + 4095) = unat (sz - r) + 4095" using need fits(1) by (subst unat_add_lem [THEN iffD1]) simp_all
    then have "unat ((sz - r + 4095) div PGSIZE) = (unat sz - unat r + 4095) div 4096" using need by (simp add: unat_div_distrib unat_PGSIZE)
    moreover have "sz - r + PGSIZE - 1 = sz - r + 4095" by (simp add: PGSIZE_def)
    moreover have "unat va + unat sz + 4095 = 4096 * Suc a + (unat sz - unat r + 4095)" using r a le by simp
    ultimately show ?thesis unfolding b_def by (simp only: div_mult_self3) simp
  qed
qed

lemma extend_tail_runs:
  fixes sz :: u64
  assumes hs: "heap_state R D1 ys E1 C1 s0 p (P\<lparr>malloc_free_list := b\<rparr>) t" and ok: "malloc_ok L (managed s0) D E C P us fs" and pt: "pagetable P \<in> R"
    and hl: "heap_lists (managed s0) D1 C1 (malloc_list P) us b fs'" "set fs' \<subseteq> set fs" and fr: "kept (set fs) {} D C D1 C1"
    and n: "n \<in> D1" "n \<noteq> 0" "managed s0 n" "n \<notin> set us" "n \<notin> set fs'" "n \<in> D \<Longrightarrow> n \<in> set fs"
    and x: "ext (pagetable P) {unat (heap_top P) div 4096} 1 D0 xs E C0 D1 ys E1 C1" "D \<subseteq> D0" "insert n (set us \<union> set fs') \<subseteq> D0"
    and sz: "0 < unat sz" "unat (heap_top P) + unat sz \<le> L" and len: "3 * (unat sz div 4096 + 1) \<le> length ys"
  shows "runs (let va = heap_top P; page_start = pg (unat va div 4096); remaining = page_start + PGSIZE - va in
      if sz \<le> remaining
      then kthen (upd_proc p (\<lambda>q. q\<lparr>heap_top := va + sz\<rparr>)) (kthen (add_block p malloc_list malloc_list_update n va sz) (kreturn va))
      else let need = sz - remaining; n_pages = (need + PGSIZE - 1) div PGSIZE; map_va = page_start + PGSIZE in
        kbind (map_more (pagetable P) page_start fm map_va (unat n_pages)) (\<lambda>ok.
        if \<not> ok then f
        else kthen (upd_proc p (\<lambda>q. q\<lparr>heap_top := va + sz\<rparr>)) (kthen (add_block p malloc_list malloc_list_update n va sz) (kreturn va)))) t
    (malloc_done R L D E C s0 p P us fs sz)"
proof -
  let ?va = "heap_top P" and ?pt = "pagetable P"
  let ?a = "unat ?va div 4096" and ?b = "(unat ?va + unat sz + 4095) div 4096" and ?r = "pg (unat ?va div 4096) + PGSIZE - ?va"
  let ?n = "unat ((sz - ?r + PGSIZE - 1) div PGSIZE)"
  note o = malloc_okD [OF ok]
  have va: "unat ?va + unat sz \<le> 2 ^ 38" using sz(2) o(8) by simp
  note pn = pages_needed [OF va sz(1)]
  have B: "pages (unat ?va, unat sz) = {?a..<?b}" by (simp add: pages_def)
  show ?thesis
  proof (cases "sz \<le> ?r")
    case True
    then have "pages (unat ?va, unat sz) = {?a}" using pn(1) B by simp
    then show ?thesis using extend_use_runs [OF hs ok hl fr n _ x(2,3) sz] x(1) True by (simp add: Let_def)
  next
    case False
    have ab: "Suc ?a + ?n = ?b" by (rule pn(2) [OF False])
    have ins: "inside (unat (heap_bottom P)) L (unat ?va, unat sz)" using sz o(5) by (simp add: inside_def)
    have "?b \<noteq> ?a" using ab by simp
    then have "?a \<in> pages (unat ?va, unat sz)" using ab by (simp add: pages_def)
    then have fits: "4096 * ?b \<le> L" using block_pages_fit(3) [OF ins _ o(7)] by simp
    have e: "E1 ?pt (pg j) = 0" if "Suc ?a \<le> j" "j < Suc ?a + ?n" for j
    proof -
      have j: "4096 * j < L" "unat ?va \<le> 4096 * j" using that fits ab by linarith+
      then have "E1 ?pt (pg j) = E ?pt (pg j)" using that o(8) by (intro ext_entry [OF x(1)]) auto
      then show ?thesis using pages_okD(3) [OF o(3) j(2,1)] by simp
    qed
    have len': "3 * ?n \<le> length ys" using ab block_pages_card [of "unat ?va" "unat sz"] len by simp
    have fits': "4096 * (Suc ?a + ?n) \<le> unat MAXVA" using fits ab o(8) by (simp add: unat_MAXVA)
    have map: "runs (map_more ?pt (pg ?a) fm (pg (Suc ?a)) ?n) t
        (\<lambda>ok t. ok \<and> mapped_to R ?pt {Suc ?a..<Suc ?a + ?n} ?n D1 ys E1 C1 s0 p (P\<lparr>malloc_free_list := b\<rparr>) t)"
      by (rule map_more_runs [OF hs pt fits' _ len']) (rule e)
    have "runs (kbind (map_more ?pt (pg ?a) fm (pg (Suc ?a)) ?n) (\<lambda>ok. if \<not> ok then f
        else kthen (upd_proc p (\<lambda>q. q\<lparr>heap_top := ?va + sz\<rparr>)) (kthen (add_block p malloc_list malloc_list_update n ?va sz) (kreturn ?va)))) t
      (malloc_done R L D E C s0 p P us fs sz)"
    proof (rule runs_bind [OF map], goal_cases)
      case (1 ok1 u)
      then obtain D2 zs E2 C2 where y: "ext ?pt {Suc ?a..<?b} ?n D1 ys E1 C1 D2 zs E2 C2" "heap_state R D2 zs E2 C2 s0 p (P\<lparr>malloc_free_list := b\<rparr>) u"
        and "ok1" unfolding ab by (auto elim: mapped_toE)
      have "{?a} \<union> {Suc ?a..<?b} = pages (unat ?va, unat sz)" unfolding B using ab by auto
      then have xy: "ext ?pt (pages (unat ?va, unat sz)) (1 + ?n) D0 xs E C0 D2 zs E2 C2" using ext_trans [OF x(1) y(1)] by simp
      have hl2: "heap_lists (managed s0) D2 C2 (malloc_list P) us b fs'"
        using heap_listsD(6,7) [OF hl(1)] extD(2) [OF y(1)] by (intro heap_lists_cong [OF hl(1) extD(1) [OF y(1)]]) auto
      have fr2: "kept (set fs) {} D C D2 C2" by (rule kept_trans [OF fr kept_ext [OF y(1)]]) auto
      have "n \<in> D2" using extD(1) [OF y(1)] n(1) by blast
      then show ?case using extend_use_runs [OF y(2) ok hl2 hl(2) fr2 _ n(2-6) xy x(2,3) sz] \<open>ok1\<close> by simp
    qed
    then show ?thesis using False by (simp add: Let_def pg_Suc)
  qed
qed

lemma extend_heap_runs:
  assumes hs: "heap_state R D xs E C s0 p P s" and ok: "malloc_ok L (managed s0) D E C P us fs" and pt: "pagetable P \<in> R"
    and sz: "0 < unat sz" "unat (heap_top P) + unat sz \<le> L" and len: "3 * (unat sz div 4096 + 2) + 1 \<le> length xs"
  shows "runs (extend_heap p (pagetable P) sz) s (malloc_done R L D E C s0 p P us fs sz)"
proof -
  let ?va = "heap_top P" and ?pt = "pagetable P" and ?h = "malloc_free_list P"
  let ?a = "unat ?va div 4096"
  note o = malloc_okD [OF ok]
  have a: "4096 * ?a < L" using sz by linarith
  obtain q where "L = 4096 * q" using o(7) by blast
  then have fits: "4096 * Suc ?a \<le> unat MAXVA" using a o(8) by (simp add: unat_MAXVA)
  then have lt: "pg ?a < MAXVA" by (simp add: word_less_nat_alt unat_pg unat_MAXVA)
  have e: "E ?pt (pg ?a) = 0 \<or> live (E ?pt (pg ?a))" using pages_okD(2) [OF o(3) _ a] o(5) div_le_mono by blast
  have take: "runs (if ?h \<noteq> 0 then kthen (pop_free p ?h) (kthen (node_set ?h M_next 0) (kthen (node_set ?h M_prev 0) (kreturn ?h))) else alloc_page) s
      (taken R E s0 p P D xs C us fs)"
  proof (cases "?h = 0")
    case True
    then show ?thesis using alloc_taken [OF hs o(1)] len by simp
  next
    case False
    have "runs (kthen (pop_free p ?h) (kthen (node_set ?h M_next 0) (kthen (node_set ?h M_prev 0) (kreturn ?h)))) s (taken R E s0 p P D xs C us fs)"
      by (intro runs_then [OF pop_taken [OF hs o(1) refl False]] runs_then [OF taken_set]) (simp_all add: kwp_return)
    then show ?thesis using False by simp
  qed
  have gh: "kwp (kget (\<lambda>s. heap_top (procs s p))) Q F s = Q ?va s" for Q F using heap_stateD(2) [OF hs] by (simp add: kwp_get)
  show ?thesis
    unfolding extend_heap_def kwp_bind [of "kget (\<lambda>s. heap_top (procs s p))"] gh ROUNDDOWN_pg Let_def [of "pg ?a"]
      kwp_bind [of "list_head p malloc_free_list"] list_head_runs [OF hs] Let_def [of "?h \<noteq> 0"]
  proof (rule runs_bind [OF take], goal_cases)
    case (1 n t)
    then obtain D1 ys C1 fs' b where t: "heap_state R D1 ys E C1 s0 p (P\<lparr>malloc_free_list := b\<rparr>) t"
      "heap_lists (managed s0) D1 C1 (malloc_list P) us b fs'" "set fs' \<subseteq> set fs" "n \<in> D1" "n \<noteq> 0" "managed s0 n" "n \<notin> set us" "n \<notin> set fs'"
      "n \<in> D \<Longrightarrow> n \<in> set fs" "kept (set fs) {} D C D1 C1" "length xs \<le> length ys + 1"
      using takenE by metis
    let ?pa = "if live (E ?pt (pg ?a)) then PTE2PA (E ?pt (pg ?a)) else 0" and ?M = "mapped_to R ?pt {?a} 1 D1 ys E C1 s0 p (P\<lparr>malloc_free_list := b\<rparr>)"
    have first: "runs (if ?pa = 0 then kbind alloc_page (\<lambda>pa. if pa = 0 then kreturn False
        else kthen (user_vm_map ?pt (pg ?a) PGSIZE pa user_rw) (kreturn True)) else kreturn True) t (\<lambda>ok u. ok = True \<and> ?M u)"
    proof (cases "live (E ?pt (pg ?a))")
      case True
      then have "?pa \<noteq> 0" by (simp add: live_def)
      moreover have "?M t" using True by (intro mapped_to_refl [OF t(1)]) simp
      ultimately show ?thesis by (simp add: kwp_return)
    next
      case False
      then show ?thesis using map_fresh_runs [OF t(1) pt fits, of "kreturn False" True] e t(11) len by (simp add: mapped_to_def)
    qed
    show ?case
      unfolding kwp_bind [of "lookup_pa ?pt (pg ?a)"] lookup_pa_runs [OF t(1) pt lt e] if_not_P [OF t(5)] Let_def [of "?pa = 0"]
    proof (rule runs_bind [OF first], goal_cases)
      case (1 ok1 u)
      then obtain D2 zs E2 C2 where y: "ext ?pt {?a} 1 D1 ys E C1 D2 zs E2 C2" "heap_state R D2 zs E2 C2 s0 p (P\<lparr>malloc_free_list := b\<rparr>) u"
        and "ok1" by (auto elim: mapped_toE)
      have hl2: "heap_lists (managed s0) D2 C2 (malloc_list P) us b fs'"
        using heap_listsD(6,7) [OF t(2)] extD(2) [OF y(1)] by (intro heap_lists_cong [OF t(2) extD(1) [OF y(1)]]) auto
      have fr2: "kept (set fs) {} D C D2 C2" by (rule kept_trans [OF t(10) kept_ext [OF y(1)]]) auto
      have "n \<in> D2" using extD(1) [OF y(1)] t(4) by blast
      moreover have "3 * (unat sz div 4096 + 1) \<le> length zs" using extD(3) [OF y(1)] t(11) len by simp
      moreover have "insert n (set us \<union> set fs') \<subseteq> D1" using heap_listsD(6,7) [OF t(2)] t(4) by auto
      ultimately show ?case using extend_tail_runs [OF y(2) ok pt hl2 t(3) fr2 _ t(5-9) y(1) keptD(1) [OF t(10)] _ sz] \<open>ok1\<close> by (simp add: Let_def)
    qed
  qed
qed

section \<open>Allocation\<close>

lemma malloc_runs:
  assumes hs: "heap_state R D xs E C s0 p P s" and ok: "malloc_ok L (managed s0) D E C P us fs" and pt: "pagetable P \<in> R"
    and cur: "current s0 tp = Some p" and sz: "0 < unat sz" "unat (heap_top P) + unat sz \<le> L" and len: "3 * (unat sz div 4096 + 2) + 1 \<le> length xs"
  shows "runs (user_better_malloc tp sz) s (malloc_done R L D E C s0 p P us fs sz)"
proof -
  note o = malloc_okD [OF ok]
  have c: "kwp (kget (\<lambda>s. current s tp)) Q F s = Q (Some p) s" "kwp (kget (\<lambda>s. pagetable (procs s p))) Q' F s = Q' (pagetable P) s" for Q Q' F
    using heap_stateD(2,3) [OF hs] cur by (simp_all add: kwp_get)
  let ?r = "find (\<lambda>n. sz \<le> C n M_size) fs"
  have "runs (if (case ?r of None \<Rightarrow> 0 | Some n \<Rightarrow> n) \<noteq> 0 then reuse_block p (pagetable P) (case ?r of None \<Rightarrow> 0 | Some n \<Rightarrow> n) sz
      else extend_heap p (pagetable P) sz) s (malloc_done R L D E C s0 p P us fs sz)"
  proof (cases ?r)
    case None
    then show ?thesis using extend_heap_runs [OF hs ok pt sz len] by simp
  next
    case (Some n)
    then have n: "n \<in> set fs" "sz \<le> C n M_size" by (auto simp: find_Some_iff)
    then obtain as bs where "fs = as @ n # bs" by (meson split_list)
    moreover have "n \<noteq> 0" using n(1) heap_listsD(10) [OF o(1)] by auto
    ultimately show ?thesis using reuse_block_runs [OF hs _ pt sz(1) n(2) len] ok Some by simp
  qed
  moreover have "sz \<noteq> 0" using sz(1) by auto
  ultimately show ?thesis
    unfolding user_better_malloc_def by (simp add: kwp_bind c list_head_runs [OF hs] find_free_runs [OF hs o(1)])
qed

text \<open>
  The invariant of a process with a heap: \<open>D\<close> are data pages in memory with the page tables \<open>R\<close>, the heap is well formed, and its mapped pages have frames
  of their own among the data pages.
\<close>

definition heap_pages_of :: "nat \<Rightarrow> process \<Rightarrow> nat set" where
  "heap_pages_of L P = {unat (heap_bottom P) div 4096..<L div 4096}"

definition heap_inv :: "u64 set \<Rightarrow> nat \<Rightarrow> u64 set \<Rightarrow> u64 list \<Rightarrow> (u64 \<Rightarrow> u64 \<Rightarrow> u64) \<Rightarrow> contents \<Rightarrow> nat \<Rightarrow> u64 list \<Rightarrow> u64 list \<Rightarrow>
    'z kernel_state_scheme \<Rightarrow> bool" where
  "heap_inv R L D xs E C p us fs s \<longleftrightarrow> space R D xs E C s \<and> D \<subseteq> Collect (managed s) \<and> pagetable (procs s p) \<in> R \<and>
     malloc_ok L (managed s) D E C (procs s p) us fs \<and>
     heap_frames D E (pagetable (procs s p)) (heap_pages_of L (procs s p)) (set us \<union> set fs)"

lemma heap_invD:
  assumes "heap_inv R L D xs E C p us fs s"
  shows "heap_state R D xs E C s p (procs s p) s" "pagetable (procs s p) \<in> R" "malloc_ok L (managed s) D E C (procs s p) us fs"
    "heap_frames D E (pagetable (procs s p)) (heap_pages_of L (procs s p)) (set us \<union> set fs)"
    "j \<in> heap_pages_of L (procs s p) \<Longrightarrow> 4096 * j < 2 ^ 64"
proof -
  show "heap_state R D xs E C s p (procs s p) s" and ok: "malloc_ok L (managed s) D E C (procs s p) us fs" and "pagetable (procs s p) \<in> R"
    "heap_frames D E (pagetable (procs s p)) (heap_pages_of L (procs s p)) (set us \<union> set fs)"
    using assms by (auto simp: heap_inv_def heap_state_def)
  assume "j \<in> heap_pages_of L (procs s p)"
  then have "j < L div 4096" by (simp add: heap_pages_of_def)
  then have "4096 * j < L" by linarith
  then show "4096 * j < 2 ^ 64" using malloc_okD(8) [OF ok] by simp
qed

text \<open>
  C7. The byte-wise heap hands out memory of its own.  When \<^verbatim>\<open>user_better_malloc\<close> (\<^verbatim>\<open>kernel/process.c\<close>) runs in a process whose heap satisfies the invariant (\<open>heap_inv\<close>: the
  two linked lists of blocks in use and of freed blocks share no node, the blocks lie inside the heap and do not overlap, the pages of blocks in use are
  mapped, to frames of their own) with enough free pages and room below the limit \<open>L\<close>, then it returns a block of the wanted size that overlaps no block in use
  and all of whose pages are mapped; pages that were not mapped get distinct frames that held no data before.  The invariant holds
  again with the new block in use, the blocks in use before keep their place and size, no mapped page moves, no page of data outside the two lists
  changes, and no other process or address space does.
\<close>

theorem better_malloc_block:
  fixes s :: "'z kernel_state_scheme" and p :: nat
  defines "pt \<equiv> pagetable (procs s p)"
  assumes inv: "heap_inv R L D xs E C p us fs s" and cur: "current s tp = Some p"
    and sz: "0 < sz" "unat (heap_top (procs s p)) + unat sz \<le> L" and len: "3 * (unat sz div 4096 + 2) + 1 \<le> length xs"
  shows "\<exists>r t D' ys E' C' n fs'. user_better_malloc tp sz s = (Inr r, t) \<and> r \<noteq> 0 \<and> heap_inv R L D' ys E' C' p (n # us) fs' t \<and>
    block C' n = (unat r, unat sz) \<and> (\<forall>m\<in>set us. block C' m = block C m \<and> apart (block C m) (unat r, unat sz)) \<and>
    (\<forall>j\<in>pages (unat r, unat sz). live (E' pt (pg j))) \<and> fresh_frames pt D E D' E' \<and>
    (\<forall>a. page_aligned a \<longrightarrow> live (E pt a) \<longrightarrow> E' pt a = E pt a) \<and> (\<forall>pd. pd \<noteq> pt \<longrightarrow> E' pd = E pd) \<and>
    (\<forall>d\<in>D. d \<notin> set us \<longrightarrow> d \<notin> set fs \<longrightarrow> C' d = C d) \<and> (\<forall>q. q \<noteq> p \<longrightarrow> procs t q = procs s q)"
proof -
  let ?P = "procs s p"
  note I = heap_invD [OF inv]
  have "runs (user_better_malloc tp sz) s (malloc_done R L D E C s p ?P us fs sz)"
    by (rule malloc_runs [OF I(1,3,2) cur]) (use sz len in \<open>auto simp: unat_gt_0\<close>)
  then obtain r t where run: "user_better_malloc tp sz s = (Inr r, t)" and d: "malloc_done R L D E C s p ?P us fs sz r t"
    by (auto simp: kwp_def split: prod.splits sum.splits)
  from d obtain D' ys E' C' a b hp n fs' where t: "heap_state R D' ys E' C' s p (?P\<lparr>malloc_free_list := b, heap_top := hp, malloc_list := a\<rparr>) t"
    "malloc_ok L (managed s) D' E' C' (?P\<lparr>malloc_free_list := b, heap_top := hp, malloc_list := a\<rparr>) (n # us) fs'" "block C' n = (unat r, unat sz)"
    "\<forall>m\<in>set us. block C' m = block C m" "D \<subseteq> D'" "\<forall>d\<in>D. d \<notin> set us \<longrightarrow> d \<notin> set fs \<longrightarrow> C' d = C d" "\<forall>pd. pd \<noteq> pt \<longrightarrow> E' pd = E pd"
    "\<forall>a. page_aligned a \<longrightarrow> live (E pt a) \<longrightarrow> E' pt a = E pt a" "fresh_frames pt D E D' E'"
    "\<forall>a\<in>newly pt E E'. PTE2PA (E' pt a) \<notin> set (n # us) \<union> set fs'" "\<forall>q\<in>set (n # us) \<union> set fs'. q \<in> D \<longrightarrow> q \<in> set us \<union> set fs"
    unfolding malloc_done_def pt_def by blast
  note h = heap_stateD [OF t(1)] and o = malloc_okD [OF t(2)]
  have n: "n \<notin> set us" using heap_listsD(3) [OF o(1)] by simp
  have "inside (unat (heap_bottom ?P)) (unat hp) (unat r, unat sz)" using blocks_okD(1) [OF o(2), of n] t(3) by simp
  then have "r \<noteq> 0" using o(4) by (auto simp: inside_def)
  moreover have "apart (block C m) (unat r, unat sz)" if "m \<in> set us" for m
    using blocks_okD(2) [OF o(2), of m n] that n t(3,4) by auto
  moreover have "live (E' pt (pg j))" if "j \<in> pages (unat r, unat sz)" for j
    using pages_okD(1) [OF o(3), of n j] that t(3) by (simp add: pt_def)
  moreover have "heap_frames D' E' pt (heap_pages_of L ?P) (set (n # us) \<union> set fs')"
  proof (rule heap_frames_fresh [OF I(4) [folded pt_def] t(9) _ t(5)])
    show "E' pt a = E pt a" if "page_aligned a" "live (E pt a)" for a using t(8) that by simp
    show "q \<in> set us \<union> set fs" if "q \<in> set (n # us) \<union> set fs'" "q \<in> D" for q using t(11) that by blast
    show "PTE2PA (E' pt a) \<notin> set (n # us) \<union> set fs'" if "a \<in> newly pt E E'" for a using t(10) that by blast
  qed (rule I(5))
  then have "heap_inv R L D' ys E' C' p (n # us) fs' t"
    using t(2) h I(2) by (simp add: heap_inv_def subset_iff heap_pages_of_def pt_def)
  moreover have "procs t q = procs s q" if "q \<noteq> p" for q using that h(2) by simp
  ultimately show ?thesis
    using run t(3,4,6-9) by (intro exI [of _ r] exI [of _ t] exI [of _ D'] exI [of _ ys] exI [of _ E'] exI [of _ C'] exI [of _ n] exI [of _ fs']) simp
qed

text \<open>A process with one block of 16 bytes in use and one of 64 bytes freed behind it, both on the first page of its heap.\<close>

definition demo_node :: "u64 \<Rightarrow> u64 \<Rightarrow> 9 word \<Rightarrow> u64" where
  "demo_node va sz = (\<lambda>_. 0)(M_va := va, M_size := sz)"

definition demo_heap :: fs_state where
  "demo_heap = demo_new\<lparr>pmem := (\<lambda>a. (\<lambda>_. 0)(0 := if a < 0x80007000 then a + 0x1000 else 0))
       (0x80008000 := (\<lambda>_. 0)(0 := 0x20002401), 0x80009000 := (\<lambda>_. 0)(0x20 := 0x20002801), 0x8000a000 := (\<lambda>_. 0)(0 := 0x20002cd7),
        0x8000c000 := demo_node 0x4000000 16, 0x8000d000 := demo_node 0x4000010 64),
     procs := (procs demo_new)(3 := (procs demo_new 3)\<lparr>pagetable := 0x80008000, heap_bottom := 0x4000000, heap_top := 0x4000050,
       malloc_list := 0x8000c000, malloc_free_list := 0x8000d000\<rparr>), current := (\<lambda>_. Some 3)\<rparr>"

lemma demo_heap_next:
  "next_table (pmem demo_heap) 0x80008000 i = (if i = 0 then Some 0x80009000 else None)"
  "next_table (pmem demo_heap) 0x80009000 i = (if i = 0x20 then Some 0x8000a000 else None)"
  by (simp_all add: next_table_def demo_heap_def PTE2PA_def PTE_V_def)

lemma demo_heap_tables:
  "is_table {0x80008000} (pmem demo_heap) pd is t \<longleftrightarrow> pd = 0x80008000 \<and>
     (is = [] \<and> t = 0x80008000 \<or> is = [0] \<and> t = 0x80009000 \<or> is = [0, 0x20] \<and> t = 0x8000a000)"
proof (cases "is")
  case (Cons i js)
  then show ?thesis by (cases js) (auto simp: is_table_def demo_heap_next split: if_splits)
qed (auto simp: is_table_def)

abbreviation demo_heap_free :: "u64 list" where
  "demo_heap_free \<equiv> [0x80001000, 0x80002000, 0x80003000, 0x80004000, 0x80005000, 0x80006000, 0x80007000]"

lemma demo_heap_inv: "vm_inv {0x80008000} demo_heap demo_heap_free"
proof -
  have "pmm_inv demo_heap demo_heap_free"
    by (simp add: pmm_inv_def pmm_bounds_def demo_heap_def demo_new_def demo_fs_defs managed_def PAGE_INDEX_def MAX_PAGE_NUM_def
        PGSIZE_def PMM_MAX_PAGES_def SPIN_LOCK_FREE_def)
  moreover have "pt_tree {0x80008000} (pmem demo_heap) (set demo_heap_free)"
    unfolding pt_tree_def demo_heap_tables by (auto simp: PGSIZE_def)
  ultimately show ?thesis by (simp add: vm_inv_def)
qed

lemma demo_heap_space:
  "space {0x80008000} {0x8000b000, 0x8000c000, 0x8000d000} demo_heap_free (pt_entry (pmem demo_heap)) (pmem demo_heap) demo_heap"
  unfolding space_def using demo_heap_inv by (auto simp: demo_heap_tables)

lemma demo_heap_entry: "pt_entry (pmem demo_heap) 0x80008000 (pg 0x4000) = 0x20002cd7"
  by (simp add: pt_entry_def leaf_table_def demo_heap_next pg_def PX_def PXSHIFT_def) (simp add: demo_heap_def)

lemma demo_heap_blocks: "block (pmem demo_heap) 0x8000c000 = (0x4000000, 16)" "block (pmem demo_heap) 0x8000d000 = (0x4000010, 64)"
  by (simp_all add: block_def demo_heap_def demo_node_def)

lemma demo_heap_ok:
  "malloc_ok 0x4001000 (managed demo_heap) {0x8000b000, 0x8000c000, 0x8000d000} (pt_entry (pmem demo_heap)) (pmem demo_heap) (procs demo_heap 3)
     [0x8000c000] [0x8000d000]"
proof -
  have P: "malloc_list (procs demo_heap 3) = 0x8000c000" "malloc_free_list (procs demo_heap 3) = 0x8000d000"
    "heap_bottom (procs demo_heap 3) = 0x4000000" "heap_top (procs demo_heap 3) = 0x4000050" "pagetable (procs demo_heap 3) = 0x80008000"
    by (simp_all add: demo_heap_def)
  have "heap_lists (managed demo_heap) {0x8000b000, 0x8000c000, 0x8000d000} (pmem demo_heap) 0x8000c000 [0x8000c000] 0x8000d000 [0x8000d000]"
    by (simp add: heap_lists_def demo_heap_def demo_node_def managed_def demo_new_def demo_fs_defs PAGE_INDEX_def MAX_PAGE_NUM_def PGSIZE_def)
  moreover have "blocks_ok 0x4000000 0x4000050 (pmem demo_heap) {0x8000d000, 0x8000c000}"
    by (simp add: blocks_ok_def demo_heap_blocks inside_def apart_def)
  moreover have "pages_ok 0x4001000 0x4000000 0x4000050 (pt_entry (pmem demo_heap) 0x80008000) (pmem demo_heap) {0x8000c000}"
  proof -
    have "live 0x20002cd7" by (simp add: live_def PTE2PA_def PTE_V_def PTE_R_def)
    then have l: "live (pt_entry (pmem demo_heap) 0x80008000 (pg j))" if "j = 0x4000" for j using demo_heap_entry that by simp
    have j: "j = 0x4000" if "0x4000 \<le> j" "j < 0x4001" for j :: nat using that by simp
    show ?thesis unfolding pages_ok_def by (auto simp: demo_heap_blocks pages_def intro!: l j)
  qed
  ultimately show ?thesis unfolding malloc_ok_def P by simp
qed

lemma demo_heap_holds: "heap_inv {0x80008000} 0x4001000 {0x8000b000, 0x8000c000, 0x8000d000} demo_heap_free (pt_entry (pmem demo_heap)) (pmem demo_heap) 3
    [0x8000c000] [0x8000d000] demo_heap"
proof -
  have P: "pagetable (procs demo_heap 3) = 0x80008000" "heap_bottom (procs demo_heap 3) = 0x4000000" by (simp_all add: demo_heap_def)
  have J: "heap_pages_of 0x4001000 (procs demo_heap 3) = {0x4000}" by (auto simp: heap_pages_of_def P)
  have f: "frame_of (pt_entry (pmem demo_heap)) 0x80008000 0x4000 = 0x8000b000"
    unfolding frame_of_def demo_heap_entry by (simp add: PTE2PA_def)
  have "managed demo_heap 0x8000b000" "managed demo_heap 0x8000c000" "managed demo_heap 0x8000d000"
    by (simp_all add: demo_heap_def demo_new_def demo_fs_defs managed_def PAGE_INDEX_def MAX_PAGE_NUM_def PGSIZE_def)
  moreover have "heap_frames {0x8000b000, 0x8000c000, 0x8000d000} (pt_entry (pmem demo_heap)) 0x80008000 {0x4000} (set [0x8000c000] \<union> set [0x8000d000])"
    by (simp add: heap_frames_def f inj_on_def)
  ultimately show ?thesis using demo_heap_space demo_heap_ok unfolding heap_inv_def J P by simp
qed

theorem better_malloc_block_witness:
  "\<exists>r t. user_better_malloc 0 16 demo_heap = (Inr r, t) \<and> r \<noteq> 0 \<and> (unat r + 16 \<le> 0x4000000 \<or> 0x4000010 \<le> unat r)"
proof -
  have s: "current demo_heap 0 = Some 3" "unat (heap_top (procs demo_heap 3)) + unat (16 :: u64) \<le> 0x4001000"
    by (simp_all add: demo_heap_def)
  have "0 < (16 :: u64)" "3 * (unat (16 :: u64) div 4096 + 2) + 1 \<le> length demo_heap_free" by simp_all
  from better_malloc_block [OF demo_heap_holds s(1) this(1) s(2) this(2)]
  obtain r t where "user_better_malloc 0 16 demo_heap = (Inr r, t)" "r \<noteq> 0" "apart (block (pmem demo_heap) 0x8000c000) (unat r, unat (16 :: u64))"
    by auto
  then show ?thesis by (intro exI [of _ r] exI [of _ t]) (auto simp: demo_heap_blocks apart_def)
qed

end
