(* ===== verification/Malloc_Free.thy ===== *)
theory Malloc_Free
  imports Malloc_Heap
begin

text \<open>
  Release on the byte-wise heap: \<^verbatim>\<open>user_better_free\<close> (\<^verbatim>\<open>kernel/process.c\<close>) moves a block from the list of blocks in use to the list of freed blocks and unmaps
  the pages that no other block in use touches.

  \<open>unmapped\<close> describes the address space after some pages of it were unmapped; the invariant is the one of \<^verbatim>\<open>Malloc_Heap\<close>.
\<close>

unbundle bit_operations_syntax

section \<open>Unmapping a page of the heap\<close>

lemma live_flags: "live e \<Longrightarrow> e AND PTE_V \<noteq> 0" "live e \<Longrightarrow> PTE_FLAGS e \<noteq> PTE_V"
proof -
  assume l: "live e"
  then show "e AND PTE_V \<noteq> 0" by (simp add: live_def)
  have "PTE_FLAGS e AND PTE_R = e AND PTE_R" "PTE_FLAGS e AND PTE_W = e AND PTE_W"
    by (simp_all add: PTE_FLAGS_def and.assoc PTE_R_def PTE_W_def)
  moreover have "PTE_V AND PTE_R = 0" "PTE_V AND PTE_W = 0" by (simp_all add: PTE_V_def PTE_R_def PTE_W_def)
  ultimately show "PTE_FLAGS e \<noteq> PTE_V" using l by (auto simp: live_def)
qed

lemma unmap_runs:
  fixes s :: "'z kernel_state_scheme"
  assumes hs: "heap_state R D xs E C s0 p P s" and pt: "pt \<in> R" and va: "page_aligned va" "unat va + 4096 \<le> unat MAXVA"
    and e: "live (E pt va)" and pa: "PTE2PA (E pt va) \<in> D"
  shows "runs (user_vm_unmap pt va PGSIZE True) s (\<lambda>_ t. \<exists>ys. heap_state R (D - {PTE2PA (E pt va)}) ys (with_page E pt va 0) C s0 p P t)"
proof -
  note sp = heap_stateD(1) [OF hs]
  have m: "va < MAXVA" using va(2) by (simp add: word_less_nat_alt)
  have e': "pt_entry (pmem s) pt va = E pt va" by (rule spaceD(4) [OF sp pt m])
  have pa': "managed s (PTE2PA (E pt va))" using heap_stateD(4) [OF hs] heap_stateD(5) [OF hs pa] by simp
  note un = user_vm_unmap_free [OF spaceD(1) [OF sp] pt va e' live_flags [OF e] pa' spaceD(2,3) [OF sp pa]]
  obtain t where t: "user_vm_unmap pt va PGSIZE True s = (Inr (), t)"
    "vm_inv R t (if 1 < ref_of s (PTE2PA (E pt va)) then xs else PTE2PA (E pt va) # xs)"
    "\<forall>pd'\<in>R. \<forall>va'<MAXVA. pt_entry (pmem t) pd' va' = (if pd' = pt \<and> ROUNDDOWN va' PGSIZE = va then 0 else pt_entry (pmem s) pd' va')"
    "managed t = managed s"
    "\<forall>q. q \<noteq> PTE2PA (E pt va) \<longrightarrow> q \<notin> set xs \<longrightarrow> (\<forall>pd is. \<not> is_table R (pmem s) pd is q) \<longrightarrow>
       pmem t q = pmem s q \<and> (\<forall>pd is. \<not> is_table R (pmem t) pd is q)"
    using kwp_total_unit [OF un] by blast
  have "space R (D - {PTE2PA (E pt va)}) (if 1 < ref_of s (PTE2PA (E pt va)) then xs else PTE2PA (E pt va) # xs) (with_page E pt va 0) C t"
    using t(2,3,5) spaceD(2-5) [OF sp] unfolding space_def with_page_def by auto
  moreover note kf = kernel_fields(1,2) [OF keeps_run [OF keeps_vmm(5) t(1)]]
  ultimately have "\<exists>ys. heap_state R (D - {PTE2PA (E pt va)}) ys (with_page E pt va 0) C s0 p P t"
    using hs t(4) by (auto simp: heap_state_def)
  then show ?thesis using t(1) by (simp add: kwp_def)
qed

text \<open>The address space after the pages \<open>K\<close> of \<open>pt\<close> were unmapped: their entries are gone and their frames are no data pages any more.\<close>

definition cleared :: "(u64 \<Rightarrow> u64 \<Rightarrow> u64) \<Rightarrow> u64 \<Rightarrow> nat set \<Rightarrow> u64 \<Rightarrow> u64 \<Rightarrow> u64" where
  "cleared E pt K = E(pt := \<lambda>a. if unat a div 4096 \<in> K then 0 else E pt a)"

definition unmapped :: "u64 set \<Rightarrow> u64 \<Rightarrow> nat set \<Rightarrow> u64 set \<Rightarrow> (u64 \<Rightarrow> u64 \<Rightarrow> u64) \<Rightarrow> contents \<Rightarrow> 'z kernel_state_scheme \<Rightarrow> nat \<Rightarrow> process \<Rightarrow>
    'z kernel_state_scheme \<Rightarrow> bool" where
  "unmapped R pt K D E C s0 p P t \<longleftrightarrow> (\<exists>ys. heap_state R (D - frame_of E pt ` K) ys (cleared E pt K) C s0 p P t)"

lemma cleared_page: "4096 * j < 2 ^ 64 \<Longrightarrow> cleared E pt K pt (pg j) = (if j \<in> K then 0 else E pt (pg j))"
  by (simp add: cleared_def unat_pg)

lemma cleared_insert: "4096 * j < 2 ^ 64 \<Longrightarrow> with_page (cleared E pt K) pt (pg j) 0 = cleared E pt (insert j K)"
  by (auto simp: with_page_def cleared_def ROUNDDOWN_is_pg fun_eq_iff)

lemma unmap_next_runs:
  assumes u: "unmapped R pt K D E C s0 p P t" and pt: "pt \<in> R" and j: "4096 * Suc j \<le> unat MAXVA" "j \<notin> K" "live (E pt (pg j))"
    and fr: "heap_frames D E pt J N" "insert j K \<subseteq> J" "\<And>i. i \<in> K \<Longrightarrow> live (E pt (pg i))"
  shows "runs (user_vm_unmap pt (pg j) PGSIZE True) t (\<lambda>_. unmapped R pt (insert j K) D E C s0 p P)"
proof -
  obtain ys where hs: "heap_state R (D - frame_of E pt ` K) ys (cleared E pt K) C s0 p P t" using u by (auto simp: unmapped_def)
  have j64: "4096 * j < 2 ^ 64" using j(1) by (simp add: unat_MAXVA)
  have va: "unat (pg j) + 4096 \<le> unat MAXVA" using j(1) unat_pg [OF j64] by simp
  have e: "cleared E pt K pt (pg j) = E pt (pg j)" using cleared_page [OF j64] j(2) by simp
  note f = heap_framesD(1,3) [OF fr(1) _ j(3)]
  have "frame_of E pt i \<noteq> frame_of E pt j" if "i \<in> K" for i using f(2) [of i] that fr(2,3) j(2) by auto
  then have "frame_of E pt j \<in> D - frame_of E pt ` K" using f(1) fr(2) by (metis DiffI imageE insert_subset)
  from unmap_runs [OF hs pt pg_aligned va, unfolded e, OF j(3), folded frame_of_def, OF this] fr(2)
  have "runs (user_vm_unmap pt (pg j) PGSIZE True) t (\<lambda>_ t. \<exists>ys. heap_state R (D - frame_of E pt ` K - {frame_of E pt j}) ys
      (cleared E pt (insert j K)) C s0 p P t)" by (simp add: cleared_insert [OF j64])
  moreover have "D - frame_of E pt ` K - {frame_of E pt j} = D - frame_of E pt ` insert j K" by auto
  ultimately show ?thesis unfolding unmapped_def by (simp only:)
qed

section \<open>The pages of a freed block\<close>

lemma heap_lists_within: "heap_lists m D C a us b fs \<Longrightarrow> set us \<union> set fs \<subseteq> D' \<Longrightarrow> heap_lists m D' C a us b fs"
  by (simp add: heap_lists_def)

lemma find_case: "(case find Q ns of None \<Rightarrow> 0 | Some n \<Rightarrow> n) \<noteq> (0 :: u64) \<longleftrightarrow> (\<exists>n\<in>set ns. Q n)" if "0 \<notin> set ns"
proof (cases "find Q ns")
  case None
  then have "\<forall>n\<in>set ns. \<not> Q n" by (auto simp: find_None_iff)
  then show ?thesis using None by auto
next
  case (Some n)
  then have "n \<in> set ns" "Q n" by (auto simp: find_Some_iff)
  then show ?thesis using Some that by auto
qed

text \<open>The test whether a block touches a page.\<close>

lemma touches_page:
  assumes "inside lo hi (block C m)" "hi \<le> 2 ^ 38" "4096 * Suc j \<le> 2 ^ 38"
  shows "pg j < C m M_va + C m M_size \<and> C m M_va < pg j + PGSIZE \<longleftrightarrow> j \<in> pages (block C m)"
proof -
  let ?v = "unat (C m M_va)" and ?s = "unat (C m M_size)"
  have b: "?v + ?s \<le> 2 ^ 38" "0 < ?s" using assms(1,2) by (auto simp: inside_def block_def)
  then have "unat (C m M_va + C m M_size) = ?v + ?s" by (intro unat_add_lem [THEN iffD1]) simp
  moreover have "unat (pg j) = 4096 * j" "unat (pg (Suc j)) = 4096 * Suc j" using assms(3) by (simp_all add: unat_pg)
  ultimately show ?thesis unfolding pg_Suc word_less_nat_alt pages_def block_def by (simp add: less_eq_div_iff_mult_less_eq div_less_iff_less_mult) arith
qed

lemma page_has_other_runs:
  assumes hs: "heap_state R D xs E C s0 p P s" and hl: "heap_lists (managed s0) D C (malloc_list P) us b fs"
    and bk: "blocks_ok lo hi C (set us)" "hi \<le> 2 ^ 38" and j: "4096 * Suc j \<le> 2 ^ 38"
  shows "kwp (page_has_other_allocation p (pg j)) Q F s = Q (\<exists>m\<in>set us. j \<in> pages (block C m)) s"
proof -
  let ?T = "\<lambda>c. pg j < c M_va + c M_size \<and> c M_va < pg j + PGSIZE"
  note f = find_free_runs [OF hs hl [THEN heap_lists_swap [THEN iffD1]], of ?T]
  have "(case find (\<lambda>n. ?T (C n)) us of None \<Rightarrow> 0 | Some n \<Rightarrow> n) \<noteq> 0 \<longleftrightarrow> (\<exists>m\<in>set us. j \<in> pages (block C m))"
    using find_case [OF heap_listsD(9) [OF hl], of "\<lambda>n. ?T (C n)"] touches_page [OF blocks_okD(1) [OF bk(1)] bk(2) j] by auto
  then show ?thesis unfolding page_has_other_allocation_def by (simp add: kwp_bind list_head_runs [OF hs] f kwp_return)
qed

lemma unmap_loop_runs:
  fixes va sz :: u64
  defines "a \<equiv> unat va div 4096" and "b \<equiv> (unat va + unat sz + 4095) div 4096"
  assumes hs: "heap_state R D xs E C s0 p P s" and pt: "pt \<in> R"
    and hl: "heap_lists (managed s0) D C (malloc_list P) us (malloc_free_list P) fs" and bk: "blocks_ok lo hi C (set us)" "hi \<le> 2 ^ 38"
    and fits: "4096 * b \<le> 2 ^ 38" and live: "\<And>j. a \<le> j \<Longrightarrow> j < b \<Longrightarrow> live (E pt (pg j))"
    and fr: "heap_frames D E pt J (set us \<union> set fs)" "{a..<b} \<subseteq> J"
  defines "U \<equiv> {j. \<exists>m\<in>set us. j \<in> pages (block C m)}"
  shows "runs (kwhile page_loop_bound (\<lambda>page_va. page_va < va + sz)
      (\<lambda>page_va. kbind (page_has_other_allocation p page_va) (\<lambda>b.
         kthen (kwhen (\<not> b) (user_vm_unmap pt page_va PGSIZE True)) (kreturn (page_va + PGSIZE)))) (ROUNDDOWN va PGSIZE)) s
    (\<lambda>_. unmapped R pt ({a..<b} - U) D E C s0 p P)"
proof -
  let ?J = "\<lambda>j. unmapped R pt ({a..<j} - U) D E C s0 p P"
  let ?I = "\<lambda>page_va t. \<exists>j. page_va = pg j \<and> a \<le> j \<and> j \<le> b \<and> ?J j t"
  let ?m = "\<lambda>page_va :: u64. b - unat page_va div 4096"
  have b64: "4096 * b < 2 ^ 64" using fits by simp
  have end_va: "unat (va + sz) = unat va + unat sz" using b64 unfolding b_def by (intro unat_add_lem [THEN iffD1]) simp
  have ab: "a \<le> b" unfolding a_def b_def by (intro div_le_mono) simp
  have less: "pg j < va + sz \<longleftrightarrow> j < b" if "j \<le> b" for j
  proof -
    have "unat (pg j) = 4096 * j" using that b64 by (intro unat_pg) simp
    then show ?thesis unfolding word_less_nat_alt end_va b_def by linarith
  qed
  have at: "unat (pg j) div 4096 = j" if "j \<le> b" for j using that b64 by (subst unat_pg) simp_all
  have step: "runs (kbind (page_has_other_allocation p (pg j)) (\<lambda>b.
      kthen (kwhen (\<not> b) (user_vm_unmap pt (pg j) PGSIZE True)) (kreturn (pg j + PGSIZE)))) t (\<lambda>z u. z = pg (Suc j) \<and> ?J (Suc j) u)"
    if J: "?J j t" and j: "a \<le> j" "j < b" for j t
  proof -
    let ?K = "{a..<j} - U"
    obtain ys where t: "heap_state R (D - frame_of E pt ` ?K) ys (cleared E pt ?K) C s0 p P t" using J by (auto simp: unmapped_def)
    have "frame_of E pt i \<notin> set us \<union> set fs" if "i \<in> ?K" for i
      using that j(2) fr(2) by (intro heap_framesD(2) [OF fr(1)] live) auto
    then have "set us \<union> set fs \<subseteq> D - frame_of E pt ` ?K" using heap_listsD(6,7) [OF hl] by blast
    note oth = page_has_other_runs [OF t heap_lists_within [OF hl this] bk]
    have j38: "4096 * Suc j \<le> 2 ^ 38" using j(2) fits by simp
    show ?thesis
    proof (cases "j \<in> U")
      case True
      then have "{a..<Suc j} - U = ?K" using j(1) by (auto simp: less_Suc_eq)
      then show ?thesis using True J unfolding U_def by (simp add: kwp_simps oth [OF j38] pg_Suc)
    next
      case False
      then have K: "{a..<Suc j} - U = insert j ?K" using j(1) by auto
      have "runs (user_vm_unmap pt (pg j) PGSIZE True) t (\<lambda>_. ?J (Suc j))"
        unfolding K by (rule unmap_next_runs [OF J pt _ _ _ fr(1)]) (use j j38 fr(2) live in \<open>auto simp: unat_MAXVA\<close>)
      then show ?thesis using False unfolding U_def by (simp add: kwp_simps oth [OF j38] pg_Suc)
    qed
  qed
  show ?thesis
    unfolding ROUNDDOWN_pg a_def [symmetric]
  proof (rule kwp_while [where I = ?I and \<mu> = ?m])
    have "?J a s" using hs by (auto simp: unmapped_def cleared_def)
    then show "?I (pg a) s" using ab by blast
    have "b \<le> page_loop_bound" using b64 by (simp add: page_loop_bound_def)
    then show "?m (pg a) \<le> page_loop_bound" by simp
  next
    fix y t assume "?I y t" and g: "y < va + sz"
    then obtain j where j: "y = pg j" "a \<le> j" "j < b" "?J j t" using less by auto
    show "0 < ?m y" using at [of j] j by simp
    show "runs (kbind (page_has_other_allocation p y) (\<lambda>b. kthen (kwhen (\<not> b) (user_vm_unmap pt y PGSIZE True)) (kreturn (y + PGSIZE)))) t
        (\<lambda>z u. ?I z u \<and> ?m z < ?m y)"
      unfolding j(1) by (rule kwp_mono [OF step [OF j(4,2,3)]]) (use j at [of j] at [of "Suc j"] in auto)
  next
    fix y t assume "?I y t" "\<not> y < va + sz"
    then obtain j where j: "y = pg j" "j \<le> b" "\<not> pg j < va + sz" "?J j t" by auto
    then have "j = b" using less [of j] by simp
    then show "unmapped R pt ({a..<b} - U) D E C s0 p P t" using j(4) by simp
  qed
qed

section \<open>Release\<close>

lemma kept_linked:
  assumes "h = 0 \<or> h \<in> N" "n \<in> N"
  shows "kept N {} D C D (linked n h C)"
  using assms unfolding kept_def by (auto simp: linked_def Let_def)

text \<open>The node goes from one list to the other.\<close>

lemma release_runs:
  assumes hs: "heap_state R D xs E C s0 p P s" and hl: "heap_lists (managed s0) D C (malloc_list P) (as @ n # bs) (malloc_free_list P) fs"
    and rest: "\<And>t C' a. heap_state R D xs E C' s0 p (P\<lparr>malloc_list := a, malloc_free_list := n\<rparr>) t \<Longrightarrow>
      heap_lists (managed s0) D C' a (as @ bs) n (n # fs) \<Longrightarrow> kept (set (as @ n # bs) \<union> set fs) {} D C D C' \<Longrightarrow> runs m t Q"
  shows "runs (kthen (unlink_node p malloc_list_update n) (kthen (node_set n M_prev 0)
    (kthen (link_front p malloc_free_list malloc_free_list_update n) m))) s Q"
proof -
  have hl': "heap_lists (managed s0) D C (malloc_free_list P) fs (malloc_list P) (as @ n # bs)" using hl heap_lists_swap by blast
  note l = heap_listsD [OF hl] and t = heap_lists_take [OF hl']
  have n: "n \<in> D" "n \<noteq> 0" "n \<notin> set fs" "n \<notin> set (as @ bs)" "managed s0 n" using l(3,5,6,8,9) by auto
  let ?a = "if as = [] then C n M_next else malloc_list P" and ?C1 = "unlinked n C" and ?h = "malloc_free_list P"
  have nb: "C n M_prev = 0 \<or> C n M_prev \<in> D" "C n M_next = 0 \<or> C n M_next \<in> D" using t(2,3) l(6) by auto
  have "(if C n M_prev = 0 then P\<lparr>malloc_list := C n M_next\<rparr> else P) = P\<lparr>malloc_list := ?a\<rparr>" using t(4) by simp
  note u = unlink_node_runs [OF hs n(1,2) nb, of malloc_list_update, unfolded this]
  let ?C2 = "?C1(n := (?C1 n)(M_prev := 0))"
  have hl2: "heap_lists (managed s0) D ?C2 ?h fs ?a (as @ bs)" using n(3,4) by (intro heap_lists_cong [OF t(1)]) auto
  have hD: "?h = 0 \<or> ?h \<in> D" using l(7,12) by auto
  have eq: "with_block n (?C2 n M_va) (?C2 n M_size) ?h ?C2 = linked n ?h ?C2" by (simp add: with_block_def)
  have hl3: "heap_lists (managed s0) D (linked n ?h ?C2) ?a (as @ bs) n (n # fs)"
    using heap_lists_add [OF hl2 n(1,2,5,3,4), of "?C2 n M_va" "?C2 n M_size", unfolded eq] heap_lists_swap by blast
  let ?N = "set (as @ n # bs) \<union> set fs"
  have k1: "kept ?N {} D C D ?C1" using kept_take [OF hl'] by (auto simp: kept_def)
  have "kept {n} {} D ?C1 D ?C2" by (auto simp: kept_def)
  then have k2: "kept ?N {} D C D ?C2" by (rule kept_trans [OF k1]) auto
  have k3: "kept ?N {} D C D (linked n ?h ?C2)" by (rule kept_trans [OF k2 kept_linked [of ?h ?N n]]) (use l(12) in auto)
  show ?thesis
  proof (rule runs_then [OF u], rule runs_then [OF node_set_runs [OF _ n(1,2)]], assumption, rule runs_then [OF link_front_runs [OF _ n(1,2) _ hD]])
    fix t assume "heap_state R D xs E ?C2 s0 p (P\<lparr>malloc_list := ?a\<rparr>) t"
    then show "heap_state R D xs E ?C2 s0 p (P\<lparr>malloc_list := ?a\<rparr>) t" .
  next
    fix x t assume "heap_state R D xs E (linked n ?h ?C2) s0 p (malloc_free_list_update (\<lambda>_. n) (P\<lparr>malloc_list := ?a\<rparr>)) t"
    then show "runs m t Q" using hl3 k3 by (intro rest [of _ ?a]) auto
  qed simp
qed

text \<open>The heap without the pages \<open>K\<close>, which no block in use touches.\<close>

lemma malloc_ok_release:
  assumes ok: "malloc_ok L m D E C P (as @ n # bs) fs" and hl: "heap_lists m D C' a (as @ bs) n (n # fs)"
    and k: "kept N {} D C D C'" and K: "\<And>j q. q \<in> set (as @ bs) \<Longrightarrow> j \<in> K \<Longrightarrow> j \<notin> pages (block C q)"
    and fr: "heap_frames D E (pagetable P) J (set (as @ n # bs) \<union> set fs)" "K \<subseteq> J" "\<And>j. j \<in> K \<Longrightarrow> live (E (pagetable P) (pg j))"
    and J: "\<And>j. j \<in> J \<Longrightarrow> 4096 * j < 2 ^ 64"
  defines "E' \<equiv> cleared E (pagetable P) K" and "D' \<equiv> D - frame_of E (pagetable P) ` K"
  shows "malloc_ok L m D' E' C' (P\<lparr>malloc_list := a, malloc_free_list := n\<rparr>) (as @ bs) (n # fs)" "heap_frames D' E' (pagetable P) J (set (as @ n # bs) \<union> set fs)"
proof -
  let ?pt = "pagetable P" and ?lo = "unat (heap_bottom P)" and ?hi = "unat (heap_top P)"
  note o = malloc_okD [OF ok]
  note l = heap_listsD [OF o(1)]
  have bl: "block C' q = block C q" if "q \<in> set (as @ n # bs) \<union> set fs" for q using that l(6,7) by (intro block_kept [OF k]) auto
  have "frame_of E ?pt j \<notin> set (as @ n # bs) \<union> set fs" if "j \<in> K" for j using that fr(2,3) by (intro heap_framesD(2) [OF fr(1)]) auto
  then have "set (as @ bs) \<union> set (n # fs) \<subseteq> D'" using l(6,7) unfolding D'_def by auto
  then have hl': "heap_lists m D' C' a (as @ bs) n (n # fs)" by (rule heap_lists_within [OF hl])
  have bk: "blocks_ok ?lo ?hi C' (set (as @ bs) \<union> set (n # fs))" by (rule blocks_ok_subset [OF o(2)]) (use bl in auto)
  have e: "E' ?pt (pg j) = (if j \<in> K then 0 else E ?pt (pg j))" if "4096 * j < 2 ^ 64" for j unfolding E'_def by (rule cleared_page [OF that])
  have small: "4096 * j < 2 ^ 64" if "4096 * j < L" for j using that o(8) by simp
  have "live (E' ?pt (pg j))" if q: "q \<in> set (as @ bs)" and j: "j \<in> pages (block C' q)" for q j
  proof -
    have j': "j \<in> pages (block C q)" using j bl q by auto
    have "4096 * j < L" using block_pages_fit(2) [OF blocks_okD(1) [OF o(2)] o(6,7) j'] q by auto
    then show ?thesis using e [OF small] K [OF q, of j] pages_okD(1) [OF o(3) _ j'] j' q by auto
  qed
  moreover have "E' ?pt (pg j) = 0 \<or> live (E' ?pt (pg j))" if "?lo div 4096 \<le> j" "4096 * j < L" for j
    using e [OF small [OF that(2)]] pages_okD(2) [OF o(3) that] by auto
  moreover have "E' ?pt (pg j) = 0" if "?hi \<le> 4096 * j" "4096 * j < L" for j
    using e [OF small [OF that(2)]] pages_okD(3) [OF o(3) that] by auto
  ultimately have pk: "pages_ok L ?lo ?hi (E' ?pt) C' (set (as @ bs))" unfolding pages_ok_def by blast
  show "malloc_ok L m D' E' C' (P\<lparr>malloc_list := a, malloc_free_list := n\<rparr>) (as @ bs) (n # fs)"
    using hl' bk pk o(4-8) unfolding malloc_ok_def by (simp add: word_le_nat_alt)
  have same: "frame_of E' ?pt j = frame_of E ?pt j" "j \<notin> K" "live (E ?pt (pg j))" if "j \<in> J" "live (E' ?pt (pg j))" for j
    using e [OF J [OF that(1)]] that(2) by (auto simp: frame_of_def split: if_splits)
  have "frame_of E' ?pt j \<in> D' - (set (as @ n # bs) \<union> set fs)" if j: "j \<in> J" "live (E' ?pt (pg j))" for j
  proof -
    note s = same [OF j]
    have "frame_of E ?pt i \<noteq> frame_of E ?pt j" if "i \<in> K" for i
      using heap_framesD(3) [OF fr(1) j(1) s(3), of i] that s(2) fr(2,3) by auto
    then have "frame_of E ?pt j \<notin> frame_of E ?pt ` K" by (metis imageE)
    then show ?thesis using heap_framesD(1,2) [OF fr(1) j(1) s(3)] s(1) unfolding D'_def by auto
  qed
  moreover have "inj_on (frame_of E' ?pt) {j \<in> J. live (E' ?pt (pg j))}"
    using heap_framesD(3) [OF fr(1)] same by (intro inj_onI) (metis (mono_tags, lifting) mem_Collect_eq)
  ultimately show "heap_frames D' E' ?pt J (set (as @ n # bs) \<union> set fs)" unfolding heap_frames_def by blast
qed

lemma find_first: "Q n \<Longrightarrow> (\<And>m. m \<in> set as \<Longrightarrow> \<not> Q m) \<Longrightarrow> find Q (as @ n # bs) = Some n"
  by (induction as) auto

text \<open>The pages of a block in use are pages of the heap, and mapped.\<close>

lemma used_pages:
  assumes ok: "malloc_ok L m D E C P us fs" and n: "n \<in> set us" and j: "j \<in> pages (block C n)"
  shows "j \<in> heap_pages_of L P" "live (E (pagetable P) (pg j))"
    "4096 * ((fst (block C n) + snd (block C n) + 4095) div 4096) \<le> 2 ^ 38"
proof -
  note o = malloc_okD [OF ok]
  have "inside (unat (heap_bottom P)) (unat (heap_top P)) (block C n)" using blocks_okD(1) [OF o(2), of n] n by simp
  note f = block_pages_fit [OF this o(6,7) j]
  have "j < L div 4096" using f(2) o(7) by auto
  then show "j \<in> heap_pages_of L P" using f(1) by (simp add: heap_pages_of_def)
  show "live (E (pagetable P) (pg j))" by (rule pages_okD(1) [OF o(3) n j])
  show "4096 * ((fst (block C n) + snd (block C n) + 4095) div 4096) \<le> 2 ^ 38" using f(3) o(8) by simp
qed

lemma used_at:
  assumes ok: "malloc_ok L m D E C P (as @ n # bs) fs"
  shows "find (\<lambda>m. C m M_va = C n M_va) (as @ n # bs) = Some n"
proof (rule find_first)
  note o = malloc_okD [OF ok]
  fix m assume m: "m \<in> set as"
  have "m \<noteq> n" using m heap_listsD(3) [OF o(1)] by auto
  then have "apart (block C m) (block C n)" using blocks_okD(2) [OF o(2), of m n] m by simp
  then show "C m M_va \<noteq> C n M_va"
    using blocks_okD(1) [OF o(2), of m] blocks_okD(1) [OF o(2), of n] m by (auto simp: apart_def inside_def block_def)
qed simp

lemma better_free_runs:
  fixes P :: process and L :: nat
  defines "pt \<equiv> pagetable P" and "J \<equiv> heap_pages_of L P"
  assumes hs: "heap_state R D xs E C s0 p P s" and cur: "current s0 tp = Some p" and pt: "pt \<in> R"
    and ok: "malloc_ok L (managed s0) D E C P (as @ n # bs) fs" and fr: "heap_frames D E pt J (set (as @ n # bs) \<union> set fs)"
  defines "K \<equiv> pages (block C n) - {j. \<exists>q\<in>set (as @ bs). j \<in> pages (block C q)}"
  shows "runs (user_better_free tp (C n M_va)) s (\<lambda>_ t. \<exists>C' a. unmapped R pt K D E C' s0 p (P\<lparr>malloc_list := a, malloc_free_list := n\<rparr>) t \<and>
      heap_lists (managed s0) D C' a (as @ bs) n (n # fs) \<and> kept (set (as @ n # bs) \<union> set fs) {} D C D C')"
    (is "runs _ s ?Q")
proof -
  note o = malloc_okD [OF ok]
  note l = heap_listsD [OF o(1)]
  let ?va = "C n M_va" and ?sz = "C n M_size" and ?us = "as @ n # bs"
  let ?a = "unat ?va div 4096" and ?b = "(unat ?va + unat ?sz + 4095) div 4096"
  have n: "n \<in> D" "n \<noteq> 0" "n \<in> set ?us" using l(6,9) by auto
  have pB: "pages (block C n) = {?a..<?b}" by (simp add: block_def pages_def)
  note up = used_pages [OF ok n(3), unfolded pB, folded J_def pt_def]
  have "0 < unat ?sz" using blocks_okD(1) [OF o(2), of n] by (simp add: inside_def block_def)
  then have "?a < ?b" by linarith
  then have fits: "4096 * ?b \<le> 2 ^ 38" using up(3) [of ?a] by (simp add: block_def)
  have body: "runs (kthen (unlink_node p malloc_list_update n) (kthen (node_set n M_prev 0) (kthen (link_front p malloc_free_list malloc_free_list_update n)
      (kbind (kwhile page_loop_bound (\<lambda>page_va. page_va < ?va + ?sz) (\<lambda>page_va. kbind (page_has_other_allocation p page_va) (\<lambda>b.
         kthen (kwhen (\<not> b) (user_vm_unmap pt page_va PGSIZE True)) (kreturn (page_va + PGSIZE)))) (ROUNDDOWN ?va PGSIZE)) (\<lambda>_. kreturn ()))))) s ?Q"
  proof (rule release_runs [OF hs o(1)], goal_cases)
    case (1 t C' a)
    let ?P = "P\<lparr>malloc_list := a, malloc_free_list := n\<rparr>"
    have bl: "block C' q = block C q" if "q \<in> set ?us \<union> set fs" for q using that l(6,7) by (intro block_kept [OF 1(3)]) auto
    have bk: "blocks_ok (unat (heap_bottom P)) (unat (heap_top P)) C' (set (as @ bs))" by (rule blocks_ok_subset [OF o(2)]) (use bl in auto)
    have hl: "heap_lists (managed s0) D C' (malloc_list ?P) (as @ bs) (malloc_free_list ?P) (n # fs)" using 1(2) by simp
    have frn: "heap_frames D E pt J (set (as @ bs) \<union> set (n # fs))" using fr by (simp add: insert_commute Un_commute)
    have "(\<exists>m\<in>set (as @ bs). j \<in> pages (block C' m)) \<longleftrightarrow> (\<exists>m\<in>set (as @ bs). j \<in> pages (block C m))" for j using bl by (intro bex_cong) auto
    then have K: "{?a..<?b} - {j. \<exists>m\<in>set (as @ bs). j \<in> pages (block C' m)} = K" unfolding K_def pB by simp
    show ?case
      by (rule runs_bind [OF unmap_loop_runs [OF 1(1) pt hl bk _ fits _ frn, unfolded K]]) (use up o(6,8) 1(2,3) in \<open>auto simp: kwp_return\<close>)
  qed
  have c: "kwp (kget (\<lambda>s. current s tp)) Q F s = Q (Some p) s" "kwp (kget (\<lambda>s. pagetable (procs s p))) Q' F s = Q' pt s" for Q Q' F
    using heap_stateD(2,3) [OF hs] cur by (simp_all add: kwp_get pt_def)
  note fu = find_free_runs [OF hs o(1) [THEN heap_lists_swap [THEN iffD1]], of "\<lambda>c. c M_va = ?va", unfolded used_at [OF ok] option.case]
  show ?thesis
    unfolding user_better_free_def kwp_bind c option.case list_head_runs [OF hs] fu if_not_P [OF n(2)] node_get_runs [OF hs n(1,2)]
    by (rule body [unfolded kwp_bind])
qed

text \<open>
  C8. The byte-wise heap takes memory back.  When \<^verbatim>\<open>user_better_free\<close> (\<^verbatim>\<open>kernel/process.c\<close>) is called with the address of a block in use, in a process whose heap
  satisfies the invariant (\<open>heap_inv\<close>), then it returns; the block has moved from the blocks in use
  to the freed blocks with its place and size.  Exactly the pages of the block that no other block in use touches are
  unmapped (\<open>cleared\<close>) and their frames are given up, no other entry of any address space changes, so the other blocks in use stay mapped, and the invariant
  holds again.  No data page outside the two lists changes but the frames given up, and no other process does.
\<close>

theorem better_free_block:
  fixes s :: "'z kernel_state_scheme" and p :: nat and C :: contents and as bs :: "u64 list" and n :: u64
  defines "pt \<equiv> pagetable (procs s p)" and "K \<equiv> pages (block C n) - {j. \<exists>q\<in>set (as @ bs). j \<in> pages (block C q)}"
  assumes inv: "heap_inv R L D xs E C p (as @ n # bs) fs s" and cur: "current s tp = Some p" and va: "C n M_va = va"
  shows "\<exists>t ys C'. user_better_free tp va s = (Inr (), t) \<and>
    heap_inv R L (D - frame_of E pt ` K) ys (cleared E pt K) C' p (as @ bs) (n # fs) t \<and>
    (\<forall>q\<in>set (as @ n # bs) \<union> set fs. block C' q = block C q) \<and>
    (\<forall>d\<in>D. d \<notin> set (as @ n # bs) \<union> set fs \<longrightarrow> C' d = C d) \<and> (\<forall>q. q \<noteq> p \<longrightarrow> procs t q = procs s q)"
proof -
  let ?us = "as @ n # bs" and ?P = "procs s p" and ?D = "D - frame_of E pt ` K" and ?E = "cleared E pt K"
  note I = heap_invD [OF inv]
  note l = heap_listsD [OF malloc_okD(1) [OF I(3)]]
  obtain t ys C' a where run: "user_better_free tp va s = (Inr (), t)" and
    t: "heap_state R ?D ys ?E C' s p (?P\<lparr>malloc_list := a, malloc_free_list := n\<rparr>) t"
      "heap_lists (managed s) D C' a (as @ bs) n (n # fs)" "kept (set ?us \<union> set fs) {} D C D C'"
    using kwp_total_unit [OF better_free_runs [OF I(1) cur I(2,3,4)]] unfolding va K_def [symmetric] unmapped_def pt_def [symmetric] by blast
  note h = heap_stateD [OF t(1)]
  note up = used_pages [OF I(3), of n, folded pt_def]
  have "malloc_ok L (managed s) ?D ?E C' (?P\<lparr>malloc_list := a, malloc_free_list := n\<rparr>) (as @ bs) (n # fs)"
    "heap_frames ?D ?E pt (heap_pages_of L ?P) (set ?us \<union> set fs)"
    unfolding pt_def by (rule malloc_ok_release [OF I(3) t(2,3) _ I(4)]; use up I(5) in \<open>auto simp: K_def pt_def\<close>)+
  then have "heap_inv R L ?D ys ?E C' p (as @ bs) (n # fs) t"
    using h I(2) by (simp add: heap_inv_def subset_iff heap_pages_of_def pt_def insert_commute Un_commute)
  moreover have "block C' q = block C q" if "q \<in> set ?us \<union> set fs" for q using that l(6,7) by (intro block_kept [OF t(3)]) auto
  moreover have "C' d = C d" if "d \<in> D" "d \<notin> set ?us \<union> set fs" for d using keptD(2) [OF t(3) that] .
  ultimately show ?thesis
    using run h(2) by (intro exI [of _ t] exI [of _ ys] exI [of _ C']) simp
qed

theorem better_free_block_witness:
  "\<exists>t. user_better_free 0 0x4000000 demo_heap = (Inr (), t) \<and> pt_entry (pmem t) 0x80008000 (pg 0x4000) = 0 \<and> malloc_list (procs t 3) = 0"
proof -
  have s: "current demo_heap 0 = Some 3" "pagetable (procs demo_heap 3) = 0x80008000" "pmem demo_heap 0x8000c000 M_va = 0x4000000"
    by (simp_all add: demo_heap_def demo_node_def)
  have K: "pages (block (pmem demo_heap) 0x8000c000) - {j. \<exists>q\<in>set ([] @ []). j \<in> pages (block (pmem demo_heap) q)} = {0x4000}"
    by (auto simp: demo_heap_blocks pages_def)
  have inv: "heap_inv {0x80008000} 0x4001000 {0x8000b000, 0x8000c000, 0x8000d000} demo_heap_free (pt_entry (pmem demo_heap)) (pmem demo_heap) 3
      ([] @ 0x8000c000 # []) [0x8000d000] demo_heap" using demo_heap_holds by simp
  let ?E = "cleared (pt_entry (pmem demo_heap)) 0x80008000 {0x4000}"
  obtain t ys D' C' where t: "user_better_free 0 0x4000000 demo_heap = (Inr (), t)" "heap_inv {0x80008000} 0x4001000 D' ys ?E C' 3 ([] @ []) [0x8000c000, 0x8000d000] t"
    using better_free_block [OF inv s(1,3), unfolded s(2) K] by blast
  note I = heap_invD [OF t(2)]
  have "pg 0x4000 < MAXVA" by (simp add: word_less_nat_alt unat_pg unat_MAXVA)
  then have "pt_entry (pmem t) 0x80008000 (pg 0x4000) = 0" using spaceD(4) [OF heap_stateD(1) [OF I(1)], of "0x80008000"] by (simp add: cleared_page)
  moreover have "malloc_list (procs t 3) = 0" using heap_listsD(1) [OF malloc_okD(1) [OF I(3)]] by simp
  ultimately show ?thesis using t(1) by blast
qed

end
