(* ===== verification/User_Lib.thy ===== *)
theory User_Lib
  imports Strap Snprintf Heap_Pages
begin

text \<open>
  The library of the applications, \<^verbatim>\<open>user/user_lib.c\<close>, with the numbers of the system calls.

  What happens at an \<^verbatim>\<open>ecall\<close> is the parameter \<open>K\<close>: a function of the registers \<^verbatim>\<open>a0\<close> to \<^verbatim>\<open>a7\<close> that runs the kernel and gives the
  register \<^verbatim>\<open>a0\<close> of the resumed process.  The kernel's own \<^verbatim>\<open>do_syscall\<close> is an instance of it for the calls that
  return to the process they came from.  The functions that use the memory of the process work on a pair of that
  memory and whatever the kernel keeps.
\<close>

unbundle bit_operations_syntax

section \<open>Numbers of the calls\<close>

definition SYS_user_print :: u64 where "SYS_user_print = SYS_user_base + 0"
definition SYS_user_exit :: u64 where "SYS_user_exit = SYS_user_base + 1"
definition SYS_user_allocate_page :: u64 where "SYS_user_allocate_page = SYS_user_base + 2"
definition SYS_user_free_page :: u64 where "SYS_user_free_page = SYS_user_base + 3"
definition SYS_user_fork :: u64 where "SYS_user_fork = SYS_user_base + 4"
definition SYS_user_yield :: u64 where "SYS_user_yield = SYS_user_base + 5"
definition SYS_user_open :: u64 where "SYS_user_open = SYS_user_base + 17"
definition SYS_user_read :: u64 where "SYS_user_read = SYS_user_base + 18"
definition SYS_user_write :: u64 where "SYS_user_write = SYS_user_base + 19"
definition SYS_user_lseek :: u64 where "SYS_user_lseek = SYS_user_base + 20"
definition SYS_user_stat :: u64 where "SYS_user_stat = SYS_user_base + 21"
definition SYS_user_disk_stat :: u64 where "SYS_user_disk_stat = SYS_user_base + 22"
definition SYS_user_close :: u64 where "SYS_user_close = SYS_user_base + 23"
definition SYS_user_opendir :: u64 where "SYS_user_opendir = SYS_user_base + 24"
definition SYS_user_readdir :: u64 where "SYS_user_readdir = SYS_user_base + 25"
definition SYS_user_mkdir :: u64 where "SYS_user_mkdir = SYS_user_base + 26"
definition SYS_user_closedir :: u64 where "SYS_user_closedir = SYS_user_base + 27"
definition SYS_user_link :: u64 where "SYS_user_link = SYS_user_base + 28"
definition SYS_user_unlink :: u64 where "SYS_user_unlink = SYS_user_base + 29"
definition SYS_user_exec :: u64 where "SYS_user_exec = SYS_user_base + 30"
definition SYS_user_wait :: u64 where "SYS_user_wait = SYS_user_base + 31"
definition SYS_user_semNew :: u64 where "SYS_user_semNew = SYS_user_base + 32"
definition SYS_user_semP :: u64 where "SYS_user_semP = SYS_user_base + 33"
definition SYS_user_semV :: u64 where "SYS_user_semV = SYS_user_base + 34"
definition SYS_user_printpa :: u64 where "SYS_user_printpa = SYS_user_base + 35"
definition SYS_user_better_allocate_page :: u64 where "SYS_user_better_allocate_page = SYS_user_base + 36"
definition SYS_user_better_free_page :: u64 where "SYS_user_better_free_page = SYS_user_base + 37"
definition SYS_user_print_backtrace :: u64 where "SYS_user_print_backtrace = SYS_user_base + 38"
definition SYS_user_scanf :: u64 where "SYS_user_scanf = SYS_user_base + 39"
definition SYS_user_rcwd :: u64 where "SYS_user_rcwd = SYS_user_base + 40"
definition SYS_user_ccwd :: u64 where "SYS_user_ccwd = SYS_user_base + 41"

lemmas SYS_user_defs = SYS_user_base_def SYS_user_print_def SYS_user_exit_def SYS_user_allocate_page_def SYS_user_free_page_def SYS_user_fork_def SYS_user_yield_def SYS_user_open_def SYS_user_read_def SYS_user_write_def SYS_user_lseek_def SYS_user_stat_def SYS_user_disk_stat_def SYS_user_close_def SYS_user_opendir_def SYS_user_readdir_def SYS_user_mkdir_def SYS_user_closedir_def SYS_user_link_def SYS_user_unlink_def SYS_user_exec_def SYS_user_wait_def SYS_user_semNew_def SYS_user_semP_def SYS_user_semV_def SYS_user_printpa_def SYS_user_better_allocate_page_def SYS_user_better_free_page_def SYS_user_print_backtrace_def SYS_user_scanf_def SYS_user_rcwd_def SYS_user_ccwd_def

section \<open>The call\<close>

type_synonym 's ecall = "(nat \<Rightarrow> u64) \<Rightarrow> ('s, u64) km"

text \<open>\<^verbatim>\<open>sw a0, %0\<close> keeps 32 bits of the result, which the return converts back to 64 bits with their sign.\<close>

definition call_result :: "u64 \<Rightarrow> u64" where
  "call_result a0 = scast (ucast a0 :: i32)"

definition do_user_call :: "'s ecall \<Rightarrow> u64 \<Rightarrow> u64 \<Rightarrow> u64 \<Rightarrow> u64 \<Rightarrow> u64 \<Rightarrow> u64 \<Rightarrow> u64 \<Rightarrow> u64 \<Rightarrow> ('s, u64) km" where
  "do_user_call K sysnum a1 a2 a3 a4 a5 a6 a7 =
     kbind (K (\<lambda>i. if i < 8 then [sysnum, a1, a2, a3, a4, a5, a6, a7] ! i else 0)) (\<lambda>a0. kreturn (call_result a0))"

definition int_call :: "('s, u64) km \<Rightarrow> ('s, int) km" where
  "int_call m = kbind m (\<lambda>r. kreturn (as_int r))"

definition void_call :: "('s, u64) km \<Rightarrow> ('s, unit) km" where
  "void_call m = kbind m (\<lambda>_. kreturn ())"

section \<open>Text\<close>

definition on_memory :: "(bmem, 'a) km \<Rightarrow> (bmem \<times> 'k, 'a) km" where
  "on_memory f = (\<lambda>(m, k). case f m of (r, m') \<Rightarrow> (r, (m', k)))"

text \<open>\<open>out\<close> is the address of the local buffer of 256 bytes, \<open>vl\<close> are the arguments after the format.\<close>

definition printu :: "(bmem \<times> 'k) ecall \<Rightarrow> u64 \<Rightarrow> u64 \<Rightarrow> u64 list \<Rightarrow> (bmem \<times> 'k, int) km" where
  "printu K out s vl = kbind (on_memory (vsnprintf out 256 s vl)) (\<lambda>res.
     let n = if word_of_int res < (256 :: u64) then word_of_int res else 256 in
     int_call (do_user_call K SYS_user_print out n 0 0 0 0 0))"

definition is_space :: "u8 \<Rightarrow> bool" where
  "is_space c \<longleftrightarrow> c = 32 \<or> c = 10 \<or> c = 9"

text \<open>The loop of \<^verbatim>\<open>scanfu\<close> at index \<open>i\<close> of the local buffer, of which \<open>n\<close> bytes are left.\<close>

primrec scan_word :: "nat \<Rightarrow> u64 \<Rightarrow> u64 \<Rightarrow> u64 \<Rightarrow> (bmem, u64) km" where
  "scan_word 0 inb out i = kraise (Fault ''in'')"
| "scan_word (Suc n) inb out i = kbind (kget (\<lambda>m. m (inb + i))) (\<lambda>c.
     if c \<noteq> 0 \<and> \<not> is_space c then kthen (kput (\<lambda>m. m(out + i := c))) (scan_word n inb out (i + 1))
     else kreturn i)"

text \<open>\<open>inb\<close> is the address of the local buffer \<^verbatim>\<open>in\<close>, and \<open>out\<close> the argument after the format.\<close>

definition scanfu :: "(bmem \<times> 'k) ecall \<Rightarrow> u64 \<Rightarrow> u64 \<Rightarrow> u64 \<Rightarrow> (bmem \<times> 'k, int) km" where
  "scanfu K inb fmt out = kbind (kget fst) (\<lambda>m.
     if \<not> (fmt \<noteq> 0 \<and> m fmt = 37 \<and> m (fmt + 1) = 115 \<and> m (fmt + 2) = 0) then kreturn 0
     else kbind (do_user_call K SYS_user_scanf inb 0 0 0 0 0 0) (\<lambda>_.
       kbind (on_memory (scan_word 256 inb out 0)) (\<lambda>i.
       kthen (on_memory (kput (\<lambda>m. m(out + i := 0)))) (kreturn 1))))"

section \<open>The other calls\<close>

text \<open>An \<^verbatim>\<open>int\<close> argument is converted with its sign.\<close>

definition printpa :: "'s ecall \<Rightarrow> u64 \<Rightarrow> ('s, unit) km" where
  "printpa K va = void_call (do_user_call K SYS_user_printpa va 0 0 0 0 0 0)"

definition exit :: "'s ecall \<Rightarrow> int \<Rightarrow> ('s, int) km" where
  "exit K code = int_call (do_user_call K SYS_user_exit (word_of_int code) 0 0 0 0 0 0)"

definition naive_malloc :: "'s ecall \<Rightarrow> ('s, u64) km" where
  "naive_malloc K = do_user_call K SYS_user_allocate_page 0 0 0 0 0 0 0"

definition naive_free :: "'s ecall \<Rightarrow> u64 \<Rightarrow> ('s, unit) km" where
  "naive_free K va = void_call (do_user_call K SYS_user_free_page va 0 0 0 0 0 0)"

definition better_malloc :: "'s ecall \<Rightarrow> int \<Rightarrow> ('s, u64) km" where
  "better_malloc K n = do_user_call K SYS_user_better_allocate_page (word_of_int n) 0 0 0 0 0 0"

definition better_free :: "'s ecall \<Rightarrow> u64 \<Rightarrow> ('s, unit) km" where
  "better_free K va = void_call (do_user_call K SYS_user_better_free_page va 0 0 0 0 0 0)"

definition fork :: "'s ecall \<Rightarrow> ('s, int) km" where
  "fork K = int_call (do_user_call K SYS_user_fork 0 0 0 0 0 0 0)"

definition yield :: "'s ecall \<Rightarrow> ('s, unit) km" where
  "yield K = void_call (do_user_call K SYS_user_yield 0 0 0 0 0 0 0)"

definition open_u :: "'s ecall \<Rightarrow> u64 \<Rightarrow> int \<Rightarrow> ('s, int) km" where
  "open_u K pathname flags = int_call (do_user_call K SYS_user_open pathname (word_of_int flags) 0 0 0 0 0)"

definition read_u :: "'s ecall \<Rightarrow> int \<Rightarrow> u64 \<Rightarrow> u64 \<Rightarrow> ('s, int) km" where
  "read_u K fd buf count = int_call (do_user_call K SYS_user_read (word_of_int fd) buf count 0 0 0 0)"

definition write_u :: "'s ecall \<Rightarrow> int \<Rightarrow> u64 \<Rightarrow> u64 \<Rightarrow> ('s, int) km" where
  "write_u K fd buf count = int_call (do_user_call K SYS_user_write (word_of_int fd) buf count 0 0 0 0)"

definition lseek_u :: "'s ecall \<Rightarrow> int \<Rightarrow> int \<Rightarrow> int \<Rightarrow> ('s, int) km" where
  "lseek_u K fd offset whence = int_call (do_user_call K SYS_user_lseek (word_of_int fd) (word_of_int offset) (word_of_int whence) 0 0 0 0)"

definition stat_u :: "'s ecall \<Rightarrow> int \<Rightarrow> u64 \<Rightarrow> ('s, int) km" where
  "stat_u K fd istat = int_call (do_user_call K SYS_user_stat (word_of_int fd) istat 0 0 0 0 0)"

definition disk_stat_u :: "'s ecall \<Rightarrow> int \<Rightarrow> u64 \<Rightarrow> ('s, int) km" where
  "disk_stat_u K fd istat = int_call (do_user_call K SYS_user_disk_stat (word_of_int fd) istat 0 0 0 0 0)"

definition opendir_u :: "'s ecall \<Rightarrow> u64 \<Rightarrow> ('s, int) km" where
  "opendir_u K dirname = int_call (do_user_call K SYS_user_opendir dirname 0 0 0 0 0 0)"

definition readdir_u :: "'s ecall \<Rightarrow> int \<Rightarrow> u64 \<Rightarrow> ('s, int) km" where
  "readdir_u K fd dir = int_call (do_user_call K SYS_user_readdir (word_of_int fd) dir 0 0 0 0 0)"

definition mkdir_u :: "'s ecall \<Rightarrow> u64 \<Rightarrow> ('s, int) km" where
  "mkdir_u K pathname = int_call (do_user_call K SYS_user_mkdir pathname 0 0 0 0 0 0)"

definition closedir_u :: "'s ecall \<Rightarrow> int \<Rightarrow> ('s, int) km" where
  "closedir_u K fd = int_call (do_user_call K SYS_user_closedir (word_of_int fd) 0 0 0 0 0 0)"

definition link_u :: "'s ecall \<Rightarrow> u64 \<Rightarrow> u64 \<Rightarrow> ('s, int) km" where
  "link_u K fn1 fn2 = int_call (do_user_call K SYS_user_link fn1 fn2 0 0 0 0 0)"

definition unlink_u :: "'s ecall \<Rightarrow> u64 \<Rightarrow> ('s, int) km" where
  "unlink_u K fn = int_call (do_user_call K SYS_user_unlink fn 0 0 0 0 0 0)"

definition close_u :: "'s ecall \<Rightarrow> int \<Rightarrow> ('s, int) km" where
  "close_u K fd = int_call (do_user_call K SYS_user_close (word_of_int fd) 0 0 0 0 0 0)"

definition exec :: "'s ecall \<Rightarrow> u64 \<Rightarrow> u64 \<Rightarrow> ('s, int) km" where
  "exec K pathname argv = int_call (do_user_call K SYS_user_exec pathname argv 0 0 0 0 0)"

definition wait :: "'s ecall \<Rightarrow> int \<Rightarrow> ('s, int) km" where
  "wait K p = int_call (do_user_call K SYS_user_wait (word_of_int p) 0 0 0 0 0 0)"

definition sem_new :: "'s ecall \<Rightarrow> int \<Rightarrow> ('s, int) km" where
  "sem_new K init_val = int_call (do_user_call K SYS_user_semNew (word_of_int init_val) 0 0 0 0 0 0)"

definition sem_P :: "'s ecall \<Rightarrow> int \<Rightarrow> ('s, unit) km" where
  "sem_P K sid = void_call (do_user_call K SYS_user_semP (word_of_int sid) 0 0 0 0 0 0)"

definition sem_V :: "'s ecall \<Rightarrow> int \<Rightarrow> ('s, unit) km" where
  "sem_V K sid = void_call (do_user_call K SYS_user_semV (word_of_int sid) 0 0 0 0 0 0)"

definition print_backtrace :: "'s ecall \<Rightarrow> int \<Rightarrow> ('s, int) km" where
  "print_backtrace K depth = int_call (do_user_call K SYS_user_print_backtrace (word_of_int depth) 0 0 0 0 0 0)"

definition read_cwd :: "'s ecall \<Rightarrow> u64 \<Rightarrow> ('s, int) km" where
  "read_cwd K path = int_call (do_user_call K SYS_user_rcwd path 0 0 0 0 0 0)"

definition change_cwd :: "'s ecall \<Rightarrow> u64 \<Rightarrow> ('s, int) km" where
  "change_cwd K path = int_call (do_user_call K SYS_user_ccwd path 0 0 0 0 0 0)"

lemmas user_call_defs = do_user_call_def int_call_def void_call_def printpa_def exit_def naive_malloc_def naive_free_def better_malloc_def better_free_def fork_def yield_def open_u_def read_u_def write_u_def lseek_u_def stat_u_def disk_stat_u_def opendir_u_def readdir_u_def mkdir_u_def closedir_u_def link_u_def unlink_u_def close_u_def exec_def wait_def sem_new_def sem_P_def sem_V_def print_backtrace_def read_cwd_def change_cwd_def

section \<open>The calls reach the kernel\<close>

text \<open>What a process gets from a handler of the kernel.\<close>

definition user_gets :: "('s, u64) km \<Rightarrow> ('s, u64) km" where
  "user_gets m = kbind m (\<lambda>a0. kreturn (call_result a0))"

text \<open>
  Library and kernel agree on every call: with the kernel's dispatcher \<open>K\<close> behind the \<^verbatim>\<open>ecall\<close>, each function of the
  library runs its own handler with its own arguments and returns the low 32 bits of the handler's result with their sign.
\<close>

theorem calls_reach_handlers:
  fixes E :: sys_env and tp :: nat and K :: "'z fs_state_scheme ecall"
  defines "K \<equiv> do_syscall E tp" and "F \<equiv> host_of E"
  shows "printpa K va = void_call (user_gets (sys_user_printpa tp va)) \<and>
    exit K code = int_call (user_gets (sys_user_exit tp (word_of_int code))) \<and>
    naive_malloc K = user_gets (sys_user_allocate_page tp) \<and>
    naive_free K va = void_call (user_gets (sys_user_free_page tp va)) \<and>
    better_malloc K n = user_gets (sys_user_better_allocate_page tp (word_of_int n)) \<and>
    better_free K va = void_call (user_gets (sys_user_better_free_page tp va)) \<and>
    fork K = int_call (user_gets (sys_user_fork E tp)) \<and>
    yield K = void_call (user_gets (sys_user_yield tp)) \<and>
    open_u K path flags = int_call (user_gets (sys_user_open F tp path (word_of_int flags))) \<and>
    read_u K fd buf count = int_call (user_gets (sys_user_read E tp (word_of_int fd) buf count)) \<and>
    write_u K fd buf count = int_call (user_gets (sys_user_write E tp (word_of_int fd) buf count)) \<and>
    lseek_u K fd offset whence = int_call (user_gets (sys_user_lseek F tp (word_of_int fd) (word_of_int offset) (word_of_int whence))) \<and>
    stat_u K fd st = int_call (user_gets (sys_user_stat tp (word_of_int fd) st)) \<and>
    disk_stat_u K fd st = int_call (user_gets (sys_user_disk_stat tp (word_of_int fd) st)) \<and>
    opendir_u K path = int_call (user_gets (sys_user_opendir F tp path)) \<and>
    readdir_u K fd dir = int_call (user_gets (sys_user_readdir tp (word_of_int fd) dir)) \<and>
    mkdir_u K path = int_call (user_gets (sys_user_mkdir F tp path)) \<and>
    closedir_u K fd = int_call (user_gets (sys_user_closedir tp (word_of_int fd))) \<and>
    link_u K path path2 = int_call (user_gets (sys_user_link F tp path path2)) \<and>
    unlink_u K path = int_call (user_gets (sys_user_unlink F tp path)) \<and>
    close_u K fd = int_call (user_gets (sys_user_close F tp (word_of_int fd))) \<and>
    exec K path argv = int_call (user_gets (sys_user_exec E tp path argv)) \<and>
    wait K p = int_call (user_gets (kword (sys_user_wait tp (as_int (word_of_int p))))) \<and>
    sem_new K v = int_call (user_gets (sys_user_semNew (word_of_int v))) \<and>
    sem_P K sid = void_call (user_gets (sys_user_semP tp (word_of_int sid))) \<and>
    sem_V K sid = void_call (user_gets (sys_user_semV (word_of_int sid))) \<and>
    print_backtrace K n = int_call (user_gets (sys_user_print_backtrace E tp (word_of_int n))) \<and>
    read_cwd K path = int_call (user_gets (sys_user_read_cwd tp path)) \<and>
    change_cwd K path = int_call (user_gets (sys_user_change_cwd F tp path))"
  by (intro conjI) (simp_all add: K_def F_def user_call_defs user_gets_def do_syscall_def Let_def SYS_user_defs)

section \<open>Results\<close>

text \<open>A result below \<open>2 ^ 31\<close> survives the 32 bits; all addresses of applications are below.\<close>

lemma call_result_id: "unat r < 2 ^ 31 \<Longrightarrow> call_result r = r"
proof -
  assume r: "unat r < 2 ^ 31"
  have "\<not> bit r n" if "31 \<le> n" for n
  proof -
    have "r < 0x80000000" using r by (simp add: word_less_nat_alt)
    then have "uint r < 2 ^ 31" by (simp add: word_less_def)
    then have "take_bit 31 (uint r) = uint r" by (simp add: take_bit_int_eq_self)
    then have "\<not> bit (uint r) n" using that by (metis bit_take_bit_iff not_less)
    then show ?thesis by (metis bit_uint_iff bit_imp_le_length not_less)
  qed
  then show ?thesis unfolding call_result_def
    by (intro bit_word_eqI) (auto simp: bit_simps min_def split: if_splits)
qed

text \<open>
  C35. Freeing and allocating a page from the application: when the application frees a heap page of its own with
  \<^verbatim>\<open>naive_free\<close> and asks for a page with \<^verbatim>\<open>naive_malloc\<close>, it gets the same address back although the library cuts the
  result to 32 bits; in between the page is not mapped, afterwards it is mapped for reading and writing to the frame it had, with one
  reference, and all other entries are as at the start.
\<close>

theorem naive_free_malloc:
  fixes s :: "'z fs_state_scheme" and p :: nat and va :: u64
  defines "pr \<equiv> procs s p"
  defines "pt \<equiv> pagetable pr"
  defines "e \<equiv> pt_entry (pmem s) pt va"
  assumes inv: "vm_inv R s xs" "pt \<in> R" and cur: "current s tp = Some p"
    and va: "page_aligned va" "va < heap_top pr" "va < USER_STACK_TOP"
    and e: "e AND PTE_V \<noteq> 0" "PTE_FLAGS e \<noteq> PTE_V" and n: "unat (free_pages_count pr) < MAX_HEAP_PAGES"
    and pa: "managed s (PTE2PA e)" "PTE2PA e \<notin> set xs" "\<And>pd is. \<not> is_table R (pmem s) pd is (PTE2PA e)" "ref_of s (PTE2PA e) = 1"
    and len: "2 \<le> length xs"
  shows "\<exists>t u ys. naive_free (do_syscall E tp) va s = (Inr (), t) \<and> pt_entry (pmem t) pt va = 0 \<and>
    naive_malloc (do_syscall E tp) t = (Inr va, u) \<and> vm_inv R u ys \<and> ref_of u (PTE2PA e) = 1 \<and>
    (\<forall>pd'\<in>R. \<forall>va'<MAXVA. pt_entry (pmem u) pd' va' =
       (if pd' = pt \<and> ROUNDDOWN va' PGSIZE = va then PA2PTE (PTE2PA e) OR scast user_rw OR PTE_V else pt_entry (pmem s) pd' va'))"
proof -
  have b: "unat va < 0x7ffff000" using va(3) by (simp add: word_less_nat_alt USER_STACK_TOP_def)
  then have "unat va + 4096 \<le> unat MAXVA" by (simp add: MAXVA_def push_bit_eq_mult)
  from free_then_allocate_page [of R s xs p tp va, folded pr_def, folded pt_def, folded e_def, OF inv cur va(1) this va(2) e n pa len]
  obtain t u ys where r: "sys_user_free_page tp va s = (Inr 0, t)" "sys_user_allocate_page tp t = (Inr va, u)"
    and rest: "pt_entry (pmem t) pt va = 0" "vm_inv R u ys" "ref_of u (PTE2PA e) = 1"
      "\<forall>pd'\<in>R. \<forall>va'<MAXVA. pt_entry (pmem u) pd' va' =
       (if pd' = pt \<and> ROUNDDOWN va' PGSIZE = va then PA2PTE (PTE2PA e) OR scast user_rw OR PTE_V else pt_entry (pmem s) pd' va')"
    by auto
  have "naive_free (do_syscall E tp) va s = (Inr (), t)" "naive_malloc (do_syscall E tp) t = (Inr va, u)"
    using r b by (simp_all add: user_call_defs do_syscall_def Let_def SYS_user_defs kbind_def kreturn_def call_result_id)
  then show ?thesis using rest by blast
qed

theorem naive_free_malloc_witness:
  "\<exists>t u. naive_free (do_syscall demo_env 0) 0x10000 (demo_task 0x200018d7 1) = (Inr (), t) \<and> pt_entry (pmem t) demo_root 0x10000 = 0 \<and>
     naive_malloc (do_syscall demo_env 0) t = (Inr 0x10000, u) \<and> ref_of u 0x80006000 = 1 \<and>
     pt_entry (pmem u) demo_root 0x10000 = PA2PTE 0x80006000 OR scast user_rw OR PTE_V"
proof -
  have e: "pt_entry (pmem (demo_task 0x200018d7 1)) demo_root 0x10000 = 0x200018d7"
    by (rule demo_task_entry) (simp add: ROUNDDOWN_def PGSIZE_def)
  have pa: "PTE2PA 0x200018d7 = 0x80006000" by (simp add: PTE2PA_def)
  have rd: "ROUNDDOWN 0x10000 PGSIZE = 0x10000" by (simp add: ROUNDDOWN_def PGSIZE_def)
  have fl: "(0x200018d7 :: u64) AND PTE_V \<noteq> 0" "PTE_FLAGS 0x200018d7 \<noteq> PTE_V" "page_aligned 0x10000" "(0x10000 :: u64) < MAXVA"
    "(0x10000 :: u64) < USER_STACK_TOP"
    by (simp_all add: PTE_FLAGS_def PTE_V_def PGSIZE_def MAXVA_def USER_STACK_TOP_def)
  show ?thesis
    using naive_free_malloc [of "{demo_root}" "demo_task 0x200018d7 1" "[0x80001000, 0x80002000, 0x80009000, 0x8000a000]" 3 0 "0x10000",
        unfolded demo_task_simps e pa demo_task_tables, OF demo_task_inv, of demo_env]
    by (simp add: fl demo_task_simps(1,4,5) MAX_HEAP_PAGES_def)
      (elim exE conjE, intro exI conjI, assumption+, simp add: fl rd)
qed

section \<open>Reading a word\<close>

definition put_word :: "bmem \<Rightarrow> u64 \<Rightarrow> u8 list \<Rightarrow> nat \<Rightarrow> bmem" where
  "put_word m out w n = (\<lambda>a. if unat (a - out) < n then w ! unat (a - out) else m a)"

lemma put_word_Suc: "n < 2 ^ 64 - 1 \<Longrightarrow> (put_word m out w n)(out + of_nat n := w ! n) = put_word m out w (Suc n)"
proof
  fix a assume "n < 2 ^ 64 - 1"
  then have u: "unat (of_nat n :: u64) = n" by (simp add: unat_of_nat64)
  have "a = out + of_nat n \<longleftrightarrow> unat (a - out) = n"
    by (metis u add_diff_cancel_left' diff_add_cancel add.commute word_unat_eq_iff)
  then show "((put_word m out w n)(out + of_nat n := w ! n)) a = put_word m out w (Suc n) a"
    using u by (auto simp: put_word_def less_Suc_eq)
qed

lemma scan_word_eq:
  assumes line: "\<And>j. j < length w \<Longrightarrow> m (inb + of_nat j) = w ! j \<and> w ! j \<noteq> 0 \<and> \<not> is_space (w ! j)"
    and stop: "m (inb + of_nat (length w)) = c" "c = 0 \<or> is_space c"
    and apart: "\<And>j i. j \<le> length w \<Longrightarrow> i < length w \<Longrightarrow> inb + of_nat j \<noteq> out + of_nat i"
    and len: "length w < 2 ^ 63" and i: "i \<le> length w" "length w - i < n"
  shows "scan_word n inb out (of_nat i) (put_word m out w i) = (Inr (of_nat (length w)), put_word m out w (length w))"
  using i
proof (induction n arbitrary: i)
  case (Suc n)
  have get: "put_word m out w i (inb + of_nat i) = m (inb + of_nat i)"
  proof -
    have "\<not> unat (inb + of_nat i - out) < i"
    proof
      assume l: "unat (inb + of_nat i - out) < i"
      have "inb + of_nat i = out + of_nat (unat (inb + of_nat i - out))" by simp
      then show False using apart [OF Suc.prems(1), of "unat (inb + of_nat i - out)"] l Suc.prems(1) by simp
    qed
    then show ?thesis by (simp add: put_word_def)
  qed
  show ?case
  proof (cases "i = length w")
    case True
    then show ?thesis using get stop by (auto simp: kbind_def kget_def kreturn_def)
  next
    case False
    then have il: "i < length w" using Suc.prems(1) by simp
    have "(put_word m out w i)(out + of_nat i := w ! i) = put_word m out w (Suc i)"
      using il len by (intro put_word_Suc) simp
    moreover have "scan_word n inb out (of_nat (Suc i)) (put_word m out w (Suc i)) = (Inr (of_nat (length w)), put_word m out w (length w))"
      using il Suc.prems by (intro Suc.IH) simp_all
    ultimately show ?thesis
      using get line [OF il] by (simp add: kbind_def kget_def kthen_def kput_def add.commute)
  qed
qed simp

lemma scanfu_eq:
  fixes K :: "(bmem \<times> 'k) ecall"
  assumes call: "K (\<lambda>i. if i < 8 then [SYS_user_scanf, inb, 0, 0, 0, 0, 0, 0] ! i else 0) (m, k) = (Inr r, (m', k'))"
    and line: "\<forall>j<length w. m' (inb + of_nat j) = w ! j \<and> w ! j \<noteq> 0 \<and> \<not> is_space (w ! j)"
    and stop: "m' (inb + of_nat (length w)) = 0 \<or> is_space (m' (inb + of_nat (length w)))"
    and apart: "\<forall>j\<le>length w. \<forall>i<length w. inb + of_nat j \<noteq> out + of_nat i" and len: "length w < 256"
  shows "scanfu K inb fmt out (m, k) =
    (if fmt \<noteq> 0 \<and> m fmt = 37 \<and> m (fmt + 1) = 115 \<and> m (fmt + 2) = 0
     then (Inr 1, (\<lambda>a. if unat (a - out) < length w then w ! unat (a - out)
                       else if a = out + of_nat (length w) then 0 else m' a, k'))
     else (Inr 0, (m, k)))"
proof -
  have "scan_word 256 inb out (of_nat 0) (put_word m' out w 0) = (Inr (of_nat (length w)), put_word m' out w (length w))"
    using line stop apart len by (intro scan_word_eq [OF _ refl]) auto
  then have w: "scan_word 256 inb out 0 m' = (Inr (of_nat (length w)), put_word m' out w (length w))"
    by (simp add: put_word_def)
  have u: "unat (of_nat (length w) :: u64) = length w" using len by (intro unat_of_nat64) simp
  have "(put_word m' out w (length w))(out + of_nat (length w) := 0) =
    (\<lambda>a. if unat (a - out) < length w then w ! unat (a - out) else if a = out + of_nat (length w) then 0 else m' a)"
    by (auto simp: put_word_def fun_eq_iff u)
  then show ?thesis
    using call w unfolding scanfu_def do_user_call_def
    by (auto simp: kbind_def kget_def kthen_def kput_def kreturn_def on_memory_def)
qed

text \<open>
  Reading a word: with the format \<^verbatim>\<open>%s\<close>, when the kernel fills the buffer with a line whose first word ends within 256 bytes,
  \<^verbatim>\<open>scanfu\<close> returns 1 and has stored exactly this word and a NUL byte at \<open>out\<close>; it changes no other byte.
  Any other format returns 0 without a call.
\<close>

theorem scanfu_word:
  fixes K :: "(bmem \<times> 'k) ecall"
  assumes call: "K (\<lambda>i. if i < 8 then [SYS_user_scanf, inb, 0, 0, 0, 0, 0, 0] ! i else 0) (m, k) = (Inr r, (m', k'))"
    and line: "\<forall>j<length w. m' (inb + of_nat j) = w ! j \<and> w ! j \<noteq> 0 \<and> \<not> is_space (w ! j)"
    and stop: "m' (inb + of_nat (length w)) = 0 \<or> is_space (m' (inb + of_nat (length w)))"
    and apart: "\<forall>j\<le>length w. \<forall>i<length w. inb + of_nat j \<noteq> out + of_nat i" and len: "length w < 256"
  shows "scanfu K inb fmt out (m, k) =
    (if fmt \<noteq> 0 \<and> m fmt = 37 \<and> m (fmt + 1) = 115 \<and> m (fmt + 2) = 0
     then (Inr 1, (\<lambda>a. if unat (a - out) < length w then w ! unat (a - out)
                       else if a = out + of_nat (length w) then 0 else m' a, k'))
     else (Inr 0, (m, k)))"
  using assms by (rule scanfu_eq)

theorem scanfu_word_witness:
  "\<exists>m. scanfu (\<lambda>a (m, k). (Inr 0, (m(0x2000 := 104, 0x2001 := 105, 0x2002 := 10), k))) 0x2000 0x1000 0x3000
     ((\<lambda>_. 0)(0x1000 := 37, 0x1001 := 115), ()) = (Inr 1, (m, ())) \<and> m 0x3000 = 104 \<and> m 0x3001 = 105 \<and> m 0x3002 = 0 \<and> m 0x2000 = 104"
proof -
  let ?m = "(\<lambda>_. 0 :: u8)(0x1000 := 37, 0x1001 := 115, 0x2000 := 104, 0x2001 := 105, 0x2002 := 10) :: bmem"
  have a: "\<forall>j\<le>length [104, 105 :: u8]. \<forall>i<length [104, 105 :: u8]. (0x2000 :: u64) + of_nat j \<noteq> 0x3000 + of_nat i"
    by (simp add: All_less_Suc less_Suc_eq_le [symmetric])
  have l: "\<forall>j<length [104, 105 :: u8]. ?m (0x2000 + of_nat j) = [104, 105] ! j \<and> [104, 105 :: u8] ! j \<noteq> 0 \<and> \<not> is_space ([104, 105] ! j)"
    by (simp add: All_less_Suc is_space_def)
  have e: "?m (0x2000 + of_nat (length [104, 105 :: u8])) = 0 \<or> is_space (?m (0x2000 + of_nat (length [104, 105 :: u8])))"
    by (simp add: is_space_def)
  show ?thesis
    by (subst scanfu_word [where m' = ?m and k' = "()" and r = 0 and w = "[104, 105]", OF _ l e a]) simp_all
qed

end
