(* ===== verification/Shell.thy ===== *)
theory Shell
  imports User_Lib
begin

text \<open>
  The shell that is the first application, \<^verbatim>\<open>user/start.c\<close>, over the user library.

  \<open>K\<close> is what happens at an \<^verbatim>\<open>ecall\<close>.  \<open>shell_vars\<close> has the addresses of the local arrays, of the buffers of \<^verbatim>\<open>printu\<close> and \<^verbatim>\<open>scanfu\<close>, and
  of every string literal.  The body of the loop (\<open>shell_turn\<close>) compares the command character by character, as the source does;
  the reference \<open>shell_spec\<close> looks the word up in a table of commands, and a session of words is related to the
  whole program by rule induction.
\<close>

section \<open>The program\<close>

record shell_vars =
  cmd :: u64
  arg :: u64
  path_buf :: u64
  out_buf :: u64
  in_buf :: u64
  lit :: "string \<Rightarrow> u64"

definition say :: "(bmem \<times> 'k) ecall \<Rightarrow> shell_vars \<Rightarrow> string \<Rightarrow> u64 list \<Rightarrow> (bmem \<times> 'k, unit) km" where
  "say K v fmt vl = kbind (printu K (out_buf v) (lit v fmt) vl) (\<lambda>_. kreturn ())"

definition ask :: "(bmem \<times> 'k) ecall \<Rightarrow> shell_vars \<Rightarrow> u64 \<Rightarrow> (bmem \<times> 'k, unit) km" where
  "ask K v a = kbind (scanfu K (in_buf v) (lit v ''%s'') a) (\<lambda>_. kreturn ())"

definition execu :: "'s ecall \<Rightarrow> u64 \<Rightarrow> u64 \<Rightarrow> ('s, unit) km" where
  "execu K path a = kbind (fork K) (\<lambda>pid.
     if pid \<noteq> 0 then kbind (wait K pid) (\<lambda>_. kreturn ())
     else kbind (exec K path a) (\<lambda>_. kreturn ()))"

text \<open>The branches of \<^verbatim>\<open>test1\<close> and \<^verbatim>\<open>test4\<close>: two children at once.\<close>

definition exec_two :: "'s ecall \<Rightarrow> shell_vars \<Rightarrow> string \<Rightarrow> string \<Rightarrow> ('s, unit) km" where
  "exec_two K v p q = kbind (fork K) (\<lambda>pid0.
     if pid0 = 0 then kbind (exec K (lit v p) (lit v [])) (\<lambda>_. kreturn ())
     else kbind (fork K) (\<lambda>pid1.
       if pid1 = 0 then kbind (exec K (lit v q) (lit v [])) (\<lambda>_. kreturn ())
       else kbind (wait K pid0) (\<lambda>_. kbind (wait K pid1) (\<lambda>_. kreturn ()))))"

text \<open>The conjunction of the comparisons \<^verbatim>\<open>p[0] == c0 && p[1] == c1 ...\<close>.\<close>

primrec chars_at :: "bmem \<Rightarrow> u64 \<Rightarrow> u8 list \<Rightarrow> bool" where
  "chars_at m p [] \<longleftrightarrow> True"
| "chars_at m p (c # cs) \<longleftrightarrow> m p = c \<and> chars_at m (p + 1) cs"

abbreviation ascii :: "string \<Rightarrow> u8 list" where
  "ascii s \<equiv> map of_char s"

abbreviation newline :: string where
  "newline \<equiv> [CHR 0x0A]"

definition error_command :: "(bmem \<times> 'k) ecall \<Rightarrow> shell_vars \<Rightarrow> (bmem \<times> 'k, unit) km" where
  "error_command K v = say K v (''Error command: %s'' @ newline) [cmd v]"

definition run_test :: "(bmem \<times> 'k) ecall \<Rightarrow> shell_vars \<Rightarrow> bmem \<Rightarrow> (bmem \<times> 'k, unit) km" where
  "run_test K v m = (let p = cmd v + 4; is = (\<lambda>c. chars_at m p [of_char c, 0]) in
     if is CHR ''2'' then execu K (lit v ''/bin/app_errorline'') (lit v [])
     else if is CHR ''3'' then execu K (lit v ''/bin/app_sum_sequence'') (lit v [])
     else if is CHR ''1'' then exec_two K v ''/bin/app_alloc0'' ''/bin/app_alloc1''
     else if is CHR ''4'' then exec_two K v ''/bin/app0'' ''/bin/app1''
     else if is CHR ''0'' then execu K (lit v ''/bin/app_shell'') (lit v [])
     else error_command K v)"

definition with_arg :: "(bmem \<times> 'k) ecall \<Rightarrow> shell_vars \<Rightarrow> (bmem \<times> 'k, unit) km \<Rightarrow> (bmem \<times> 'k, unit) km" where
  "with_arg K v f = kthen (say K v ''>'' []) (kthen (ask K v (arg v)) f)"

text \<open>The rest of the loop body after the command was read: \<open>True\<close> is \<^verbatim>\<open>break\<close>, \<open>False\<close> the next iteration.\<close>

definition run_command :: "(bmem \<times> 'k) ecall \<Rightarrow> shell_vars \<Rightarrow> bmem \<Rightarrow> (bmem \<times> 'k, bool) km" where
  "run_command K v m = (let is = (\<lambda>s. chars_at m (cmd v) (ascii s @ [0])); next = (\<lambda>f. kthen f (kreturn False)) in
     if is ''q'' then kthen (say K v (''Exit.'' @ newline) []) (kreturn True)
     else if m (cmd v) = 0 then kreturn False
     else if chars_at m (cmd v) (ascii ''test'') then next (run_test K v m)
     else if is ''pwd'' then next (kbind (read_cwd K (path_buf v)) (\<lambda>_. say K v (''cwd:%s'' @ newline) [path_buf v]))
     else if is ''cd'' then next (with_arg K v (kbind (change_cwd K (arg v)) (\<lambda>_. kreturn ())))
     else if is ''cat'' then next (with_arg K v (execu K (lit v ''/bin/app_cat'') (arg v)))
     else if is ''echo'' then next (with_arg K v (execu K (lit v ''/bin/app_echo'') (arg v)))
     else if is ''ls'' then next (with_arg K v (execu K (lit v ''/bin/app_ls'') (arg v)))
     else if is ''mkdir'' then next (with_arg K v (execu K (lit v ''/bin/app_mkdir'') (arg v)))
     else if is ''touch'' then next (with_arg K v (execu K (lit v ''/bin/app_touch'') (arg v)))
     else next (error_command K v))"

definition shell_turn :: "(bmem \<times> 'k) ecall \<Rightarrow> shell_vars \<Rightarrow> (bmem \<times> 'k, bool) km" where
  "shell_turn K v = kthen (say K v ''$ '' []) (kthen (ask K v (cmd v)) (kbind (kget fst) (run_command K v)))"

text \<open>The loop, for at most \<open>n\<close> commands.\<close>

primrec shell_loop :: "nat \<Rightarrow> (bmem \<times> 'k) ecall \<Rightarrow> shell_vars \<Rightarrow> (bmem \<times> 'k, unit) km" where
  "shell_loop 0 K v = kraise Diverge"
| "shell_loop (Suc n) K v = kbind (shell_turn K v) (\<lambda>stop. if stop then kreturn () else shell_loop n K v)"

definition banner :: string where
  "banner = newline @ ''============================START============================'' @ newline @ newline"

definition shell_main :: "nat \<Rightarrow> (bmem \<times> 'k) ecall \<Rightarrow> shell_vars \<Rightarrow> (bmem \<times> 'k, int) km" where
  "shell_main n K v = kthen (say K v banner []) (kthen (shell_loop n K v) (kbind (exit K 0) (\<lambda>_. kreturn 0)))"

section \<open>The commands\<close>

datatype command = Quit | Skip | Exec_One string | Exec_Two string string | Exec_Arg string | Print_Cwd | Change_Cwd | Unknown

definition shell_table :: "(string \<times> command) list" where
  "shell_table = [(''q'', Quit), ([], Skip),
     (''test0'', Exec_One ''/bin/app_shell''), (''test1'', Exec_Two ''/bin/app_alloc0'' ''/bin/app_alloc1''),
     (''test2'', Exec_One ''/bin/app_errorline''), (''test3'', Exec_One ''/bin/app_sum_sequence''),
     (''test4'', Exec_Two ''/bin/app0'' ''/bin/app1''), (''pwd'', Print_Cwd), (''cd'', Change_Cwd),
     (''cat'', Exec_Arg ''/bin/app_cat''), (''echo'', Exec_Arg ''/bin/app_echo''), (''ls'', Exec_Arg ''/bin/app_ls''),
     (''mkdir'', Exec_Arg ''/bin/app_mkdir''), (''touch'', Exec_Arg ''/bin/app_touch'')]"

definition shell_spec :: "u8 list \<Rightarrow> command" where
  "shell_spec w = (case map_of (map (apfst ascii) shell_table) w of None \<Rightarrow> Unknown | Some c \<Rightarrow> c)"

primrec do_command :: "(bmem \<times> 'k) ecall \<Rightarrow> shell_vars \<Rightarrow> command \<Rightarrow> (bmem \<times> 'k, unit) km" where
  "do_command K v Quit = say K v (''Exit.'' @ newline) []"
| "do_command K v Skip = kreturn ()"
| "do_command K v (Exec_One p) = execu K (lit v p) (lit v [])"
| "do_command K v (Exec_Two p q) = exec_two K v p q"
| "do_command K v (Exec_Arg p) = with_arg K v (execu K (lit v p) (arg v))"
| "do_command K v Print_Cwd = kbind (read_cwd K (path_buf v)) (\<lambda>_. say K v (''cwd:%s'' @ newline) [path_buf v])"
| "do_command K v Change_Cwd = with_arg K v (kbind (change_cwd K (arg v)) (\<lambda>_. kreturn ()))"
| "do_command K v Unknown = error_command K v"

lemma chars_at_word:
  assumes "cstring m p w" "0 \<notin> set cs"
  shows "chars_at m p (cs @ [0]) \<longleftrightarrow> w = cs" "chars_at m p cs \<longleftrightarrow> take (length cs) w = cs"
proof -
  have "(chars_at m p (cs @ [0]) \<longleftrightarrow> w = cs) \<and> (chars_at m p cs \<longleftrightarrow> take (length cs) w = cs)" using assms
  proof (induction cs arbitrary: p w)
    case Nil
    then show ?case by (cases w) auto
  next
    case (Cons c cs)
    then show ?case by (cases w) auto
  qed
  then show "chars_at m p (cs @ [0]) \<longleftrightarrow> w = cs" "chars_at m p cs \<longleftrightarrow> take (length cs) w = cs" by simp_all
qed

text \<open>The comparisons of the source find the command that the table has for the word.\<close>

lemma run_command_eq:
  assumes w: "cstring m (cmd v) w"
  shows "run_command K v m = kthen (do_command K v (shell_spec w)) (kreturn (shell_spec w = Quit))"
proof -
  have eq: "chars_at m (cmd v) (ascii ''q'' @ [0]) \<longleftrightarrow> w = ascii ''q''"
    "chars_at m (cmd v) (ascii ''pwd'' @ [0]) \<longleftrightarrow> w = ascii ''pwd''"
    "chars_at m (cmd v) (ascii ''cd'' @ [0]) \<longleftrightarrow> w = ascii ''cd''"
    "chars_at m (cmd v) (ascii ''cat'' @ [0]) \<longleftrightarrow> w = ascii ''cat''"
    "chars_at m (cmd v) (ascii ''echo'' @ [0]) \<longleftrightarrow> w = ascii ''echo''"
    "chars_at m (cmd v) (ascii ''ls'' @ [0]) \<longleftrightarrow> w = ascii ''ls''"
    "chars_at m (cmd v) (ascii ''mkdir'' @ [0]) \<longleftrightarrow> w = ascii ''mkdir''"
    "chars_at m (cmd v) (ascii ''touch'' @ [0]) \<longleftrightarrow> w = ascii ''touch''"
    by (rule chars_at_word(1) [OF w]; simp)+
  have first: "m (cmd v) = 0 \<longleftrightarrow> w = []" using w by (cases w) auto
  have "length (ascii ''test'') = 4" "0 \<notin> set (ascii ''test'')" by simp_all
  note test = chars_at_word(2) [OF w this(2), unfolded this(1)]
  show ?thesis
  proof (cases "take 4 w = ascii ''test''")
    case True
    then have w4: "w = ascii ''test'' @ drop 4 w" by (metis append_take_drop_id)
    have "cstring m (cmd v + of_nat (length (ascii ''test''))) (drop 4 w)" by (rule cstring_drop) (use w w4 in simp)
    then have "cstring m (cmd v + 4) (drop 4 w)" by simp
    note d = chars_at_word(1) [OF this, of "[c]" for c, unfolded append_Cons append_Nil]
    have dig: "chars_at m (cmd v + 4) [of_char CHR ''0'', 0] \<longleftrightarrow> drop 4 w = [of_char CHR ''0'']"
    "chars_at m (cmd v + 4) [of_char CHR ''1'', 0] \<longleftrightarrow> drop 4 w = [of_char CHR ''1'']"
    "chars_at m (cmd v + 4) [of_char CHR ''2'', 0] \<longleftrightarrow> drop 4 w = [of_char CHR ''2'']"
    "chars_at m (cmd v + 4) [of_char CHR ''3'', 0] \<longleftrightarrow> drop 4 w = [of_char CHR ''3'']"
    "chars_at m (cmd v + 4) [of_char CHR ''4'', 0] \<longleftrightarrow> drop 4 w = [of_char CHR ''4'']"
      by (rule d; simp)+
    from w4 obtain u where u: "w = ascii ''test'' @ u" "drop 4 w = u" by blast
    show ?thesis
      unfolding run_command_def run_test_def Let_def test first eq dig u(2) using u(1)
      by (auto simp: shell_spec_def shell_table_def kthen_return)
  next
    case False
    then show ?thesis
      unfolding run_command_def Let_def test first eq by (auto simp: shell_spec_def shell_table_def kthen_return)
  qed
qed

section \<open>Sessions\<close>

text \<open>The shell prompts in state \<open>s\<close> and has then, in state \<open>t\<close>, the word \<open>w\<close> in its array \<^verbatim>\<open>cmd\<close>.\<close>

definition reads :: "(bmem \<times> 'k) ecall \<Rightarrow> shell_vars \<Rightarrow> bmem \<times> 'k \<Rightarrow> u8 list \<Rightarrow> bmem \<times> 'k \<Rightarrow> bool" where
  "reads K v s w t \<longleftrightarrow> kthen (say K v ''$ '' []) (ask K v (cmd v)) s = (Inr (), t) \<and> cstring (fst t) (cmd v) w"

text \<open>The words \<open>ws\<close>, none of which ends the shell, are read and carried out one after the other.\<close>

inductive session :: "(bmem \<times> 'k) ecall \<Rightarrow> shell_vars \<Rightarrow> bmem \<times> 'k \<Rightarrow> u8 list list \<Rightarrow> bmem \<times> 'k \<Rightarrow> bool" for K v where
  session_Nil: "session K v s [] s"
| session_Cons: "session K v s (w # ws) u"
    if "reads K v s w r" "shell_spec w \<noteq> Quit" "do_command K v (shell_spec w) r = (Inr (), t)" "session K v t ws u"

lemma shell_turn_eq:
  assumes "reads K v s w t"
  shows "shell_turn K v s = kthen (do_command K v (shell_spec w)) (kreturn (shell_spec w = Quit)) t"
proof -
  obtain u where "say K v ''$ '' [] s = (Inr (), u)" "ask K v (cmd v) u = (Inr (), t)"
    using assms unfolding reads_def kthen_def kbind_def by (auto split: sum.splits prod.splits)
  then show ?thesis
    using assms run_command_eq [of "fst t" v w K] by (simp add: shell_turn_def reads_def kthen_def kbind_def kget_def)
qed

lemma shell_loop_session:
  assumes "session K v s ws t" "reads K v t (ascii ''q'') u" "length ws < n"
  shows "shell_loop n K v s = say K v (''Exit.'' @ newline) [] u"
  using assms
proof (induction arbitrary: n rule: session.induct)
  case (session_Nil s)
  then obtain k where "n = Suc k" by (cases n) auto
  moreover have "shell_spec (ascii ''q'') = Quit" by (simp add: shell_spec_def shell_table_def)
  moreover have "say K v (''Exit.'' @ newline) [] u = kthen (say K v (''Exit.'' @ newline) []) (kreturn ()) u"
    by (simp add: kthen_def kbind_def kreturn_def split: sum.splits prod.splits)
  ultimately show ?case
    using shell_turn_eq [OF session_Nil.prems(1)] by (simp add: kbind_def kthen_def kreturn_def split: sum.splits prod.splits)
next
  case (session_Cons s w r t ws u')
  then obtain k where "n = Suc k" "length ws < k" by (cases n) auto
  then show ?case
    using shell_turn_eq [OF session_Cons.hyps(1)] session_Cons.hyps(2,3) session_Cons.IH [OF session_Cons.prems(1)]
    by (simp add: kbind_def kthen_def kreturn_def)
qed

text \<open>
  C39. The shell: when its words are read and carried out one after the other as the table of commands says, and then the
  word \<^verbatim>\<open>q\<close> is read, the program has done exactly this after its greeting, takes its leave and exits; it needs one round of its
  loop for each word.  In particular the comparisons of single characters find the command of every word, and a word outside the table is answered with an
  error message.
\<close>

theorem shell_session:
  assumes start: "say K v banner [] s = (Inr (), s1)" and ws: "session K v s1 ws s2"
    and q: "reads K v s2 (ascii ''q'') s3" "say K v (''Exit.'' @ newline) [] s3 = (Inr (), s4)"
    and n: "length ws < n"
  shows "shell_main n K v s = kbind (exit K 0) (\<lambda>_. kreturn 0) s4"
  using shell_loop_session [OF ws q(1) n] start q(2) by (simp add: shell_main_def kthen_def kbind_def)

text \<open>A terminal that types one-letter lines; the format \<^verbatim>\<open>%s\<close> is at 0x1000 and the other literals are empty.\<close>

definition demo_call :: "(bmem \<times> u8 list) ecall" where
  "demo_call a = (\<lambda>(m, k). if a 0 = SYS_user_scanf then (Inr 0, (m(0x2000 := hd k, 0x2001 := 10), tl k)) else (Inr 0, (m, k)))"

definition demo_shell :: shell_vars where
  "demo_shell = \<lparr>cmd = 0x3000, arg = 0x5000, path_buf = 0x6000, out_buf = 0x4000, in_buf = 0x2000,
     lit = (\<lambda>s. if s = ''%s'' then 0x1000 else 0x900)\<rparr>"

definition demo_typed :: "bmem" where
  "demo_typed = (\<lambda>_. 0)(0x1000 := 37, 0x1001 := 115)"

lemma unat_offset_0: "unat (a - b) = 0 \<longleftrightarrow> a = b" for a b :: u64
  by (simp add: unsigned_eq_0_iff)

lemma demo_say: "fmt \<noteq> ''%s'' \<Longrightarrow> m 0x900 = 0 \<Longrightarrow> say demo_call demo_shell fmt vl (m, k) = (Inr (), (m(0x4000 := 0), k))"
proof -
  assume "fmt \<noteq> ''%s''" "m 0x900 = 0"
  moreover have "vsnprintf 0x4000 256 0x900 vl m = (Inr 0, m(0x4000 := 0))" if "m 0x900 = 0"
    using vsnprintf_eq [of m "0x900" "[]" "0x4000" 256 Map.empty vl "[]"] that
    by (simp add: apart_def strings_at_def printed_def fun_eq_iff unat_offset_0)
  ultimately show ?thesis
    by (simp add: say_def printu_def demo_shell_def on_memory_def kbind_def kreturn_def Let_def int_call_def do_user_call_def
        demo_call_def SYS_user_defs)
qed

lemma demo_ask:
  assumes "m 0x1000 = 37" "m 0x1001 = 115" "m 0x1002 = 0" "c \<noteq> 0" "\<not> is_space c"
  shows "ask demo_call demo_shell 0x3000 (m, c # k) = (Inr (), (m(0x2000 := c, 0x2001 := 10, 0x3000 := c, 0x3001 := 0), k))"
proof -
  have "scanfu demo_call 0x2000 0x1000 0x3000 (m, c # k) = (Inr 1, (m(0x2000 := c, 0x2001 := 10, 0x3000 := c, 0x3001 := 0), k))"
    by (subst scanfu_eq [where m' = "m(0x2000 := c, 0x2001 := 10)" and k' = k and r = 0 and w = "[c]"])
      (use assms in \<open>auto simp: demo_call_def is_space_def fun_eq_iff less_Suc_eq_le le_Suc_eq unat_offset_0\<close>)
  then show ?thesis by (simp add: ask_def demo_shell_def kbind_def kreturn_def)
qed

theorem shell_session_witness:
  "\<exists>t. shell_main 2 demo_call demo_shell (demo_typed, [120, 113]) = kbind (exit demo_call 0) (\<lambda>_. kreturn 0) t \<and> fst t 0x3000 = 113"
proof -
  let ?v = demo_shell and ?K = demo_call
  let ?m1 = "demo_typed(0x4000 := 0)"
  let ?m2 = "?m1(0x2000 := 120, 0x2001 := 10, 0x3000 := 120, 0x3001 := 0)"
  let ?m3 = "?m2(0x2000 := 113, 0x2001 := 10, 0x3000 := 113, 0x3001 := 0)"
  have c: "cmd ?v = 0x3000" by (simp add: demo_shell_def)
  have unk: "shell_spec [120] = Unknown" by (simp add: shell_spec_def shell_table_def)
  have start: "say ?K ?v banner [] (demo_typed, [120, 113]) = (Inr (), (?m1, [120, 113]))"
    by (rule demo_say) (simp_all add: banner_def demo_typed_def)
  have r: "reads ?K ?v (?m1, [120, 113]) [120] (?m2, [113])"
    by (simp add: reads_def kthen_def kbind_def c demo_say demo_ask demo_typed_def is_space_def fun_upd_idem)
  have "?m2(0x4000 := 0) = ?m2" by (simp add: fun_eq_iff)
  moreover have "do_command ?K ?v Unknown (?m2, [113]) = (Inr (), (?m2(0x4000 := 0), [113]))"
    by (simp add: error_command_def demo_say demo_typed_def)
  ultimately have d: "do_command ?K ?v (shell_spec [120]) (?m2, [113]) = (Inr (), (?m2, [113]))" unfolding unk by (simp only:)
  have ws: "session ?K ?v (?m1, [120, 113]) [[120]] (?m2, [113])"
    by (rule session_Cons [OF r _ d session_Nil]) (simp add: unk)
  have q: "reads ?K ?v (?m2, [113]) (ascii ''q'') (?m3, [])"
    by (simp add: reads_def kthen_def kbind_def c demo_say demo_ask demo_typed_def is_space_def fun_upd_idem)
  have bye: "say ?K ?v (''Exit.'' @ newline) [] (?m3, []) = (Inr (), (?m3(0x4000 := 0), []))"
    by (rule demo_say) (simp_all add: demo_typed_def)
  show ?thesis using shell_session [OF start ws q bye, of 2] by (intro exI [of _ "(?m3(0x4000 := 0), [])"]) simp
qed

end
