(* ===== verification/Apps.thy ===== *)
theory Apps
  imports Shell Fdt
begin

text \<open>
  The other applications of \<^verbatim>\<open>user\<close>, over the user library and the memory of the process.

  As in \<^verbatim>\<open>Shell\<close>, \<open>K\<close> is what happens at an \<^verbatim>\<open>ecall\<close> and \<open>v\<close> has the addresses of the string literals and of the buffer of \<^verbatim>\<open>printu\<close>; the addresses of the local
  arrays are arguments.  A function \<^verbatim>\<open>main\<close> with arguments gets the address of \<^verbatim>\<open>argv\<close>.  A loop that ends only with the input takes the number of rounds
  as an argument.  The theorems are about what the applications compute themselves: the sums of \<^verbatim>\<open>app_sum_sequence.c\<close> with the truncation to \<^verbatim>\<open>int\<close>,
  and the column of names of \<^verbatim>\<open>app_ls.c\<close>.
\<close>

unbundle bit_operations_syntax

section \<open>Memory of a process\<close>

definition load_int :: "u64 \<Rightarrow> (bmem \<times> 'k, u64) km" where
  "load_int a = kget (\<lambda>(m, k). scast (ld32 m a))"

definition store_int :: "u64 \<Rightarrow> u32 \<Rightarrow> (bmem \<times> 'k, unit) km" where
  "store_int a w = on_memory (kput (st32 a w))"

text \<open>A local array of \<open>n\<close> bytes that is initialised with a literal, and with zeros behind it.\<close>

primrec put_bytes :: "u64 \<Rightarrow> u8 list \<Rightarrow> bmem \<Rightarrow> bmem" where
  "put_bytes a [] m = m"
| "put_bytes a (b # bs) m = put_bytes (a + 1) bs (m(a := b))"

definition init_array :: "u64 \<Rightarrow> nat \<Rightarrow> string \<Rightarrow> (bmem \<times> 'k, unit) km" where
  "init_array a n s = on_memory (kput (put_bytes a (ascii s @ replicate (n - length s) 0)))"

definition argv0 :: "u64 \<Rightarrow> (bmem \<times> 'k, u64) km" where
  "argv0 argv = kget (\<lambda>(m, k). ld64 m argv)"

text \<open>\<^verbatim>\<open>exit(0); return 0;\<close>\<close>

definition exit0 :: "'s ecall \<Rightarrow> ('s, int) km" where
  "exit0 K = kbind (exit K 0) (\<lambda>_. kreturn 0)"

section \<open>Files\<close>

definition app_cat :: "(bmem \<times> 'k) ecall \<Rightarrow> shell_vars \<Rightarrow> u64 \<Rightarrow> u64 \<Rightarrow> (bmem \<times> 'k, int) km" where
  "app_cat K v buf argv = kbind (argv0 argv) (\<lambda>filename.
     kbind (open_u K filename (sint O_RDWR)) (\<lambda>fd.
     kbind (read_u K fd buf 512) (\<lambda>_.
     kthen (say K v (''read content: '' @ newline @ ''%s'' @ newline) [buf])
     (kbind (close_u K fd) (\<lambda>_. exit0 K)))))"

definition app_echo :: "(bmem \<times> 'k) ecall \<Rightarrow> shell_vars \<Rightarrow> u64 \<Rightarrow> u64 \<Rightarrow> (bmem \<times> 'k, int) km" where
  "app_echo K v str argv = kthen (init_array str 12 ''hello world'') (kbind (argv0 argv) (\<lambda>filename.
     kbind (open_u K filename (sint (O_RDWR OR O_CREAT))) (\<lambda>fd.
     kbind (on_memory (strlen str)) (\<lambda>n.
     kbind (write_u K fd str n) (\<lambda>_.
     kthen (say K v (''write content: '' @ newline @ ''%s'' @ newline) [str])
     (kbind (close_u K fd) (\<lambda>_. exit0 K)))))))"

definition app_touch :: "(bmem \<times> 'k) ecall \<Rightarrow> u64 \<Rightarrow> (bmem \<times> 'k, int) km" where
  "app_touch K argv = kbind (argv0 argv) (\<lambda>filename.
     kbind (open_u K filename (sint O_CREAT)) (\<lambda>fd. kbind (close_u K fd) (\<lambda>_. exit0 K)))"

definition app_mkdir :: "(bmem \<times> 'k) ecall \<Rightarrow> shell_vars \<Rightarrow> u64 \<Rightarrow> (bmem \<times> 'k, int) km" where
  "app_mkdir K v argv = kbind (argv0 argv) (\<lambda>new_dir.
     kbind (mkdir_u K new_dir) (\<lambda>_. kthen (say K v (''mkdir: %s'' @ newline) [new_dir]) (exit0 K)))"

text \<open>
  \<^verbatim>\<open>app_ls.c\<close>: \<open>dir\<close> and \<open>name\<close> are the local structure and the local array.  The field \<^verbatim>\<open>name\<close> of the structure is at its address and \<^verbatim>\<open>inum\<close> 32 bytes behind.
\<close>

definition ls_width :: u64 where
  "ls_width = 20"

definition ls_pad :: "u64 \<Rightarrow> u64 \<Rightarrow> (bmem, u64) km" where
  "ls_pad dir name = kbind (memset name 32 (ls_width + 1)) (\<lambda>_.
     kthen (kput (\<lambda>m. m(name + ls_width := 0)))
     (kbind (strlen dir) (\<lambda>n.
      if n < ls_width
      then kbind (strcpy name dir) (\<lambda>_. kbind (strlen dir) (\<lambda>n. kthen (kput (\<lambda>m. m(name + n := 32))) (kreturn name)))
      else kreturn dir)))"

definition ls_format :: string where
  "ls_format = ''%s %d'' @ newline"

definition ls_row :: "(bmem \<times> 'k) ecall \<Rightarrow> shell_vars \<Rightarrow> u64 \<Rightarrow> u64 \<Rightarrow> (bmem \<times> 'k, unit) km" where
  "ls_row K v dir name = kbind (on_memory (ls_pad dir name)) (\<lambda>a.
     kbind (load_int (dir + 32)) (\<lambda>inum. say K v ls_format [a, inum]))"

primrec ls_loop :: "nat \<Rightarrow> (bmem \<times> 'k) ecall \<Rightarrow> shell_vars \<Rightarrow> int \<Rightarrow> u64 \<Rightarrow> u64 \<Rightarrow> (bmem \<times> 'k, unit) km" where
  "ls_loop 0 K v fd dir name = kraise Diverge"
| "ls_loop (Suc n) K v fd dir name = kbind (readdir_u K fd dir) (\<lambda>r.
     if r = 0 then kthen (ls_row K v dir name) (ls_loop n K v fd dir name) else kreturn ())"

definition app_ls :: "nat \<Rightarrow> (bmem \<times> 'k) ecall \<Rightarrow> shell_vars \<Rightarrow> u64 \<Rightarrow> u64 \<Rightarrow> u64 \<Rightarrow> (bmem \<times> 'k, int) km" where
  "app_ls n K v dir name argv = kbind (argv0 argv) (\<lambda>path.
     kbind (opendir_u K path) (\<lambda>dir_fd.
     kthen (say K v (''[name]               [inode_num]'' @ newline) [])
     (kthen (ls_loop n K v dir_fd dir name)
     (kbind (closedir_u K dir_fd) (\<lambda>_. exit0 K)))))"

definition pwd :: "(bmem \<times> 'k) ecall \<Rightarrow> shell_vars \<Rightarrow> (bmem \<times> 'k, unit) km" where
  "pwd K v = kbind (read_cwd K (path_buf v)) (\<lambda>_. say K v (''cwd:%s'' @ newline) [path_buf v])"

definition cd :: "(bmem \<times> 'k) ecall \<Rightarrow> shell_vars \<Rightarrow> u64 \<Rightarrow> (bmem \<times> 'k, unit) km" where
  "cd K v path = kbind (change_cwd K path) (\<lambda>r. kwhen (r \<noteq> 0) (say K v (''cd failed'' @ newline) []))"

definition test_title :: "string \<Rightarrow> string" where
  "test_title s = newline @ ''======== '' @ s @ ''  ========'' @ newline"

text \<open>The reading of a file into \<open>buf\<close>, which two of the tests do.\<close>

definition read_show :: "(bmem \<times> 'k) ecall \<Rightarrow> shell_vars \<Rightarrow> int \<Rightarrow> u64 \<Rightarrow> (bmem \<times> 'k, unit) km" where
  "read_show K v fd buf = kbind (read_u K fd buf 512) (\<lambda>_.
     kthen (say K v (''read content: '' @ newline @ ''%s'' @ newline) [buf]) (kbind (close_u K fd) (\<lambda>_. kreturn ())))"

definition app_relativepath :: "(bmem \<times> 'k) ecall \<Rightarrow> shell_vars \<Rightarrow> u64 \<Rightarrow> u64 \<Rightarrow> (bmem \<times> 'k, int) km" where
  "app_relativepath K v buf str = kthen (init_array str 12 ''hello world'')
     (kthen (say K v (test_title ''Test 1: change current directory'') [])
     (kthen (pwd K v) (kthen (cd K v (lit v ''./RAMDISK0''))
     (kthen (say K v (''change current directory to ./RAMDISK0'' @ newline) [])
     (kthen (pwd K v)
     (kthen (say K v (test_title ''Test 2: write/read file by relative path'') [])
     (kthen (say K v (''write: ./ramfile'' @ newline) [])
     (kbind (open_u K (lit v ''./ramfile'') (sint (O_RDWR OR O_CREAT))) (\<lambda>fd.
      kthen (say K v (''file descriptor fd: %d'' @ newline) [word_of_int fd])
     (kbind (on_memory (strlen str)) (\<lambda>n. kbind (write_u K fd str n) (\<lambda>_.
      kthen (say K v (''write content: '' @ newline @ ''%s'' @ newline) [str])
     (kbind (close_u K fd) (\<lambda>_.
      kbind (open_u K (lit v ''./ramfile'') (sint O_RDWR)) (\<lambda>fd.
      kthen (say K v (''read: ./ramfile'' @ newline) [])
     (kthen (read_show K v fd buf)
     (kthen (say K v (test_title ''Test 3: Go to parent directory'') [])
     (kthen (pwd K v) (kthen (cd K v (lit v ''..''))
     (kthen (say K v (''change current directory to ..'' @ newline) [])
     (kthen (pwd K v)
     (kthen (say K v (''read: ./hostfile.txt'' @ newline) [])
     (kbind (open_u K (lit v ''./hostfile.txt'') (sint O_RDONLY)) (\<lambda>fd.
      kthen (say K v (''file descriptor fd: %d'' @ newline) [word_of_int fd])
     (kthen (read_show K v fd buf)
     (kthen (say K v (newline @ ''All tests passed!'' @ newline @ newline) []) (exit0 K)))))))))))))))))))))))))))"

section \<open>Processes\<close>

definition app0 :: "(bmem \<times> 'k) ecall \<Rightarrow> shell_vars \<Rightarrow> (bmem \<times> 'k, int) km" where
  "app0 K v = kthen (say K v (''>>> app0 is expected to be executed by hart0'' @ newline) []) (exit0 K)"

definition app1 :: "(bmem \<times> 'k) ecall \<Rightarrow> shell_vars \<Rightarrow> (bmem \<times> 'k, int) km" where
  "app1 K v = kthen (say K v (''>>> app1 is expected to be executed by hart1'' @ newline) []) (exit0 K)"

definition app_exec :: "(bmem \<times> 'k) ecall \<Rightarrow> shell_vars \<Rightarrow> (bmem \<times> 'k, int) km" where
  "app_exec K v = kthen (say K v (newline @ ''======== exec /bin/app_ls in app_exec ========'' @ newline) [])
     (kbind (exec K (lit v ''/bin/app_ls'') (lit v ''/RAMDISK0'')) (\<lambda>ret.
      kthen (kwhen (ret = -1) (say K v (''exec failed!'' @ newline) [])) (exit0 K)))"

text \<open>The instruction \<^verbatim>\<open>csrw sscratch, 0\<close>, which is illegal in user mode, is the argument \<open>csrw\<close>.\<close>

definition app_errorline :: "(bmem \<times> 'k) ecall \<Rightarrow> shell_vars \<Rightarrow> (bmem \<times> 'k, unit) km \<Rightarrow> (bmem \<times> 'k, int) km" where
  "app_errorline K v csrw =
     kthen (say K v (''Going to hack the system by running privilege instructions.'' @ newline) []) (kthen csrw (exit0 K))"

text \<open>\<open>nest n f\<close> is \<open>f\<close> called through \<open>n\<close> functions that do nothing but call the next.\<close>

primrec nest :: "nat \<Rightarrow> ('s, unit) km \<Rightarrow> ('s, unit) km" where
  "nest 0 f = f"
| "nest (Suc n) f = kthen (nest n f) (kreturn ())"

definition f8 :: "'s ecall \<Rightarrow> ('s, unit) km" where
  "f8 K = kbind (print_backtrace K 7) (\<lambda>_. kreturn ())"

definition app_print_backtrace :: "(bmem \<times> 'k) ecall \<Rightarrow> shell_vars \<Rightarrow> (bmem \<times> 'k, int) km" where
  "app_print_backtrace K v =
     kthen (say K v (''back trace the user app in the following:'' @ newline) []) (kthen (nest 7 (f8 K)) (exit0 K))"

text \<open>\<^verbatim>\<open>app_wait.c\<close>, with \<open>flag\<close> the address of the global variable.\<close>

definition app_wait :: "(bmem \<times> 'k) ecall \<Rightarrow> shell_vars \<Rightarrow> u64 \<Rightarrow> (bmem \<times> 'k, int) km" where
  "app_wait K v flag = kthen (store_int flag 0) (kbind (fork K) (\<lambda>pid1.
     kthen
       (if pid1 = 0 then
          kthen (store_int flag 1) (kbind (fork K) (\<lambda>pid2.
            if pid2 = 0 then
              kthen (store_int flag 2) (kbind (load_int flag) (\<lambda>x. say K v (''Grandchild process end, flag = %d.'' @ newline) [x]))
            else kbind (wait K pid2) (\<lambda>_. kbind (load_int flag) (\<lambda>x. say K v (''Child process end, flag = %d.'' @ newline) [x]))))
        else kbind (wait K (-1)) (\<lambda>_. kbind (load_int flag) (\<lambda>x. say K v (''Parent process end, flag = %d.'' @ newline) [x])))
       (exit0 K)))"

text \<open>\<^verbatim>\<open>app_shell.c\<close>: the loop carries the pointer that \<^verbatim>\<open>strtok\<close> keeps, and whether \<^verbatim>\<open>strtok\<close> was called before.  A token that is missing is a null pointer,
  from which \<^verbatim>\<open>strcpy\<close> reads.\<close>

definition next_token :: "u64 \<Rightarrow> u64 \<Rightarrow> u64 \<Rightarrow> u64 \<Rightarrow> (bmem \<times> 'k, u64) km" where
  "next_token tok str delim dst = kbind (on_memory (strtok tok str delim)) (\<lambda>(token, tok).
     if token = NULL then kraise (Fault ''token'')
     else kbind (on_memory (strcpy dst token)) (\<lambda>_. kreturn tok))"

definition script_command :: "(bmem \<times> 'k) ecall \<Rightarrow> shell_vars \<Rightarrow> u64 \<Rightarrow> u64 \<Rightarrow> (bmem \<times> 'k, unit) km" where
  "script_command K v command para =
     kthen (say K v (''Next command: %s %s'' @ newline @ newline) [command, para])
     (kthen (say K v (''==========Command Start============'' @ newline @ newline) [])
     (kbind (fork K) (\<lambda>pid1.
      if pid1 = 0 then kbind (exec K command para) (\<lambda>ret. kwhen (ret = -1) (say K v (''exec failed!'' @ newline) []))
      else kbind (wait K pid1) (\<lambda>_. say K v (''==========Command End============'' @ newline @ newline) []))))"

primrec script_loop :: "nat \<Rightarrow> (bmem \<times> 'k) ecall \<Rightarrow> shell_vars \<Rightarrow> u64 \<Rightarrow> u64 \<Rightarrow> u64 \<Rightarrow> u64 \<Rightarrow> bool \<Rightarrow> u64 \<Rightarrow> (bmem \<times> 'k, unit) km" where
  "script_loop 0 K v buf delim command para start tok = kraise Diverge"
| "script_loop (Suc n) K v buf delim command para start tok =
     kbind (next_token tok (if start then NULL else buf) delim command) (\<lambda>tok.
     kbind (next_token tok NULL delim para) (\<lambda>tok.
     kbind (on_memory (strcmp command (lit v ''END''))) (\<lambda>c.
     kbind (if c = 0 then on_memory (strcmp para (lit v ''END'')) else kreturn 1) (\<lambda>d.
     if c = 0 \<and> d = 0 then kreturn ()
     else kthen (script_command K v command para) (script_loop n K v buf delim command para True tok)))))"

definition app_shell :: "nat \<Rightarrow> (bmem \<times> 'k) ecall \<Rightarrow> shell_vars \<Rightarrow> u64 \<Rightarrow> u64 \<Rightarrow> (bmem \<times> 'k, int) km" where
  "app_shell n K v buf delim =
     kthen (say K v (newline @ ''======== Shell Start ========'' @ newline @ newline) [])
     (kthen (init_array delim 3 ('' '' @ newline))
     (kbind (open_u K (lit v ''/shellrc'') (sint O_RDONLY)) (\<lambda>fd.
      kbind (read_u K fd buf 1024) (\<lambda>_. kbind (close_u K fd) (\<lambda>_.
      kbind (naive_malloc K) (\<lambda>command. kbind (naive_malloc K) (\<lambda>para.
      kthen (script_loop n K v buf delim command para False NULL) (exit0 K))))))))"

section \<open>Heap\<close>

text \<open>\<^verbatim>\<open>app_alloc0.c\<close> and \<^verbatim>\<open>app_alloc1.c\<close> differ in \<^verbatim>\<open>BASE\<close> and in the texts.\<close>

primrec alloc_fill :: "(bmem \<times> 'k) ecall \<Rightarrow> shell_vars \<Rightarrow> string \<Rightarrow> int \<Rightarrow> nat \<Rightarrow> int \<Rightarrow> (bmem \<times> 'k, u64 list) km" where
  "alloc_fill K v fmt base 0 i = kreturn []"
| "alloc_fill K v fmt base (Suc n) i = kbind (naive_malloc K) (\<lambda>p.
     kthen (store_int p (word_of_int (base + i)))
     (kthen (say K v fmt [p]) (kbind (alloc_fill K v fmt base n (i + 1)) (\<lambda>ps. kreturn (p # ps)))))"

primrec alloc_drain :: "(bmem \<times> 'k) ecall \<Rightarrow> shell_vars \<Rightarrow> string \<Rightarrow> u64 list \<Rightarrow> (bmem \<times> 'k, unit) km" where
  "alloc_drain K v fmt [] = kreturn ()"
| "alloc_drain K v fmt (p # ps) = kbind (load_int p) (\<lambda>x.
     kthen (say K v fmt [x]) (kbind (naive_free K p) (\<lambda>_. alloc_drain K v fmt ps)))"

definition app_alloc0 :: "(bmem \<times> 'k) ecall \<Rightarrow> shell_vars \<Rightarrow> (bmem \<times> 'k, int) km" where
  "app_alloc0 K v = kbind (alloc_fill K v (''=== user alloc 0 @ vaddr 0x%x'' @ newline) 0 5 0) (\<lambda>ps.
     kthen (alloc_drain K v (''=== user 0: %d'' @ newline) ps) (exit0 K))"

definition app_alloc1 :: "(bmem \<times> 'k) ecall \<Rightarrow> shell_vars \<Rightarrow> (bmem \<times> 'k, int) km" where
  "app_alloc1 K v = kbind (alloc_fill K v (''>>> user alloc 1 @ vaddr 0x%x'' @ newline) 5 5 0) (\<lambda>ps.
     kthen (alloc_drain K v (''>>> user 1: %d'' @ newline) ps) (exit0 K))"

definition app_cow :: "(bmem \<times> 'k) ecall \<Rightarrow> shell_vars \<Rightarrow> (bmem \<times> 'k, int) km" where
  "app_cow K v = kbind (naive_malloc K) (\<lambda>heap_data.
     kthen (say K v ''the physical address of parent process heap is: '' [])
     (kbind (printpa K heap_data) (\<lambda>_. kbind (fork K) (\<lambda>pid1.
      kthen (kwhen (pid1 = 0)
        (kthen (say K v ''the physical address of child process heap before copy on write is: '' [])
        (kbind (printpa K heap_data) (\<lambda>_. kthen (store_int heap_data 0)
        (kthen (say K v ''the physical address of child process heap after copy on write is: '' [])
        (printpa K heap_data))))))
      (exit0 K)))))"

text \<open>\<^verbatim>\<open>app_singlepageheap.c\<close>; \<open>str\<close> is the local array.  The application has its own \<^verbatim>\<open>strcpy\<close>, with the loop of the library's.  An \<^verbatim>\<open>exit(-1)\<close> does not return.\<close>

definition page_of :: "u64 \<Rightarrow> u64" where
  "page_of a = a AND NOT (PGSIZE - 1)"

definition app_singlepageheap :: "(bmem \<times> 'k) ecall \<Rightarrow> shell_vars \<Rightarrow> u64 \<Rightarrow> (bmem \<times> 'k, int) km" where
  "app_singlepageheap K v str = kthen (init_array str 20 ''hello, world!!!'')
     (kbind (better_malloc K 100) (\<lambda>m. kbind (better_malloc K 50) (\<lambda>p.
      kthen (say K v (''va1=%p page=%p'' @ newline) [m, page_of m])
     (kthen (say K v (''va2=%p page=%p'' @ newline) [p, page_of p])
     (kthen (kwhen (512 < p - m)
        (kthen (say K v ''you need to manage the vm space precisely!'' []) (kbind (exit K (-1)) (\<lambda>_. kreturn ()))))
     (kbind (better_free K m) (\<lambda>_.
      kbind (on_memory (strcpy p str)) (\<lambda>_.
      kthen (say K v (''%s'' @ newline) [p])
     (kbind (better_malloc K 50) (\<lambda>n.
      kthen (kwhen (m \<noteq> n)
        (kthen (say K v (''your malloc is not complete.'' @ newline) []) (kbind (exit K (-1)) (\<lambda>_. kreturn ()))))
      (exit0 K)))))))))))"

text \<open>
  \<^verbatim>\<open>sum_sequence\<close>: the value of the assignment is the \<^verbatim>\<open>int\<close> that was stored, which the return converts to 64 bits with its sign.
\<close>

function sum_sequence :: "u64 \<Rightarrow> u64 \<Rightarrow> (bmem, u64) km" where
  "sum_sequence n p = (if n = 0 then kreturn 0
     else kbind (sum_sequence (n - 1) (p + 4)) (\<lambda>r.
       kthen (kput (st32 p (ucast (r + n)))) (kreturn (scast (ucast (r + n) :: u32)))))"
  by auto
termination by (relation "measure (\<lambda>(n, p). unat n)") (simp_all add: unat_minus_one word_neq_0_conv [symmetric] unat_gt_0)

declare sum_sequence.simps [simp del]

definition app_sum_sequence :: "(bmem \<times> 'k) ecall \<Rightarrow> shell_vars \<Rightarrow> (bmem \<times> 'k, int) km" where
  "app_sum_sequence K v = (let n = 1024 in kbind (naive_malloc K) (\<lambda>ans.
     kbind (on_memory (sum_sequence (n + 1) ans)) (\<lambda>r.
     kthen (say K v (''Summation of an arithmetic sequence from 0 to %ld is: %ld '' @ newline) [n, r]) (exit0 K))))"

section \<open>The sums\<close>

lemma ld32_st32: "ld32 (st32 a w m) a = w"
proof -
  have a: "a + 1 \<noteq> a" "a + 2 \<noteq> a" "a + 3 \<noteq> a" "a + 2 \<noteq> a + 1" "a + 3 \<noteq> a + 1" "a + 3 \<noteq> a + 2" by simp_all
  have "bit (ld32 (st32 a w m) a) n = bit w n" if n: "n < 32" for n
  proof -
    consider "n < 8" | "8 \<le> n" "n < 16" | "16 \<le> n" "n < 24" | "24 \<le> n" by linarith
    then show ?thesis using n a unfolding ld32_def st32_def by cases (auto simp: bit_simps)
  qed
  then show ?thesis by (intro bit_word_eqI) simp
qed

lemma ld32_cong:
  assumes "\<And>j. j < 4 \<Longrightarrow> m' (a + of_nat j) = m (a + of_nat j)"
  shows "ld32 m' a = ld32 m a"
  using assms [of 0] assms [of 1] assms [of 2] assms [of 3] by (simp add: ld32_def)

lemma st32_other:
  assumes "\<And>j. j < 4 \<Longrightarrow> x \<noteq> a + of_nat j"
  shows "st32 a w m x = m x"
  using assms [of 0] assms [of 1] assms [of 2] assms [of 3] by (simp add: st32_def)

lemma ucast_sum: "ucast (scast (w :: u32) + n :: u64) = (w + ucast n :: u32)"
proof transfer
  fix w n :: int
  have "take_bit 32 (signed_take_bit 31 w + n) = take_bit 32 (take_bit 32 (signed_take_bit 31 w) + take_bit 32 n)"
    by (simp only: take_bit_add)
  also have "\<dots> = take_bit 32 (w + take_bit 64 n)"
    by (simp add: take_bit_signed_take_bit) (metis (no_types) min.absorb_iff1 numeral_le_iff semiring_norm(68,71) take_bit_add take_bit_take_bit)
  finally show "take_bit LENGTH(32) (take_bit LENGTH(64) ((signed_take_bit (LENGTH(32) - Suc 0) w) + n)) =
    take_bit LENGTH(32) (w + take_bit LENGTH(64) n)" by simp
qed

definition triangle :: "nat \<Rightarrow> nat" where
  "triangle n = \<Sum>{..n}"

lemma triangle_Suc: "triangle (Suc n) = triangle n + Suc n"
  by (simp add: triangle_def)

lemma sum_sequence_eq:
  assumes "unat n = k" "unat p + 4 * k \<le> 2 ^ 64"
  shows "\<exists>m'. sum_sequence n p m = (Inr (scast (of_nat (triangle k) :: u32)), m') \<and>
    (\<forall>i<k. ld32 m' (p + of_nat (4 * i)) = of_nat (triangle (k - i))) \<and>
    (\<forall>x. (\<forall>j<4 * k. x \<noteq> p + of_nat j) \<longrightarrow> m' x = m x)"
  using assms
proof (induction k arbitrary: n p)
  case 0
  then have "n = 0" by (simp add: unat_eq_0)
  then show ?case by (simp add: sum_sequence.simps [of 0] kreturn_def triangle_def)
next
  case (Suc k)
  have n0: "n \<noteq> 0" using Suc.prems(1) by auto
  have n: "n \<noteq> 0" "unat (n - 1) = k" using unat_minus_one [OF n0] Suc.prems(1) n0 by simp_all
  have p4: "unat (p + 4) + 4 * k \<le> 2 ^ 64"
  proof (cases "k = 0")
    case True
    then show ?thesis using unat_bound64 [of "p + 4"] by simp
  next
    case False
    then have "unat (p + of_nat 4) = unat p + 4" using Suc.prems(2) by (intro unat_at) simp
    then show ?thesis using Suc.prems(2) by simp
  qed
  from Suc.IH [OF n(2) p4] obtain m1 where m1: "sum_sequence (n - 1) (p + 4) m = (Inr (scast (of_nat (triangle k) :: u32)), m1)"
    "\<forall>i<k. ld32 m1 (p + 4 + of_nat (4 * i)) = of_nat (triangle (k - i))"
    "\<forall>x. (\<forall>j<4 * k. x \<noteq> p + 4 + of_nat j) \<longrightarrow> m1 x = m x" by blast
  let ?w = "of_nat (triangle (Suc k)) :: u32"
  have "ucast n = (of_nat (Suc k) :: u32)" using Suc.prems(1) by (metis of_nat_unat)
  then have w: "ucast (scast (of_nat (triangle k) :: u32) + n) = ?w" by (simp add: ucast_sum triangle_Suc)
  have run: "sum_sequence n p m = (Inr (scast ?w), st32 p ?w m1)"
    using n(1) m1(1) w by (subst sum_sequence.simps) (simp add: kbind_def kthen_def kput_def kreturn_def)
  have away: "p + of_nat j \<noteq> p + of_nat i" if "i < 4" "4 \<le> j" "j < 4 * Suc k" for i j
  proof -
    have "j < 2 ^ 64" "i < 2 ^ 64" using that Suc.prems(2) by linarith+
    then have "unat (of_nat j :: u64) = j" "unat (of_nat i :: u64) = i" by (simp_all add: unat_of_nat64)
    then show ?thesis using that by (metis add_left_cancel leD)
  qed
  have "ld32 (st32 p ?w m1) (p + of_nat (4 * i)) = of_nat (triangle (Suc k - i))" if i: "i < Suc k" for i
  proof (cases i)
    case 0
    then show ?thesis by (simp add: ld32_st32)
  next
    case (Suc j)
    have e: "p + of_nat (4 * i) = p + 4 + of_nat (4 * j)" unfolding Suc by simp
    have "ld32 (st32 p ?w m1) (p + of_nat (4 * i)) = ld32 m1 (p + of_nat (4 * i))"
    proof (rule ld32_cong, rule st32_other)
      fix l j' :: nat assume "l < 4" "j' < 4"
      then have "p + of_nat (4 * i + l) \<noteq> p + of_nat j'" using i Suc by (intro away) auto
      then show "p + of_nat (4 * i) + of_nat l \<noteq> p + of_nat j'" by (simp add: add.assoc)
    qed
    then show ?thesis using m1(2) i Suc unfolding e by simp
  qed
  moreover have "st32 p ?w m1 x = m x" if x: "\<forall>j<4 * Suc k. x \<noteq> p + of_nat j" for x
  proof -
    have "x \<noteq> p + 4 + of_nat j" if "j < 4 * k" for j using x [rule_format, of "j + 4"] that by (simp add: ac_simps)
    then show ?thesis using m1(3) x st32_other [of x p ?w m1] by simp
  qed
  ultimately show ?case using run by blast
qed

text \<open>
  \<^verbatim>\<open>sum_sequence(n, p)\<close> ends for every \<open>n\<close> and returns the sum of the numbers up to \<open>n\<close> as a 32-bit integer with its sign: the recursion passes through the
  array, so the sum wraps at 32 bits although the function returns 64.  It leaves the sums up to \<open>n\<close>, \<open>n - 1\<close>, down to 1 in the \<open>n\<close> integers at \<open>p\<close> and
  nothing else changes.  The application passes 1025 where it says 1024: the array takes four bytes more than the page it was allocated.
\<close>

theorem sum_sequence_correct:
  assumes "unat p + 4 * unat n \<le> 2 ^ 64"
  shows "\<exists>m'. sum_sequence n p m = (Inr (scast (of_nat (\<Sum>{..unat n}) :: u32)), m') \<and>
    (\<forall>i<unat n. ld32 m' (p + of_nat (4 * i)) = of_nat (\<Sum>{..unat n - i})) \<and>
    (\<forall>x. (\<forall>j<4 * unat n. x \<noteq> p + of_nat j) \<longrightarrow> m' x = m x)"
  by (rule sum_sequence_eq [OF refl assms, of m, unfolded triangle_def])

theorem sum_sequence_correct_witness:
  "\<exists>m'. sum_sequence 1025 0x400000 (\<lambda>_. 0) = (Inr 525825, m') \<and> ld32 m' 0x400000 = 525825 \<and> ld32 m' (0x400000 + 4096) = 1"
proof -
  have n: "unat (1025 :: u64) = 1025" by simp
  obtain m' where m': "sum_sequence 1025 0x400000 (\<lambda>_. 0) = (Inr (scast (of_nat (\<Sum>{..1025}) :: u32)), m')"
    "\<forall>i<1025. ld32 m' (0x400000 + of_nat (4 * i)) = of_nat (\<Sum>{..1025 - i})"
    using sum_sequence_correct [where p = "0x400000" and n = 1025 and m = "\<lambda>_. 0", unfolded n] by fastforce
  have s: "\<Sum>{..1025 :: nat} = 525825" "\<Sum>{..1 :: nat} = 1" by (simp_all add: atMost_atLeast0 gauss_sum_nat)
  show ?thesis using m'(1) m'(2) [rule_format, of 0] m'(2) [rule_format, of 1024] unfolding s
    by (intro exI [of _ m']) (simp add: s)
qed

section \<open>The column of names\<close>

lemma cstring_char:
  assumes "cstring m a xs"
  shows "j < length xs \<Longrightarrow> m (a + of_nat j) = xs ! j \<and> xs ! j \<noteq> 0" "m (a + of_nat (length xs)) = 0"
proof -
  assume j: "j < length xs"
  then have "xs = take j xs @ xs ! j # drop (Suc j) xs" by (simp add: id_take_nth_drop)
  then have "cstring m (a + of_nat (length (take j xs))) (xs ! j # drop (Suc j) xs)" using assms by (metis cstring_drop)
  then show "m (a + of_nat j) = xs ! j \<and> xs ! j \<noteq> 0" using j by (simp add: min_absorb2)
next
  show "m (a + of_nat (length xs)) = 0" using cstring_drop [of m a xs "[]"] assms by simp
qed

definition filled :: "bmem \<Rightarrow> u64 \<Rightarrow> u8 \<Rightarrow> nat \<Rightarrow> bmem" where
  "filled m a c n = (\<lambda>x. if unat (x - a) < n then c else m x)"

lemma filled_Suc: "n < 2 ^ 64 \<Longrightarrow> (filled m a c n)(a + of_nat n := c) = filled m a c (Suc n)"
  using at_index [of n _ a] by (auto simp: filled_def fun_eq_iff less_Suc_eq)

text \<open>Clearing a range that is not made of whole words goes byte by byte.\<close>

lemma memset_bytes:
  assumes odd: "(a OR len) AND 7 \<noteq> 0" and fit: "unat a + unat len < 2 ^ 64"
  shows "memset a c len m = (Inr a, filled m a (ucast c) (unat len))"
proof -
  let ?n = "unat len"
  have e: "unat (a + len) = unat a + ?n" using unat_at [OF fit] by (simp add: of_nat_unat ucast_id)
  define b where "b = (\<lambda>d. kthen (kput (\<lambda>m. m(d := ucast c))) (kreturn (d + 1)) :: (bmem, u64) km)"
  have step: "b (a + of_nat j) (filled m a (ucast c) j) = (Inr (a + of_nat (Suc j)), filled m a (ucast c) (Suc j))" if "j < ?n" for j
    using filled_Suc [of j m a "ucast c"] that fit by (simp add: b_def kthen_def kbind_def kput_def kreturn_def ac_simps)
  have loop: "kwhile k (\<lambda>d. d < a + len) b (a + of_nat j) (filled m a (ucast c) j) =
      (Inr (a + of_nat ?n), filled m a (ucast c) ?n)" if "j \<le> ?n" "?n - j \<le> k" for j k
    using that
  proof (induction "?n - j" arbitrary: j k)
    case 0
    then have "j = ?n" by simp
    then show ?case using e by (cases k) (simp_all add: kreturn_def word_less_nat_alt of_nat_unat ucast_id)
  next
    case (Suc l)
    then obtain k' where k: "k = Suc k'" by (cases k) auto
    have "unat (a + of_nat j) = unat a + j" using fit Suc.hyps(2) by (intro unat_at) linarith
    then have g: "a + of_nat j < a + len" using e Suc.hyps(2) by (simp add: word_less_nat_alt)
    then show ?case
      using Suc.hyps(1) [of "Suc j" k'] Suc.hyps(2) Suc.prems step [of j] unfolding k by (simp add: kbind_def del: of_nat_Suc)
  qed
  have "filled m a (ucast c) 0 = m" by (simp add: filled_def)
  then show ?thesis using loop [of 0 ?n] odd by (simp add: memset_def kbind_def kreturn_def b_def)
qed

lemma strcpy_eq:
  assumes str: "cstring m src xs" and dis: "disjoint_ranges dst src (Suc (length xs))"
  shows "strcpy dst src m = (Inr dst, copied m dst src 0 (Suc (length xs)))"
proof -
  let ?N = "length xs"
  define b where "b = (\<lambda>(d, s, c :: u8). kbind (kget (\<lambda>m. m s)) (\<lambda>c. kthen (kput (\<lambda>m. m(d := c))) (kreturn (d + 1, s + 1, c)))
    :: (bmem, u64 \<times> u64 \<times> u8) km)"
  have fit: "unat src + Suc ?N < 2 ^ 64" using dis by (simp add: disjoint_ranges_def)
  have step: "b (dst + of_nat j, src + of_nat j, c) (copied m dst src 0 j) =
      (Inr (dst + of_nat (Suc j), src + of_nat (Suc j), m (src + of_nat j)), copied m dst src 0 (Suc j))" if "j \<le> ?N" for j c
    using copied_up [of 0 j m dst src] copied_fresh_disjoint [OF dis, of j j m] that fit
    by (simp add: kbind_def kget_def kthen_def kput_def kreturn_def b_def ac_simps)
  have loop: "\<exists>z. kwhile k (\<lambda>(d, s, c). c \<noteq> 0) b (dst + of_nat j, src + of_nat j, c) (copied m dst src 0 j) =
      (Inr z, copied m dst src 0 (Suc ?N))" if "c \<noteq> 0" "j \<le> ?N" "Suc ?N - j \<le> k" for j k c
    using that
  proof (induction "?N - j" arbitrary: j k c)
    case 0
    then obtain k' where "k = Suc k'" "j = ?N" by (cases k) auto
    then show ?case using step [of j c] cstring_char(2) [OF str] 0 by (cases k') (simp_all add: kbind_def kreturn_def del: of_nat_Suc)
  next
    case (Suc l)
    then obtain k' where k: "k = Suc k'" by (cases k) auto
    have "m (src + of_nat j) \<noteq> 0" using cstring_char(1) [OF str, of j] Suc.hyps(2) by simp
    then show ?case using Suc.hyps(1) [of "Suc j" "m (src + of_nat j)" k'] step [of j c] Suc.hyps(2) Suc.prems unfolding k
      by (simp add: kbind_def del: of_nat_Suc)
  qed
  have "Suc ?N \<le> string_bound" using fit by (simp add: string_bound_def)
  then show ?thesis using loop [of 1 0 string_bound] by (auto simp: strcpy_def kbind_def kreturn_def b_def)
qed

text \<open>The string \<open>xs\<close> filled with spaces up to \<open>n\<close> characters.\<close>

definition column :: "nat \<Rightarrow> u8 list \<Rightarrow> u8 list" where
  "column n xs = xs @ replicate (n - length xs) 32"

text \<open>The array \<^verbatim>\<open>name\<close> of 21 bytes does not overlap the \<open>k\<close> bytes at \<open>a\<close>.\<close>

definition beside :: "u64 \<Rightarrow> u64 \<Rightarrow> nat \<Rightarrow> bool" where
  "beside name a k \<longleftrightarrow> unat name + 21 < 2 ^ 64 \<and> unat a + k < 2 ^ 64 \<and> (unat a + k \<le> unat name \<or> unat name + 21 \<le> unat a)"

lemma beside_at:
  assumes "beside name a k" "j < k"
  shows "\<not> unat (a + of_nat j - name) < 21"
proof -
  have a: "unat (a + of_nat j) = unat a + j" using assms by (intro unat_at) (auto simp: beside_def)
  show ?thesis
    using assms unat_sub_if' [of "a + of_nat j" name] unat_bound64 [of name] unfolding a beside_def by (auto split: if_splits)
qed

lemma span_image: "span a k = (\<lambda>j. a + of_nat j) ` {..k}"
proof (induction k arbitrary: a)
  case (Suc k)
  have "(\<lambda>j. a + of_nat j) ` Suc ` {..k} = (\<lambda>j. a + 1 + of_nat j) ` {..k}" by (simp add: image_image add.assoc)
  then show ?case using Suc.IH [of "a + 1"] by (simp add: atMost_Suc_eq_insert_0)
qed simp

lemma span_at: "x \<in> span a k \<longleftrightarrow> (\<exists>j\<le>k. x = a + of_nat j)"
  by (auto simp: span_image)

lemma ls_width_odd: "(a OR (21 :: u64)) AND 7 \<noteq> 0"
proof -
  have "bit ((a OR 21) AND 7) 0" by (simp add: bit_simps)
  then show ?thesis by (metis bit_0_eq bot_apply bot_bool_def)
qed

lemma cstring_beside:
  assumes str: "cstring m a ys" and side: "beside name a (Suc (length ys))" and keep: "\<And>x. \<not> unat (x - name) < 21 \<Longrightarrow> m' x = m x"
  shows "cstring m' a ys"
proof (rule cstring_cong [OF str keep])
  fix x assume "x \<in> span a (length ys)"
  then obtain j where "j \<le> length ys" "x = a + of_nat j" by (auto simp: span_at)
  then show "\<not> unat (x - name) < 21" using beside_at [OF side, of j] by simp
qed

lemma ls_pad_eq:
  assumes str: "cstring m dir xs" and side: "beside name dir (Suc (length xs))"
  shows "\<exists>m' a. ls_pad dir name m = (Inr a, m') \<and> cstring m' a (column 20 xs) \<and>
    a = (if length xs < 20 then name else dir) \<and> (\<forall>x. \<not> unat (x - name) < 21 \<longrightarrow> m' x = m x)"
proof -
  let ?n = "length xs" and ?m1 = "(filled m name 32 21)(name + 20 := 0)"
  have fit: "unat name + 21 < 2 ^ 64" "unat dir + Suc ?n < 2 ^ 64" using side by (simp_all add: beside_def)
  have n20: "unat (name + 20 - name) = 20" by simp
  have keep: "?m1 x = m x" if "\<not> unat (x - name) < 21" for x
    using that by (auto simp: filled_def)
  have str1: "cstring ?m1 dir xs" by (rule cstring_beside [OF str side keep])
  have "memset name 32 (ls_width + 1) m = (Inr name, filled m name 32 21)"
    using memset_bytes [of name 21 32 m] ls_width_odd [of name] fit(1) by (simp add: ls_width_def)
  then have start: "ls_pad dir name m = (if ?n < 20
      then kbind (strcpy name dir) (\<lambda>_. kbind (strlen dir) (\<lambda>n. kthen (kput (\<lambda>m. m(name + n := 32))) (kreturn name)))
      else kreturn dir) ?m1"
    using strlen_eq [OF str1] fit(2) unat_of_nat64 [of ?n]
    by (simp add: ls_pad_def kbind_def kthen_def kput_def kreturn_def ls_width_def word_less_nat_alt)
  show ?thesis
  proof (cases "?n < 20")
    case True
    let ?m2 = "copied ?m1 name dir 0 (Suc ?n)"
    have dis: "disjoint_ranges name dir (Suc ?n)" using side True by (auto simp: disjoint_ranges_def beside_def)
    have keep2: "?m2 x = m x" if "\<not> unat (x - name) < 21" for x
      using that True keep [OF that] by (auto simp: copied_def)
    have "cstring ?m2 dir xs" by (rule cstring_beside [OF str side keep2])
    then have run: "ls_pad dir name m = (Inr name, ?m2(name + of_nat ?n := 32))"
      using start True strcpy_eq [OF str1 dis] strlen_eq [of ?m2 dir xs] by (simp add: kbind_def kthen_def kput_def kreturn_def)
    have at: "unat (name + of_nat j - name) = j" if "j \<le> 20" for j using unat_of_nat64 [of j] that by simp
    have len: "length (column 20 xs) = 20" using True by (simp add: column_def)
    have "cstring (?m2(name + of_nat ?n := 32)) name (column 20 xs)"
    proof (rule cstring_nth)
      fix j assume "j < length (column 20 xs)"
      then have j: "j < 20" using len by simp
      have eq: "name + of_nat j = name + of_nat ?n \<longleftrightarrow> j = ?n" using at [of j] at [of ?n] j True by (metis less_imp_le)
      have "name + of_nat j \<noteq> name + 20" using at [of j] n20 j by (metis less_irrefl order_less_imp_le)
      then have m1: "?m1 (name + of_nat j) = 32" using at [of j] j by (simp add: filled_def)
      have "dir + (name + of_nat j - name) = dir + of_nat j" by simp
      then have "?m2 (name + of_nat j) = (if j \<le> ?n then ?m1 (dir + of_nat j) else 32)"
        using at [of j] j m1 unfolding copied_def by (simp del: fun_upd_apply)
      then have "(?m2(name + of_nat ?n := 32)) (name + of_nat j) = (if j < ?n then ?m1 (dir + of_nat j) else 32)"
        using eq by (simp del: fun_upd_apply) (simp add: fun_upd_apply)
      then show "(?m2(name + of_nat ?n := 32)) (name + of_nat j) = column 20 xs ! j \<and> column 20 xs ! j \<noteq> 0"
        using cstring_char(1) [OF str1, of j] j by (simp add: column_def nth_append del: fun_upd_apply)
    next
      have "name + 20 \<noteq> name + of_nat ?n" using at [of ?n] n20 True by (metis less_imp_le less_irrefl)
      moreover have "?m2 (name + 20) = 0" using n20 True by (simp add: copied_def)
      ultimately show "(?m2(name + of_nat ?n := 32)) (name + of_nat (length (column 20 xs))) = 0" unfolding len by simp
    qed (use fit len in simp)
    moreover have "(?m2(name + of_nat ?n := 32)) x = m x" if "\<not> unat (x - name) < 21" for x
      using keep2 [OF that] at [of ?n] that True by auto
    ultimately show ?thesis using run True by auto
  next
    case False
    then have "column 20 xs = xs" by (simp add: column_def)
    then show ?thesis using start False str1 keep by (auto simp: kreturn_def)
  qed
qed

definition int_text :: "int \<Rightarrow> u8 list" where
  "int_text i = (if i < 0 then [45] else []) @ decimal (nat \<bar>i\<bar>)"

text \<open>A line of the listing.\<close>

definition ls_line :: "u8 list \<Rightarrow> int \<Rightarrow> u8 list" where
  "ls_line xs inum = column 20 xs @ [32] @ int_text inum @ [10]"

lemma int_text_i32:
  "length (int_text (sint (i :: i32))) \<le> 11" "0 \<notin> set (int_text (sint i))"
proof -
  have "\<bar>sint i\<bar> \<le> 2 ^ 31" using sint_greater_eq [of i] sint_less [of i] by simp
  then have "length (decimal (nat \<bar>sint i\<bar>)) \<le> Suc 9" by (intro length_decimal) simp
  then show "length (int_text (sint i)) \<le> 11" by (cases "sint i < 0") (simp_all add: int_text_def)
  show "0 \<notin> set (int_text (sint i))" using decimal_chars [of 0] by (auto simp: int_text_def)
qed

lemma render_ls_line:
  "render [a \<mapsto> column 20 xs] (ascii ls_format) False False [a, scast (i :: i32)] = Some (ls_line xs (sint i))"
proof -
  have "ucast (scast i :: u64) = i" using ucast_sum [of i 0] by simp
  moreover have "sint i \<noteq> - (2 ^ 63)" using sint_greater_eq [of i] by simp
  ultimately show ?thesis by (simp add: conversion_def ls_line_def int_text_def ls_format_def)
qed

text \<open>What the memory of the process has to satisfy: the entry that \<^verbatim>\<open>readdir_u\<close> has filled, the arrays and the literal lie apart.\<close>

definition ls_memory :: "shell_vars \<Rightarrow> u64 \<Rightarrow> u64 \<Rightarrow> u8 list \<Rightarrow> bmem \<Rightarrow> bool" where
  "ls_memory v dir name xs m \<longleftrightarrow> 
     cstring m dir xs \<and> length xs < 32 \<and> beside name dir 36 \<and> cstring m (lit v ls_format) (ascii ls_format) \<and> beside name (lit v ls_format) 7 \<and>
     unat (out_buf v) + 256 < 2 ^ 64 \<and> apart (out_buf v) 256 name 20 \<and> apart (out_buf v) 256 dir (length xs) \<and> apart (out_buf v) 256 (lit v ls_format) 6"

lemma length_ls_format: "length ls_format = 6"
  by (simp add: ls_format_def)

lemma beside_mono: "beside name a k \<Longrightarrow> j \<le> k \<Longrightarrow> beside name a j"
  by (auto simp: beside_def)

lemma ls_row_eq:
  assumes mem: "ls_memory v dir name xs m"
  shows "\<exists>m'. ls_row K v dir name (m, k) = kbind (do_user_call K SYS_user_print (out_buf v)
      (of_nat (length (ls_line xs (sint (ld32 m (dir + 32)))))) 0 0 0 0 0) (\<lambda>_. kreturn ()) (m', k) \<and>
    cstring m' (out_buf v) (ls_line xs (sint (ld32 m (dir + 32))))"
proof -
  let ?i = "ld32 m (dir + 32)" and ?out = "out_buf v"
  let ?bs = "ls_line xs (sint ?i)"
  note M = mem [unfolded ls_memory_def]
  have "beside name dir (Suc (length xs))" using beside_mono [of name dir 36 "Suc (length xs)"] M by simp
  from ls_pad_eq [OF _ this] M obtain m1 a where p: "ls_pad dir name m = (Inr a, m1)" "cstring m1 a (column 20 xs)"
    "a = (if length xs < 20 then name else dir)" "\<forall>x. \<not> unat (x - name) < 21 \<longrightarrow> m1 x = m x" by blast
  have i: "ld32 m1 (dir + 32) = ?i"
  proof (rule ld32_cong)
    fix j :: nat assume "j < 4"
    then have "\<not> unat (dir + of_nat (32 + j) - name) < 21" using M by (intro beside_at [where k = 36]) auto
    then have "m1 (dir + of_nat (32 + j)) = m (dir + of_nat (32 + j))" using p(4) by blast
    then show "m1 (dir + 32 + of_nat j) = m (dir + 32 + of_nat j)" by (simp add: add.assoc)
  qed
  have fmt: "cstring m1 (lit v ls_format) (ascii ls_format)"
    by (rule cstring_beside [of m _ _ name]) (use M p(4) in \<open>simp_all add: length_ls_format\<close>)
  have len: "length (column 20 xs) = (if length xs < 20 then 20 else length xs)" by (simp add: column_def)
  have "strings_at m1 ?out 256 [a \<mapsto> column 20 xs]"
    using p(2) M len unfolding strings_at_def p(3) by (simp split: if_splits)
  moreover have short: "length ?bs < 64" using int_text_i32(1) [of ?i] len M by (simp add: ls_line_def split: if_splits)
  ultimately have vs: "vsnprintf ?out 256 (lit v ls_format) [a, scast ?i] m1 = (Inr (int (length ?bs)), printed m1 ?out 256 ?bs)"
    using M by (intro vsnprintf_eq [OF fmt _ _ render_ls_line]) (simp_all add: length_ls_format)
  have "0 \<notin> set xs" using cstring_char(1) [of m dir xs] M by (metis in_set_conv_nth)
  then have "cstring (printed m1 ?out 256 ?bs) ?out ?bs"
    using short M int_text_i32(2) [of ?i] by (intro cstring_printed) (auto simp: ls_line_def column_def)
  moreover have "word_of_int (int (length ?bs)) < (256 :: u64)" using short unat_of_nat64 [of "length ?bs"] by (simp add: word_less_nat_alt)
  then have "ls_row K v dir name (m, k) = kbind (do_user_call K SYS_user_print ?out (of_nat (length ?bs)) 0 0 0 0 0) (\<lambda>_. kreturn ())
      (printed m1 ?out 256 ?bs, k)"
    using p(1) vs i by (simp add: ls_row_def say_def printu_def on_memory_def load_int_def int_call_def kbind_assoc kbind_return kbind_run kbind_get Let_def)
  ultimately show ?thesis by blast
qed

text \<open>
  C40. A line of the listing of \<^verbatim>\<open>app_ls.c\<close>, from the directory entry to the system call: when the entry has the name \<open>xs\<close>, shorter than its field, and the arrays of the
  process do not overlap, the body of the loop makes one print call, of a text that is the name filled with spaces to 20 characters (a longer name as it is),
  a space, the inode number in decimal and a newline; the text is complete, NUL-terminated and its length is the one passed to the kernel.
\<close>

theorem ls_row_prints:
  assumes "ls_memory v dir name xs m"
  shows "\<exists>m'. ls_row K v dir name (m, k) = kbind (do_user_call K SYS_user_print (out_buf v)
      (of_nat (length (ls_line xs (sint (ld32 m (dir + 32)))))) 0 0 0 0 0) (\<lambda>_. kreturn ()) (m', k) \<and>
    cstring m' (out_buf v) (ls_line xs (sint (ld32 m (dir + 32))))"
  using assms by (rule ls_row_eq)

text \<open>The entry \<^verbatim>\<open>ab\<close> with the inode number 7 at 1000, the array \<^verbatim>\<open>name\<close> at 2000 and the literal at 4000; the system call prints nothing and returns 0.\<close>

definition demo_ls :: bmem where
  "demo_ls = put_bytes 4000 (ascii ls_format) ((\<lambda>_. 0)(1000 := 97, 1001 := 98, 1032 := 7))"

definition demo_ls_vars :: shell_vars where
  "demo_ls_vars = \<lparr>cmd = 0, arg = 0, path_buf = 0, out_buf = 3000, in_buf = 0, lit = (\<lambda>_. 4000)\<rparr>"

lemma apart_far:
  assumes "unat a + k < 2 ^ 64" "unat out + unat n < 2 ^ 64" "unat a + k < unat out \<or> unat out + unat n \<le> unat a"
  shows "apart out n a k"
  unfolding apart_def
proof
  fix x assume "x \<in> span a k"
  then obtain j where j: "j \<le> k" "x = a + of_nat j" by (auto simp: span_at)
  then have x: "unat x = unat a + j" using unat_at [of a j] assms(1) by simp
  show "unat n \<le> unat (x - out)"
    using assms j(1) unat_sub_if' [of x out] unat_bound64 [of out] unfolding x by (auto split: if_splits)
qed

lemma demo_ls_memory: "ls_memory demo_ls_vars 1000 2000 (ascii ''ab'') demo_ls"
proof -
  have "cstring demo_ls 1000 (ascii ''ab'')" by (simp add: demo_ls_def ls_format_def)
  moreover have "cstring demo_ls 4000 (ascii ls_format)" by (simp add: demo_ls_def ls_format_def)
  moreover have "apart 3000 256 2000 20" "apart 3000 256 1000 (length (ascii ''ab''))" "apart 3000 256 4000 6" by (rule apart_far; simp)+
  moreover have "beside 2000 1000 36" "beside 2000 4000 7" by (simp_all add: beside_def)
  ultimately show ?thesis by (simp only: ls_memory_def demo_ls_vars_def shell_vars.simps) simp
qed

theorem ls_row_prints_witness:
  "\<exists>m'. ls_row (\<lambda>_. kreturn 0) demo_ls_vars 1000 2000 (demo_ls, ()) = (Inr (), (m', ())) \<and>
     cstring m' 3000 (ascii ''ab                   7'' @ [10])"
proof -
  have "sint (ld32 demo_ls (1000 + 32)) = 7" by (simp add: ld32_def demo_ls_def ls_format_def)
  moreover have "ls_line (ascii ''ab'') 7 = ascii ''ab                   7'' @ [10]"
    by (simp add: ls_line_def column_def int_text_def decimal.simps numeral_nat)
  ultimately have line: "ls_line (ascii ''ab'') (sint (ld32 demo_ls (1000 + 32))) = ascii ''ab                   7'' @ [10]" by (simp only:)
  show ?thesis
    using ls_row_prints [OF demo_ls_memory, of "\<lambda>_. kreturn 0" "()"] unfolding line
    by (auto simp: demo_ls_vars_def do_user_call_def kbind_def kreturn_def simp del: cstring.simps)
qed

end
