(* ===== verification/Spec2Isabelle.thy ===== *)
theory Spec2Isabelle
  imports Prelude Sync Pmm Vmm Sched Strings Strap Fork Heap_Pages Rfs_Write
    Sem_App Snprintf Fdt Htif Machine Boot Proc_Space Malloc_Free Apps
begin

text \<open>
  A model of riscv-pke and the theorems about it.

  \<^bold>\<open>The program.\<close>  riscv-pke is a small operating system kernel for RISC-V that runs on a simulator and uses the simulator's host for input and
  output.  A hart starts in machine mode (\<^verbatim>\<open>kernel/machine\<close>), which hands most traps down and enters the kernel proper in supervisor mode
  (\<^verbatim>\<open>kernel/kernel.c\<close>).  The kernel keeps physical pages on a free list with reference counts, builds Sv39 page tables from
  them, schedules processes that it reaches through a table of 32 slots, and offers system calls: a page-wise and a byte-wise
  heap, fork with copy-on-write, exec of ELF files, wait, semaphores, and files, which go through a virtual file system to a
  RAM disk file system or to the files of the host.  Applications (\<^verbatim>\<open>user\<close>) call a library that traps into the kernel.

  \<^bold>\<open>How code becomes definitions.\<close>  A function of the source is a definition with its name.  Its type is the state-and-result type \<open>km\<close> of
  \<^verbatim>\<open>Prelude\<close>: it takes the state and gives a result, or the reason why control does not come back to the caller (\<open>kstop\<close>), together with
  the state it left.  The reasons are the calls that never return (a panic, killing the current process, switching to another
  process, shutting down, waiting for an interrupt, waiting for a lock that is held) and \<open>Fault\<close>, an access through a
  null pointer or outside an array.  The state is one record that grows by extension, in the order of the components: \<open>pmm_state\<close>
  (physical memory as the 512 doublewords of each page, the free list and the reference counts), \<open>vm_state\<close> (the root of the kernel's
  page table), \<open>kernel_state\<close> (processes, ready queue, semaphores, registers of the harts), \<open>fs_state\<close> (the structures of the file
  systems, one store per structure type, and the calls made to the host), and \<open>machine_state\<close>.  An operation of a lower
  component is written for every extension of its record, so the higher components call it as it is.  Machine integers
  are words of their width, the C type \<^verbatim>\<open>int\<close> is a signed 32-bit word in registers, on disk and in semaphores and \<open>int\<close> where the source cannot
  overflow it.  Strings of the library functions live in a memory of bytes (\<open>bmem\<close>).

  \<^bold>\<open>Theories, from the bottom up.\<close>

  \<^item> \<^verbatim>\<open>Prelude\<close>: types of \<^verbatim>\<open>util/types.h\<close>, rounding of \<^verbatim>\<open>util/functions.h\<close>, the operations of \<open>km\<close>, loops (\<open>kwhile\<close>, \<open>kfor\<close>), weakest
    preconditions (\<open>kwp\<close>, collection \<open>kwp_simps\<close>) and the running of an operation (\<open>krun_defs\<close>).
  \<^item> \<^verbatim>\<open>Sync\<close>: \<^verbatim>\<open>kernel/riscv.h\<close> (spinlock), \<^verbatim>\<open>kernel/sync_utils.h\<close>, \<^verbatim>\<open>spike_interface/atomic.h\<close>, each also as an interleaving of harts.
    The first lock excludes, the barrier holds all harts and lets all of them go, and the second lock does not exclude, because its swap
    is a read and a write.
  \<^item> \<^verbatim>\<open>Pmm\<close>: \<^verbatim>\<open>kernel/pmm.c\<close>.  The invariant \<open>pmm_inv s xs\<close> says that \<open>xs\<close> are the free pages in the order of the list, without references.  The locale
    \<open>page_allocator\<close> is the contract of the allocator and \<open>pmm\<close> its interpretation on these operations.
  \<^item> \<^verbatim>\<open>Vmm\<close>, \<^verbatim>\<open>Vm_Lemmas\<close>: \<^verbatim>\<open>kernel/vmm.c\<close>.  \<open>pt_entry\<close> reads the entry of an address off the tables in memory; \<open>vm_inv R s xs\<close> adds to
    \<open>pmm_inv\<close> that the page tables with roots \<open>R\<close> form disjoint trees without free pages.  Mapping, unmapping, translating and marking
    copy-on-write change exactly the entries they name, in one address space.  A range needs at most two table pages for each 2 MB it touches
    (\<open>page_walk_need\<close>), which is how theorems without a failure case are stated.
  \<^item> \<^verbatim>\<open>Sched\<close>: \<^verbatim>\<open>kernel/sched.c\<close>, the types of \<^verbatim>\<open>kernel/process.h\<close>, semaphores, exit, wait, yield and the round robin.  The locale \<open>dispatch_queue\<close> (a queue whose
    elements are run in order) is interpreted by the linked ready queue (\<open>rq\<close>).
  \<^item> \<^verbatim>\<open>Strings\<close>: \<^verbatim>\<open>util/string.c\<close>; \<^verbatim>\<open>Snprintf\<close>: \<^verbatim>\<open>util/snprintf.c\<close>, equal to the rendering \<open>render\<close> of a format as a list.
  \<^item> \<^verbatim>\<open>Fs_State\<close>, \<^verbatim>\<open>Hash_Table\<close>, \<^verbatim>\<open>Vfs_Objects\<close>: the structures of the file systems, \<^verbatim>\<open>util/hash_table.c\<close> and the caches and constructors of
    \<^verbatim>\<open>kernel/vfs.c\<close>.  Inside the locale \<open>hash_layout\<close> a table is a finite dictionary; \<open>dh\<close> and \<open>vh\<close> are the caches of dentries and vinodes.
  \<^item> \<^verbatim>\<open>Ramdev\<close>, \<^verbatim>\<open>Rfs\<close>, \<^verbatim>\<open>Rfs_File\<close>, \<^verbatim>\<open>Rfs_Dir\<close>: \<^verbatim>\<open>kernel/ramdev.c\<close> and \<^verbatim>\<open>kernel/rfs.c\<close>; \<^verbatim>\<open>Rfs_Disk\<close>, \<^verbatim>\<open>Rfs_Read\<close> and \<^verbatim>\<open>Rfs_Write\<close> have the theorems: the locale \<open>block_device\<close>,
    interpreted by the RAM disk (\<open>ramdisk\<close>), the inode table, the free map, reading a file, and writing one (\<open>rfs_write_bytes\<close>) with the round trip (\<open>rfs_write_read\<close>).
  \<^item> \<^verbatim>\<open>Spike_File\<close>, \<^verbatim>\<open>Hostfs\<close>: \<^verbatim>\<open>spike_interface/spike_file.c\<close> and \<^verbatim>\<open>kernel/hostfs.c\<close>, over the host as a parameter.
  \<^item> \<^verbatim>\<open>Vfs\<close>, \<^verbatim>\<open>Proc_File\<close>: \<^verbatim>\<open>kernel/vfs.c\<close> and \<^verbatim>\<open>kernel/proc_file.c\<close>: descriptors and the path of the working directory.
  \<^item> \<^verbatim>\<open>Process\<close>, \<^verbatim>\<open>Malloc\<close>: \<^verbatim>\<open>kernel/process.c\<close>; \<^verbatim>\<open>Proc_Space\<close> shows what address space a new process gets, \<^verbatim>\<open>Fork\<close> how fork shares the heap, and
    \<^verbatim>\<open>Heap_Pages\<close> that a freed heap page is handed out again.  \<^verbatim>\<open>Malloc_Lists\<close> has the linked lists of the byte-wise heap; \<^verbatim>\<open>Malloc_Heap\<close> its invariant \<open>heap_inv\<close> and
    the theorem that \<^verbatim>\<open>user_better_malloc\<close> hands out memory of its own, \<^verbatim>\<open>Malloc_Free\<close> the theorem about \<^verbatim>\<open>user_better_free\<close>.
  \<^item> \<^verbatim>\<open>Debug_Line\<close>, \<^verbatim>\<open>Elf\<close>: \<^verbatim>\<open>kernel/elf.c\<close>; the integers of the line tables are decoded as DWARF encodes them.
  \<^item> \<^verbatim>\<open>Syscall\<close>, \<^verbatim>\<open>Strap\<close>: \<^verbatim>\<open>kernel/syscall.c\<close> and \<^verbatim>\<open>kernel/strap.c\<close>.  The theorems about copy-on-write, fresh pages and killing are about the whole handler
    \<^verbatim>\<open>smode_trap_handler\<close>, from the trap to the process that runs next.
  \<^item> \<^verbatim>\<open>Fdt\<close>: \<^verbatim>\<open>spike_interface/dts_parse.c\<close> with \<^verbatim>\<open>spike_memory.c\<close> and the discovery in \<^verbatim>\<open>spike_htif.c\<close>.  \<open>forest_at\<close> relates a blob to the trees it encodes;
    the locale \<open>fdt_client\<close> is what the scanner asks of its callbacks, interpreted by both clients (\<open>mem\<close>, \<open>htif\<close>).
    The size of the memory is the one that a reference over the trees computes (\<open>mem_nodes\<close>, \<open>node_ranges\<close>), and a malformed node stops the scan as \<open>reg_stop\<close> says
    (\<open>query_mem_finds_kernel\<close>).
  \<^item> \<^verbatim>\<open>Htif\<close>: \<^verbatim>\<open>spike_interface/spike_htif.c\<close> and the calls and printing of \<^verbatim>\<open>spike_utils.c\<close>, over a host that acts between two readings of the registers.
  \<^item> \<^verbatim>\<open>Machine\<close>: \<^verbatim>\<open>kernel/machine/minit.c\<close>, \<^verbatim>\<open>mtrap.c\<close> and \<^verbatim>\<open>mtrap_vector.S\<close>; \<^verbatim>\<open>Boot\<close>: \<^verbatim>\<open>kernel/kernel.c\<close>.
  \<^item> \<^verbatim>\<open>User_Lib\<close>, \<^verbatim>\<open>Shell\<close>: \<^verbatim>\<open>user/user_lib.c\<close> and \<^verbatim>\<open>user/start.c\<close>, over the \<^verbatim>\<open>ecall\<close> as a parameter, which the kernel's dispatcher instantiates.
  \<^item> \<^verbatim>\<open>Sem_App\<close>: \<^verbatim>\<open>user/app_semaphore.c\<close>, three processes on the scheduler and the semaphores of \<^verbatim>\<open>Sched\<close>; \<open>sched_view\<close> is the part of the kernel's state that
    decides who runs, and \<open>app_inv\<close> follows the turn from one process to the next under any timer interrupts.
  \<^item> \<^verbatim>\<open>Apps\<close>: the other applications of \<^verbatim>\<open>user\<close> over the user library.
\<close>

text \<open>
  \<^bold>\<open>What the theorems show, across components.\<close>  From the allocator up to the applications they follow a page: the boot code puts all pages
  of memory on the free list (\<open>pmm_init_correct\<close>) and maps the memory to itself with code and data apart (\<open>boot_identity_map\<close>); a new process
  gets an address space with exactly its stack, trapframe and the trap code (\<open>alloc_process_space\<close>); fork shares the heap pages that its filter lets through (all of the
  first eight; later ones depend on stack contents that a short \<^verbatim>\<open>memset\<close> leaves) and counts the references (\<open>fork_shares_heap\<close>); the first store of either process gives it a private copy and leaves the other one alone
  (\<open>cow_trap_private_copy\<close>), and the last owner keeps the page (\<open>cow_trap_last_owner\<close>); a page freed through the library comes back at the same
  address (\<open>naive_free_malloc\<close>), a block of the byte-wise heap overlaps no other and is
  mapped (\<open>better_malloc_block\<close>), and freeing one leaves all others mapped (\<open>better_free_block\<close>).  Other theorems follow control: an illegal instruction whose error message can be
  printed goes from machine mode to supervisor mode, kills the process, wakes its parent and schedules the next one, and one whose message cannot be printed stops the
  machine-mode handler (\<open>illegal_instruction_kills\<close>); queues are first-in first-out; \<open>schedule\<close> never returns; three processes that
  wait for each other's semaphores print in turn and the machine shuts down after the last line (\<open>semaphores_order_output\<close>).  Others follow data:
  what is written to a file of the RAM disk is in its blocks, no other file changes, and it is read back (\<open>rfs_write_bytes\<close>, \<open>rfs_write_read\<close>); a
  directory entry becomes a line of text in a system call (\<open>ls_row_prints\<close>).  Where the
  code does not do what it means to, the theorem states what it does (\<open>load_fault_not_resolved\<close>, \<open>exit_loses_semaphore_waiters\<close>,
  \<open>spinlock_lock_not_exclusive\<close>).

  \<^bold>\<open>Bounds.\<close>  A loop carries a number of rounds that no run of the code that ends can exceed, so that an exhausted bound only
  stands for a loop that does not end: \<open>page_loop_bound\<close> is the number of pages of a 64-bit address space, \<open>string_bound\<close> the number
  of its bytes, \<open>chain_bound\<close> the number of pages that the nodes of a hash chain or of a list of blocks can occupy, \<open>leb128_bound\<close> the ten bytes after which the shift of a
  LEB128 number reaches 64 (the source reads on, but contributes nothing), and the scan of the device tree
  descends at most as often as the address space has bytes.  The theorems show that the bounds are not reached, except for the loop of \<^verbatim>\<open>mem_done\<close> over ranges of no
  words, which does not end, and where the loop waits for something outside: the polling loops of \<^verbatim>\<open>Htif\<close> take the number of readings as an argument, and the theorem gives it from the promise of
  the host; the loop of the shell takes the number of commands.

  \<^bold>\<open>Parameters.\<close>  The host behind the interface (\<open>host\<close>, \<open>htif_host\<close>), what uninitialised buffers hold (\<open>junk\<close>), the addresses of linker
  symbols (\<open>syms\<close>, the end of the kernel and of its text), the addresses of local arrays and string literals where a function of the
  byte memory needs them, the extensions the machine implements, and the \<^verbatim>\<open>ecall\<close> of an application.

  \<^bold>\<open>Not modelled.\<close>  The assembly that saves and restores registers and sets up stacks (\<^verbatim>\<open>strap_vector.S\<close>, \<^verbatim>\<open>mentry.S\<close>, \<^verbatim>\<open>load_store.S\<close>, the register part of
  \<^verbatim>\<open>mtrap_vector.S\<close>) and the linker scripts: they are below the level of the C code.  The text that system calls print: in the
  model of the kernel a panic, an assertion and a shutdown are reasons for stopping, and the functions of \<^verbatim>\<open>spike_utils.c\<close> behind them are in \<^verbatim>\<open>Htif\<close>.
  The forks of \<^verbatim>\<open>app_semaphore.c\<close>: the theorem begins where they have returned.  Code between comment markers (an earlier scheduler in \<^verbatim>\<open>sched.c\<close>, a scanner in \<^verbatim>\<open>snprintf.c\<close>).
  Harts interleave only in \<^verbatim>\<open>Sync\<close>: everywhere else an operation runs on one hart to its end, and a lock that is taken is a reason for
  stopping; the TLB is transparent.
\<close>

end
